(* ===== verification/Prelude.thy ===== *)
theory Prelude
  imports Main "HOL-Library.Word" "HOL-Library.Multiset"
begin

text \<open>
  Shared vocabulary of the development: the machine integers of the Go program, its
  \<^verbatim>\<open>time.Time\<close> and \<^verbatim>\<open>time.Duration\<close>, the binary search of
  \<^verbatim>\<open>sort.Search\<close> and the contract of \<^verbatim>\<open>sort.Slice\<close>, with the list lemmas
  that several components use.

  \<^item> \<open>u8\<close>, \<open>u32\<close>, \<open>u64\<close> are words: their arithmetic wraps as in Go.
  \<^item> Go's \<open>string\<close> is a sequence of bytes; the model uses \<open>string\<close>, one \<open>char\<close> per byte.
  \<^item> A \<^verbatim>\<open>time.Time\<close> is the number of nanoseconds since year 1, so that the zero value of
    the Go type is \<open>0\<close>; \<open>time_sub\<close> saturates at the range of a 64-bit duration, as
    \<^verbatim>\<open>Time.Sub\<close> does.
  \<^item> \<^verbatim>\<open>sort.Slice\<close> is not stable: its result is some sorted permutation. Code whose result
    may depend on the order of equal elements takes the sorting function as an argument,
    with the locale \<open>slice_sorter\<close> as its contract; \<open>sort_by\<close> is an executable instance.
\<close>

section \<open>Collections of rewrite rules\<close>

named_theorems str_simps "facts about the string functions of the Go library"
named_theorems ip_simps "facts about IPv4 parsing and formatting"

section \<open>Machine integers and time\<close>

type_synonym u8 = "8 word"
type_synonym u32 = "32 word"
type_synonym u64 = "64 word"

type_synonym go_time = int
type_synonym duration = int

definition max_duration :: int where "max_duration = 9223372036854775807"
definition min_duration :: int where "min_duration = - 9223372036854775808"

definition second :: duration where "second = 1000000000"
definition minute :: duration where "minute = 60 * second"
definition hour :: duration where "hour = 60 * minute"
definition millisecond :: duration where "millisecond = 1000000"

lemmas duration_defs = second_def minute_def hour_def millisecond_def

definition time_sub :: "go_time \<Rightarrow> go_time \<Rightarrow> duration" where
  "time_sub a b = max min_duration (min max_duration (a - b))"

lemma time_sub_le_iff: "w < max_duration \<Longrightarrow> min_duration \<le> w \<Longrightarrow> time_sub a b \<le> w \<longleftrightarrow> a - b \<le> w"
  by (auto simp: time_sub_def max_duration_def min_duration_def)

lemma time_sub_self [simp]: "time_sub a a = 0"
  by (simp add: time_sub_def max_duration_def min_duration_def)

section \<open>Binary search: sort.Search\<close>

text \<open>
  \<^verbatim>\<open>sort.Search(n, f)\<close>: the loop \<open>i, j := 0, n; for i < j { h := (i+j)/2; ... }\<close>.
\<close>

function search_from :: "(nat \<Rightarrow> bool) \<Rightarrow> nat \<Rightarrow> nat \<Rightarrow> nat" where
  "search_from f i j =
     (if i < j then
        (let h = (i + j) div 2 in
           if \<not> f h then search_from f (Suc h) j else search_from f i h)
      else i)"
  by pat_completeness auto
termination
  by (relation "measure (\<lambda>(f, i, j). j - i)") auto

declare search_from.simps [simp del]

definition sort_search :: "nat \<Rightarrow> (nat \<Rightarrow> bool) \<Rightarrow> nat" where
  "sort_search n f = search_from f 0 n"

lemma search_from_spec:
  assumes "\<And>a b. i \<le> a \<Longrightarrow> a \<le> b \<Longrightarrow> b < j \<Longrightarrow> f a \<Longrightarrow> f b" and "i \<le> j"
  shows "i \<le> search_from f i j \<and> search_from f i j \<le> j
    \<and> (\<forall>k. i \<le> k \<longrightarrow> k < search_from f i j \<longrightarrow> \<not> f k)
    \<and> (\<forall>k. search_from f i j \<le> k \<longrightarrow> k < j \<longrightarrow> f k)"
  using assms
proof (induction f i j rule: search_from.induct)
  case (1 f i j)
  show ?case
  proof (cases "i < j")
    case False
    with "1.prems"(2) have "i = j" by simp
    then show ?thesis by (simp add: search_from.simps [of f j j])
  next
    case True
    define h where "h = (i + j) div 2"
    have h: "i \<le> h" "h < j" using True by (auto simp: h_def)
    show ?thesis
    proof (cases "f h")
      case False
      have eq: "search_from f i j = search_from f (Suc h) j"
        using True False by (simp add: search_from.simps [of f i j] h_def [symmetric] Let_def)
      have IH: "Suc h \<le> search_from f (Suc h) j \<and> search_from f (Suc h) j \<le> j
          \<and> (\<forall>k. Suc h \<le> k \<longrightarrow> k < search_from f (Suc h) j \<longrightarrow> \<not> f k)
          \<and> (\<forall>k. search_from f (Suc h) j \<le> k \<longrightarrow> k < j \<longrightarrow> f k)"
      proof (rule "1.IH"(1) [OF True h_def False])
        show "f b" if "Suc h \<le> a" "a \<le> b" "b < j" "f a" for a b
          using "1.prems"(1) [of a b] that h by linarith
        show "Suc h \<le> j" using h by simp
      qed
      have "\<not> f k" if "i \<le> k" "k < Suc h" for k
        using "1.prems"(1) [of k h] that h False by auto
      moreover have "i \<le> search_from f (Suc h) j" using IH h by linarith
      moreover have "\<not> f k" if "i \<le> k" "k < search_from f (Suc h) j" for k
        using IH calculation(1) [of k] that by (cases "k < Suc h") auto
      ultimately show ?thesis using IH unfolding eq by blast
    next
      case True2: True
      have eq: "search_from f i j = search_from f i h"
        using True True2 by (simp add: search_from.simps [of f i j] h_def [symmetric] Let_def)
      have IH: "i \<le> search_from f i h \<and> search_from f i h \<le> h
          \<and> (\<forall>k. i \<le> k \<longrightarrow> k < search_from f i h \<longrightarrow> \<not> f k)
          \<and> (\<forall>k. search_from f i h \<le> k \<longrightarrow> k < h \<longrightarrow> f k)"
      proof (rule "1.IH"(2) [OF True h_def])
        show "\<not> \<not> f h" using True2 by simp
        show "f b" if "i \<le> a" "a \<le> b" "b < h" "f a" for a b
          using "1.prems"(1) [of a b] that h by linarith
        show "i \<le> h" using h by simp
      qed
      have "f k" if "h \<le> k" "k < j" for k
        using "1.prems"(1) [of h k] that h True2 by auto
      moreover have "f k" if "search_from f i h \<le> k" "k < j" for k
        using IH calculation [of k] that by (cases "k < h") auto
      moreover have "search_from f i h \<le> j" using IH h by linarith
      ultimately show ?thesis using IH unfolding eq by blast
    qed
  qed
qed

lemma sort_search_spec:
  assumes "\<And>a b. a \<le> b \<Longrightarrow> b < n \<Longrightarrow> f a \<Longrightarrow> f b"
  shows "sort_search n f \<le> n \<and> (\<forall>k < sort_search n f. \<not> f k)
    \<and> (\<forall>k. sort_search n f \<le> k \<longrightarrow> k < n \<longrightarrow> f k)"
  using search_from_spec [of 0 n f] assms by (auto simp: sort_search_def)

lemma search_from_cong: "(\<And>k. k < j \<Longrightarrow> f k = g k) \<Longrightarrow> search_from f i j = search_from g i j"
proof (induction f i j rule: search_from.induct)
  case (1 f i j)
  show ?case
  proof (cases "i < j")
    case True
    then have "(i + j) div 2 < j" by simp
    with 1 True show ?thesis
      by (simp add: search_from.simps [of f i j] search_from.simps [of g i j] Let_def)
  next
    case False
    then show ?thesis by (simp add: search_from.simps [of f i j] search_from.simps [of g i j])
  qed
qed

lemma sort_search_cong: "(\<And>k. k < n \<Longrightarrow> f k = g k) \<Longrightarrow> sort_search n f = sort_search n g"
  unfolding sort_search_def by (rule search_from_cong)

section \<open>Sorting: the contract of sort.Slice\<close>

locale slice_sorter =
  fixes le :: "'a \<Rightarrow> 'a \<Rightarrow> bool" and srt :: "'a list \<Rightarrow> 'a list"
  assumes srt_mset: "mset (srt xs) = mset xs"
    and srt_sorted: "sorted_wrt le (srt xs)"
begin

lemma srt_set [simp]: "set (srt xs) = set xs"
  using srt_mset [of xs] by (metis set_mset_mset)

lemma srt_length [simp]: "length (srt xs) = length xs"
  using srt_mset [of xs] by (metis size_mset)

lemma srt_distinct [simp]: "distinct (srt xs) = distinct xs"
  using srt_mset [of xs] by (metis mset_eq_imp_distinct_iff)

lemma srt_Nil [simp]: "srt [] = []"
  using srt_mset [of "[]"] by simp

end

section \<open>Invariants of transition systems\<close>

text \<open>
  The contract between the steps of a concurrent or reactive component and what is claimed of its
  reachable states: the initial states satisfy the invariant and every step keeps it.
\<close>

locale invariant_system =
  fixes init :: "'s \<Rightarrow> bool" and step :: "'s \<Rightarrow> 's \<Rightarrow> bool" and inv :: "'s \<Rightarrow> bool"
  assumes init_inv: "init s \<Longrightarrow> inv s"
    and step_inv: "inv s \<Longrightarrow> step s s' \<Longrightarrow> inv s'"
begin

lemma steps_inv: "step\<^sup>*\<^sup>* s s' \<Longrightarrow> inv s \<Longrightarrow> inv s'"
  by (induction rule: rtranclp_induct) (auto intro: step_inv)

lemma reachable_inv: "step\<^sup>*\<^sup>* s s' \<Longrightarrow> init s \<Longrightarrow> inv s'"
  by (blast intro: steps_inv init_inv)

end

section \<open>Insertion sort\<close>

text \<open>Insertion sort: what \<^verbatim>\<open>sort.Slice\<close> runs on at most twelve elements.\<close>

fun ins_by :: "('a \<Rightarrow> 'a \<Rightarrow> bool) \<Rightarrow> 'a \<Rightarrow> 'a list \<Rightarrow> 'a list" where
  "ins_by le x [] = [x]"
| "ins_by le x (y # ys) = (if le x y then x # y # ys else y # ins_by le x ys)"

fun sort_by :: "('a \<Rightarrow> 'a \<Rightarrow> bool) \<Rightarrow> 'a list \<Rightarrow> 'a list" where
  "sort_by le [] = []"
| "sort_by le (x # xs) = ins_by le x (sort_by le xs)"

lemma mset_ins_by [simp]: "mset (ins_by le x xs) = add_mset x (mset xs)"
  by (induction xs) auto

lemma mset_sort_by [simp]: "mset (sort_by le xs) = mset xs"
  by (induction xs) auto

lemma set_ins_by [simp]: "set (ins_by le x xs) = insert x (set xs)"
  by (induction xs) auto

lemma sorted_ins_by:
  assumes "transp le" "totalp le" "reflp le" "sorted_wrt le xs"
  shows "sorted_wrt le (ins_by le x xs)"
  using assms(4)
proof (induction xs)
  case Nil then show ?case by simp
next
  case (Cons y ys)
  show ?case
  proof (cases "le x y")
    case True
    with Cons.prems show ?thesis using assms(1) by (auto dest: transpD)
  next
    case False
    then have "le y x" using assms(2,3) by (metis reflpD totalpD)
    with Cons False show ?thesis by auto
  qed
qed

lemma slice_sorter_sort_by:
  assumes "transp le" "totalp le" "reflp le"
  shows "slice_sorter le (sort_by le)"
proof
  show "mset (sort_by le xs) = mset xs" for xs by simp
  show "sorted_wrt le (sort_by le xs)" for xs
    by (induction xs) (auto intro: sorted_ins_by [OF assms])
qed

text \<open>Sorting by a key that is a total order: the result does not depend on the algorithm.\<close>

lemma sorted_wrt_mset_unique:
  assumes "antisymp le" "sorted_wrt le xs" "sorted_wrt le ys" "mset xs = mset ys"
  shows "xs = ys"
  using assms(2-)
proof (induction xs arbitrary: ys)
  case Nil then show ?case by simp
next
  case (Cons x xs)
  then obtain y ys' where ys: "ys = y # ys'" by (cases ys) auto
  have "x = y"
  proof (rule ccontr)
    assume "x \<noteq> y"
    have "x \<in> set ys" "y \<in> set (x # xs)" using Cons.prems(3) ys
      by (metis list.set_intros(1) set_mset_mset)+
    with \<open>x \<noteq> y\<close> ys Cons.prems have "le x y" "le y x" by auto
    with \<open>x \<noteq> y\<close> assms(1) show False by (metis antisympD)
  qed
  with Cons ys show ?case by auto
qed

section \<open>Lists and options\<close>

lemma last_take_nth: "0 < k \<Longrightarrow> k \<le> length xs \<Longrightarrow> last (take k xs) = xs ! (k - 1)"
  by (cases xs) (auto simp: last_conv_nth)

lemma sum_list_drop_le: "sum_list (drop n xs) \<le> sum_list (xs :: nat list)"
  by (metis append_take_drop_id le_add2 sum_list_append)

fun first_some :: "('a \<Rightarrow> 'b option) \<Rightarrow> 'a list \<Rightarrow> 'b option" where
  "first_some f [] = None"
| "first_some f (x # xs) = (case f x of Some y \<Rightarrow> Some y | None \<Rightarrow> first_some f xs)"

end
