(* ===== verification/Go_Strings.thy ===== *)
theory Go_Strings
  imports Prelude
begin

text \<open>
  The functions of Go's \<^verbatim>\<open>strings\<close> and \<^verbatim>\<open>strconv\<close> packages that the modelled code calls, on
  byte strings. \<open>trim_space\<close> removes the encodings of all the white space code points that
  \<^verbatim>\<open>unicode.IsSpace\<close> knows. \<open>to_lower\<close> maps the letters of the two scripts the
  product is written for, Latin (ASCII) and Russian Cyrillic; the letters of other scripts are passed
  through.
\<close>

definition code :: "char \<Rightarrow> nat" where "code c = of_char c"

lemma code_less [simp]: "code c < 256"
  unfolding code_def using of_char_of [of "code c"] by (simp add: code_def)

lemma code_inj [simp]: "code c = code d \<longleftrightarrow> c = d"
  by (simp add: code_def)

definition byte :: "nat \<Rightarrow> char" where "byte n = char_of n"

lemma code_byte [simp]: "code (byte n) = n mod 256"
  by (simp add: code_def byte_def)

lemma byte_code [simp]: "byte (code c) = c"
  by (simp add: code_def byte_def)

section \<open>TrimSpace\<close>

definition ascii_space :: "char \<Rightarrow> bool" where
  "ascii_space c \<longleftrightarrow> code c \<in> {9, 10, 11, 12, 13, 32}"

text \<open>U+0085 and U+00A0 in UTF-8; then U+1680, U+2000..U+200A, U+2028, U+2029, U+202F, U+205F, U+3000.\<close>

definition space2 :: "char \<Rightarrow> char \<Rightarrow> bool" where
  "space2 c d \<longleftrightarrow> code c = 194 \<and> code d \<in> {133, 160}"

definition space3 :: "char \<Rightarrow> char \<Rightarrow> char \<Rightarrow> bool" where
  "space3 c d e \<longleftrightarrow>
     code c = 225 \<and> code d = 154 \<and> code e = 128
   \<or> code c = 226 \<and> code d = 128 \<and> (128 \<le> code e \<and> code e \<le> 138 \<or> code e \<in> {168, 169, 175})
   \<or> code c = 226 \<and> code d = 129 \<and> code e = 159
   \<or> code c = 227 \<and> code d = 128 \<and> code e = 128"

fun strip_space :: "string \<Rightarrow> string option" where
  "strip_space [] = None"
| "strip_space [c] = (if ascii_space c then Some [] else None)"
| "strip_space [c, d] = (if ascii_space c then Some [d] else if space2 c d then Some [] else None)"
| "strip_space (c # d # e # cs) =
     (if ascii_space c then Some (d # e # cs)
      else if space2 c d then Some (e # cs)
      else if space3 c d e then Some cs else None)"

fun strip_space_rev :: "string \<Rightarrow> string option" where
  "strip_space_rev [] = None"
| "strip_space_rev [c] = (if ascii_space c then Some [] else None)"
| "strip_space_rev [c, d] = (if ascii_space c then Some [d] else if space2 d c then Some [] else None)"
| "strip_space_rev (c # d # e # cs) =
     (if ascii_space c then Some (d # e # cs)
      else if space2 d c then Some (e # cs)
      else if space3 e d c then Some cs else None)"

lemma strip_space_suffix: "strip_space s = Some t \<Longrightarrow> \<exists>u. u \<noteq> [] \<and> s = u @ t"
  by (cases s rule: strip_space.cases) (auto split: if_splits)

lemma strip_space_rev_suffix: "strip_space_rev s = Some t \<Longrightarrow> \<exists>u. u \<noteq> [] \<and> s = u @ t"
  by (cases s rule: strip_space_rev.cases) (auto split: if_splits)

lemma strip_space_shorter: "strip_space s = Some t \<Longrightarrow> length t < length s"
  by (auto dest!: strip_space_suffix)

lemma strip_space_rev_shorter: "strip_space_rev s = Some t \<Longrightarrow> length t < length s"
  by (auto dest!: strip_space_rev_suffix)

function trim_left :: "string \<Rightarrow> string" where
  "trim_left s = (case strip_space s of None \<Rightarrow> s | Some t \<Rightarrow> trim_left t)"
  by pat_completeness auto
termination by (relation "measure length") (auto dest: strip_space_shorter)

function trim_left_rev :: "string \<Rightarrow> string" where
  "trim_left_rev s = (case strip_space_rev s of None \<Rightarrow> s | Some t \<Rightarrow> trim_left_rev t)"
  by pat_completeness auto
termination by (relation "measure length") (auto dest: strip_space_rev_shorter)

declare trim_left.simps [simp del] trim_left_rev.simps [simp del]

definition trim_right :: "string \<Rightarrow> string" where
  "trim_right s = rev (trim_left_rev (rev s))"

definition trim_space :: "string \<Rightarrow> string" where
  "trim_space s = trim_right (trim_left s)"

lemma strip_trim_left [simp]: "strip_space (trim_left s) = None"
proof (induction s rule: trim_left.induct)
  case (1 s)
  then show ?case by (cases "strip_space s") (simp_all add: trim_left.simps [of s])
qed

lemma strip_trim_left_rev [simp]: "strip_space_rev (trim_left_rev s) = None"
proof (induction s rule: trim_left_rev.induct)
  case (1 s)
  then show ?case by (cases "strip_space_rev s") (simp_all add: trim_left_rev.simps [of s])
qed

lemma trim_left_rev_suffix: "\<exists>u. s = u @ trim_left_rev s"
proof (induction s rule: trim_left_rev.induct)
  case (1 s)
  show ?case
  proof (cases "strip_space_rev s")
    case None
    then show ?thesis by (simp add: trim_left_rev.simps [of s])
  next
    case (Some t)
    then obtain u where u: "s = u @ t" by (auto dest: strip_space_rev_suffix)
    from "1" [OF Some] obtain v where "t = v @ trim_left_rev t" by blast
    with u Some show ?thesis
      by (metis append.assoc option.simps(5) trim_left_rev.simps)
  qed
qed

lemma trim_right_prefix: "\<exists>u. s = trim_right s @ u"
proof -
  obtain u where "rev s = u @ trim_left_rev (rev s)" using trim_left_rev_suffix by blast
  then have "s = rev (trim_left_rev (rev s)) @ rev u" by (metis rev_append rev_rev_ident)
  then show ?thesis by (auto simp: trim_right_def)
qed

lemma strip_space_mono: "strip_space s = Some t \<Longrightarrow> \<exists>t'. strip_space (s @ u) = Some t'"
  by (cases s rule: strip_space.cases; cases u rule: strip_space.cases) (auto split: if_splits)

lemma trim_left_id: "strip_space s = None \<Longrightarrow> trim_left s = s"
  by (simp add: trim_left.simps)

lemma trim_right_id: "strip_space_rev (rev s) = None \<Longrightarrow> trim_right s = s"
  by (simp add: trim_right_def trim_left_rev.simps)

lemma strip_trim_space: "strip_space (trim_space s) = None"
proof (rule ccontr)
  assume "strip_space (trim_space s) \<noteq> None"
  then obtain t where "strip_space (trim_right (trim_left s)) = Some t"
    by (auto simp: trim_space_def)
  moreover obtain u where "trim_left s = trim_right (trim_left s) @ u"
    using trim_right_prefix by blast
  ultimately obtain t' where "strip_space (trim_left s) = Some t'"
    by (metis strip_space_mono)
  then show False by simp
qed

lemma strip_rev_trim_space: "strip_space_rev (rev (trim_space s)) = None"
  by (simp add: trim_space_def trim_right_def)

lemma trim_space_idem [simp, str_simps]: "trim_space (trim_space s) = trim_space s"
  using strip_trim_space [of s] strip_rev_trim_space [of s]
  by (simp add: trim_space_def [of "trim_space s"] trim_left_id trim_right_id)

lemma trim_space_Nil [simp]: "trim_space [] = []"
  by (simp add: trim_space_def trim_left_id trim_right_id)

text \<open>Printable ASCII has nothing to trim.\<close>

definition plain :: "char \<Rightarrow> bool" where
  "plain c \<longleftrightarrow> 32 < code c \<and> code c < 127"

lemma plain_no_space: "plain c \<Longrightarrow> \<not> ascii_space c \<and> \<not> space2 c d \<and> \<not> space2 d c \<and>
    \<not> space3 c d e \<and> \<not> space3 e d c"
  by (auto simp: plain_def ascii_space_def space2_def space3_def)

lemma strip_space_plain: "plain (hd s) \<Longrightarrow> strip_space s = None"
  by (cases s rule: strip_space.cases) (auto simp: plain_no_space)

lemma strip_space_rev_plain: "plain (hd s) \<Longrightarrow> strip_space_rev s = None"
  by (cases s rule: strip_space_rev.cases) (auto simp: plain_no_space)

lemma trim_space_plain [str_simps]:
  assumes "plain (hd s)" "plain (last s)" shows "trim_space s = s"
proof (cases "s = []")
  case False
  with assms have "strip_space s = None" "strip_space_rev (rev s) = None"
    by (auto intro: strip_space_plain strip_space_rev_plain simp: hd_rev)
  then show ?thesis by (simp add: trim_space_def trim_left_id trim_right_id)
qed simp

section \<open>ToLower, EqualFold\<close>

fun to_lower :: "string \<Rightarrow> string" where
  "to_lower [] = []"
| "to_lower [c] = [if 65 \<le> code c \<and> code c \<le> 90 then byte (code c + 32) else c]"
| "to_lower (c # d # cs) =
     (if 65 \<le> code c \<and> code c \<le> 90 then byte (code c + 32) # to_lower (d # cs)
      else if code c = 208 \<and> 144 \<le> code d \<and> code d \<le> 159 then byte 208 # byte (code d + 32) # to_lower cs
      else if code c = 208 \<and> 160 \<le> code d \<and> code d \<le> 175 then byte 209 # byte (code d - 32) # to_lower cs
      else if code c = 208 \<and> 128 \<le> code d \<and> code d \<le> 143 then byte 209 # byte (code d + 16) # to_lower cs
      else c # to_lower (d # cs))"

definition equal_fold :: "string \<Rightarrow> string \<Rightarrow> bool" where
  "equal_fold a b \<longleftrightarrow> to_lower a = to_lower b"

lemma length_to_lower [simp, str_simps]: "length (to_lower s) = length s"
  by (induction s rule: to_lower.induct) auto

lemma to_lower_eq_Nil [simp]: "to_lower s = [] \<longleftrightarrow> s = []"
  by (metis length_0_conv length_to_lower)

lemma to_lower_ascii: "list_all (\<lambda>c. code c < 128) s \<Longrightarrow>
    to_lower s = map (\<lambda>c. if 65 \<le> code c \<and> code c \<le> 90 then byte (code c + 32) else c) s"
  by (induction s rule: to_lower.induct) auto

section \<open>Searching and splitting\<close>

definition has_prefix :: "string \<Rightarrow> string \<Rightarrow> bool" where
  "has_prefix s p \<longleftrightarrow> take (length p) s = p"

definition trim_prefix :: "string \<Rightarrow> string \<Rightarrow> string" where
  "trim_prefix s p = (if has_prefix s p then drop (length p) s else s)"

fun contains_str :: "string \<Rightarrow> string \<Rightarrow> bool" where
  "contains_str [] p \<longleftrightarrow> p = []"
| "contains_str (c # s) p \<longleftrightarrow> has_prefix (c # s) p \<or> contains_str s p"

text \<open>\<^verbatim>\<open>strings.IndexByte\<close> and the split at the first occurrence (\<^verbatim>\<open>Cut\<close>, \<^verbatim>\<open>SplitN(_, 2)\<close>).\<close>

fun cut_at :: "char \<Rightarrow> string \<Rightarrow> (string \<times> string) option" where
  "cut_at x [] = None"
| "cut_at x (c # s) =
     (if c = x then Some ([], s)
      else (case cut_at x s of None \<Rightarrow> None | Some (a, b) \<Rightarrow> Some (c # a, b)))"

lemma cut_at_None [simp]: "cut_at x s = None \<longleftrightarrow> x \<notin> set s"
  by (induction s) (auto split: option.splits)

lemma cut_at_Some: "cut_at x s = Some (a, b) \<longleftrightarrow> s = a @ x # b \<and> x \<notin> set a"
proof
  show "cut_at x s = Some (a, b) \<Longrightarrow> s = a @ x # b \<and> x \<notin> set a"
    by (induction s arbitrary: a) (auto split: option.splits if_splits)
  show "s = a @ x # b \<and> x \<notin> set a \<Longrightarrow> cut_at x s = Some (a, b)"
    by (induction a arbitrary: s) auto
qed

text \<open>\<^verbatim>\<open>strings.Index\<close>: the text before and after the first occurrence of a pattern.\<close>

fun cut_str :: "string \<Rightarrow> string \<Rightarrow> (string \<times> string) option" where
  "cut_str p [] = (if p = [] then Some ([], []) else None)"
| "cut_str p (c # s) =
     (if has_prefix (c # s) p then Some ([], drop (length p) (c # s))
      else (case cut_str p s of None \<Rightarrow> None | Some (a, b) \<Rightarrow> Some (c # a, b)))"

lemma cut_str_Some: "cut_str p s = Some (a, b) \<Longrightarrow> s = a @ p @ b"
proof (induction s arbitrary: a)
  case Nil then show ?case by (auto split: if_splits)
next
  case (Cons c s)
  show ?case
  proof (cases "has_prefix (c # s) p")
    case True
    with Cons.prems show ?thesis
      by (auto simp: has_prefix_def) (metis append_take_drop_id)
  next
    case False
    with Cons show ?thesis by (auto split: option.splits)
  qed
qed

section \<open>Decimal numbers\<close>

definition is_digit :: "char \<Rightarrow> bool" where
  "is_digit c \<longleftrightarrow> 48 \<le> code c \<and> code c \<le> 57"

definition digit_val :: "char \<Rightarrow> nat" where "digit_val c = code c - 48"

definition digit_char :: "nat \<Rightarrow> char" where "digit_char d = byte (48 + d)"

lemma is_digit_digit_char [simp]: "d < 10 \<Longrightarrow> is_digit (digit_char d)"
  by (simp add: is_digit_def digit_char_def)

lemma digit_val_digit_char [simp]: "d < 10 \<Longrightarrow> digit_val (digit_char d) = d"
  by (simp add: digit_val_def digit_char_def)

fun dec_nat :: "nat \<Rightarrow> string" where
  "dec_nat n = (if n < 10 then [digit_char n] else dec_nat (n div 10) @ [digit_char (n mod 10)])"

declare dec_nat.simps [simp del]

lemma dec_nat_digits: "c \<in> set (dec_nat n) \<Longrightarrow> is_digit c"
proof (induction n rule: dec_nat.induct)
  case (1 n)
  then show ?case by (cases "n < 10") (auto simp: dec_nat.simps [of n])
qed

lemma dec_nat_not_Nil [simp]: "dec_nat n \<noteq> []"
  by (subst dec_nat.simps) auto

lemma is_digit_plain: "is_digit c \<Longrightarrow> plain c"
  by (auto simp: is_digit_def plain_def)

lemma dec_nat_small:
  "n < 10 \<Longrightarrow> dec_nat n = [digit_char n]"
  "10 \<le> n \<Longrightarrow> n < 100 \<Longrightarrow> dec_nat n = [digit_char (n div 10), digit_char (n mod 10)]"
  "100 \<le> n \<Longrightarrow> n < 1000 \<Longrightarrow> dec_nat n =
     [digit_char (n div 100), digit_char (n div 10 mod 10), digit_char (n mod 10)]"
proof -
  show "n < 10 \<Longrightarrow> dec_nat n = [digit_char n]" by (simp add: dec_nat.simps)
  show two: "10 \<le> m \<Longrightarrow> m < 100 \<Longrightarrow> dec_nat m = [digit_char (m div 10), digit_char (m mod 10)]" for m
    by (subst dec_nat.simps) (simp add: dec_nat.simps [of "m div 10"] less_mult_imp_div_less)
  show "100 \<le> n \<Longrightarrow> n < 1000 \<Longrightarrow> dec_nat n =
     [digit_char (n div 100), digit_char (n div 10 mod 10), digit_char (n mod 10)]"
    using two [of "n div 10"] by (subst dec_nat.simps) (simp add: div_mult2_eq [symmetric])
qed

end
