(* ===== verification/IPv4.thy ===== *)
theory IPv4
  imports Go_Strings
begin

unbundle bit_operations_syntax

text \<open>
  Addresses: the parts of Go's \<^verbatim>\<open>net\<close> package that the program uses (\<^verbatim>\<open>ParseIP\<close>,
  \<^verbatim>\<open>ParseCIDR\<close>, \<^verbatim>\<open>IP.To4\<close>, \<^verbatim>\<open>IP.String\<close> on IPv4 and the address class predicates), the
  conversions of \<^verbatim>\<open>geoip/index.go\<close>, the network field of the CSV files
  (\<^verbatim>\<open>geoip/csv.go\<close>, \<^verbatim>\<open>reputation/format_network.go\<close>), the non-public address test of
  \<^verbatim>\<open>netutil/nonpublic.go\<close> and the address resolution of \<^verbatim>\<open>safeurl/ipv4.go\<close>.

  A \<^verbatim>\<open>net.IP\<close> is a byte slice: 4 or 16 bytes, and the empty list for \<^verbatim>\<open>nil\<close>.
\<close>

section \<open>Byte slices and 32-bit values\<close>

type_synonym net_ip = "u8 list"

definition be_u32 :: "u8 \<Rightarrow> u8 \<Rightarrow> u8 \<Rightarrow> u8 \<Rightarrow> u32" where
  "be_u32 a b c d = push_bit 24 (ucast a) OR push_bit 16 (ucast b) OR push_bit 8 (ucast c) OR ucast d"

definition octets :: "u32 \<Rightarrow> net_ip" where
  "octets v = [ucast (drop_bit 24 v), ucast (drop_bit 16 v), ucast (drop_bit 8 v), ucast v]"

definition v4_prefix :: net_ip where
  "v4_prefix = replicate 10 0 @ [0xFF, 0xFF]"

definition to4 :: "net_ip \<Rightarrow> net_ip" where
  "to4 ip = (if length ip = 4 then ip
     else if length ip = 16 \<and> take 12 ip = v4_prefix then drop 12 ip else [])"

text \<open>geoip/index.go: IPv4ToUint32\<close>

definition ipv4_to_uint32 :: "net_ip \<Rightarrow> u32" where
  "ipv4_to_uint32 ip = (case to4 ip of [a, b, c, d] \<Rightarrow> be_u32 a b c d | _ \<Rightarrow> 0)"

lemma length_octets [simp]: "length (octets v) = 4"
  by (simp add: octets_def)

lemma length_v4_prefix [simp]: "length v4_prefix = 12"
  by (simp add: v4_prefix_def)

lemma to4_octets [simp, ip_simps]: "to4 (octets v) = octets v"
  by (simp add: to4_def)

lemma to4_mapped [simp, ip_simps]: "to4 (v4_prefix @ octets v) = octets v"
  by (simp add: to4_def)

lemma to4_Nil [simp]: "to4 [] = []"
  by (simp add: to4_def)

lemma length_to4: "to4 ip \<noteq> [] \<Longrightarrow> length (to4 ip) = 4"
  by (auto simp: to4_def split: if_splits)

lemma to4_to4 [simp]: "to4 (to4 ip) = to4 ip"
  by (auto simp: to4_def)

lemma be_u32_octets [simp]:
  "be_u32 (ucast (drop_bit 24 v)) (ucast (drop_bit 16 v)) (ucast (drop_bit 8 v)) (ucast v) = v"
proof (rule bit_word_eqI)
  fix n assume "n < LENGTH(32)"
  then consider "n < 8" | "8 \<le> n" "n < 16" | "16 \<le> n" "n < 24" | "24 \<le> n" "n < 32" by force
  then show "bit (be_u32 (ucast (drop_bit 24 v)) (ucast (drop_bit 16 v)) (ucast (drop_bit 8 v)) (ucast v)) n
      = bit v n"
    by cases (auto simp: be_u32_def bit_simps)
qed

lemma not_bit_u8: "8 \<le> n \<Longrightarrow> \<not> bit (a :: u8) n"
  using bit_imp_le_length [of a n] by auto

lemma octets_be_u32 [simp, ip_simps]: "octets (be_u32 a b c d) = [a, b, c, d]"
  unfolding octets_def be_u32_def
  by (auto intro!: bit_word_eqI simp: bit_simps not_bit_u8)

lemma ipv4_to_uint32_octets [simp, ip_simps]: "ipv4_to_uint32 (octets v) = v"
  by (simp add: ipv4_to_uint32_def) (simp add: octets_def)

lemma to4_is_octets: "to4 ip \<noteq> [] \<Longrightarrow> to4 ip = octets (ipv4_to_uint32 ip)"
proof -
  assume "to4 ip \<noteq> []"
  then obtain a b c d where "to4 ip = [a, b, c, d]"
    using length_to4 [of ip] by (auto simp: length_Suc_conv numeral_eq_Suc)
  then show ?thesis by (simp add: ipv4_to_uint32_def)
qed

lemma octets_inj: "octets v = octets w \<longleftrightarrow> v = w"
  by (metis ipv4_to_uint32_octets)

lemma octets_unat:
  "map unat (octets v) = [unat v div 2 ^ 24, unat v div 2 ^ 16 mod 256, unat v div 2 ^ 8 mod 256, unat v mod 256]"
proof -
  have "unat v < 2 ^ 32" using unsigned_less [of v] by simp
  then show ?thesis
    by (simp add: octets_def unsigned_ucast_eq unsigned_drop_bit_eq drop_bit_eq_div take_bit_eq_mod
        unat_div less_mult_imp_div_less)
qed

section \<open>Text of an IPv4 address\<close>

text \<open>\<^verbatim>\<open>net.IPv4(a, b, c, d).String()\<close> and geoip/index.go: Uint32ToIP\<close>

fun dotted :: "net_ip \<Rightarrow> string" where
  "dotted [] = []"
| "dotted [a] = dec_nat (unat a)"
| "dotted (a # as) = dec_nat (unat a) @ CHR ''.'' # dotted as"

definition uint32_to_ip :: "u32 \<Rightarrow> string" where
  "uint32_to_ip v = dotted (octets v)"

text \<open>\<^verbatim>\<open>parseIPv4Fields\<close>: value and digit count of the current octet, the octets before it.\<close>

fun ipv4_fields :: "nat \<Rightarrow> nat \<Rightarrow> u8 list \<Rightarrow> string \<Rightarrow> u8 list option" where
  "ipv4_fields val dig fs [] = (if length fs < 3 then None else Some (fs @ [of_nat val]))"
| "ipv4_fields val dig fs (c # s) =
     (if is_digit c then
        (if dig = 1 \<and> val = 0 then None
         else if val * 10 + digit_val c > 255 then None
         else ipv4_fields (val * 10 + digit_val c) (Suc dig) fs s)
      else if c = CHR ''.'' then
        (if dig = 0 \<or> s = [] then None
         else if length fs = 3 then None
         else ipv4_fields 0 0 (fs @ [of_nat val]) s)
      else None)"

lemma ipv4_fields_length: "ipv4_fields val dig fs s = Some r \<Longrightarrow> length fs \<le> 3 \<Longrightarrow> length r = 4"
  by (induction val dig fs s rule: ipv4_fields.induct) (auto split: if_splits)

lemma not_digit_dot [simp]: "\<not> is_digit (CHR ''.'')"
  by (simp add: is_digit_def code_def)

lemma ipv4_fields_step:
  "d < 10 \<Longrightarrow> v * 10 + d \<le> 255 \<Longrightarrow> v \<noteq> 0 \<or> k \<noteq> 1 \<Longrightarrow>
    ipv4_fields v k fs (digit_char d # t) = ipv4_fields (v * 10 + d) (Suc k) fs t"
  by auto

lemma ipv4_fields_digits:
  assumes "n < 256"
  shows "ipv4_fields 0 0 fs (dec_nat n @ t) = ipv4_fields n (length (dec_nat n)) fs t"
proof -
  consider "n < 10" | "10 \<le> n" "n < 100" | "100 \<le> n" "n < 1000" using assms by linarith
  then show ?thesis
  proof cases
    case 1
    then show ?thesis by (simp add: dec_nat_small)
  next
    case 2
    define a b where "a = n div 10" and "b = n mod 10"
    have ab: "0 < a" "a < 10" "b < 10" and n: "n = a * 10 + b" using 2 by (auto simp: a_def b_def)
    have dec: "dec_nat n = [digit_char a, digit_char b]"
      using dec_nat_small(2) [OF 2] by (simp add: a_def b_def)
    have "ipv4_fields 0 0 fs ([digit_char a, digit_char b] @ t) = ipv4_fields (a * 10 + b) (Suc (Suc 0)) fs t"
      using ab by simp
    then show ?thesis unfolding dec n [symmetric] list.size by (simp only: add_0_right add_Suc_right)
  next
    case 3
    define a b c where "a = n div 100" and "b = n div 10 mod 10" and "c = n mod 10"
    have "a = n div 10 div 10" by (simp add: a_def div_mult2_eq [symmetric])
    then have n: "n = (a * 10 + b) * 10 + c" by (simp add: b_def c_def)
    have abc: "0 < a" "a < 10" "b < 10" "c < 10" using 3 by (auto simp: a_def b_def c_def)
    have le: "a * 10 + b \<le> 255" "(a * 10 + b) * 10 + c \<le> 255" using n assms by auto
    have dec: "dec_nat n = [digit_char a, digit_char b, digit_char c]"
      using dec_nat_small(3) [OF 3] by (simp add: a_def b_def c_def)
    have "ipv4_fields 0 0 fs (digit_char a # digit_char b # digit_char c # t) =
        ipv4_fields (0 * 10 + a) (Suc 0) fs (digit_char b # digit_char c # t)"
      by (rule ipv4_fields_step) (use abc in auto)
    also have "\<dots> = ipv4_fields (a * 10 + b) (Suc (Suc 0)) fs (digit_char c # t)"
      unfolding mult_0 add_0 by (rule ipv4_fields_step) (use abc le in auto)
    also have "\<dots> = ipv4_fields ((a * 10 + b) * 10 + c) (Suc (Suc (Suc 0))) fs t"
      by (rule ipv4_fields_step) (use abc le in auto)
    finally have "ipv4_fields 0 0 fs ([digit_char a, digit_char b, digit_char c] @ t) =
        ipv4_fields ((a * 10 + b) * 10 + c) (Suc (Suc (Suc 0))) fs t"
      unfolding append.simps .
    then show ?thesis unfolding dec n [symmetric] list.size by (simp only: add_0_right add_Suc_right)
  qed
qed

lemma ipv4_fields_dec:
  assumes "n < 256"
  shows "ipv4_fields 0 0 fs (dec_nat n @ CHR ''.'' # s) =
     (if s = [] \<or> length fs = 3 then None else ipv4_fields 0 0 (fs @ [of_nat n]) s)"
    and "ipv4_fields 0 0 fs (dec_nat n) = (if length fs < 3 then None else Some (fs @ [of_nat n]))"
proof -
  have "ipv4_fields 0 0 fs (dec_nat n @ t) = ipv4_fields n (length (dec_nat n)) fs t" for t
    by (rule ipv4_fields_digits [OF assms])
  then show "ipv4_fields 0 0 fs (dec_nat n @ CHR ''.'' # s) =
     (if s = [] \<or> length fs = 3 then None else ipv4_fields 0 0 (fs @ [of_nat n]) s)"
    and "ipv4_fields 0 0 fs (dec_nat n) = (if length fs < 3 then None else Some (fs @ [of_nat n]))"
    by simp_all (metis append_Nil2 ipv4_fields.simps(1))
qed

lemma unat_u8 [simp]: "unat (a :: u8) < 256"
  using unsigned_less [of a] by simp

lemma ipv4_fields_dotted [ip_simps]: "ipv4_fields 0 0 [] (dotted [a, b, c, d]) = Some [a, b, c, d]"
  by (simp add: ipv4_fields_dec)

text \<open>\<^verbatim>\<open>parseIPv6\<close>\<close>

definition hex_val :: "char \<Rightarrow> nat option" where
  "hex_val c =
     (if is_digit c then Some (code c - 48)
      else if 97 \<le> code c \<and> code c \<le> 102 then Some (code c - 87)
      else if 65 \<le> code c \<and> code c \<le> 70 then Some (code c - 55)
      else None)"

fun hex_run :: "nat \<Rightarrow> nat \<Rightarrow> string \<Rightarrow> (nat \<times> nat \<times> string) option" where
  "hex_run off acc [] = Some (off, acc, [])"
| "hex_run off acc (c # s) = (case hex_val c of
     None \<Rightarrow> Some (off, acc, c # s)
   | Some d \<Rightarrow> if off > 3 \<or> acc * 16 + d > 65535 then None else hex_run (Suc off) (acc * 16 + d) s)"

text \<open>The bytes so far, the position of the ellipsis, the remaining text.\<close>

function ipv6_groups :: "u8 list \<Rightarrow> nat option \<Rightarrow> string \<Rightarrow> (u8 list \<times> nat option \<times> string) option" where
  "ipv6_groups bs ell s =
     (if length bs \<ge> 16 then Some (bs, ell, s)
      else (case hex_run 0 0 s of
        None \<Rightarrow> None
      | Some (off, acc, r) \<Rightarrow>
          if off = 0 then None
          else if r \<noteq> [] \<and> hd r = CHR ''.'' then
            (if ell = None \<and> length bs \<noteq> 12 then None
             else if length bs + 4 > 16 then None
             else map_option (\<lambda>q. (bs @ q, ell, [])) (ipv4_fields 0 0 [] s))
          else
            (let bs' = bs @ [of_nat (acc div 256), of_nat (acc mod 256)] in
             if r = [] then Some (bs', ell, [])
             else if hd r \<noteq> CHR '':'' then None
             else if tl r = [] then None
             else if hd (tl r) = CHR '':'' then
               (if ell \<noteq> None then None
                else if tl (tl r) = [] then Some (bs', Some (length bs'), [])
                else ipv6_groups bs' (Some (length bs')) (tl (tl r)))
             else ipv6_groups bs' ell (tl r))))"
  by pat_completeness auto
termination by (relation "measure (\<lambda>(bs, _, _). 16 - length bs)") auto

declare ipv6_groups.simps [simp del]

definition ipv6_finish :: "u8 list \<times> nat option \<times> string \<Rightarrow> net_ip" where
  "ipv6_finish r = (case r of (bs, ell, s) \<Rightarrow>
     if s \<noteq> [] then []
     else if length bs < 16 then
       (case ell of None \<Rightarrow> []
        | Some e \<Rightarrow> take e bs @ replicate (16 - length bs) 0 @ drop e bs)
     else if ell \<noteq> None then [] else bs)"

text \<open>An address with a zone is not a \<^verbatim>\<open>net.IP\<close>, so \<^verbatim>\<open>%\<close> always fails.\<close>

definition parse_ipv6 :: "string \<Rightarrow> net_ip" where
  "parse_ipv6 s =
     (if CHR ''%'' \<in> set s then []
      else if has_prefix s ''::'' then
        (if drop 2 s = [] then replicate 16 0
         else (case ipv6_groups [] (Some 0) (drop 2 s) of None \<Rightarrow> [] | Some r \<Rightarrow> ipv6_finish r))
      else (case ipv6_groups [] None s of None \<Rightarrow> [] | Some r \<Rightarrow> ipv6_finish r))"

text \<open>\<^verbatim>\<open>netip.ParseAddr\<close>: the first of \<^verbatim>\<open>. : %\<close> in the text decides.\<close>

datatype addr_class = Kind4 | Kind6 | KindNone

fun addr_kind :: "string \<Rightarrow> addr_class" where
  "addr_kind [] = KindNone"
| "addr_kind (c # s) =
     (if c = CHR ''.'' then Kind4 else if c = CHR '':'' then Kind6
      else if c = CHR ''%'' then KindNone else addr_kind s)"

definition parse_ip :: "string \<Rightarrow> net_ip" where
  "parse_ip s = (case addr_kind s of
     Kind4 \<Rightarrow> (case ipv4_fields 0 0 [] s of None \<Rightarrow> [] | Some q \<Rightarrow> v4_prefix @ q)
   | Kind6 \<Rightarrow> parse_ipv6 s
   | KindNone \<Rightarrow> [])"

text \<open>geoip/index.go: IPToUint32\<close>

definition ip_to_uint32 :: "string \<Rightarrow> u32" where
  "ip_to_uint32 str =
     (let s = trim_space str in
      if s = [] then 0
      else (let ip = parse_ip s in if ip = [] then 0 else ipv4_to_uint32 ip))"

text \<open>\<^verbatim>\<open>net.SplitHostPort\<close>: the last colon ends the host.\<close>

definition split_host_port :: "string \<Rightarrow> (string \<times> string) option" where
  "split_host_port s =
     (case cut_at (CHR '':'') (rev s) of
        None \<Rightarrow> None
      | Some (rport, rhost) \<Rightarrow>
          let host = rev rhost; port = rev rport in
          if s ! 0 = CHR ''['' then
            (case cut_at (CHR '']'') s of
               None \<Rightarrow> None
             | Some (a, b) \<Rightarrow>
                 if b = CHR '':'' # port \<and> CHR ''['' \<notin> set (tl s) \<and> CHR '']'' \<notin> set b
                 then Some (tl a, port) else None)
          else if CHR '':'' \<in> set host \<or> CHR ''['' \<in> set s \<or> CHR '']'' \<in> set s then None
          else Some (host, port))"

section \<open>CIDR notation\<close>

text \<open>\<^verbatim>\<open>dtoi\<close>: the digits at the start of the text, failing from 0xFFFFFF on.\<close>

fun dtoi :: "nat \<Rightarrow> string \<Rightarrow> (nat \<times> string) option" where
  "dtoi n [] = Some (n, [])"
| "dtoi n (c # s) =
     (if is_digit c then
        (if n * 10 + digit_val c \<ge> 16777215 then None else dtoi (n * 10 + digit_val c) s)
      else Some (n, c # s))"

definition cidr_mask :: "nat \<Rightarrow> nat \<Rightarrow> net_ip" where
  "cidr_mask n len = map (\<lambda>i.
     if n \<ge> 8 * i + 8 then 0xFF
     else if n \<le> 8 * i then 0 else NOT (drop_bit (n - 8 * i) 0xFF)) [0..<len]"

text \<open>\<^verbatim>\<open>IP.Mask\<close> on the 16-byte form that the parser produces.\<close>

definition ip_mask :: "net_ip \<Rightarrow> net_ip \<Rightarrow> net_ip" where
  "ip_mask ip m =
     (let ip' = (if length m = 4 \<and> length ip = 16 \<and> take 12 ip = v4_prefix then drop 12 ip else ip) in
      if length ip' \<noteq> length m then [] else map2 (AND) ip' m)"

definition parse_cidr :: "string \<Rightarrow> (net_ip \<times> net_ip) option" where
  "parse_cidr s = (case cut_at (CHR ''/'') s of
     None \<Rightarrow> None
   | Some (addr, msk) \<Rightarrow>
       let ip = parse_ip addr; bytes = (if addr_kind addr = Kind4 then 4 else 16) in
       if ip = [] then None
       else (case dtoi 0 msk of
          None \<Rightarrow> None
        | Some (n, rest) \<Rightarrow>
            if msk = [] \<or> rest \<noteq> [] \<or> n > 8 * bytes then None
            else Some (ip_mask ip (cidr_mask n bytes), cidr_mask n bytes)))"

section \<open>The network field of the CSV files\<close>

text \<open>geoip/csv.go: ParseNetworkField\<close>

definition parse_network_field :: "string \<Rightarrow> (u32 \<times> u32) option" where
  "parse_network_field str =
     (let s = trim_space str in
      if s = [] then None
      else if contains_str s ''/'' then
        (case parse_cidr s of
           None \<Rightarrow> None
         | Some (ip, m) \<Rightarrow>
             (case to4 ip of
                [a, b, c, d] \<Rightarrow>
                  (case m of
                     [ma, mb, mc, md] \<Rightarrow>
                       (let start = be_u32 a b c d in Some (start, start OR NOT (be_u32 ma mb mc md)))
                   | _ \<Rightarrow> None)
              | _ \<Rightarrow> None))
      else if contains_str s ''-'' then
        (case cut_at (CHR ''-'') s of
           None \<Rightarrow> None
         | Some (l, r) \<Rightarrow>
             (case to4 (parse_ip (trim_space l)) of
                [a0, a1, a2, a3] \<Rightarrow>
                  (case to4 (parse_ip (trim_space r)) of
                     [b0, b1, b2, b3] \<Rightarrow>
                       (let x = be_u32 a0 a1 a2 a3; y = be_u32 b0 b1 b2 b3 in
                        if y < x then Some (y, x) else Some (x, y))
                   | _ \<Rightarrow> None)
              | _ \<Rightarrow> None))
      else
        (case to4 (parse_ip s) of
           [a, b, c, d] \<Rightarrow> (let v = be_u32 a b c d in Some (v, v))
         | _ \<Rightarrow> None))"

text \<open>geoip/csv.go: FormatNetwork\<close>

definition format_network :: "u32 \<Rightarrow> u32 \<Rightarrow> string" where
  "format_network s e =
     (if s = e then uint32_to_ip s else uint32_to_ip s @ ''-'' @ uint32_to_ip e)"

text \<open>\<^verbatim>\<open>bits.TrailingZeros32\<close>\<close>

function trailing_zeros :: "nat \<Rightarrow> u32 \<Rightarrow> nat" where
  "trailing_zeros k x = (if k \<ge> 32 then 32 else if bit x k then k else trailing_zeros (Suc k) x)"
  by pat_completeness auto
termination by (relation "measure (\<lambda>(k, x). 32 - k)") auto

declare trailing_zeros.simps [simp del]

text \<open>reputation/format_network.go: exactPrefixLen, itoa, FormatNetworkPreferCIDR\<close>

definition exact_prefix_len :: "u32 \<Rightarrow> u32 \<Rightarrow> nat option" where
  "exact_prefix_len s e =
     (if s > e then None
      else (let span = e - s + 1 in
        if span = 0 \<or> span AND (span - 1) \<noteq> 0 then None
        else (let prefix = 32 - trailing_zeros 0 span; m = push_bit (32 - prefix) 0xFFFFFFFF in
          if s AND m \<noteq> s then None
          else if s OR NOT m \<noteq> e then None
          else Some prefix)))"

text \<open>The buffer has two bytes: writing before its start panics (None).\<close>

fun itoa_fill :: "nat \<Rightarrow> nat \<Rightarrow> string \<Rightarrow> string option" where
  "itoa_fill i n b =
     (if n = 0 then Some b
      else (case i of 0 \<Rightarrow> None
        | Suc j \<Rightarrow> itoa_fill j (n div 10) (digit_char (n mod 10) # b)))"

declare itoa_fill.simps [simp del]

definition itoa :: "nat \<Rightarrow> string option" where
  "itoa n = (if n = 0 then Some ''0'' else itoa_fill 2 n [])"

definition format_network_prefer_cidr :: "u32 \<Rightarrow> u32 \<Rightarrow> string option" where
  "format_network_prefer_cidr s e =
     (if s = e then Some (uint32_to_ip s)
      else (case exact_prefix_len s e of
          Some p \<Rightarrow> map_option (\<lambda>t. dotted (octets s) @ ''/'' @ t) (itoa p)
        | None \<Rightarrow> Some (format_network s e)))"

section \<open>Round trips of the text forms\<close>

lemma contains_char: "contains_str s [c] \<longleftrightarrow> c \<in> set s"
  by (induction s) (auto simp: has_prefix_def)

lemma set_dotted: "c \<in> set (dotted bs) \<Longrightarrow> is_digit c \<or> c = CHR ''.''"
  by (induction bs rule: dotted.induct) (auto dest: dec_nat_digits)

lemma addr_kind_dotted: "addr_kind (dec_nat n @ CHR ''.'' # s) = Kind4"
proof -
  have "list_all is_digit d \<Longrightarrow> addr_kind (d @ CHR ''.'' # s) = Kind4" for d
    by (induction d) (auto simp: is_digit_def code_def)
  then show ?thesis using dec_nat_digits by (simp add: list_all_iff)
qed

lemma parse_ip_uint32: "parse_ip (uint32_to_ip v) = v4_prefix @ octets v"
proof -
  have "addr_kind (uint32_to_ip v) = Kind4"
    by (simp add: uint32_to_ip_def octets_def addr_kind_dotted)
  then show ?thesis
    by (simp add: parse_ip_def uint32_to_ip_def octets_def ipv4_fields_dotted del: dotted.simps)
qed

lemma dotted_plain: "bs \<noteq> [] \<Longrightarrow> list_all plain (dotted bs) \<and> dotted bs \<noteq> []"
  by (induction bs rule: dotted.induct)
     (auto simp: list_all_iff plain_def code_def dest!: dec_nat_digits is_digit_plain)

lemma trim_space_all_plain: "list_all plain s \<Longrightarrow> trim_space s = s"
  by (cases "s = []") (auto simp: list_all_iff intro!: trim_space_plain)

lemma ip_to_uint32_uint32_to_ip: "ip_to_uint32 (uint32_to_ip v) = v"
proof -
  have "octets v \<noteq> []" by (simp add: octets_def)
  from dotted_plain [OF this] show ?thesis
    by (simp add: ip_to_uint32_def uint32_to_ip_def [symmetric] trim_space_all_plain Let_def
        parse_ip_uint32) (simp add: ipv4_to_uint32_def, simp add: octets_def)
qed

lemma dtoi_dec_step: "\<And>d. d < 10 \<Longrightarrow> v * 10 + d < 16777215 \<Longrightarrow> dtoi v (digit_char d # t) = dtoi (v*10+d) t"
  by simp

lemma dtoi_dec: "n < 100 \<Longrightarrow> dtoi 0 (dec_nat n) = Some (n, [])"
  by (cases "n < 10") (simp_all add: dec_nat_small)

lemma itoa_dec: "n < 100 \<Longrightarrow> itoa n = Some (dec_nat n)"
proof -
  have "digit_char 0 = CHR ''0''" by (simp add: digit_char_def byte_def char_of_def bit_simps)
  then show "n < 100 \<Longrightarrow> itoa n = Some (dec_nat n)"
    by (cases "n < 10") (auto simp: itoa_def itoa_fill.simps dec_nat_small numeral_2_eq_2)
qed

lemma cidr_mask_word:
  assumes "n \<le> 32"
  shows "\<exists>a b c d. cidr_mask n 4 = [a, b, c, d] \<and> be_u32 a b c d = push_bit (32 - n) (-1)"
proof -
  have "list_all (\<lambda>n. case cidr_mask n 4 of [a, b, c, d] \<Rightarrow> be_u32 a b c d = push_bit (32 - n) (-1) | _ \<Rightarrow> False) [0..<33]"
    by code_simp
  with assms have "case cidr_mask n 4 of [a, b, c, d] \<Rightarrow> be_u32 a b c d = push_bit (32 - n) (-1) | _ \<Rightarrow> False"
    by (auto simp: list_all_iff)
  then show ?thesis by (auto split: list.splits)
qed

lemma be_u32_and:
  "be_u32 (a AND a') (b AND b') (c AND c') (d AND d') = be_u32 a b c d AND be_u32 a' b' c' d'"
  by (rule bit_word_eqI) (auto simp: be_u32_def bit_simps not_bit_u8)

text \<open>Parsing a prefix in CIDR notation.\<close>

lemma parse_cidr_dotted:
  assumes "p \<le> 32"
  shows "\<exists>a b c d ma mb mc md. parse_cidr (dotted (octets s) @ ''/'' @ dec_nat p) =
      Some ([a, b, c, d], [ma, mb, mc, md])
    \<and> be_u32 a b c d = s AND push_bit (32 - p) (-1) \<and> be_u32 ma mb mc md = push_bit (32 - p) (-1)"
proof -
  obtain m1 m2 m3 m4 where m: "cidr_mask p 4 = [m1, m2, m3, m4]"
      "be_u32 m1 m2 m3 m4 = push_bit (32 - p) (-1)"
    using cidr_mask_word [OF assms] by blast
  define t where "t = dotted (octets s)"
  have cut: "cut_at (CHR ''/'') (t @ ''/'' @ dec_nat p) = Some (t, dec_nat p)"
    using set_dotted [of "CHR ''/''" "octets s"] by (auto simp: t_def cut_at_Some is_digit_def code_def)
  have kind: "addr_kind t = Kind4"
    by (simp add: t_def octets_def addr_kind_dotted)
  obtain a b c d where o: "octets s = [a, b, c, d]" by (simp add: octets_def)
  have s: "s = be_u32 a b c d" using o octets_inj [of s "be_u32 a b c d"] by simp
  have "parse_ip t = v4_prefix @ [a, b, c, d]"
    using parse_ip_uint32 [of s] by (simp add: uint32_to_ip_def t_def o del: dotted.simps)
  then have "parse_cidr (t @ ''/'' @ dec_nat p) =
      Some ([a AND m1, b AND m2, c AND m3, d AND m4], [m1, m2, m3, m4])"
    using assms by (simp only: parse_cidr_def cut option.case prod.case)
      (simp add: kind dtoi_dec m Let_def ip_mask_def)
  then show ?thesis using m by (auto simp: be_u32_and s t_def)
qed

lemma contains_dotted: "\<not> is_digit c \<Longrightarrow> c \<noteq> CHR ''.'' \<Longrightarrow> c \<notin> set (dotted bs)"
  using set_dotted by blast

lemma parse_network_field_cidr:
  assumes "p \<le> 32"
  shows "parse_network_field (dotted (octets s) @ ''/'' @ dec_nat p) =
    Some (s AND push_bit (32 - p) (-1), s AND push_bit (32 - p) (-1) OR NOT (push_bit (32 - p) (-1)))"
proof -
  have "list_all plain (dotted (octets s))" using dotted_plain [of "octets s"] by (simp add: octets_def)
  moreover have "list_all plain (dec_nat p)" by (auto simp: list_all_iff dest: dec_nat_digits is_digit_plain)
  ultimately have "trim_space (dotted (octets s) @ ''/'' @ dec_nat p) = dotted (octets s) @ ''/'' @ dec_nat p"
    by (intro trim_space_all_plain) (auto simp: plain_def code_def)
  with parse_cidr_dotted [OF assms, of s] show ?thesis
    by (auto simp: parse_network_field_def contains_char Let_def to4_def simp del: append_Cons)
qed

lemma parse_network_field_format:
  "parse_network_field (format_network s e) = Some (min s e, max s e)"
proof -
  have pl: "list_all plain (uint32_to_ip v)" "uint32_to_ip v \<noteq> []" for v
    using dotted_plain [of "octets v"] by (simp_all add: uint32_to_ip_def octets_def)
  have no: "CHR ''/'' \<notin> set (uint32_to_ip v)" "CHR ''-'' \<notin> set (uint32_to_ip v)" for v
    by (auto simp: uint32_to_ip_def is_digit_def code_def dest: set_dotted)
  have o: "\<exists>a b c d. octets v = [a, b, c, d] \<and> be_u32 a b c d = v" for v
    by (simp add: octets_def)
  have pf: "to4 (v4_prefix @ [a, b, c, d]) = [a, b, c, d]" for a b c d
    using to4_mapped [of "be_u32 a b c d"] by simp
  show ?thesis
  proof (cases "s = e")
    case True
    with pl [of e] no [of e] o [of e] show ?thesis
      by (auto simp: parse_network_field_def format_network_def trim_space_all_plain contains_char
          parse_ip_uint32 Let_def)
  next
    case False
    have "list_all plain (uint32_to_ip s @ ''-'' @ uint32_to_ip e)"
      using pl by (auto simp: plain_def code_def)
    then have "trim_space (format_network s e) = format_network s e"
      using False by (auto simp: format_network_def intro: trim_space_all_plain)
    moreover have "cut_at (CHR ''-'') (format_network s e) = Some (uint32_to_ip s, uint32_to_ip e)"
      using False no by (simp add: cut_at_Some format_network_def)
    moreover have "trim_space (uint32_to_ip v) = uint32_to_ip v" for v
      using pl by (simp add: trim_space_all_plain)
    moreover have "CHR ''/'' \<notin> set (format_network s e)" "CHR ''-'' \<in> set (format_network s e)"
      using False no by (auto simp: format_network_def)
    ultimately show ?thesis using o [of s] o [of e]
      by (auto simp: parse_network_field_def contains_char parse_ip_uint32 Let_def min_def max_def pf)
  qed
qed

lemma ones32: "(4294967295 :: u32) = -1"
  by simp

lemma exact_prefix_len_Some:
  assumes "exact_prefix_len s e = Some p"
  shows "p \<le> 32 \<and> s AND push_bit (32 - p) (-1) = s \<and> s OR NOT (push_bit (32 - p) (-1)) = e"
  using assms unfolding exact_prefix_len_def Let_def ones32
  by (auto simp del: push_bit_minus_one split: if_splits)

lemma parse_format_prefer_cidr:
  "\<exists>t. format_network_prefer_cidr s e = Some t \<and> parse_network_field t = Some (min s e, max s e)"
proof (cases "s = e \<or> exact_prefix_len s e = None")
  case True
  then show ?thesis using parse_network_field_format [of s e]
    by (auto simp: format_network_prefer_cidr_def format_network_def)
next
  case False
  then obtain p where p: "exact_prefix_len s e = Some p" by blast
  from exact_prefix_len_Some [OF p] parse_network_field_cidr [of p s] have
    "parse_network_field (dotted (octets s) @ ''/'' @ dec_nat p) = Some (s, e)" by simp
  moreover have "s \<le> e" using p by (auto simp: exact_prefix_len_def split: if_splits)
  ultimately show ?thesis using False p exact_prefix_len_Some [OF p]
    by (simp add: format_network_prefer_cidr_def itoa_dec min_absorb1 max_absorb2)
qed


lemma trailing_zeros_exp: "k \<le> n \<Longrightarrow> n < 32 \<Longrightarrow> trailing_zeros k (2 ^ n) = n"
proof (induction "n - k" arbitrary: k)
  case 0
  then show ?case by (simp add: trailing_zeros.simps [of k] bit_simps)
next
  case (Suc d)
  then have "\<not> bit (2 ^ n :: u32) k" by (auto simp: bit_simps)
  moreover have "trailing_zeros (Suc k) (2 ^ n) = n" using Suc by (intro Suc.hyps(1)) auto
  ultimately show ?case using Suc by (simp add: trailing_zeros.simps [of k])
qed

lemma exact_prefix_len_complete:
  assumes "0 < p" "p \<le> 32" "s AND push_bit (32 - p) (-1) = s" "e = s OR NOT (push_bit (32 - p) (-1))"
  shows "exact_prefix_len s e = Some p"
proof -
  define k where "k = 32 - p"
  have k: "k < 32" "32 - k = p" using assms by (auto simp: k_def)
  have dis: "s AND mask k = 0"
  proof -
    have "s AND mask k = (s AND NOT (mask k)) AND mask k"
      using assms(3) by (simp add: k_def push_bit_minus_one_eq_not_mask)
    then show ?thesis by (simp add: and.assoc)
  qed
  have e: "e = s + mask k"
    using dis assms(4) by (simp add: k_def disjunctive_add_eq_or push_bit_minus_one_eq_not_mask)
  then have span: "e - s + 1 = 2 ^ k"
    by (simp add: mask_eq_decr_exp)
  have le: "s \<le> e"
    using le_word_or2 [of s] assms(4) by simp
  have "2 ^ k AND (2 ^ k - (1 :: u32)) = 0"
    by (rule bit_word_eqI) (auto simp: bit_simps mask_eq_decr_exp [symmetric])
  moreover have "2 ^ k \<noteq> (0 :: u32)" using k(1) by simp
  ultimately show ?thesis
    using le assms(3,4) trailing_zeros_exp [of 0 k] k
    unfolding exact_prefix_len_def Let_def span ones32
    by (simp add: k_def del: push_bit_minus_one)
qed

section \<open>Non-public addresses\<close>

text \<open>\<^verbatim>\<open>IP.IsLoopback\<close> and the other class predicates of \<^verbatim>\<open>net\<close>, on the 4-byte form.\<close>

definition is_loopback :: "net_ip \<Rightarrow> bool" where
  "is_loopback ip \<longleftrightarrow> ip ! 0 = 127"

definition is_link_local_unicast :: "net_ip \<Rightarrow> bool" where
  "is_link_local_unicast ip \<longleftrightarrow> ip ! 0 = 169 \<and> ip ! 1 = 254"

definition is_link_local_multicast :: "net_ip \<Rightarrow> bool" where
  "is_link_local_multicast ip \<longleftrightarrow> ip ! 0 = 224 \<and> ip ! 1 = 0 \<and> ip ! 2 = 0"

definition is_multicast :: "net_ip \<Rightarrow> bool" where
  "is_multicast ip \<longleftrightarrow> ip ! 0 AND 0xF0 = 0xE0"

definition is_unspecified :: "net_ip \<Rightarrow> bool" where
  "is_unspecified ip \<longleftrightarrow> ip = [0, 0, 0, 0]"

definition is_private :: "net_ip \<Rightarrow> bool" where
  "is_private ip \<longleftrightarrow> ip ! 0 = 10 \<or> ip ! 0 = 172 \<and> ip ! 1 AND 0xF0 = 16 \<or> ip ! 0 = 192 \<and> ip ! 1 = 168"

text \<open>netutil/nonpublic.go: IsNonPublicIPv4IP\<close>

definition is_non_public_ipv4 :: "net_ip \<Rightarrow> bool" where
  "is_non_public_ipv4 ip =
     (let ip4 = to4 ip in
      if ip4 = [] then True
      else if is_loopback ip4 \<or> is_link_local_unicast ip4 \<or> is_link_local_multicast ip4
        \<or> is_multicast ip4 \<or> is_unspecified ip4 \<or> is_private ip4 then True
      else if ip4 ! 0 = 100 \<and> ip4 ! 1 \<ge> 64 \<and> ip4 ! 1 \<le> 127 then True
      else False)"

text \<open>The same set as intervals of 32-bit values.\<close>

definition non_public_range :: "nat \<Rightarrow> bool" where
  "non_public_range n \<longleftrightarrow>
     n = 0
   \<or> 0x0A000000 \<le> n \<and> n \<le> 0x0AFFFFFF
   \<or> 0x64400000 \<le> n \<and> n \<le> 0x647FFFFF
   \<or> 0x7F000000 \<le> n \<and> n \<le> 0x7FFFFFFF
   \<or> 0xA9FE0000 \<le> n \<and> n \<le> 0xA9FEFFFF
   \<or> 0xAC100000 \<le> n \<and> n \<le> 0xAC1FFFFF
   \<or> 0xC0A80000 \<le> n \<and> n \<le> 0xC0A8FFFF
   \<or> 0xE0000000 \<le> n \<and> n \<le> 0xEFFFFFFF"

lemma u8_high_nibble: "(x :: u8) AND 0xF0 = of_nat (unat x div 16 * 16)"
proof -
  have "list_all (\<lambda>n. (of_nat n :: u8) AND 0xF0 = of_nat (n div 16 * 16)) [0..<256]"
    by code_simp
  then have "\<forall>n \<in> set [0..<256]. (of_nat n :: u8) AND 0xF0 = of_nat (n div 16 * 16)"
    by (simp only: list_all_iff)
  then have "(of_nat (unat x) :: u8) AND 0xF0 = of_nat (unat x div 16 * 16)"
    by (rule bspec) simp
  then show ?thesis by simp
qed

lemma u8_eq_nat: "m < 256 \<Longrightarrow> n < 256 \<Longrightarrow> (of_nat m :: u8) = of_nat n \<longleftrightarrow> m = n"
  by (simp add: word_of_nat_eq_iff take_bit_eq_mod)

lemma u8_nat: "k < 256 \<Longrightarrow> (x :: u8) = of_nat k \<longleftrightarrow> unat x = k"
  using u8_eq_nat [of "unat x" k] by simp

lemma base256: "n = ((n div 16777216 * 256 + n div 65536 mod 256) * 256 + n div 256 mod 256) * 256 + n mod (256::nat)"
proof -
  have "n div 65536 = n div 256 div 256" "n div 16777216 = n div 256 div 256 div 256"
    by (simp_all add: div_mult2_eq [symmetric])
  then show ?thesis by simp
qed

lemma octet_intervals:
  assumes n: "n = ((a * 256 + b) * 256 + c) * 256 + (d::nat)" and "b < 256" "c < 256" "d < 256"
  shows "a = k \<longleftrightarrow> k * 16777216 \<le> n \<and> n \<le> k * 16777216 + 16777215"
    and "l \<le> m \<Longrightarrow> m < 256 \<Longrightarrow> a = k \<and> l \<le> b \<and> b \<le> m \<longleftrightarrow>
      k * 16777216 + l * 65536 \<le> n \<and> n \<le> k * 16777216 + m * 65536 + 65535"
    and "a div 16 = h \<longleftrightarrow> h * 268435456 \<le> n \<and> n \<le> h * 268435456 + 268435455"
proof -
  show "a = k \<longleftrightarrow> k * 16777216 \<le> n \<and> n \<le> k * 16777216 + 16777215"
    using assms by auto
  show "a div 16 = h \<longleftrightarrow> h * 268435456 \<le> n \<and> n \<le> h * 268435456 + 268435455"
    using assms by auto
  have "k * 16777216 + l * 65536 \<le> n \<longleftrightarrow> k * 256 + l \<le> a * 256 + b"
    "n \<le> k * 16777216 + m * 65536 + 65535 \<longleftrightarrow> a * 256 + b \<le> k * 256 + m"
    using assms by auto
  moreover have "l \<le> m \<Longrightarrow> m < 256 \<Longrightarrow> a = k \<and> l \<le> b \<and> b \<le> m \<longleftrightarrow>
      k * 256 + l \<le> a * 256 + b \<and> a * 256 + b \<le> k * 256 + m"
    using assms(2) by (cases a k rule: linorder_cases) auto
  ultimately show "l \<le> m \<Longrightarrow> m < 256 \<Longrightarrow> a = k \<and> l \<le> b \<and> b \<le> m \<longleftrightarrow>
      k * 16777216 + l * 65536 \<le> n \<and> n \<le> k * 16777216 + m * 65536 + 65535"
    by simp
qed

lemma u8_mask_eq: "k < 16 \<Longrightarrow> (x :: u8) AND 0xF0 = of_nat (k * 16) \<longleftrightarrow> unat x div 16 = k"
  by (subst u8_high_nibble, subst u8_eq_nat) (auto simp: less_mult_imp_div_less)

lemma is_non_public_octets: "is_non_public_ipv4 (octets v) \<longleftrightarrow> non_public_range (unat v)"
proof -
  obtain x y z w where o: "octets v = [x, y, z, w]" by (simp add: octets_def)
  define a b c d where "a = unat x" and "b = unat y" and "c = unat z" and "d = unat w"
  note abcd = this
  have n: "unat v = ((a * 256 + b) * 256 + c) * 256 + d"
    using octets_unat [of v] base256 [of "unat v"] by (simp add: o abcd)
  have lt: "b < 256" "c < 256" "d < 256" by (simp_all add: abcd)
  have eq: "u = of_nat k \<longleftrightarrow> unat u = k" if "k < 256" for u :: u8 and k using u8_nat [OF that] .
  have "is_non_public_ipv4 (octets v) \<longleftrightarrow>
      a = 127 \<or> a = 169 \<and> b = 254 \<or> a = 224 \<and> b = 0 \<and> c = 0 \<or> a div 16 = 14 \<or>
      a = 0 \<and> b = 0 \<and> c = 0 \<and> d = 0 \<or> a = 10 \<or> a = 172 \<and> b div 16 = 1 \<or> a = 192 \<and> b = 168 \<or>
      a = 100 \<and> 64 \<le> b \<and> b \<le> 127"
    using eq [of 127 x] eq [of 169 x] eq [of 254 y] eq [of 224 x] eq [of 0 x] eq [of 0 y]
      eq [of 0 z] eq [of 0 w] eq [of 10 x] eq [of 172 x] eq [of 192 x] eq [of 168 y] eq [of 100 x]
      u8_mask_eq [of 14 x] u8_mask_eq [of 1 y]
    by (simp add: is_non_public_ipv4_def o to4_def Let_def is_loopback_def is_link_local_unicast_def
        is_link_local_multicast_def is_multicast_def is_unspecified_def is_private_def abcd
        word_le_nat_alt)
  moreover have "unat v = 0 \<longleftrightarrow> a = 0 \<and> b = 0 \<and> c = 0 \<and> d = 0" by (simp add: n)
  moreover have "b = 254 \<longleftrightarrow> 254 \<le> b \<and> b \<le> 254" "b = 168 \<longleftrightarrow> 168 \<le> b \<and> b \<le> 168"
    "b div 16 = 1 \<longleftrightarrow> 16 \<le> b \<and> b \<le> 31" "a = 224 \<Longrightarrow> a div 16 = 14" by auto
  ultimately have "is_non_public_ipv4 (octets v) \<longleftrightarrow>
      a = 127 \<or> (a = 169 \<and> 254 \<le> b \<and> b \<le> 254) \<or> a div 16 = 14 \<or> unat v = 0 \<or> a = 10 \<or>
      (a = 172 \<and> 16 \<le> b \<and> b \<le> 31) \<or> (a = 192 \<and> 168 \<le> b \<and> b \<le> 168) \<or> (a = 100 \<and> 64 \<le> b \<and> b \<le> 127)"
    by metis
  also have "\<dots> \<longleftrightarrow> non_public_range (unat v)"
    unfolding octet_intervals(1) [OF n lt] octet_intervals(3) [OF n lt] non_public_range_def
    using octet_intervals(2) [OF n lt, of 254 254 169] octet_intervals(2) [OF n lt, of 16 31 172]
      octet_intervals(2) [OF n lt, of 168 168 192] octet_intervals(2) [OF n lt, of 64 127 100]
    by (simp only: octet_intervals(1) [OF n lt]) (simp, blast)
  finally show ?thesis .
qed

section \<open>Properties\<close>

text \<open>A range of addresses written to a CSV field is read back as the same range. Whatever two
  addresses are formatted, as a single address, as an exact CIDR prefix or as a pair,
  \<^verbatim>\<open>FormatNetworkPreferCIDR\<close> does not run over its two-byte buffer, and
  \<^verbatim>\<open>ParseNetworkField\<close> of its text gives the two addresses in ascending order.\<close>

theorem network_field_roundtrip:
  "map_option parse_network_field (format_network_prefer_cidr s e) = Some (Some (min s e, max s e))
   \<and> parse_network_field (format_network s e) = Some (min s e, max s e)"
  using parse_format_prefer_cidr [of s e] parse_network_field_format [of s e] by auto

text \<open>\<^verbatim>\<open>exactPrefixLen\<close> finds the prefix of a range exactly when there is one: it answers
  with the length \<open>p\<close> if and only if \<open>1 \<le> p \<le> 32\<close>, the first address is a multiple of the block
  size and the last address is the end of that block. (The whole address space has no prefix
  length: the size of the range wraps to zero.)\<close>

theorem exact_prefix_len_iff:
  "exact_prefix_len s e = Some p \<longleftrightarrow>
     0 < p \<and> p \<le> 32 \<and> s AND push_bit (32 - p) (-1) = s \<and> e = s OR NOT (push_bit (32 - p) (-1))"
proof -
  have "p \<noteq> 0" if "exact_prefix_len s e = Some p"
  proof
    assume "p = 0"
    have m: "(mask 32 :: u32) = -1" by (rule bit_word_eqI) (simp add: bit_simps)
    have "s AND push_bit 32 (-1) = s" "e = s OR NOT (push_bit 32 (-1))"
      using exact_prefix_len_Some [OF that] \<open>p = 0\<close> by simp_all
    then have "s = 0" "e = -1" by (simp_all add: m)
    with that show False by (simp add: exact_prefix_len_def)
  qed
  then show ?thesis
    using exact_prefix_len_Some [of s e p] exact_prefix_len_complete [of p s e] by blast
qed

text \<open>The non-public test of the outgoing connections is a test on the numeric value of the
  address: \<^verbatim>\<open>IsNonPublicIPv4IP\<close> holds of an IPv4 address exactly when it lies in one of the
  eight reserved intervals (unspecified, 10/8, 100.64/10, 127/8, 169.254/16, 172.16/12, 192.168/16
  and 224/4), in its 4-byte and in its IPv4-mapped 16-byte form, and of everything that is no IPv4
  address.\<close>

theorem non_public_is_intervals:
  "is_non_public_ipv4 (octets v) = non_public_range (unat v)
   \<and> is_non_public_ipv4 (v4_prefix @ octets v) = non_public_range (unat v)
   \<and> is_non_public_ipv4 ip = (to4 ip = [] \<or> non_public_range (unat (ipv4_to_uint32 ip)))"
proof -
  have to4: "is_non_public_ipv4 ip = is_non_public_ipv4 (to4 ip)" for ip
    by (simp add: is_non_public_ipv4_def)
  have "is_non_public_ipv4 (to4 ip) = non_public_range (unat (ipv4_to_uint32 ip))" if "to4 ip \<noteq> []"
    using that by (metis is_non_public_octets to4_is_octets)
  moreover have "is_non_public_ipv4 ip" if "to4 ip = []"
    using that by (simp add: is_non_public_ipv4_def)
  ultimately have "is_non_public_ipv4 ip = (to4 ip = [] \<or> non_public_range (unat (ipv4_to_uint32 ip)))"
    using to4 by blast
  then show ?thesis using is_non_public_octets [of v] to4 [of "v4_prefix @ octets v"] by simp
qed

end
