(* ===== verification/Safe_URL.thy ===== *)
theory Safe_URL
  imports IPv4
begin

text \<open>
  Outgoing requests (\<^verbatim>\<open>safeurl/ipv4.go\<close>): the checks that keep the downloads of feeds and
  databases from reaching private addresses. Name resolution and the dialing of one address are
  arguments of the model (\<open>dns\<close>, \<open>dial\<close>): a different resolver may be passed to the check of
  the URL and to the connection, as when a name server changes its answer between them. The parsed
  URL is a record of the fields the code reads.
\<close>

datatype url_error =
    UrlEmpty | UrlInvalid | UrlScheme | UrlHostRequired | UrlUserinfo
  | Ipv6Unsupported | NonPublicAddress | HostNotAllowed | LookupFailed | NoIPv4
  | BadAddress | NothingToDial | DialFailed | TooManyRedirects | RedirectMissingUrl

record http_url =
  scheme :: string
  url_host :: string
  has_user :: bool
  hostname :: string

definition max_redirects :: nat where "max_redirects = 3"

definition blocked_hostnames :: "string list" where
  "blocked_hostnames =
     [''metadata.google.internal'', ''metadata'', ''kubernetes.default'', ''kubernetes.default.svc'']"

text \<open>LookupIPv4: the IPv4 answers of the resolver.\<close>

definition lookup_ipv4 :: "(string \<Rightarrow> net_ip list option) \<Rightarrow> string \<Rightarrow> net_ip list option" where
  "lookup_ipv4 dns host =
     (case dns host of None \<Rightarrow> None | Some ips \<Rightarrow> Some (filter (\<lambda>ip. ip \<noteq> []) (map to4 ips)))"

text \<open>The loop of resolvePublicIPv4 over the answers.\<close>

fun collect_public :: "net_ip list \<Rightarrow> net_ip list \<Rightarrow> url_error + net_ip list" where
  "collect_public out [] = Inr out"
| "collect_public out (ip # ips) =
     (let ip4 = to4 ip in
      if ip4 = [] then collect_public out ips
      else if is_non_public_ipv4 ip4 then Inl NonPublicAddress
      else collect_public (out @ [ip4]) ips)"

definition resolve_public_ipv4 :: "(string \<Rightarrow> net_ip list option) \<Rightarrow> string \<Rightarrow> url_error + net_ip list" where
  "resolve_public_ipv4 dns host =
     (if host = [] then Inl UrlHostRequired
      else let ip = parse_ip host in
      if ip \<noteq> [] then
        (if to4 ip = [] then Inl Ipv6Unsupported
         else if is_non_public_ipv4 ip then Inl NonPublicAddress
         else Inr [to4 ip])
      else if to_lower host \<in> set blocked_hostnames then Inl HostNotAllowed
      else (case lookup_ipv4 dns host of
         None \<Rightarrow> Inl LookupFailed
       | Some ips \<Rightarrow>
           if length ips = 0 then Inl NoIPv4
           else (case collect_public [] ips of
              Inl e \<Rightarrow> Inl e
            | Inr out \<Rightarrow> if length out = 0 then Inl NoIPv4 else Inr out)))"

definition validate_parsed :: "(string \<Rightarrow> net_ip list option) \<Rightarrow> http_url \<Rightarrow> url_error option" where
  "validate_parsed dns u =
     (if hostname u = [] then Some UrlHostRequired
      else (case resolve_public_ipv4 dns (hostname u) of Inl e \<Rightarrow> Some e | Inr _ \<Rightarrow> None))"

definition check_http_url :: "http_url \<Rightarrow> url_error option" where
  "check_http_url u =
     (if scheme u \<noteq> ''http'' \<and> scheme u \<noteq> ''https'' then Some UrlScheme
      else if url_host u = [] then Some UrlHostRequired
      else if has_user u then Some UrlUserinfo
      else None)"

text \<open>
  defaultDialContext: the addresses that are dialed, in order, and the connection. The dialed address is an
  address of the host and the port of the request, kept as a pair (\<^verbatim>\<open>net.JoinHostPort\<close> writes them as text).
\<close>

fun dial_each :: "(net_ip \<Rightarrow> bool) \<Rightarrow> net_ip list \<Rightarrow> net_ip list \<times> net_ip option" where
  "dial_each dial [] = ([], None)"
| "dial_each dial (ip # ips) =
     (if dial ip then ([ip], Some ip)
      else (let r = dial_each dial ips in (ip # fst r, snd r)))"

definition default_dial_context ::
    "(string \<Rightarrow> net_ip list option) \<Rightarrow> (net_ip \<Rightarrow> string \<Rightarrow> bool) \<Rightarrow> string \<Rightarrow>
     net_ip list \<times> (url_error + net_ip)" where
  "default_dial_context dns dial address =
     (case split_host_port address of
        None \<Rightarrow> ([], Inl BadAddress)
      | Some (host, port) \<Rightarrow>
          (case resolve_public_ipv4 dns host of
             Inl e \<Rightarrow> ([], Inl e)
           | Inr ips \<Rightarrow>
               let r = dial_each (\<lambda>ip. dial ip port) ips in
               (case snd r of
                  Some ip \<Rightarrow> (fst r, Inr ip)
                | None \<Rightarrow> (fst r, Inl (if fst r = [] then NothingToDial else DialFailed)))))"

text \<open>The CheckRedirect function that SecureHTTPClient installs.\<close>

definition check_redirect ::
    "(string \<Rightarrow> net_ip list option) \<Rightarrow> http_url option \<Rightarrow> nat \<Rightarrow> url_error option" where
  "check_redirect dns req via =
     (if via \<ge> max_redirects then Some TooManyRedirects
      else (case req of None \<Rightarrow> Some RedirectMissingUrl | Some u \<Rightarrow> validate_parsed dns u))"

section \<open>Lemmas\<close>

text \<open>A public IPv4 address in its 4-byte form.\<close>

definition public_ipv4 :: "net_ip \<Rightarrow> bool" where
  "public_ipv4 ip \<longleftrightarrow> length ip = 4 \<and> \<not> non_public_range (unat (ipv4_to_uint32 ip))"

lemma non_public_iff: "length ip = 4 \<Longrightarrow> is_non_public_ipv4 ip \<longleftrightarrow> \<not> public_ipv4 ip"
proof -
  assume len: "length ip = 4"
  then have "to4 ip = ip" "ip \<noteq> []" by (auto simp: to4_def)
  then have "ip = octets (ipv4_to_uint32 ip)" using to4_is_octets [of ip] by simp
  with len show ?thesis unfolding public_ipv4_def by (metis is_non_public_octets)
qed

lemma collect_public_Inr:
  "collect_public out ips = Inr r \<Longrightarrow>
     r = out @ filter (\<lambda>ip. ip \<noteq> []) (map to4 ips) \<and> list_all public_ipv4 (filter (\<lambda>ip. ip \<noteq> []) (map to4 ips))"
proof (induction ips arbitrary: out)
  case (Cons ip ips)
  show ?case
  proof (cases "to4 ip = []")
    case True
    with Cons show ?thesis by simp
  next
    case False
    then have "length (to4 ip) = 4" by (rule length_to4)
    with False Cons.prems Cons.IH [of "out @ [to4 ip]"] show ?thesis
      by (auto simp: Let_def non_public_iff split: if_splits)
  qed
qed simp

lemma resolve_public:
  assumes "resolve_public_ipv4 dns host = Inr ips"
  shows "ips \<noteq> [] \<and> list_all public_ipv4 ips"
proof (cases "parse_ip host = []")
  case False
  with assms have "ips = [to4 (parse_ip host)]" "to4 (parse_ip host) \<noteq> []"
      "\<not> is_non_public_ipv4 (to4 (parse_ip host))"
    by (auto simp: resolve_public_ipv4_def is_non_public_ipv4_def Let_def split: if_splits)
  then show ?thesis using non_public_iff [of "to4 (parse_ip host)"] length_to4 by simp
next
  case True
  with assms obtain r where "collect_public [] r = Inr ips" "ips \<noteq> []"
    by (auto simp: resolve_public_ipv4_def split: if_splits option.splits sum.splits)
  then show ?thesis using collect_public_Inr by fastforce
qed

lemma dial_each_subset: "set (fst (dial_each dial ips)) \<subseteq> set ips"
  by (induction ips) (auto simp: Let_def)

lemma dial_each_Some: "snd (dial_each dial ips) = Some ip \<Longrightarrow> dial ip \<and> ip \<in> set (fst (dial_each dial ips))"
  by (induction ips) (auto simp: Let_def split: if_splits)

lemma bad_answer_refused:
  assumes "resolve_public_ipv4 dns host = Inr ips" "parse_ip host = []" "dns host = Some r" "bad \<in> set r" "to4 bad \<noteq> []"
    "non_public_range (unat (ipv4_to_uint32 bad))"
  shows False
proof -
  have "collect_public [] (filter (\<lambda>ip. ip \<noteq> []) (map to4 r)) = Inr ips"
    using assms by (auto simp: resolve_public_ipv4_def lookup_ipv4_def split: if_splits sum.splits)
  from collect_public_Inr [OF this] have "list_all public_ipv4 (filter (\<lambda>ip. ip \<noteq> []) (map to4 r))"
    by (simp add: filter_map o_def)
  with assms have "public_ipv4 (to4 bad)" by (auto simp: list_all_iff)
  with assms show False by (simp add: public_ipv4_def ipv4_to_uint32_def)
qed

section \<open>Properties\<close>

text \<open>C4: No connection to a private address. Whatever the resolver answers at the moment of the
  connection, every address that \<^verbatim>\<open>defaultDialContext\<close> dials is a 4-byte address outside all the
  non-public intervals, and a connection that is returned is one of the dialed addresses; a single
  non-public IPv4 answer for the host means that nothing is dialed. An address without a port that can be
  split off is refused before anything is resolved.\<close>

theorem dial_only_public:
  "list_all public_ipv4 (fst (default_dial_context dns dial address))
   \<and> (\<forall>ip. snd (default_dial_context dns dial address) = Inr ip \<longrightarrow>
        ip \<in> set (fst (default_dial_context dns dial address))
        \<and> (\<exists>host port. split_host_port address = Some (host, port) \<and> dial ip port))
   \<and> (\<forall>host port ips bad. split_host_port address = Some (host, port)
        \<and> parse_ip host = [] \<and> dns host = Some ips \<and> bad \<in> set ips \<and> to4 bad \<noteq> []
        \<and> non_public_range (unat (ipv4_to_uint32 bad)) \<longrightarrow>
        fst (default_dial_context dns dial address) = [])
   \<and> (split_host_port address = None \<longrightarrow> default_dial_context dns dial address = ([], Inl BadAddress))"
proof (cases "split_host_port address")
  case None
  then show ?thesis by (simp add: default_dial_context_def)
next
  case (Some hp)
  obtain host port where hp: "hp = (host, port)" by fastforce
  show ?thesis
  proof (cases "resolve_public_ipv4 dns host")
    case (Inl e)
    then show ?thesis using Some hp by (simp add: default_dial_context_def)
  next
    case (Inr ips)
    note d = default_dial_context_def Some hp Inr
    have 1: "list_all public_ipv4 (fst (default_dial_context dns dial address))"
      using resolve_public [OF Inr] dial_each_subset [of "\<lambda>ip. dial ip port" ips]
      by (auto simp: d list_all_iff Let_def split: option.splits)
    have 2: "ip \<in> set (fst (default_dial_context dns dial address)) \<and> dial ip port"
      if "snd (default_dial_context dns dial address) = Inr ip" for ip
      using that dial_each_Some [of "\<lambda>ip. dial ip port" ips] by (auto simp: d Let_def split: option.splits)
    have 3: False if "parse_ip host = []" "dns host = Some r" "bad \<in> set r" "to4 bad \<noteq> []"
        "non_public_range (unat (ipv4_to_uint32 bad))" for r bad
      using bad_answer_refused [OF Inr that] .
    from 1 2 3 Some hp show ?thesis by auto
  qed
qed

text \<open>A public answer is dialed, a private one is not.\<close>

theorem dial_only_public_witness:
  "fst (default_dial_context (\<lambda>h. Some [octets 0x08080808]) (\<lambda>_ _. True) ''h:443'') = [octets 0x08080808]
   \<and> fst (default_dial_context (\<lambda>h. Some [octets 0x08080808, octets 0x0A000001]) (\<lambda>_ _. True) ''h:443'') = []"
proof -
  have p: "parse_ip ''h'' = []" by (simp add: parse_ip_def)
  have h: "split_host_port ''h:443'' = Some (''h'', ''443'')" by code_simp
  have a: "fst (default_dial_context (\<lambda>h. Some [octets 0x08080808]) (\<lambda>_ _. True) ''h:443'') = [octets 0x08080808]"
    by code_simp
  have "octets 0x0A000001 \<in> set [octets 0x08080808, octets 0x0A000001]" by simp
  moreover have "non_public_range (unat (ipv4_to_uint32 (octets 0x0A000001)))"
    by (simp add: non_public_range_def)
  moreover have "to4 (octets 0x0A000001) \<noteq> []" by (simp add: octets_def to4_def)
  ultimately have "fst (default_dial_context (\<lambda>h. Some [octets 0x08080808, octets 0x0A000001]) (\<lambda>_ _. True) ''h:443'') = []"
    using dial_only_public [of "\<lambda>h. Some [octets 0x08080808, octets 0x0A000001]" "\<lambda>_ _. True" "''h:443''"] p h
    by blast
  with a show ?thesis by blast
qed

text \<open>A redirect is followed only to a host whose addresses are all public, and at most
  \<^verbatim>\<open>MaxRedirects\<close> times: if \<^verbatim>\<open>CheckRedirect\<close> accepts, fewer than three redirects were made
  before, and the host of the next URL resolves to a non-empty list of public IPv4 addresses.\<close>

theorem redirect_only_public:
  assumes "check_redirect dns req via = None"
  shows "via < 3 \<and> (\<exists>u ips. req = Some u \<and> resolve_public_ipv4 dns (hostname u) = Inr ips
    \<and> ips \<noteq> [] \<and> list_all public_ipv4 ips)"
proof -
  from assms obtain u where u: "req = Some u" "validate_parsed dns u = None" "via < 3"
    by (auto simp: check_redirect_def max_redirects_def split: if_splits option.splits)
  then obtain ips where "resolve_public_ipv4 dns (hostname u) = Inr ips"
    by (auto simp: validate_parsed_def split: if_splits sum.splits)
  with u resolve_public show ?thesis by blast
qed

theorem redirect_only_public_witness:
  "(2 :: nat) < 3 \<and> (\<exists>u ips. Some \<lparr>scheme = ''https'', url_host = ''8.8.8.8'', has_user = False,
      hostname = ''8.8.8.8''\<rparr> = Some u \<and> resolve_public_ipv4 (\<lambda>_. None) (hostname u) = Inr ips
    \<and> ips \<noteq> [] \<and> list_all public_ipv4 ips)"
  by (rule redirect_only_public) code_simp

end
