(* ===== verification/Go_Float.thy ===== *)
theory Go_Float
  imports Prelude
begin

unbundle bit_operations_syntax

text \<open>
  Go's \<^verbatim>\<open>float64\<close> and \<^verbatim>\<open>float32\<close> as their bits: the comparisons, the four operations and the conversions
  that the program uses, with rounding to nearest, ties to even, as IEEE 754 prescribes. A finite value is
  \<open>m * 2 ^ s\<close> for a natural number \<open>m\<close>; an operation computes its exact result as a fraction and rounds
  once. Which NaN an operation gives is not specified; the model gives the quiet one.
\<close>

type_synonym f64 = u64
type_synonym f32 = u32

section \<open>Comparisons\<close>

text \<open>Comparison of \<^verbatim>\<open>float64\<close> values by their bits; a NaN is not less than anything.\<close>

definition f64_nan :: "f64 \<Rightarrow> bool" where
  "f64_nan x \<longleftrightarrow> unat (drop_bit 52 x) mod 2048 = 2047 \<and> unat x mod 2 ^ 52 \<noteq> 0"

definition f64_key :: "f64 \<Rightarrow> int" where
  "f64_key x = (if unat x < 2 ^ 63 then int (unat x) else - (int (unat x) - 2 ^ 63))"

definition f64_lt :: "f64 \<Rightarrow> f64 \<Rightarrow> bool" where
  "f64_lt x y \<longleftrightarrow> \<not> f64_nan x \<and> \<not> f64_nan y \<and> f64_key x < f64_key y"

definition f64_le :: "f64 \<Rightarrow> f64 \<Rightarrow> bool" where
  "f64_le x y \<longleftrightarrow> \<not> f64_nan x \<and> \<not> f64_nan y \<and> f64_key x \<le> f64_key y"

definition f64_eq :: "f64 \<Rightarrow> f64 \<Rightarrow> bool" where
  "f64_eq x y \<longleftrightarrow> \<not> f64_nan x \<and> \<not> f64_nan y \<and> f64_key x = f64_key y"

section \<open>Rounding a fraction\<close>

fun log2_floor :: "nat \<Rightarrow> nat" where
  "log2_floor n = (if n < 2 then 0 else Suc (log2_floor (n div 2)))"

declare log2_floor.simps [simp del]

definition scaled :: "nat \<Rightarrow> nat \<Rightarrow> int \<Rightarrow> nat \<times> nat" where
  "scaled a b s = (if 0 \<le> s then (a, b * 2 ^ nat s) else (a * 2 ^ nat (- s), b))"

definition round_even :: "nat \<Rightarrow> nat \<Rightarrow> nat" where
  "round_even a b =
     (let q = a div b; r = a mod b in if 2 * r < b \<or> 2 * r = b \<and> even q then q else Suc q)"

text \<open>
  The bits of the magnitude of \<open>a / b\<close> in a format with \<open>p\<close> fraction bits, the exponent \<open>emin\<close> of its last
  place and \<open>infinity\<close>: for \<open>2 ^ p \<le> m\<close> and for the subnormal numbers alike they are the exponent of the
  last place above \<open>emin\<close>, shifted, plus \<open>m\<close>, and a carry out of \<open>m\<close> goes to the exponent by itself.
\<close>

definition round_bits :: "nat \<Rightarrow> int \<Rightarrow> nat \<Rightarrow> nat \<Rightarrow> nat \<Rightarrow> nat" where
  "round_bits p emin infinity a b =
     (if a = 0 then 0
      else
        let k = int (log2_floor a) - int (log2_floor b);
          (c, d) = scaled a b k;
          e = (if c < d then k - 1 else k);
          s = max (e - int p) emin;
          (c', d') = scaled a b s in
        min infinity (nat (s - emin) * 2 ^ p + round_even c' d'))"

section \<open>Values\<close>

definition f64_sign :: "f64 \<Rightarrow> bool" where "f64_sign x \<longleftrightarrow> bit x 63"
definition f64_abs :: "f64 \<Rightarrow> nat" where "f64_abs x = unat x mod 2 ^ 63"
definition f64_inf :: nat where "f64_inf = 2047 * 2 ^ 52"
definition quiet_nan :: f64 where "quiet_nan = 0x7FF8000000000001"

text \<open>The magnitude of a finite value as \<open>m\<close> and \<open>s\<close>.\<close>

definition f64_mag :: "f64 \<Rightarrow> nat \<times> int" where
  "f64_mag x =
     (let e = f64_abs x div 2 ^ 52; f = f64_abs x mod 2 ^ 52 in
      if e = 0 then (f, - 1074) else (f + 2 ^ 52, int e - 1075))"

definition f64_make :: "bool \<Rightarrow> nat \<Rightarrow> f64" where
  "f64_make neg mag = of_nat (mag + (if neg then 2 ^ 63 else 0))"

definition f64_round :: "bool \<Rightarrow> nat \<Rightarrow> nat \<Rightarrow> int \<Rightarrow> f64" where
  "f64_round neg a b s =
     (let (c, d) = scaled a b (- s) in f64_make neg (round_bits 52 (- 1074) f64_inf c d))"

section \<open>Operations\<close>

definition f64_mul :: "f64 \<Rightarrow> f64 \<Rightarrow> f64" where
  "f64_mul x y =
     (let neg = (f64_sign x \<noteq> f64_sign y) in
      if f64_nan x \<or> f64_nan y then quiet_nan
      else if f64_abs x = f64_inf \<or> f64_abs y = f64_inf then
        (if f64_abs x = 0 \<or> f64_abs y = 0 then quiet_nan else f64_make neg f64_inf)
      else let (m, s) = f64_mag x; (n, t) = f64_mag y in f64_round neg (m * n) 1 (s + t))"

definition f64_div :: "f64 \<Rightarrow> f64 \<Rightarrow> f64" where
  "f64_div x y =
     (let neg = (f64_sign x \<noteq> f64_sign y) in
      if f64_nan x \<or> f64_nan y then quiet_nan
      else if f64_abs x = f64_inf then (if f64_abs y = f64_inf then quiet_nan else f64_make neg f64_inf)
      else if f64_abs y = f64_inf then f64_make neg 0
      else if f64_abs y = 0 then (if f64_abs x = 0 then quiet_nan else f64_make neg f64_inf)
      else let (m, s) = f64_mag x; (n, t) = f64_mag y in f64_round neg m n (s - t))"

definition f64_add :: "f64 \<Rightarrow> f64 \<Rightarrow> f64" where
  "f64_add x y =
     (if f64_nan x \<or> f64_nan y then quiet_nan
      else if f64_abs x = f64_inf then
        (if f64_abs y = f64_inf \<and> f64_sign x \<noteq> f64_sign y then quiet_nan else x)
      else if f64_abs y = f64_inf then y
      else
        let (m, s) = f64_mag x; (n, t) = f64_mag y; l = min s t;
          a = int (m * 2 ^ nat (s - l)) * (if f64_sign x then - 1 else 1);
          b = int (n * 2 ^ nat (t - l)) * (if f64_sign y then - 1 else 1) in
        if a + b = 0 then f64_make (f64_sign x \<and> f64_sign y) 0
        else f64_round (a + b < 0) (nat \<bar>a + b\<bar>) 1 l)"

text \<open>
  Conversions. An integer is rounded; a value is cut towards zero. The result of the conversion of a value
  outside the range of the integer type depends on the machine in Go; the model gives the low bits.
\<close>

definition f64_of_u64 :: "u64 \<Rightarrow> f64" where
  "f64_of_u64 n = f64_round False (unat n) 1 0"

definition f64_of_int :: "int \<Rightarrow> f64" where
  "f64_of_int n = f64_round (n < 0) (nat \<bar>n\<bar>) 1 0"

definition f64_trunc :: "f64 \<Rightarrow> int" where
  "f64_trunc x =
     (let (m, s) = f64_mag x; (c, d) = scaled m 1 (- s); q = int (c div d) in
      if f64_sign x then - q else q)"

definition u64_of_f64 :: "f64 \<Rightarrow> u64" where
  "u64_of_f64 x = of_int (f64_trunc x)"

section \<open>Single precision\<close>

definition f32_inf :: nat where "f32_inf = 255 * 2 ^ 23"
definition f32_sign :: "f32 \<Rightarrow> bool" where "f32_sign x \<longleftrightarrow> bit x 31"
definition f32_abs :: "f32 \<Rightarrow> nat" where "f32_abs x = unat x mod 2 ^ 31"
definition quiet_nan32 :: f32 where "quiet_nan32 = 0x7FC00000"

definition f32_nan :: "f32 \<Rightarrow> bool" where "f32_nan x \<longleftrightarrow> f32_inf < f32_abs x"

definition f32_mag :: "f32 \<Rightarrow> nat \<times> int" where
  "f32_mag x =
     (let e = f32_abs x div 2 ^ 23; f = f32_abs x mod 2 ^ 23 in
      if e = 0 then (f, - 149) else (f + 2 ^ 23, int e - 150))"

definition f32_make :: "bool \<Rightarrow> nat \<Rightarrow> f32" where
  "f32_make neg mag = of_nat (mag + (if neg then 2 ^ 31 else 0))"

definition f32_round :: "bool \<Rightarrow> nat \<Rightarrow> nat \<Rightarrow> int \<Rightarrow> f32" where
  "f32_round neg a b s =
     (let (c, d) = scaled a b (- s) in f32_make neg (round_bits 23 (- 149) f32_inf c d))"

definition f32_of_f64 :: "f64 \<Rightarrow> f32" where
  "f32_of_f64 x =
     (if f64_nan x then quiet_nan32
      else if f64_abs x = f64_inf then f32_make (f64_sign x) f32_inf
      else let (m, s) = f64_mag x in f32_round (f64_sign x) m 1 s)"

definition f32_mul :: "f32 \<Rightarrow> f32 \<Rightarrow> f32" where
  "f32_mul x y =
     (let neg = (f32_sign x \<noteq> f32_sign y) in
      if f32_nan x \<or> f32_nan y then quiet_nan32
      else if f32_abs x = f32_inf \<or> f32_abs y = f32_inf then
        (if f32_abs x = 0 \<or> f32_abs y = 0 then quiet_nan32 else f32_make neg f32_inf)
      else let (m, s) = f32_mag x; (n, t) = f32_mag y in f32_round neg (m * n) 1 (s + t))"

end
