(* ===== verification/Geo_Index.thy ===== *)
theory Geo_Index
  imports IPv4 Go_Float
begin

text \<open>
  The GeoIP index (\<^verbatim>\<open>geoip/index.go\<close>, \<^verbatim>\<open>geoip/ranges.go\<close>, \<^verbatim>\<open>geoip/builder.go\<close> and the row
  checks of \<^verbatim>\<open>geoip/csv.go\<close>): an immutable compact snapshot of disjoint address ranges, whose
  country, region and city names are shared through dictionaries, published through an atomic
  pointer and searched by bisection.

  A \<^verbatim>\<open>float64\<close> is its 64 bits; \<open>f64_lt\<close> is the comparison of Go. The memory estimate
  \<^verbatim>\<open>approxBytes\<close>, which depends on the growth of slices in the Go runtime, is left out.
  The sorting of \<^verbatim>\<open>sort.Slice\<close> is an argument (\<open>srt\<close>).
\<close>

section \<open>Data\<close>

record geo_range =
  start_ip :: u32
  end_ip :: u32
  country :: string
  region :: string
  city :: string
  lat :: f64
  lon :: f64

record geo_lookup =
  lk_lat :: f64
  lk_lon :: f64
  lk_city :: string
  lk_region :: string
  lk_country :: string
  found :: bool

record range_row =
  row_start :: u32
  row_end :: u32
  country_id :: u32
  region_id :: u32
  city_id :: u32
  row_lat :: f64
  row_lon :: f64

record snapshot =
  rows :: "range_row list"
  countries :: "string list"
  regions :: "string list"
  cities :: "string list"

definition empty_snapshot :: snapshot where
  "empty_snapshot = \<lparr>rows = [], countries = [], regions = [], cities = []\<rparr>"

text \<open>The name of an unknown country, in UTF-8.\<close>

definition unknown_country :: string where
  "unknown_country = map byte [0xD0, 0x9D, 0xD0, 0xB5, 0xD0, 0xB8, 0xD0, 0xB7, 0xD0, 0xB2, 0xD0, 0xB5,
     0xD1, 0x81, 0xD1, 0x82, 0xD0, 0xBD, 0xD0, 0xBE]"

definition no_lookup :: geo_lookup where
  "no_lookup = \<lparr>lk_lat = 0, lk_lon = 0, lk_city = [], lk_region = [], lk_country = unknown_country, found = False\<rparr>"

section \<open>String dictionaries\<close>

record dict_builder =
  ids :: "string \<rightharpoonup> u32"
  vals :: "string list"
  dict_bytes :: u64

definition new_dict :: dict_builder where
  "new_dict = \<lparr>ids = Map.empty, vals = [], dict_bytes = 0\<rparr>"

definition dict_id :: "dict_builder \<Rightarrow> string \<Rightarrow> u32 \<times> dict_builder" where
  "dict_id b v = (case ids b v of
     Some i \<Rightarrow> (i, b)
   | None \<Rightarrow>
       let i = of_nat (length (vals b)) in
       (i, b\<lparr>ids := (ids b)(v \<mapsto> i), vals := vals b @ [v],
             dict_bytes := dict_bytes b + of_nat (length v)\<rparr>))"

definition lookup_string :: "string list \<Rightarrow> u32 \<Rightarrow> string" where
  "lookup_string d i = (if unat i < length d then d ! unat i else [])"

section \<open>Normalization of ranges: ranges.go\<close>

definition geo_le :: "geo_range \<Rightarrow> geo_range \<Rightarrow> bool" where
  "geo_le a b \<longleftrightarrow> start_ip a < start_ip b \<or> start_ip a = start_ip b \<and> end_ip a \<le> end_ip b"

definition norm_step :: "geo_range list \<times> nat \<Rightarrow> geo_range \<Rightarrow> geo_range list \<times> nat" where
  "norm_step st r = (case st of (clean, skipped) \<Rightarrow>
     if end_ip r < start_ip r then (clean, skipped + 1)
     else if length clean > 0 \<and> start_ip r \<le> end_ip (clean ! (length clean - 1)) then (clean, skipped + 1)
     else (clean @ [r], skipped))"

definition normalize_ranges ::
    "(geo_range list \<Rightarrow> geo_range list) \<Rightarrow> geo_range list \<Rightarrow> geo_range list \<times> nat" where
  "normalize_ranges srt ranges =
     (if length ranges = 0 then ([], 0) else foldl norm_step ([], 0) (srt ranges))"

datatype range_error = EndBeforeStart u32 u32 | Overlapping u32 u32 u32 u32

text \<open>CheckNonOverlapping: the loop starts at the second range.\<close>

fun check_pairs :: "geo_range \<Rightarrow> geo_range list \<Rightarrow> range_error option" where
  "check_pairs prev [] = None"
| "check_pairs prev (cur # rs) =
     (if end_ip cur < start_ip cur then Some (EndBeforeStart (start_ip cur) (end_ip cur))
      else if start_ip cur \<le> end_ip prev then
        Some (Overlapping (start_ip prev) (end_ip prev) (start_ip cur) (end_ip cur))
      else check_pairs cur rs)"

definition check_non_overlapping ::
    "(geo_range list \<Rightarrow> geo_range list) \<Rightarrow> geo_range list \<Rightarrow> range_error option" where
  "check_non_overlapping srt ranges =
     (if length ranges = 0 then None
      else (case srt ranges of [] \<Rightarrow> None | r # rs \<Rightarrow> check_pairs r rs))"

section \<open>Building a snapshot: index.go\<close>

record dicts =
  d_country :: dict_builder
  d_region :: dict_builder
  d_city :: dict_builder

definition make_row :: "dicts \<Rightarrow> geo_range \<Rightarrow> range_row \<times> dicts" where
  "make_row d g =
     (let (ci, dc) = dict_id (d_country d) (country g);
          (ri, dr) = dict_id (d_region d) (region g);
          (ti, dt) = dict_id (d_city d) (city g)
      in (\<lparr>row_start = start_ip g, row_end = end_ip g, country_id = ci, region_id = ri, city_id = ti,
           row_lat = lat g, row_lon = lon g\<rparr>,
          \<lparr>d_country = dc, d_region = dr, d_city = dt\<rparr>))"

definition add_row :: "dicts \<times> range_row list \<Rightarrow> geo_range \<Rightarrow> dicts \<times> range_row list" where
  "add_row st g = (let (row, d) = make_row (fst st) g in (d, snd st @ [row]))"

definition new_dicts :: dicts where
  "new_dicts = \<lparr>d_country = new_dict, d_region = new_dict, d_city = new_dict\<rparr>"

definition snapshot_of :: "dicts \<Rightarrow> range_row list \<Rightarrow> snapshot" where
  "snapshot_of d rs = \<lparr>rows = rs, countries = vals (d_country d), regions = vals (d_region d),
     cities = vals (d_city d)\<rparr>"

definition build_snapshot ::
    "(geo_range list \<Rightarrow> geo_range list) \<Rightarrow> geo_range list \<Rightarrow> bool \<Rightarrow> snapshot \<times> nat" where
  "build_snapshot srt ranges already_normalized =
     (if length ranges = 0 then (empty_snapshot, 0)
      else let (clean, skipped) = (if already_normalized then (ranges, 0) else normalize_ranges srt ranges) in
        if length clean = 0 then (empty_snapshot, skipped)
        else (let (d, rs) = foldl add_row (new_dicts, []) clean in (snapshot_of d rs, skipped)))"

definition to_geo_range :: "snapshot \<Rightarrow> range_row \<Rightarrow> geo_range" where
  "to_geo_range s row = \<lparr>start_ip = row_start row, end_ip = row_end row,
     country = lookup_string (countries s) (country_id row),
     region = lookup_string (regions s) (region_id row),
     city = lookup_string (cities s) (city_id row),
     lat = row_lat row, lon = row_lon row\<rparr>"

definition to_geo_lookup :: "snapshot \<Rightarrow> range_row \<Rightarrow> geo_lookup" where
  "to_geo_lookup s row = \<lparr>lk_lat = row_lat row, lk_lon = row_lon row,
     lk_city = lookup_string (cities s) (city_id row),
     lk_region = lookup_string (regions s) (region_id row),
     lk_country = lookup_string (countries s) (country_id row), found = True\<rparr>"

text \<open>findContainingRow: \<open>pos\<close> is one less than the result of the search.\<close>

definition find_containing_row :: "range_row list \<Rightarrow> u32 \<Rightarrow> range_row option" where
  "find_containing_row rs ip =
     (if length rs = 0 then None
      else let pos = int (sort_search (length rs) (\<lambda>k. row_start (rs ! k) > ip)) - 1 in
        if pos \<ge> 0 \<and> pos < int (length rs) then
          (let r = rs ! nat pos in
           if ip \<ge> row_start r \<and> ip \<le> row_end r then Some r else None)
        else None)"

definition find_containing_range_locked :: "geo_range list \<Rightarrow> u32 \<Rightarrow> geo_range option" where
  "find_containing_range_locked rs ip =
     (if length rs = 0 then None
      else let pos = int (sort_search (length rs) (\<lambda>k. start_ip (rs ! k) > ip)) - 1 in
        if pos \<ge> 0 \<and> pos < int (length rs) then
          (let r = rs ! nat pos in
           if ip \<ge> start_ip r \<and> ip \<le> end_ip r then Some r else None)
        else None)"

definition find_containing_range :: "geo_range list \<Rightarrow> string \<Rightarrow> geo_range option" where
  "find_containing_range rs str =
     (let v4 = to4 (parse_ip (trim_space str)) in
      if v4 = [] then None else find_containing_range_locked rs (ipv4_to_uint32 v4))"

section \<open>The published index\<close>

text \<open>The atomic pointer: \<open>None\<close> before the first publication.\<close>

type_synonym geo_index = "snapshot option"

record built_snapshot =
  b_snap :: "snapshot option"
  b_skipped :: nat

definition new_index :: geo_index where "new_index = None"

definition store_snapshot :: "snapshot option \<Rightarrow> geo_index" where
  "store_snapshot snap = Some (case snap of None \<Rightarrow> empty_snapshot | Some s \<Rightarrow> s)"

definition built :: "geo_index \<Rightarrow> built_snapshot" where
  "built i = (case i of None \<Rightarrow> \<lparr>b_snap = Some empty_snapshot, b_skipped = 0\<rparr>
     | Some s \<Rightarrow> \<lparr>b_snap = Some s, b_skipped = 0\<rparr>)"

definition replace_ranges :: "(geo_range list \<Rightarrow> geo_range list) \<Rightarrow> geo_range list \<Rightarrow> geo_index" where
  "replace_ranges srt ranges = store_snapshot (Some (fst (build_snapshot srt ranges False)))"

definition replace_normalized_ranges :: "geo_range list \<Rightarrow> geo_index" where
  "replace_normalized_ranges ranges = store_snapshot (Some (fst (build_snapshot id ranges True)))"

definition replace_built_snapshot :: "built_snapshot option \<Rightarrow> geo_index" where
  "replace_built_snapshot b = (case b of None \<Rightarrow> store_snapshot None | Some bs \<Rightarrow> store_snapshot (b_snap bs))"

definition range_count :: "geo_index \<Rightarrow> nat" where
  "range_count i = (case i of None \<Rightarrow> 0 | Some s \<Rightarrow> length (rows s))"

definition snapshot_ranges :: "geo_index \<Rightarrow> geo_range list" where
  "snapshot_ranges i = (case i of None \<Rightarrow> []
     | Some s \<Rightarrow> if length (rows s) = 0 then [] else map (to_geo_range s) (rows s))"

definition index_lookup :: "geo_index \<Rightarrow> string \<Rightarrow> geo_lookup" where
  "index_lookup i str =
     (let v4 = to4 (parse_ip (trim_space str)) in
      if v4 = [] then no_lookup
      else (case i of None \<Rightarrow> no_lookup
        | Some s \<Rightarrow> (case find_containing_row (rows s) (ipv4_to_uint32 v4) of
            Some row \<Rightarrow> to_geo_lookup s row
          | None \<Rightarrow> no_lookup)))"

definition lookup_range :: "geo_index \<Rightarrow> string \<Rightarrow> geo_range option" where
  "lookup_range i str =
     (let v4 = to4 (parse_ip (trim_space str)) in
      if v4 = [] then None
      else (case i of None \<Rightarrow> None
        | Some s \<Rightarrow> (case find_containing_row (rows s) (ipv4_to_uint32 v4) of
            None \<Rightarrow> None
          | Some row \<Rightarrow> Some (to_geo_range s row))))"

definition range_matches_query :: "geo_range \<Rightarrow> string \<Rightarrow> bool" where
  "range_matches_query g q =
     (if contains_str (to_lower (country g)) q \<or> contains_str (to_lower (region g)) q
        \<or> contains_str (to_lower (city g)) q then True
      else contains_str (to_lower (format_network (start_ip g) (end_ip g))) q)"

record collected =
  items :: "geo_range list"
  total :: nat
  filtered :: nat
  truncated :: bool

definition collect_step ::
    "nat \<Rightarrow> string \<Rightarrow> snapshot \<Rightarrow> geo_range list \<times> nat \<Rightarrow> range_row \<Rightarrow> geo_range list \<times> nat" where
  "collect_step limit q s st row =
     (let g = to_geo_range s row; (its, flt) = st in
      if \<not> range_matches_query g q then (its, flt)
      else (if length its < limit then its @ [g] else its, flt + 1))"

definition collect_ranges :: "geo_index \<Rightarrow> int \<Rightarrow> string \<Rightarrow> collected" where
  "collect_ranges i lim query =
     (let limit = (if lim \<le> 0 then 2000 else lim) in
      if limit > 10000 then \<lparr>items = [], total = 0, filtered = 0, truncated = False\<rparr>
      else let q = to_lower (trim_space query) in
      case i of None \<Rightarrow> \<lparr>items = [], total = 0, filtered = 0, truncated = False\<rparr>
      | Some s \<Rightarrow>
        let tot = length (rows s) in
        if tot = 0 then \<lparr>items = [], total = 0, filtered = 0, truncated = False\<rparr>
        else if q = [] then
          (let n = (if limit > int tot then int tot else limit) in
           if n > 10000 then \<lparr>items = [], total = tot, filtered = 0, truncated = False\<rparr>
           else \<lparr>items = map (\<lambda>k. to_geo_range s (rows s ! k)) [0..<nat n], total = tot, filtered = tot,
                  truncated = (int tot > limit)\<rparr>)
        else
          (let (its, flt) = foldl (collect_step (nat limit) q s) ([], 0) (rows s) in
           \<lparr>items = its, total = tot, filtered = flt, truncated = (int flt > limit)\<rparr>))"

section \<open>The streaming builder: builder.go\<close>

record compact_builder =
  cb_dicts :: dicts
  cb_rows :: "range_row list"
  cb_prev :: "range_row option"
  cb_skipped :: nat

definition new_compact_builder :: compact_builder where
  "new_compact_builder = \<lparr>cb_dicts = new_dicts, cb_rows = [], cb_prev = None, cb_skipped = 0\<rparr>"

definition add_range :: "compact_builder \<Rightarrow> geo_range \<Rightarrow> bool \<times> compact_builder" where
  "add_range b g =
     (if end_ip g < start_ip g then (False, b\<lparr>cb_skipped := cb_skipped b + 1\<rparr>)
      else if (case cb_prev b of None \<Rightarrow> False | Some p \<Rightarrow> start_ip g \<le> row_end p) then
        (False, b\<lparr>cb_skipped := cb_skipped b + 1\<rparr>)
      else (let (row, d) = make_row (cb_dicts b) g; rs = cb_rows b @ [row] in
        (True, b\<lparr>cb_dicts := d, cb_rows := rs, cb_prev := Some (rs ! (length rs - 1))\<rparr>)))"

definition build :: "compact_builder \<Rightarrow> built_snapshot" where
  "build b = \<lparr>b_snap = Some (snapshot_of (cb_dicts b) (cb_rows b)), b_skipped = cb_skipped b\<rparr>"

section \<open>Rows of a CSV file: csv.go\<close>

text \<open>The bounds of coordinates.\<close>

definition f90 :: f64 where "f90 = 0x4056800000000000"
definition fm90 :: f64 where "fm90 = 0xC056800000000000"
definition f180 :: f64 where "f180 = 0x4066800000000000"
definition fm180 :: f64 where "fm180 = 0xC066800000000000"

datatype entry_error = BadNetwork | MissingNames | BadLatitude | BadLongitude

definition parse_range_entry ::
    "string \<Rightarrow> string \<Rightarrow> string \<Rightarrow> string \<Rightarrow> f64 \<Rightarrow> f64 \<Rightarrow> entry_error + geo_range" where
  "parse_range_entry network ctry reg cty la lo =
     (case parse_network_field network of
        None \<Rightarrow> Inl BadNetwork
      | Some (s, e) \<Rightarrow>
          let ctry = trim_space ctry; reg = trim_space reg; cty = trim_space cty in
          if ctry = [] \<or> reg = [] \<or> cty = [] then Inl MissingNames
          else if f64_lt la fm90 \<or> f64_lt f90 la then Inl BadLatitude
          else if f64_lt lo fm180 \<or> f64_lt f180 lo then Inl BadLongitude
          else Inr \<lparr>start_ip = s, end_ip = e, country = ctry, region = reg, city = cty, lat = la, lon = lo\<rparr>)"

text \<open>The check of ReadCSVSnapshot over the sorted rows, from the first one on.\<close>

fun csv_check :: "geo_range option \<Rightarrow> geo_range list \<Rightarrow> range_error option" where
  "csv_check prev [] = None"
| "csv_check prev (g # rs) =
     (if end_ip g < start_ip g then Some (EndBeforeStart (start_ip g) (end_ip g))
      else (case prev of
          None \<Rightarrow> csv_check (Some g) rs
        | Some p \<Rightarrow>
            if start_ip g \<le> end_ip p then
              Some (Overlapping (start_ip p) (end_ip p) (start_ip g) (end_ip g))
            else csv_check (Some g) rs))"

definition add_all :: "geo_range list \<Rightarrow> compact_builder" where
  "add_all rs = foldl (\<lambda>b g. snd (add_range b g)) new_compact_builder rs"

datatype csv_error = NoValidRows | CsvRange range_error

text \<open>ReadCSVSnapshot after the rows are parsed.\<close>

definition csv_snapshot ::
    "(geo_range list \<Rightarrow> geo_range list) \<Rightarrow> geo_range list \<Rightarrow> csv_error + (geo_range list \<times> built_snapshot)" where
  "csv_snapshot srt ranges =
     (if length ranges = 0 then Inl NoValidRows
      else let sorted = srt ranges in
        (case csv_check None sorted of
           Some e \<Rightarrow> Inl (CsvRange e)
         | None \<Rightarrow> Inr (sorted, build (add_all sorted))))"

record csv_columns =
  col_net :: nat
  col_cty :: nat
  col_reg :: nat
  col_city :: nat
  col_lat :: nat
  col_lon :: nat

text \<open>parseCSVHeader: the byte order mark EF BB BF is cut off.\<close>

definition trim_bom :: "string \<Rightarrow> string" where
  "trim_bom s = (if take 3 s = map byte [0xEF, 0xBB, 0xBF] then drop 3 s else s)"

fun find_col_from :: "nat \<Rightarrow> string list \<Rightarrow> string \<Rightarrow> nat option" where
  "find_col_from i [] name = None"
| "find_col_from i (h # hs) name =
     (if equal_fold (trim_space (trim_bom h)) name then Some i else find_col_from (Suc i) hs name)"

definition parse_csv_header :: "string list \<Rightarrow> csv_columns option" where
  "parse_csv_header headers =
     (let hs = (case headers of [] \<Rightarrow> [] | h # t \<Rightarrow> trim_space (trim_bom h) # t);
          find_col = find_col_from 0 hs in
      (case (find_col ''Network'', find_col ''Country'', find_col ''Region'',
             find_col ''City'', find_col ''Latitude'', find_col ''Longitude'') of
         (Some n, Some c, Some r, Some t, Some la, Some lo) \<Rightarrow>
           Some \<lparr>col_net = n, col_cty = c, col_reg = r, col_city = t, col_lat = la, col_lon = lo\<rparr>
       | _ \<Rightarrow> None))"

text \<open>parseCSVRow; \<open>parse_float\<close> is \<^verbatim>\<open>strconv.ParseFloat\<close>.\<close>

definition parse_csv_row ::
    "(string \<Rightarrow> f64 option) \<Rightarrow> string list \<Rightarrow> csv_columns \<Rightarrow> geo_range option" where
  "parse_csv_row parse_float row cols =
     (let max_idx = foldl (\<lambda>m i. if i > m then i else m) (col_net cols)
            [col_cty cols, col_reg cols, col_city cols, col_lat cols, col_lon cols] in
      if length row \<le> max_idx then None
      else (case parse_network_field (row ! col_net cols) of
          None \<Rightarrow> None
        | Some (s, e) \<Rightarrow>
            (case parse_float (trim_space (row ! col_lat cols)) of
               None \<Rightarrow> None
             | Some la \<Rightarrow>
                 if f64_lt la fm90 \<or> f64_lt f90 la then None
                 else (case parse_float (trim_space (row ! col_lon cols)) of
                     None \<Rightarrow> None
                   | Some lo \<Rightarrow>
                       if f64_lt lo fm180 \<or> f64_lt f180 lo then None
                       else Some \<lparr>start_ip = s, end_ip = e,
                         country = trim_space (row ! col_cty cols),
                         region = trim_space (row ! col_reg cols),
                         city = trim_space (row ! col_city cols), lat = la, lon = lo\<rparr>))))"

section \<open>Normalized lists of ranges\<close>

definition valid_range :: "geo_range \<Rightarrow> bool" where
  "valid_range r \<longleftrightarrow> start_ip r \<le> end_ip r"

definition covers :: "geo_range \<Rightarrow> u32 \<Rightarrow> bool" where
  "covers r v \<longleftrightarrow> start_ip r \<le> v \<and> v \<le> end_ip r"

definition before :: "geo_range \<Rightarrow> geo_range \<Rightarrow> bool" where
  "before a b \<longleftrightarrow> end_ip a < start_ip b"

definition disjoint_ranges :: "geo_range list \<Rightarrow> bool" where
  "disjoint_ranges rs \<longleftrightarrow> list_all valid_range rs \<and> sorted_wrt before rs"

lemma disjoint_ranges_Nil [simp]: "disjoint_ranges []"
  by (simp add: disjoint_ranges_def)

lemma disjoint_ranges_snoc:
  "disjoint_ranges (rs @ [r]) \<longleftrightarrow>
     disjoint_ranges rs \<and> valid_range r \<and> (rs = [] \<or> before (last rs) r)"
proof -
  have "before a r" if "disjoint_ranges rs" "valid_range r" "before (last rs) r" "a \<in> set rs" for a
  proof (cases "a = last rs")
    case False
    from that(4) have ne: "rs \<noteq> []" by auto
    then have rs: "rs = butlast rs @ [last rs]" by simp
    with that False have a: "a \<in> set (butlast rs)" by (metis Un_iff set_ConsD set_append set_empty2 empty_iff list.set(1))
    from that(1) rs have "sorted_wrt before (butlast rs @ [last rs])" "valid_range (last rs)"
      using ne by (auto simp: disjoint_ranges_def list_all_iff)
    with a have "before a (last rs)" by (simp add: sorted_wrt_append)
    with that(3) \<open>valid_range (last rs)\<close> show ?thesis
      by (auto simp: before_def valid_range_def)
  qed (use that in simp)
  then show ?thesis
    by (cases "rs = []") (auto simp: disjoint_ranges_def sorted_wrt_append)
qed

lemma geo_le_order: "transp geo_le" "totalp geo_le" "reflp geo_le"
proof -
  show "transp geo_le" by (rule transpI) (auto simp: geo_le_def)
  show "reflp geo_le" by (rule reflpI) (simp add: geo_le_def)
  show "totalp geo_le" by (rule totalpI) (auto simp: geo_le_def)
qed

interpretation geo_sort: slice_sorter geo_le "sort_by geo_le"
  by (rule slice_sorter_sort_by) (rule geo_le_order)+

text \<open>What the loop of NormalizeRanges has established after the ranges \<open>done\<close>.\<close>

definition norm_inv :: "geo_range list \<Rightarrow> geo_range list \<times> nat \<Rightarrow> bool" where
  "norm_inv done st \<longleftrightarrow> disjoint_ranges (fst st) \<and> mset (fst st) \<subseteq># mset done
     \<and> length (fst st) + snd st = length done
     \<and> (\<forall>r \<in> set done. r \<in> set (fst st) \<or> \<not> valid_range r \<or> (\<exists>c \<in> set (fst st). covers c (start_ip r)))"

lemma subset_add_mset: "m \<subseteq># n \<Longrightarrow> m \<subseteq># add_mset x n"
  by (metis add_mset_add_single mset_subset_eq_add_left subset_mset.order_trans)

lemma norm_step_inv:
  assumes "norm_inv done st" "\<forall>a \<in> set done. geo_le a r"
  shows "norm_inv (done @ [r]) (norm_step st r)"
proof -
  obtain clean sk where st: "st = (clean, sk)" by force
  note inv = assms(1) [unfolded norm_inv_def st fst_conv snd_conv]
  have sub: "set clean \<subseteq> set done" using inv by (metis mset_subset_eqD set_mset_mset subsetI)
  consider "\<not> valid_range r" | "valid_range r" "clean \<noteq> []" "start_ip r \<le> end_ip (last clean)"
    | "valid_range r" "clean = [] \<or> before (last clean) r"
    unfolding before_def not_less [symmetric] by blast
  then show ?thesis
  proof cases
    case 1
    then have "norm_step st r = (clean, sk + 1)"
      by (simp add: norm_step_def st valid_range_def not_le)
    with inv 1 show ?thesis
      by (auto simp: norm_inv_def intro: subset_add_mset)
  next
    case 2
    then have eq: "norm_step st r = (clean, sk + 1)"
      by (simp add: norm_step_def st last_conv_nth)
    have "last clean \<in> set clean" using 2 by simp
    with sub assms(2) have "geo_le (last clean) r" by blast
    with 2 have "covers (last clean) (start_ip r)" by (auto simp: covers_def geo_le_def)
    with \<open>last clean \<in> set clean\<close> inv show ?thesis
      by (auto simp: norm_inv_def eq intro: subset_add_mset)
  next
    case 3
    then have eq: "norm_step st r = (clean @ [r], sk)"
      by (auto simp: norm_step_def st valid_range_def before_def last_conv_nth)
    with inv 3 show ?thesis
      by (auto simp: norm_inv_def disjoint_ranges_snoc)
  qed
qed

lemma foldl_norm_inv: "sorted_wrt geo_le rs \<Longrightarrow> norm_inv rs (foldl norm_step ([], 0) rs)"
proof (induction rs rule: rev_induct)
  case Nil
  then show ?case by (simp add: norm_inv_def)
next
  case (snoc r rs)
  then show ?case by (auto simp: sorted_wrt_append intro: norm_step_inv)
qed


lemma slice_sorter_norm_inv:
  assumes "slice_sorter geo_le srt"
  shows "norm_inv rs (normalize_ranges srt rs)"
proof (cases "rs = []")
  case True
  then show ?thesis by (simp add: normalize_ranges_def norm_inv_def)
next
  case False
  note s = slice_sorter.srt_sorted [OF assms] slice_sorter.srt_mset [OF assms] slice_sorter.srt_set [OF assms] slice_sorter.srt_length [OF assms]
  have "norm_inv (srt rs) (foldl norm_step ([], 0) (srt rs))"
    by (rule foldl_norm_inv) (rule s(1))
  with False show ?thesis by (simp add: normalize_ranges_def norm_inv_def s)
qed

section \<open>Dictionaries and rows\<close>

definition dict_ok :: "dict_builder \<Rightarrow> bool" where
  "dict_ok d \<longleftrightarrow> distinct (vals d) \<and>
     (\<forall>v i. ids d v = Some i \<longleftrightarrow> unat i < length (vals d) \<and> vals d ! unat i = v)"

lemma dict_ok_new [simp]: "dict_ok new_dict"
  by (simp add: dict_ok_def new_dict_def)

lemma vals_new_dict [simp]: "vals new_dict = []"
  by (simp add: new_dict_def)

text \<open>The result of a dictionary step: the number names the value, and older numbers keep theirs.\<close>

lemma dict_id_spec:
  assumes "dict_ok d" "length (vals d) < 2 ^ 32" "dict_id d v = (i, d')"
  shows "dict_ok d' \<and> unat i < length (vals d') \<and> vals d' ! unat i = v
    \<and> (\<exists>t. vals d' = vals d @ t) \<and> length (vals d') \<le> length (vals d) + 1"
proof (cases "ids d v")
  case (Some j)
  with assms show ?thesis by (auto simp: dict_id_def dict_ok_def)
next
  case None
  define n where "n = length (vals d)"
  have un: "unat (of_nat n :: u32) = n"
    using assms(2) by (simp add: n_def unat_of_nat take_bit_nat_eq_self)
  have d': "i = of_nat n" "d' = d\<lparr>ids := (ids d)(v \<mapsto> of_nat n), vals := vals d @ [v],
      dict_bytes := dict_bytes d + of_nat (length v)\<rparr>"
    using assms(3) None by (auto simp: dict_id_def n_def Let_def)
  have v: "v \<notin> set (vals d)"
  proof
    assume "v \<in> set (vals d)"
    then obtain k where "k < n" "vals d ! k = v" by (auto simp: in_set_conv_nth n_def)
    moreover have "unat (of_nat k :: u32) = k" using \<open>k < n\<close> assms(2)
      by (simp add: n_def unat_of_nat take_bit_nat_eq_self)
    ultimately have "ids d v = Some (of_nat k)" using assms(1) by (simp add: dict_ok_def n_def)
    with None show False by simp
  qed
  have "ids d' w = Some j \<longleftrightarrow> unat j < length (vals d') \<and> vals d' ! unat j = w" for w j
  proof (cases "unat j = n")
    case True
    then have "j = of_nat n" by (metis word_unat_eq_iff un)
    with True show ?thesis using assms(1) v by (auto simp: d' dict_ok_def n_def nth_append)
  next
    case False
    then have "j \<noteq> of_nat n" using un by auto
    with False assms(1) v show ?thesis
      by (auto simp: d' dict_ok_def n_def nth_append dest: nth_mem)
  qed
  moreover have "distinct (vals d')" using v assms(1) by (simp add: d' dict_ok_def)
  ultimately show ?thesis by (auto simp: d' dict_ok_def un nth_append n_def [symmetric])
qed

definition row_names :: "dicts \<Rightarrow> range_row \<Rightarrow> geo_range \<Rightarrow> bool" where
  "row_names d row g \<longleftrightarrow>
     unat (country_id row) < length (vals (d_country d)) \<and> vals (d_country d) ! unat (country_id row) = country g
   \<and> unat (region_id row) < length (vals (d_region d)) \<and> vals (d_region d) ! unat (region_id row) = region g
   \<and> unat (city_id row) < length (vals (d_city d)) \<and> vals (d_city d) ! unat (city_id row) = city g
   \<and> row_start row = start_ip g \<and> row_end row = end_ip g \<and> row_lat row = lat g \<and> row_lon row = lon g"

definition dicts_ok :: "nat \<Rightarrow> dicts \<Rightarrow> bool" where
  "dicts_ok n d \<longleftrightarrow> dict_ok (d_country d) \<and> dict_ok (d_region d) \<and> dict_ok (d_city d)
     \<and> length (vals (d_country d)) \<le> n \<and> length (vals (d_region d)) \<le> n \<and> length (vals (d_city d)) \<le> n"

lemma row_names_grow:
  assumes "row_names d row g" "vals (d_country d') = vals (d_country d) @ t1"
    "vals (d_region d') = vals (d_region d) @ t2" "vals (d_city d') = vals (d_city d) @ t3"
  shows "row_names d' row g"
  using assms by (auto simp: row_names_def nth_append)

lemma make_row_spec:
  assumes "dicts_ok n d" "n < 2 ^ 32" "make_row d g = (row, d')"
  shows "dicts_ok (n + 1) d' \<and> row_names d' row g
    \<and> (\<forall>r h. row_names d r h \<longrightarrow> row_names d' r h)"
proof -
  obtain ci dc ri dr ti dt where ids: "dict_id (d_country d) (country g) = (ci, dc)"
      "dict_id (d_region d) (region g) = (ri, dr)" "dict_id (d_city d) (city g) = (ti, dt)"
    by (metis surj_pair)
  have eq: "row = \<lparr>row_start = start_ip g, row_end = end_ip g, country_id = ci, region_id = ri,
      city_id = ti, row_lat = lat g, row_lon = lon g\<rparr>" "d' = \<lparr>d_country = dc, d_region = dr, d_city = dt\<rparr>"
    using assms(3) by (auto simp: make_row_def ids)
  have ok: "dict_ok (d_country d)" "dict_ok (d_region d)" "dict_ok (d_city d)"
    "length (vals (d_country d)) < 2 ^ 32" "length (vals (d_region d)) < 2 ^ 32" "length (vals (d_city d)) < 2 ^ 32"
    using assms(1,2) by (auto simp: dicts_ok_def)
  note s = dict_id_spec [OF ok(1,4) ids(1)] dict_id_spec [OF ok(2,5) ids(2)] dict_id_spec [OF ok(3,6) ids(3)]
  have "dicts_ok (n + 1) d'" using assms(1) s by (auto simp: dicts_ok_def eq)
  moreover have "row_names d' row g" using s by (simp add: row_names_def eq)
  moreover have "row_names d' r h" if "row_names d r h" for r h
    using s that row_names_grow [of d r h d'] by (auto simp: eq)
  ultimately show ?thesis by blast
qed

lemma foldl_add_row:
  assumes "length gs \<le> 2 ^ 32" "foldl add_row (new_dicts, []) gs = (d, rs)"
  shows "dicts_ok (length gs) d \<and> list_all2 (row_names d) rs gs"
  using assms
proof (induction gs arbitrary: d rs rule: rev_induct)
  case Nil
  then have "d = new_dicts" "rs = []" by auto
  then show ?case by (simp add: dicts_ok_def new_dicts_def)
next
  case (snoc g gs)
  obtain d0 rs0 where 0: "foldl add_row (new_dicts, []) gs = (d0, rs0)" by force
  with snoc have IH: "dicts_ok (length gs) d0" "list_all2 (row_names d0) rs0 gs" by auto
  obtain row where row: "make_row d0 g = (row, d)" "rs = rs0 @ [row]"
  proof -
    have "add_row (d0, rs0) g = (d, rs)" using snoc.prems(2) 0 by simp
    then show thesis using that by (auto simp: add_row_def split: prod.splits)
  qed
  have "length gs < 2 ^ 32" using snoc.prems(1) by simp
  note spec = make_row_spec [OF IH(1) this row(1)]
  have "list_all2 (row_names d) rs0 gs"
    by (rule list_all2_mono [OF IH(2)]) (use spec in blast)
  with spec show ?case by (simp add: row(2) list_all2_appendI)
qed

lemma to_geo_range_names: "row_names d row g \<Longrightarrow> to_geo_range (snapshot_of d rs) row = g"
  by (simp add: to_geo_range_def row_names_def snapshot_of_def lookup_string_def)


section \<open>Search\<close>

lemma find_locked_disjoint:
  assumes "disjoint_ranges rs"
  shows "find_containing_range_locked rs v = find (\<lambda>r. covers r v) rs"
proof (cases "rs = []")
  case True
  then show ?thesis by (simp add: find_containing_range_locked_def)
next
  case False
  define m where "m = sort_search (length rs) (\<lambda>k. start_ip (rs ! k) > v)"
  have val: "start_ip (rs ! k) \<le> end_ip (rs ! k)" if "k < length rs" for k
    using assms that by (auto simp: disjoint_ranges_def list_all_length valid_range_def)
  have bef: "end_ip (rs ! j) < start_ip (rs ! k)" if "j < k" "k < length rs" for j k
    using assms that by (auto simp: disjoint_ranges_def before_def sorted_wrt_iff_nth_less)
  have mono: "start_ip (rs ! j) \<le> start_ip (rs ! k)" if "j \<le> k" "k < length rs" for j k
  proof (cases "j = k")
    case False
    with that have "start_ip (rs ! j) \<le> end_ip (rs ! j)" "end_ip (rs ! j) < start_ip (rs ! k)"
      using val [of j] bef [of j k] by auto
    then show ?thesis by simp
  qed simp
  have m: "m \<le> length rs" "\<And>k. k < m \<Longrightarrow> start_ip (rs ! k) \<le> v"
      "\<And>k. m \<le> k \<Longrightarrow> k < length rs \<Longrightarrow> v < start_ip (rs ! k)"
  proof -
    have "m \<le> length rs \<and> (\<forall>k < m. \<not> start_ip (rs ! k) > v) \<and>
        (\<forall>k. m \<le> k \<longrightarrow> k < length rs \<longrightarrow> start_ip (rs ! k) > v)"
      unfolding m_def by (rule sort_search_spec) (use mono in \<open>meson order_less_le_trans\<close>)
    then show "m \<le> length rs" "\<And>k. k < m \<Longrightarrow> start_ip (rs ! k) \<le> v"
      "\<And>k. m \<le> k \<Longrightarrow> k < length rs \<Longrightarrow> v < start_ip (rs ! k)" by (auto simp: not_less)
  qed
  have cov: "k + 1 = m" if "k < length rs" "covers (rs ! k) v" for k
  proof (rule antisym)
    show "k + 1 \<le> m" using m(3) [of k] that by (force simp: covers_def not_less [symmetric])
    show "m \<le> k + 1"
    proof (rule ccontr)
      assume "\<not> m \<le> k + 1"
      with m(1) m(2) [of "k + 1"] have "start_ip (rs ! (k + 1)) \<le> v" "k + 1 < length rs" by auto
      with bef [of k "k + 1"] that show False by (auto simp: covers_def)
    qed
  qed
  show ?thesis
  proof (cases "0 < m \<and> covers (rs ! (m - 1)) v")
    case True
    with m(1) have "find (\<lambda>r. covers r v) rs = Some (rs ! (m - 1))"
      by (subst find_Some_iff) (auto intro!: exI [of _ "m - 1"] dest: cov [rotated])
    with True m(1) show ?thesis
      by (auto simp: find_containing_range_locked_def m_def [symmetric] Let_def covers_def nat_diff_distrib')
  next
    case nc: False
    then have "find (\<lambda>r. covers r v) rs = None"
      by (auto simp: find_None_iff in_set_conv_nth dest: cov)
    with nc show ?thesis
      by (auto simp: find_containing_range_locked_def m_def [symmetric] Let_def covers_def nat_diff_distrib')
  qed
qed

text \<open>A row is searched as the range it stands for.\<close>

lemma find_row_range:
  assumes "\<And>r. r \<in> set rs \<Longrightarrow> start_ip (h r) = row_start r \<and> end_ip (h r) = row_end r"
  shows "map_option h (find_containing_row rs v) = find_containing_range_locked (map h rs) v"
proof -
  have "sort_search (length rs) (\<lambda>k. row_start (rs ! k) > v) =
      sort_search (length rs) (\<lambda>k. start_ip (map h rs ! k) > v)"
    by (rule sort_search_cong) (use assms in simp)
  then show ?thesis
    by (auto simp: find_containing_row_def find_containing_range_locked_def Let_def assms nat_less_iff)
qed

section \<open>Snapshots and the index\<close>

lemma disjoint_length: "disjoint_ranges rs \<Longrightarrow> length rs \<le> 2 ^ 32"
proof -
  assume d: "disjoint_ranges rs"
  have "sorted_wrt (\<lambda>a b. start_ip a < start_ip b) rs"
  proof (rule sorted_wrt_mono_rel)
    show "sorted_wrt before rs" using d by (simp add: disjoint_ranges_def)
    show "start_ip a < start_ip b" if "a \<in> set rs" "b \<in> set rs" "before a b" for a b
      using d that by (auto simp: disjoint_ranges_def list_all_iff valid_range_def before_def)
  qed
  then have "sorted_wrt (<) (map start_ip rs)" by (simp add: sorted_wrt_map)
  then have "distinct (map start_ip rs)" using strict_sorted_iff by blast
  then have "length rs = card (set (map start_ip rs))"
    by (metis distinct_card length_map)
  also have "\<dots> \<le> card (UNIV :: u32 set)" by (rule card_mono) auto
  finally show ?thesis by (simp add: card_word)
qed

lemma foldl_add_row_ranges:
  assumes "length gs \<le> 2 ^ 32" "foldl add_row (new_dicts, []) gs = (d, rs)"
  shows "map (to_geo_range (snapshot_of d rs)) rs = gs"
proof -
  have "list_all2 (row_names d) rs gs" using foldl_add_row [OF assms] by blast
  then have "list_all2 (\<lambda>r g. to_geo_range (snapshot_of d rs) r = g) rs gs"
    by (rule list_all2_mono) (rule to_geo_range_names)
  then show ?thesis by (simp add: list_all2_conv_all_nth list_eq_iff_nth_eq)
qed

lemma build_snapshot_rows:
  "build_snapshot srt rs True = (case foldl add_row (new_dicts, []) rs of (d, rw) \<Rightarrow> (snapshot_of d rw, 0))"
  "build_snapshot srt rs False = (case normalize_ranges srt rs of (clean, skipped) \<Rightarrow>
     case foldl add_row (new_dicts, []) clean of (d, rw) \<Rightarrow> (snapshot_of d rw, skipped))"
  by (auto simp: build_snapshot_def normalize_ranges_def snapshot_of_def empty_snapshot_def new_dicts_def
      split: prod.splits)

lemma snapshot_ranges_map: "snapshot_ranges (Some s) = map (to_geo_range s) (rows s)"
  by (simp add: snapshot_ranges_def)

lemma rows_snapshot_of [simp]: "rows (snapshot_of d rs) = rs"
  by (simp add: snapshot_of_def)

lemma snapshot_ranges_normalized:
  assumes "length rs \<le> 2 ^ 32"
  shows "snapshot_ranges (replace_normalized_ranges rs) = rs"
  using foldl_add_row_ranges [OF assms]
  by (auto simp: replace_normalized_ranges_def build_snapshot_rows store_snapshot_def snapshot_ranges_map
      split: prod.splits)

lemma replace_ranges_normalized:
  "replace_ranges srt rs = replace_normalized_ranges (fst (normalize_ranges srt rs))"
  by (auto simp: replace_normalized_ranges_def replace_ranges_def build_snapshot_rows split: prod.splits)

text \<open>A range as the answer of a lookup.\<close>

definition lookup_of_range :: "geo_range \<Rightarrow> geo_lookup" where
  "lookup_of_range r = \<lparr>lk_lat = lat r, lk_lon = lon r, lk_city = city r, lk_region = region r,
     lk_country = country r, found = True\<rparr>"

lemma to_geo_lookup_range: "to_geo_lookup s row = lookup_of_range (to_geo_range s row)"
  by (simp add: to_geo_lookup_def lookup_of_range_def to_geo_range_def)

lemma find_row_snapshot:
  "map_option (to_geo_range s) (find_containing_row (rows s) v) =
     find_containing_range_locked (map (to_geo_range s) (rows s)) v"
  by (rule find_row_range) (simp add: to_geo_range_def)

lemma lookup_via_ranges:
  assumes "i = Some s"
  shows "lookup_range i str = find_containing_range (snapshot_ranges i) str"
    and "index_lookup i str = (case find_containing_range (snapshot_ranges i) str of
       None \<Rightarrow> no_lookup | Some r \<Rightarrow> lookup_of_range r)"
  using find_row_snapshot [of s "ipv4_to_uint32 (to4 (parse_ip (trim_space str)))", symmetric] assms
  by (auto simp: lookup_range_def index_lookup_def find_containing_range_def snapshot_ranges_map Let_def
      to_geo_lookup_range split: option.splits)

section \<open>The streaming builder\<close>

definition builder_inv :: "compact_builder \<Rightarrow> geo_range list \<times> nat \<Rightarrow> bool" where
  "builder_inv b st \<longleftrightarrow> foldl add_row (new_dicts, []) (fst st) = (cb_dicts b, cb_rows b)
     \<and> cb_skipped b = snd st
     \<and> map_option row_end (cb_prev b) = (if fst st = [] then None else Some (end_ip (last (fst st))))"

lemma add_range_inv:
  assumes "builder_inv b st" shows "builder_inv (snd (add_range b g)) (norm_step st g)"
proof -
  obtain clean sk where st: "st = (clean, sk)" by force
  have inv: "foldl add_row (new_dicts, []) clean = (cb_dicts b, cb_rows b)" "cb_skipped b = sk"
    "map_option row_end (cb_prev b) = (if clean = [] then None else Some (end_ip (last clean)))"
    using assms by (auto simp: builder_inv_def st)
  obtain row d where row: "make_row (cb_dicts b) g = (row, d)" by force
  have "row_end row = end_ip g" using row by (auto simp: make_row_def split: prod.splits)
  moreover have "(case cb_prev b of None \<Rightarrow> False | Some p \<Rightarrow> start_ip g \<le> row_end p) \<longleftrightarrow>
      clean \<noteq> [] \<and> start_ip g \<le> end_ip (clean ! (length clean - 1))"
    using inv(3) by (auto simp: last_conv_nth split: option.splits if_splits)
  ultimately show ?thesis
    using inv row by (auto simp: add_range_def norm_step_def st builder_inv_def add_row_def Let_def nth_append)
qed

lemma add_all_inv: "builder_inv (add_all rs) (foldl norm_step ([], 0) rs)"
proof (induction rs rule: rev_induct)
  case Nil
  then show ?case by (simp add: builder_inv_def add_all_def new_compact_builder_def)
next
  case (snoc g rs)
  then show ?case by (simp add: add_all_def add_range_inv)
qed

section \<open>Accepting a file: nothing is skipped\<close>

lemma foldl_norm_skip_0:
  "foldl norm_step ([], 0) rs = (c, 0) \<longleftrightarrow> c = rs \<and> disjoint_ranges rs"
proof (induction rs arbitrary: c rule: rev_induct)
  case Nil
  then show ?case by auto
next
  case (snoc r rs)
  obtain c0 s0 where 0: "foldl norm_step ([], 0) rs = (c0, s0)" by force
  have acc: "norm_step (c0, s0) r = (c, 0) \<longleftrightarrow>
      s0 = 0 \<and> c = c0 @ [r] \<and> valid_range r \<and> (c0 = [] \<or> before (last c0) r)"
    by (cases "c0 = []") (auto simp: norm_step_def valid_range_def before_def last_conv_nth not_le not_less)
  show ?case
  proof (cases "s0 = 0")
    case True
    with snoc [of c0] 0 have "c0 = rs" "disjoint_ranges rs" by auto
    with acc 0 True show ?thesis by (auto simp: disjoint_ranges_snoc)
  next
    case False
    with snoc [of rs] 0 have "\<not> disjoint_ranges rs" by auto
    with False acc 0 show ?thesis by (auto simp: disjoint_ranges_snoc)
  qed
qed

lemma norm_skip_0_iff: "snd (foldl norm_step ([], 0) rs) = 0 \<longleftrightarrow> disjoint_ranges rs"
  using foldl_norm_skip_0 [of rs "fst (foldl norm_step ([], 0) rs)"] foldl_norm_skip_0 [of rs rs]
  by (cases "foldl norm_step ([], 0) rs") auto

lemma csv_check_Some: "valid_range p \<Longrightarrow> csv_check (Some p) rs = None \<longleftrightarrow> disjoint_ranges (p # rs)"
proof (induction rs arbitrary: p)
  case (Cons g rs)
  have "disjoint_ranges (p # g # rs) \<longleftrightarrow> valid_range p \<and> before p g \<and> disjoint_ranges (g # rs)"
    if "valid_range g"
    using that by (auto simp: disjoint_ranges_def before_def valid_range_def)
  moreover have "\<not> disjoint_ranges (p # g # rs)" if "\<not> valid_range g"
    using that by (simp add: disjoint_ranges_def)
  ultimately show ?case using Cons by (auto simp: valid_range_def before_def)
qed (simp add: disjoint_ranges_def)

lemma csv_check_None: "csv_check None rs = None \<longleftrightarrow> disjoint_ranges rs"
proof (cases rs)
  case (Cons g gs)
  then show ?thesis using csv_check_Some [of g gs]
    by (auto simp: valid_range_def disjoint_ranges_def not_le)
qed simp

lemma check_pairs_valid: "valid_range p \<Longrightarrow> check_pairs p rs = csv_check (Some p) rs"
  by (induction rs arbitrary: p) (auto simp: valid_range_def not_less)

section \<open>Properties\<close>

text \<open>Normalization keeps a maximal set of disjoint ranges. Whatever sorting algorithm is used,
  \<^verbatim>\<open>NormalizeRanges\<close> returns some of the given ranges, with their multiplicity, in ascending order,
  each with start not after end and ending before the next one starts; kept and skipped ranges add
  up to the given ones; and a given range is missing only if its end is before its start or its
  first address lies in a range that was kept.\<close>

theorem normalize_ranges_correct:
  assumes "slice_sorter geo_le srt" "normalize_ranges srt rs = (clean, skipped)"
  shows "disjoint_ranges clean \<and> mset clean \<subseteq># mset rs \<and> length clean + skipped = length rs
    \<and> (\<forall>r \<in> set rs. r \<in> set clean \<or> \<not> valid_range r \<or> (\<exists>c \<in> set clean. covers c (start_ip r)))"
  using slice_sorter_norm_inv [OF assms(1), of rs] by (simp add: assms(2) norm_inv_def)

definition ex_range :: "u32 \<Rightarrow> u32 \<Rightarrow> string \<Rightarrow> geo_range" where
  "ex_range s e c = \<lparr>start_ip = s, end_ip = e, country = c, region = ''R'', city = ''C'', lat = 0, lon = 0\<rparr>"

theorem normalize_ranges_correct_witness:
  "disjoint_ranges [ex_range 1 5 ''A'', ex_range 6 9 ''B'']
   \<and> mset [ex_range 1 5 ''A'', ex_range 6 9 ''B''] \<subseteq># mset [ex_range 6 9 ''B'', ex_range 4 7 ''D'', ex_range 1 5 ''A'']"
proof -
  have "normalize_ranges (sort_by geo_le) [ex_range 6 9 ''B'', ex_range 4 7 ''D'', ex_range 1 5 ''A''] =
      ([ex_range 1 5 ''A'', ex_range 6 9 ''B''], 1)"
    by (simp add: normalize_ranges_def geo_le_def ex_range_def norm_step_def)
  from normalize_ranges_correct [OF geo_sort.slice_sorter_axioms this] show ?thesis by blast
qed

text \<open>C3: A lookup in the index returns the data of the range that covers the address. After
  \<^verbatim>\<open>ReplaceRanges\<close>, with any sorting algorithm, \<^verbatim>\<open>Lookup\<close> of a text that is an IPv4 address
  answers with the coordinates, country, region and city of the one normalized range that covers
  its value, through the dictionaries and the bisection, and with the unknown country if there is
  no such range or the text is no IPv4 address; \<^verbatim>\<open>LookupRange\<close> returns that range itself.\<close>

theorem index_lookup_correct:
  assumes "slice_sorter geo_le srt"
  shows "index_lookup (replace_ranges srt rs) str =
      (if to4 (parse_ip (trim_space str)) = [] then no_lookup
       else (case find (\<lambda>r. covers r (ipv4_to_uint32 (parse_ip (trim_space str)))) (fst (normalize_ranges srt rs)) of
          None \<Rightarrow> no_lookup | Some r \<Rightarrow> lookup_of_range r))
    \<and> lookup_range (replace_ranges srt rs) (uint32_to_ip v) = find (\<lambda>r. covers r v) (fst (normalize_ranges srt rs))"
proof -
  define clean where "clean = fst (normalize_ranges srt rs)"
  have d: "disjoint_ranges clean"
    using slice_sorter_norm_inv [OF assms, of rs] by (simp add: norm_inv_def clean_def)
  obtain s where s: "replace_ranges srt rs = Some s" by (simp add: replace_ranges_def store_snapshot_def)
  have r: "snapshot_ranges (replace_ranges srt rs) = clean"
    using snapshot_ranges_normalized [OF disjoint_length [OF d]]
    by (simp add: replace_ranges_normalized clean_def)
  have v4: "ipv4_to_uint32 (to4 ip) = ipv4_to_uint32 ip" for ip by (simp add: ipv4_to_uint32_def)
  have f: "find_containing_range clean t = (if to4 (parse_ip (trim_space t)) = [] then None
      else find (\<lambda>r. covers r (ipv4_to_uint32 (parse_ip (trim_space t)))) clean)" for t
    by (simp add: find_containing_range_def find_locked_disjoint [OF d] v4 Let_def)
  have t: "trim_space (uint32_to_ip v) = uint32_to_ip v"
    using dotted_plain [of "octets v"] by (simp add: uint32_to_ip_def trim_space_all_plain octets_def)
  have "ipv4_to_uint32 (v4_prefix @ octets v) = v" by (metis v4 to4_mapped ipv4_to_uint32_octets)
  moreover have "octets v \<noteq> []" by (simp add: octets_def)
  ultimately show ?thesis
    unfolding lookup_via_ranges [OF s] r clean_def [symmetric]
    by (simp add: f t parse_ip_uint32)
qed

theorem index_lookup_correct_witness:
  "index_lookup (replace_ranges (sort_by geo_le) [ex_range 6 9 ''B'', ex_range 4 7 ''D'', ex_range 1 5 ''A''])
      ''0.0.0.7'' = lookup_of_range (ex_range 6 9 ''B'')"
proof -
  have "parse_ip (trim_space ''0.0.0.7'') = v4_prefix @ octets 7" by code_simp
  moreover have "normalize_ranges (sort_by geo_le) [ex_range 6 9 ''B'', ex_range 4 7 ''D'', ex_range 1 5 ''A''] =
      ([ex_range 1 5 ''A'', ex_range 6 9 ''B''], 1)"
    by (simp add: normalize_ranges_def geo_le_def ex_range_def norm_step_def)
  ultimately show ?thesis
    using index_lookup_correct [OF geo_sort.slice_sorter_axioms,
        of "[ex_range 6 9 ''B'', ex_range 4 7 ''D'', ex_range 1 5 ''A'']" "''0.0.0.7''"]
    by (simp add: ipv4_to_uint32_def) (simp add: octets_def be_u32_def covers_def ex_range_def)
qed

text \<open>The dictionaries lose nothing: the ranges read back from the compact snapshot of a
  normalized list (at most \<open>2 ^ 32\<close> ranges, which disjoint ranges always are) are the list that
  was published, every name included.\<close>

theorem snapshot_roundtrip:
  assumes "length rs \<le> 2 ^ 32 \<or> disjoint_ranges rs"
  shows "snapshot_ranges (replace_normalized_ranges rs) = rs
    \<and> range_count (replace_normalized_ranges rs) = length rs"
proof -
  have len: "length rs \<le> 2 ^ 32" using assms disjoint_length by blast
  have "snapshot_ranges (replace_normalized_ranges rs) = rs"
    by (rule snapshot_ranges_normalized [OF len])
  moreover from this have "range_count (replace_normalized_ranges rs) = length rs"
    by (auto simp: range_count_def snapshot_ranges_def split: option.splits if_splits)
  ultimately show ?thesis by blast
qed

theorem snapshot_roundtrip_witness:
  "snapshot_ranges (replace_normalized_ranges [ex_range 1 5 ''A'', ex_range 6 9 ''B'', ex_range 11 12 ''A'']) =
     [ex_range 1 5 ''A'', ex_range 6 9 ''B'', ex_range 11 12 ''A'']"
  by (rule snapshot_roundtrip [THEN conjunct1]) simp

text \<open>The streaming builder and the batch normalization are the same function. Adding ranges one
  by one to a \<^verbatim>\<open>CompactBuilder\<close>, in any order and with invalid or overlapping ones among them,
  builds the rows, dictionaries and skip count that the loop of \<^verbatim>\<open>NormalizeRanges\<close> over the same
  sequence followed by \<^verbatim>\<open>buildSnapshot\<close> gives.\<close>

theorem compact_builder_equivalent:
  "build (add_all rs) =
     (case foldl norm_step ([], 0) rs of (clean, skipped) \<Rightarrow>
        \<lparr>b_snap = Some (fst (build_snapshot srt clean True)), b_skipped = skipped\<rparr>)"
  using add_all_inv [of rs]
  by (auto simp: builder_inv_def build_def build_snapshot_rows split: prod.splits)

text \<open>C6: A file is accepted exactly when normalization would drop nothing, and then the import
  publishes the same index as \<^verbatim>\<open>ReplaceRanges\<close>. For at least one parsed row, \<^verbatim>\<open>ReadCSVSnapshot\<close>
  succeeds if and only if the sorted ranges are valid and pairwise disjoint, which holds if and only
  if \<^verbatim>\<open>NormalizeRanges\<close> skips none; the snapshot it returns, once published, equals the index
  built from the ranges directly, and its ranges are the sorted ranges.\<close>

theorem csv_import_correct:
  assumes "slice_sorter geo_le srt" "rs \<noteq> []"
  shows "(\<exists>r. csv_snapshot srt rs = Inr r) = (snd (normalize_ranges srt rs) = 0)
    \<and> (snd (normalize_ranges srt rs) = 0) = disjoint_ranges (srt rs)
    \<and> (\<forall>sorted b. csv_snapshot srt rs = Inr (sorted, b) \<longrightarrow>
         replace_built_snapshot (Some b) = replace_ranges srt rs
       \<and> snapshot_ranges (replace_built_snapshot (Some b)) = srt rs \<and> sorted = srt rs \<and> b_skipped b = 0)"
proof -
  have n: "normalize_ranges srt rs = foldl norm_step ([], 0) (srt rs)"
    using assms(2) by (simp add: normalize_ranges_def)
  have sk: "snd (normalize_ranges srt rs) = 0 \<longleftrightarrow> disjoint_ranges (srt rs)"
    unfolding n by (rule norm_skip_0_iff)
  have acc: "csv_snapshot srt rs = Inr (sorted, b) \<longleftrightarrow>
      disjoint_ranges (srt rs) \<and> sorted = srt rs \<and> b = build (add_all (srt rs))" for sorted b
    using assms(2) by (auto simp: csv_snapshot_def Let_def csv_check_None [symmetric] split: option.splits)
  have pub: "replace_built_snapshot (Some (build (add_all (srt rs)))) = replace_ranges srt rs
      \<and> snapshot_ranges (replace_ranges srt rs) = srt rs \<and> b_skipped (build (add_all (srt rs))) = 0"
    if d: "disjoint_ranges (srt rs)"
  proof -
    have f: "foldl norm_step ([], 0) (srt rs) = (srt rs, 0)" using d foldl_norm_skip_0 by blast
    have "build (add_all (srt rs)) = \<lparr>b_snap = Some (fst (build_snapshot srt (srt rs) True)), b_skipped = 0\<rparr>"
      using add_all_inv [of "srt rs"] unfolding f
      by (auto simp: builder_inv_def build_def build_snapshot_rows)
    moreover have "fst (normalize_ranges srt rs) = srt rs" using n f by simp
    moreover have "build_snapshot id (srt rs) True = build_snapshot srt (srt rs) True"
      by (simp add: build_snapshot_rows)
    ultimately show ?thesis
      using snapshot_ranges_normalized [OF disjoint_length [OF d]]
      by (simp add: replace_ranges_normalized replace_built_snapshot_def replace_normalized_ranges_def)
  qed
  show ?thesis using sk acc pub by (metis surj_pair)
qed

theorem csv_import_correct_witness:
  "(\<exists>r. csv_snapshot (sort_by geo_le) [ex_range 6 9 ''B'', ex_range 1 5 ''A''] = Inr r) \<and>
   \<not> (\<exists>r. csv_snapshot (sort_by geo_le) [ex_range 6 9 ''B'', ex_range 4 7 ''D''] = Inr r)"
proof -
  have "snd (normalize_ranges (sort_by geo_le) [ex_range 6 9 ''B'', ex_range 1 5 ''A'']) = 0"
    "snd (normalize_ranges (sort_by geo_le) [ex_range 6 9 ''B'', ex_range 4 7 ''D'']) = 1"
    by (simp_all add: normalize_ranges_def geo_le_def ex_range_def norm_step_def)
  then show ?thesis
    using csv_import_correct [OF geo_sort.slice_sorter_axioms, of "[ex_range 6 9 ''B'', ex_range 1 5 ''A'']"]
      csv_import_correct [OF geo_sort.slice_sorter_axioms, of "[ex_range 6 9 ''B'', ex_range 4 7 ''D'']"]
    by simp
qed

text \<open>\<^verbatim>\<open>CheckNonOverlapping\<close> accepts a list exactly when normalization would drop nothing,
  provided that no range ends before it starts; but as its loop starts at the second range, it does
  not reject a single range that ends before it starts, which the check of \<^verbatim>\<open>ReadCSVSnapshot\<close>
  rejects.\<close>

theorem check_non_overlapping_correct:
  assumes "slice_sorter geo_le srt"
  shows "(list_all valid_range rs \<longrightarrow>
       (check_non_overlapping srt rs = None) = (snd (normalize_ranges srt rs) = 0))
    \<and> check_non_overlapping srt [r] = None
    \<and> (csv_check None (srt [r]) = None) = valid_range r"
proof -
  have one: "srt [r] = [r]"
    using slice_sorter.srt_mset [OF assms, of "[r]"] by simp
  have "(check_non_overlapping srt rs = None) = disjoint_ranges (srt rs)" if "list_all valid_range rs"
  proof (cases "srt rs")
    case (Cons g gs)
    have "valid_range g" using that Cons slice_sorter.srt_set [OF assms, of rs] by (auto simp: list_all_iff)
    then show ?thesis using Cons slice_sorter.srt_length [OF assms, of rs]
      by (auto simp: check_non_overlapping_def check_pairs_valid csv_check_Some)
  qed (auto simp: check_non_overlapping_def)
  moreover have "(snd (normalize_ranges srt rs) = 0) = disjoint_ranges (srt rs)"
  proof (cases "rs = []")
    case True
    then show ?thesis using slice_sorter.srt_Nil [OF assms] by (simp add: normalize_ranges_def)
  next
    case False
    then show ?thesis by (simp add: normalize_ranges_def norm_skip_0_iff)
  qed
  ultimately show ?thesis
    by (simp add: one check_non_overlapping_def csv_check_None)
      (auto simp: disjoint_ranges_def valid_range_def)
qed

theorem check_non_overlapping_correct_witness:
  "check_non_overlapping (sort_by geo_le) [ex_range 9 2 ''A''] = None \<and> \<not> valid_range (ex_range 9 2 ''A'')"
  using check_non_overlapping_correct [OF geo_sort.slice_sorter_axioms, of "[]" "ex_range 9 2 ''A''"]
  by (simp add: valid_range_def ex_range_def)


lemma contains_str_Nil [simp]: "contains_str s []"
  by (cases s) (simp_all add: has_prefix_def)

lemma foldl_collect:
  "foldl (collect_step limit q s) ([], 0) rw =
     (take limit (filter (\<lambda>g. range_matches_query g q) (map (to_geo_range s) rw)),
      length (filter (\<lambda>g. range_matches_query g q) (map (to_geo_range s) rw)))"
proof (induction rw rule: rev_induct)
  case (snoc row rw)
  then show ?case by (auto simp: collect_step_def Let_def min_def)
qed simp

text \<open>Listing is filtering. For a limit of at most 10000 (2000 when none is given) and any search
  text, \<^verbatim>\<open>CollectRanges\<close> returns the first \<open>limit\<close> ranges of the index that match the trimmed, lower-cased
  text in a name or in the printed network, the number of all ranges, the number of matching ones
  and whether some were cut off; a larger limit is refused with an empty answer.\<close>

theorem collect_ranges_correct:
  "collect_ranges i lim query =
     (let limit = (if lim \<le> 0 then 2000 else lim);
          hits = filter (\<lambda>g. range_matches_query g (to_lower (trim_space query))) (snapshot_ranges i) in
      if limit > 10000 then \<lparr>items = [], total = 0, filtered = 0, truncated = False\<rparr>
      else \<lparr>items = take (nat limit) hits, total = length (snapshot_ranges i),
             filtered = length hits, truncated = (int (length hits) > limit)\<rparr>)"
proof (cases i)
  case None
  then show ?thesis by (auto simp: collect_ranges_def snapshot_ranges_def Let_def)
next
  case (Some s)
  have all: "filter (\<lambda>g. range_matches_query g []) gs = gs" for gs
    by (simp add: range_matches_query_def)
  have tk: "map (\<lambda>k. to_geo_range s (rw ! k)) [0..<min m (length rw)] = take m (map (to_geo_range s) rw)" for m rw
    by (rule nth_equalityI) auto
  show ?thesis
  proof (cases "rows s = []")
    case True
    then show ?thesis by (auto simp: Some collect_ranges_def snapshot_ranges_def Let_def)
  next
    case ne: False
    show ?thesis
    proof (cases "to_lower (trim_space query) = []")
      case True
      then have q: "trim_space query = []" by simp
      show ?thesis using ne tk [where m = "nat (if lim \<le> 0 then 2000 else lim)" and rw = "rows s"]
        by (auto simp: Some collect_ranges_def snapshot_ranges_map q all Let_def min_def nat_le_iff)
    next
      case False
      then show ?thesis using ne
        by (auto simp: Some collect_ranges_def snapshot_ranges_map foldl_collect Let_def)
    qed
  qed
qed

lemma trimmed_parts: "parse_range_entry n c r t la lo = Inr g \<Longrightarrow>
    trim_space (country g) = country g \<and> country g \<noteq> []"
  by (auto simp: parse_range_entry_def Let_def split: option.splits if_splits)

lemma parse_network_field_valid: "parse_network_field str = Some (s, e) \<Longrightarrow> s \<le> e"
  by (auto simp: parse_network_field_def Let_def le_word_or2 split: if_splits option.splits list.splits prod.splits)

text \<open>A range entered by hand is stored only with a valid network and complete names, and within
  the bounds of the coordinates unless a coordinate is not a number: \<^verbatim>\<open>ParseRangeEntry\<close> accepts
  only ranges that start no later than they end, with non-empty trimmed names, and a latitude and a
  longitude that are NaN or lie in [-90, 90] and [-180, 180]; a NaN, which compares with nothing, passes
  the check.\<close>

theorem parse_range_entry_correct:
  "(\<forall>g. parse_range_entry n c r t la lo = Inr g \<longrightarrow>
      valid_range g \<and> country g \<noteq> [] \<and> region g \<noteq> [] \<and> city g \<noteq> []
    \<and> (f64_nan la \<or> f64_key fm90 \<le> f64_key la \<and> f64_key la \<le> f64_key f90)
    \<and> (f64_nan lo \<or> f64_key fm180 \<le> f64_key lo \<and> f64_key lo \<le> f64_key f180))
   \<and> (\<forall>s e. parse_network_field n = Some (s, e) \<and> trim_space c \<noteq> [] \<and> trim_space r \<noteq> []
      \<and> trim_space t \<noteq> [] \<and> f64_nan la \<and> f64_nan lo \<longrightarrow> (\<exists>g. parse_range_entry n c r t la lo = Inr g))"
proof -
  have nan: "\<not> f64_nan f90" "\<not> f64_nan fm90" "\<not> f64_nan f180" "\<not> f64_nan fm180"
    by code_simp+
  show ?thesis using nan
    by (auto simp: parse_range_entry_def Let_def f64_lt_def valid_range_def parse_network_field_valid
        split: option.splits if_splits)
qed

theorem parse_range_entry_correct_witness:
  "\<exists>g. parse_range_entry (uint32_to_ip 0x0A000001) ''A'' ''B'' ''C'' 0x7FF8000000000001 0x7FF8000000000001 = Inr g"
proof -
  have "parse_network_field (uint32_to_ip 0x0A000001) = Some (0x0A000001, 0x0A000001)"
    using parse_network_field_format [of "0x0A000001" "0x0A000001"] by (simp add: format_network_def)
  moreover have "trim_space ''A'' \<noteq> []" "trim_space ''B'' \<noteq> []" "trim_space ''C'' \<noteq> []"
    by (simp_all add: trim_space_plain plain_def code_def)
  moreover have "f64_nan 0x7FF8000000000001" by (simp add: f64_nan_def)
  ultimately show ?thesis
    using parse_range_entry_correct [of "uint32_to_ip 0x0A000001" "''A''" "''B''" "''C''" "0x7FF8000000000001" "0x7FF8000000000001"]
    by blast
qed

end
