(* ===== verification/Geo_Codec.thy ===== *)
theory Geo_Codec
  imports Geo_Index "HOL-Library.Monad_Syntax"
begin

text \<open>
  The snapshot file of the GeoIP index (\<^verbatim>\<open>geoip/snapshot_codec.go\<close>): the stamp that ties it to
  the rows of the database, the binary encoding with its CRC-32, and the decoder. A reader is a
  function from the unread bytes to a value and the rest, or \<open>None\<close> for
  \<^verbatim>\<open>io.ErrUnexpectedEOF\<close>; the contract between a writer and its reader is the locale
  \<open>codec\<close>, interpreted for every field type of the file.
\<close>

unbundle bit_operations_syntax

section \<open>The stamp\<close>

record source_stamp =
  count :: u64
  min_start :: u32
  max_end :: u32
  sum_start :: u64
  sum_end :: u64
  xor_span :: u64

definition zero_stamp :: source_stamp where
  "zero_stamp = \<lparr>count = 0, min_start = 0, max_end = 0, sum_start = 0, sum_end = 0, xor_span = 0\<rparr>"

definition span_bits :: "u32 \<Rightarrow> u32 \<Rightarrow> u64" where
  "span_bits s e = push_bit 32 (ucast s) OR ucast e"

definition stamp_add :: "u32 \<Rightarrow> u32 \<Rightarrow> source_stamp \<Rightarrow> source_stamp" where
  "stamp_add s e st =
     (let st = (if count st = 0 then st\<lparr>min_start := s, max_end := e\<rparr>
        else (let st = (if s < min_start st then st\<lparr>min_start := s\<rparr> else st) in
              if e > max_end st then st\<lparr>max_end := e\<rparr> else st)) in
      st\<lparr>count := count st + 1, sum_start := sum_start st + ucast s, sum_end := sum_end st + ucast e,
         xor_span := xor_span st XOR span_bits s e\<rparr>)"

definition stamp_from_ranges :: "geo_range list \<Rightarrow> source_stamp" where
  "stamp_from_ranges rs = fold (\<lambda>g. stamp_add (start_ip g) (end_ip g)) rs zero_stamp"

section \<open>Bytes\<close>

type_synonym bytes = "u8 list"

definition char_byte :: "char \<Rightarrow> u8" where "char_byte c = of_nat (code c)"
definition byte_char :: "u8 \<Rightarrow> char" where "byte_char b = byte (unat b)"

definition le_u32 :: "u32 \<Rightarrow> bytes" where
  "le_u32 v = [ucast v, ucast (drop_bit 8 v), ucast (drop_bit 16 v), ucast (drop_bit 24 v)]"

definition le_u64 :: "u64 \<Rightarrow> bytes" where
  "le_u64 v = le_u32 (ucast v) @ le_u32 (ucast (drop_bit 32 v))"

definition get_u32 :: "bytes \<Rightarrow> u32" where
  "get_u32 bs = be_u32 (bs ! 3) (bs ! 2) (bs ! 1) (bs ! 0)"

text \<open>\<^verbatim>\<open>crc32.ChecksumIEEE\<close>, bit by bit\<close>

definition crc_step :: "u32 \<Rightarrow> u32" where
  "crc_step c = (if bit c 0 then drop_bit 1 c XOR 0xEDB88320 else drop_bit 1 c)"

definition crc_byte :: "u32 \<Rightarrow> u8 \<Rightarrow> u32" where
  "crc_byte c b = (crc_step ^^ 8) (c XOR ucast b)"

definition checksum_ieee :: "bytes \<Rightarrow> u32" where
  "checksum_ieee bs = NOT (foldl crc_byte (NOT 0) bs)"

section \<open>Encoding\<close>

definition snapshot_magic :: bytes where
  "snapshot_magic = map char_byte ''NMGS''"

definition snapshot_version :: u32 where "snapshot_version = 1"

definition append_str :: "string \<Rightarrow> bytes" where
  "append_str s = le_u32 (of_nat (length s)) @ map char_byte s"

definition append_dict :: "string list \<Rightarrow> bytes" where
  "append_dict values = le_u32 (of_nat (length values)) @ concat (map append_str values)"

definition append_row :: "range_row \<Rightarrow> bytes" where
  "append_row r = le_u32 (row_start r) @ le_u32 (row_end r) @ le_u32 (country_id r) @ le_u32 (region_id r)
     @ le_u32 (city_id r) @ le_u64 (row_lat r) @ le_u64 (row_lon r)"

definition encode_payload :: "snapshot \<Rightarrow> source_stamp \<Rightarrow> bytes" where
  "encode_payload snap st =
     le_u64 (count st) @ le_u32 (min_start st) @ le_u32 (max_end st) @ le_u64 (sum_start st)
     @ le_u64 (sum_end st) @ le_u64 (xor_span st)
     @ append_dict (countries snap) @ append_dict (regions snap) @ append_dict (cities snap)
     @ le_u32 (of_nat (length (rows snap))) @ concat (map append_row (rows snap))"

definition encode_snapshot :: "built_snapshot option \<Rightarrow> source_stamp \<Rightarrow> bytes" where
  "encode_snapshot b st =
     (let snap = (case b of None \<Rightarrow> empty_snapshot
        | Some bs \<Rightarrow> (case b_snap bs of None \<Rightarrow> empty_snapshot | Some s \<Rightarrow> s));
          payload = encode_payload snap st in
      snapshot_magic @ le_u32 snapshot_version @ payload @ le_u32 (checksum_ieee payload))"

section \<open>Decoding\<close>

definition read_u32 :: "bytes \<Rightarrow> (u32 \<times> bytes) option" where
  "read_u32 bs = (if 4 > length bs then None else Some (get_u32 bs, drop 4 bs))"

definition read_u64 :: "bytes \<Rightarrow> (u64 \<times> bytes) option" where
  "read_u64 bs = (if 8 > length bs then None
     else Some (ucast (get_u32 bs) OR push_bit 32 (ucast (get_u32 (drop 4 bs))), drop 8 bs))"

fun read_n :: "(bytes \<Rightarrow> ('a \<times> bytes) option) \<Rightarrow> nat \<Rightarrow> bytes \<Rightarrow> ('a list \<times> bytes) option" where
  "read_n rd 0 bs = Some ([], bs)"
| "read_n rd (Suc n) bs = do {
     (x, bs) \<leftarrow> rd bs;
     (xs, bs) \<leftarrow> read_n rd n bs;
     Some (x # xs, bs) }"

definition read_str :: "bytes \<Rightarrow> (string \<times> bytes) option" where
  "read_str bs = do {
     (ln, bs) \<leftarrow> read_u32 bs;
     if unat ln > length bs then None
     else Some (map byte_char (take (unat ln) bs), drop (unat ln) bs) }"

definition read_dict :: "bytes \<Rightarrow> (string list \<times> bytes) option" where
  "read_dict bs = do {
     (n, bs) \<leftarrow> read_u32 bs;
     read_n read_str (unat n) bs }"

definition read_row :: "bytes \<Rightarrow> (range_row \<times> bytes) option" where
  "read_row bs = do {
     (s, bs) \<leftarrow> read_u32 bs;
     (e, bs) \<leftarrow> read_u32 bs;
     (c, bs) \<leftarrow> read_u32 bs;
     (r, bs) \<leftarrow> read_u32 bs;
     (t, bs) \<leftarrow> read_u32 bs;
     (la, bs) \<leftarrow> read_u64 bs;
     (lo, bs) \<leftarrow> read_u64 bs;
     Some (\<lparr>row_start = s, row_end = e, country_id = c, region_id = r, city_id = t,
       row_lat = la, row_lon = lo\<rparr>, bs) }"

definition read_stamp :: "bytes \<Rightarrow> (source_stamp \<times> bytes) option" where
  "read_stamp bs = do {
     (n, bs) \<leftarrow> read_u64 bs;
     (mi, bs) \<leftarrow> read_u32 bs;
     (ma, bs) \<leftarrow> read_u32 bs;
     (ss, bs) \<leftarrow> read_u64 bs;
     (se, bs) \<leftarrow> read_u64 bs;
     (xs, bs) \<leftarrow> read_u64 bs;
     Some (\<lparr>count = n, min_start = mi, max_end = ma, sum_start = ss, sum_end = se, xor_span = xs\<rparr>, bs) }"

datatype codec_error = Truncated | BadMagic | UnsupportedVersion | ChecksumMismatch | UnexpectedEOF | TrailingBytes

definition decode_payload :: "bytes \<Rightarrow> codec_error + (snapshot \<times> source_stamp)" where
  "decode_payload p =
     (case do {
        (st, bs) \<leftarrow> read_stamp p;
        (cs, bs) \<leftarrow> read_dict bs;
        (rs, bs) \<leftarrow> read_dict bs;
        (ts, bs) \<leftarrow> read_dict bs;
        (n, bs) \<leftarrow> read_u32 bs;
        (rw, bs) \<leftarrow> read_n read_row (unat n) bs;
        Some (\<lparr>rows = rw, countries = cs, regions = rs, cities = ts\<rparr>, st, bs) }
      of None \<Rightarrow> Inl UnexpectedEOF
       | Some (snap, st, bs) \<Rightarrow> if bs \<noteq> [] then Inl TrailingBytes else Inr (snap, st))"

definition decode_snapshot :: "bytes \<Rightarrow> codec_error + (built_snapshot \<times> source_stamp)" where
  "decode_snapshot d =
     (if length d < 12 then Inl Truncated
      else if take 4 d \<noteq> snapshot_magic then Inl BadMagic
      else if get_u32 (drop 4 d) \<noteq> snapshot_version then Inl UnsupportedVersion
      else (let sum = get_u32 (drop (length d - 4) d); payload = drop 8 (take (length d - 4) d) in
        if checksum_ieee payload \<noteq> sum then Inl ChecksumMismatch
        else (case decode_payload payload of
            Inl e \<Rightarrow> Inl e
          | Inr (snap, st) \<Rightarrow> Inr (\<lparr>b_snap = Some snap, b_skipped = 0\<rparr>, st))))"

section \<open>The contract of a writer and its reader\<close>

locale codec =
  fixes enc :: "'a \<Rightarrow> bytes" and dec :: "bytes \<Rightarrow> ('a \<times> bytes) option" and ok :: "'a \<Rightarrow> bool"
  assumes dec_enc: "ok x \<Longrightarrow> dec (enc x @ rest) = Some (x, rest)"
begin

lemma read_n_enc:
  "list_all ok xs \<Longrightarrow> read_n dec (length xs) (concat (map enc xs) @ rest) = Some (xs, rest)"
  by (induction xs) (auto simp: dec_enc)

end

lemma get_le_u32 [simp]: "get_u32 (le_u32 v @ bs) = v"
  by (simp add: get_u32_def le_u32_def)

lemma length_le_u32 [simp]: "length (le_u32 v) = 4"
  by (simp add: le_u32_def)

lemma length_le_u64 [simp]: "length (le_u64 v) = 8"
  by (simp add: le_u64_def)

lemma drop_le_u32 [simp]: "drop 4 (le_u32 v @ bs) = bs"
  by (simp add: le_u32_def)

lemma u64_halves: "ucast (ucast v :: u32) OR push_bit 32 (ucast (ucast (drop_bit 32 v) :: u32)) = (v :: u64)"
proof (rule bit_word_eqI)
  fix n assume "n < LENGTH(64)"
  then consider "n < 32" | "32 \<le> n" "n < 64" by force
  then show "bit (ucast (ucast v :: u32) OR push_bit 32 (ucast (ucast (drop_bit 32 v) :: u32)) :: u64) n = bit v n"
    by cases (auto simp: bit_simps)
qed

interpretation c32: codec le_u32 read_u32 "\<lambda>_. True"
  by unfold_locales (simp add: read_u32_def)

interpretation c64: codec le_u64 read_u64 "\<lambda>_. True"
  by unfold_locales (simp add: read_u64_def le_u64_def u64_halves)

lemma byte_char_byte [simp]: "byte_char (char_byte c) = c"
proof -
  have "unat (of_nat (code c) :: u8) = code c"
    by (simp add: unat_of_nat take_bit_nat_eq_self)
  then show ?thesis by (simp add: byte_char_def char_byte_def)
qed

lemma unat_of_nat_u32 [simp]: "n < 2 ^ 32 \<Longrightarrow> unat (of_nat n :: u32) = n"
  by (simp add: unat_of_nat take_bit_nat_eq_self)

interpretation cstr: codec append_str read_str "\<lambda>s. length s < 2 ^ 32"
  by unfold_locales (simp add: read_str_def append_str_def c32.dec_enc o_def)

definition dict_fits :: "string list \<Rightarrow> bool" where
  "dict_fits d \<longleftrightarrow> length d < 2 ^ 32 \<and> list_all (\<lambda>s. length s < 2 ^ 32) d"

interpretation cdict: codec append_dict read_dict dict_fits
  by unfold_locales
    (simp add: read_dict_def append_dict_def c32.dec_enc dict_fits_def cstr.read_n_enc)

interpretation crow: codec append_row read_row "\<lambda>_. True"
  by unfold_locales (simp add: read_row_def append_row_def c32.dec_enc c64.dec_enc)

definition append_stamp :: "source_stamp \<Rightarrow> bytes" where
  "append_stamp st = le_u64 (count st) @ le_u32 (min_start st) @ le_u32 (max_end st) @ le_u64 (sum_start st)
     @ le_u64 (sum_end st) @ le_u64 (xor_span st)"

interpretation cstamp: codec append_stamp read_stamp "\<lambda>_. True"
  by unfold_locales (simp add: read_stamp_def append_stamp_def c32.dec_enc c64.dec_enc)

definition snapshot_fits :: "snapshot \<Rightarrow> bool" where
  "snapshot_fits s \<longleftrightarrow> dict_fits (countries s) \<and> dict_fits (regions s) \<and> dict_fits (cities s)
     \<and> length (rows s) < 2 ^ 32"

lemma decode_encode_payload:
  "snapshot_fits s \<Longrightarrow> decode_payload (encode_payload s st) = Inr (s, st)"
proof -
  assume fits: "snapshot_fits s"
  have eq: "encode_payload s st = append_stamp st @ append_dict (countries s) @ append_dict (regions s)
      @ append_dict (cities s) @ le_u32 (of_nat (length (rows s))) @ concat (map append_row (rows s)) @ []"
    by (simp add: encode_payload_def append_stamp_def)
  have "read_n read_row (length (rows s)) (concat (map append_row (rows s)) @ []) = Some (rows s, [])"
    by (rule crow.read_n_enc) (simp add: list_all_iff)
  then show ?thesis
    using fits unfolding eq decode_payload_def snapshot_fits_def
    by (simp add: cstamp.dec_enc cdict.dec_enc c32.dec_enc del: append_Nil2)
qed


section \<open>CRC-32\<close>

lemma ucast_ucast_u8: "ucast (ucast (b :: u8) :: u32) = b"
  by (rule bit_word_eqI) (simp add: bit_simps)

definition crc_unstep :: "u32 \<Rightarrow> u32" where
  "crc_unstep d = (if bit d 31 then push_bit 1 (d XOR 0xEDB88320) OR 1 else push_bit 1 d)"

lemma crc_unstep_step: "crc_unstep (crc_step c) = c"
proof (cases "bit c 0")
  case True
  have "bit (drop_bit 1 c XOR 0xEDB88320) 31"
    using bit_imp_le_length [of c 32] by (auto simp: bit_simps)
  moreover have "push_bit 1 (drop_bit 1 c) OR 1 = c"
    by (rule bit_word_eqI) (use True in \<open>auto simp: bit_simps simp del: push_bit_Suc\<close>)
  ultimately show ?thesis using True
    by (simp add: crc_unstep_def crc_step_def xor.assoc)
next
  case False
  have "\<not> bit (drop_bit 1 c) 31" using bit_imp_le_length [of c 32] by (auto simp: bit_simps)
  moreover have "push_bit 1 (drop_bit 1 c) = c"
  proof (rule bit_word_eqI)
    fix n assume "n < LENGTH(32)"
    then show "bit (push_bit 1 (drop_bit 1 c)) n = bit c n"
      using False by (cases n) (auto simp: bit_simps simp del: push_bit_Suc)
  qed
  ultimately show ?thesis using False by (simp add: crc_unstep_def crc_step_def)
qed

lemma crc_step_inj: "crc_step c = crc_step d \<Longrightarrow> c = d"
  by (metis crc_unstep_step)

lemma crc_steps_inj: "(crc_step ^^ n) c = (crc_step ^^ n) d \<Longrightarrow> c = d"
  by (induction n) (auto dest: crc_step_inj)

lemma crc_byte_inj: "crc_byte c a = crc_byte d b \<Longrightarrow> c XOR ucast a = d XOR ucast b"
  unfolding crc_byte_def by (rule crc_steps_inj)

lemma xor_cancel: "(c :: u32) XOR x = d XOR x \<longleftrightarrow> c = d" "(c :: u32) XOR x = c XOR y \<longleftrightarrow> x = y"
proof -
  show "c XOR x = d XOR x \<longleftrightarrow> c = d" by (metis xor.assoc xor_self_eq xor.right_neutral)
  show "c XOR x = c XOR y \<longleftrightarrow> x = y" by (metis xor.assoc xor_self_eq xor.left_neutral)
qed

lemma crc_fold_inj: "foldl crc_byte c bs = foldl crc_byte d bs \<Longrightarrow> c = d"
proof (induction bs arbitrary: c d)
  case (Cons b bs)
  then have "crc_byte c b = crc_byte d b" by simp
  then show ?case using crc_byte_inj xor_cancel by blast
qed simp

text \<open>Two messages that differ in one byte have different checksums.\<close>

lemma checksum_one_byte:
  assumes "i < length bs" "b \<noteq> bs ! i"
  shows "checksum_ieee (bs[i := b]) \<noteq> checksum_ieee bs"
proof
  assume eq: "checksum_ieee (bs[i := b]) = checksum_ieee bs"
  define c where "c = foldl crc_byte (NOT 0) (take i bs)"
  have "foldl crc_byte (NOT 0) (bs[i := b]) = foldl crc_byte (crc_byte c b) (drop (Suc i) bs)"
    using assms(1) by (simp add: upd_conv_take_nth_drop c_def)
  moreover have "foldl crc_byte (NOT 0) bs = foldl crc_byte (crc_byte c (bs ! i)) (drop (Suc i) bs)"
    using id_take_nth_drop [OF assms(1)] by (metis c_def foldl_Cons foldl_append)
  ultimately have "crc_byte c b = crc_byte c (bs ! i)"
    using eq by (auto simp: checksum_ieee_def dest: crc_fold_inj)
  then have "(ucast b :: u32) = ucast (bs ! i)"
    by (auto dest: crc_byte_inj simp: xor_cancel)
  then have "b = bs ! i"
    by (metis ucast_ucast_u8)
  with assms(2) show False by simp
qed

section \<open>Corruption of the file\<close>

lemma get_u32_inj: "length bs = 4 \<Longrightarrow> length bs' = 4 \<Longrightarrow> get_u32 bs = get_u32 bs' \<Longrightarrow> bs = bs'"
proof -
  assume len: "length bs = 4" "length bs' = 4" and eq: "get_u32 bs = get_u32 bs'"
  then have "octets (get_u32 bs) = octets (get_u32 bs')" by simp
  then have "[bs ! 3, bs ! 2, bs ! 1, bs ! 0] = [bs' ! 3, bs' ! 2, bs' ! 1, bs' ! 0]"
    by (simp only: get_u32_def octets_be_u32)
  with len show ?thesis by (auto simp: list_eq_iff_nth_eq less_Suc_eq numeral_eq_Suc)
qed

lemma get_u32_take: "get_u32 (take 4 bs) = get_u32 bs"
  by (simp add: get_u32_def)

lemma length_magic [simp]: "length snapshot_magic = 4"
  by (simp add: snapshot_magic_def)

text \<open>The parts of a file, and what the decoder checks of them.\<close>

lemma decode_parts:
  assumes "length m = 4" "length v = 4" "length c = 4"
  shows "decode_snapshot (m @ v @ p @ c) =
     (if m \<noteq> snapshot_magic then Inl BadMagic
      else if get_u32 v \<noteq> snapshot_version then Inl UnsupportedVersion
      else if checksum_ieee p \<noteq> get_u32 c then Inl ChecksumMismatch
      else (case decode_payload p of
          Inl e \<Rightarrow> Inl e
        | Inr (snap, st) \<Rightarrow> Inr (\<lparr>b_snap = Some snap, b_skipped = 0\<rparr>, st)))"
proof -
  have "get_u32 (v @ p @ c) = get_u32 v" using assms get_u32_take [of "v @ p @ c"] by simp
  then show ?thesis
    using assms by (simp add: decode_snapshot_def Let_def)
qed


lemma encode_snapshot_parts:
  "\<exists>snap. encode_snapshot b st = snapshot_magic @ le_u32 snapshot_version @ encode_payload snap st
      @ le_u32 (checksum_ieee (encode_payload snap st))
    \<and> snap = (case b of None \<Rightarrow> empty_snapshot
        | Some bs \<Rightarrow> (case b_snap bs of None \<Rightarrow> empty_snapshot | Some s \<Rightarrow> s))"
  by (simp add: encode_snapshot_def Let_def)

lemma get_le_u32' [simp]: "get_u32 (le_u32 v) = v"
  using get_le_u32 [of v "[]"] by simp

lemma get_u32_upd:
  assumes "i < 4" "b \<noteq> le_u32 v ! i"
  shows "get_u32 ((le_u32 v)[i := b]) \<noteq> v"
proof
  assume "get_u32 ((le_u32 v)[i := b]) = v"
  then have "(le_u32 v)[i := b] = le_u32 v" by (intro get_u32_inj) simp_all
  with assms show False by (metis length_le_u32 nth_list_update_eq)
qed

section \<open>Aggregates\<close>

text \<open>The values the database computes for a stamp.\<close>

definition aggregates :: "geo_range list \<Rightarrow> source_stamp" where
  "aggregates rs =
     (if rs = [] then zero_stamp
      else \<lparr>count = of_nat (length rs), min_start = Min (start_ip ` set rs), max_end = Max (end_ip ` set rs),
        sum_start = (\<Sum>g \<leftarrow> rs. ucast (start_ip g)), sum_end = (\<Sum>g \<leftarrow> rs. ucast (end_ip g)),
        xor_span = fold (\<lambda>g x. x XOR span_bits (start_ip g) (end_ip g)) rs 0\<rparr>)"

lemma stamp_add_nonzero:
  "c \<noteq> 0 \<Longrightarrow> stamp_add s e \<lparr>count = c, min_start = m, max_end = M, sum_start = a, sum_end = b, xor_span = x\<rparr> =
     \<lparr>count = c + 1, min_start = min s m, max_end = max e M, sum_start = a + ucast s, sum_end = b + ucast e,
       xor_span = x XOR span_bits s e\<rparr>"
  by (auto simp: stamp_add_def Let_def min_def max_def)

lemma stamp_is_aggregates: "length rs < 2 ^ 64 \<Longrightarrow> stamp_from_ranges rs = aggregates rs"
proof (induction rs rule: rev_induct)
  case Nil
  then show ?case by (simp add: stamp_from_ranges_def aggregates_def)
next
  case (snoc g rs)
  then have IH: "fold (\<lambda>g. stamp_add (start_ip g) (end_ip g)) rs zero_stamp = aggregates rs"
    by (simp add: stamp_from_ranges_def)
  show ?case
  proof (cases "rs = []")
    case True
    then show ?thesis
      by (simp add: stamp_from_ranges_def aggregates_def stamp_add_def zero_stamp_def Let_def)
  next
    case False
    have "(of_nat (length rs) :: u64) \<noteq> 0"
      using False snoc.prems by (simp add: word_of_nat_eq_0_iff nat_dvd_not_less)
    then show ?thesis
      using False by (simp add: stamp_from_ranges_def IH) (simp add: aggregates_def stamp_add_nonzero add.commute)
  qed
qed

lemma aggregates_mset:
  assumes "mset rs = mset rs'" shows "aggregates rs = aggregates rs'"
proof -
  have "set rs = set rs'" using assms by (metis set_mset_mset)
  moreover have "length rs = length rs'" using assms by (metis size_mset)
  moreover have "(\<Sum>g \<leftarrow> rs. f g) = (\<Sum>g \<leftarrow> rs'. f g)" for f :: "geo_range \<Rightarrow> u64"
    using assms by (metis mset_map sum_mset_sum_list)
  moreover have "fold (\<lambda>g x. x XOR f g) rs = fold (\<lambda>g x. x XOR f g) rs'" for f :: "geo_range \<Rightarrow> u64"
    by (rule fold_multiset_equiv [OF _ assms]) (simp add: fun_eq_iff ac_simps)
  moreover have "rs = [] \<longleftrightarrow> rs' = []" using assms by auto
  ultimately show ?thesis by (simp add: aggregates_def)
qed

section \<open>Properties\<close>

text \<open>C19: What is written to the snapshot file is read back. For every snapshot whose counts and
  names fit the 32-bit lengths of the format, \<^verbatim>\<open>DecodeSnapshot\<close> of its encoding gives the snapshot
  and the stamp; a missing snapshot is read back as the empty one.\<close>

theorem snapshot_file_roundtrip:
  assumes "snapshot_fits s"
  shows "decode_snapshot (encode_snapshot (Some \<lparr>b_snap = Some s, b_skipped = k\<rparr>) st) =
      Inr (\<lparr>b_snap = Some s, b_skipped = 0\<rparr>, st)
    \<and> decode_snapshot (encode_snapshot None st) = Inr (\<lparr>b_snap = Some empty_snapshot, b_skipped = 0\<rparr>, st)"
proof -
  have "snapshot_fits empty_snapshot" by (simp add: snapshot_fits_def empty_snapshot_def dict_fits_def)
  then show ?thesis using assms
    by (simp add: encode_snapshot_def Let_def decode_parts decode_encode_payload)
qed

theorem snapshot_file_roundtrip_witness:
  "snapshot_fits (fst (build_snapshot id [ex_range 1 5 ''A''] True))
   \<and> decode_snapshot (encode_snapshot
       (Some \<lparr>b_snap = Some (fst (build_snapshot id [ex_range 1 5 ''A''] True)), b_skipped = 2\<rparr>) zero_stamp) =
      Inr (\<lparr>b_snap = Some (fst (build_snapshot id [ex_range 1 5 ''A''] True)), b_skipped = 0\<rparr>, zero_stamp)"
proof -
  have fits: "snapshot_fits (fst (build_snapshot id [ex_range 1 5 ''A''] True))"
    by (simp add: build_snapshot_rows add_row_def make_row_def dict_id_def new_dicts_def new_dict_def
        ex_range_def snapshot_of_def snapshot_fits_def dict_fits_def)
  then show ?thesis using snapshot_file_roundtrip [OF fits] by blast
qed

text \<open>C5: A damaged file is an error and never a partial index: if any one byte of an encoded file
  is replaced by another value, in the magic, the version, the payload or the checksum,
  \<^verbatim>\<open>DecodeSnapshot\<close> returns an error.\<close>

theorem one_bad_byte_is_rejected:
  assumes "i < length (encode_snapshot bs st)" "x \<noteq> encode_snapshot bs st ! i"
  shows "\<exists>e. decode_snapshot ((encode_snapshot bs st)[i := x]) = Inl e"
proof -
  obtain snap where enc: "encode_snapshot bs st = snapshot_magic @ le_u32 snapshot_version
      @ encode_payload snap st @ le_u32 (checksum_ieee (encode_payload snap st))"
    using encode_snapshot_parts by blast
  define p where "p = encode_payload snap st"
  note enc = enc [folded p_def]
  consider "i < 4" | "4 \<le> i" "i < 8" | "8 \<le> i" "i < 8 + length p" | "8 + length p \<le> i" "i < 12 + length p"
    using assms(1) unfolding enc by (simp; linarith)
  then show ?thesis
  proof cases
    case 1
    then have upd: "(encode_snapshot bs st)[i := x] = snapshot_magic[i := x] @ le_u32 snapshot_version @ p @ le_u32 (checksum_ieee p)"
      by (simp add: enc list_update_append)
    have "snapshot_magic[i := x] \<noteq> snapshot_magic"
      using 1 assms(2) by (metis enc length_magic nth_append nth_list_update_eq)
    then show ?thesis unfolding upd by (simp add: decode_parts)
  next
    case 2
    then have "i - 4 < 4" by simp
    with 2 have upd: "(encode_snapshot bs st)[i := x] = snapshot_magic @ (le_u32 snapshot_version)[i - 4 := x] @ p @ le_u32 (checksum_ieee p)"
      by (simp add: enc list_update_append)
    have "x \<noteq> le_u32 snapshot_version ! (i - 4)"
      using 2 \<open>i - 4 < 4\<close> assms(2) by (simp add: enc nth_append)
    then have "get_u32 ((le_u32 snapshot_version)[i - 4 := x]) \<noteq> snapshot_version"
      using 2 by (intro get_u32_upd) auto
    then show ?thesis unfolding upd by (simp add: decode_parts)
  next
    case 3
    then have i: "i - 8 < length p" "\<not> i - 4 < 4" "\<not> i < 4" by auto
    then have upd: "(encode_snapshot bs st)[i := x] = snapshot_magic @ le_u32 snapshot_version @ p[i - 8 := x] @ le_u32 (checksum_ieee p)"
      by (simp add: enc list_update_append)
    have "x \<noteq> p ! (i - 8)" using i assms(2) by (simp add: enc nth_append)
    then have "checksum_ieee (p[i - 8 := x]) \<noteq> checksum_ieee p"
      using 3 by (intro checksum_one_byte) auto
    then show ?thesis unfolding upd by (simp add: decode_parts)
  next
    case 4
    then have i: "\<not> i - 8 < length p" "\<not> i - 4 < 4" "\<not> i < 4" by auto
    then have upd: "(encode_snapshot bs st)[i := x] = snapshot_magic @ le_u32 snapshot_version @ p @ (le_u32 (checksum_ieee p))[i - 8 - length p := x]"
      by (simp add: enc list_update_append)
    have "x \<noteq> le_u32 (checksum_ieee p) ! (i - 8 - length p)" using i assms(2) by (simp add: enc nth_append)
    then have "get_u32 ((le_u32 (checksum_ieee p))[i - 8 - length p := x]) \<noteq> checksum_ieee p"
      using 4 by (intro get_u32_upd) auto
    then show ?thesis unfolding upd by (auto simp: decode_parts)
  qed
qed

theorem one_bad_byte_is_rejected_witness:
  "\<exists>e. decode_snapshot ((encode_snapshot None zero_stamp)[0 := 0]) = Inl e"
proof (rule one_bad_byte_is_rejected)
  show "0 < length (encode_snapshot None zero_stamp)" by (simp add: encode_snapshot_def Let_def)
  show "0 \<noteq> encode_snapshot None zero_stamp ! 0"
    by (simp add: encode_snapshot_def Let_def snapshot_magic_def char_byte_def code_def)
qed

text \<open>The stamp of a list of ranges is what the database aggregates over the same rows, whatever
  their order: the number of rows, the least start, the greatest end, the sums modulo \<open>2 ^ 64\<close> and
  the exclusive or of the packed bounds.\<close>

theorem stamp_correct:
  assumes "length rs < 2 ^ 64" "mset rs' = mset rs"
  shows "stamp_from_ranges rs' = aggregates rs"
proof -
  have "length rs' < 2 ^ 64" using assms by (metis size_mset)
  then show ?thesis using stamp_is_aggregates aggregates_mset [OF assms(2)] by simp
qed

theorem stamp_correct_witness:
  "stamp_from_ranges [ex_range 6 9 ''B'', ex_range 1 5 ''A''] = aggregates [ex_range 1 5 ''A'', ex_range 6 9 ''B'']"
  by (rule stamp_correct) simp_all

end
