(* ===== verification/Go_Maps.thy ===== *)
theory Go_Maps
  imports Prelude "HOL-Library.AList"
begin

text \<open>
  Go maps that are iterated over: association lists with distinct keys, in the order in which
  the runtime visits them. That order is unspecified in Go, so code whose result could depend on it takes
  a reordering function as an argument, under the contract \<open>slice_sorter (\<lambda>_ _. True)\<close>:
  the result is a permutation.
\<close>

type_synonym ('k, 'v) go_map = "('k \<times> 'v) list"

definition gm_ok :: "('k, 'v) go_map \<Rightarrow> bool" where
  "gm_ok m \<longleftrightarrow> distinct (map fst m)"

abbreviation gm_get :: "('k, 'v) go_map \<Rightarrow> 'k \<Rightarrow> 'v option" where
  "gm_get m k \<equiv> map_of m k"

abbreviation gm_put :: "'k \<Rightarrow> 'v \<Rightarrow> ('k, 'v) go_map \<Rightarrow> ('k, 'v) go_map" where
  "gm_put k v m \<equiv> AList.update k v m"

abbreviation gm_del :: "'k \<Rightarrow> ('k, 'v) go_map \<Rightarrow> ('k, 'v) go_map" where
  "gm_del k m \<equiv> AList.delete k m"

definition gm_filter :: "('k \<times> 'v \<Rightarrow> bool) \<Rightarrow> ('k, 'v) go_map \<Rightarrow> ('k, 'v) go_map" where
  "gm_filter P m = filter P m"

named_theorems gm_simps "rules about Go maps"

lemma gm_ok_Nil [simp]: "gm_ok []"
  by (simp add: gm_ok_def)

lemma gm_ok_put [simp]: "gm_ok m \<Longrightarrow> gm_ok (gm_put k v m)"
  by (simp add: gm_ok_def distinct_update)

lemma gm_ok_del [simp]: "gm_ok m \<Longrightarrow> gm_ok (gm_del k m)"
  by (simp add: gm_ok_def distinct_delete)

lemma gm_ok_filter [simp]: "gm_ok m \<Longrightarrow> gm_ok (gm_filter P m)"
  by (auto simp: gm_ok_def gm_filter_def distinct_map inj_on_def)

lemma gm_get_put [simp]: "gm_get (gm_put k v m) = (gm_get m)(k \<mapsto> v)"
  by (rule update_conv')

lemma gm_get_del [simp]: "gm_get (gm_del k m) = (gm_get m)(k := None)"
  by (rule delete_conv')

lemma gm_get_in: "gm_ok m \<Longrightarrow> gm_get m k = Some v \<longleftrightarrow> (k, v) \<in> set m"
  by (simp add: gm_ok_def)

lemma gm_get_filter: "gm_ok m \<Longrightarrow> gm_get (gm_filter P m) k =
    (case gm_get m k of None \<Rightarrow> None | Some v \<Rightarrow> if P (k, v) then Some v else None)"
proof (cases "gm_get (gm_filter P m) k")
  case None
  assume ok: "gm_ok m"
  have "\<And>v. gm_get m k = Some v \<Longrightarrow> \<not> P (k, v)"
  proof
    fix v assume "gm_get m k = Some v" "P (k, v)"
    then have "(k, v) \<in> set (gm_filter P m)" using ok by (simp add: gm_get_in gm_filter_def)
    then have "gm_get (gm_filter P m) k = Some v"
      using ok gm_get_in [OF gm_ok_filter [OF ok], of P k v] by simp
    with None show False by simp
  qed
  then show ?thesis using None by (auto split: option.splits)
next
  case (Some v)
  assume ok: "gm_ok m"
  then have "(k, v) \<in> set (gm_filter P m)" using Some gm_get_in [OF gm_ok_filter [OF ok]] by blast
  then have "gm_get m k = Some v" "P (k, v)" using ok by (auto simp: gm_get_in gm_filter_def)
  with Some show ?thesis by simp
qed

lemma gm_get_perm:
  assumes "mset m' = mset m" "gm_ok m"
  shows "gm_ok m'" "gm_get m' = gm_get m"
proof -
  have "mset (map fst m') = mset (map fst m)" using assms(1) by simp
  then show ok: "gm_ok m'" using assms(2) mset_eq_imp_distinct_iff unfolding gm_ok_def by blast
  have "set m' = set m" using assms(1) by (metis set_mset_mset)
  then show "gm_get m' = gm_get m"
    using ok assms(2) gm_get_in by (metis not_Some_eq)
qed

lemma length_gm_put_le: "length (gm_put k v m) \<le> length m + 1"
  by (induction m) auto

text \<open>Grouping: \<^verbatim>\<open>groups[k] = append(groups[k], x)\<close> in a loop.\<close>

definition group_add :: "('a \<Rightarrow> 'k) \<Rightarrow> 'a \<Rightarrow> ('k, 'a list) go_map \<Rightarrow> ('k, 'a list) go_map" where
  "group_add key x m =
     gm_put (key x) ((case gm_get m (key x) of None \<Rightarrow> [] | Some g \<Rightarrow> g) @ [x]) m"

definition group_all :: "('a \<Rightarrow> 'k) \<Rightarrow> 'a list \<Rightarrow> ('k, 'a list) go_map" where
  "group_all key xs = fold (group_add key) xs []"

lemma group_all_spec:
  "gm_ok (group_all key xs) \<and> gm_get (group_all key xs) k =
     (let g = filter (\<lambda>x. key x = k) xs in if g = [] then None else Some g)"
proof (induction xs rule: rev_induct)
  case Nil
  then show ?case by (simp add: group_all_def)
next
  case (snoc x xs)
  then show ?case
    by (auto simp: group_all_def group_add_def Let_def split: option.splits if_splits)
qed

lemma group_all_ok [simp]: "gm_ok (group_all key xs)"
  using group_all_spec [THEN conjunct1] .

lemma group_all_in: "(k, g) \<in> set (group_all key xs) \<longleftrightarrow> g = filter (\<lambda>x. key x = k) xs \<and> g \<noteq> []"
  using group_all_spec [of key xs k] gm_get_in [of "group_all key xs" k g]
  by (auto simp: Let_def split: if_splits)

end
