(* ===== verification/Reputation.thy ===== *)
theory Reputation
  imports IPv4 Go_Maps "HOL-Library.List_Lexorder" "HOL-Library.Char_ord"
begin

text \<open>
  The reputation lists (\<^verbatim>\<open>reputation/normalize.go\<close>, \<^verbatim>\<open>reputation/index.go\<close> and the parsers of
  that package): ranges of addresses with a list name and a category, merged inside one list and
  category, published as an immutable sorted slice, and looked up with overlaps allowed.

  Strings are compared byte by byte, as the lexicographic order of \<^verbatim>\<open>List_Lexorder\<close> does. The
  iteration order of a map (\<open>ord\<close>) and the sorting algorithms are arguments.
\<close>

section \<open>Data\<close>

record rep_range =
  list_name :: string
  category :: string
  rep_start :: u32
  rep_end :: u32
  source :: string
  updated_at :: go_time

record rep_hit =
  hit_list :: string
  hit_category :: string
  hit_network :: string

record meta_rec =
  meta_name :: string
  meta_category :: string
  meta_count :: nat
  meta_source :: string
  meta_updated :: go_time

section \<open>Normalization: normalize.go\<close>

type_synonym rep_key = "string \<times> string"

definition rep_key :: "rep_range \<Rightarrow> rep_key" where
  "rep_key r = (list_name r, category r)"

definition rep_le :: "rep_range \<Rightarrow> rep_range \<Rightarrow> bool" where
  "rep_le a b \<longleftrightarrow> (if rep_start a \<noteq> rep_start b then rep_start a < rep_start b else rep_end a \<le> rep_end b)"

definition rep_out_le :: "rep_range \<Rightarrow> rep_range \<Rightarrow> bool" where
  "rep_out_le a b \<longleftrightarrow>
     (if rep_start a \<noteq> rep_start b then rep_start a < rep_start b
      else if rep_end a \<noteq> rep_end b then rep_end a < rep_end b
      else if list_name a \<noteq> list_name b then list_name a < list_name b
      else category a \<le> category b)"

definition trim_names :: "rep_range \<Rightarrow> rep_range" where
  "trim_names r = r\<lparr>list_name := trim_space (list_name r), category := trim_space (category r)\<rparr>"

definition rep_usable :: "rep_range \<Rightarrow> bool" where
  "rep_usable r \<longleftrightarrow> \<not> (list_name r = [] \<or> rep_end r < rep_start r)"

text \<open>The loop over one sorted group; \<open>rep_end cur + 1\<close> is computed in 32 bits.\<close>

fun merge_from :: "rep_range \<Rightarrow> rep_range list \<Rightarrow> rep_range list" where
  "merge_from cur [] = [cur]"
| "merge_from cur (n # ns) =
     (if rep_start n \<le> rep_end cur + 1 then
        (let cur = (if rep_end n > rep_end cur then cur\<lparr>rep_end := rep_end n\<rparr> else cur);
             cur = (if updated_at n > updated_at cur then cur\<lparr>updated_at := updated_at n\<rparr> else cur);
             cur = (if source cur = [] then cur\<lparr>source := source n\<rparr> else cur)
         in merge_from cur ns)
      else cur # merge_from n ns)"

definition merge_group :: "rep_range list \<Rightarrow> rep_range list" where
  "merge_group g = (case g of [] \<Rightarrow> [] | cur # ns \<Rightarrow> merge_from cur ns)"

text \<open>The orders that the Go runtime is free to choose.\<close>

record rep_orders =
  sort_group :: "rep_range list \<Rightarrow> rep_range list"
  sort_out :: "rep_range list \<Rightarrow> rep_range list"
  order_groups :: "(rep_key, rep_range list) go_map \<Rightarrow> (rep_key, rep_range list) go_map"

definition rep_orders_ok :: "rep_orders \<Rightarrow> bool" where
  "rep_orders_ok os \<longleftrightarrow> slice_sorter rep_le (sort_group os) \<and> slice_sorter rep_out_le (sort_out os)
     \<and> slice_sorter (\<lambda>_ _. True) (order_groups os)"

definition normalize_rep :: "rep_orders \<Rightarrow> rep_range list \<Rightarrow> rep_range list" where
  "normalize_rep os ranges =
     (if length ranges = 0 then []
      else let groups = group_all rep_key (filter rep_usable (map trim_names ranges));
               out = concat (map (\<lambda>(k, g). merge_group (sort_group os g)) (order_groups os groups))
           in sort_out os out)"

section \<open>The index: index.go\<close>

text \<open>The atomic pointer to the slice of ranges; \<open>None\<close> before the first store.\<close>

type_synonym rep_index = "rep_range list option"

definition rep_load :: "rep_index \<Rightarrow> rep_range list" where
  "rep_load i = (case i of None \<Rightarrow> [] | Some rs \<Rightarrow> rs)"

definition replace_all :: "rep_orders \<Rightarrow> rep_range list \<Rightarrow> rep_index" where
  "replace_all os ranges = Some (normalize_rep os ranges)"

definition replace_list :: "rep_orders \<Rightarrow> rep_index \<Rightarrow> string \<Rightarrow> rep_range list \<Rightarrow> rep_index" where
  "replace_list os i name ranges =
     (let name = trim_space name;
          kept = filter (\<lambda>r. list_name r \<noteq> name) (rep_load i) @ map (\<lambda>r. r\<lparr>list_name := name\<rparr>) ranges
      in Some (normalize_rep os kept))"

definition delete_list :: "rep_index \<Rightarrow> string \<Rightarrow> rep_index" where
  "delete_list i name = (let name = trim_space name in Some (filter (\<lambda>r. list_name r \<noteq> name) (rep_load i)))"

definition rep_range_count :: "rep_index \<Rightarrow> nat" where
  "rep_range_count i = length (rep_load i)"

definition rep_snapshot :: "rep_index \<Rightarrow> rep_range list" where
  "rep_snapshot i = (let ranges = rep_load i in if length ranges = 0 then [] else ranges)"

definition seen_key :: "rep_range \<Rightarrow> string" where
  "seen_key r = list_name r @ [byte 0] @ category r"

text \<open>One candidate of Lookup; \<open>None\<close> would be the panic of \<^verbatim>\<open>itoa\<close>.\<close>

definition seen_step ::
    "u32 \<Rightarrow> rep_range \<Rightarrow> (string, rep_hit) go_map option \<Rightarrow> (string, rep_hit) go_map option" where
  "seen_step ip r sn = (case sn of None \<Rightarrow> None | Some seen \<Rightarrow>
     if ip > rep_end r then Some seen
     else (case format_network_prefer_cidr (rep_start r) (rep_end r) of
        None \<Rightarrow> None
      | Some net \<Rightarrow>
          let key = seen_key r;
              hit = \<lparr>hit_list = list_name r, hit_category = category r, hit_network = net\<rparr> in
          (case gm_get seen key of
             None \<Rightarrow> Some (gm_put key hit seen)
           | Some prev \<Rightarrow>
               (case parse_network_field (hit_network prev) of
                  None \<Rightarrow> Some (gm_put key hit seen)
                | Some (ps, pe) \<Rightarrow>
                    if rep_end r - rep_start r < pe - ps then Some (gm_put key hit seen) else Some seen))))"

definition hit_le :: "rep_hit \<Rightarrow> rep_hit \<Rightarrow> bool" where
  "hit_le a b \<longleftrightarrow> (if hit_category a \<noteq> hit_category b then hit_category a < hit_category b
     else hit_list a \<le> hit_list b)"

definition rep_lookup ::
    "(rep_hit list \<Rightarrow> rep_hit list) \<Rightarrow> rep_index \<Rightarrow> string \<Rightarrow> rep_hit list option" where
  "rep_lookup srt i str =
     (let v4 = to4 (parse_ip (trim_space str)) in
      if v4 = [] then Some []
      else if is_non_public_ipv4 v4 then Some []
      else let ip = ipv4_to_uint32 v4; ranges = rep_load i in
      if length ranges = 0 then Some []
      else let pos = sort_search (length ranges) (\<lambda>k. rep_start (ranges ! k) > ip) in
      map_option (\<lambda>seen. srt (map snd seen)) (fold (seen_step ip) (take pos ranges) (Some [])))"

definition meta_step :: "rep_range \<Rightarrow> (string, meta_rec) go_map \<Rightarrow> (string, meta_rec) go_map" where
  "meta_step r by =
     (let a = (case gm_get by (list_name r) of
          None \<Rightarrow> \<lparr>meta_name = list_name r, meta_category = category r, meta_count = 0,
                   meta_source = source r, meta_updated = 0\<rparr>
        | Some a \<Rightarrow> a);
          a = a\<lparr>meta_count := meta_count a + 1\<rparr>;
          a = (if updated_at r > meta_updated a then a\<lparr>meta_updated := updated_at r\<rparr> else a);
          a = (if meta_source a = [] then a\<lparr>meta_source := source r\<rparr> else a);
          a = (if meta_category a = [] then a\<lparr>meta_category := category r\<rparr> else a)
      in gm_put (list_name r) a by)"

definition list_meta :: "(meta_rec list \<Rightarrow> meta_rec list) \<Rightarrow> rep_index \<Rightarrow> meta_rec list" where
  "list_meta srt i = srt (map snd (fold meta_step (rep_load i) []))"

section \<open>Parsers\<close>

text \<open>parse_network.go: parseIPv4Line\<close>

definition parse_ipv4_line :: "string \<Rightarrow> (u32 \<times> u32) option" where
  "parse_ipv4_line line =
     (let line = trim_space line in
      if line = [] \<or> has_prefix line ''#'' then None
      else let line = (case cut_at (CHR ''#'') line of None \<Rightarrow> line | Some (a, _) \<Rightarrow> trim_space a) in
      if line = [] then None
      else if contains_str line '':'' then None
      else (case parse_network_field line of
          None \<Rightarrow> None
        | Some (s, e) \<Rightarrow> if parse_ip (uint32_to_ip s) = [] then None else Some (s, e)))"

text \<open>parse_feed.go\<close>

definition normalize_feed_format :: "string \<Rightarrow> string" where
  "normalize_feed_format fmt =
     (let f = to_lower (trim_space fmt) in if f = [] \<or> f = ''plain'' then ''netset'' else f)"

definition is_supported_feed_format :: "string \<Rightarrow> bool" where
  "is_supported_feed_format fmt \<longleftrightarrow> normalize_feed_format fmt \<in> {''netset'', ''spamhaus_json'', ''csv_ip''}"

datatype feed_error = ListNameRequired | NoValidRanges

text \<open>parse_netset.go, on the lines of the body; \<open>now\<close> is the clock.\<close>

definition parse_netset ::
    "rep_orders \<Rightarrow> go_time \<Rightarrow> string list \<Rightarrow> string \<Rightarrow> string \<Rightarrow> string \<Rightarrow> go_time \<Rightarrow> feed_error + rep_range list" where
  "parse_netset os now ls list cat src upd =
     (let list = trim_space list; cat = trim_space cat in
      if list = [] then Inl ListNameRequired
      else let cat = (if cat = [] then ''unknown'' else cat);
               src = (if src = [] then ''url'' else src);
               upd = (if upd = 0 then now else upd);
               out = List.map_filter (\<lambda>l. map_option (\<lambda>(s, e).
                 \<lparr>list_name = list, category = cat, rep_start = s, rep_end = e, source = src, updated_at = upd\<rparr>)
                 (parse_ipv4_line l)) ls
           in if length out = 0 then Inl NoValidRanges else Inr (normalize_rep os out))"

definition normalize_feed_meta ::
    "go_time \<Rightarrow> string \<Rightarrow> string \<Rightarrow> string \<Rightarrow> go_time \<Rightarrow> string \<times> string \<times> string \<times> go_time" where
  "normalize_feed_meta now list cat src upd =
     (let cat = trim_space cat; src = trim_space src in
      (trim_space list, if cat = [] then ''unknown'' else cat, if src = [] then ''url'' else src,
       if upd = 0 then now else upd))"

text \<open>parse_csv_ip.go: detectIPColumn\<close>

definition bom :: string where "bom = map byte [0xEF, 0xBB, 0xBF]"

fun index_where :: "('a \<Rightarrow> bool) \<Rightarrow> 'a list \<Rightarrow> nat option" where
  "index_where P [] = None"
| "index_where P (x # xs) = (if P x then Some 0 else map_option Suc (index_where P xs))"

definition prefer_columns :: "string list" where
  "prefer_columns = [''dstip'', ''ip'', ''network'', ''cidr'', ''ip_address'', ''ipaddress'']"

definition detect_ip_column :: "string list \<Rightarrow> nat \<times> bool" where
  "detect_ip_column headers =
     (case first_some (\<lambda>name. index_where (\<lambda>h. to_lower (trim_space (trim_prefix h bom)) = name) headers) prefer_columns of
        Some i \<Rightarrow> (i, False)
      | None \<Rightarrow>
          if length headers > 0 then
            (if parse_ipv4_line (headers ! 0) \<noteq> None then (0, True)
             else (case index_where (\<lambda>h. parse_ipv4_line h \<noteq> None) headers of
                Some i \<Rightarrow> (i, True) | None \<Rightarrow> (0, True)))
          else (0, True))"

text \<open>ParseCSVIP on the records of the file.\<close>

definition csv_ip_cell :: "nat \<Rightarrow> string list \<Rightarrow> (u32 \<times> u32) option" where
  "csv_ip_cell col row =
     (if col < length row then parse_ipv4_line (row ! col)
      else first_some parse_ipv4_line row)"

definition parse_csv_ip ::
    "rep_orders \<Rightarrow> go_time \<Rightarrow> string list \<Rightarrow> string list list \<Rightarrow> string \<Rightarrow> string \<Rightarrow> string \<Rightarrow> go_time \<Rightarrow>
     feed_error + rep_range list" where
  "parse_csv_ip os now headers body list cat src upd =
     (let (list, cat, src, upd) = normalize_feed_meta now list cat src upd in
      if list = [] then Inl ListNameRequired
      else let headers = (case headers of [] \<Rightarrow> [] | h # t \<Rightarrow> trim_space (trim_prefix h bom) # t);
               (col, header_is_data) = detect_ip_column headers;
               first = (if header_is_data then
                   (if col < length headers then [parse_ipv4_line (headers ! col)]
                    else if length headers > 0 then [parse_ipv4_line (headers ! 0)] else [])
                 else []);
               nets = first @ map (csv_ip_cell col) body;
               out = List.map_filter (map_option (\<lambda>(s, e).
                 \<lparr>list_name = list, category = cat, rep_start = s, rep_end = e, source = src, updated_at = upd\<rparr>)) nets
           in if length out = 0 then Inl NoValidRanges else Inr (normalize_rep os out))"

record rep_columns =
  rc_net :: nat
  rc_list :: nat
  rc_cat :: nat

text \<open>csv.go: parseCSVRow of an uploaded file\<close>

definition parse_rep_row :: "go_time \<Rightarrow> string list \<Rightarrow> rep_columns \<Rightarrow> rep_range option" where
  "parse_rep_row now row cols =
     (let max_idx = foldl (\<lambda>m i. if i > m then i else m) (rc_net cols) [rc_list cols, rc_cat cols] in
      if length row \<le> max_idx then None
      else (case parse_network_field (row ! rc_net cols) of
          None \<Rightarrow> None
        | Some (s, e) \<Rightarrow>
            let list = trim_space (row ! rc_list cols); cat = trim_space (row ! rc_cat cols) in
            if list = [] \<or> cat = [] then None
            else Some \<lparr>list_name = list, category = cat, rep_start = s, rep_end = e,
                       source = ''upload'', updated_at = now\<rparr>))"

section \<open>Merging\<close>

definition rcovers :: "rep_range \<Rightarrow> u32 \<Rightarrow> bool" where
  "rcovers r v \<longleftrightarrow> rep_start r \<le> v \<and> v \<le> rep_end r"

definition rep_valid :: "rep_range \<Rightarrow> bool" where
  "rep_valid r \<longleftrightarrow> rep_start r \<le> rep_end r"

text \<open>Apart and not adjacent.\<close>

definition rep_apart :: "rep_range \<Rightarrow> rep_range \<Rightarrow> bool" where
  "rep_apart a b \<longleftrightarrow> unat (rep_end a) + 1 < unat (rep_start b)"

definition absorb :: "rep_range \<Rightarrow> rep_range \<Rightarrow> rep_range" where
  "absorb cur n =
     (let cur = (if rep_end n > rep_end cur then cur\<lparr>rep_end := rep_end n\<rparr> else cur);
          cur = (if updated_at n > updated_at cur then cur\<lparr>updated_at := updated_at n\<rparr> else cur)
      in (if source cur = [] then cur\<lparr>source := source n\<rparr> else cur))"

lemma merge_from_Cons: "merge_from cur (n # ns) =
    (if rep_start n \<le> rep_end cur + 1 then merge_from (absorb cur n) ns else cur # merge_from n ns)"
  by (simp add: absorb_def Let_def)

lemma absorb_simps [simp]:
  "rep_start (absorb cur n) = rep_start cur" "rep_end (absorb cur n) = max (rep_end cur) (rep_end n)"
  "rep_key (absorb cur n) = rep_key cur"
  by (auto simp: absorb_def Let_def rep_key_def max_def)

declare merge_from.simps(2) [simp del]

lemma u32_succ: "(e :: u32) \<noteq> -1 \<Longrightarrow> unat (e + 1) = unat e + 1"
proof -
  assume "e \<noteq> -1"
  moreover have "e = -1" if "unat e = 4294967295"
  proof -
    have "of_nat (unat e) = (of_nat 4294967295 :: u32)" by (simp only: that)
    then show ?thesis by simp
  qed
  moreover have "unat e < 4294967296" using unsigned_less [of e] by simp
  ultimately have "unat e + 1 < 2 ^ 32" by fastforce
  then show ?thesis by (simp add: unat_word_ariths)
qed

lemma absorb_covers:
  assumes "rep_start cur \<le> rep_start n" "rep_start n \<le> rep_end cur + 1" "rep_valid cur" "rep_valid n"
  shows "rcovers (absorb cur n) v \<longleftrightarrow> rcovers cur v \<or> rcovers n v"
proof (cases "rep_end cur = -1")
  case True
  with assms have "rep_start n = 0" by simp
  with assms(1) have "rep_start cur = 0" by simp
  moreover have "max (-1) (rep_end n) = -1" by (rule max_absorb1) (rule word_n1_ge)
  ultimately show ?thesis by (simp add: rcovers_def True)
next
  case False
  then show ?thesis using assms u32_succ [OF False]
    by (auto simp: rcovers_def rep_valid_def word_le_nat_alt word_less_nat_alt max_def)
qed

definition starts_up :: "rep_range list \<Rightarrow> bool" where
  "starts_up rs \<longleftrightarrow> sorted_wrt (\<lambda>a b. rep_start a \<le> rep_start b) rs"

lemma starts_up_absorb: "starts_up (cur # n # ns) \<Longrightarrow> starts_up (absorb cur n # ns)"
  by (auto simp: starts_up_def)

lemma merge_from_start: "starts_up (cur # ns) \<Longrightarrow> m \<in> set (merge_from cur ns) \<Longrightarrow> rep_start cur \<le> rep_start m"
proof (induction ns arbitrary: cur)
  case (Cons n ns)
  show ?case
  proof (cases "rep_start n \<le> rep_end cur + 1")
    case True
    with Cons.prems Cons.IH [of "absorb cur n"] starts_up_absorb [OF Cons.prems(1)] show ?thesis
      by (simp add: merge_from_Cons)
  next
    case False
    have "starts_up (n # ns)" "rep_start cur \<le> rep_start n" using Cons.prems(1) by (auto simp: starts_up_def)
    with False Cons.prems(2) Cons.IH [of n] show ?thesis by (auto simp: merge_from_Cons)
  qed
qed simp

lemma merge_from_covers:
  "starts_up (cur # ns) \<Longrightarrow> list_all rep_valid (cur # ns) \<Longrightarrow>
     (\<exists>m \<in> set (merge_from cur ns). rcovers m v) \<longleftrightarrow> (\<exists>m \<in> set (cur # ns). rcovers m v)"
proof (induction ns arbitrary: cur)
  case (Cons n ns)
  have le: "rep_start cur \<le> rep_start n" and up: "starts_up (n # ns)" "starts_up (absorb cur n # ns)"
    using Cons.prems(1) starts_up_absorb [OF Cons.prems(1)] by (auto simp: starts_up_def)
  show ?case
  proof (cases "rep_start n \<le> rep_end cur + 1")
    case True
    have "rep_valid (absorb cur n)" using Cons.prems(2) by (auto simp: rep_valid_def max_def)
    with True Cons.prems(2) Cons.IH [OF up(2)] absorb_covers [OF le True] show ?thesis
      by (auto simp: merge_from_Cons)
  next
    case False
    with Cons.prems(2) Cons.IH [OF up(1)] show ?thesis by (auto simp: merge_from_Cons)
  qed
qed simp

lemma merge_from_apart:
  "starts_up (cur # ns) \<Longrightarrow> list_all (\<lambda>r. rep_end r \<noteq> -1) (cur # ns) \<Longrightarrow>
     sorted_wrt rep_apart (merge_from cur ns)"
proof (induction ns arbitrary: cur)
  case (Cons n ns)
  have up: "starts_up (n # ns)" "starts_up (absorb cur n # ns)"
    using Cons.prems(1) starts_up_absorb [OF Cons.prems(1)] by (auto simp: starts_up_def)
  show ?case
  proof (cases "rep_start n \<le> rep_end cur + 1")
    case True
    with Cons.prems(2) Cons.IH [OF up(2)] show ?thesis by (auto simp: merge_from_Cons max_def)
  next
    case False
    have "rep_end cur \<noteq> -1" using Cons.prems(2) by simp
    then have "unat (rep_end cur) + 1 < unat (rep_start n)"
      using False u32_succ by (simp add: word_le_nat_alt)
    then have "rep_apart cur m" if "m \<in> set (merge_from n ns)" for m
      using merge_from_start [OF up(1) that] by (simp add: rep_apart_def word_le_nat_alt)
    with False Cons.prems(2) Cons.IH [OF up(1)] show ?thesis by (auto simp: merge_from_Cons)
  qed
qed simp

lemma merge_from_key:
  "list_all (\<lambda>r. rep_key r = k) (cur # ns) \<Longrightarrow> m \<in> set (merge_from cur ns) \<Longrightarrow> rep_key m = k"
proof (induction ns arbitrary: cur)
  case (Cons n ns)
  then have "rep_key (absorb cur n) = k" by simp
  with Cons show ?case by (cases "rep_start n \<le> rep_end cur + 1") (auto simp: merge_from_Cons simp del: absorb_simps)
qed simp

lemma merge_from_valid:
  "list_all rep_valid (cur # ns) \<Longrightarrow> m \<in> set (merge_from cur ns) \<Longrightarrow> rep_valid m"
proof (induction ns arbitrary: cur)
  case (Cons n ns)
  have "rep_valid (absorb cur n)" using Cons.prems(1) by (auto simp: rep_valid_def max_def)
  with Cons show ?case by (cases "rep_start n \<le> rep_end cur + 1") (auto simp: merge_from_Cons)
qed simp

lemma rep_le_starts: "sorted_wrt rep_le rs \<Longrightarrow> starts_up rs"
  unfolding starts_up_def by (rule sorted_wrt_mono_rel) (auto simp: rep_le_def split: if_splits)

lemma rep_out_le_starts: "sorted_wrt rep_out_le rs \<Longrightarrow> starts_up rs"
  unfolding starts_up_def by (rule sorted_wrt_mono_rel) (auto simp: rep_out_le_def split: if_splits)

text \<open>What one group becomes.\<close>

lemma merge_group_spec:
  assumes "slice_sorter rep_le srt" "list_all (\<lambda>r. rep_key r = k) g" "list_all rep_valid g"
  shows "(\<exists>m \<in> set (merge_group (srt g)). rcovers m v) \<longleftrightarrow> (\<exists>m \<in> set g. rcovers m v)"
    and "m \<in> set (merge_group (srt g)) \<Longrightarrow> rep_key m = k \<and> rep_valid m"
    and "list_all (\<lambda>r. rep_end r \<noteq> -1) g \<Longrightarrow> sorted_wrt rep_apart (merge_group (srt g))"
proof -
  have s: "set (srt g) = set g" "starts_up (srt g)"
    using slice_sorter.srt_set [OF assms(1)] rep_le_starts [OF slice_sorter.srt_sorted [OF assms(1)]] by auto
  have all: "list_all P (srt g) \<longleftrightarrow> list_all P g" for P using s(1) by (simp add: list_all_iff)
  show "(\<exists>m \<in> set (merge_group (srt g)). rcovers m v) \<longleftrightarrow> (\<exists>m \<in> set g. rcovers m v)"
  proof (cases "srt g")
    case (Cons c cs)
    then have "(\<exists>m \<in> set (merge_group (srt g)). rcovers m v) \<longleftrightarrow> (\<exists>m \<in> set (srt g). rcovers m v)"
      using merge_from_covers [of c cs v] s(2) all [of rep_valid] assms(3) by (simp add: merge_group_def)
    then show ?thesis by (simp only: s(1))
  qed (use s in \<open>simp add: merge_group_def\<close>)
  show "rep_key m = k \<and> rep_valid m" if "m \<in> set (merge_group (srt g))"
  proof (cases "srt g")
    case (Cons c cs)
    then have "list_all (\<lambda>r. rep_key r = k) (c # cs)" "list_all rep_valid (c # cs)"
      using assms(2,3) all [of rep_valid] all [of "\<lambda>r. rep_key r = k"] by auto
    moreover have "m \<in> set (merge_from c cs)" using that Cons by (simp add: merge_group_def)
    ultimately show ?thesis using merge_from_key merge_from_valid by blast
  qed (use that in \<open>simp add: merge_group_def\<close>)
  show "sorted_wrt rep_apart (merge_group (srt g))" if "list_all (\<lambda>r. rep_end r \<noteq> -1) g"
  proof (cases "srt g")
    case (Cons c cs)
    then have "list_all (\<lambda>r. rep_end r \<noteq> -1) (c # cs)" "starts_up (c # cs)"
      using that s(2) all [of "\<lambda>r. rep_end r \<noteq> -1"] by auto
    then show ?thesis using merge_from_apart Cons by (simp add: merge_group_def)
  qed (simp add: merge_group_def)
qed

lemma filter_concat_groups:
  assumes "gm_ok gs" "\<And>k g x. (k, g) \<in> set gs \<Longrightarrow> x \<in> set (f g) \<Longrightarrow> key x = k"
  shows "filter (\<lambda>x. key x = k) (concat (map (\<lambda>(k, g). f g) gs)) =
     (case map_of gs k of None \<Rightarrow> [] | Some g \<Rightarrow> f g)"
  using assms
proof (induction gs)
  case (Cons p gs)
  obtain k' g where p: "p = (k', g)" by force
  have IH: "filter (\<lambda>x. key x = k) (concat (map (\<lambda>(k, g). f g) gs)) =
      (case map_of gs k of None \<Rightarrow> [] | Some g \<Rightarrow> f g)"
    using Cons.prems by (intro Cons.IH) (auto simp: gm_ok_def)
  have "filter (\<lambda>x. key x = k) (f g) = (if k' = k then f g else [])"
    using Cons.prems(2) [of k' g] p by (auto simp: filter_empty_conv intro: filter_True)
  moreover have "map_of gs k' = None"
    using Cons.prems(1) p by (auto simp: gm_ok_def map_of_eq_None_iff)
  ultimately show ?case using IH by (auto simp: p)
qed simp

definition usable_ranges :: "rep_range list \<Rightarrow> rep_range list" where
  "usable_ranges rs = filter rep_usable (map trim_names rs)"

lemma usable_valid: "r \<in> set (usable_ranges rs) \<Longrightarrow> rep_valid r"
  by (auto simp: usable_ranges_def rep_usable_def rep_valid_def)

lemma normalize_rep_key:
  assumes "rep_orders_ok os"
  shows "mset (filter (\<lambda>r. rep_key r = k) (normalize_rep os rs)) =
     mset (merge_group (sort_group os (filter (\<lambda>r. rep_key r = k) (usable_ranges rs))))"
proof -
  have os: "slice_sorter rep_le (sort_group os)" "slice_sorter rep_out_le (sort_out os)"
      "slice_sorter (\<lambda>_ _. True) (order_groups os)"
    using assms by (auto simp: rep_orders_ok_def)
  define gs where "gs = order_groups os (group_all rep_key (usable_ranges rs))"
  define f where "f = (\<lambda>g. merge_group (sort_group os g))"
  have perm: "mset gs = mset (group_all rep_key (usable_ranges rs))"
    unfolding gs_def by (rule slice_sorter.srt_mset [OF os(3)])
  have ok: "gm_ok gs" and get: "map_of gs = map_of (group_all rep_key (usable_ranges rs))"
    using gm_get_perm [OF perm] by auto
  have f0: "f [] = []" using slice_sorter.srt_Nil [OF os(1)] by (simp add: f_def merge_group_def)
  have keys: "rep_key x = k'" if "(k', g) \<in> set gs" "x \<in> set (f g)" for k' g x
  proof -
    have "(k', g) \<in> set (group_all rep_key (usable_ranges rs))" using that(1) perm by (metis set_mset_mset)
    then have "g = filter (\<lambda>x. rep_key x = k') (usable_ranges rs)" by (simp add: group_all_in)
    then have "list_all (\<lambda>r. rep_key r = k') g" "list_all rep_valid g"
      using usable_valid by (auto simp: list_all_iff)
    from merge_group_spec(2) [OF os(1) this] that(2) show ?thesis by (simp add: f_def)
  qed
  have "filter (\<lambda>x. rep_key x = k) (concat (map (\<lambda>(k, g). f g) gs)) =
      f (filter (\<lambda>r. rep_key r = k) (usable_ranges rs))"
    using filter_concat_groups [OF ok keys, where k = k] group_all_spec [of rep_key "usable_ranges rs" k]
    by (auto simp: get Let_def f0 split: if_splits)
  moreover have "mset (normalize_rep os rs) = mset (concat (map (\<lambda>(k, g). f g) gs))"
  proof (cases "rs = []")
    case True
    then have "gs = []" using perm by (simp add: usable_ranges_def group_all_def)
    then show ?thesis using True by (simp add: normalize_rep_def)
  next
    case False
    then show ?thesis
      by (simp add: normalize_rep_def Let_def slice_sorter.srt_mset [OF os(2)] gs_def f_def usable_ranges_def)
  qed
  ultimately show ?thesis by (metis f_def mset_filter)
qed


lemma sorted_wrt_either: "sorted_wrt S ys \<Longrightarrow> a \<in> set ys \<Longrightarrow> b \<in> set ys \<Longrightarrow> a \<noteq> b \<Longrightarrow> S a b \<or> S b a"
  by (induction ys) auto

lemma sorted_wrt_transfer:
  assumes "sorted_wrt R xs" "mset xs = mset ys" "sorted_wrt S ys"
    "\<And>x. x \<in> set ys \<Longrightarrow> \<not> S x x" "\<And>x y. x \<in> set ys \<Longrightarrow> y \<in> set ys \<Longrightarrow> R x y \<Longrightarrow> \<not> S y x"
  shows "sorted_wrt S xs"
proof -
  have "distinct ys" using assms(3,4) by (induction ys) auto
  then have "distinct xs" using assms(2) mset_eq_imp_distinct_iff by blast
  have "set xs = set ys" using assms(2) by (metis set_mset_mset)
  then have "S (xs ! i) (xs ! j)" if "i < j" "j < length xs" for i j
    using that assms(1,5) sorted_wrt_either [OF assms(3), of "xs ! i" "xs ! j"] \<open>distinct xs\<close>
    by (metis nth_eq_iff_index_eq nth_mem order_less_irrefl order_less_trans sorted_wrt_nth_less)
  then show ?thesis by (simp add: sorted_wrt_iff_nth_less)
qed

lemma normalize_rep_spec:
  assumes os: "rep_orders_ok os"
  shows "(\<exists>r \<in> set (normalize_rep os rs). rep_key r = k \<and> rcovers r v) \<longleftrightarrow>
      (\<exists>r \<in> set (usable_ranges rs). rep_key r = k \<and> rcovers r v)"
    and "r \<in> set (normalize_rep os rs) \<Longrightarrow> rep_valid r"
    and "sorted_wrt rep_out_le (normalize_rep os rs)"
    and "\<forall>r \<in> set (usable_ranges rs). rep_end r \<noteq> -1 \<Longrightarrow>
      sorted_wrt rep_apart (filter (\<lambda>r. rep_key r = k) (normalize_rep os rs))"
proof -
  have sg: "slice_sorter rep_le (sort_group os)" and so: "slice_sorter rep_out_le (sort_out os)"
    using os by (auto simp: rep_orders_ok_def)
  define g where "g k = filter (\<lambda>r. rep_key r = k) (usable_ranges rs)" for k
  have g: "list_all (\<lambda>r. rep_key r = k) (g k)" "list_all rep_valid (g k)" for k
    using usable_valid by (auto simp: g_def list_all_iff)
  have ms: "mset (filter (\<lambda>r. rep_key r = k) (normalize_rep os rs)) = mset (merge_group (sort_group os (g k)))" for k
    using normalize_rep_key [OF os] by (simp add: g_def)
  then have set: "set (filter (\<lambda>r. rep_key r = k) (normalize_rep os rs)) = set (merge_group (sort_group os (g k)))" for k
    by (metis set_mset_mset)
  show "(\<exists>r \<in> set (normalize_rep os rs). rep_key r = k \<and> rcovers r v) \<longleftrightarrow>
      (\<exists>r \<in> set (usable_ranges rs). rep_key r = k \<and> rcovers r v)"
    using merge_group_spec(1) [OF sg g [of k], of v] set [of k] by (auto simp: g_def)
  show "rep_valid r" if "r \<in> set (normalize_rep os rs)"
  proof -
    have "r \<in> set (merge_group (sort_group os (g (rep_key r))))" using that set [of "rep_key r"] by auto
    with merge_group_spec(2) [OF sg g [of "rep_key r"]] show ?thesis by blast
  qed
  show sorted: "sorted_wrt rep_out_le (normalize_rep os rs)"
    by (simp add: normalize_rep_def Let_def slice_sorter.srt_sorted [OF so])
  show "sorted_wrt rep_apart (filter (\<lambda>r. rep_key r = k) (normalize_rep os rs))"
    if "\<forall>r \<in> set (usable_ranges rs). rep_end r \<noteq> -1"
  proof (rule sorted_wrt_transfer)
    show "sorted_wrt rep_out_le (filter (\<lambda>r. rep_key r = k) (normalize_rep os rs))"
      using sorted by (rule sorted_wrt_filter)
    show "sorted_wrt rep_apart (merge_group (sort_group os (g k)))"
      using that by (intro merge_group_spec(3) [OF sg g]) (simp add: g_def list_all_iff)
    show "\<not> rep_apart x x" if "x \<in> set (merge_group (sort_group os (g k)))" for x
      using merge_group_spec(2) [OF sg g that] by (simp add: rep_apart_def rep_valid_def word_le_nat_alt)
    show "\<not> rep_apart y x" if xy: "x \<in> set (merge_group (sort_group os (g k)))"
        "y \<in> set (merge_group (sort_group os (g k)))" and "rep_out_le x y" for x y
    proof -
      have "rep_valid x" "rep_valid y" using xy merge_group_spec(2) [OF sg g] by blast+
      with \<open>rep_out_le x y\<close> show ?thesis
        by (auto simp: rep_out_le_def rep_apart_def rep_valid_def word_le_nat_alt word_less_nat_alt split: if_splits)
    qed
  qed (rule ms)
qed


lemma rep_le_order: "transp rep_le" "totalp rep_le" "reflp rep_le"
proof -
  show "transp rep_le" by (rule transpI) (auto simp: rep_le_def split: if_splits)
  show "reflp rep_le" by (rule reflpI) (simp add: rep_le_def)
  show "totalp rep_le" by (rule totalpI) (auto simp: rep_le_def)
qed

lemma rep_out_le_order: "transp rep_out_le" "totalp rep_out_le" "reflp rep_out_le"
proof -
  show "transp rep_out_le" by (rule transpI) (auto simp: rep_out_le_def split: if_splits)
  show "reflp rep_out_le" by (rule reflpI) (simp add: rep_out_le_def)
  show "totalp rep_out_le" by (rule totalpI) (auto simp: rep_out_le_def)
qed

lemma hit_le_order: "transp hit_le" "totalp hit_le" "reflp hit_le"
proof -
  show "transp hit_le" by (rule transpI) (auto simp: hit_le_def split: if_splits)
  show "reflp hit_le" by (rule reflpI) (simp add: hit_le_def)
  show "totalp hit_le" by (rule totalpI) (auto simp: hit_le_def)
qed

interpretation rep_sort: slice_sorter rep_le "sort_by rep_le"
  by (rule slice_sorter_sort_by) (rule rep_le_order)+

interpretation rep_out_sort: slice_sorter rep_out_le "sort_by rep_out_le"
  by (rule slice_sorter_sort_by) (rule rep_out_le_order)+

interpretation hit_sort: slice_sorter hit_le "sort_by hit_le"
  by (rule slice_sorter_sort_by) (rule hit_le_order)+

definition std_orders :: rep_orders where
  "std_orders = \<lparr>sort_group = sort_by rep_le, sort_out = sort_by rep_out_le, order_groups = rev\<rparr>"

lemma std_orders_ok: "rep_orders_ok std_orders"
proof -
  have "slice_sorter (\<lambda>_ _. True) (rev :: (rep_key, rep_range list) go_map \<Rightarrow> _)"
    by unfold_locales (auto simp: sorted_wrt_iff_nth_less)
  then show ?thesis
    by (simp add: std_orders_def rep_orders_ok_def rep_sort.slice_sorter_axioms rep_out_sort.slice_sorter_axioms)
qed

section \<open>Lookup\<close>

definition nul_free :: "rep_range \<Rightarrow> bool" where
  "nul_free r \<longleftrightarrow> byte 0 \<notin> set (list_name r)"

lemma seen_key_eq: "nul_free r \<Longrightarrow> nul_free r' \<Longrightarrow> seen_key r = seen_key r' \<longleftrightarrow> rep_key r = rep_key r'"
proof -
  assume nf: "nul_free r" "nul_free r'"
  have "cut_at (byte 0) (seen_key x) = Some (rep_key x)" if "nul_free x" for x
    using that by (simp add: cut_at_Some seen_key_def rep_key_def nul_free_def)
  with nf have "seen_key r = seen_key r' \<Longrightarrow> rep_key r = rep_key r'" by (metis option.inject)
  then show ?thesis by (auto simp: seen_key_def rep_key_def)
qed

definition rep_span :: "rep_range \<Rightarrow> u32" where "rep_span r = rep_end r - rep_start r"

definition hit_of :: "rep_range \<Rightarrow> rep_hit" where
  "hit_of r = \<lparr>hit_list = list_name r, hit_category = category r,
     hit_network = (case format_network_prefer_cidr (rep_start r) (rep_end r) of Some t \<Rightarrow> t | None \<Rightarrow> [])\<rparr>"

lemma hit_of_network:
  assumes "rep_valid r"
  shows "format_network_prefer_cidr (rep_start r) (rep_end r) = Some (hit_network (hit_of r))
    \<and> parse_network_field (hit_network (hit_of r)) = Some (rep_start r, rep_end r)"
  using parse_format_prefer_cidr [of "rep_start r" "rep_end r"] assms
  by (auto simp: hit_of_def rep_valid_def min_def max_def)

text \<open>The candidates \<open>done\<close> have been seen: one hit per key, of a narrowest covering range.\<close>

definition best_of :: "u32 \<Rightarrow> rep_range list \<Rightarrow> string \<Rightarrow> rep_range \<Rightarrow> bool" where
  "best_of ip done key r \<longleftrightarrow> r \<in> set done \<and> rcovers r ip \<and> seen_key r = key
     \<and> (\<forall>r' \<in> set done. rcovers r' ip \<and> seen_key r' = key \<longrightarrow> rep_span r \<le> rep_span r')"

definition seen_inv :: "u32 \<Rightarrow> rep_range list \<Rightarrow> (string, rep_hit) go_map \<Rightarrow> bool" where
  "seen_inv ip done seen \<longleftrightarrow> gm_ok seen
     \<and> (\<forall>r \<in> set done. rcovers r ip \<longrightarrow> gm_get seen (seen_key r) \<noteq> None)
     \<and> (\<forall>key h. gm_get seen key = Some h \<longrightarrow> (\<exists>r. rep_valid r \<and> h = hit_of r \<and> best_of ip done key r))"

lemma seen_inv_None: "seen_inv ip done seen \<Longrightarrow> gm_get seen key = None \<Longrightarrow> r \<in> set done \<Longrightarrow> rcovers r ip \<Longrightarrow>
    seen_key r \<noteq> key"
  by (auto simp: seen_inv_def)

lemma seen_inv_Some: "seen_inv ip done seen \<Longrightarrow> gm_get seen key = Some h \<Longrightarrow>
    \<exists>r. rep_valid r \<and> h = hit_of r \<and> best_of ip done key r"
  unfolding seen_inv_def by blast

lemma seen_inv_keep:
  assumes "seen_inv ip done seen" "rcovers r ip \<Longrightarrow> gm_get seen (seen_key r) \<noteq> None"
    "\<And>key x. best_of ip done key x \<Longrightarrow> best_of ip (done @ [r]) key x"
  shows "seen_inv ip (done @ [r]) seen"
proof -
  have "\<exists>x. rep_valid x \<and> h = hit_of x \<and> best_of ip (done @ [r]) key x"
    if "gm_get seen key = Some h" for key h
    using seen_inv_Some [OF assms(1) that] assms(3) by blast
  then show ?thesis using assms(1,2) unfolding seen_inv_def by simp
qed

lemma seen_inv_put:
  assumes "seen_inv ip done seen" "rep_valid r" "best_of ip (done @ [r]) (seen_key r) r"
    "\<And>key x. best_of ip done key x \<Longrightarrow> key \<noteq> seen_key r \<Longrightarrow> best_of ip (done @ [r]) key x"
  shows "seen_inv ip (done @ [r]) (gm_put (seen_key r) (hit_of r) seen)"
proof -
  have "\<exists>x. rep_valid x \<and> h = hit_of x \<and> best_of ip (done @ [r]) key x"
    if "gm_get (gm_put (seen_key r) (hit_of r) seen) key = Some h" for key h
  proof (cases "key = seen_key r")
    case True
    with that assms(2,3) show ?thesis by auto
  next
    case False
    with that have "gm_get seen key = Some h" by simp
    from seen_inv_Some [OF assms(1) this] assms(4) False show ?thesis by blast
  qed
  moreover have "gm_ok (gm_put (seen_key r) (hit_of r) seen)" using assms(1) by (simp add: seen_inv_def)
  moreover have "\<forall>x \<in> set (done @ [r]). rcovers x ip \<longrightarrow> gm_get (gm_put (seen_key r) (hit_of r) seen) (seen_key x) \<noteq> None"
    using assms(1) by (simp add: seen_inv_def)
  ultimately show ?thesis unfolding seen_inv_def by blast
qed

lemma seen_step_inv:
  assumes inv: "seen_inv ip done seen" and r: "rep_valid r" "rep_start r \<le> ip"
  shows "\<exists>seen'. seen_step ip r (Some seen) = Some seen' \<and> seen_inv ip (done @ [r]) seen'"
proof (cases "ip > rep_end r")
  case True
  then have "\<not> rcovers r ip" by (simp add: rcovers_def not_le)
  then have "best_of ip (done @ [r]) key x" if "best_of ip done key x" for key x
    using that by (auto simp: best_of_def)
  with \<open>\<not> rcovers r ip\<close> have "seen_inv ip (done @ [r]) seen"
    by (intro seen_inv_keep [OF inv]) auto
  with True show ?thesis by (simp add: seen_step_def)
next
  case False
  with r have cov: "rcovers r ip" by (simp add: rcovers_def)
  define key where "key = seen_key r"
  note net = hit_of_network [OF r(1)]
  have hit: "hit_of r = \<lparr>hit_list = list_name r, hit_category = category r, hit_network = hit_network (hit_of r)\<rparr>"
    by (simp add: hit_of_def)
  have other: "best_of ip (done @ [r]) k x" if "best_of ip done k x" "k \<noteq> key" for k x
    using that by (auto simp: best_of_def key_def)
  have put: "seen_inv ip (done @ [r]) (gm_put key (hit_of r) seen)" if "best_of ip (done @ [r]) key r"
    using that other unfolding key_def by (intro seen_inv_put [OF inv r(1)]) auto
  show ?thesis
  proof (cases "gm_get seen key")
    case None
    then have "\<forall>x \<in> set done. rcovers x ip \<longrightarrow> seen_key x \<noteq> key"
      using seen_inv_None [OF inv] by blast
    then have "best_of ip (done @ [r]) key r" using cov by (auto simp: best_of_def key_def)
    from put [OF this] None False net hit show ?thesis by (simp add: seen_step_def key_def [symmetric])
  next
    case (Some h)
    then obtain p where p: "rep_valid p" "h = hit_of p" "best_of ip done key p"
      using seen_inv_Some [OF inv] by blast
    have par: "parse_network_field (hit_network h) = Some (rep_start p, rep_end p)"
      using hit_of_network [OF p(1)] p(2) by simp
    show ?thesis
    proof (cases "rep_span r < rep_span p")
      case True
      then have "best_of ip (done @ [r]) key r"
        using p(3) cov unfolding best_of_def key_def by fastforce
      from put [OF this] True Some False net hit par show ?thesis
        by (simp add: seen_step_def key_def [symmetric] rep_span_def)
    next
      case nl: False
      have "best_of ip (done @ [r]) k x" if "best_of ip done k x" for k x
      proof (cases "k = key")
        case True
        then have "rep_span x \<le> rep_span p" using that p(3) by (auto simp: best_of_def)
        with nl have "rep_span x \<le> rep_span r" by simp
        with that show ?thesis by (auto simp: best_of_def)
      qed (use that other in blast)
      then have "seen_inv ip (done @ [r]) seen"
        using Some by (intro seen_inv_keep [OF inv]) (auto simp: key_def)
      with nl Some False net hit par show ?thesis
        by (simp add: seen_step_def key_def [symmetric] rep_span_def)
    qed
  qed
qed

lemma fold_seen_inv:
  "list_all (\<lambda>r. rep_valid r \<and> rep_start r \<le> ip) rs \<Longrightarrow>
     \<exists>seen. fold (seen_step ip) rs (Some []) = Some seen \<and> seen_inv ip rs seen"
proof (induction rs rule: rev_induct)
  case Nil
  then show ?case by (simp add: seen_inv_def)
next
  case (snoc r rs)
  then obtain seen where "fold (seen_step ip) rs (Some []) = Some seen" "seen_inv ip rs seen" by auto
  with seen_step_inv [of ip rs seen r] snoc.prems show ?case by simp
qed


lemma best_of_take:
  assumes "best_of ip (take pos rs) key r" "\<forall>x \<in> set (drop pos rs). ip < rep_start x"
  shows "best_of ip rs key r"
proof -
  have "x \<in> set (take pos rs)" if "x \<in> set rs" "rcovers x ip" for x
  proof -
    have "x \<in> set (take pos rs) \<or> x \<in> set (drop pos rs)"
      using that(1) by (metis Un_iff append_take_drop_id set_append)
    then show ?thesis using assms(2) that(2) by (auto simp: rcovers_def not_le [symmetric])
  qed
  moreover have "r \<in> set rs" using assms(1) by (auto simp: best_of_def dest: in_set_takeD)
  ultimately show ?thesis using assms(1) by (auto simp: best_of_def)
qed

definition hit_less :: "rep_hit \<Rightarrow> rep_hit \<Rightarrow> bool" where
  "hit_less a b \<longleftrightarrow> hit_category a < hit_category b \<or> hit_category a = hit_category b \<and> hit_list a < hit_list b"

text \<open>The ranges an index publishes.\<close>

definition published_ok :: "rep_range list \<Rightarrow> bool" where
  "published_ok rs \<longleftrightarrow> starts_up rs \<and> list_all (\<lambda>r. rep_valid r \<and> nul_free r) rs"

definition answers :: "u32 \<Rightarrow> rep_range list \<Rightarrow> rep_hit list \<Rightarrow> bool" where
  "answers ip rs hs \<longleftrightarrow> sorted_wrt hit_less hs
     \<and> (\<forall>h \<in> set hs. \<exists>r \<in> set rs. rcovers r ip \<and> h = hit_of r
          \<and> (\<forall>r' \<in> set rs. rcovers r' ip \<and> rep_key r' = rep_key r \<longrightarrow> rep_span r \<le> rep_span r'))
     \<and> (\<forall>r \<in> set rs. rcovers r ip \<longrightarrow> (\<exists>h \<in> set hs. (hit_list h, hit_category h) = rep_key r))"

lemma answers_of_seen:
  assumes srt: "slice_sorter hit_le srt" and inv: "seen_inv ip (take pos rs) seen"
    and above: "\<forall>x \<in> set (drop pos rs). ip < rep_start x" and ok: "list_all nul_free rs"
  shows "answers ip rs (srt (map snd seen))"
proof -
  have gm: "gm_ok seen" using inv by (simp add: seen_inv_def)
  have some: "\<exists>r. rep_valid r \<and> h = hit_of r \<and> best_of ip rs key r" if "(key, h) \<in> set seen" for key h
  proof -
    have "gm_get seen key = Some h" using that gm by (simp add: gm_get_in)
    then have "\<exists>r. rep_valid r \<and> h = hit_of r \<and> best_of ip (take pos rs) key r"
      using seen_inv_Some [OF inv] by blast
    then show ?thesis using best_of_take [OF _ above] by blast
  qed
  have nf: "nul_free r" if "r \<in> set rs" for r using ok that by (simp add: list_all_iff)
  define hs where "hs = srt (map snd seen)"
  have set_hs: "set hs = snd ` set seen" using slice_sorter.srt_set [OF srt] by (simp add: hs_def)
  have hit_seen: "seen_key r = hit_list (hit_of r) @ [byte 0] @ hit_category (hit_of r)" for r
    by (simp add: seen_key_def hit_of_def)
  have "inj_on snd (set seen)"
  proof (rule inj_onI)
    fix a b assume ab: "a \<in> set seen" "b \<in> set seen" "snd a = snd b"
    obtain r where "snd a = hit_of r" "seen_key r = fst a"
      using some [of "fst a" "snd a"] ab(1) unfolding best_of_def prod.collapse by blast
    moreover obtain r' where "snd b = hit_of r'" "seen_key r' = fst b"
      using some [of "fst b" "snd b"] ab(2) unfolding best_of_def prod.collapse by blast
    ultimately have "fst a = fst b" using hit_seen ab(3) by metis
    with ab(3) show "a = b" by (simp add: prod_eq_iff)
  qed
  moreover have "distinct seen" using gm by (simp add: gm_ok_def distinct_map)
  ultimately have "distinct (map snd seen)" by (simp add: distinct_map)
  then have dist: "distinct hs" using slice_sorter.srt_distinct [OF srt] by (simp add: hs_def)
  have keys: "x = y" if xy: "x \<in> set hs" "y \<in> set hs" "hit_list x = hit_list y" "hit_category x = hit_category y" for x y
  proof -
    obtain k k' where k: "(k, x) \<in> set seen" "(k', y) \<in> set seen" using xy set_hs by auto
    obtain r where "x = hit_of r" "seen_key r = k" using some [OF k(1)] by (auto simp: best_of_def)
    moreover obtain r' where "y = hit_of r'" "seen_key r' = k'" using some [OF k(2)] by (auto simp: best_of_def)
    ultimately have "k = k'" using hit_seen xy(3,4) by metis
    with k gm show ?thesis by (metis gm_get_in option.inject)
  qed
  have "sorted_wrt hit_less hs"
  proof -
    have "sorted_wrt hit_le hs" unfolding hs_def by (rule slice_sorter.srt_sorted [OF srt])
    then have "hit_le (hs ! i) (hs ! j)" if "i < j" "j < length hs" for i j
      using that by (simp add: sorted_wrt_nth_less)
    moreover have "hs ! i \<noteq> hs ! j" if "i < j" "j < length hs" for i j
      using that dist by (simp add: nth_eq_iff_index_eq)
    ultimately have "hit_less (hs ! i) (hs ! j)" if "i < j" "j < length hs" for i j
      using that keys [of "hs ! i" "hs ! j"]
      unfolding hit_less_def hit_le_def
      by (metis nth_mem order_le_less order_less_trans)
    then show ?thesis by (simp add: sorted_wrt_iff_nth_less)
  qed
  moreover have "\<exists>r \<in> set rs. rcovers r ip \<and> h = hit_of r
      \<and> (\<forall>r' \<in> set rs. rcovers r' ip \<and> rep_key r' = rep_key r \<longrightarrow> rep_span r \<le> rep_span r')" if "h \<in> set hs" for h
  proof -
    have "h \<in> snd ` set seen" using that by (simp add: set_hs)
    then obtain k where "(k, h) \<in> set seen" by auto
    with some obtain r where r: "h = hit_of r" "best_of ip rs k r" by blast
    then have "rep_span r \<le> rep_span r'" if "r' \<in> set rs" "rcovers r' ip" "rep_key r' = rep_key r" for r'
      using that nf seen_key_eq [of r' r] by (auto simp: best_of_def)
    with r show ?thesis by (auto simp: best_of_def)
  qed
  moreover have "\<exists>h \<in> set hs. (hit_list h, hit_category h) = rep_key r" if r: "r \<in> set rs" "rcovers r ip" for r
  proof -
    have "r \<in> set (take pos rs)"
      using r above by (metis Un_iff append_take_drop_id set_append not_le rcovers_def)
    then have "gm_get seen (seen_key r) \<noteq> None"
      using seen_inv_None [OF inv] r(2) by blast
    then obtain h where h: "(seen_key r, h) \<in> set seen" using gm gm_get_in by fastforce
    with some obtain r' where r': "h = hit_of r'" "best_of ip rs (seen_key r) r'" by blast
    then have "rep_key r' = rep_key r" using seen_key_eq nf r(1) by (auto simp: best_of_def)
    with r'(1) h show ?thesis by (force simp: set_hs hit_of_def rep_key_def)
  qed
  ultimately show ?thesis by (simp add: answers_def hs_def)
qed

lemma rep_lookup_published:
  assumes srt: "slice_sorter hit_le srt" and ok: "published_ok rs"
  shows "\<exists>hs. rep_lookup srt (Some rs) str = Some hs \<and>
     (if to4 (parse_ip (trim_space str)) = [] \<or> is_non_public_ipv4 (to4 (parse_ip (trim_space str))) then hs = []
      else answers (ipv4_to_uint32 (to4 (parse_ip (trim_space str)))) rs hs)"
proof -
  define ip where "ip = ipv4_to_uint32 (to4 (parse_ip (trim_space str)))"
  define pos where "pos = sort_search (length rs) (\<lambda>k. rep_start (rs ! k) > ip)"
  have up: "rep_start (rs ! i) \<le> rep_start (rs ! j)" if "i \<le> j" "j < length rs" for i j
    using ok that by (cases "i = j") (auto simp: published_ok_def starts_up_def sorted_wrt_iff_nth_less)
  have p: "pos \<le> length rs \<and> (\<forall>k < pos. \<not> rep_start (rs ! k) > ip) \<and>
      (\<forall>k. pos \<le> k \<longrightarrow> k < length rs \<longrightarrow> rep_start (rs ! k) > ip)"
    unfolding pos_def by (rule sort_search_spec) (use up in \<open>meson order_less_le_trans\<close>)
  then have above: "\<forall>x \<in> set (drop pos rs). ip < rep_start x"
    by (auto simp: in_set_conv_nth)
  have below: "list_all (\<lambda>r. rep_valid r \<and> rep_start r \<le> ip) (take pos rs)"
    using p ok by (auto simp: list_all_length published_ok_def not_less)
  obtain seen where seen: "fold (seen_step ip) (take pos rs) (Some []) = Some seen" "seen_inv ip (take pos rs) seen"
    using fold_seen_inv [OF below] by blast
  have ans: "answers ip rs (srt (map snd seen))"
    by (rule answers_of_seen [OF srt seen(2) above]) (use ok in \<open>auto simp: published_ok_def list_all_iff\<close>)
  show ?thesis
  proof (cases "rs = []")
    case True
    have "answers ip [] []" by (simp add: answers_def)
    with True show ?thesis by (simp add: rep_lookup_def Let_def rep_load_def ip_def [symmetric])
  next
    case False
    then show ?thesis using ans seen(1)
      by (simp add: rep_lookup_def Let_def rep_load_def ip_def [symmetric] pos_def [symmetric])
  qed
qed


section \<open>The published index\<close>

lemma set_usable: "r \<in> set (usable_ranges rs) \<longleftrightarrow> (\<exists>x \<in> set rs. r = trim_names x \<and> rep_usable r)"
  by (auto simp: usable_ranges_def)

lemma set_trim_left: "set (trim_left s) \<subseteq> set s"
proof (induction s rule: trim_left.induct)
  case (1 s)
  show ?case
  proof (cases "strip_space s")
    case None
    then show ?thesis by (simp add: trim_left_id)
  next
    case (Some t)
    then have "set t \<subseteq> set s" by (auto dest!: strip_space_suffix)
    with 1 Some show ?thesis by (simp add: trim_left.simps [of s])
  qed
qed

lemma set_trim_space: "set (trim_space s) \<subseteq> set s"
proof -
  obtain u where "trim_left s = trim_right (trim_left s) @ u" using trim_right_prefix by blast
  then have "set (trim_right (trim_left s)) \<subseteq> set (trim_left s)" by (metis Un_upper1 set_append)
  then show ?thesis using set_trim_left [of s] by (auto simp: trim_space_def)
qed

lemma rep_key_names: "rep_key r = (l, c) \<longleftrightarrow> list_name r = l \<and> category r = c"
  by (auto simp: rep_key_def)

lemma normalize_rep_origin:
  assumes "rep_orders_ok os" "m \<in> set (normalize_rep os rs)"
  shows "\<exists>r \<in> set (usable_ranges rs). rep_key r = rep_key m"
proof -
  have "rep_valid m" using normalize_rep_spec(2) [OF assms] .
  then have "rcovers m (rep_start m)" by (simp add: rcovers_def rep_valid_def)
  then show ?thesis
    using normalize_rep_spec(1) [OF assms(1), of rs "rep_key m" "rep_start m"] assms(2) by blast
qed

lemma normalize_rep_published:
  assumes "rep_orders_ok os" "list_all nul_free rs"
  shows "published_ok (normalize_rep os rs)"
proof -
  have "nul_free m" if m: "m \<in> set (normalize_rep os rs)" for m
  proof -
    obtain r where r: "r \<in> set (usable_ranges rs)" "rep_key r = rep_key m"
      using normalize_rep_origin [OF assms(1) m] by blast
    then obtain x where "x \<in> set rs" "list_name r = trim_space (list_name x)"
      by (auto simp: set_usable trim_names_def)
    then have "byte 0 \<notin> set (list_name r)"
      using assms(2) set_trim_space [of "list_name x"] by (auto simp: list_all_iff nul_free_def)
    with r(2) show ?thesis by (simp add: nul_free_def rep_key_def)
  qed
  then show ?thesis
    using normalize_rep_spec(2,3) [OF assms(1)] rep_out_le_starts
    by (auto simp: published_ok_def list_all_iff)
qed

text \<open>Whether an index answers for a list and category at an address.\<close>

definition list_covers :: "rep_range list \<Rightarrow> string \<Rightarrow> string \<Rightarrow> u32 \<Rightarrow> bool" where
  "list_covers rs l c v \<longleftrightarrow> (\<exists>r \<in> set rs. list_name r = l \<and> category r = c \<and> rcovers r v)"

lemma list_covers_normalize:
  assumes "rep_orders_ok os"
  shows "list_covers (normalize_rep os rs) l c v = list_covers (usable_ranges rs) l c v"
  using normalize_rep_spec(1) [OF assms, of rs "(l, c)" v] by (auto simp: list_covers_def rep_key_names)

lemma list_covers_append: "list_covers (xs @ ys) l c v \<longleftrightarrow> list_covers xs l c v \<or> list_covers ys l c v"
  by (auto simp: list_covers_def)

lemma usable_append: "usable_ranges (xs @ ys) = usable_ranges xs @ usable_ranges ys"
  by (simp add: usable_ranges_def)

text \<open>An index that was stored by the operations: names trimmed and ranges usable.\<close>

definition stored_ok :: "rep_index \<Rightarrow> bool" where
  "stored_ok i \<longleftrightarrow> (\<forall>r \<in> set (rep_load i). trim_names r = r \<and> rep_usable r)"

lemma usable_stored: "stored_ok i \<Longrightarrow> usable_ranges (filter P (rep_load i)) = filter P (rep_load i)"
proof -
  assume ok: "stored_ok i"
  then have "map trim_names (filter P (rep_load i)) = filter P (rep_load i)"
    by (intro map_idI) (auto simp: stored_ok_def)
  moreover have "filter rep_usable (filter P (rep_load i)) = filter P (rep_load i)"
    by (rule filter_True) (use ok in \<open>auto simp: stored_ok_def\<close>)
  ultimately show ?thesis by (simp only: usable_ranges_def)
qed

lemma trim_names_id: "trim_names r = r \<longleftrightarrow> trim_space (list_name r) = list_name r \<and> trim_space (category r) = category r"
  by (cases r) (auto simp: trim_names_def)

lemma stored_ok_normalize:
  assumes "rep_orders_ok os" shows "stored_ok (Some (normalize_rep os rs))"
proof -
  have "trim_names m = m \<and> rep_usable m" if m: "m \<in> set (normalize_rep os rs)" for m
  proof -
    obtain r where r: "r \<in> set (usable_ranges rs)" "rep_key r = rep_key m"
      using normalize_rep_origin [OF assms m] by blast
    then have "trim_names r = r" "list_name r \<noteq> []"
      by (auto simp: set_usable trim_names_def rep_usable_def)
    with r(2) normalize_rep_spec(2) [OF assms m] show ?thesis
      by (auto simp: trim_names_id rep_usable_def rep_key_def rep_valid_def)
  qed
  then show ?thesis by (simp add: stored_ok_def rep_load_def)
qed

lemma stored_ok_ops [simp]:
  "rep_orders_ok os \<Longrightarrow> stored_ok (replace_all os rs)"
  "rep_orders_ok os \<Longrightarrow> stored_ok (replace_list os i name rs)"
  "stored_ok i \<Longrightarrow> stored_ok (delete_list i name)"
  by (auto simp: replace_all_def replace_list_def Let_def stored_ok_normalize)
     (auto simp: delete_list_def stored_ok_def rep_load_def Let_def)


section \<open>Summaries\<close>

definition meta_le :: "meta_rec \<Rightarrow> meta_rec \<Rightarrow> bool" where
  "meta_le a b \<longleftrightarrow> meta_name a \<le> meta_name b"

lemma meta_le_order: "transp meta_le" "totalp meta_le" "reflp meta_le"
  by (auto simp: meta_le_def intro!: transpI totalpI reflpI)

interpretation meta_sort: slice_sorter meta_le "sort_by meta_le"
  by (rule slice_sorter_sort_by) (rule meta_le_order)+

definition meta_inv :: "rep_range list \<Rightarrow> (string, meta_rec) go_map \<Rightarrow> bool" where
  "meta_inv rs by \<longleftrightarrow> gm_ok by \<and> (\<forall>n. let own = filter (\<lambda>r. list_name r = n) rs in
     case gm_get by n of None \<Rightarrow> own = []
     | Some a \<Rightarrow> own \<noteq> [] \<and> meta_name a = n \<and> meta_count a = length own
         \<and> meta_updated a = fold max (map updated_at own) 0
         \<and> (meta_source a = [] \<longleftrightarrow> list_all (\<lambda>r. source r = []) own))"

lemma meta_step_inv: "meta_inv rs by \<Longrightarrow> meta_inv (rs @ [r]) (meta_step r by)"
proof -
  assume inv: "meta_inv rs by"
  have ok: "gm_ok (meta_step r by)" using inv by (simp add: meta_inv_def meta_step_def Let_def)
  have get: "gm_get (meta_step r by) n = gm_get by n" if "n \<noteq> list_name r" for n
    using that by (simp add: meta_step_def Let_def)
  have own: "filter (\<lambda>x. list_name x = n) (rs @ [r]) = filter (\<lambda>x. list_name x = n) rs" if "n \<noteq> list_name r" for n
    using that by simp
  define own_r where "own_r = filter (\<lambda>x. list_name x = list_name r) rs"
  have at: "case gm_get by (list_name r) of None \<Rightarrow> own_r = []
     | Some a \<Rightarrow> own_r \<noteq> [] \<and> meta_name a = list_name r \<and> meta_count a = length own_r
         \<and> meta_updated a = fold max (map updated_at own_r) 0
         \<and> (meta_source a = [] \<longleftrightarrow> list_all (\<lambda>r. source r = []) own_r)"
    using inv unfolding meta_inv_def Let_def own_r_def by blast
  have "\<exists>a. gm_get (meta_step r by) (list_name r) = Some a \<and> meta_name a = list_name r
      \<and> meta_count a = length (own_r @ [r]) \<and> meta_updated a = fold max (map updated_at (own_r @ [r])) 0
      \<and> (meta_source a = [] \<longleftrightarrow> list_all (\<lambda>r. source r = []) (own_r @ [r]))"
    using at by (cases "gm_get by (list_name r)") (auto simp: meta_step_def Let_def max_def)
  then have new: "case gm_get (meta_step r by) (list_name r) of None \<Rightarrow> own_r @ [r] = []
     | Some a \<Rightarrow> own_r @ [r] \<noteq> [] \<and> meta_name a = list_name r \<and> meta_count a = length (own_r @ [r])
         \<and> meta_updated a = fold max (map updated_at (own_r @ [r])) 0
         \<and> (meta_source a = [] \<longleftrightarrow> list_all (\<lambda>r. source r = []) (own_r @ [r]))" by auto
  show ?thesis unfolding meta_inv_def Let_def
  proof (intro conjI allI)
    show "gm_ok (meta_step r by)" by (rule ok)
    show "case gm_get (meta_step r by) n of None \<Rightarrow> filter (\<lambda>r. list_name r = n) (rs @ [r]) = []
       | Some a \<Rightarrow> filter (\<lambda>r. list_name r = n) (rs @ [r]) \<noteq> [] \<and> meta_name a = n
           \<and> meta_count a = length (filter (\<lambda>r. list_name r = n) (rs @ [r]))
           \<and> meta_updated a = fold max (map updated_at (filter (\<lambda>r. list_name r = n) (rs @ [r]))) 0
           \<and> (meta_source a = [] \<longleftrightarrow> list_all (\<lambda>r. source r = []) (filter (\<lambda>r. list_name r = n) (rs @ [r])))" for n
    proof (cases "n = list_name r")
      case True
      have eq: "filter (\<lambda>x. list_name x = list_name r) (rs @ [r]) = own_r @ [r]" by (simp add: own_r_def)
      show ?thesis unfolding True eq by (rule new)
    next
      case False
      show ?thesis unfolding get [OF False] own [OF False] using inv unfolding meta_inv_def Let_def by blast
    qed
  qed
qed

lemma fold_meta_inv: "meta_inv rs (fold meta_step rs [])"
  by (induction rs rule: rev_induct) (simp_all add: meta_inv_def [of "[]"] meta_step_inv)

lemma answers_lists:
  assumes "answers v rs hs"
  shows "(\<exists>h \<in> set hs. hit_list h = l \<and> hit_category h = c) = list_covers rs l c v"
proof
  assume "\<exists>h \<in> set hs. hit_list h = l \<and> hit_category h = c"
  then obtain h where hit: "h \<in> set hs" "hit_list h = l" "hit_category h = c" by blast
  then obtain r where "r \<in> set rs" "rcovers r v" "h = hit_of r"
    using assms unfolding answers_def by blast
  with hit show "list_covers rs l c v" by (auto simp: hit_of_def list_covers_def)
next
  assume "list_covers rs l c v"
  then obtain r where r: "r \<in> set rs" "list_name r = l" "category r = c" "rcovers r v"
    unfolding list_covers_def by blast
  then have "\<exists>h \<in> set hs. (hit_list h, hit_category h) = rep_key r"
    using assms unfolding answers_def by blast
  with r show "\<exists>h \<in> set hs. hit_list h = l \<and> hit_category h = c" by (auto simp: rep_key_def)
qed

lemma meta_inv_None: "meta_inv rs by \<Longrightarrow> gm_get by n = None \<Longrightarrow> filter (\<lambda>r. list_name r = n) rs = []"
proof -
  assume inv: "meta_inv rs by" and get: "gm_get by n = None"
  have "\<forall>n. case gm_get by n of None \<Rightarrow> filter (\<lambda>r. list_name r = n) rs = []
     | Some a \<Rightarrow> filter (\<lambda>r. list_name r = n) rs \<noteq> [] \<and> meta_name a = n
         \<and> meta_count a = length (filter (\<lambda>r. list_name r = n) rs)
         \<and> meta_updated a = fold max (map updated_at (filter (\<lambda>r. list_name r = n) rs)) 0
         \<and> (meta_source a = [] \<longleftrightarrow> list_all (\<lambda>r. source r = []) (filter (\<lambda>r. list_name r = n) rs))"
    using inv unfolding meta_inv_def Let_def by blast
  from spec [OF this, of n] get show ?thesis by simp
qed

section \<open>Properties\<close>

text \<open>Merging loses and invents no address. For any sorting algorithms and any iteration order of
  the groups, \<^verbatim>\<open>NormalizeRanges\<close> keeps, for every list and category, exactly the addresses of the
  usable input ranges of that (trimmed) list and category; its output is sorted, its ranges are
  valid, and if no input range ends at 255.255.255.255, two ranges of one list and category are
  neither overlapping nor adjacent.\<close>

theorem normalize_rep_correct:
  assumes "rep_orders_ok os"
  shows "list_covers (normalize_rep os rs) l c v = list_covers (usable_ranges rs) l c v
    \<and> sorted_wrt rep_out_le (normalize_rep os rs) \<and> list_all rep_valid (normalize_rep os rs)
    \<and> ((\<forall>r \<in> set rs. rep_end r \<noteq> -1) \<longrightarrow>
        sorted_wrt rep_apart (filter (\<lambda>r. rep_key r = k) (normalize_rep os rs)))"
proof -
  have "\<forall>r \<in> set (usable_ranges rs). rep_end r \<noteq> -1" if "\<forall>r \<in> set rs. rep_end r \<noteq> -1"
    using that by (auto simp: set_usable trim_names_def)
  then show ?thesis
    using list_covers_normalize [OF assms] normalize_rep_spec(2,3,4) [OF assms] by (auto simp: list_all_iff)
qed

definition ex_rep :: "string \<Rightarrow> u32 \<Rightarrow> u32 \<Rightarrow> rep_range" where
  "ex_rep l s e = \<lparr>list_name = l, category = ''bot'', rep_start = s, rep_end = e, source = ''url'', updated_at = 0\<rparr>"

theorem normalize_rep_correct_witness:
  "list_covers (normalize_rep std_orders [ex_rep ''A'' 5 9, ex_rep ''A'' 1 4]) ''A'' ''bot'' 6
   \<and> sorted_wrt rep_apart (filter (\<lambda>r. rep_key r = (''A'', ''bot'')) (normalize_rep std_orders [ex_rep ''A'' 5 9, ex_rep ''A'' 1 4]))"
proof -
  have "trim_space ''A'' = ''A''" "trim_space ''bot'' = ''bot''"
    by (simp_all add: trim_space_plain plain_def code_def)
  then have "list_covers (usable_ranges [ex_rep ''A'' 5 9, ex_rep ''A'' 1 4]) ''A'' ''bot'' 6"
    by (simp add: usable_ranges_def list_covers_def ex_rep_def trim_names_def rep_usable_def rcovers_def)
  moreover have "\<forall>r \<in> set [ex_rep ''A'' 5 9, ex_rep ''A'' 1 4]. rep_end r \<noteq> -1" by (simp add: ex_rep_def)
  ultimately show ?thesis
    using normalize_rep_correct [OF std_orders_ok, of "[ex_rep ''A'' 5 9, ex_rep ''A'' 1 4]" "''A''" "''bot''" 6 "(''A'', ''bot'')"]
    by blast
qed

text \<open>C20: A lookup in the published reputation index answers with exactly the lists that hold the
  address. After \<^verbatim>\<open>ReplaceAll\<close> (list names without NUL bytes), \<^verbatim>\<open>Lookup\<close> of a text does not
  panic; it gives no hit for what is no IPv4 address or a non-public one, and otherwise, strictly
  sorted by category and list, one hit for every list and category with a range over the address,
  each with the text of a narrowest such range; and these are the lists and categories of the usable
  input ranges over the address.\<close>

theorem rep_lookup_correct:
  assumes "rep_orders_ok os" "slice_sorter hit_le srt" "list_all nul_free rs"
  shows "\<exists>hs. rep_lookup srt (replace_all os rs) str = Some hs \<and>
     (if to4 (parse_ip (trim_space str)) = [] \<or> is_non_public_ipv4 (to4 (parse_ip (trim_space str))) then hs = []
      else answers (ipv4_to_uint32 (to4 (parse_ip (trim_space str)))) (normalize_rep os rs) hs
         \<and> (\<forall>l c. (\<exists>h \<in> set hs. hit_list h = l \<and> hit_category h = c) =
              list_covers (usable_ranges rs) l c (ipv4_to_uint32 (to4 (parse_ip (trim_space str))))))"
proof -
  obtain hs where hs: "rep_lookup srt (replace_all os rs) str = Some hs"
      "if to4 (parse_ip (trim_space str)) = [] \<or> is_non_public_ipv4 (to4 (parse_ip (trim_space str))) then hs = []
       else answers (ipv4_to_uint32 (to4 (parse_ip (trim_space str)))) (normalize_rep os rs) hs"
    using rep_lookup_published [OF assms(2) normalize_rep_published [OF assms(1,3)]]
    unfolding replace_all_def by blast
  have "(\<exists>h \<in> set hs. hit_list h = l \<and> hit_category h = c) = list_covers (usable_ranges rs) l c v"
    if "answers v (normalize_rep os rs) hs" for v l c
    using answers_lists [OF that] list_covers_normalize [OF assms(1)] by simp
  with hs show ?thesis by auto
qed

theorem rep_lookup_correct_witness:
  "\<exists>hs. rep_lookup (sort_by hit_le) (replace_all std_orders [ex_rep ''A'' 0x08080000 0x0808FFFF]) ''8.8.8.8'' = Some hs
     \<and> (\<exists>h \<in> set hs. hit_list h = ''A'' \<and> hit_category h = ''bot'')"
proof -
  have p: "parse_ip (trim_space ''8.8.8.8'') = v4_prefix @ octets 0x08080808" by code_simp
  have t: "trim_space ''A'' = ''A''" "trim_space ''bot'' = ''bot''"
    by (simp_all add: trim_space_plain plain_def code_def)
  have v: "ipv4_to_uint32 (octets 0x08080808) = 0x08080808" by (rule ipv4_to_uint32_octets)
  have "\<not> is_non_public_ipv4 (octets 0x08080808)" "octets 0x08080808 \<noteq> []"
    by (simp_all add: is_non_public_octets non_public_range_def) (simp add: octets_def)
  moreover have "list_covers (usable_ranges [ex_rep ''A'' 0x08080000 0x0808FFFF]) ''A'' ''bot'' 0x08080808"
    by (simp add: usable_ranges_def list_covers_def ex_rep_def trim_names_def rep_usable_def rcovers_def t)
  moreover have "list_all nul_free [ex_rep ''A'' 0x08080000 0x0808FFFF]"
    by (simp add: nul_free_def ex_rep_def byte_def char_of_def)
  ultimately show ?thesis
    using rep_lookup_correct [OF std_orders_ok hit_sort.slice_sorter_axioms,
        of "[ex_rep ''A'' 0x08080000 0x0808FFFF]" "''8.8.8.8''"]
    unfolding p to4_mapped v by auto
qed

text \<open>Replacing or deleting one list leaves every other list as it was. On an index that the
  operations stored, after \<^verbatim>\<open>ReplaceList\<close> another list covers the same addresses as before in each
  category and the replaced list covers exactly the addresses of the new usable ranges; after
  \<^verbatim>\<open>DeleteList\<close> the others are unchanged and the deleted list covers none.\<close>

theorem replace_list_isolated:
  assumes "rep_orders_ok os" "stored_ok i"
  shows "(l \<noteq> trim_space name \<longrightarrow>
        list_covers (rep_load (replace_list os i name rs)) l c v = list_covers (rep_load i) l c v
      \<and> list_covers (rep_load (delete_list i name)) l c v = list_covers (rep_load i) l c v)
    \<and> list_covers (rep_load (replace_list os i name rs)) (trim_space name) c v =
        list_covers (usable_ranges (map (\<lambda>r. r\<lparr>list_name := trim_space name\<rparr>) rs)) (trim_space name) c v
    \<and> \<not> list_covers (rep_load (delete_list i name)) (trim_space name) c v"
proof -
  define kept where "kept = filter (\<lambda>r. list_name r \<noteq> trim_space name) (rep_load i)"
  define new where "new = usable_ranges (map (\<lambda>r. r\<lparr>list_name := trim_space name\<rparr>) rs)"
  have rep: "list_covers (rep_load (replace_list os i name rs)) l c v \<longleftrightarrow> list_covers kept l c v \<or> list_covers new l c v" for l
    by (simp add: replace_list_def Let_def rep_load_def [of "Some _"] list_covers_normalize [OF assms(1)]
        usable_append usable_stored [OF assms(2)] list_covers_append kept_def new_def)
  have del: "rep_load (delete_list i name) = kept"
    by (simp add: delete_list_def Let_def rep_load_def [of "Some _"] kept_def)
  have k: "list_covers kept l c v \<longleftrightarrow> l \<noteq> trim_space name \<and> list_covers (rep_load i) l c v" for l
    by (auto simp: kept_def list_covers_def)
  have n: "list_covers new l c v \<Longrightarrow> l = trim_space name" for l
    by (auto simp: new_def list_covers_def set_usable trim_names_def)
  show ?thesis using rep k n by (auto simp: del new_def [symmetric])
qed

theorem replace_list_isolated_witness:
  "list_covers (rep_load (replace_list std_orders (replace_all std_orders [ex_rep ''A'' 1 4]) ''B'' [ex_rep ''C'' 7 8])) ''A'' ''bot'' 2"
proof -
  have t: "trim_space ''A'' = ''A''" "trim_space ''B'' = ''B''" "trim_space ''bot'' = ''bot''"
    by (simp_all add: trim_space_plain plain_def code_def)
  have "list_covers (rep_load (replace_all std_orders [ex_rep ''A'' 1 4])) ''A'' ''bot'' 2"
    by (simp add: replace_all_def rep_load_def list_covers_normalize [OF std_orders_ok])
      (simp add: usable_ranges_def list_covers_def ex_rep_def trim_names_def rep_usable_def rcovers_def t)
  moreover have "stored_ok (replace_all std_orders [ex_rep ''A'' 1 4])" using std_orders_ok by simp
  ultimately show ?thesis
    using replace_list_isolated [OF std_orders_ok, of "replace_all std_orders [ex_rep ''A'' 1 4]" "''A''" "''B''"
        "[ex_rep ''C'' 7 8]" "''bot''" 2] t by simp
qed

text \<open>Ranges that end at 255.255.255.255 are not merged: as \<^verbatim>\<open>cur.EndIP+1\<close> wraps to zero, a
  range of the same list that is contained in one reaching the last address, and starts after it,
  stays in the index as a second range.\<close>

theorem top_range_not_merged:
  assumes "rep_orders_ok os" "s1 < s2"
  shows "length (normalize_rep os [\<lparr>list_name = ''A'', category = ''bot'', rep_start = s1, rep_end = -1, source = ''url'', updated_at = 0\<rparr>,
       \<lparr>list_name = ''A'', category = ''bot'', rep_start = s2, rep_end = e, source = ''url'', updated_at = 0\<rparr>]) =
     (if e < s2 then 1 else 2)"
proof -
  define a where "a = \<lparr>list_name = ''A'', category = ''bot'', rep_start = s1, rep_end = -1, source = ''url'', updated_at = 0\<rparr>"
  define b where "b = \<lparr>list_name = ''A'', category = ''bot'', rep_start = s2, rep_end = e, source = ''url'', updated_at = 0\<rparr>"
  have t: "trim_space ''A'' = ''A''" "trim_space ''bot'' = ''bot''"
    by (simp_all add: trim_space_plain plain_def code_def)
  have u: "usable_ranges [a, b] = (if e < s2 then [a] else [a, b])"
    by (simp add: usable_ranges_def a_def b_def trim_names_def rep_usable_def t)
  have sg: "slice_sorter rep_le (sort_group os)" using assms(1) by (simp add: rep_orders_ok_def)
  have one: "sort_group os [a] = [a]" using slice_sorter.srt_mset [OF sg, of "[a]"] by simp
  have two: "sort_group os [a, b] = [a, b]"
  proof -
    have "mset (sort_group os [a, b]) = {#a, b#}" using slice_sorter.srt_mset [OF sg, of "[a, b]"] by simp
    moreover have "length (sort_group os [a, b]) = 2" using slice_sorter.srt_length [OF sg, of "[a, b]"] by simp
    then obtain x y where xy: "sort_group os [a, b] = [x, y]"
      by (auto simp: length_Suc_conv numeral_2_eq_2)
    ultimately have "sort_group os [a, b] = [a, b] \<or> sort_group os [a, b] = [b, a]"
      by (auto simp: add_eq_conv_ex)
    moreover have "\<not> rep_le b a" using assms(2) by (auto simp: rep_le_def a_def b_def)
    ultimately show ?thesis using slice_sorter.srt_sorted [OF sg, of "[a, b]"] by auto
  qed
  have key: "filter (\<lambda>r. rep_key r = (''A'', ''bot'')) (normalize_rep os [a, b]) = normalize_rep os [a, b]"
  proof (rule filter_True, rule ballI)
    fix m assume "m \<in> set (normalize_rep os [a, b])"
    from normalize_rep_origin [OF assms(1) this] show "rep_key m = (''A'', ''bot'')"
      unfolding u by (auto simp: rep_key_def a_def b_def split: if_splits)
  qed
  have "length (normalize_rep os [a, b]) = length (merge_group (sort_group os (filter (\<lambda>r. rep_key r = (''A'', ''bot'')) (usable_ranges [a, b]))))"
    using normalize_rep_key [OF assms(1), of "(''A'', ''bot'')" "[a, b]"] unfolding key by (metis size_mset)
  moreover have "filter (\<lambda>r. rep_key r = (''A'', ''bot'')) (usable_ranges [a, b]) = usable_ranges [a, b]"
    unfolding u by (simp add: rep_key_def a_def b_def)
  moreover have "s2 \<noteq> 0" using assms(2) by auto
  ultimately show ?thesis
    by (simp add: u one two a_def [symmetric] b_def [symmetric])
       (simp add: merge_group_def merge_from_Cons a_def b_def)
qed

theorem top_range_not_merged_witness:
  "length (normalize_rep std_orders [\<lparr>list_name = ''A'', category = ''bot'', rep_start = 1, rep_end = -1, source = ''url'', updated_at = 0\<rparr>,
       \<lparr>list_name = ''A'', category = ''bot'', rep_start = 5, rep_end = 9, source = ''url'', updated_at = 0\<rparr>]) = 2"
  using top_range_not_merged [OF std_orders_ok, of 1 5 9] by simp

text \<open>The summary counts. \<^verbatim>\<open>ListMeta\<close> returns one entry per list of the index, with the number
  of its ranges, the latest update among them (at least the zero time), and a source that is empty
  only if no range of the list has one.\<close>

theorem list_meta_correct:
  assumes "slice_sorter meta_le srt"
  shows "distinct (map meta_name (list_meta srt i))
    \<and> set (map meta_name (list_meta srt i)) = list_name ` set (rep_load i)
    \<and> sorted_wrt meta_le (list_meta srt i)
    \<and> list_all (\<lambda>a. let own = filter (\<lambda>r. list_name r = meta_name a) (rep_load i) in
         meta_count a = length own \<and> meta_updated a = fold max (map updated_at own) 0
       \<and> (meta_source a = []) = list_all (\<lambda>r. source r = []) own) (list_meta srt i)"
proof -
  define by_name where "by_name = fold meta_step (rep_load i) []"
  have inv: "meta_inv (rep_load i) by_name" unfolding by_name_def by (rule fold_meta_inv)
  then have ok: "gm_ok by_name" by (simp add: meta_inv_def)
  have entry: "meta_name a = n \<and> filter (\<lambda>r. list_name r = n) (rep_load i) \<noteq> []
      \<and> meta_count a = length (filter (\<lambda>r. list_name r = n) (rep_load i))
      \<and> meta_updated a = fold max (map updated_at (filter (\<lambda>r. list_name r = n) (rep_load i))) 0
      \<and> (meta_source a = []) = list_all (\<lambda>r. source r = []) (filter (\<lambda>r. list_name r = n) (rep_load i))"
    if "(n, a) \<in> set by_name" for n a
  proof -
    have "gm_get by_name n = Some a" using that ok by (simp add: gm_get_in)
    then show ?thesis using inv unfolding meta_inv_def Let_def by (metis (mono_tags, lifting) option.simps(5))
  qed
  have present: "\<exists>a. (list_name r, a) \<in> set by_name" if "r \<in> set (rep_load i)" for r
  proof -
    have "filter (\<lambda>x. list_name x = list_name r) (rep_load i) \<noteq> []" using that by (auto simp: filter_empty_conv)
    then have "gm_get by_name (list_name r) \<noteq> None" using meta_inv_None [OF inv] by blast
    then obtain a where "gm_get by_name (list_name r) = Some a" by auto
    then show ?thesis using gm_get_in [OF ok] by blast
  qed
  have names: "map meta_name (map snd by_name) = map fst by_name"
    using entry by auto
  have "mset (map meta_name (list_meta srt i)) = mset (map fst by_name)"
    unfolding list_meta_def by_name_def [symmetric] names [symmetric]
    by (simp add: slice_sorter.srt_mset [OF assms] multiset.map_comp)
  then have "distinct (map meta_name (list_meta srt i))" "set (map meta_name (list_meta srt i)) = fst ` set by_name"
    using ok mset_eq_imp_distinct_iff unfolding gm_ok_def by (blast, metis list.set_map set_mset_mset)
  moreover have "fst ` set by_name = list_name ` set (rep_load i)"
  proof
    show "fst ` set by_name \<subseteq> list_name ` set (rep_load i)"
    proof
      fix n assume "n \<in> fst ` set by_name"
      then obtain a where "(n, a) \<in> set by_name" by auto
      from entry [OF this] have "filter (\<lambda>r. list_name r = n) (rep_load i) \<noteq> []" by blast
      then obtain r where "r \<in> set (rep_load i)" "list_name r = n" by (auto simp: filter_empty_conv)
      then show "n \<in> list_name ` set (rep_load i)" by blast
    qed
    show "list_name ` set (rep_load i) \<subseteq> fst ` set by_name" using present by force
  qed
  moreover have "set (list_meta srt i) = snd ` set by_name"
    by (simp add: list_meta_def by_name_def [symmetric] slice_sorter.srt_set [OF assms])
  moreover have src: "\<exists>n. (n, a) \<in> set by_name" if "a \<in> set (list_meta srt i)" for a
  proof -
    have "a \<in> snd ` set by_name" using that \<open>set (list_meta srt i) = snd ` set by_name\<close> by blast
    then show ?thesis by (metis imageE prod.collapse)
  qed
  have "list_all (\<lambda>a. let own = filter (\<lambda>r. list_name r = meta_name a) (rep_load i) in
         meta_count a = length own \<and> meta_updated a = fold max (map updated_at own) 0
       \<and> (meta_source a = []) = list_all (\<lambda>r. source r = []) own) (list_meta srt i)"
    unfolding Let_def
  proof (rule list_all_iff [THEN iffD2], rule ballI)
    fix a assume "a \<in> set (list_meta srt i)"
    then obtain n where "(n, a) \<in> set by_name"
      using src by blast
    from entry [OF this] have "meta_name a = n" and "meta_count a = length (filter (\<lambda>r. list_name r = n) (rep_load i))
        \<and> meta_updated a = fold max (map updated_at (filter (\<lambda>r. list_name r = n) (rep_load i))) 0
        \<and> (meta_source a = []) = list_all (\<lambda>r. source r = []) (filter (\<lambda>r. list_name r = n) (rep_load i))"
      by blast+
    then show "meta_count a = length (filter (\<lambda>r. list_name r = meta_name a) (rep_load i))
        \<and> meta_updated a = fold max (map updated_at (filter (\<lambda>r. list_name r = meta_name a) (rep_load i))) 0
        \<and> (meta_source a = []) = list_all (\<lambda>r. source r = []) (filter (\<lambda>r. list_name r = meta_name a) (rep_load i))"
      by blast
  qed
  moreover have "sorted_wrt meta_le (list_meta srt i)"
    unfolding list_meta_def by (rule slice_sorter.srt_sorted [OF assms])
  ultimately show ?thesis by blast
qed

theorem list_meta_correct_witness:
  "set (map meta_name (list_meta (sort_by meta_le) (Some [ex_rep ''A'' 1 4, ex_rep ''B'' 2 3, ex_rep ''A'' 7 8]))) = {''A'', ''B''}"
  using list_meta_correct [OF meta_sort.slice_sorter_axioms, of "Some [ex_rep ''A'' 1 4, ex_rep ''B'' 2 3, ex_rep ''A'' 7 8]",
      THEN conjunct2, THEN conjunct1]
  by (simp add: rep_load_def ex_rep_def insert_commute)

end
