(* ===== verification/Login_Throttle.thy ===== *)
theory Login_Throttle
  imports IPv4 Go_Maps "HOL-Library.List_Lexorder" "HOL-Library.Char_ord"
begin

text \<open>
  Login throttling (\<^verbatim>\<open>httpapi/loginthrottle/limiter.go\<close>): failure buckets per address and per
  account with a lockout, the audit of failed logins, and the address of the client behind trusted
  proxies. Every operation of the code holds the mutex from start to end, so an operation is a
  function from the limiter to the limiter; the clock is an argument. The nil receiver is left out.
\<close>

section \<open>Data\<close>

record bucket =
  fails :: int
  window_at :: go_time
  locked_until :: go_time

record failed_login =
  ev_user :: string
  ev_ip :: string
  ev_count :: int
  first_at :: go_time
  last_at :: go_time
  ev_locked :: bool
  ev_until :: go_time

record limiter =
  attempts :: "(string, bucket) go_map"
  user_attempts :: "(string, bucket) go_map"
  failures :: "(string, failed_login) go_map"
  max_fails :: int
  window :: duration
  lockout :: duration
  retain :: duration
  max_audit :: nat

record policy =
  pol_max_fails :: int
  pol_window :: duration
  pol_lockout :: duration
  pol_window_sec :: int
  pol_lockout_sec :: int

definition new_limiter :: "int \<Rightarrow> duration \<Rightarrow> duration \<Rightarrow> limiter" where
  "new_limiter mf w lo =
     \<lparr>attempts = [], user_attempts = [], failures = [],
      max_fails = (if mf \<le> 0 then 10 else mf),
      window = (if w \<le> 0 then minute else w),
      lockout = (if lo \<le> 0 then 5 * minute else lo),
      retain = 24 * hour, max_audit = 200\<rparr>"

definition get_policy :: "limiter \<Rightarrow> policy" where
  "get_policy l = \<lparr>pol_max_fails = max_fails l, pol_window = window l, pol_lockout = lockout l,
     pol_window_sec = window l div second, pol_lockout_sec = lockout l div second\<rparr>"

definition set_policy :: "limiter \<Rightarrow> int \<Rightarrow> duration \<Rightarrow> duration \<Rightarrow> limiter" where
  "set_policy l mf w lo =
     (let l = (if mf > 0 then l\<lparr>max_fails := mf\<rparr> else l);
          l = (if w > 0 then l\<lparr>window := w\<rparr> else l)
      in (if lo > 0 then l\<lparr>lockout := lo\<rparr> else l))"

section \<open>Buckets\<close>

definition failure_key :: "string \<Rightarrow> string \<Rightarrow> string" where
  "failure_key username ip = to_lower (trim_space username) @ [byte 0] @ trim_space ip"

definition normalize_username :: "string \<Rightarrow> string" where
  "normalize_username username = to_lower (trim_space username)"

text \<open>The answers \<open>allow\<close> and \<open>stale\<close>.\<close>

definition bucket_allows :: "bucket option \<Rightarrow> go_time \<Rightarrow> duration \<Rightarrow> int \<Rightarrow> bool \<times> bool" where
  "bucket_allows bo now w mf = (case bo of
     None \<Rightarrow> (True, False)
   | Some b \<Rightarrow>
       if now < locked_until b then (False, False)
       else if time_sub now (window_at b) > w then (True, True)
       else (fails b < mf, False))"

definition bump_bucket ::
    "(string, bucket) go_map \<Rightarrow> string \<Rightarrow> go_time \<Rightarrow> duration \<Rightarrow> duration \<Rightarrow> int \<Rightarrow> (string, bucket) go_map" where
  "bump_bucket m key now w lo mf =
     (if key = [] then m
      else (case gm_get m key of
         None \<Rightarrow> gm_put key \<lparr>fails = 1, window_at = now, locked_until = 0\<rparr> m
       | Some b \<Rightarrow>
           if time_sub now (window_at b) > w then
             gm_put key \<lparr>fails = 1, window_at = now, locked_until = 0\<rparr> m
           else
             (let b = b\<lparr>fails := fails b + 1\<rparr>;
                  b = (if fails b \<ge> mf then b\<lparr>locked_until := now + lo\<rparr> else b)
              in gm_put key b m)))"

definition lock_state :: "bucket option \<Rightarrow> go_time \<Rightarrow> bool \<times> go_time" where
  "lock_state bo now = (case bo of
     None \<Rightarrow> (False, 0)
   | Some b \<Rightarrow> if now < locked_until b then (True, locked_until b) else (False, 0))"

definition gc_map :: "go_time \<Rightarrow> duration \<Rightarrow> nat \<Rightarrow> (string, bucket) go_map \<Rightarrow> (string, bucket) go_map" where
  "gc_map now w threshold m =
     (if length m < threshold then m
      else gm_filter (\<lambda>(k, b). \<not> (now > locked_until b \<and> time_sub now (window_at b) > w)) m)"

definition gc_locked :: "limiter \<Rightarrow> go_time \<Rightarrow> limiter" where
  "gc_locked l now = l\<lparr>attempts := gc_map now (window l) 1024 (attempts l),
     user_attempts := gc_map now (window l) 1024 (user_attempts l)\<rparr>"

section \<open>Allow\<close>

definition allow :: "limiter \<Rightarrow> go_time \<Rightarrow> string \<Rightarrow> string \<Rightarrow> bool \<times> limiter" where
  "allow l0 now ip username =
     (let l = gc_locked l0 now;
          (ok_ip, l) = (if ip \<noteq> [] then
             (let (al, stale) = bucket_allows (gm_get (attempts l) ip) now (window l) (max_fails l)
              in (al, if stale then l\<lparr>attempts := gm_del ip (attempts l)\<rparr> else l))
           else (True, l))
      in if \<not> ok_ip then (False, l)
         else let user = normalize_username username in
           if user \<noteq> [] then
             (let (al, stale) = bucket_allows (gm_get (user_attempts l) user) now (window l) (max_fails l)
              in (al, if stale then l\<lparr>user_attempts := gm_del user (user_attempts l)\<rparr> else l))
           else (True, l))"

section \<open>Audit\<close>

type_synonym audit_sort = "(string \<times> go_time) list \<Rightarrow> (string \<times> go_time) list"

definition at_le :: "string \<times> go_time \<Rightarrow> string \<times> go_time \<Rightarrow> bool" where
  "at_le a b \<longleftrightarrow> snd a \<le> snd b"

definition trim_audit :: "audit_sort \<Rightarrow> limiter \<Rightarrow> go_time \<Rightarrow> limiter" where
  "trim_audit srt l now =
     (let fs = gm_filter (\<lambda>(k, ev). \<not> time_sub now (last_at ev) > retain l) (failures l) in
      if length fs \<le> max_audit l then l\<lparr>failures := fs\<rparr>
      else
        (let list = srt (map (\<lambda>(k, ev). (k, last_at ev)) fs);
             drop = length list - max_audit l
         in l\<lparr>failures := fold (\<lambda>p m. gm_del (fst p) m) (take drop list) fs\<rparr>))"

definition joint_lock :: "limiter \<Rightarrow> go_time \<Rightarrow> string \<Rightarrow> string \<Rightarrow> bool \<times> go_time" where
  "joint_lock l now ip username =
     (let (locked, until) = lock_state (gm_get (attempts l) ip) now;
          (ulocked, uuntil) = lock_state (gm_get (user_attempts l) (normalize_username username)) now
      in if ulocked then (True, if uuntil > until then uuntil else until) else (locked, until))"

definition record_audit :: "audit_sort \<Rightarrow> limiter \<Rightarrow> go_time \<Rightarrow> string \<Rightarrow> string \<Rightarrow> limiter" where
  "record_audit srt l now ip0 username0 =
     (let username = trim_space username0; ip = trim_space ip0 in
      if username = [] \<and> ip = [] then l
      else let username = (if username = [] then ''(unknown)'' else username);
               key = failure_key username ip;
               (locked, until) = joint_lock l now ip username;
               ev = (case gm_get (failures l) key of
                  None \<Rightarrow> \<lparr>ev_user = username, ev_ip = ip, ev_count = 1, first_at = now, last_at = now,
                          ev_locked = locked, ev_until = until\<rparr>
                | Some ev \<Rightarrow> ev\<lparr>ev_count := ev_count ev + 1, last_at := now, ev_locked := locked,
                               ev_until := until\<rparr>)
           in trim_audit srt (l\<lparr>failures := gm_put key ev (failures l)\<rparr>) now)"

definition record_failure :: "audit_sort \<Rightarrow> limiter \<Rightarrow> go_time \<Rightarrow> string \<Rightarrow> string \<Rightarrow> limiter" where
  "record_failure srt l now ip username =
     (let l = l\<lparr>attempts := bump_bucket (attempts l) (trim_space ip) now (window l) (lockout l) (max_fails l)\<rparr>;
          l = l\<lparr>user_attempts := bump_bucket (user_attempts l) (normalize_username username) now
                 (window l) (lockout l) (max_fails l)\<rparr>
      in record_audit srt l now ip username)"

definition record_success :: "limiter \<Rightarrow> string \<Rightarrow> string \<Rightarrow> limiter" where
  "record_success l ip username =
     (let l = (if ip \<noteq> [] then l\<lparr>attempts := gm_del (trim_space ip) (attempts l)\<rparr> else l);
          user = normalize_username username
      in if user \<noteq> [] then l\<lparr>user_attempts := gm_del user (user_attempts l)\<rparr> else l)"

definition event_le :: "failed_login \<Rightarrow> failed_login \<Rightarrow> bool" where
  "event_le a b \<longleftrightarrow>
     (if last_at a \<noteq> last_at b then last_at a > last_at b
      else if ev_count a \<noteq> ev_count b then ev_count a > ev_count b
      else ev_user a \<le> ev_user b)"

definition snapshot_failures ::
    "audit_sort \<Rightarrow> (failed_login list \<Rightarrow> failed_login list) \<Rightarrow> limiter \<Rightarrow> go_time \<Rightarrow> failed_login list \<times> limiter" where
  "snapshot_failures srt out_srt l0 now =
     (let l = trim_audit srt l0 now;
          out = map (\<lambda>(k, ev). let (locked, until) = joint_lock l now (ev_ip ev) (ev_user ev)
                  in ev\<lparr>ev_locked := locked, ev_until := until\<rparr>) (failures l)
      in (out_srt out, l))"

section \<open>Trusted proxies\<close>

record ip_net =
  net_num :: net_ip
  net_mask :: net_ip

record trusted_set =
  nets :: "ip_net list"
  host_names :: "string list"
  host_ips :: "net_ip list"
  resolved_at :: go_time

text \<open>\<^verbatim>\<open>IPNet.Contains\<close>\<close>

definition net_contains :: "ip_net \<Rightarrow> net_ip \<Rightarrow> bool" where
  "net_contains n ip =
     (let nn = (if to4 (net_num n) \<noteq> [] then to4 (net_num n) else net_num n);
          m = net_mask n;
          m = (if length m = 16 \<and> length nn = 4 then drop 12 m else m);
          x = (if to4 ip \<noteq> [] then to4 ip else ip)
      in (length nn = 4 \<or> length nn = 16) \<and> length m = length nn \<and> length x = length nn
         \<and> list_all (\<lambda>i. nn ! i AND m ! i = x ! i AND m ! i) [0..<length x])"

definition parse_net :: "string \<Rightarrow> ip_net option" where
  "parse_net s = map_option (\<lambda>(ip, m). \<lparr>net_num = ip, net_mask = m\<rparr>) (parse_cidr s)"

definition loopback_nets :: "ip_net list" where
  "loopback_nets = List.map_filter parse_net [''127.0.0.0/8'', ''::1/128'']"

definition trusted_host_ttl :: duration where "trusted_host_ttl = 30 * second"

definition load_trusted :: "trusted_set option \<Rightarrow> go_time \<Rightarrow> trusted_set" where
  "load_trusted tp now = (case tp of Some t \<Rightarrow> t
     | None \<Rightarrow> \<lparr>nets = loopback_nets, host_names = [], host_ips = [], resolved_at = now\<rparr>)"

text \<open>resolveHosts; \<open>lookup\<close> is \<^verbatim>\<open>net.LookupHost\<close>.\<close>

definition resolve_hosts ::
    "(string \<Rightarrow> string list option) \<Rightarrow> go_time \<Rightarrow> trusted_set \<Rightarrow> net_ip list \<Rightarrow> trusted_set" where
  "resolve_hosts lookup now s prev =
     (let s = s\<lparr>resolved_at := now\<rparr> in
      if length (host_names s) = 0 then s
      else let ips = concat (map (\<lambda>name. case lookup name of
                  None \<Rightarrow> [] | Some addrs \<Rightarrow> filter (\<lambda>ip. ip \<noteq> []) (map parse_ip addrs)) (host_names s));
               ips = (if length ips = 0 \<and> length prev > 0 then prev else ips)
           in s\<lparr>host_ips := ips\<rparr>)"

text \<open>One entry of ConfigureTrustedProxies: the networks and the host names so far.\<close>

definition trust_entry :: "ip_net list \<times> string list \<Rightarrow> string \<Rightarrow> ip_net list \<times> string list" where
  "trust_entry st entry = (case st of (ns, hs) \<Rightarrow>
     let raw = trim_space entry in
     if raw = [] then (ns, hs)
     else if contains_str raw ''/'' then
       (case parse_net raw of None \<Rightarrow> (ns, hs) | Some n \<Rightarrow> (ns @ [n], hs))
     else if parse_ip raw \<noteq> [] then
       (let len = (if to4 (parse_ip raw) = [] then 16 else 4)
        in (ns @ [\<lparr>net_num = parse_ip raw, net_mask = cidr_mask (8 * len) len\<rparr>], hs))
     else
       (let name = to_lower raw in if name \<in> set hs then (ns, hs) else (ns, hs @ [name])))"

text \<open>The new set, and whether the background resolution is started.\<close>

definition configure_trusted ::
    "(string \<Rightarrow> string list option) \<Rightarrow> go_time \<Rightarrow> string list \<Rightarrow> trusted_set \<times> bool" where
  "configure_trusted lookup now entries =
     (let (ns, hs) = foldl trust_entry (loopback_nets, []) entries;
          next = resolve_hosts lookup now \<lparr>nets = ns, host_names = hs, host_ips = [], resolved_at = 0\<rparr> []
      in (next, length hs > 0 \<and> length (host_ips next) = 0))"

definition refresh_trusted_hosts ::
    "(string \<Rightarrow> string list option) \<Rightarrow> go_time \<Rightarrow> trusted_set option \<Rightarrow> trusted_set option" where
  "refresh_trusted_hosts lookup now cur = (case cur of
     None \<Rightarrow> None
   | Some c \<Rightarrow>
       if length (host_names c) = 0 then Some c
       else Some (resolve_hosts lookup now \<lparr>nets = nets c, host_names = host_names c, host_ips = [], resolved_at = 0\<rparr>
              (host_ips c)))"

definition needs_trusted_host_refresh :: "trusted_set \<Rightarrow> go_time \<Rightarrow> bool" where
  "needs_trusted_host_refresh tp now =
     (if length (host_names tp) = 0 then False
      else if length (host_ips tp) = 0 then True
      else time_sub now (resolved_at tp) > trusted_host_ttl)"

text \<open>isTrustedProxy: the answer, and whether a background refresh is asked for.\<close>

definition is_trusted_proxy :: "trusted_set option \<Rightarrow> go_time \<Rightarrow> string \<Rightarrow> bool \<times> bool" where
  "is_trusted_proxy tps now str =
     (let ip = parse_ip str in
      if ip = [] then (False, False)
      else let tp = load_trusted tps now in
      if list_ex (\<lambda>n. net_contains n ip) (nets tp) then (True, False)
      else if length (host_names tp) = 0 then (False, False)
      else (list_ex (\<lambda>h. h = ip) (host_ips tp), needs_trusted_host_refresh tp now))"

record request =
  remote_addr :: string
  x_real_ip :: string

definition remote_ip :: "request \<Rightarrow> string" where
  "remote_ip r = (case split_host_port (remote_addr r) of None \<Rightarrow> remote_addr r | Some (h, _) \<Rightarrow> h)"

text \<open>\<^verbatim>\<open>IP.String\<close>; the longest run of at least two zero groups of IPv6 is shortened.\<close>

definition hex_digit :: "nat \<Rightarrow> char" where
  "hex_digit d = (if d < 10 then byte (48 + d) else byte (87 + d))"

definition hex_group :: "nat \<Rightarrow> string" where
  "hex_group g = dropWhile (\<lambda>c. c = CHR ''0'') [hex_digit (g div 4096), hex_digit (g div 256 mod 16), hex_digit (g div 16 mod 16)]
     @ [hex_digit (g mod 16)]"

definition ip6_groups :: "net_ip \<Rightarrow> nat list" where
  "ip6_groups ip = map (\<lambda>i. unat (ip ! (2 * i)) * 256 + unat (ip ! (2 * i + 1))) [0..<8]"

definition zero_run :: "nat list \<Rightarrow> nat \<Rightarrow> nat" where
  "zero_run gs i = length (takeWhile (\<lambda>g. g = 0) (drop i gs))"

definition longest_zero_run :: "nat list \<Rightarrow> nat \<times> nat" where
  "longest_zero_run gs = foldl (\<lambda>(s, n) i. let l = zero_run gs i in if l \<ge> 2 \<and> l > n then (i, l) else (s, n)) (8, 0) [0..<8]"

fun join_colon :: "string list \<Rightarrow> string" where
  "join_colon [] = []"
| "join_colon [x] = x"
| "join_colon (x # xs) = x @ '':'' @ join_colon xs"

definition ip_string :: "net_ip \<Rightarrow> string" where
  "ip_string ip =
     (if to4 ip \<noteq> [] then dotted (to4 ip)
      else let gs = ip6_groups ip; (s, n) = longest_zero_run gs in
        if n = 0 then join_colon (map hex_group gs)
        else join_colon (map hex_group (take s gs)) @ ''::'' @ join_colon (map hex_group (drop (s + n) gs)))"

definition client_ip :: "trusted_set option \<Rightarrow> go_time \<Rightarrow> request option \<Rightarrow> string" where
  "client_ip tps now ro = (case ro of
     None \<Rightarrow> []
   | Some r \<Rightarrow>
       let remote = remote_ip r in
       if fst (is_trusted_proxy tps now remote) then
         (let xri = trim_space (x_real_ip r) in
          if xri \<noteq> [] then (let ip = parse_ip xri in if ip \<noteq> [] then ip_string ip else remote)
          else remote)
       else remote)"

definition request_from_trusted_hop :: "trusted_set option \<Rightarrow> go_time \<Rightarrow> request \<Rightarrow> bool" where
  "request_from_trusted_hop tps now r = fst (is_trusted_proxy tps now (remote_ip r))"

section \<open>Buckets over time\<close>

definition limiter_ok :: "limiter \<Rightarrow> bool" where
  "limiter_ok l \<longleftrightarrow> gm_ok (attempts l) \<and> gm_ok (user_attempts l) \<and> gm_ok (failures l)
     \<and> 0 < window l \<and> window l < max_duration \<and> 0 < lockout l"

lemma sub_gt: "0 < w \<Longrightarrow> w < max_duration \<Longrightarrow> time_sub a b > w \<longleftrightarrow> a - b > w"
  using time_sub_le_iff [of w a b] by (auto simp: min_duration_def)

text \<open>The verdict of a bucket.\<close>

definition bucket_ok :: "bucket option \<Rightarrow> go_time \<Rightarrow> duration \<Rightarrow> int \<Rightarrow> bool" where
  "bucket_ok bo now w mf \<longleftrightarrow> (case bo of None \<Rightarrow> True
     | Some b \<Rightarrow> locked_until b \<le> now \<and> (now - window_at b > w \<or> fails b < mf))"

lemma bucket_allows_ok: "0 < w \<Longrightarrow> w < max_duration \<Longrightarrow> fst (bucket_allows bo now w mf) = bucket_ok bo now w mf"
  by (auto simp: bucket_allows_def bucket_ok_def sub_gt split: option.splits)

lemma bucket_allows_stale: "0 < w \<Longrightarrow> w < max_duration \<Longrightarrow> snd (bucket_allows bo now w mf) \<longleftrightarrow>
    (\<exists>b. bo = Some b \<and> locked_until b \<le> now \<and> now - window_at b > w)"
  by (auto simp: bucket_allows_def sub_gt split: option.splits)

text \<open>A bucket that is removed as stale allows everything from then on.\<close>

lemma gc_map_get:
  assumes "gm_ok m" "0 < w" "w < max_duration" "now \<le> later"
  shows "bucket_ok (gm_get (gc_map now w th m) k) later w mf = bucket_ok (gm_get m k) later w mf"
proof -
  have "locked_until b \<le> later \<and> later - window_at b > w"
    if "now > locked_until b" "time_sub now (window_at b) > w" for b
    using that assms by (simp add: sub_gt)
  then show ?thesis using assms(1)
    by (auto simp: gc_map_def gm_get_filter bucket_ok_def split: option.splits)
qed

lemma gc_map_ok [simp]: "gm_ok m \<Longrightarrow> gm_ok (gc_map now w th m)"
  by (simp add: gc_map_def)

definition drop_stale :: "(string, bucket) go_map \<Rightarrow> string \<Rightarrow> go_time \<Rightarrow> duration \<Rightarrow> int \<Rightarrow> (string, bucket) go_map" where
  "drop_stale m k now w mf = (if snd (bucket_allows (gm_get m k) now w mf) then gm_del k m else m)"

lemma drop_stale_get:
  assumes "0 < w" "w < max_duration" "now \<le> later"
  shows "bucket_ok (gm_get (drop_stale m k now w mf) k') later w mf = bucket_ok (gm_get m k') later w mf"
  using assms by (auto simp: drop_stale_def bucket_allows_stale bucket_ok_def)

lemma drop_stale_ok [simp]: "gm_ok m \<Longrightarrow> gm_ok (drop_stale m k now w mf)"
  by (simp add: drop_stale_def)

lemma allow_eq:
  "allow l now ip username =
     (let a = gc_map now (window l) 1024 (attempts l); u = gc_map now (window l) 1024 (user_attempts l);
          user = normalize_username username;
          a' = (if ip = [] then a else drop_stale a ip now (window l) (max_fails l));
          ok_ip = (ip = [] \<or> fst (bucket_allows (gm_get a ip) now (window l) (max_fails l)));
          u' = (if \<not> ok_ip \<or> user = [] then u else drop_stale u user now (window l) (max_fails l))
      in (ok_ip \<and> (user = [] \<or> fst (bucket_allows (gm_get u user) now (window l) (max_fails l))),
          l\<lparr>attempts := a', user_attempts := u'\<rparr>))"
proof -
  define a where "a = gc_map now (window l) 1024 (attempts l)"
  define u where "u = gc_map now (window l) 1024 (user_attempts l)"
  obtain a1 s1 where 1: "bucket_allows (gm_get a ip) now (window l) (max_fails l) = (a1, s1)" by force
  obtain a2 s2 where 2: "bucket_allows (gm_get u (normalize_username username)) now (window l) (max_fails l) = (a2, s2)" by force
  have gc: "gc_locked l now = l\<lparr>attempts := a, user_attempts := u\<rparr>" by (simp add: gc_locked_def a_def u_def)
  show ?thesis unfolding a_def [symmetric] u_def [symmetric] allow_def gc
    by (cases l; cases "ip = []"; cases "normalize_username username = []"; cases a1)
      (use 1 2 in \<open>simp_all add: drop_stale_def Let_def\<close>)
qed

lemma allow_verdict:
  assumes "limiter_ok l"
  shows "fst (allow l now ip username) \<longleftrightarrow>
     (ip = [] \<or> bucket_ok (gm_get (attempts l) ip) now (window l) (max_fails l)) \<and>
     (normalize_username username = [] \<or>
        bucket_ok (gm_get (user_attempts l) (normalize_username username)) now (window l) (max_fails l))"
  using assms by (simp add: allow_eq Let_def limiter_ok_def bucket_allows_ok gc_map_get)

lemma allow_ok: "limiter_ok l \<Longrightarrow> limiter_ok (snd (allow l now ip username))"
  by (simp add: allow_eq Let_def limiter_ok_def)

lemma allow_later:
  assumes "limiter_ok l" "now \<le> later"
  shows "bucket_ok (gm_get (attempts (snd (allow l now ip username))) k) later (window l) (max_fails l) =
      bucket_ok (gm_get (attempts l) k) later (window l) (max_fails l)"
    and "bucket_ok (gm_get (user_attempts (snd (allow l now ip username))) k) later (window l) (max_fails l) =
      bucket_ok (gm_get (user_attempts l) k) later (window l) (max_fails l)"
    and "window (snd (allow l now ip username)) = window l" "max_fails (snd (allow l now ip username)) = max_fails l"
  using assms by (simp_all add: allow_eq Let_def limiter_ok_def gc_map_get drop_stale_get)

section \<open>Failures\<close>

lemma trim_audit_fields [simp]:
  "attempts (trim_audit srt l now) = attempts l" "user_attempts (trim_audit srt l now) = user_attempts l"
  "window (trim_audit srt l now) = window l" "max_fails (trim_audit srt l now) = max_fails l"
  "lockout (trim_audit srt l now) = lockout l" "max_audit (trim_audit srt l now) = max_audit l"
  by (simp_all add: trim_audit_def Let_def)

lemma record_audit_fields [simp]:
  "attempts (record_audit srt l now ip u) = attempts l" "user_attempts (record_audit srt l now ip u) = user_attempts l"
  "window (record_audit srt l now ip u) = window l" "max_fails (record_audit srt l now ip u) = max_fails l"
  "lockout (record_audit srt l now ip u) = lockout l" "max_audit (record_audit srt l now ip u) = max_audit l"
  by (simp_all add: record_audit_def Let_def split: prod.splits)

lemma fold_del_filter: "fold gm_del ks m = filter (\<lambda>(k, v). k \<notin> set ks) m"
proof (induction ks arbitrary: m)
  case Nil
  then show ?case by (induction m) auto
next
  case (Cons k ks)
  have "gm_del k m = filter (\<lambda>(k', v). k' \<noteq> k) m" by (auto simp: AList.delete_eq intro!: filter_cong)
  then show ?case using Cons [of "gm_del k m"] by (auto intro!: filter_cong)
qed

lemma fold_del_ok [simp]: "gm_ok m \<Longrightarrow> gm_ok (fold (\<lambda>p m. gm_del (fst p) m) ps m)"
  by (induction ps arbitrary: m) auto

lemma trim_audit_ok: "gm_ok (failures l) \<Longrightarrow> gm_ok (failures (trim_audit srt l now))"
  by (simp add: trim_audit_def Let_def)

lemma record_audit_ok: "gm_ok (failures l) \<Longrightarrow> gm_ok (failures (record_audit srt l now ip u))"
  by (auto simp: record_audit_def Let_def trim_audit_ok split: prod.splits)

lemma bump_bucket_ok [simp]: "gm_ok m \<Longrightarrow> gm_ok (bump_bucket m k now w lo mf)"
  by (auto simp: bump_bucket_def Let_def split: option.splits)

lemma record_failure_ok: "limiter_ok l \<Longrightarrow> limiter_ok (record_failure srt l now ip u)"
  by (simp add: record_failure_def Let_def limiter_ok_def record_audit_ok)

lemma record_failure_fields [simp]:
  "attempts (record_failure srt l now ip u) = bump_bucket (attempts l) (trim_space ip) now (window l) (lockout l) (max_fails l)"
  "user_attempts (record_failure srt l now ip u) = bump_bucket (user_attempts l) (normalize_username u) now (window l) (lockout l) (max_fails l)"
  "window (record_failure srt l now ip u) = window l" "max_fails (record_failure srt l now ip u) = max_fails l"
  "lockout (record_failure srt l now ip u) = lockout l"
  by (simp_all add: record_failure_def Let_def)

text \<open>
  A login that fails: the handler asks \<^verbatim>\<open>Allow\<close>, and records a failure when it refuses as well as when the password is
  wrong. A run of them: times, addresses and account names as typed.
\<close>

definition failed_attempt :: "audit_sort \<Rightarrow> limiter \<Rightarrow> go_time \<Rightarrow> string \<Rightarrow> string \<Rightarrow> limiter" where
  "failed_attempt srt l t ip u = record_failure srt (snd (allow l t ip u)) t ip u"

definition fail_all :: "audit_sort \<Rightarrow> (go_time \<times> string \<times> string) list \<Rightarrow> limiter \<Rightarrow> limiter" where
  "fail_all srt evs l = fold (\<lambda>(t, ip, u) l. failed_attempt srt l t ip u) evs l"

lemma allow_fields [simp]:
  "window (snd (allow l t ip u)) = window l" "max_fails (snd (allow l t ip u)) = max_fails l" "lockout (snd (allow l t ip u)) = lockout l"
  by (simp_all add: allow_eq Let_def)

lemma failed_attempt_fields [simp]:
  "window (failed_attempt srt l t ip u) = window l" "max_fails (failed_attempt srt l t ip u) = max_fails l"
  "lockout (failed_attempt srt l t ip u) = lockout l"
  by (simp_all add: failed_attempt_def)

lemma fail_all_fields:
  "limiter_ok l \<Longrightarrow> limiter_ok (fail_all srt evs l)"
  "window (fail_all srt evs l) = window l" "max_fails (fail_all srt evs l) = max_fails l"
  "lockout (fail_all srt evs l) = lockout l"
proof -
  show "limiter_ok l \<Longrightarrow> limiter_ok (fail_all srt evs l)"
    unfolding fail_all_def by (induction evs arbitrary: l) (auto simp: failed_attempt_def intro!: record_failure_ok allow_ok)
  show "window (fail_all srt evs l) = window l" "max_fails (fail_all srt evs l) = max_fails l"
    "lockout (fail_all srt evs l) = lockout l"
    unfolding fail_all_def by (induction evs arbitrary: l) auto
qed

text \<open>Inside its window \<^verbatim>\<open>Allow\<close> keeps a bucket, and it never makes one.\<close>

lemma allow_bucket:
  assumes "limiter_ok l" "\<And>b. gm_get (user_attempts l) user = Some b \<Longrightarrow> t - window_at b \<le> window l"
  shows "gm_get (user_attempts (snd (allow l t ip u))) user = gm_get (user_attempts l) user"
proof -
  note ok = assms(1) [unfolded limiter_ok_def]
  have g: "gm_get (gc_map t (window l) 1024 (user_attempts l)) user = gm_get (user_attempts l) user"
    using assms(2) ok by (auto simp: gc_map_def gm_get_filter sub_gt not_less split: option.splits)
  have d: "gm_get (drop_stale m k t (window l) mf) user = gm_get m user" if "gm_get m user = gm_get (user_attempts l) user" for m k mf
  proof (cases "user = k \<and> snd (bucket_allows (gm_get m k) t (window l) mf)")
    case True
    then obtain b where "gm_get m k = Some b" "t - window_at b > window l" using ok by (auto simp: bucket_allows_stale)
    then show ?thesis using assms(2) [of b] that True by simp
  next
    case False
    then show ?thesis using that by (auto simp: drop_stale_def)
  qed
  show ?thesis using g d [OF g] by (simp add: allow_eq Let_def)
qed

lemma fail_all_bucket:
  assumes "limiter_ok l" "user \<noteq> []" "gm_get (user_attempts l) user = None" "evs \<noteq> []"
    "\<forall>(t, ip, u) \<in> set evs. normalize_username u = user \<and> t - fst (hd evs) \<le> window l"
  shows "gm_get (user_attempts (fail_all srt evs l)) user =
     Some \<lparr>fails = int (length evs), window_at = fst (hd evs),
       locked_until = (if length evs \<ge> 2 \<and> int (length evs) \<ge> max_fails l then fst (last evs) + lockout l else 0)\<rparr>"
  using assms(4,5)
proof (induction evs rule: rev_nonempty_induct)
  case (single e)
  then show ?case using assms(1-3) allow_bucket [OF assms(1), of user]
    by (auto simp: fail_all_def failed_attempt_def bump_bucket_def split: prod.splits)
next
  case (snoc e evs)
  obtain t ip u where e: "e = (t, ip, u)" by (cases e) auto
  have hd: "hd (evs @ [e]) = hd evs" using snoc.hyps by simp
  have all: "\<forall>(t, ip, u) \<in> set (evs @ [e]). normalize_username u = user \<and> t - fst (hd evs) \<le> window l"
    using snoc.prems by (simp only: hd)
  let ?l = "fail_all srt evs l"
  have IH: "gm_get (user_attempts ?l) user =
     Some \<lparr>fails = int (length evs), window_at = fst (hd evs),
       locked_until = (if length evs \<ge> 2 \<and> int (length evs) \<ge> max_fails l then fst (last evs) + lockout l else 0)\<rparr>"
    using all by (intro snoc.IH) auto
  have u: "normalize_username u = user" and t: "t - fst (hd evs) \<le> window l"
    using all by (auto simp: e)
  have "gm_get (user_attempts (snd (allow ?l t ip u))) user = gm_get (user_attempts ?l) user"
    by (rule allow_bucket [OF fail_all_fields(1) [OF assms(1)]]) (use IH t in \<open>auto simp: fail_all_fields\<close>)
  note IH' = IH [folded this]
  have "\<not> time_sub t (fst (hd evs)) > window l"
    using t assms(1) by (simp add: limiter_ok_def sub_gt)
  moreover have "fail_all srt (evs @ [e]) l = record_failure srt (snd (allow ?l t ip u)) t ip u"
    by (simp add: fail_all_def failed_attempt_def e)
  moreover have "1 \<le> length evs" using snoc.hyps by (cases evs) auto
  ultimately show ?case
    using IH' u assms(2) hd by (auto simp: fail_all_fields bump_bucket_def Let_def e)
qed

text \<open>
  A refused attempt is recorded too. When it comes after the window of the failures, but still during the lockout, the
  bucket starts anew and the lock is gone: the account is asked again long before the lockout has passed.
\<close>

lemma refused_attempt_lifts_lock:
  assumes "limiter_ok l" "user \<noteq> []" "gm_get (user_attempts l) user = Some b" "t < locked_until b" "t - window_at b > window l"
    "normalize_username u = user" "2 \<le> max_fails l" "0 \<le> t"
  shows "\<not> fst (allow l t ip u)"
    "gm_get (user_attempts (failed_attempt srt l t ip u)) user = Some \<lparr>fails = 1, window_at = t, locked_until = 0\<rparr>"
    "t \<le> t' \<Longrightarrow> fst (allow (failed_attempt srt l t ip u) t' [] u)"
proof -
  note ok = assms(1) [unfolded limiter_ok_def]
  show "\<not> fst (allow l t ip u)" using assms by (simp add: allow_verdict bucket_ok_def)
  have g: "gm_get (gc_map t (window l) 1024 (user_attempts l)) user = Some b"
    using assms(3,4) ok by (auto simp: gc_map_def gm_get_filter)
  have "gm_get (drop_stale m k t (window l) mf) user = Some b" if "gm_get m user = Some b" for m k mf
    using that assms(4) ok by (auto simp: drop_stale_def bucket_allows_stale)
  then have k: "gm_get (user_attempts (snd (allow l t ip u))) user = Some b" using g by (simp add: allow_eq Let_def)
  then show f: "gm_get (user_attempts (failed_attempt srt l t ip u)) user = Some \<lparr>fails = 1, window_at = t, locked_until = 0\<rparr>"
    using assms(2,5,6) ok by (simp add: failed_attempt_def bump_bucket_def sub_gt)
  have "limiter_ok (failed_attempt srt l t ip u)" using assms(1) by (simp add: failed_attempt_def record_failure_ok allow_ok)
  then show "fst (allow (failed_attempt srt l t ip u) t' [] u)" if "t \<le> t'"
    using that f assms(2,6-8) by (simp add: allow_verdict bucket_ok_def)
qed

section \<open>Trimming the audit\<close>

lemma at_le_order: "transp at_le" "totalp at_le" "reflp at_le"
proof -
  show "transp at_le" by (rule transpI) (auto simp: at_le_def)
  show "totalp at_le" by (rule totalpI) (auto simp: at_le_def)
  show "reflp at_le" by (rule reflpI) (simp add: at_le_def)
qed

interpretation audit_sort: slice_sorter at_le "sort_by at_le"
  by (rule slice_sorter_sort_by) (rule at_le_order)+

lemma filter_keys_length:
  assumes "gm_ok m" "distinct ks" "set ks \<subseteq> fst ` set m"
  shows "length (filter (\<lambda>(k, v). k \<notin> set ks) m) + length ks = length m"
proof -
  have d: "distinct (map fst m)" using assms(1) by (simp add: gm_ok_def)
  have "length (filter (\<lambda>(k, v). k \<notin> set ks) m) = card (fst ` set m - set ks)"
  proof -
    have "map fst (filter (\<lambda>(k, v). k \<notin> set ks) m) = filter (\<lambda>k. k \<notin> set ks) (map fst m)"
      by (induction m) auto
    then have "length (filter (\<lambda>(k, v). k \<notin> set ks) m) = length (filter (\<lambda>k. k \<notin> set ks) (map fst m))"
      by (metis length_map)
    also have "\<dots> = card (set (filter (\<lambda>k. k \<notin> set ks) (map fst m)))"
      by (rule distinct_card [symmetric]) (rule distinct_filter [OF d])
    also have "set (filter (\<lambda>k. k \<notin> set ks) (map fst m)) = fst ` set m - set ks" by auto
    finally show ?thesis .
  qed
  moreover have "card (fst ` set m) = length m" using d by (metis distinct_card length_map list.set_map)
  moreover have "card (set ks) = length ks" using assms(2) by (rule distinct_card)
  moreover have "card (fst ` set m - set ks) = card (fst ` set m) - card (set ks)"
    by (rule card_Diff_subset) (use assms(3) in auto)
  moreover have "card (set ks) \<le> card (fst ` set m)" by (rule card_mono) (use assms(3) in auto)
  ultimately show ?thesis by simp
qed

lemma trim_audit_spec:
  assumes srt: "slice_sorter at_le srt" and ok: "gm_ok (failures l)"
  shows "length (failures (trim_audit srt l now)) \<le> max_audit l"
    and "(k, ev) \<in> set (failures (trim_audit srt l now)) \<Longrightarrow>
      (k, ev) \<in> set (failures l) \<and> \<not> time_sub now (last_at ev) > retain l"
    and "(k, ev) \<in> set (failures l) \<Longrightarrow> (k, ev) \<notin> set (failures (trim_audit srt l now)) \<Longrightarrow>
      time_sub now (last_at ev) > retain l \<or>
      length (failures (trim_audit srt l now)) = max_audit l \<and>
      (\<forall>(k', ev') \<in> set (failures (trim_audit srt l now)). last_at ev \<le> last_at ev')"
proof -
  define fs where "fs = gm_filter (\<lambda>(k, ev). \<not> time_sub now (last_at ev) > retain l) (failures l)"
  have fs: "gm_ok fs" "(k, ev) \<in> set fs \<longleftrightarrow> (k, ev) \<in> set (failures l) \<and> \<not> time_sub now (last_at ev) > retain l" for k ev
    using ok by (auto simp: fs_def) (auto simp: gm_filter_def)
  define list where "list = srt (map (\<lambda>(k, ev). (k, last_at ev)) fs)"
  define cut where "cut = length list - max_audit l"
  define ks where "ks = map fst (take cut list)"
  have perm: "mset list = mset (map (\<lambda>(k, ev). (k, last_at ev)) fs)"
    unfolding list_def by (rule slice_sorter.srt_mset [OF srt])
  then have len: "length list = length fs" by (metis length_map size_mset)
  have lset: "(k, t) \<in> set list \<longleftrightarrow> (\<exists>ev. (k, ev) \<in> set fs \<and> t = last_at ev)" for k t
  proof -
    have "set list = set (map (\<lambda>(k, ev). (k, last_at ev)) fs)" using perm by (rule mset_eq_setD)
    then show ?thesis by (force simp: image_iff)
  qed
  have "mset (map fst list) = mset (map fst fs)"
    using perm by (simp add: multiset.map_comp o_def split_beta)
  then have dist: "distinct (map fst list)" and keys: "set (map fst list) = fst ` set fs"
    using fs(1) mset_eq_imp_distinct_iff mset_eq_setD unfolding gm_ok_def by (blast, metis list.set_map)
  have sorted: "sorted_wrt at_le list" unfolding list_def by (rule slice_sorter.srt_sorted [OF srt])
  have split: "list = take cut list @ drop cut list" by simp
  have fail: "failures (trim_audit srt l now) =
      (if length fs \<le> max_audit l then fs else filter (\<lambda>(k, v). k \<notin> set ks) fs)"
  proof -
    have "fold (\<lambda>p m. gm_del (fst p) m) ps m = fold gm_del (map fst ps) m" for ps :: "(string \<times> go_time) list" and m :: "(string, failed_login) go_map"
      by (simp add: fold_map o_def)
    then show ?thesis
      by (simp add: trim_audit_def Let_def fs_def [symmetric] list_def [symmetric] cut_def [symmetric]
          ks_def fold_del_filter del: set_map)
  qed
  have ksub: "distinct ks" "set ks \<subseteq> fst ` set fs"
  proof -
    show "distinct ks" using dist unfolding ks_def take_map [symmetric] by (rule distinct_take)
    show "set ks \<subseteq> fst ` set fs" using keys unfolding ks_def take_map [symmetric] by (metis set_take_subset)
  qed
  have over: "length (filter (\<lambda>(k, v). k \<notin> set ks) fs) = max_audit l" if "\<not> length fs \<le> max_audit l"
  proof -
    have "length ks = length fs - max_audit l" by (simp add: ks_def cut_def len)
    with filter_keys_length [OF fs(1) ksub] that show ?thesis by simp
  qed
  show "length (failures (trim_audit srt l now)) \<le> max_audit l" using fail over by simp
  show "(k, ev) \<in> set (failures l) \<and> \<not> time_sub now (last_at ev) > retain l"
    if "(k, ev) \<in> set (failures (trim_audit srt l now))"
    using that fs(2) by (auto simp: fail split: if_splits)
  show "time_sub now (last_at ev) > retain l \<or>
      length (failures (trim_audit srt l now)) = max_audit l \<and>
      (\<forall>(k', ev') \<in> set (failures (trim_audit srt l now)). last_at ev \<le> last_at ev')"
    if in_l: "(k, ev) \<in> set (failures l)" and gone: "(k, ev) \<notin> set (failures (trim_audit srt l now))"
  proof (cases "time_sub now (last_at ev) > retain l")
    case False
    with in_l fs(2) have in_fs: "(k, ev) \<in> set fs" by blast
    with gone fail have big: "\<not> length fs \<le> max_audit l" and "k \<in> set ks" by (auto split: if_splits)
    then obtain t where t: "(k, t) \<in> set (take cut list)" by (auto simp: ks_def)
    then have "(k, t) \<in> set list" by (rule in_set_takeD)
    then obtain ev0 where "(k, ev0) \<in> set fs" "t = last_at ev0" using lset by blast
    then have tev: "t = last_at ev" using in_fs fs(1) by (metis gm_get_in option.inject)
    have "last_at ev \<le> last_at ev'" if kept: "(k', ev') \<in> set (failures (trim_audit srt l now))" for k' ev'
    proof -
      have "(k', ev') \<in> set fs" "k' \<notin> set ks" using kept fail big by auto
      then have "(k', last_at ev') \<in> set list" using lset by blast
      with \<open>k' \<notin> set ks\<close> have "(k', last_at ev') \<in> set (drop cut list)"
        by (metis (no_types, lifting) Un_iff append_take_drop_id fst_conv image_eqI ks_def list.set_map set_append)
      with t sorted split have "at_le (k, t) (k', last_at ev')"
        by (metis sorted_wrt_append)
      then show ?thesis by (simp add: at_le_def tev)
    qed
    with big fail over show ?thesis by auto
  qed simp
qed

section \<open>Trusted hops\<close>

lemma replicate_eq: "replicate (numeral n) x = x # replicate (pred_numeral n) x"
  by (simp add: numeral_eq_Suc)

lemma parse_cidr_parts:
  assumes "cut_at (CHR ''/'') s = Some (addr, msk)" "addr_kind addr = k" "parse_ip addr = ip" "ip \<noteq> []"
    "dtoi 0 msk = Some (n, [])" "msk \<noteq> []" "n \<le> 8 * (if k = Kind4 then 4 else 16)"
  shows "parse_cidr s = Some (ip_mask ip (cidr_mask n (if k = Kind4 then 4 else 16)), cidr_mask n (if k = Kind4 then 4 else 16))"
  using assms by (simp add: parse_cidr_def Let_def)

lemma parse_loopback4: "parse_cidr ''127.0.0.0/8'' = Some ([127, 0, 0, 0], [255, 0, 0, 0])"
proof -
  have c: "cut_at (CHR ''/'') ''127.0.0.0/8'' = Some (''127.0.0.0'', ''8'')" by simp
  have k: "addr_kind ''127.0.0.0'' = Kind4" by simp
  have p: "parse_ip ''127.0.0.0'' = v4_prefix @ [127, 0, 0, 0]" by code_simp
  have d: "dtoi 0 ''8'' = Some (8, [])" by (simp add: is_digit_def digit_val_def code_def)
  have m: "cidr_mask 8 4 = [255, 0, 0, 0]" by (simp add: cidr_mask_def upt_rec)
  show ?thesis using parse_cidr_parts [OF c k p _ d] by (simp add: m ip_mask_def v4_prefix_def)
qed
lemma parse_loopback6: "parse_cidr ''::1/128'' = Some ([0, 0, 0, 0, 0, 0, 0, 0, 0, 0, 0, 0, 0, 0, 0, 1], [255, 255, 255, 255, 255, 255, 255, 255, 255, 255, 255, 255, 255, 255, 255, 255])"
proof -
  have c: "cut_at (CHR ''/'') ''::1/128'' = Some (''::1'', ''128'')" by simp
  have k: "addr_kind ''::1'' = Kind6" by simp
  have p: "parse_ip ''::1'' = [0, 0, 0, 0, 0, 0, 0, 0, 0, 0, 0, 0, 0, 0, 0, 1]"
    by (simp add: parse_ip_def parse_ipv6_def has_prefix_def ipv6_finish_def ipv6_groups.simps hex_val_def is_digit_def digit_val_def code_def replicate_eq)
  have d: "dtoi 0 ''128'' = Some (128, [])" by (simp add: is_digit_def digit_val_def code_def)
  have m: "cidr_mask 128 16 = [255, 255, 255, 255, 255, 255, 255, 255, 255, 255, 255, 255, 255, 255, 255, 255]" by (simp add: cidr_mask_def upt_rec)
  show ?thesis using parse_cidr_parts [OF c k p _ d] by (simp add: m ip_mask_def v4_prefix_def)
qed

lemma loopback_nets_eq: "loopback_nets =
    [\<lparr>net_num = [127, 0, 0, 0], net_mask = [255, 0, 0, 0]\<rparr>,
     \<lparr>net_num = [0, 0, 0, 0, 0, 0, 0, 0, 0, 0, 0, 0, 0, 0, 0, 1], net_mask = [255, 255, 255, 255, 255, 255, 255, 255, 255, 255, 255, 255, 255, 255, 255, 255]\<rparr>]"
  by (simp add: loopback_nets_def parse_net_def parse_loopback4 parse_loopback6 map_filter_simps)

lemma trust_entry_nets: "\<exists>t. fst (foldl trust_entry (ns, hs) es) = ns @ t"
proof (induction es arbitrary: ns hs)
  case (Cons e es)
  have "\<exists>t. fst (trust_entry (ns, hs) e) = ns @ t"
    by (auto simp: trust_entry_def Let_def split: option.splits)
  then obtain t where "fst (trust_entry (ns, hs) e) = ns @ t" by blast
  with Cons [of "ns @ t" "snd (trust_entry (ns, hs) e)"] show ?case
    by (metis append.assoc foldl_Cons prod.collapse)
qed simp

lemma resolve_hosts_nets [simp]: "nets (resolve_hosts lookup now s prev) = nets s"
  by (simp add: resolve_hosts_def Let_def)

lemma configured_nets: "\<exists>t. nets (fst (configure_trusted lookup now entries)) = loopback_nets @ t"
  using trust_entry_nets [of loopback_nets "[]" entries]
  by (auto simp: configure_trusted_def Let_def split: prod.splits)

lemma list4: "length q = 4 \<Longrightarrow> \<exists>a b c d. q = [a, b, c, d]"
  by (auto simp: length_Suc_conv numeral_eq_Suc)

lemma loopback_contains: "to4 ip = [127, b, c, d] \<Longrightarrow> net_contains (hd loopback_nets) ip"
  by (simp add: loopback_nets_eq net_contains_def Let_def to4_def upt_rec)

section \<open>Properties\<close>

text \<open>C21: Lockout of an account. From any state without a bucket for the account, with \<^verbatim>\<open>maxFails\<close> at least two, a run of at least
  \<^verbatim>\<open>maxFails\<close> failed logins for it within one window of the first of them (refused ones included, from any addresses and
  however the name is written) makes \<^verbatim>\<open>Allow\<close> refuse the account, from every address, until the
  lockout after the last failure has passed, as long as no further login for it is tried. A further one within the window
  belongs to the run; one after the window, though refused, lifts the lock (\<open>refused_attempt_lifts_lock\<close>).\<close>

theorem lockout_holds:
  assumes "limiter_ok l" "2 \<le> max_fails l" "user \<noteq> []" "gm_get (user_attempts l) user = None"
    "max_fails l \<le> int (length evs)"
    "\<forall>(t, ip, u) \<in> set evs. normalize_username u = user \<and> t - fst (hd evs) \<le> window l"
    "normalize_username name = user" "now < fst (last evs) + lockout l"
  shows "\<not> fst (allow (fail_all srt evs l) now addr name)"
proof -
  have ne: "evs \<noteq> []" "2 \<le> length evs" using assms(2,5) by auto
  have "gm_get (user_attempts (fail_all srt evs l)) user =
     Some \<lparr>fails = int (length evs), window_at = fst (hd evs), locked_until = fst (last evs) + lockout l\<rparr>"
    using fail_all_bucket [OF assms(1,3,4) ne(1) assms(6)] ne assms(5) by simp
  then show ?thesis
    using assms(3,7,8) by (simp add: allow_verdict [OF fail_all_fields(1) [OF assms(1)]] bucket_ok_def)
qed

theorem lockout_holds_witness:
  "\<not> fst (allow (fail_all (sort_by at_le)
       [(1000, ''1.2.3.4'', ''Bob''), (2000, ''5.6.7.8'', ''bob ''), (3000, ''9.9.9.9'', '' BOB'')]
       (new_limiter 3 minute (5 * minute))) 4000 ''7.7.7.7'' ''bob'')"
proof (rule lockout_holds)
  have n: "normalize_username ''Bob'' = ''bob''" "normalize_username ''bob '' = ''bob''"
      "normalize_username '' BOB'' = ''bob''" by code_simp+
  show "limiter_ok (new_limiter 3 minute (5 * minute))"
    by (simp add: limiter_ok_def new_limiter_def duration_defs max_duration_def)
  show "2 \<le> max_fails (new_limiter 3 minute (5 * minute))" by (simp add: new_limiter_def)
  show "''bob'' \<noteq> []" by simp
  show "gm_get (user_attempts (new_limiter 3 minute (5 * minute))) ''bob'' = None" by (simp add: new_limiter_def)
  show "max_fails (new_limiter 3 minute (5 * minute)) \<le>
      int (length [(1000, ''1.2.3.4'', ''Bob''), (2000, ''5.6.7.8'', ''bob ''), (3000, ''9.9.9.9'', '' BOB'')])"
    by (simp add: new_limiter_def)
  show "\<forall>(t, ip, u) \<in> set [(1000, ''1.2.3.4'', ''Bob''), (2000, ''5.6.7.8'', ''bob ''), (3000, ''9.9.9.9'', '' BOB'')].
      normalize_username u = ''bob'' \<and>
      t - fst (hd [(1000, ''1.2.3.4'', ''Bob''), (2000, ''5.6.7.8'', ''bob ''), (3000, ''9.9.9.9'', '' BOB'')])
        \<le> window (new_limiter 3 minute (5 * minute))"
    by (simp add: n new_limiter_def duration_defs)
  show "normalize_username ''bob'' = ''bob''" by code_simp
  show "(4000 :: int) < fst (last [(1000, ''1.2.3.4'', ''Bob''), (2000, ''5.6.7.8'', ''bob ''), (3000, ''9.9.9.9'', '' BOB'')])
      + lockout (new_limiter 3 minute (5 * minute))"
    by (simp add: new_limiter_def duration_defs)
qed

text \<open>What \<^verbatim>\<open>Allow\<close> decides, and that its cleaning cannot be observed. \<^verbatim>\<open>Allow\<close> accepts
  exactly if neither the bucket of the address nor that of the normalized account is locked or, inside
  its window, at the limit; the removal of stale buckets during one call, by the collection of a
  large map or for the asked keys, changes no decision of a later call.\<close>

theorem allow_correct:
  assumes "limiter_ok l" "now \<le> later"
  shows "fst (allow l now ip name) =
      ((ip = [] \<or> bucket_ok (gm_get (attempts l) ip) now (window l) (max_fails l)) \<and>
       (normalize_username name = [] \<or>
          bucket_ok (gm_get (user_attempts l) (normalize_username name)) now (window l) (max_fails l)))
    \<and> fst (allow (snd (allow l now ip name)) later ip' name') = fst (allow l later ip' name')"
  unfolding allow_verdict [OF assms(1)] allow_verdict [OF allow_ok [OF assms(1)]] allow_later [OF assms]
  by blast

theorem allow_correct_witness:
  "fst (allow (new_limiter 3 minute minute) 5 ''1.1.1.1'' ''bob'')"
proof -
  have "limiter_ok (new_limiter 3 minute minute)"
    by (simp add: limiter_ok_def new_limiter_def duration_defs max_duration_def)
  from allow_correct [OF this, of 5 5 "''1.1.1.1''" "''bob''"] show ?thesis
    by (simp add: new_limiter_def bucket_ok_def)
qed

text \<open>The audit of failed logins stays bounded and loses the oldest first. After trimming at
  most \<^verbatim>\<open>maxAudit\<close> entries remain, all from before the trimming and within the retention time; an
  entry that went away was too old, or the audit is exactly full and no remaining entry is older.\<close>

theorem audit_bounded:
  assumes "slice_sorter at_le srt" "gm_ok (failures l)"
  shows "length (failures (trim_audit srt l now)) \<le> max_audit l
    \<and> (\<forall>(k, ev) \<in> set (failures (trim_audit srt l now)). (k, ev) \<in> set (failures l) \<and> \<not> time_sub now (last_at ev) > retain l)
    \<and> (\<forall>(k, ev) \<in> set (failures l) - set (failures (trim_audit srt l now)).
        time_sub now (last_at ev) > retain l \<or> length (failures (trim_audit srt l now)) = max_audit l
        \<and> (\<forall>(k', ev') \<in> set (failures (trim_audit srt l now)). last_at ev \<le> last_at ev'))"
  using trim_audit_spec [OF assms, where now = now] by blast

definition ex_event :: "go_time \<Rightarrow> failed_login" where
  "ex_event t = \<lparr>ev_user = ''u'', ev_ip = ''i'', ev_count = 1, first_at = t, last_at = t, ev_locked = False, ev_until = 0\<rparr>"

theorem audit_bounded_witness:
  "length (failures (trim_audit (sort_by at_le)
     ((new_limiter 3 minute minute)\<lparr>failures := [(''a'', ex_event 5), (''b'', ex_event 3)], max_audit := 1\<rparr>) 9)) \<le> 1"
proof -
  have "gm_ok (failures ((new_limiter 3 minute minute)\<lparr>failures := [(''a'', ex_event 5), (''b'', ex_event 3)], max_audit := 1\<rparr>))"
    by (simp add: gm_ok_def)
  from audit_bounded [OF audit_sort.slice_sorter_axioms this, of 9, THEN conjunct1] show ?thesis by simp
qed

text \<open>The client address cannot be forged from outside. If the peer is not a trusted hop,
  \<^verbatim>\<open>ClientIP\<close> is the peer's own address whatever the \<^verbatim>\<open>X-Real-IP\<close> header says; if it is, an IPv4
  header value is used in its canonical form and anything that is no address is ignored. Loopback
  peers are trusted in every configuration.\<close>

theorem client_ip_correct:
  "(\<not> request_from_trusted_hop tp now r \<longrightarrow> client_ip tp now (Some r) = remote_ip r)
   \<and> (request_from_trusted_hop tp now r \<longrightarrow>
        (to4 (parse_ip (trim_space (x_real_ip r))) \<noteq> [] \<longrightarrow>
           client_ip tp now (Some r) = uint32_to_ip (ipv4_to_uint32 (parse_ip (trim_space (x_real_ip r)))))
      \<and> (parse_ip (trim_space (x_real_ip r)) = [] \<longrightarrow> client_ip tp now (Some r) = remote_ip r))
   \<and> (to4 (parse_ip (remote_ip r)) = [127, b, c, d] \<longrightarrow>
        request_from_trusted_hop None now r
      \<and> request_from_trusted_hop (Some (fst (configure_trusted lookup t entries))) now r)"
proof -
  have hop: "fst (is_trusted_proxy tp now (remote_ip r)) = request_from_trusted_hop tp now r" for tp
    by (simp add: request_from_trusted_hop_def)
  have nil: "parse_ip [] = []" by (simp add: parse_ip_def)
  have v4: "ip_string ip = uint32_to_ip (ipv4_to_uint32 ip)" if "to4 ip \<noteq> []" for ip
    using that to4_is_octets [OF that] by (simp add: ip_string_def uint32_to_ip_def)
  have "client_ip tp now (Some r) = uint32_to_ip (ipv4_to_uint32 (parse_ip (trim_space (x_real_ip r))))"
    if "request_from_trusted_hop tp now r" "to4 (parse_ip (trim_space (x_real_ip r))) \<noteq> []"
  proof -
    have ne: "parse_ip (trim_space (x_real_ip r)) \<noteq> []" using that(2) by auto
    then have "trim_space (x_real_ip r) \<noteq> []" using nil by metis
    with ne that v4 [OF that(2)] show ?thesis by (simp add: client_ip_def Let_def hop)
  qed
  moreover have "client_ip tp now (Some r) = remote_ip r" if "\<not> request_from_trusted_hop tp now r"
    using that by (simp add: client_ip_def Let_def hop)
  moreover have "client_ip tp now (Some r) = remote_ip r" if "parse_ip (trim_space (x_real_ip r)) = []"
    using that by (simp add: client_ip_def Let_def)
  moreover have "request_from_trusted_hop (Some ts) now r \<and> request_from_trusted_hop None now r"
    if "to4 (parse_ip (remote_ip r)) = [127, b, c, d]" "nets ts = loopback_nets @ more" for ts more
  proof -
    have "net_contains (hd loopback_nets) (parse_ip (remote_ip r))" using that(1) by (rule loopback_contains)
    then have any: "list_ex (\<lambda>n. net_contains n (parse_ip (remote_ip r))) (loopback_nets @ t')" for t'
      by (cases loopback_nets) (simp_all add: loopback_nets_eq)
    moreover have "parse_ip (remote_ip r) \<noteq> []" using that(1) by auto
    ultimately show ?thesis
      using that(2) any [of more] any [of "[]"]
      by (simp add: request_from_trusted_hop_def is_trusted_proxy_def load_trusted_def)
  qed
  ultimately show ?thesis using configured_nets [of lookup t entries] by blast
qed

theorem client_ip_correct_witness:
  "client_ip None 0 (Some \<lparr>remote_addr = ''8.8.8.8:5000'', x_real_ip = ''127.0.0.1''\<rparr>) = ''8.8.8.8''"
proof -
  have r: "remote_ip \<lparr>remote_addr = ''8.8.8.8:5000'', x_real_ip = ''127.0.0.1''\<rparr> = ''8.8.8.8''"
    by (simp add: remote_ip_def split_host_port_def Let_def)
  have "parse_ip ''8.8.8.8'' = v4_prefix @ [8, 8, 8, 8]" by code_simp
  then have "\<not> request_from_trusted_hop None 0 \<lparr>remote_addr = ''8.8.8.8:5000'', x_real_ip = ''127.0.0.1''\<rparr>"
    by (simp add: request_from_trusted_hop_def is_trusted_proxy_def r load_trusted_def loopback_nets_eq
        net_contains_def to4_def v4_prefix_def upt_rec Let_def replicate_eq)
  with client_ip_correct [THEN conjunct1, rule_format, OF this] r show ?thesis by simp
qed

text \<open>A failing resolver does not take the trust away.\<close>

lemma refresh_keeps_trust:
  assumes "host_names s \<noteq> []"
  shows "(\<forall>n \<in> set (host_names s). lookup n = None) \<longrightarrow>
      (\<exists>s'. refresh_trusted_hosts lookup now (Some s) = Some s' \<and> nets s' = nets s
        \<and> host_names s' = host_names s \<and> host_ips s' = host_ips s)"
    and "\<exists>s'. refresh_trusted_hosts lookup now (Some s) = Some s' \<and> nets s' = nets s \<and> host_names s' = host_names s"
proof -
  have none: "concat (map (\<lambda>name. case lookup name of None \<Rightarrow> [] | Some addrs \<Rightarrow> filter (\<lambda>ip. ip \<noteq> []) (map parse_ip addrs)) hs) = []"
    if "\<forall>n \<in> set hs. lookup n = None" for hs
    using that by (induction hs) auto
  show "(\<forall>n \<in> set (host_names s). lookup n = None) \<longrightarrow>
      (\<exists>s'. refresh_trusted_hosts lookup now (Some s) = Some s' \<and> nets s' = nets s
        \<and> host_names s' = host_names s \<and> host_ips s' = host_ips s)"
    using assms none by (auto simp: refresh_trusted_hosts_def resolve_hosts_def Let_def)
  show "\<exists>s'. refresh_trusted_hosts lookup now (Some s) = Some s' \<and> nets s' = nets s \<and> host_names s' = host_names s"
    using assms by (simp add: refresh_trusted_hosts_def resolve_hosts_def Let_def)
qed

end
