(* ===== verification/Ingest.thy ===== *)
theory Ingest
  imports Geo_Index "HOL-Library.Sublist"
begin

text \<open>
  The ingest pipeline behind the queue (\<^verbatim>\<open>usecase/ingest\<close>) and its counters
  (\<^verbatim>\<open>adapter/ingestnet/stats.go\<close>): the circuit breaker of the inserts, the retries, and the
  processor that parses lines, enriches them and writes batches. The parser, the lookup in the GeoIP
  index, the outcome of each insert and the clock are arguments; what one attempt meets is an
  \<open>attempt_env\<close>. The breaker and the counters are shared by the workers: they are the record
  \<open>shared\<close> that every operation takes and returns. Logging and the observer of latencies are left out.
\<close>

section \<open>Errors\<close>

text \<open>Go errors as far as \<^verbatim>\<open>errors.Is\<close> looks into them: wrapping one or two others.\<close>

datatype go_err =
    Canceled
  | DeadlineExceeded
  | CircuitOpen
  | OtherErr string
  | Wrap1 string go_err
  | Wrap2 string go_err go_err

fun errors_is :: "go_err \<Rightarrow> go_err \<Rightarrow> bool" where
  "errors_is (Wrap1 m e) t \<longleftrightarrow> Wrap1 m e = t \<or> errors_is e t"
| "errors_is (Wrap2 m e1 e2) t \<longleftrightarrow> Wrap2 m e1 e2 = t \<or> errors_is e1 t \<or> errors_is e2 t"
| "errors_is e t \<longleftrightarrow> e = t"

section \<open>Counters\<close>

record line_stats =
  state_name :: string
  active_errors :: int
  received_total :: int
  parsed_total :: int
  inserted_total :: int
  skipped_total :: int
  parse_errors_total :: int
  buffered_lines :: int
  dropped_total :: int
  buffer_drops_total :: int
  auth_rejected :: int
  last_drop_at :: go_time
  connections :: int
  udp_received :: int
  tcp_received :: int
  udp_connections :: int
  tcp_connections :: int
  last_flush_at :: "go_time option"
  last_error :: string

definition new_stats :: line_stats where
  "new_stats = \<lparr>state_name = ''idle'', active_errors = 0, received_total = 0, parsed_total = 0,
     inserted_total = 0, skipped_total = 0, parse_errors_total = 0, buffered_lines = 0, dropped_total = 0,
     buffer_drops_total = 0, auth_rejected = 0, last_drop_at = 0, connections = 0, udp_received = 0,
     tcp_received = 0, udp_connections = 0, tcp_connections = 0, last_flush_at = None, last_error = []\<rparr>"

definition set_last_error :: "string \<Rightarrow> line_stats \<Rightarrow> line_stats" where
  "set_last_error msg s = s\<lparr>last_error := msg\<rparr>"

definition note_worker_error :: "string \<Rightarrow> line_stats \<Rightarrow> line_stats" where
  "note_worker_error msg s = set_last_error msg (s\<lparr>active_errors := active_errors s + 1\<rparr>)"

definition note_worker_ok :: "line_stats \<Rightarrow> line_stats" where
  "note_worker_ok s =
     (let cur = active_errors s in
      if cur \<le> 0 then set_last_error [] s
      else let s = s\<lparr>active_errors := cur - 1\<rparr> in if cur - 1 = 0 then set_last_error [] s else s)"

definition reported_state :: "line_stats \<Rightarrow> string" where
  "reported_state s = (if active_errors s > 0 then ''error'' else state_name s)"

definition add_received :: "string \<Rightarrow> line_stats \<Rightarrow> line_stats" where
  "add_received transport s =
     (let s = s\<lparr>received_total := received_total s + 1\<rparr> in
      if transport = ''udp'' then s\<lparr>udp_received := udp_received s + 1\<rparr>
      else if transport = ''tcp'' then s\<lparr>tcp_received := tcp_received s + 1\<rparr> else s)"

definition add_skipped :: "int \<Rightarrow> line_stats \<Rightarrow> line_stats" where
  "add_skipped n s = s\<lparr>skipped_total := skipped_total s + n\<rparr>"

definition add_parsed :: "int \<Rightarrow> line_stats \<Rightarrow> line_stats" where
  "add_parsed n s = s\<lparr>parsed_total := parsed_total s + n\<rparr>"

definition add_parse_errors :: "int \<Rightarrow> line_stats \<Rightarrow> line_stats" where
  "add_parse_errors n s = s\<lparr>parse_errors_total := parse_errors_total s + n\<rparr>"

definition add_inserted :: "int \<Rightarrow> line_stats \<Rightarrow> line_stats" where
  "add_inserted n s = s\<lparr>inserted_total := inserted_total s + n\<rparr>"

definition add_buffered :: "int \<Rightarrow> line_stats \<Rightarrow> line_stats" where
  "add_buffered d s = s\<lparr>buffered_lines := buffered_lines s + d\<rparr>"

definition add_dropped :: "go_time \<Rightarrow> int \<Rightarrow> line_stats \<Rightarrow> line_stats" where
  "add_dropped now n s = s\<lparr>dropped_total := dropped_total s + n, last_drop_at := now\<rparr>"

definition add_buffer_dropped :: "go_time \<Rightarrow> int \<Rightarrow> line_stats \<Rightarrow> line_stats" where
  "add_buffer_dropped now n s =
     (if n \<le> 0 then s else s\<lparr>buffer_drops_total := buffer_drops_total s + n, last_drop_at := now\<rparr>)"

definition set_last_flush_at :: "go_time \<Rightarrow> line_stats \<Rightarrow> line_stats" where
  "set_last_flush_at t s = s\<lparr>last_flush_at := (if t = 0 then None else Some t)\<rparr>"

definition add_connection :: "string \<Rightarrow> int \<Rightarrow> line_stats \<Rightarrow> line_stats" where
  "add_connection transport d s =
     (let s = s\<lparr>connections := connections s + d\<rparr> in
      if transport = ''udp'' then s\<lparr>udp_connections := udp_connections s + d\<rparr>
      else if transport = ''tcp'' then s\<lparr>tcp_connections := tcp_connections s + d\<rparr> else s)"

section \<open>Circuit breaker\<close>

record circuit =
  c_fails :: int
  open_until :: go_time

definition circuit_fail_threshold :: int where "circuit_fail_threshold = 5"
definition circuit_cooldown :: duration where "circuit_cooldown = 15 * second"

definition new_circuit :: circuit where
  "new_circuit = \<lparr>c_fails = 0, open_until = 0\<rparr>"

definition circuit_check :: "circuit \<Rightarrow> go_time \<Rightarrow> go_err option" where
  "circuit_check c now =
     (if open_until c = 0 then None else if now < open_until c then Some CircuitOpen else None)"

definition circuit_open :: "circuit \<Rightarrow> go_time \<Rightarrow> bool" where
  "circuit_open c now \<longleftrightarrow> circuit_check c now \<noteq> None"

definition remaining_open :: "circuit \<Rightarrow> go_time \<Rightarrow> duration" where
  "remaining_open c now =
     (if open_until c = 0 then 0
      else let left = open_until c - now in if left \<le> 0 then 0 else left)"

definition note_success :: "circuit \<Rightarrow> circuit" where
  "note_success c = c\<lparr>c_fails := 0, open_until := 0\<rparr>"

text \<open>The two readings of the clock: for the end of the window, and for the comparison.\<close>

definition note_failure :: "circuit \<Rightarrow> go_time \<Rightarrow> go_time \<Rightarrow> circuit" where
  "note_failure c t1 t2 =
     (let n = c_fails c + 1; c = c\<lparr>c_fails := n\<rparr> in
      if n < circuit_fail_threshold then c
      else let until = t1 + circuit_cooldown; prev = open_until c; now = t2 in
        if prev > now then c else c\<lparr>open_until := until\<rparr>)"

section \<open>Retries\<close>

definition insert_retry_attempts :: nat where "insert_retry_attempts = 5"
definition insert_retry_base :: duration where "insert_retry_base = 100 * millisecond"
definition insert_retry_max :: duration where "insert_retry_max = 4 * second"

text \<open>Arithmetic of \<^verbatim>\<open>int64\<close>; \<open>rnd m\<close> is a draw below \<open>m\<close>, or \<open>None\<close> if the source fails.\<close>

definition int64 :: "int \<Rightarrow> int" where
  "int64 x = sint (word_of_int x :: 64 word)"

definition insert_backoff :: "(int \<Rightarrow> int option) \<Rightarrow> int \<Rightarrow> duration" where
  "insert_backoff rnd attempt0 =
     (let attempt = (if attempt0 < 1 then 1 else attempt0);
          exp = int64 (insert_retry_base * int64 (2 ^ nat (attempt - 1)));
          exp = (if exp > insert_retry_max then insert_retry_max else exp)
      in if exp \<le> 0 then 0
         else (case rnd (int64 (exp + 1)) of None \<Rightarrow> exp div 2 | Some n \<Rightarrow> n))"

definition should_retry_insert :: "go_err option \<Rightarrow> (go_err \<Rightarrow> bool) option \<Rightarrow> bool" where
  "should_retry_insert eo classify = (case eo of
     None \<Rightarrow> False
   | Some err \<Rightarrow>
       if errors_is err Canceled \<or> errors_is err DeadlineExceeded then False
       else if errors_is err CircuitOpen then False
       else (case classify of None \<Rightarrow> True | Some f \<Rightarrow> f err))"

text \<open>
  What attempt \<open>k\<close> meets: the state of the parent context before the call and after it, the result
  of the call under the timeout of the attempt, and the context during the pause that follows.
\<close>

record attempt_env =
  ctx_before :: "go_err option"
  fn_result :: "duration \<Rightarrow> go_err option"
  ctx_after :: "go_err option"
  ctx_in_pause :: "go_err option"

definition attempt_timeout :: "duration \<Rightarrow> duration" where
  "attempt_timeout t = (if t \<le> 0 then 30 * second else t)"

text \<open>The loop from \<open>attempt\<close> on: the error returned, and how often \<^verbatim>\<open>fn\<close> was called.\<close>

function retry_from ::
    "(go_err \<Rightarrow> bool) option \<Rightarrow> duration \<Rightarrow> nat \<Rightarrow> (nat \<Rightarrow> attempt_env) \<Rightarrow> nat \<Rightarrow> go_err option \<Rightarrow> nat \<Rightarrow> go_err option \<times> nat" where
  "retry_from classify tmo attempts env attempt last_err calls =
     (if attempt > attempts then (last_err, calls)
      else (case ctx_before (env attempt) of
          Some e \<Rightarrow> (Some e, calls)
        | None \<Rightarrow>
            (case fn_result (env attempt) tmo of
               None \<Rightarrow> (None, calls + 1)
             | Some err \<Rightarrow>
                 if \<not> (attempt < attempts \<and> should_retry_insert (Some err) classify \<and> ctx_after (env attempt) = None)
                 then (Some err, calls + 1)
                 else (case ctx_in_pause (env attempt) of
                     Some ce \<Rightarrow> (Some (Wrap2 '' (during retry backoff): '' ce err), calls + 1)
                   | None \<Rightarrow> retry_from classify tmo attempts env (attempt + 1) (Some err) (calls + 1)))))"
  by pat_completeness auto
termination
  by (relation "measure (\<lambda>(_, _, attempts, _, attempt, _, _). Suc attempts - attempt)") auto

declare retry_from.simps [simp del]

definition insert_with_retry ::
    "(go_err \<Rightarrow> bool) option \<Rightarrow> duration \<Rightarrow> (nat \<Rightarrow> attempt_env) \<Rightarrow> go_err option \<times> nat" where
  "insert_with_retry classify tmo env =
     (let attempts = (if insert_retry_attempts < 1 then 1 else insert_retry_attempts)
      in retry_from classify (attempt_timeout tmo) attempts env 1 None 0)"

section \<open>Processor\<close>

record traffic_log =
  tl_timestamp :: go_time
  parsed_at :: go_time
  tl_vendor :: string
  device :: string
  src_ip :: string
  dst_ip :: string
  src_port :: u32
  dst_port :: u32
  action :: string
  rule_name :: string
  proto :: string
  src_zone :: string
  dst_zone :: string
  src_country :: string
  dst_country :: string
  src_city :: string
  dst_city :: string
  src_region :: string
  dst_region :: string
  src_lat :: f64
  src_lon :: f64
  dst_lat :: f64
  dst_lon :: f64
  bytes_sent :: u64
  bytes_recv :: u64
  packets_sent :: u64
  packets_recv :: u64
  tl_raw :: string

record parse_error =
  pe_timestamp :: go_time
  pe_vendor :: string
  pe_reason :: string
  pe_raw :: string

record parse_result =
  res_ok :: bool
  res_skipped :: bool
  res_log :: traffic_log
  res_vendor :: string
  res_reason :: string

datatype line_outcome = OutcomeEmpty | OutcomeParsed | OutcomeSkipped | OutcomeParseError

text \<open>model/geo_country.go\<close>

definition neizvestno :: string where
  "neizvestno = map byte [0xD0, 0x9D, 0xD0, 0xB5, 0xD0, 0xB8, 0xD0, 0xB7, 0xD0, 0xB2, 0xD0, 0xB5,
     0xD1, 0x81, 0xD1, 0x82, 0xD0, 0xBD, 0xD0, 0xBE]"

definition is_unknown_country :: "string \<Rightarrow> bool" where
  "is_unknown_country v0 \<longleftrightarrow>
     (let v = trim_space v0 in
      if v = [] then True
      else if equal_fold v ''unknown'' \<or> v = neizvestno then True
      else equal_fold v ''reserved'')"

definition is_vendor_country_code :: "string \<Rightarrow> bool" where
  "is_vendor_country_code v0 \<longleftrightarrow>
     (let v = trim_space v0 in
      length v = 2 \<and> list_all (\<lambda>c. 65 \<le> code c \<and> code c \<le> 90 \<or> 97 \<le> code c \<and> code c \<le> 122) v)"

definition needs_country :: "string \<Rightarrow> bool" where
  "needs_country v \<longleftrightarrow> is_unknown_country v \<or> is_vendor_country_code v"

definition usable_country :: "string \<Rightarrow> bool" where
  "usable_country v \<longleftrightarrow> \<not> needs_country v"

record processor =
  batch_size :: int
  query_timeout :: duration
  enrich_country :: bool
  geo :: "(string \<Rightarrow> geo_lookup) option"
  retryable :: "(go_err \<Rightarrow> bool) option"
  has_logs :: bool
  has_errors :: bool
  buf :: "traffic_log list"
  err_buf :: "parse_error list"
  err_buf_bytes :: int

record shared =
  circ :: circuit
  stats :: "line_stats option"

definition new_processor ::
    "int \<Rightarrow> duration \<Rightarrow> bool \<Rightarrow> (string \<Rightarrow> geo_lookup) option \<Rightarrow> (go_err \<Rightarrow> bool) option \<Rightarrow> bool \<Rightarrow> bool \<Rightarrow> processor" where
  "new_processor batch tmo enrich g retry logs errs =
     \<lparr>batch_size = (if batch \<le> 0 then 10000 else batch), query_timeout = tmo, enrich_country = enrich,
      geo = g, retryable = retry, has_logs = logs, has_errors = errs, buf = [], err_buf = [], err_buf_bytes = 0\<rparr>"

definition with_stats :: "(line_stats \<Rightarrow> line_stats) \<Rightarrow> shared \<Rightarrow> shared" where
  "with_stats f w = w\<lparr>stats := map_option f (stats w)\<rparr>"

definition f64_zero :: "f64 \<Rightarrow> bool" where
  "f64_zero x \<longleftrightarrow> x = 0 \<or> x = 0x8000000000000000"

text \<open>The five fields of one side, as \<open>(country, city, region, lat, lon)\<close>.\<close>

type_synonym side = "string \<times> string \<times> string \<times> f64 \<times> f64"

definition enrich_side :: "(string \<Rightarrow> geo_lookup) \<Rightarrow> bool \<Rightarrow> string \<Rightarrow> side \<Rightarrow> side" where
  "enrich_side g enrich ip sd = (case sd of (ctry, cty, rgn, la, lo) \<Rightarrow>
     let lk = g ip in
     if \<not> found lk then sd
     else
       (if enrich \<and> needs_country ctry \<and> usable_country (lk_country lk) then lk_country lk else ctry,
        if trim_space cty = [] \<and> trim_space (lk_city lk) \<noteq> [] then lk_city lk else cty,
        if trim_space rgn = [] \<and> trim_space (lk_region lk) \<noteq> [] then lk_region lk else rgn,
        if f64_zero la \<and> f64_zero lo \<and> (\<not> f64_zero (lk_lat lk) \<or> \<not> f64_zero (lk_lon lk)) then lk_lat lk else la,
        if f64_zero la \<and> f64_zero lo \<and> (\<not> f64_zero (lk_lat lk) \<or> \<not> f64_zero (lk_lon lk)) then lk_lon lk else lo))"

definition src_side :: "traffic_log \<Rightarrow> side" where
  "src_side e = (src_country e, src_city e, src_region e, src_lat e, src_lon e)"

definition dst_side :: "traffic_log \<Rightarrow> side" where
  "dst_side e = (dst_country e, dst_city e, dst_region e, dst_lat e, dst_lon e)"

definition enrich_geo :: "processor \<Rightarrow> traffic_log \<Rightarrow> traffic_log" where
  "enrich_geo p e = (case geo p of
     None \<Rightarrow> e
   | Some g \<Rightarrow>
       (case enrich_side g (enrich_country p) (src_ip e) (src_side e) of (sc, sci, sr, sla, slo) \<Rightarrow>
        case enrich_side g (enrich_country p) (dst_ip e) (dst_side e) of (dc, dci, dr, dla, dlo) \<Rightarrow>
          e\<lparr>src_country := sc, src_city := sci, src_region := sr, src_lat := sla, src_lon := slo,
            dst_country := dc, dst_city := dci, dst_region := dr, dst_lat := dla, dst_lon := dlo\<rparr>))"

definition max_ingest_buf :: "processor \<Rightarrow> int" where
  "max_ingest_buf p =
     (let n = batch_size p * 5; n = (if n < 1000 then 1000 else n) in if n > 50000 then 50000 else n)"

definition max_parse_error_raw_bytes :: nat where "max_parse_error_raw_bytes = 16 * 1024"
definition max_parse_error_buf_bytes :: int where "max_parse_error_buf_bytes = 32 * 1024 * 1024"

definition append_traffic_log :: "go_time \<Rightarrow> traffic_log \<Rightarrow> processor \<Rightarrow> shared \<Rightarrow> processor \<times> shared" where
  "append_traffic_log now e0 p w =
     (let e = e0\<lparr>tl_raw := []\<rparr>; mx = max_ingest_buf p;
          (p, w) =
            (if int (length (buf p)) \<ge> mx then
               (let d = int (length (buf p)) - mx + 1; d = (if d < 1 then 1 else d)
                in (p\<lparr>buf := drop (nat d) (buf p)\<rparr>,
                    with_stats (add_buffer_dropped now d \<circ> add_buffered (- d)) w))
             else (p, w))
      in (p\<lparr>buf := buf p @ [e]\<rparr>, with_stats (add_buffered 1) w))"

definition truncate_parse_error_raw :: "string \<Rightarrow> string" where
  "truncate_parse_error_raw s =
     (if length s \<le> max_parse_error_raw_bytes then s else take max_parse_error_raw_bytes s)"

definition raw_bytes :: "parse_error list \<Rightarrow> int" where
  "raw_bytes pes = int (sum_list (map (length \<circ> pe_raw) pes))"

definition drop_oldest_parse_errors :: "int \<Rightarrow> processor \<Rightarrow> processor" where
  "drop_oldest_parse_errors n p =
     (if n < 1 \<or> length (err_buf p) = 0 then p
      else let n = (if n > int (length (err_buf p)) then int (length (err_buf p)) else n);
               b = err_buf_bytes p - raw_bytes (take (nat n) (err_buf p));
               b = (if b < 0 then 0 else b)
           in p\<lparr>err_buf_bytes := b, err_buf := drop (nat n) (err_buf p)\<rparr>)"

lemma length_drop_oldest:
  "length (err_buf (drop_oldest_parse_errors n p)) =
     (if n < 1 then length (err_buf p) else length (err_buf p) - nat n)"
  by (auto simp: drop_oldest_parse_errors_def Let_def)

text \<open>The two loops that make room, by entries and by bytes; \<open>mx\<close> is at least 1000.\<close>

function room_entries :: "int \<Rightarrow> processor \<Rightarrow> int \<Rightarrow> processor \<times> int" where
  "room_entries mx p dropped =
     (if int (length (err_buf p)) \<ge> mx \<and> mx > 0 then
        (let n = int (length (err_buf p)) - mx + 1
         in room_entries mx (drop_oldest_parse_errors n p) (dropped + n))
      else (p, dropped))"
  by pat_completeness auto
termination
  by (relation "measure (\<lambda>(_, p, _). length (err_buf p))") (auto simp: length_drop_oldest)

function room_bytes :: "int \<Rightarrow> processor \<Rightarrow> int \<Rightarrow> processor \<times> int" where
  "room_bytes need p dropped =
     (if err_buf_bytes p + need > max_parse_error_buf_bytes \<and> length (err_buf p) > 0
      then room_bytes need (drop_oldest_parse_errors 1 p) (dropped + 1)
      else (p, dropped))"
  by pat_completeness auto
termination
  by (relation "measure (\<lambda>(_, p, _). length (err_buf p))") (auto simp: length_drop_oldest)

declare room_entries.simps [simp del] room_bytes.simps [simp del]

definition append_parse_error :: "go_time \<Rightarrow> parse_error \<Rightarrow> processor \<Rightarrow> shared \<Rightarrow> processor \<times> shared" where
  "append_parse_error now pe0 p w =
     (let pe = pe0\<lparr>pe_raw := truncate_parse_error_raw (pe_raw pe0)\<rparr>; need = int (length (pe_raw pe));
          (p, d) = room_entries (max_ingest_buf p) p 0;
          (p, d) = room_bytes need p d;
          w = (if d > 0 then with_stats (add_buffer_dropped now d) w else w)
      in (p\<lparr>err_buf := err_buf p @ [pe], err_buf_bytes := err_buf_bytes p + need\<rparr>, w))"

text \<open>What one insert meets: the clock at the check, the attempts, the clock after them.\<close>

record insert_env =
  check_at :: go_time
  attempt :: "nat \<Rightarrow> attempt_env"
  fail_until_at :: go_time
  fail_now_at :: go_time
  flushed_at :: go_time

text \<open>The result also carries the rows whose insert was acknowledged.\<close>

definition flush_logs ::
    "insert_env \<Rightarrow> processor \<Rightarrow> shared \<Rightarrow> go_err option \<times> processor \<times> shared \<times> traffic_log list" where
  "flush_logs env p w =
     (if length (buf p) = 0 then (None, p, w, [])
      else (case circuit_check (circ w) (check_at env) of
          Some e \<Rightarrow> (Some e, p, w, [])
        | None \<Rightarrow>
            let n = int (length (buf p));
                err = fst (insert_with_retry (retryable p) (query_timeout p)
                  (\<lambda>k. if has_logs p then attempt env k else (attempt env k)\<lparr>fn_result := \<lambda>_. None\<rparr>))
            in (case err of
                Some e \<Rightarrow> (Some e, p, w\<lparr>circ := note_failure (circ w) (fail_until_at env) (fail_now_at env)\<rparr>, [])
              | None \<Rightarrow>
                  (None, p\<lparr>buf := []\<rparr>,
                   with_stats (set_last_flush_at (flushed_at env) \<circ> add_buffered (- n) \<circ> add_inserted n)
                     (w\<lparr>circ := note_success (circ w)\<rparr>),
                   buf p))))"

definition flush_errors ::
    "insert_env \<Rightarrow> processor \<Rightarrow> shared \<Rightarrow> go_err option \<times> processor \<times> shared \<times> parse_error list" where
  "flush_errors env p w =
     (if length (err_buf p) = 0 then (None, p, w, [])
      else (case circuit_check (circ w) (check_at env) of
          Some e \<Rightarrow> (Some e, p, w, [])
        | None \<Rightarrow>
            let err = fst (insert_with_retry (retryable p) (query_timeout p)
                  (\<lambda>k. if has_errors p then attempt env k else (attempt env k)\<lparr>fn_result := \<lambda>_. None\<rparr>))
            in (case err of
                Some e \<Rightarrow> (Some e, p, w\<lparr>circ := note_failure (circ w) (fail_until_at env) (fail_now_at env)\<rparr>, [])
              | None \<Rightarrow> (None, p\<lparr>err_buf := [], err_buf_bytes := 0\<rparr>, w\<lparr>circ := note_success (circ w)\<rparr>, err_buf p))))"

type_synonym written = "traffic_log list \<times> parse_error list"

definition flush ::
    "insert_env \<Rightarrow> insert_env \<Rightarrow> processor \<Rightarrow> shared \<Rightarrow> (int \<times> go_err option) \<times> processor \<times> shared \<times> written" where
  "flush lenv eenv p w =
     (let n = int (length (buf p)) in
      case flush_logs lenv p w of (err, p, w, recs) \<Rightarrow>
        if err \<noteq> None then ((0, err), p, w, (recs, []))
        else (case flush_errors eenv p w of (err, p, w, errs) \<Rightarrow> ((n, err), p, w, (recs, errs))))"

record line_env =
  line_now :: go_time
  logs_env :: insert_env
  errs_env :: insert_env

definition process_line ::
    "(string \<Rightarrow> parse_result) \<Rightarrow> (string \<Rightarrow> bool) \<Rightarrow> line_env \<Rightarrow> string \<Rightarrow> string \<Rightarrow> processor \<Rightarrow> shared
       \<Rightarrow> (line_outcome \<times> int \<times> go_err option) \<times> processor \<times> shared \<times> written" where
  "process_line parse contains_ipv4 env line0 transport p w =
     (let line = trim_space line0 in
      if line = [] then ((OutcomeEmpty, 0, None), p, w, ([], []))
      else
        let w = with_stats (add_received transport) w; res = parse line in
        if \<not> res_ok res then
          (if res_skipped res then ((OutcomeSkipped, 0, None), p, with_stats (add_skipped 1) w, ([], []))
           else if \<not> contains_ipv4 line then ((OutcomeSkipped, 0, None), p, with_stats (add_skipped 1) w, ([], []))
           else
             (case append_parse_error (line_now env)
                \<lparr>pe_timestamp = line_now env, pe_vendor = res_vendor res, pe_reason = res_reason res, pe_raw = line\<rparr>
                p (with_stats (add_parse_errors 1) w) of (p, w) \<Rightarrow>
              if int (length (err_buf p)) \<ge> batch_size p then
                (case flush_errors (errs_env env) p w of (err, p, w, errs) \<Rightarrow>
                  ((OutcomeParseError, 0, err), p, w, ([], errs)))
              else ((OutcomeParseError, 0, None), p, w, ([], []))))
        else
          let w = with_stats (add_parsed 1) w;
              e = res_log res;
              e = (if parsed_at e = 0 then e\<lparr>parsed_at := line_now env\<rparr> else e)
          in (case append_traffic_log (line_now env) (enrich_geo p e) p w of (p, w) \<Rightarrow>
              if int (length (buf p)) \<ge> batch_size p then
                (case flush (logs_env env) (errs_env env) p w of ((n, err), p, w, out) \<Rightarrow>
                  ((OutcomeParsed, n, err), p, w, out))
              else ((OutcomeParsed, 0, None), p, w, ([], []))))"

section \<open>Retries: what the loop returns\<close>

text \<open>Attempt \<open>k\<close> ends the loop with this result, or leads to the next attempt.\<close>

definition goes_on :: "(go_err \<Rightarrow> bool) option \<Rightarrow> duration \<Rightarrow> attempt_env \<Rightarrow> bool" where
  "goes_on classify tmo e \<longleftrightarrow> ctx_before e = None \<and> should_retry_insert (fn_result e tmo) classify
     \<and> ctx_after e = None \<and> ctx_in_pause e = None"

definition attempt_result :: "(go_err \<Rightarrow> bool) option \<Rightarrow> duration \<Rightarrow> bool \<Rightarrow> attempt_env \<Rightarrow> go_err option" where
  "attempt_result classify tmo is_last e = (case ctx_before e of
     Some c \<Rightarrow> Some c
   | None \<Rightarrow> (case fn_result e tmo of
       None \<Rightarrow> None
     | Some err \<Rightarrow>
         if \<not> is_last \<and> should_retry_insert (Some err) classify \<and> ctx_after e = None then
           (case ctx_in_pause e of None \<Rightarrow> Some err | Some c \<Rightarrow> Some (Wrap2 '' (during retry backoff): '' c err))
         else Some err))"

lemma retry_from_spec:
  assumes "att \<le> attempts"
  shows "\<exists>k. att \<le> k \<and> k \<le> attempts \<and> (\<forall>j. att \<le> j \<longrightarrow> j < k \<longrightarrow> goes_on classify tmo (env j))
    \<and> (k < attempts \<longrightarrow> \<not> goes_on classify tmo (env k))
    \<and> retry_from classify tmo attempts env att le calls =
        (attempt_result classify tmo (k = attempts) (env k),
         calls + (k - att) + (if ctx_before (env k) = None then 1 else 0))"
  using assms
proof (induction "attempts - att" arbitrary: att le calls)
  case 0
  then have "att = attempts" by simp
  then show ?case
    by (intro exI [of _ attempts])
      (simp add: retry_from.simps [of _ _ _ _ attempts] attempt_result_def split: option.splits)
next
  case (Suc n)
  then have lt: "att < attempts" by simp
  show ?case
  proof (cases "goes_on classify tmo (env att)")
    case True
    then obtain err where err: "fn_result (env att) tmo = Some err"
      by (auto simp: goes_on_def should_retry_insert_def split: option.splits)
    have eq: "retry_from classify tmo attempts env att le calls =
        retry_from classify tmo attempts env (att + 1) (Some err) (calls + 1)"
      using True err lt by (simp add: retry_from.simps [of _ _ _ _ att] goes_on_def)
    obtain k where k: "att + 1 \<le> k" "k \<le> attempts"
        "\<forall>j. att + 1 \<le> j \<longrightarrow> j < k \<longrightarrow> goes_on classify tmo (env j)"
        "k < attempts \<longrightarrow> \<not> goes_on classify tmo (env k)"
        "retry_from classify tmo attempts env (att + 1) (Some err) (calls + 1) =
          (attempt_result classify tmo (k = attempts) (env k),
           calls + 1 + (k - (att + 1)) + (if ctx_before (env k) = None then 1 else 0))"
      using Suc.hyps(1) [of "att + 1" "Some err" "calls + 1"] Suc.hyps(2) lt
      by (metis Suc_eq_plus1 Suc_leI diff_Suc_Suc diff_Suc_1 minus_nat.simps(2) Suc_diff_Suc Suc_inject)
    have "\<forall>j. att \<le> j \<longrightarrow> j < k \<longrightarrow> goes_on classify tmo (env j)"
      using k(3) True by (metis Suc_eq_plus1 le_eq_less_or_eq less_eq_Suc_le)
    with k eq show ?thesis by (intro exI [of _ k]) auto
  next
    case False
    have "att < attempts" using Suc.hyps(2) by simp
    with False have "retry_from classify tmo attempts env att le calls =
        (attempt_result classify tmo (att = attempts) (env att),
         calls + (if ctx_before (env att) = None then 1 else 0))"
      by (cases "ctx_before (env att)"; cases "fn_result (env att) tmo"; cases "ctx_in_pause (env att)")
        (auto simp: retry_from.simps [of _ _ _ _ att] attempt_result_def goes_on_def)
    with False \<open>att < attempts\<close> show ?thesis by (intro exI [of _ att]) auto
  qed
qed

text \<open>What the retries of an insert do. \<^verbatim>\<open>insertWithRetry\<close> calls the insert for attempts
  1, 2, ... up to some attempt \<open>k\<close> of at most five: every earlier attempt failed with a retryable error
  while the context lived, attempt \<open>k\<close> is the last one allowed or does not lead to another, and its
  outcome is the result. So it returns nil exactly if that call succeeded, never calls again after an
  error that must not be retried, and calls at most five times.\<close>

theorem insert_with_retry_correct:
  "\<exists>k. 1 \<le> k \<and> k \<le> 5 \<and> (\<forall>j. 1 \<le> j \<longrightarrow> j < k \<longrightarrow> goes_on classify (attempt_timeout tmo) (env j))
    \<and> (k < 5 \<longrightarrow> \<not> goes_on classify (attempt_timeout tmo) (env k))
    \<and> insert_with_retry classify tmo env =
        (attempt_result classify (attempt_timeout tmo) (k = 5) (env k), if ctx_before (env k) = None then k else k - 1)"
proof -
  obtain k where "1 \<le> k" "k \<le> 5" "\<forall>j. 1 \<le> j \<longrightarrow> j < k \<longrightarrow> goes_on classify (attempt_timeout tmo) (env j)"
     "k < 5 \<longrightarrow> \<not> goes_on classify (attempt_timeout tmo) (env k)"
     "retry_from classify (attempt_timeout tmo) 5 env 1 None 0 =
        (attempt_result classify (attempt_timeout tmo) (k = 5) (env k),
         0 + (k - 1) + (if ctx_before (env k) = None then 1 else 0))"
    using retry_from_spec [of 1 5 classify "attempt_timeout tmo" env None 0] by auto
  then show ?thesis
    by (intro exI [of _ k]) (auto simp: insert_with_retry_def insert_retry_attempts_def)
qed

definition ex_attempt :: "go_err option \<Rightarrow> attempt_env" where
  "ex_attempt r = \<lparr>ctx_before = None, fn_result = (\<lambda>_. r), ctx_after = None, ctx_in_pause = None\<rparr>"

definition ex_env :: "nat \<Rightarrow> attempt_env" where
  "ex_env k = ex_attempt (if k \<le> 2 then Some (OtherErr ''timeout'') else None)"

theorem insert_with_retry_correct_witness: "insert_with_retry None second ex_env = (None, 3)"
proof -
  have go: "goes_on None (attempt_timeout second) (ex_env j) \<longleftrightarrow> j \<le> 2" for j
    by (simp add: goes_on_def ex_env_def ex_attempt_def should_retry_insert_def)
  obtain k where k: "1 \<le> k" "k \<le> 5" "\<forall>j. 1 \<le> j \<longrightarrow> j < k \<longrightarrow> goes_on None (attempt_timeout second) (ex_env j)"
     "k < 5 \<longrightarrow> \<not> goes_on None (attempt_timeout second) (ex_env k)"
     "insert_with_retry None second ex_env =
        (attempt_result None (attempt_timeout second) (k = 5) (ex_env k), if ctx_before (ex_env k) = None then k else k - 1)"
    using insert_with_retry_correct [of None second ex_env] by blast
  have "k = 3"
  proof (rule ccontr)
    assume "k \<noteq> 3"
    then have "k < 3 \<or> 3 < k" by auto
    then show False using k(1,4) k(3) [rule_format, of 3] by (auto simp: go)
  qed
  with k(5) show ?thesis by (simp add: attempt_result_def ex_env_def ex_attempt_def)
qed

lemma int64_id: "- (2 ^ 63) \<le> x \<Longrightarrow> x < 2 ^ 63 \<Longrightarrow> int64 x = x"
  by (simp add: int64_def sint_sbintrunc' signed_take_bit_int_eq_self)

lemma backoff_exp:
  assumes "1 \<le> a" "a \<le> 5"
  shows "int64 (insert_retry_base * int64 (2 ^ nat (a - 1))) = insert_retry_base * 2 ^ nat (a - 1)"
proof -
  have "a \<in> {1, 2, 3, 4, 5}" using assms by auto
  then show ?thesis by (auto simp: int64_id insert_retry_base_def duration_defs)
qed

text \<open>The pause before the next attempt. For the attempts that occur, with any source of random
  numbers that draws below its bound or fails, \<^verbatim>\<open>insertBackoff\<close> is not negative and at most
  100 ms doubled per attempt and four seconds; the products do not overflow.\<close>

theorem insert_backoff_bounds:
  assumes "\<forall>m n. rnd m = Some n \<longrightarrow> 0 \<le> n \<and> n < m" "1 \<le> a" "a \<le> 5"
  shows "0 \<le> insert_backoff rnd a \<and> insert_backoff rnd a \<le> min insert_retry_max (insert_retry_base * 2 ^ nat (a - 1))"
proof -
  define ex where "ex = min insert_retry_max (insert_retry_base * 2 ^ nat (a - 1))"
  have pos: "0 < ex" by (simp add: ex_def insert_retry_max_def insert_retry_base_def duration_defs)
  have small: "ex \<le> 4000000000" by (simp add: ex_def insert_retry_max_def duration_defs)
  have eq: "insert_backoff rnd a = (case rnd (int64 (ex + 1)) of None \<Rightarrow> ex div 2 | Some n \<Rightarrow> n)"
  proof -
    have e: "(if int64 (insert_retry_base * int64 (2 ^ nat (a - 1))) > insert_retry_max then insert_retry_max
        else int64 (insert_retry_base * int64 (2 ^ nat (a - 1)))) = ex"
      unfolding backoff_exp [OF assms(2,3)] by (simp add: ex_def)
    have a: "(if a < 1 then 1 else a) = a" using assms(2) by simp
    show ?thesis unfolding insert_backoff_def Let_def a e using pos by simp
  qed
  have "int64 (ex + 1) = ex + 1" using pos small by (intro int64_id) auto
  then show ?thesis unfolding eq ex_def [symmetric] using assms(1) [rule_format, of "ex + 1"] pos
    by (cases "rnd (ex + 1)") auto
qed

theorem insert_backoff_bounds_witness: "insert_backoff (\<lambda>m. None) 2 \<le> 200000000"
proof -
  have d: "min insert_retry_max (insert_retry_base * 2 ^ nat (2 - 1)) = 200000000"
    by (simp add: insert_retry_max_def insert_retry_base_def duration_defs)
  show ?thesis using insert_backoff_bounds [of "\<lambda>m. None" 2] unfolding d by simp
qed

section \<open>Circuit breaker\<close>

definition fail_run :: "(go_time \<times> go_time) list \<Rightarrow> circuit \<Rightarrow> circuit" where
  "fail_run evs c = fold (\<lambda>(t1, t2) c. note_failure c t1 t2) evs c"

lemma note_failure_fails [simp]: "c_fails (note_failure c t1 t2) = c_fails c + 1"
  by (simp add: note_failure_def Let_def)

lemma note_failure_until: "open_until (note_failure c t1 t2) =
    (if c_fails c + 1 < circuit_fail_threshold \<or> open_until c > t2 then open_until c else t1 + circuit_cooldown)"
  by (simp add: note_failure_def Let_def)

lemma fail_run_fails [simp]: "c_fails (fail_run evs c) = c_fails c + int (length evs)"
  unfolding fail_run_def by (induction evs arbitrary: c) (auto split: prod.splits)

lemma fail_run_few: "c_fails c + int (length evs) < circuit_fail_threshold \<Longrightarrow> open_until (fail_run evs c) = open_until c"
  unfolding fail_run_def
  by (induction evs arbitrary: c) (auto simp: note_failure_until split: prod.splits)

lemma fail_run_window:
  assumes "open_until (fail_run evs c) = u" "\<forall>(t1, t2) \<in> set ms. t2 < u"
  shows "open_until (fail_run (evs @ ms) c) = u"
  using assms(2)
proof (induction ms rule: rev_induct)
  case (snoc e ms)
  then show ?case
    by (cases e) (auto simp: fail_run_def note_failure_until)
qed (use assms(1) in simp)

text \<open>When the breaker opens. From closed and without failures, four failures in a row leave it
  closed; the fifth opens it for exactly 15 seconds from then, and failures reported while it is open do
  not extend the window. After the window the count stands, so one more failure opens it again, and
  any success closes it at once. \<^verbatim>\<open>RemainingOpen\<close> is positive exactly while \<^verbatim>\<open>Check\<close> refuses.\<close>

theorem circuit_correct:
  assumes "length evs = 4" "0 < t1" "t1 \<le> t2" "\<forall>(a, b) \<in> set ms. b < t1 + circuit_cooldown"
    "t1 + circuit_cooldown \<le> s2" "0 < s1"
  shows "circuit_check (fail_run evs new_circuit) now = None
    \<and> circuit_check (fail_run (evs @ (t1, t2) # ms) new_circuit) now = (if now < t1 + circuit_cooldown then Some CircuitOpen else None)
    \<and> circuit_check (note_failure (fail_run (evs @ (t1, t2) # ms) new_circuit) s1 s2) now = (if now < s1 + circuit_cooldown then Some CircuitOpen else None)
    \<and> circuit_check (note_success c) now = None
    \<and> (remaining_open c now > 0 \<longleftrightarrow> circuit_check c now \<noteq> None)"
proof -
  have cd: "circuit_cooldown > 0" by (simp add: circuit_cooldown_def duration_defs)
  have th: "circuit_fail_threshold = 5" by (simp add: circuit_fail_threshold_def)
  have u4: "open_until (fail_run evs new_circuit) = 0"
    using fail_run_few [of new_circuit evs] assms(1) by (simp add: th new_circuit_def)
  have n4: "c_fails (fail_run evs new_circuit) = 4" using assms(1) by (simp add: new_circuit_def)
  have "open_until (fail_run (evs @ [(t1, t2)]) new_circuit) = t1 + circuit_cooldown"
    using n4 u4 assms(2,3) by (simp add: fail_run_def note_failure_until th)
  from fail_run_window [OF this assms(4)]
  have u5: "open_until (fail_run (evs @ (t1, t2) # ms) new_circuit) = t1 + circuit_cooldown" by simp
  have n5: "c_fails (fail_run (evs @ (t1, t2) # ms) new_circuit) = 5 + int (length ms)"
    using assms(1) by (simp add: new_circuit_def)
  have "open_until (note_failure (fail_run (evs @ (t1, t2) # ms) new_circuit) s1 s2) = s1 + circuit_cooldown"
    using assms(5) by (subst note_failure_until) (simp only: n5 u5 th, simp)
  with u4 u5 cd assms(2,6) show ?thesis
    by (auto simp: circuit_check_def note_success_def remaining_open_def Let_def)
qed

theorem circuit_correct_witness:
  "circuit_check (fail_run ([(1, 1), (2, 2), (3, 3), (4, 4)] @ (5, 5) # [(6, 6)]) new_circuit) 7 = Some CircuitOpen"
proof -
  have "length [(1, 1), (2, 2), (3, 3), (4 :: int, 4 :: int)] = 4" by simp
  moreover have "\<forall>(a, b) \<in> set [(6 :: int, 6 :: int)]. b < 5 + circuit_cooldown" "(0 :: int) < 5" "(5 :: int) \<le> 5"
    "5 + circuit_cooldown \<le> 5 + circuit_cooldown" "0 < (5 :: int)"
    by (simp_all add: circuit_cooldown_def duration_defs)
  ultimately show ?thesis
    using circuit_correct [of "[(1, 1), (2, 2), (3, 3), (4, 4)]" 5 5 "[(6, 6)]" "5 + circuit_cooldown" 5 7]
    by (simp add: circuit_cooldown_def duration_defs)
qed



section \<open>Buffers\<close>

named_theorems ing_simps "how the processor's operations act on its parts"

type_synonym proc_cfg = "int \<times> duration \<times> bool \<times> (string \<Rightarrow> geo_lookup) option \<times> (go_err \<Rightarrow> bool) option \<times> bool \<times> bool"

definition cfg_of :: "processor \<Rightarrow> proc_cfg" where
  "cfg_of p = (batch_size p, query_timeout p, enrich_country p, geo p, retryable p, has_logs p, has_errors p)"

lemma max_ingest_buf_pos: "1000 \<le> max_ingest_buf p" "max_ingest_buf p \<le> 50000"
  by (simp_all add: max_ingest_buf_def Let_def)

lemma max_ingest_buf_cfg: "cfg_of p = cfg_of p' \<Longrightarrow> max_ingest_buf p = max_ingest_buf p'"
  by (simp add: cfg_of_def max_ingest_buf_def)

lemma with_stats_simps [simp]: "circ (with_stats f w) = circ w" "stats (with_stats f w) = map_option f (stats w)"
  by (simp_all add: with_stats_def)

lemma raw_bytes_simps [simp]: "raw_bytes [] = 0" "raw_bytes (x # xs) = int (length (pe_raw x)) + raw_bytes xs"
    "raw_bytes (xs @ ys) = raw_bytes xs + raw_bytes ys" "0 \<le> raw_bytes xs"
  by (simp_all add: raw_bytes_def)

lemma raw_bytes_not_neg [simp]: "\<not> raw_bytes xs < 0"
  by (simp add: raw_bytes_def)

lemma raw_bytes_take_drop: "raw_bytes (take n xs) + raw_bytes (drop n xs) = raw_bytes xs"
  by (metis append_take_drop_id raw_bytes_simps(3))

text \<open>The first \<open>n\<close> parse errors were dropped, and the byte count follows.\<close>

definition errs_dropped :: "nat \<Rightarrow> processor \<Rightarrow> processor \<Rightarrow> bool" where
  "errs_dropped n p p' \<longleftrightarrow> cfg_of p' = cfg_of p \<and> buf p' = buf p \<and> n \<le> length (err_buf p)
     \<and> err_buf p' = drop n (err_buf p) \<and> err_buf_bytes p' = raw_bytes (err_buf p')"

lemma errs_dropped_0: "err_buf_bytes p = raw_bytes (err_buf p) \<Longrightarrow> errs_dropped 0 p p"
  by (simp add: errs_dropped_def)

lemma errs_dropped_trans: "errs_dropped n p p' \<Longrightarrow> errs_dropped m p' p'' \<Longrightarrow> errs_dropped (n + m) p p''"
  by (auto simp: errs_dropped_def add.commute)

lemma drop_oldest_dropped:
  assumes "err_buf_bytes p = raw_bytes (err_buf p)" "1 \<le> n" "n \<le> int (length (err_buf p))"
  shows "errs_dropped (nat n) p (drop_oldest_parse_errors n p)"
proof -
  have "err_buf_bytes p - raw_bytes (take (nat n) (err_buf p)) = raw_bytes (drop (nat n) (err_buf p))"
    using assms(1) raw_bytes_take_drop [of "nat n" "err_buf p"] by linarith
  moreover from this have "\<not> err_buf_bytes p < raw_bytes (take (nat n) (err_buf p))"
    using raw_bytes_simps(4) [of "drop (nat n) (err_buf p)"] by linarith
  ultimately show ?thesis using assms(2,3)
    by (auto simp: errs_dropped_def drop_oldest_parse_errors_def Let_def cfg_of_def)
qed

lemma room_entries_spec:
  assumes "err_buf_bytes p = raw_bytes (err_buf p)" "0 < mx"
  shows "\<exists>n. errs_dropped n p (fst (room_entries mx p d)) \<and> snd (room_entries mx p d) = d + int n
    \<and> int (length (err_buf (fst (room_entries mx p d)))) < mx"
proof (cases "int (length (err_buf p)) \<ge> mx")
  case False
  then show ?thesis using assms by (auto simp: room_entries.simps [of mx p] intro!: exI [of _ 0] errs_dropped_0)
next
  case True
  define n where "n = int (length (err_buf p)) - mx + 1"
  have d: "errs_dropped (nat n) p (drop_oldest_parse_errors n p)"
    by (rule drop_oldest_dropped) (use assms True in \<open>auto simp: n_def\<close>)
  have less: "int (length (err_buf (drop_oldest_parse_errors n p))) < mx"
    using True assms(2) by (auto simp: length_drop_oldest n_def)
  have "room_entries mx p d = (drop_oldest_parse_errors n p, d + n)" for d
    using True assms(2) less
    by (simp add: room_entries.simps [of mx p] room_entries.simps [of mx "drop_oldest_parse_errors n p"] n_def [symmetric] Let_def)
  moreover have "0 \<le> n" using True by (simp add: n_def)
  ultimately show ?thesis using d less by (intro exI [of _ "nat n"]) simp
qed

lemma room_bytes_spec:
  assumes "err_buf_bytes p = raw_bytes (err_buf p)"
  shows "\<exists>n. errs_dropped n p (fst (room_bytes need p d)) \<and> snd (room_bytes need p d) = d + int n
    \<and> (err_buf_bytes (fst (room_bytes need p d)) + need \<le> max_parse_error_buf_bytes \<or> err_buf (fst (room_bytes need p d)) = [])"
  using assms
proof (induction need p d rule: room_bytes.induct)
  case (1 need p d)
  show ?case
  proof (cases "err_buf_bytes p + need > max_parse_error_buf_bytes \<and> length (err_buf p) > 0")
    case False
    then show ?thesis using "1.prems"
      by (auto simp: room_bytes.simps [of need p] intro!: exI [of _ 0] errs_dropped_0)
  next
    case True
    have d1: "errs_dropped 1 p (drop_oldest_parse_errors 1 p)"
      using drop_oldest_dropped [of p 1] "1.prems" True by (simp add: Suc_leI)
    then have "err_buf_bytes (drop_oldest_parse_errors 1 p) = raw_bytes (err_buf (drop_oldest_parse_errors 1 p))"
      by (simp add: errs_dropped_def)
    from "1.IH" [OF True this] obtain n where
      n: "errs_dropped n (drop_oldest_parse_errors 1 p) (fst (room_bytes need (drop_oldest_parse_errors 1 p) (d + 1)))"
        "snd (room_bytes need (drop_oldest_parse_errors 1 p) (d + 1)) = d + 1 + int n"
        "err_buf_bytes (fst (room_bytes need (drop_oldest_parse_errors 1 p) (d + 1))) + need \<le> max_parse_error_buf_bytes
          \<or> err_buf (fst (room_bytes need (drop_oldest_parse_errors 1 p) (d + 1))) = []" by blast
    have eq: "room_bytes need p d = room_bytes need (drop_oldest_parse_errors 1 p) (d + 1)"
      using True by (simp add: room_bytes.simps [of need p])
    show ?thesis unfolding eq using errs_dropped_trans [OF d1 n(1)] n(2,3)
      by (intro exI [of _ "1 + n"]) simp
  qed
qed

text \<open>One parse error more: some of the oldest went, counted, and the new one is the last.\<close>

definition stored_error :: "parse_error \<Rightarrow> parse_error" where
  "stored_error pe = pe\<lparr>pe_raw := truncate_parse_error_raw (pe_raw pe)\<rparr>"

lemma stored_error_short: "length (pe_raw (stored_error pe)) \<le> max_parse_error_raw_bytes"
  by (simp add: stored_error_def truncate_parse_error_raw_def)

lemma append_parse_error_spec:
  assumes "err_buf_bytes p = raw_bytes (err_buf p)" "append_parse_error now pe p w = (p', w')"
  shows "\<exists>n \<le> length (err_buf p). cfg_of p' = cfg_of p \<and> buf p' = buf p
    \<and> err_buf p' = drop n (err_buf p) @ [stored_error pe] \<and> err_buf_bytes p' = raw_bytes (err_buf p')
    \<and> int (length (err_buf p')) \<le> max_ingest_buf p \<and> err_buf_bytes p' \<le> max_parse_error_buf_bytes
    \<and> circ w' = circ w \<and> stats w' = map_option (add_buffer_dropped now (int n)) (stats w)"
proof -
  define need where "need = int (length (pe_raw (stored_error pe)))"
  obtain p1 d1 where r1: "room_entries (max_ingest_buf p) p 0 = (p1, d1)" by force
  obtain p2 d2 where r2: "room_bytes need p1 d1 = (p2, d2)" by force
  have pos: "0 < max_ingest_buf p" using max_ingest_buf_pos(1) [of p] by simp
  obtain n1 where n1: "errs_dropped n1 p p1" "d1 = int n1" "int (length (err_buf p1)) < max_ingest_buf p"
    using room_entries_spec [OF assms(1) pos, of 0] by (auto simp: r1)
  then have b1: "err_buf_bytes p1 = raw_bytes (err_buf p1)" by (simp add: errs_dropped_def)
  obtain n2 where n2: "errs_dropped n2 p1 p2" "d2 = d1 + int n2"
      "err_buf_bytes p2 + need \<le> max_parse_error_buf_bytes \<or> err_buf p2 = []"
    using room_bytes_spec [OF b1, of need d1] by (auto simp: r2)
  have all: "errs_dropped (n1 + n2) p p2" using n1(1) n2(1) by (rule errs_dropped_trans)
  have len: "int (length (err_buf p2)) < max_ingest_buf p" using n1(3) n2(1) by (auto simp: errs_dropped_def)
  have bytes: "err_buf_bytes p2 + need \<le> max_parse_error_buf_bytes"
  proof (cases "err_buf p2 = []")
    case True
    then have "err_buf_bytes p2 = 0" using all by (simp add: errs_dropped_def)
    moreover have "need \<le> 16384"
      using stored_error_short [of pe] by (simp add: need_def max_parse_error_raw_bytes_def)
    ultimately show ?thesis by (simp add: max_parse_error_buf_bytes_def)
  qed (use n2(3) in simp)
  have "p' = p2\<lparr>err_buf := err_buf p2 @ [stored_error pe], err_buf_bytes := err_buf_bytes p2 + need\<rparr>"
    and "w' = (if d2 > 0 then with_stats (add_buffer_dropped now d2) w else w)"
    using assms(2) r1 r2
    by (auto simp: append_parse_error_def Let_def stored_error_def [symmetric] need_def [symmetric])
  note p' = this(1) and w' = this(2)
  have d2: "d2 = int (n1 + n2)" using n1(2) n2(2) by simp
  have st: "stats w' = map_option (add_buffer_dropped now (int (n1 + n2))) (stats w)" "circ w' = circ w"
    by (cases "stats w"; simp add: w' d2 add_buffer_dropped_def)+
  have b2: "err_buf p2 = drop (n1 + n2) (err_buf p)" "err_buf_bytes p2 = raw_bytes (err_buf p2)" "buf p2 = buf p"
      "cfg_of p2 = cfg_of p" "n1 + n2 \<le> length (err_buf p)"
    using all by (auto simp: errs_dropped_def)
  have "cfg_of p' = cfg_of p2" "buf p' = buf p2" "err_buf p' = err_buf p2 @ [stored_error pe]"
      "err_buf_bytes p' = raw_bytes (err_buf p')" "err_buf_bytes p' \<le> max_parse_error_buf_bytes"
      "int (length (err_buf p')) \<le> max_ingest_buf p"
    using len bytes b2(2) by (simp_all add: p' cfg_of_def need_def)
  with b2 st show ?thesis by (intro exI [of _ "n1 + n2"]) simp
qed

definition stored_log :: "traffic_log \<Rightarrow> traffic_log" where
  "stored_log e = e\<lparr>tl_raw := []\<rparr>"

lemma append_traffic_log_spec:
  assumes "int (length (buf p)) \<le> max_ingest_buf p" "append_traffic_log now e p w = (p', w')"
  shows "\<exists>n \<le> length (buf p). cfg_of p' = cfg_of p \<and> err_buf p' = err_buf p \<and> err_buf_bytes p' = err_buf_bytes p
    \<and> buf p' = drop n (buf p) @ [stored_log e] \<and> int (length (buf p')) \<le> max_ingest_buf p
    \<and> (n > 0 \<longrightarrow> int (length (buf p)) = max_ingest_buf p)
    \<and> circ w' = circ w \<and> stats w' = map_option (add_buffered (1 - int n) \<circ> add_buffer_dropped now (int n)) (stats w)"
proof (cases "int (length (buf p)) \<ge> max_ingest_buf p")
  case False
  with assms show ?thesis
    by (intro exI [of _ 0])
      (auto simp: append_traffic_log_def Let_def cfg_of_def stored_log_def add_buffer_dropped_def o_def option.map_comp)
next
  case True
  with assms max_ingest_buf_pos [of p] show ?thesis
    by (intro exI [of _ 1])
      (auto simp: append_traffic_log_def Let_def cfg_of_def stored_log_def add_buffer_dropped_def add_buffered_def
        o_def option.map_comp Suc_le_eq intro!: option.map_cong)
qed

lemma flush_logs_spec:
  assumes "flush_logs env p w = (err, p', w', recs)"
  shows "cfg_of p' = cfg_of p \<and> err_buf p' = err_buf p \<and> err_buf_bytes p' = err_buf_bytes p
    \<and> (buf p' = buf p \<and> stats w' = stats w \<and> recs = [] \<and> (err = None \<longrightarrow> buf p = [])
       \<or> err = None \<and> buf p' = [] \<and> recs = buf p
         \<and> stats w' = map_option (set_last_flush_at (flushed_at env) \<circ> add_buffered (- int (length (buf p))) \<circ> add_inserted (int (length (buf p)))) (stats w))"
  using assms
  by (auto simp: flush_logs_def Let_def cfg_of_def split: if_splits option.splits dest!: sym [of "Some _"])

lemma flush_errors_spec:
  assumes "flush_errors env p w = (err, p', w', errs)"
  shows "cfg_of p' = cfg_of p \<and> buf p' = buf p \<and> stats w' = stats w
    \<and> (err_buf p' = err_buf p \<and> err_buf_bytes p' = err_buf_bytes p \<and> errs = [] \<and> (err = None \<longrightarrow> err_buf p = [])
       \<or> err = None \<and> err_buf p' = [] \<and> err_buf_bytes p' = 0 \<and> errs = err_buf p)"
  using assms
  by (auto simp: flush_errors_def Let_def cfg_of_def split: if_splits option.splits dest!: sym [of "Some _"])


section \<open>Runs of a processor\<close>

text \<open>The operations a worker calls, and a run of them from some state.\<close>

datatype proc_op = LineOp line_env string string | FlushOp insert_env insert_env

definition run_op ::
    "(string \<Rightarrow> parse_result) \<Rightarrow> (string \<Rightarrow> bool) \<Rightarrow> proc_op \<Rightarrow> processor \<times> shared \<Rightarrow> (processor \<times> shared) \<times> written" where
  "run_op parse cont oper st = (case st of (p, w) \<Rightarrow> (case oper of
     LineOp env line transport \<Rightarrow>
       (case process_line parse cont env line transport p w of (_, p, w, out) \<Rightarrow> ((p, w), out))
   | FlushOp lenv eenv \<Rightarrow> (case flush lenv eenv p w of (_, p, w, out) \<Rightarrow> ((p, w), out))))"

definition run_ops ::
    "(string \<Rightarrow> parse_result) \<Rightarrow> (string \<Rightarrow> bool) \<Rightarrow> proc_op list \<Rightarrow> processor \<times> shared \<Rightarrow> (processor \<times> shared) \<times> written" where
  "run_ops parse cont opers st = foldl (\<lambda>(st, ls, es) oper.
     case run_op parse cont oper st of (st, l, e) \<Rightarrow> (st, ls @ l, es @ e)) (st, [], []) opers"

text \<open>The entry that an accepted line adds to the buffer.\<close>

definition accepted :: "(string \<Rightarrow> parse_result) \<Rightarrow> processor \<Rightarrow> proc_op \<Rightarrow> traffic_log list" where
  "accepted parse p oper = (case oper of
     LineOp env line transport \<Rightarrow>
       (let line = trim_space line; e = res_log (parse line) in
        if line \<noteq> [] \<and> res_ok (parse line) then
          [stored_log (enrich_geo p (if parsed_at e = 0 then e\<lparr>parsed_at := line_now env\<rparr> else e))]
        else [])
   | FlushOp _ _ \<Rightarrow> [])"

definition proc_ok :: "processor \<Rightarrow> bool" where
  "proc_ok p \<longleftrightarrow> int (length (buf p)) \<le> max_ingest_buf p \<and> int (length (err_buf p)) \<le> max_ingest_buf p
     \<and> err_buf_bytes p = raw_bytes (err_buf p) \<and> err_buf_bytes p \<le> max_parse_error_buf_bytes
     \<and> (\<forall>pe \<in> set (err_buf p). length (pe_raw pe) \<le> max_parse_error_raw_bytes)"

text \<open>The books of one processor: the entries accepted so far, what was written, the buffers, the counters.\<close>

definition books :: "traffic_log list \<Rightarrow> written \<Rightarrow> processor \<Rightarrow> line_stats \<Rightarrow> bool" where
  "books acc out p s \<longleftrightarrow> subseq (fst out @ buf p) acc
     \<and> parsed_total s = int (length acc) \<and> inserted_total s = int (length (fst out))
     \<and> buffered_lines s = int (length (buf p))
     \<and> received_total s = parsed_total s + skipped_total s + parse_errors_total s
     \<and> buffer_drops_total s = (parsed_total s - inserted_total s - buffered_lines s)
         + (parse_errors_total s - int (length (snd out)) - int (length (err_buf p)))"

definition step_ok :: "traffic_log list \<Rightarrow> processor \<Rightarrow> shared \<Rightarrow> processor \<Rightarrow> shared \<Rightarrow> written \<Rightarrow> bool" where
  "step_ok new p w p' w' out \<longleftrightarrow> (proc_ok p \<longrightarrow> proc_ok p') \<and> cfg_of p' = cfg_of p
     \<and> (proc_ok p \<longrightarrow> (\<forall>s. stats w = Some s \<longrightarrow> (\<exists>s'. stats w' = Some s'
         \<and> (\<forall>acc ls es. books acc (ls, es) p s \<longrightarrow> books (acc @ new) (ls @ fst out, es @ snd out) p' s'))))"

lemma step_ok_trans:
  assumes "step_ok n1 p w p1 w1 o1" "step_ok n2 p1 w1 p2 w2 o2"
  shows "step_ok (n1 @ n2) p w p2 w2 (fst o1 @ fst o2, snd o1 @ snd o2)"
  using assms unfolding step_ok_def by (metis (no_types, lifting) append.assoc fst_conv snd_conv)

lemma step_ok_refl: "step_ok [] p w p w ([], [])"
  by (simp add: step_ok_def)

lemma flush_logs_step:
  assumes "flush_logs env p w = (err, p', w', recs)"
  shows "step_ok [] p w p' w' (recs, [])"
proof -
  note f = flush_logs_spec [OF assms]
  have m: "max_ingest_buf p' = max_ingest_buf p" using f by (intro max_ingest_buf_cfg) simp
  have "proc_ok p'" if "proc_ok p"
    using f that max_ingest_buf_pos(1) [of p] by (auto simp: proc_ok_def m)
  moreover have "\<exists>s'. stats w' = Some s' \<and> (\<forall>acc ls es. books acc (ls, es) p s \<longrightarrow> books (acc @ []) (ls @ recs, es @ []) p' s')"
    if "stats w = Some s" for s
    using f that by (auto simp: books_def set_last_flush_at_def add_buffered_def add_inserted_def)
  ultimately show ?thesis using f by (simp add: step_ok_def)
qed

lemma flush_errors_step:
  assumes "flush_errors env p w = (err, p', w', errs)"
  shows "step_ok [] p w p' w' ([], errs)"
proof -
  note f = flush_errors_spec [OF assms]
  have m: "max_ingest_buf p' = max_ingest_buf p" using f by (intro max_ingest_buf_cfg) simp
  have "proc_ok p'" if "proc_ok p"
    using f that max_ingest_buf_pos(1) [of p] by (auto simp: proc_ok_def m max_parse_error_buf_bytes_def)
  moreover have "\<exists>s'. stats w' = Some s' \<and> (\<forall>acc ls es. books acc (ls, es) p s \<longrightarrow> books (acc @ []) (ls @ [], es @ errs) p' s')"
    if "stats w = Some s" for s
    using f that by (auto simp: books_def)
  ultimately show ?thesis using f by (simp add: step_ok_def)
qed

lemma flush_step:
  assumes "flush lenv eenv p w = (r, p', w', out)"
  shows "step_ok [] p w p' w' out"
proof -
  obtain err1 p1 w1 recs where 1: "flush_logs lenv p w = (err1, p1, w1, recs)" using prod_cases4 by blast
  note s1 = flush_logs_step [OF 1]
  show ?thesis
  proof (cases "err1 = None")
    case False
    with assms 1 s1 show ?thesis by (auto simp: flush_def Let_def)
  next
    case True
    obtain err2 p2 w2 errs where 2: "flush_errors eenv p1 w1 = (err2, p2, w2, errs)" using prod_cases4 by blast
    from step_ok_trans [OF s1 flush_errors_step [OF 2]] assms 1 2 True show ?thesis by (auto simp: flush_def Let_def)
  qed
qed

lemma books_drop:
  "subseq (ls @ b) acc \<Longrightarrow> subseq (ls @ drop n b @ [e]) (acc @ [e])"
proof -
  assume a: "subseq (ls @ b) acc"
  have "subseq (drop n b) b" by (metis append_take_drop_id subseq_drop_many subseq_order.refl list_emb_append2)
  then have "subseq (ls @ drop n b) (ls @ b)" by (intro list_emb_append_mono) auto
  with a have "subseq (ls @ drop n b) acc" by (rule subseq_order.trans [rotated])
  then have "subseq ((ls @ drop n b) @ [e]) (acc @ [e])" by (intro list_emb_append_mono) auto
  then show ?thesis by simp
qed

lemma append_traffic_log_step:
  assumes "append_traffic_log now e p (with_stats (add_parsed 1) (with_stats (add_received tr) w)) = (p', w')"
  shows "step_ok [stored_log e] p w p' w' ([], [])"
proof (cases "proc_ok p")
  case True
  then have len: "int (length (buf p)) \<le> max_ingest_buf p" by (simp add: proc_ok_def)
  from append_traffic_log_spec [OF len assms] obtain n where
    n: "n \<le> length (buf p)" "cfg_of p' = cfg_of p" "err_buf p' = err_buf p" "err_buf_bytes p' = err_buf_bytes p"
      "buf p' = drop n (buf p) @ [stored_log e]" "int (length (buf p')) \<le> max_ingest_buf p"
      "stats w' = map_option (add_buffered (1 - int n) \<circ> add_buffer_dropped now (int n))
         (stats (with_stats (add_parsed 1) (with_stats (add_received tr) w)))" by blast
  have m: "max_ingest_buf p' = max_ingest_buf p" using n(2) by (rule max_ingest_buf_cfg)
  have ok: "proc_ok p'" using True n m by (simp add: proc_ok_def)
  have "\<exists>s'. stats w' = Some s' \<and> (\<forall>acc ls es. books acc (ls, es) p s \<longrightarrow> books (acc @ [stored_log e]) (ls @ [], es @ []) p' s')"
    if s: "stats w = Some s" for s
  proof (intro exI conjI allI impI)
    show "stats w' = Some (add_buffered (1 - int n) (add_buffer_dropped now (int n) (add_parsed 1 (add_received tr s))))"
      using n(7) s by simp
    show "books (acc @ [stored_log e]) (ls @ [], es @ []) p'
        (add_buffered (1 - int n) (add_buffer_dropped now (int n) (add_parsed 1 (add_received tr s))))"
      if b: "books acc (ls, es) p s" for acc ls es
      using b n(1,3,5) books_drop [of ls "buf p" acc n "stored_log e"]
      by (auto simp: books_def add_buffered_def add_buffer_dropped_def add_parsed_def add_received_def Let_def)
  qed
  with ok n(2) show ?thesis by (simp add: step_ok_def)
qed (use assms in \<open>auto simp: step_ok_def append_traffic_log_def Let_def cfg_of_def split: if_splits\<close>)


lemma append_parse_error_step:
  assumes "append_parse_error now pe p (with_stats (add_parse_errors 1) (with_stats (add_received tr) w)) = (p', w')"
  shows "proc_ok p \<Longrightarrow> step_ok [] p w p' w' ([], [])"
proof -
  assume True: "proc_ok p"
  then have bytes: "err_buf_bytes p = raw_bytes (err_buf p)" by (simp add: proc_ok_def)
  from append_parse_error_spec [OF bytes assms] obtain n where
    n: "n \<le> length (err_buf p)" "cfg_of p' = cfg_of p" "buf p' = buf p" "err_buf p' = drop n (err_buf p) @ [stored_error pe]"
      "err_buf_bytes p' = raw_bytes (err_buf p')" "int (length (err_buf p')) \<le> max_ingest_buf p"
      "err_buf_bytes p' \<le> max_parse_error_buf_bytes"
      "stats w' = map_option (add_buffer_dropped now (int n))
         (stats (with_stats (add_parse_errors 1) (with_stats (add_received tr) w)))" by blast
  have m: "max_ingest_buf p' = max_ingest_buf p" using n(2) by (rule max_ingest_buf_cfg)
  have "\<forall>pe \<in> set (err_buf p'). length (pe_raw pe) \<le> max_parse_error_raw_bytes"
    using True stored_error_short [of pe] by (auto simp: proc_ok_def n(4) dest: in_set_dropD)
  with True n m have ok: "proc_ok p'" by (simp add: proc_ok_def)
  have "\<exists>s'. stats w' = Some s' \<and> (\<forall>acc ls es. books acc (ls, es) p s \<longrightarrow> books (acc @ []) (ls @ [], es @ []) p' s')"
    if s: "stats w = Some s" for s
  proof (intro exI conjI allI impI)
    show "stats w' = Some (add_buffer_dropped now (int n) (add_parse_errors 1 (add_received tr s)))"
      using n(8) s by simp
    show "books (acc @ []) (ls @ [], es @ []) p' (add_buffer_dropped now (int n) (add_parse_errors 1 (add_received tr s)))"
      if b: "books acc (ls, es) p s" for acc ls es
      using b n(1,3,4)
      by (auto simp: books_def add_buffer_dropped_def add_parse_errors_def add_received_def Let_def)
  qed
  with ok n(2) show ?thesis by (simp add: step_ok_def)
qed

lemma skip_step: "step_ok [] p w p (with_stats (add_skipped 1) (with_stats (add_received tr) w)) ([], [])"
  by (auto simp: step_ok_def books_def add_skipped_def add_received_def Let_def)

text \<open>The four ways through \<^verbatim>\<open>ProcessLine\<close>.\<close>

lemma process_line_step:
  assumes "process_line parse cont env line tr p w = (r, p', w', out)" "proc_ok p"
  shows "step_ok (accepted parse p (LineOp env line tr)) p w p' w' out"
proof -
  define l where "l = trim_space line"
  define res where "res = parse l"
  define w1 where "w1 = with_stats (add_received tr) w"
  consider "l = []" | "l \<noteq> []" "\<not> res_ok res" "res_skipped res \<or> \<not> cont l"
    | "l \<noteq> []" "\<not> res_ok res" "\<not> res_skipped res" "cont l" | "l \<noteq> []" "res_ok res" by blast
  then show ?thesis
  proof cases
    case 1
    with assms(1) show ?thesis by (auto simp: process_line_def accepted_def Let_def l_def step_ok_refl)
  next
    case 2
    with assms(1) have "p' = p" "w' = with_stats (add_skipped 1) w1" "out = ([], [])"
      by (auto simp: process_line_def Let_def l_def res_def w1_def split: if_splits)
    moreover have "accepted parse p (LineOp env line tr) = []"
      using 2 by (simp add: accepted_def Let_def l_def res_def)
    ultimately show ?thesis by (simp add: skip_step w1_def)
  next
    case 3
    obtain p1 w2 where a: "append_parse_error (line_now env)
        \<lparr>pe_timestamp = line_now env, pe_vendor = res_vendor res, pe_reason = res_reason res, pe_raw = l\<rparr>
        p (with_stats (add_parse_errors 1) w1) = (p1, w2)" by force
    obtain err p3 w3 errs where f: "flush_errors (errs_env env) p1 w2 = (err, p3, w3, errs)" using prod_cases4 by blast
    have s1: "step_ok [] p w p1 w2 ([], [])"
      using append_parse_error_step [OF a [unfolded w1_def] assms(2)] .
    have "(p', w', out) = (if int (length (err_buf p1)) \<ge> batch_size p1 then (p3, w3, ([], errs)) else (p1, w2, ([], [])))"
      using assms(1) 3 a f
      by (simp add: process_line_def Let_def l_def [symmetric] res_def [symmetric] w1_def [symmetric] split: if_splits)
    moreover have "accepted parse p (LineOp env line tr) = []"
      using 3 by (simp add: accepted_def Let_def l_def res_def)
    ultimately show ?thesis
      using s1 step_ok_trans [OF s1 flush_errors_step [OF f]] by (auto split: if_splits)
  next
    case 4
    define e where "e = (if parsed_at (res_log res) = 0 then (res_log res)\<lparr>parsed_at := line_now env\<rparr> else res_log res)"
    obtain p1 w2 where a: "append_traffic_log (line_now env) (enrich_geo p e) p (with_stats (add_parsed 1) w1) = (p1, w2)" by force
    obtain n err p3 w3 o3 where f: "flush (logs_env env) (errs_env env) p1 w2 = ((n, err), p3, w3, o3)"
      using prod_cases4 by (metis surj_pair)
    have acc: "accepted parse p (LineOp env line tr) = [stored_log (enrich_geo p e)]"
      using 4 by (simp add: accepted_def Let_def l_def res_def e_def)
    have s1: "step_ok [stored_log (enrich_geo p e)] p w p1 w2 ([], [])"
      using append_traffic_log_step [OF a [unfolded w1_def]] .
    have "(p', w', out) = (if int (length (buf p1)) \<ge> batch_size p1 then (p3, w3, o3) else (p1, w2, ([], [])))"
      using assms(1) 4 a f
      by (simp add: process_line_def Let_def l_def [symmetric] res_def [symmetric] w1_def [symmetric] e_def [symmetric]
          split: if_splits)
    then show ?thesis
      using s1 step_ok_trans [OF s1 flush_step [OF f]] by (auto simp: acc split: if_splits)
  qed
qed

lemma run_op_step:
  assumes "run_op parse cont oper (p, w) = ((p', w'), out)" "proc_ok p"
  shows "step_ok (accepted parse p oper) p w p' w' out"
proof (cases oper)
  case (LineOp env line tr)
  then show ?thesis using assms by (auto simp: run_op_def intro: process_line_step split: prod.splits)
next
  case (FlushOp a b)
  then show ?thesis using assms by (auto simp: run_op_def accepted_def intro: flush_step split: prod.splits)
qed

lemma accepted_cfg: "cfg_of p = cfg_of p' \<Longrightarrow> accepted parse p oper = accepted parse p' oper"
proof -
  assume c: "cfg_of p = cfg_of p'"
  then have g: "geo p = geo p'" and e: "enrich_country p = enrich_country p'" by (auto simp: cfg_of_def)
  have eq: "enrich_geo p = enrich_geo p'" by (rule ext) (unfold enrich_geo_def g e, rule refl)
  show ?thesis unfolding accepted_def eq by (rule refl)
qed

lemma run_ops_snoc: "run_ops parse cont (opers @ [oper]) st =
    (case run_ops parse cont opers st of (st, ls, es) \<Rightarrow>
      case run_op parse cont oper st of (st, l, e) \<Rightarrow> (st, ls @ l, es @ e))"
  by (simp add: run_ops_def split_beta)

lemma run_ops_step:
  assumes "proc_ok p" "run_ops parse cont opers (p, w) = ((p', w'), out)"
  shows "step_ok (concat (map (accepted parse p) opers)) p w p' w' out"
  using assms(2)
proof (induction opers arbitrary: p' w' out rule: rev_induct)
  case Nil
  then have "p' = p" "w' = w" "out = ([], [])" by (auto simp: run_ops_def)
  then show ?case by (simp add: step_ok_refl)
next
  case (snoc oper opers)
  obtain p1 w1 o1 where 1: "run_ops parse cont opers (p, w) = ((p1, w1), o1)" by (metis surj_pair)
  obtain p2 w2 o2 where 2: "run_op parse cont oper (p1, w1) = ((p2, w2), o2)" by (metis surj_pair)
  note s1 = snoc.IH [OF 1]
  have "proc_ok p1" and c: "cfg_of p1 = cfg_of p" using s1 assms(1) by (auto simp: step_ok_def)
  from step_ok_trans [OF s1 run_op_step [OF 2 this(1)]] snoc.prems 1 2 show ?case
    by (auto simp: run_ops_snoc accepted_cfg [OF c] split: prod.splits)
qed

lemma proc_ok_new: "proc_ok (new_processor batch tmo enrich g retry logs errs)"
  by (simp add: proc_ok_def new_processor_def max_ingest_buf_def max_parse_error_buf_bytes_def Let_def)

text \<open>The buffers of a processor stay bounded. Whatever lines and flushes come and whatever the
  inserts answer, from a new processor at most \<^verbatim>\<open>maxIngestBuf\<close> (so at most 50,000) entries and parse
  errors are held, no stored raw line exceeds 16 KiB, their sum stays below 32 MiB, and the running
  byte count is exactly that sum.\<close>

theorem buffers_bounded:
  assumes "run_ops parse cont opers (new_processor batch tmo enrich g retry logs errs, w) = ((p, w'), out)"
  shows "int (length (buf p)) \<le> max_ingest_buf p \<and> int (length (err_buf p)) \<le> max_ingest_buf p
    \<and> max_ingest_buf p \<le> 50000
    \<and> err_buf_bytes p = raw_bytes (err_buf p) \<and> err_buf_bytes p \<le> 33554432
    \<and> list_all (\<lambda>pe. length (pe_raw pe) \<le> 16384) (err_buf p)"
proof -
  have "proc_ok p" using run_ops_step [OF proc_ok_new assms] by (simp add: step_ok_def proc_ok_new)
  then show ?thesis using max_ingest_buf_pos(2) [of p]
    by (simp add: proc_ok_def list_all_iff max_parse_error_raw_bytes_def max_parse_error_buf_bytes_def)
qed

text \<open>C22: The books of a processor balance. Over any run from a new processor and new counters, the
  entries acknowledged by the store followed by those still buffered are a subsequence, in order, of
  the entries accepted from the lines: none is invented, doubled or reordered, also across failed
  and retried inserts. The counters are exact: parsed, inserted and buffered count just these, every
  received line is parsed, skipped or a parse error, and what the buffers dropped is what is missing.\<close>

theorem books_balance:
  assumes "run_ops parse cont opers (new_processor batch tmo enrich g retry logs errs, w) = ((p, w'), ls, es)"
    "stats w = Some new_stats"
  shows "\<exists>s. stats w' = Some s
    \<and> subseq (ls @ buf p) (concat (map (accepted parse (new_processor batch tmo enrich g retry logs errs)) opers))
    \<and> parsed_total s = int (length (concat (map (accepted parse (new_processor batch tmo enrich g retry logs errs)) opers)))
    \<and> inserted_total s = int (length ls) \<and> buffered_lines s = int (length (buf p))
    \<and> received_total s = parsed_total s + skipped_total s + parse_errors_total s
    \<and> buffer_drops_total s = (parsed_total s - inserted_total s - buffered_lines s)
        + (parse_errors_total s - int (length es) - int (length (err_buf p)))"
proof -
  let ?p0 = "new_processor batch tmo enrich g retry logs errs"
  have "books [] ([], []) ?p0 new_stats"
    by (simp add: books_def new_stats_def new_processor_def)
  with run_ops_step [OF proc_ok_new assms(1)] assms(2) obtain s where
    "stats w' = Some s" "books ([] @ concat (map (accepted parse ?p0) opers)) ([] @ ls, [] @ es) p s"
    unfolding step_ok_def by (metis fst_conv snd_conv proc_ok_new)
  then show ?thesis by (simp add: books_def)
qed


definition ex_log :: traffic_log where
  "ex_log = \<lparr>tl_timestamp = 1, parsed_at = 0, tl_vendor = ''v'', device = ''d'', src_ip = ''10.0.0.1'', dst_ip = ''8.8.8.8'',
     src_port = 1, dst_port = 2, action = ''allow'', rule_name = [], proto = ''tcp'', src_zone = [], dst_zone = [],
     src_country = [], dst_country = [], src_city = [], dst_city = [], src_region = [], dst_region = [],
     src_lat = 0, src_lon = 0, dst_lat = 0, dst_lon = 0, bytes_sent = 0, bytes_recv = 0, packets_sent = 0,
     packets_recv = 0, tl_raw = ''x''\<rparr>"

definition ex_parse :: "string \<Rightarrow> parse_result" where
  "ex_parse line = \<lparr>res_ok = (line = ''x''), res_skipped = False, res_log = ex_log, res_vendor = [], res_reason = ''r''\<rparr>"

definition ex_insert :: insert_env where
  "ex_insert = \<lparr>check_at = 1,
     attempt = (\<lambda>_. \<lparr>ctx_before = None, fn_result = (\<lambda>_. None), ctx_after = None, ctx_in_pause = None\<rparr>),
     fail_until_at = 1, fail_now_at = 1, flushed_at = 2\<rparr>"

definition ex_line :: line_env where
  "ex_line = \<lparr>line_now = 7, logs_env = ex_insert, errs_env = ex_insert\<rparr>"

definition ex_proc :: processor where
  "ex_proc = new_processor 5 second False None None True True"

definition ex_shared :: shared where
  "ex_shared = \<lparr>circ = new_circuit, stats = Some new_stats\<rparr>"

definition ex_stored :: traffic_log where
  "ex_stored = stored_log (ex_log\<lparr>parsed_at := 7\<rparr>)"

lemma trim_x: "trim_space ''x'' = ''x''" "trim_space ''y'' = ''y''"
  by code_simp+

lemma ex_run: "run_ops ex_parse (\<lambda>_. True) [LineOp ex_line ''x'' ''udp'', LineOp ex_line ''y'' ''udp''] (ex_proc, ex_shared) =
   ((ex_proc\<lparr>buf := [ex_stored],
       err_buf := [\<lparr>pe_timestamp = 7, pe_vendor = [], pe_reason = ''r'', pe_raw = ''y''\<rparr>], err_buf_bytes := 1\<rparr>,
     ex_shared\<lparr>stats := Some (new_stats\<lparr>received_total := 2, udp_received := 2, parsed_total := 1, parse_errors_total := 1,
       buffered_lines := 1\<rparr>)\<rparr>), ([], []))"
  by (simp add: run_ops_def run_op_def process_line_def trim_x ex_parse_def ex_proc_def ex_shared_def ex_line_def
      with_stats_def add_received_def add_parsed_def add_parse_errors_def append_traffic_log_def append_parse_error_def
      new_processor_def max_ingest_buf_def enrich_geo_def ex_stored_def stored_log_def ex_log_def new_stats_def add_buffered_def
      room_entries.simps room_bytes.simps truncate_parse_error_raw_def max_parse_error_raw_bytes_def
      max_parse_error_buf_bytes_def Let_def)

theorem buffers_bounded_witness:
  "err_buf_bytes (ex_proc\<lparr>buf := [ex_stored],
       err_buf := [\<lparr>pe_timestamp = 7, pe_vendor = [], pe_reason = ''r'', pe_raw = ''y''\<rparr>], err_buf_bytes := 1\<rparr>) \<le> 33554432"
  using buffers_bounded [OF ex_run [unfolded ex_proc_def]] by (simp add: ex_proc_def)

theorem books_balance_witness:
  "subseq [ex_stored] (concat (map (accepted ex_parse ex_proc) [LineOp ex_line ''x'' ''udp'', LineOp ex_line ''y'' ''udp'']))"
proof -
  have "stats ex_shared = Some new_stats" by (simp add: ex_shared_def)
  from books_balance [OF ex_run [unfolded ex_proc_def] this] show ?thesis by (simp add: ex_proc_def)
qed

section \<open>A batch size above the cap\<close>

text \<open>A batch size above 50,000 switches the flush by size off. The buffers are capped at 50,000,
  which is below such a batch size, so \<^verbatim>\<open>ProcessLine\<close> never writes anything, however many lines
  come: with a full buffer each accepted line only discards the oldest entry, although the store may be
  available. Only the timer still flushes.\<close>

theorem large_batch_never_flushes:
  assumes "process_line parse cont env line tr p w = (r, p', w', out)" "proc_ok p" "50000 < batch_size p"
  shows "out = ([], [])
    \<and> (int (length (buf p)) = 50000 \<and> trim_space line \<noteq> [] \<and> res_ok (parse (trim_space line)) \<longrightarrow>
        (\<exists>e. buf p' = tl (buf p) @ [e]))"
proof -
  have cap: "max_ingest_buf p = 50000" using assms(3) by (simp add: max_ingest_buf_def)
  have "step_ok (accepted parse p (LineOp env line tr)) p w p' w' out" using assms(1,2) by (rule process_line_step)
  show ?thesis
  proof (cases "trim_space line \<noteq> [] \<and> res_ok (parse (trim_space line))")
    case True
    define e where "e = enrich_geo p (if parsed_at (res_log (parse (trim_space line))) = 0
      then (res_log (parse (trim_space line)))\<lparr>parsed_at := line_now env\<rparr> else res_log (parse (trim_space line)))"
    obtain p1 w2 where a: "append_traffic_log (line_now env) e p (with_stats (add_parsed 1) (with_stats (add_received tr) w)) = (p1, w2)" by force
    have len: "int (length (buf p)) \<le> max_ingest_buf p" using assms(2) by (simp add: proc_ok_def)
    from append_traffic_log_spec [OF len a] have s: "cfg_of p1 = cfg_of p" "int (length (buf p1)) \<le> 50000"
      by (auto simp: cap)
    then have small: "\<not> int (length (buf p1)) \<ge> batch_size p1" using assms(3) by (simp add: cfg_of_def)
    have "p' = p1 \<and> out = ([], [])"
      using assms(1) True a small by (simp add: process_line_def Let_def e_def [symmetric])
    moreover have "\<exists>e. buf p1 = tl (buf p) @ [e]" if "int (length (buf p)) = 50000"
      using a that by (auto simp: append_traffic_log_def Let_def cap drop_Suc split: if_splits)
    ultimately show ?thesis by simp
  next
    case False
    show ?thesis
    proof (cases "trim_space line = [] \<or> res_skipped (parse (trim_space line)) \<or> \<not> cont (trim_space line)")
      case True
      with False assms(1) show ?thesis by (auto simp: process_line_def Let_def split: if_splits)
    next
      case shown: False
      obtain p1 w2 where a: "append_parse_error (line_now env) \<lparr>pe_timestamp = line_now env,
          pe_vendor = res_vendor (parse (trim_space line)), pe_reason = res_reason (parse (trim_space line)), pe_raw = trim_space line\<rparr>
          p (with_stats (add_parse_errors 1) (with_stats (add_received tr) w)) = (p1, w2)" by force
      have bytes: "err_buf_bytes p = raw_bytes (err_buf p)" using assms(2) by (simp add: proc_ok_def)
      from append_parse_error_spec [OF bytes a] have "cfg_of p1 = cfg_of p" "int (length (err_buf p1)) \<le> 50000"
        by (auto simp: cap)
      then have "\<not> int (length (err_buf p1)) \<ge> batch_size p1" using assms(3) by (simp add: cfg_of_def)
      with False shown assms(1) a show ?thesis by (auto simp: process_line_def Let_def)
    qed
  qed
qed

theorem large_batch_never_flushes_witness:
  "snd (snd (snd (process_line ex_parse (\<lambda>_. True) ex_line ''x'' ''udp'' (ex_proc\<lparr>batch_size := 60000\<rparr>) ex_shared))) = ([], [])"
proof -
  obtain r p' w' out where r: "process_line ex_parse (\<lambda>_. True) ex_line ''x'' ''udp'' (ex_proc\<lparr>batch_size := 60000\<rparr>) ex_shared = (r, p', w', out)"
    using prod_cases4 by blast
  have "proc_ok (ex_proc\<lparr>batch_size := 60000\<rparr>)" "50000 < batch_size (ex_proc\<lparr>batch_size := 60000\<rparr>)"
    by (simp_all add: ex_proc_def new_processor_def proc_ok_def max_ingest_buf_def max_parse_error_buf_bytes_def Let_def)
  from large_batch_never_flushes [OF r this] r show ?thesis by simp
qed

section \<open>Enrichment\<close>

text \<open>What the enrichment relies on in a lookup service; the GeoIP index keeps these laws.\<close>

locale geo_lookuper =
  fixes lookup :: "string \<Rightarrow> geo_lookup"
  assumes only_ipv4: "to4 (parse_ip (trim_space s)) = [] \<Longrightarrow> \<not> found (lookup s)"
    and space_free: "lookup (trim_space s) = lookup s"
begin

lemma enrich_side_unknown: "to4 (parse_ip (trim_space ip)) = [] \<Longrightarrow> enrich_side lookup enr ip sd = sd"
  by (cases sd) (simp add: enrich_side_def only_ipv4)

lemma enrich_side_trim: "enrich_side lookup enr (trim_space ip) sd = enrich_side lookup enr ip sd"
  by (cases sd) (simp add: enrich_side_def space_free)

end


lemma index_lookup_geo_lookuper: "geo_lookuper (index_lookup ix)"
  by unfold_locales (auto simp: index_lookup_def no_lookup_def Let_def)

interpretation geo_idx: geo_lookuper "index_lookup ix" for ix
  by (rule index_lookup_geo_lookuper)

lemma needs_country_Nil: "needs_country c \<Longrightarrow> usable_country d \<Longrightarrow> \<not> needs_country d"
  by (simp add: usable_country_def)

lemma enrich_side_idem: "enrich_side g enr ip (enrich_side g enr ip sd) = enrich_side g enr ip sd"
  by (cases sd) (auto simp: enrich_side_def Let_def usable_country_def)

lemma enrich_side_keeps:
  "case sd of (c, ci, rg, la, lo) \<Rightarrow> case enrich_side g enr ip sd of (c', ci', rg', la', lo') \<Rightarrow>
     (c' = c \<or> enr \<and> needs_country c \<and> usable_country c')
     \<and> (ci' = ci \<or> trim_space ci = []) \<and> (rg' = rg \<or> trim_space rg = [])
     \<and> (la' = la \<and> lo' = lo \<or> f64_zero la \<and> f64_zero lo)"
  by (cases sd) (auto simp: enrich_side_def Let_def)

lemma enrich_geo_sides:
  "src_side (enrich_geo p e) = (case geo p of None \<Rightarrow> src_side e | Some g \<Rightarrow> enrich_side g (enrich_country p) (src_ip e) (src_side e))"
  "dst_side (enrich_geo p e) = (case geo p of None \<Rightarrow> dst_side e | Some g \<Rightarrow> enrich_side g (enrich_country p) (dst_ip e) (dst_side e))"
  "src_ip (enrich_geo p e) = src_ip e" "dst_ip (enrich_geo p e) = dst_ip e"
  by (simp_all add: enrich_geo_def src_side_def dst_side_def split: option.splits prod.splits)

lemma enrich_geo_same: "src_side (enrich_geo p e) = src_side e \<Longrightarrow> dst_side (enrich_geo p e) = dst_side e \<Longrightarrow> enrich_geo p e = e"
  by (cases e) (auto simp: enrich_geo_def src_side_def dst_side_def split: option.splits prod.splits)

text \<open>Enrichment only fills gaps. On either side of an entry a city or region that is not blank,
  coordinates that are not both zero, and a usable country stay as they are; a country is only
  replaced, if enabled, by a usable one. Enriching twice is enriching once; and with the GeoIP index as
  the lookup, an entry whose addresses are no IPv4 addresses is not changed at all.\<close>

theorem enrich_geo_correct:
  "(case src_side e of (c, ci, rg, la, lo) \<Rightarrow> case src_side (enrich_geo p e) of (c', ci', rg', la', lo') \<Rightarrow>
      (c' = c \<or> enrich_country p \<and> needs_country c \<and> usable_country c')
      \<and> (ci' = ci \<or> trim_space ci = []) \<and> (rg' = rg \<or> trim_space rg = [])
      \<and> (la' = la \<and> lo' = lo \<or> f64_zero la \<and> f64_zero lo))
   \<and> (case dst_side e of (c, ci, rg, la, lo) \<Rightarrow> case dst_side (enrich_geo p e) of (c', ci', rg', la', lo') \<Rightarrow>
      (c' = c \<or> enrich_country p \<and> needs_country c \<and> usable_country c')
      \<and> (ci' = ci \<or> trim_space ci = []) \<and> (rg' = rg \<or> trim_space rg = [])
      \<and> (la' = la \<and> lo' = lo \<or> f64_zero la \<and> f64_zero lo))
   \<and> enrich_geo p (enrich_geo p e) = enrich_geo p e
   \<and> (geo p = Some (index_lookup ix) \<and> to4 (parse_ip (trim_space (src_ip e))) = [] \<and> to4 (parse_ip (trim_space (dst_ip e))) = []
        \<longrightarrow> enrich_geo p e = e)"
proof (intro conjI)
  show "case src_side e of (c, ci, rg, la, lo) \<Rightarrow> case src_side (enrich_geo p e) of (c', ci', rg', la', lo') \<Rightarrow>
      (c' = c \<or> enrich_country p \<and> needs_country c \<and> usable_country c')
      \<and> (ci' = ci \<or> trim_space ci = []) \<and> (rg' = rg \<or> trim_space rg = [])
      \<and> (la' = la \<and> lo' = lo \<or> f64_zero la \<and> f64_zero lo)"
    using enrich_side_keeps [where sd = "src_side e"]
    by (cases "geo p") (simp_all add: enrich_geo_sides split: prod.splits)
  show "case dst_side e of (c, ci, rg, la, lo) \<Rightarrow> case dst_side (enrich_geo p e) of (c', ci', rg', la', lo') \<Rightarrow>
      (c' = c \<or> enrich_country p \<and> needs_country c \<and> usable_country c')
      \<and> (ci' = ci \<or> trim_space ci = []) \<and> (rg' = rg \<or> trim_space rg = [])
      \<and> (la' = la \<and> lo' = lo \<or> f64_zero la \<and> f64_zero lo)"
    using enrich_side_keeps [where sd = "dst_side e"]
    by (cases "geo p") (simp_all add: enrich_geo_sides split: prod.splits)
  show "enrich_geo p (enrich_geo p e) = enrich_geo p e"
    by (rule enrich_geo_same) (cases "geo p"; simp add: enrich_geo_sides enrich_side_idem)+
  show "geo p = Some (index_lookup ix) \<and> to4 (parse_ip (trim_space (src_ip e))) = [] \<and> to4 (parse_ip (trim_space (dst_ip e))) = []
        \<longrightarrow> enrich_geo p e = e"
    by (intro impI enrich_geo_same) (simp_all add: enrich_geo_sides geo_idx.enrich_side_unknown)
qed

theorem enrich_geo_correct_witness:
  "enrich_geo (ex_proc\<lparr>geo := Some (index_lookup None)\<rparr>) (ex_log\<lparr>src_ip := ''x'', dst_ip := []\<rparr>) = ex_log\<lparr>src_ip := ''x'', dst_ip := []\<rparr>"
proof -
  have "to4 (parse_ip (trim_space ''x'')) = []" "to4 (parse_ip (trim_space [])) = []"
    by (simp_all add: trim_x parse_ip_def)
  then show ?thesis
    using enrich_geo_correct [where e = "ex_log\<lparr>src_ip := ''x'', dst_ip := []\<rparr>"
        and p = "ex_proc\<lparr>geo := Some (index_lookup None)\<rparr>" and ix = None]
    by simp
qed

end
