(* ===== verification/Ingest_Frames.thy ===== *)
theory Ingest_Frames
  imports Go_Strings
begin

text \<open>
  What arrives on an ingest connection (\<^verbatim>\<open>adapter/ingestnet/reader.go\<close>, \<^verbatim>\<open>transport.go\<close>, the reading
  loop of \<^verbatim>\<open>handleConn\<close>): messages framed by newlines or by RFC 6587 octet counts, and the marker with
  the transport and the shared secret in front of a line. A connection is the text that is still to come
  and the error that follows it. \<^verbatim>\<open>bufio.Reader\<close> appears through \<^verbatim>\<open>Peek\<close>, \<^verbatim>\<open>Discard\<close> and
  \<^verbatim>\<open>ReadSlice\<close> with its 256 KiB buffer.
\<close>

section \<open>Reading frames\<close>

datatype read_err = FrameTooLarge | StreamEOF | UnexpectedEOF | StreamErr string

abbreviation nl :: char where "nl \<equiv> CHR 0x0A"
abbreviation cr :: char where "cr \<equiv> CHR 0x0D"

definition max_frame_bytes :: nat where "max_frame_bytes = 1024 * 1024"
definition reader_buffer :: nat where "reader_buffer = 256 * 1024"

datatype slice_end = SliceOk | BufferFull | AtEnd

text \<open>\<^verbatim>\<open>ReadSlice('\n')\<close>: up to the newline, or a full buffer, or all there is.\<close>

definition read_slice :: "string \<Rightarrow> string \<times> slice_end \<times> string" where
  "read_slice s =
     (case cut_at nl (take reader_buffer s) of
        Some (a, _) \<Rightarrow> (a @ [nl], SliceOk, drop (length a + 1) s)
      | None \<Rightarrow> if length s \<ge> reader_buffer then (take reader_buffer s, BufferFull, drop reader_buffer s)
               else (s, AtEnd, []))"

lemma read_slice_full: "read_slice s = (c, BufferFull, r) \<Longrightarrow> length r < length s"
  by (auto simp: read_slice_def reader_buffer_def split: option.splits if_splits)

function discard_through :: "string \<Rightarrow> string" where
  "discard_through s = (case read_slice s of
     (_, BufferFull, r) \<Rightarrow> discard_through r
   | (_, _, r) \<Rightarrow> r)"
  by pat_completeness auto
termination by (relation "measure length") (auto dest: read_slice_full simp: eq_commute)

declare discard_through.simps [simp del]

text \<open>\<^verbatim>\<open>strings.TrimRight(s, "\r\n")\<close>\<close>

definition trim_crlf :: "string \<Rightarrow> string" where
  "trim_crlf s = rev (dropWhile (\<lambda>c. c = cr \<or> c = nl) (rev s))"

text \<open>The text and error that Go returns, and what is left of the stream that ends with \<open>e\<close>.\<close>

type_synonym read_result = "(string \<times> read_err option) \<times> string"

function read_lf_from :: "read_err \<Rightarrow> string \<Rightarrow> string \<Rightarrow> read_result" where
  "read_lf_from e buf s = (case read_slice s of (chunk, st, rest) \<Rightarrow>
     if length chunk > 0 \<and> length buf + length chunk > max_frame_bytes then
       (([], Some FrameTooLarge), if st = BufferFull then discard_through rest else rest)
     else (case st of
         SliceOk \<Rightarrow> ((trim_crlf (buf @ chunk), None), rest)
       | BufferFull \<Rightarrow> read_lf_from e (buf @ chunk) rest
       | AtEnd \<Rightarrow> if length (buf @ chunk) = 0 then (([], Some e), rest)
                 else if length (buf @ chunk) > max_frame_bytes then (([], Some FrameTooLarge), rest)
                 else ((trim_crlf (buf @ chunk), Some e), rest)))"
  by pat_completeness auto
termination
  by (relation "measure (\<lambda>(_, _, s). length s)") (auto dest: read_slice_full simp: eq_commute)

declare read_lf_from.simps [simp del]

definition read_lf_line :: "read_err \<Rightarrow> string \<Rightarrow> read_result" where
  "read_lf_line e s = read_lf_from e [] s"

datatype len_scan = NoSpace | NotOctet | SpaceAt nat

definition max_len_digits :: nat where "max_len_digits = 10"

fun scan_len :: "nat \<Rightarrow> string \<Rightarrow> len_scan" where
  "scan_len i [] = NoSpace"
| "scan_len i (b # bs) =
     (if b = CHR '' '' then SpaceAt i
      else if \<not> is_digit b then NotOctet
      else if i + 1 > max_len_digits then NotOctet
      else scan_len (i + 1) bs)"

text \<open>\<^verbatim>\<open>strconv.Atoi\<close> of at most ten digits.\<close>

definition digits_val :: "string \<Rightarrow> nat" where
  "digits_val ds = foldl (\<lambda>n c. n * 10 + digit_val c) 0 ds"

text \<open>The message, whether the frame was recognised, the error, and the rest.\<close>

definition try_octet_counting :: "read_err \<Rightarrow> string \<Rightarrow> (string \<times> bool \<times> read_err option) \<times> string" where
  "try_octet_counting e s =
     (let pk = take (max_len_digits + 1) s; short = length s < max_len_digits + 1 in
      if pk = [] then (([], False, Some e), s)
      else (case scan_len 0 pk of
          NotOctet \<Rightarrow> (([], False, None), s)
        | NoSpace \<Rightarrow> if short then (([], False, Some e), s) else (([], False, None), s)
        | SpaceAt i \<Rightarrow>
            if i = 0 then (([], False, None), s)
            else let n = digits_val (take i pk) in
              if n = 0 \<or> n > max_frame_bytes then (([], False, None), s)
              else let r = drop (i + 1) s in
                if length r < n then
                  (([], True, Some (if r \<noteq> [] \<and> e = StreamEOF then UnexpectedEOF else e)), [])
                else let r' = drop n r in
                  ((take n r, True, None), if r' \<noteq> [] \<and> hd r' = nl then tl r' else r')))"

definition read_line :: "read_err \<Rightarrow> string \<Rightarrow> read_result" where
  "read_line e s =
     (if s = [] then (([], Some e), [])
      else if is_digit (hd s) then
        (case try_octet_counting e s of ((msg, ok, err), rest) \<Rightarrow>
          if ok \<or> err \<noteq> None then ((msg, err), rest) else read_lf_line e rest)
      else read_lf_line e s)"

section \<open>Markers\<close>

definition marker_prefix :: string where "marker_prefix = ''@@ga/''"
definition legacy_marker_prefix :: string where "legacy_marker_prefix = ''@@nm/''"
definition marker_mid :: string where "marker_mid = ''/@@''"

definition resolve_transport_auth :: "string \<Rightarrow> string \<Rightarrow> string \<Rightarrow> string \<times> string \<times> bool" where
  "resolve_transport_auth line fallback expected =
     (if has_prefix line legacy_marker_prefix then ([], [], False)
      else if \<not> has_prefix line marker_prefix then
        (if fallback = ''http'' then (''http'', line, True) else (fallback, line, expected = []))
      else let rest = drop (length marker_prefix) line in
        (case cut_at (CHR ''/'') rest of
           None \<Rightarrow> (fallback, line, expected = [])
         | Some (tr, after) \<Rightarrow>
             if tr = [] then (fallback, line, expected = [])
             else if tr \<noteq> ''udp'' \<and> tr \<noteq> ''tcp'' then (fallback, line, expected = [])
             else if has_prefix after ''@@'' then
               (if expected \<noteq> [] then (tr, [], False) else (tr, drop 2 after, True))
             else (case cut_str marker_mid after of
                 None \<Rightarrow> (fallback, line, expected = [])
               | Some (token, payload) \<Rightarrow>
                   if expected = [] then (tr, payload, True)
                   else if token \<noteq> expected then (tr, [], False)
                   else (tr, payload, True))))"

definition resolve_transport :: "string \<Rightarrow> string \<Rightarrow> string \<times> string" where
  "resolve_transport line fallback =
     (case resolve_transport_auth line fallback [] of (transport, payload, _) \<Rightarrow> (transport, payload))"

section \<open>Reading a line does not depend on the buffer\<close>

lemma cut_at_absent [simp]: "x \<notin> set s \<Longrightarrow> cut_at x s = None"
  by simp

lemma cut_at_append:
  "x \<notin> set u \<Longrightarrow> cut_at x (u @ v) = map_option (\<lambda>(a, b). (u @ a, b)) (cut_at x v)"
proof (induction u)
  case (Cons c u)
  then show ?case by (cases "cut_at x v") (auto simp del: cut_at_None)
qed (simp add: option.map_ident_strong)

lemma cut_at_past:
  "x \<notin> set (take n s) \<Longrightarrow> cut_at x s = map_option (\<lambda>(a, b). (take n s @ a, b)) (cut_at x (drop n s))"
  using cut_at_append [of x "take n s" "drop n s"] by simp

lemma cut_at_take:
  "cut_at x (take n s) = (case cut_at x s of None \<Rightarrow> None
     | Some (a, b) \<Rightarrow> if length a < n then Some (a, take (n - length a - 1) b) else None)"
proof (induction s arbitrary: n)
  case (Cons c s)
  then show ?case by (cases n; cases "cut_at x s") (auto simp del: cut_at_None)
qed simp

lemma read_slice_line:
  assumes "cut_at nl s = Some (a, b)" "length a < reader_buffer"
  shows "read_slice s = (a @ [nl], SliceOk, b)"
proof -
  have "cut_at nl (take reader_buffer s) = Some (a, take (reader_buffer - length a - 1) b)"
    using assms by (simp add: cut_at_take)
  moreover have "drop (length a + 1) s = b" using assms(1) by (simp add: cut_at_Some)
  ultimately show ?thesis by (simp add: read_slice_def)
qed

lemma line_in_buffer:
  assumes "\<not> (cut_at nl (take reader_buffer s) = None \<and> length s \<ge> reader_buffer)" "cut_at nl s = Some (a, b)"
  shows "length a < reader_buffer"
proof (rule ccontr)
  assume a: "\<not> length a < reader_buffer"
  then have "cut_at nl (take reader_buffer s) = None" using assms(2) by (simp add: cut_at_take del: cut_at_None)
  moreover have "length s \<ge> reader_buffer" using a assms(2) by (simp add: cut_at_Some)
  ultimately show False using assms(1) by simp
qed

text \<open>\<^verbatim>\<open>readLFLine\<close> on what is left, without the chunks.\<close>

lemma discard_through_spec:
  "discard_through s = (case cut_at nl s of None \<Rightarrow> [] | Some (_, b) \<Rightarrow> b)"
proof (induction s rule: discard_through.induct)
  case (1 s)
  show ?case
  proof (cases "cut_at nl (take reader_buffer s) = None \<and> length s \<ge> reader_buffer")
    case True
    then have rs: "read_slice s = (take reader_buffer s, BufferFull, drop reader_buffer s)"
      by (simp add: read_slice_def del: cut_at_None)
    have "discard_through s = (case cut_at nl (drop reader_buffer s) of None \<Rightarrow> [] | Some (_, b) \<Rightarrow> b)"
      using "1" [OF rs [symmetric] refl refl] rs by (simp add: discard_through.simps [of s])
    moreover have "cut_at nl s = map_option (\<lambda>(a, b). (take reader_buffer s @ a, b)) (cut_at nl (drop reader_buffer s))"
      using True by (intro cut_at_past) simp
    ultimately show ?thesis by (auto split: option.splits)
  next
    case False
    show ?thesis
    proof (cases "cut_at nl s")
      case None
      with False show ?thesis
        by (auto simp: discard_through.simps [of s] read_slice_def cut_at_take simp del: cut_at_None)
    next
      case (Some p)
      then obtain a b where p: "cut_at nl s = Some (a, b)" by (cases p) auto
      have "read_slice s = (a @ [nl], SliceOk, b)"
        by (rule read_slice_line [OF p line_in_buffer [OF False p]])
      with p show ?thesis by (simp add: discard_through.simps [of s])
    qed
  qed
qed

definition lf_result :: "read_err \<Rightarrow> string \<Rightarrow> string \<Rightarrow> read_result" where
  "lf_result e buf s = (case cut_at nl s of
     Some (a, b) \<Rightarrow>
       if length buf + length a + 1 > max_frame_bytes then (([], Some FrameTooLarge), b)
       else ((trim_crlf (buf @ a @ [nl]), None), b)
   | None \<Rightarrow>
       if length buf + length s > max_frame_bytes then (([], Some FrameTooLarge), [])
       else if buf @ s = [] then (([], Some e), [])
       else ((trim_crlf (buf @ s), Some e), []))"

lemma read_lf_from_eq:
  "length buf \<le> max_frame_bytes \<Longrightarrow> read_lf_from e buf s = lf_result e buf s"
proof (induction e buf s rule: read_lf_from.induct)
  case (1 e buf s)
  show ?case
  proof (cases "cut_at nl (take reader_buffer s) = None \<and> length s \<ge> reader_buffer")
    case True
    then have rs: "read_slice s = (take reader_buffer s, BufferFull, drop reader_buffer s)"
      by (simp add: read_slice_def del: cut_at_None)
    have nl: "nl \<notin> set (take reader_buffer s)" using True by simp
    have cut: "cut_at nl s = map_option (\<lambda>(a, b). (take reader_buffer s @ a, b)) (cut_at nl (drop reader_buffer s))"
      using nl by (rule cut_at_past)
    have len: "length (take reader_buffer s) = reader_buffer" using True by simp
    have pos: "0 < reader_buffer" by (simp add: reader_buffer_def)
    have ne: "s \<noteq> []" using True pos by auto
    show ?thesis
    proof (cases "length buf + reader_buffer > max_frame_bytes")
      case big: True
      then have "read_lf_from e buf s = (([], Some FrameTooLarge), discard_through (drop reader_buffer s))"
        using rs len pos ne by (simp add: read_lf_from.simps [of e buf s])
      moreover have "lf_result e buf s = (([], Some FrameTooLarge), discard_through (drop reader_buffer s))"
        using big True len
        by (auto simp: lf_result_def cut discard_through_spec split: option.splits)
      ultimately show ?thesis by simp
    next
      case small: False
      then have "read_lf_from e buf s = read_lf_from e (buf @ take reader_buffer s) (drop reader_buffer s)"
        using rs len pos by (simp add: read_lf_from.simps [of e buf s])
      also have "\<dots> = lf_result e (buf @ take reader_buffer s) (drop reader_buffer s)"
        using small len by (intro "1.IH" [OF rs [symmetric] refl _ refl]) auto
      also have "\<dots> = lf_result e buf s"
        using True len by (auto simp: lf_result_def cut split: option.splits)
      finally show ?thesis .
    qed
  next
    case False
    show ?thesis
    proof (cases "cut_at nl s")
      case None
      with False have "read_slice s = (s, AtEnd, [])"
        by (auto simp: read_slice_def cut_at_take simp del: cut_at_None)
      then show ?thesis using None by (auto simp: read_lf_from.simps [of e buf s] lf_result_def simp del: cut_at_None)
    next
      case (Some p)
      then obtain a b where p: "cut_at nl s = Some (a, b)" by (cases p) auto
      have "read_slice s = (a @ [nl], SliceOk, b)"
        by (rule read_slice_line [OF p line_in_buffer [OF False p]])
      then show ?thesis using p by (simp add: read_lf_from.simps [of e buf s] lf_result_def)
    qed
  qed
qed

text \<open>A line is read the same whatever the chunks. \<^verbatim>\<open>readLFLine\<close>, which collects 256 KiB
  slices, returns the text up to the next newline without trailing CR and LF if the line with its newline
  has at most 1 MiB, and refuses it otherwise, in both cases leaving exactly what follows the newline;
  without a newline it returns the rest together with the error of the stream, or refuses it.\<close>

theorem read_lf_line_correct:
  "read_lf_line e s = (case cut_at nl s of
     Some (a, b) \<Rightarrow> (if length a \<ge> max_frame_bytes then ([], Some FrameTooLarge) else (trim_crlf a, None), b)
   | None \<Rightarrow> (if length s > max_frame_bytes then ([], Some FrameTooLarge)
              else (trim_crlf s, Some e), []))"
proof -
  have t: "trim_crlf (a @ [nl]) = trim_crlf a" for a by (simp add: trim_crlf_def)
  have z: "trim_crlf [] = []" by (simp add: trim_crlf_def)
  show ?thesis
    by (cases "cut_at nl s") (auto simp: read_lf_line_def read_lf_from_eq lf_result_def t z not_le simp del: cut_at_None)
qed

section \<open>Streams\<close>

lemma read_line_shorter: "read_line e s = ((l, None), r) \<Longrightarrow> length r < length s"
proof -
  have lf: "read_lf_line e s = ((l, None), r) \<Longrightarrow> length r < length s" for s
    by (auto simp: read_lf_line_correct cut_at_Some split: option.splits if_splits)
  assume "read_line e s = ((l, None), r)"
  then show ?thesis
    by (auto simp: read_line_def try_octet_counting_def Let_def split: if_splits prod.splits len_scan.splits dest: lf)
qed

text \<open>
  The loop of \<^verbatim>\<open>handleConn\<close>: the lines handed to \<^verbatim>\<open>TryEnqueue\<close>, until an error or the end of
  the context; \<open>alive k\<close> tells whether the context lives after the \<open>k\<close>-th line.
\<close>

function conn_lines :: "read_err \<Rightarrow> (nat \<Rightarrow> bool) \<Rightarrow> nat \<Rightarrow> string \<Rightarrow> string list" where
  "conn_lines e alive k s = (case read_line e s of
     ((line, Some err), _) \<Rightarrow> []
   | ((line, None), rest) \<Rightarrow> if \<not> alive k then [] else line # conn_lines e alive (k + 1) rest)"
  by pat_completeness auto
termination by (relation "measure (\<lambda>(_, _, _, s). length s)") (auto dest: read_line_shorter simp: eq_commute)

declare conn_lines.simps [simp del]


text \<open>What a sender writes: octet-counted messages, with or without a newline after them, and lines.\<close>

datatype wire = Octets string bool | Line string

definition on_wire :: "wire \<Rightarrow> string" where
  "on_wire f = (case f of
     Octets m lf \<Rightarrow> dec_nat (length m) @ '' '' @ m @ (if lf then [nl] else [])
   | Line l \<Rightarrow> l @ [nl])"

definition message :: "wire \<Rightarrow> string" where
  "message f = (case f of Octets m _ \<Rightarrow> m | Line l \<Rightarrow> trim_crlf l)"

text \<open>A line that cannot be taken for the length of an octet count.\<close>

definition no_count :: "string \<Rightarrow> bool" where
  "no_count l \<longleftrightarrow> (let d = length (takeWhile is_digit l) in d > max_len_digits \<or> d = length l \<or> l ! d \<noteq> CHR '' '')"

definition wire_ok :: "wire \<Rightarrow> bool" where
  "wire_ok f \<longleftrightarrow> (case f of
     Octets m _ \<Rightarrow> 0 < length m \<and> length m \<le> max_frame_bytes
   | Line l \<Rightarrow> length l < max_frame_bytes \<and> nl \<notin> set l \<and> no_count l)"

text \<open>An octet-counted message must not be followed by a newline of its own.\<close>

definition starts_clean :: "string \<Rightarrow> bool" where
  "starts_clean s \<longleftrightarrow> s = [] \<or> hd s \<noteq> nl"

lemma digits_val_snoc: "digits_val (ds @ [c]) = digits_val ds * 10 + digit_val c"
  by (simp add: digits_val_def)

lemma digits_val_dec_nat: "digits_val (dec_nat n) = n"
proof (induction n rule: dec_nat.induct)
  case (1 n)
  show ?case
  proof (cases "n < 10")
    case True
    then show ?thesis by (simp add: dec_nat.simps [of n] digits_val_def)
  next
    case False
    then show ?thesis using 1 by (subst dec_nat.simps) (simp add: digits_val_snoc)
  qed
qed

lemma length_dec_nat: "n < 10 ^ k \<Longrightarrow> 0 < k \<Longrightarrow> length (dec_nat n) \<le> k"
proof (induction n arbitrary: k rule: dec_nat.induct)
  case (1 n)
  show ?case
  proof (cases "n < 10")
    case True
    with 1 show ?thesis by (simp add: dec_nat.simps [of n])
  next
    case False
    with "1.prems" obtain j where k: "k = Suc j" "0 < j"
      by (cases k; cases "k - 1") auto
    have "n div 10 < 10 ^ j" using "1.prems"(1) k(1) by (simp add: less_mult_imp_div_less mult.commute)
    with "1.IH" [OF False this k(2)] False k(1) show ?thesis by (subst dec_nat.simps) simp
  qed
qed

lemma space_no_digit [simp]: "\<not> is_digit (CHR '' '')" "\<not> is_digit nl"
  by (simp_all add: is_digit_def code_def)

lemma scan_len_digits:
  "\<forall>c \<in> set ds. is_digit c \<Longrightarrow> i + length ds \<le> max_len_digits \<Longrightarrow> scan_len i (ds @ bs) = scan_len (i + length ds) bs"
proof (induction ds arbitrary: i)
  case (Cons c ds)
  then have "c \<noteq> CHR '' ''" by auto
  with Cons show ?case by simp
qed simp

lemma read_octets:
  assumes "wire_ok (Octets m lf)" "starts_clean rest"
  shows "read_line e (on_wire (Octets m lf) @ rest) = ((m, None), rest)"
proof -
  define ds where "ds = dec_nat (length m)"
  define tail where "tail = m @ (if lf then [nl] else []) @ rest"
  have m: "0 < length m" "length m \<le> max_frame_bytes" using assms(1) by (simp_all add: wire_ok_def)
  have dig: "\<forall>c \<in> set ds. is_digit c" and ne: "ds \<noteq> []" by (auto simp: ds_def dest: dec_nat_digits)
  have "length m < 10 ^ 10" using m(2) by (simp add: max_frame_bytes_def)
  then have len: "length ds \<le> max_len_digits" using length_dec_nat [of "length m" 10] by (simp add: ds_def max_len_digits_def)
  have s: "on_wire (Octets m lf) @ rest = ds @ CHR '' '' # tail"
    by (simp add: on_wire_def ds_def tail_def)
  have "take (max_len_digits + 1) (ds @ CHR '' '' # tail) = ds @ CHR '' '' # take (max_len_digits - length ds) tail"
    using len by (simp add: Suc_diff_le)
  moreover from this have "scan_len 0 (take (max_len_digits + 1) (ds @ CHR '' '' # tail)) = SpaceAt (length ds)"
    using scan_len_digits [OF dig, of 0] len by simp
  moreover have "digits_val ds = length m" by (simp add: ds_def digits_val_dec_nat)
  ultimately have "try_octet_counting e (ds @ CHR '' '' # tail) = ((m, True, None), rest)"
    using ne m assms(2) len
    by (auto simp: try_octet_counting_def Let_def tail_def starts_clean_def)
  moreover have "is_digit (hd (ds @ CHR '' '' # tail))" using dig ne by (cases ds) auto
  ultimately show ?thesis unfolding s by (simp add: read_line_def)
qed

lemma scan_no_count:
  assumes "no_count l"
  shows "scan_len 0 (take (max_len_digits + 1) (l @ nl # rest)) = NotOctet"
proof -
  define ds where "ds = takeWhile is_digit l"
  define k where "k = length ds"
  have dig: "\<forall>c \<in> set ds. is_digit c" by (auto simp: ds_def dest: set_takeWhileD)
  obtain u where l: "l = ds @ u" "u = [] \<or> \<not> is_digit (hd u)"
    unfolding ds_def by (metis hd_dropWhile takeWhile_dropWhile_id)
  show ?thesis
  proof (cases "k > max_len_digits")
    case True
    then obtain a c b where ds: "ds = a @ c # b" "length a = max_len_digits"
      by (metis id_take_nth_drop k_def length_take min.absorb4)
    then have "take (max_len_digits + 1) (l @ nl # rest) = a @ [c]" by (simp add: l(1))
    moreover have "is_digit c" "c \<noteq> CHR '' ''" using dig ds by auto
    ultimately show ?thesis
      using scan_len_digits [of a 0 "[c]"] dig ds by (simp add: l(1))
  next
    case False
    define v where "v = u @ nl # rest"
    have "length (takeWhile is_digit l) = k" by (simp add: k_def ds_def)
    then have "k = length l \<or> l ! k \<noteq> CHR '' ''" using assms False by (auto simp: no_count_def Let_def)
    then have "u = [] \<or> hd u \<noteq> CHR '' ''" by (auto simp: l(1) k_def hd_conv_nth nth_append)
    then have v: "v \<noteq> []" "\<not> is_digit (hd v)" "hd v \<noteq> CHR '' ''" using l(2) by (cases u; auto simp: v_def)+
    then obtain c v' where c: "v = c # v'" by (cases v) auto
    have "take (max_len_digits + 1) (l @ nl # rest) = ds @ c # take (max_len_digits - k) v'"
      using False by (simp add: l(1) v_def [symmetric] c k_def Suc_diff_le)
    with scan_len_digits [OF dig, of 0] False v c show ?thesis by (simp add: k_def)
  qed
qed

lemma read_no_count: "no_count l \<Longrightarrow> read_line e (l @ nl # rest) = read_lf_line e (l @ nl # rest)"
proof -
  assume "no_count l"
  from scan_no_count [OF this, of rest]
  have "try_octet_counting e (l @ nl # rest) = (([], False, None), l @ nl # rest)"
    by (auto simp: try_octet_counting_def Let_def)
  then show ?thesis by (simp add: read_line_def)
qed

lemma read_lf:
  assumes "wire_ok (Line l)"
  shows "read_line e (on_wire (Line l) @ rest) = ((trim_crlf l, None), rest)"
proof -
  have "cut_at nl (l @ nl # rest) = Some (l, rest)" using assms by (simp add: cut_at_Some wire_ok_def)
  then show ?thesis
    using assms read_no_count [of l e rest] by (simp add: on_wire_def wire_ok_def read_lf_line_correct)
qed

text \<open>Every frame is followed by text that does not start with a newline, unless it is a line.\<close>

fun wires_ok :: "wire list \<Rightarrow> bool" where
  "wires_ok [] \<longleftrightarrow> True"
| "wires_ok (f # fs) \<longleftrightarrow> wire_ok f \<and> wires_ok fs
     \<and> (case f of Octets _ lf \<Rightarrow> (case fs of Line [] # _ \<Rightarrow> False | _ \<Rightarrow> True) | Line _ \<Rightarrow> True)"

lemma wires_clean:
  assumes "wires_ok fs" "case fs of Line [] # _ \<Rightarrow> False | _ \<Rightarrow> True" "starts_clean rest"
  shows "starts_clean (concat (map on_wire fs) @ rest)"
proof (cases fs)
  case Nil
  with assms(3) show ?thesis by simp
next
  case (Cons f fs')
  show ?thesis
  proof (cases f)
    case (Octets m lf)
    then have "is_digit (hd (on_wire f))" "on_wire f \<noteq> []"
      using dec_nat_digits [of "hd (dec_nat (length m))" "length m"] by (auto simp: on_wire_def)
    then have "hd (on_wire f) \<noteq> nl" by (metis space_no_digit(2))
    then show ?thesis using \<open>on_wire f \<noteq> []\<close> by (simp add: Cons starts_clean_def)
  next
    case (Line l)
    then obtain c l' where "l = c # l'" using assms(2) Cons by (cases l) auto
    then show ?thesis using assms(1) Cons Line by (auto simp: starts_clean_def on_wire_def wire_ok_def)
  qed
qed

lemma conn_lines_wires:
  assumes "wires_ok fs" "starts_clean rest"
  shows "conn_lines e (\<lambda>_. True) k (concat (map on_wire fs) @ rest) =
    map message fs @ conn_lines e (\<lambda>_. True) (k + length fs) rest"
  using assms(1)
proof (induction fs arbitrary: k)
  case (Cons f fs)
  have "read_line e (on_wire f @ (concat (map on_wire fs) @ rest)) = ((message f, None), concat (map on_wire fs) @ rest)"
  proof (cases f)
    case (Octets m lf)
    have "starts_clean (concat (map on_wire fs) @ rest)"
      using Cons.prems Octets by (intro wires_clean) (use assms(2) in auto)
    with Cons.prems show ?thesis unfolding Octets by (simp add: read_octets message_def)
  next
    case (Line l)
    with Cons.prems show ?thesis by (simp add: read_lf message_def)
  qed
  with Cons show ?case
    by (simp add: conn_lines.simps [of e "\<lambda>_. True" k "on_wire f @ concat (map on_wire fs) @ rest"])
qed simp


lemma read_line_bound:
  assumes "read_line e s = ((l, None), r)"
  shows "length l \<le> max_frame_bytes"
proof -
  have t: "length (trim_crlf a) \<le> length a" for a
    using length_dropWhile_le [of _ "rev a"] by (simp add: trim_crlf_def)
  have lf: "length l \<le> max_frame_bytes" if lf: "read_lf_line e s = ((l, None), r)" for s
  proof -
    obtain a where "l = trim_crlf a" "length a < max_frame_bytes"
      using lf by (cases "cut_at nl s") (auto simp: read_lf_line_correct simp del: cut_at_None split: if_splits)
    with t [of a] show ?thesis by simp
  qed
  from assms show ?thesis
    by (auto simp: read_line_def try_octet_counting_def Let_def split: if_splits prod.splits len_scan.splits dest: lf)
qed

lemma conn_lines_bound: "l \<in> set (conn_lines e alive k s) \<Longrightarrow> length l \<le> max_frame_bytes"
proof (induction e alive k s rule: conn_lines.induct)
  case (1 e alive k s)
  obtain line err rest where r: "read_line e s = ((line, err), rest)" by (metis surj_pair)
  show ?case
  proof (cases err)
    case None
    with 1 r show ?thesis
      by (cases "alive k") (auto simp: conn_lines.simps [of e alive k s] dest: read_line_bound)
  next
    case (Some x)
    with "1.prems" r show ?thesis by (simp add: conn_lines.simps [of e alive k s])
  qed
qed

text \<open>C24: A connection delivers what was sent. For any mixture of octet-counted messages (up to 1 MiB,
  with or without a newline after them) and lines that do not look like a count, the lines handed to
  the queue are exactly the messages, in order; the framing of one never disturbs the next. Whatever
  the peer sends, no line longer than 1 MiB reaches the queue.\<close>

theorem stream_roundtrip:
  assumes "wires_ok fs"
  shows "conn_lines StreamEOF (\<lambda>_. True) 0 (concat (map on_wire fs)) = map message fs
    \<and> list_all (\<lambda>l. length l \<le> max_frame_bytes) (conn_lines e alive k s)"
proof -
  have "conn_lines StreamEOF (\<lambda>_. True) n [] = []" for n
    by (simp add: conn_lines.simps [of _ _ _ "[]"] read_line_def)
  with conn_lines_wires [OF assms, of "[]" StreamEOF 0] show ?thesis
    by (simp add: starts_clean_def list_all_iff conn_lines_bound)
qed

lemma dec_nat_2: "dec_nat (Suc (Suc 0)) = ''2''"
  by code_simp

theorem stream_roundtrip_witness:
  "conn_lines StreamEOF (\<lambda>_. True) 0 (''2 ab'' @ [nl] @ ''10.0.0.1 x'' @ [cr, nl] @ ''2 cd'') = [''ab'', ''10.0.0.1 x'', ''cd'']"
proof -
  have "wires_ok [Octets ''ab'' True, Line (''10.0.0.1 x'' @ [cr]), Octets ''cd'' False]"
    by (simp add: wire_ok_def max_frame_bytes_def no_count_def is_digit_def code_def max_len_digits_def)
  from stream_roundtrip [THEN conjunct1, OF this] show ?thesis
    by (simp add: on_wire_def message_def dec_nat_2 trim_crlf_def)
qed

text \<open>A last line without a newline is lost. \<^verbatim>\<open>readLFLine\<close> returns its text together with the end of
  the stream, but \<^verbatim>\<open>handleConn\<close> looks at the error first: the line never reaches the queue, and it is not
  counted as dropped either.\<close>

theorem unterminated_line_lost:
  assumes "wires_ok fs" "l \<noteq> []" "nl \<notin> set l" "\<not> is_digit (hd l)" "length l \<le> max_frame_bytes"
  shows "read_line StreamEOF l = ((trim_crlf l, Some StreamEOF), [])
    \<and> conn_lines StreamEOF (\<lambda>_. True) 0 (concat (map on_wire fs) @ l) = map message fs"
proof -
  have r: "read_line StreamEOF l = ((trim_crlf l, Some StreamEOF), [])"
    using assms(2-5) by (simp add: read_line_def read_lf_line_correct)
  moreover have "starts_clean l" using assms(2,3) by (cases l) (auto simp: starts_clean_def)
  ultimately show ?thesis
    using conn_lines_wires [OF assms(1), of l StreamEOF 0] by (simp add: conn_lines.simps [of _ _ _ l])
qed

theorem unterminated_line_lost_witness:
  "conn_lines StreamEOF (\<lambda>_. True) 0 (''ab'' @ [nl] @ ''cd'') = [''ab'']"
proof -
  have "wires_ok [Line ''ab'']"
    by (simp add: wire_ok_def max_frame_bytes_def no_count_def is_digit_def code_def max_len_digits_def)
  from unterminated_line_lost [OF this, of "''cd''", THEN conjunct2] show ?thesis
    by (simp add: on_wire_def message_def trim_crlf_def is_digit_def code_def max_frame_bytes_def)
qed

section \<open>The shared secret\<close>

lemma has_prefix_iff: "has_prefix s p \<longleftrightarrow> (\<exists>r. s = p @ r)"
  by (auto simp: has_prefix_def) (metis append_take_drop_id)

lemma cut_str_first:
  "p \<noteq> [] \<Longrightarrow> \<not> (\<exists>k < length a. has_prefix (drop k (a @ p @ b)) p) \<Longrightarrow> cut_str p (a @ p @ b) = Some (a, b)"
proof (induction a)
  case Nil
  then show ?case by (cases p) (auto simp: has_prefix_def)
next
  case (Cons c a)
  have "\<not> (\<exists>k < length a. has_prefix (drop k (a @ p @ b)) p)" using Cons.prems(2) by fastforce
  with Cons have "cut_str p (a @ p @ b) = Some (a, b)" by simp
  moreover have "\<not> has_prefix (c # a @ p @ b) p" using Cons.prems(2) by force
  ultimately show ?case by simp
qed

text \<open>Only lines with the shared secret pass. If a secret is configured, a line that does not come
  from the authenticated HTTP interface is accepted exactly if it reads
  \<^verbatim>\<open>@@ga/udp/<secret>/@@payload\<close> or the same with \<^verbatim>\<open>tcp\<close>, and then the transport and the
  payload are the ones it names (for a secret without \<^verbatim>\<open>/\<close> and \<^verbatim>\<open>@\<close>).\<close>

theorem secret_required:
  assumes "expected \<noteq> []" "fallback \<noteq> ''http''" "CHR ''/'' \<notin> set expected" "CHR ''@'' \<notin> set expected"
  shows "resolve_transport_auth line fallback expected = (tr, payload, True) \<longleftrightarrow>
    (tr = ''udp'' \<or> tr = ''tcp'') \<and> line = ''@@ga/'' @ tr @ ''/'' @ expected @ ''/@@'' @ payload"
proof
  assume r: "resolve_transport_auth line fallback expected = (tr, payload, True)"
  have p: "has_prefix line marker_prefix"
    using r assms(1,2) by (auto simp: resolve_transport_auth_def Let_def split: if_splits)
  then obtain rest where rest: "line = ''@@ga/'' @ rest" by (auto simp: has_prefix_iff marker_prefix_def)
  have d: "drop (length marker_prefix) line = rest" by (simp add: rest marker_prefix_def)
  obtain t after where t: "cut_at (CHR ''/'') rest = Some (t, after)"
    using r assms(1,2) p by (auto simp: resolve_transport_auth_def Let_def d simp del: cut_at_None split: if_splits option.splits)
  obtain tok pl where c: "cut_str marker_mid after = Some (tok, pl)"
    using r assms(1,2) p t by (auto simp: resolve_transport_auth_def Let_def d split: if_splits option.splits)
  have "tr = t \<and> payload = pl \<and> tok = expected \<and> (t = ''udp'' \<or> t = ''tcp'')"
    using r assms(1,2) p t c by (auto simp: resolve_transport_auth_def Let_def d split: if_splits)
  with t c show "(tr = ''udp'' \<or> tr = ''tcp'') \<and> line = ''@@ga/'' @ tr @ ''/'' @ expected @ ''/@@'' @ payload"
    by (auto simp: cut_at_Some rest marker_mid_def dest!: cut_str_Some)
next
  assume l: "(tr = ''udp'' \<or> tr = ''tcp'') \<and> line = ''@@ga/'' @ tr @ ''/'' @ expected @ ''/@@'' @ payload"
  have slash: "CHR ''/'' \<notin> set tr" using l by auto
  have cut: "cut_at (CHR ''/'') (tr @ ''/'' @ expected @ ''/@@'' @ payload) = Some (tr, expected @ ''/@@'' @ payload)"
    using slash by (simp add: cut_at_Some)
  have "\<not> has_prefix (drop k (expected @ ''/@@'' @ payload)) ''/@@''" if "k < length expected" for k
  proof
    assume "has_prefix (drop k (expected @ ''/@@'' @ payload)) ''/@@''"
    then have "hd (drop k (expected @ ''/@@'' @ payload)) = CHR ''/''" by (auto simp: has_prefix_iff)
    moreover have "hd (drop k (expected @ ''/@@'' @ payload)) = expected ! k"
      using that by (simp add: hd_append hd_drop_conv_nth)
    ultimately show False using that assms(3) nth_mem by metis
  qed
  then have mid: "cut_str marker_mid (expected @ ''/@@'' @ payload) = Some (expected, payload)"
    unfolding marker_mid_def by (intro cut_str_first) auto
  obtain c ex where ex: "expected = c # ex" using assms(1) by (cases expected) auto
  then have at: "\<not> has_prefix (expected @ ''/@@'' @ payload) ''@@''" using assms(4)
    by (cases "c = CHR ''@''") (auto simp: has_prefix_def)
  have pre: "has_prefix line marker_prefix" "\<not> has_prefix line legacy_marker_prefix"
      "drop (length marker_prefix) line = tr @ ''/'' @ expected @ ''/@@'' @ payload"
    using l by (auto simp: has_prefix_def marker_prefix_def legacy_marker_prefix_def)
  have tr: "tr \<noteq> []" "\<not> (tr \<noteq> ''udp'' \<and> tr \<noteq> ''tcp'')" using l by auto
  show "resolve_transport_auth line fallback expected = (tr, payload, True)"
    using mid at tr assms(1)
    by (simp only: resolve_transport_auth_def pre Let_def cut option.case prod.case if_True if_False simp_thms)
qed

theorem secret_required_witness:
  "resolve_transport_auth ''@@ga/udp/s3cret/@@hello'' ''tcp'' ''s3cret'' = (''udp'', ''hello'', True)"
  by (subst secret_required) auto

end
