(* ===== verification/Go_Text.thy ===== *)
theory Go_Text
  imports Go_Strings "HOL-Library.List_Lexorder" "HOL-Library.Char_ord"
begin

text \<open>
  Text as the account code needs it: the runes of a byte string (\<^verbatim>\<open>for _, r := range s\<close>,
  \<^verbatim>\<open>[]rune(s)\<close>), the classes \<^verbatim>\<open>unicode.IsLetter\<close> and \<^verbatim>\<open>unicode.IsDigit\<close>,
  \<^verbatim>\<open>strings.Fields\<close>, \<^verbatim>\<open>strings.Join\<close> and \<^verbatim>\<open>strings.Split\<close>. Strings are compared byte
  by byte, as the lexicographic order of \<^verbatim>\<open>List_Lexorder\<close> does.
\<close>

section \<open>Runes\<close>

definition cont_byte :: "char \<Rightarrow> bool" where
  "cont_byte c \<longleftrightarrow> 128 \<le> code c \<and> code c \<le> 191"

definition rune_error :: nat where "rune_error = 65533"

text \<open>
  \<^verbatim>\<open>utf8.DecodeRuneInString\<close> on a text that is not empty: the rune and its width; a byte that
  starts no well-formed sequence is U+FFFD of width 1.
\<close>

fun decode_rune :: "string \<Rightarrow> nat \<times> nat" where
  "decode_rune [] = (rune_error, 0)"
| "decode_rune (c # cs) =
     (if code c < 128 then (code c, 1)
      else case cs of
        d # ds \<Rightarrow>
          if 194 \<le> code c \<and> code c \<le> 223 then
            (if cont_byte d then ((code c - 192) * 64 + (code d - 128), 2) else (rune_error, 1))
          else (case ds of
            e # es \<Rightarrow>
              if 224 \<le> code c \<and> code c \<le> 239 then
                (if cont_byte d \<and> cont_byte e \<and> (code c = 224 \<longrightarrow> 160 \<le> code d) \<and>
                    (code c = 237 \<longrightarrow> code d \<le> 159)
                 then ((code c - 224) * 4096 + (code d - 128) * 64 + (code e - 128), 3)
                 else (rune_error, 1))
              else (case es of
                f # fs \<Rightarrow>
                  if 240 \<le> code c \<and> code c \<le> 244 \<and> cont_byte d \<and> cont_byte e \<and> cont_byte f \<and>
                     (code c = 240 \<longrightarrow> 144 \<le> code d) \<and> (code c = 244 \<longrightarrow> code d \<le> 143)
                  then ((code c - 240) * 262144 + (code d - 128) * 4096 + (code e - 128) * 64 +
                        (code f - 128), 4)
                  else (rune_error, 1)
              | [] \<Rightarrow> (rune_error, 1))
          | [] \<Rightarrow> (rune_error, 1))
      | [] \<Rightarrow> (rune_error, 1))"

lemma decode_rune_width: "s \<noteq> [] \<Longrightarrow> 0 < snd (decode_rune s)"
  by (cases s) (auto split: list.splits)

lemma decode_rune_le: "snd (decode_rune s) \<le> length s"
  by (cases s) (auto split: list.splits)

function runes :: "string \<Rightarrow> nat list" where
  "runes s = (if s = [] then [] else fst (decode_rune s) # runes (drop (snd (decode_rune s)) s))"
  by pat_completeness auto
termination
  by (relation "measure length") (auto simp: decode_rune_width)

declare runes.simps [simp del]

lemma runes_Nil [simp]: "runes [] = []"
  by (simp add: runes.simps)

lemma runes_ascii [str_simps]: "list_all (\<lambda>c. code c < 128) s \<Longrightarrow> runes s = map code s"
  by (induction s) (simp_all add: runes.simps)

lemma length_runes: "length (runes s) \<le> length s"
proof (induction s rule: runes.induct)
  case (1 s)
  show ?case
  proof (cases "s = []")
    case False
    with 1 have "length (runes (drop (snd (decode_rune s)) s)) \<le> length s - snd (decode_rune s)"
      by simp
    with decode_rune_width [OF False] decode_rune_le [of s] False show ?thesis
      by (subst runes.simps) simp
  qed simp
qed

text \<open>A text without malformed sequences, the texts that JSON strings carry unchanged.\<close>

function valid_utf8 :: "string \<Rightarrow> bool" where
  "valid_utf8 s =
     (if s = [] then True
      else if fst (decode_rune s) = rune_error \<and> snd (decode_rune s) = 1 then False
      else valid_utf8 (drop (snd (decode_rune s)) s))"
  by pat_completeness auto
termination
  by (relation "measure length") (auto simp: decode_rune_width)

declare valid_utf8.simps [simp del]

lemma valid_utf8_ascii [str_simps]: "list_all (\<lambda>c. code c < 128) s \<Longrightarrow> valid_utf8 s"
  by (induction s) (simp_all add: valid_utf8.simps rune_error_def)

section \<open>Letters and digits\<close>

text \<open>
  \<^verbatim>\<open>unicode.IsLetter\<close> and \<^verbatim>\<open>unicode.IsDigit\<close> decide Latin-1 by themselves; above it they read
  the tables of the Unicode data base, which are the argument \<open>tab\<close>.
\<close>

definition is_letter :: "(nat \<Rightarrow> bool) \<Rightarrow> nat \<Rightarrow> bool" where
  "is_letter tab r \<longleftrightarrow>
     (if r < 256 then 65 \<le> r \<and> r \<le> 90 \<or> 97 \<le> r \<and> r \<le> 122 \<or> r \<in> {170, 181, 186} \<or>
        192 \<le> r \<and> r \<noteq> 215 \<and> r \<noteq> 247
      else tab r)"

definition is_digit_rune :: "(nat \<Rightarrow> bool) \<Rightarrow> nat \<Rightarrow> bool" where
  "is_digit_rune tab r \<longleftrightarrow> (if r < 256 then 48 \<le> r \<and> r \<le> 57 else tab r)"

section \<open>Fields, Join, Split\<close>

fun take_word :: "string \<Rightarrow> string \<times> string" where
  "take_word [] = ([], [])"
| "take_word (c # cs) =
     (if strip_space (c # cs) \<noteq> None then ([], c # cs)
      else (c # fst (take_word cs), snd (take_word cs)))"

lemma take_word_split: "fst (take_word s) @ snd (take_word s) = s"
  by (induction s) auto

lemma take_word_shorter: "s \<noteq> [] \<Longrightarrow> strip_space s = None \<Longrightarrow> length (snd (take_word s)) < length s"
proof (cases s)
  case (Cons c cs)
  assume "strip_space s = None"
  moreover have "length (snd (take_word cs)) \<le> length cs"
    using arg_cong [OF take_word_split [of cs], of length] by simp
  ultimately show ?thesis using Cons by simp
qed simp

lemma trim_left_le: "length (trim_left s) \<le> length s"
proof (induction s rule: trim_left.induct)
  case (1 s)
  show ?case
  proof (cases "strip_space s")
    case (Some t)
    then have "length t < length s" using strip_space_suffix by fastforce
    with 1 [OF Some] Some show ?thesis by (simp add: trim_left.simps [of s])
  qed (simp add: trim_left.simps [of s])
qed

function text_fields :: "string \<Rightarrow> string list" where
  "text_fields s =
     (let t = trim_left s in
      if t = [] then [] else fst (take_word t) # text_fields (snd (take_word t)))"
  by pat_completeness auto
termination
proof (relation "measure length")
  fix s t :: string
  assume t: "t = trim_left s" "t \<noteq> []"
  then have "length (snd (take_word t)) < length t" by (intro take_word_shorter) simp_all
  with t trim_left_le [of s] show "(snd (take_word t), s) \<in> measure length"
    by (simp only: in_measure)
qed simp

declare text_fields.simps [simp del]

fun join :: "string \<Rightarrow> string list \<Rightarrow> string" where
  "join sep [] = []"
| "join sep [w] = w"
| "join sep (w # v # ws) = w @ sep @ join sep (v # ws)"

text \<open>\<^verbatim>\<open>strings.Split\<close> with a separator of one byte.\<close>

fun split_on :: "char \<Rightarrow> string \<Rightarrow> string list" where
  "split_on x [] = [[]]"
| "split_on x (c # cs) =
     (if c = x then [] # split_on x cs
      else case split_on x cs of w # ws \<Rightarrow> (c # w) # ws | [] \<Rightarrow> [[c]])"

lemma split_on_not_Nil [simp]: "split_on x s \<noteq> []"
  by (cases s) (auto split: list.splits)

lemma split_on_absent: "x \<notin> set s \<Longrightarrow> split_on x s = [s]"
  by (induction s) auto

lemma split_on_append: "x \<notin> set a \<Longrightarrow> split_on x (a @ x # b) = a # split_on x b"
  by (induction a) auto

lemma split_on_pair: "x \<notin> set a \<Longrightarrow> x \<notin> set b \<Longrightarrow> split_on x (a @ x # b) = [a, b]"
  by (simp add: split_on_append split_on_absent)

section \<open>Character classes of the names\<close>

definition is_alnum :: "char \<Rightarrow> bool" where
  "is_alnum c \<longleftrightarrow> is_digit c \<or> 65 \<le> code c \<and> code c \<le> 90 \<or> 97 \<le> code c \<and> code c \<le> 122"

lemma is_alnum_plain: "is_alnum c \<Longrightarrow> plain c"
  by (auto simp: is_alnum_def is_digit_def plain_def)

lemma list_all_trim:
  assumes "list_all plain s" shows "trim_space s = s"
proof (cases s)
  case (Cons c cs)
  with assms have "plain (hd s)" "plain (last s)" by (auto simp: list_all_iff)
  then show ?thesis by (rule trim_space_plain)
qed simp

lemma plain_ascii: "list_all plain s \<Longrightarrow> list_all (\<lambda>c. code c < 128) s"
  by (auto simp: list_all_iff plain_def)

lemma plain_to_lower: "list_all plain s \<Longrightarrow> list_all plain (to_lower s)"
  by (auto simp: to_lower_ascii [OF plain_ascii] list_all_iff plain_def)

lemma to_lower_idem_ascii: "list_all (\<lambda>c. code c < 128) s \<Longrightarrow> to_lower (to_lower s) = to_lower s"
proof -
  assume s: "list_all (\<lambda>c. code c < 128) s"
  then have "list_all (\<lambda>c. code c < 128) (to_lower s)"
    by (auto simp: to_lower_ascii list_all_iff)
  with s show ?thesis by (auto simp: to_lower_ascii)
qed

text \<open>
  \<^verbatim>\<open>strings.ToUpper\<close> as far as its ASCII result goes: besides the small letters only U+017F and U+0131
  have an upper case in ASCII. Every use compares with an ASCII word or asks for an ASCII character.
\<close>

fun to_upper_ascii :: "string \<Rightarrow> string" where
  "to_upper_ascii [] = []"
| "to_upper_ascii [c] = [if 97 \<le> code c \<and> code c \<le> 122 then byte (code c - 32) else c]"
| "to_upper_ascii (c # d # cs) =
     (if code c = 197 \<and> code d = 191 then CHR ''S'' # to_upper_ascii cs
      else if code c = 196 \<and> code d = 177 then CHR ''I'' # to_upper_ascii cs
      else (if 97 \<le> code c \<and> code c \<le> 122 then byte (code c - 32) else c) # to_upper_ascii (d # cs))"

end
