(* ===== verification/Ingest_Queue.thy ===== *)
theory Ingest_Queue
  imports Ingest Ingest_Frames Login_Throttle Go_Text
begin

text \<open>
  The ingest service around the processors (\<^verbatim>\<open>adapter/ingestnet/service.go\<close>, \<^verbatim>\<open>feed.go\<close>,
  \<^verbatim>\<open>peer_allowlist.go\<close>): the bounded queue between connections and workers, the workers' handling of an
  item and of a tick, the drain at shutdown, and the peers that may connect. The queue is modelled
  twice: \<open>try_enqueue\<close> and \<open>release_queue_bytes\<close> as functions, and the atomic steps of any number
  of concurrent producers and workers as the relation \<open>qstep\<close>. Sockets, listeners, contexts and logging
  are left out.
\<close>

section \<open>Configuration\<close>

record config =
  bindings :: "(string \<times> string) list"
  listen_addr :: string
  cfg_batch_size :: int
  flush_interval :: duration
  queue_size :: int
  queue_max_bytes :: int
  worker_count :: int
  cfg_query_timeout :: duration
  max_connections :: int
  conn_idle_timeout :: duration
  shared_secret :: string
  allow_from :: string

definition norm_config :: "config \<Rightarrow> config" where
  "norm_config c =
     c\<lparr>cfg_batch_size := (if cfg_batch_size c \<le> 0 then 10000 else cfg_batch_size c),
       flush_interval := (if flush_interval c \<le> 0 then 3 * second else flush_interval c),
       queue_size := (if queue_size c \<le> 0 then 300000 else queue_size c),
       queue_max_bytes := (if queue_max_bytes c \<le> 0 then 256 * 2 ^ 20 else queue_max_bytes c),
       worker_count := (if worker_count c \<le> 0 then 4 else worker_count c),
       max_connections := (if max_connections c \<le> 0 then 256 else max_connections c),
       conn_idle_timeout := (if conn_idle_timeout c \<le> 0 then 5 * minute else conn_idle_timeout c),
       bindings := (if bindings c = [] \<and> listen_addr c \<noteq> [] then [(listen_addr c, [])] else bindings c)\<rparr>"

section \<open>The queue\<close>

type_synonym item = "string \<times> string"

record queue =
  chan :: "item list"
  chan_cap :: nat
  queue_bytes :: int

text \<open>Without competing producers the compare-and-swap succeeds at once.\<close>

definition try_enqueue :: "int \<Rightarrow> go_time \<Rightarrow> string \<Rightarrow> string \<Rightarrow> queue \<Rightarrow> line_stats \<Rightarrow> bool \<times> queue \<times> line_stats" where
  "try_enqueue max_bytes now line0 transport q s =
     (let line = trim_space line0 in
      if line = [] then (True, q, s)
      else let n = int (length line) in
        if max_bytes > 0 \<and> n > max_bytes then (False, q, add_dropped now 1 s)
        else if max_bytes > 0 \<and> queue_bytes q + n > max_bytes then (False, q, add_dropped now 1 s)
        else
          let q = (if max_bytes > 0 then q\<lparr>queue_bytes := queue_bytes q + n\<rparr> else q) in
          if length (chan q) < chan_cap q then (True, q\<lparr>chan := chan q @ [(line, transport)]\<rparr>, s)
          else
            (False, if max_bytes > 0 then q\<lparr>queue_bytes := queue_bytes q - n\<rparr> else q, add_dropped now 1 s))"

definition release_queue_bytes :: "string \<Rightarrow> queue \<Rightarrow> queue" where
  "release_queue_bytes line q =
     (let n = int (length line) in if n > 0 then q\<lparr>queue_bytes := queue_bytes q - n\<rparr> else q)"

record ingest_stats =
  received :: int
  queued :: int
  dropped :: int

text \<open>
  FeedReader: the scanner's lines, each with the state of the context when it was read and the clock;
  the scanner's error at the end.
\<close>

fun feed_reader ::
    "int \<Rightarrow> string \<Rightarrow> (string \<times> go_err option \<times> go_time) list \<Rightarrow> go_err option \<Rightarrow> ingest_stats \<Rightarrow> queue \<Rightarrow> line_stats
       \<Rightarrow> (ingest_stats \<times> go_err option) \<times> queue \<times> line_stats" where
  "feed_reader max_bytes transport [] scan_err out q s = ((out, scan_err), q, s)"
| "feed_reader max_bytes transport ((line, Some err, now) # ls) scan_err out q s = ((out, Some err), q, s)"
| "feed_reader max_bytes transport ((line, None, now) # ls) scan_err out q s =
     (if trim_space line = [] then feed_reader max_bytes transport ls scan_err out q s
      else let out = out\<lparr>received := received out + 1\<rparr> in
        (case try_enqueue max_bytes now line transport q s of (ok, q, s) \<Rightarrow>
          feed_reader max_bytes transport ls scan_err
            (if ok then out\<lparr>queued := queued out + 1\<rparr> else out\<lparr>dropped := dropped out + 1\<rparr>) q s))"

definition feed_transport :: "string \<Rightarrow> string" where
  "feed_transport transport = (if transport = [] then ''http'' else transport)"

text \<open>Whether a dropped line is logged, and the time of the last such message.\<close>

definition note_queue_drop :: "int \<Rightarrow> go_time \<Rightarrow> go_time \<Rightarrow> bool \<times> go_time" where
  "note_queue_drop cnt now last_log =
     (if \<not> (cnt = 1 \<or> cnt mod 1000 = 1 \<or> last_log = 0 \<or> now - last_log \<ge> 10 * second) then (False, last_log)
      else (True, now))"

definition transport_or_unknown :: "string \<Rightarrow> string" where
  "transport_or_unknown transport = (if transport = [] then ''unknown'' else transport)"

section \<open>Workers\<close>

record worker =
  w_proc :: processor
  in_err :: bool

definition note_err :: "string \<Rightarrow> worker \<Rightarrow> shared \<Rightarrow> worker \<times> shared" where
  "note_err msg wk w =
     (if \<not> in_err wk then (wk\<lparr>in_err := True\<rparr>, with_stats (note_worker_error msg) w)
      else (wk, with_stats (set_last_error msg) w))"

definition note_ok :: "worker \<Rightarrow> shared \<Rightarrow> worker \<times> shared" where
  "note_ok wk w =
     (if in_err wk then (wk\<lparr>in_err := False\<rparr>, with_stats note_worker_ok w) else (wk, w))"

text \<open>A worker's arms for an item and for a tick; \<open>err_text\<close> is \<^verbatim>\<open>Error()\<close>.\<close>

definition on_item ::
    "string \<Rightarrow> (string \<Rightarrow> parse_result) \<Rightarrow> (string \<Rightarrow> bool) \<Rightarrow> (go_err \<Rightarrow> string) \<Rightarrow> line_env \<Rightarrow> item \<Rightarrow> worker \<Rightarrow> shared
       \<Rightarrow> worker \<times> shared \<times> written" where
  "on_item secret parse cont err_text env it wk w = (case it of (line0, fallback) \<Rightarrow>
     (case resolve_transport_auth line0 fallback secret of (transport, line, ok) \<Rightarrow>
       if \<not> ok then (wk, with_stats (\<lambda>s. s\<lparr>auth_rejected := auth_rejected s + 1\<rparr>) w, ([], []))
       else (case process_line parse cont env line transport (w_proc wk) w of ((_, _, err), p, w, out) \<Rightarrow>
         let wk = wk\<lparr>w_proc := p\<rparr> in
         (case (case err of Some e \<Rightarrow> note_err (err_text e) wk w | None \<Rightarrow> note_ok wk w) of (wk, w) \<Rightarrow> (wk, w, out)))))"

definition on_tick ::
    "(go_err \<Rightarrow> string) \<Rightarrow> insert_env \<Rightarrow> insert_env \<Rightarrow> worker \<Rightarrow> shared \<Rightarrow> worker \<times> shared \<times> written" where
  "on_tick err_text lenv eenv wk w =
     (case flush lenv eenv (w_proc wk) w of ((_, err), p, w, out) \<Rightarrow>
       let wk = wk\<lparr>w_proc := p\<rparr> in
       (case (case err of Some e \<Rightarrow> note_err (err_text e) wk w | None \<Rightarrow> note_ok wk w) of (wk, w) \<Rightarrow> (wk, w, out)))"

text \<open>How long a worker waits before it looks at an open breaker again.\<close>

definition circuit_wait :: "circuit \<Rightarrow> go_time \<Rightarrow> duration" where
  "circuit_wait c now =
     (let w = remaining_open c now in if w \<le> 0 \<or> w > 200 * millisecond then 200 * millisecond else w)"

text \<open>
  The drain at shutdown. Each round meets: whether its context is done, the clock, whether the context
  ends while it waits for the breaker, and the inserts. The last component of the result tells whether
  the drain came to its end by itself.
\<close>

record drain_env =
  ctx_done :: bool
  round_now :: go_time
  done_in_wait :: bool
  round_line :: line_env

fun drain_worker ::
    "string \<Rightarrow> (string \<Rightarrow> parse_result) \<Rightarrow> (string \<Rightarrow> bool) \<Rightarrow> drain_env list \<Rightarrow> processor \<Rightarrow> shared \<Rightarrow> queue
       \<Rightarrow> processor \<times> shared \<times> queue \<times> bool" where
  "drain_worker secret parse cont [] p w q = (p, w, q, False)"
| "drain_worker secret parse cont (e # es) p w q =
     (if ctx_done e then (p, w, q, False)
      else if circuit_open (circ w) (round_now e) then
        (if done_in_wait e then (p, w, q, False)
         else (case flush (logs_env (round_line e)) (errs_env (round_line e)) p w of (_, p, w, _) \<Rightarrow>
           drain_worker secret parse cont es p w q))
      else (case chan q of
          (line0, fallback) # rest \<Rightarrow>
            let q = release_queue_bytes line0 (q\<lparr>chan := rest\<rparr>) in
            (case resolve_transport_auth line0 fallback secret of (transport, line, ok) \<Rightarrow>
              if \<not> ok then drain_worker secret parse cont es p
                (with_stats (\<lambda>s. s\<lparr>auth_rejected := auth_rejected s + 1\<rparr>) w) q
              else (case process_line parse cont (round_line e) line transport p w of (_, p, w, _) \<Rightarrow>
                drain_worker secret parse cont es p w q))
        | [] \<Rightarrow> (case flush (logs_env (round_line e)) (errs_env (round_line e)) p w of (_, p, w, _) \<Rightarrow> (p, w, q, True))))"

text \<open>\<^verbatim>\<open>depth\<close> is the number of queued lines; integer division truncates, and both terms are positive.\<close>

definition drain_timeout :: "config \<Rightarrow> int \<Rightarrow> duration" where
  "drain_timeout c depth =
     (let budget = 30 * second;
          budget = (if cfg_query_timeout c > 0 \<and> cfg_query_timeout c < budget then cfg_query_timeout c else budget);
          max_drain = 2 * minute
      in if depth = 0 then budget
         else let workers = (if worker_count c < 1 then 1 else worker_count c);
                  batch = (if cfg_batch_size c < 1 then 1 else cfg_batch_size c);
                  fl = (if flush_interval c < second then second else flush_interval c);
                  per_cycle = workers * batch;
                  cycles = (depth + per_cycle - 1) div per_cycle;
                  estimated = cycles * (fl + budget)
              in if estimated < budget then budget
                 else if estimated > max_drain then max_drain else estimated)"

definition shutdown_wait_timeout :: "config \<Rightarrow> int \<Rightarrow> duration" where
  "shutdown_wait_timeout c depth =
     (let margin = 5 * second; max_wait = 2 * minute + margin; wait = drain_timeout c depth + margin
      in if wait > max_wait then max_wait else wait)"

section \<open>Peers\<close>

record peers =
  p_nets :: "ip_net list"
  p_hosts :: "string list"
  cache_at :: "string \<rightharpoonup> go_time"
  cache_ip :: "string \<rightharpoonup> net_ip list"

definition peer_ttl :: duration where "peer_ttl = 30 * second"

definition peer_entry :: "peers \<Rightarrow> string \<Rightarrow> peers" where
  "peer_entry a raw0 =
     (let raw = trim_space raw0 in
      if raw = [] then a
      else if contains_str raw ''/'' then
        (case parse_net raw of None \<Rightarrow> a | Some n \<Rightarrow> a\<lparr>p_nets := p_nets a @ [n]\<rparr>)
      else if parse_ip raw \<noteq> [] then
        (let bits = (if to4 (parse_ip raw) = [] then 128 else 32)
         in a\<lparr>p_nets := p_nets a @ [\<lparr>net_num = parse_ip raw, net_mask = cidr_mask bits (bits div 8)\<rparr>]\<rparr>)
      else a\<lparr>p_hosts := p_hosts a @ [raw]\<rparr>)"

definition new_peer_allowlist :: "string \<Rightarrow> peers" where
  "new_peer_allowlist csv =
     foldl peer_entry \<lparr>p_nets = [], p_hosts = [], cache_at = Map.empty, cache_ip = Map.empty\<rparr> (split_on (CHR '','') csv)"

definition peers_empty :: "peers \<Rightarrow> bool" where
  "peers_empty a \<longleftrightarrow> length (p_nets a) = 0 \<and> length (p_hosts a) = 0"

definition ip_equal :: "net_ip \<Rightarrow> net_ip \<Rightarrow> bool" where
  "ip_equal x y \<longleftrightarrow>
     (if length x = length y then x = y
      else if length x = 4 \<and> length y = 16 then take 12 y = v4_prefix \<and> x = drop 12 y
      else length x = 16 \<and> length y = 4 \<and> take 12 x = v4_prefix \<and> drop 12 x = y)"

text \<open>\<open>lookup\<close> is \<^verbatim>\<open>net.LookupIP\<close>.\<close>

definition peer_resolve ::
    "(string \<Rightarrow> net_ip list option) \<Rightarrow> go_time \<Rightarrow> peers \<Rightarrow> string \<Rightarrow> net_ip list \<times> peers" where
  "peer_resolve lookup now a name =
     (let fresh = (case cache_at a name of None \<Rightarrow> False | Some t \<Rightarrow> time_sub now t < peer_ttl) in
      if fresh then (case cache_ip a name of None \<Rightarrow> [] | Some ips \<Rightarrow> ips, a)
      else (case lookup name of
          None \<Rightarrow> ([], a\<lparr>cache_at := (cache_at a)(name \<mapsto> now), cache_ip := (cache_ip a)(name \<mapsto> [])\<rparr>)
        | Some ips \<Rightarrow> (ips, a\<lparr>cache_at := (cache_at a)(name \<mapsto> now), cache_ip := (cache_ip a)(name \<mapsto> ips)\<rparr>)))"

fun hosts_allow ::
    "(string \<Rightarrow> net_ip list option) \<Rightarrow> go_time \<Rightarrow> net_ip \<Rightarrow> string list \<Rightarrow> peers \<Rightarrow> bool \<times> peers" where
  "hosts_allow lookup now ip [] a = (False, a)"
| "hosts_allow lookup now ip (h # hs) a =
     (case peer_resolve lookup now a h of (ips, a) \<Rightarrow>
       if list_ex (\<lambda>r. ip_equal r ip) ips then (True, a) else hosts_allow lookup now ip hs a)"

definition peer_allows ::
    "(string \<Rightarrow> net_ip list option) \<Rightarrow> go_time \<Rightarrow> string \<Rightarrow> peers \<Rightarrow> bool \<times> peers" where
  "peer_allows lookup now addr a =
     (if peers_empty a then (True, a)
      else let host = (case split_host_port addr of None \<Rightarrow> addr | Some (h, _) \<Rightarrow> h); ip = parse_ip host in
        if ip = [] then (False, a)
        else if list_ex (\<lambda>n. net_contains n ip) (p_nets a) then (True, a)
        else hosts_allow lookup now ip (p_hosts a) a)"

section \<open>The atomic steps of producers and workers\<close>

text \<open>
  A producer in \<^verbatim>\<open>TryEnqueue\<close> is about to read the counter, about to swap it against the value read,
  holds a reservation, or gives it back; a worker holds a line whose bytes are not yet released.
\<close>

datatype producer = PIdle | PLoad string string | PSwap string string int | PReserved string string | PRollback string

datatype consumer = CIdle | CTaken string string

record qstate =
  q_chan :: "item list"
  q_bytes :: int
  producers :: "producer list"
  consumers :: "consumer list"
  q_dropped :: int
  q_sent :: "item list"
  q_taken :: "item list"

text \<open>\<open>q_sent\<close> and \<open>q_taken\<close> record what went in and out.\<close>

inductive qstep :: "nat \<Rightarrow> int \<Rightarrow> qstate \<Rightarrow> qstate \<Rightarrow> bool" for cap :: nat and max_bytes :: int where
  too_long: "i < length (producers s) \<Longrightarrow> producers s ! i = PIdle \<Longrightarrow> int (length (line :: string)) > max_bytes \<Longrightarrow>
     qstep cap max_bytes s (s\<lparr>q_dropped := q_dropped s + 1\<rparr>)"
| start: "i < length (producers s) \<Longrightarrow> producers s ! i = PIdle \<Longrightarrow> line \<noteq> [] \<Longrightarrow> int (length line) \<le> max_bytes \<Longrightarrow>
     qstep cap max_bytes s (s\<lparr>producers := (producers s)[i := PLoad line tr]\<rparr>)"
| load_full: "i < length (producers s) \<Longrightarrow> producers s ! i = PLoad line tr \<Longrightarrow> q_bytes s + int (length line) > max_bytes \<Longrightarrow>
     qstep cap max_bytes s (s\<lparr>producers := (producers s)[i := PIdle], q_dropped := q_dropped s + 1\<rparr>)"
| load_fits: "i < length (producers s) \<Longrightarrow> producers s ! i = PLoad line tr \<Longrightarrow> q_bytes s + int (length line) \<le> max_bytes \<Longrightarrow>
     qstep cap max_bytes s (s\<lparr>producers := (producers s)[i := PSwap line tr (q_bytes s)]\<rparr>)"
| swap: "i < length (producers s) \<Longrightarrow> producers s ! i = PSwap line tr cur \<Longrightarrow> q_bytes s = cur \<Longrightarrow>
     qstep cap max_bytes s (s\<lparr>producers := (producers s)[i := PReserved line tr], q_bytes := cur + int (length line)\<rparr>)"
| swap_fails: "i < length (producers s) \<Longrightarrow> producers s ! i = PSwap line tr cur \<Longrightarrow> q_bytes s \<noteq> cur \<Longrightarrow>
     qstep cap max_bytes s (s\<lparr>producers := (producers s)[i := PLoad line tr]\<rparr>)"
| send: "i < length (producers s) \<Longrightarrow> producers s ! i = PReserved line tr \<Longrightarrow> length (q_chan s) < cap \<Longrightarrow>
     qstep cap max_bytes s (s\<lparr>producers := (producers s)[i := PIdle], q_chan := q_chan s @ [(line, tr)],
       q_sent := q_sent s @ [(line, tr)]\<rparr>)"
| send_full: "i < length (producers s) \<Longrightarrow> producers s ! i = PReserved line tr \<Longrightarrow> \<not> length (q_chan s) < cap \<Longrightarrow>
     qstep cap max_bytes s (s\<lparr>producers := (producers s)[i := PRollback line]\<rparr>)"
| rollback: "i < length (producers s) \<Longrightarrow> producers s ! i = PRollback line \<Longrightarrow>
     qstep cap max_bytes s (s\<lparr>producers := (producers s)[i := PIdle], q_bytes := q_bytes s - int (length line),
       q_dropped := q_dropped s + 1\<rparr>)"
| receive: "j < length (consumers s) \<Longrightarrow> consumers s ! j = CIdle \<Longrightarrow> q_chan s = (line, tr) # rest \<Longrightarrow>
     qstep cap max_bytes s (s\<lparr>consumers := (consumers s)[j := CTaken line tr], q_chan := rest,
       q_taken := q_taken s @ [(line, tr)]\<rparr>)"
| release: "j < length (consumers s) \<Longrightarrow> consumers s ! j = CTaken line tr \<Longrightarrow>
     qstep cap max_bytes s (s\<lparr>consumers := (consumers s)[j := CIdle], q_bytes := q_bytes s - int (length line)\<rparr>)"

definition qinit :: "nat \<Rightarrow> nat \<Rightarrow> qstate" where
  "qinit n m = \<lparr>q_chan = [], q_bytes = 0, producers = replicate n PIdle, consumers = replicate m CIdle,
     q_dropped = 0, q_sent = [], q_taken = []\<rparr>"

section \<open>The service\<close>

record service =
  s_queue :: queue
  s_workers :: "worker list"
  s_shared :: shared

inductive svc_step ::
    "config \<Rightarrow> (string \<Rightarrow> parse_result) \<Rightarrow> (string \<Rightarrow> bool) \<Rightarrow> (go_err \<Rightarrow> string) \<Rightarrow> service \<Rightarrow> service \<Rightarrow> bool"
  for cfg :: config and parse :: "string \<Rightarrow> parse_result" and cont :: "string \<Rightarrow> bool" and err_text :: "go_err \<Rightarrow> string" where
  enqueue: "stats (s_shared v) = Some st \<Longrightarrow>
     try_enqueue (queue_max_bytes cfg) now line tr (s_queue v) st = (ok, q', st') \<Longrightarrow>
     svc_step cfg parse cont err_text v (v\<lparr>s_queue := q', s_shared := (s_shared v)\<lparr>stats := Some st'\<rparr>\<rparr>)"
| dequeue: "j < length (s_workers v) \<Longrightarrow> \<not> circuit_open (circ (s_shared v)) now \<Longrightarrow>
     chan (s_queue v) = it # rest \<Longrightarrow>
     on_item (shared_secret cfg) parse cont err_text env it (s_workers v ! j) (s_shared v) = (wk, w, out) \<Longrightarrow>
     svc_step cfg parse cont err_text v (v\<lparr>s_queue := release_queue_bytes (fst it) ((s_queue v)\<lparr>chan := rest\<rparr>),
       s_workers := (s_workers v)[j := wk], s_shared := w\<rparr>)"
| tick: "j < length (s_workers v) \<Longrightarrow> on_tick err_text lenv eenv (s_workers v ! j) (s_shared v) = (wk, w, out) \<Longrightarrow>
     svc_step cfg parse cont err_text v (v\<lparr>s_workers := (s_workers v)[j := wk], s_shared := w\<rparr>)"

text \<open>NewService, with the state that \<^verbatim>\<open>Run\<close> sets.\<close>

definition new_service ::
    "config \<Rightarrow> bool \<Rightarrow> (string \<Rightarrow> geo_lookup) option \<Rightarrow> (go_err \<Rightarrow> bool) option \<Rightarrow> bool \<Rightarrow> bool \<Rightarrow> service" where
  "new_service cfg enrich g retry logs errs =
     \<lparr>s_queue = \<lparr>chan = [], chan_cap = nat (queue_size cfg), queue_bytes = 0\<rparr>,
      s_workers = replicate (nat (worker_count cfg))
        \<lparr>w_proc = new_processor (cfg_batch_size cfg) (cfg_query_timeout cfg) enrich g retry logs errs, in_err = False\<rparr>,
      s_shared = \<lparr>circ = new_circuit, stats = Some (new_stats\<lparr>state_name := ''running''\<rparr>)\<rparr>\<rparr>"

section \<open>The queue under concurrency\<close>

fun p_weight :: "producer \<Rightarrow> int" where
  "p_weight (PReserved l tr) = int (length l)"
| "p_weight (PRollback l) = int (length l)"
| "p_weight _ = 0"

fun c_weight :: "consumer \<Rightarrow> int" where
  "c_weight (CTaken l tr) = int (length l)"
| "c_weight CIdle = 0"

definition bytes_in :: "item list \<Rightarrow> int" where
  "bytes_in its = sum_list (map (\<lambda>(l, tr). int (length l)) its)"

lemma bytes_in_simps [simp]: "bytes_in [] = 0" "bytes_in (it # its) = int (length (fst it)) + bytes_in its"
    "bytes_in (xs @ ys) = bytes_in xs + bytes_in ys"
  by (simp_all add: bytes_in_def split_beta)

lemma bytes_in_nonneg [simp]: "0 \<le> bytes_in xs"
  by (induction xs) auto

definition held :: "qstate \<Rightarrow> int" where
  "held s = bytes_in (q_chan s) + sum_list (map p_weight (producers s)) + sum_list (map c_weight (consumers s))"

definition queue_inv :: "nat \<Rightarrow> int \<Rightarrow> qstate \<Rightarrow> bool" where
  "queue_inv cap max_bytes s \<longleftrightarrow> q_bytes s = held s \<and> q_bytes s \<le> max_bytes \<and> length (q_chan s) \<le> cap
     \<and> q_sent s = q_taken s @ q_chan s
     \<and> (\<forall>l tr cur. PSwap l tr cur \<in> set (producers s) \<longrightarrow> cur + int (length l) \<le> max_bytes)"

lemma sum_weight_update:
  "i < length xs \<Longrightarrow> sum_list (map f (xs[i := x])) = sum_list (map f xs) - f (xs ! i) + (f x :: int)"
  by (induction xs arbitrary: i) (auto split: nat.splits)

lemma weights_nonneg: "0 \<le> sum_list (map p_weight ps)" "0 \<le> sum_list (map c_weight cs)"
proof -
  have "0 \<le> p_weight p" for p by (cases p) auto
  then show "0 \<le> sum_list (map p_weight ps)" by (intro sum_list_nonneg) auto
  have "0 \<le> c_weight c" for c by (cases c) auto
  then show "0 \<le> sum_list (map c_weight cs)" by (intro sum_list_nonneg) auto
qed

lemma set_update_other: "x \<in> set (xs[i := y]) \<Longrightarrow> x = y \<or> x \<in> set xs"
  by (meson insertE set_update_subset_insert subsetD)

lemma qstep_inv:
  assumes "qstep cap max_bytes s s'" "queue_inv cap max_bytes s"
  shows "queue_inv cap max_bytes s'"
  using assms
proof (cases rule: qstep.cases)
  case (swap i line tr cur)
  then have "PSwap line tr cur \<in> set (producers s)" by (metis nth_mem)
  then have "cur + int (length line) \<le> max_bytes" using assms(2) by (auto simp: queue_inv_def)
  with swap assms(2) show ?thesis
    by (auto simp: queue_inv_def held_def sum_weight_update dest: set_update_other)
qed (use assms(2) in \<open>auto simp: queue_inv_def held_def sum_weight_update dest: set_update_other\<close>)

interpretation queue_sys: invariant_system "\<lambda>s. 0 \<le> max_bytes \<and> (\<exists>n m. s = qinit n m)"
  "qstep cap max_bytes" "queue_inv cap max_bytes" for cap max_bytes
proof unfold_locales
  show "queue_inv cap max_bytes s" if "0 \<le> max_bytes \<and> (\<exists>n m. s = qinit n m)" for s
    using that by (auto simp: queue_inv_def qinit_def held_def sum_list_replicate map_replicate_const)
qed (rule qstep_inv)

lemma qreach_inv: "(qstep cap max_bytes)\<^sup>*\<^sup>* (qinit n m) s \<Longrightarrow> 0 \<le> max_bytes \<Longrightarrow> queue_inv cap max_bytes s"
  using queue_sys.reachable_inv by blast

text \<open>C23: The byte budget of the queue is exact under any interleaving. However many connections and
  workers run the steps of \<^verbatim>\<open>TryEnqueue\<close> and of the dequeue at the same time, \<^verbatim>\<open>queueBytes\<close> always
  equals the bytes queued, reserved or taken but not yet released; it never exceeds the limit and is
  never negative, the channel never exceeds its capacity, and when nobody is in the middle of an operation
  and the channel is empty it is zero. The lines taken, followed by those in the channel, are the lines
  accepted, in that order.\<close>

theorem queue_bytes_exact:
  assumes "(qstep cap max_bytes)\<^sup>*\<^sup>* (qinit n m) s" "0 \<le> max_bytes"
  shows "q_bytes s = held s \<and> 0 \<le> q_bytes s \<and> q_bytes s \<le> max_bytes \<and> bytes_in (q_chan s) \<le> max_bytes
    \<and> length (q_chan s) \<le> cap \<and> q_sent s = q_taken s @ q_chan s
    \<and> (q_chan s = [] \<and> list_all (\<lambda>p. p = PIdle) (producers s) \<and> list_all (\<lambda>c. c = CIdle) (consumers s) \<longrightarrow> q_bytes s = 0)"
proof -
  have inv: "queue_inv cap max_bytes s" using assms by (rule qreach_inv)
  have idle: "sum_list (map p_weight ps) = 0" if "list_all (\<lambda>p. p = PIdle) ps" for ps
    using that by (induction ps) auto
  have idle': "sum_list (map c_weight cs) = 0" if "list_all (\<lambda>c. c = CIdle) cs" for cs
    using that by (induction cs) auto
  show ?thesis
    using inv weights_nonneg(1) [of "producers s"] weights_nonneg(2) [of "consumers s"] bytes_in_nonneg [of "q_chan s"]
    by (auto simp: queue_inv_def held_def idle idle')
qed

text \<open>Two producers race for the last free byte: one swap fails.\<close>

definition race :: qstate where
  "race = \<lparr>q_chan = [], q_bytes = 1, producers = [PReserved ''a'' ''tcp'', PLoad ''b'' ''udp''], consumers = [],
     q_dropped = 0, q_sent = [], q_taken = []\<rparr>"

lemma race_reachable: "(qstep 1 1)\<^sup>*\<^sup>* (qinit 2 0) race"
proof -
  let ?s0 = "qinit 2 0"
  have s0: "?s0 = \<lparr>q_chan = [], q_bytes = 0, producers = [PIdle, PIdle], consumers = [], q_dropped = 0, q_sent = [], q_taken = []\<rparr>"
    by (simp add: qinit_def numeral_eq_Suc)
  let ?st = "\<lambda>b ps. \<lparr>q_chan = [], q_bytes = b, producers = ps, consumers = [], q_dropped = 0, q_sent = [], q_taken = []\<rparr>"
  have 1: "qstep 1 1 ?s0 (?st 0 [PLoad ''a'' ''tcp'', PIdle])"
    using qstep.start [of 0 ?s0 "''a''" 1 1 "''tcp''"] by (simp add: s0)
  have 2: "qstep 1 1 (?st 0 [PLoad ''a'' ''tcp'', PIdle]) (?st 0 [PLoad ''a'' ''tcp'', PLoad ''b'' ''udp''])"
    using qstep.start [of 1 "?st 0 [PLoad ''a'' ''tcp'', PIdle]" "''b''" 1 1 "''udp''"] by simp
  have 3: "qstep 1 1 (?st 0 [PLoad ''a'' ''tcp'', PLoad ''b'' ''udp'']) (?st 0 [PSwap ''a'' ''tcp'' 0, PLoad ''b'' ''udp''])"
    using qstep.load_fits [of 0 "?st 0 [PLoad ''a'' ''tcp'', PLoad ''b'' ''udp'']" "''a''" "''tcp''" 1 1] by simp
  have 4: "qstep 1 1 (?st 0 [PSwap ''a'' ''tcp'' 0, PLoad ''b'' ''udp'']) (?st 0 [PSwap ''a'' ''tcp'' 0, PSwap ''b'' ''udp'' 0])"
    using qstep.load_fits [of 1 "?st 0 [PSwap ''a'' ''tcp'' 0, PLoad ''b'' ''udp'']" "''b''" "''udp''" 1 1] by simp
  have 5: "qstep 1 1 (?st 0 [PSwap ''a'' ''tcp'' 0, PSwap ''b'' ''udp'' 0]) (?st 1 [PReserved ''a'' ''tcp'', PSwap ''b'' ''udp'' 0])"
    using qstep.swap [of 0 "?st 0 [PSwap ''a'' ''tcp'' 0, PSwap ''b'' ''udp'' 0]" "''a''" "''tcp''" 0 1 1] by simp
  have 6: "qstep 1 1 (?st 1 [PReserved ''a'' ''tcp'', PSwap ''b'' ''udp'' 0]) race"
    using qstep.swap_fails [of 1 "?st 1 [PReserved ''a'' ''tcp'', PSwap ''b'' ''udp'' 0]" "''b''" "''udp''" 0 1 1]
    by (simp add: race_def)
  from 1 2 3 4 5 6 show ?thesis by (meson converse_rtranclp_into_rtranclp rtranclp.rtrancl_refl)
qed

theorem queue_bytes_exact_witness: "q_bytes race = held race \<and> q_bytes race \<le> 1"
  using queue_bytes_exact [OF race_reachable] by simp

section \<open>The function and the steps\<close>

text \<open>\<^verbatim>\<open>TryEnqueue\<close> is a run of its atomic steps. Called by a producer while the others stand still,
  for a line that is not blank, the function gives exactly the channel, the counter and the number of
  drops that its steps lead to, and accepts the line exactly if the steps sent it.\<close>

theorem try_enqueue_is_run:
  assumes "i < length (producers s)" "producers s ! i = PIdle" "0 < max_bytes" "trim_space line \<noteq> []"
    "try_enqueue max_bytes now line tr \<lparr>chan = q_chan s, chan_cap = cap, queue_bytes = q_bytes s\<rparr> st = (ok, q', st')"
  shows "\<exists>s'. (qstep cap max_bytes)\<^sup>*\<^sup>* s s' \<and> producers s' = producers s \<and> consumers s' = consumers s
    \<and> q_chan s' = chan q' \<and> q_bytes s' = queue_bytes q'
    \<and> q_dropped s' - q_dropped s = dropped_total st' - dropped_total st
    \<and> q_sent s' = q_sent s @ (if ok then [(trim_space line, tr)] else [])"
proof -
  define l where "l = trim_space line"
  have l: "l \<noteq> []" using assms(4) by (simp add: l_def)
  have same: "(producers s)[i := PIdle] = producers s" using assms(1,2) by (metis list_update_id)
  consider "int (length l) > max_bytes" | "int (length l) \<le> max_bytes" "q_bytes s + int (length l) > max_bytes"
    | "q_bytes s + int (length l) \<le> max_bytes" "int (length l) \<le> max_bytes" "length (q_chan s) < cap"
    | "q_bytes s + int (length l) \<le> max_bytes" "int (length l) \<le> max_bytes" "\<not> length (q_chan s) < cap" by linarith
  then show ?thesis
  proof cases
    case 1
    then have "qstep cap max_bytes s (s\<lparr>q_dropped := q_dropped s + 1\<rparr>)"
      using assms(1,2) by (rule_tac qstep.too_long)
    with 1 assms(3,5) l show ?thesis
      by (intro exI [of _ "s\<lparr>q_dropped := q_dropped s + 1\<rparr>"])
        (auto simp: try_enqueue_def Let_def l_def [symmetric] add_dropped_def)
  next
    case 2
    let ?s1 = "s\<lparr>producers := (producers s)[i := PLoad l tr]\<rparr>"
    let ?s2 = "?s1\<lparr>producers := (producers ?s1)[i := PIdle], q_dropped := q_dropped ?s1 + 1\<rparr>"
    have "qstep cap max_bytes s ?s1" using assms(1,2) l 2(1) by (rule qstep.start)
    moreover have "qstep cap max_bytes ?s1 ?s2" using assms(1) 2 by (intro qstep.load_full) auto
    ultimately have "(qstep cap max_bytes)\<^sup>*\<^sup>* s ?s2" by auto
    with 2 assms(3,5) l same show ?thesis
      by (intro exI [of _ ?s2]) (auto simp: try_enqueue_def Let_def l_def [symmetric] add_dropped_def)
  next
    case 3
    let ?s1 = "s\<lparr>producers := (producers s)[i := PLoad l tr]\<rparr>"
    let ?s2 = "?s1\<lparr>producers := (producers ?s1)[i := PSwap l tr (q_bytes ?s1)]\<rparr>"
    let ?s3 = "?s2\<lparr>producers := (producers ?s2)[i := PReserved l tr], q_bytes := q_bytes ?s1 + int (length l)\<rparr>"
    let ?s4 = "?s3\<lparr>producers := (producers ?s3)[i := PIdle], q_chan := q_chan ?s3 @ [(l, tr)], q_sent := q_sent ?s3 @ [(l, tr)]\<rparr>"
    have "qstep cap max_bytes s ?s1" using assms(1,2) l 3(2) by (rule qstep.start)
    moreover have "qstep cap max_bytes ?s1 ?s2" using assms(1) 3 by (intro qstep.load_fits) auto
    moreover have "qstep cap max_bytes ?s2 ?s3" using assms(1) 3 by (intro qstep.swap) auto
    moreover have "qstep cap max_bytes ?s3 ?s4" using assms(1) 3 by (intro qstep.send) auto
    ultimately have "(qstep cap max_bytes)\<^sup>*\<^sup>* s ?s4" by (meson converse_rtranclp_into_rtranclp rtranclp.rtrancl_refl)
    with 3 assms(3,5) l same show ?thesis
      by (intro exI [of _ ?s4]) (auto simp: try_enqueue_def Let_def l_def [symmetric])
  next
    case 4
    let ?s1 = "s\<lparr>producers := (producers s)[i := PLoad l tr]\<rparr>"
    let ?s2 = "?s1\<lparr>producers := (producers ?s1)[i := PSwap l tr (q_bytes ?s1)]\<rparr>"
    let ?s3 = "?s2\<lparr>producers := (producers ?s2)[i := PReserved l tr], q_bytes := q_bytes ?s1 + int (length l)\<rparr>"
    let ?s4 = "?s3\<lparr>producers := (producers ?s3)[i := PRollback l]\<rparr>"
    let ?s5 = "?s4\<lparr>producers := (producers ?s4)[i := PIdle], q_bytes := q_bytes ?s4 - int (length l), q_dropped := q_dropped ?s4 + 1\<rparr>"
    have "qstep cap max_bytes s ?s1" using assms(1,2) l 4(2) by (rule qstep.start)
    moreover have "qstep cap max_bytes ?s1 ?s2" using assms(1) 4 by (intro qstep.load_fits) auto
    moreover have "qstep cap max_bytes ?s2 ?s3" using assms(1) 4 by (intro qstep.swap) auto
    moreover have "qstep cap max_bytes ?s3 ?s4" using assms(1) 4 by (intro qstep.send_full) auto
    moreover have "qstep cap max_bytes ?s4 ?s5" using assms(1) 4 by (intro qstep.rollback) auto
    ultimately have "(qstep cap max_bytes)\<^sup>*\<^sup>* s ?s5" by (meson converse_rtranclp_into_rtranclp rtranclp.rtrancl_refl)
    with 4 assms(3,5) l same show ?thesis
      by (intro exI [of _ ?s5]) (auto simp: try_enqueue_def Let_def l_def [symmetric] add_dropped_def)
  qed
qed


theorem try_enqueue_is_run_witness:
  "snd (snd (try_enqueue 1 5 '' a '' ''tcp'' \<lparr>chan = [], chan_cap = 1, queue_bytes = 0\<rparr> new_stats)) = new_stats
   \<and> (\<exists>s'. (qstep 1 1)\<^sup>*\<^sup>* (qinit 1 0) s' \<and> q_chan s' = [(''a'', ''tcp'')])"
proof -
  have t: "trim_space '' a '' = ''a''" by code_simp
  have r: "try_enqueue 1 5 '' a '' ''tcp'' \<lparr>chan = q_chan (qinit 1 0), chan_cap = 1, queue_bytes = q_bytes (qinit 1 0)\<rparr> new_stats
      = (True, \<lparr>chan = [(''a'', ''tcp'')], chan_cap = 1, queue_bytes = 1\<rparr>, new_stats)"
    by (simp add: try_enqueue_def t Let_def qinit_def)
  have "0 < length (producers (qinit 1 0))" "producers (qinit 1 0) ! 0 = PIdle" "(0 :: int) < 1" "trim_space '' a '' \<noteq> []"
    by (simp_all add: qinit_def t)
  from try_enqueue_is_run [OF this r] r show ?thesis by (auto simp: qinit_def)
qed

section \<open>Uploads\<close>

lemma feed_reader_counts:
  "feed_reader max_bytes tr ls serr out q s = ((out', err), q', s') \<Longrightarrow>
     received out' - received out = (queued out' - queued out) + (dropped out' - dropped out)
     \<and> dropped out' - dropped out = dropped_total s' - dropped_total s
     \<and> int (length (chan q')) - int (length (chan q)) = queued out' - queued out"
proof (induction max_bytes tr ls serr out q s rule: feed_reader.induct)
  case (3 max_bytes tr line now ls serr out q s)
  show ?case
  proof (cases "trim_space line = []")
    case True
    with 3 show ?thesis by simp
  next
    case False
    obtain ok q1 s1 where e: "try_enqueue max_bytes now line tr q s = (ok, q1, s1)" by (metis surj_pair)
    have c: "dropped_total s1 - dropped_total s = (if ok then 0 else 1)"
        "int (length (chan q1)) - int (length (chan q)) = (if ok then 1 else 0)"
      using e False by (auto simp: try_enqueue_def Let_def add_dropped_def split: if_splits)
    let ?out = "out\<lparr>received := received out + 1\<rparr>"
    let ?out1 = "if ok then ?out\<lparr>queued := queued ?out + 1\<rparr> else ?out\<lparr>dropped := dropped ?out + 1\<rparr>"
    have "feed_reader max_bytes tr ls serr ?out1 q1 s1 = ((out', err), q', s')"
      using "3.prems" False e by (simp add: Let_def)
    from "3.IH"(2) [OF False refl e [symmetric] refl this] c show ?thesis by (cases ok) auto
  qed
qed auto

text \<open>An upload is told the truth. The counters that \<^verbatim>\<open>FeedReader\<close> returns satisfy received =
  queued + dropped; exactly the queued lines are added to the channel and exactly the dropped ones to the
  global count of drops, also if the context or the scanner ends the upload early.\<close>

theorem feed_reader_correct:
  assumes "feed_reader max_bytes tr ls serr \<lparr>received = 0, queued = 0, dropped = 0\<rparr> q s = ((out, err), q', s')"
  shows "received out = queued out + dropped out
    \<and> int (length (chan q')) = int (length (chan q)) + queued out
    \<and> dropped_total s' = dropped_total s + dropped out"
  using feed_reader_counts [OF assms] by auto

theorem feed_reader_correct_witness:
  "received (fst (fst (feed_reader 10 ''http'' [(''a'', None, 1), ([], None, 2), (''b'', None, 3)] None
     \<lparr>received = 0, queued = 0, dropped = 0\<rparr> \<lparr>chan = [], chan_cap = 1, queue_bytes = 0\<rparr> new_stats))) = 2"
proof -
  have t: "trim_space ''a'' = ''a''" "trim_space ''b'' = ''b''" by code_simp+
  have "feed_reader 10 ''http'' [(''a'', None, 1), ([], None, 2), (''b'', None, 3)] None
     \<lparr>received = 0, queued = 0, dropped = 0\<rparr> \<lparr>chan = [], chan_cap = 1, queue_bytes = 0\<rparr> new_stats =
     ((\<lparr>received = 2, queued = 1, dropped = 1\<rparr>, None), \<lparr>chan = [(''a'', ''http'')], chan_cap = 1, queue_bytes = 1\<rparr>,
      new_stats\<lparr>dropped_total := 1, last_drop_at := 3\<rparr>)"
    by (simp add: t try_enqueue_def Let_def add_dropped_def new_stats_def)
  from feed_reader_correct [OF this] this show ?thesis by simp
qed

section \<open>Errors of workers\<close>

definition err_count :: "worker list \<Rightarrow> int" where
  "err_count wks = sum_list (map (\<lambda>wk. if in_err wk then 1 else 0) wks)"

definition same_health :: "shared \<Rightarrow> shared \<Rightarrow> bool" where
  "same_health w w' \<longleftrightarrow> map_option active_errors (stats w') = map_option active_errors (stats w)
     \<and> map_option state_name (stats w') = map_option state_name (stats w)"

lemma same_health_refl [simp]: "same_health w w"
  by (simp add: same_health_def)

lemma same_health_trans: "same_health w w1 \<Longrightarrow> same_health w1 w2 \<Longrightarrow> same_health w w2"
  by (simp add: same_health_def)

lemma same_health_with_stats:
  "(\<And>s. active_errors (f s) = active_errors s \<and> state_name (f s) = state_name s) \<Longrightarrow> same_health w (with_stats f w)"
  by (cases "stats w") (simp_all add: same_health_def)

lemma same_health_circ [simp]: "same_health w (w'\<lparr>circ := c\<rparr>) = same_health w w'" "same_health (w\<lparr>circ := c\<rparr>) w' = same_health w w'"
  by (simp_all add: same_health_def)

lemmas stats_defs = add_received_def add_parsed_def add_skipped_def add_parse_errors_def add_inserted_def
  add_buffered_def add_buffer_dropped_def set_last_flush_at_def

lemma flush_logs_health: "flush_logs env p w = (err, p', w', recs) \<Longrightarrow> same_health w w'"
  by (cases "stats w") (auto simp: flush_logs_def Let_def stats_defs same_health_def split: if_splits option.splits)

lemma flush_errors_health: "flush_errors env p w = (err, p', w', errs) \<Longrightarrow> same_health w w'"
  by (auto simp: flush_errors_def Let_def split: if_splits option.splits)

lemma flush_health: "flush lenv eenv p w = (r, p', w', out) \<Longrightarrow> same_health w w'"
  by (auto simp: flush_def Let_def split: prod.splits if_splits dest!: flush_logs_health flush_errors_health
      intro: same_health_trans)

lemma append_traffic_log_health: "append_traffic_log now e p w = (p', w') \<Longrightarrow> same_health w w'"
  by (cases "stats w") (auto simp: append_traffic_log_def Let_def same_health_def stats_defs split: if_splits)

lemma append_parse_error_health: "append_parse_error now pe p w = (p', w') \<Longrightarrow> same_health w w'"
  by (cases "stats w") (auto simp: append_parse_error_def Let_def same_health_def stats_defs split: if_splits prod.splits)

lemma health_received: "same_health (with_stats (add_received tr) w) w' = same_health w w'"
    "same_health (with_stats (add_parsed 1) w) w' = same_health w w'"
    "same_health (with_stats (add_parse_errors 1) w) w' = same_health w w'"
    "same_health w (with_stats (add_skipped 1) w') = same_health w w'"
    "same_health w (with_stats (add_received tr) w') = same_health w w'"
  by (cases "stats w"; cases "stats w'"; simp add: same_health_def stats_defs Let_def)+

lemma process_line_health: "process_line parse cont env line tr p w = (r, p', w', out) \<Longrightarrow> same_health w w'"
  by (auto simp: process_line_def Let_def health_received split: if_splits prod.splits
      dest!: append_traffic_log_health append_parse_error_health flush_health flush_errors_health
      intro: same_health_trans)

abbreviation flag :: "worker \<Rightarrow> int" where
  "flag wk \<equiv> (if in_err wk then 1 else 0)"

lemma err_count_update:
  "j < length wks \<Longrightarrow> err_count (wks[j := wk]) = err_count wks - flag (wks ! j) + flag wk"
  unfolding err_count_def by (rule sum_weight_update)

lemma err_count_member: "j < length wks \<Longrightarrow> flag (wks ! j) \<le> err_count wks"
proof -
  assume "j < length wks"
  then have "err_count wks = err_count (take j wks) + flag (wks ! j) + err_count (drop (Suc j) wks)"
    unfolding err_count_def by (subst id_take_nth_drop [of j wks]) auto
  moreover have "0 \<le> err_count xs" for xs unfolding err_count_def by (intro sum_list_nonneg) auto
  ultimately show ?thesis by (smt (verit))
qed

lemma err_count_pos: "0 < err_count wks \<longleftrightarrow> list_ex in_err wks"
proof -
  have nn: "0 \<le> err_count xs" for xs unfolding err_count_def by (intro sum_list_nonneg) auto
  show ?thesis
  proof (induction wks)
    case (Cons wk wks)
    then show ?case using nn [of wks] by (auto simp: err_count_def)
  qed (simp add: err_count_def)
qed

text \<open>How an arm of a worker changes its flag and the shared counter.\<close>

definition health_step :: "worker \<Rightarrow> shared \<Rightarrow> worker \<Rightarrow> shared \<Rightarrow> bool" where
  "health_step wk w wk' w' \<longleftrightarrow> (\<forall>s. stats w = Some s \<and> flag wk \<le> active_errors s \<longrightarrow>
     (\<exists>s'. stats w' = Some s' \<and> state_name s' = state_name s
       \<and> active_errors s' = active_errors s - flag wk + flag wk'))"

lemma same_health_step: "same_health w w' \<Longrightarrow> in_err wk' = in_err wk \<Longrightarrow> health_step wk w wk' w'"
  by (auto simp: health_step_def same_health_def)

lemma note_health:
  "note_err msg wk w = (wk', w') \<Longrightarrow> health_step wk w wk' w'"
  "note_ok wk w = (wk', w') \<Longrightarrow> health_step wk w wk' w'"
  by (auto simp: note_err_def note_ok_def health_step_def note_worker_error_def note_worker_ok_def
      set_last_error_def Let_def split: if_splits)

lemma health_step_trans:
  "same_health w w1 \<Longrightarrow> in_err wk1 = in_err wk \<Longrightarrow> health_step wk1 w1 wk' w' \<Longrightarrow> health_step wk w wk' w'"
  by (auto simp: health_step_def same_health_def)

lemma note_proc:
  "note_err msg wk w = (wk', w') \<Longrightarrow> w_proc wk' = w_proc wk"
  "note_ok wk w = (wk', w') \<Longrightarrow> w_proc wk' = w_proc wk"
  by (auto simp: note_err_def note_ok_def split: if_splits)

lemma on_item_health:
  assumes "on_item secret parse cont err_text env it wk w = (wk', w', out)"
  shows "health_step wk w wk' w'"
proof -
  obtain line0 fb where it: "it = (line0, fb)" by force
  obtain tr line ok where r: "resolve_transport_auth line0 fb secret = (tr, line, ok)" by (metis surj_pair)
  show ?thesis
  proof (cases ok)
    case False
    with assms it r show ?thesis
      by (cases "stats w") (auto simp: on_item_def health_step_def)
  next
    case True
    obtain a n err p w1 o1 where pl: "process_line parse cont env line tr (w_proc wk) w = ((a, n, err), p, w1, o1)"
      by (metis surj_pair)
    have "health_step (wk\<lparr>w_proc := p\<rparr>) w1 wk' w'"
      using assms it r True pl by (cases err) (auto simp: on_item_def split: prod.splits dest: note_health)
    then show ?thesis by (intro health_step_trans [OF process_line_health [OF pl]]) simp_all
  qed
qed

lemma on_tick_health:
  assumes "on_tick err_text lenv eenv wk w = (wk', w', out)"
  shows "health_step wk w wk' w'"
proof -
  obtain n err p w1 o1 where f: "flush lenv eenv (w_proc wk) w = ((n, err), p, w1, o1)" by (metis surj_pair)
  have "health_step (wk\<lparr>w_proc := p\<rparr>) w1 wk' w'"
    using assms f by (cases err) (auto simp: on_tick_def split: prod.splits dest: note_health)
  then show ?thesis by (intro health_step_trans [OF flush_health [OF f]]) simp_all
qed

lemma on_item_proc_ok:
  assumes "on_item secret parse cont err_text env it wk w = (wk', w', out)" "proc_ok (w_proc wk)"
  shows "proc_ok (w_proc wk')"
proof -
  obtain line0 fb where it: "it = (line0, fb)" by force
  obtain tr line ok where r: "resolve_transport_auth line0 fb secret = (tr, line, ok)" by (metis surj_pair)
  obtain a n err p w1 o1 where pl: "process_line parse cont env line tr (w_proc wk) w = ((a, n, err), p, w1, o1)"
    by (metis surj_pair)
  have "proc_ok p" using process_line_step [OF pl assms(2)] assms(2) by (simp add: step_ok_def)
  with assms it r pl show ?thesis
    by (cases err) (auto simp: on_item_def split: if_splits prod.splits dest!: note_proc)
qed

lemma on_tick_proc_ok:
  assumes "on_tick err_text lenv eenv wk w = (wk', w', out)" "proc_ok (w_proc wk)"
  shows "proc_ok (w_proc wk')"
proof -
  obtain n err p w1 o1 where f: "flush lenv eenv (w_proc wk) w = ((n, err), p, w1, o1)" by (metis surj_pair)
  have "proc_ok p" using flush_step [OF f] assms(2) by (simp add: step_ok_def)
  with assms f show ?thesis
    by (cases err) (auto simp: on_tick_def split: prod.splits dest!: note_proc)
qed

definition service_inv :: "config \<Rightarrow> service \<Rightarrow> bool" where
  "service_inv cfg v \<longleftrightarrow> 0 < queue_max_bytes cfg
     \<and> (\<exists>s. stats (s_shared v) = Some s \<and> state_name s = ''running'' \<and> active_errors s = err_count (s_workers v))
     \<and> (\<forall>wk \<in> set (s_workers v). proc_ok (w_proc wk))
     \<and> queue_bytes (s_queue v) = bytes_in (chan (s_queue v)) \<and> queue_bytes (s_queue v) \<le> queue_max_bytes cfg
     \<and> chan_cap (s_queue v) = nat (queue_size cfg) \<and> length (chan (s_queue v)) \<le> chan_cap (s_queue v)"

lemma try_enqueue_inv:
  assumes "try_enqueue mb now line tr q s = (ok, q', s')" "0 < mb"
    "queue_bytes q = bytes_in (chan q)" "queue_bytes q \<le> mb" "length (chan q) \<le> chan_cap q"
  shows "queue_bytes q' = bytes_in (chan q') \<and> queue_bytes q' \<le> mb \<and> length (chan q') \<le> chan_cap q'
    \<and> chan_cap q' = chan_cap q \<and> active_errors s' = active_errors s \<and> state_name s' = state_name s"
  using assms by (auto simp: try_enqueue_def Let_def add_dropped_def split: if_splits)

lemma service_worker_step:
  assumes "service_inv cfg v" "j < length (s_workers v)" "health_step (s_workers v ! j) (s_shared v) wk w" "proc_ok (w_proc wk)"
  shows "(\<exists>s. stats w = Some s \<and> state_name s = ''running'' \<and> active_errors s = err_count ((s_workers v)[j := wk]))
    \<and> (\<forall>wk' \<in> set ((s_workers v)[j := wk]). proc_ok (w_proc wk'))"
proof
  obtain s where s: "stats (s_shared v) = Some s" "state_name s = ''running''" "active_errors s = err_count (s_workers v)"
    using assms(1) by (auto simp: service_inv_def)
  with assms(3) err_count_member [OF assms(2)]
  show "\<exists>s. stats w = Some s \<and> state_name s = ''running'' \<and> active_errors s = err_count ((s_workers v)[j := wk])"
    by (auto simp: health_step_def err_count_update [OF assms(2)])
  show "\<forall>wk' \<in> set ((s_workers v)[j := wk]). proc_ok (w_proc wk')"
    using assms(1,4) by (auto simp: service_inv_def dest: set_update_other)
qed

lemma svc_step_inv:
  assumes "svc_step cfg parse cont err_text v v'" "service_inv cfg v"
  shows "service_inv cfg v'"
  using assms(1)
proof (cases rule: svc_step.cases)
  case (enqueue st now line tr ok q' st')
  with assms(2) try_enqueue_inv [OF enqueue(3)] show ?thesis by (auto simp: service_inv_def)
next
  case (dequeue j now it rest env wk w out)
  have ok: "proc_ok (w_proc (s_workers v ! j))" using assms(2) dequeue(2) by (auto simp: service_inv_def)
  have q: "chan_cap (release_queue_bytes (fst it) (s_queue v\<lparr>chan := rest\<rparr>)) = chan_cap (s_queue v)"
      "chan (release_queue_bytes (fst it) (s_queue v\<lparr>chan := rest\<rparr>)) = rest"
      "queue_bytes (release_queue_bytes (fst it) (s_queue v\<lparr>chan := rest\<rparr>)) = queue_bytes (s_queue v) - int (length (fst it))"
    by (auto simp: release_queue_bytes_def Let_def)
  from service_worker_step [OF assms(2) dequeue(2) on_item_health [OF dequeue(5)] on_item_proc_ok [OF dequeue(5) ok]]
    assms(2) dequeue(1,4) q show ?thesis by (auto simp: service_inv_def)
next
  case (tick j lenv eenv wk w out)
  have ok: "proc_ok (w_proc (s_workers v ! j))" using assms(2) tick(2) by (auto simp: service_inv_def)
  from service_worker_step [OF assms(2) tick(2) on_tick_health [OF tick(3)] on_tick_proc_ok [OF tick(3) ok]]
    assms(2) tick(1) show ?thesis by (auto simp: service_inv_def)
qed

lemma new_service_inv: "0 < queue_max_bytes cfg \<Longrightarrow> service_inv cfg (new_service cfg enrich g retry logs errs)"
  by (auto simp: service_inv_def new_service_def new_stats_def err_count_def proc_ok_new sum_list_replicate map_replicate_const)

interpretation service_sys: invariant_system
  "\<lambda>v. 0 < queue_max_bytes cfg \<and> (\<exists>enrich g retry logs errs. v = new_service cfg enrich g retry logs errs)"
  "svc_step cfg parse cont err_text" "service_inv cfg" for cfg parse cont err_text
  by unfold_locales (auto simp: new_service_inv intro: svc_step_inv)

text \<open>The service reports an error exactly while a worker is in error. Whatever is enqueued,
  dequeued and flushed by the workers in any order, from a new service the shared counter of active errors
  equals the number of workers whose last cycle failed, so the reported state is error if and only if
  there is such a worker; the byte counter of the queue equals the queued bytes, within its limit.\<close>

theorem service_health_exact:
  assumes "(svc_step cfg parse cont err_text)\<^sup>*\<^sup>* (new_service cfg enrich g retry logs errs) v" "0 < queue_max_bytes cfg"
  shows "\<exists>s. stats (s_shared v) = Some s \<and> active_errors s = err_count (s_workers v)
    \<and> (reported_state s = ''error'' \<longleftrightarrow> list_ex in_err (s_workers v))
    \<and> queue_bytes (s_queue v) = bytes_in (chan (s_queue v)) \<and> queue_bytes (s_queue v) \<le> queue_max_bytes cfg"
proof -
  have "service_inv cfg v" using service_sys.reachable_inv [OF assms(1)] assms(2) by blast
  then show ?thesis using err_count_pos [of "s_workers v"] by (auto simp: service_inv_def reported_state_def)
qed

definition ex_config :: config where
  "ex_config = norm_config \<lparr>bindings = [], listen_addr = [], cfg_batch_size = 0, flush_interval = 0, queue_size = 0,
     queue_max_bytes = 0, worker_count = 1, cfg_query_timeout = 0, max_connections = 0, conn_idle_timeout = 0,
     shared_secret = [], allow_from = []\<rparr>"

theorem service_health_exact_witness:
  "queue_bytes (s_queue (new_service ex_config False None None True True)) \<le> queue_max_bytes ex_config"
proof -
  have "0 < queue_max_bytes ex_config" by (simp add: ex_config_def norm_config_def)
  from service_health_exact [OF rtranclp.rtrancl_refl this] show ?thesis by blast
qed

section \<open>The drain\<close>

definition good_insert :: "insert_env \<Rightarrow> bool" where
  "good_insert env \<longleftrightarrow> ctx_before (attempt env 1) = None \<and> (\<forall>t. fn_result (attempt env 1) t = None)"

lemma good_insert_ok:
  "good_insert env \<Longrightarrow> fst (insert_with_retry c t (\<lambda>k. if h then attempt env k else (attempt env k)\<lparr>fn_result := \<lambda>_. None\<rparr>)) = None"
  by (simp add: insert_with_retry_def insert_retry_attempts_def retry_from.simps good_insert_def)

lemma flush_logs_good:
  assumes "good_insert env" "open_until (circ w) = 0" "flush_logs env p w = (err, p', w', recs)"
  shows "err = None \<and> buf p' = [] \<and> err_buf p' = err_buf p \<and> open_until (circ w') = 0"
  using assms good_insert_ok [OF assms(1)]
  by (auto simp: flush_logs_def Let_def circuit_check_def note_success_def split: if_splits)

lemma flush_errors_good:
  assumes "good_insert env" "open_until (circ w) = 0" "flush_errors env p w = (err, p', w', errs)"
  shows "err = None \<and> err_buf p' = [] \<and> buf p' = buf p \<and> open_until (circ w') = 0"
  using assms good_insert_ok [OF assms(1)]
  by (auto simp: flush_errors_def Let_def circuit_check_def note_success_def split: if_splits)

lemma flush_good:
  assumes "good_insert lenv" "good_insert eenv" "open_until (circ w) = 0" "flush lenv eenv p w = (r, p', w', out)"
  shows "buf p' = [] \<and> err_buf p' = [] \<and> open_until (circ w') = 0"
proof -
  obtain err1 p1 w1 recs where 1: "flush_logs lenv p w = (err1, p1, w1, recs)" using prod_cases4 by blast
  obtain err2 p2 w2 errs where 2: "flush_errors eenv p1 w1 = (err2, p2, w2, errs)" using prod_cases4 by blast
  from flush_logs_good [OF assms(1,3) 1] flush_errors_good [OF assms(2) _ 2] assms(4) 1 2
  show ?thesis by (auto simp: flush_def Let_def)
qed

lemma append_circ:
  "append_traffic_log now e p w = (p', w') \<Longrightarrow> circ w' = circ w"
  "append_parse_error now pe p w = (p', w') \<Longrightarrow> circ w' = circ w"
  by (auto simp: append_traffic_log_def append_parse_error_def Let_def split: if_splits prod.splits)

lemma process_line_good:
  assumes "good_insert (logs_env env)" "good_insert (errs_env env)" "open_until (circ w) = 0"
    "process_line parse cont env line tr p w = (r, p', w', out)"
  shows "open_until (circ w') = 0"
  using assms
  by (auto simp: process_line_def Let_def split: if_splits prod.splits dest!: append_circ [THEN sym]
      dest: flush_good flush_errors_good)

text \<open>A round in which nothing goes wrong.\<close>

definition good_round :: "drain_env \<Rightarrow> bool" where
  "good_round e \<longleftrightarrow> \<not> ctx_done e \<and> good_insert (logs_env (round_line e)) \<and> good_insert (errs_env (round_line e))"

lemma drain_worker_good:
  assumes "list_all good_round es" "length (chan q) < length es" "open_until (circ w) = 0"
    "drain_worker secret parse cont es p w q = (p', w', q', ended)"
  shows "ended \<and> chan q' = [] \<and> buf p' = [] \<and> err_buf p' = []
    \<and> queue_bytes q' = queue_bytes q - bytes_in (chan q)"
  using assms
proof (induction es arbitrary: p w q)
  case (Cons e es)
  have good: "good_round e" "list_all good_round es" using Cons.prems(1) by auto
  then have g: "\<not> ctx_done e" "good_insert (logs_env (round_line e))" "good_insert (errs_env (round_line e))"
    by (auto simp: good_round_def)
  have closed: "\<not> circuit_open (circ w) t" for t
    using Cons.prems(3) by (simp add: circuit_open_def circuit_check_def)
  show ?case
  proof (cases "chan q")
    case Nil
    obtain r p1 w1 o1 where f: "flush (logs_env (round_line e)) (errs_env (round_line e)) p w = (r, p1, w1, o1)"
      using prod_cases4 by blast
    from flush_good [OF g(2,3) Cons.prems(3) f] Cons.prems(4) Nil g(1) closed f show ?thesis by auto
  next
    case (Cons it rest)
    obtain line0 fb where it: "it = (line0, fb)" by force
    obtain tr line ok where r: "resolve_transport_auth line0 fb secret = (tr, line, ok)" by (metis surj_pair)
    let ?q = "release_queue_bytes line0 (q\<lparr>chan := rest\<rparr>)"
    have q: "chan ?q = rest" "queue_bytes ?q = queue_bytes q - int (length line0)"
      by (auto simp: release_queue_bytes_def Let_def)
    have len: "length (chan ?q) < length es" using Cons.prems(2) Cons q by simp
    show ?thesis
    proof (cases ok)
      case False
      let ?w = "with_stats (\<lambda>s. s\<lparr>auth_rejected := auth_rejected s + 1\<rparr>) w"
      have "drain_worker secret parse cont es p ?w ?q = (p', w', q', ended)"
        using Cons.prems(4) Cons it r False g(1) closed by simp
      from Cons.IH [OF good(2) len _ this] Cons.prems(3) q Cons it show ?thesis by simp
    next
      case True
      obtain a p1 w1 o1 where pl: "process_line parse cont (round_line e) line tr p w = (a, p1, w1, o1)"
        using prod_cases4 by blast
      have "drain_worker secret parse cont es p1 w1 ?q = (p', w', q', ended)"
        using Cons.prems(4) Cons it r True g(1) closed pl by simp
      from Cons.IH [OF good(2) len process_line_good [OF g(2,3) Cons.prems(3) pl] this] q Cons it show ?thesis by simp
    qed
  qed
qed simp

text \<open>C28: The drain at shutdown finishes. If the context lasts, the breaker is closed and the inserts
  succeed, \<^verbatim>\<open>drainWorker\<close> returns by itself after at most one round more than there are queued lines: the
  queue is empty with its bytes released, and both buffers of the processor are written out.\<close>

theorem drain_finishes:
  assumes "list_all good_round es" "length (chan q) < length es" "open_until (circ w) = 0"
  shows "\<exists>p' w' q'. drain_worker secret parse cont es p w q = (p', w', q', True)
    \<and> chan q' = [] \<and> buf p' = [] \<and> err_buf p' = [] \<and> queue_bytes q' = queue_bytes q - bytes_in (chan q)"
proof -
  obtain p' w' q' ended where d: "drain_worker secret parse cont es p w q = (p', w', q', ended)" using prod_cases4 by blast
  from drain_worker_good [OF assms d] d show ?thesis by auto
qed

definition ex_round :: drain_env where
  "ex_round = \<lparr>ctx_done = False, round_now = 1, done_in_wait = False, round_line = ex_line\<rparr>"

theorem drain_finishes_witness:
  "\<exists>p' w' q'. drain_worker [] ex_parse (\<lambda>_. True) [ex_round, ex_round] ex_proc ex_shared
     \<lparr>chan = [(''x'', ''udp'')], chan_cap = 5, queue_bytes = 1\<rparr> = (p', w', q', True) \<and> queue_bytes q' = 0"
proof -
  have "list_all good_round [ex_round, ex_round]"
    by (simp add: good_round_def ex_round_def ex_line_def ex_insert_def good_insert_def)
  moreover have "length (chan \<lparr>chan = [(''x'', ''udp'')], chan_cap = 5, queue_bytes = 1\<rparr>) < length [ex_round, ex_round]" by simp
  moreover have "open_until (circ ex_shared) = 0" by (simp add: ex_shared_def new_circuit_def)
  ultimately show ?thesis
    using drain_finishes [of "[ex_round, ex_round]" "\<lparr>chan = [(''x'', ''udp'')], chan_cap = 5, queue_bytes = 1\<rparr>" ex_shared
        "[]" ex_parse "\<lambda>_. True" ex_proc] by (auto simp del: drain_worker.simps)
qed

section \<open>Peers\<close>

text \<open>The cache holds what the resolver answers now.\<close>

definition resolved :: "(string \<Rightarrow> net_ip list option) \<Rightarrow> string \<Rightarrow> net_ip list" where
  "resolved lookup name = (case lookup name of None \<Rightarrow> [] | Some ips \<Rightarrow> ips)"

definition cache_current :: "(string \<Rightarrow> net_ip list option) \<Rightarrow> go_time \<Rightarrow> peers \<Rightarrow> bool" where
  "cache_current lookup now a \<longleftrightarrow> (\<forall>name t. cache_at a name = Some t \<longrightarrow>
     cache_ip a name = Some (resolved lookup name))"

lemma peer_resolve_current:
  assumes "cache_current lookup now a" "peer_resolve lookup now a name = (ips, a')"
  shows "ips = resolved lookup name \<and> cache_current lookup now a'"
proof -
  have new: "cache_current lookup now (a\<lparr>cache_at := (cache_at a)(name \<mapsto> now),
      cache_ip := (cache_ip a)(name \<mapsto> resolved lookup name)\<rparr>)"
    using assms(1) by (simp add: cache_current_def)
  have old: "cache_ip a name = Some (resolved lookup name)" if "cache_at a name = Some t" for t
    using assms(1) that by (simp add: cache_current_def)
  show ?thesis
  proof (cases "\<exists>t. cache_at a name = Some t \<and> time_sub now t < peer_ttl")
    case True
    with assms old show ?thesis by (auto simp: peer_resolve_def)
  next
    case False
    then have "peer_resolve lookup now a name = (resolved lookup name, a\<lparr>cache_at := (cache_at a)(name \<mapsto> now),
        cache_ip := (cache_ip a)(name \<mapsto> resolved lookup name)\<rparr>)"
      by (auto simp: peer_resolve_def resolved_def Let_def split: option.splits)
    with assms(2) new show ?thesis by auto
  qed
qed

lemma hosts_allow_current:
  "cache_current lookup now a \<Longrightarrow> fst (hosts_allow lookup now ip hs a) \<longleftrightarrow>
     list_ex (\<lambda>h. list_ex (\<lambda>r. ip_equal r ip) (resolved lookup h)) hs"
proof (induction hs arbitrary: a)
  case (Cons h hs)
  obtain ips a' where r: "peer_resolve lookup now a h = (ips, a')" by force
  from peer_resolve_current [OF Cons.prems r] Cons.IH [of a'] r show ?case by simp
qed simp

lemma new_peers_current: "cache_current lookup now (new_peer_allowlist csv)"
proof -
  have "cache_at (foldl peer_entry a es) = cache_at a" for a es
    by (induction es arbitrary: a) (simp_all add: peer_entry_def Let_def split: option.splits)
  then show ?thesis by (simp add: cache_current_def new_peer_allowlist_def)
qed

text \<open>Which peers may connect. With an allowlist that has an entry, a peer is accepted exactly if its
  address is an IP address in one of the networks or among the current addresses of one of the hosts.
  An allowlist whose entries are all malformed networks has no entry, and then every peer is accepted.\<close>

theorem peer_allows_correct:
  "(\<not> peers_empty (new_peer_allowlist csv) \<longrightarrow>
     fst (peer_allows lookup now addr (new_peer_allowlist csv)) =
       (let ip = parse_ip (case split_host_port addr of None \<Rightarrow> addr | Some (h, _) \<Rightarrow> h) in
        ip \<noteq> [] \<and> (list_ex (\<lambda>n. net_contains n ip) (p_nets (new_peer_allowlist csv))
          \<or> list_ex (\<lambda>h. list_ex (\<lambda>r. ip_equal r ip) (resolved lookup h))
              (p_hosts (new_peer_allowlist csv)))))
   \<and> (list_all (\<lambda>e. contains_str (trim_space e) ''/'' \<and> parse_net (trim_space e) = None) (split_on (CHR '','') csv) \<longrightarrow>
     fst (peer_allows lookup now addr (new_peer_allowlist csv)))"
proof (intro conjI impI)
  show "fst (peer_allows lookup now addr (new_peer_allowlist csv)) =
       (let ip = parse_ip (case split_host_port addr of None \<Rightarrow> addr | Some (h, _) \<Rightarrow> h) in
        ip \<noteq> [] \<and> (list_ex (\<lambda>n. net_contains n ip) (p_nets (new_peer_allowlist csv))
          \<or> list_ex (\<lambda>h. list_ex (\<lambda>r. ip_equal r ip) (resolved lookup h))
              (p_hosts (new_peer_allowlist csv))))"
    if "\<not> peers_empty (new_peer_allowlist csv)"
    using that by (simp add: peer_allows_def Let_def hosts_allow_current [OF new_peers_current])
  assume bad: "list_all (\<lambda>e. contains_str (trim_space e) ''/'' \<and> parse_net (trim_space e) = None) (split_on (CHR '','') csv)"
  have "foldl peer_entry a es = a"
    if "list_all (\<lambda>e. contains_str (trim_space e) ''/'' \<and> parse_net (trim_space e) = None) es" for a es
    using that by (induction es arbitrary: a) (auto simp: peer_entry_def Let_def)
  with bad show "fst (peer_allows lookup now addr (new_peer_allowlist csv))"
    by (simp add: new_peer_allowlist_def peer_allows_def peers_empty_def)
qed

lemma parse_net_33: "parse_net ''10.0.0.0/33'' = None"
proof -
  have c: "cut_at (CHR ''/'') ''10.0.0.0/33'' = Some (''10.0.0.0'', ''33'')" by simp
  have k: "addr_kind ''10.0.0.0'' = Kind4" by simp
  show ?thesis by (simp add: parse_net_def parse_cidr_def c k Let_def is_digit_def digit_val_def code_def)
qed

theorem peer_allows_correct_witness:
  "fst (peer_allows (\<lambda>_. None) 0 ''8.8.8.8:5000'' (new_peer_allowlist ''10.0.0.0/33''))"
proof -
  have t: "trim_space ''10.0.0.0/33'' = ''10.0.0.0/33''"
    by (rule trim_space_plain) (simp_all add: plain_def code_def)
  have "list_all (\<lambda>e. contains_str (trim_space e) ''/'' \<and> parse_net (trim_space e) = None) (split_on (CHR '','') ''10.0.0.0/33'')"
    by (simp add: t parse_net_33 has_prefix_def)
  with peer_allows_correct [of "''10.0.0.0/33''" "\<lambda>_. None" 0 "''8.8.8.8:5000''", THEN conjunct2] show ?thesis by blast
qed

section \<open>Budgets of the shutdown\<close>

text \<open>The drain takes between one insert's budget and two minutes, and the wait five seconds more.\<close>

lemma drain_timeout_bounds:
  assumes "0 \<le> depth"
  shows "0 < drain_timeout c depth \<and> drain_timeout c depth \<le> 2 * minute
    \<and> drain_timeout c depth < shutdown_wait_timeout c depth"
  by (auto simp: drain_timeout_def shutdown_wait_timeout_def Let_def duration_defs)

end
