(* ===== verification/Files.thy ===== *)
theory Files
  imports Go_Text
begin

text \<open>
  The files of the control plane: \<^verbatim>\<open>fileatomic/write.go\<close> (replace a file through a temporary one,
  \<^verbatim>\<open>fsync\<close> and \<^verbatim>\<open>rename\<close>) and \<^verbatim>\<open>jsonfile/store.go\<close> (one JSON value behind a lock).

  A directory is a map from names to files; a file has contents and a flag that says whether they have
  reached the disk. The results of the system calls are an argument (\<open>os_results\<close>); the program
  of a write is the sequence of operations that it performs on the directory, so that a crash is a prefix of
  that sequence after which every file whose contents were not synced holds arbitrary bytes.
\<close>

section \<open>Directories and operations\<close>

record fs_file =
  content :: string
  durable :: bool

type_synonym dir = "string \<Rightarrow> fs_file option"

datatype fs_op =
    Create string
  | Write string string
  | Sync string
  | Rename string string
  | Remove string

fun apply_op :: "fs_op \<Rightarrow> dir \<Rightarrow> dir" where
  "apply_op (Create n) fs = fs(n \<mapsto> \<lparr>content = [], durable = False\<rparr>)"
| "apply_op (Write n bs) fs =
     (case fs n of None \<Rightarrow> fs | Some f \<Rightarrow> fs(n \<mapsto> \<lparr>content = content f @ bs, durable = False\<rparr>))"
| "apply_op (Sync n) fs =
     (case fs n of None \<Rightarrow> fs | Some f \<Rightarrow> fs(n \<mapsto> f\<lparr>durable := True\<rparr>))"
| "apply_op (Rename a b) fs = (case fs a of None \<Rightarrow> fs | Some f \<Rightarrow> fs(a := None, b \<mapsto> f))"
| "apply_op (Remove n) fs = fs(n := None)"

definition run_fs_ops :: "fs_op list \<Rightarrow> dir \<Rightarrow> dir" where
  "run_fs_ops ops fs = fold apply_op ops fs"

definition crash :: "(string \<Rightarrow> string) \<Rightarrow> dir \<Rightarrow> dir" where
  "crash junk fs n =
     (case fs n of None \<Rightarrow> None
      | Some f \<Rightarrow> Some (if durable f then f else f\<lparr>content := junk n\<rparr>))"

section \<open>WriteFile\<close>

datatype rename_result = Renamed | Missing | Busy

record os_results =
  os_mkdir :: bool
  os_create :: bool
  os_chmod :: bool
  os_write :: "nat option"
  os_sync :: bool
  os_close :: bool
  os_rename :: "nat \<Rightarrow> rename_result"
  os_rm_dest :: rename_result
  os_rename_last :: bool
  os_rm_tmp :: bool

text \<open>
  \<open>os_write\<close> is \<open>None\<close> when everything was written and the number of bytes written otherwise;
  \<open>os_rm_dest\<close> is \<open>Renamed\<close> when the removal succeeded and \<open>Missing\<close> when there was no file.
\<close>

definition replace_attempts :: nat where "replace_attempts = 25"

definition cleanup :: "os_results \<Rightarrow> string \<Rightarrow> fs_op list" where
  "cleanup os tmp = (if os_rm_tmp os then [Remove tmp] else [])"

text \<open>The last resort of \<^verbatim>\<open>replace\<close>: remove the file, then rename once more.\<close>

definition replace_last :: "os_results \<Rightarrow> string \<Rightarrow> string \<Rightarrow> fs_op list \<times> bool" where
  "replace_last os tmp dest =
     (if os_rm_dest os = Busy then ([], False)
      else ((if os_rm_dest os = Renamed then [Remove dest] else []) @
              (if os_rename_last os then [Rename tmp dest] else []),
            os_rename_last os))"

fun replace_from :: "os_results \<Rightarrow> string \<Rightarrow> string \<Rightarrow> nat \<Rightarrow> nat \<Rightarrow> fs_op list \<times> bool" where
  "replace_from os tmp dest 0 a = replace_last os tmp dest"
| "replace_from os tmp dest (Suc n) a =
     (case os_rename os a of
        Renamed \<Rightarrow> ([Rename tmp dest], True)
      | Missing \<Rightarrow> replace_last os tmp dest
      | Busy \<Rightarrow> replace_from os tmp dest n (Suc a))"

definition replace_file :: "os_results \<Rightarrow> string \<Rightarrow> string \<Rightarrow> fs_op list \<times> bool" where
  "replace_file os tmp dest = replace_from os tmp dest replace_attempts 0"

text \<open>
  \<^verbatim>\<open>sweepStaleTemps\<close>: the entries are names with the flags of a directory and of an age above an
  hour.
\<close>

definition sweep :: "string \<Rightarrow> (string \<times> bool \<times> bool) list \<Rightarrow> fs_op list" where
  "sweep base entries =
     map (\<lambda>(n, d, old). Remove n)
       (filter (\<lambda>(n, d, old). \<not> d \<and> (n = base @ ''.tmp'' \<or> has_prefix n (base @ ''.tmp-'')) \<and> old)
         entries)"

definition write_ops ::
  "os_results \<Rightarrow> (string \<times> bool \<times> bool) list \<Rightarrow> string \<Rightarrow> string \<Rightarrow> string \<Rightarrow> fs_op list \<times> bool" where
  "write_ops os entries rnd base data =
     (if \<not> os_mkdir os then ([], False)
      else
        let swept = sweep base entries; tmp = base @ ''.tmp-'' @ rnd in
        if \<not> os_create os then (swept, False)
        else
          let made = swept @ [Create tmp] in
          if \<not> os_chmod os then (made @ cleanup os tmp, False)
          else case os_write os of
            Some n \<Rightarrow> (made @ [Write tmp (take n data)] @ cleanup os tmp, False)
          | None \<Rightarrow>
              let filled = made @ [Write tmp data] in
              if \<not> os_sync os then (filled @ cleanup os tmp, False)
              else
                let synced = filled @ [Sync tmp] in
                if \<not> os_close os then (synced @ cleanup os tmp, False)
                else case replace_file os tmp base of
                  (ops, True) \<Rightarrow> (synced @ ops, True)
                | (ops, False) \<Rightarrow> (synced @ ops @ cleanup os tmp, False))"

section \<open>What a write does to its file\<close>

datatype outcome = Written | Kept | Lost

text \<open>
  The view of the callers: the file holds the new data, or is as before, or, when the last resort of
  \<^verbatim>\<open>replace\<close> removed it and could not rename, is gone.
\<close>

type_synonym disk = "string \<Rightarrow> string option"

definition write_file :: "outcome \<Rightarrow> string \<Rightarrow> string \<Rightarrow> disk \<Rightarrow> bool \<times> disk" where
  "write_file w path data d =
     (let p = trim_space path in
      if p = [] then (False, d)
      else case w of
        Written \<Rightarrow> (True, d(p \<mapsto> data))
      | Kept \<Rightarrow> (False, d)
      | Lost \<Rightarrow> (False, d(p := None)))"

section \<open>ReadFile\<close>

datatype file_read = Data string | Not_exist | Read_err

fun read_from :: "(nat \<Rightarrow> file_read) \<Rightarrow> nat \<Rightarrow> nat \<Rightarrow> file_read" where
  "read_from rs 0 a = Read_err"
| "read_from rs (Suc n) a =
     (case rs a of
        Read_err \<Rightarrow> read_from rs n (Suc a)
      | r \<Rightarrow> r)"

definition read_file :: "(nat \<Rightarrow> file_read) \<Rightarrow> file_read" where
  "read_file rs = read_from rs replace_attempts 0"

section \<open>A JSON value behind a lock: jsonfile\<close>

datatype json_err = Empty_path | Read_failed | Bad_json | Hook_failed | Write_failed

record 'a json_store =
  js_path :: string
  js_missing :: 'a
  js_load_hook :: "('a \<Rightarrow> (json_err + 'a)) option"
  js_save_hook :: "('a \<Rightarrow> (json_err + 'a)) option"

definition new_json_store ::
  "string \<Rightarrow> 'a \<Rightarrow> ('a \<Rightarrow> (json_err + 'a)) option \<Rightarrow> ('a \<Rightarrow> (json_err + 'a)) option \<Rightarrow> 'a json_store" where
  "new_json_store path missing lh sh =
     \<lparr>js_path = trim_space path, js_missing = missing, js_load_hook = lh, js_save_hook = sh\<rparr>"

definition json_load :: "(string \<Rightarrow> 'a option) \<Rightarrow> 'a json_store \<Rightarrow> file_read \<Rightarrow> json_err + 'a" where
  "json_load dec s r =
     (if js_path s = [] then Inr (js_missing s)
      else case r of
        Not_exist \<Rightarrow> Inr (js_missing s)
      | Read_err \<Rightarrow> Inl Read_failed
      | Data bs \<Rightarrow>
          (case dec bs of
             None \<Rightarrow> Inl Bad_json
           | Some v \<Rightarrow> (case js_load_hook s of Some h \<Rightarrow> h v | None \<Rightarrow> Inr v)))"

definition write_json :: "('a \<Rightarrow> string option) \<Rightarrow> outcome \<Rightarrow> string \<Rightarrow> 'a \<Rightarrow> disk \<Rightarrow> bool \<times> disk" where
  "write_json enc w path v d =
     (case enc v of None \<Rightarrow> (False, d) | Some bs \<Rightarrow> write_file w path (bs @ [byte 10]) d)"

definition json_save ::
  "('a \<Rightarrow> string option) \<Rightarrow> 'a json_store \<Rightarrow> outcome \<Rightarrow> 'a \<Rightarrow> disk \<Rightarrow> (json_err + unit) \<times> disk" where
  "json_save enc s w v d =
     (if js_path s = [] then (Inl Empty_path, d)
      else case (case js_save_hook s of Some h \<Rightarrow> h v | None \<Rightarrow> Inr v) of
        Inl e \<Rightarrow> (Inl e, d)
      | Inr v' \<Rightarrow>
          (case write_json enc w (js_path s) v' d of
             (True, d') \<Rightarrow> (Inr (), d') | (False, d') \<Rightarrow> (Inl Write_failed, d')))"

definition disk_read :: "disk \<Rightarrow> string \<Rightarrow> file_read" where
  "disk_read d path = (case d path of Some bs \<Rightarrow> Data bs | None \<Rightarrow> Not_exist)"

section \<open>Crashes\<close>

fun spares :: "string \<Rightarrow> fs_op \<Rightarrow> bool" where
  "spares n (Create m) \<longleftrightarrow> m \<noteq> n"
| "spares n (Write m bs) \<longleftrightarrow> m \<noteq> n"
| "spares n (Sync m) \<longleftrightarrow> m \<noteq> n"
| "spares n (Rename a b) \<longleftrightarrow> a \<noteq> n \<and> b \<noteq> n"
| "spares n (Remove m) \<longleftrightarrow> m \<noteq> n"

lemma run_fs_ops_simps [simp]:
  "run_fs_ops [] fs = fs"
  "run_fs_ops (op # ops) fs = run_fs_ops ops (apply_op op fs)"
  "run_fs_ops (ops @ ops') fs = run_fs_ops ops' (run_fs_ops ops fs)"
  by (simp_all add: run_fs_ops_def)

lemma run_fs_ops_spares: "list_all (spares n) ops \<Longrightarrow> run_fs_ops ops fs n = fs n"
proof (induction ops arbitrary: fs)
  case (Cons op ops)
  then show ?case by (cases op) (auto split: option.splits)
qed simp

lemma list_all_take: "list_all P xs \<Longrightarrow> list_all P (take k xs)"
  by (auto simp: list_all_iff dest: in_set_takeD)

lemma crash_eq: "fs n = fs' n \<Longrightarrow> (\<And>f. fs' n = Some f \<Longrightarrow> durable f) \<Longrightarrow> crash junk fs n = fs' n"
  by (auto simp: crash_def split: option.splits)

fun renames_within :: "os_results \<Rightarrow> nat \<Rightarrow> nat \<Rightarrow> bool" where
  "renames_within os 0 a \<longleftrightarrow> False"
| "renames_within os (Suc n) a \<longleftrightarrow>
     (case os_rename os a of Renamed \<Rightarrow> True | Missing \<Rightarrow> False | Busy \<Rightarrow> renames_within os n (Suc a))"

text \<open>The last resort was reached and took the file away.\<close>

definition dest_removed :: "os_results \<Rightarrow> bool" where
  "dest_removed os \<longleftrightarrow> \<not> renames_within os replace_attempts 0 \<and> os_rm_dest os = Renamed"

lemma replace_from_cases:
  "replace_from os tmp dest n a =
     (if renames_within os n a then ([Rename tmp dest], True) else replace_last os tmp dest)"
  by (induction n arbitrary: a) (auto split: rename_result.splits)

lemma sweep_spares: "list_all (spares base) (sweep base entries)"
  by (auto simp: sweep_def list_all_iff has_prefix_def)

lemma tmp_name [simp]: "base \<noteq> base @ ''.tmp-'' @ rnd" "base @ ''.tmp-'' @ rnd \<noteq> base"
  by simp_all

text \<open>What a reader may find under the name of the file, during a write or after a crash in it.\<close>

definition old_or_new :: "os_results \<Rightarrow> string \<Rightarrow> string \<Rightarrow> dir \<Rightarrow> dir \<Rightarrow> bool" where
  "old_or_new os base data fs fs' \<longleftrightarrow>
     fs' base = fs base \<or> fs' base = Some \<lparr>content = data, durable = True\<rparr> \<or>
     fs' base = None \<and> dest_removed os"

lemma old_or_new_spares:
  "list_all (spares base) ops \<Longrightarrow> old_or_new os base data fs (run_fs_ops ops fs)"
  by (simp add: old_or_new_def run_fs_ops_spares)

lemma tail_prefix:
  assumes "replace_file os tmp base = (ops, ok)" "tmp \<noteq> base"
    and "gs tmp = Some \<lparr>content = data, durable = True\<rparr>" "gs base = fs base"
  shows "old_or_new os base data fs (run_fs_ops (take k (ops @ (if ok then [] else cleanup os tmp))) gs)"
    and "ok \<Longrightarrow> run_fs_ops ops gs base = Some \<lparr>content = data, durable = True\<rparr>"
    and "\<not> ok \<Longrightarrow> run_fs_ops (ops @ cleanup os tmp) gs base = (if dest_removed os then None else fs base)"
proof -
  note defs = replace_file_def replace_from_cases replace_last_def cleanup_def old_or_new_def
    dest_removed_def take_Cons'
  show "old_or_new os base data fs (run_fs_ops (take k (ops @ (if ok then [] else cleanup os tmp))) gs)"
    using assms by (auto simp: defs split: if_splits)
  show "ok \<Longrightarrow> run_fs_ops ops gs base = Some \<lparr>content = data, durable = True\<rparr>"
    using assms by (auto simp: defs split: if_splits)
  show "\<not> ok \<Longrightarrow> run_fs_ops (ops @ cleanup os tmp) gs base = (if dest_removed os then None else fs base)"
    using assms by (auto simp: defs split: if_splits)
qed

text \<open>The operations before the rename leave the file alone and prepare the temporary one.\<close>

lemma write_ops_cases:
  assumes "write_ops os entries rnd base data = (ops, ok)"
  obtains (early) "list_all (spares base) ops" "\<not> ok"
  | (late) rops where
      "ops = (sweep base entries @ [Create (base @ ''.tmp-'' @ rnd), Write (base @ ''.tmp-'' @ rnd) data,
         Sync (base @ ''.tmp-'' @ rnd)]) @ rops @ (if ok then [] else cleanup os (base @ ''.tmp-'' @ rnd))"
      "replace_file os (base @ ''.tmp-'' @ rnd) base = (rops, ok)"
  using assms sweep_spares [of base entries]
  by (auto simp: write_ops_def Let_def cleanup_def list_all_append split: if_splits option.splits prod.splits bool.splits)

lemma write_ops_ready:
  fixes base rnd data :: string and entries :: "(string \<times> bool \<times> bool) list"
  defines "tmp \<equiv> base @ ''.tmp-'' @ rnd"
  defines "pre \<equiv> sweep base entries @ [Create tmp, Write tmp data, Sync tmp]"
  shows "list_all (spares base) pre"
    and "run_fs_ops pre fs tmp = Some \<lparr>content = data, durable = True\<rparr>"
    and "run_fs_ops pre fs base = fs base"
  using sweep_spares [of base entries]
  by (auto simp: pre_def tmp_def list_all_append run_fs_ops_spares)

lemma write_ops_prefix:
  assumes "write_ops os entries rnd base data = (ops, ok)"
  shows "old_or_new os base data fs (run_fs_ops (take k ops) fs)"
  using assms
proof (cases rule: write_ops_cases)
  case early
  then show ?thesis by (simp add: old_or_new_spares list_all_take)
next
  case (late rops)
  define tmp where "tmp = base @ ''.tmp-'' @ rnd"
  define pre where "pre = sweep base entries @ [Create tmp, Write tmp data, Sync tmp]"
  note ready = write_ops_ready [where base = base and entries = entries and rnd = rnd and data = data, folded tmp_def pre_def]
  have ops: "ops = pre @ rops @ (if ok then [] else cleanup os tmp)"
    using late(1) by (simp add: pre_def tmp_def)
  show ?thesis
  proof (cases "k \<le> length pre")
    case True
    with ops ready(1) show ?thesis by (simp add: old_or_new_spares list_all_take)
  next
    case False
    moreover have "tmp \<noteq> base" by (simp add: tmp_def)
    ultimately show ?thesis
      using tail_prefix(1) [OF late(2) [folded tmp_def], of "run_fs_ops pre fs" data fs "k - length pre"]
        ready ops by (simp add: take_append)
  qed
qed

lemma write_ops_final:
  assumes "write_ops os entries rnd base data = (ops, ok)"
  shows "run_fs_ops ops fs base = (if ok then Some \<lparr>content = data, durable = True\<rparr> else fs base)
    \<or> \<not> ok \<and> dest_removed os \<and> run_fs_ops ops fs base = None"
  using assms
proof (cases rule: write_ops_cases)
  case early
  then show ?thesis by (simp add: run_fs_ops_spares)
next
  case (late rops)
  define tmp where "tmp = base @ ''.tmp-'' @ rnd"
  define pre where "pre = sweep base entries @ [Create tmp, Write tmp data, Sync tmp]"
  note ready = write_ops_ready [where base = base and entries = entries and rnd = rnd and data = data,
      folded tmp_def pre_def]
  have ops: "ops = pre @ rops @ (if ok then [] else cleanup os tmp)"
    using late(1) by (simp add: pre_def tmp_def)
  have "tmp \<noteq> base" by (simp add: tmp_def)
  note tail = tail_prefix(2,3) [OF late(2) [folded tmp_def] this, where gs = "run_fs_ops pre fs" and fs = fs,
      OF ready(2,3)]
  show ?thesis
    using tail by (cases ok) (auto simp: ops)
qed

lemma crash_durable:
  assumes "old_or_new os base data fs fs'" "\<And>f. fs base = Some f \<Longrightarrow> durable f"
  shows "old_or_new os base data fs (crash junk fs')"
  using assms by (auto simp: old_or_new_def crash_def split: option.splits)

text \<open>C37: Replacing a file is safe against crashes: whatever the results of the system calls, after
  any number of the operations of \<open>WriteFile\<close> and a crash that leaves arbitrary bytes in every
  file that was not synced, the file holds its old contents or all of the new ones; it is missing only if
  the renames failed and the documented last resort removed it. A successful write leaves the new contents,
  synced; a failed one leaves the old contents, with the same exception.\<close>

theorem write_crash_safe:
  assumes "write_ops os entries rnd base data = (ops, ok)"
    and "\<And>f. fs base = Some f \<Longrightarrow> durable f"
  shows "old_or_new os base data fs (crash junk (run_fs_ops (take k ops) fs))
    \<and> (ok \<longrightarrow> run_fs_ops ops fs base = Some \<lparr>content = data, durable = True\<rparr>)
    \<and> (\<not> ok \<longrightarrow> \<not> dest_removed os \<longrightarrow> run_fs_ops ops fs base = fs base)"
  using crash_durable [OF write_ops_prefix [OF assms(1), where fs = fs and k = k] assms(2), where junk = junk]
    write_ops_final [OF assms(1), of fs] by auto

definition os_fine :: os_results where
  "os_fine = \<lparr>os_mkdir = True, os_create = True, os_chmod = True, os_write = None, os_sync = True,
     os_close = True, os_rename = (\<lambda>_. Renamed), os_rm_dest = Missing, os_rename_last = True,
     os_rm_tmp = True\<rparr>"

theorem write_crash_safe_witness:
  "old_or_new os_fine ''u'' ''new'' (\<lambda>_. None)
     (crash (\<lambda>_. ''junk'') (run_fs_ops (take 2 (fst (write_ops os_fine [] ''7'' ''u'' ''new''))) (\<lambda>_. None)))"
proof -
  obtain ops ok where o: "write_ops os_fine [] ''7'' ''u'' ''new'' = (ops, ok)" by (cases "write_ops os_fine [] ''7'' ''u'' ''new''")
  show ?thesis
    using write_crash_safe [OF o, where fs = "\<lambda>_. None" and junk = "\<lambda>_. ''junk''" and k = 2] o by simp
qed

text \<open>What the callers see of a write is one of the three outcomes.\<close>

lemma write_outcome:
  assumes "write_ops os entries rnd base data = (ops, ok)"
  obtains w where "(ok, (map_option content \<circ> run_fs_ops ops fs) base) =
    (case w of Written \<Rightarrow> (True, Some data) | Kept \<Rightarrow> (False, map_option content (fs base)) | Lost \<Rightarrow> (False, None))"
    and "w = Lost \<Longrightarrow> dest_removed os"
  using write_ops_final [OF assms, of fs] by (cases ok) (auto intro: that [of Written] that [of Kept] that [of Lost])

section \<open>jsonfile: what was saved is loaded\<close>

text \<open>
  The contract of \<^verbatim>\<open>encoding/json\<close> on the values \<open>good\<close>: what was encoded is
  decoded again, also with a newline after it.
\<close>

definition json_law :: "('a \<Rightarrow> string option) \<Rightarrow> (string \<Rightarrow> 'a option) \<Rightarrow> ('a \<Rightarrow> bool) \<Rightarrow> bool" where
  "json_law enc dec good \<longleftrightarrow>
     (\<forall>v bs. good v \<longrightarrow> enc v = Some bs \<longrightarrow> dec (bs @ [byte 10]) = Some v)"

lemma json_lawD: "json_law enc dec good \<Longrightarrow> good v \<Longrightarrow> enc v = Some bs \<Longrightarrow> dec (bs @ [byte 10]) = Some v"
  by (simp add: json_law_def)

lemma write_json_read:
  assumes "write_json enc w path v d = (True, d')" "json_law enc dec good" "good v"
  obtains bs where "disk_read d' (trim_space path) = Data bs" "dec bs = Some v"
  using assms
  by (auto simp: write_json_def write_file_def disk_read_def Let_def json_law_def
      split: if_splits option.splits outcome.splits)

lemma json_load_after_save:
  assumes "json_save enc s w v d = (Inr (), d')" "js_save_hook s = None" "js_load_hook s = None"
    and "json_law enc dec good" "good v" "trim_space (js_path s) = js_path s"
  shows "json_load dec s (disk_read d' (js_path s)) = Inr v"
  using assms
  by (auto simp: json_save_def json_load_def split: if_splits prod.splits bool.splits
      elim!: write_json_read)

end
