(* ===== verification/Auth_Users.thy ===== *)
theory Auth_Users
  imports Files Go_Maps
begin

text \<open>
  Accounts (\<^verbatim>\<open>auth/users.go\<close>, \<^verbatim>\<open>auth/roles.go\<close>): the store of users, kept in memory under the
  lower-case name and written to one JSON file after every change.

  A method is a function of the store and the disk; the receiver is a store (the methods' answers on a nil
  store are not modelled) and its mutex makes each method one step. \<open>user_env\<close> holds what a call
  takes from outside: bcrypt, the JSON encoder, the Unicode tables above Latin-1, the clock as the text
  that \<^verbatim>\<open>time.Now().UTC().Format(time.RFC3339)\<close> gives, and the outcome of the write. A
  different one may be given to every call.
\<close>

section \<open>Roles: roles.go\<close>

definition role_administrator :: string where "role_administrator = ''administrator''"
definition role_operator :: string where "role_operator = ''operator''"
definition role_dashboard :: string where "role_dashboard = ''dashboard''"

definition is_admin :: "string \<Rightarrow> bool" where "is_admin role = (role = role_administrator)"

definition has_persistent_session :: "string \<Rightarrow> bool" where
  "has_persistent_session role = (role = role_dashboard)"

definition valid_role :: "string \<Rightarrow> bool" where
  "valid_role role = (role = role_administrator \<or> role = role_operator \<or> role = role_dashboard)"

definition all_roles :: "string list" where
  "all_roles = [role_administrator, role_operator, role_dashboard]"

lemmas role_defs = role_administrator_def role_operator_def role_dashboard_def

lemma valid_role_iff: "valid_role role \<longleftrightarrow> role \<in> set all_roles"
  by (simp add: valid_role_def all_roles_def)

section \<open>Data\<close>

datatype auth_err =
    User_exists | User_not_found | Invalid_username | Invalid_password | Invalid_role | Last_admin
  | Self_delete | Bad_old_password | Invalid_full_name | Invalid_preferences | Empty_hash
  | Hash_failed | Persist_failed | Empty_path | Stat_failed | No_seed | Read_error | Parse_error
  | Empty_file

record user =
  u_name :: string
  u_full_name :: string
  u_hash :: string
  u_role :: string
  u_must_reset :: bool
  u_wizard_off :: bool
  u_theme :: string
  u_group_by :: string
  u_session :: u64
  u_created :: string

record user_public =
  p_name :: string
  p_full_name :: string
  p_role :: string
  p_must_reset :: bool
  p_wizard_off :: bool
  p_theme :: string
  p_group_by :: string
  p_created :: string

definition public :: "user \<Rightarrow> user_public" where
  "public u = \<lparr>p_name = u_name u, p_full_name = u_full_name u, p_role = u_role u,
     p_must_reset = u_must_reset u, p_wizard_off = u_wizard_off u, p_theme = u_theme u,
     p_group_by = u_group_by u, p_created = u_created u\<rparr>"

record user_store =
  us_users :: "(string, user) go_map"
  us_path :: string

record user_env =
  letter_tab :: "nat \<Rightarrow> bool"
  digit_tab :: "nat \<Rightarrow> bool"
  bcrypt_hash :: "string \<Rightarrow> string option"
  bcrypt_ok :: "string \<Rightarrow> string \<Rightarrow> bool"
  users_enc :: "user list \<Rightarrow> string option"
  users_dec :: "string \<Rightarrow> user list option"
  write_result :: outcome
  now_text :: string

section \<open>Normalization and validation\<close>

definition theme_light :: string where "theme_light = ''light''"
definition theme_dark :: string where "theme_dark = ''dark''"
definition default_theme :: string where "default_theme = theme_dark"
definition default_group_by :: string where "default_group_by = ''city''"

definition allowed_group_by :: "string list" where
  "allowed_group_by = [''ip'', ''subnet'', ''city'', ''country'', ''continent'', ''city_country'']"

definition normalize_theme :: "string \<Rightarrow> auth_err + string" where
  "normalize_theme raw =
     (let v = trim_space (to_lower raw) in
      if v = theme_light \<or> v = theme_dark then Inr v else Inl Invalid_preferences)"

definition normalize_group_by :: "string \<Rightarrow> auth_err + string" where
  "normalize_group_by raw =
     (let v = trim_space (to_lower raw) in
      if v = [] then Inl Invalid_preferences
      else if v \<notin> set allowed_group_by then Inl Invalid_preferences else Inr v)"

definition effective_theme :: "string \<Rightarrow> string" where
  "effective_theme raw =
     (let v = trim_space (to_lower raw) in
      if v = theme_light \<or> v = theme_dark then v else default_theme)"

definition effective_group_by :: "string \<Rightarrow> string" where
  "effective_group_by raw =
     (let v = trim_space (to_lower raw) in
      if v \<in> set allowed_group_by then v else default_group_by)"

text \<open>\<^verbatim>\<open>usernameRe\<close>: \<^verbatim>\<open>^[a-zA-Z0-9._-]{2,64}$\<close>.\<close>

definition name_char :: "char \<Rightarrow> bool" where
  "name_char c \<longleftrightarrow> is_alnum c \<or> c = CHR ''.'' \<or> c = CHR ''_'' \<or> c = CHR ''-''"

definition username_ok :: "string \<Rightarrow> bool" where
  "username_ok s \<longleftrightarrow> list_all name_char s \<and> 2 \<le> length s \<and> length s \<le> 64"

definition min_password_len :: nat where "min_password_len = 10"
definition max_full_name_len :: nat where "max_full_name_len = 200"

definition common_passwords :: "string list" where
  "common_passwords =
     [''admin'', ''operator'', ''password'', ''password1'', ''password12'', ''password123'',
      ''changeme'', ''123456'', ''12345678'', ''1234567890'', ''qwerty'', ''qwerty123'',
      ''letmein'', ''welcome'', ''welcome1'', ''admin123'', ''administrator'',
      ''passw0rd'', ''p@ssw0rd'', ''secret'', ''default'']"

definition is_common_password :: "string \<Rightarrow> bool" where
  "is_common_password password =
     (let p = to_lower (trim_space password) in
      if p = [] then False else p \<in> set common_passwords)"

definition user_key :: "string \<Rightarrow> string" where
  "user_key username = to_lower (trim_space username)"

definition password_matches_username :: "string \<Rightarrow> string \<Rightarrow> bool" where
  "password_matches_username username password =
     (let u = to_lower (trim_space username); p = to_lower (trim_space password) in
      u \<noteq> [] \<and> p \<noteq> [] \<and> u = p)"

definition seed_password_weak :: "string \<Rightarrow> string \<Rightarrow> bool" where
  "seed_password_weak username password =
     (password_matches_username username password \<or> is_common_password password)"

definition validate_password :: "user_env \<Rightarrow> string \<Rightarrow> auth_err option" where
  "validate_password env password =
     (if length password < min_password_len then Some Invalid_password
      else if length password > 128 then Some Invalid_password
      else if is_common_password password then Some Invalid_password
      else
        let rs = runes password;
          has_letter = list_ex (is_letter (letter_tab env)) rs;
          has_digit = list_ex (\<lambda>r. \<not> is_letter (letter_tab env) r \<and> is_digit_rune (digit_tab env) r) rs in
        if \<not> has_letter \<or> \<not> has_digit then Some Invalid_password else None)"

definition validate_password_for_user :: "user_env \<Rightarrow> string \<Rightarrow> string \<Rightarrow> auth_err option" where
  "validate_password_for_user env username password =
     (case validate_password env password of
        Some e \<Rightarrow> Some e
      | None \<Rightarrow> if password_matches_username username password then Some Invalid_password else None)"

definition normalize_full_name :: "string \<Rightarrow> auth_err + string" where
  "normalize_full_name full_name =
     (let name = join '' '' (text_fields (trim_space full_name)) in
      if length (runes name) > max_full_name_len then Inl Invalid_full_name else Inr name)"

section \<open>The store\<close>

definition find_user :: "user_store \<Rightarrow> string \<Rightarrow> user option" where
  "find_user st username = gm_get (us_users st) (user_key username)"

definition put_user :: "string \<Rightarrow> user \<Rightarrow> user_store \<Rightarrow> user_store" where
  "put_user key u st = st\<lparr>us_users := gm_put key u (us_users st)\<rparr>"

definition del_user :: "string \<Rightarrow> user_store \<Rightarrow> user_store" where
  "del_user key st = st\<lparr>us_users := gm_del key (us_users st)\<rparr>"

definition user_le :: "user \<Rightarrow> user \<Rightarrow> bool" where
  "user_le u v \<longleftrightarrow> to_lower (u_name u) \<le> to_lower (u_name v)"

definition sorted_users :: "user_store \<Rightarrow> user list" where
  "sorted_users st = sort_by user_le (map snd (us_users st))"

definition persist_users :: "user_env \<Rightarrow> user_store \<Rightarrow> disk \<Rightarrow> bool \<times> disk" where
  "persist_users env st d =
     (if us_path st = [] then (True, d)
      else write_json (users_enc env) (write_result env) (us_path st) (sorted_users st) d)"

definition add_user :: "user \<Rightarrow> user_store \<Rightarrow> auth_err + user_store" where
  "add_user u st =
     (let name = trim_space (u_name u) in
      if name = [] \<or> \<not> username_ok name then Inl Invalid_username
      else if \<not> valid_role (u_role u) then Inl Invalid_role
      else if trim_space (u_hash u) = [] then Inl Empty_hash
      else
        let key = to_lower name in
        if gm_get (us_users st) key \<noteq> None then Inl User_exists
        else Inr (put_user key (u\<lparr>u_name := name\<rparr>) st))"

fun add_users :: "user list \<Rightarrow> user_store \<Rightarrow> auth_err + user_store" where
  "add_users [] st = Inr st"
| "add_users (u # us) st =
     (case add_user u st of Inl e \<Rightarrow> Inl e | Inr st' \<Rightarrow> add_users us st')"

definition new_user_store :: "user list \<Rightarrow> auth_err + user_store" where
  "new_user_store us = add_users us \<lparr>us_users = [], us_path = []\<rparr>"

definition store_len :: "user_store \<Rightarrow> nat" where "store_len st = length (us_users st)"

definition load_users_file :: "user_env \<Rightarrow> file_read \<Rightarrow> string \<Rightarrow> auth_err + user_store" where
  "load_users_file env r path =
     (case r of
        Data bs \<Rightarrow>
          (case users_dec env bs of
             None \<Rightarrow> Inl Parse_error
           | Some us \<Rightarrow>
               (case new_user_store us of
                  Inl e \<Rightarrow> Inl e
                | Inr st \<Rightarrow> if store_len st = 0 then Inl Empty_file else Inr (st\<lparr>us_path := path\<rparr>)))
      | _ \<Rightarrow> Inl Read_error)"

text \<open>\<open>stat_fails\<close>: \<^verbatim>\<open>os.Stat\<close> gives an error other than that there is no file.\<close>

definition open_or_seed ::
  "user_env \<Rightarrow> bool \<Rightarrow> string \<Rightarrow> user list \<Rightarrow> disk \<Rightarrow> (auth_err + user_store) \<times> disk" where
  "open_or_seed env stat_fails path0 seeds d =
     (let path = trim_space path0 in
      if path = [] then (Inl Empty_path, d)
      else if stat_fails then (Inl Stat_failed, d)
      else if d path \<noteq> None then (load_users_file env (disk_read d path) path, d)
      else if seeds = [] then (Inl No_seed, d)
      else case new_user_store seeds of
        Inl e \<Rightarrow> (Inl e, d)
      | Inr st0 \<Rightarrow>
          let st = st0\<lparr>us_path := path\<rparr> in
          (case persist_users env st d of
             (True, d') \<Rightarrow> (Inr st, d')
           | (False, d') \<Rightarrow> (Inl Persist_failed, d')))"

text \<open>The names of the two seeded accounts, as UTF-8.\<close>

definition admin_full_name :: string where
  "admin_full_name = map byte [208, 144, 208, 180, 208, 188, 208, 184, 208, 189, 208, 184, 209, 129,
     209, 130, 209, 128, 208, 176, 209, 130, 208, 190, 209, 128]"

definition operator_full_name :: string where
  "operator_full_name = map byte [208, 158, 208, 191, 208, 181, 209, 128, 208, 176, 209, 130, 208, 190,
     209, 128]"

definition new_user :: "string \<Rightarrow> string \<Rightarrow> string \<Rightarrow> string \<Rightarrow> bool \<Rightarrow> string \<Rightarrow> user" where
  "new_user name full_name hash role must_reset created =
     \<lparr>u_name = name, u_full_name = full_name, u_hash = hash, u_role = role, u_must_reset = must_reset,
      u_wizard_off = False, u_theme = [], u_group_by = [], u_session = 0, u_created = created\<rparr>"

definition seed_users ::
  "user_env \<Rightarrow> string \<Rightarrow> string \<Rightarrow> string \<Rightarrow> string \<Rightarrow> bool \<Rightarrow> auth_err + user list" where
  "seed_users env admin_user0 admin_pass0 operator_user0 operator_pass0 admin_must_reset =
     (let admin_user = trim_space admin_user0; admin_pass = trim_space admin_pass0;
        operator_user = trim_space operator_user0; operator_pass = trim_space operator_pass0;
        admins =
          (if admin_user \<noteq> [] \<and> admin_pass \<noteq> [] then
             (case bcrypt_hash env admin_pass of
                None \<Rightarrow> Inl Hash_failed
              | Some h \<Rightarrow> Inr [new_user admin_user admin_full_name h role_administrator
                  (admin_must_reset \<or> seed_password_weak admin_user admin_pass) (now_text env)])
           else Inr []) in
      case admins of
        Inl e \<Rightarrow> Inl e
      | Inr us \<Rightarrow>
          (if operator_user \<noteq> [] \<and> operator_pass \<noteq> [] then
             (case bcrypt_hash env operator_pass of
                None \<Rightarrow> Inl Hash_failed
              | Some h \<Rightarrow> Inr (us @ [new_user operator_user operator_full_name h role_operator True
                  (now_text env)]))
           else Inr us))"

section \<open>Queries\<close>

definition authenticate :: "user_env \<Rightarrow> user_store \<Rightarrow> string \<Rightarrow> string \<Rightarrow> user option" where
  "authenticate env st username password =
     (case find_user st username of
        None \<Rightarrow> None
      | Some u \<Rightarrow> if \<not> bcrypt_ok env (u_hash u) password then None else Some u)"

definition get_user :: "user_store \<Rightarrow> string \<Rightarrow> user_public option" where
  "get_user st username =
     (case find_user st username of None \<Rightarrow> None | Some u \<Rightarrow> Some (public u))"

definition session_version :: "user_store \<Rightarrow> string \<Rightarrow> u64 option" where
  "session_version st username =
     (case find_user st username of None \<Rightarrow> None | Some u \<Rightarrow> Some (u_session u))"

definition must_reset :: "user_store \<Rightarrow> string \<Rightarrow> bool" where
  "must_reset st username =
     (case get_user st username of None \<Rightarrow> False | Some p \<Rightarrow> p_must_reset p)"

definition list_users :: "user_store \<Rightarrow> user_public list" where
  "list_users st =
     sort_by (\<lambda>p q. to_lower (p_name p) \<le> to_lower (p_name q)) (map (\<lambda>(k, u). public u) (us_users st))"

definition admin_count :: "user_store \<Rightarrow> nat" where
  "admin_count st = length (filter (\<lambda>(k, u). u_role u = role_administrator) (us_users st))"

section \<open>Operations that change the store\<close>

type_synonym 'a user_result = "(auth_err + 'a) \<times> user_store \<times> disk"

text \<open>The common end of the methods: write the file; the change stays in memory if that fails.\<close>

definition save_user :: "user_env \<Rightarrow> string \<Rightarrow> user \<Rightarrow> user_store \<Rightarrow> disk \<Rightarrow> user_public user_result" where
  "save_user env key u st d =
     (let st' = put_user key u st in
      case persist_users env st' d of
        (True, d') \<Rightarrow> (Inr (public u), st', d')
      | (False, d') \<Rightarrow> (Inl Persist_failed, st', d'))"

definition bump_session_version :: "user_env \<Rightarrow> string \<Rightarrow> user_store \<Rightarrow> disk \<Rightarrow> unit user_result" where
  "bump_session_version env username st d =
     (case find_user st username of
        None \<Rightarrow> (Inl User_not_found, st, d)
      | Some u \<Rightarrow>
          let st' = put_user (user_key username) (u\<lparr>u_session := u_session u + 1\<rparr>) st in
          (case persist_users env st' d of
             (True, d') \<Rightarrow> (Inr (), st', d')
           | (False, d') \<Rightarrow> (Inl Persist_failed, st', d')))"

definition create_user ::
  "user_env \<Rightarrow> string \<Rightarrow> string \<Rightarrow> string \<Rightarrow> string \<Rightarrow> bool \<Rightarrow> user_store \<Rightarrow> disk \<Rightarrow> user_public user_result" where
  "create_user env username password role full_name must st d =
     (case validate_password_for_user env username password of
        Some e \<Rightarrow> (Inl e, st, d)
      | None \<Rightarrow>
          if \<not> valid_role role then (Inl Invalid_role, st, d)
          else case normalize_full_name full_name of
            Inl e \<Rightarrow> (Inl e, st, d)
          | Inr fn \<Rightarrow>
              (case bcrypt_hash env password of
                 None \<Rightarrow> (Inl Hash_failed, st, d)
               | Some h \<Rightarrow>
                   let u = new_user (trim_space username) fn h role must (now_text env) in
                   (case add_user u st of
                      Inl e \<Rightarrow> (Inl e, st, d)
                    | Inr st' \<Rightarrow>
                        (case persist_users env st' d of
                           (True, d') \<Rightarrow> (Inr (public u), st', d')
                         | (False, d') \<Rightarrow>
                             (Inl Persist_failed, del_user (to_lower (u_name u)) st', d')))))"

definition set_role :: "user_env \<Rightarrow> string \<Rightarrow> string \<Rightarrow> user_store \<Rightarrow> disk \<Rightarrow> user_public user_result" where
  "set_role env username role st d =
     (if \<not> valid_role role then (Inl Invalid_role, st, d)
      else case find_user st username of
        None \<Rightarrow> (Inl User_not_found, st, d)
      | Some u \<Rightarrow>
          if u_role u = role_administrator \<and> role \<noteq> role_administrator \<and> admin_count st \<le> 1
          then (Inl Last_admin, st, d)
          else save_user env (user_key username) (u\<lparr>u_role := role\<rparr>) st d)"

definition set_full_name :: "user_env \<Rightarrow> string \<Rightarrow> string \<Rightarrow> user_store \<Rightarrow> disk \<Rightarrow> user_public user_result" where
  "set_full_name env username full_name st d =
     (case normalize_full_name full_name of
        Inl e \<Rightarrow> (Inl e, st, d)
      | Inr fn \<Rightarrow>
          (case find_user st username of
             None \<Rightarrow> (Inl User_not_found, st, d)
           | Some u \<Rightarrow> save_user env (user_key username) (u\<lparr>u_full_name := fn\<rparr>) st d))"

definition set_geo_wizard_dismissed ::
  "user_env \<Rightarrow> string \<Rightarrow> bool \<Rightarrow> user_store \<Rightarrow> disk \<Rightarrow> user_public user_result" where
  "set_geo_wizard_dismissed env username dismissed st d =
     (case find_user st username of
        None \<Rightarrow> (Inl User_not_found, st, d)
      | Some u \<Rightarrow> save_user env (user_key username) (u\<lparr>u_wizard_off := dismissed\<rparr>) st d)"

definition set_preferences ::
  "user_env \<Rightarrow> string \<Rightarrow> string option \<Rightarrow> string option \<Rightarrow> user_store \<Rightarrow> disk \<Rightarrow> user_public user_result" where
  "set_preferences env username new_theme new_group st d =
     (if new_theme = None \<and> new_group = None then (Inl Invalid_preferences, st, d)
      else case (case new_theme of None \<Rightarrow> Inr [] | Some t \<Rightarrow> normalize_theme t) of
        Inl e \<Rightarrow> (Inl e, st, d)
      | Inr theme \<Rightarrow>
          (case (case new_group of None \<Rightarrow> Inr [] | Some g \<Rightarrow> normalize_group_by g) of
             Inl e \<Rightarrow> (Inl e, st, d)
           | Inr gb \<Rightarrow>
               (case find_user st username of
                  None \<Rightarrow> (Inl User_not_found, st, d)
                | Some u \<Rightarrow>
                    let u1 = (if new_theme \<noteq> None then u\<lparr>u_theme := theme\<rparr> else u);
                      u2 = (if new_group \<noteq> None then u1\<lparr>u_group_by := gb\<rparr> else u1) in
                    save_user env (user_key username) u2 st d)))"

definition reset_password ::
  "user_env \<Rightarrow> string \<Rightarrow> string \<Rightarrow> bool \<Rightarrow> user_store \<Rightarrow> disk \<Rightarrow> user_public user_result" where
  "reset_password env username password must st d =
     (case validate_password_for_user env username password of
        Some e \<Rightarrow> (Inl e, st, d)
      | None \<Rightarrow>
          (case bcrypt_hash env password of
             None \<Rightarrow> (Inl Hash_failed, st, d)
           | Some h \<Rightarrow>
               (case find_user st username of
                  None \<Rightarrow> (Inl User_not_found, st, d)
                | Some u \<Rightarrow>
                    save_user env (user_key username)
                      (u\<lparr>u_hash := h, u_must_reset := must, u_session := u_session u + 1\<rparr>) st d)))"

definition change_password ::
  "user_env \<Rightarrow> string \<Rightarrow> string \<Rightarrow> string \<Rightarrow> user_store \<Rightarrow> disk \<Rightarrow> user_public user_result" where
  "change_password env username old_password new_password st d =
     (case validate_password_for_user env username new_password of
        Some e \<Rightarrow> (Inl e, st, d)
      | None \<Rightarrow>
          (case find_user st username of
             None \<Rightarrow> (Inl User_not_found, st, d)
           | Some u \<Rightarrow>
               if \<not> bcrypt_ok env (u_hash u) old_password then (Inl Bad_old_password, st, d)
               else case bcrypt_hash env new_password of
                 None \<Rightarrow> (Inl Hash_failed, st, d)
               | Some h \<Rightarrow>
                   save_user env (user_key username)
                     (u\<lparr>u_hash := h, u_must_reset := False, u_session := u_session u + 1\<rparr>) st d))"

definition delete_user :: "user_env \<Rightarrow> string \<Rightarrow> string \<Rightarrow> user_store \<Rightarrow> disk \<Rightarrow> unit user_result" where
  "delete_user env username actor st d =
     (let key = to_lower (trim_space username); actor_key = to_lower (trim_space actor) in
      if key = actor_key then (Inl Self_delete, st, d)
      else case gm_get (us_users st) key of
        None \<Rightarrow> (Inl User_not_found, st, d)
      | Some u \<Rightarrow>
          if u_role u = role_administrator \<and> admin_count st \<le> 1 then (Inl Last_admin, st, d)
          else
            let st' = del_user key st in
            (case persist_users env st' d of
               (True, d') \<Rightarrow> (Inr (), st', d')
             | (False, d') \<Rightarrow> (Inl Persist_failed, put_user key u st', d')))"

text \<open>The operations as data, to speak of sequences of them.\<close>

datatype user_op =
    Create_user string string string string bool
  | Set_role string string
  | Set_full_name string string
  | Set_wizard string bool
  | Set_preferences string "string option" "string option"
  | Reset_password string string bool
  | Change_password string string string
  | Bump_session string
  | Delete_user string string

definition forget :: "'a user_result \<Rightarrow> unit user_result" where
  "forget r = (case r of (Inl e, w) \<Rightarrow> (Inl e, w) | (Inr x, w) \<Rightarrow> (Inr (), w))"

fun user_step :: "user_env \<Rightarrow> user_op \<Rightarrow> user_store \<times> disk \<Rightarrow> unit user_result" where
  "user_step env (Create_user n p r fn must) (st, d) = forget (create_user env n p r fn must st d)"
| "user_step env (Set_role n r) (st, d) = forget (set_role env n r st d)"
| "user_step env (Set_full_name n fn) (st, d) = forget (set_full_name env n fn st d)"
| "user_step env (Set_wizard n b) (st, d) = forget (set_geo_wizard_dismissed env n b st d)"
| "user_step env (Set_preferences n t g) (st, d) = forget (set_preferences env n t g st d)"
| "user_step env (Reset_password n p must) (st, d) = forget (reset_password env n p must st d)"
| "user_step env (Change_password n p q) (st, d) = forget (change_password env n p q st d)"
| "user_step env (Bump_session n) (st, d) = bump_session_version env n st d"
| "user_step env (Delete_user n a) (st, d) = delete_user env n a st d"

section \<open>The invariant of the store\<close>

text \<open>
  Every account is stored under its lower-case name, which matches \<^verbatim>\<open>usernameRe\<close>, has one of the
  three roles and a password hash.
\<close>

definition user_ok :: "user \<Rightarrow> bool" where
  "user_ok u \<longleftrightarrow> username_ok (u_name u) \<and> valid_role (u_role u) \<and> trim_space (u_hash u) \<noteq> []"

definition users_wf :: "user_store \<Rightarrow> bool" where
  "users_wf st \<longleftrightarrow> gm_ok (us_users st) \<and>
     list_all (\<lambda>(k, u). k = to_lower (u_name u) \<and> user_ok u) (us_users st)"

text \<open>bcrypt gives a text that is not blank, as its documentation of the hash format says.\<close>

definition env_ok :: "user_env \<Rightarrow> bool" where
  "env_ok env \<longleftrightarrow> (\<forall>p h. bcrypt_hash env p = Some h \<longrightarrow> trim_space h \<noteq> [])"

lemma name_char_plain: "name_char c \<Longrightarrow> plain c"
  unfolding name_char_def by (erule disjE, erule is_alnum_plain) (auto simp: plain_def code_def)

lemma username_plain: "username_ok s \<Longrightarrow> list_all plain s"
  by (auto simp: username_ok_def list_all_iff name_char_plain)

lemma username_trim [simp]: "username_ok s \<Longrightarrow> trim_space s = s"
  by (simp add: username_plain list_all_trim)

lemma username_nonempty: "username_ok s \<Longrightarrow> s \<noteq> []"
  by (auto simp: username_ok_def)

lemma user_key_name [simp]: "username_ok s \<Longrightarrow> user_key s = to_lower s"
  by (simp add: user_key_def)

lemma user_key_lower [simp]: "username_ok s \<Longrightarrow> user_key (to_lower s) = to_lower s"
  by (simp add: user_key_def list_all_trim plain_to_lower username_plain to_lower_idem_ascii plain_ascii)

lemma users_wfD:
  assumes "users_wf st" "gm_get (us_users st) k = Some u"
  shows "k = to_lower (u_name u)" "user_ok u"
  using assms by (auto simp: users_wf_def gm_get_in list_all_iff)

lemma find_user_wf:
  assumes "users_wf st" "find_user st n = Some u"
  shows "user_key n = to_lower (u_name u)" "user_ok u"
  using assms users_wfD by (auto simp: find_user_def)

lemma gm_put_wf:
  assumes "users_wf st" "k = to_lower (u_name u)" "user_ok u"
  shows "users_wf (put_user k u st)"
proof -
  have "(k', u') \<in> set (us_users st) \<or> (k', u') = (k, u)" if "(k', u') \<in> set (gm_put k u (us_users st))" for k' u'
    using that assms(1) gm_get_in [of "gm_put k u (us_users st)" k' u']
    by (auto simp: users_wf_def gm_get_in split: if_splits)
  with assms show ?thesis
    by (fastforce simp: users_wf_def put_user_def list_all_iff)
qed

lemma gm_del_subset: "x \<in> set (gm_del k m) \<Longrightarrow> x \<in> set m"
  by (induction m) (auto split: if_splits)

lemma gm_del_wf: "users_wf st \<Longrightarrow> users_wf (del_user k st)"
  by (auto simp: users_wf_def del_user_def list_all_iff dest: gm_del_subset)

lemma store_sel [simp]:
  "us_users (put_user k u st) = gm_put k u (us_users st)"
  "us_path (put_user k u st) = us_path st"
  "us_users (del_user k st) = gm_del k (us_users st)"
  "us_path (del_user k st) = us_path st"
  by (simp_all add: put_user_def del_user_def)

lemma add_user_Inr:
  assumes "add_user u st = Inr st'"
  shows "st' = put_user (to_lower (trim_space (u_name u))) (u\<lparr>u_name := trim_space (u_name u)\<rparr>) st"
    and "user_ok (u\<lparr>u_name := trim_space (u_name u)\<rparr>)"
    and "gm_get (us_users st) (to_lower (trim_space (u_name u))) = None"
  using assms by (auto simp: add_user_def Let_def user_ok_def split: if_splits)

lemma gm_del_put_absent: "gm_get m k = None \<Longrightarrow> gm_del k (gm_put k v m) = m"
  by (induction m) (auto split: if_splits)

lemma add_user_undo:
  assumes "add_user u st = Inr st'" shows "del_user (to_lower (trim_space (u_name u))) st' = st"
  using add_user_Inr [OF assms] by (simp add: del_user_def put_user_def gm_del_put_absent)

section \<open>What one operation can do to the store\<close>

definition has_admin :: "user_store \<Rightarrow> bool" where
  "has_admin st \<longleftrightarrow> (\<exists>k u. gm_get (us_users st) k = Some u \<and> u_role u = role_administrator)"

inductive change :: "user_store \<Rightarrow> user_store \<Rightarrow> bool" for st :: user_store where
  same: "change st st"
| add: "add_user u st = Inr st' \<Longrightarrow> change st st'"
| update: "gm_get (us_users st) k = Some u \<Longrightarrow> u_name u' = u_name u \<Longrightarrow>
     (u_role u' = u_role u \<or> valid_role (u_role u')) \<Longrightarrow>
     (u_hash u' = u_hash u \<or> trim_space (u_hash u') \<noteq> []) \<Longrightarrow>
     (u_role u = role_administrator \<Longrightarrow> u_role u' \<noteq> role_administrator \<Longrightarrow> 2 \<le> admin_count st) \<Longrightarrow>
     change st (put_user k u' st)"
| remove: "gm_get (us_users st) k = Some u \<Longrightarrow>
     (u_role u = role_administrator \<Longrightarrow> 2 \<le> admin_count st) \<Longrightarrow> change st (del_user k st)"
| put_back: "gm_get (us_users st) k = Some u \<Longrightarrow> change st (put_user k u (del_user k st))"

lemma snd_save_user [simp]:
  "snd (save_user env key u st d) = (put_user key u st, snd (persist_users env (put_user key u st) d))"
  by (simp add: save_user_def Let_def split: prod.splits bool.splits)

lemma forget_eq: "forget r = (r', w) \<longleftrightarrow> snd r = w \<and> r' = (case fst r of Inl e \<Rightarrow> Inl e | Inr x \<Rightarrow> Inr ())"
  by (cases r) (auto simp: forget_def split: sum.splits)

lemma step_change:
  assumes "user_step env op (st, d) = (r, st', d')" "env_ok env"
  shows "change st st'"
proof (cases op)
  case (Create_user n p ro fn must)
  then show ?thesis using assms
    by (auto simp: create_user_def Let_def forget_eq new_user_def
        intro: change.same change.add split: option.splits if_splits sum.splits prod.splits bool.splits)
      (metis add_user_undo change.same trim_space_idem user.select_convs(1))
next
  case (Set_role n ro)
  then show ?thesis using assms
    by (auto simp: set_role_def forget_eq find_user_def
        intro!: change.same change.update split: option.splits if_splits prod.splits)
next
  case (Set_full_name n fn)
  then show ?thesis using assms
    by (auto simp: set_full_name_def forget_eq find_user_def
        intro!: change.same change.update split: option.splits if_splits prod.splits sum.splits)
next
  case (Set_wizard n b)
  then show ?thesis using assms
    by (auto simp: set_geo_wizard_dismissed_def forget_eq find_user_def
        intro!: change.same change.update split: option.splits if_splits prod.splits)
next
  case (Set_preferences n t g)
  then show ?thesis using assms
    by (auto simp: set_preferences_def Let_def forget_eq find_user_def
        intro!: change.same change.update split: option.splits if_splits prod.splits sum.splits)
next
  case (Reset_password n p must)
  then show ?thesis using assms
    by (auto simp: reset_password_def env_ok_def forget_eq find_user_def
        intro!: change.same change.update split: option.splits if_splits prod.splits)
next
  case (Change_password n p q)
  then show ?thesis using assms
    by (auto simp: change_password_def env_ok_def forget_eq find_user_def
        intro!: change.same change.update split: option.splits if_splits prod.splits)
next
  case (Bump_session n)
  then show ?thesis using assms
    by (auto simp: bump_session_version_def Let_def find_user_def
        intro!: change.same change.update split: option.splits prod.splits bool.splits)
next
  case (Delete_user n a)
  then show ?thesis using assms
    by (auto simp: delete_user_def Let_def
        intro: change.same change.remove change.put_back split: option.splits if_splits prod.splits bool.splits)
qed

lemma admin_count_iff:
  assumes "gm_ok (us_users st)" shows "1 \<le> admin_count st \<longleftrightarrow> has_admin st"
proof -
  have "1 \<le> admin_count st \<longleftrightarrow> filter (\<lambda>(k, u). u_role u = role_administrator) (us_users st) \<noteq> []"
    by (simp add: admin_count_def Suc_le_eq)
  also have "\<dots> \<longleftrightarrow> has_admin st"
    using gm_get_in [OF assms] by (auto simp: has_admin_def filter_empty_conv)
  finally show ?thesis .
qed

text \<open>With two administrators there is one besides any given account.\<close>

lemma two_admins:
  assumes "gm_ok (us_users st)" "2 \<le> admin_count st"
  obtains k' u' where "k' \<noteq> k" "gm_get (us_users st) k' = Some u'" "u_role u' = role_administrator"
proof -
  let ?as = "filter (\<lambda>(k, u). u_role u = role_administrator) (us_users st)"
  have "2 \<le> length ?as" using assms(2) by (simp add: admin_count_def)
  then obtain a b as where as: "?as = a # b # as"
    by (cases ?as rule: remdups_adj.cases) auto
  have "distinct (map fst ?as)"
    using gm_ok_filter [OF assms(1)] by (simp add: gm_ok_def gm_filter_def)
  with as have ne: "fst a \<noteq> fst b" by auto
  have ab: "{a, b} \<subseteq> set ?as" using as by auto
  have "gm_get (us_users st) (fst x) = Some (snd x) \<and> u_role (snd x) = role_administrator"
    if "x \<in> {a, b}" for x
    using subsetD [OF ab that] gm_get_in [OF assms(1)] by (auto simp: case_prod_unfold)
  with ne that show thesis by (metis insertCI)
qed

lemma change_wf:
  assumes "change st st'" "users_wf st" shows "users_wf st'"
  using assms(1)
proof cases
  case same with assms(2) show ?thesis by simp
next
  case add
  with add_user_Inr [OF add] assms(2) show ?thesis by (simp add: gm_put_wf)
next
  case (update k u u')
  with users_wfD [OF assms(2)] show ?thesis
    by (auto simp: assms(2) user_ok_def intro!: gm_put_wf)
next
  case (remove k u) with assms(2) show ?thesis by (simp add: gm_del_wf)
next
  case (put_back k u)
  with users_wfD [OF assms(2)] assms(2) show ?thesis by (auto intro!: gm_put_wf gm_del_wf)
qed

lemma other_admin:
  assumes "users_wf st" "has_admin st" "gm_get (us_users st) k = Some u"
    and "u_role u = role_administrator \<Longrightarrow> 2 \<le> admin_count st"
  obtains k' u' where "k' \<noteq> k" "gm_get (us_users st) k' = Some u'" "u_role u' = role_administrator"
proof (cases "u_role u = role_administrator")
  case True
  with assms that show thesis by (auto simp: users_wf_def elim!: two_admins [where k = k])
next
  case False
  from assms(2) obtain k' u' where "gm_get (us_users st) k' = Some u'" "u_role u' = role_administrator"
    by (auto simp: has_admin_def)
  moreover from this False assms(3) have "k' \<noteq> k" by auto
  ultimately show thesis using that by blast
qed

lemma has_adminI: "gm_get (us_users st) k = Some u \<Longrightarrow> u_role u = role_administrator \<Longrightarrow> has_admin st"
  by (auto simp: has_admin_def)

lemma change_admin:
  assumes "change st st'" "users_wf st" "has_admin st" shows "has_admin st'"
  using assms(1)
proof cases
  case same with assms(3) show ?thesis by simp
next
  case (add u)
  from assms(3) obtain k v where "gm_get (us_users st) k = Some v" "u_role v = role_administrator"
    by (auto simp: has_admin_def)
  moreover from this add_user_Inr(3) [OF add] have "k \<noteq> to_lower (trim_space (u_name u))" by auto
  ultimately show ?thesis using add_user_Inr(1) [OF add]
    by (auto intro!: has_adminI [of _ k])
next
  case (update k u u')
  show ?thesis
  proof (cases "u_role u' = role_administrator")
    case True
    with update(1) show ?thesis by (auto intro: has_adminI [of _ k])
  next
    case False
    with update have "u_role u = role_administrator \<Longrightarrow> 2 \<le> admin_count st" by simp
    then obtain k' v where "k' \<noteq> k" "gm_get (us_users st) k' = Some v" "u_role v = role_administrator"
      by (rule other_admin [OF assms(2,3) update(2)])
    with update(1) show ?thesis by (auto intro: has_adminI [of _ k'])
  qed
next
  case (remove k u)
  obtain k' v where "k' \<noteq> k" "gm_get (us_users st) k' = Some v" "u_role v = role_administrator"
    by (rule other_admin [OF assms(2,3) remove(2,3)])
  with remove(1) show ?thesis by (auto intro: has_adminI [of _ k'])
next
  case (put_back k u)
  then have "gm_get (us_users st') = gm_get (us_users st)" by (auto simp: fun_upd_idem)
  with assms(3) show ?thesis by (simp add: has_admin_def)
qed

section \<open>Runs\<close>

definition user_init :: "user_store \<times> disk \<Rightarrow> bool" where
  "user_init s \<longleftrightarrow> users_wf (fst s) \<and> has_admin (fst s)"

definition user_trans :: "user_store \<times> disk \<Rightarrow> user_store \<times> disk \<Rightarrow> bool" where
  "user_trans s s' \<longleftrightarrow> (\<exists>env op r. env_ok env \<and> user_step env op s = (r, s'))"

interpretation user_sys: invariant_system user_init user_trans user_init
  by unfold_locales
    (auto simp: user_init_def user_trans_def intro: change_wf change_admin dest!: step_change)

fun run_users :: "(user_env \<times> user_op) list \<Rightarrow> user_store \<times> disk \<Rightarrow> user_store \<times> disk" where
  "run_users [] s = s"
| "run_users ((env, op) # ops) s = run_users ops (snd (user_step env op s))"

lemma run_users_steps:
  "list_all (\<lambda>(env, op). env_ok env) ops \<Longrightarrow> user_trans\<^sup>*\<^sup>* s (run_users ops s)"
proof (induction ops s rule: run_users.induct)
  case (2 env op ops s)
  then have "user_trans s (snd (user_step env op s))"
    unfolding user_trans_def by (metis (no_types, lifting) list.pred_inject(2) prod.case prod.collapse)
  moreover have "user_trans\<^sup>*\<^sup>* (snd (user_step env op s)) (run_users ops (snd (user_step env op s)))"
    using 2 by simp
  ultimately show ?case by simp
qed simp

text \<open>C29: The system is never left without an administrator: from a well-formed store with at least
  one, any sequence of operations, with any inputs and any outcomes of the writes, leaves a well-formed
  store with at least one.\<close>

theorem administrator_remains:
  assumes "users_wf st" "1 \<le> admin_count st" "list_all (\<lambda>(env, op). env_ok env) ops"
  shows "users_wf (fst (run_users ops (st, d))) \<and> 1 \<le> admin_count (fst (run_users ops (st, d)))"
proof -
  have "user_init (st, d)" using assms admin_count_iff by (auto simp: user_init_def users_wf_def)
  then have "user_init (run_users ops (st, d))"
    by (rule user_sys.steps_inv [OF run_users_steps [OF assms(3)]])
  then show ?thesis using admin_count_iff by (auto simp: user_init_def users_wf_def)
qed

section \<open>Each operation concerns one account\<close>

fun op_key :: "user_op \<Rightarrow> string" where
  "op_key (Create_user n p r fn must) = user_key n"
| "op_key (Set_role n r) = user_key n"
| "op_key (Set_full_name n fn) = user_key n"
| "op_key (Set_wizard n b) = user_key n"
| "op_key (Set_preferences n t g) = user_key n"
| "op_key (Reset_password n p must) = user_key n"
| "op_key (Change_password n p q) = user_key n"
| "op_key (Bump_session n) = user_key n"
| "op_key (Delete_user n a) = user_key n"

lemma fst_save_user [simp]:
  "fst (save_user env key u st d) =
     (if fst (persist_users env (put_user key u st) d) then Inr (public u) else Inl Persist_failed)"
  by (simp add: save_user_def Let_def split: prod.splits bool.splits)

lemmas step_defs = create_user_def set_role_def set_full_name_def set_geo_wizard_dismissed_def
  set_preferences_def reset_password_def change_password_def bump_session_version_def delete_user_def
  Let_def forget_eq

lemmas step_splits = option.splits if_splits sum.splits prod.splits bool.splits

lemma add_user_key:
  assumes "add_user (new_user (trim_space n) fn h r must t) st = Inr st'"
  shows "st' = put_user (user_key n) (new_user (trim_space n) fn h r must t) st"
    and "gm_get (us_users st) (user_key n) = None"
  using add_user_Inr [OF assms] by (simp_all add: new_user_def user_key_def)

lemma create_store:
  assumes "create_user env n p r fn must st d = (res, st', d')"
  shows "st' = st \<or> (\<exists>u. st' = put_user (user_key n) u st \<and> gm_get (us_users st) (user_key n) = None)"
  using assms add_user_key
  by (auto simp: create_user_def Let_def new_user_def user_key_def [symmetric]
      split: option.splits if_splits sum.splits prod.splits bool.splits)
    (metis add_user_key(1,2) add_user_undo new_user_def trim_space_idem user.select_convs(1) user_key_def)+

lemma step_frame:
  assumes "user_step env op (st, d) = (r, st', d')" "k \<noteq> op_key op"
  shows "gm_get (us_users st') k = gm_get (us_users st) k"
proof (cases op)
  case (Create_user n p ro fn must)
  then obtain res where "create_user env n p ro fn must st d = (res, st', d')"
    using assms by (auto simp: forget_eq) (metis prod.collapse)
  from create_store [OF this] assms Create_user show ?thesis by auto
qed (use assms in \<open>auto simp: step_defs find_user_def user_key_def split: step_splits\<close>)

lemma step_path: "user_step env op (st, d) = (r, st', d') \<Longrightarrow> us_path st' = us_path st"
proof (cases op)
  case (Create_user n p ro fn must)
  assume "user_step env op (st, d) = (r, st', d')"
  with Create_user obtain res where "create_user env n p ro fn must st d = (res, st', d')"
    by (auto simp: forget_eq) (metis prod.collapse)
  from create_store [OF this] show ?thesis by auto
qed (auto simp: step_defs split: step_splits)

section \<open>Errors\<close>

lemma create_error:
  assumes "create_user env n p r fn must st d = (Inl e, st', d')" shows "st' = st"
    and "e \<noteq> Persist_failed \<Longrightarrow> d' = d"
  using assms
  by (auto simp: create_user_def Let_def split: step_splits)
    (metis add_user_undo new_user_def trim_space_idem user.select_convs(1))

lemma add_user_error: "add_user u st = Inl e \<Longrightarrow> e \<noteq> Persist_failed"
  by (auto simp: add_user_def Let_def split: if_splits)

lemma step_success:
  assumes "user_step env op (st, d) = (Inr (), st', d')"
  shows "persist_users env st' d = (True, d')"
  using assms by (cases op) (auto simp: step_defs intro!: prod_eqI split: step_splits)

lemma step_error:
  assumes "user_step env op (st, d) = (Inl e, st', d')" "e \<noteq> Persist_failed"
  shows "st' = st \<and> d' = d"
  using assms add_user_error
  by (cases op) (auto simp: step_defs split: step_splits)

lemma create_delete_undo:
  assumes "user_step env op (st, d) = (Inl e, st', d')"
    and "case op of Create_user _ _ _ _ _ \<Rightarrow> True | Delete_user _ _ \<Rightarrow> True | _ \<Rightarrow> False"
  shows "gm_get (us_users st') = gm_get (us_users st)"
  using assms
proof (cases op)
  case (Create_user n p ro fn must)
  with assms(1) have "create_user env n p ro fn must st d = (Inl e, st', d')"
    by (cases "create_user env n p ro fn must st d") (auto simp: forget_def split: sum.splits)
  then have "st' = st" by (rule create_error(1))
  then show ?thesis by simp
qed (auto simp: delete_user_def Let_def fun_upd_idem split: step_splits)

section \<open>Reloading the file\<close>

abbreviation keyed :: "user \<Rightarrow> string \<times> user" where
  "keyed u \<equiv> (to_lower (u_name u), u)"

lemma gm_put_absent: "k \<notin> fst ` set m \<Longrightarrow> gm_put k v m = m @ [(k, v)]"
  by (induction m) auto

lemma add_users_fresh:
  assumes "list_all user_ok us" "distinct (map (to_lower \<circ> u_name) us)"
    and "\<forall>u\<in>set us. to_lower (u_name u) \<notin> fst ` set (us_users st)"
  shows "add_users us st = Inr (st\<lparr>us_users := us_users st @ map keyed us\<rparr>)"
  using assms
proof (induction us arbitrary: st)
  case (Cons u us)
  from Cons.prems have u: "user_ok u" "to_lower (u_name u) \<notin> fst ` set (us_users st)" by auto
  then have "gm_get (us_users st) (to_lower (u_name u)) = None" by (simp add: map_of_eq_None_iff)
  with u have add: "add_user u st = Inr (st\<lparr>us_users := us_users st @ [keyed u]\<rparr>)"
    using username_nonempty
    by (auto simp: add_user_def Let_def user_ok_def put_user_def gm_put_absent)
  have "\<forall>v\<in>set us. to_lower (u_name v) \<notin> fst ` set (us_users st @ [keyed u])"
    using Cons.prems by (auto simp: image_iff)
  with Cons show ?case by (simp add: add)
qed simp

lemma wf_keyed: "users_wf st \<Longrightarrow> map keyed (map snd (us_users st)) = us_users st"
  by (auto simp: users_wf_def list_all_iff intro!: map_idI)

lemma sorted_users_keyed:
  assumes "users_wf st"
  shows "mset (map keyed (sorted_users st)) = mset (us_users st)"
proof -
  have "mset (map keyed (sorted_users st)) = mset (map keyed (map snd (us_users st)))"
    by (simp add: sorted_users_def multiset.map_comp)
  then show ?thesis by (simp only: wf_keyed [OF assms])
qed

lemma new_user_store_sorted:
  assumes "users_wf st"
  shows "new_user_store (sorted_users st) = Inr \<lparr>us_users = map keyed (sorted_users st), us_path = []\<rparr>"
proof -
  note perm = sorted_users_keyed [OF assms]
  have "gm_ok (map keyed (sorted_users st))"
    using gm_get_perm(1) [OF perm] assms by (simp add: users_wf_def)
  then have "distinct (map (to_lower \<circ> u_name) (sorted_users st))"
    by (simp add: gm_ok_def comp_def)
  moreover have "list_all user_ok (sorted_users st)"
    using assms by (auto simp: sorted_users_def list_all_iff users_wf_def set_mset_mset [symmetric]
        simp del: set_mset_mset)
  ultimately show ?thesis by (simp add: new_user_store_def add_users_fresh)
qed

text \<open>What an operation has answered with success survives a restart: reading the file back gives a
  store with the same path and exactly the same accounts, for any well-formed store with an administrator,
  with a JSON encoder that gives back what it encoded.\<close>

theorem restart_keeps_accounts:
  assumes "users_wf st" "has_admin st" "env_ok env"
    and "us_path st \<noteq> []" "trim_space (us_path st) = us_path st"
    and "user_step env op (st, d) = (Inr (), st', d')"
    and "json_law (users_enc env) (users_dec env) good" "good (sorted_users st')"
  shows "\<exists>st2. load_users_file env (disk_read d' (us_path st)) (us_path st) = Inr st2
    \<and> us_path st2 = us_path st' \<and> gm_get (us_users st2) = gm_get (us_users st')"
proof -
  have wf: "users_wf st'" and adm: "has_admin st'" and path: "us_path st' = us_path st"
    using assms(1-3) step_change [OF assms(6)] step_path [OF assms(6)]
    by (auto intro: change_wf change_admin)
  have "write_json (users_enc env) (write_result env) (us_path st) (sorted_users st') d = (True, d')"
    using step_success [OF assms(6)] path assms(4) by (simp add: persist_users_def)
  then obtain bs where bs: "disk_read d' (us_path st) = Data bs" "users_dec env bs = Some (sorted_users st')"
    using assms(5,7,8) by (auto elim!: write_json_read)
  note perm = sorted_users_keyed [OF wf]
  have "sorted_users st' \<noteq> []"
    using adm perm by (cases "us_users st'") (auto simp: has_admin_def)
  then have "load_users_file env (disk_read d' (us_path st)) (us_path st) =
      Inr \<lparr>us_users = map keyed (sorted_users st'), us_path = us_path st\<rparr>"
    by (simp add: load_users_file_def bs new_user_store_sorted [OF wf] store_len_def)
  moreover have "gm_get (map keyed (sorted_users st')) = gm_get (us_users st')"
    using gm_get_perm(2) [OF perm] wf by (simp add: users_wf_def)
  ultimately show ?thesis using path by simp
qed

section \<open>Passwords\<close>

lemma Nil_eq_to_lower [simp]: "[] = to_lower s \<longleftrightarrow> s = []"
  by (metis to_lower_eq_Nil)

text \<open>bcrypt accepts the password that a hash was made of.\<close>

definition bcrypt_law :: "user_env \<Rightarrow> bool" where
  "bcrypt_law env \<longleftrightarrow> (\<forall>p h. bcrypt_hash env p = Some h \<longrightarrow> bcrypt_ok env h p)"

lemma find_put [simp]: "find_user (put_user k u st) n = (if user_key n = k then Some u else find_user st n)"
  by (simp add: find_user_def)

lemma save_user_Inr:
  "save_user env k u st d = (Inr p, st', d') \<Longrightarrow> st' = put_user k u st \<and> p = public u"
  by (auto simp: save_user_def Let_def split: step_splits)

lemma create_user_Inr:
  assumes "create_user env n p ro fn must st d = (Inr pub, st', d')"
  obtains fn' h where "validate_password_for_user env n p = None" "bcrypt_hash env p = Some h"
    "add_user (new_user (trim_space n) fn' h ro must (now_text env)) st = Inr st'"
  using assms by (auto simp: create_user_def Let_def split: step_splits)

lemma reset_password_Inr:
  assumes "reset_password env n p must st d = (Inr pub, st', d')"
  obtains u h where "validate_password_for_user env n p = None" "bcrypt_hash env p = Some h"
    "find_user st n = Some u"
    "st' = put_user (user_key n) (u\<lparr>u_hash := h, u_must_reset := must, u_session := u_session u + 1\<rparr>) st"
  using assms by (auto simp: reset_password_def dest!: save_user_Inr split: step_splits)

lemma change_password_Inr:
  assumes "change_password env n old p st d = (Inr pub, st', d')"
  obtains u h where "validate_password_for_user env n p = None" "bcrypt_hash env p = Some h"
    "find_user st n = Some u" "bcrypt_ok env (u_hash u) old"
    "st' = put_user (user_key n) (u\<lparr>u_hash := h, u_must_reset := False, u_session := u_session u + 1\<rparr>) st"
  using assms by (auto simp: change_password_def dest!: save_user_Inr split: step_splits)

text \<open>A successful creation, reset or change of a password puts it into force: the account is then
  authenticated by exactly the passwords that bcrypt accepts for the new hash, the new one among them, under
  any spelling of its name that differs in case or in surrounding space; the password is at least ten and at
  most 128 bytes long, is not one of the common ones and is not the name of the account; and no other
  account's answer changes.\<close>

theorem password_in_force:
  assumes "users_wf st" "bcrypt_law env" "user_key m = user_key n"
    and "create_user env n p ro fn must st d = (Inr pub, st', d')
      \<or> reset_password env n p must st d = (Inr pub, st', d')
      \<or> change_password env n old p st d = (Inr pub, st', d')"
  shows "\<exists>u h. find_user st' m = Some u \<and> bcrypt_hash env p = Some h \<and> u_hash u = h
    \<and> authenticate env st' m p = Some u
    \<and> (\<forall>q. authenticate env st' m q = (if bcrypt_ok env h q then Some u else None))
    \<and> 10 \<le> length p \<and> length p \<le> 128 \<and> \<not> is_common_password p \<and> user_key p \<noteq> user_key n
    \<and> (\<forall>m' q. user_key m' \<noteq> user_key n \<longrightarrow> authenticate env st' m' q = authenticate env st m' q)"
proof -
  have val: "10 \<le> length p \<and> length p \<le> 128 \<and> \<not> is_common_password p \<and> user_key p \<noteq> user_key n"
    if v: "validate_password_for_user env n p = None" and n: "user_key n \<noteq> []"
    using v n by (auto simp: validate_password_for_user_def validate_password_def min_password_len_def
        password_matches_username_def user_key_def Let_def split: if_splits option.splits)
  consider (new) fn' h where "validate_password_for_user env n p = None" "bcrypt_hash env p = Some h"
      "add_user (new_user (trim_space n) fn' h ro must (now_text env)) st = Inr st'"
    | (old) u b h where "validate_password_for_user env n p = None" "bcrypt_hash env p = Some h"
      "find_user st n = Some u"
      "st' = put_user (user_key n) (u\<lparr>u_hash := h, u_must_reset := b, u_session := u_session u + 1\<rparr>) st"
    using assms(4) by (elim disjE) (blast elim: create_user_Inr reset_password_Inr change_password_Inr)+
  then show ?thesis
  proof cases
    case new
    note a = add_user_key [OF new(3)] and b = add_user_Inr(2) [OF new(3)]
    have "user_key n \<noteq> []"
      using b username_nonempty by (auto simp: user_ok_def user_key_def new_user_def)
    with a val new(1,2) assms(2,3) show ?thesis
      by (auto simp: authenticate_def new_user_def bcrypt_law_def)
  next
    case old
    have "user_key n \<noteq> []"
      using find_user_wf [OF assms(1) old(3)] username_nonempty by (auto simp: user_ok_def)
    with val old assms(2,3) show ?thesis by (auto simp: authenticate_def bcrypt_law_def)
  qed
qed

section \<open>A concrete store\<close>

definition demo_user :: user where
  "demo_user = \<lparr>u_name = ''bob'', u_full_name = [], u_hash = ''#old'', u_role = ''administrator'',
     u_must_reset = False, u_wizard_off = False, u_theme = [], u_group_by = [], u_session = 0,
     u_created = []\<rparr>"

definition demo_store :: user_store where
  "demo_store = \<lparr>us_users = [(''bob'', demo_user)], us_path = ''u''\<rparr>"

definition demo_env :: user_env where
  "demo_env = \<lparr>letter_tab = (\<lambda>_. False), digit_tab = (\<lambda>_. False),
     bcrypt_hash = (\<lambda>p. if p = ''correct9horse'' then Some ''#new'' else None),
     bcrypt_ok = (\<lambda>h p. h = ''#new'' \<and> p = ''correct9horse'' \<or> h = ''#old'' \<and> p = ''old9password''),
     users_enc = (\<lambda>us. if us = [demo_user\<lparr>u_wizard_off := True\<rparr>] then Some ''j'' else None),
     users_dec = (\<lambda>bs. if bs = [CHR ''j'', byte 10] then Some [demo_user\<lparr>u_wizard_off := True\<rparr>] else None),
     write_result = Written, now_text = ''now''\<rparr>"

lemma demo_laws: "env_ok demo_env" "bcrypt_law demo_env"
    "json_law (users_enc demo_env) (users_dec demo_env) (\<lambda>_. True)"
proof -
  have "trim_space ''#new'' \<noteq> []" by code_simp
  then show "env_ok demo_env" by (simp add: env_ok_def demo_env_def)
  show "bcrypt_law demo_env" by (simp add: bcrypt_law_def demo_env_def)
  show "json_law (users_enc demo_env) (users_dec demo_env) (\<lambda>_. True)"
    by (simp add: json_law_def demo_env_def split: if_splits)
qed

lemma demo_wf: "users_wf demo_store" "has_admin demo_store" "1 \<le> admin_count demo_store"
proof -
  show wf: "users_wf demo_store" by code_simp
  show one: "1 \<le> admin_count demo_store" by code_simp
  show "has_admin demo_store" using wf one admin_count_iff by (simp add: users_wf_def)
qed

theorem administrator_remains_witness:
  "users_wf (fst (run_users [(demo_env, Delete_user ''bob'' ''eve''), (demo_env, Set_role ''BOB'' ''operator'')]
     (demo_store, \<lambda>_. None))) \<and>
   1 \<le> admin_count (fst (run_users [(demo_env, Delete_user ''bob'' ''eve''), (demo_env, Set_role ''BOB'' ''operator'')]
     (demo_store, \<lambda>_. None)))"
  by (rule administrator_remains) (simp_all add: demo_wf demo_laws demo_wf(3) [simplified])

theorem restart_keeps_accounts_witness:
  "\<exists>st2. load_users_file demo_env (Data [CHR ''j'', byte 10]) ''u'' = Inr st2
    \<and> us_path st2 = ''u'' \<and> gm_get (us_users st2) ''bob'' = Some (demo_user\<lparr>u_wizard_off := True\<rparr>)"
proof -
  let ?st = "\<lparr>us_users = [(''bob'', demo_user\<lparr>u_wizard_off := True\<rparr>)], us_path = ''u''\<rparr>"
  let ?d = "\<lambda>n. if n = ''u'' then Some [CHR ''j'', byte 10] else None"
  have s: "user_step demo_env (Set_wizard ''bob'' True) (demo_store, \<lambda>_. None) = (Inr (), ?st, ?d)"
  proof -
    have k: "user_key ''bob'' = ''bob''" "trim_space ''u'' = ''u''" by code_simp+
    show ?thesis
      by (auto simp: set_geo_wizard_dismissed_def find_user_def k demo_store_def save_user_def put_user_def
          Let_def persist_users_def write_json_def write_file_def sorted_users_def demo_env_def forget_def)
  qed
  have "us_path demo_store = ''u''" "trim_space ''u'' = ''u''" by code_simp+
  with restart_keeps_accounts [OF demo_wf(1,2) demo_laws(1) _ _ s demo_laws(3)] show ?thesis
    by (auto simp: disk_read_def)
qed

theorem password_in_force_witness:
  "\<exists>u. authenticate demo_env
      (fst (snd (change_password demo_env ''bob'' ''old9password'' ''correct9horse''
        (demo_store\<lparr>us_path := []\<rparr>) (\<lambda>_. None)))) '' BOB'' ''correct9horse'' = Some u"
proof -
  let ?st = "demo_store\<lparr>us_path := []\<rparr>"
  let ?r = "change_password demo_env ''bob'' ''old9password'' ''correct9horse'' ?st (\<lambda>_. None)"
  have wf: "users_wf ?st" by code_simp
  have k: "user_key '' BOB'' = user_key ''bob''" by code_simp
  have "\<exists>p. fst ?r = Inr p" by (rule exI [of _ "projr (fst ?r)"]) code_simp
  then obtain p st' d' where r: "?r = (Inr p, st', d')" by (metis prod.collapse)
  show ?thesis
    using password_in_force [OF wf demo_laws(2) k disjI2 [OF disjI2 [OF r]]] by (auto simp: r)
qed

section \<open>Failed operations\<close>

lemma validate_error: "validate_password_for_user env n p = Some e \<Longrightarrow> e = Invalid_password"
  by (auto simp: validate_password_for_user_def validate_password_def Let_def split: if_splits option.splits)

lemma bcrypt_lawD: "bcrypt_law env \<Longrightarrow> bcrypt_hash env p = Some h \<Longrightarrow> bcrypt_ok env h p"
  by (simp add: bcrypt_law_def)

text \<open>The change of an account that an operation leaves in memory, from \<open>u\<close> to \<open>v\<close>, although its write failed.\<close>

fun stays :: "user_env \<Rightarrow> user_op \<Rightarrow> user \<Rightarrow> user \<Rightarrow> bool" where
  "stays env (Set_role n r) u v \<longleftrightarrow> v = u\<lparr>u_role := r\<rparr>"
| "stays env (Set_full_name n fn) u v \<longleftrightarrow> (\<exists>name. normalize_full_name fn = Inr name \<and> v = u\<lparr>u_full_name := name\<rparr>)"
| "stays env (Set_wizard n b) u v \<longleftrightarrow> v = u\<lparr>u_wizard_off := b\<rparr>"
| "stays env (Set_preferences n t g) u v \<longleftrightarrow>
     (\<exists>x y. (case t of None \<Rightarrow> x = u_theme u | Some x0 \<Rightarrow> normalize_theme x0 = Inr x) \<and>
       (case g of None \<Rightarrow> y = u_group_by u | Some y0 \<Rightarrow> normalize_group_by y0 = Inr y) \<and> v = u\<lparr>u_theme := x, u_group_by := y\<rparr>)"
| "stays env (Reset_password n p must) u v \<longleftrightarrow>
     (\<exists>h. bcrypt_hash env p = Some h \<and> v = u\<lparr>u_hash := h, u_must_reset := must, u_session := u_session u + 1\<rparr>)"
| "stays env (Change_password n p q) u v \<longleftrightarrow>
     (\<exists>h. bcrypt_hash env q = Some h \<and> v = u\<lparr>u_hash := h, u_must_reset := False, u_session := u_session u + 1\<rparr>)"
| "stays env (Bump_session n) u v \<longleftrightarrow> v = u\<lparr>u_session := u_session u + 1\<rparr>"
| "stays env (Create_user n p r fn must) u v \<longleftrightarrow> False"
| "stays env (Delete_user n a) u v \<longleftrightarrow> False"

lemma failed_write_stays:
  assumes "user_step env op (st, d) = (Inl Persist_failed, st', d')"
    "\<And>n p r fn m. op \<noteq> Create_user n p r fn m" "\<And>n a. op \<noteq> Delete_user n a"
  shows "\<exists>u v. gm_get (us_users st) (op_key op) = Some u \<and> stays env op u v \<and> st' = put_user (op_key op) v st"
proof -
  have n: "normalize_full_name x \<noteq> Inl Persist_failed" "normalize_theme x \<noteq> Inl Persist_failed" "normalize_group_by x \<noteq> Inl Persist_failed" for x
    by (simp_all add: normalize_full_name_def normalize_theme_def normalize_group_by_def Let_def)
  show ?thesis
  proof (cases op)
    case (Set_preferences m t g)
    show ?thesis using assms(1) Set_preferences n
      by (cases t; cases g) (auto simp: step_defs find_user_def split: step_splits)
  qed (use assms n in \<open>auto simp: step_defs find_user_def dest: validate_error split: step_splits\<close>)
qed

text \<open>C30: An operation on the accounts that reports an error. When it refuses, nothing changes. When the file cannot be written, a
  creation and a deletion are taken back in memory, while every other operation stays in force in memory although it
  answered with an error: the store differs in the one account, by exactly the change that was asked for
  (\<open>stays\<close>: role, name, dismissal, preferences, password with a new session version, or the session version).\<close>

theorem failed_operation:
  assumes "user_step env op (st, d) = (Inl e, st', d')"
  shows "(e \<noteq> Persist_failed \<longrightarrow> st' = st \<and> d' = d)
    \<and> (case op of Create_user _ _ _ _ _ \<Rightarrow> gm_get (us_users st') = gm_get (us_users st)
       | Delete_user _ _ \<Rightarrow> gm_get (us_users st') = gm_get (us_users st)
       | _ \<Rightarrow> e = Persist_failed \<longrightarrow>
           (\<exists>u v. gm_get (us_users st) (op_key op) = Some u \<and> stays env op u v \<and> st' = put_user (op_key op) v st))
    \<and> (case op of Reset_password n p must \<Rightarrow> e = Persist_failed \<and> bcrypt_law env \<longrightarrow> (\<exists>u. authenticate env st' n p = Some u)
       | Set_role n r \<Rightarrow> e = Persist_failed \<longrightarrow> (\<exists>u. find_user st' n = Some u \<and> u_role u = r)
       | _ \<Rightarrow> True)"
proof -
  have 1: "e \<noteq> Persist_failed \<longrightarrow> st' = st \<and> d' = d" using step_error [OF assms] by blast
  have 2: "case op of Create_user _ _ _ _ _ \<Rightarrow> gm_get (us_users st') = gm_get (us_users st)
       | Delete_user _ _ \<Rightarrow> gm_get (us_users st') = gm_get (us_users st)
       | _ \<Rightarrow> e = Persist_failed \<longrightarrow>
           (\<exists>u v. gm_get (us_users st) (op_key op) = Some u \<and> stays env op u v \<and> st' = put_user (op_key op) v st)"
    using create_delete_undo [OF assms] failed_write_stays [of env op st d st' d'] assms by (cases op) simp_all
  show ?thesis
  proof (cases op)
    case (Reset_password n p must)
    with 1 2 assms show ?thesis
      by (auto simp: step_defs authenticate_def bcrypt_lawD dest: validate_error split: step_splits)
  next
    case (Set_role n r)
    with 1 2 assms show ?thesis by (auto simp: step_defs split: step_splits)
  qed (use 1 2 in simp_all)
qed

theorem failed_operation_witness:
  "\<exists>u. authenticate (demo_env\<lparr>write_result := Kept\<rparr>)
      (fst (snd (user_step (demo_env\<lparr>write_result := Kept\<rparr>) (Reset_password ''bob'' ''correct9horse'' False)
        (demo_store, \<lambda>_. None)))) ''bob'' ''correct9horse'' = Some u"
proof -
  let ?env = "demo_env\<lparr>write_result := Kept\<rparr>"
  let ?r = "user_step ?env (Reset_password ''bob'' ''correct9horse'' False) (demo_store, \<lambda>_. None)"
  have "fst ?r = Inl Persist_failed" by code_simp
  then obtain st' d' where r: "?r = (Inl Persist_failed, st', d')" by (metis prod.collapse)
  have "bcrypt_law ?env" using demo_laws(2) by (simp add: bcrypt_law_def)
  with failed_operation [OF r] show ?thesis unfolding r by simp
qed

section \<open>Session stamps\<close>

text \<open>The operations that revoke the sessions of an account; a failed write does not keep them from it.\<close>

fun revokes :: "user_op \<Rightarrow> auth_err + unit \<Rightarrow> bool" where
  "revokes (Reset_password n p must) r \<longleftrightarrow> r = Inr () \<or> r = Inl Persist_failed"
| "revokes (Change_password n p q) r \<longleftrightarrow> r = Inr () \<or> r = Inl Persist_failed"
| "revokes (Bump_session n) r \<longleftrightarrow> r = Inr () \<or> r = Inl Persist_failed"
| "revokes _ r \<longleftrightarrow> False"

fun deletes :: "user_op \<Rightarrow> string \<Rightarrow> bool" where
  "deletes (Delete_user n a) k \<longleftrightarrow> user_key n = k"
| "deletes _ k \<longleftrightarrow> False"

lemma step_stamp_own:
  assumes "user_step env op (st, d) = (r, st', d')" "gm_get (us_users st) (op_key op) = Some u"
    and "\<not> deletes op (op_key op)"
  obtains u' where "gm_get (us_users st') (op_key op) = Some u'"
    "u_session u' = u_session u + (if revokes op r then 1 else 0)"
proof (cases op)
  case (Create_user n p ro fn must)
  then obtain res where "create_user env n p ro fn must st d = (res, st', d')"
    using assms(1) by (auto simp: forget_eq) (metis prod.collapse)
  from create_store [OF this] assms(2) Create_user that show thesis by auto
qed (use assms that in \<open>auto simp: step_defs find_user_def dest: validate_error split: step_splits\<close>)

text \<open>How many revocations of the account \<open>k\<close> a run contains.\<close>

fun revocations :: "string \<Rightarrow> (user_env \<times> user_op) list \<Rightarrow> user_store \<times> disk \<Rightarrow> nat" where
  "revocations k [] s = 0"
| "revocations k ((env, op) # ops) s =
     (let (r, s') = user_step env op s in
      (if op_key op = k \<and> revokes op r then 1 else 0) + revocations k ops s')"

lemma run_stamp:
  assumes "gm_get (us_users (fst s)) k = Some u" "list_all (\<lambda>(env, op). \<not> deletes op k) ops"
  shows "\<exists>u'. gm_get (us_users (fst (run_users ops s))) k = Some u'
    \<and> u_session u' = u_session u + of_nat (revocations k ops s)"
  using assms
proof (induction ops s arbitrary: u rule: run_users.induct)
  case (2 env op ops s)
  obtain st d where s: "s = (st, d)" by (cases s)
  obtain r st' d' where step: "user_step env op (st, d) = (r, st', d')" by (metis prod_cases3)
  obtain u1 where u1: "gm_get (us_users st') k = Some u1"
      "u_session u1 = u_session u + (if op_key op = k \<and> revokes op r then 1 else 0)"
  proof (cases "op_key op = k")
    case True
    with "2.prems" s that show thesis by (auto elim!: step_stamp_own [OF step])
  next
    case False
    with "2.prems" s step_frame [OF step] that show thesis by auto
  qed
  have "list_all (\<lambda>(env, op). \<not> deletes op k) ops" using "2.prems" by simp
  with "2.IH" [of u1] u1(1) s step obtain u' where
      "gm_get (us_users (fst (run_users ops (st', d')))) k = Some u'"
      "u_session u' = u_session u1 + of_nat (revocations k ops (st', d'))" by auto
  with u1(2) s step show ?case by (auto simp: Let_def)
qed simp

end
