(* ===== verification/Auth_Sessions.thy ===== *)
theory Auth_Sessions
  imports Auth_Users
begin

text \<open>
  Cookie sessions (\<^verbatim>\<open>auth/session.go\<close>), the registry of active sessions
  (\<^verbatim>\<open>auth/session_registry.go\<close>) and the application service over both and the account store
  (\<^verbatim>\<open>usecase/auth/service.go\<close>).

  \<open>session_env\<close> holds base64, JSON and HMAC-SHA256, the clock and the random session id;
  \<open>registry_env\<close> the JSON encoder, the clock, the outcome of the write and the two
  sorting functions (newest creation first for the file, last seen first for the list).
  A \<^verbatim>\<open>time.Time\<close> is a number of nanoseconds since year 1, as in the prelude; the seconds of
  \<^verbatim>\<open>Time.Unix\<close> count from 1970. Pointer parameters that may be nil (\<^verbatim>\<open>users\<close>,
  \<^verbatim>\<open>registry\<close>) are options.
\<close>

section \<open>Tokens: session.go\<close>

definition unix_epoch :: int where "unix_epoch = 62135596800"

definition unix_seconds :: "go_time \<Rightarrow> int" where
  "unix_seconds t = t div second - unix_epoch"

definition time_unix :: "int \<Rightarrow> go_time" where
  "time_unix s = (s + unix_epoch) * second"

definition session_never_expires :: int where "session_never_expires = - 1"

definition persistent_cookie_ttl :: duration where
  "persistent_cookie_ttl = 10 * 365 * 24 * hour"

record session =
  s_user :: string
  s_role :: string
  s_expires :: int
  s_version :: u64
  s_sid :: string

record session_manager =
  sm_secret :: string
  sm_ttl :: duration

record session_env =
  b64_enc :: "string \<Rightarrow> string"
  b64_dec :: "string \<Rightarrow> string option"
  hmac_sha256 :: "string \<Rightarrow> string \<Rightarrow> string"
  session_enc :: "session \<Rightarrow> string option"
  session_dec :: "string \<Rightarrow> session option"
  clock :: go_time
  fresh_sid :: string

datatype session_err = Empty_secret | Invalid_session | Expired_session | Marshal_failed

definition new_session_manager :: "string \<Rightarrow> duration \<Rightarrow> session_err + session_manager" where
  "new_session_manager secret0 ttl =
     (let secret = trim_space secret0 in
      if secret = [] then Inl Empty_secret
      else Inr \<lparr>sm_secret = secret, sm_ttl = (if ttl \<le> 0 then 12 * hour else ttl)\<rparr>)"

definition cookie_ttl_for_role :: "string \<Rightarrow> duration \<Rightarrow> duration" where
  "cookie_ttl_for_role role default_ttl =
     (if has_persistent_session role then persistent_cookie_ttl else default_ttl)"

definition sign :: "session_env \<Rightarrow> session_manager \<Rightarrow> string \<Rightarrow> string" where
  "sign env m payload = b64_enc env (hmac_sha256 env (sm_secret m) payload)"

definition issue ::
  "session_env \<Rightarrow> session_manager \<Rightarrow> string \<Rightarrow> string \<Rightarrow> u64 \<Rightarrow> session_err + (string \<times> session)" where
  "issue env m username role version =
     (let expires = (if has_persistent_session role then session_never_expires
                     else unix_seconds (clock env + sm_ttl m));
        sess = \<lparr>s_user = username, s_role = role, s_expires = expires, s_version = version,
                s_sid = fresh_sid env\<rparr> in
      case session_enc env sess of
        None \<Rightarrow> Inl Marshal_failed
      | Some raw \<Rightarrow>
          let payload = b64_enc env raw in
          Inr (payload @ CHR ''.'' # sign env m payload, sess))"

definition parse_token :: "session_env \<Rightarrow> session_manager \<Rightarrow> string \<Rightarrow> session_err + session" where
  "parse_token env m token =
     (case split_on CHR ''.'' token of
        [p, sg] \<Rightarrow>
          if p = [] \<or> sg = [] then Inl Invalid_session
          else if sg \<noteq> sign env m p then Inl Invalid_session
          else (case b64_dec env p of
            None \<Rightarrow> Inl Invalid_session
          | Some raw \<Rightarrow>
              (case session_dec env raw of
                 None \<Rightarrow> Inl Invalid_session
               | Some sess \<Rightarrow>
                   if s_user sess = [] \<or> \<not> valid_role (s_role sess) then Inl Invalid_session
                   else if s_expires sess > 0 \<and> unix_seconds (clock env) > s_expires sess
                   then Inl Expired_session
                   else Inr sess))
      | _ \<Rightarrow> Inl Invalid_session)"

section \<open>Live sessions\<close>

text \<open>The interface \<^verbatim>\<open>UserLookup\<close>: \<^verbatim>\<open>Get\<close> and \<^verbatim>\<open>SessionVersion\<close>.\<close>

type_synonym lookup = "(string \<Rightarrow> user_public option) \<times> (string \<Rightarrow> u64 option)"

definition live_session :: "lookup option \<Rightarrow> session \<Rightarrow> session option" where
  "live_session users sess =
     (case users of
        None \<Rightarrow> Some sess
      | Some (get, version) \<Rightarrow>
          (case get (s_user sess) of
             None \<Rightarrow> None
           | Some pub \<Rightarrow>
               (case version (s_user sess) of
                  None \<Rightarrow> None
                | Some sv \<Rightarrow>
                    if s_version sess \<noteq> sv then None
                    else
                      let live = sess\<lparr>s_role := p_role pub, s_version := sv\<rparr> in
                      if s_expires live = session_never_expires \<and> \<not> has_persistent_session (s_role live)
                      then None else Some live)))"

definition store_lookup :: "user_store \<Rightarrow> lookup" where
  "store_lookup st = (get_user st, session_version st)"

section \<open>The registry: session_registry.go\<close>

record session_record =
  r_id :: string
  r_user :: string
  r_role :: string
  r_ip :: string
  r_agent :: string
  r_created :: go_time
  r_expires :: go_time
  r_seen :: go_time

record registry =
  rg_path :: string
  rg_by_id :: "(string, session_record) go_map"
  rg_touch :: "(string, go_time) go_map"

record registry_env =
  records_enc :: "session_record list \<Rightarrow> string option"
  records_dec :: "string \<Rightarrow> session_record list option"
  sort_created :: "session_record list \<Rightarrow> session_record list"
  sort_seen :: "session_record list \<Rightarrow> session_record list"
  mkdir_ok :: bool
  rg_write :: outcome
  rg_now :: go_time

definition touch_min :: duration where "touch_min = minute"

definition record_expired :: "go_time \<Rightarrow> session_record \<Rightarrow> bool" where
  "record_expired now rec \<longleftrightarrow> r_expires rec \<noteq> 0 \<and> r_expires rec < now"

fun load_records :: "go_time \<Rightarrow> session_record list \<Rightarrow> registry \<Rightarrow> registry" where
  "load_records now [] reg = reg"
| "load_records now (rec # recs) reg =
     (if trim_space (r_id rec) = [] \<or> record_expired now rec then load_records now recs reg
      else load_records now recs (reg\<lparr>rg_by_id := gm_put (r_id rec) rec (rg_by_id reg)\<rparr>))"

definition new_session_registry :: "registry_env \<Rightarrow> string \<Rightarrow> file_read \<Rightarrow> registry option" where
  "new_session_registry env path r =
     (let reg = \<lparr>rg_path = trim_space path, rg_by_id = [], rg_touch = []\<rparr> in
      if rg_path reg = [] then Some reg
      else case r of
        Not_exist \<Rightarrow> Some reg
      | Read_err \<Rightarrow> None
      | Data bs \<Rightarrow>
          (case records_dec env bs of
             None \<Rightarrow> None
           | Some recs \<Rightarrow> Some (load_records (rg_now env) recs reg)))"

definition persist_registry :: "registry_env \<Rightarrow> registry \<Rightarrow> disk \<Rightarrow> bool \<times> disk" where
  "persist_registry env reg d =
     (if rg_path reg = [] then (True, d)
      else if \<not> mkdir_ok env then (False, d)
      else case records_enc env (sort_created env (map snd (rg_by_id reg))) of
        None \<Rightarrow> (False, d)
      | Some bs \<Rightarrow> write_file (rg_write env) (rg_path reg) bs d)"

definition prune_expired :: "go_time \<Rightarrow> registry \<Rightarrow> registry" where
  "prune_expired now reg =
     (let dead = map fst (filter (\<lambda>(i, rec). record_expired now rec) (rg_by_id reg)) in
      reg\<lparr>rg_by_id := gm_filter (\<lambda>(i, rec). \<not> record_expired now rec) (rg_by_id reg),
          rg_touch := gm_filter (\<lambda>(i, t). i \<notin> set dead) (rg_touch reg)\<rparr>)"

text \<open>Each method returns its answer, whether the file was written (when it tries to), and the new state.\<close>

definition register :: "registry_env \<Rightarrow> session_record \<Rightarrow> registry \<Rightarrow> disk \<Rightarrow> bool \<times> registry \<times> disk" where
  "register env rec0 reg d =
     (if trim_space (r_id rec0) = [] then (True, reg, d)
      else
        let now = rg_now env;
          rec1 = (if r_created rec0 = 0 then rec0\<lparr>r_created := now\<rparr> else rec0);
          rec2 = (if r_seen rec1 = 0 then rec1\<lparr>r_seen := now\<rparr> else rec1);
          reg1 = prune_expired now reg;
          reg2 = reg1\<lparr>rg_by_id := gm_put (r_id rec2) rec2 (rg_by_id reg1)\<rparr>;
          (ok, d') = persist_registry env reg2 d in
        (ok, reg2, d'))"

definition has_session :: "registry_env \<Rightarrow> string \<Rightarrow> registry \<Rightarrow> bool \<times> registry" where
  "has_session env sid0 reg =
     (let sid = trim_space sid0 in
      if sid = [] then (False, reg)
      else
        let reg1 = prune_expired (rg_now env) reg in
        (gm_get (rg_by_id reg1) sid \<noteq> None, reg1))"

definition touch :: "registry_env \<Rightarrow> string \<Rightarrow> registry \<Rightarrow> disk \<Rightarrow> registry \<times> disk" where
  "touch env sid0 reg d =
     (let sid = trim_space sid0 in
      if sid = [] then (reg, d)
      else case gm_get (rg_by_id reg) sid of
        None \<Rightarrow> (reg, d)
      | Some rec \<Rightarrow>
          let now = rg_now env in
          if (case gm_get (rg_touch reg) sid of None \<Rightarrow> False | Some t \<Rightarrow> time_sub now t < touch_min)
          then (reg, d)
          else
            let reg1 = reg\<lparr>rg_by_id := gm_put sid (rec\<lparr>r_seen := now\<rparr>) (rg_by_id reg),
                rg_touch := gm_put sid now (rg_touch reg)\<rparr>;
              (ok, d') = persist_registry env reg1 d in
            (reg1, d'))"

definition drop_session :: "string \<Rightarrow> registry \<Rightarrow> registry" where
  "drop_session sid reg =
     reg\<lparr>rg_by_id := gm_del sid (rg_by_id reg), rg_touch := gm_del sid (rg_touch reg)\<rparr>"

definition revoke :: "registry_env \<Rightarrow> string \<Rightarrow> registry \<Rightarrow> disk \<Rightarrow> bool \<times> bool \<times> registry \<times> disk" where
  "revoke env sid0 reg d =
     (let sid = trim_space sid0 in
      if sid = [] then (False, True, reg, d)
      else if gm_get (rg_by_id reg) sid = None then (False, True, reg, d)
      else
        let reg1 = drop_session sid reg; (ok, d') = persist_registry env reg1 d in
        (True, ok, reg1, d'))"

definition revoke_user :: "registry_env \<Rightarrow> string \<Rightarrow> registry \<Rightarrow> disk \<Rightarrow> nat \<times> bool \<times> registry \<times> disk" where
  "revoke_user env username0 reg d =
     (let username = trim_space username0 in
      if username = [] then (0, True, reg, d)
      else
        let ids = map fst (filter (\<lambda>(i, rec). equal_fold (r_user rec) username) (rg_by_id reg));
          n = length ids in
        if n = 0 then (0, True, reg, d)
        else
          let reg1 = fold drop_session ids reg; (ok, d') = persist_registry env reg1 d in
          (n, ok, reg1, d'))"

definition list_sessions :: "registry_env \<Rightarrow> registry \<Rightarrow> session_record list \<times> registry" where
  "list_sessions env reg =
     (let reg1 = prune_expired (rg_now env) reg in (sort_seen env (map snd (rg_by_id reg1)), reg1))"

definition expires_from_session :: "session \<Rightarrow> go_time" where
  "expires_from_session sess =
     (if s_expires sess \<le> 0 \<or> s_expires sess = session_never_expires then 0
      else time_unix (s_expires sess))"

definition live_session_checked ::
  "registry_env \<Rightarrow> lookup option \<Rightarrow> registry option \<Rightarrow> session \<Rightarrow> disk \<Rightarrow> session option \<times> registry option \<times> disk" where
  "live_session_checked env users regs sess d =
     (case live_session users sess of
        None \<Rightarrow> (None, regs, d)
      | Some live \<Rightarrow>
          (case regs of
             None \<Rightarrow> (Some live, None, d)
           | Some reg \<Rightarrow>
               if trim_space (s_sid sess) = [] then (None, regs, d)
               else
                 let (there, reg1) = has_session env (s_sid sess) reg in
                 if \<not> there then (None, Some reg1, d)
                 else
                   let (reg2, d') = touch env (s_sid sess) reg1 d in
                   (Some live, Some reg2, d')))"

section \<open>The application service: usecase/auth\<close>

datatype service_err =
    Not_configured | Invalid_credentials | Unauthorized | Session_error | Store_error auth_err

definition verify_password :: "user_env \<Rightarrow> user_store option \<Rightarrow> string \<Rightarrow> string \<Rightarrow> bool" where
  "verify_password env users username password =
     (case users of None \<Rightarrow> False | Some st \<Rightarrow> authenticate env st username password \<noteq> None)"

definition login ::
  "user_env \<Rightarrow> session_env \<Rightarrow> user_store option \<Rightarrow> session_manager option \<Rightarrow> string \<Rightarrow> string \<Rightarrow>
     service_err + (user \<times> string \<times> session)" where
  "login env senv users sessions username password =
     (case (users, sessions) of
        (Some st, Some m) \<Rightarrow>
          (case authenticate env st username password of
             None \<Rightarrow> Inl Invalid_credentials
           | Some u \<Rightarrow>
               (case issue senv m (u_name u) (u_role u) (u_session u) of
                  Inl e \<Rightarrow> Inl Session_error
                | Inr (token, sess) \<Rightarrow> Inr (u, token, sess)))
      | _ \<Rightarrow> Inl Not_configured)"

definition me :: "user_store option \<Rightarrow> string \<Rightarrow> service_err + user_public" where
  "me users username =
     (case users of
        None \<Rightarrow> Inl Not_configured
      | Some st \<Rightarrow> (case get_user st username of None \<Rightarrow> Inl Unauthorized | Some p \<Rightarrow> Inr p))"

definition service_change_password ::
  "user_env \<Rightarrow> session_env \<Rightarrow> session_manager option \<Rightarrow> string \<Rightarrow> string \<Rightarrow> string \<Rightarrow> user_store \<Rightarrow> disk \<Rightarrow>
     (service_err + (user_public \<times> string \<times> session)) \<times> user_store \<times> disk" where
  "service_change_password env senv sessions username old_password new_password st d =
     (case sessions of
        None \<Rightarrow> (Inl Not_configured, st, d)
      | Some m \<Rightarrow>
          (case change_password env username old_password new_password st d of
             (Inl e, st', d') \<Rightarrow> (Inl (Store_error e), st', d')
           | (Inr pub, st', d') \<Rightarrow>
               (case session_version st' username of
                  None \<Rightarrow> (Inl Unauthorized, st', d')
                | Some sv \<Rightarrow>
                    (case issue senv m (p_name pub) (p_role pub) sv of
                       Inl e \<Rightarrow> (Inl Session_error, st', d')
                     | Inr (token, sess) \<Rightarrow> (Inr (pub, token, sess), st', d')))))"

definition service_delete_user ::
  "user_env \<Rightarrow> string \<Rightarrow> string \<Rightarrow> user_store \<Rightarrow> disk \<Rightarrow> unit user_result" where
  "service_delete_user env username actor st d = delete_user env (trim_space username) actor st d"

section \<open>Parsing tokens\<close>

lemma split_on_pair_iff: "split_on x s = [a, b] \<longleftrightarrow> s = a @ x # b \<and> x \<notin> set a \<and> x \<notin> set b"
proof
  have one: "split_on x s = [w] \<Longrightarrow> s = w \<and> x \<notin> set w" for s w
    by (induction s arbitrary: w) (auto split: if_splits list.splits)
  show "split_on x s = [a, b] \<Longrightarrow> s = a @ x # b \<and> x \<notin> set a \<and> x \<notin> set b"
  proof (induction s arbitrary: a)
    case (Cons c s)
    then show ?case by (auto split: if_splits list.splits dest!: one)
  qed simp
  show "s = a @ x # b \<and> x \<notin> set a \<and> x \<notin> set b \<Longrightarrow> split_on x s = [a, b]"
    by (auto simp: split_on_pair)
qed

text \<open>C34: A token is accepted exactly if it is a payload, a full stop and the signature of that payload
  under the secret, the payload decodes to a session with a name and one of the three roles, and the session
  has no positive expiry that has passed.\<close>

theorem parse_token_exact:
  "parse_token env m token = Inr sess \<longleftrightarrow>
     (\<exists>p raw. token = p @ CHR ''.'' # sign env m p \<and> p \<noteq> [] \<and> sign env m p \<noteq> [] \<and>
        CHR ''.'' \<notin> set p \<and> CHR ''.'' \<notin> set (sign env m p) \<and>
        b64_dec env p = Some raw \<and> session_dec env raw = Some sess \<and>
        s_user sess \<noteq> [] \<and> valid_role (s_role sess) \<and>
        (s_expires sess \<le> 0 \<or> unix_seconds (clock env) \<le> s_expires sess))"
  (is "?l \<longleftrightarrow> ?r")
proof
  assume ?l
  then obtain p sg where "split_on CHR ''.'' token = [p, sg]"
    by (auto simp: parse_token_def split: list.splits)
  with \<open>?l\<close> show ?r
    by (auto simp: parse_token_def split_on_pair_iff split: if_splits option.splits)
next
  assume ?r
  then show ?l by (auto simp: parse_token_def split_on_pair)
qed

text \<open>What \<open>encoding/base64\<close>, \<open>encoding/json\<close> and \<open>crypto/hmac\<close> promise about a session.\<close>

definition session_law :: "session_env \<Rightarrow> bool" where
  "session_law env \<longleftrightarrow>
     (\<forall>x. CHR ''.'' \<notin> set (b64_enc env x) \<and> (b64_enc env x = [] \<longleftrightarrow> x = []) \<and>
          b64_dec env (b64_enc env x) = Some x) \<and>
     (\<forall>s p. hmac_sha256 env s p \<noteq> []) \<and>
     (\<forall>sess raw. session_enc env sess = Some raw \<longrightarrow> raw \<noteq> [] \<and> session_dec env raw = Some sess)"

lemma issue_parse:
  assumes "session_law env" "issue env m n r v = Inr (token, sess)" "n \<noteq> []" "valid_role r"
    and "has_persistent_session r \<or> unix_seconds t \<le> s_expires sess"
  shows "parse_token (env\<lparr>clock := t\<rparr>) m token = Inr sess"
proof -
  from assms(2) obtain raw where raw: "session_enc env sess = Some raw"
      "token = b64_enc env raw @ CHR ''.'' # sign env m (b64_enc env raw)"
      "s_user sess = n" "s_role sess = r" "has_persistent_session r \<Longrightarrow> s_expires sess = - 1"
    by (auto simp: issue_def Let_def session_never_expires_def split: option.splits if_splits)
  have law: "raw \<noteq> []" "session_dec env raw = Some sess" "b64_dec env (b64_enc env raw) = Some raw"
      "CHR ''.'' \<notin> set (b64_enc env x)" "b64_enc env x = [] \<longleftrightarrow> x = []" "hmac_sha256 env s p \<noteq> []" for x s p
    using assms(1) raw(1) by (simp_all add: session_law_def)
  have "s_expires sess \<le> 0 \<or> unix_seconds t \<le> s_expires sess" using assms(5) raw(5) by auto
  then show ?thesis
    unfolding parse_token_exact using raw law assms(3,4)
    by (intro exI [of _ "b64_enc env raw"] exI [of _ raw]) (simp add: sign_def)
qed

lemma issue_session:
  assumes "issue env m n r v = Inr (token, sess)"
  shows "s_user sess = n" "s_role sess = r" "s_version sess = v" "s_sid sess = fresh_sid env"
    and "s_expires sess = (if has_persistent_session r then - 1 else unix_seconds (clock env + sm_ttl m))"
  using assms by (auto simp: issue_def Let_def session_never_expires_def split: option.splits)

section \<open>Live sessions\<close>

text \<open>
  What \<^verbatim>\<open>LiveSession\<close> relies on: both methods know the same accounts, and the spelling of a name
  does not matter.
\<close>

locale user_lookup =
  fixes get :: "string \<Rightarrow> user_public option" and version :: "string \<Rightarrow> u64 option"
  assumes same_accounts: "get n = None \<longleftrightarrow> version n = None"
    and same_name: "user_key n = user_key n' \<Longrightarrow> get n = get n' \<and> version n = version n'"
begin

lemma live_iff:
  "live_session (Some (get, version)) sess = Some live \<longleftrightarrow>
     (\<exists>pub. get (s_user sess) = Some pub \<and> version (s_user sess) = Some (s_version sess) \<and>
        live = sess\<lparr>s_role := p_role pub\<rparr> \<and>
        (s_expires sess = session_never_expires \<longrightarrow> has_persistent_session (p_role pub)))"
  using same_accounts [of "s_user sess"]
  by (auto simp: live_session_def Let_def split: option.splits)

lemma live_spelling:
  assumes "user_key n = user_key (s_user sess)"
  shows "(live_session (Some (get, version)) (sess\<lparr>s_user := n\<rparr>) = None) =
    (live_session (Some (get, version)) sess = None)"
  using same_name [OF assms] by (auto simp: live_session_def Let_def split: option.splits)

lemma dead_unknown: "get (s_user sess) = None \<Longrightarrow> live_session (Some (get, version)) sess = None"
  by (simp add: live_session_def)

lemma dead_stamp:
  "version (s_user sess) \<noteq> Some (s_version sess) \<Longrightarrow> live_session (Some (get, version)) sess = None"
  by (auto simp: live_session_def Let_def split: option.splits)

end

interpretation accounts: user_lookup "get_user st" "session_version st" for st
  by unfold_locales (auto simp: get_user_def session_version_def find_user_def split: option.splits)

text \<open>A session is live exactly if its account exists and has the stamp of the session, and a session
  that never expires only while the account has the dashboard role; the live session has the present role of the
  account, not the role in the cookie.\<close>

theorem live_session_correct:
  "live_session (Some (store_lookup st)) sess = Some live \<longleftrightarrow>
     (\<exists>u. find_user st (s_user sess) = Some u \<and> u_session u = s_version sess \<and>
        live = sess\<lparr>s_role := u_role u\<rparr> \<and>
        (s_expires sess = - 1 \<longrightarrow> u_role u = role_dashboard))"
  unfolding store_lookup_def accounts.live_iff
  by (auto simp: get_user_def session_version_def public_def session_never_expires_def
      has_persistent_session_def split: option.splits)

text \<open>C31: Changing or resetting a password and ending all sessions revoke every session issued before: after
  any run of operations with at least one such operation on the account, and fewer than \<open>2^64\<close> of
  them, and without a deletion of it, no session with the earlier stamp is live, under any spelling of the
  name; a failed write of the file does not keep a session alive.\<close>

theorem revoked_sessions_dead:
  assumes "gm_get (us_users st) (user_key n) = Some u" "u_session u = s_version sess"
    and "user_key (s_user sess) = user_key n"
    and "list_all (\<lambda>(env, op). \<not> deletes op (user_key n)) ops"
    and "0 < revocations (user_key n) ops (st, d)" "revocations (user_key n) ops (st, d) < 2 ^ 64"
  shows "live_session (Some (store_lookup (fst (run_users ops (st, d))))) sess = None"
proof -
  let ?k = "revocations (user_key n) ops (st, d)"
  obtain u' where u': "gm_get (us_users (fst (run_users ops (st, d)))) (user_key n) = Some u'"
      "u_session u' = u_session u + of_nat ?k"
    using run_stamp [of "(st, d)" "user_key n"] assms(1,4) by auto
  have "of_nat ?k \<noteq> (0 :: u64)"
    using assms(5,6) by (simp add: word_of_nat_eq_0_iff nat_dvd_not_less)
  with u' assms(2,3) show ?thesis
    unfolding store_lookup_def
    by (intro accounts.dead_stamp) (auto simp: session_version_def find_user_def)
qed

section \<open>The service\<close>

lemma issued_session_live:
  assumes "users_wf st" "session_law senv" "find_user st n = Some v"
    "issue senv m (u_name v) (u_role v) (u_session v) = Inr (token, sess)"
    and "0 \<le> unix_seconds (clock senv + sm_ttl m)"
    and "has_persistent_session (s_role sess) \<or> unix_seconds t \<le> s_expires sess"
  shows "parse_token (senv\<lparr>clock := t\<rparr>) m token = Inr sess
    \<and> live_session (Some (store_lookup st)) sess = Some sess
    \<and> (\<forall>other. user_key (s_user other) = user_key n \<longrightarrow> s_version other \<noteq> s_version sess \<longrightarrow>
         live_session (Some (store_lookup st)) other = None)"
proof -
  note f = issue_session [OF assms(4)]
  have ok: "user_key n = to_lower (u_name v)" "username_ok (u_name v)" "valid_role (u_role v)"
    using find_user_wf [OF assms(1) assms(3)] by (auto simp: user_ok_def)
  have found: "find_user st (u_name v) = Some v"
    using assms(3) ok by (simp add: find_user_def)
  have "parse_token (senv\<lparr>clock := t\<rparr>) m token = Inr sess"
    using issue_parse [OF assms(2) assms(4)] username_nonempty [OF ok(2)] ok(3) assms(6) f by auto
  moreover have "live_session (Some (store_lookup st)) sess = Some sess"
    unfolding live_session_correct using found f ok(3) assms(5)
    by (auto simp: has_persistent_session_def split: if_splits)
  moreover have "live_session (Some (store_lookup st)) other = None"
    if "user_key (s_user other) = user_key n" "s_version other \<noteq> s_version sess" for other
    unfolding store_lookup_def
    using that assms(3) f by (intro accounts.dead_stamp) (auto simp: session_version_def find_user_def)
  ultimately show ?thesis by blast
qed

text \<open>A login with a right password gives a cookie that the same server accepts until its expiry (for ever
  with the dashboard role; the clock is after 1970) and whose session is live with the account's role, until the account changes; the
  same holds for the cookie that a change of password answers with, while every session with another stamp is
  dead from then on.\<close>

theorem login_session_live:
  assumes "users_wf st" "session_law senv"
    and "login env senv (Some st) (Some m) n p = Inr (u, token, sess)
      \<or> service_change_password env senv (Some m) n old p st0 d0 = (Inr (pub, token, sess), st, d)"
    and "0 \<le> unix_seconds (clock senv + sm_ttl m)"
    and "has_persistent_session (s_role sess) \<or> unix_seconds t \<le> s_expires sess"
  shows "parse_token (senv\<lparr>clock := t\<rparr>) m token = Inr sess
    \<and> live_session (Some (store_lookup st)) sess = Some sess
    \<and> (\<forall>other. user_key (s_user other) = user_key n \<longrightarrow> s_version other \<noteq> s_version sess \<longrightarrow>
         live_session (Some (store_lookup st)) other = None)"
proof -
  obtain v where v: "find_user st n = Some v"
      "issue senv m (u_name v) (u_role v) (u_session v) = Inr (token, sess)"
  proof -
    consider "login env senv (Some st) (Some m) n p = Inr (u, token, sess)"
      | "service_change_password env senv (Some m) n old p st0 d0 = (Inr (pub, token, sess), st, d)"
      using assms(3) by blast
    then show thesis
    proof cases
      case 1
      then show thesis
        using that by (auto simp: login_def authenticate_def split: option.splits if_splits sum.splits)
    next
      case 2
      then obtain sv where a: "change_password env n old p st0 d0 = (Inr pub, st, d)"
          "session_version st n = Some sv" "issue senv m (p_name pub) (p_role pub) sv = Inr (token, sess)"
        by (auto simp: service_change_password_def split: option.splits sum.splits prod.splits)
      have "\<exists>w. find_user st n = Some w \<and> pub = public w"
        using a(1) by (auto simp: change_password_def dest!: save_user_Inr split: step_splits)
      with a(2,3) that show thesis
        by (auto simp: session_version_def public_def)
    qed
  qed
  show ?thesis by (rule issued_session_live [OF assms(1,2) v assms(4,5)])
qed

text \<open>Deleting an account does not end its sessions for good: when an account of the same name is created
  again, its stamp starts at zero, so that every cookie of the deleted account that carried the stamp zero is live
  again, with the role of the new account.\<close>

theorem deleted_session_revives:
  assumes "create_user env n p ro fn must st d = (Inr pub, st', d')"
    and "user_key (s_user sess) = user_key n" "s_version sess = 0"
    and "s_expires sess \<noteq> - 1"
  shows "live_session (Some (store_lookup st')) sess = Some (sess\<lparr>s_role := ro\<rparr>)"
proof -
  obtain fn' h where "add_user (new_user (trim_space n) fn' h ro must (now_text env)) st = Inr st'"
    using assms(1) by (rule create_user_Inr)
  then have "find_user st' (s_user sess) = Some (new_user (trim_space n) fn' h ro must (now_text env))"
    using add_user_key(1) assms(2) by (metis find_put)
  with assms(3,4) show ?thesis unfolding live_session_correct by (auto simp: new_user_def)
qed

section \<open>The registry\<close>

definition reg_ok :: "registry \<Rightarrow> bool" where
  "reg_ok reg \<longleftrightarrow> gm_ok (rg_by_id reg)"

datatype reg_op =
    Register session_record
  | Has_session string
  | Touch string
  | Revoke string
  | Revoke_user string
  | List_sessions

fun reg_step :: "registry_env \<Rightarrow> reg_op \<Rightarrow> registry \<times> disk \<Rightarrow> registry \<times> disk" where
  "reg_step env (Register rec) (reg, d) = snd (register env rec reg d)"
| "reg_step env (Has_session sid) (reg, d) = (snd (has_session env sid reg), d)"
| "reg_step env (Touch sid) (reg, d) = touch env sid reg d"
| "reg_step env (Revoke sid) (reg, d) = snd (snd (revoke env sid reg d))"
| "reg_step env (Revoke_user n) (reg, d) = snd (snd (revoke_user env n reg d))"
| "reg_step env List_sessions (reg, d) = (snd (list_sessions env reg), d)"

fun run_reg :: "(registry_env \<times> reg_op) list \<Rightarrow> registry \<times> disk \<Rightarrow> registry \<times> disk" where
  "run_reg [] s = s"
| "run_reg ((env, op) # ops) s = run_reg ops (reg_step env op s)"

lemma prune_ok: "reg_ok reg \<Longrightarrow> reg_ok (prune_expired now reg)"
  by (simp add: reg_ok_def prune_expired_def Let_def)

lemma prune_get: "reg_ok reg \<Longrightarrow> gm_get (rg_by_id (prune_expired now reg)) k =
    (case gm_get (rg_by_id reg) k of None \<Rightarrow> None | Some rec \<Rightarrow> if record_expired now rec then None else Some rec)"
  by (simp add: reg_ok_def prune_expired_def Let_def gm_get_filter split: option.splits)

lemma fold_drop_get: "gm_get (rg_by_id (fold drop_session ids reg)) k =
    (if k \<in> set ids then None else gm_get (rg_by_id reg) k)"
  by (induction ids arbitrary: reg) (auto simp: drop_session_def)

lemma fold_drop_ok: "reg_ok reg \<Longrightarrow> reg_ok (fold drop_session ids reg)"
  by (induction ids arbitrary: reg) (auto simp: drop_session_def reg_ok_def)

lemma filtered_keys:
  assumes "gm_ok m"
  shows "k \<in> set (map fst (filter (\<lambda>(i, v). P v) m)) \<longleftrightarrow> (\<exists>v. gm_get m k = Some v \<and> P v)"
  using gm_get_in [OF assms] by force

lemma revoke_user_get:
  assumes "reg_ok reg"
  shows "gm_get (rg_by_id (fst (snd (snd (revoke_user env n reg d))))) k =
    (case gm_get (rg_by_id reg) k of None \<Rightarrow> None
     | Some rec \<Rightarrow> if trim_space n \<noteq> [] \<and> equal_fold (r_user rec) (trim_space n) then None else Some rec)"
proof -
  let ?ids = "map fst (filter (\<lambda>(i, rec). equal_fold (r_user rec) (trim_space n)) (rg_by_id reg))"
  have k: "k \<in> set ?ids \<longleftrightarrow> (\<exists>rec. gm_get (rg_by_id reg) k = Some rec \<and> equal_fold (r_user rec) (trim_space n))"
    by (rule filtered_keys) (use assms in \<open>simp add: reg_ok_def\<close>)
  have "fst (snd (snd (revoke_user env n reg d))) =
      (if trim_space n = [] then reg else fold drop_session ?ids reg)"
    by (simp add: revoke_user_def Let_def split: prod.splits)
  then show ?thesis using k by (auto simp: fold_drop_get split: option.splits)
qed

lemmas reg_defs = register_def has_session_def touch_def revoke_def revoke_user_def list_sessions_def Let_def

lemma reg_step_ok: "reg_ok reg \<Longrightarrow> reg_ok (fst (reg_step env op (reg, d)))"
  by (cases op) (auto simp: reg_defs prune_ok fold_drop_ok [unfolded reg_ok_def] prune_ok [unfolded reg_ok_def] drop_session_def
      reg_ok_def split: prod.splits option.splits)

text \<open>What a step does to the record of one session.\<close>

fun registers :: "reg_op \<Rightarrow> string \<Rightarrow> bool" where
  "registers (Register rec) sid \<longleftrightarrow> r_id rec = sid"
| "registers _ sid \<longleftrightarrow> False"

fun drops :: "reg_op \<Rightarrow> string \<Rightarrow> string \<Rightarrow> bool" where
  "drops (Revoke s) sid n \<longleftrightarrow> trim_space s = sid"
| "drops (Revoke_user m) sid n \<longleftrightarrow> equal_fold n (trim_space m)"
| "drops _ sid n \<longleftrightarrow> False"

lemma reg_step_absent:
  assumes "reg_ok reg" "gm_get (rg_by_id reg) sid = None" "\<not> registers op sid"
  shows "gm_get (rg_by_id (fst (reg_step env op (reg, d)))) sid = None"
  using assms by (cases op)
    (auto simp: reg_defs prune_get fold_drop_get drop_session_def split: prod.splits option.splits)

lemma reg_step_present:
  assumes "reg_ok reg" "gm_get (rg_by_id reg) sid = Some rec" "\<not> registers op sid"
    and "\<not> drops op sid (r_user rec)" "\<not> record_expired (rg_now env) rec"
  shows "\<exists>rec'. gm_get (rg_by_id (fst (reg_step env op (reg, d)))) sid = Some rec'
    \<and> r_user rec' = r_user rec \<and> r_expires rec' = r_expires rec"
proof (cases op)
  case (Revoke_user m)
  with assms show ?thesis by (simp add: revoke_user_get)
qed (use assms in \<open>auto simp: reg_defs prune_get drop_session_def split: prod.splits option.splits\<close>)

lemma run_reg_absent:
  assumes "reg_ok reg" "gm_get (rg_by_id reg) sid = None" "list_all (\<lambda>(env, op). \<not> registers op sid) ops"
  shows "reg_ok (fst (run_reg ops (reg, d))) \<and> gm_get (rg_by_id (fst (run_reg ops (reg, d)))) sid = None"
  using assms
proof (induction ops arbitrary: reg d)
  case (Cons a ops)
  obtain env op where a: "a = (env, op)" by (cases a)
  obtain reg' d' where s: "reg_step env op (reg, d) = (reg', d')" by (cases "reg_step env op (reg, d)")
  show ?case
    using Cons a s reg_step_ok [of reg env op d] reg_step_absent [of reg sid op env d] by auto
qed simp

lemma run_reg_present:
  assumes "reg_ok reg" "gm_get (rg_by_id reg) sid = Some rec"
    and "list_all (\<lambda>(env, op). \<not> registers op sid \<and> \<not> drops op sid (r_user rec) \<and>
      \<not> record_expired (rg_now env) rec) ops"
  shows "\<exists>rec'. reg_ok (fst (run_reg ops (reg, d))) \<and>
    gm_get (rg_by_id (fst (run_reg ops (reg, d)))) sid = Some rec' \<and>
    r_user rec' = r_user rec \<and> r_expires rec' = r_expires rec"
  using assms
proof (induction ops arbitrary: reg d rec)
  case (Cons a ops)
  obtain env op where a: "a = (env, op)" by (cases a)
  obtain reg' d' where s: "reg_step env op (reg, d) = (reg', d')" by (cases "reg_step env op (reg, d)")
  from Cons.prems a s reg_step_present [of reg sid rec op env d] obtain rec1 where
    r1: "gm_get (rg_by_id reg') sid = Some rec1" "r_user rec1 = r_user rec" "r_expires rec1 = r_expires rec"
    by auto
  have ok: "reg_ok reg'" using reg_step_ok [of reg env op d] s Cons.prems(1) by simp
  have "list_all (\<lambda>(env, op). \<not> registers op sid \<and> \<not> drops op sid (r_user rec1) \<and>
      \<not> record_expired (rg_now env) rec1) ops"
    using Cons.prems(3) r1(2,3) by (auto simp: list_all_iff record_expired_def)
  from Cons.IH [OF ok r1(1) this, of d'] r1 a s show ?case by simp
qed simp

text \<open>A revoked session stays out: after \<open>Revoke\<close> of a session id, or \<open>RevokeUser\<close> of
  the user it belongs to, no run of the registry's operations that does not register the id again makes it present,
  and no request with it is accepted, whatever the account store says.\<close>

theorem revoked_stays_out:
  assumes "reg_ok reg" "sid = trim_space sid"
    and "revoke env sid reg d = (was, ok, reg1, d1)
      \<or> revoke_user env n reg d = (gone, ok, reg1, d1) \<and> trim_space n \<noteq> [] \<and>
        (\<forall>rec. gm_get (rg_by_id reg) sid = Some rec \<longrightarrow> equal_fold (r_user rec) (trim_space n))"
    and "list_all (\<lambda>(env, op). \<not> registers op sid) ops" "trim_space (s_sid sess) = sid"
  shows "\<not> fst (has_session env2 sid (fst (run_reg ops (reg1, d1))))
    \<and> fst (live_session_checked env2 users (Some (fst (run_reg ops (reg1, d1)))) sess d2) = None"
proof -
  have r1: "reg_ok reg1 \<and> (sid \<noteq> [] \<longrightarrow> gm_get (rg_by_id reg1) sid = None)"
  proof -
    have "reg1 = fst (reg_step env (Revoke sid) (reg, d)) \<or> reg1 = fst (reg_step env (Revoke_user n) (reg, d))"
      using assms(3) by auto
    then have "reg_ok reg1" using reg_step_ok [OF assms(1)] by blast
    moreover have "gm_get (rg_by_id reg1) sid = None" if "sid \<noteq> []"
      using assms(3)
    proof
      assume "revoke env sid reg d = (was, ok, reg1, d1)"
      with assms(2) that show ?thesis
        by (cases "gm_get (rg_by_id reg) sid")
          (auto simp: revoke_def Let_def drop_session_def split: prod.splits)
    next
      assume "revoke_user env n reg d = (gone, ok, reg1, d1) \<and> trim_space n \<noteq> [] \<and>
        (\<forall>rec. gm_get (rg_by_id reg) sid = Some rec \<longrightarrow> equal_fold (r_user rec) (trim_space n))"
      then show ?thesis using revoke_user_get [OF assms(1), of env n d sid]
        by (auto split: option.splits)
    qed
    ultimately show ?thesis by blast
  qed
  show ?thesis
  proof (cases "sid = []")
    case True
    with assms(5) show ?thesis
      by (auto simp: has_session_def live_session_checked_def split: option.splits)
  next
    case False
    with r1 run_reg_absent [OF _ _ assms(4), of reg1 d1]
    have "reg_ok (fst (run_reg ops (reg1, d1)))" "gm_get (rg_by_id (fst (run_reg ops (reg1, d1)))) sid = None"
      by auto
    then have "\<not> fst (has_session env2 s (fst (run_reg ops (reg1, d1))))" if "trim_space s = sid" for s
      using that by (simp add: has_session_def Let_def prune_get)
    from this [of "s_sid sess"] this [of sid] assms(2,5) show ?thesis
      by (auto simp: live_session_checked_def split: option.splits prod.splits)
  qed
qed

text \<open>A registered session is present exactly until its expiry, whatever else happens in the registry, as
  long as it is not revoked or registered again and its id has no space around it.\<close>

theorem registered_until_expiry:
  assumes "reg_ok reg" "register env rec reg d = (ok, reg1, d1)"
    and "r_id rec \<noteq> []" "trim_space (r_id rec) = r_id rec"
    and "list_all (\<lambda>(env, op). \<not> registers op (r_id rec) \<and> \<not> drops op (r_id rec) (r_user rec) \<and>
      \<not> record_expired (rg_now env) rec) ops"
  shows "fst (has_session env2 (r_id rec) (fst (run_reg ops (reg1, d1)))) \<longleftrightarrow>
    r_expires rec = 0 \<or> rg_now env2 \<le> r_expires rec"
proof -
  obtain rec1 where r1: "gm_get (rg_by_id reg1) (r_id rec) = Some rec1" "r_user rec1 = r_user rec"
      "r_expires rec1 = r_expires rec"
    using assms(2-4) by (auto simp: register_def Let_def split: prod.splits if_splits)
  have "reg_ok reg1" using reg_step_ok [OF assms(1), of env "Register rec" d] assms(2) by simp
  moreover have "list_all (\<lambda>(env, op). \<not> registers op (r_id rec) \<and> \<not> drops op (r_id rec) (r_user rec1) \<and>
      \<not> record_expired (rg_now env) rec1) ops"
    using assms(5) r1(2,3) by (simp add: record_expired_def)
  ultimately obtain rec2 where "reg_ok (fst (run_reg ops (reg1, d1)))"
      "gm_get (rg_by_id (fst (run_reg ops (reg1, d1)))) (r_id rec) = Some rec2" "r_expires rec2 = r_expires rec"
    using run_reg_present [OF _ r1(1), of ops d1] r1 by auto
  with assms(3,4) show ?thesis
    by (auto simp: has_session_def Let_def prune_get record_expired_def)
qed

section \<open>Concrete sessions\<close>

definition hex_enc :: "string \<Rightarrow> string" where
  "hex_enc s = concat (map (\<lambda>c. [byte (97 + code c div 16), byte (97 + code c mod 16)]) s)"

fun hex_dec :: "string \<Rightarrow> string option" where
  "hex_dec [] = Some []"
| "hex_dec [a] = None"
| "hex_dec (a # b # s) =
     (case hex_dec s of None \<Rightarrow> None | Some r \<Rightarrow> Some (byte ((code a - 97) * 16 + (code b - 97)) # r))"

lemma hex_roundtrip: "hex_dec (hex_enc s) = Some s"
proof (induction s)
  case (Cons c s)
  have "code c div 16 < 16" using code_less [of c] by (intro less_mult_imp_div_less) simp
  then have "(97 + code c div 16) mod 256 = 97 + code c div 16" by simp
  moreover have "(97 + code c mod 16) mod 256 = 97 + code c mod 16" by (simp add: mod_less)
  ultimately show ?case using Cons by (simp add: hex_enc_def)
qed (simp add: hex_enc_def)

lemma hex_digit_no_dot: "n < 16 \<Longrightarrow> byte (97 + n) \<noteq> CHR ''.''"
proof
  assume "n < 16" "byte (97 + n) = CHR ''.''"
  then have "code CHR ''.'' = (97 + n) mod 256" by (metis code_byte)
  with \<open>n < 16\<close> show False by (simp add: code_def)
qed

lemma hex_enc_chars: "CHR ''.'' \<notin> set (hex_enc s)"
proof (induction s)
  case (Cons c s)
  have "code c div 16 < 16" using code_less [of c] by (intro less_mult_imp_div_less) simp
  with Cons hex_digit_no_dot [of "code c div 16"] hex_digit_no_dot [of "code c mod 16"]
  show ?case by (auto simp: hex_enc_def)
qed (simp add: hex_enc_def)

definition demo_session :: session where
  "demo_session = \<lparr>s_user = ''bob'', s_role = ''administrator'', s_expires = 100, s_version = 0, s_sid = ''f0''\<rparr>"

definition demo_senv :: session_env where
  "demo_senv = \<lparr>b64_enc = hex_enc, b64_dec = hex_dec, hmac_sha256 = (\<lambda>s p. ''k''),
     session_enc = (\<lambda>s. if s = demo_session then Some ''j'' else None),
     session_dec = (\<lambda>j. if j = ''j'' then Some demo_session else None),
     clock = time_unix 40, fresh_sid = ''f0''\<rparr>"

lemma demo_session_law: "session_law demo_senv"
  by (auto simp: session_law_def demo_senv_def hex_roundtrip hex_enc_chars split: if_splits)
    (auto simp: hex_enc_def)

theorem login_session_live_witness:
  "\<exists>u token. login demo_env demo_senv (Some demo_store) (Some \<lparr>sm_secret = ''s'', sm_ttl = minute\<rparr>)
      '' Bob'' ''old9password'' = Inr (u, token, demo_session)
    \<and> parse_token (demo_senv\<lparr>clock := time_unix 99\<rparr>) \<lparr>sm_secret = ''s'', sm_ttl = minute\<rparr> token = Inr demo_session
    \<and> live_session (Some (store_lookup demo_store)) demo_session = Some demo_session"
proof -
  let ?l = "login demo_env demo_senv (Some demo_store) (Some \<lparr>sm_secret = ''s'', sm_ttl = minute\<rparr>)
      '' Bob'' ''old9password''"
  have "authenticate demo_env demo_store '' Bob'' ''old9password'' = Some demo_user" by code_simp
  moreover have "issue demo_senv \<lparr>sm_secret = ''s'', sm_ttl = minute\<rparr> (u_name demo_user) (u_role demo_user)
      (u_session demo_user) = Inr (hex_enc ''j'' @ CHR ''.'' # hex_enc ''k'', demo_session)"
    by (simp add: issue_def Let_def demo_user_def demo_senv_def demo_session_def has_persistent_session_def
        role_dashboard_def unix_seconds_def time_unix_def minute_def second_def unix_epoch_def sign_def)
  ultimately obtain u token where l: "?l = Inr (u, token, demo_session)" by (simp add: login_def)
  have "0 \<le> unix_seconds (clock demo_senv + sm_ttl \<lparr>sm_secret = ''s'', sm_ttl = minute\<rparr>)"
    "unix_seconds (time_unix 99) \<le> s_expires demo_session"
    by (simp_all add: unix_seconds_def time_unix_def demo_senv_def demo_session_def minute_def second_def unix_epoch_def)
  with login_session_live [OF demo_wf(1) demo_session_law disjI1 [OF l]] l show ?thesis by blast
qed

theorem revoked_sessions_dead_witness:
  "live_session (Some (store_lookup (fst (run_users [(demo_env\<lparr>write_result := Kept\<rparr>, Bump_session ''BOB'')]
     (demo_store, \<lambda>_. None))))) demo_session = None"
proof (rule revoked_sessions_dead [where n = "''bob''" and u = demo_user])
  let ?ops = "[(demo_env\<lparr>write_result := Kept\<rparr>, Bump_session ''BOB'')]"
  show "gm_get (us_users demo_store) (user_key ''bob'') = Some demo_user" by code_simp
  show "u_session demo_user = s_version demo_session" by (simp add: demo_user_def demo_session_def)
  show "user_key (s_user demo_session) = user_key ''bob''" by (simp add: demo_session_def)
  have "revocations (user_key ''bob'') ?ops (demo_store, \<lambda>_. None) = 1" by code_simp
  then show "0 < revocations (user_key ''bob'') ?ops (demo_store, \<lambda>_. None)"
    "revocations (user_key ''bob'') ?ops (demo_store, \<lambda>_. None) < 2 ^ 64" by simp_all
qed simp

theorem deleted_session_revives_witness:
  "live_session (Some (store_lookup (fst (snd (create_user demo_env ''bob'' ''correct9horse'' ''operator'' [] False
     \<lparr>us_users = [], us_path = []\<rparr> (\<lambda>_. None)))))) demo_session = Some (demo_session\<lparr>s_role := ''operator''\<rparr>)"
proof -
  let ?r = "create_user demo_env ''bob'' ''correct9horse'' ''operator'' [] False
     \<lparr>us_users = [], us_path = []\<rparr> (\<lambda>_. None)"
  have "\<exists>p. fst ?r = Inr p" by (rule exI [of _ "projr (fst ?r)"]) code_simp
  then obtain p st' d' where r: "?r = (Inr p, st', d')" by (metis prod.collapse)
  show ?thesis
    using deleted_session_revives [OF r, of demo_session] unfolding r by (simp add: demo_session_def)
qed

definition demo_record :: session_record where
  "demo_record = \<lparr>r_id = ''f0'', r_user = ''bob'', r_role = ''administrator'', r_ip = [], r_agent = [],
     r_created = 5, r_expires = 100, r_seen = 5\<rparr>"

definition demo_renv :: registry_env where
  "demo_renv = \<lparr>records_enc = (\<lambda>_. None), records_dec = (\<lambda>_. None), sort_created = id, sort_seen = id,
     mkdir_ok = True, rg_write = Kept, rg_now = 7\<rparr>"

definition demo_registry :: registry where
  "demo_registry = \<lparr>rg_path = [], rg_by_id = [(''f0'', demo_record)], rg_touch = []\<rparr>"

theorem revoked_stays_out_witness:
  "\<not> fst (has_session demo_renv ''f0'' (fst (run_reg [(demo_renv, Touch ''f0'')]
      (snd (snd (revoke demo_renv ''f0'' demo_registry (\<lambda>_. None)))))))"
proof -
  obtain w ok reg1 d1 where r: "revoke demo_renv ''f0'' demo_registry (\<lambda>_. None) = (w, ok, reg1, d1)"
    by (metis prod.collapse)
  have a: "reg_ok demo_registry" "''f0'' = trim_space ''f0''" by code_simp+
  show ?thesis unfolding r snd_conv
    by (rule revoked_stays_out [OF a disjI1 [OF r], where sess = demo_session, THEN conjunct1])
      (simp_all add: demo_session_def a(2) [symmetric])
qed

theorem registered_until_expiry_witness:
  "fst (has_session (demo_renv\<lparr>rg_now := 100\<rparr>) ''f0'' (fst (run_reg [(demo_renv, Touch ''f0'')]
      (snd (register demo_renv demo_record \<lparr>rg_path = [], rg_by_id = [], rg_touch = []\<rparr> (\<lambda>_. None))))))"
proof -
  obtain ok reg1 d1 where
    r: "register demo_renv demo_record \<lparr>rg_path = [], rg_by_id = [], rg_touch = []\<rparr> (\<lambda>_. None) = (ok, reg1, d1)"
    by (metis prod.collapse)
  have a: "reg_ok \<lparr>rg_path = [], rg_by_id = [], rg_touch = []\<rparr>" "trim_space (r_id demo_record) = r_id demo_record"
    by code_simp+
  show ?thesis unfolding r snd_conv
    using registered_until_expiry [OF a(1) r _ a(2), of "[(demo_renv, Touch ''f0'')]" "demo_renv\<lparr>rg_now := 100\<rparr>"]
    by (simp add: demo_record_def demo_renv_def record_expired_def)
qed

end
