(* ===== verification/Auth_Tokens.thy ===== *)
theory Auth_Tokens
  imports Auth_Users
begin

text \<open>
  API tokens (\<^verbatim>\<open>auth/tokens.go\<close>): named bearer tokens with a scope and an optional expiry, of which
  only the SHA-256 is kept.

  \<open>token_env\<close> holds SHA-256 in hex, the formatting and parsing of RFC 3339 times, the two random
  draws, the JSON encoder, the outcome of the write, the clock, and the order in which Go iterates over the map.
\<close>

section \<open>Scopes\<close>

definition scope_read :: string where "scope_read = ''read''"
definition scope_ops :: string where "scope_ops = ''ops''"
definition scope_admin :: string where "scope_admin = ''admin''"

lemmas scope_defs = scope_read_def scope_ops_def scope_admin_def

definition scope_rank :: "string \<Rightarrow> nat option" where
  "scope_rank = [scope_read \<mapsto> 1, scope_ops \<mapsto> 2, scope_admin \<mapsto> 3]"

definition valid_scope :: "string \<Rightarrow> bool" where
  "valid_scope s = (scope_rank s \<noteq> None)"

text \<open>A missing key of a Go map reads as zero.\<close>

definition rank_of :: "string \<Rightarrow> nat" where
  "rank_of s = (case scope_rank s of None \<Rightarrow> 0 | Some n \<Rightarrow> n)"

definition scope_at_least :: "string \<Rightarrow> string \<Rightarrow> bool" where
  "scope_at_least have_s need = (rank_of have_s \<ge> rank_of need \<and> rank_of need > 0)"

section \<open>Data\<close>

datatype token_err =
    Token_not_found | Invalid_token_name | Invalid_scope | Token_limit | Invalid_expiry
  | Empty_token_id | Invalid_hash | Duplicate_id | Random_failed | Token_path_empty
  | Token_write_failed | Token_read_failed | Token_parse_failed | Token_stat_failed

record api_token =
  t_id :: string
  t_name :: string
  t_hash :: string
  t_scope :: string
  t_created :: string
  t_expires :: string

record token_public =
  tp_id :: string
  tp_name :: string
  tp_scope :: string
  tp_created :: string
  tp_expires :: string

definition token_public_of :: "api_token \<Rightarrow> token_public" where
  "token_public_of t = \<lparr>tp_id = t_id t, tp_name = t_name t, tp_scope = t_scope t,
     tp_created = t_created t, tp_expires = t_expires t\<rparr>"

record token_store =
  ts_by_id :: "(string, api_token) go_map"
  ts_path :: string

record token_env =
  sha_hex :: "string \<Rightarrow> string"
  rfc_format :: "go_time \<Rightarrow> string"
  rfc_parse :: "string \<Rightarrow> go_time option"
  draw_secret :: "string option"
  draw_id :: "string option"
  tokens_enc :: "api_token list \<Rightarrow> string option"
  tokens_dec :: "string \<Rightarrow> api_token list option"
  tk_write :: outcome
  tk_now :: go_time
  tk_order :: "(string, api_token) go_map \<Rightarrow> (string, api_token) go_map"

definition max_api_tokens :: nat where "max_api_tokens = 64"
definition max_token_ttl :: duration where "max_token_ttl = 365 * 24 * hour"

text \<open>\<^verbatim>\<open>tokenNameRe\<close>: \<^verbatim>\<open>^[a-zA-Z0-9._\- ]{2,64}$\<close>.\<close>

definition token_name_ok :: "string \<Rightarrow> bool" where
  "token_name_ok s \<longleftrightarrow> list_all (\<lambda>c. name_char c \<or> c = CHR '' '') s \<and> 2 \<le> length s \<and> length s \<le> 64"

definition expired :: "token_env \<Rightarrow> go_time \<Rightarrow> api_token \<Rightarrow> bool" where
  "expired env now t =
     (let ex = trim_space (t_expires t) in
      if ex = [] then False
      else case rfc_parse env ex of None \<Rightarrow> True | Some ts \<Rightarrow> \<not> ts > now)"

definition normalize_expiry :: "token_env \<Rightarrow> go_time \<Rightarrow> go_time \<Rightarrow> token_err + string" where
  "normalize_expiry env expires_at now =
     (if expires_at = 0 then Inr []
      else if \<not> expires_at > now then Inl Invalid_expiry
      else if time_sub expires_at now > max_token_ttl then Inl Invalid_expiry
      else Inr (rfc_format env expires_at))"

text \<open>\<^verbatim>\<open>generateAPIToken\<close>: \<open>draw_secret\<close> is the base64 text of 32 random bytes.\<close>

definition generate_api_token :: "token_env \<Rightarrow> string option" where
  "generate_api_token env = (case draw_secret env of None \<Rightarrow> None | Some s \<Rightarrow> Some (''GA_'' @ s))"

section \<open>The store\<close>

definition persist_tokens :: "token_env \<Rightarrow> token_store \<Rightarrow> disk \<Rightarrow> bool \<times> disk" where
  "persist_tokens env st d =
     (if ts_path st = [] then (False, d)
      else write_json (tokens_enc env) (tk_write env) (ts_path st)
        (sort_by (\<lambda>t u. t_id t \<le> t_id u) (map snd (ts_by_id st))) d)"

definition add_token :: "api_token \<Rightarrow> token_store \<Rightarrow> token_err + token_store" where
  "add_token t st =
     (let i = trim_space (t_id t); name = trim_space (t_name t); scope = trim_space (t_scope t);
        hash = trim_space (t_hash t) in
      if i = [] then Inl Empty_token_id
      else if \<not> token_name_ok name then Inl Invalid_token_name
      else if \<not> valid_scope scope then Inl Invalid_scope
      else if hash = [] \<or> length hash \<noteq> 64 then Inl Invalid_hash
      else if gm_get (ts_by_id st) i \<noteq> None then Inl Duplicate_id
      else Inr (st\<lparr>ts_by_id := gm_put i
          (t\<lparr>t_id := i, t_name := name, t_scope := scope, t_hash := to_lower hash\<rparr>) (ts_by_id st)\<rparr>))"

fun add_tokens :: "api_token list \<Rightarrow> token_store \<Rightarrow> token_err + token_store" where
  "add_tokens [] st = Inr st"
| "add_tokens (t # ts) st = (case add_token t st of Inl e \<Rightarrow> Inl e | Inr st' \<Rightarrow> add_tokens ts st')"

definition load_tokens_file :: "token_env \<Rightarrow> file_read \<Rightarrow> string \<Rightarrow> token_err + token_store" where
  "load_tokens_file env r path =
     (case r of
        Data bs \<Rightarrow>
          (case tokens_dec env bs of
             None \<Rightarrow> Inl Token_parse_failed
           | Some ts \<Rightarrow> add_tokens ts \<lparr>ts_by_id = [], ts_path = path\<rparr>)
      | _ \<Rightarrow> Inl Token_read_failed)"

definition open_token_store ::
  "token_env \<Rightarrow> bool \<Rightarrow> string \<Rightarrow> disk \<Rightarrow> (token_err + token_store) \<times> disk" where
  "open_token_store env stat_fails path0 d =
     (let path = trim_space path0 in
      if path = [] then (Inl Token_path_empty, d)
      else if stat_fails then (Inl Token_stat_failed, d)
      else if d path \<noteq> None then (load_tokens_file env (disk_read d path) path, d)
      else
        let st = \<lparr>ts_by_id = [], ts_path = path\<rparr> in
        (case persist_tokens env st d of
           (True, d') \<Rightarrow> (Inr st, d')
         | (False, d') \<Rightarrow> (Inl Token_write_failed, d')))"

definition tokens_len :: "token_store \<Rightarrow> nat" where "tokens_len st = length (ts_by_id st)"

text \<open>\<^verbatim>\<open>List\<close>: newest first, then by name; \<open>srt\<close> sorts by that order.\<close>

definition token_le :: "token_public \<Rightarrow> token_public \<Rightarrow> bool" where
  "token_le p q \<longleftrightarrow>
     (if tp_created p \<noteq> tp_created q then tp_created p > tp_created q else tp_name p \<le> tp_name q)"

definition list_tokens :: "(token_public list \<Rightarrow> token_public list) \<Rightarrow> token_store \<Rightarrow> token_public list" where
  "list_tokens srt st = srt (map (\<lambda>(i, t). token_public_of t) (ts_by_id st))"

section \<open>Operations\<close>

type_synonym 'a token_result = "(token_err + 'a) \<times> token_store \<times> disk"

definition create_token ::
  "token_env \<Rightarrow> string \<Rightarrow> string \<Rightarrow> go_time \<Rightarrow> token_store \<Rightarrow> disk \<Rightarrow> (token_public \<times> string) token_result" where
  "create_token env name0 scope0 expires_at st d =
     (let name = trim_space name0; scope = trim_space scope0 in
      if \<not> token_name_ok name then (Inl Invalid_token_name, st, d)
      else if \<not> valid_scope scope then (Inl Invalid_scope, st, d)
      else case normalize_expiry env expires_at (tk_now env) of
        Inl e \<Rightarrow> (Inl e, st, d)
      | Inr ex \<Rightarrow>
          (case generate_api_token env of
             None \<Rightarrow> (Inl Random_failed, st, d)
           | Some secret \<Rightarrow>
               (case draw_id env of
                  None \<Rightarrow> (Inl Random_failed, st, d)
                | Some i \<Rightarrow>
                    let t = \<lparr>t_id = i, t_name = name, t_hash = sha_hex env secret, t_scope = scope,
                             t_created = rfc_format env (tk_now env), t_expires = ex\<rparr> in
                    if length (ts_by_id st) \<ge> max_api_tokens then (Inl Token_limit, st, d)
                    else case add_token t st of
                      Inl e \<Rightarrow> (Inl e, st, d)
                    | Inr st' \<Rightarrow>
                        (case persist_tokens env st' d of
                           (True, d') \<Rightarrow> (Inr (token_public_of t, secret), st', d')
                         | (False, d') \<Rightarrow>
                             (Inl Token_write_failed, st'\<lparr>ts_by_id := gm_del i (ts_by_id st')\<rparr>, d')))))"

definition revoke_token :: "token_env \<Rightarrow> string \<Rightarrow> token_store \<Rightarrow> disk \<Rightarrow> unit token_result" where
  "revoke_token env id0 st d =
     (let i = trim_space id0 in
      if gm_get (ts_by_id st) i = None then (Inl Token_not_found, st, d)
      else
        let st' = st\<lparr>ts_by_id := gm_del i (ts_by_id st)\<rparr> in
        (case persist_tokens env st' d of
           (True, d') \<Rightarrow> (Inr (), st', d')
         | (False, d') \<Rightarrow> (Inl Token_write_failed, st', d')))"

definition rotate_token ::
  "token_env \<Rightarrow> string \<Rightarrow> token_store \<Rightarrow> disk \<Rightarrow> (token_public \<times> string) token_result" where
  "rotate_token env id0 st d =
     (let i = trim_space id0 in
      case generate_api_token env of
        None \<Rightarrow> (Inl Random_failed, st, d)
      | Some secret \<Rightarrow>
          (case gm_get (ts_by_id st) i of
             None \<Rightarrow> (Inl Token_not_found, st, d)
           | Some t \<Rightarrow>
               if expired env (tk_now env) t then (Inl Token_not_found, st, d)
               else
                 let t' = t\<lparr>t_hash := sha_hex env secret\<rparr>;
                   st' = st\<lparr>ts_by_id := gm_put i t' (ts_by_id st)\<rparr> in
                 (case persist_tokens env st' d of
                    (True, d') \<Rightarrow> (Inr (token_public_of t', secret), st', d')
                  | (False, d') \<Rightarrow> (Inl Token_write_failed, st', d'))))"

fun verify_from :: "token_env \<Rightarrow> string \<Rightarrow> api_token list \<Rightarrow> string option" where
  "verify_from env want [] = None"
| "verify_from env want (t # ts) =
     (if length (t_hash t) \<noteq> length want then verify_from env want ts
      else if t_hash t = want then (if expired env (tk_now env) t then None else Some (t_scope t))
      else verify_from env want ts)"

definition verify :: "token_env \<Rightarrow> token_store \<Rightarrow> string \<Rightarrow> string option" where
  "verify env st plaintext0 =
     (let plaintext = trim_space plaintext0 in
      if plaintext = [] then None
      else verify_from env (sha_hex env plaintext) (map snd (tk_order env (ts_by_id st))))"

section \<open>Scopes are ordered\<close>

lemma rank_simps: "rank_of s = (if s = scope_admin then 3 else if s = scope_ops then 2 else if s = scope_read then 1 else 0)"
  by (simp add: rank_of_def scope_rank_def scope_defs)

lemma valid_scope_iff: "valid_scope s \<longleftrightarrow> s \<in> {scope_read, scope_ops, scope_admin}"
  by (auto simp: valid_scope_def scope_rank_def)

lemma scope_at_least_order:
  "scope_at_least s s \<longleftrightarrow> valid_scope s"
  "scope_at_least a b \<Longrightarrow> scope_at_least b c \<Longrightarrow> scope_at_least a c"
  "scope_at_least a b \<Longrightarrow> scope_at_least b a \<Longrightarrow> a = b"
  "valid_scope a \<Longrightarrow> valid_scope b \<Longrightarrow> scope_at_least a b \<or> scope_at_least b a"
  by (auto simp: scope_at_least_def rank_simps valid_scope_iff scope_defs split: if_splits)

section \<open>The invariant of the store\<close>

text \<open>SHA-256 in hex is 64 lower-case characters without space, whatever it is taken of.\<close>

definition hash_char :: "char \<Rightarrow> bool" where
  "hash_char c \<longleftrightarrow> is_digit c \<or> 97 \<le> code c \<and> code c \<le> 102"

definition sha_law :: "token_env \<Rightarrow> bool" where
  "sha_law env \<longleftrightarrow> (\<forall>p. length (sha_hex env p) = 64 \<and> list_all hash_char (sha_hex env p))"

definition token_ok :: "api_token \<Rightarrow> bool" where
  "token_ok t \<longleftrightarrow> token_name_ok (t_name t) \<and> valid_scope (t_scope t) \<and> length (t_hash t) = 64"

definition tokens_wf :: "token_store \<Rightarrow> bool" where
  "tokens_wf st \<longleftrightarrow> gm_ok (ts_by_id st) \<and> length (ts_by_id st) \<le> max_api_tokens \<and>
     list_all (\<lambda>(i, t). i = t_id t \<and> token_ok t) (ts_by_id st)"

lemma hash_trim: "list_all hash_char h \<Longrightarrow> trim_space h = h"
  by (intro list_all_trim) (auto simp: list_all_iff hash_char_def plain_def is_digit_def)

lemma hash_lower: "list_all hash_char h \<Longrightarrow> to_lower h = h"
proof -
  assume h: "list_all hash_char h"
  then have "to_lower h = map (\<lambda>c. if 65 \<le> code c \<and> code c \<le> 90 then byte (code c + 32) else c) h"
    by (intro to_lower_ascii) (auto simp: list_all_iff hash_char_def is_digit_def)
  also have "\<dots> = h"
    using h by (intro map_idI) (auto simp: list_all_iff hash_char_def is_digit_def)
  finally show ?thesis .
qed

section \<open>Every operation keeps the invariant\<close>

datatype token_op =
    Create_token string string go_time
  | Revoke_token string
  | Rotate_token string

fun token_step :: "token_env \<Rightarrow> token_op \<Rightarrow> token_store \<times> disk \<Rightarrow> token_store \<times> disk" where
  "token_step env (Create_token n s e) (st, d) = snd (create_token env n s e st d)"
| "token_step env (Revoke_token i) (st, d) = snd (revoke_token env i st d)"
| "token_step env (Rotate_token i) (st, d) = snd (rotate_token env i st d)"

definition put_token :: "string \<Rightarrow> api_token \<Rightarrow> token_store \<Rightarrow> token_store" where
  "put_token i t st = st\<lparr>ts_by_id := gm_put i t (ts_by_id st)\<rparr>"

definition del_token :: "string \<Rightarrow> token_store \<Rightarrow> token_store" where
  "del_token i st = st\<lparr>ts_by_id := gm_del i (ts_by_id st)\<rparr>"

lemma add_token_Inr:
  assumes "add_token t st = Inr st'"
  obtains t' where "st' = put_token (trim_space (t_id t)) t' st" "t_id t' = trim_space (t_id t)" "token_ok t'"
    "gm_get (ts_by_id st) (trim_space (t_id t)) = None" "t_expires t' = t_expires t"
    "t_scope t' = trim_space (t_scope t)" "t_hash t' = to_lower (trim_space (t_hash t))"
  using assms by (auto simp: add_token_def Let_def put_token_def token_ok_def split: if_splits)

lemma gm_put_set: "x \<in> set (gm_put k v m) \<Longrightarrow> x = (k, v) \<or> x \<in> set m"
  by (induction m) (auto split: if_splits)

lemma length_gm_put_present: "gm_get m k \<noteq> None \<Longrightarrow> length (gm_put k v m) = length m"
  by (induction m) (auto split: if_splits)

lemma length_gm_del_le: "length (gm_del k m) \<le> length m"
  by (induction m) auto

lemma tokens_wfD: "tokens_wf st \<Longrightarrow> gm_get (ts_by_id st) i = Some t \<Longrightarrow> i = t_id t \<and> token_ok t"
  by (auto simp: tokens_wf_def gm_get_in list_all_iff)

lemma put_token_wf:
  assumes "tokens_wf st" "t_id t = i" "token_ok t"
    and "length (ts_by_id st) < max_api_tokens \<or> gm_get (ts_by_id st) i \<noteq> None"
  shows "tokens_wf (put_token i t st)"
proof -
  have "length (gm_put i t (ts_by_id st)) \<le> max_api_tokens"
    using assms(1,4) length_gm_put_le [of i t "ts_by_id st"] length_gm_put_present [of "ts_by_id st" i t]
    by (auto simp: tokens_wf_def simp del: not_None_eq)
  with assms show ?thesis
    by (auto simp: tokens_wf_def put_token_def list_all_iff dest: gm_put_set)
qed

lemma del_token_wf: "tokens_wf st \<Longrightarrow> tokens_wf (del_token i st)"
  using length_gm_del_le [of i "ts_by_id st"]
  by (auto simp: tokens_wf_def del_token_def list_all_iff dest: gm_del_subset)

lemma create_token_store:
  assumes "snd (create_token env n s e st d) = (st', d')"
  shows "st' = st \<or> (\<exists>i t. st' = put_token i t st \<and> t_id t = i \<and> token_ok t \<and> length (ts_by_id st) < max_api_tokens)
    \<or> (\<exists>i t j. st' = del_token j (put_token i t st) \<and> t_id t = i \<and> token_ok t \<and> length (ts_by_id st) < max_api_tokens)"
proof -
  have *: "\<exists>i t'. st1 = put_token i t' st \<and> t_id t' = i \<and> token_ok t'" if "add_token t st = Inr st1" for t st1
    using that by (rule add_token_Inr) (metis (no_types))
  show ?thesis
    using assms *
    by (auto simp: create_token_def Let_def del_token_def [symmetric] not_le split: option.splits if_splits sum.splits prod.splits bool.splits)
      blast+
qed

lemma token_step_wf:
  assumes "tokens_wf st" "sha_law env" "token_step env op (st, d) = (st', d')"
  shows "tokens_wf st'"
proof (cases op)
  case (Create_token n s e)
  with assms(3) have "snd (create_token env n s e st d) = (st', d')" by simp
  from create_token_store [OF this] assms(1) show ?thesis
    by (auto intro!: put_token_wf del_token_wf)
next
  case (Revoke_token i)
  with assms have "st' = st \<or> st' = del_token (trim_space i) st"
    by (auto simp: revoke_token_def Let_def del_token_def split: if_splits prod.splits bool.splits)
  with assms(1) show ?thesis by (auto intro: del_token_wf)
next
  case (Rotate_token i)
  with assms(3) have "st' = st \<or> (\<exists>t secret. gm_get (ts_by_id st) (trim_space i) = Some t \<and>
      st' = put_token (trim_space i) (t\<lparr>t_hash := sha_hex env secret\<rparr>) st)"
    by (auto simp: rotate_token_def Let_def put_token_def split: option.splits if_splits prod.splits bool.splits)
  with assms(1,2) tokens_wfD [OF assms(1)] show ?thesis
    by (auto simp: token_ok_def sha_law_def intro!: put_token_wf)
qed

definition tokens_init :: "token_store \<times> disk \<Rightarrow> bool" where
  "tokens_init s \<longleftrightarrow> tokens_wf (fst s)"

definition tokens_trans :: "token_store \<times> disk \<Rightarrow> token_store \<times> disk \<Rightarrow> bool" where
  "tokens_trans s s' \<longleftrightarrow> (\<exists>env op. sha_law env \<and> token_step env op s = s')"

interpretation token_sys: invariant_system tokens_init tokens_trans tokens_init
proof
  show "tokens_init s \<Longrightarrow> tokens_trans s s' \<Longrightarrow> tokens_init s'" for s s'
    by (cases s; cases s') (auto simp: tokens_init_def tokens_trans_def intro: token_step_wf)
qed

text \<open>C36: The token store never holds more than 64 tokens, each under its own id, with a well-formed name, one
  of the three scopes and a hash of 64 characters, in every state that the operations can reach from a well-formed
  one.\<close>

theorem tokens_wf_reachable:
  assumes "tokens_trans\<^sup>*\<^sup>* (st, d) (st', d')" "tokens_wf st"
  shows "tokens_wf st' \<and> tokens_len st' \<le> 64
    \<and> (\<forall>i t. gm_get (ts_by_id st') i = Some t \<longrightarrow>
         i = t_id t \<and> token_name_ok (t_name t) \<and> valid_scope (t_scope t) \<and> length (t_hash t) = 64)"
proof -
  have "tokens_init (st', d')"
    using token_sys.steps_inv [OF assms(1)] assms(2) by (simp add: tokens_init_def)
  then have wf: "tokens_wf st'" by (simp add: tokens_init_def)
  with tokens_wfD [OF wf] show ?thesis
    by (auto simp: tokens_wf_def token_ok_def tokens_len_def max_api_tokens_def)
qed

section \<open>Verification\<close>

definition one_hash :: "token_store \<Rightarrow> bool" where
  "one_hash st \<longleftrightarrow> (\<forall>i j t u. gm_get (ts_by_id st) i = Some t \<longrightarrow> gm_get (ts_by_id st) j = Some u \<longrightarrow>
     t_hash t = t_hash u \<longrightarrow> i = j)"

lemma verify_from_None: "\<forall>t\<in>set ts. t_hash t \<noteq> want \<Longrightarrow> verify_from env want ts = None"
  by (induction ts) auto

lemma verify_from_unique:
  assumes "t \<in> set ts" "t_hash t = want" "\<And>u. u \<in> set ts \<Longrightarrow> t_hash u = want \<Longrightarrow> u = t"
  shows "verify_from env want ts = (if expired env (tk_now env) t then None else Some (t_scope t))"
  using assms
proof (induction ts)
  case (Cons u ts)
  show ?case
  proof (cases "t_hash u = want")
    case True
    then have "u = t" by (rule Cons.prems(3) [OF list.set_intros(1)])
    with True show ?thesis by simp
  next
    case False
    with Cons.prems(1,2) have "t \<in> set ts" by auto
    then have "verify_from env want ts = (if expired env (tk_now env) t then None else Some (t_scope t))"
      by (rule Cons.IH [OF _ Cons.prems(2)]) (rule Cons.prems(3), simp_all)
    with False show ?thesis by simp
  qed
qed simp

text \<open>C35: A bearer secret is accepted exactly if a token of the store has its hash and has not expired, and
  then with the scope of that token; the order in which Go visits the map does not matter (no two tokens of the store
  share a hash).\<close>

theorem verify_exact:
  assumes "gm_ok (ts_by_id st)" "one_hash st" "mset (tk_order env (ts_by_id st)) = mset (ts_by_id st)"
  shows "verify env st secret = Some scope \<longleftrightarrow>
    trim_space secret \<noteq> [] \<and>
    (\<exists>i t. gm_get (ts_by_id st) i = Some t \<and> t_hash t = sha_hex env (trim_space secret) \<and>
       \<not> expired env (tk_now env) t \<and> t_scope t = scope)"
proof -
  let ?ts = "map snd (tk_order env (ts_by_id st))" and ?want = "sha_hex env (trim_space secret)"
  have "set (tk_order env (ts_by_id st)) = set (ts_by_id st)" using assms(3) by (metis set_mset_mset)
  then have in_ts: "t \<in> set ?ts \<longleftrightarrow> (\<exists>i. gm_get (ts_by_id st) i = Some t)" for t
    using gm_get_in [OF assms(1)] by force
  show ?thesis
  proof (cases "\<exists>t\<in>set ?ts. t_hash t = ?want")
    case True
    then obtain t where t: "t \<in> set ?ts" "t_hash t = ?want" by blast
    have u: "u = t" if "u \<in> set ?ts" "t_hash u = ?want" for u
      using that t assms(2) unfolding in_ts one_hash_def by (metis option.inject)
    from t(1) obtain i where i: "gm_get (ts_by_id st) i = Some t" unfolding in_ts by blast
    have only: "t' = t" if "gm_get (ts_by_id st) j = Some t'" "t_hash t' = ?want" for j t'
      using u [of t'] that unfolding in_ts by blast
    have "verify env st secret =
        (if trim_space secret = [] \<or> expired env (tk_now env) t then None else Some (t_scope t))"
      using verify_from_unique [OF t u, of env] by (simp add: verify_def Let_def)
    moreover have "(\<exists>j t'. gm_get (ts_by_id st) j = Some t' \<and> t_hash t' = ?want \<and>
        \<not> expired env (tk_now env) t' \<and> t_scope t' = scope) \<longleftrightarrow>
      \<not> expired env (tk_now env) t \<and> t_scope t = scope"
      using i t(2) only by blast
    ultimately show ?thesis by simp
  next
    case False
    then have "verify_from env ?want ?ts = None" by (intro verify_from_None) blast
    moreover have "\<not> (\<exists>i t. gm_get (ts_by_id st) i = Some t \<and> t_hash t = ?want)"
      using False in_ts by blast
    ultimately show ?thesis unfolding verify_def Let_def by auto
  qed
qed

section \<open>The life of a secret\<close>

text \<open>RFC 3339 without fractions keeps the seconds, up to the year 9999.\<close>

definition year_10000 :: go_time where "year_10000 = 315537897600 * second"

definition rfc_law :: "token_env \<Rightarrow> bool" where
  "rfc_law env \<longleftrightarrow> (\<forall>t. 0 < t \<longrightarrow> t < year_10000 \<longrightarrow> trim_space (rfc_format env t) = rfc_format env t \<and> rfc_format env t \<noteq> [] \<and>
     rfc_parse env (rfc_format env t) = Some (t div second * second))"

text \<open>Two moments of one server: the same functions, another clock, other draws and writes.\<close>

definition same_functions :: "token_env \<Rightarrow> token_env \<Rightarrow> bool" where
  "same_functions env env2 \<longleftrightarrow> sha_hex env2 = sha_hex env \<and> rfc_format env2 = rfc_format env \<and>
     rfc_parse env2 = rfc_parse env \<and> (\<forall>m. mset (tk_order env2 m) = mset m)"

definition fresh_hash :: "token_store \<Rightarrow> string \<Rightarrow> bool" where
  "fresh_hash st h \<longleftrightarrow> (\<forall>i t. gm_get (ts_by_id st) i = Some t \<longrightarrow> t_hash t \<noteq> h)"

lemma put_token_sel [simp]: "ts_by_id (put_token i t st) = gm_put i t (ts_by_id st)"
  by (simp add: put_token_def)

lemma put_one_hash:
  assumes "one_hash st" "fresh_hash st (t_hash t)"
  shows "one_hash (put_token i t st)"
  using assms unfolding one_hash_def fresh_hash_def put_token_sel gm_get_put fun_upd_apply
  by (metis option.inject)

lemma verify_put_own:
  assumes "tokens_wf st" "one_hash st" "fresh_hash st (sha_hex env secret)" "same_functions env env2"
    and "t_hash t = sha_hex env secret" "trim_space secret = secret" "secret \<noteq> []"
  shows "verify env2 (put_token i t st) secret =
    (if expired env2 (tk_now env2) t then None else Some (t_scope t))"
proof -
  let ?st = "put_token i t st"
  have ok: "gm_ok (ts_by_id ?st)" "one_hash ?st"
    using assms(1-3,5) by (simp_all add: tokens_wf_def put_one_hash)
  have ord: "mset (tk_order env2 (ts_by_id ?st)) = mset (ts_by_id ?st)"
    and sha: "sha_hex env2 = sha_hex env" using assms(4) by (simp_all add: same_functions_def)
  have "verify env2 ?st secret = Some scope \<longleftrightarrow> \<not> expired env2 (tk_now env2) t \<and> t_scope t = scope" for scope
    unfolding verify_exact [OF ok ord] using assms(3,5-7) sha
    by (auto simp: fresh_hash_def split: if_splits)
  then show ?thesis by (cases "verify env2 ?st secret") auto
qed

lemma verify_gone:
  assumes "gm_ok (ts_by_id st)" "one_hash st" "same_functions env env2"
    and "fresh_hash st (sha_hex env (trim_space secret))"
  shows "verify env2 st secret = None"
proof -
  have ord: "mset (tk_order env2 (ts_by_id st)) = mset (ts_by_id st)"
    and sha: "sha_hex env2 = sha_hex env" using assms(3) by (simp_all add: same_functions_def)
  have "verify env2 st secret \<noteq> Some scope" for scope
    unfolding verify_exact [OF assms(1,2) ord] using assms(4) sha by (auto simp: fresh_hash_def)
  then show ?thesis by (cases "verify env2 st secret") auto
qed

text \<open>A created token is accepted with its scope from then on, at any later moment until the second of
  its expiry begins (a token that expires within the current second is never accepted), and for ever without an
  expiry.\<close>

theorem created_token_accepted:
  assumes "tokens_wf st" "one_hash st" "sha_law env" "rfc_law env" "0 \<le> tk_now env" "ex < year_10000"
    and "create_token env n sc ex st d = (Inr (pub, secret), st', d')"
    and "fresh_hash st (sha_hex env secret)" "trim_space secret = secret" "same_functions env env2"
  shows "verify env2 st' secret =
    (if ex = 0 \<or> tk_now env2 < ex div second * second then Some (trim_space sc) else None)"
proof -
  from assms(7) obtain exs i where c: "normalize_expiry env ex (tk_now env) = Inr exs"
      "add_token \<lparr>t_id = i, t_name = trim_space n, t_hash = sha_hex env secret, t_scope = trim_space sc,
        t_created = rfc_format env (tk_now env), t_expires = exs\<rparr> st = Inr st'"
      "generate_api_token env = Some secret"
    by (auto simp: create_token_def Let_def split: option.splits if_splits sum.splits prod.splits bool.splits)
  have ne: "secret \<noteq> []" using c(3) by (auto simp: generate_api_token_def split: option.splits)
  obtain t where t: "st' = put_token (trim_space i) t st" "t_hash t = sha_hex env secret" "t_expires t = exs"
      "t_scope t = trim_space sc"
    using add_token_Inr [OF c(2)] assms(3) by (auto simp: sha_law_def hash_trim hash_lower)
  have "expired env2 (tk_now env2) t \<longleftrightarrow> \<not> (ex = 0 \<or> tk_now env2 < ex div second * second)"
  proof (cases "ex = 0")
    case True
    with c(1) t(3) show ?thesis by (simp add: normalize_expiry_def expired_def)
  next
    case False
    with c(1) assms(5) have ex: "0 < ex" "exs = rfc_format env ex"
      by (auto simp: normalize_expiry_def split: if_splits)
    then have "trim_space exs = exs" "exs \<noteq> []" "rfc_parse env exs = Some (ex div second * second)"
      using assms(4,6) by (simp_all add: rfc_law_def)
    moreover have "rfc_parse env2 = rfc_parse env" using assms(10) by (simp add: same_functions_def)
    ultimately show ?thesis using False by (simp add: expired_def t(3))
  qed
  then show ?thesis
    unfolding t(1) verify_put_own [OF assms(1,2,8,10) t(2) assms(9) ne] by (simp add: t(4))
qed

text \<open>Revoking and rotating a token end its old secret at once and for every later moment, whether the
  file could be written or not; a rotation that could not be written answers with an error, so that the client has no
  secret of the token at all.\<close>

theorem old_secret_dead:
  assumes "tokens_wf st" "one_hash st" "same_functions env env2"
    and "gm_get (ts_by_id st) (trim_space i) = Some t" "t_hash t = sha_hex env (trim_space old)"
    and "revoke_token env i st d = (r, st', d')
      \<or> rotate_token env i st d = (r2, st', d') \<and> \<not> expired env (tk_now env) t
        \<and> generate_api_token env = Some new \<and> fresh_hash st (sha_hex env new)"
  shows "verify env2 st' old = None"
proof -
  have "st' = del_token (trim_space i) st
      \<or> st' = put_token (trim_space i) (t\<lparr>t_hash := sha_hex env new\<rparr>) st \<and> fresh_hash st (sha_hex env new)"
    using assms(4,6) by (auto simp: revoke_token_def rotate_token_def Let_def put_token_def del_token_def
        split: option.splits if_splits prod.splits bool.splits)
  then show ?thesis
  proof
    assume st': "st' = del_token (trim_space i) st"
    have "gm_ok (ts_by_id st')" using assms(1) by (simp add: st' del_token_def tokens_wf_def)
    moreover have "one_hash st'" using assms(2) by (auto simp: st' del_token_def one_hash_def)
    moreover have "fresh_hash st' (sha_hex env (trim_space old))"
      using assms(2,4,5) by (auto simp: st' del_token_def one_hash_def fresh_hash_def)
    ultimately show ?thesis by (rule verify_gone [OF _ _ assms(3)])
  next
    assume a: "st' = put_token (trim_space i) (t\<lparr>t_hash := sha_hex env new\<rparr>) st \<and> fresh_hash st (sha_hex env new)"
    then have st': "st' = put_token (trim_space i) (t\<lparr>t_hash := sha_hex env new\<rparr>) st" by simp
    have "gm_ok (ts_by_id st')" using assms(1) by (simp add: st' tokens_wf_def)
    moreover have "one_hash st'" using assms(2) a unfolding st' by (intro put_one_hash) simp_all
    moreover have "fresh_hash st' (sha_hex env (trim_space old))"
      using assms(2,4,5) a by (auto simp: st' one_hash_def fresh_hash_def)
    ultimately show ?thesis by (rule verify_gone [OF _ _ assms(3)])
  qed
qed

section \<open>A concrete store of tokens\<close>

definition demo_hash :: "string \<Rightarrow> string" where
  "demo_hash p = replicate 64 (if p = ''GA_1'' then CHR ''1'' else if p = ''GA_2'' then CHR ''2'' else CHR ''0'')"

definition demo_token :: api_token where
  "demo_token = \<lparr>t_id = ''t1'', t_name = ''ci bot'', t_hash = demo_hash ''GA_1'', t_scope = ''ops'',
     t_created = ''c'', t_expires = []\<rparr>"

definition demo_tstore :: token_store where
  "demo_tstore = \<lparr>ts_by_id = [(''t1'', demo_token)], ts_path = ''p''\<rparr>"

definition demo_tenv :: token_env where
  "demo_tenv = \<lparr>sha_hex = demo_hash, rfc_format = (\<lambda>t. replicate (Suc (nat (t div second))) CHR ''x''),
     rfc_parse = (\<lambda>s. Some (int (length s - 1) * second)), draw_secret = Some ''2'', draw_id = Some ''t2'',
     tokens_enc = (\<lambda>_. Some ''j''), tokens_dec = (\<lambda>_. None), tk_write = Written, tk_now = 5 * second,
     tk_order = rev\<rparr>"

lemma demo_hash_eq: "demo_hash p = demo_hash q \<longleftrightarrow>
    (p = ''GA_1'' \<longleftrightarrow> q = ''GA_1'') \<and> (p = ''GA_2'' \<longleftrightarrow> q = ''GA_2'')"
  by (auto simp: demo_hash_def)

lemma demo_tlaws: "sha_law demo_tenv" "rfc_law demo_tenv" "same_functions demo_tenv (demo_tenv\<lparr>tk_now := t\<rparr>)"
proof -
  show "sha_law demo_tenv"
    by (simp add: sha_law_def demo_tenv_def demo_hash_def list_all_iff hash_char_def is_digit_def code_def)
  have "trim_space (replicate (Suc n) CHR ''x'') = replicate (Suc n) CHR ''x''" for n
    by (intro list_all_trim) (simp add: list_all_iff plain_def code_def)
  moreover have "int (nat (t div second)) * second = t div second * second" if "0 < t" for t
    using that pos_imp_zdiv_nonneg_iff [of second t] by (simp add: second_def)
  ultimately show "rfc_law demo_tenv" by (simp add: rfc_law_def demo_tenv_def del: replicate.simps)
  show "same_functions demo_tenv (demo_tenv\<lparr>tk_now := t\<rparr>)" by (simp add: same_functions_def demo_tenv_def)
qed

lemma demo_tstore_ok: "tokens_wf demo_tstore" "one_hash demo_tstore"
proof -
  show "tokens_wf demo_tstore" by code_simp
  show "one_hash demo_tstore" by (auto simp: one_hash_def demo_tstore_def split: if_splits)
qed

theorem tokens_wf_reachable_witness:
  "tokens_len (fst (token_step demo_tenv (Create_token ''deploy'' ''read'' 0) (demo_tstore, \<lambda>_. None))) \<le> 64"
proof -
  let ?s = "token_step demo_tenv (Create_token ''deploy'' ''read'' 0) (demo_tstore, \<lambda>_. None)"
  have "tokens_trans (demo_tstore, \<lambda>_. None) ?s" using demo_tlaws(1) unfolding tokens_trans_def by blast
  then have "tokens_trans\<^sup>*\<^sup>* (demo_tstore, \<lambda>_. None) (fst ?s, snd ?s)" by simp
  from tokens_wf_reachable [OF this demo_tstore_ok(1)] show ?thesis by simp
qed

theorem verify_exact_witness: "verify demo_tenv demo_tstore '' GA_1'' = Some ''ops''"
proof -
  have "trim_space '' GA_1'' = ''GA_1''" by code_simp
  moreover have "gm_ok (ts_by_id demo_tstore)" using demo_tstore_ok(1) by (simp add: tokens_wf_def)
  moreover have "mset (tk_order demo_tenv (ts_by_id demo_tstore)) = mset (ts_by_id demo_tstore)"
    by (simp add: demo_tenv_def)
  ultimately show ?thesis
    by (subst verify_exact [OF _ demo_tstore_ok(2)])
      (simp_all add: demo_tstore_def demo_token_def demo_tenv_def expired_def Let_def)
qed

theorem created_token_accepted_witness:
  "verify (demo_tenv\<lparr>tk_now := 6 * second + 1\<rparr>) (fst (snd (create_token demo_tenv ''deploy'' ''read'' (7 * second + 3)
     demo_tstore (\<lambda>_. None)))) ''GA_2'' = Some ''read''"
proof -
  let ?r = "create_token demo_tenv ''deploy'' '' read'' (7 * second + 3) demo_tstore (\<lambda>_. None)"
  have tr: "trim_space ''deploy'' = ''deploy''" "trim_space '' read'' = ''read''" "trim_space ''read'' = ''read''"
      "trim_space ''t2'' = ''t2''" "trim_space ''p'' = ''p''" "trim_space ''GA_2'' = ''GA_2''"
    by code_simp+
  have ok: "token_name_ok ''deploy''" "valid_scope ''read''" by code_simp+
  have h: "trim_space (demo_hash p) = demo_hash p" "to_lower (demo_hash p) = demo_hash p"
      "length (demo_hash p) = 64" "demo_hash p \<noteq> []" for p
    using demo_tlaws(1) by (auto simp: sha_law_def demo_tenv_def hash_trim hash_lower demo_hash_def)
  obtain pub st' d' where
    r: "create_token demo_tenv ''deploy'' ''read'' (7 * second + 3) demo_tstore (\<lambda>_. None) = (Inr (pub, ''GA_2''), st', d')"
    by (auto simp: create_token_def Let_def tr ok h normalize_expiry_def generate_api_token_def add_token_def
        persist_tokens_def write_json_def write_file_def demo_tenv_def demo_tstore_def time_sub_def
        max_token_ttl_def duration_defs max_duration_def min_duration_def max_api_tokens_def)
  have "fresh_hash demo_tstore (sha_hex demo_tenv ''GA_2'')"
    by (auto simp: fresh_hash_def demo_tstore_def demo_token_def demo_tenv_def demo_hash_eq split: if_splits)
  moreover have "0 \<le> tk_now demo_tenv" "7 * second + 3 < year_10000"
    by (simp_all add: demo_tenv_def second_def year_10000_def)
  ultimately show ?thesis
    using created_token_accepted [OF demo_tstore_ok demo_tlaws(1,2) _ _ r _ tr(6) demo_tlaws(3)] r tr
    by (simp add: second_def)
qed

theorem old_secret_dead_witness:
  "verify (demo_tenv\<lparr>tk_now := 9\<rparr>) (fst (snd (rotate_token (demo_tenv\<lparr>tk_write := Kept\<rparr>) ''t1''
     demo_tstore (\<lambda>_. None)))) ''GA_1'' = None"
proof -
  let ?env = "demo_tenv\<lparr>tk_write := Kept\<rparr>"
  have tr: "trim_space ''t1'' = ''t1''" "trim_space ''GA_1'' = ''GA_1''" by code_simp+
  obtain r st' d' where r: "rotate_token ?env ''t1'' demo_tstore (\<lambda>_. None) = (r, st', d')"
    by (metis prod.collapse)
  have same: "same_functions ?env (demo_tenv\<lparr>tk_now := 9\<rparr>)" by (simp add: same_functions_def demo_tenv_def)
  have new: "generate_api_token ?env = Some ''GA_2''" by (simp add: generate_api_token_def demo_tenv_def)
  have fresh: "fresh_hash demo_tstore (sha_hex ?env ''GA_2'')"
    by (auto simp: fresh_hash_def demo_tstore_def demo_token_def demo_tenv_def demo_hash_eq split: if_splits)
  have get: "gm_get (ts_by_id demo_tstore) (trim_space ''t1'') = Some demo_token"
    by (simp add: tr demo_tstore_def)
  have hash: "t_hash demo_token = sha_hex ?env (trim_space ''GA_1'')"
    by (simp add: tr demo_token_def demo_tenv_def)
  have alive: "\<not> expired ?env (tk_now ?env) demo_token" by (simp add: expired_def demo_token_def)
  show ?thesis
    using old_secret_dead [OF demo_tstore_ok same get hash disjI2 [OF conjI [OF r conjI [OF alive conjI [OF new fresh]]]]]
    unfolding r by simp
qed

end
