(* ===== verification/Map_Search.thy ===== *)
theory Map_Search
  imports Go_Text
begin

text \<open>
  The search language of the map (\<^verbatim>\<open>mapsearch/parse.go\<close>, \<^verbatim>\<open>mapsearch/sanitize.go\<close>,
  \<^verbatim>\<open>mapsearch/cost.go\<close>): tokenizer, recursive descent parser, clipping of the input and the
  estimate of the cost of a query.

  The tokenizer works on the bytes still to be read, rune by rune; the parser on the tokens still to be read. The
  parser gets fuel, and \<open>query_fuel\<close> is enough for every input, which is proved below. The tables of \<^verbatim>\<open>unicode.IsLetter\<close> and
  \<^verbatim>\<open>unicode.IsNumber\<close> above Latin-1 are arguments.
\<close>

section \<open>Encoding runes\<close>

definition encode_rune :: "nat \<Rightarrow> string" where
  "encode_rune r =
     (if r < 128 then [byte r]
      else if r < 2048 then [byte (192 + r div 64), byte (128 + r mod 64)]
      else if 55296 \<le> r \<and> r < 57344 \<or> 1114111 < r then [byte 239, byte 191, byte 189]
      else if r < 65536 then [byte (224 + r div 4096), byte (128 + r div 64 mod 64), byte (128 + r mod 64)]
      else [byte (240 + r div 262144), byte (128 + r div 4096 mod 64), byte (128 + r div 64 mod 64),
            byte (128 + r mod 64)])"

definition utf8 :: "nat list \<Rightarrow> string" where
  "utf8 rs = concat (map encode_rune rs)"

text \<open>\<^verbatim>\<open>ClipRunes\<close>: \<open>n\<close> is \<^verbatim>\<open>max\<close>, which is not negative where it is called.\<close>

definition clip_runes :: "string \<Rightarrow> nat \<Rightarrow> string" where
  "clip_runes s0 n =
     (let s = trim_space s0 in
      if s = [] \<or> n < 1 then []
      else
        let s1 = filter (\<lambda>c. code c \<noteq> 0) s in
        if length (runes s1) \<le> n then s1 else utf8 (take n (runes s1)))"

definition max_map_country_runes :: nat where "max_map_country_runes = 80"
definition max_map_query_runes :: nat where "max_map_query_runes = 400"

definition sanitize_map_country :: "string \<Rightarrow> string" where
  "sanitize_map_country s = clip_runes s max_map_country_runes"

definition sanitize_map_query :: "string \<Rightarrow> string" where
  "sanitize_map_query s = clip_runes s max_map_query_runes"

section \<open>Fields and queries\<close>

datatype field =
    F_all | F_ip | F_port | F_country | F_city | F_action | F_device | F_src_ip | F_dst_ip | F_src_port
  | F_dst_port | F_src_country | F_dst_country | F_src_city | F_dst_city | F_src | F_dst | F_proto
  | F_zone

datatype search_op = Op_contains | Op_eq | Op_ne

datatype node =
    Term field search_op string
  | Not_node node
  | And_node node node
  | Or_node node node

datatype compiled = Empty_query | Simple_query string | Root_query node

definition field_aliases :: "(string \<times> field) list" where
  "field_aliases =
    [(''all'', F_all), (''any'', F_all), (''text'', F_all), (''ip'', F_ip), (''addr'', F_ip),
     (''address'', F_ip), (''port'', F_port), (''country'', F_country),
     (utf8 [1089, 1090, 1088, 1072, 1085, 1072], F_country), (''city'', F_city),
     (utf8 [1075, 1086, 1088, 1086, 1076], F_city), (''action'', F_action), (''act'', F_action),
     (utf8 [1076, 1077, 1081, 1089, 1090, 1074, 1080, 1077], F_action), (''rule'', F_action),
     (''policy'', F_action), (utf8 [1087, 1088, 1072, 1074, 1080, 1083, 1086], F_action),
     (''device'', F_device), (''host'', F_device), (''fw'', F_device),
     (utf8 [1091, 1089, 1090, 1088, 1086, 1081, 1089, 1090, 1074, 1086], F_device),
     (utf8 [1084, 1089, 1101], F_device), (''src_ip'', F_src_ip), (''attacker'', F_src_ip),
     (''attacker_ip'', F_src_ip),
     (utf8 [1072, 1090, 1072, 1082, 1091, 1102, 1097, 1080, 1081], F_src_ip),
     (''dst_ip'', F_dst_ip), (''target'', F_dst_ip), (''target_ip'', F_dst_ip),
     (utf8 [1094, 1077, 1083, 1100], F_dst_ip), (''src_port'', F_src_port), (''spt'', F_src_port),
     (''attacker_port'', F_src_port), (''dst_port'', F_dst_port), (''dpt'', F_dst_port),
     (''target_port'', F_dst_port), (''src_country'', F_src_country),
     (''attacker_country'', F_src_country), (''dst_country'', F_dst_country),
     (''target_country'', F_dst_country), (''src_city'', F_src_city),
     (''attacker_city'', F_src_city), (''dst_city'', F_dst_city), (''target_city'', F_dst_city),
     (''src'', F_src), (''source'', F_src), (''from'', F_src), (''dst'', F_dst), (''dest'', F_dst),
     (''destination'', F_dst), (''to'', F_dst), (''proto'', F_proto), (''protocol'', F_proto),
     (''zone'', F_zone)]"

section \<open>Tokens\<close>

datatype tok =
    Tok_word string | Tok_string string | Tok_colon | Tok_eq | Tok_ne | Tok_lparen | Tok_rparen
  | Tok_and | Tok_or | Tok_not

datatype query_err =
    Unclosed | Expected_value | Expected_cond | Missing_paren | Extra_tokens | Expected_operator field
  | Unknown_field string | Out_of_fuel

text \<open>\<^verbatim>\<open>strings.EqualFold(s, "contains")\<close>: U+017F folds to \<open>s\<close>.\<close>

fun fold_long_s :: "string \<Rightarrow> string" where
  "fold_long_s [] = []"
| "fold_long_s [c] = [c]"
| "fold_long_s (c # d # cs) =
     (if code c = 197 \<and> code d = 191 then CHR ''s'' # fold_long_s cs else c # fold_long_s (d # cs))"

definition is_contains :: "string \<Rightarrow> bool" where
  "is_contains w = equal_fold (fold_long_s w) ''contains''"

text \<open>The bytes that \<^verbatim>\<open>WriteRune\<close> appends for the first rune of a text.\<close>

definition rune_text :: "string \<Rightarrow> string" where
  "rune_text s =
     (if fst (decode_rune s) = rune_error \<and> snd (decode_rune s) = 1 then [byte 239, byte 191, byte 189]
      else take (snd (decode_rune s)) s)"

definition rest_rune :: "string \<Rightarrow> string" where
  "rest_rune s = drop (snd (decode_rune s)) s"

lemma rest_rune_shorter: "s \<noteq> [] \<Longrightarrow> length (rest_rune s) < length s"
  using decode_rune_width [of s] by (cases s) (auto simp: rest_rune_def)

text \<open>The text after an opening quote: the value and what follows the closing quote.\<close>

function scan_string :: "string \<Rightarrow> (string \<times> string) option" where
  "scan_string s =
     (if s = [] then None
      else if hd s = CHR 92 \<and> rest_rune s \<noteq> [] then
        (case scan_string (rest_rune (rest_rune s)) of
           None \<Rightarrow> None | Some (v, t) \<Rightarrow> Some (rune_text (rest_rune s) @ v, t))
      else if hd s = CHR 34 then Some ([], rest_rune s)
      else (case scan_string (rest_rune s) of
           None \<Rightarrow> None | Some (v, t) \<Rightarrow> Some (rune_text s @ v, t)))"
  by pat_completeness auto
termination
proof (relation "measure length")
  fix s :: string assume "\<not> s = []" "hd s = CHR 92 \<and> rest_rune s \<noteq> []"
  then show "(rest_rune (rest_rune s), s) \<in> measure length"
    using rest_rune_shorter [of s] rest_rune_shorter [of "rest_rune s"] by simp
qed (auto simp: rest_rune_shorter)

declare scan_string.simps [simp del]

definition word_stop :: "string \<Rightarrow> bool" where
  "word_stop s \<longleftrightarrow> strip_space s \<noteq> None \<or> hd s \<in> {CHR ''('', CHR '')'', CHR '':'', CHR 34, CHR ''='', CHR ''!''}"

function scan_word :: "string \<Rightarrow> string \<times> string" where
  "scan_word s =
     (if s = [] then ([], [])
      else if word_stop s then ([], s)
      else
        let (w, t) = scan_word (rest_rune s) in (take (snd (decode_rune s)) s @ w, t))"
  by pat_completeness auto
termination by (relation "measure length") (auto simp: rest_rune_shorter)

declare scan_word.simps [simp del]

definition word_token :: "string \<Rightarrow> tok" where
  "word_token w =
     (if to_upper_ascii w = ''AND'' then Tok_and
      else if to_upper_ascii w = ''OR'' then Tok_or
      else if to_upper_ascii w = ''NOT'' then Tok_not
      else Tok_word w)"

lemma scan_word_le: "length (snd (scan_word s)) \<le> length s"
proof (induction s rule: scan_word.induct)
  case (1 s)
  then show ?case
    using rest_rune_shorter [of s] by (subst scan_word.simps) (auto simp: Let_def split: prod.splits)
qed

lemma scan_word_shorter: "s \<noteq> [] \<Longrightarrow> \<not> word_stop s \<Longrightarrow> length (snd (scan_word s)) < length s"
  using scan_word_le [of "rest_rune s"] rest_rune_shorter [of s]
  by (subst scan_word.simps) (auto simp: Let_def split: prod.splits)

lemma scan_string_shorter: "scan_string s = Some (v, t) \<Longrightarrow> length t < length s"
proof (induction s arbitrary: v t rule: scan_string.induct)
  case (1 s)
  show ?case
  proof (cases "s = []")
    case True
    with "1.prems" show ?thesis by (simp add: scan_string.simps)
  next
    case False
    note shorter = rest_rune_shorter [OF False]
    show ?thesis
    proof (cases "hd s = CHR 92 \<and> rest_rune s \<noteq> []")
      case True
      with "1.prems" False obtain v' where "scan_string (rest_rune (rest_rune s)) = Some (v', t)"
        by (subst (asm) scan_string.simps) (auto split: option.splits)
      from "1.IH"(1) [OF False True this] shorter rest_rune_shorter [of "rest_rune s"] True
      show ?thesis by simp
    next
      case esc: False
      show ?thesis
      proof (cases "hd s = CHR 34")
        case True
        with "1.prems" False esc shorter show ?thesis by (subst (asm) scan_string.simps) auto
      next
        case quote: False
        with "1.prems" False esc obtain v' where "scan_string (rest_rune s) = Some (v', t)"
          by (subst (asm) scan_string.simps) (auto split: option.splits)
        from "1.IH"(2) [OF False esc quote this] shorter show ?thesis by simp
      qed
    qed
  qed
qed

lemma strip_space_lt: "strip_space s = Some t \<Longrightarrow> length t < length s"
  using strip_space_suffix by fastforce

definition tok_cons :: "tok \<Rightarrow> query_err + tok list \<Rightarrow> query_err + tok list" where
  "tok_cons t r = (case r of Inl e \<Rightarrow> Inl e | Inr ts \<Rightarrow> Inr (t # ts))"

function tokenize :: "string \<Rightarrow> query_err + tok list" where
  "tokenize s =
     (if s = [] then Inr []
      else case strip_space s of
        Some t \<Rightarrow> tokenize t
      | None \<Rightarrow>
          if hd s = CHR ''('' then tok_cons Tok_lparen (tokenize (tl s))
          else if hd s = CHR '')'' then tok_cons Tok_rparen (tokenize (tl s))
          else if hd s = CHR '':'' then tok_cons Tok_colon (tokenize (tl s))
          else if hd s = CHR ''='' then tok_cons Tok_eq (tokenize (tl s))
          else if hd s = CHR ''!'' then
            (if tl s \<noteq> [] \<and> hd (tl s) = CHR ''='' then tok_cons Tok_ne (tokenize (tl (tl s)))
             else tok_cons (Tok_word ''!'') (tokenize (tl s)))
          else if hd s = CHR 34 then
            (case scan_string (tl s) of
               None \<Rightarrow> Inl Unclosed
             | Some (v, t) \<Rightarrow> tok_cons (Tok_string v) (tokenize t))
          else
            tok_cons (word_token (fst (scan_word s))) (tokenize (snd (scan_word s))))"
  by pat_completeness auto
termination
proof (relation "measure length", goal_cases)
  case (8 s x2 a b)
  then have "length b < length (tl s)" using scan_string_shorter by metis
  then show ?case by simp
next
  case (9 s)
  then show ?case by (simp add: scan_word_shorter word_stop_def)
qed (auto dest: strip_space_lt simp: neq_Nil_conv)

declare tokenize.simps [simp del]

section \<open>The parser\<close>

type_synonym 'a parse = "query_err + ('a \<times> tok list)"

definition parse_value :: "tok list \<Rightarrow> string parse" where
  "parse_value ts =
     (case ts of
        Tok_word v # r \<Rightarrow> Inr (v, r)
      | Tok_string v # r \<Rightarrow> Inr (v, r)
      | _ \<Rightarrow> Inl Expected_value)"

definition value_term :: "field \<Rightarrow> search_op \<Rightarrow> tok list \<Rightarrow> node parse" where
  "value_term f op ts =
     (case parse_value ts of Inl e \<Rightarrow> Inl e | Inr (v, r) \<Rightarrow> Inr (Term f op v, r))"

definition parse_field_term :: "field \<Rightarrow> tok list \<Rightarrow> node parse" where
  "parse_field_term f ts =
     (case ts of
        [] \<Rightarrow> Inl Expected_value
      | t # r \<Rightarrow>
          (case t of
             Tok_colon \<Rightarrow> value_term f Op_contains r
           | Tok_eq \<Rightarrow> value_term f Op_eq r
           | Tok_ne \<Rightarrow> value_term f Op_ne r
           | Tok_word w \<Rightarrow> if is_contains w then value_term f Op_contains r else Inl (Expected_operator f)
           | _ \<Rightarrow> Inl (Expected_operator f)))"

fun starts_primary :: "tok list \<Rightarrow> bool" where
  "starts_primary (Tok_word w # r) = True"
| "starts_primary (Tok_string w # r) = True"
| "starts_primary (Tok_lparen # r) = True"
| "starts_primary (Tok_not # r) = True"
| "starts_primary _ = False"

fun starts_operator :: "tok list \<Rightarrow> bool" where
  "starts_operator (Tok_colon # r) = True"
| "starts_operator (Tok_eq # r) = True"
| "starts_operator (Tok_ne # r) = True"
| "starts_operator (Tok_word w # r) = is_contains w"
| "starts_operator _ = False"

definition normalize_word :: "string \<Rightarrow> string" where
  "normalize_word s = to_lower (trim_space s)"

definition find_field :: "string \<Rightarrow> field option" where
  "find_field w = map_of field_aliases (normalize_word w)"

text \<open>
  The recursion goes through the parenthesis only, so each level takes the one below it as an argument and
  \<open>parse_or\<close> closes the circle. Loops and nesting get fuel; \<open>query_fuel\<close> is one unit more
  than there are tokens.
\<close>

definition parse_primary :: "(tok list \<Rightarrow> node parse) \<Rightarrow> tok list \<Rightarrow> node parse" where
  "parse_primary por ts =
     (case ts of
        [] \<Rightarrow> Inl Expected_cond
      | t # r \<Rightarrow>
          (case t of
             Tok_lparen \<Rightarrow>
               (case por r of
                  Inl e \<Rightarrow> Inl e
                | Inr (n, r') \<Rightarrow>
                    if r' \<noteq> [] \<and> hd r' = Tok_rparen then Inr (n, tl r') else Inl Missing_paren)
           | Tok_string v \<Rightarrow> Inr (Term F_all Op_contains v, r)
           | Tok_word w \<Rightarrow>
               (case find_field w of
                  Some f \<Rightarrow>
                    if f \<noteq> F_all \<and> starts_operator r then parse_field_term f r
                    else Inr (Term F_all Op_contains w, r)
                | None \<Rightarrow> Inl (Unknown_field w))
           | _ \<Rightarrow> Inl Expected_cond))"

fun parse_unary :: "(tok list \<Rightarrow> node parse) \<Rightarrow> tok list \<Rightarrow> node parse" where
  "parse_unary prim (Tok_not # r) =
     (case parse_unary prim r of Inl e \<Rightarrow> Inl e | Inr (n, r') \<Rightarrow> Inr (Not_node n, r'))"
| "parse_unary prim ts = prim ts"

fun and_loop :: "(tok list \<Rightarrow> node parse) \<Rightarrow> nat \<Rightarrow> node \<Rightarrow> tok list \<Rightarrow> node parse" where
  "and_loop un 0 l ts = Inl Out_of_fuel"
| "and_loop un (Suc k) l ts =
     (if ts \<noteq> [] \<and> hd ts = Tok_and then
        (case un (tl ts) of Inl e \<Rightarrow> Inl e | Inr (n, r) \<Rightarrow> and_loop un k (And_node l n) r)
      else if starts_primary ts then
        (case un ts of Inl e \<Rightarrow> Inl e | Inr (n, r) \<Rightarrow> and_loop un k (And_node l n) r)
      else Inr (l, ts))"

definition parse_and :: "(tok list \<Rightarrow> node parse) \<Rightarrow> nat \<Rightarrow> tok list \<Rightarrow> node parse" where
  "parse_and un k ts = (case un ts of Inl e \<Rightarrow> Inl e | Inr (l, r) \<Rightarrow> and_loop un k l r)"

fun or_loop :: "(tok list \<Rightarrow> node parse) \<Rightarrow> nat \<Rightarrow> node \<Rightarrow> tok list \<Rightarrow> node parse" where
  "or_loop pa 0 l ts = Inl Out_of_fuel"
| "or_loop pa (Suc k) l ts =
     (if ts \<noteq> [] \<and> hd ts = Tok_or then
        (case pa (tl ts) of Inl e \<Rightarrow> Inl e | Inr (n, r) \<Rightarrow> or_loop pa k (Or_node l n) r)
      else Inr (l, ts))"

fun parse_or :: "nat \<Rightarrow> tok list \<Rightarrow> node parse" where
  "parse_or 0 ts = Inl Out_of_fuel"
| "parse_or (Suc k) ts =
     (let pa = parse_and (parse_unary (parse_primary (parse_or k))) k in
      case pa ts of Inl e \<Rightarrow> Inl e | Inr (l, r) \<Rightarrow> or_loop pa k l r)"

definition query_fuel :: "tok list \<Rightarrow> nat" where
  "query_fuel ts = Suc (length ts)"

text \<open>No token at all is a query without a root (\<^verbatim>\<open>nil, nil\<close>).\<close>

definition parse_query :: "string \<Rightarrow> query_err + node option" where
  "parse_query raw =
     (case tokenize raw of
        Inl e \<Rightarrow> Inl e
      | Inr ts \<Rightarrow>
          if ts = [] then Inr None
          else case parse_or (query_fuel ts) ts of
            Inl e \<Rightarrow> Inl e
          | Inr (n, r) \<Rightarrow> if r \<noteq> [] then Inl Extra_tokens else Inr (Some n))"

section \<open>Compile\<close>

definition is_ident_byte :: "char \<Rightarrow> bool" where
  "is_ident_byte c \<longleftrightarrow> 65 \<le> code c \<and> code c \<le> 90 \<or> 48 \<le> code c \<and> code c \<le> 57 \<or> c = CHR ''_''"

text \<open>\<^verbatim>\<open>hasWord\<close>: the loop over the positions \<open>i\<close> of the text.\<close>

definition has_word :: "string \<Rightarrow> string \<Rightarrow> bool" where
  "has_word upper word =
     list_ex (\<lambda>i. take (length word) (drop i upper) = word \<and>
         (i = 0 \<or> \<not> is_ident_byte (upper ! (i - 1))) \<and>
         (i + length word = length upper \<or> \<not> is_ident_byte (upper ! (i + length word))))
       [0 ..< Suc (length upper) - length word]"

text \<open>\<^verbatim>\<open>unicode.IsNumber\<close>: Latin-1 itself, the table above.\<close>

definition is_number :: "(nat \<Rightarrow> bool) \<Rightarrow> nat \<Rightarrow> bool" where
  "is_number tab r \<longleftrightarrow>
     (if r < 256 then 48 \<le> r \<and> r \<le> 57 \<or> r \<in> {178, 179, 185, 188, 189, 190} else tab r)"

definition name_rune :: "(nat \<Rightarrow> bool) \<Rightarrow> (nat \<Rightarrow> bool) \<Rightarrow> nat \<Rightarrow> bool" where
  "name_rune letters numbers r \<longleftrightarrow> is_letter letters r \<or> is_number numbers r \<or> r = 95 \<or> r = 45"

definition has_field_colon :: "(nat \<Rightarrow> bool) \<Rightarrow> (nat \<Rightarrow> bool) \<Rightarrow> string \<Rightarrow> bool" where
  "has_field_colon letters numbers raw =
     (let rs = runes raw in
      list_ex (\<lambda>i. rs ! i = 58 \<and> takeWhile (name_rune letters numbers) (rev (take i rs)) \<noteq> []) [0 ..< length rs])"

definition looks_advanced :: "(nat \<Rightarrow> bool) \<Rightarrow> (nat \<Rightarrow> bool) \<Rightarrow> string \<Rightarrow> bool" where
  "looks_advanced letters numbers raw =
     (if list_ex (\<lambda>r. r = 40 \<or> r = 41 \<or> r = 34 \<or> r = 61) (runes raw) then True
      else
        let upper = to_upper_ascii raw in
        if has_word upper ''AND'' \<or> has_word upper ''OR'' \<or> has_word upper ''NOT'' \<or> has_word upper ''CONTAINS''
        then True
        else if contains_str raw ''!='' then True
        else has_field_colon letters numbers raw)"

definition compile :: "(nat \<Rightarrow> bool) \<Rightarrow> (nat \<Rightarrow> bool) \<Rightarrow> string \<Rightarrow> compiled" where
  "compile letters numbers raw =
     (let txt = trim_space raw in
      if txt = [] then Empty_query
      else if \<not> looks_advanced letters numbers txt then Simple_query txt
      else case parse_query txt of
        Inr (Some n) \<Rightarrow> Root_query n
      | _ \<Rightarrow> Empty_query)"

section \<open>The cost of a query\<close>

datatype cost_tier = Light | Medium | Heavy

text \<open>The reasons are the Russian texts that the answer carries, one constructor for each.\<close>

datatype cost_reason =
    Ip_minutes | Short_minutes | Ip_12_hours | Ip_hours | Six_hours | Ip_7_days | Ip_3_days_unfiltered
  | Ip_days | Long_unfiltered | Seven_days_unfiltered | Ip_7_days_range | Ip_wide_unfiltered
  | Wide_unfiltered | Reputation_ip

record cost_input =
  ci_group_by :: string
  ci_mode :: string
  ci_amount :: int
  ci_from :: go_time
  ci_to :: go_time
  ci_country :: string
  ci_query :: string
  ci_rep :: bool

record query_cost =
  qc_tier :: cost_tier
  qc_reasons :: "cost_reason list"
  qc_limit_cap :: int

definition is_ip_group :: "string \<Rightarrow> bool" where
  "is_ip_group g = (to_lower (trim_space g) \<in> {''ip'', ''subnet'', ''city_country''})"

definition has_map_filter :: "string \<Rightarrow> string \<Rightarrow> bool" where
  "has_map_filter country query = (trim_space country \<noteq> [] \<or> trim_space query \<noteq> [])"

text \<open>The reason of the period, with the flags \<open>heavy\<close> and \<open>medium\<close> it sets.\<close>

definition period_reason ::
  "string \<Rightarrow> int \<Rightarrow> go_time \<Rightarrow> go_time \<Rightarrow> bool \<Rightarrow> bool \<Rightarrow> (cost_reason \<times> bool \<times> bool) option" where
  "period_reason mode amount t0 t1 filtered ip_group =
     (if mode = ''minutes'' then
        (if ip_group then Some (Ip_minutes, True, False)
         else if amount \<le> 60 then Some (Short_minutes, False, True) else None)
      else if mode = ''hours'' then
        (if ip_group \<and> amount \<le> 12 then Some (Ip_12_hours, True, False)
         else if ip_group then Some (Ip_hours, False, True)
         else if amount \<ge> 6 then Some (Six_hours, False, True) else None)
      else if mode = ''days'' then
        (if ip_group \<and> amount \<ge> 7 then Some (Ip_7_days, True, False)
         else if ip_group \<and> amount \<ge> 3 \<and> \<not> filtered then Some (Ip_3_days_unfiltered, True, False)
         else if ip_group then Some (Ip_days, False, True)
         else if amount \<ge> 14 \<and> \<not> filtered then Some (Long_unfiltered, False, True)
         else if amount \<ge> 7 \<and> \<not> filtered then Some (Seven_days_unfiltered, False, True) else None)
      else if mode = ''absolute'' then
        (if t1 > t0 then
           let span = time_sub t1 t0 in
           if ip_group \<and> span > 7 * 24 * hour then Some (Ip_7_days_range, True, False)
           else if ip_group \<and> span > 48 * hour \<and> \<not> filtered then Some (Ip_wide_unfiltered, True, False)
           else if span > 14 * 24 * hour \<and> \<not> filtered then Some (Wide_unfiltered, False, True) else None
         else None)
      else None)"

definition assess_map_query_cost :: "cost_input \<Rightarrow> query_cost" where
  "assess_map_query_cost inp =
     (let g0 = to_lower (trim_space (ci_group_by inp));
        group_by = (if g0 = [] then ''city'' else g0);
        filtered = has_map_filter (ci_country inp) (ci_query inp);
        ip_group = is_ip_group group_by;
        p = period_reason (to_lower (trim_space (ci_mode inp))) (ci_amount inp) (ci_from inp) (ci_to inp)
              filtered ip_group;
        rep = ci_rep inp \<and> ip_group;
        reasons = (case p of None \<Rightarrow> [] | Some (r, h, m) \<Rightarrow> [r]) @ (if rep then [Reputation_ip] else []);
        heavy = ((case p of None \<Rightarrow> False | Some (r, h, m) \<Rightarrow> h) \<or> rep);
        medium = (case p of None \<Rightarrow> False | Some (r, h, m) \<Rightarrow> m) in
      if heavy then \<lparr>qc_tier = Heavy, qc_reasons = reasons, qc_limit_cap = (if filtered then 8000 else 3000)\<rparr>
      else if medium then \<lparr>qc_tier = Medium, qc_reasons = reasons, qc_limit_cap = 10000\<rparr>
      else \<lparr>qc_tier = Light, qc_reasons = reasons, qc_limit_cap = 50000\<rparr>)"

definition effective_map_limit :: "int \<Rightarrow> query_cost \<Rightarrow> int \<times> bool" where
  "effective_map_limit requested0 cost =
     (let requested = (if requested0 \<le> 0 then 10000 else requested0);
        capped = (qc_limit_cap cost > 0 \<and> requested > qc_limit_cap cost);
        applied = (if capped then qc_limit_cap cost else requested) in
      (if applied < 1 then 1 else applied, capped))"

section \<open>The parser always answers\<close>

text \<open>A parser reads something when it succeeds, and does not run out of fuel on short inputs.\<close>

definition reads :: "(tok list \<Rightarrow> 'a parse) \<Rightarrow> bool" where
  "reads p \<longleftrightarrow> (\<forall>ts x r. p ts = Inr (x, r) \<longrightarrow> length r < length ts)"

definition total :: "nat \<Rightarrow> (tok list \<Rightarrow> 'a parse) \<Rightarrow> bool" where
  "total k p \<longleftrightarrow> (\<forall>ts. length ts < k \<longrightarrow> p ts \<noteq> Inl Out_of_fuel)"

lemma readsD: "reads p \<Longrightarrow> p ts = Inr (x, r) \<Longrightarrow> length r < length ts"
  by (auto simp: reads_def)

lemma totalD: "total k p \<Longrightarrow> length ts < k \<Longrightarrow> p ts \<noteq> Inl Out_of_fuel"
  by (auto simp: total_def)

lemma parse_value_reads: "parse_value ts = Inr (v, r) \<Longrightarrow> length r < length ts"
  by (auto simp: parse_value_def split: list.splits tok.splits)

lemma parse_value_total: "parse_value ts \<noteq> Inl Out_of_fuel"
  by (auto simp: parse_value_def split: list.splits tok.splits)

lemma value_term_reads: "value_term f op ts = Inr (n, r) \<Longrightarrow> length r < length ts"
  by (auto simp: value_term_def dest: parse_value_reads split: sum.splits prod.splits)

lemma value_term_total: "value_term f op ts \<noteq> Inl Out_of_fuel"
  using parse_value_total by (auto simp: value_term_def split: sum.splits prod.splits)

lemma field_term_reads: "parse_field_term f ts = Inr (n, r) \<Longrightarrow> length r < length ts"
  by (auto simp: parse_field_term_def dest!: value_term_reads split: list.splits tok.splits if_splits)

lemma field_term_total: "parse_field_term f ts \<noteq> Inl Out_of_fuel"
  by (auto simp: parse_field_term_def value_term_total split: list.splits tok.splits)

lemma primary_reads: "reads por \<Longrightarrow> reads (parse_primary por)"
  by (fastforce simp: reads_def parse_primary_def neq_Nil_conv dest!: field_term_reads
      split: list.splits tok.splits sum.splits prod.splits option.splits if_splits)

lemma primary_total: "total k por \<Longrightarrow> total (Suc k) (parse_primary por)"
  using field_term_total
  by (fastforce simp: total_def parse_primary_def split: list.splits tok.splits sum.splits prod.splits option.splits if_splits)

lemma parse_unary_eq: "parse_unary prim ts =
    (if ts \<noteq> [] \<and> hd ts = Tok_not then
       (case parse_unary prim (tl ts) of Inl e \<Rightarrow> Inl e | Inr (n, r') \<Rightarrow> Inr (Not_node n, r'))
     else prim ts)"
proof (cases ts)
  case (Cons t r)
  then show ?thesis by (cases t) auto
qed simp

lemma unary_reads: assumes p: "reads prim" shows "reads (parse_unary prim)"
proof -
  have "parse_unary prim ts = Inr (n, r) \<Longrightarrow> length r < length ts" for ts n r
  proof (induction ts arbitrary: n r)
    case (Cons t ts)
    show ?case
    proof (cases "t = Tok_not")
      case True
      with Cons.prems obtain n' where "parse_unary prim ts = Inr (n', r)"
        by (auto split: sum.splits prod.splits)
      from Cons.IH [OF this] show ?thesis by simp
    next
      case False
      with Cons.prems have "prim (t # ts) = Inr (n, r)" by (simp add: parse_unary_eq)
      with p show ?thesis by (rule readsD)
    qed
  qed (use p in \<open>auto dest: readsD\<close>)
  then show ?thesis by (auto simp: reads_def)
qed

lemma unary_total: assumes p: "total k prim" shows "total k (parse_unary prim)"
proof -
  have "length ts < k \<Longrightarrow> parse_unary prim ts \<noteq> Inl Out_of_fuel" for ts
  proof (induction ts)
    case (Cons t ts)
    show ?case
    proof (cases "t = Tok_not")
      case True
      with Cons show ?thesis by (auto split: sum.splits prod.splits)
    next
      case False
      then have "parse_unary prim (t # ts) = prim (t # ts)" by (simp add: parse_unary_eq)
      with totalD [OF p Cons.prems] show ?thesis by simp
    qed
  qed (use totalD [OF p] in simp)
  then show ?thesis by (auto simp: total_def)
qed

lemma and_loop_reads: "reads un \<Longrightarrow> and_loop un k l ts = Inr (n, r) \<Longrightarrow> length r \<le> length ts"
proof (induction un k l ts arbitrary: n r rule: and_loop.induct)
  case (2 un k l ts)
  from "2.prems" "2.IH" show ?case
    by (fastforce dest: readsD simp: neq_Nil_conv split: if_splits sum.splits prod.splits)
qed simp

lemma or_loop_reads: "reads pa \<Longrightarrow> or_loop pa k l ts = Inr (n, r) \<Longrightarrow> length r \<le> length ts"
proof (induction pa k l ts arbitrary: n r rule: or_loop.induct)
  case (2 pa k l ts)
  from "2.prems" "2.IH" show ?case
    by (fastforce dest: readsD simp: neq_Nil_conv split: if_splits sum.splits prod.splits)
qed simp

lemma and_loop_total:
  "reads un \<Longrightarrow> total (Suc j) un \<Longrightarrow> length ts < k \<Longrightarrow> length ts \<le> j \<Longrightarrow> and_loop un k l ts \<noteq> Inl Out_of_fuel"
proof (induction un k l ts rule: and_loop.induct)
  case (2 un k l ts)
  have un: "un ts \<noteq> Inl Out_of_fuel" "un (tl ts) \<noteq> Inl Out_of_fuel"
    by (rule totalD [OF "2.prems"(2)], use "2.prems" in simp)+
  have "and_loop un k (And_node l n) r \<noteq> Inl Out_of_fuel"
    if "ts \<noteq> []" "hd ts = Tok_and" "un (tl ts) = Inr (n, r)" for n r
    using that "2.prems" readsD [OF "2.prems"(1) that(3)] by (intro "2.IH"(1)) (auto simp: neq_Nil_conv)
  moreover have "and_loop un k (And_node l n) r \<noteq> Inl Out_of_fuel"
    if "\<not> (ts \<noteq> [] \<and> hd ts = Tok_and)" "starts_primary ts" "un ts = Inr (n, r)" for n r
    using that "2.prems" readsD [OF "2.prems"(1) that(3)] by (intro "2.IH"(2)) auto
  ultimately show ?case using un by (auto split: sum.splits prod.splits)
qed simp

lemma or_loop_total:
  "reads pa \<Longrightarrow> total (Suc j) pa \<Longrightarrow> length ts < k \<Longrightarrow> length ts \<le> j \<Longrightarrow> or_loop pa k l ts \<noteq> Inl Out_of_fuel"
proof (induction pa k l ts rule: or_loop.induct)
  case (2 pa k l ts)
  have pa: "pa (tl ts) \<noteq> Inl Out_of_fuel" by (rule totalD [OF "2.prems"(2)], use "2.prems" in simp)
  have "or_loop pa k (Or_node l n) r \<noteq> Inl Out_of_fuel"
    if "ts \<noteq> []" "hd ts = Tok_or" "pa (tl ts) = Inr (n, r)" for n r
    using that "2.prems" readsD [OF "2.prems"(1) that(3)] by (intro "2.IH") (auto simp: neq_Nil_conv)
  then show ?case using pa by (auto split: sum.splits prod.splits)
qed simp

lemma and_reads: "reads un \<Longrightarrow> reads (parse_and un k)"
  unfolding reads_def [of "parse_and un k"] parse_and_def
  by (auto dest: readsD and_loop_reads split: sum.splits prod.splits)
    (meson and_loop_reads le_less_trans readsD)

lemma and_total: "reads un \<Longrightarrow> total (Suc k) un \<Longrightarrow> total (Suc k) (parse_and un k)"
proof -
  assume un: "reads un" "total (Suc k) un"
  have "parse_and un k ts \<noteq> Inl Out_of_fuel" if "length ts < Suc k" for ts
  proof -
    have "and_loop un k l r \<noteq> Inl Out_of_fuel" if "un ts = Inr (l, r)" for l r
      using un readsD [OF un(1) that] \<open>length ts < Suc k\<close> by (intro and_loop_total [where j = k]) auto
    then show ?thesis using totalD [OF un(2) that] by (auto simp: parse_and_def split: sum.splits prod.splits)
  qed
  then show ?thesis by (auto simp: total_def)
qed

lemma parse_or_reads: "reads (parse_or k)"
proof (induction k)
  case (Suc k)
  have pa: "reads (parse_and (parse_unary (parse_primary (parse_or k))) k)"
    by (intro and_reads unary_reads primary_reads Suc)
  show ?case
    unfolding reads_def
    using readsD [OF pa] or_loop_reads [OF pa]
    by (auto simp: Let_def split: sum.splits prod.splits) (meson le_less_trans)
qed (simp add: reads_def)

lemma parse_or_total: "total k (parse_or k)"
proof (induction k)
  case (Suc k)
  let ?pa = "parse_and (parse_unary (parse_primary (parse_or k))) k"
  have pa: "reads ?pa" by (intro and_reads unary_reads primary_reads parse_or_reads)
  have tot: "total (Suc k) ?pa"
    by (intro and_total unary_reads primary_reads parse_or_reads unary_total primary_total Suc)
  have "parse_or (Suc k) ts \<noteq> Inl Out_of_fuel" if "length ts < Suc k" for ts
  proof -
    have "or_loop ?pa k l r \<noteq> Inl Out_of_fuel" if "?pa ts = Inr (l, r)" for l r
      using readsD [OF pa that] \<open>length ts < Suc k\<close> by (intro or_loop_total [OF pa tot]) auto
    then show ?thesis using totalD [OF tot that] by (auto simp: Let_def split: sum.splits prod.splits)
  qed
  then show ?case by (auto simp: total_def)
qed (simp add: total_def)

lemma tok_cons_simps [simp]:
  "tok_cons t r = Inl e \<longleftrightarrow> r = Inl e"
  "tok_cons t (Inr ts) = Inr (t # ts)"
  by (cases r; simp add: tok_cons_def) (simp add: tok_cons_def)

lemma tokenize_total: "tokenize s \<noteq> Inl Out_of_fuel"
proof (induction s rule: tokenize.induct)
  case (1 s)
  show ?case
  proof (cases "s = []")
    case False
    show ?thesis
    proof (cases "strip_space s")
      case None
      note step = "1.IH"(1-8) [OF False None]
      show ?thesis
        unfolding tokenize.simps [of s]
        using False None step by (simp split: option.split prod.split)
    next
      case (Some t)
      with "1.IH"(9) [OF False Some] False show ?thesis by (simp add: tokenize.simps [of s])
    qed
  qed (simp add: tokenize.simps)
qed

text \<open>C38: Parsing ends on every text: the fuel given to the parser, one more than the number of tokens, is never
  used up, whatever the query.\<close>

theorem parse_query_terminates:
  "parse_query raw \<noteq> Inl Out_of_fuel \<and>
   (\<forall>ts. parse_or (query_fuel ts) ts \<noteq> Inl Out_of_fuel)"
proof -
  have p: "parse_or (query_fuel ts) ts \<noteq> Inl Out_of_fuel" for ts
    by (rule totalD [OF parse_or_total]) (simp add: query_fuel_def)
  have "parse_query raw \<noteq> Inl Out_of_fuel"
  proof (cases "tokenize raw")
    case (Inl e)
    with tokenize_total [of raw] show ?thesis by (simp add: parse_query_def)
  next
    case (Inr ts)
    with p [of ts] show ?thesis by (auto simp: parse_query_def split: sum.splits)
  qed
  with p show ?thesis by blast
qed

section \<open>Printing a query\<close>

fun field_name :: "field \<Rightarrow> string" where
  "field_name F_all = ''all''"
| "field_name F_ip = ''ip''"
| "field_name F_port = ''port''"
| "field_name F_country = ''country''"
| "field_name F_city = ''city''"
| "field_name F_action = ''action''"
| "field_name F_device = ''device''"
| "field_name F_src_ip = ''src_ip''"
| "field_name F_dst_ip = ''dst_ip''"
| "field_name F_src_port = ''src_port''"
| "field_name F_dst_port = ''dst_port''"
| "field_name F_src_country = ''src_country''"
| "field_name F_dst_country = ''dst_country''"
| "field_name F_src_city = ''src_city''"
| "field_name F_dst_city = ''dst_city''"
| "field_name F_src = ''src''"
| "field_name F_dst = ''dst''"
| "field_name F_proto = ''proto''"
| "field_name F_zone = ''zone''"

fun op_tok :: "search_op \<Rightarrow> tok" where
  "op_tok Op_contains = Tok_colon"
| "op_tok Op_eq = Tok_eq"
| "op_tok Op_ne = Tok_ne"

fun node_toks :: "node \<Rightarrow> tok list" where
  "node_toks (Term f op v) =
     (if f = F_all then [Tok_string v] else [Tok_word (field_name f), op_tok op, Tok_string v])"
| "node_toks (Not_node n) = Tok_lparen # Tok_not # node_toks n @ [Tok_rparen]"
| "node_toks (And_node a b) = Tok_lparen # node_toks a @ Tok_and # node_toks b @ [Tok_rparen]"
| "node_toks (Or_node a b) = Tok_lparen # node_toks a @ Tok_or # node_toks b @ [Tok_rparen]"

fun quote_text :: "string \<Rightarrow> string" where
  "quote_text [] = []"
| "quote_text (c # cs) = (if c = CHR 92 \<or> c = CHR 34 then [CHR 92, c] else [c]) @ quote_text cs"

fun tok_text :: "tok \<Rightarrow> string" where
  "tok_text (Tok_word w) = w"
| "tok_text (Tok_string v) = CHR 34 # quote_text v @ [CHR 34]"
| "tok_text Tok_colon = '':''"
| "tok_text Tok_eq = ''=''"
| "tok_text Tok_ne = ''!=''"
| "tok_text Tok_lparen = ''(''"
| "tok_text Tok_rparen = '')''"
| "tok_text Tok_and = ''AND''"
| "tok_text Tok_or = ''OR''"
| "tok_text Tok_not = ''NOT''"

fun toks_text :: "tok list \<Rightarrow> string" where
  "toks_text [] = []"
| "toks_text (t # ts) = tok_text t @ (if ts = [] then [] else CHR '' '' # toks_text ts)"

definition query_text :: "node \<Rightarrow> string" where
  "query_text n = toks_text (node_toks n)"

text \<open>
  The queries that have a text: without a field only \<open>contains\<close> can be written, and a quoted value is
  any well-formed UTF-8.
\<close>

fun printable :: "node \<Rightarrow> bool" where
  "printable (Term f op v) \<longleftrightarrow> (f = F_all \<longrightarrow> op = Op_contains) \<and> valid_utf8 v"
| "printable (Not_node n) \<longleftrightarrow> printable n"
| "printable (And_node a b) \<longleftrightarrow> printable a \<and> printable b"
| "printable (Or_node a b) \<longleftrightarrow> printable a \<and> printable b"

section \<open>The parser reads what was printed\<close>

lemma encode_rune_high: "128 \<le> r \<Longrightarrow> \<exists>c cs. encode_rune r = c # cs \<and> 128 \<le> code c"
proof -
  assume r: "128 \<le> r"
  have "128 \<le> code (byte (192 + r div 64))" if "r < 2048"
  proof -
    have "r div 64 < 32" using that by (intro less_mult_imp_div_less) simp
    then show ?thesis by simp
  qed
  moreover have "128 \<le> code (byte (224 + r div 4096))" if "r < 65536"
  proof -
    have "r div 4096 < 16" using that by (intro less_mult_imp_div_less) simp
    then show ?thesis by simp
  qed
  moreover have "128 \<le> code (byte (240 + r div 262144))" if "r \<le> 1114111"
  proof -
    have "r div 262144 < 16" using that by (intro less_mult_imp_div_less) simp
    then show ?thesis by simp
  qed
  ultimately show ?thesis using r by (auto simp: encode_rune_def)
qed

lemma utf8_not_ascii:
  assumes "128 \<le> r" "list_all (\<lambda>c. code c < 128) s"
  shows "(utf8 (r # rs) = s) = False" "(s = utf8 (r # rs)) = False"
  using encode_rune_high [OF assms(1)] assms(2) by (cases s; auto simp: utf8_def)+

lemma field_name_ascii: "list_all plain (field_name f)"
  by (cases f) (simp_all add: plain_def code_def)

lemma field_name_lower: "to_lower (field_name f) = field_name f"
  by (cases f) (simp_all add: code_def byte_def)

lemma find_field_name: "find_field (field_name f) = Some f"
proof -
  have "find_field (field_name f) = map_of field_aliases (field_name f)"
    by (simp add: find_field_def normalize_word_def list_all_trim field_name_ascii field_name_lower)
  also have "\<dots> = Some f"
    by (cases f) (simp_all add: field_aliases_def utf8_not_ascii code_def)
  finally show ?thesis .
qed

lemma node_toks_start: "node_toks n \<noteq> [] \<and> hd (node_toks n) \<noteq> Tok_not"
  by (cases n) auto

lemma parse_field_toks: "parse_field_term f (op_tok op # Tok_string v # r) = Inr (Term f op v, r)"
  by (cases op) (simp_all add: parse_field_term_def value_term_def parse_value_def)

lemma starts_operator_op [simp]: "starts_operator (op_tok op # r)"
  by (cases op) simp_all

lemma unary_prim: "hd ts \<noteq> Tok_not \<Longrightarrow> parse_unary prim ts = prim ts"
  by (subst parse_unary_eq) simp

abbreviation operand :: "nat \<Rightarrow> tok list \<Rightarrow> node parse" where
  "operand k \<equiv> parse_unary (parse_primary (parse_or k))"

lemma and_loop_stop [simp]:
  "and_loop un (Suc k) l (Tok_rparen # r) = Inr (l, Tok_rparen # r)"
  "and_loop un (Suc k) l (Tok_or # r) = Inr (l, Tok_or # r)"
  "and_loop un (Suc k) l [] = Inr (l, [])"
  by simp_all

lemma or_loop_stop [simp]:
  "or_loop pa (Suc k) l (Tok_rparen # r) = Inr (l, Tok_rparen # r)"
  "or_loop pa (Suc k) l [] = Inr (l, [])"
  by simp_all

lemma primary_paren:
  "parse_primary por (Tok_lparen # ts) =
     (case por ts of Inl e \<Rightarrow> Inl e
      | Inr (n, r') \<Rightarrow> if r' \<noteq> [] \<and> hd r' = Tok_rparen then Inr (n, tl r') else Inl Missing_paren)"
  by (simp add: parse_primary_def)

lemma operand_toks:
  assumes "printable n" "length (node_toks n) \<le> k"
  shows "operand k (node_toks n @ rest) = Inr (n, rest)"
  using assms
proof (induction n arbitrary: k rest)
  case (Term f op v)
  then show ?case
    by (auto simp: unary_prim parse_primary_def find_field_name parse_field_toks)
next
  case (Not_node n)
  have "2 \<le> k" using Not_node.prems by simp
  then obtain k' where "k = 2 + k'" by (metis le_Suc_ex)
  with Not_node.prems have k: "k = Suc (Suc k')" "length (node_toks n) \<le> Suc k'" by simp_all
  have inner: "operand (Suc k') (Tok_not # node_toks n @ Tok_rparen # rest) = Inr (Not_node n, Tok_rparen # rest)"
    using Not_node k by simp
  show ?case
    using inner k by (simp add: unary_prim primary_paren parse_and_def)
next
  case (And_node a b)
  have "3 \<le> k" using And_node.prems by simp
  then obtain k' where "k = 3 + k'" by (metis le_Suc_ex)
  with And_node.prems have k: "k = Suc (Suc (Suc k'))" "length (node_toks a) \<le> Suc (Suc k')"
      "length (node_toks b) \<le> Suc (Suc k')" by simp_all
  have a: "operand (Suc (Suc k')) (node_toks a @ Tok_and # node_toks b @ Tok_rparen # rest) =
      Inr (a, Tok_and # node_toks b @ Tok_rparen # rest)"
    and b: "operand (Suc (Suc k')) (node_toks b @ Tok_rparen # rest) = Inr (b, Tok_rparen # rest)"
    using And_node k by simp_all
  show ?case
    using a b k by (simp add: unary_prim primary_paren parse_and_def)
next
  case (Or_node a b)
  have "3 \<le> k" using Or_node.prems by simp
  then obtain k' where "k = 3 + k'" by (metis le_Suc_ex)
  with Or_node.prems have k: "k = Suc (Suc (Suc k'))" "length (node_toks a) \<le> Suc (Suc k')"
      "length (node_toks b) \<le> Suc (Suc k')" by simp_all
  have a: "operand (Suc (Suc k')) (node_toks a @ Tok_or # node_toks b @ Tok_rparen # rest) =
      Inr (a, Tok_or # node_toks b @ Tok_rparen # rest)"
    and b: "operand (Suc (Suc k')) (node_toks b @ Tok_rparen # rest) = Inr (b, Tok_rparen # rest)"
    using Or_node k by simp_all
  show ?case
    using a b k by (simp add: unary_prim primary_paren parse_and_def)
qed

lemma parse_or_toks:
  assumes "printable n" shows "parse_or (query_fuel (node_toks n)) (node_toks n) = Inr (n, [])"
proof -
  obtain k where k: "length (node_toks n) = Suc k" using node_toks_start [of n] by (cases "node_toks n") auto
  have "operand (Suc k) (node_toks n @ []) = Inr (n, [])"
    by (rule operand_toks [OF assms]) (simp add: k)
  then show ?thesis by (simp add: query_fuel_def k parse_and_def)
qed

section \<open>The tokenizer reads what was printed\<close>

lemma decode_rune_ascii: "code c < 128 \<Longrightarrow> decode_rune (c # s) = (code c, 1)"
  by simp

declare decode_rune.simps(2) [simp del] decode_rune_ascii [simp]

lemma valid_utf8_step:
  "valid_utf8 v \<Longrightarrow> v \<noteq> [] \<Longrightarrow> decode_rune v = (r, w) \<Longrightarrow> \<not> (r = rune_error \<and> w = 1) \<and> valid_utf8 (drop w v)"
  by (simp add: valid_utf8.simps [of v] split: if_splits)

text \<open>A well-formed first rune does not depend on what follows it, and has no ASCII byte if it is longer.\<close>

lemma decode_rune_prefix:
  assumes "decode_rune v = (r, w)" "v \<noteq> []" "\<not> (r = rune_error \<and> w = 1)"
  shows "decode_rune (take w v @ x) = (r, w)"
  using assms by (cases v) (auto simp: decode_rune.simps(2) split: list.splits if_splits)

lemma decode_rune_bytes:
  assumes "decode_rune (c # cs) = (r, w)" "128 \<le> code c" "\<not> (r = rune_error \<and> w = 1)"
  shows "\<forall>d\<in>set (take w (c # cs)). 128 \<le> code d"
  using assms by (auto simp: decode_rune.simps(2) cont_byte_def split: list.splits if_splits)

lemma quote_text_append: "quote_text (a @ b) = quote_text a @ quote_text b"
  by (induction a) auto

lemma quote_text_high: "\<forall>d\<in>set a. 128 \<le> code d \<Longrightarrow> quote_text a = a"
  by (induction a) (auto simp: code_def)

lemma scan_quote: "scan_string (CHR 34 # t) = Some ([], t)"
  by (subst scan_string.simps) (simp add: rest_rune_def code_def)

lemma scan_escape: "c = CHR 92 \<or> c = CHR 34 \<Longrightarrow>
    scan_string (CHR 92 # c # s) = map_option (\<lambda>(v, t). (c # v, t)) (scan_string s)"
  by (subst scan_string.simps)
    (auto simp: rest_rune_def rune_text_def rune_error_def code_def split: option.splits)

lemma scan_char:
  assumes "decode_rune s = (r, w)" "s \<noteq> []" "\<not> (r = rune_error \<and> w = 1)" "hd s \<noteq> CHR 92" "hd s \<noteq> CHR 34"
  shows "scan_string s = map_option (\<lambda>(v, t). (take w s @ v, t)) (scan_string (drop w s))"
  using assms by (subst scan_string.simps)
    (auto simp: rest_rune_def rune_text_def split: option.splits)

lemma scan_string_quote: "valid_utf8 v \<Longrightarrow> scan_string (quote_text v @ CHR 34 # t) = Some (v, t)"
proof (induction v rule: valid_utf8.induct)
  case (1 v)
  show ?case
  proof (cases v)
    case Nil
    then show ?thesis by (simp add: scan_quote)
  next
    case (Cons c cs)
    obtain r w where d: "decode_rune v = (r, w)" by (cases "decode_rune v")
    have valid: "\<not> (r = rune_error \<and> w = 1)" "valid_utf8 (drop w v)"
      using valid_utf8_step [OF "1.prems" _ d] Cons by auto
    have IH: "scan_string (quote_text (drop w v) @ CHR 34 # t) = Some (drop w v, t)"
      using "1.IH" d valid Cons by simp
    show ?thesis
    proof (cases "code c < 128")
      case True
      then have w: "w = 1" "drop w v = cs" using d Cons by auto
      show ?thesis
      proof (cases "c = CHR 92 \<or> c = CHR 34")
        case True
        with IH w Cons show ?thesis by (auto simp: scan_escape)
      next
        case False
        have "scan_string (c # quote_text cs @ CHR 34 # t) =
            map_option (\<lambda>(a, b). (take 1 (c # quote_text cs @ CHR 34 # t) @ a, b))
              (scan_string (drop 1 (c # quote_text cs @ CHR 34 # t)))"
          using True False
          by (intro scan_char [where r = "code c" and w = 1]) (auto simp: rune_error_def)
        with False IH w Cons show ?thesis by simp
      qed
    next
      case False
      then have high: "\<forall>d\<in>set (take w v). 128 \<le> code d"
        using decode_rune_bytes d Cons valid(1) by (metis not_less)
      have q: "quote_text v = take w v @ quote_text (drop w v)"
        using quote_text_append [of "take w v" "drop w v"] quote_text_high [OF high] by simp
      let ?s = "take w v @ (quote_text (drop w v) @ CHR 34 # t)"
      have w: "0 < w" "w \<le> length v"
        using decode_rune_width [of v] decode_rune_le [of v] d Cons by auto
      have dec: "decode_rune ?s = (r, w)"
        by (rule decode_rune_prefix [OF d _ valid(1)]) (simp add: Cons)
      have hd: "hd ?s = c" using w Cons by (cases w) auto
      have "scan_string ?s = map_option (\<lambda>(a, b). (take w ?s @ a, b)) (scan_string (drop w ?s))"
        by (rule scan_char [OF dec _ valid(1)]) (use hd False w Cons in \<open>auto simp: code_def\<close>)
      also have "\<dots> = Some (v, t)" using w IH by simp
      finally show ?thesis by (simp add: q)
    qed
  qed
qed

definition word_char :: "char \<Rightarrow> bool" where
  "word_char c \<longleftrightarrow> is_alnum c \<or> c = CHR ''_''"

lemma word_char_plain: "word_char c \<Longrightarrow> plain c \<and> \<not> word_stop (c # s) \<and> code c < 128"
proof -
  assume w: "word_char c"
  have p: "plain c" using w unfolding word_char_def by (auto simp: is_alnum_plain) (simp add: plain_def code_def)
  have "strip_space (c # s) = None" using p by (simp add: strip_space_plain)
  moreover have "c \<notin> {CHR ''('', CHR '')'', CHR '':'', CHR 34, CHR ''='', CHR ''!''}"
    using w by (auto simp: word_char_def is_alnum_def is_digit_def code_def)
  ultimately show ?thesis using p by (simp add: word_stop_def plain_def)
qed

lemma strip_blank [simp]: "strip_space (CHR '' '' # s) = Some s"
  by (cases "CHR '' '' # s" rule: strip_space.cases) (auto simp: ascii_space_def code_def)

lemma scan_word_chars: "list_all word_char w \<Longrightarrow> scan_word (w @ CHR '' '' # t) = (w, CHR '' '' # t)"
proof (induction w)
  case Nil
  then show ?case by (simp add: scan_word.simps word_stop_def)
next
  case (Cons c w)
  then have "\<not> word_stop (c # w @ CHR '' '' # t)" "code c < 128" using word_char_plain by simp_all
  with Cons show ?case by (subst scan_word.simps) (simp add: rest_rune_def)
qed

lemma tokenize_blank [simp]: "tokenize (CHR '' '' # s) = tokenize s"
  by (simp add: tokenize.simps [of "CHR '' '' # s"])

lemma tokenize_Nil [simp]: "tokenize [] = Inr []"
  by (simp add: tokenize.simps)

lemma strip_plain: "plain c \<Longrightarrow> strip_space (c # s) = None"
  by (simp add: strip_space_plain)

lemma tokenize_punct:
  "tokenize (CHR ''('' # s) = tok_cons Tok_lparen (tokenize s)"
  "tokenize (CHR '')'' # s) = tok_cons Tok_rparen (tokenize s)"
  "tokenize (CHR '':'' # s) = tok_cons Tok_colon (tokenize s)"
  "tokenize (CHR ''='' # s) = tok_cons Tok_eq (tokenize s)"
  "tokenize (CHR ''!'' # CHR ''='' # s) = tok_cons Tok_ne (tokenize s)"
  by (subst tokenize.simps; simp add: strip_plain plain_def code_def)+

lemma tokenize_string:
  "valid_utf8 v \<Longrightarrow> tokenize (CHR 34 # quote_text v @ CHR 34 # s) = tok_cons (Tok_string v) (tokenize s)"
  by (subst tokenize.simps) (simp add: strip_plain plain_def code_def scan_string_quote)

lemma tokenize_word:
  assumes "list_all word_char w" "w \<noteq> []"
  shows "tokenize (w @ CHR '' '' # s) = tok_cons (word_token w) (tokenize s)"
proof -
  obtain c cs where w: "w = c # cs" using assms(2) by (cases w) auto
  with assms have c: "strip_space (w @ CHR '' '' # s) = None"
    "c \<notin> {CHR ''('', CHR '')'', CHR '':'', CHR 34, CHR ''='', CHR ''!''}"
    using word_char_plain [of c "cs @ CHR '' '' # s"] by (auto simp: strip_plain word_stop_def)
  show ?thesis
    using c w scan_word_chars [OF assms(1), of s] by (subst tokenize.simps) (auto simp: w)
qed

fun tok_ok :: "tok \<Rightarrow> bool" where
  "tok_ok (Tok_word w) \<longleftrightarrow> w \<noteq> [] \<and> list_all word_char w \<and> word_token w = Tok_word w"
| "tok_ok (Tok_string v) \<longleftrightarrow> valid_utf8 v"
| "tok_ok _ \<longleftrightarrow> True"

lemma keyword_tokens:
  "word_token ''AND'' = Tok_and" "word_token ''OR'' = Tok_or" "word_token ''NOT'' = Tok_not"
  "list_all word_char ''AND''" "list_all word_char ''OR''" "list_all word_char ''NOT''"
  by (simp_all add: word_token_def code_def byte_def word_char_def is_alnum_def)

lemma tokenize_step: "tok_ok t \<Longrightarrow> tokenize (tok_text t @ CHR '' '' # s) = tok_cons t (tokenize s)"
  using tokenize_word [of "''AND''" s] tokenize_word [of "''OR''" s] tokenize_word [of "''NOT''" s]
  by (cases t) (simp_all add: tokenize_punct tokenize_string tokenize_word keyword_tokens(1-3)
      word_char_def is_alnum_def code_def)

lemma tokenize_toks:
  assumes "list_all tok_ok ts" "ts = [] \<or> last ts = Tok_rparen \<or> (\<exists>v. last ts = Tok_string v)"
  shows "tokenize (toks_text ts) = Inr ts"
  using assms
proof (induction ts)
  case (Cons t ts)
  show ?case
  proof (cases "ts = []")
    case True
    with Cons.prems show ?thesis
      using tokenize_punct(2) [of "[]"] tokenize_string [of _ "[]"] by auto
  next
    case False
    with Cons show ?thesis by (simp add: tokenize_step)
  qed
qed simp

lemma field_name_word: "tok_ok (Tok_word (field_name f))"
proof -
  have "word_token (field_name f) = Tok_word (field_name f)" by (induct f; code_simp)
  moreover have "list_all word_char (field_name f) \<and> field_name f \<noteq> []"
    by (cases f) (simp_all add: word_char_def is_alnum_def code_def)
  ultimately show ?thesis by simp
qed

lemma node_toks_ok:
  "printable n \<Longrightarrow> list_all tok_ok (node_toks n)"
  "last (node_toks n) = Tok_rparen \<or> (\<exists>v. last (node_toks n) = Tok_string v)"
proof -
  have "tok_ok (op_tok op)" for op by (cases op) simp_all
  then show "printable n \<Longrightarrow> list_all tok_ok (node_toks n)"
    using field_name_word by (induction n) (simp_all del: tok_ok.simps(1))
  show "last (node_toks n) = Tok_rparen \<or> (\<exists>v. last (node_toks n) = Tok_string v)"
    by (cases n) simp_all
qed

section \<open>Compiling what was printed\<close>

lemma runes_step: "s \<noteq> [] \<Longrightarrow> decode_rune s = (r, w) \<Longrightarrow> runes s = r # runes (drop w s)"
  by (simp add: runes.simps [of s])

lemma ascii_in_runes: "c \<in> set s \<Longrightarrow> code c < 128 \<Longrightarrow> code c \<in> set (runes s)"
proof (induction s rule: runes.induct)
  case (1 s)
  then obtain d ds where s: "s = d # ds" by (cases s) auto
  obtain r w where d: "decode_rune s = (r, w)" by (cases "decode_rune s")
  have w: "0 < w" using decode_rune_width [of s] d s by simp
  show ?case
  proof (cases "c \<in> set (drop w s)")
    case True
    with 1 d s have "code c \<in> set (runes (drop w s))" by simp
    with runes_step [OF _ d] s show ?thesis by simp
  next
    case False
    with "1.prems"(1) have c: "c \<in> set (take w s)" by (metis Un_iff append_take_drop_id set_append)
    have "code d < 128"
    proof (rule ccontr)
      assume high: "\<not> code d < 128"
      show False
      proof (cases "r = rune_error \<and> w = 1")
        case True
        with c s have "c = d" by simp
        with high "1.prems"(2) show False by simp
      next
        case False
        with decode_rune_bytes [of d ds r w] d s high c "1.prems"(2) show False by fastforce
      qed
    qed
    moreover from this d s have "r = code d" "w = 1" by auto
    ultimately show ?thesis using runes_step [OF _ d] s c by simp
  qed
qed

lemma quote_in_text: "CHR 34 \<in> set (query_text n)"
proof -
  have *: "Tok_string v \<in> set ts \<Longrightarrow> CHR 34 \<in> set (toks_text ts)" for v ts
    by (induction ts) auto
  have "\<exists>v. Tok_string v \<in> set (node_toks n)" by (induction n) auto
  with * show ?thesis by (auto simp: query_text_def)
qed

lemma toks_text_ends:
  assumes "ts \<noteq> []" "list_all (\<lambda>t. tok_text t \<noteq> []) ts"
  shows "hd (toks_text ts) = hd (tok_text (hd ts))" "last (toks_text ts) = last (tok_text (last ts))"
    "toks_text ts \<noteq> []"
  using assms by (induction ts) auto

lemma query_text_trim: "printable n \<Longrightarrow> trim_space (query_text n) = query_text n \<and> query_text n \<noteq> []"
proof -
  assume p: "printable n"
  have ne: "list_all (\<lambda>t. tok_text t \<noteq> []) (node_toks n)"
    using node_toks_ok(1) [OF p] by (auto simp: list_all_iff elim!: tok_ok.elims)
  have h: "plain (hd (tok_text (hd (node_toks n))))"
  proof (cases n)
    case (Term f op v)
    have "field_name f \<noteq> []" "plain (hd (field_name f))"
      using field_name_ascii [of f] by (cases f; simp)+
    with Term show ?thesis by (simp add: plain_def code_def)
  qed (simp_all add: plain_def code_def)
  have l: "plain (last (tok_text (last (node_toks n))))"
    using node_toks_ok(2) [of n] by (auto simp: plain_def code_def)
  note ends = toks_text_ends [OF conjunct1 [OF node_toks_start] ne]
  show ?thesis using ends h l by (simp add: query_text_def trim_space_plain)
qed

text \<open>C39: Every query tree can be written: printing a tree of terms, negations, conjunctions and disjunctions with
  canonical field names, quoted and escaped values and parentheses gives a text that \<open>Compile\<close> reads back
  as exactly that tree, for any values in well-formed UTF-8.\<close>

theorem query_roundtrip:
  assumes "printable n"
  shows "compile letters numbers (query_text n) = Root_query n"
proof -
  have adv: "looks_advanced letters numbers (query_text n)"
    using ascii_in_runes [OF quote_in_text [of n]] by (auto simp: looks_advanced_def list_ex_iff code_def)
  have toks: "tokenize (query_text n) = Inr (node_toks n)"
    unfolding query_text_def using node_toks_ok [of n] assms by (intro tokenize_toks) auto
  then have "parse_query (query_text n) = Inr (Some n)"
    using node_toks_start [of n] parse_or_toks [OF assms] by (simp add: parse_query_def)
  with adv query_text_trim [OF assms] show ?thesis by (simp add: compile_def Let_def)
qed

theorem query_roundtrip_witness:
  "compile (\<lambda>r. False) (\<lambda>r. False) (query_text (And_node (Term F_country Op_eq [CHR 34, CHR ''x'', CHR 92]) (Not_node (Term F_all Op_contains ''x y'')))) =
     Root_query (And_node (Term F_country Op_eq [CHR 34, CHR ''x'', CHR 92]) (Not_node (Term F_all Op_contains ''x y'')))"
proof -
  have "valid_utf8 [CHR 34, CHR ''x'', CHR 92]" by (rule valid_utf8_ascii) (simp add: code_def)
  moreover have "valid_utf8 ''x y''" by (rule valid_utf8_ascii) (simp add: code_def)
  ultimately show ?thesis by (intro query_roundtrip) simp
qed

section \<open>Clipping\<close>

definition scalar :: "nat \<Rightarrow> bool" where
  "scalar r \<longleftrightarrow> r < 55296 \<or> 57344 \<le> r \<and> r \<le> 1114111"

lemma digits_64:
  "r div 64 * 64 + r mod 64 = (r :: nat)"
  "r div 4096 * 4096 + r div 64 mod 64 * 64 + r mod 64 = (r :: nat)"
  "r div 262144 * 262144 + r div 4096 mod 64 * 4096 + r div 64 mod 64 * 64 + r mod 64 = (r :: nat)"
proof -
  show a: "r div 64 * 64 + r mod 64 = r" for r :: nat by simp
  have b: "r div 4096 * 64 + r div 64 mod 64 = r div 64" for r :: nat
    using a [of "r div 64"] by (simp add: div_mult2_eq [symmetric])
  show c: "r div 4096 * 4096 + r div 64 mod 64 * 64 + r mod 64 = r" for r :: nat
    using a [of r] arg_cong [OF b [of r], of "\<lambda>x. x * 64"] by (simp add: algebra_simps)
  have d: "r div 262144 * 64 + r div 4096 mod 64 = r div 4096" for r :: nat
    using a [of "r div 4096"] by (simp add: div_mult2_eq [symmetric])
  show "r div 262144 * 262144 + r div 4096 mod 64 * 4096 + r div 64 mod 64 * 64 + r mod 64 = r" for r :: nat
    using c [of r] arg_cong [OF d [of r], of "\<lambda>x. x * 4096"] by (simp add: algebra_simps)
qed

lemma small_div: "r < m * n \<Longrightarrow> r div n < (m :: nat)"
  by (rule less_mult_imp_div_less)

lemma code_byte_small: "n < 256 \<Longrightarrow> code (byte n) = n"
  by simp

lemma cont_byte_of: "cont_byte (byte (128 + n mod 64))"
proof -
  have "code (byte (128 + n mod 64)) = 128 + n mod 64" by (rule code_byte_small) (simp add: trans_less_add2)
  then show ?thesis by (simp add: cont_byte_def)
qed

lemma code_cont: "code (byte (128 + n mod 64)) = 128 + n mod 64"
proof (rule code_byte_small)
  have "n mod 64 < 64" by simp
  then show "128 + n mod 64 < 256" by linarith
qed

lemma lead_3:
  "A * 4096 + B * 64 + C = (r :: nat) \<Longrightarrow> C < 64 \<Longrightarrow> 2048 \<le> r \<Longrightarrow> A = 0 \<Longrightarrow> 32 \<le> B"
  "A * 4096 + B * 64 + C = (r :: nat) \<Longrightarrow> B < 64 \<Longrightarrow> C < 64 \<Longrightarrow> \<not> (55296 \<le> r \<and> r < 57344) \<Longrightarrow>
     A = 13 \<Longrightarrow> B \<le> 31"
  by auto

lemma lead_4:
  "A * 262144 + B * 4096 + C * 64 + D = (r :: nat) \<Longrightarrow> C < 64 \<Longrightarrow> D < 64 \<Longrightarrow> 65536 \<le> r \<Longrightarrow> A = 0 \<Longrightarrow> 16 \<le> B"
  "A * 262144 + B * 4096 + C * 64 + D = (r :: nat) \<Longrightarrow> r \<le> 1114111 \<Longrightarrow> A = 4 \<Longrightarrow> B \<le> 15"
  by auto

lemma scalar_3: "A \<le> 15 \<Longrightarrow> (A = 13 \<longrightarrow> B \<le> 31) \<Longrightarrow> B \<le> 63 \<Longrightarrow> C \<le> 63 \<Longrightarrow> scalar (A * 4096 + B * 64 + C)"
proof -
  assume a: "A \<le> 15" "A = 13 \<longrightarrow> B \<le> 31" "B \<le> 63" "C \<le> 63"
  consider "A \<le> 12" | "A = 13" | "14 \<le> A" by linarith
  then show ?thesis
  proof cases
    case 1
    with a show ?thesis by (simp add: scalar_def)
  next
    case 2
    with a show ?thesis by (simp add: scalar_def)
  next
    case 3
    with a show ?thesis by (simp add: scalar_def)
  qed
qed

lemma scalar_4: "A \<le> 4 \<Longrightarrow> (A = 0 \<longrightarrow> 16 \<le> B) \<Longrightarrow> (A = 4 \<longrightarrow> B \<le> 15) \<Longrightarrow> B \<le> 63 \<Longrightarrow> C \<le> 63 \<Longrightarrow> D \<le> 63 \<Longrightarrow>
    scalar (A * 262144 + B * 4096 + C * 64 + D)"
proof -
  assume a: "A \<le> 4" "A = 0 \<longrightarrow> 16 \<le> B" "A = 4 \<longrightarrow> B \<le> 15" "B \<le> 63" "C \<le> 63" "D \<le> 63"
  consider "A = 0" | "1 \<le> A" "A \<le> 3" | "A = 4" using a(1) by linarith
  then show ?thesis
  proof cases
    case 1
    with a show ?thesis by (simp add: scalar_def)
  next
    case 2
    with a show ?thesis by (simp add: scalar_def)
  next
    case 3
    with a show ?thesis by (simp add: scalar_def)
  qed
qed

lemma scalar_small: "r < 2048 \<Longrightarrow> scalar r" "scalar 65533"
  by (simp_all add: scalar_def)

lemma decode_3:
  assumes "A < 16" "B < 64" "C < 64" "A = 0 \<longrightarrow> 32 \<le> B" "A = 13 \<longrightarrow> B \<le> 31"
  shows "decode_rune (byte (224 + A) # byte (128 + B) # byte (128 + C) # t) = (A * 4096 + B * 64 + C, 3)"
  using assms by (simp add: decode_rune.simps(2) cont_byte_def)

lemma decode_4:
  assumes "A < 5" "B < 64" "C < 64" "D < 64" "A = 0 \<longrightarrow> 16 \<le> B" "A = 4 \<longrightarrow> B \<le> 15"
  shows "decode_rune (byte (240 + A) # byte (128 + B) # byte (128 + C) # byte (128 + D) # t) =
    (A * 262144 + B * 4096 + C * 64 + D, 4)"
  using assms by (simp add: decode_rune.simps(2) cont_byte_def)

lemma decode_encode_2:
  assumes "128 \<le> r" "r < 2048"
  shows "decode_rune (byte (192 + r div 64) # byte (128 + r mod 64) # t) = (r, 2)"
proof -
  have q: "r div 64 < 32" "2 \<le> r div 64" using assms small_div [of r 32 64] by (auto simp: less_eq_div_iff_mult_less_eq)
  then have c: "code (byte (192 + r div 64)) = 192 + r div 64" by (intro code_byte_small) simp
  show ?thesis
    using q digits_64(1) [of r] by (simp add: decode_rune.simps(2) c code_cont cont_byte_of)
qed

lemma decode_encode_3:
  assumes "2048 \<le> r" "r < 65536" "\<not> (55296 \<le> r \<and> r < 57344)"
  shows "decode_rune (byte (224 + r div 4096) # byte (128 + r div 64 mod 64) # byte (128 + r mod 64) # t) = (r, 3)"
proof -
  note d = digits_64(2) [of r]
  have m: "r mod 64 < 64" "r div 64 mod 64 < 64" by simp_all
  have "decode_rune (byte (224 + r div 4096) # byte (128 + r div 64 mod 64) # byte (128 + r mod 64) # t) =
      (r div 4096 * 4096 + r div 64 mod 64 * 64 + r mod 64, 3)"
  proof (rule decode_3)
    show "r div 4096 < 16" using assms small_div [of r 16 4096] by simp
    show "r div 4096 = 0 \<longrightarrow> 32 \<le> r div 64 mod 64"
      using lead_3(1) [OF d m(1) assms(1)] by blast
    show "r div 4096 = 13 \<longrightarrow> r div 64 mod 64 \<le> 31"
      using lead_3(2) [OF d m(2,1) assms(3)] by blast
  qed simp_all
  with d show ?thesis by simp
qed

lemma decode_encode_4:
  assumes "65536 \<le> r" "r \<le> 1114111"
  shows "decode_rune (byte (240 + r div 262144) # byte (128 + r div 4096 mod 64) # byte (128 + r div 64 mod 64) #
    byte (128 + r mod 64) # t) = (r, 4)"
proof -
  note d = digits_64(3) [of r]
  have m: "r mod 64 < 64" "r div 64 mod 64 < 64" by simp_all
  have "decode_rune (byte (240 + r div 262144) # byte (128 + r div 4096 mod 64) # byte (128 + r div 64 mod 64) #
      byte (128 + r mod 64) # t) =
    (r div 262144 * 262144 + r div 4096 mod 64 * 4096 + r div 64 mod 64 * 64 + r mod 64, 4)"
  proof (rule decode_4)
    show "r div 262144 < 5" using assms small_div [of r 5 262144] by simp
    show "r div 262144 = 0 \<longrightarrow> 16 \<le> r div 4096 mod 64"
      using lead_4(1) [OF d m(2,1) assms(1)] by blast
    show "r div 262144 = 4 \<longrightarrow> r div 4096 mod 64 \<le> 15" using lead_4(2) [OF d assms(2)] by blast
  qed simp_all
  with d show ?thesis by simp
qed

lemma decode_encode: "scalar r \<Longrightarrow> decode_rune (encode_rune r @ t) = (r, length (encode_rune r))"
  by (auto simp: encode_rune_def scalar_def decode_encode_2 decode_encode_3 decode_encode_4 not_less not_le)

lemma encode_rune_not_Nil [simp]: "encode_rune r \<noteq> []"
  by (simp add: encode_rune_def)

lemma runes_utf8: "list_all scalar rs \<Longrightarrow> runes (utf8 rs) = rs"
proof (induction rs)
  case Nil
  then show ?case by (simp add: utf8_def)
next
  case (Cons r rs)
  have u: "utf8 (r # rs) = encode_rune r @ utf8 rs" by (simp add: utf8_def)
  have "decode_rune (utf8 (r # rs)) = (r, length (encode_rune r))"
    unfolding u by (rule decode_encode) (use Cons.prems in simp)
  from runes_step [OF _ this] Cons u show ?case by simp
qed

lemma decode_scalar_val: "decode_rune s = (r, w) \<Longrightarrow> s \<noteq> [] \<Longrightarrow> scalar r"
  by (cases s)
    (auto simp: decode_rune.simps(2) scalar_small rune_error_def cont_byte_def
      simp del: Nat.add_diff_assoc Nat.add_diff_assoc2
      intro!: scalar_3 scalar_4 split: list.splits if_splits)

lemma decode_zero: "decode_rune s = (0, w) \<Longrightarrow> s \<noteq> [] \<Longrightarrow> \<exists>c\<in>set s. code c = 0"
  by (cases s) (auto simp: decode_rune.simps(2) rune_error_def split: list.splits if_splits)

lemma decode_scalar:
  assumes "decode_rune s = (r, w)" "s \<noteq> []" shows "scalar r \<and> (r = 0 \<longrightarrow> (\<exists>c\<in>set s. code c = 0))"
  using decode_scalar_val [OF assms] decode_zero assms by blast

lemma runes_scalar: "list_all (\<lambda>r. scalar r \<and> (r = 0 \<longrightarrow> (\<exists>c\<in>set s. code c = 0))) (runes s)"
proof (induction s rule: runes.induct)
  case (1 s)
  show ?case
  proof (cases "s = []")
    case False
    obtain r w where d: "decode_rune s = (r, w)" by (cases "decode_rune s")
    have "list_all (\<lambda>r. scalar r \<and> (r = 0 \<longrightarrow> (\<exists>c\<in>set (drop w s). code c = 0))) (runes (drop w s))"
      using 1 [OF False] d by simp
    then have "list_all (\<lambda>r. scalar r \<and> (r = 0 \<longrightarrow> (\<exists>c\<in>set s. code c = 0))) (runes (drop w s))"
      by (auto simp: list_all_iff dest!: in_set_dropD)
    with decode_scalar [OF d False] runes_step [OF False d] show ?thesis by simp
  qed simp
qed

lemma runes_no_nul: "\<forall>c\<in>set s. code c \<noteq> 0 \<Longrightarrow> list_all (\<lambda>r. scalar r \<and> r \<noteq> 0) (runes s)"
  by (rule list.pred_mono_strong [OF runes_scalar]) blast

lemma code_nonzero: "0 < n \<Longrightarrow> n < 256 \<Longrightarrow> 0 < code (byte n)"
  by simp

lemma encode_no_nul:
  assumes "scalar r" "r \<noteq> 0" shows "\<forall>c\<in>set (encode_rune r). code c \<noteq> 0"
proof -
  have "r < 2048 \<Longrightarrow> r div 64 < 32" "r < 65536 \<Longrightarrow> r div 4096 < 16" "r \<le> 1114111 \<Longrightarrow> r div 262144 < 5"
    by (auto intro: small_div)
  with assms show ?thesis
    unfolding encode_rune_def scalar_def
    by (auto simp: code_cont simp del: code_byte intro!: code_nonzero)
qed

lemma utf8_no_nul: "list_all (\<lambda>r. scalar r \<and> r \<noteq> 0) rs \<Longrightarrow> \<forall>c\<in>set (utf8 rs). code c \<noteq> 0"
  using encode_no_nul by (induction rs) (auto simp: utf8_def)

text \<open>The clipped text of the map's search box has at most the given number of runes and no NUL byte, and a
  text that needs no clipping keeps everything but the space around it and its NUL bytes.\<close>

theorem clip_runes_correct:
  "length (runes (clip_runes s n)) \<le> n \<and> (\<forall>c\<in>set (clip_runes s n). code c \<noteq> 0)
   \<and> (length (runes (trim_space s)) \<le> n \<and> (\<forall>c\<in>set s. code c \<noteq> 0) \<longrightarrow> 0 < n \<longrightarrow> clip_runes s n = trim_space s)"
proof -
  let ?s = "filter (\<lambda>c. code c \<noteq> 0) (trim_space s)"
  have nul: "list_all (\<lambda>r. scalar r \<and> r \<noteq> 0) (runes ?s)"
    by (rule runes_no_nul) simp
  then have taken: "list_all (\<lambda>r. scalar r \<and> r \<noteq> 0) (take n (runes ?s))"
    by (metis append_take_drop_id list_all_append)
  have "runes (utf8 (take n (runes ?s))) = take n (runes ?s)"
    by (rule runes_utf8, rule list.pred_mono_strong [OF taken]) blast
  then have "length (runes (clip_runes s n)) \<le> n" by (simp add: clip_runes_def Let_def)
  moreover have "\<forall>c\<in>set (clip_runes s n). code c \<noteq> 0"
  proof -
    have "clip_runes s n \<in> {[], ?s, utf8 (take n (runes ?s))}" by (simp add: clip_runes_def Let_def)
    moreover have "\<forall>c\<in>set ?s. code c \<noteq> 0" by simp
    ultimately show ?thesis using utf8_no_nul [OF taken] by (metis empty_iff insert_iff list.set(1))
  qed
  moreover have "clip_runes s n = trim_space s"
    if "length (runes (trim_space s)) \<le> n" "\<forall>c\<in>set s. code c \<noteq> 0" "0 < n"
  proof -
    have "set (trim_space s) \<subseteq> set s"
    proof -
      obtain u where "trim_left s = trim_space s @ u" using trim_right_prefix by (metis trim_space_def)
      moreover obtain v where "s = v @ trim_left s"
      proof -
        have "\<exists>v. s = v @ trim_left s"
        proof (induction s rule: trim_left.induct)
          case (1 s)
          show ?case
          proof (cases "strip_space s")
            case (Some t)
            with 1 [OF Some] strip_space_suffix [OF Some] show ?thesis
              by (metis append.assoc option.simps(5) trim_left.simps)
          qed (simp add: trim_left.simps)
        qed
        then show thesis using that by blast
      qed
      ultimately show ?thesis by (metis Un_iff set_append subsetI)
    qed
    with that(2) have "?s = trim_space s" by (auto simp: filter_id_conv)
    with that show ?thesis by (simp add: clip_runes_def Let_def)
  qed
  ultimately show ?thesis by blast
qed

theorem clip_runes_correct_witness:
  "length (runes (clip_runes '' abc '' 2)) \<le> 2 \<and> clip_runes ''abc'' 3 = ''abc''"
proof -
  have "length (runes (trim_space ''abc'')) \<le> 3 \<and> (\<forall>c\<in>set ''abc''. code c \<noteq> 0)"
    using length_runes [of "''abc''"] by (simp add: trim_space_plain plain_def code_def)
  moreover have "trim_space ''abc'' = ''abc''" by (simp add: trim_space_plain plain_def code_def)
  ultimately show ?thesis
    using clip_runes_correct [of "'' abc ''" 2] clip_runes_correct [of "''abc''" 3] by simp
qed

section \<open>Limits\<close>

lemma assess_cap: "qc_limit_cap (assess_map_query_cost inp) \<in> {3000, 8000, 10000, 50000}"
  by (simp add: assess_map_query_cost_def Let_def)

lemma effective_limit:
  assumes "qc_limit_cap cost \<in> {3000, 8000, 10000, 50000}" "effective_map_limit requested cost = (applied, capped)"
  shows "1 \<le> applied" "applied \<le> qc_limit_cap cost" "qc_limit_cap cost \<le> 50000"
    and "0 < requested \<Longrightarrow> requested \<le> qc_limit_cap cost \<Longrightarrow> applied = requested \<and> \<not> capped"
  using assms by (auto simp: effective_map_limit_def Let_def split: if_splits)

definition cap_of :: "(cost_reason \<times> bool \<times> bool) option \<Rightarrow> bool \<Rightarrow> bool \<Rightarrow> int" where
  "cap_of p rep filtered =
     (if (case p of None \<Rightarrow> False | Some (r, h, m) \<Rightarrow> h) \<or> rep then (if filtered then 8000 else 3000)
      else if (case p of None \<Rightarrow> False | Some (r, h, m) \<Rightarrow> m) then 10000 else 50000)"

definition group_of :: "cost_input \<Rightarrow> string" where
  "group_of inp = (let g0 = to_lower (trim_space (ci_group_by inp)) in if g0 = [] then ''city'' else g0)"

lemma assess_cap_of:
  "qc_limit_cap (assess_map_query_cost inp) =
     (let f = has_map_filter (ci_country inp) (ci_query inp); ip = is_ip_group (group_of inp) in
      cap_of (period_reason (to_lower (trim_space (ci_mode inp))) (ci_amount inp) (ci_from inp) (ci_to inp) f ip)
        (ci_rep inp \<and> ip) f)"
  by (simp add: assess_map_query_cost_def cap_of_def group_of_def Let_def)

lemma period_filtered:
  "period_reason mode amount t0 t1 True ip = None \<or>
   period_reason mode amount t0 t1 True ip = period_reason mode amount t0 t1 False ip \<or>
   (\<exists>r r'. period_reason mode amount t0 t1 True ip = Some (r, False, True) \<and>
      period_reason mode amount t0 t1 False ip = Some (r', True, False))"
  by (auto simp: period_reason_def Let_def)

lemma cap_of_filtered:
  "cap_of (period_reason mode amount t0 t1 False ip) rep False \<le> cap_of (period_reason mode amount t0 t1 True ip) rep True"
  using period_filtered [of mode amount t0 t1 ip]
  by (auto simp: cap_of_def split: option.splits)

lemma filter_keeps_cap:
  assumes "has_map_filter c q"
  shows "qc_limit_cap (assess_map_query_cost inp) \<le>
    qc_limit_cap (assess_map_query_cost (inp\<lparr>ci_country := c, ci_query := q\<rparr>))"
proof -
  have g: "group_of (inp\<lparr>ci_country := c, ci_query := q\<rparr>) = group_of inp" by (simp add: group_of_def)
  show ?thesis
    unfolding assess_cap_of Let_def g using assms cap_of_filtered
    by (cases "has_map_filter (ci_country inp) (ci_query inp)") simp_all
qed

text \<open>The limit of a map query is between one and 50,000 rows and never above the cap of its cost, it is the
  requested one when that fits, and adding a country or a search text to a query never lowers its cap; a heavy query
  gets at most 8,000 rows.\<close>

theorem map_limit_correct:
  "let cost = assess_map_query_cost inp; (applied, capped) = effective_map_limit requested cost in
     1 \<le> applied \<and> applied \<le> qc_limit_cap cost \<and> qc_limit_cap cost \<le> 50000
   \<and> (0 < requested \<and> requested \<le> qc_limit_cap cost \<longrightarrow> applied = requested \<and> \<not> capped)
   \<and> (qc_tier cost = Heavy \<longrightarrow> applied \<le> 8000)
   \<and> (has_map_filter c q \<longrightarrow>
        qc_limit_cap cost \<le> qc_limit_cap (assess_map_query_cost (inp\<lparr>ci_country := c, ci_query := q\<rparr>)))"
proof -
  let ?cost = "assess_map_query_cost inp"
  have cap: "qc_limit_cap ?cost \<in> {3000, 8000, 10000, 50000}" by (rule assess_cap)
  have tier: "qc_tier ?cost = Heavy \<longrightarrow> qc_limit_cap ?cost \<le> 8000"
    by (simp add: assess_map_query_cost_def Let_def)
  note mono = filter_keeps_cap [of c q inp]
  obtain applied capped where eff: "effective_map_limit requested ?cost = (applied, capped)"
    by (cases "effective_map_limit requested ?cost")
  show ?thesis
    unfolding Let_def eff prod.case
    using effective_limit [OF cap eff] tier mono by linarith
qed

theorem map_limit_correct_witness:
  "fst (effective_map_limit 20000 (assess_map_query_cost
     \<lparr>ci_group_by = ''city'', ci_mode = ''hours'', ci_amount = 7, ci_from = 0, ci_to = 0, ci_country = [],
      ci_query = [], ci_rep = False\<rparr>)) \<le> 50000"
  using map_limit_correct [of "\<lparr>ci_group_by = ''city'', ci_mode = ''hours'', ci_amount = 7, ci_from = 0, ci_to = 0,
      ci_country = [], ci_query = [], ci_rep = False\<rparr>" 20000 "[]" "[]"]
  by (simp add: Let_def case_prod_unfold)

end
