(* ===== verification/Map_SQL.thy ===== *)
theory Map_SQL
  imports Map_Search
begin

text \<open>
  The SQL of the map's search (\<^verbatim>\<open>adapter/clickhouse/sqlclause/mapsearch_sql.go\<close>,
  \<^verbatim>\<open>map_scope.go\<close>): the tree of a query becomes the text of a predicate with placeholders and
  the list of its bind arguments.

  The strings are built as the code builds them. \<open>sql_pred\<close> is the abstract predicate behind such a
  text, with its meaning over a row; ClickHouse's two string functions are arguments of that meaning. An empty text
  stands for no condition, as in the code.
\<close>

section \<open>Columns\<close>

record map_columns =
  mc_all :: string
  mc_ip :: "string list"
  mc_port :: "string list"
  mc_country :: "string list"
  mc_city :: "string list"
  mc_action :: "string list"
  mc_device :: "string list"
  mc_src_ip :: "string list"
  mc_dst_ip :: "string list"
  mc_src_port :: "string list"
  mc_dst_port :: "string list"
  mc_src_country :: "string list"
  mc_dst_country :: "string list"
  mc_src_city :: "string list"
  mc_dst_city :: "string list"
  mc_src :: "string list"
  mc_dst :: "string list"
  mc_proto :: "string list"
  mc_zone :: "string list"

fun cols_of :: "map_columns \<Rightarrow> field \<Rightarrow> string list" where
  "cols_of c F_ip = mc_ip c"
| "cols_of c F_port = mc_port c"
| "cols_of c F_country = mc_country c"
| "cols_of c F_city = mc_city c"
| "cols_of c F_action = mc_action c"
| "cols_of c F_device = mc_device c"
| "cols_of c F_src_ip = mc_src_ip c"
| "cols_of c F_dst_ip = mc_dst_ip c"
| "cols_of c F_src_port = mc_src_port c"
| "cols_of c F_dst_port = mc_dst_port c"
| "cols_of c F_src_country = mc_src_country c"
| "cols_of c F_dst_country = mc_dst_country c"
| "cols_of c F_src_city = mc_src_city c"
| "cols_of c F_dst_city = mc_dst_city c"
| "cols_of c F_src = mc_src c"
| "cols_of c F_dst = mc_dst c"
| "cols_of c F_proto = mc_proto c"
| "cols_of c F_zone = mc_zone c"
| "cols_of c F_all = []"

definition logs_columns :: map_columns where
  "logs_columns =
     \<lparr>mc_all = ''concat_ws('' @ [CHR 39] @ '' '' @ [CHR 39] @ '', toString(src_ip), toString(dst_ip), toString(src_port), toString(dst_port), src_country, dst_country, src_city, dst_city, action, device, proto, src_zone, dst_zone)'',
      mc_ip = [''toString(src_ip)'', ''toString(dst_ip)''],
      mc_port = [''toString(src_port)'', ''toString(dst_port)''],
      mc_country = [''src_country'', ''dst_country''],
      mc_city = [''src_city'', ''dst_city''],
      mc_action = [''action''],
      mc_device = [''device''],
      mc_src_ip = [''toString(src_ip)''],
      mc_dst_ip = [''toString(dst_ip)''],
      mc_src_port = [''toString(src_port)''],
      mc_dst_port = [''toString(dst_port)''],
      mc_src_country = [''src_country''],
      mc_dst_country = [''dst_country''],
      mc_src_city = [''src_city''],
      mc_dst_city = [''dst_city''],
      mc_src = [''toString(src_ip)'', ''src_country''],
      mc_dst = [''toString(dst_ip)'', ''dst_country''],
      mc_proto = [''proto''],
      mc_zone = [''src_zone'', ''dst_zone'']\<rparr>"

definition geo_columns :: map_columns where
  "geo_columns =
     \<lparr>mc_all = ''concat_ws('' @ [CHR 39] @ '' '' @ [CHR 39] @ '', src_key, dst_key, src_label, dst_label, toString(src_port), toString(dst_port), src_country, dst_country, src_city, dst_city, last_action, device, proto)'',
      mc_ip = [''src_key'', ''dst_key'', ''src_label'', ''dst_label''],
      mc_port = [''toString(src_port)'', ''toString(dst_port)''],
      mc_country = [''src_country'', ''dst_country'', ''src_key'', ''dst_key''],
      mc_city = [''src_city'', ''dst_city'', ''src_label'', ''dst_label''],
      mc_action = [''last_action''],
      mc_device = [''device''],
      mc_src_ip = [''src_key'', ''src_label''],
      mc_dst_ip = [''dst_key'', ''dst_label''],
      mc_src_port = [''toString(src_port)''],
      mc_dst_port = [''toString(dst_port)''],
      mc_src_country = [''src_country''],
      mc_dst_country = [''dst_country''],
      mc_src_city = [''src_city'', ''src_label''],
      mc_dst_city = [''dst_city'', ''dst_label''],
      mc_src = [''src_key'', ''src_label'', ''src_country''],
      mc_dst = [''dst_key'', ''dst_label'', ''dst_country''],
      mc_proto = [''proto''],
      mc_zone = [''src_key'', ''dst_key'']\<rparr>"

definition ip_agg_columns :: map_columns where
  "ip_agg_columns =
     \<lparr>mc_all = ''concat_ws('' @ [CHR 39] @ '' '' @ [CHR 39] @ '', toString(src_ip), toString(dst_ip), toString(src_port), toString(dst_port), src_country, dst_country, src_city, dst_city, last_action, device, proto)'',
      mc_ip = [''toString(src_ip)'', ''toString(dst_ip)''],
      mc_port = [''toString(src_port)'', ''toString(dst_port)''],
      mc_country = [''src_country'', ''dst_country''],
      mc_city = [''src_city'', ''dst_city''],
      mc_action = [''last_action''],
      mc_device = [''device''],
      mc_src_ip = [''toString(src_ip)''],
      mc_dst_ip = [''toString(dst_ip)''],
      mc_src_port = [''toString(src_port)''],
      mc_dst_port = [''toString(dst_port)''],
      mc_src_country = [''src_country''],
      mc_dst_country = [''dst_country''],
      mc_src_city = [''src_city''],
      mc_dst_city = [''dst_city''],
      mc_src = [''toString(src_ip)'', ''src_country''],
      mc_dst = [''toString(dst_ip)'', ''dst_country''],
      mc_proto = [''proto''],
      mc_zone = [''toString(src_ip)'', ''toString(dst_ip)'']\<rparr>"

definition country_needles :: "(string \<times> string list) list" where
  "country_needles =
    [(utf8 [1088, 1086, 1089, 1089, 1080, 1103], [utf8 [1056, 1086, 1089, 1089, 1080, 1103], ''Russia'', ''Russian Federation'', ''RU'']),
     (''russia'', [utf8 [1056, 1086, 1089, 1089, 1080, 1103], ''Russia'', ''Russian Federation'', ''RU'']),
     (''russian federation'', [utf8 [1056, 1086, 1089, 1089, 1080, 1103], ''Russia'', ''Russian Federation'', ''RU'']),
     (''ru'', [utf8 [1056, 1086, 1089, 1089, 1080, 1103], ''Russia'', ''RU'']),
     (utf8 [1089, 1096, 1072], [utf8 [1057, 1064, 1040], ''United States'', ''USA'', ''US'']),
     (''united states'', [utf8 [1057, 1064, 1040], ''United States'', ''USA'', ''US'']),
     (''usa'', [utf8 [1057, 1064, 1040], ''United States'', ''USA'', ''US'']),
     (''us'', [utf8 [1057, 1064, 1040], ''United States'', ''USA'', ''US'']),
     (utf8 [1082, 1072, 1079, 1072, 1093, 1089, 1090, 1072, 1085], [utf8 [1050, 1072, 1079, 1072, 1093, 1089, 1090, 1072, 1085], ''Kazakhstan'', ''KZ'']),
     (''kazakhstan'', [utf8 [1050, 1072, 1079, 1072, 1093, 1089, 1090, 1072, 1085], ''Kazakhstan'', ''KZ'']),
     (utf8 [1082, 1080, 1090, 1072, 1081], [utf8 [1050, 1080, 1090, 1072, 1081], ''China'', ''CN'']),
     (''china'', [utf8 [1050, 1080, 1090, 1072, 1081], ''China'', ''CN'']),
     (utf8 [1075, 1077, 1088, 1084, 1072, 1085, 1080, 1103], [utf8 [1043, 1077, 1088, 1084, 1072, 1085, 1080, 1103], ''Germany'', ''DE'']),
     (''germany'', [utf8 [1043, 1077, 1088, 1084, 1072, 1085, 1080, 1103], ''Germany'', ''DE'']),
     (''de'', [utf8 [1043, 1077, 1088, 1084, 1072, 1085, 1080, 1103], ''Germany'', ''DE''])]"

section \<open>The text of a predicate\<close>

type_synonym sql = "string \<times> string list"

definition col_match_sql :: "string \<Rightarrow> string \<Rightarrow> search_op \<Rightarrow> string \<times> string" where
  "col_match_sql col needle op =
     (case op of
        Op_eq \<Rightarrow> (''lowerUTF8('' @ col @ '') = lowerUTF8(?)'', needle)
      | Op_ne \<Rightarrow> (''lowerUTF8('' @ col @ '') != lowerUTF8(?)'', needle)
      | Op_contains \<Rightarrow> (''positionCaseInsensitiveUTF8('' @ col @ '', ?) > 0'', needle))"

definition join_by_op :: "search_op \<Rightarrow> string list \<Rightarrow> string" where
  "join_by_op op parts =
     (case parts of
        [] \<Rightarrow> []
      | [p] \<Rightarrow> p
      | _ \<Rightarrow> ''('' @ join (if op = Op_ne then '' AND '' else '' OR '') parts @ '')'')"

definition term_needles :: "field \<Rightarrow> string \<Rightarrow> string list" where
  "term_needles f v =
     (if f \<in> {F_country, F_src_country, F_dst_country, F_all} then
        (case map_of country_needles (to_lower (trim_space v)) of Some ns \<Rightarrow> ns | None \<Rightarrow> [v])
      else [v])"

fun needle_parts :: "string list \<Rightarrow> search_op \<Rightarrow> string list \<Rightarrow> (string \<times> string) list" where
  "needle_parts columns op [] = []"
| "needle_parts columns op (needle # needles) =
     (if trim_space needle = [] then needle_parts columns op needles
      else map (\<lambda>col. col_match_sql col needle op) columns @ needle_parts columns op needles)"

definition term_sql :: "map_columns \<Rightarrow> field \<Rightarrow> search_op \<Rightarrow> string \<Rightarrow> sql" where
  "term_sql cols f op v =
     (let needles = term_needles f v in
      if f = F_all then
        (let ps = needle_parts [mc_all cols] op needles in (join_by_op op (map fst ps), map snd ps))
      else
        let field_cols = cols_of cols f in
        if field_cols = [] then ([], [])
        else (let ps = needle_parts field_cols op needles in (join_by_op op (map fst ps), map snd ps)))"

definition join_bool :: "string \<Rightarrow> sql \<Rightarrow> sql \<Rightarrow> sql" where
  "join_bool op l r =
     (if fst l = [] \<and> fst r = [] then ([], [])
      else if fst l = [] then r
      else if fst r = [] then l
      else (''('' @ fst l @ '') '' @ op @ '' ('' @ fst r @ '')'', snd l @ snd r))"

fun node_sql :: "map_columns \<Rightarrow> node \<Rightarrow> sql" where
  "node_sql cols (Not_node n) =
     (let inner = node_sql cols n in
      if fst inner = [] then ([], []) else (''NOT ('' @ fst inner @ '')'', snd inner))"
| "node_sql cols (And_node a b) = join_bool ''AND'' (node_sql cols a) (node_sql cols b)"
| "node_sql cols (Or_node a b) = join_bool ''OR'' (node_sql cols a) (node_sql cols b)"
| "node_sql cols (Term f op v) = term_sql cols f op v"

definition map_search_sql :: "compiled \<Rightarrow> map_columns \<Rightarrow> sql" where
  "map_search_sql c cols =
     (case c of
        Empty_query \<Rightarrow> ([], [])
      | Simple_query txt \<Rightarrow>
          if txt = [] then ([], []) else (''positionCaseInsensitiveUTF8('' @ mc_all cols @ '', ?) > 0'', [txt])
      | Root_query n \<Rightarrow> node_sql cols n)"

section \<open>WHERE and HAVING\<close>

record map_scope =
  sc_country :: string
  sc_query :: string

definition sanitized :: "map_scope \<Rightarrow> map_scope" where
  "sanitized s = \<lparr>sc_country = sanitize_map_country (sc_country s), sc_query = sanitize_map_query (sc_query s)\<rparr>"

definition country_pred :: string where
  "country_pred = ''(lowerUTF8(src_country) = lowerUTF8(?) OR lowerUTF8(dst_country) = lowerUTF8(?))''"

definition logs_where :: "(nat \<Rightarrow> bool) \<Rightarrow> (nat \<Rightarrow> bool) \<Rightarrow> map_scope \<Rightarrow> sql" where
  "logs_where letters numbers s =
     (let c = sanitized s;
        (clause1, args1) =
          (if sc_country c \<noteq> [] then ('' AND '' @ country_pred, [sc_country c, sc_country c]) else ([], [])) in
      if sc_query c \<noteq> [] then
        (let (p, sargs) = map_search_sql (compile letters numbers (sc_query c)) logs_columns in
         if p \<noteq> [] then (clause1 @ '' AND ('' @ p @ '')'', args1 @ sargs) else (clause1, args1))
      else (clause1, args1))"

definition having_expr ::
  "(nat \<Rightarrow> bool) \<Rightarrow> (nat \<Rightarrow> bool) \<Rightarrow> string \<Rightarrow> nat \<Rightarrow> map_columns \<Rightarrow> map_scope \<Rightarrow> sql" where
  "having_expr letters numbers country_part n cols s =
     (let c = sanitized s;
        (parts1, args1) =
          (if sc_country c \<noteq> [] then ([country_part], replicate n (sc_country c)) else ([], []));
        (parts2, args2) =
          (if sc_query c \<noteq> [] then
             (let (p, sargs) = map_search_sql (compile letters numbers (sc_query c)) cols in
              if p \<noteq> [] then (parts1 @ [''('' @ p @ '')''], args1 @ sargs) else (parts1, args1))
           else (parts1, args1)) in
      (join '' AND '' parts2, args2))"

definition geo_country_part :: string where
  "geo_country_part =
     ''(lowerUTF8(src_country) = lowerUTF8(?) OR lowerUTF8(dst_country) = lowerUTF8(?) OR lowerUTF8(src_key) = lowerUTF8(?) OR lowerUTF8(dst_key) = lowerUTF8(?))''"

definition geo_agg_having_expr :: "(nat \<Rightarrow> bool) \<Rightarrow> (nat \<Rightarrow> bool) \<Rightarrow> map_scope \<Rightarrow> sql" where
  "geo_agg_having_expr letters numbers s = having_expr letters numbers geo_country_part 4 geo_columns s"

definition ip_agg_having_expr :: "(nat \<Rightarrow> bool) \<Rightarrow> (nat \<Rightarrow> bool) \<Rightarrow> map_scope \<Rightarrow> sql" where
  "ip_agg_having_expr letters numbers s = having_expr letters numbers country_pred 2 ip_agg_columns s"

definition join_having :: "string list \<Rightarrow> string" where
  "join_having parts =
     (let exprs = filter (\<lambda>p. p \<noteq> [])
        (map (\<lambda>p. trim_space (trim_prefix (trim_space (trim_prefix (trim_space p) ''HAVING'')) ''AND'')) parts) in
      if exprs = [] then [] else '' HAVING '' @ join '' AND '' exprs)"

section \<open>What a predicate means\<close>

text \<open>
  SQL's grammar of the texts the builder writes, with its precedence: 0 a comparison or a parenthesised
  expression, 1 \<open>NOT\<close>, 2 \<open>AND\<close>, 3 \<open>OR\<close>. \<open>sql_reads lower pos row cs k t as b\<close> says that \<open>t\<close> is an
  expression of level \<open>k\<close> over the columns \<open>cs\<close> which, with the arguments \<open>as\<close> bound to its placeholders
  from left to right, has the value \<open>b\<close> on a row. Only the fixed words and the columns are terminals
  of this grammar: a text it derives holds no byte of a user's input.
\<close>

inductive sql_reads ::
  "(string \<Rightarrow> string) \<Rightarrow> (string \<Rightarrow> string \<Rightarrow> bool) \<Rightarrow> (string \<Rightarrow> string) \<Rightarrow> string set \<Rightarrow>
   nat \<Rightarrow> string \<Rightarrow> string list \<Rightarrow> bool \<Rightarrow> bool"
  for lower pos row cs where
  eq: "col \<in> cs \<Longrightarrow>
    sql_reads lower pos row cs 0 (''lowerUTF8('' @ col @ '') = lowerUTF8(?)'') [v] (lower (row col) = lower v)"
| ne: "col \<in> cs \<Longrightarrow>
    sql_reads lower pos row cs 0 (''lowerUTF8('' @ col @ '') != lowerUTF8(?)'') [v] (lower (row col) \<noteq> lower v)"
| position: "col \<in> cs \<Longrightarrow>
    sql_reads lower pos row cs 0 (''positionCaseInsensitiveUTF8('' @ col @ '', ?) > 0'') [v] (pos (row col) v)"
| paren: "sql_reads lower pos row cs 3 t as b \<Longrightarrow> sql_reads lower pos row cs 0 (''('' @ t @ '')'') as b"
| negated: "sql_reads lower pos row cs 1 t as b \<Longrightarrow> sql_reads lower pos row cs 1 (''NOT '' @ t) as (\<not> b)"
| both: "sql_reads lower pos row cs 2 t as b \<Longrightarrow> sql_reads lower pos row cs 2 u bs c \<Longrightarrow>
    sql_reads lower pos row cs 2 (t @ '' AND '' @ u) (as @ bs) (b \<and> c)"
| either: "sql_reads lower pos row cs 3 t as b \<Longrightarrow> sql_reads lower pos row cs 3 u bs c \<Longrightarrow>
    sql_reads lower pos row cs 3 (t @ '' OR '' @ u) (as @ bs) (b \<or> c)"
| lift: "sql_reads lower pos row cs k t as b \<Longrightarrow> k \<le> m \<Longrightarrow> sql_reads lower pos row cs m t as b"

definition columns_of :: "map_columns \<Rightarrow> string set" where
  "columns_of c = insert (mc_all c) (\<Union>f. set (cols_of c f))"

definition match_value ::
  "(string \<Rightarrow> string) \<Rightarrow> (string \<Rightarrow> string \<Rightarrow> bool) \<Rightarrow> (string \<Rightarrow> string) \<Rightarrow> search_op \<Rightarrow> string \<Rightarrow> string \<Rightarrow> bool" where
  "match_value lower pos row op col v =
     (case op of Op_eq \<Rightarrow> lower (row col) = lower v | Op_ne \<Rightarrow> lower (row col) \<noteq> lower v | Op_contains \<Rightarrow> pos (row col) v)"

text \<open>
  The meaning of a query over a row, \<open>None\<close> where it states no condition: a term matches when one of its
  columns matches one of the names of its value, or, for \<open>!=\<close>, when every column differs from every name.
\<close>

definition term_value ::
  "(string \<Rightarrow> string) \<Rightarrow> (string \<Rightarrow> string \<Rightarrow> bool) \<Rightarrow> (string \<Rightarrow> string) \<Rightarrow> map_columns \<Rightarrow>
   field \<Rightarrow> search_op \<Rightarrow> string \<Rightarrow> bool option" where
  "term_value lower pos row cols f op v =
     (let cs = (if f = F_all then [mc_all cols] else cols_of cols f);
        ns = filter (\<lambda>n. trim_space n \<noteq> []) (term_needles f v) in
      if cs = [] \<or> ns = [] then None
      else Some (if op = Op_ne then list_all (\<lambda>n. list_all (\<lambda>c. match_value lower pos row op c n) cs) ns
        else list_ex (\<lambda>n. list_ex (\<lambda>c. match_value lower pos row op c n) cs) ns))"

fun lift2 :: "(bool \<Rightarrow> bool \<Rightarrow> bool) \<Rightarrow> bool option \<Rightarrow> bool option \<Rightarrow> bool option" where
  "lift2 h None y = y"
| "lift2 h x None = x"
| "lift2 h (Some a) (Some b) = Some (h a b)"

fun node_value ::
  "(string \<Rightarrow> string) \<Rightarrow> (string \<Rightarrow> string \<Rightarrow> bool) \<Rightarrow> (string \<Rightarrow> string) \<Rightarrow> map_columns \<Rightarrow> node \<Rightarrow> bool option" where
  "node_value lower pos row cols (Not_node n) = map_option Not (node_value lower pos row cols n)"
| "node_value lower pos row cols (And_node a b) =
     lift2 (\<and>) (node_value lower pos row cols a) (node_value lower pos row cols b)"
| "node_value lower pos row cols (Or_node a b) =
     lift2 (\<or>) (node_value lower pos row cols a) (node_value lower pos row cols b)"
| "node_value lower pos row cols (Term f op v) = term_value lower pos row cols f op v"

definition search_value ::
  "(string \<Rightarrow> string) \<Rightarrow> (string \<Rightarrow> string \<Rightarrow> bool) \<Rightarrow> (string \<Rightarrow> string) \<Rightarrow> map_columns \<Rightarrow> compiled \<Rightarrow> bool option" where
  "search_value lower pos row cols c =
     (case c of Empty_query \<Rightarrow> None
      | Simple_query t \<Rightarrow> if t = [] then None else Some (pos (row (mc_all cols)) t)
      | Root_query n \<Rightarrow> node_value lower pos row cols n)"

text \<open>\<open>states\<close>: a pair of the builder carries a value, the empty text no condition.\<close>

fun states ::
  "(string \<Rightarrow> string) \<Rightarrow> (string \<Rightarrow> string \<Rightarrow> bool) \<Rightarrow> (string \<Rightarrow> string) \<Rightarrow> string set \<Rightarrow> nat \<Rightarrow> sql \<Rightarrow> bool option \<Rightarrow> bool" where
  "states lower pos row cs k p None \<longleftrightarrow> p = ([], [])"
| "states lower pos row cs k p (Some b) \<longleftrightarrow> sql_reads lower pos row cs k (fst p) (snd p) b"

lemma sql_reads_text: "sql_reads lower pos row cs k t as b \<Longrightarrow> t \<noteq> []"
  by (induction rule: sql_reads.induct) auto

lemma states_empty: "states lower pos row cs k p v \<Longrightarrow> fst p = [] \<longleftrightarrow> v = None"
  by (cases v) (auto dest: sql_reads_text)

lemma col_match_reads:
  "col \<in> cs \<Longrightarrow> sql_reads lower pos row cs 0 (fst (col_match_sql col n op)) [snd (col_match_sql col n op)]
     (match_value lower pos row op col n)"
  by (cases op) (auto simp: col_match_sql_def match_value_def intro: eq [simplified] ne [simplified] position [simplified])

lemma needle_parts_eq:
  "needle_parts cs op ns =
     concat (map (\<lambda>n. map (\<lambda>c. col_match_sql c n op) cs) (filter (\<lambda>n. trim_space n \<noteq> []) ns))"
  by (induction ns) auto

lemma chain_reads:
  assumes "ps \<noteq> []" "\<forall>(c, n)\<in>set ps. c \<in> cs"
  shows "op \<noteq> Op_ne \<Longrightarrow> sql_reads lower pos row cs 3 (join '' OR '' (map (\<lambda>(c, n). fst (col_match_sql c n op)) ps))
           (map (\<lambda>(c, n). snd (col_match_sql c n op)) ps) (list_ex (\<lambda>(c, n). match_value lower pos row op c n) ps)"
    and "sql_reads lower pos row cs 2 (join '' AND '' (map (\<lambda>(c, n). fst (col_match_sql c n op)) ps))
           (map (\<lambda>(c, n). snd (col_match_sql c n op)) ps) (list_all (\<lambda>(c, n). match_value lower pos row op c n) ps)"
  using assms
proof (induction ps rule: induct_list012)
  case (2 p)
  { case 1 with 2 show ?case by (auto intro!: lift [OF col_match_reads]) next
    case 2 with 2 show ?case by (auto intro!: lift [OF col_match_reads]) }
next
  case (3 p q ps)
  obtain c n where p: "p = (c, n)" by (cases p)
  have here: "sql_reads lower pos row cs k (fst (col_match_sql c n op)) [snd (col_match_sql c n op)]
      (match_value lower pos row op c n)" if "c \<in> cs" for k
    by (rule lift [OF col_match_reads [OF that]]) simp
  { case 1
    then have "c \<in> cs" using p by simp
    from either [OF here [OF this] 3(3) [OF 1(1)]] 1(3) p show ?case by (simp add: case_prod_unfold)
  next
    case 2
    then have "c \<in> cs" using p by simp
    from both [OF here [OF this] 3(4)] 2(2) p show ?case by (simp add: case_prod_unfold) }
qed auto

lemma join_by_op_reads:
  assumes ps: "ps \<noteq> []" "\<forall>(c, n)\<in>set ps. c \<in> cs"
  shows "sql_reads lower pos row cs 0 (join_by_op op (map (\<lambda>(c, n). fst (col_match_sql c n op)) ps))
           (map (\<lambda>(c, n). snd (col_match_sql c n op)) ps)
           (if op = Op_ne then list_all (\<lambda>(c, n). match_value lower pos row op c n) ps
            else list_ex (\<lambda>(c, n). match_value lower pos row op c n) ps)"
proof (cases "\<exists>p. ps = [p]")
  case True
  then obtain c n where p: "ps = [(c, n)]" by (metis surj_pair)
  with ps show ?thesis using col_match_reads [of c cs lower pos row n op]
    by (cases "op = Op_ne") (simp_all add: join_by_op_def)
next
  case False
  then obtain p q r where q: "ps = p # q # r" using ps(1) by (metis list.exhaust)
  show ?thesis
  proof (cases "op = Op_ne")
    case True
    have "sql_reads lower pos row cs 3 (join '' AND '' (map (\<lambda>(c, n). fst (col_match_sql c n op)) ps))
           (map (\<lambda>(c, n). snd (col_match_sql c n op)) ps) (list_all (\<lambda>(c, n). match_value lower pos row op c n) ps)"
      by (rule lift [OF chain_reads(2) [OF ps]]) simp
    from paren [OF this] True q show ?thesis by (simp add: join_by_op_def)
  next
    case no: False
    from paren [OF chain_reads(1) [OF ps no]] no q show ?thesis by (simp add: join_by_op_def)
  qed
qed

lemma term_states:
  "states lower pos row (columns_of cols) 0 (term_sql cols f op v) (term_value lower pos row cols f op v)"
proof -
  define cs where "cs = (if f = F_all then [mc_all cols] else cols_of cols f)"
  define ns where "ns = filter (\<lambda>n. trim_space n \<noteq> []) (term_needles f v)"
  define ps where "ps = concat (map (\<lambda>n. map (\<lambda>c. (c, n)) cs) ns)"
  have sub: "\<forall>(c, n)\<in>set ps. c \<in> columns_of cols"
    by (auto simp: ps_def cs_def columns_of_def split: if_splits)
  have parts: "needle_parts cs op (term_needles f v) = map (\<lambda>(c, n). col_match_sql c n op) ps"
    by (simp add: needle_parts_eq ps_def ns_def map_concat comp_def)
  have sql: "term_sql cols f op v =
      (join_by_op op (map (\<lambda>(c, n). fst (col_match_sql c n op)) ps), map (\<lambda>(c, n). snd (col_match_sql c n op)) ps)"
  proof -
    have "(join_by_op op (map fst (needle_parts cs op (term_needles f v))), map snd (needle_parts cs op (term_needles f v))) =
        (join_by_op op (map (\<lambda>(c, n). fst (col_match_sql c n op)) ps), map (\<lambda>(c, n). snd (col_match_sql c n op)) ps)"
      by (simp add: parts comp_def case_prod_unfold)
    moreover have "cs = [] \<Longrightarrow> ps = []" by (simp add: ps_def)
    ultimately show ?thesis
      by (cases "f = F_all"; cases "cs = []") (simp_all add: term_sql_def cs_def Let_def join_by_op_def)
  qed
  have empty: "ps = [] \<longleftrightarrow> cs = [] \<or> ns = []"
    by (auto simp: ps_def)
  have val: "term_value lower pos row cols f op v =
      (if ps = [] then None else Some (if op = Op_ne then list_all (\<lambda>(c, n). match_value lower pos row op c n) ps
            else list_ex (\<lambda>(c, n). match_value lower pos row op c n) ps))"
    unfolding term_value_def cs_def [symmetric] ns_def [symmetric] Let_def empty
    by (auto simp: ps_def list_all_iff list_ex_iff)
  show ?thesis
  proof (cases "ps = []")
    case True then show ?thesis by (simp add: sql val join_by_op_def)
  next
    case False then show ?thesis using join_by_op_reads [OF False sub] by (simp add: sql val)
  qed
qed

lemma join_bool_states:
  assumes "states lower pos row cs 3 l x" "states lower pos row cs 3 r y" "op = ''AND'' \<and> h = (\<and>) \<or> op = ''OR'' \<and> h = (\<or>)"
  shows "states lower pos row cs 3 (join_bool op l r) (lift2 h x y)"
proof (cases "x = None \<or> y = None")
  case True
  with assms(1,2) show ?thesis
    by (cases x; cases y) (auto simp: join_bool_def dest: sql_reads_text)
next
  case False
  then obtain b c where bc: "x = Some b" "y = Some c" by (cases x; cases y) auto
  with assms have l: "sql_reads lower pos row cs 0 (''('' @ fst l @ '')'') (snd l) b"
    and r: "sql_reads lower pos row cs 0 (''('' @ fst r @ '')'') (snd r) c" by (auto intro: paren [simplified])
  have "fst l \<noteq> []" "fst r \<noteq> []" using assms(1,2) bc by (auto dest: sql_reads_text)
  then have j: "join_bool op l r = ((''('' @ fst l @ '')'') @ ('' '' @ op @ '' '') @ (''('' @ fst r @ '')''), snd l @ snd r)"
    by (simp add: join_bool_def)
  from assms(3) show ?thesis
  proof
    assume "op = ''AND'' \<and> h = (\<and>)"
    with lift [OF both [OF lift [OF l] lift [OF r]], of 3] show ?thesis unfolding j bc by simp
  next
    assume "op = ''OR'' \<and> h = (\<or>)"
    with either [OF lift [OF l] lift [OF r]] show ?thesis unfolding j bc by simp
  qed
qed

lemma node_states: "states lower pos row (columns_of cols) 3 (node_sql cols n) (node_value lower pos row cols n)"
proof (induction n)
  case (Not_node n)
  show ?case
  proof (cases "node_value lower pos row cols n")
    case None then show ?thesis using Not_node by simp
  next
    case (Some b)
    with Not_node have r: "sql_reads lower pos row (columns_of cols) 3 (fst (node_sql cols n)) (snd (node_sql cols n)) b" by simp
    from lift [OF negated [OF lift [OF paren [OF r]]], of 3] Some sql_reads_text [OF r] show ?thesis by (simp add: Let_def)
  qed
next
  case (And_node a b) then show ?case by (auto intro!: join_bool_states)
next
  case (Or_node a b) then show ?case by (auto intro!: join_bool_states)
next
  case (Term f op v)
  show ?case using term_states [of lower pos row cols f op v]
    by (cases "term_value lower pos row cols f op v") (auto intro: lift)
qed

lemma search_states:
  "states lower pos row (columns_of cols) 3 (map_search_sql c cols) (search_value lower pos row cols c)"
proof (cases c)
  case (Simple_query t)
  have "sql_reads lower pos row (columns_of cols) 3 (''positionCaseInsensitiveUTF8('' @ mc_all cols @ '', ?) > 0'') [t] (pos (row (mc_all cols)) t)"
    by (rule lift [OF position]) (simp_all add: columns_of_def)
  with Simple_query show ?thesis by (simp add: map_search_sql_def search_value_def)
qed (simp_all add: map_search_sql_def search_value_def node_states)

text \<open>C40: The SQL predicate of a map query means what the query says, for every query tree and every
  set of columns: read with SQL's own precedence, with the returned arguments bound in order, its value
  on any row is the meaning of the query (a value matches one of its columns, \<open>!=\<close> all of them, and
  NOT, AND, OR as parsed); the text is empty exactly when the query states no condition. The text is built from
  the fixed words and column names only, so no byte of a query reaches the statement.\<close>
theorem map_search_sql_meaning:
  "states lower pos row (columns_of cols) 3 (map_search_sql c cols) (search_value lower pos row cols c)"
  by (rule search_states)

subsection \<open>WHERE and HAVING\<close>

definition country_value :: "(string \<Rightarrow> string) \<Rightarrow> (string \<Rightarrow> string) \<Rightarrow> string list \<Rightarrow> string \<Rightarrow> bool option" where
  "country_value lower row cs v = (if v = [] then None else Some (list_ex (\<lambda>c. lower (row c) = lower v) cs))"

definition query_value ::
  "(string \<Rightarrow> string) \<Rightarrow> (string \<Rightarrow> string \<Rightarrow> bool) \<Rightarrow> (string \<Rightarrow> string) \<Rightarrow> (nat \<Rightarrow> bool) \<Rightarrow> (nat \<Rightarrow> bool) \<Rightarrow>
   map_columns \<Rightarrow> string \<Rightarrow> bool option" where
  "query_value lower pos row letters numbers cols q =
     (if q = [] then None else search_value lower pos row cols (compile letters numbers q))"

definition scope_value ::
  "(string \<Rightarrow> string) \<Rightarrow> (string \<Rightarrow> string \<Rightarrow> bool) \<Rightarrow> (string \<Rightarrow> string) \<Rightarrow> (nat \<Rightarrow> bool) \<Rightarrow> (nat \<Rightarrow> bool) \<Rightarrow>
   map_columns \<Rightarrow> string list \<Rightarrow> map_scope \<Rightarrow> bool option" where
  "scope_value lower pos row letters numbers cols cs s =
     lift2 (\<and>) (country_value lower row cs (sanitize_map_country (sc_country s)))
       (query_value lower pos row letters numbers cols (sanitize_map_query (sc_query s)))"

lemma country_pred_reads:
  assumes "''src_country'' \<in> cs" "''dst_country'' \<in> cs"
  shows "sql_reads lower pos row cs 0 country_pred [v, v]
    (list_ex (\<lambda>c. lower (row c) = lower v) [''src_country'', ''dst_country''])"
proof -
  have e: "sql_reads lower pos row cs 3 (''lowerUTF8('' @ c @ '') = lowerUTF8(?)'') [v] (lower (row c) = lower v)"
    if "c \<in> cs" for c by (rule lift [OF eq [OF that]]) simp
  from paren [OF either [OF e e], OF assms] show ?thesis by (simp add: country_pred_def)
qed

lemma geo_country_reads:
  assumes "\<forall>c\<in>{''src_country'', ''dst_country'', ''src_key'', ''dst_key''}. c \<in> cs"
  shows "sql_reads lower pos row cs 0 geo_country_part [v, v, v, v]
    (list_ex (\<lambda>c. lower (row c) = lower v) [''src_country'', ''dst_country'', ''src_key'', ''dst_key''])"
proof -
  have e: "sql_reads lower pos row cs 3 (''lowerUTF8('' @ c @ '') = lowerUTF8(?)'') [v] (lower (row c) = lower v)"
    if "c \<in> {''src_country'', ''dst_country'', ''src_key'', ''dst_key''}" for c
    using assms that by (auto intro!: lift [OF eq [simplified]])
  have "sql_reads lower pos row cs 0 (''('' @ (''lowerUTF8('' @ ''src_country'' @ '') = lowerUTF8(?)'') @ '' OR '' @
      (''lowerUTF8('' @ ''dst_country'' @ '') = lowerUTF8(?)'') @ '' OR '' @
      (''lowerUTF8('' @ ''src_key'' @ '') = lowerUTF8(?)'') @ '' OR '' @
      (''lowerUTF8('' @ ''dst_key'' @ '') = lowerUTF8(?)'') @ '')'')
      ([v] @ [v] @ [v] @ [v]) (lower (row ''src_country'') = lower v \<or> lower (row ''dst_country'') = lower v \<or>
        lower (row ''src_key'') = lower v \<or> lower (row ''dst_key'') = lower v)"
    using paren [OF either [OF e [of "''src_country''"] either [OF e [of "''dst_country''"]
      either [OF e [of "''src_key''"] e [of "''dst_key''"]]]]] by simp
  then show ?thesis by (simp add: geo_country_part_def)
qed

lemma columns_country:
  "''src_country'' \<in> columns_of logs_columns" "''dst_country'' \<in> columns_of logs_columns"
  "''src_country'' \<in> columns_of ip_agg_columns" "''dst_country'' \<in> columns_of ip_agg_columns"
  "\<forall>c\<in>{''src_country'', ''dst_country'', ''src_key'', ''dst_key''}. c \<in> columns_of geo_columns"
  unfolding columns_of_def
  by (auto simp: logs_columns_def geo_columns_def ip_agg_columns_def intro!: exI [of _ F_src_country] exI [of _ F_dst_country] exI [of _ F_country])

lemma query_states:
  "states lower pos row (columns_of cols) 3
     (if q = [] then ([], []) else map_search_sql (compile letters numbers q) cols)
     (query_value lower pos row letters numbers cols q)"
  using search_states
  by (simp add: query_value_def)

lemma states_paren:
  "states lower pos row cs 3 p (Some b) \<Longrightarrow> sql_reads lower pos row cs 2 (''('' @ fst p @ '')'') (snd p) b"
  by (auto intro: lift [OF paren [simplified]])

lemma scope_chain:
  fixes part :: string
  assumes "sql_reads lower pos row cs 0 part (replicate n v) b" "states lower pos row cs 3 p x"
  shows "states lower pos row cs 2
    (join '' AND '' ((if v = [] then [] else [part]) @ (if fst p = [] then [] else [''('' @ fst p @ '')''])),
      (if v = [] then [] else replicate n v) @ snd p)
    (lift2 (\<and>) (if v = [] then None else Some b) x)"
proof (cases x)
  case None
  then have "p = ([], [])" using assms(2) by simp
  then show ?thesis using None lift [OF assms(1), of 2] by simp
next
  case (Some c)
  then have "fst p \<noteq> []" using assms(2) by (auto dest: sql_reads_text)
  moreover from Some have q: "sql_reads lower pos row cs 2 (''('' @ fst p @ '')'') (snd p) c"
    using assms(2) states_paren by simp
  ultimately show ?thesis using Some both [OF lift [OF assms(1)] q] by simp
qed

lemma having_chain:
  "having_expr letters numbers part n cols s =
     (let v = sanitize_map_country (sc_country s); q = sanitize_map_query (sc_query s);
        p = (if q = [] then ([], []) else map_search_sql (compile letters numbers q) cols) in
      (join '' AND '' ((if v = [] then [] else [part]) @ (if fst p = [] then [] else [''('' @ fst p @ '')''])),
       (if v = [] then [] else replicate n v) @ snd p))"
proof -
  have "fst p = [] \<Longrightarrow> snd p = []" if "p = map_search_sql c cols" for p c
    using search_states [of "\<lambda>x. x" "\<lambda>x y. True" "\<lambda>x. x" cols c] that
    by (cases "search_value (\<lambda>x. x) (\<lambda>x y. True) (\<lambda>x. x) cols c") (auto dest: sql_reads_text)
  then show ?thesis
    by (auto simp: having_expr_def sanitized_def Let_def split: prod.splits)
qed

lemma logs_chain:
  "logs_where letters numbers s =
     (let p = having_expr letters numbers country_pred 2 logs_columns s in
      (if fst p = [] then [] else '' AND '' @ fst p, snd p))"
  by (auto simp: logs_where_def having_expr_def sanitized_def Let_def country_pred_def numeral_2_eq_2 split: prod.splits)

lemma having_states:
  assumes "\<And>v. sql_reads lower pos row (columns_of cols) 0 part (replicate n v) (list_ex (\<lambda>c. lower (row c) = lower v) cs)"
  shows "states lower pos row (columns_of cols) 2 (having_expr letters numbers part n cols s)
    (scope_value lower pos row letters numbers cols cs s)"
  unfolding having_chain Let_def scope_value_def country_value_def
  by (rule scope_chain [OF assms query_states])

lemma country_reads_two:
  assumes "''src_country'' \<in> cs" "''dst_country'' \<in> cs"
  shows "sql_reads lower pos row cs 0 country_pred (replicate 2 v)
    (list_ex (\<lambda>c. lower (row c) = lower v) [''src_country'', ''dst_country''])"
  using country_pred_reads [OF assms] by (simp add: numeral_2_eq_2)

lemma logs_having_states:
  "states lower pos row (columns_of logs_columns) 2 (having_expr letters numbers country_pred 2 logs_columns s)
     (scope_value lower pos row letters numbers logs_columns [''src_country'', ''dst_country''] s)"
  by (rule having_states [OF country_reads_two [OF columns_country(1,2)]])

lemma ip_having_states:
  "states lower pos row (columns_of ip_agg_columns) 2 (ip_agg_having_expr letters numbers s)
     (scope_value lower pos row letters numbers ip_agg_columns [''src_country'', ''dst_country''] s)"
  unfolding ip_agg_having_expr_def
  by (rule having_states [OF country_reads_two [OF columns_country(3,4)]])

lemma geo_having_states:
  "states lower pos row (columns_of geo_columns) 2 (geo_agg_having_expr letters numbers s)
     (scope_value lower pos row letters numbers geo_columns [''src_country'', ''dst_country'', ''src_key'', ''dst_key''] s)"
  unfolding geo_agg_having_expr_def
proof (rule having_states)
  fix v
  show "sql_reads lower pos row (columns_of geo_columns) 0 geo_country_part (replicate 4 v)
      (list_ex (\<lambda>c. lower (row c) = lower v) [''src_country'', ''dst_country'', ''src_key'', ''dst_key''])"
    using geo_country_reads [OF columns_country(5)] by (simp add: numeral_eq_Suc)
qed

text \<open>The fragment the log queries append to their WHERE is empty or \<open> AND e\<close> for one expression
  \<open>e\<close> of AND level, so that nothing around it changes what it says; \<open>e\<close> holds of a row exactly when the
  source or the destination country equals the chosen country, when one is chosen, and the row satisfies
  the search, when the search states a condition.\<close>
theorem logs_where_meaning:
  "\<exists>p. states lower pos row (columns_of logs_columns) 2 p
        (scope_value lower pos row letters numbers logs_columns [''src_country'', ''dst_country''] s) \<and>
     logs_where letters numbers s = (if fst p = [] then [] else '' AND '' @ fst p, snd p)"
  by (intro exI [of _ "having_expr letters numbers country_pred 2 logs_columns s"] conjI logs_having_states)
    (simp add: logs_chain Let_def)

lemma reads_binds:
  assumes "sql_reads lower pos row cs k t as b" "\<forall>c\<in>cs. CHR ''?'' \<notin> set c"
  shows "count_list t (CHR ''?'') = length as"
  using assms by (induction rule: sql_reads.induct) (auto simp: count_list_0_iff)

lemma states_binds:
  "states lower pos row cs k p v \<Longrightarrow> \<forall>c\<in>cs. CHR ''?'' \<notin> set c \<Longrightarrow> count_list (fst p) (CHR ''?'') = length (snd p)"
  by (cases v) (auto dest: reads_binds)

lemma columns_no_bind:
  "c \<in> columns_of logs_columns \<Longrightarrow> CHR ''?'' \<notin> set c"
  "c \<in> columns_of geo_columns \<Longrightarrow> CHR ''?'' \<notin> set c"
  "c \<in> columns_of ip_agg_columns \<Longrightarrow> CHR ''?'' \<notin> set c"
proof -
  have "CHR ''?'' \<notin> set (mc_all cols) \<and> (\<forall>f. \<forall>c\<in>set (cols_of cols f). CHR ''?'' \<notin> set c)"
    if "cols \<in> {logs_columns, geo_columns, ip_agg_columns}" for cols
  proof -
    have "\<forall>c\<in>set (cols_of cols f). CHR ''?'' \<notin> set c" for f
      using that by (cases f) (auto simp: logs_columns_def geo_columns_def ip_agg_columns_def)
    with that show ?thesis by (auto simp: logs_columns_def geo_columns_def ip_agg_columns_def)
  qed
  then show "c \<in> columns_of logs_columns \<Longrightarrow> CHR ''?'' \<notin> set c"
    "c \<in> columns_of geo_columns \<Longrightarrow> CHR ''?'' \<notin> set c"
    "c \<in> columns_of ip_agg_columns \<Longrightarrow> CHR ''?'' \<notin> set c"
    unfolding columns_of_def by blast+
qed

text \<open>Whatever the country and the search of a request contain, question marks and SQL included, each
  of the three builders returns exactly as many arguments as its text has placeholders.\<close>
theorem placeholders_match:
  "count_list (fst (logs_where letters numbers s)) (CHR ''?'') = length (snd (logs_where letters numbers s)) \<and>
   count_list (fst (geo_agg_having_expr letters numbers s)) (CHR ''?'') = length (snd (geo_agg_having_expr letters numbers s)) \<and>
   count_list (fst (ip_agg_having_expr letters numbers s)) (CHR ''?'') = length (snd (ip_agg_having_expr letters numbers s))"
proof -
  note none = logs_having_states [of "\<lambda>x. x" "\<lambda>x y. True" "\<lambda>x. x" letters numbers s]
    geo_having_states [of "\<lambda>x. x" "\<lambda>x y. True" "\<lambda>x. x" letters numbers s]
    ip_having_states [of "\<lambda>x. x" "\<lambda>x y. True" "\<lambda>x. x" letters numbers s]
  have "count_list (fst (logs_where letters numbers s)) (CHR ''?'') = length (snd (logs_where letters numbers s))"
    using states_binds [OF none(1)] columns_no_bind(1)
    by (auto simp: logs_chain Let_def)
  moreover have "count_list (fst (geo_agg_having_expr letters numbers s)) (CHR ''?'') = length (snd (geo_agg_having_expr letters numbers s))"
    using states_binds [OF none(2)] columns_no_bind(2) by blast
  moreover have "count_list (fst (ip_agg_having_expr letters numbers s)) (CHR ''?'') = length (snd (ip_agg_having_expr letters numbers s))"
    using states_binds [OF none(3)] columns_no_bind(3) by blast
  ultimately show ?thesis by simp
qed

lemma join_having_plain:
  assumes "hd p = CHR ''(''" "last p = CHR '')''" "p \<noteq> []"
  shows "join_having [p] = '' HAVING '' @ p"
proof -
  have "trim_space p = p" using assms by (intro trim_space_plain) (simp_all add: plain_def code_def)
  moreover have "\<not> has_prefix p (c # w)" if "c \<noteq> CHR ''(''" for c w
    using assms(1,3) that by (cases p) (auto simp: has_prefix_def)
  ultimately show ?thesis using assms(3)
    by (simp add: join_having_def trim_prefix_def)
qed

lemma having_ends:
  assumes "hd part = CHR ''(''" "last part = CHR '')''" "part \<noteq> []"
    and "fst (having_expr letters numbers part n cols s) \<noteq> []" (is "?t \<noteq> []")
  shows "hd ?t = CHR ''(''" "last ?t = CHR '')''"
  using assms unfolding having_chain Let_def by (auto simp: hd_append split: if_splits)

lemma join_having_expr:
  assumes "hd part = CHR ''(''" "last part = CHR '')''" "part \<noteq> []"
  shows "join_having [fst (having_expr letters numbers part n cols s)] =
    (if fst (having_expr letters numbers part n cols s) = [] then []
     else '' HAVING '' @ fst (having_expr letters numbers part n cols s))" (is "join_having [?t] = _")
proof (cases "?t = []")
  case True
  have "trim_space [] = []" "trim_prefix [] ''HAVING'' = []" "trim_prefix [] ''AND'' = []"
    by (simp_all add: trim_prefix_def has_prefix_def)
  with True show ?thesis by (simp add: join_having_def)
next
  case False
  with join_having_plain [OF having_ends [OF assms False] False] show ?thesis by simp
qed

text \<open>The HAVING conditions of the two aggregate tables are one expression of AND level, empty when
  nothing is asked, that holds of a group exactly when its country matches the chosen one (in the
  geographic aggregate the group keys count as well) and it satisfies the search; and joining such a
  condition into the clause keeps it whole.\<close>
theorem having_meaning:
  "states lower pos row (columns_of geo_columns) 2 (geo_agg_having_expr letters numbers s)
     (scope_value lower pos row letters numbers geo_columns [''src_country'', ''dst_country'', ''src_key'', ''dst_key''] s) \<and>
   states lower pos row (columns_of ip_agg_columns) 2 (ip_agg_having_expr letters numbers s)
     (scope_value lower pos row letters numbers ip_agg_columns [''src_country'', ''dst_country''] s) \<and>
   join_having [fst (geo_agg_having_expr letters numbers s)] =
     (if fst (geo_agg_having_expr letters numbers s) = [] then []
      else '' HAVING '' @ fst (geo_agg_having_expr letters numbers s)) \<and>
   join_having [fst (ip_agg_having_expr letters numbers s)] =
     (if fst (ip_agg_having_expr letters numbers s) = [] then []
      else '' HAVING '' @ fst (ip_agg_having_expr letters numbers s))"
proof (intro conjI geo_having_states ip_having_states)
qed (simp_all only: geo_agg_having_expr_def ip_agg_having_expr_def,
  (rule join_having_expr; simp add: geo_country_part_def country_pred_def)+)

lemma looks_advanced_colon: "has_field_colon letters numbers s \<Longrightarrow> looks_advanced letters numbers s"
  by (simp add: looks_advanced_def Let_def)

lemma usa_query: "compile letters numbers ''country:USA'' = Root_query (Term F_country Op_contains ''USA'')"
proof -
  have runes: "runes ''country:USA'' = [99, 111, 117, 110, 116, 114, 121, 58, 85, 83, 65]"
    by (subst runes_ascii) (simp_all add: code_def)
  have "name_rune letters numbers 121" by (simp add: name_rune_def is_letter_def)
  then have "has_field_colon letters numbers ''country:USA''"
    unfolding has_field_colon_def Let_def runes list_ex_iff
    by (intro bexI [of _ 7]) (simp_all add: numeral_eq_Suc)
  moreover have "trim_space ''country:USA'' = ''country:USA''" by code_simp
  moreover have "parse_query ''country:USA'' = Inr (Some (Term F_country Op_contains ''USA''))"
  proof -
    have "tokenize ''country:USA'' = Inr [Tok_word ''country'', Tok_colon, Tok_word ''USA'']" by code_simp
    then show ?thesis using find_field_name [of F_country]
      by (simp add: parse_query_def query_fuel_def parse_primary_def parse_and_def parse_field_term_def value_term_def parse_value_def)
  qed
  ultimately show ?thesis by (simp add: compile_def Let_def looks_advanced_colon)
qed

text \<open>A search for the United States by \<open>country:USA\<close> also selects the rows of Russia: the name is widened by
  the code \<open>US\<close>, which is then looked for anywhere in the country's name.\<close>
theorem usa_matches_russia:
  "search_value to_lower (\<lambda>h n. contains_str (to_lower h) (to_lower n))
     (\<lambda>c. if c = ''src_country'' then ''Russia'' else ''Finland'') logs_columns (compile letters numbers ''country:USA'') = Some True"
proof -
  define row :: "string \<Rightarrow> string" where "row = (\<lambda>c. if c = ''src_country'' then ''Russia'' else ''Finland'')"
  define pos where "pos = (\<lambda>h n. contains_str (to_lower h) (to_lower n))"
  obtain x where needles: "term_needles F_country ''USA'' = [x, ''United States'', ''USA'', ''US'']"
  proof
    have "to_lower (trim_space ''USA'') = ''usa''" by code_simp
    moreover have "(''usa'' = utf8 [1088, 1086, 1089, 1089, 1080, 1103]) = False" "(''usa'' = utf8 [1089, 1096, 1072]) = False"
      by (simp_all add: utf8_not_ascii code_def)
    ultimately show "term_needles F_country ''USA'' = [utf8 [1057, 1064, 1040], ''United States'', ''USA'', ''US'']"
      by (simp add: term_needles_def country_needles_def)
  qed
  have "trim_space ''US'' \<noteq> []" "pos ''Russia'' ''US''" unfolding pos_def by code_simp+
  then have us: "\<exists>n\<in>set (filter (\<lambda>n. trim_space n \<noteq> []) (term_needles F_country ''USA'')). pos ''Russia'' n"
    by (intro bexI [of _ "''US''"]) (simp_all add: needles)
  then have "filter (\<lambda>n. trim_space n \<noteq> []) (term_needles F_country ''USA'') \<noteq> []" by (auto simp del: set_filter)
  with us have "term_value to_lower pos row logs_columns F_country Op_contains ''USA'' = Some True"
    by (simp add: term_value_def match_value_def logs_columns_def row_def list_ex_iff del: set_filter) blast
  then show ?thesis unfolding row_def pos_def by (simp add: usa_query search_value_def)
qed

end
