(* ===== verification/Heavy_Task.thy ===== *)
theory Heavy_Task
  imports Prelude
begin

text \<open>
  The slot for heavy background tasks (\<^verbatim>\<open>adapter/heavytask/task_limiter.go\<close>, \<^verbatim>\<open>gate.go\<close>): a counting
  semaphore made of a buffered channel, with a flag beside it that is read without the channel. The code takes no
  lock around the two, so the model is a relation of atomic steps of any number of tasks; the operations as
  functions, for a caller alone, are runs of it.
\<close>

section \<open>The operations\<close>

record task_limiter =
  cap :: nat
  sem :: nat
  busy :: bool

definition new_task_limiter :: "int \<Rightarrow> task_limiter" where
  "new_task_limiter n0 = (let n = (if n0 \<le> 0 then 1 else n0) in \<lparr>cap = nat n, sem = 0, busy = False\<rparr>)"

definition try_acquire :: "task_limiter \<Rightarrow> bool \<times> task_limiter" where
  "try_acquire l =
     (if sem l < cap l then (True, l\<lparr>sem := sem l + 1, busy := True\<rparr>) else (False, l))"

text \<open>\<^verbatim>\<open>Acquire\<close> when the slot is free or the context is done; with both, either may happen.\<close>

inductive acquire :: "bool \<Rightarrow> task_limiter \<Rightarrow> bool \<Rightarrow> task_limiter \<Rightarrow> bool" where
  "sem l < cap l \<Longrightarrow> acquire done l True (l\<lparr>sem := sem l + 1, busy := True\<rparr>)"
| "acquire True l False l"

definition release :: "task_limiter \<Rightarrow> task_limiter" where
  "release l =
     (if sem l = 0 then l
      else let l' = l\<lparr>sem := sem l - 1\<rparr> in if sem l' = 0 then l'\<lparr>busy := False\<rparr> else l')"

definition is_busy :: "task_limiter \<Rightarrow> bool" where
  "is_busy l = busy l"

section \<open>The gate that is bound later\<close>

type_synonym gate = "(unit \<Rightarrow> string) option"

definition new_gate :: gate where "new_gate = None"

definition set_gate :: "(unit \<Rightarrow> string) option \<Rightarrow> gate \<Rightarrow> gate" where
  "set_gate inner g = inner"

definition skip_reason :: "gate \<Rightarrow> string" where
  "skip_reason g = (case g of None \<Rightarrow> [] | Some inner \<Rightarrow> inner ())"

section \<open>Tasks that run at the same time\<close>

text \<open>
  Where a task stands: \<open>Marking\<close> holds a place in the channel and has not yet set the flag, \<open>Working\<close> is between
  the return of an acquisition and the call of \<^verbatim>\<open>Release\<close>, \<open>Released\<close> has given its place back and
  \<open>Clearing\<close> has read an empty channel and not yet cleared the flag.
\<close>

datatype task = Idle | Marking | Working | Released | Clearing

record slot_state =
  limit :: task_limiter
  tasks :: "task list"

inductive task_step :: "slot_state \<Rightarrow> slot_state \<Rightarrow> bool" where
  take_place: "i < length (tasks s) \<Longrightarrow> tasks s ! i = Idle \<Longrightarrow> sem (limit s) < cap (limit s) \<Longrightarrow>
    task_step s (s\<lparr>limit := (limit s)\<lparr>sem := sem (limit s) + 1\<rparr>, tasks := (tasks s)[i := Marking]\<rparr>)"
| give_up: "i < length (tasks s) \<Longrightarrow> tasks s ! i = Idle \<Longrightarrow> task_step s s"
| mark: "i < length (tasks s) \<Longrightarrow> tasks s ! i = Marking \<Longrightarrow>
    task_step s (s\<lparr>limit := (limit s)\<lparr>busy := True\<rparr>, tasks := (tasks s)[i := Working]\<rparr>)"
| give_back: "i < length (tasks s) \<Longrightarrow> tasks s ! i = Working \<Longrightarrow> 0 < sem (limit s) \<Longrightarrow>
    task_step s (s\<lparr>limit := (limit s)\<lparr>sem := sem (limit s) - 1\<rparr>, tasks := (tasks s)[i := Released]\<rparr>)"
| give_back_none: "i < length (tasks s) \<Longrightarrow> tasks s ! i = Working \<Longrightarrow> sem (limit s) = 0 \<Longrightarrow>
    task_step s (s\<lparr>tasks := (tasks s)[i := Idle]\<rparr>)"
| see_empty: "i < length (tasks s) \<Longrightarrow> tasks s ! i = Released \<Longrightarrow> sem (limit s) = 0 \<Longrightarrow>
    task_step s (s\<lparr>tasks := (tasks s)[i := Clearing]\<rparr>)"
| see_others: "i < length (tasks s) \<Longrightarrow> tasks s ! i = Released \<Longrightarrow> sem (limit s) \<noteq> 0 \<Longrightarrow>
    task_step s (s\<lparr>tasks := (tasks s)[i := Idle]\<rparr>)"
| clear: "i < length (tasks s) \<Longrightarrow> tasks s ! i = Clearing \<Longrightarrow>
    task_step s (s\<lparr>limit := (limit s)\<lparr>busy := False\<rparr>, tasks := (tasks s)[i := Idle]\<rparr>)"

definition slot_init :: "int \<Rightarrow> nat \<Rightarrow> slot_state" where
  "slot_init n k = \<lparr>limit = new_task_limiter n, tasks = replicate k Idle\<rparr>"

section \<open>What is invariant\<close>

definition holds :: "task \<Rightarrow> bool" where
  "holds t \<longleftrightarrow> t = Marking \<or> t = Working"

definition holders :: "task list \<Rightarrow> nat" where
  "holders ts = length (filter holds ts)"

definition slot_inv :: "slot_state \<Rightarrow> bool" where
  "slot_inv s \<longleftrightarrow> sem (limit s) = holders (tasks s) \<and> sem (limit s) \<le> cap (limit s) \<and>
     (busy (limit s) \<longrightarrow> (\<exists>t\<in>set (tasks s). t \<noteq> Idle))"

lemma holders_split: "i < length ts \<Longrightarrow> holders ts = holders (take i ts) + (if holds (ts ! i) then 1 else 0) + holders (drop (Suc i) ts)"
  by (subst id_take_nth_drop [of i ts]) (auto simp: holders_def)

lemma holders_update:
  assumes "i < length ts"
  shows "holders (ts[i := t]) + (if holds (ts ! i) then 1 else 0) = holders ts + (if holds t then 1 else 0)"
  using holders_split [OF assms] holders_split [of i "ts[i := t]"] assms by simp

lemma holders_zero: "0 < holders ts \<Longrightarrow> \<exists>t\<in>set ts. t \<noteq> Idle"
  by (auto simp: holders_def holds_def filter_empty_conv dest!: length_greater_0_conv [THEN iffD1])

lemma update_not_idle: "i < length ts \<Longrightarrow> t \<noteq> Idle \<Longrightarrow> \<exists>u\<in>set (ts[i := t]). u \<noteq> Idle"
  using set_update_memI by fastforce

lemma task_step_inv:
  assumes "task_step s s'" "slot_inv s"
  shows "slot_inv s' \<and> cap (limit s') = cap (limit s)"
  using assms
proof cases
  case (take_place i)
  with assms(2) holders_update [of i "tasks s" Marking] update_not_idle [of i "tasks s" Marking]
  show ?thesis by (auto simp: slot_inv_def holds_def)
next
  case (mark i)
  with assms(2) holders_update [of i "tasks s" Working] update_not_idle [of i "tasks s" Working]
  show ?thesis by (auto simp: slot_inv_def holds_def)
next
  case (give_back i)
  with assms(2) holders_update [of i "tasks s" Released] update_not_idle [of i "tasks s" Released]
  show ?thesis by (auto simp: slot_inv_def holds_def)
next
  case (give_back_none i)
  then have "0 < holders (tasks s)" using holders_split [of i "tasks s"] by (simp add: holds_def)
  with give_back_none assms(2) show ?thesis by (simp add: slot_inv_def)
next
  case (see_empty i)
  with assms(2) holders_update [of i "tasks s" Clearing] update_not_idle [of i "tasks s" Clearing]
  show ?thesis by (auto simp: slot_inv_def holds_def)
next
  case (see_others i)
  with assms(2) holders_update [of i "tasks s" Idle] holders_zero [of "(tasks s)[i := Idle]"]
  show ?thesis by (auto simp: slot_inv_def holds_def)
next
  case (clear i)
  with assms(2) holders_update [of i "tasks s" Idle]
  show ?thesis by (auto simp: slot_inv_def holds_def)
qed simp

interpretation slot_sys: invariant_system "\<lambda>s. s = slot_init n k" task_step
  "\<lambda>s. slot_inv s \<and> cap (limit s) = cap (new_task_limiter n)" for n k
proof unfold_locales
  show "slot_inv s \<and> cap (limit s) = cap (new_task_limiter n)" if "s = slot_init n k" for s
    using that by (auto simp: slot_inv_def slot_init_def new_task_limiter_def holders_def holds_def Let_def)
qed (use task_step_inv in auto)

lemma working_holds: "length (filter (\<lambda>t. t = Working) ts) \<le> holders ts"
  by (induction ts) (auto simp: holders_def holds_def)

text \<open>The slot excludes. However many tasks acquire and release it at the same time, in any
  interleaving of the atomic actions, no more than \<open>n\<close> of them (one for \<open>n \<le> 0\<close>) are ever between an
  acquisition and its release, a release always finds its place in the channel, and a limiter nobody uses reports
  that it is free.\<close>

theorem slot_excludes:
  assumes "task_step\<^sup>*\<^sup>* (slot_init n k) s"
  shows "length (filter (\<lambda>t. t = Working) (tasks s)) \<le> nat (max 1 n) \<and>
    (Working \<in> set (tasks s) \<longrightarrow> 0 < sem (limit s)) \<and>
    (list_all (\<lambda>t. t = Idle) (tasks s) \<longrightarrow> sem (limit s) = 0 \<and> \<not> is_busy (limit s))"
proof -
  have inv: "slot_inv s" "cap (limit s) = cap (new_task_limiter n)"
    using slot_sys.reachable_inv [OF assms] by blast+
  have "cap (new_task_limiter n) = nat (max 1 n)" by (auto simp: new_task_limiter_def)
  moreover have "Working \<in> set (tasks s) \<Longrightarrow> 0 < holders (tasks s)"
    by (auto simp: holders_def holds_def filter_empty_conv)
  moreover have "list_all (\<lambda>t. t = Idle) (tasks s) \<Longrightarrow> holders (tasks s) = 0"
    by (auto simp: holders_def holds_def list_all_iff filter_empty_conv)
  ultimately show ?thesis
    using inv working_holds [of "tasks s"] by (auto simp: slot_inv_def is_busy_def list_all_iff)
qed

inductive_cases task_step_elim: "task_step s s'"

text \<open>The run of two tasks in which the flag is lost.\<close>

definition lost_flag :: slot_state where
  "lost_flag = \<lparr>limit = \<lparr>cap = 1, sem = 1, busy = False\<rparr>, tasks = [Idle, Working]\<rparr>"

lemma lost_flag_run: "task_step\<^sup>*\<^sup>* (slot_init 1 2) lost_flag"
proof -
  let ?s = "\<lambda>n b a c. \<lparr>limit = \<lparr>cap = 1, sem = n, busy = b\<rparr>, tasks = [a, c]\<rparr>"
  have "task_step (?s 0 False Idle Idle) (?s 1 False Marking Idle)" using take_place [of 0 "?s 0 False Idle Idle"] by simp
  moreover have "task_step (?s 1 False Marking Idle) (?s 1 True Working Idle)" using mark [of 0 "?s 1 False Marking Idle"] by simp
  moreover have "task_step (?s 1 True Working Idle) (?s 0 True Released Idle)" using give_back [of 0 "?s 1 True Working Idle"] by simp
  moreover have "task_step (?s 0 True Released Idle) (?s 0 True Clearing Idle)" using see_empty [of 0 "?s 0 True Released Idle"] by simp
  moreover have "task_step (?s 0 True Clearing Idle) (?s 1 True Clearing Marking)" using take_place [of 1 "?s 0 True Clearing Idle"] by simp
  moreover have "task_step (?s 1 True Clearing Marking) (?s 1 True Clearing Working)" using mark [of 1 "?s 1 True Clearing Marking"] by simp
  moreover have "task_step (?s 1 True Clearing Working) (?s 1 False Idle Working)" using clear [of 0 "?s 1 True Clearing Working"] by simp
  moreover have "slot_init 1 2 = ?s 0 False Idle Idle" by (simp add: slot_init_def new_task_limiter_def numeral_2_eq_2)
  ultimately show ?thesis
    unfolding lost_flag_def by (metis (no_types, lifting) converse_rtranclp_into_rtranclp rtranclp.rtrancl_refl)
qed

theorem slot_excludes_witness:
  "length (filter (\<lambda>t. t = Working) (tasks lost_flag)) \<le> 1 \<and> 0 < sem (limit lost_flag)"
  using slot_excludes [OF lost_flag_run] by (simp add: lost_flag_def)

text \<open>The flag beside the channel can be wrong: \<^verbatim>\<open>Release\<close> clears it in a step of its own after it has seen
  an empty channel, so that a task which acquires the slot in between works while \<^verbatim>\<open>Busy\<close> answers that the
  slot is free, until the next acquisition.\<close>

theorem busy_flag_lost:
  "\<exists>s. task_step\<^sup>*\<^sup>* (slot_init 1 2) s \<and> Working \<in> set (tasks s) \<and> \<not> is_busy (limit s)"
  using lost_flag_run by (auto simp: lost_flag_def is_busy_def intro!: exI [of _ lost_flag])

text \<open>A task alone: the operations as functions are runs of their steps.\<close>

lemma try_acquire_run:
  assumes "i < length ts" "ts ! i = Idle"
  shows "task_step\<^sup>*\<^sup>* \<lparr>limit = l, tasks = ts\<rparr>
    \<lparr>limit = snd (try_acquire l), tasks = (if fst (try_acquire l) then ts[i := Working] else ts)\<rparr>"
proof (cases "sem l < cap l")
  case True
  have "task_step \<lparr>limit = l, tasks = ts\<rparr> \<lparr>limit = l\<lparr>sem := sem l + 1\<rparr>, tasks = ts[i := Marking]\<rparr>"
    using take_place [of i "\<lparr>limit = l, tasks = ts\<rparr>"] assms True by simp
  moreover have "task_step \<lparr>limit = l\<lparr>sem := sem l + 1\<rparr>, tasks = ts[i := Marking]\<rparr>
      \<lparr>limit = l\<lparr>sem := sem l + 1, busy := True\<rparr>, tasks = ts[i := Working]\<rparr>"
    using mark [of i "\<lparr>limit = l\<lparr>sem := sem l + 1\<rparr>, tasks = ts[i := Marking]\<rparr>"] assms by simp
  ultimately show ?thesis using True by (simp add: try_acquire_def)
qed (simp add: try_acquire_def)

lemma release_run:
  assumes "i < length ts" "ts ! i = Working"
  shows "task_step\<^sup>*\<^sup>* \<lparr>limit = l, tasks = ts\<rparr> \<lparr>limit = release l, tasks = ts[i := Idle]\<rparr>"
proof (cases "sem l = 0")
  case True
  then show ?thesis
    using give_back_none [of i "\<lparr>limit = l, tasks = ts\<rparr>"] assms by (simp add: release_def r_into_rtranclp)
next
  case False
  define l' where "l' = l\<lparr>sem := sem l - 1\<rparr>"
  have a: "task_step \<lparr>limit = l, tasks = ts\<rparr> \<lparr>limit = l', tasks = ts[i := Released]\<rparr>"
    using give_back [of i "\<lparr>limit = l, tasks = ts\<rparr>"] assms False by (simp add: l'_def)
  show ?thesis
  proof (cases "sem l' = 0")
    case True
    have "task_step \<lparr>limit = l', tasks = ts[i := Released]\<rparr> \<lparr>limit = l', tasks = ts[i := Clearing]\<rparr>"
      using see_empty [of i "\<lparr>limit = l', tasks = ts[i := Released]\<rparr>"] assms True by simp
    moreover have "task_step \<lparr>limit = l', tasks = ts[i := Clearing]\<rparr> \<lparr>limit = l'\<lparr>busy := False\<rparr>, tasks = ts[i := Idle]\<rparr>"
      using clear [of i "\<lparr>limit = l', tasks = ts[i := Clearing]\<rparr>"] assms by simp
    moreover have "release l = l'\<lparr>busy := False\<rparr>" using True False by (simp add: release_def l'_def)
    ultimately show ?thesis using a by simp
  next
    case other: False
    have "task_step \<lparr>limit = l', tasks = ts[i := Released]\<rparr> \<lparr>limit = l', tasks = ts[i := Idle]\<rparr>"
      using see_others [of i "\<lparr>limit = l', tasks = ts[i := Released]\<rparr>"] assms other by simp
    moreover have "release l = l'" using other False by (simp add: release_def l'_def)
    ultimately show ?thesis using a by simp
  qed
qed

lemma release_acquire: "sem l < cap l \<Longrightarrow> sem l = 0 \<Longrightarrow> \<not> busy l \<Longrightarrow> release (snd (try_acquire l)) = l"
  by (simp add: release_def try_acquire_def)

end
