(* ===== verification/Anomaly.thy ===== *)
theory Anomaly
  imports Reputation Go_Text Go_Float Files
begin

text \<open>
  The anomaly journal (\<^verbatim>\<open>usecase/anomaly\<close>): thresholds, settings, the identity of an event (fingerprint,
  suppression key, episode), the link to the map, the removal of duplicates and the summaries of episodes. The
  detectors and the scan that runs them are in \<open>Anomaly_Scan\<close>.

  SHA-256 in hexadecimal and the RFC 3339 text of a time are arguments. The texts for the reader
  (\<^verbatim>\<open>Title\<close>, \<^verbatim>\<open>CodeLabel\<close>) are left out.
\<close>

section \<open>Events\<close>

definition code_port_scan :: string where "code_port_scan = ''port_scan''"
definition code_horizontal_scan :: string where "code_horizontal_scan = ''horizontal_scan''"
definition code_blocked_surge :: string where "code_blocked_surge = ''blocked_surge''"
definition code_rep_new_dst :: string where "code_rep_new_dst = ''rep_new_peer''"
definition code_new_country_dst :: string where "code_new_country_dst = ''new_country_dst''"
definition code_byte_surge :: string where "code_byte_surge = ''byte_surge''"
definition code_beaconing :: string where "code_beaconing = ''beaconing''"
definition code_lateral_fanout :: string where "code_lateral_fanout = ''lateral_fanout''"
definition code_hunt_threshold :: string where "code_hunt_threshold = ''hunt_threshold''"

lemmas code_defs = code_port_scan_def code_horizontal_scan_def code_blocked_surge_def code_rep_new_dst_def
  code_new_country_dst_def code_byte_surge_def code_beaconing_def code_lateral_fanout_def code_hunt_threshold_def

definition severity_info :: string where "severity_info = ''info''"
definition severity_warn :: string where "severity_warn = ''warn''"
definition severity_high :: string where "severity_high = ''high''"

lemmas severity_defs = severity_info_def severity_warn_def severity_high_def

definition zero_ipv4 :: string where "zero_ipv4 = ''0.0.0.0''"
definition max_insert_per_tick :: nat where "max_insert_per_tick = 50"
definition max_per_code :: nat where "max_per_code = 10"

record map_link =
  ml_period :: string
  ml_group :: string
  ml_filter :: string
  ml_query :: string
  ml_country :: string

definition link :: "string \<Rightarrow> string \<Rightarrow> string \<Rightarrow> string \<Rightarrow> string \<Rightarrow> map_link" where
  "link p g f q c = \<lparr>ml_period = p, ml_group = g, ml_filter = f, ml_query = q, ml_country = c\<rparr>"

text \<open>The values of the map \<^verbatim>\<open>Detail\<close>.\<close>

datatype detail_val = D_str string | D_u64 u64 | D_int int | D_f64 f64 | D_hits "rep_hit list"

record event =
  e_detected :: go_time
  e_wstart :: go_time
  e_wend :: go_time
  e_code :: string
  e_sev :: string
  e_score :: f32
  e_detail :: "(string \<times> detail_val) list"
  e_src :: string
  e_dst :: string
  e_src_country :: string
  e_dst_country :: string
  e_src_city :: string
  e_dst_city :: string
  e_device :: string
  e_count :: u64
  e_fp :: string
  e_episode :: string
  e_expires :: go_time
  e_acked :: bool
  e_assigned :: string
  e_ack_by :: string
  e_map :: map_link
  e_key :: string

definition no_event :: event where
  "no_event =
     \<lparr>e_detected = 0, e_wstart = 0, e_wend = 0, e_code = [], e_sev = [], e_score = 0, e_detail = [],
      e_src = [], e_dst = [], e_src_country = [], e_dst_country = [], e_src_city = [], e_dst_city = [],
      e_device = [], e_count = 0, e_fp = [], e_episode = [], e_expires = 0, e_acked = False, e_assigned = [],
      e_ack_by = [], e_map = link [] [] [] [] [], e_key = []\<rparr>"

record ip_range =
  rg_start :: u32
  rg_end :: u32
  rg_network :: string
  rg_label :: string

section \<open>Thresholds\<close>

record thresholds =
  th_ps_ports :: int
  th_ps_events :: int
  th_hs_hosts :: int
  th_hs_events :: int
  th_surge_ratio :: f64
  th_surge_abs :: u64
  th_surge_floor :: u64
  th_nc_min :: u64
  th_nc_base :: u64
  th_nc_share :: f64
  th_rep_min :: u64
  th_bs_ratio :: f64
  th_bs_abs :: u64
  th_bs_floor :: u64
  th_bc_hours :: int
  th_bc_bytes :: u64
  th_bc_reg :: f64
  th_lf_hosts :: int
  th_lf_events :: int

text \<open>The constants of the tables: 4, 5, 0.05, 0.55 and 0.6.\<close>

definition f4 :: f64 where "f4 = 0x4010000000000000"
definition f5 :: f64 where "f5 = 0x4014000000000000"
definition f005 :: f64 where "f005 = 0x3FA999999999999A"
definition f055 :: f64 where "f055 = 0x3FE199999999999A"
definition f06 :: f64 where "f06 = 0x3FE3333333333333"

definition thresholds_for_profile :: "string \<Rightarrow> thresholds" where
  "thresholds_for_profile name =
     (let p = to_lower (trim_space name) in
      if p = ''tiny'' then
        \<lparr>th_ps_ports = 30, th_ps_events = 50, th_hs_hosts = 20, th_hs_events = 40, th_surge_ratio = f5,
         th_surge_abs = 80, th_surge_floor = 10, th_nc_min = 5, th_nc_base = 10, th_nc_share = f005, th_rep_min = 3,
         th_bs_ratio = f5, th_bs_abs = 50000000, th_bs_floor = 1000000, th_bc_hours = 8, th_bc_bytes = 200000,
         th_bc_reg = f055, th_lf_hosts = 15, th_lf_events = 30\<rparr>
      else if p = ''small'' then
        \<lparr>th_ps_ports = 40, th_ps_events = 80, th_hs_hosts = 30, th_hs_events = 60, th_surge_ratio = f5,
         th_surge_abs = 120, th_surge_floor = 15, th_nc_min = 5, th_nc_base = 10, th_nc_share = f005, th_rep_min = 3,
         th_bs_ratio = f5, th_bs_abs = 80000000, th_bs_floor = 2000000, th_bc_hours = 10, th_bc_bytes = 250000,
         th_bc_reg = f055, th_lf_hosts = 20, th_lf_events = 40\<rparr>
      else if p = ''large'' then
        \<lparr>th_ps_ports = 75, th_ps_events = 150, th_hs_hosts = 60, th_hs_events = 120, th_surge_ratio = f4,
         th_surge_abs = 400, th_surge_floor = 40, th_nc_min = 5, th_nc_base = 10, th_nc_share = f005, th_rep_min = 3,
         th_bs_ratio = f4, th_bs_abs = 200000000, th_bs_floor = 10000000, th_bc_hours = 12, th_bc_bytes = 400000,
         th_bc_reg = f06, th_lf_hosts = 40, th_lf_events = 80\<rparr>
      else if p = ''xlarge'' then
        \<lparr>th_ps_ports = 100, th_ps_events = 250, th_hs_hosts = 80, th_hs_events = 160, th_surge_ratio = f4,
         th_surge_abs = 800, th_surge_floor = 50, th_nc_min = 8, th_nc_base = 15, th_nc_share = f005, th_rep_min = 3,
         th_bs_ratio = f4, th_bs_abs = 400000000, th_bs_floor = 20000000, th_bc_hours = 14, th_bc_bytes = 500000,
         th_bc_reg = f06, th_lf_hosts = 50, th_lf_events = 100\<rparr>
      else
        \<lparr>th_ps_ports = 50, th_ps_events = 100, th_hs_hosts = 40, th_hs_events = 80, th_surge_ratio = f5,
         th_surge_abs = 200, th_surge_floor = 20, th_nc_min = 5, th_nc_base = 10, th_nc_share = f005, th_rep_min = 3,
         th_bs_ratio = f5, th_bs_abs = 100000000, th_bs_floor = 5000000, th_bc_hours = 10, th_bc_bytes = 300000,
         th_bc_reg = f055, th_lf_hosts = 25, th_lf_events = 50\<rparr>)"

definition effective_thresholds :: "string \<Rightarrow> thresholds option \<Rightarrow> f64 \<Rightarrow> thresholds" where
  "effective_thresholds profile overrides share =
     (let th = (case overrides of Some t \<Rightarrow> t | None \<Rightarrow> thresholds_for_profile profile) in
      if f64_lt 0 share then th\<lparr>th_nc_share := share\<rparr> else th)"

text \<open>The weights 1, 0.3 and 0.6 of \<^verbatim>\<open>float32\<close>.\<close>

definition f64_one :: f64 where "f64_one = 0x3FF0000000000000"

definition score_against :: "f64 \<Rightarrow> f64 \<Rightarrow> string \<Rightarrow> f32" where
  "score_against observed threshold sev =
     (let w = (if sev = severity_high then 0x3F800000 else if sev = severity_info then 0x3E99999A else 0x3F19999A) in
      if f64_le threshold 0 then w
      else
        let r = f64_div observed threshold;
          r1 = (if f64_lt f64_one r then f64_one else r);
          r2 = (if f64_lt r1 0 then 0 else r1) in
        f32_mul w (f32_of_f64 r2))"

section \<open>Settings\<close>

record settings =
  st_enabled :: bool
  st_interval :: int
  st_learning :: int
  st_suppress :: int
  st_private :: bool
  st_share :: f64
  st_thresholds :: "thresholds option"
  st_updated :: string

definition f001 :: f64 where "f001 = 0x3F847AE147AE147B"
definition f100 :: f64 where "f100 = 0x4059000000000000"

definition is_empty_settings :: "settings \<Rightarrow> bool" where
  "is_empty_settings st \<longleftrightarrow>
     \<not> st_enabled st \<and> st_interval st = 0 \<and> st_learning st = 0 \<and> st_suppress st = 0 \<and> \<not> st_private st \<and>
     f64_eq (st_share st) 0 \<and> st_thresholds st = None \<and> st_updated st = []"

definition normalize_settings :: "settings \<Rightarrow> settings" where
  "normalize_settings st =
     (let i = (if st_interval st < 1 then 5 else st_interval st);
        i = (if i > 1440 then 1440 else i);
        l = (if st_learning st < 1 then 3 else st_learning st);
        l = (if l > 30 then 30 else l);
        h = (if st_suppress st < 1 then 24 else st_suppress st);
        h = (if h > 168 then 168 else h);
        sh = (if f64_le (st_share st) 0 then f005 else st_share st);
        sh = (if f64_lt sh f001 then f001 else sh);
        sh = (if f64_lt f64_one sh then f64_one else sh) in
      st\<lparr>st_interval := i, st_learning := l, st_suppress := h, st_share := sh\<rparr>)"

datatype settings_err =
    Bad_interval | Bad_learning | Bad_suppress | Bad_share | Bad_threshold string | Not_configured | Store_failed

definition check_int :: "string \<Rightarrow> int \<Rightarrow> string option" where
  "check_int name v = (if v < 1 \<or> v > 100000 then Some name else None)"

definition check_uint :: "string \<Rightarrow> u64 \<Rightarrow> string option" where
  "check_uint name v = (if v < 1 \<or> v > 1000000 then Some name else None)"

definition check_bytes :: "string \<Rightarrow> u64 \<Rightarrow> string option" where
  "check_bytes name v = (if v < 1 \<or> v > 10000000000 then Some name else None)"

definition check_ratio :: "string \<Rightarrow> f64 \<Rightarrow> string option" where
  "check_ratio name v = (if f64_lt v f64_one \<or> f64_lt f100 v then Some name else None)"

definition check_share :: "string \<Rightarrow> f64 \<Rightarrow> string option" where
  "check_share name v = (if f64_lt v f001 \<or> f64_lt f64_one v then Some name else None)"

definition check_regularity :: "string \<Rightarrow> f64 \<Rightarrow> string option" where
  "check_regularity name v = (if f64_lt v 0 \<or> f64_lt f64_one v then Some name else None)"

definition validate_thresholds :: "thresholds \<Rightarrow> string option" where
  "validate_thresholds th =
     (case first_some id
        [check_int ''port_scan_ports'' (th_ps_ports th), check_int ''port_scan_events'' (th_ps_events th),
         check_int ''horizontal_hosts'' (th_hs_hosts th), check_int ''horizontal_events'' (th_hs_events th),
         check_ratio ''surge_ratio'' (th_surge_ratio th), check_uint ''surge_abs_min'' (th_surge_abs th),
         check_uint ''surge_floor'' (th_surge_floor th), check_uint ''new_country_min'' (th_nc_min th),
         check_uint ''new_country_baseline'' (th_nc_base th), check_share ''new_country_min_share'' (th_nc_share th),
         check_uint ''rep_min_events'' (th_rep_min th), check_ratio ''byte_surge_ratio'' (th_bs_ratio th),
         check_bytes ''byte_surge_abs_min'' (th_bs_abs th), check_bytes ''byte_surge_floor'' (th_bs_floor th),
         check_bytes ''beacon_max_avg_bytes'' (th_bc_bytes th), check_regularity ''beacon_min_regularity'' (th_bc_reg th),
         check_int ''lateral_hosts'' (th_lf_hosts th), check_int ''lateral_events'' (th_lf_events th)] of
        Some e \<Rightarrow> Some e
      | None \<Rightarrow> if th_bc_hours th < 1 \<or> th_bc_hours th > 168 then Some ''beacon_min_hours'' else None)"

definition validate_settings :: "settings \<Rightarrow> settings_err + settings" where
  "validate_settings x =
     (if st_interval x < 1 \<or> st_interval x > 1440 then Inl Bad_interval
      else if st_learning x < 1 \<or> st_learning x > 30 then Inl Bad_learning
      else if st_suppress x < 1 \<or> st_suppress x > 168 then Inl Bad_suppress
      else if f64_lt (st_share x) f001 \<or> f64_lt f64_one (st_share x) then Inl Bad_share
      else
        let out = (normalize_settings x)
          \<lparr>st_enabled := st_enabled x, st_private := st_private x, st_thresholds := st_thresholds x\<rparr> in
        case st_thresholds x of
          None \<Rightarrow> Inr out
        | Some th \<Rightarrow> (case validate_thresholds th of Some e \<Rightarrow> Inl (Bad_threshold e) | None \<Rightarrow> Inr out))"

text \<open>The default settings: the interval in minutes, the days and hours of the configuration.\<close>

definition default_settings :: "duration \<Rightarrow> int \<Rightarrow> int \<Rightarrow> bool \<Rightarrow> f64 \<Rightarrow> settings" where
  "default_settings interval learning suppress priv share =
     (let m = interval div minute in
      \<lparr>st_enabled = True, st_interval = (if m < 1 then 5 else m), st_learning = learning, st_suppress = suppress,
       st_private = priv, st_share = (if f64_le share 0 then f005 else share), st_thresholds = None, st_updated = []\<rparr>)"

section \<open>Identity of an event\<close>

record ident =
  id_hash :: "string \<Rightarrow> string"
  id_rfc3339 :: "go_time \<Rightarrow> string"

definition truncate_time :: "go_time \<Rightarrow> duration \<Rightarrow> go_time" where
  "truncate_time t d = (if d \<le> 0 then t else t - t mod d)"

definition fingerprint_at :: "ident \<Rightarrow> string \<Rightarrow> string \<Rightarrow> string \<Rightarrow> string \<Rightarrow> go_time \<Rightarrow> string" where
  "fingerprint_at ids cd src dst extra bucket =
     id_hash ids (cd @ ''|'' @ trim_space src @ ''|'' @ trim_space dst @ ''|'' @ trim_space extra @ ''|'' @
       id_rfc3339 ids bucket)"

definition fingerprint :: "ident \<Rightarrow> string \<Rightarrow> string \<Rightarrow> string \<Rightarrow> string \<Rightarrow> go_time \<Rightarrow> string" where
  "fingerprint ids cd src dst extra h = fingerprint_at ids cd src dst extra (truncate_time h hour)"

definition fingerprint_day :: "ident \<Rightarrow> string \<Rightarrow> string \<Rightarrow> string \<Rightarrow> string \<Rightarrow> go_time \<Rightarrow> string" where
  "fingerprint_day ids cd src dst extra t = fingerprint_at ids cd src dst extra (truncate_time t (24 * hour))"

definition fingerprint_for_hunt :: "ident \<Rightarrow> string \<Rightarrow> go_time \<Rightarrow> string" where
  "fingerprint_for_hunt ids hunt t = fingerprint_at ids code_hunt_threshold [] [] hunt (truncate_time t hour)"

definition pair_key :: "string \<Rightarrow> string \<Rightarrow> string" where
  "pair_key src dst = src @ ''|'' @ dst"

definition display_ip :: "string \<Rightarrow> string" where
  "display_ip ip0 = (let ip = trim_space ip0 in if ip = [] \<or> ip = zero_ipv4 then [] else ip)"

definition suppression_key_country :: "string \<Rightarrow> string \<Rightarrow> string" where
  "suppression_key_country cd c = cd @ ''|country|'' @ trim_space c"

definition suppression_key_for :: "event \<Rightarrow> string" where
  "suppression_key_for e =
     (let c = e_code e in
      if c = code_new_country_dst then
        (if e_dst_country e \<noteq> [] then suppression_key_country c (e_dst_country e) else [])
      else if c \<in> {code_port_scan, code_horizontal_scan, code_byte_surge, code_lateral_fanout} then
        (if e_src e \<noteq> [] then c @ ''|src|'' @ e_src e else [])
      else if c \<in> {code_rep_new_dst, code_beaconing} then
        (if e_src e \<noteq> [] \<and> e_dst e \<noteq> [] then c @ ''|pair|'' @ e_src e @ ''|'' @ e_dst e else [])
      else if c = code_blocked_surge then
        (if e_device e \<noteq> [] then c @ ''|net|'' @ e_device e else c @ ''|global'')
      else [])"

text \<open>\<^verbatim>\<open>isPrivateOrLocal\<close>, with the predicates of \<^verbatim>\<open>net\<close> on both families.\<close>

definition is_private_or_local :: "string \<Rightarrow> bool" where
  "is_private_or_local txt =
     (let ip = parse_ip txt; v4 = to4 ip in
      if ip = [] then False
      else if v4 \<noteq> [] then is_private v4 \<or> is_loopback v4 \<or> is_link_local_unicast v4
      else ip ! 0 AND 0xFE = 0xFC \<or> ip = replicate 15 0 @ [1] \<or> ip ! 0 = 0xFE \<and> ip ! 1 AND 0xC0 = 0x80)"

section \<open>Episodes\<close>

definition episode_anchor :: "event \<Rightarrow> string" where
  "episode_anchor e = (let src = display_ip (e_src e) in if src \<noteq> [] then src else display_ip (e_dst e))"

definition episode_id :: "ident \<Rightarrow> event \<Rightarrow> go_time \<Rightarrow> string" where
  "episode_id ids e now =
     (let anchor = episode_anchor e in
      if anchor = [] then
        (if e_fp e \<noteq> [] then e_fp e
         else fingerprint_at ids ''episode'' [] [] ''solo'' (truncate_time now hour))
      else
        let t = (if e_detected e = 0 then now else e_detected e) in
        fingerprint_at ids ''episode'' anchor [] [] (truncate_time t hour))"

definition assign_episode_ids :: "ident \<Rightarrow> event list \<Rightarrow> go_time \<Rightarrow> event list" where
  "assign_episode_ids ids es now = map (\<lambda>e. e\<lparr>e_episode := episode_id ids e now\<rparr>) es"

record episode =
  ep_id :: string
  ep_anchor :: string
  ep_started :: go_time
  ep_updated :: go_time
  ep_alerts :: nat
  ep_high :: nat
  ep_warn :: nat
  ep_severity :: string
  ep_codes :: "string list"
  ep_fps :: "string list"

definition event_episode :: "ident \<Rightarrow> event \<Rightarrow> string" where
  "event_episode ids e =
     (let i = trim_space (e_episode e) in if i = [] then episode_id ids e (e_detected e) else i)"

text \<open>
  The map from episodes to accumulators together with the order of their first events is one association list. The
  set of codes is a list without repetition.
\<close>

definition episode_add :: "event \<Rightarrow> episode \<Rightarrow> episode" where
  "episode_add e s =
     s\<lparr>ep_alerts := ep_alerts s + 1, ep_fps := ep_fps s @ [e_fp e],
       ep_codes := (if e_code e \<noteq> [] \<and> e_code e \<notin> set (ep_codes s) then ep_codes s @ [e_code e] else ep_codes s),
       ep_high := (if e_sev e = severity_high then ep_high s + 1 else ep_high s),
       ep_warn := (if e_sev e = severity_warn then ep_warn s + 1 else ep_warn s),
       ep_started := (if e_detected e < ep_started s \<or> ep_started s = 0 then e_detected e else ep_started s),
       ep_updated := (if e_detected e > ep_updated s then e_detected e else ep_updated s)\<rparr>"

definition episode_step :: "ident \<Rightarrow> event \<Rightarrow> (string, episode) go_map \<Rightarrow> (string, episode) go_map" where
  "episode_step ids e m =
     (let i = event_episode ids e;
        s = (case gm_get m i of
               Some s \<Rightarrow> s
             | None \<Rightarrow> \<lparr>ep_id = i, ep_anchor = episode_anchor e, ep_started = e_detected e, ep_updated = e_detected e,
                 ep_alerts = 0, ep_high = 0, ep_warn = 0, ep_severity = [], ep_codes = [], ep_fps = []\<rparr>) in
      gm_put i (episode_add e s) m)"

definition episode_max_severity :: "nat \<Rightarrow> nat \<Rightarrow> string" where
  "episode_max_severity high warn =
     (if 0 < high then severity_high else if 0 < warn then severity_warn else severity_info)"

definition severity_rank :: "string \<Rightarrow> nat" where
  "severity_rank s =
     (if s = severity_high then 3 else if s = severity_warn then 2 else if s = severity_info then 1 else 0)"

definition episode_le :: "episode \<Rightarrow> episode \<Rightarrow> bool" where
  "episode_le a b \<longleftrightarrow>
     (if ep_severity a \<noteq> ep_severity b then severity_rank (ep_severity a) \<ge> severity_rank (ep_severity b)
      else ep_updated a \<ge> ep_updated b)"

definition close_episode :: "episode \<Rightarrow> episode" where
  "close_episode s =
     s\<lparr>ep_severity := episode_max_severity (ep_high s) (ep_warn s), ep_codes := sort_by (\<le>) (ep_codes s)\<rparr>"

definition build_episodes :: "(episode list \<Rightarrow> episode list) \<Rightarrow> ident \<Rightarrow> event list \<Rightarrow> episode list" where
  "build_episodes srt ids es = srt (map (\<lambda>(i, s). close_episode s) (fold (episode_step ids) es []))"

section \<open>The link to the map\<close>

definition first_non_empty :: "string list \<Rightarrow> string" where
  "first_non_empty vs = (case filter (\<lambda>v. v \<noteq> []) (map trim_space vs) of [] \<Rightarrow> [] | v # r \<Rightarrow> v)"

text \<open>The octets that start and end have in common, from the left.\<close>

fun common_octets :: "u8 list \<Rightarrow> u8 list \<Rightarrow> u8 list" where
  "common_octets (a # as) (b # bs) = (if a = b then a # common_octets as bs else [])"
| "common_octets as bs = []"

definition prefix_from_range :: "u32 \<Rightarrow> u32 \<Rightarrow> string" where
  "prefix_from_range start stop =
     (if stop < start then []
      else
        let parts = common_octets (octets start) (octets stop) in
        if parts = [] then []
        else if length parts \<le> 3 then dotted parts @ ''.''
        else dotted parts)"

definition network_prefix_query :: "string \<Rightarrow> string" where
  "network_prefix_query network0 =
     (let network = trim_space network0 in
      if network = [] then []
      else if contains_str network ''/'' then
        (case parse_cidr network of
           None \<Rightarrow> []
         | Some (ip, msk) \<Rightarrow>
             let ip4 = to4 ip in
             if ip4 = [] \<or> length msk \<noteq> 4 then []
             else
               let start = ipv4_to_uint32 ip4; m = be_u32 (msk ! 0) (msk ! 1) (msk ! 2) (msk ! 3) in
               prefix_from_range start (start OR NOT m))
      else (case cut_at (CHR ''-'') network of
        Some (a, b) \<Rightarrow>
          let ip = to4 (parse_ip (trim_space a)); jp = to4 (parse_ip (trim_space b)) in
          if ip = [] \<or> jp = [] then []
          else
            let start = ipv4_to_uint32 ip; stop = ipv4_to_uint32 jp in
            if start > stop then prefix_from_range stop start else prefix_from_range start stop
      | None \<Rightarrow> if to4 (parse_ip network) \<noteq> [] then network else []))"

definition detail_text :: "event \<Rightarrow> string \<Rightarrow> string" where
  "detail_text e k = (case map_of (e_detail e) k of Some (D_str s) \<Rightarrow> trim_space s | _ \<Rightarrow> [])"

definition surge_network :: "event \<Rightarrow> string" where
  "surge_network e = (let n = trim_space (e_device e) in if n = [] then detail_text e ''network'' else n)"

definition blocked_surge_query :: "event \<Rightarrow> string" where
  "blocked_surge_query e =
     (let p = network_prefix_query (surge_network e) in
      if p = [] then [] else ''(src:'' @ p @ '' OR dst:'' @ p @ '')'')"

definition blocked_surge_city_label :: "event \<Rightarrow> string" where
  "blocked_surge_city_label e =
     (let label = detail_text e ''label'' in
      case cut_at (CHR '','') label of
        Some (a, b) \<Rightarrow> if a \<noteq> [] then trim_space a else label
      | None \<Rightarrow> label)"

definition trim_suffix :: "string \<Rightarrow> string \<Rightarrow> string" where
  "trim_suffix s p = (if has_prefix (rev s) (rev p) then take (length s - length p) s else s)"

definition blocked_surge_is_wide :: "event \<Rightarrow> bool" where
  "blocked_surge_is_wide e =
     (let network = surge_network e in
      if network = [] then False
      else if contains_str network ''-'' then True
      else if contains_str network ''/'' then
        (case parse_cidr network of
           None \<Rightarrow> False
         | Some (ip, msk) \<Rightarrow> length (takeWhile id (concat (map (\<lambda>b. map (\<lambda>i. bit b i) (rev [0..<8])) msk))) \<le> 16)
      else length (split_on (CHR ''.'') (trim_suffix (network_prefix_query network) ''.'')) \<le> 2)"

definition blocked_surge_map_link :: "event \<Rightarrow> map_link" where
  "blocked_surge_map_link e =
     (let q = blocked_surge_query e; city = blocked_surge_city_label e in
      if q = [] then link [] [] [] [] []
      else if city \<noteq> [] \<and> blocked_surge_is_wide e then link ''1h'' ''city'' ''blocked'' (''city:'' @ city) []
      else link ''1h'' ''ip'' ''blocked'' q [])"

definition fallback_map_link :: "event \<Rightarrow> map_link" where
  "fallback_map_link e =
     (let src = trim_space (e_src e); dst = trim_space (e_dst e);
        city = first_non_empty [e_src_city e, e_dst_city e];
        land = first_non_empty [e_dst_country e, e_src_country e] in
      if src \<noteq> [] then link ''1h'' ''ip'' ''all'' (''src:'' @ src) []
      else if dst \<noteq> [] then link ''1h'' ''ip'' ''all'' (''dst:'' @ dst) []
      else if city \<noteq> [] then link ''1h'' ''city'' ''all'' (''city:'' @ city) []
      else if land \<noteq> [] then link ''1h'' ''country'' ''all'' (''country:'' @ land) land
      else link ''1h'' ''city'' ''all'' [] [])"

definition map_link_for :: "event \<Rightarrow> map_link" where
  "map_link_for e =
     (let c = e_code e; src = trim_space (e_src e); dst = trim_space (e_dst e); land = trim_space (e_dst_country e) in
      if c \<in> {code_port_scan, code_horizontal_scan, code_lateral_fanout} \<and> src \<noteq> [] then
        link (if c = code_lateral_fanout then ''1h'' else ''15m'') ''ip'' ''all'' (''src:'' @ src) []
      else if c = code_byte_surge \<and> src \<noteq> [] then link ''2h'' ''ip'' ''all'' (''src:'' @ src) []
      else if c \<in> {code_beaconing, code_rep_new_dst} then
        link (if c = code_beaconing then ''1d'' else ''1h'') ''ip'' ''all''
          (if src \<noteq> [] \<and> dst \<noteq> [] then ''src:'' @ src @ '' dst:'' @ dst else []) []
      else if c = code_new_country_dst \<and> land \<noteq> [] then link ''1h'' ''country'' ''all'' (''dst:'' @ land) land
      else if c = code_blocked_surge \<and> ml_query (blocked_surge_map_link e) \<noteq> [] then blocked_surge_map_link e
      else fallback_map_link e)"

section \<open>The journal\<close>

text \<open>
  The tables of ClickHouse behind \<^verbatim>\<open>EventStore\<close> (\<^verbatim>\<open>adapter/clickhouse/anomalystore/events.go\<close>) as lists of
  rows; a query is a function of them. A row of a suppression is its key and the time it ends. That a query or
  an insertion may fail is an input of the operations.
\<close>

record journal =
  j_events :: "event list"
  j_acks :: "(string \<times> go_time \<times> string) list"
  j_supp :: "(string \<times> go_time) list"
  j_assign :: "(string \<times> string \<times> go_time \<times> string) list"

definition store_row :: "event \<Rightarrow> event" where
  "store_row e = e\<lparr>e_src := (if e_src e = [] then zero_ipv4 else e_src e), e_dst := (if e_dst e = [] then zero_ipv4 else e_dst e)\<rparr>"

definition store_insert :: "event list \<Rightarrow> journal \<Rightarrow> journal" where
  "store_insert es j = j\<lparr>j_events := j_events j @ map store_row es\<rparr>"

definition existing_fingerprints :: "journal \<Rightarrow> string list \<Rightarrow> string list" where
  "existing_fingerprints j fps = filter (\<lambda>f. f \<in> set (map e_fp (j_events j))) fps"

definition active_suppressions :: "journal \<Rightarrow> string list \<Rightarrow> go_time \<Rightarrow> string list" where
  "active_suppressions j ks now = filter (\<lambda>k. k \<noteq> [] \<and> (\<exists>(k', until) \<in> set (j_supp j). k' = k \<and> now < until)) ks"

text \<open>The part after the last \<open>|country|\<close>.\<close>

fun after_last :: "string \<Rightarrow> string \<Rightarrow> string option" where
  "after_last p [] = (if p = [] then Some [] else None)"
| "after_last p (c # s) =
     (case after_last p s of Some t \<Rightarrow> Some t
      | None \<Rightarrow> if has_prefix (c # s) p then Some (drop (length p) (c # s)) else None)"

definition recent_suppression_keys :: "journal \<Rightarrow> string \<Rightarrow> string list \<Rightarrow> go_time \<Rightarrow> string list" where
  "recent_suppression_keys j cd ks since =
     (let rows = filter (\<lambda>e. e_code e = cd \<and> since \<le> e_detected e) (j_events j) in
      if cd = code_new_country_dst then
        (let cs = filter (\<lambda>c. c \<noteq> []) (map (\<lambda>k. case after_last ''|country|'' (trim_space k) of
                    Some c \<Rightarrow> trim_space c | None \<Rightarrow> []) ks) in
         map (\<lambda>c. cd @ ''|country|'' @ c) (filter (\<lambda>c. c \<in> set (map e_dst_country rows)) cs))
      else filter (\<lambda>k. k \<noteq> [] \<and> k \<in> set (map e_key rows)) ks)"

text \<open>Which of the statements of \<^verbatim>\<open>Ack\<close> succeed.\<close>

record ack_io =
  io_ack :: bool
  io_query :: bool
  io_supp :: bool

definition latest_event :: "journal \<Rightarrow> string \<Rightarrow> event option" where
  "latest_event j fp =
     (case sort_by (\<lambda>a b. e_detected a \<ge> e_detected b) (filter (\<lambda>e. e_fp e = fp) (j_events j)) of
        [] \<Rightarrow> None | e # r \<Rightarrow> Some e)"

definition ack_key :: "event \<Rightarrow> string" where
  "ack_key e =
     (let k = trim_space (e_key e); c = e_code e in
      if k \<noteq> [] then k
      else if c = code_new_country_dst then c @ ''|country|'' @ trim_space (e_dst_country e)
      else if c \<in> {code_port_scan, code_horizontal_scan} then c @ ''|src|'' @ trim_space (e_src e)
      else if c = code_rep_new_dst then c @ ''|pair|'' @ trim_space (e_src e) @ ''|'' @ trim_space (e_dst e)
      else if c = code_blocked_surge then
        (let d = trim_space (e_device e) in if d \<noteq> [] then c @ ''|net|'' @ d else c @ ''|global'')
      else [])"

definition store_ack :: "ack_io \<Rightarrow> string \<Rightarrow> string \<Rightarrow> duration \<Rightarrow> go_time \<Rightarrow> journal \<Rightarrow> bool \<times> journal" where
  "store_ack io fp by period now j =
     (if \<not> io_ack io then (False, j)
      else
        let j1 = j\<lparr>j_acks := j_acks j @ [(fp, now, by)]\<rparr> in
        if period \<le> 0 then (True, j1)
        else if \<not> io_query io then (False, j1)
        else case latest_event j fp of
          None \<Rightarrow> (False, j1)
        | Some e \<Rightarrow>
            let k = ack_key e in
            if trim_space k = [] then (True, j1)
            else if \<not> io_supp io then (False, j1)
            else (True, j1\<lparr>j_supp := j_supp j1 @ [(k, now + period)]\<rparr>))"

definition current_assignee :: "journal \<Rightarrow> string \<Rightarrow> string" where
  "current_assignee j fp =
     (case sort_by (\<lambda>a b. fst (snd (snd a)) \<ge> fst (snd (snd b))) (filter (\<lambda>a. fst a = fp) (j_assign j)) of
        [] \<Rightarrow> [] | (f, who, t, by) # r \<Rightarrow> trim_space who)"

definition store_assign :: "bool \<Rightarrow> string \<Rightarrow> string \<Rightarrow> string \<Rightarrow> go_time \<Rightarrow> journal \<Rightarrow> bool \<times> journal" where
  "store_assign ok fp who by now j =
     (if ok then (True, j\<lparr>j_assign := j_assign j @ [(fp, who, now, by)]\<rparr>) else (False, j))"

definition store_assign_if_empty ::
  "bool \<Rightarrow> bool \<Rightarrow> string \<Rightarrow> string \<Rightarrow> string \<Rightarrow> go_time \<Rightarrow> journal \<Rightarrow> bool \<times> journal" where
  "store_assign_if_empty read_ok ok fp who by now j =
     (let cur = (if read_ok then current_assignee j fp else []) in
      if cur \<noteq> [] then (True, j) else store_assign ok fp who by now j)"

section \<open>Removing duplicates: dedupAndCap\<close>

definition with_key :: "event \<Rightarrow> event" where
  "with_key e = (if e_key e = [] then e\<lparr>e_key := suppression_key_for e\<rparr> else e)"

fun uniq_events :: "string list \<Rightarrow> event list \<Rightarrow> event list" where
  "uniq_events seen [] = []"
| "uniq_events seen (e # es) =
     (if e_fp e = [] then uniq_events seen es
      else if e_fp e \<in> set seen then uniq_events seen es
      else with_key e # uniq_events (e_fp e # seen) es)"

definition event_ttl :: duration where "event_ttl = 30 * (24 * hour)"

definition stamp_event :: "go_time \<Rightarrow> event \<Rightarrow> event" where
  "stamp_event now e =
     (let d = (if e_detected e = 0 then now else e_detected e);
        x = (if e_expires e = 0 then now + event_ttl else e_expires e) in
      e\<lparr>e_detected := d, e_expires := x\<rparr>)"

fun cap_events ::
  "string list \<Rightarrow> string list \<Rightarrow> go_time \<Rightarrow> (string \<Rightarrow> nat) \<Rightarrow> nat \<Rightarrow> event list \<Rightarrow> event list" where
  "cap_events exist supp now per n [] = []"
| "cap_events exist supp now per n (e # es) =
     (if e_fp e \<in> set exist then cap_events exist supp now per n es
      else if e_key e \<in> set supp then cap_events exist supp now per n es
      else if per (e_code e) \<ge> max_per_code then cap_events exist supp now per n es
      else if n \<ge> max_insert_per_tick then []
      else stamp_event now e # cap_events exist supp now (per(e_code e := per (e_code e) + 1)) (Suc n) es)"

text \<open>A lookup that fails is logged and counts as empty.\<close>

definition dedup_and_cap :: "bool \<Rightarrow> bool \<Rightarrow> journal \<Rightarrow> event list \<Rightarrow> go_time \<Rightarrow> event list" where
  "dedup_and_cap fp_ok supp_ok j es now =
     (let uniq = uniq_events [] es;
        exist = (if fp_ok then existing_fingerprints j (map e_fp uniq) else []);
        ks = remdups (filter (\<lambda>k. k \<noteq> []) (map e_key uniq));
        supp = (if supp_ok then active_suppressions j ks now else []) in
      cap_events exist supp now (\<lambda>c. 0) 0 uniq)"

section \<open>Episodes partition the events\<close>

definition episode_group :: "ident \<Rightarrow> string \<Rightarrow> event list \<Rightarrow> event list" where
  "episode_group ids i es = filter (\<lambda>e. event_episode ids e = i) es"

definition summarises :: "ident \<Rightarrow> event list \<Rightarrow> string \<Rightarrow> episode \<Rightarrow> bool" where
  "summarises ids es i s \<longleftrightarrow>
     ep_id s = i \<and> ep_alerts s = length (episode_group ids i es) \<and> ep_fps s = map e_fp (episode_group ids i es) \<and>
     ep_high s = length (filter (\<lambda>e. e_sev e = severity_high) (episode_group ids i es)) \<and>
     ep_warn s = length (filter (\<lambda>e. e_sev e = severity_warn) (episode_group ids i es)) \<and>
     distinct (ep_codes s) \<and> set (ep_codes s) = {c \<in> e_code ` set (episode_group ids i es). c \<noteq> []} \<and>
     episode_group ids i es \<noteq> [] \<and> (\<forall>e\<in>set (episode_group ids i es). e_detected e \<le> ep_updated s) \<and>
     ep_updated s \<in> e_detected ` set (episode_group ids i es)"

lemma group_of_snoc: "episode_group ids i (es @ [e]) = episode_group ids i es @ (if event_episode ids e = i then [e] else [])"
  by (simp add: episode_group_def)

lemma summarises_other: "event_episode ids e \<noteq> i \<Longrightarrow> summarises ids (es @ [e]) i s \<longleftrightarrow> summarises ids es i s"
  by (simp add: summarises_def group_of_snoc)

lemma summarises_add: "summarises ids es (event_episode ids e) s \<Longrightarrow> summarises ids (es @ [e]) (event_episode ids e) (episode_add e s)"
  by (auto simp: summarises_def group_of_snoc episode_add_def severity_defs)

lemma summarises_new:
  assumes "episode_group ids (event_episode ids e) es = []"
  shows "summarises ids (es @ [e]) (event_episode ids e) (episode_add e
    \<lparr>ep_id = event_episode ids e, ep_anchor = a, ep_started = e_detected e, ep_updated = e_detected e,
     ep_alerts = 0, ep_high = 0, ep_warn = 0, ep_severity = [], ep_codes = [], ep_fps = []\<rparr>)"
  using assms by (auto simp: summarises_def group_of_snoc episode_add_def severity_defs)

definition fresh_episode :: "ident \<Rightarrow> event \<Rightarrow> episode" where
  "fresh_episode ids e = \<lparr>ep_id = event_episode ids e, ep_anchor = episode_anchor e, ep_started = e_detected e,
     ep_updated = e_detected e, ep_alerts = 0, ep_high = 0, ep_warn = 0, ep_severity = [], ep_codes = [], ep_fps = []\<rparr>"

lemma episode_step_get:
  "gm_get (episode_step ids e m) i =
     (if i = event_episode ids e
      then Some (episode_add e (case gm_get m i of Some s \<Rightarrow> s | None \<Rightarrow> fresh_episode ids e)) else gm_get m i)"
  by (simp add: episode_step_def Let_def fresh_episode_def split: option.splits)

lemma episode_step_ok: "gm_ok m \<Longrightarrow> gm_ok (episode_step ids e m)"
  by (simp add: episode_step_def Let_def)

definition groups_ok :: "ident \<Rightarrow> event list \<Rightarrow> (string, episode) go_map \<Rightarrow> bool" where
  "groups_ok ids es m \<longleftrightarrow> gm_ok m \<and>
     (\<forall>i. case gm_get m i of None \<Rightarrow> episode_group ids i es = [] | Some s \<Rightarrow> summarises ids es i s)"

lemma groups_ok_step:
  assumes "groups_ok ids es m"
  shows "groups_ok ids (es @ [e]) (episode_step ids e m)"
proof -
  have "case gm_get (episode_step ids e m) i of None \<Rightarrow> episode_group ids i (es @ [e]) = []
      | Some s \<Rightarrow> summarises ids (es @ [e]) i s" for i
  proof (cases "gm_get m i")
    case None
    then have "episode_group ids i es = []" using assms by (auto simp: groups_ok_def dest: spec [of _ i])
    then show ?thesis
      using None summarises_new [of ids e es] by (auto simp: episode_step_get group_of_snoc fresh_episode_def)
  next
    case (Some s)
    then have "summarises ids es i s" using assms by (auto simp: groups_ok_def dest: spec [of _ i])
    then show ?thesis
      using Some by (auto simp: episode_step_get summarises_add summarises_other)
  qed
  then show ?thesis using assms by (auto simp: groups_ok_def episode_step_ok)
qed

lemma groups_ok_fold: "groups_ok ids es (fold (episode_step ids) es [])"
proof (induction es rule: rev_induct)
  case Nil
  then show ?case by (simp add: episode_group_def groups_ok_def)
next
  case (snoc e es)
  then show ?case using groups_ok_step by simp
qed

lemma close_episode_fields:
  "ep_id (close_episode s) = ep_id s" "ep_alerts (close_episode s) = ep_alerts s" "ep_fps (close_episode s) = ep_fps s"
  "ep_high (close_episode s) = ep_high s" "ep_warn (close_episode s) = ep_warn s"
  "set (ep_codes (close_episode s)) = set (ep_codes s)"
  by (simp_all add: close_episode_def)
    (metis mset_sort_by set_mset_mset)

lemma episode_keys: "set (map fst (fold (episode_step ids) es [])) = event_episode ids ` set es"
proof (induction es rule: rev_induct)
  case (snoc e es)
  then show ?case by (auto simp: episode_step_def Let_def dom_update)
qed simp

lemma episode_max_severity_iff:
  "episode_max_severity (length (filter P xs)) (length (filter Q xs)) =
     (if \<exists>x\<in>set xs. P x then severity_high else if \<exists>x\<in>set xs. Q x then severity_warn else severity_info)"
  by (auto simp: episode_max_severity_def filter_empty_conv)

lemma sorted_wrt_codes: "sorted_wrt (\<le>) (sort_by (\<le>) (xs :: string list))"
proof -
  have "slice_sorter (\<le>) (sort_by (\<le>) :: string list \<Rightarrow> string list)"
    by (rule slice_sorter_sort_by) (auto intro: transpI totalpI reflpI)
  then show ?thesis by (auto simp: slice_sorter_def)
qed

text \<open>The summaries of the journal page partition its events: there is one episode for each identifier of an
  event, and an episode holds exactly the fingerprints of its events in their order, counts them and those of
  each severity, lists their codes once and in order, ends with the latest of them and has the highest severity.\<close>
theorem build_episodes_partition:
  assumes "\<forall>xs. mset (srt xs) = mset xs"
  shows "distinct (map ep_id (build_episodes srt ids es)) \<and>
    set (map ep_id (build_episodes srt ids es)) = event_episode ids ` set es \<and>
    (\<forall>s\<in>set (build_episodes srt ids es).
       let g = filter (\<lambda>e. event_episode ids e = ep_id s) es in
       ep_alerts s = length g \<and> ep_fps s = map e_fp g \<and> ep_updated s = Max (e_detected ` set g) \<and>
       ep_high s = length (filter (\<lambda>e. e_sev e = severity_high) g) \<and>
       ep_warn s = length (filter (\<lambda>e. e_sev e = severity_warn) g) \<and>
       set (ep_codes s) = {c \<in> e_code ` set g. c \<noteq> []} \<and> sorted_wrt (\<le>) (ep_codes s) \<and>
       ep_severity s = (if \<exists>e\<in>set g. e_sev e = severity_high then severity_high
         else if \<exists>e\<in>set g. e_sev e = severity_warn then severity_warn else severity_info))"
proof -
  let ?m = "fold (episode_step ids) es []"
  let ?E = "map (\<lambda>(i, s). close_episode s) ?m"
  have ok: "distinct (map fst ?m)" and sm: "\<And>i s. (i, s) \<in> set ?m \<Longrightarrow> summarises ids es i s"
    using groups_ok_fold [of ids es] by (auto simp: groups_ok_def gm_ok_def gm_get_in split: option.splits)
  have ids: "map ep_id ?E = map fst ?m" using sm by (auto simp: close_episode_fields summarises_def)
  have mE: "mset (build_episodes srt ids es) = mset ?E" by (simp add: build_episodes_def assms)
  then have setE: "set (build_episodes srt ids es) = set ?E" by (metis set_mset_mset)
  have "mset (map ep_id (build_episodes srt ids es)) = mset (map fst ?m)"
    using mE ids by (metis mset_map)
  then have "distinct (map ep_id (build_episodes srt ids es))"
    "set (map ep_id (build_episodes srt ids es)) = event_episode ids ` set es"
    using ok episode_keys mset_eq_imp_distinct_iff mset_eq_setD by metis+
  moreover have "let g = filter (\<lambda>e. event_episode ids e = ep_id s) es in
       ep_alerts s = length g \<and> ep_fps s = map e_fp g \<and> ep_updated s = Max (e_detected ` set g) \<and>
       ep_high s = length (filter (\<lambda>e. e_sev e = severity_high) g) \<and>
       ep_warn s = length (filter (\<lambda>e. e_sev e = severity_warn) g) \<and>
       set (ep_codes s) = {c \<in> e_code ` set g. c \<noteq> []} \<and> sorted_wrt (\<le>) (ep_codes s) \<and>
       ep_severity s = (if \<exists>e\<in>set g. e_sev e = severity_high then severity_high
         else if \<exists>e\<in>set g. e_sev e = severity_warn then severity_warn else severity_info)"
    if sE: "s \<in> set (build_episodes srt ids es)" for s
  proof -
    obtain i s0 where s0: "(i, s0) \<in> set ?m" "s = close_episode s0" using sE unfolding setE by auto
    let ?g = "episode_group ids i es"
    have sum: "summarises ids es i s0" by (rule sm [OF s0(1)])
    have "ep_updated s0 = Max (e_detected ` set ?g)"
      by (rule Max_eqI [symmetric]) (use sum in \<open>auto simp: summarises_def\<close>)
    moreover have "ep_id s = i" "ep_updated s = ep_updated s0"
      using sum by (auto simp: s0(2) close_episode_def summarises_def)
    moreover have "ep_severity s = episode_max_severity (ep_high s0) (ep_warn s0)" "sorted_wrt (\<le>) (ep_codes s)"
      by (simp_all add: s0(2) close_episode_def sorted_wrt_codes)
    ultimately show ?thesis
      using sum episode_max_severity_iff [of _ ?g]
      by (simp add: summarises_def Let_def episode_group_def [symmetric]) (simp add: s0(2) close_episode_fields)
  qed
  ultimately show ?thesis by blast
qed

lemma build_episodes_partition_witness:
  "ep_alerts (hd (build_episodes (\<lambda>xs. xs) \<lparr>id_hash = id, id_rfc3339 = (\<lambda>t. ''t'')\<rparr>
     [no_event\<lparr>e_episode := ''a'', e_sev := ''warn''\<rparr>, no_event\<lparr>e_episode := ''b''\<rparr>, no_event\<lparr>e_episode := ''a''\<rparr>])) = 2 \<and>
   distinct (map ep_id (build_episodes (\<lambda>xs. xs) \<lparr>id_hash = id, id_rfc3339 = (\<lambda>t. ''t'')\<rparr>
     [no_event\<lparr>e_episode := ''a'', e_sev := ''warn''\<rparr>, no_event\<lparr>e_episode := ''b''\<rparr>, no_event\<lparr>e_episode := ''a''\<rparr>]))"
proof -
  have t: "trim_space ''a'' = ''a''" "trim_space ''b'' = ''b''" by code_simp+
  show ?thesis
    by (intro conjI build_episodes_partition [THEN conjunct1] allI refl)
      (simp add: build_episodes_def episode_step_def event_episode_def Let_def no_event_def t episode_add_def close_episode_def)
qed

section \<open>The prefix of a range\<close>

lemma div_between: "a \<le> v \<Longrightarrow> v \<le> b \<Longrightarrow> a div m = b div m \<Longrightarrow> v div m = a div (m :: nat)"
  by (metis div_le_mono le_antisym)

lemma has_prefix_append [simp]: "has_prefix (p @ s) p"
  by (simp add: has_prefix_def)

lemma common_octets_between:
  assumes "start \<le> v" "v \<le> stop"
  shows "\<exists>r. octets v = common_octets (octets start) (octets stop) @ r"
proof -
  obtain s0 s1 s2 s3 where s: "octets start = [s0, s1, s2, s3]" by (simp add: octets_def)
  obtain e0 e1 e2 e3 where e: "octets stop = [e0, e1, e2, e3]" by (simp add: octets_def)
  obtain v0 v1 v2 v3 where v: "octets v = [v0, v1, v2, v3]" by (simp add: octets_def)
  have le: "unat start \<le> unat v" "unat v \<le> unat stop" using assms by (simp_all add: word_le_nat_alt)
  note so = octets_unat [of start] and eo = octets_unat [of stop] and vo = octets_unat [of v]
  have dd: "n div 2 ^ 16 = n div 2 ^ 24 * 256 + n div 2 ^ 16 mod 256" "n div 2 ^ 8 = n div 2 ^ 16 * 256 + n div 2 ^ 8 mod 256"
      "n = n div 2 ^ 8 * 256 + n mod 256" for n :: nat
    by (simp_all add: div_mult2_eq [of n "2 ^ 16" "2 ^ 8", simplified] div_mult2_eq [of n "2 ^ 8" "2 ^ 8", simplified])
  have h0: "unat start div 2 ^ 24 = unat stop div 2 ^ 24" if "s0 = e0"
    using that so eo s e by simp
  have h1: "unat start div 2 ^ 16 = unat stop div 2 ^ 16" if "s0 = e0" "s1 = e1"
    using h0 that so eo s e dd(1) [of "unat start"] dd(1) [of "unat stop"] by simp
  have h2: "unat start div 2 ^ 8 = unat stop div 2 ^ 8" if "s0 = e0" "s1 = e1" "s2 = e2"
    using h1 that so eo s e dd(2) [of "unat start"] dd(2) [of "unat stop"] by simp
  have h3: "unat start = unat stop" if "s0 = e0" "s1 = e1" "s2 = e2" "s3 = e3"
    using h2 that so eo s e dd(3) [of "unat start"] dd(3) [of "unat stop"] by simp
  have k0: "v0 = s0" if "s0 = e0"
    using div_between [OF le h0 [OF that]] so vo s v by (simp add: word_unat_eq_iff)
  have k1: "v1 = s1" if "s0 = e0" "s1 = e1"
    using div_between [OF le h1 [OF that]] so vo s v by (simp add: word_unat_eq_iff)
  have k2: "v2 = s2" if "s0 = e0" "s1 = e1" "s2 = e2"
    using div_between [OF le h2 [OF that]] so vo s v by (simp add: word_unat_eq_iff)
  have k3: "v3 = s3" if "s0 = e0" "s1 = e1" "s2 = e2" "s3 = e3"
    using h3 [OF that] le so vo s v by (simp add: word_unat_eq_iff)
  show ?thesis unfolding s e v using k0 k1 k2 k3 by auto
qed

lemma dotted_append: "xs \<noteq> [] \<Longrightarrow> r \<noteq> [] \<Longrightarrow> dotted (xs @ r) = dotted xs @ ''.'' @ dotted r"
proof (induction xs rule: dotted.induct)
  case (2 a)
  then show ?case by (cases r) simp_all
qed simp_all

text \<open>The prefix that the link of a blocked surge searches for is a prefix of the text of every address in the
  network: no address of the range is lost by the query.\<close>
theorem prefix_covers_range:
  assumes "start \<le> v" "v \<le> stop"
  shows "has_prefix (uint32_to_ip v) (prefix_from_range start stop)"
proof -
  obtain r where r: "octets v = common_octets (octets start) (octets stop) @ r"
    using common_octets_between [OF assms] by blast
  let ?p = "common_octets (octets start) (octets stop)"
  have len: "length ?p + length r = 4" using r by (metis length_append length_octets)
  have "\<not> stop < start" using assms by simp
  then show ?thesis
    using r len dotted_append [of ?p r] 
    by (cases "r = []") (auto simp: prefix_from_range_def Let_def uint32_to_ip_def has_prefix_def)
qed

lemma prefix_covers_range_witness:
  "prefix_from_range 0x0A000100 0x0A0001FF = ''10.0.1.'' \<and> has_prefix (uint32_to_ip 0x0A000142) (prefix_from_range 0x0A000100 0x0A0001FF)"
  by (intro conjI prefix_covers_range) code_simp+

end
