(* ===== verification/Anomaly_Scan.thy ===== *)
theory Anomaly_Scan
  imports Anomaly "HOL-Library.Sublist"
begin

text \<open>
  The detectors and the tick of the anomaly scan (\<^verbatim>\<open>usecase/anomaly/detect.go\<close>, \<^verbatim>\<open>anomaly_service.go\<close>,
  \<^verbatim>\<open>settings.go\<close>). The SQL scans of \<^verbatim>\<open>TrafficScanner\<close> are arguments that may fail (\<open>None\<close>); contexts appear as
  the failures they cause and as the check before each detector. Metrics and logging are left out.
\<close>

section \<open>What the scans return\<close>

record port_scan_hit =
  ps_src :: string
  ps_ports :: u64
  ps_events :: u64
  ps_country :: string

record horizontal_hit =
  hs_src :: string
  hs_net24 :: string
  hs_hosts :: u64
  hs_events :: u64

record country_count =
  cc_country :: string
  cc_n :: u64

record edge_row =
  ed_src :: string
  ed_dst :: string
  ed_count :: u64
  ed_src_country :: string
  ed_dst_country :: string

record byte_surge_hit =
  bs_src :: string
  bs_now :: u64
  bs_prev :: u64

record beaconing_hit =
  bc_src :: string
  bc_dst :: string
  bc_hours :: u64
  bc_bytes :: u64
  bc_events :: u64
  bc_hour_unix :: "int list"

record lateral_hit =
  lf_src :: string
  lf_hosts :: u64
  lf_events :: u64

record scanner =
  sc_oldest :: "go_time option"
  sc_port_scan :: "duration \<Rightarrow> int \<Rightarrow> int \<Rightarrow> bool \<Rightarrow> ip_range list \<Rightarrow> port_scan_hit list option"
  sc_horizontal :: "duration \<Rightarrow> int \<Rightarrow> int \<Rightarrow> bool \<Rightarrow> ip_range list \<Rightarrow> horizontal_hit list option"
  sc_blocked :: "go_time \<Rightarrow> go_time \<Rightarrow> ip_range \<Rightarrow> u64 option"
  sc_countries :: "duration \<Rightarrow> u64 \<Rightarrow> ip_range list \<Rightarrow> country_count list option"
  sc_country_total :: "duration \<Rightarrow> ip_range list \<Rightarrow> u64 option"
  sc_baseline :: "int \<Rightarrow> u64 \<Rightarrow> ip_range list \<Rightarrow> string list option"
  sc_edges :: "duration \<Rightarrow> int \<Rightarrow> ip_range list \<Rightarrow> edge_row list option"
  sc_known_pairs :: "(string \<times> string) list \<Rightarrow> duration \<Rightarrow> string list option"
  sc_byte_surge :: "duration \<Rightarrow> u64 \<Rightarrow> u64 \<Rightarrow> ip_range list \<Rightarrow> byte_surge_hit list option"
  sc_beaconing :: "duration \<Rightarrow> int \<Rightarrow> u64 \<Rightarrow> ip_range list \<Rightarrow> beaconing_hit list option"
  sc_lateral :: "duration \<Rightarrow> int \<Rightarrow> int \<Rightarrow> ip_range list \<Rightarrow> lateral_hit list option"

definition port_scan_window :: duration where "port_scan_window = 5 * minute"
definition horizontal_scan_window :: duration where "horizontal_scan_window = 5 * minute"
definition blocked_window :: duration where "blocked_window = 15 * minute"
definition country_window :: duration where "country_window = hour"
definition rep_window :: duration where "rep_window = 15 * minute"
definition rep_lookback :: duration where "rep_lookback = 7 * (24 * hour)"
definition byte_surge_window :: duration where "byte_surge_window = hour"
definition lateral_fanout_window :: duration where "lateral_fanout_window = 15 * minute"
definition beacon_lookback :: duration where "beacon_lookback = 24 * hour"
definition country_baseline_days :: int where "country_baseline_days = 7"
definition summary_since :: duration where "summary_since = 24 * hour"
definition blocked_surge_repeat_cooldown :: duration where "blocked_surge_repeat_cooldown = 6 * hour"

section \<open>Configuration and status\<close>

record anomaly_config =
  cf_enabled :: bool
  cf_private :: bool
  cf_learning :: int
  cf_profile :: string
  cf_suppress :: int
  cf_share :: f64
  cf_nc_cooldown :: int
  cf_overrides :: "thresholds option"

definition learning_period :: "anomaly_config \<Rightarrow> duration" where
  "learning_period c = (let d = (if cf_learning c < 1 then 3 else cf_learning c) in d * (24 * hour))"

definition suppress_period :: "anomaly_config \<Rightarrow> duration" where
  "suppress_period c = (let h = (if cf_suppress c < 1 then 24 else cf_suppress c) in h * hour)"

definition new_country_repeat_cooldown :: "anomaly_config \<Rightarrow> duration" where
  "new_country_repeat_cooldown c = (let h = (if cf_nc_cooldown c < 1 then 24 else cf_nc_cooldown c) in h * hour)"

record status =
  ss_learning :: bool
  ss_last_ok :: go_time
  ss_last_error :: string
  ss_last_inserted :: nat
  ss_last_skip :: string
  ss_nets :: nat

record anomaly_service =
  sv_cfg :: anomaly_config
  sv_status :: status

definition new_anomaly_service :: "anomaly_config \<Rightarrow> anomaly_service" where
  "new_anomaly_service cfg =
     \<lparr>sv_cfg = (if cf_learning cfg < 1 then cfg\<lparr>cf_learning := 3\<rparr> else cfg),
      sv_status = \<lparr>ss_learning = False, ss_last_ok = 0, ss_last_error = [], ss_last_inserted = 0, ss_last_skip = [],
        ss_nets = 0\<rparr>\<rparr>"

definition apply_settings :: "settings \<Rightarrow> anomaly_service \<Rightarrow> anomaly_service" where
  "apply_settings st s =
     s\<lparr>sv_cfg := (sv_cfg s)\<lparr>cf_enabled := st_enabled st, cf_private := st_private st, cf_learning := st_learning st,
        cf_suppress := st_suppress st, cf_share := st_share st, cf_overrides := st_thresholds st\<rparr>\<rparr>"

definition live_status :: "nat \<Rightarrow> anomaly_service \<Rightarrow> status" where
  "live_status n s =
     (let st = (sv_status s)\<lparr>ss_nets := n\<rparr> in
      if 0 < n \<and> ss_last_skip st = ''no_enterprise_nets'' then st\<lparr>ss_last_skip := []\<rparr> else st)"

section \<open>The tick's environment\<close>

text \<open>\<open>en_nets\<close> is \<open>None\<close> when there is no source or it fails; \<open>en_done i\<close>: the tick's context is over before
  detector \<open>i\<close>.\<close>

record env =
  en_clock :: go_time
  en_scan :: scanner
  en_rep :: "(string \<Rightarrow> rep_hit list) option"
  en_ids :: ident
  en_gate :: string
  en_nets :: "ip_range list option"
  en_done :: "nat \<Rightarrow> bool"
  en_recent_ok :: bool
  en_fp_ok :: bool
  en_supp_ok :: bool
  en_insert_ok :: bool

definition load_enterprise_nets :: "env \<Rightarrow> ip_range list" where
  "load_enterprise_nets en =
     (case en_nets en of None \<Rightarrow> [] | Some ns \<Rightarrow> filter (\<lambda>n. \<not> rg_end n < rg_start n) ns)"

definition is_learning :: "env \<Rightarrow> anomaly_config \<Rightarrow> go_time \<Rightarrow> bool" where
  "is_learning en cfg now =
     (case sc_oldest (en_scan en) of
        None \<Rightarrow> True
      | Some t \<Rightarrow> if t = 0 then True else time_sub now t < learning_period cfg)"

section \<open>Detectors\<close>

definition event_at :: "go_time \<Rightarrow> duration \<Rightarrow> string \<Rightarrow> string \<Rightarrow> event" where
  "event_at now window cd sev =
     no_event\<lparr>e_detected := now, e_wstart := now - window, e_wend := now, e_code := cd, e_sev := sev\<rparr>"

definition detect_port_scan :: "env \<Rightarrow> anomaly_config \<Rightarrow> go_time \<Rightarrow> thresholds \<Rightarrow> ip_range list \<Rightarrow> event list option" where
  "detect_port_scan en cfg now th nets =
     (if nets = [] then Some []
      else case sc_port_scan (en_scan en) port_scan_window (th_ps_ports th) (th_ps_events th) (cf_private cfg) nets of
        None \<Rightarrow> None
      | Some hits \<Rightarrow> Some (concat (map (\<lambda>h.
          let src = display_ip (ps_src h) in
          if src = [] then []
          else [(event_at now port_scan_window code_port_scan severity_high)
            \<lparr>e_score := score_against (f64_of_u64 (ps_ports h)) (f64_of_int (th_ps_ports th)) severity_high,
             e_detail := [(''src_ip'', D_str src), (''unique_ports'', D_u64 (ps_ports h)), (''events'', D_u64 (ps_events h)),
               (''window_minutes'', D_int 5), (''threshold_ports'', D_int (th_ps_ports th))],
             e_src := src, e_src_country := ps_country h, e_count := ps_events h,
             e_fp := fingerprint (en_ids en) code_port_scan src [] [] now,
             e_map := link ''15m'' ''ip'' ''all'' (''src:'' @ src) []\<rparr>]) hits)))"

definition detect_horizontal_scan :: "env \<Rightarrow> anomaly_config \<Rightarrow> go_time \<Rightarrow> thresholds \<Rightarrow> ip_range list \<Rightarrow> event list option" where
  "detect_horizontal_scan en cfg now th nets =
     (if nets = [] then Some []
      else case sc_horizontal (en_scan en) horizontal_scan_window (th_hs_hosts th) (th_hs_events th) (cf_private cfg) nets of
        None \<Rightarrow> None
      | Some hits \<Rightarrow> Some (concat (map (\<lambda>h.
          let src = display_ip (hs_src h) in
          if src = [] \<or> hs_net24 h = [] then []
          else [(event_at now horizontal_scan_window code_horizontal_scan severity_high)
            \<lparr>e_score := score_against (f64_of_u64 (hs_hosts h)) (f64_of_int (th_hs_hosts th)) severity_high,
             e_detail := [(''src_ip'', D_str src), (''net24'', D_str (hs_net24 h)), (''hosts'', D_u64 (hs_hosts h)),
               (''events'', D_u64 (hs_events h)), (''window_minutes'', D_int 5), (''threshold_hosts'', D_int (th_hs_hosts th))],
             e_src := src, e_count := hs_events h,
             e_fp := fingerprint (en_ids en) code_horizontal_scan src [] (hs_net24 h) now,
             e_map := link ''15m'' ''ip'' ''all'' (''src:'' @ src) []\<rparr>]) hits)))"

text \<open>The count a surge needs: the previous one times the ratio, at least the absolute minimum.\<close>

definition surge_need :: "u64 \<Rightarrow> f64 \<Rightarrow> u64 \<Rightarrow> u64" where
  "surge_need prev ratio abs_min =
     (let need = u64_of_f64 (f64_mul (f64_of_u64 prev) ratio) in if need < abs_min then abs_min else need)"

definition surge_key :: "ip_range \<Rightarrow> string" where
  "surge_key n = code_blocked_surge @ ''|net|'' @ rg_network n"

definition blocked_surge_event :: "env \<Rightarrow> go_time \<Rightarrow> thresholds \<Rightarrow> ip_range \<Rightarrow> u64 \<Rightarrow> u64 \<Rightarrow> event" where
  "blocked_surge_event en now th n cur prev =
     (let need = surge_need prev (th_surge_ratio th) (th_surge_abs th);
        sev = (if cur \<ge> th_surge_abs th * 5 then severity_high else severity_warn);
        e = (event_at now blocked_window code_blocked_surge sev)
          \<lparr>e_score := score_against (f64_of_u64 cur) (f64_of_u64 need) sev,
           e_detail := [(''blocked_current'', D_u64 cur), (''blocked_previous'', D_u64 prev),
             (''ratio'', D_f64 (th_surge_ratio th)), (''abs_min'', D_u64 (th_surge_abs th)), (''window_minutes'', D_int 15),
             (''network'', D_str (rg_network n)), (''label'', D_str (rg_label n))],
           e_device := rg_network n, e_count := cur,
           e_fp := fingerprint (en_ids en) code_blocked_surge [] [] (rg_network n) now,
           e_key := surge_key n\<rparr> in
      e\<lparr>e_map := map_link_for e\<rparr>)"

fun blocked_surge_nets ::
  "env \<Rightarrow> go_time \<Rightarrow> thresholds \<Rightarrow> string list \<Rightarrow> ip_range list \<Rightarrow> event list option" where
  "blocked_surge_nets en now th recent [] = Some []"
| "blocked_surge_nets en now th recent (n # ns) =
     (if surge_key n \<in> set recent then blocked_surge_nets en now th recent ns
      else case sc_blocked (en_scan en) (now - blocked_window) now n of
        None \<Rightarrow> None
      | Some cur \<Rightarrow>
          (case sc_blocked (en_scan en) (now - blocked_window - blocked_window) (now - blocked_window) n of
             None \<Rightarrow> None
           | Some prev \<Rightarrow>
               if prev < th_surge_floor th then blocked_surge_nets en now th recent ns
               else if cur < surge_need prev (th_surge_ratio th) (th_surge_abs th)
               then blocked_surge_nets en now th recent ns
               else (case blocked_surge_nets en now th recent ns of
                   None \<Rightarrow> None | Some es \<Rightarrow> Some (blocked_surge_event en now th n cur prev # es))))"

definition detect_blocked_surge :: "env \<Rightarrow> journal \<Rightarrow> go_time \<Rightarrow> thresholds \<Rightarrow> ip_range list \<Rightarrow> event list option" where
  "detect_blocked_surge en j now th nets =
     (if nets = [] then Some []
      else if \<not> en_recent_ok en then None
      else blocked_surge_nets en now th
        (recent_suppression_keys j code_blocked_surge (map surge_key nets) (now - blocked_surge_repeat_cooldown)) nets)"

definition detect_new_country :: "env \<Rightarrow> anomaly_config \<Rightarrow> journal \<Rightarrow> go_time \<Rightarrow> thresholds \<Rightarrow> ip_range list \<Rightarrow> event list option" where
  "detect_new_country en cfg j now th nets =
     (if nets = [] then Some []
      else case sc_countries (en_scan en) country_window (th_nc_min th) nets of
        None \<Rightarrow> None
      | Some cur \<Rightarrow> (case sc_country_total (en_scan en) country_window nets of
        None \<Rightarrow> None
      | Some tot \<Rightarrow> (case sc_baseline (en_scan en) country_baseline_days (th_nc_base th) nets of
        None \<Rightarrow> None
      | Some base \<Rightarrow>
          if \<not> en_recent_ok en then None
          else
            let named = filter (\<lambda>c. trim_space (cc_country c) \<noteq> []) cur;
              ks = map (\<lambda>c. suppression_key_country code_new_country_dst (trim_space (cc_country c))) named;
              recent = recent_suppression_keys j code_new_country_dst ks (now - new_country_repeat_cooldown cfg) in
            Some (concat (map (\<lambda>c.
              let cc = trim_space (cc_country c);
                k = suppression_key_country code_new_country_dst cc;
                share = (if 0 < tot then f64_div (f64_of_u64 (cc_n c)) (f64_of_u64 tot) else 0) in
              if cc \<in> set base \<or> k \<in> set recent then []
              else if f64_lt 0 (th_nc_share th) \<and> f64_lt share (th_nc_share th) then []
              else [(event_at now country_window code_new_country_dst severity_warn)
                \<lparr>e_score := score_against (f64_of_u64 (cc_n c)) (f64_of_u64 (th_nc_min th)) severity_warn,
                 e_detail := [(''dst_country'', D_str cc), (''events'', D_u64 (cc_n c)),
                   (''baseline_days'', D_int country_baseline_days), (''share'', D_f64 share)],
                 e_dst_country := cc, e_count := cc_n c,
                 e_fp := fingerprint (en_ids en) code_new_country_dst [] [] cc now, e_key := k,
                 e_map := link ''1h'' ''country'' ''all'' (''dst:'' @ cc) cc\<rparr>]) named)))))"

definition rep_hits :: "(string \<Rightarrow> rep_hit list) \<Rightarrow> string \<Rightarrow> rep_hit list" where
  "rep_hits rep ip = (if is_private_or_local ip then [] else rep ip)"

definition rep_candidates :: "(string \<Rightarrow> rep_hit list) \<Rightarrow> thresholds \<Rightarrow> edge_row list \<Rightarrow> edge_row list" where
  "rep_candidates rep th edges =
     concat (map (\<lambda>e.
       let src = display_ip (ed_src e); dst = display_ip (ed_dst e) in
       if src = [] \<or> dst = [] \<or> ed_count e < th_rep_min th then []
       else if rep_hits rep src = [] \<and> rep_hits rep dst = [] then []
       else [e\<lparr>ed_src := src, ed_dst := dst\<rparr>]) edges)"

definition detect_rep_new_dst :: "env \<Rightarrow> go_time \<Rightarrow> thresholds \<Rightarrow> ip_range list \<Rightarrow> event list option" where
  "detect_rep_new_dst en now th nets =
     (if nets = [] then Some []
      else case en_rep en of
        None \<Rightarrow> Some []
      | Some rep \<Rightarrow> (case sc_edges (en_scan en) rep_window 2000 nets of
        None \<Rightarrow> None
      | Some edges \<Rightarrow>
          let cands = rep_candidates rep th edges in
          if cands = [] then Some []
          else (case sc_known_pairs (en_scan en) (map (\<lambda>c. (ed_src c, ed_dst c)) cands) rep_lookback of
            None \<Rightarrow> None
          | Some known \<Rightarrow> Some (map (\<lambda>c.
              (event_at now rep_window code_rep_new_dst severity_high)
                \<lparr>e_score := score_against (f64_of_u64 (ed_count c)) (f64_of_u64 (th_rep_min th)) severity_high,
                 e_detail := [(''src_ip'', D_str (ed_src c)), (''dst_ip'', D_str (ed_dst c)), (''events'', D_u64 (ed_count c)),
                   (''src_reputation'', D_hits (rep_hits rep (ed_src c))), (''dst_reputation'', D_hits (rep_hits rep (ed_dst c)))],
                 e_src := ed_src c, e_dst := ed_dst c, e_src_country := ed_src_country c,
                 e_dst_country := ed_dst_country c, e_count := ed_count c,
                 e_fp := fingerprint (en_ids en) code_rep_new_dst (ed_src c) (ed_dst c) [] now,
                 e_map := link ''1h'' ''ip'' ''all'' (''src:'' @ ed_src c @ '' dst:'' @ ed_dst c) []\<rparr>)
              (filter (\<lambda>c. pair_key (ed_src c) (ed_dst c) \<notin> set known) cands)))))"

definition detect_byte_surge :: "env \<Rightarrow> go_time \<Rightarrow> thresholds \<Rightarrow> ip_range list \<Rightarrow> event list option" where
  "detect_byte_surge en now th nets =
     (if nets = [] then Some []
      else case sc_byte_surge (en_scan en) byte_surge_window (th_bs_floor th) (th_bs_abs th) nets of
        None \<Rightarrow> None
      | Some hits \<Rightarrow> Some (concat (map (\<lambda>h.
          let src = display_ip (bs_src h); need = surge_need (bs_prev h) (th_bs_ratio th) (th_bs_abs th);
            ratio = (if 0 < bs_prev h then f64_div (f64_of_u64 (bs_now h)) (f64_of_u64 (bs_prev h)) else 0);
            sev = (if bs_now h \<ge> th_bs_abs th * 5 then severity_high else severity_warn) in
          if src = [] \<or> bs_prev h < th_bs_floor th then []
          else if bs_now h < need then []
          else [(event_at now byte_surge_window code_byte_surge sev)
            \<lparr>e_score := score_against (f64_of_u64 (bs_now h)) (f64_of_u64 need) sev,
             e_detail := [(''src_ip'', D_str src), (''bytes_now'', D_u64 (bs_now h)), (''bytes_prev'', D_u64 (bs_prev h)),
               (''ratio'', D_f64 ratio), (''threshold_ratio'', D_f64 (th_bs_ratio th)), (''abs_min'', D_u64 (th_bs_abs th)),
               (''window_minutes'', D_int 60)],
             e_src := src, e_count := bs_now h,
             e_fp := fingerprint (en_ids en) code_byte_surge src [] [] now,
             e_map := link ''2h'' ''ip'' ''all'' (''src:'' @ src) []\<rparr>]) hits)))"

definition detect_lateral_fanout :: "env \<Rightarrow> go_time \<Rightarrow> thresholds \<Rightarrow> ip_range list \<Rightarrow> event list option" where
  "detect_lateral_fanout en now th nets =
     (if nets = [] then Some []
      else case sc_lateral (en_scan en) lateral_fanout_window (th_lf_hosts th) (th_lf_events th) nets of
        None \<Rightarrow> None
      | Some hits \<Rightarrow> Some (concat (map (\<lambda>h.
          let src = display_ip (lf_src h) in
          if src = [] then []
          else [(event_at now lateral_fanout_window code_lateral_fanout severity_high)
            \<lparr>e_score := score_against (f64_of_u64 (lf_hosts h)) (f64_of_int (th_lf_hosts th)) severity_high,
             e_detail := [(''src_ip'', D_str src), (''hosts'', D_u64 (lf_hosts h)), (''events'', D_u64 (lf_events h)),
               (''window_minutes'', D_int 15), (''threshold_hosts'', D_int (th_lf_hosts th))],
             e_src := src, e_count := lf_events h,
             e_fp := fingerprint (en_ids en) code_lateral_fanout src [] [] now,
             e_map := link ''1h'' ''ip'' ''all'' (''src:'' @ src) []\<rparr>]) hits)))"

text \<open>The share of the gaps between consecutive hours that are at most one hour and 30 seconds.\<close>

definition hour_gaps :: "int list \<Rightarrow> int list" where
  "hour_gaps hs = (let s = sort_by (\<le>) hs in filter (\<lambda>d. 0 < d) (map2 (\<lambda>a b. b - a) s (tl s)))"

definition hour_regularity :: "int list \<Rightarrow> f64" where
  "hour_regularity hs =
     (if length hs < 2 then 0
      else
        let gaps = hour_gaps hs in
        if gaps = [] then 0
        else f64_div (f64_of_int (int (length (filter (\<lambda>d. d \<le> 3630) gaps)))) (f64_of_int (int (length gaps))))"

definition f075 :: f64 where "f075 = 0x3FE8000000000000"

definition detect_beaconing :: "env \<Rightarrow> go_time \<Rightarrow> thresholds \<Rightarrow> ip_range list \<Rightarrow> event list option" where
  "detect_beaconing en now th nets =
     (if nets = [] then Some []
      else case sc_beaconing (en_scan en) beacon_lookback (th_bc_hours th) (th_bc_bytes th) nets of
        None \<Rightarrow> None
      | Some hits \<Rightarrow> Some (concat (map (\<lambda>h.
          let src = display_ip (bc_src h); dst = display_ip (bc_dst h) in
          if src = [] \<or> dst = [] \<or> bc_hours h = 0 then []
          else
            let reg = hour_regularity (bc_hour_unix h) in
            if f64_lt reg (th_bc_reg th) then []
            else
              let avg = bc_bytes h div bc_hours h;
                sev = (case en_rep en of
                  None \<Rightarrow> severity_warn
                | Some rep \<Rightarrow>
                    let peer = (if is_private_or_local dst \<and> \<not> is_private_or_local src then src else dst) in
                    if \<not> is_private_or_local peer \<and> rep peer \<noteq> [] \<and> f64_le f075 reg then severity_high
                    else severity_warn) in
              [(event_at now beacon_lookback code_beaconing sev)
                \<lparr>e_score := score_against reg (th_bc_reg th) sev,
                 e_detail := [(''src_ip'', D_str src), (''dst_ip'', D_str dst), (''active_hours'', D_u64 (bc_hours h)),
                   (''total_bytes'', D_u64 (bc_bytes h)), (''avg_bytes_per_hour'', D_u64 avg), (''regularity'', D_f64 reg),
                   (''events'', D_u64 (bc_events h)), (''lookback_hours'', D_int 24)],
                 e_src := src, e_dst := dst, e_count := bc_events h,
                 e_fp := fingerprint_day (en_ids en) code_beaconing src dst [] now,
                 e_map := link ''1d'' ''ip'' ''all'' (''src:'' @ src @ '' dst:'' @ dst) []\<rparr>]) hits)))"

section \<open>The tick\<close>

record scan_result =
  sr_inserted :: nat
  sr_skipped :: string
  sr_learning :: bool
  sr_error :: string

text \<open>\<^verbatim>\<open>run\<close>: a detector that fails leaves the candidates and its code as the error of the tick.\<close>

fun run_detectors ::
  "(nat \<Rightarrow> bool) \<Rightarrow> nat \<Rightarrow> (string \<times> event list option) list \<Rightarrow> event list \<Rightarrow> string \<Rightarrow> event list \<times> string" where
  "run_detectors dn i [] cands err = (cands, err)"
| "run_detectors dn i ((cd, r) # ds) cands err =
     (if dn i then run_detectors dn (Suc i) ds cands err
      else case r of
        None \<Rightarrow> run_detectors dn (Suc i) ds cands cd
      | Some hits \<Rightarrow> run_detectors dn (Suc i) ds (cands @ hits) err)"

definition detectors ::
  "env \<Rightarrow> anomaly_config \<Rightarrow> journal \<Rightarrow> go_time \<Rightarrow> thresholds \<Rightarrow> ip_range list \<Rightarrow> bool \<Rightarrow> (string \<times> event list option) list" where
  "detectors en cfg j now th nets learning =
     [(code_blocked_surge, detect_blocked_surge en j now th nets),
      (code_new_country_dst, if learning then Some [] else detect_new_country en cfg j now th nets),
      (code_port_scan, detect_port_scan en cfg now th nets),
      (code_horizontal_scan, detect_horizontal_scan en cfg now th nets),
      (code_rep_new_dst, detect_rep_new_dst en now th nets),
      (code_byte_surge, detect_byte_surge en now th nets),
      (code_lateral_fanout, detect_lateral_fanout en now th nets),
      (code_beaconing, if learning then Some [] else detect_beaconing en now th nets)]"

definition scan :: "env \<Rightarrow> go_time \<Rightarrow> anomaly_service \<Rightarrow> journal \<Rightarrow> scan_result \<times> anomaly_service \<times> journal" where
  "scan en now0 s j =
     (let cfg = sv_cfg s; res0 = \<lparr>sr_inserted = 0, sr_skipped = [], sr_learning = False, sr_error = []\<rparr> in
      if \<not> cf_enabled cfg then (res0\<lparr>sr_skipped := ''disabled''\<rparr>, s, j)
      else if en_gate en \<noteq> [] then
        (res0\<lparr>sr_skipped := en_gate en\<rparr>, s\<lparr>sv_status := (sv_status s)\<lparr>ss_last_skip := en_gate en\<rparr>\<rparr>, j)
      else
        let now = (if now0 = 0 then en_clock en else now0);
          learning = is_learning en cfg now;
          th = effective_thresholds (cf_profile cfg) (cf_overrides cfg) (cf_share cfg);
          ent = load_enterprise_nets en in
        if ent = [] then
          (res0\<lparr>sr_learning := learning, sr_skipped := ''no_enterprise_nets''\<rparr>,
           s\<lparr>sv_status := (sv_status s)\<lparr>ss_learning := learning, ss_last_inserted := 0,
               ss_last_skip := ''no_enterprise_nets'', ss_nets := 0, ss_last_error := [], ss_last_ok := now\<rparr>\<rparr>, j)
        else
          let (cands, err) = run_detectors (en_done en) 0 (detectors en cfg j now th ent learning) [] [];
            kept = dedup_and_cap (en_fp_ok en) (en_supp_ok en) j cands now;
            events = assign_episode_ids (en_ids en) kept now;
            (inserted, err', j') =
              (if kept = [] then (0, err, j)
               else if en_insert_ok en then (length kept, err, store_insert events j)
               else (0, ''insert'', j));
            st = (sv_status s)\<lparr>ss_learning := learning, ss_last_inserted := inserted, ss_last_skip := [],
              ss_nets := length ent\<rparr>;
            st' = (if err' \<noteq> [] then st\<lparr>ss_last_error := err'\<rparr>
              else st\<lparr>ss_last_error := [], ss_last_ok := now\<rparr>) in
          (res0\<lparr>sr_learning := learning, sr_inserted := inserted, sr_error := err'\<rparr>, s\<lparr>sv_status := st'\<rparr>, j'))"

section \<open>The other operations of the service\<close>

definition insert_synthetic :: "env \<Rightarrow> event list \<Rightarrow> go_time \<Rightarrow> journal \<Rightarrow> bool \<times> journal" where
  "insert_synthetic en es now0 j =
     (if es = [] then (True, j)
      else
        let now = (if now0 = 0 then en_clock en else now0) in
        if en_insert_ok en then (True, store_insert (assign_episode_ids (en_ids en) es now) j) else (False, j))"

datatype ack_err = Bad_fingerprint | Bad_assignee | Journal_failed

text \<open>\<open>t\<close> is the time at which the store stamps its rows.\<close>

definition ack :: "ack_io \<Rightarrow> bool \<Rightarrow> bool \<Rightarrow> go_time \<Rightarrow> string \<Rightarrow> string \<Rightarrow> anomaly_service \<Rightarrow> journal \<Rightarrow> (ack_err + unit) \<times> journal" where
  "ack io read_ok assign_ok t fingerprint0 by0 s j =
     (let fp = trim_space fingerprint0; by1 = trim_space by0; by = (if by1 = [] then ''unknown'' else by1) in
      if fp = [] \<or> length fp > 64 then (Inl Bad_fingerprint, j)
      else case store_ack io fp by (suppress_period (sv_cfg s)) t j of
        (False, j1) \<Rightarrow> (Inl Journal_failed, j1)
      | (True, j1) \<Rightarrow> (Inr (), snd (store_assign_if_empty read_ok assign_ok fp by by t j1)))"

definition assign :: "bool \<Rightarrow> go_time \<Rightarrow> string \<Rightarrow> string \<Rightarrow> string \<Rightarrow> journal \<Rightarrow> (ack_err + unit) \<times> journal" where
  "assign ok t fingerprint0 to0 by0 j =
     (let fp = trim_space fingerprint0; who = trim_space to0; by1 = trim_space by0;
        by = (if by1 = [] then ''unknown'' else by1) in
      if fp = [] \<or> length fp > 64 then (Inl Bad_fingerprint, j)
      else if who = [] \<or> length who > 64 then (Inl Bad_assignee, j)
      else case store_assign ok fp who by t j of
        (True, j') \<Rightarrow> (Inr (), j') | (False, j') \<Rightarrow> (Inl Journal_failed, j'))"

text \<open>The window and the limit that a listing asks the store for.\<close>

definition list_bounds :: "go_time \<Rightarrow> go_time \<Rightarrow> int \<Rightarrow> go_time \<times> int" where
  "list_bounds now since0 limit0 =
     (let since1 = (if since0 = 0 then now - summary_since else since0);
        since = (if time_sub now since1 > 7 * (24 * hour) then now - 7 * (24 * hour) else since1);
        limit = (if limit0 < 1 then 50 else limit0) in
      (since, if limit > 200 then 200 else limit))"

section \<open>The settings service\<close>

text \<open>The state: the anomaly service, the interval of its scheduler and the file.\<close>

record settings_service =
  sx_anomaly :: anomaly_service
  sx_interval :: duration
  sx_seed :: settings

definition new_settings_service :: "anomaly_service \<Rightarrow> settings \<Rightarrow> duration \<Rightarrow> settings_service" where
  "new_settings_service s seed interval =
     \<lparr>sx_anomaly = s, sx_interval = interval, sx_seed = normalize_settings seed\<rparr>"

definition load_normalized :: "settings_service \<Rightarrow> (json_err + settings) \<Rightarrow> settings_err + settings" where
  "load_normalized x loaded =
     (case loaded of
        Inl e \<Rightarrow> Inl Store_failed
      | Inr raw \<Rightarrow> Inr (normalize_settings (if is_empty_settings raw then sx_seed x else raw)))"

definition apply_all :: "settings \<Rightarrow> settings_service \<Rightarrow> settings_service" where
  "apply_all st x = x\<lparr>sx_anomaly := apply_settings st (sx_anomaly x), sx_interval := st_interval st * minute\<rparr>"

definition load_and_apply ::
  "(json_err + settings) \<Rightarrow> settings_service \<Rightarrow> (settings_err + settings) \<times> settings_service" where
  "load_and_apply loaded x =
     (case load_normalized x loaded of
        Inl e \<Rightarrow> (Inl e, x)
      | Inr st \<Rightarrow> (Inr st, apply_all st x))"

record settings_view =
  vw_settings :: settings
  vw_profile :: string
  vw_thresholds :: thresholds
  vw_defaults :: thresholds
  vw_status :: status

definition get_view :: "nat \<Rightarrow> (json_err + settings) \<Rightarrow> settings_service \<Rightarrow> settings_err + settings_view" where
  "get_view n loaded x =
     (case load_normalized x loaded of
        Inl e \<Rightarrow> Inl e
      | Inr st \<Rightarrow>
          let p = cf_profile (sv_cfg (sx_anomaly x)); profile = (if p = [] then ''medium'' else p) in
          Inr \<lparr>vw_settings = st, vw_profile = profile,
            vw_thresholds = effective_thresholds profile (st_thresholds st) (st_share st),
            vw_defaults = thresholds_for_profile profile, vw_status = live_status n (sx_anomaly x)\<rparr>)"

text \<open>
  \<^verbatim>\<open>Update\<close>: \<open>enc\<close> and \<open>dec\<close> are encoding/json, \<open>w\<close> is the outcome of the write and \<open>stamp\<close> the text of
  the time; \<open>n\<close> is the number of enterprise networks that the status shows.
\<close>

definition update_settings ::
  "(settings \<Rightarrow> string option) \<Rightarrow> (string \<Rightarrow> settings option) \<Rightarrow> outcome \<Rightarrow> string \<Rightarrow> nat \<Rightarrow> settings \<Rightarrow>
   settings json_store \<Rightarrow> settings_service \<Rightarrow> disk \<Rightarrow> (settings_err + settings_view) \<times> settings_service \<times> disk" where
  "update_settings enc dec w stamp n x store sx d =
     (case validate_settings x of
        Inl e \<Rightarrow> (Inl e, sx, d)
      | Inr out0 \<Rightarrow>
          let out = out0\<lparr>st_updated := stamp\<rparr> in
          (case json_save enc store w out d of
             (Inl e, d') \<Rightarrow> (Inl Store_failed, sx, d')
           | (Inr u, d') \<Rightarrow>
               (get_view n (json_load dec store (disk_read d' (js_path store))) (apply_all out sx), apply_all out sx, d')))"

section \<open>What a tick adds to the journal\<close>

lemma with_key_simps [simp]: "e_fp (with_key e) = e_fp e" "e_code (with_key e) = e_code e" "e_detected (with_key e) = e_detected e"
  by (simp_all add: with_key_def)

lemma stamp_event_simps [simp]: "e_fp (stamp_event now e) = e_fp e" "e_code (stamp_event now e) = e_code e"
  "e_key (stamp_event now e) = e_key e"
  by (simp_all add: stamp_event_def Let_def)

lemma store_row_simps [simp]: "e_fp (store_row e) = e_fp e" "e_code (store_row e) = e_code e" "e_key (store_row e) = e_key e"
  by (simp_all add: store_row_def)

lemma uniq_events_spec:
  "distinct (map e_fp (uniq_events seen es)) \<and> set (map e_fp (uniq_events seen es)) \<inter> set seen = {} \<and>
   [] \<notin> set (map e_fp (uniq_events seen es))"
  by (induction seen es rule: uniq_events.induct) auto

lemma cap_events_total:
  "n \<le> max_insert_per_tick \<Longrightarrow> n + length (cap_events exist supp now per n es) \<le> max_insert_per_tick"
proof (induction exist supp now per n es rule: cap_events.induct)
  case (2 exist supp now per n e es)
  then show ?case by (cases "n \<ge> max_insert_per_tick") (simp_all add: fun_upd_def)
qed simp

lemma cap_events_per_code:
  "per c \<le> max_per_code \<Longrightarrow>
   per c + length (filter (\<lambda>e. e_code e = c) (cap_events exist supp now per n es)) \<le> max_per_code"
proof (induction exist supp now per n es rule: cap_events.induct)
  case (2 exist supp now per n e es)
  show ?case
  proof (cases "e_fp e \<in> set exist \<or> e_key e \<in> set supp \<or> per (e_code e) \<ge> max_per_code \<or> n \<ge> max_insert_per_tick")
    case True
    then show ?thesis using 2 by auto
  next
    case False
    then show ?thesis using 2(4) 2(5) by (cases "c = e_code e") (auto simp: fun_upd_def)
  qed
qed simp

lemma cap_events_fresh:
  "e \<in> set (cap_events exist supp now per n es) \<Longrightarrow> e_fp e \<notin> set exist \<and> e_key e \<notin> set supp"
  by (induction exist supp now per n es rule: cap_events.induct) (auto split: if_splits)

lemma cap_events_subseq:
  "subseq (map (\<lambda>e. (e_fp e, e_key e)) (cap_events exist supp now per n es)) (map (\<lambda>e. (e_fp e, e_key e)) es)"
proof (induction exist supp now per n es rule: cap_events.induct)
  case (2 exist supp now per n e es)
  show ?case
  proof (cases "e_fp e \<in> set exist \<or> e_key e \<in> set supp \<or> per (e_code e) \<ge> max_per_code \<or> n \<ge> max_insert_per_tick")
    case True
    then show ?thesis using 2(1-3) by (auto intro: list_emb_Cons)
  next
    case False
    then show ?thesis using 2(4) by (simp add: fun_upd_def)
  qed
qed simp

lemma subseq_fst: "subseq xs ys \<Longrightarrow> subseq (map f xs) (map f ys)"
  by (induction rule: list_emb.induct) auto

lemma subseq_keeps_distinct: "subseq xs ys \<Longrightarrow> distinct ys \<Longrightarrow> distinct xs"
  by (metis subseq_conv_nths distinct_nthsI)

lemma subseq_in: "subseq xs ys \<Longrightarrow> x \<in> set xs \<Longrightarrow> x \<in> set ys"
  by (induction rule: list_emb.induct) auto

lemma dedup_spec:
  fixes j es now fp_ok supp_ok
  defines "kept \<equiv> dedup_and_cap fp_ok supp_ok j es now"
  shows "length kept \<le> max_insert_per_tick" "\<And>c. length (filter (\<lambda>e. e_code e = c) kept) \<le> max_per_code"
    "distinct (map e_fp kept)" "[] \<notin> set (map e_fp kept)"
    "fp_ok \<Longrightarrow> e \<in> set kept \<Longrightarrow> e_fp e \<notin> set (map e_fp (j_events j))"
    "supp_ok \<Longrightarrow> e \<in> set kept \<Longrightarrow> (k, until) \<in> set (j_supp j) \<Longrightarrow> now < until \<Longrightarrow> k \<noteq> [] \<Longrightarrow> e_key e \<noteq> k"
proof -
  define uniq where "uniq = uniq_events [] es"
  define exist where "exist = (if fp_ok then existing_fingerprints j (map e_fp uniq) else [])"
  define supp where "supp = (if supp_ok then active_suppressions j (remdups (filter (\<lambda>k. k \<noteq> []) (map e_key uniq))) now else [])"
  have kept: "kept = cap_events exist supp now (\<lambda>c. 0) 0 uniq"
    by (simp add: kept_def dedup_and_cap_def Let_def uniq_def exist_def supp_def)
  have sub: "subseq (map (\<lambda>e. (e_fp e, e_key e)) kept) (map (\<lambda>e. (e_fp e, e_key e)) uniq)"
    unfolding kept by (rule cap_events_subseq)
  have fps: "subseq (map e_fp kept) (map e_fp uniq)" and ks: "subseq (map e_key kept) (map e_key uniq)"
    using subseq_fst [OF sub, of fst] subseq_fst [OF sub, of snd] by (simp_all add: comp_def)
  have fresh: "e_fp e \<notin> set exist" "e_key e \<notin> set supp" if "e \<in> set kept" for e
    using cap_events_fresh that unfolding kept by blast+
  have uniq_ok: "distinct (map e_fp uniq)" "[] \<notin> set (map e_fp uniq)"
    using uniq_events_spec [of "[]" es] by (auto simp: uniq_def)
  show "length kept \<le> max_insert_per_tick"
    using cap_events_total [of 0] unfolding kept by simp
  show "length (filter (\<lambda>e. e_code e = c) kept) \<le> max_per_code" for c
    using cap_events_per_code [of "\<lambda>c. 0" c] unfolding kept by simp
  show "distinct (map e_fp kept)" by (rule subseq_keeps_distinct [OF fps uniq_ok(1)])
  show "[] \<notin> set (map e_fp kept)" using subseq_in [OF fps] uniq_ok(2) by blast
  show "e_fp e \<notin> set (map e_fp (j_events j))" if "fp_ok" "e \<in> set kept"
  proof
    assume "e_fp e \<in> set (map e_fp (j_events j))"
    moreover have "e_fp e \<in> set (map e_fp uniq)" using subseq_in [OF fps, of "e_fp e"] that(2) by simp
    ultimately have "e_fp e \<in> set exist" using that(1) by (simp add: exist_def existing_fingerprints_def)
    with fresh that(2) show False by blast
  qed
  show "e_key e \<noteq> k" if "supp_ok" "e \<in> set kept" "(k, until) \<in> set (j_supp j)" "now < until" "k \<noteq> []"
  proof
    assume k: "e_key e = k"
    have "e_key e \<in> set (map e_key uniq)" using subseq_in [OF ks, of "e_key e"] that(2) by simp
    with that k have "e_key e \<in> set supp" by (auto simp: supp_def active_suppressions_def)
    with fresh that(2) show False by blast
  qed
qed

lemma assign_episode_ids_simps [simp]:
  "map e_fp (assign_episode_ids ids es t) = map e_fp es" "map e_code (assign_episode_ids ids es t) = map e_code es"
  "map e_key (assign_episode_ids ids es t) = map e_key es" "length (assign_episode_ids ids es t) = length es"
  by (simp_all add: assign_episode_ids_def comp_def)

lemma length_filter_map_eq: "map f xs = map f ys \<Longrightarrow> length (filter (\<lambda>e. f e = c) xs) = length (filter (\<lambda>e. f e = c) ys)"
proof (induction xs arbitrary: ys)
  case (Cons x xs)
  then show ?case by (cases ys) auto
qed simp

definition tick_time :: "env \<Rightarrow> go_time \<Rightarrow> go_time" where
  "tick_time en now0 = (if now0 = 0 then en_clock en else now0)"

text \<open>A tick leaves the journal as it is or appends the rows of what \<^verbatim>\<open>dedupAndCap\<close> kept.\<close>

lemma scan_journal:
  assumes "scan en now0 s j = (r, s', j')"
  shows "j' = j \<and> sr_inserted r = 0 \<or>
    (\<exists>cands. let kept = dedup_and_cap (en_fp_ok en) (en_supp_ok en) j cands (tick_time en now0) in
       j' = store_insert (assign_episode_ids (en_ids en) kept (tick_time en now0)) j \<and> sr_inserted r = length kept)"
proof (cases "cf_enabled (sv_cfg s) \<and> en_gate en = [] \<and> load_enterprise_nets en \<noteq> []")
  case False
  then show ?thesis using assms by (auto simp: scan_def Let_def split: if_splits)
next
  case True
  let ?now = "tick_time en now0" and ?cfg = "sv_cfg s"
  obtain cands err where c: "run_detectors (en_done en) 0 (detectors en ?cfg j ?now
      (effective_thresholds (cf_profile ?cfg) (cf_overrides ?cfg) (cf_share ?cfg)) (load_enterprise_nets en)
      (is_learning en ?cfg ?now)) [] [] = (cands, err)" by (meson surj_pair)
  let ?kept = "dedup_and_cap (en_fp_ok en) (en_supp_ok en) j cands ?now"
  have "j' = j \<and> sr_inserted r = 0 \<or>
       j' = store_insert (assign_episode_ids (en_ids en) ?kept ?now) j \<and> sr_inserted r = length ?kept"
  proof (cases "?kept = [] \<or> \<not> en_insert_ok en")
    case fail: True
    then show ?thesis using assms True
      by (cases "?kept = []"; auto simp: scan_def Let_def tick_time_def [symmetric] c)
  next
    case ok: False
    then show ?thesis using assms True by (auto simp: scan_def Let_def tick_time_def [symmetric] c)
  qed
  then show ?thesis unfolding Let_def by blast
qed

text \<open>The episode of an event does not depend on how the store writes an absent address.\<close>

lemma episode_stored:
  "episode_id ids (store_row (e\<lparr>e_episode := x\<rparr>)) now = episode_id ids e now"
  "e_episode (store_row (e\<lparr>e_episode := x\<rparr>)) = x"
proof -
  have z: "display_ip zero_ipv4 = []" "display_ip [] = []" by code_simp+
  show "episode_id ids (store_row (e\<lparr>e_episode := x\<rparr>)) now = episode_id ids e now" "e_episode (store_row (e\<lparr>e_episode := x\<rparr>)) = x"
    by (simp_all add: store_row_def episode_id_def episode_anchor_def Let_def z)
qed

text \<open>What \<open>dedup_spec\<close> says of the rows that reach the journal.\<close>

lemma scan_rows:
  assumes "scan en now0 s j = (r, s', j')"
  obtains rows where "j' = j\<lparr>j_events := j_events j @ rows\<rparr>" "sr_inserted r = length rows"
    "length rows \<le> max_insert_per_tick" "\<And>c. length (filter (\<lambda>e. e_code e = c) rows) \<le> max_per_code"
    "distinct (map e_fp rows)" "[] \<notin> set (map e_fp rows)"
    "en_fp_ok en \<Longrightarrow> set (map e_fp rows) \<inter> set (map e_fp (j_events j)) = {}"
    "\<And>e k until. en_supp_ok en \<Longrightarrow> e \<in> set rows \<Longrightarrow> (k, until) \<in> set (j_supp j) \<Longrightarrow> tick_time en now0 < until \<Longrightarrow>
       k \<noteq> [] \<Longrightarrow> e_key e \<noteq> k"
    "\<And>e. e \<in> set rows \<Longrightarrow> e_episode e = episode_id (en_ids en) e (tick_time en now0)"
  using scan_journal [OF assms]
proof (elim disjE exE)
  assume "j' = j \<and> sr_inserted r = 0"
  then show thesis by (intro that [of "[]"]) auto
next
  fix cands
  let ?kept = "dedup_and_cap (en_fp_ok en) (en_supp_ok en) j cands (tick_time en now0)"
  let ?rows = "map store_row (assign_episode_ids (en_ids en) ?kept (tick_time en now0))"
  assume a: "let kept = ?kept in j' = store_insert (assign_episode_ids (en_ids en) kept (tick_time en now0)) j \<and>
       sr_inserted r = length kept"
  note spec = dedup_spec [where fp_ok = "en_fp_ok en" and supp_ok = "en_supp_ok en" and j = j and es = cands and now = "tick_time en now0"]
  have m: "map e_fp ?rows = map e_fp ?kept" "map e_code ?rows = map e_code ?kept" "map e_key ?rows = map e_key ?kept"
    by (simp_all add: assign_episode_ids_def comp_def)
  show thesis
  proof (rule that [of ?rows])
    show "j' = j\<lparr>j_events := j_events j @ ?rows\<rparr>" "sr_inserted r = length ?rows"
      using a by (simp_all add: Let_def store_insert_def)
    show "length ?rows \<le> max_insert_per_tick" using spec(1) by simp
    show "length (filter (\<lambda>e. e_code e = c) ?rows) \<le> max_per_code" for c
      using spec(2) [of c] length_filter_map_eq [OF m(2), of c] by simp
    show "distinct (map e_fp ?rows)" "[] \<notin> set (map e_fp ?rows)" unfolding m(1) using spec(3,4) by blast+
    show "set (map e_fp ?rows) \<inter> set (map e_fp (j_events j)) = {}" if "en_fp_ok en"
    proof -
      have "f \<notin> set (map e_fp (j_events j))" if "f \<in> set (map e_fp ?kept)" for f
        using that spec(5) [OF \<open>en_fp_ok en\<close>] by auto
      then show ?thesis unfolding m(1) by blast
    qed
    show "e_key e \<noteq> k" if "en_supp_ok en" "e \<in> set ?rows" "(k, until) \<in> set (j_supp j)" "tick_time en now0 < until" "k \<noteq> []"
      for e k until
    proof -
      have "e_key e \<in> set (map e_key ?kept)" using that(2) m(3) by (metis image_eqI list.set_map)
      then obtain e' where "e' \<in> set ?kept" "e_key e' = e_key e" by auto
      then show ?thesis using spec(6) [OF that(1) _ that(3-5)] by auto
    qed
    show "e_episode e = episode_id (en_ids en) e (tick_time en now0)" if "e \<in> set ?rows" for e
      using that by (auto simp: assign_episode_ids_def episode_stored)
  qed
qed

section \<open>The journal over time\<close>

text \<open>
  What the program does with the journal: ticks (with any outcome of the lookups, scans and insertions),
  acknowledgements and assignments. The lookup of the fingerprints may be required to succeed.
\<close>

inductive journal_step :: "bool \<Rightarrow> journal \<Rightarrow> journal \<Rightarrow> bool" for strict where
  tick: "scan en now s j = (r, s', j') \<Longrightarrow> (strict \<Longrightarrow> en_fp_ok en) \<Longrightarrow> journal_step strict j j'"
| ack: "ack io r a t fp by s j = (x, j') \<Longrightarrow> journal_step strict j j'"
| assign: "assign ok t fp who by j = (x, j') \<Longrightarrow> journal_step strict j j'"

inductive_cases journal_stepE: "journal_step strict j j'"

lemma store_assign_journal:
  "store_assign ok fp who by t j = (b, j') \<Longrightarrow> j_events j' = j_events j \<and> j_supp j' = j_supp j"
  by (auto simp: store_assign_def split: if_splits)

lemma store_ack_journal:
  "store_ack io fp by p t j = (b, j') \<Longrightarrow> j_events j' = j_events j \<and> set (j_supp j) \<subseteq> set (j_supp j')"
  by (auto simp: store_ack_def Let_def split: if_splits option.splits)

lemma ack_journal:
  assumes "ack io r a t fp by s j = (x, j')"
  shows "j_events j' = j_events j \<and> set (j_supp j) \<subseteq> set (j_supp j')"
proof -
  obtain b j1 where b: "store_ack io (trim_space fp) (if trim_space by = [] then ''unknown'' else trim_space by)
      (suppress_period (sv_cfg s)) t j = (b, j1)" by (meson surj_pair)
  note j1 = store_ack_journal [OF b]
  have "j_events (snd (store_assign_if_empty r a f w w' t j1)) = j_events j1 \<and>
        j_supp (snd (store_assign_if_empty r a f w w' t j1)) = j_supp j1" for f w w'
    by (auto simp: store_assign_if_empty_def store_assign_def Let_def)
  with j1 b assms show ?thesis by (auto simp: ack_def Let_def split: if_splits bool.splits)
qed

lemma assign_journal:
  assumes "assign ok t fp who by j = (x, j')"
  shows "j_events j' = j_events j \<and> j_supp j' = j_supp j"
  using assms by (auto simp: assign_def Let_def store_assign_def split: if_splits)

lemma scan_supp: "scan en now s j = (r, s', j') \<Longrightarrow> j_supp j' = j_supp j"
  by (erule scan_rows) simp

interpretation journal_fps: invariant_system "\<lambda>j. j_events j = []" "journal_step True" "\<lambda>j. distinct (map e_fp (j_events j))"
proof
  fix j j' :: journal
  assume d: "distinct (map e_fp (j_events j))" and "journal_step True j j'"
  from this(2) show "distinct (map e_fp (j_events j'))"
  proof cases
    case (tick en now s r s')
    obtain rows where "j' = j\<lparr>j_events := j_events j @ rows\<rparr>" "distinct (map e_fp rows)"
      "en_fp_ok en \<Longrightarrow> set (map e_fp rows) \<inter> set (map e_fp (j_events j)) = {}"
      using scan_rows [OF tick(1)] by metis
    with d tick(2) show ?thesis by (auto simp: disjoint_iff)
  qed (use d ack_journal assign_journal in metis)+
qed simp

interpretation journal_supp: invariant_system "\<lambda>j. entry \<in> set (j_supp j)" "journal_step strict"
  "\<lambda>j. entry \<in> set (j_supp j)" for entry strict
proof
  fix j j' :: journal
  assume e: "entry \<in> set (j_supp j)" and "journal_step strict j j'"
  from this(2) show "entry \<in> set (j_supp j')"
    by cases (use e scan_supp ack_journal assign_journal in \<open>metis subsetD\<close>)+
qed

lemma ack_ok:
  assumes "ack io r a t fp by s j = (Inr u, j')"
  obtains by' j1 where "store_ack io (trim_space fp) by' (suppress_period (sv_cfg s)) t j = (True, j1)"
    "j' = snd (store_assign_if_empty r a (trim_space fp) by' by' t j1)"
proof -
  define by' where "by' = (if trim_space by = [] then ''unknown'' else trim_space by)"
  obtain b j1 where b: "store_ack io (trim_space fp) by' (suppress_period (sv_cfg s)) t j = (b, j1)" by (meson surj_pair)
  show thesis
    using assms that b by (cases b) (simp_all add: ack_def Let_def by'_def [symmetric] split: if_splits)
qed

lemma suppress_period_pos: "0 < suppress_period c"
  by (simp add: suppress_period_def Let_def hour_def minute_def second_def)

lemma ack_adds_suppression:
  assumes "ack io r a t fp by s j = (Inr u, j')" "latest_event j (trim_space fp) = Some e" "trim_space (ack_key e) \<noteq> []"
  shows "(ack_key e, t + suppress_period (sv_cfg s)) \<in> set (j_supp j')"
proof (rule ack_ok [OF assms(1)])
  fix by' j1
  let ?p = "suppress_period (sv_cfg s)"
  assume b: "store_ack io (trim_space fp) by' ?p t j = (True, j1)"
    and j': "j' = snd (store_assign_if_empty r a (trim_space fp) by' by' t j1)"
  have pos: "\<not> ?p \<le> 0" using suppress_period_pos [of "sv_cfg s"] by simp
  have ev: "latest_event (j\<lparr>j_acks := x\<rparr>) f = latest_event j f" for x f by (simp add: latest_event_def)
  have "j_supp j' = j_supp j1" unfolding j' by (simp add: store_assign_if_empty_def store_assign_def Let_def)
  moreover have "(ack_key e, t + ?p) \<in> set (j_supp j1)"
    using b pos assms(2,3) by (auto simp: store_ack_def Let_def split: if_splits)
  ultimately show ?thesis by simp
qed

text \<open>When the lookup of the suppressions fails, an event with a suppressed key is written like any other.\<close>

lemma failed_lookup_lets_through:
  assumes "e_fp e \<noteq> []" "e_fp e \<notin> set (map e_fp (j_events j))"
  shows "dedup_and_cap True False j [e] now = [stamp_event now (with_key e)]"
  using assms by (simp add: dedup_and_cap_def Let_def existing_fingerprints_def max_per_code_def max_insert_per_tick_def)

section \<open>Properties\<close>

text \<open>C25: Whatever the detectors report, one tick appends at most 50 events to the journal and at most ten of one
  code; their fingerprints are distinct and not empty, and each has the identifier of its episode. None of them is in the
  journal already when the lookup of fingerprints succeeds, and none has a key under an active suppression when that
  lookup succeeds; a lookup that fails counts as one that finds nothing. The
  count that the tick reports is that of the rows it wrote.\<close>
theorem scan_inserts:
  assumes "scan en now s j = (r, s', j')"
  shows "\<exists>rows. j' = j\<lparr>j_events := j_events j @ rows\<rparr> \<and> sr_inserted r = length rows \<and> length rows \<le> 50 \<and>
    (\<forall>c. length (filter (\<lambda>e. e_code e = c) rows) \<le> 10) \<and> distinct (map e_fp rows) \<and> [] \<notin> set (map e_fp rows) \<and>
    (\<forall>e\<in>set rows. e_episode e = episode_id (en_ids en) e (tick_time en now)) \<and>
    (en_fp_ok en \<longrightarrow> set (map e_fp rows) \<inter> set (map e_fp (j_events j)) = {}) \<and>
    (en_supp_ok en \<longrightarrow> (\<forall>e\<in>set rows. \<forall>(k, until)\<in>set (j_supp j). tick_time en now < until \<and> k \<noteq> [] \<longrightarrow> e_key e \<noteq> k))"
proof (rule scan_rows [OF assms])
  fix rows
  assume r: "j' = j\<lparr>j_events := j_events j @ rows\<rparr>" "sr_inserted r = length rows" "length rows \<le> max_insert_per_tick"
    "\<And>c. length (filter (\<lambda>e. e_code e = c) rows) \<le> max_per_code" "distinct (map e_fp rows)" "[] \<notin> set (map e_fp rows)"
    "en_fp_ok en \<Longrightarrow> set (map e_fp rows) \<inter> set (map e_fp (j_events j)) = {}"
    "\<And>e k until. en_supp_ok en \<Longrightarrow> e \<in> set rows \<Longrightarrow> (k, until) \<in> set (j_supp j) \<Longrightarrow> tick_time en now < until \<Longrightarrow>
       k \<noteq> [] \<Longrightarrow> e_key e \<noteq> k"
    "\<And>e. e \<in> set rows \<Longrightarrow> e_episode e = episode_id (en_ids en) e (tick_time en now)"
  show ?thesis
  proof (intro exI [of _ rows] conjI)
    show "length rows \<le> 50" "\<forall>c. length (filter (\<lambda>e. e_code e = c) rows) \<le> 10"
      using r(3,4) by (simp_all add: max_insert_per_tick_def max_per_code_def)
    show "en_supp_ok en \<longrightarrow>
      (\<forall>e\<in>set rows. \<forall>(k, until)\<in>set (j_supp j). tick_time en now < until \<and> k \<noteq> [] \<longrightarrow> e_key e \<noteq> k)"
      using r(8) by blast
  qed (use r in auto)
qed

text \<open>C26: As long as the lookup of fingerprints succeeds, no sequence of ticks, acknowledgements and assignments
  that starts from an empty journal puts two events with the same fingerprint into it.\<close>
theorem journal_unique:
  assumes "(journal_step True)\<^sup>*\<^sup>* j0 j" "j_events j0 = []"
  shows "distinct (map e_fp (j_events j))"
  using assms by (rule journal_fps.reachable_inv)


section \<open>Witnesses\<close>

definition demo_scanner :: scanner where
  "demo_scanner = \<lparr>sc_oldest = Some 1,
     sc_port_scan = (\<lambda>w p e priv nets. Some [\<lparr>ps_src = ''10.0.0.9'', ps_ports = 60, ps_events = 120, ps_country = []\<rparr>]),
     sc_horizontal = (\<lambda>w h e priv nets. Some []), sc_blocked = (\<lambda>a b n. Some 0), sc_countries = (\<lambda>w m nets. Some []),
     sc_country_total = (\<lambda>w nets. Some 0), sc_baseline = (\<lambda>d m nets. Some []), sc_edges = (\<lambda>w l nets. Some []),
     sc_known_pairs = (\<lambda>ps w. Some []), sc_byte_surge = (\<lambda>w f m nets. Some []), sc_beaconing = (\<lambda>w h b nets. Some []),
     sc_lateral = (\<lambda>w h e nets. Some [])\<rparr>"

definition tick_env :: env where
  "tick_env = \<lparr>en_clock = 5000, en_scan = demo_scanner, en_rep = None, en_ids = \<lparr>id_hash = take 12, id_rfc3339 = (\<lambda>t. ''t'')\<rparr>,
     en_gate = [], en_nets = Some [\<lparr>rg_start = 0, rg_end = 255, rg_network = ''10.0.0.0/24'', rg_label = []\<rparr>],
     en_done = (\<lambda>i. False), en_recent_ok = False, en_fp_ok = True, en_supp_ok = True, en_insert_ok = True\<rparr>"

definition demo_service :: anomaly_service where
  "demo_service = new_anomaly_service \<lparr>cf_enabled = True, cf_private = False, cf_learning = 3, cf_profile = ''medium'',
     cf_suppress = 24, cf_share = 0, cf_nc_cooldown = 24, cf_overrides = None\<rparr>"

definition empty_journal :: journal where
  "empty_journal = \<lparr>j_events = [], j_acks = [], j_supp = [], j_assign = []\<rparr>"

text \<open>The detectors of this tick: two fail, the port scan reports one address.\<close>

lemma dedup_one:
  "e_fp e \<noteq> [] \<Longrightarrow> dedup_and_cap True True empty_journal [e] now = [stamp_event now (with_key e)]"
  by (simp add: dedup_and_cap_def Let_def existing_fingerprints_def active_suppressions_def empty_journal_def
      max_per_code_def max_insert_per_tick_def)

definition demo_hit :: "anomaly_config \<Rightarrow> thresholds \<Rightarrow> event" where
  "demo_hit cfg th = hd (the (detect_port_scan tick_env cfg 5000 th (load_enterprise_nets tick_env)))"

lemma demo_nets [simp]: "load_enterprise_nets tick_env = [\<lparr>rg_start = 0, rg_end = 255, rg_network = ''10.0.0.0/24'', rg_label = []\<rparr>]"
  by (simp add: load_enterprise_nets_def tick_env_def)

lemma demo_port_scan: "detect_port_scan tick_env cfg 5000 th (load_enterprise_nets tick_env) = Some [demo_hit cfg th]"
proof -
  have "display_ip ''10.0.0.9'' \<noteq> []" by code_simp
  then show ?thesis
    by (simp add: demo_hit_def detect_port_scan_def Let_def tick_env_def demo_scanner_def load_enterprise_nets_def)
qed

lemma demo_hit_fields: "e_fp (demo_hit cfg th) = ''port_scan|10''" "e_key (demo_hit cfg th) = []"
  "e_code (demo_hit cfg th) = code_port_scan" "e_src (demo_hit cfg th) = ''10.0.0.9''"
proof -
  have d: "display_ip ''10.0.0.9'' = ''10.0.0.9''" "trim_space ''10.0.0.9'' = ''10.0.0.9''" by code_simp+
  show "e_fp (demo_hit cfg th) = ''port_scan|10''" "e_key (demo_hit cfg th) = []"
    "e_code (demo_hit cfg th) = code_port_scan" "e_src (demo_hit cfg th) = ''10.0.0.9''"
    by (simp_all add: demo_hit_def detect_port_scan_def Let_def tick_env_def demo_scanner_def load_enterprise_nets_def d
        fingerprint_def fingerprint_at_def code_port_scan_def event_at_def no_event_def)
qed

lemma demo_rest:
  "detect_blocked_surge tick_env j t th (load_enterprise_nets tick_env) = None"
  "detect_horizontal_scan tick_env cfg t th (load_enterprise_nets tick_env) = Some []"
  "detect_rep_new_dst tick_env t th (load_enterprise_nets tick_env) = Some []"
  "detect_byte_surge tick_env t th (load_enterprise_nets tick_env) = Some []"
  "detect_lateral_fanout tick_env t th (load_enterprise_nets tick_env) = Some []"
  "detect_beaconing tick_env t th (load_enterprise_nets tick_env) = Some []"
  by (simp_all add: detect_blocked_surge_def detect_horizontal_scan_def detect_rep_new_dst_def detect_byte_surge_def
      detect_lateral_fanout_def detect_beaconing_def tick_env_def demo_scanner_def load_enterprise_nets_def)

lemma demo_service_simps [simp]: "cf_enabled (sv_cfg demo_service)" "suppress_period (sv_cfg demo_service) = 24 * hour"
  by (simp_all add: demo_service_def new_anomaly_service_def suppress_period_def)

lemma demo_learning: "is_learning tick_env (sv_cfg demo_service) 5000"
  by (simp add: is_learning_def tick_env_def demo_scanner_def time_sub_def min_duration_def max_duration_def learning_period_def hour_def minute_def
      second_def demo_service_def new_anomaly_service_def Let_def)

definition demo_row :: event where
  "demo_row = (let cfg = sv_cfg demo_service;
     th = effective_thresholds (cf_profile cfg) (cf_overrides cfg) (cf_share cfg) in
     store_row (hd (assign_episode_ids (en_ids tick_env) [stamp_event 5000 (with_key (demo_hit cfg th))] 5000)))"

lemma demo_run:
  "run_detectors (en_done tick_env) 0 (detectors tick_env cfg j 5000 th (load_enterprise_nets tick_env) True) [] [] =
     ([demo_hit cfg th], code_blocked_surge)"
  by (simp only: detectors_def demo_port_scan demo_rest run_detectors.simps if_True simp_thms option.case append.simps)
    (simp add: tick_env_def)

lemma demo_scan:
  obtains r s where "scan tick_env 0 demo_service empty_journal = (r, s, empty_journal\<lparr>j_events := [demo_row]\<rparr>)"
    "sr_inserted r = 1" "sr_error r = code_blocked_surge"
proof -
  have env: "en_clock tick_env = 5000" "en_gate tick_env = []" "en_fp_ok tick_env" "en_supp_ok tick_env" "en_insert_ok tick_env"
    by (simp_all add: tick_env_def)
  let ?r = "fst (scan tick_env 0 demo_service empty_journal)" and ?s = "fst (snd (scan tick_env 0 demo_service empty_journal))"
  have "scan tick_env 0 demo_service empty_journal = (?r, ?s, empty_journal\<lparr>j_events := [demo_row]\<rparr>)"
    "sr_inserted ?r = 1" "sr_error ?r = code_blocked_surge"
    using demo_learning demo_run [of "sv_cfg demo_service" empty_journal]
    by (simp_all add: scan_def Let_def env dedup_one demo_hit_fields assign_episode_ids_def store_insert_def demo_row_def
        del: demo_nets) (simp_all add: empty_journal_def)
  then show thesis by (rule that)
qed

lemma demo_row_fields: "e_fp demo_row = ''port_scan|10''" "e_key demo_row = ''port_scan|src|10.0.0.9''"
  "e_code demo_row = code_port_scan"
  by (simp_all add: demo_row_def Let_def assign_episode_ids_def demo_hit_fields with_key_def suppression_key_for_def code_defs)

lemma scan_inserts_witness:
  "\<exists>r s j. scan tick_env 0 demo_service empty_journal = (r, s, j) \<and> sr_inserted r = 1 \<and> j_events j = [demo_row] \<and>
     length (filter (\<lambda>e. e_code e = code_port_scan) (j_events j)) \<le> 10"
proof (rule demo_scan)
  fix r s
  assume sc: "scan tick_env 0 demo_service empty_journal = (r, s, empty_journal\<lparr>j_events := [demo_row]\<rparr>)" "sr_inserted r = 1"
  from scan_inserts [OF sc(1)] show ?thesis using sc by (auto simp: empty_journal_def)
qed

lemma journal_unique_witness:
  "\<exists>j. (journal_step True)\<^sup>*\<^sup>* empty_journal j \<and> j_events j = [demo_row] \<and> distinct (map e_fp (j_events j))"
proof (rule demo_scan)
  fix r s
  assume sc: "scan tick_env 0 demo_service empty_journal = (r, s, empty_journal\<lparr>j_events := [demo_row]\<rparr>)"
  have "journal_step True empty_journal (empty_journal\<lparr>j_events := [demo_row]\<rparr>)"
    by (rule journal_step.tick [OF sc]) (simp add: tick_env_def)
  then have st: "(journal_step True)\<^sup>*\<^sup>* empty_journal (empty_journal\<lparr>j_events := [demo_row]\<rparr>)" by blast
  from journal_unique [OF st] st show ?thesis by (auto simp: empty_journal_def)
qed

definition demo_acked :: journal where
  "demo_acked = snd (ack \<lparr>io_ack = True, io_query = True, io_supp = True\<rparr> True True 6000 ''port_scan|10'' ''op'' demo_service
     (empty_journal\<lparr>j_events := [demo_row]\<rparr>))"

lemma demo_key: "ack_key demo_row = ''port_scan|src|10.0.0.9''" "trim_space ''port_scan|src|10.0.0.9'' = ''port_scan|src|10.0.0.9''"
proof -
  show t: "trim_space ''port_scan|src|10.0.0.9'' = ''port_scan|src|10.0.0.9''" by code_simp
  show "ack_key demo_row = ''port_scan|src|10.0.0.9''" by (simp add: ack_key_def demo_row_fields t)
qed

lemma demo_ack:
  "ack \<lparr>io_ack = True, io_query = True, io_supp = True\<rparr> True True 6000 ''port_scan|10'' ''op'' demo_service
     (empty_journal\<lparr>j_events := [demo_row]\<rparr>) = (Inr (), demo_acked)"
  "latest_event (empty_journal\<lparr>j_events := [demo_row]\<rparr>) (trim_space ''port_scan|10'') = Some demo_row"
proof -
  have t: "trim_space ''port_scan|10'' = ''port_scan|10''" "trim_space ''op'' = ''op''" by code_simp+
  show l: "latest_event (empty_journal\<lparr>j_events := [demo_row]\<rparr>) (trim_space ''port_scan|10'') = Some demo_row"
    unfolding t by (simp add: latest_event_def demo_row_fields)
  then show "ack \<lparr>io_ack = True, io_query = True, io_supp = True\<rparr> True True 6000 ''port_scan|10'' ''op'' demo_service
     (empty_journal\<lparr>j_events := [demo_row]\<rparr>) = (Inr (), demo_acked)"
    by (simp add: demo_acked_def ack_def Let_def t store_ack_def demo_key hour_def minute_def second_def)
qed


section \<open>The settings\<close>

lemma validate_settings_ok:
  assumes "validate_settings x = Inr out"
  shows "out = x" "1 \<le> st_interval x" "st_interval x \<le> 1440" "1 \<le> st_learning x" "st_learning x \<le> 30"
    "1 \<le> st_suppress x" "st_suppress x \<le> 168" "normalize_settings (x\<lparr>st_updated := u\<rparr>) = x\<lparr>st_updated := u\<rparr>"
proof -
  have s: "\<not> f64_lt (st_share x) f001 \<and> \<not> f64_lt f64_one (st_share x)" and
    b: "1 \<le> st_interval x \<and> st_interval x \<le> 1440 \<and> 1 \<le> st_learning x \<and> st_learning x \<le> 30 \<and>
        1 \<le> st_suppress x \<and> st_suppress x \<le> 168" and
    o: "out = (normalize_settings x)\<lparr>st_enabled := st_enabled x, st_private := st_private x, st_thresholds := st_thresholds x\<rparr>"
    using assms by (auto simp: validate_settings_def Let_def split: if_splits option.splits)
  have "\<not> f64_le (st_share x) 0"
  proof
    assume "f64_le (st_share x) 0"
    then have "f64_lt (st_share x) f001" by (auto simp: f64_le_def f64_lt_def f64_key_def f001_def f64_nan_def)
    with s show False by simp
  qed
  with s b have n: "normalize_settings (x\<lparr>st_updated := u\<rparr>) = x\<lparr>st_updated := u\<rparr>" for u
    by (simp add: normalize_settings_def Let_def)
  then show "normalize_settings (x\<lparr>st_updated := u\<rparr>) = x\<lparr>st_updated := u\<rparr>" .
  show "out = x" using n [of "st_updated x"] o by simp
qed (use assms in \<open>auto simp: validate_settings_def Let_def split: if_splits option.splits\<close>)

lemma not_empty_settings: "1 \<le> st_interval x \<Longrightarrow> \<not> is_empty_settings (x\<lparr>st_updated := u\<rparr>)"
  by (simp add: is_empty_settings_def)

text \<open>An update of the settings that succeeds stores exactly the settings that were sent, with the time stamp:
  the answer shows them, the running service and its scheduler use them, a restart with any seed reads them back,
  and the periods they stand for are within their limits.\<close>
theorem settings_update_reload:
  assumes "update_settings enc dec w stamp n x store sx d = (Inr v, sx', d')" "json_law enc dec good"
    "good (x\<lparr>st_updated := stamp\<rparr>)" "js_save_hook store = None" "js_load_hook store = None"
    "trim_space (js_path store) = js_path store"
  shows "vw_settings v = x\<lparr>st_updated := stamp\<rparr> \<and> sx_interval sx' = st_interval x * minute \<and>
    sv_cfg (sx_anomaly sx') = sv_cfg (apply_settings x (sx_anomaly sx)) \<and>
    fst (load_and_apply (json_load dec store (disk_read d' (js_path store))) sx0) = Inr (x\<lparr>st_updated := stamp\<rparr>) \<and>
    minute \<le> sx_interval sx' \<and> sx_interval sx' \<le> 24 * hour \<and>
    suppress_period (sv_cfg (sx_anomaly sx')) = st_suppress x * hour \<and> st_suppress x \<in> {1..168} \<and>
    learning_period (sv_cfg (sx_anomaly sx')) = st_learning x * (24 * hour) \<and> st_learning x \<in> {1..30}"
proof -
  let ?x = "x\<lparr>st_updated := stamp\<rparr>"
  obtain out where v: "validate_settings x = Inr out"
    using assms(1) by (auto simp: update_settings_def split: sum.splits)
  note ok = validate_settings_ok [OF v]
  have sv: "json_save enc store w ?x d = (Inr (), d')" "sx' = apply_all ?x sx"
    "get_view n (json_load dec store (disk_read d' (js_path store))) (apply_all ?x sx) = Inr v"
    using assms(1) v ok(1) by (auto simp: update_settings_def Let_def split: sum.splits prod.splits)
  have ld: "json_load dec store (disk_read d' (js_path store)) = Inr ?x"
    using json_load_after_save [OF sv(1) assms(4,5,2,3,6)] .
  have ln: "load_normalized y (Inr ?x) = Inr ?x" for y
    using ok(8) not_empty_settings [OF ok(2)] by (simp add: load_normalized_def)
  show ?thesis
    using sv(2,3) ok(2-7)
    by (auto simp: ld ln load_and_apply_def get_view_def Let_def apply_all_def apply_settings_def suppress_period_def
        learning_period_def minute_def second_def hour_def)
qed

definition demo_settings :: settings where
  "demo_settings = default_settings (10 * minute) 7 48 True f005"

definition demo_settings_file :: "settings json_store" where
  "demo_settings_file = new_json_store ''s.json'' demo_settings None None"

definition demo_enc :: "settings \<Rightarrow> string option" where
  "demo_enc x = (if x = demo_settings\<lparr>st_updated := ''t''\<rparr> then Some ''{}'' else None)"

definition demo_dec :: "string \<Rightarrow> settings option" where
  "demo_dec bs = Some (demo_settings\<lparr>st_updated := ''t''\<rparr>)"

lemma demo_settings_law: "json_law demo_enc demo_dec (\<lambda>x. True)"
  unfolding json_law_def
proof (intro allI impI)
  fix v bs
  assume "demo_enc v = Some bs"
  then have "v = demo_settings\<lparr>st_updated := ''t''\<rparr>" unfolding demo_enc_def
    by (rule contrapos_pp) (simp only: if_False not_False_eq_True option.distinct)
  then show "demo_dec (bs @ [byte 10]) = Some v" unfolding demo_dec_def by (rule arg_cong [where f = Some, OF sym])
qed

lemma demo_settings_valid: "validate_settings demo_settings = Inr demo_settings"
proof -
  have f: "\<not> f64_le f005 0" "\<not> f64_lt f005 f001" "\<not> f64_lt f64_one f005"
    by (simp_all add: f64_le_def f64_lt_def f64_key_def f001_def f005_def f64_one_def f64_nan_def)
  have "validate_settings demo_settings \<noteq> Inl e" for e
    using f by (simp add: validate_settings_def demo_settings_def default_settings_def minute_def second_def Let_def)
  then show ?thesis using validate_settings_ok(1) by (metis sum.exhaust)
qed

lemma demo_update:
  obtains v sx d where "update_settings demo_enc demo_dec Written ''t'' 1 demo_settings demo_settings_file
     (new_settings_service demo_service demo_settings hour) (\<lambda>p. None) = (Inr v, sx, d)"
proof -
  let ?x = "demo_settings\<lparr>st_updated := ''t''\<rparr>" and ?f = demo_settings_file
  have t: "trim_space ''s.json'' = ''s.json''" by code_simp
  have sv: "json_save demo_enc ?f Written ?x (\<lambda>p. None) = (Inr (), [''s.json'' \<mapsto> ''{}'' @ [byte 10]])"
    by (simp add: json_save_def demo_settings_file_def new_json_store_def write_json_def demo_enc_def write_file_def t)
  have ld: "json_load demo_dec ?f r \<noteq> Inl e" if "r \<noteq> Read_err" for r e
    using that by (cases r) (simp_all add: json_load_def demo_settings_file_def new_json_store_def demo_dec_def)
  have "\<exists>v. get_view 1 (json_load demo_dec ?f (disk_read d (js_path ?f))) sx = Inr v" for d sx
  proof -
    have "disk_read d (js_path ?f) \<noteq> Read_err" by (simp add: disk_read_def split: option.splits)
    with ld obtain y where "json_load demo_dec ?f (disk_read d (js_path ?f)) = Inr y" by (metis sum.exhaust)
    then show ?thesis by (simp add: get_view_def load_normalized_def Let_def)
  qed
  then show thesis using that by (simp add: update_settings_def demo_settings_valid sv Let_def) metis
qed

lemma demo_path: "trim_space ''s.json'' = ''s.json''"
  by code_simp

lemma settings_update_reload_witness:
  "\<exists>v sx d. update_settings demo_enc demo_dec Written ''t'' 1 demo_settings demo_settings_file
     (new_settings_service demo_service demo_settings hour) (\<lambda>p. None) = (Inr v, sx, d) \<and>
     vw_settings v = demo_settings\<lparr>st_updated := ''t''\<rparr> \<and> suppress_period (sv_cfg (sx_anomaly sx)) = 48 * hour"
proof (rule demo_update)
  fix v sx d
  assume u: "update_settings demo_enc demo_dec Written ''t'' 1 demo_settings demo_settings_file
     (new_settings_service demo_service demo_settings hour) (\<lambda>p. None) = (Inr v, sx, d)"
  have f: "js_path demo_settings_file = ''s.json''" "js_save_hook demo_settings_file = None"
    "js_load_hook demo_settings_file = None" "st_suppress demo_settings = 48"
    by (simp_all add: demo_settings_file_def new_json_store_def demo_settings_def default_settings_def demo_path)
  have "trim_space (js_path demo_settings_file) = js_path demo_settings_file" 
    by (simp only: f(1) demo_path)
  from settings_update_reload [OF u demo_settings_law TrueI f(2,3) this] show ?thesis using u f(4) by metis
qed

section \<open>A surge is reported exactly when it is one\<close>

definition surges :: "env \<Rightarrow> go_time \<Rightarrow> thresholds \<Rightarrow> ip_range \<Rightarrow> bool" where
  "surges en now th n \<longleftrightarrow>
     (case (sc_blocked (en_scan en) (now - blocked_window) now n,
            sc_blocked (en_scan en) (now - 2 * blocked_window) (now - blocked_window) n) of
        (Some cur, Some prev) \<Rightarrow> th_surge_floor th \<le> prev \<and> surge_need prev (th_surge_ratio th) (th_surge_abs th) \<le> cur
      | _ \<Rightarrow> False)"

lemma surge_need_min: "m \<le> surge_need prev ratio m"
  by (simp add: surge_need_def Let_def not_less)

lemma blocked_surge_event_fields:
  "e_device (blocked_surge_event en now th n cur prev) = rg_network n"
  "e_count (blocked_surge_event en now th n cur prev) = cur" "e_code (blocked_surge_event en now th n cur prev) = code_blocked_surge"
  "e_key (blocked_surge_event en now th n cur prev) = surge_key n"
  by (simp_all add: blocked_surge_event_def Let_def event_at_def no_event_def)

lemma blocked_surge_nets_spec:
  assumes "blocked_surge_nets en now th recent nets = Some es"
  shows "map e_device es = map rg_network (filter (\<lambda>n. surge_key n \<notin> set recent \<and> surges en now th n) nets) \<and>
    map e_key es = map surge_key (filter (\<lambda>n. surge_key n \<notin> set recent \<and> surges en now th n) nets) \<and>
    (\<forall>e\<in>set es. th_surge_abs th \<le> e_count e \<and> e_code e = code_blocked_surge)"
  using assms
proof (induction nets arbitrary: es)
  case (Cons n ns)
  show ?case
  proof (cases "surge_key n \<in> set recent")
    case True
    with Cons show ?thesis by simp
  next
    case False
    then obtain cur prev where q: "sc_blocked (en_scan en) (now - blocked_window) now n = Some cur"
      "sc_blocked (en_scan en) (now - 2 * blocked_window) (now - blocked_window) n = Some prev"
      using Cons.prems by (auto split: option.splits simp: algebra_simps)
    then have q2: "sc_blocked (en_scan en) (now - blocked_window - blocked_window) (now - blocked_window) n = Some prev"
      by (simp add: algebra_simps)
    let ?need = "surge_need prev (th_surge_ratio th) (th_surge_abs th)"
    show ?thesis
    proof (cases "prev < th_surge_floor th \<or> cur < ?need")
      case True
      then have "blocked_surge_nets en now th recent ns = Some es" "\<not> surges en now th n"
        using Cons.prems False q q2 by (auto simp: surges_def not_le split: if_splits)
      with Cons.IH show ?thesis by simp
    next
      case surge: False
      then obtain es' where es: "blocked_surge_nets en now th recent ns = Some es'"
          "es = blocked_surge_event en now th n cur prev # es'"
        using Cons.prems False q q2 by (auto split: option.splits)
      moreover have "surges en now th n" using surge q by (simp add: surges_def not_less)
      moreover have "th_surge_abs th \<le> cur"
        using surge surge_need_min [of "th_surge_abs th" prev "th_surge_ratio th"] by (auto simp: not_less intro: order_trans)
      ultimately show ?thesis using Cons.IH [OF es(1)] False by (simp add: blocked_surge_event_fields)
    qed
  qed
qed simp

lemma recent_surge_keys:
  "surge_key n \<in> set (recent_suppression_keys j code_blocked_surge (map surge_key nets) since) \<longleftrightarrow>
     surge_key n \<in> surge_key ` set nets \<and>
     (\<exists>e\<in>set (j_events j). e_code e = code_blocked_surge \<and> e_key e = surge_key n \<and> since \<le> e_detected e)"
proof -
  have "surge_key n \<noteq> []" by (simp add: surge_key_def code_blocked_surge_def)
  then show ?thesis by (force simp: recent_suppression_keys_def Let_def code_defs)
qed

text \<open>When its queries succeed, the detector of blocked traffic reports exactly the networks whose last 15
  minutes reach the threshold against the 15 minutes before (previous count at least the floor, current count at
  least the previous one times the ratio and at least the minimum) and for which the journal holds no such event of
  the last six hours, in the order of the networks; every count it reports is at least the minimum.\<close>
theorem blocked_surge_exact:
  assumes "detect_blocked_surge en j now th nets = Some es"
  shows "map e_device es = map rg_network (filter (\<lambda>n. surges en now th n \<and>
      \<not> (\<exists>e\<in>set (j_events j). e_code e = code_blocked_surge \<and> e_key e = surge_key n \<and> now - 6 * hour \<le> e_detected e)) nets) \<and>
    (\<forall>e\<in>set es. th_surge_abs th \<le> e_count e)"
proof (cases "nets = []")
  case False
  let ?recent = "recent_suppression_keys j code_blocked_surge (map surge_key nets) (now - blocked_surge_repeat_cooldown)"
  have "blocked_surge_nets en now th ?recent nets = Some es"
    using assms False by (auto simp: detect_blocked_surge_def split: if_splits)
  note spec = blocked_surge_nets_spec [OF this]
  have "filter (\<lambda>n. surge_key n \<notin> set ?recent \<and> surges en now th n) nets = filter (\<lambda>n. surges en now th n \<and>
      \<not> (\<exists>e\<in>set (j_events j). e_code e = code_blocked_surge \<and> e_key e = surge_key n \<and> now - 6 * hour \<le> e_detected e)) nets"
    by (rule filter_cong) (auto simp: recent_surge_keys blocked_surge_repeat_cooldown_def)
  with spec show ?thesis by simp
qed (use assms in \<open>simp add: detect_blocked_surge_def\<close>)

definition surge_env :: "env" where
  "surge_env = tick_env\<lparr>en_recent_ok := True, en_scan := demo_scanner\<lparr>sc_blocked := (\<lambda>a b n. if 0 \<le> a then Some 900 else Some 0)\<rparr>\<rparr>"

definition surge_thresholds :: thresholds where
  "surge_thresholds = (thresholds_for_profile [])\<lparr>th_surge_ratio := f5, th_surge_abs := 200, th_surge_floor := 0\<rparr>"

lemma f64_zero:
  "f64_of_u64 0 = 0" "f64_mul 0 f5 = 0" "u64_of_f64 0 = 0"
  by (simp_all add: f64_of_u64_def f64_mul_def u64_of_f64_def f64_trunc_def f5_def f64_sign_def f64_nan_def f64_abs_def
      f64_inf_def f64_mag_def f64_round_def scaled_def round_bits_def f64_make_def Let_def)

lemma surge_need_demo: "surge_need 0 f5 200 = 200"
  by (simp add: surge_need_def f64_zero)

lemma surge_demo:
  "detect_blocked_surge surge_env empty_journal (15 * minute) surge_thresholds (load_enterprise_nets tick_env) =
     Some [blocked_surge_event surge_env (15 * minute) surge_thresholds (hd (load_enterprise_nets tick_env)) 900 0]"
  using surge_need_demo
  by (simp add: detect_blocked_surge_def recent_suppression_keys_def code_defs empty_journal_def surge_env_def
      surge_thresholds_def blocked_window_def minute_def second_def)

lemma blocked_surge_exact_witness:
  "\<exists>es. detect_blocked_surge surge_env empty_journal (15 * minute) surge_thresholds (load_enterprise_nets tick_env) = Some es \<and>
     map e_device es = [''10.0.0.0/24''] \<and> (\<forall>e\<in>set es. 200 \<le> e_count e)"
  using surge_demo blocked_surge_exact [OF surge_demo]
  by (auto simp: blocked_surge_event_fields surge_thresholds_def)

end
