(* ===== verification/Map_Agg.thy ===== *)
theory Map_Agg
  imports Map_Search Ingest Reputation Go_Text
begin

text \<open>
  The map's aggregation (\<^verbatim>\<open>mapagg/aggregator.go\<close>, \<^verbatim>\<open>mapagg/enterprise.go\<close>, \<^verbatim>\<open>model/countries.go\<close>,
  \<^verbatim>\<open>model/continents.go\<close>, \<^verbatim>\<open>model/actions.go\<close>, \<^verbatim>\<open>usecase/geo/enterprise.go\<close>): the key and place of an
  address on the map, nodes and edges as accumulators, lines and points from edges, the index of the networks of the
  enterprise.

  The accumulators behind pointers in a Go map are the values of an association list; the order of the list stands
  for the order in which Go visits the map.
\<close>

section \<open>Centres of countries and continents\<close>

definition country_centers :: "(string \<times> f64 \<times> f64) list" where
  "country_centers =
    [(utf8 [1056, 1086, 1089, 1089, 1080, 1103], 0x404BE0BE0DED288D, 0x4042CF03AFB7E910),
     (''Russian Federation'', 0x404BE0BE0DED288D, 0x4042CF03AFB7E910),
     (''Russia'', 0x404BE0BE0DED288D, 0x4042CF03AFB7E910),
     (''RU'', 0x404BE0BE0DED288D, 0x4042CF03AFB7E910),
     (utf8 [1057, 1064, 1040], 0x4043EA05BC01A36E, 0xC058A516872B020C),
     (''United States'', 0x4043EA05BC01A36E, 0xC058A516872B020C),
     (''USA'', 0x4043EA05BC01A36E, 0xC058A516872B020C), (''US'', 0x4043EA05BC01A36E, 0xC058A516872B020C),
     (utf8 [1042, 1077, 1083, 1080, 1082, 1086, 1073, 1088, 1080, 1090, 1072, 1085, 1080, 1103], 0x404BB06594AF4F0E, 0xC00B7CED916872B0),
     (''United Kingdom'', 0x404BB06594AF4F0E, 0xC00B7CED916872B0),
     (''GB'', 0x404BB06594AF4F0E, 0xC00B7CED916872B0), (''UK'', 0x404BB06594AF4F0E, 0xC00B7CED916872B0),
     (utf8 [1043, 1077, 1088, 1084, 1072, 1085, 1080, 1103], 0x40499535A858793E, 0x4024E72B020C49BA),
     (''Germany'', 0x40499535A858793E, 0x4024E72B020C49BA),
     (''DE'', 0x40499535A858793E, 0x4024E72B020C49BA),
     (utf8 [1060, 1088, 1072, 1085, 1094, 1080, 1103], 0x40471D21FF2E48E9, 0x4001B5A858793DD9),
     (''France'', 0x40471D21FF2E48E9, 0x4001B5A858793DD9),
     (''FR'', 0x40471D21FF2E48E9, 0x4001B5A858793DD9),
     (utf8 [1048, 1090, 1072, 1083, 1080, 1103], 0x4044EF9A6B50B0F2, 0x4029228240B78034),
     (''Italy'', 0x4044EF9A6B50B0F2, 0x4029228240B78034), (''IT'', 0x4044EF9A6B50B0F2, 0x4029228240B78034),
     (utf8 [1048, 1089, 1087, 1072, 1085, 1080, 1103], 0x40443B5A858793DE, 0xC00DFE5C91D14E3C),
     (''Spain'', 0x40443B5A858793DE, 0xC00DFE5C91D14E3C), (''ES'', 0x40443B5A858793DE, 0xC00DFE5C91D14E3C),
     (utf8 [1055, 1086, 1083, 1100, 1096, 1072], 0x4049F5AEE631F8A1, 0x40332525460AA64C),
     (''Poland'', 0x4049F5AEE631F8A1, 0x40332525460AA64C),
     (''PL'', 0x4049F5AEE631F8A1, 0x40332525460AA64C),
     (utf8 [1059, 1082, 1088, 1072, 1080, 1085, 1072], 0x404830902DE00D1B, 0x403F2A64C2F837B5),
     (''Ukraine'', 0x404830902DE00D1B, 0x403F2A64C2F837B5),
     (''UA'', 0x404830902DE00D1B, 0x403F2A64C2F837B5),
     (utf8 [1041, 1077, 1083, 1072, 1088, 1091, 1089, 1100], 0x404ADADAB9F559B4, 0x403BF41205BC01A3),
     (''Belarus'', 0x404ADADAB9F559B4, 0x403BF41205BC01A3),
     (''BY'', 0x404ADADAB9F559B4, 0x403BF41205BC01A3),
     (utf8 [1050, 1072, 1079, 1072, 1093, 1089, 1090, 1072, 1085], 0x4048028240B78034, 0x4050BB1DE69AD42C),
     (''Kazakhstan'', 0x4048028240B78034, 0x4050BB1DE69AD42C),
     (''KZ'', 0x4048028240B78034, 0x4050BB1DE69AD42C),
     (utf8 [1050, 1080, 1090, 1072, 1081], 0x4041EE4C2F837B4A, 0x405A0C816F0068DC),
     (''China'', 0x4041EE4C2F837B4A, 0x405A0C816F0068DC), (''CN'', 0x4041EE4C2F837B4A, 0x405A0C816F0068DC),
     (utf8 [1071, 1087, 1086, 1085, 1080, 1103], 0x40421A36E2EB1C43, 0x40614817C1BDA512),
     (''Japan'', 0x40421A36E2EB1C43, 0x40614817C1BDA512), (''JP'', 0x40421A36E2EB1C43, 0x40614817C1BDA512),
     (utf8 [1058, 1091, 1088, 1094, 1080, 1103], 0x40437B5A858793DE, 0x40419F2474538EF3),
     (''Turkey'', 0x40437B5A858793DE, 0x40419F2474538EF3),
     (''TR'', 0x40437B5A858793DE, 0x40419F2474538EF3),
     (utf8 [1053, 1080, 1076, 1077, 1088, 1083, 1072, 1085, 1076, 1099], 0x404A10F9096BB98C, 0x40152A4A8C154C98),
     (''Netherlands'', 0x404A10F9096BB98C, 0x40152A4A8C154C98),
     (''NL'', 0x404A10F9096BB98C, 0x40152A4A8C154C98),
     (utf8 [1064, 1074, 1077, 1094, 1080, 1103], 0x404E1068DB8BAC71, 0x4032A4BC6A7EF9DB),
     (''Sweden'', 0x404E1068DB8BAC71, 0x4032A4BC6A7EF9DB),
     (''SE'', 0x404E1068DB8BAC71, 0x4032A4BC6A7EF9DB),
     (utf8 [1053, 1086, 1088, 1074, 1077, 1075, 1080, 1103], 0x404E3C6A7EF9DB23, 0x4020F013A92A3055),
     (''Norway'', 0x404E3C6A7EF9DB23, 0x4020F013A92A3055),
     (''NO'', 0x404E3C6A7EF9DB23, 0x4020F013A92A3055),
     (utf8 [1060, 1080, 1085, 1083, 1103, 1085, 1076, 1080, 1103], 0x404EF648E8A71DE7, 0x4039BF8A0902DE01),
     (''Finland'', 0x404EF648E8A71DE7, 0x4039BF8A0902DE01),
     (''FI'', 0x404EF648E8A71DE7, 0x4039BF8A0902DE01),
     (utf8 [1044, 1072, 1085, 1080, 1103], 0x404C21C779A6B50B, 0x402300EBEDFA43FE),
     (''Denmark'', 0x404C21C779A6B50B, 0x402300EBEDFA43FE),
     (''DK'', 0x404C21C779A6B50B, 0x402300EBEDFA43FE),
     (utf8 [1069, 1089, 1090, 1086, 1085, 1080, 1103], 0x404D4C32CA57A787, 0x4039037B4A2339C1),
     (''Estonia'', 0x404D4C32CA57A787, 0x4039037B4A2339C1),
     (''EE'', 0x404D4C32CA57A787, 0x4039037B4A2339C1),
     (utf8 [1051, 1072, 1090, 1074, 1080, 1103], 0x404C7096BB98C7E3, 0x40389A6B50B0F27C),
     (''Latvia'', 0x404C7096BB98C7E3, 0x40389A6B50B0F27C),
     (''LV'', 0x404C7096BB98C7E3, 0x40389A6B50B0F27C),
     (utf8 [1051, 1080, 1090, 1074, 1072], 0x404B95AEE631F8A1, 0x4037E19CE075F6FD),
     (''Lithuania'', 0x404B95AEE631F8A1, 0x4037E19CE075F6FD),
     (''LT'', 0x404B95AEE631F8A1, 0x4037E19CE075F6FD),
     (utf8 [1050, 1072, 1085, 1072, 1076, 1072], 0x404C10B0F27BB2FF, 0xC05A9631F8A0902E),
     (''Canada'', 0x404C10B0F27BB2FF, 0xC05A9631F8A0902E),
     (''CA'', 0x404C10B0F27BB2FF, 0xC05A9631F8A0902E),
     (utf8 [1040, 1074, 1089, 1090, 1088, 1072, 1083, 1080, 1103], 0xC039463F141205BC, 0x4060B8CD9E83E426),
     (''Australia'', 0xC039463F141205BC, 0x4060B8CD9E83E426),
     (''AU'', 0xC039463F141205BC, 0x4060B8CD9E83E426),
     (utf8 [1048, 1085, 1076, 1080, 1103], 0x403497FCB923A29C, 0x4053BDA027525461),
     (''India'', 0x403497FCB923A29C, 0x4053BDA027525461), (''IN'', 0x403497FCB923A29C, 0x4053BDA027525461),
     (utf8 [1041, 1088, 1072, 1079, 1080, 1083, 1080, 1103], 0xC02C7851EB851EB8, 0xC049F6703AFB7E91),
     (''Brazil'', 0xC02C7851EB851EB8, 0xC049F6703AFB7E91),
     (''BR'', 0xC02C7851EB851EB8, 0xC049F6703AFB7E91),
     (utf8 [1057, 1080, 1085, 1075, 1072, 1087, 1091, 1088], 0x3FF5A2339C0EBEE0, 0x4059F4779A6B50B1),
     (''Singapore'', 0x3FF5A2339C0EBEE0, 0x4059F4779A6B50B1),
     (''SG'', 0x3FF5A2339C0EBEE0, 0x4059F4779A6B50B1)]"

definition continent_europe :: string where "continent_europe = utf8 [1045, 1074, 1088, 1086, 1087, 1072]"
definition continent_asia :: string where "continent_asia = utf8 [1040, 1079, 1080, 1103]"
definition continent_africa :: string where "continent_africa = utf8 [1040, 1092, 1088, 1080, 1082, 1072]"
definition continent_north_america :: string where "continent_north_america = utf8 [1057, 1077, 1074, 1077, 1088, 1085, 1072, 1103, 32, 1040, 1084, 1077, 1088, 1080, 1082, 1072]"
definition continent_south_america :: string where "continent_south_america = utf8 [1070, 1078, 1085, 1072, 1103, 32, 1040, 1084, 1077, 1088, 1080, 1082, 1072]"
definition continent_oceania :: string where "continent_oceania = utf8 [1054, 1082, 1077, 1072, 1085, 1080, 1103]"
definition continent_unknown :: string where "continent_unknown = neizvestno"

definition continent_centers :: "(string \<times> f64 \<times> f64) list" where
  "continent_centers =
    [(continent_europe, 0x404B4353F7CED917, 0x402E829C779A6B51),
     (continent_asia, 0x404106219652BD3C, 0x405927A92A305532),
     (continent_africa, 0x3FFA69AD42C3C9EF, 0x4031D985F06F6944),
     (continent_north_america, 0x404B4353F7CED917, 0xC05A50538EF34D6A),
     (continent_south_america, 0xC02190FF97247454, 0xC04BBEE978D4FDF4),
     (continent_oceania, 0xC036BC63F141205C, 0x4061809A02752546), (continent_unknown, 0x0, 0x0)]"

definition registered :: "(string \<times> string list) list" where
  "registered =
    [(continent_europe,
      [''Russia'', ''Russian Federation'', ''RU'', utf8 [1056, 1086, 1089, 1089, 1080, 1103], ''Germany'',
       ''DE'', utf8 [1043, 1077, 1088, 1084, 1072, 1085, 1080, 1103], ''France'', ''FR'',
       utf8 [1060, 1088, 1072, 1085, 1094, 1080, 1103], ''United Kingdom'', ''GB'', ''UK'',
       utf8 [1042, 1077, 1083, 1080, 1082, 1086, 1073, 1088, 1080, 1090, 1072, 1085, 1080, 1103],
       ''Italy'', ''IT'', utf8 [1048, 1090, 1072, 1083, 1080, 1103], ''Spain'', ''ES'',
       utf8 [1048, 1089, 1087, 1072, 1085, 1080, 1103], ''Portugal'',
       utf8 [1055, 1086, 1088, 1090, 1091, 1075, 1072, 1083, 1080, 1103], ''Poland'', ''PL'',
       utf8 [1055, 1086, 1083, 1100, 1096, 1072], ''Ukraine'', ''UA'',
       utf8 [1059, 1082, 1088, 1072, 1080, 1085, 1072], ''Belarus'', ''BY'',
       utf8 [1041, 1077, 1083, 1072, 1088, 1091, 1089, 1100], ''Netherlands'', ''NL'',
       utf8 [1053, 1080, 1076, 1077, 1088, 1083, 1072, 1085, 1076, 1099], ''Belgium'',
       utf8 [1041, 1077, 1083, 1100, 1075, 1080, 1103], ''Luxembourg'',
       utf8 [1051, 1102, 1082, 1089, 1077, 1084, 1073, 1091, 1088, 1075], ''Switzerland'',
       utf8 [1064, 1074, 1077, 1081, 1094, 1072, 1088, 1080, 1103], ''Austria'',
       utf8 [1040, 1074, 1089, 1090, 1088, 1080, 1103], ''Czech Republic'', ''Czechia'',
       utf8 [1063, 1077, 1093, 1080, 1103], ''Slovakia'',
       utf8 [1057, 1083, 1086, 1074, 1072, 1082, 1080, 1103], ''Hungary'',
       utf8 [1042, 1077, 1085, 1075, 1088, 1080, 1103], ''Romania'',
       utf8 [1056, 1091, 1084, 1099, 1085, 1080, 1103], ''Bulgaria'',
       utf8 [1041, 1086, 1083, 1075, 1072, 1088, 1080, 1103], ''Greece'',
       utf8 [1043, 1088, 1077, 1094, 1080, 1103], ''Serbia'', ''Republic of Serbia'',
       utf8 [1057, 1077, 1088, 1073, 1080, 1103], ''Croatia'',
       utf8 [1061, 1086, 1088, 1074, 1072, 1090, 1080, 1103], ''Slovenia'',
       utf8 [1057, 1083, 1086, 1074, 1077, 1085, 1080, 1103], ''Bosnia and Herzegovina'',
       ''Bosnia and Herz.'',
       utf8 [1041, 1086, 1089, 1085, 1080, 1103, 32, 1080, 32, 1043, 1077, 1088, 1094, 1077, 1075, 1086, 1074, 1080, 1085, 1072],
       ''Sweden'', ''SE'', utf8 [1064, 1074, 1077, 1094, 1080, 1103], ''Norway'', ''NO'',
       utf8 [1053, 1086, 1088, 1074, 1077, 1075, 1080, 1103], ''Finland'', ''FI'',
       utf8 [1060, 1080, 1085, 1083, 1103, 1085, 1076, 1080, 1103], ''Denmark'', ''DK'',
       utf8 [1044, 1072, 1085, 1080, 1103], ''Iceland'',
       utf8 [1048, 1089, 1083, 1072, 1085, 1076, 1080, 1103], ''Estonia'', ''EE'',
       utf8 [1069, 1089, 1090, 1086, 1085, 1080, 1103], ''Latvia'', ''LV'',
       utf8 [1051, 1072, 1090, 1074, 1080, 1103], ''Lithuania'', ''LT'',
       utf8 [1051, 1080, 1090, 1074, 1072], ''Moldova'', ''Republic of Moldova'',
       utf8 [1052, 1086, 1083, 1076, 1086, 1074, 1072], ''Ireland'',
       utf8 [1048, 1088, 1083, 1072, 1085, 1076, 1080, 1103], ''Albania'',
       utf8 [1040, 1083, 1073, 1072, 1085, 1080, 1103], ''North Macedonia'', ''Macedonia'',
       utf8 [1057, 1077, 1074, 1077, 1088, 1085, 1072, 1103, 32, 1052, 1072, 1082, 1077, 1076, 1086, 1085, 1080, 1103],
       ''Montenegro'', utf8 [1063, 1077, 1088, 1085, 1086, 1075, 1086, 1088, 1080, 1103], ''Kosovo'',
       utf8 [1050, 1086, 1089, 1086, 1074, 1086], ''Cyprus'', utf8 [1050, 1080, 1087, 1088], ''Andorra'',
       ''Monaco'', ''San Marino'', ''Vatican'', ''Liechtenstein'', ''Malta'']),
     (continent_asia,
      [''China'', ''CN'', utf8 [1050, 1080, 1090, 1072, 1081], ''People'' @ [byte 39] @ ''s Republic of China'', ''Japan'',
       ''JP'', utf8 [1071, 1087, 1086, 1085, 1080, 1103], ''South Korea'', ''Korea'',
       ''Republic of Korea'', utf8 [1070, 1078, 1085, 1072, 1103, 32, 1050, 1086, 1088, 1077, 1103],
       ''North Korea'', ''Dem. Rep. Korea'', utf8 [1050, 1053, 1044, 1056], ''India'', ''IN'',
       utf8 [1048, 1085, 1076, 1080, 1103], ''Kazakhstan'', ''KZ'',
       utf8 [1050, 1072, 1079, 1072, 1093, 1089, 1090, 1072, 1085], ''Turkey'', ''TR'',
       utf8 [1058, 1091, 1088, 1094, 1080, 1103], ''Uzbekistan'',
       utf8 [1059, 1079, 1073, 1077, 1082, 1080, 1089, 1090, 1072, 1085], ''Kyrgyzstan'',
       utf8 [1050, 1099, 1088, 1075, 1099, 1079, 1089, 1090, 1072, 1085], ''Tajikistan'',
       utf8 [1058, 1072, 1076, 1078, 1080, 1082, 1080, 1089, 1090, 1072, 1085], ''Turkmenistan'',
       utf8 [1058, 1091, 1088, 1082, 1084, 1077, 1085, 1080, 1089, 1090, 1072, 1085], ''Georgia'',
       utf8 [1043, 1088, 1091, 1079, 1080, 1103], ''Armenia'',
       utf8 [1040, 1088, 1084, 1077, 1085, 1080, 1103], ''Azerbaijan'',
       utf8 [1040, 1079, 1077, 1088, 1073, 1072, 1081, 1076, 1078, 1072, 1085], ''Iran'',
       utf8 [1048, 1088, 1072, 1085], ''Iraq'', utf8 [1048, 1088, 1072, 1082], ''Syria'',
       utf8 [1057, 1080, 1088, 1080, 1103], ''Israel'', utf8 [1048, 1079, 1088, 1072, 1080, 1083, 1100],
       ''Lebanon'', utf8 [1051, 1080, 1074, 1072, 1085], ''Jordan'',
       utf8 [1048, 1086, 1088, 1076, 1072, 1085, 1080, 1103], ''Saudi Arabia'',
       utf8 [1057, 1072, 1091, 1076, 1086, 1074, 1089, 1082, 1072, 1103, 32, 1040, 1088, 1072, 1074, 1080, 1103],
       ''United Arab Emirates'', utf8 [1054, 1040, 1069], ''Qatar'', utf8 [1050, 1072, 1090, 1072, 1088],
       ''Kuwait'', utf8 [1050, 1091, 1074, 1077, 1081, 1090], ''Oman'', utf8 [1054, 1084, 1072, 1085],
       ''Yemen'', utf8 [1049, 1077, 1084, 1077, 1085], ''Pakistan'',
       utf8 [1055, 1072, 1082, 1080, 1089, 1090, 1072, 1085], ''Bangladesh'',
       utf8 [1041, 1072, 1085, 1075, 1083, 1072, 1076, 1077, 1096], ''Sri Lanka'',
       utf8 [1064, 1088, 1080, 45, 1051, 1072, 1085, 1082, 1072], ''Nepal'',
       utf8 [1053, 1077, 1087, 1072, 1083], ''Bhutan'', utf8 [1041, 1091, 1090, 1072, 1085],
       ''Afghanistan'', utf8 [1040, 1092, 1075, 1072, 1085, 1080, 1089, 1090, 1072, 1085], ''Mongolia'',
       utf8 [1052, 1086, 1085, 1075, 1086, 1083, 1080, 1103], ''Vietnam'',
       utf8 [1042, 1100, 1077, 1090, 1085, 1072, 1084], ''Cambodia'',
       utf8 [1050, 1072, 1084, 1073, 1086, 1076, 1078, 1072], ''Laos'', utf8 [1051, 1072, 1086, 1089],
       ''Thailand'', utf8 [1058, 1072, 1080, 1083, 1072, 1085, 1076], ''Myanmar'', ''Burma'',
       utf8 [1052, 1100, 1103, 1085, 1084, 1072], ''Malaysia'',
       utf8 [1052, 1072, 1083, 1072, 1081, 1079, 1080, 1103], ''Singapore'', ''SG'',
       utf8 [1057, 1080, 1085, 1075, 1072, 1087, 1091, 1088], ''Indonesia'',
       utf8 [1048, 1085, 1076, 1086, 1085, 1077, 1079, 1080, 1103], ''Philippines'',
       utf8 [1060, 1080, 1083, 1080, 1087, 1087, 1080, 1085, 1099], ''Brunei'',
       utf8 [1041, 1088, 1091, 1085, 1077, 1081], ''Taiwan'',
       utf8 [1058, 1072, 1081, 1074, 1072, 1085, 1100], ''Hong Kong'', ''Macao'', ''Macau'']),
     (continent_africa,
      [''Egypt'', utf8 [1045, 1075, 1080, 1087, 1077, 1090], ''Libya'',
       utf8 [1051, 1080, 1074, 1080, 1103], ''Tunisia'', utf8 [1058, 1091, 1085, 1080, 1089], ''Algeria'',
       utf8 [1040, 1083, 1078, 1080, 1088], ''Morocco'', utf8 [1052, 1072, 1088, 1086, 1082, 1082, 1086],
       ''Sudan'', utf8 [1057, 1091, 1076, 1072, 1085], ''South Sudan'', ''S. Sudan'',
       utf8 [1070, 1078, 1085, 1099, 1081, 32, 1057, 1091, 1076, 1072, 1085], ''Ethiopia'',
       utf8 [1069, 1092, 1080, 1086, 1087, 1080, 1103], ''Kenya'', utf8 [1050, 1077, 1085, 1080, 1103],
       ''Tanzania'', utf8 [1058, 1072, 1085, 1079, 1072, 1085, 1080, 1103], ''Uganda'',
       utf8 [1059, 1075, 1072, 1085, 1076, 1072], ''Nigeria'',
       utf8 [1053, 1080, 1075, 1077, 1088, 1080, 1103], ''Ghana'', utf8 [1043, 1072, 1085, 1072],
       ''Senegal'', utf8 [1057, 1077, 1085, 1077, 1075, 1072, 1083], ''Mali'',
       utf8 [1052, 1072, 1083, 1080], ''Niger'', utf8 [1053, 1080, 1075, 1077, 1088], ''Chad'',
       utf8 [1063, 1072, 1076], ''Mauritania'',
       utf8 [1052, 1072, 1074, 1088, 1080, 1090, 1072, 1085, 1080, 1103], ''Cameroon'',
       utf8 [1050, 1072, 1084, 1077, 1088, 1091, 1085], ''Central African Republic'',
       ''Central African Rep.'', utf8 [1062, 1040, 1056], ''Democratic Republic of the Congo'',
       ''Dem. Rep. Congo'', utf8 [1044, 1056, 32, 1050, 1086, 1085, 1075, 1086], ''Republic of the Congo'',
       ''Congo'', utf8 [1050, 1086, 1085, 1075, 1086], ''South Africa'', utf8 [1070, 1040, 1056],
       ''Angola'', utf8 [1040, 1085, 1075, 1086, 1083, 1072], ''Mozambique'',
       utf8 [1052, 1086, 1079, 1072, 1084, 1073, 1080, 1082], ''Namibia'',
       utf8 [1053, 1072, 1084, 1080, 1073, 1080, 1103], ''Botswana'',
       utf8 [1041, 1086, 1090, 1089, 1074, 1072, 1085, 1072], ''Zambia'',
       utf8 [1047, 1072, 1084, 1073, 1080, 1103], ''Zimbabwe'',
       utf8 [1047, 1080, 1084, 1073, 1072, 1073, 1074, 1077], ''Madagascar'',
       utf8 [1052, 1072, 1076, 1072, 1075, 1072, 1089, 1082, 1072, 1088], ''Rwanda'', ''Burundi'',
       ''Somalia'', ''Djibouti'', ''Eritrea'']),
     (continent_north_america,
      [''United States'', ''USA'', ''US'', utf8 [1057, 1064, 1040], ''United States of America'',
       ''Canada'', ''CA'', utf8 [1050, 1072, 1085, 1072, 1076, 1072], ''Mexico'',
       utf8 [1052, 1077, 1082, 1089, 1080, 1082, 1072], ''Cuba'', utf8 [1050, 1091, 1073, 1072],
       ''Guatemala'', utf8 [1043, 1074, 1072, 1090, 1077, 1084, 1072, 1083, 1072], ''Honduras'',
       utf8 [1043, 1086, 1085, 1076, 1091, 1088, 1072, 1089], ''Nicaragua'',
       utf8 [1053, 1080, 1082, 1072, 1088, 1072, 1075, 1091, 1072], ''Costa Rica'',
       utf8 [1050, 1086, 1089, 1090, 1072, 45, 1056, 1080, 1082, 1072], ''Panama'',
       utf8 [1055, 1072, 1085, 1072, 1084, 1072], ''El Salvador'',
       utf8 [1057, 1072, 1083, 1100, 1074, 1072, 1076, 1086, 1088], ''Greenland'',
       utf8 [1043, 1088, 1077, 1085, 1083, 1072, 1085, 1076, 1080, 1103], ''Jamaica'', ''Haiti'',
       ''Dominican Republic'', ''Puerto Rico'']),
     (continent_south_america,
      [''Brazil'', ''BR'', utf8 [1041, 1088, 1072, 1079, 1080, 1083, 1080, 1103], ''Argentina'',
       utf8 [1040, 1088, 1075, 1077, 1085, 1090, 1080, 1085, 1072], ''Chile'',
       utf8 [1063, 1080, 1083, 1080], ''Peru'', utf8 [1055, 1077, 1088, 1091], ''Bolivia'',
       utf8 [1041, 1086, 1083, 1080, 1074, 1080, 1103], ''Paraguay'',
       utf8 [1055, 1072, 1088, 1072, 1075, 1074, 1072, 1081], ''Uruguay'',
       utf8 [1059, 1088, 1091, 1075, 1074, 1072, 1081], ''Colombia'',
       utf8 [1050, 1086, 1083, 1091, 1084, 1073, 1080, 1103], ''Venezuela'',
       utf8 [1042, 1077, 1085, 1077, 1089, 1091, 1101, 1083, 1072], ''Ecuador'',
       utf8 [1069, 1082, 1074, 1072, 1076, 1086, 1088], ''Guyana'',
       utf8 [1043, 1072, 1081, 1072, 1085, 1072], ''Suriname'',
       utf8 [1057, 1091, 1088, 1080, 1085, 1072, 1084]]),
     (continent_oceania,
      [''Australia'', ''AU'', utf8 [1040, 1074, 1089, 1090, 1088, 1072, 1083, 1080, 1103], ''New Zealand'',
       utf8 [1053, 1086, 1074, 1072, 1103, 32, 1047, 1077, 1083, 1072, 1085, 1076, 1080, 1103],
       ''Papua New Guinea'',
       utf8 [1055, 1072, 1087, 1091, 1072, 32, 8212, 32, 1053, 1086, 1074, 1072, 1103, 32, 1043, 1074, 1080, 1085, 1077, 1103],
       ''Fiji'', ''New Caledonia'', ''Samoa'', ''Tonga''])]"

definition country_center :: "string \<Rightarrow> (f64 \<times> f64) option" where
  "country_center name = map_of country_centers name"

definition country_continent :: "(string \<times> string) list" where
  "country_continent = concat (map (\<lambda>(cont, names). map (\<lambda>c. (c, cont)) names) registered)"

definition continent_of :: "string \<Rightarrow> string" where
  "continent_of land =
     (let c = trim_space land in
      if c = [] \<or> c = continent_unknown \<or> c = ''Unknown'' \<or> c = ''unknown'' \<or> c = neizvestno \<or> c = ''Reserved'' \<or>
        c = ''reserved'' then continent_unknown
      else case map_of country_continent c of Some cont \<Rightarrow> cont | None \<Rightarrow> continent_unknown)"

definition continent_center :: "string \<Rightarrow> (f64 \<times> f64) option" where
  "continent_center name = map_of continent_centers name"

section \<open>Actions\<close>

definition allowed_actions :: "string list" where
  "allowed_actions = [''allow'', ''allowed'', ''accept'', ''accepted'', ''permit'', ''permitted'', ''pass'', ''nat'', ''forward'',
     ''redirect'', ''decrypt'', ''route'', ''proxy'', ''mirror'', ''inspect'', ''close'', ''start'', ''built'', ''teardown'',
     ''trust'', ''monitor'']"

definition blocked_actions :: "string list" where
  "blocked_actions = [''deny'', ''denied'', ''drop'', ''dropped'', ''reject'', ''rejected'', ''block'', ''blocked'', ''reset'',
     ''discard'', ''discarded'']"

definition is_allowed_action :: "string \<Rightarrow> bool" where
  "is_allowed_action a \<longleftrightarrow> to_lower (trim_space a) \<in> set allowed_actions"

definition is_blocked_action :: "string \<Rightarrow> bool" where
  "is_blocked_action a \<longleftrightarrow> to_lower (trim_space a) \<in> set blocked_actions"

definition in_clause :: "string list \<Rightarrow> string" where
  "in_clause xs = join '','' (sort_by (\<le>) (map (\<lambda>k. [byte 39] @ k @ [byte 39]) xs))"

section \<open>Data\<close>

record group_meta =
  mt_key :: string
  mt_label :: string
  mt_lat :: f64
  mt_lon :: f64
  mt_city :: string
  mt_region :: string
  mt_country :: string
  mt_valid :: bool

definition no_meta :: group_meta where
  "no_meta = \<lparr>mt_key = [], mt_label = [], mt_lat = 0, mt_lon = 0, mt_city = [], mt_region = [], mt_country = [], mt_valid = False\<rparr>"

record raw_agg =
  ra_src_ip :: string
  ra_dst_ip :: string
  ra_count :: u64
  ra_blocked :: u64
  ra_allowed :: u64
  ra_action :: string
  ra_rule :: string
  ra_proto :: string
  ra_src_port :: u32
  ra_dst_port :: u32
  ra_device :: string
  ra_src_zone :: string
  ra_dst_zone :: string
  ra_src_country :: string
  ra_dst_country :: string
  ra_src_city :: string
  ra_dst_city :: string
  ra_src_lat :: f64
  ra_src_lon :: f64
  ra_dst_lat :: f64
  ra_dst_lon :: f64
  ra_sent :: u64
  ra_recv :: u64
  ra_packets_sent :: u64
  ra_packets_recv :: u64

record geo_edge_agg =
  ge_src_key :: string
  ge_dst_key :: string
  ge_src_label :: string
  ge_dst_label :: string
  ge_src_lat :: f64
  ge_src_lon :: f64
  ge_dst_lat :: f64
  ge_dst_lon :: f64
  ge_src_city :: string
  ge_dst_city :: string
  ge_src_country :: string
  ge_dst_country :: string
  ge_count :: u64
  ge_blocked :: u64
  ge_allowed :: u64
  ge_action :: string
  ge_rule :: string
  ge_proto :: string
  ge_src_port :: u32
  ge_dst_port :: u32
  ge_device :: string
  ge_src_zone :: string
  ge_dst_zone :: string
  ge_sent :: u64
  ge_recv :: u64
  ge_packets_sent :: u64
  ge_packets_recv :: u64

record map_node =
  nd_key :: string
  nd_label :: string
  nd_lat :: f64
  nd_lon :: f64
  nd_city :: string
  nd_region :: string
  nd_country :: string
  nd_count :: u64
  nd_rep :: "rep_hit list"

record line =
  ln_src :: string
  ln_dst :: string
  ln_src_label :: string
  ln_dst_label :: string
  ln_src_lat :: f64
  ln_src_lon :: f64
  ln_dst_lat :: f64
  ln_dst_lon :: f64
  ln_status :: string
  ln_blocked :: bool
  ln_count :: u64
  ln_allowed_count :: u64
  ln_blocked_count :: u64
  ln_sent :: u64
  ln_recv :: u64
  ln_rule :: string
  ln_proto :: string
  ln_src_port :: u32
  ln_dst_port :: u32
  ln_src_zone :: string
  ln_dst_zone :: string
  ln_src_country :: string
  ln_dst_country :: string
  ln_device :: string
  ln_action :: string
  ln_src_rep :: "rep_hit list"
  ln_dst_rep :: "rep_hit list"

section \<open>The key of an address\<close>

record log_geo_hint =
  hn_lat :: f64
  hn_lon :: f64
  hn_city :: string
  hn_country :: string

definition no_hint :: log_geo_hint where
  "no_hint = \<lparr>hn_lat = 0, hn_lon = 0, hn_city = [], hn_country = []\<rparr>"

abbreviation f64_nz :: "f64 \<Rightarrow> bool" where
  "f64_nz x \<equiv> \<not> f64_eq x 0"

definition continent_group_meta :: "group_meta \<Rightarrow> group_meta" where
  "continent_group_meta m =
     (let c0 = trim_space (mt_country m); land = (if usable_country c0 then c0 else neizvestno);
        label = continent_of land; m1 = m\<lparr>mt_key := label, mt_label := label\<rparr> in
      case continent_center label of
        None \<Rightarrow> m1
      | Some (la, lo) \<Rightarrow> m1\<lparr>mt_lat := la, mt_lon := lo, mt_valid := (label \<noteq> continent_unknown)\<rparr>)"

definition is_collapsed_map_key :: "string \<Rightarrow> bool" where
  "is_collapsed_map_key k \<longleftrightarrow> k = [] \<or> k = ''city:unknown'' \<or> k = neizvestno \<or> k = ''unknown''"

definition promote_unknown_map_key :: "group_meta \<Rightarrow> string \<Rightarrow> group_meta" where
  "promote_unknown_map_key m ip =
     (let c = trim_space (mt_city m) in
      if \<not> is_collapsed_map_key (mt_key m) then m
      else if c \<noteq> [] \<and> c \<noteq> neizvestno then
        m\<lparr>mt_key := (if mt_country m \<noteq> [] \<and> mt_country m \<noteq> neizvestno then c @ '', '' @ mt_country m else c), mt_label := c\<rparr>
      else if mt_country m \<noteq> [] \<and> mt_country m \<noteq> neizvestno then
        m\<lparr>mt_key := (if has_prefix (mt_key m) ''city:'' \<or> mt_key m = ''city:unknown''
            then ''city:country:'' @ mt_country m else mt_country m), mt_label := mt_country m\<rparr>
      else if ip \<noteq> [] then
        m\<lparr>mt_key := ip, mt_label := (if mt_label m = [] \<or> mt_label m = neizvestno \<or> mt_label m = ''unknown'' then ip
            else mt_label m)\<rparr>
      else m)"

definition prefer_country :: "string \<Rightarrow> string \<Rightarrow> string" where
  "prefer_country log_country geo_country =
     (let l = trim_space log_country; g = trim_space geo_country in
      if usable_country g then g
      else if usable_country l then l
      else if \<not> is_unknown_country g then g
      else if \<not> is_unknown_country l then l
      else neizvestno)"

definition apply_log_geo_fallback :: "group_meta \<Rightarrow> log_geo_hint \<Rightarrow> string \<Rightarrow> group_meta" where
  "apply_log_geo_fallback m0 hint ip =
     (let m1 = (if mt_city m0 = [] \<and> trim_space (hn_city hint) \<noteq> [] then m0\<lparr>mt_city := trim_space (hn_city hint)\<rparr> else m0);
        land = prefer_country (hn_country hint) (mt_country m1);
        m = (if usable_country land then m1\<lparr>mt_country := land\<rparr> else m1) in
      if mt_valid m \<and> (f64_nz (mt_lat m) \<or> f64_nz (mt_lon m)) then promote_unknown_map_key m ip
      else if f64_nz (hn_lat hint) \<or> f64_nz (hn_lon hint) then
        promote_unknown_map_key
          (m\<lparr>mt_lat := hn_lat hint, mt_lon := hn_lon hint,
             mt_country := (if usable_country land then land else mt_country m), mt_valid := True\<rparr>) ip
      else case country_center land of
        Some (la, lo) \<Rightarrow>
          promote_unknown_map_key (m\<lparr>mt_lat := la, mt_lon := lo, mt_country := land, mt_valid := True\<rparr>) ip
      | None \<Rightarrow> m)"

text \<open>\<^verbatim>\<open>model.GeoLookup{}\<close>\<close>

definition empty_geo :: geo_lookup where
  "empty_geo = \<lparr>lk_lat = 0, lk_lon = 0, lk_city = [], lk_region = [], lk_country = [], found = False\<rparr>"

definition meta_at :: "string \<Rightarrow> string \<Rightarrow> geo_lookup \<Rightarrow> bool \<Rightarrow> group_meta" where
  "meta_at key label lk valid =
     \<lparr>mt_key = key, mt_label = label, mt_lat = lk_lat lk, mt_lon = lk_lon lk, mt_city = lk_city lk,
      mt_region = lk_region lk, mt_country = lk_country lk, mt_valid = valid\<rparr>"

definition subnet_meta :: "geo_lookup \<Rightarrow> string \<Rightarrow> group_meta" where
  "subnet_meta lk ip =
     (case to4 (parse_ip ip) of
        [a, b, c, d] \<Rightarrow> (let label = dotted [a, b, c, 0] @ ''/24'' in meta_at label label lk (found lk))
      | _ \<Rightarrow> no_meta\<lparr>mt_key := ''unknown'', mt_label := ''unknown'', mt_country := lk_country lk\<rparr>)"

definition city_meta :: "geo_lookup \<Rightarrow> string \<Rightarrow> group_meta" where
  "city_meta lk ip =
     (let town = trim_space (lk_city lk); land = trim_space (lk_country lk) in
      if town \<noteq> [] \<and> found lk then
        meta_at (if lk_country lk \<noteq> [] then town @ '', '' @ lk_country lk else town) town lk True
      else if land = [] \<or> land = neizvestno then
        (if found lk \<and> (f64_nz (lk_lat lk) \<or> f64_nz (lk_lon lk)) then meta_at ip ip lk True
         else meta_at ''city:unknown'' neizvestno lk False)
      else
        let (la, lo, valid) = (case country_center land of
            Some (la, lo) \<Rightarrow> (la, lo, True) | None \<Rightarrow> (lk_lat lk, lk_lon lk, found lk)) in
        \<lparr>mt_key = ''city:country:'' @ land, mt_label = land, mt_lat = la, mt_lon = lo, mt_city = [],
         mt_region = lk_region lk, mt_country = land, mt_valid = valid\<rparr>)"

definition country_meta :: "geo_lookup \<Rightarrow> group_meta" where
  "country_meta lk =
     (let label = (if lk_country lk = [] then neizvestno else lk_country lk) in
      case country_center label of
        Some (la, lo) \<Rightarrow> (meta_at label label lk True)\<lparr>mt_lat := la, mt_lon := lo\<rparr>
      | None \<Rightarrow> meta_at label label lk (found lk))"

text \<open>\<open>g\<close> is the live index; without one the lookup is empty.\<close>

definition ip_group_meta_hinted ::
  "(string \<Rightarrow> geo_lookup) option \<Rightarrow> string \<Rightarrow> string \<Rightarrow> log_geo_hint \<Rightarrow> group_meta" where
  "ip_group_meta_hinted g ip group_by hint =
     (let lk = (case g of Some f \<Rightarrow> f ip | None \<Rightarrow> empty_geo);
        m = (if group_by = ''subnet'' then subnet_meta lk ip
          else if group_by = ''city'' then city_meta lk ip
          else if group_by = ''country'' then country_meta lk
          else if group_by = ''continent'' then
            continent_group_meta (no_meta\<lparr>mt_country := lk_country lk, mt_city := lk_city lk, mt_region := lk_region lk\<rparr>)
          else meta_at ip ip lk (found lk));
        m1 = apply_log_geo_fallback m hint ip in
      if group_by = ''continent'' then continent_group_meta m1 else m1)"

definition ip_group_meta :: "(string \<Rightarrow> geo_lookup) option \<Rightarrow> string \<Rightarrow> string \<Rightarrow> group_meta" where
  "ip_group_meta g ip group_by = ip_group_meta_hinted g ip group_by no_hint"

definition ip_group_meta_hybrid ::
  "(string \<Rightarrow> geo_lookup) option \<Rightarrow> string \<Rightarrow> bool \<Rightarrow> log_geo_hint \<Rightarrow> group_meta" where
  "ip_group_meta_hybrid g ip in_enterprise hint =
     (if \<not> in_enterprise then ip_group_meta_hinted g ip ''country'' hint
      else
        let m = ip_group_meta_hinted g ip ''city'' hint;
          city0 = trim_space (mt_city m); town = (if city0 = [] then trim_space (hn_city hint) else city0) in
        if town = [] \<or> town = neizvestno then ip_group_meta_hinted g ip ''country'' hint
        else
          let country0 = trim_space (mt_country m);
            land = (if country0 = [] \<or> country0 = neizvestno then trim_space (hn_country hint) else country0);
            named = (land \<noteq> [] \<and> land \<noteq> neizvestno);
            m1 = m\<lparr>mt_key := (if named then town @ '', '' @ land else town),
              mt_country := (if named then land else mt_country m), mt_label := town, mt_city := town\<rparr> in
          if \<not> mt_valid m1 \<or> f64_eq (mt_lat m1) 0 \<and> f64_eq (mt_lon m1) 0 then
            (case country_center land of
               Some (la, lo) \<Rightarrow> m1\<lparr>mt_lat := la, mt_lon := lo, mt_valid := True\<rparr> | None \<Rightarrow> m1)
          else m1)"

section \<open>Nodes\<close>

record node_agg =
  na_key :: string
  na_label :: string
  na_city :: string
  na_region :: string
  na_country :: string
  na_lat_sum :: f64
  na_lon_sum :: f64
  na_count :: u64
  na_coord :: u64

definition new_node_agg :: node_agg where
  "new_node_agg = \<lparr>na_key = [], na_label = [], na_city = [], na_region = [], na_country = [], na_lat_sum = 0,
     na_lon_sum = 0, na_count = 0, na_coord = 0\<rparr>"

definition node_add :: "group_meta \<Rightarrow> u64 \<Rightarrow> node_agg \<Rightarrow> node_agg" where
  "node_add m k n0 =
     (let n1 = (if na_count n0 = 0
          then n0\<lparr>na_key := mt_key m, na_label := mt_label m, na_city := mt_city m, na_region := mt_region m,
            na_country := mt_country m\<rparr>
          else n0\<lparr>na_city := (if na_city n0 = [] \<or> na_city n0 = neizvestno then mt_city m else na_city n0),
            na_region := (if na_region n0 = [] then mt_region m else na_region n0),
            na_country := (if na_country n0 = [] \<or> na_country n0 = neizvestno then mt_country m else na_country n0)\<rparr>);
        n2 = (if mt_valid m
          then n1\<lparr>na_lat_sum := f64_add (na_lat_sum n1) (f64_mul (mt_lat m) (f64_of_u64 k)),
            na_lon_sum := f64_add (na_lon_sum n1) (f64_mul (mt_lon m) (f64_of_u64 k)), na_coord := na_coord n1 + k\<rparr>
          else n1) in
      n2\<lparr>na_count := na_count n2 + k\<rparr>)"

definition to_node :: "node_agg \<Rightarrow> map_node" where
  "to_node n =
     (let c = f64_of_u64 (na_coord n);
        (la, lo) = (if 0 < na_coord n then (f64_div (na_lat_sum n) c, f64_div (na_lon_sum n) c) else (0, 0)) in
      \<lparr>nd_key = na_key n, nd_label = na_label n, nd_lat = la, nd_lon = lo, nd_city = na_city n, nd_region = na_region n,
       nd_country = na_country n, nd_count = na_count n, nd_rep = []\<rparr>)"

section \<open>Edges\<close>

record edge_agg =
  ea_src :: string
  ea_dst :: string
  ea_src_label :: string
  ea_dst_label :: string
  ea_src_lat_sum :: f64
  ea_src_lon_sum :: f64
  ea_dst_lat_sum :: f64
  ea_dst_lon_sum :: f64
  ea_weight :: u64
  ea_count :: u64
  ea_allowed :: u64
  ea_blocked :: u64
  ea_sent :: u64
  ea_recv :: u64
  ea_rule :: string
  ea_proto :: string
  ea_device :: string
  ea_action :: string
  ea_src_port :: u32
  ea_dst_port :: u32
  ea_src_zone :: string
  ea_dst_zone :: string
  ea_src_country :: string
  ea_dst_country :: string

definition new_edge_agg :: edge_agg where
  "new_edge_agg = \<lparr>ea_src = [], ea_dst = [], ea_src_label = [], ea_dst_label = [], ea_src_lat_sum = 0, ea_src_lon_sum = 0,
     ea_dst_lat_sum = 0, ea_dst_lon_sum = 0, ea_weight = 0, ea_count = 0, ea_allowed = 0, ea_blocked = 0, ea_sent = 0,
     ea_recv = 0, ea_rule = [], ea_proto = [], ea_device = [], ea_action = [], ea_src_port = 0, ea_dst_port = 0,
     ea_src_zone = [], ea_dst_zone = [], ea_src_country = [], ea_dst_country = []\<rparr>"

definition or_else :: "string \<Rightarrow> string \<Rightarrow> string" where
  "or_else a b = (if a = [] then b else a)"

text \<open>The first part of \<^verbatim>\<open>EdgeAgg.Add\<close>: the texts of the edge.\<close>

definition edge_describe :: "raw_agg \<Rightarrow> group_meta \<Rightarrow> group_meta \<Rightarrow> edge_agg \<Rightarrow> edge_agg" where
  "edge_describe row s d e =
     (if ea_count e = 0
      then e\<lparr>ea_src := mt_key s, ea_dst := mt_key d, ea_src_label := mt_label s, ea_dst_label := mt_label d,
        ea_rule := ra_rule row, ea_proto := ra_proto row, ea_src_port := ra_src_port row, ea_dst_port := ra_dst_port row,
        ea_src_zone := ra_src_zone row, ea_dst_zone := ra_dst_zone row,
        ea_src_country := prefer_country (ra_src_country row) (mt_country s),
        ea_dst_country := prefer_country (ra_dst_country row) (mt_country d), ea_device := ra_device row,
        ea_action := ra_action row\<rparr>
      else e\<lparr>ea_rule := or_else (ea_rule e) (ra_rule row), ea_proto := or_else (ea_proto e) (ra_proto row),
        ea_src_port := (if ea_src_port e = 0 then ra_src_port row else ea_src_port e),
        ea_dst_port := (if ea_dst_port e = 0 then ra_dst_port row else ea_dst_port e),
        ea_src_zone := or_else (ea_src_zone e) (ra_src_zone row), ea_dst_zone := or_else (ea_dst_zone e) (ra_dst_zone row),
        ea_src_country := (if ea_src_country e = [] \<or> ea_src_country e = neizvestno
          then prefer_country (ra_src_country row) (mt_country s) else ea_src_country e),
        ea_dst_country := (if ea_dst_country e = [] \<or> ea_dst_country e = neizvestno
          then prefer_country (ra_dst_country row) (mt_country d) else ea_dst_country e),
        ea_device := or_else (ea_device e) (ra_device row), ea_action := or_else (ea_action e) (ra_action row)\<rparr>)"

definition edge_add :: "raw_agg \<Rightarrow> group_meta \<Rightarrow> group_meta \<Rightarrow> edge_agg \<Rightarrow> edge_agg" where
  "edge_add row s d e0 =
     (let e1 = edge_describe row s d e0;
        e2 = e1\<lparr>ea_count := ea_count e1 + ra_count row, ea_allowed := ea_allowed e1 + ra_allowed row,
          ea_blocked := ea_blocked e1 + ra_blocked row, ea_sent := ea_sent e1 + ra_sent row,
          ea_recv := ea_recv e1 + ra_recv row\<rparr>;
        w = f64_of_u64 (ra_count row) in
      if mt_valid s \<and> mt_valid d then
        e2\<lparr>ea_src_lat_sum := f64_add (ea_src_lat_sum e2) (f64_mul (mt_lat s) w),
          ea_src_lon_sum := f64_add (ea_src_lon_sum e2) (f64_mul (mt_lon s) w),
          ea_dst_lat_sum := f64_add (ea_dst_lat_sum e2) (f64_mul (mt_lat d) w),
          ea_dst_lon_sum := f64_add (ea_dst_lon_sum e2) (f64_mul (mt_lon d) w),
          ea_weight := ea_weight e2 + ra_count row\<rparr>
      else e2)"

definition edge_status :: "edge_agg \<Rightarrow> string" where
  "edge_status e =
     (if 0 < ea_blocked e \<and> ea_allowed e = 0 then ''blocked''
      else if 0 < ea_allowed e \<and> ea_blocked e = 0 then ''allowed''
      else if 0 < ea_blocked e \<and> 0 < ea_allowed e then ''mixed''
      else if is_blocked_action (ea_action e) then ''blocked''
      else if is_allowed_action (ea_action e) then ''allowed''
      else ''unknown'')"

definition line_coords :: "edge_agg \<Rightarrow> f64 \<times> f64 \<times> f64 \<times> f64" where
  "line_coords e =
     (let w = f64_of_u64 (ea_weight e) in
      if 0 < ea_weight e then (f64_div (ea_src_lat_sum e) w, f64_div (ea_src_lon_sum e) w,
        f64_div (ea_dst_lat_sum e) w, f64_div (ea_dst_lon_sum e) w)
      else (0, 0, 0, 0))"

definition make_line :: "edge_agg \<Rightarrow> string \<Rightarrow> u64 \<Rightarrow> u64 \<Rightarrow> u64 \<Rightarrow> u64 \<Rightarrow> u64 \<Rightarrow> line" where
  "make_line e status n allowed blocked sent recv =
     (let (sla, slo, dla, dlo) = line_coords e in
      \<lparr>ln_src = ea_src e, ln_dst = ea_dst e, ln_src_label = ea_src_label e, ln_dst_label = ea_dst_label e,
       ln_src_lat = sla, ln_src_lon = slo, ln_dst_lat = dla, ln_dst_lon = dlo, ln_status = status,
       ln_blocked = (status = ''blocked''), ln_count = n, ln_allowed_count = allowed, ln_blocked_count = blocked,
       ln_sent = sent, ln_recv = recv, ln_rule = ea_rule e, ln_proto = ea_proto e, ln_src_port = ea_src_port e,
       ln_dst_port = ea_dst_port e, ln_src_zone = ea_src_zone e, ln_dst_zone = ea_dst_zone e,
       ln_src_country = ea_src_country e, ln_dst_country = ea_dst_country e, ln_device = ea_device e,
       ln_action = ea_action e, ln_src_rep = [], ln_dst_rep = []\<rparr>)"

definition to_line :: "edge_agg \<Rightarrow> line" where
  "to_line e = make_line e (edge_status e) (ea_count e) (ea_allowed e) (ea_blocked e) (ea_sent e) (ea_recv e)"

definition to_lines :: "edge_agg \<Rightarrow> line list" where
  "to_lines e =
     (if 0 < ea_blocked e \<and> 0 < ea_allowed e then
        let (as, ar, bs, br) =
          (if 0 < ea_count e then
             let as = ea_sent e * ea_allowed e div ea_count e; ar = ea_recv e * ea_allowed e div ea_count e in
             (as, ar, ea_sent e - as, ea_recv e - ar)
           else (ea_sent e, ea_recv e, 0, 0)) in
        [make_line e ''allowed'' (ea_allowed e) (ea_allowed e) 0 as ar,
         make_line e ''blocked'' (ea_blocked e) 0 (ea_blocked e) bs br]
      else [to_line e])"

section \<open>Lines and points\<close>

text \<open>\<^verbatim>\<open>srcMeta.Key + "\<rightarrow>" + dstMeta.Key\<close>: the arrow is three bytes.\<close>

definition edge_key :: "group_meta \<Rightarrow> group_meta \<Rightarrow> string" where
  "edge_key s d = mt_key s @ [byte 226, byte 134, byte 146] @ mt_key d"

definition add_edge ::
  "raw_agg \<Rightarrow> group_meta \<Rightarrow> group_meta \<Rightarrow> (string, edge_agg) go_map \<Rightarrow> (string, edge_agg) go_map" where
  "add_edge row s d m =
     (let k = edge_key s d; e = (case gm_get m k of Some e \<Rightarrow> e | None \<Rightarrow> new_edge_agg) in gm_put k (edge_add row s d e) m)"

text \<open>The lines of the edges with coordinates and the number of the others.\<close>

definition edge_lines :: "(string, edge_agg) go_map \<Rightarrow> line list \<times> nat" where
  "edge_lines m =
     (concat (map (\<lambda>(k, e). if ea_weight e = 0 then [] else to_lines e) m),
      length (filter (\<lambda>(k, e). ea_weight e = 0) m))"

definition active_keys :: "line list \<Rightarrow> string list" where
  "active_keys lns = concat (map (\<lambda>l. [ln_src l, ln_dst l]) lns)"

definition add_node ::
  "string list \<Rightarrow> group_meta \<Rightarrow> u64 \<Rightarrow> (string, node_agg) go_map \<Rightarrow> (string, node_agg) go_map" where
  "add_node active m k ns =
     (if mt_key m \<in> set active
      then let n = (case gm_get ns (mt_key m) of Some n \<Rightarrow> n | None \<Rightarrow> new_node_agg) in gm_put (mt_key m) (node_add m k n) ns
      else ns)"

definition node_points :: "(string, node_agg) go_map \<Rightarrow> (string, map_node) go_map" where
  "node_points ns = map (\<lambda>(k, n). (k, to_node n)) ns"

definition geo_meta_from_edge ::
  "string \<Rightarrow> string \<Rightarrow> string \<Rightarrow> string \<Rightarrow> f64 \<Rightarrow> f64 \<Rightarrow> group_meta" where
  "geo_meta_from_edge key label town land lat0 lon0 =
     (if key = [] \<or> key = ''city:unknown'' \<or> key = neizvestno \<or> key = ''unknown'' then
        no_meta\<lparr>mt_key := key, mt_label := label\<rparr>
      else
        let (lat1, lon1) =
          (case continent_center key of
             Some p \<Rightarrow> if key \<noteq> continent_unknown then p else (lat0, lon0)
           | None \<Rightarrow>
               if has_prefix key ''city:country:'' then
                 (case country_center (drop (length ''city:country:'') key) of
                    Some p \<Rightarrow> p
                  | None \<Rightarrow> (case country_center land of Some p \<Rightarrow> p | None \<Rightarrow> (lat0, lon0)))
               else (lat0, lon0));
          (la, lo, valid) =
            (if f64_nz lat1 \<or> f64_nz lon1 then (lat1, lon1, True)
             else case country_center land of Some (la, lo) \<Rightarrow> (la, lo, True) | None \<Rightarrow> (lat1, lon1, False)) in
        \<lparr>mt_key = key, mt_label = (if label = [] then key else label), mt_lat = la, mt_lon = lo, mt_city = town,
         mt_region = [], mt_country = land, mt_valid = valid\<rparr>)"

definition ge_src_meta :: "geo_edge_agg \<Rightarrow> group_meta" where
  "ge_src_meta r = geo_meta_from_edge (ge_src_key r) (ge_src_label r) (ge_src_city r) (ge_src_country r) (ge_src_lat r) (ge_src_lon r)"

definition ge_dst_meta :: "geo_edge_agg \<Rightarrow> group_meta" where
  "ge_dst_meta r = geo_meta_from_edge (ge_dst_key r) (ge_dst_label r) (ge_dst_city r) (ge_dst_country r) (ge_dst_lat r) (ge_dst_lon r)"

definition ge_row :: "geo_edge_agg \<Rightarrow> raw_agg" where
  "ge_row r = \<lparr>ra_src_ip = [], ra_dst_ip = [], ra_count = ge_count r, ra_blocked = ge_blocked r, ra_allowed = ge_allowed r,
     ra_action = ge_action r, ra_rule = ge_rule r, ra_proto = ge_proto r, ra_src_port = ge_src_port r,
     ra_dst_port = ge_dst_port r, ra_device = ge_device r, ra_src_zone = ge_src_zone r, ra_dst_zone = ge_dst_zone r,
     ra_src_country = ge_src_country r, ra_dst_country = ge_dst_country r, ra_src_city = [], ra_dst_city = [],
     ra_src_lat = 0, ra_src_lon = 0, ra_dst_lat = 0, ra_dst_lon = 0, ra_sent = ge_sent r, ra_recv = ge_recv r,
     ra_packets_sent = ge_packets_sent r, ra_packets_recv = ge_packets_recv r\<rparr>"

definition geo_edges_pass :: "geo_edge_agg list \<Rightarrow> (string, edge_agg) go_map \<times> nat" where
  "geo_edges_pass es =
     fold (\<lambda>r (m, skipped).
       if \<not> mt_valid (ge_src_meta r) \<or> \<not> mt_valid (ge_dst_meta r) then (m, Suc skipped)
       else (add_edge (ge_row r) (ge_src_meta r) (ge_dst_meta r) m, skipped)) es ([], 0)"

definition build_map_from_geo_edges :: "geo_edge_agg list \<Rightarrow> line list \<times> (string, map_node) go_map \<times> nat" where
  "build_map_from_geo_edges es =
     (let (m, sk1) = geo_edges_pass es; (lns, sk2) = edge_lines m; active = active_keys lns;
        ns = fold (\<lambda>r ns. add_node active (ge_dst_meta r) (ge_count r) (add_node active (ge_src_meta r) (ge_count r) ns)) es [] in
      (lns, node_points ns, sk1 + sk2))"

section \<open>The networks of the enterprise\<close>

record enterprise_net =
  en_start :: u32
  en_end :: u32
  en_network :: string
  en_label :: string
  en_country :: string
  en_region :: string
  en_city :: string
  en_created :: go_time

record enterprise_hit =
  eh_city :: string
  eh_country :: string
  eh_region :: string
  eh_network :: string
  eh_label :: string

record enterprise_range =
  er_start :: u32
  er_end :: u32
  er_hit :: enterprise_hit

definition range_le :: "enterprise_range \<Rightarrow> enterprise_range \<Rightarrow> bool" where
  "range_le a b \<longleftrightarrow> (if er_start a = er_start b then er_end a \<le> er_end b else er_start a < er_start b)"

text \<open>\<open>srt\<close> is \<^verbatim>\<open>sort.Slice\<close>.\<close>

definition new_enterprise_index ::
  "(enterprise_range list \<Rightarrow> enterprise_range list) \<Rightarrow> enterprise_net list \<Rightarrow> enterprise_range list" where
  "new_enterprise_index srt nets =
     srt (map (\<lambda>n. \<lparr>er_start = en_start n, er_end = en_end n, er_hit = \<lparr>eh_city = trim_space (en_city n),
         eh_country = trim_space (en_country n), eh_region = trim_space (en_region n), eh_network = en_network n,
         eh_label = en_label n\<rparr>\<rparr>)
       (filter (\<lambda>n. \<not> en_end n < en_start n) nets))"

text \<open>\<^verbatim>\<open>ipToUint32\<close> of the package and the backward scan from the position of \<^verbatim>\<open>sort.Search\<close>.\<close>

definition ent_ip :: "string \<Rightarrow> u32" where
  "ent_ip str =
     (let s = trim_space str in
      if s = [] then 0
      else case to4 (parse_ip s) of [a, b, c, d] \<Rightarrow> be_u32 a b c d | _ \<Rightarrow> 0)"

fun scan_back :: "enterprise_range list \<Rightarrow> u32 \<Rightarrow> nat \<Rightarrow> enterprise_hit option" where
  "scan_back rs ip 0 = None"
| "scan_back rs ip (Suc j) =
     (let r = rs ! j in if er_start r \<le> ip \<and> ip \<le> er_end r then Some (er_hit r) else scan_back rs ip j)"

definition enterprise_lookup :: "enterprise_range list \<Rightarrow> string \<Rightarrow> enterprise_hit option" where
  "enterprise_lookup rs str =
     (if rs = [] then None
      else let ip = ent_ip str in
        if ip = 0 \<and> trim_space str \<noteq> ''0.0.0.0'' then None
        else scan_back rs ip (sort_search (length rs) (\<lambda>i. er_start (rs ! i) > ip)))"

definition enterprise_contains :: "enterprise_range list \<Rightarrow> string \<Rightarrow> bool" where
  "enterprise_contains rs str \<longleftrightarrow> enterprise_lookup rs str \<noteq> None"

section \<open>The store of the networks\<close>

text \<open>
  The table \<^verbatim>\<open>enterprise_nets\<close> keeps every row that was inserted; \<^verbatim>\<open>FINAL\<close> shows the one of the latest version
  for each range (\<^verbatim>\<open>adapter/clickhouse/geostore/enterprise_nets.go\<close>). \<open>ver\<close> is the clock in nanoseconds.
\<close>

record net_row =
  nr_net :: enterprise_net
  nr_ver :: u64
  nr_deleted :: bool

definition same_range :: "enterprise_net \<Rightarrow> enterprise_net \<Rightarrow> bool" where
  "same_range a b \<longleftrightarrow> en_start a = en_start b \<and> en_end a = en_end b"

text \<open>Of two rows of one range with the same version the later one stays.\<close>

fun final_rows :: "net_row list \<Rightarrow> net_row list" where
  "final_rows [] = []"
| "final_rows (r # rs) =
     (if \<exists>x\<in>set rs. same_range (nr_net x) (nr_net r) \<and> nr_ver r \<le> nr_ver x then final_rows rs
      else r # final_rows (filter (\<lambda>x. \<not> same_range (nr_net x) (nr_net r)) rs))"

definition live_nets :: "net_row list \<Rightarrow> enterprise_net list" where
  "live_nets tab = map nr_net (filter (\<lambda>r. \<not> nr_deleted r) (final_rows tab))"

definition max_enterprise_nets :: nat where "max_enterprise_nets = 200"

definition net_le :: "enterprise_net \<Rightarrow> enterprise_net \<Rightarrow> bool" where
  "net_le a b \<longleftrightarrow> (if en_start a = en_start b then en_end a \<le> en_end b else en_start a < en_start b)"

definition list_enterprise_nets :: "net_row list \<Rightarrow> enterprise_net list" where
  "list_enterprise_nets tab = take max_enterprise_nets (sort_by net_le (live_nets tab))"

definition count_enterprise_nets :: "net_row list \<Rightarrow> nat" where
  "count_enterprise_nets tab = length (live_nets tab)"

definition upsert_enterprise_net :: "u64 \<Rightarrow> enterprise_net \<Rightarrow> net_row list \<Rightarrow> net_row list" where
  "upsert_enterprise_net ver n tab = tab @ [\<lparr>nr_net = n, nr_ver = ver, nr_deleted = False\<rparr>]"

definition delete_enterprise_row :: "u64 \<Rightarrow> go_time \<Rightarrow> u32 \<Rightarrow> u32 \<Rightarrow> net_row list \<Rightarrow> net_row list" where
  "delete_enterprise_row ver now start stop tab =
     tab @ [\<lparr>nr_net = \<lparr>en_start = start, en_end = stop, en_network = [], en_label = [], en_country = [], en_region = [],
       en_city = [], en_created = now\<rparr>, nr_ver = ver, nr_deleted = True\<rparr>]"

datatype net_err = Bad_network | Too_many_nets | Bad_range | Net_store_failed

text \<open>\<^verbatim>\<open>AddEnterpriseNet\<close>; \<open>read_ok\<close>, \<open>write_ok\<close>: the queries and the insertion succeed.\<close>

definition add_enterprise_net ::
  "bool \<Rightarrow> bool \<Rightarrow> u64 \<Rightarrow> go_time \<Rightarrow> string \<Rightarrow> string \<Rightarrow> string \<Rightarrow> string \<Rightarrow> string \<Rightarrow> net_row list \<Rightarrow>
   (net_err + enterprise_net) \<times> net_row list" where
  "add_enterprise_net read_ok write_ok ver now network label land area town tab =
     (case parse_network_field network of
        None \<Rightarrow> (Inl Bad_network, tab)
      | Some (start, stop) \<Rightarrow>
          if start > stop then (Inl Bad_network, tab)
          else if \<not> read_ok then (Inl Net_store_failed, tab)
          else
            let n = count_enterprise_nets tab;
              replacing = (\<exists>e\<in>set (list_enterprise_nets tab). en_start e = start \<and> en_end e = stop) in
            if \<not> replacing \<and> n \<ge> max_enterprise_nets then (Inl Too_many_nets, tab)
            else
              let c = trim_space town; r = trim_space area; l = trim_space land; lab = trim_space label;
                lab' = (if lab = [] then trim_space (join '', '' [c, r, l]) else lab);
                net = \<lparr>en_start = start, en_end = stop, en_network = format_network start stop, en_label = lab',
                  en_country = l, en_region = r, en_city = c, en_created = now\<rparr> in
              if write_ok then (Inr net, upsert_enterprise_net ver net tab) else (Inl Net_store_failed, tab))"

definition delete_enterprise_net ::
  "bool \<Rightarrow> u64 \<Rightarrow> go_time \<Rightarrow> u32 \<Rightarrow> u32 \<Rightarrow> net_row list \<Rightarrow> (net_err + unit) \<times> net_row list" where
  "delete_enterprise_net write_ok ver now start stop tab =
     (if start > stop then (Inl Bad_range, tab)
      else if write_ok then (Inr (), delete_enterprise_row ver now start stop tab)
      else (Inl Net_store_failed, tab))"

section \<open>Looking up a network of the enterprise\<close>

lemma range_le_order: "transp range_le" "totalp range_le" "reflp range_le"
  by (auto simp: range_le_def intro!: transpI totalpI reflpI split: if_splits)

interpretation range_sort: slice_sorter range_le "sort_by range_le"
  by (rule slice_sorter_sort_by) (rule range_le_order)+

lemma scan_back_spec:
  "case scan_back rs ip j of
     Some h \<Rightarrow> \<exists>i<j. er_hit (rs ! i) = h \<and> er_start (rs ! i) \<le> ip \<and> ip \<le> er_end (rs ! i) \<and>
       (\<forall>k<j. i < k \<longrightarrow> \<not> (er_start (rs ! k) \<le> ip \<and> ip \<le> er_end (rs ! k)))
   | None \<Rightarrow> \<forall>k<j. \<not> (er_start (rs ! k) \<le> ip \<and> ip \<le> er_end (rs ! k))"
proof (induction j)
  case (Suc j)
  show ?case
  proof (cases "er_start (rs ! j) \<le> ip \<and> ip \<le> er_end (rs ! j)")
    case True
    then show ?thesis by (auto simp: Let_def intro!: exI [of _ j])
  next
    case False
    then have "scan_back rs ip (Suc j) = scan_back rs ip j" by (auto simp: Let_def)
    with Suc False show ?thesis by (auto split: option.splits simp: less_Suc_eq)
  qed
qed simp

definition ent_covers :: "enterprise_range \<Rightarrow> u32 \<Rightarrow> bool" where
  "ent_covers r ip \<longleftrightarrow> er_start r \<le> ip \<and> ip \<le> er_end r"

lemma enterprise_scan:
  assumes "sorted_wrt range_le rs"
  shows "case scan_back rs ip (sort_search (length rs) (\<lambda>i. er_start (rs ! i) > ip)) of
     Some h \<Rightarrow> \<exists>r\<in>set rs. er_hit r = h \<and> ent_covers r ip \<and> (\<forall>r'\<in>set rs. ent_covers r' ip \<longrightarrow> range_le r' r)
   | None \<Rightarrow> \<forall>r\<in>set rs. \<not> ent_covers r ip"
proof -
  define m where "m = sort_search (length rs) (\<lambda>i. er_start (rs ! i) > ip)"
  have mono: "er_start (rs ! a) \<le> er_start (rs ! b)" if "a \<le> b" "b < length rs" for a b
  proof (cases "a = b")
    case False
    then have "range_le (rs ! a) (rs ! b)" using assms that by (simp add: sorted_wrt_iff_nth_less)
    then show ?thesis by (auto simp: range_le_def split: if_splits)
  qed simp
  have m: "m \<le> length rs" "\<And>k. m \<le> k \<Longrightarrow> k < length rs \<Longrightarrow> ip < er_start (rs ! k)"
    using sort_search_spec [of "length rs" "\<lambda>i. er_start (rs ! i) > ip"] mono unfolding m_def
    by (meson order_less_le_trans)+
  have out: "\<not> ent_covers (rs ! k) ip" if "m \<le> k" "k < length rs" for k
    using m(2) [OF that] by (auto simp: ent_covers_def)
  note spec = scan_back_spec [where rs = rs and ip = ip and j = m]
  show ?thesis
  proof (cases "scan_back rs ip m")
    case None
    then have "\<not> ent_covers (rs ! k) ip" if "k < length rs" for k
      using spec out [of k] that by (cases "k < m") (auto simp: ent_covers_def)
    then show ?thesis using None by (auto simp: m_def [symmetric] in_set_conv_nth)
  next
    case (Some h)
    then obtain i where i: "i < m" "er_hit (rs ! i) = h" "ent_covers (rs ! i) ip"
      "\<And>k. k < m \<Longrightarrow> i < k \<Longrightarrow> \<not> ent_covers (rs ! k) ip"
      using spec by (auto simp: ent_covers_def)
    have "range_le (rs ! k) (rs ! i)" if "k < length rs" "ent_covers (rs ! k) ip" for k
    proof -
      have "k < m" using out [of k] that by (meson not_le)
      with i(4) [of k] that have "k \<le> i" by (meson not_le)
      then show ?thesis using assms i(1) m(1) range_le_order(3)
        by (cases "k = i") (auto simp: sorted_wrt_iff_nth_less dest: reflpD)
    qed
    then have "\<forall>r'\<in>set rs. ent_covers r' ip \<longrightarrow> range_le r' (rs ! i)" by (auto simp: in_set_conv_nth)
    moreover have "rs ! i \<in> set rs" using i(1) m(1) by simp
    ultimately show ?thesis using Some i(2,3) by (auto simp: m_def [symmetric])
  qed
qed

definition net_hit :: "enterprise_net \<Rightarrow> enterprise_hit" where
  "net_hit n = \<lparr>eh_city = trim_space (en_city n), eh_country = trim_space (en_country n), eh_region = trim_space (en_region n),
     eh_network = en_network n, eh_label = en_label n\<rparr>"

definition net_covers :: "enterprise_net \<Rightarrow> u32 \<Rightarrow> bool" where
  "net_covers n ip \<longleftrightarrow> en_start n \<le> ip \<and> ip \<le> en_end n"


definition demo_net :: "u32 \<Rightarrow> u32 \<Rightarrow> string \<Rightarrow> enterprise_net" where
  "demo_net a b c = \<lparr>en_start = a, en_end = b, en_network = [], en_label = [], en_country = [], en_region = [], en_city = c,
     en_created = 0\<rparr>"

lemma enterprise_wider_wins:
  "map_option eh_city (enterprise_lookup (new_enterprise_index (sort_by range_le)
     [demo_net 0x0A000000 0x0A00FFFF ''Moscow'', demo_net 0x0A000000 0x0AFFFFFF ''HQ'']) ''10.0.1.5'') = Some ''HQ''"
  by code_simp


section \<open>Splitting a mixed edge\<close>

lemma make_line_fields [simp]:
  "ln_src (make_line e st n a b se re) = ea_src e" "ln_dst (make_line e st n a b se re) = ea_dst e"
  "ln_count (make_line e st n a b se re) = n" "ln_allowed_count (make_line e st n a b se re) = a"
  "ln_blocked_count (make_line e st n a b se re) = b" "ln_sent (make_line e st n a b se re) = se"
  "ln_recv (make_line e st n a b se re) = re" "ln_status (make_line e st n a b se re) = st"
  "ln_blocked (make_line e st n a b se re) = (st = ''blocked'')"
  by (simp_all add: make_line_def split_beta)

lemma to_lines_ends: "l \<in> set (to_lines e) \<Longrightarrow> ln_src l = ea_src e \<and> ln_dst l = ea_dst e"
  by (auto simp: to_lines_def to_line_def Let_def split: if_splits)

lemma to_lines_ne: "to_lines e \<noteq> []"
  by (simp add: to_lines_def Let_def split_beta)

lemma to_lines_mixed:
  assumes "0 < ea_blocked e" "0 < ea_allowed e" "0 < ea_count e"
  shows "to_lines e =
    [make_line e ''allowed'' (ea_allowed e) (ea_allowed e) 0
       (ea_sent e * ea_allowed e div ea_count e) (ea_recv e * ea_allowed e div ea_count e),
     make_line e ''blocked'' (ea_blocked e) 0 (ea_blocked e)
       (ea_sent e - ea_sent e * ea_allowed e div ea_count e) (ea_recv e - ea_recv e * ea_allowed e div ea_count e)]"
  using assms by (simp add: to_lines_def Let_def)

lemma unat_share:
  fixes a b c :: u64
  assumes "unat a * unat b < 2 ^ 64" "unat b \<le> unat c" "0 < c"
  shows "unat (a * b div c) = unat a * unat b div unat c" "unat (a * b div c) \<le> unat a"
proof -
  have m: "unat (a * b) = unat a * unat b"
    using assms(1) by (simp add: unat_word_ariths(2))
  show d: "unat (a * b div c) = unat a * unat b div unat c" by (simp add: unat_div m)
  have "unat a * unat b div unat c \<le> unat a * unat c div unat c" using assms(2) by (intro div_le_mono mult_le_mono2)
  also have "\<dots> = unat a" using assms(3) by (simp add: word_less_nat_alt)
  finally show "unat (a * b div c) \<le> unat a" unfolding d .
qed

text \<open>An edge with allowed and blocked events becomes two lines whose counts are its two counts and whose bytes
  add up to those of the edge; when the product of bytes and allowed events fits in 64 bits, the allowed line gets
  its share of the bytes, rounded down, and the blocked line the rest.\<close>
theorem to_lines_split:
  assumes "0 < ea_blocked e" "0 < ea_allowed e" "ea_count e = ea_allowed e + ea_blocked e"
    "unat (ea_allowed e) + unat (ea_blocked e) < 2 ^ 64" "unat (ea_sent e) * unat (ea_allowed e) < 2 ^ 64"
    "unat (ea_recv e) * unat (ea_allowed e) < 2 ^ 64"
  shows "\<exists>a b. to_lines e = [a, b] \<and> ln_status a = ''allowed'' \<and> ln_status b = ''blocked'' \<and> \<not> ln_blocked a \<and> ln_blocked b \<and>
    ln_count a = ea_allowed e \<and> ln_count b = ea_blocked e \<and>
    unat (ln_sent a) = unat (ea_sent e) * unat (ea_allowed e) div unat (ea_count e) \<and>
    unat (ln_recv a) = unat (ea_recv e) * unat (ea_allowed e) div unat (ea_count e) \<and>
    unat (ln_sent a) + unat (ln_sent b) = unat (ea_sent e) \<and> unat (ln_recv a) + unat (ln_recv b) = unat (ea_recv e)"
proof -
  have c: "unat (ea_count e) = unat (ea_allowed e) + unat (ea_blocked e)"
    using assms(3,4) by (simp add: unat_word_ariths(1))
  then have pos: "0 < ea_count e" using assms(1) by (simp add: word_less_nat_alt)
  have le: "unat (ea_allowed e) \<le> unat (ea_count e)" using c by simp
  note s = unat_share [OF assms(5) le pos] and r = unat_share [OF assms(6) le pos]
  have "unat (ea_sent e - ea_sent e * ea_allowed e div ea_count e) =
      unat (ea_sent e) - unat (ea_sent e * ea_allowed e div ea_count e)"
    "unat (ea_recv e - ea_recv e * ea_allowed e div ea_count e) =
      unat (ea_recv e) - unat (ea_recv e * ea_allowed e div ea_count e)"
    using s(2) r(2) by (simp_all add: unat_sub word_le_nat_alt)
  then show ?thesis
    unfolding to_lines_mixed [OF assms(1,2) pos] using s r by simp
qed

definition demo_edge :: "u64 \<Rightarrow> u64 \<Rightarrow> u64 \<Rightarrow> edge_agg" where
  "demo_edge a b s = new_edge_agg\<lparr>ea_allowed := a, ea_blocked := b, ea_count := a + b, ea_weight := a + b, ea_sent := s\<rparr>"

lemma to_lines_split_witness:
  "\<exists>a b. to_lines (demo_edge 3 1 10) = [a, b] \<and> unat (ln_sent a) = 7 \<and> unat (ln_sent a) + unat (ln_sent b) = 10"
  using to_lines_split [of "demo_edge 3 1 10"] by (auto simp: demo_edge_def new_edge_agg_def)

text \<open>
  Without the bound the product wraps: half of a terabyte-sized edge with 2 to the 24 allowed events is 0 bytes.
\<close>

lemma to_lines_overflow:
  "map ln_sent (to_lines (demo_edge 16777216 16777216 1099511627776)) = [0, 1099511627776]"
  by (simp add: to_lines_mixed demo_edge_def new_edge_agg_def)

section \<open>What the edges count\<close>

lemma gm_sum_put:
  fixes f :: "'v \<Rightarrow> 'n :: ab_group_add"
  assumes "gm_ok m"
  shows "sum_list (map (\<lambda>(k, v). f v) (gm_put k v m)) =
    sum_list (map (\<lambda>(k, v). f v) m) + f v - (case gm_get m k of Some w \<Rightarrow> f w | None \<Rightarrow> 0)"
  using assms
proof (induction m)
  case (Cons x m)
  obtain k' w where x: "x = (k', w)" by fastforce
  show ?case
  proof (cases "k' = k")
    case True
    then show ?thesis using Cons.prems by (simp add: x)
  next
    case False
    then show ?thesis using Cons by (simp add: x gm_ok_def add.assoc)
  qed
qed simp

lemma gm_put_values: "(k', v') \<in> set (gm_put k v m) \<Longrightarrow> v' = v \<or> (k', v') \<in> set m"
  by (induction m) (auto split: if_splits)

text \<open>The rows with valid ends, with their ends.\<close>

type_synonym placed = "raw_agg \<times> group_meta \<times> group_meta"

definition edges_of :: "placed list \<Rightarrow> (string, edge_agg) go_map" where
  "edges_of ts = fold (\<lambda>(r, s, d). add_edge r s d) ts []"

definition placed_ok :: "placed list \<Rightarrow> bool" where
  "placed_ok ts \<longleftrightarrow> (\<forall>(r, s, d)\<in>set ts. mt_valid s \<and> mt_valid d)"

lemma edge_describe_simps [simp]:
  "ea_count (edge_describe r s d e) = ea_count e" "ea_allowed (edge_describe r s d e) = ea_allowed e"
  "ea_blocked (edge_describe r s d e) = ea_blocked e" "ea_weight (edge_describe r s d e) = ea_weight e"
  "ea_src (edge_describe r s d e) = (if ea_count e = 0 then mt_key s else ea_src e)"
  "ea_dst (edge_describe r s d e) = (if ea_count e = 0 then mt_key d else ea_dst e)"
  by (simp_all add: edge_describe_def)

lemma edge_add_simps:
  assumes "mt_valid s" "mt_valid d"
  shows "ea_count (edge_add r s d e) = ea_count e + ra_count r" "ea_allowed (edge_add r s d e) = ea_allowed e + ra_allowed r"
    "ea_blocked (edge_add r s d e) = ea_blocked e + ra_blocked r" "ea_weight (edge_add r s d e) = ea_weight e + ra_count r"
    "ea_src (edge_add r s d e) = (if ea_count e = 0 then mt_key s else ea_src e)"
    "ea_dst (edge_add r s d e) = (if ea_count e = 0 then mt_key d else ea_dst e)"
  using assms by (simp_all add: edge_add_def Let_def)

definition edges_inv :: "placed list \<Rightarrow> (string, edge_agg) go_map \<Rightarrow> bool" where
  "edges_inv ts m \<longleftrightarrow> gm_ok m \<and>
     sum_list (map (\<lambda>(k, e). ea_count e) m) = sum_list (map (\<lambda>(r, s, d). ra_count r) ts) \<and>
     (\<forall>(k, e)\<in>set m. ea_weight e = ea_count e \<and> (\<exists>(r, s, d)\<in>set ts. ea_src e = mt_key s \<and> ea_dst e = mt_key d)) \<and>
     ((\<forall>(r, s, d)\<in>set ts. ra_count r = ra_allowed r + ra_blocked r) \<longrightarrow>
        (\<forall>(k, e)\<in>set m. ea_count e = ea_allowed e + ea_blocked e))"

lemma edges_inv_step:
  assumes inv: "edges_inv ts m" and ok: "mt_valid s" "mt_valid d"
  shows "edges_inv (ts @ [(r, s, d)]) (add_edge r s d m)"
proof -
  let ?k = "edge_key s d"
  define e where "e = (case gm_get m ?k of Some e \<Rightarrow> e | None \<Rightarrow> new_edge_agg)"
  have eq: "add_edge r s d m = gm_put ?k (edge_add r s d e) m" by (simp add: add_edge_def e_def Let_def)
  have gm: "gm_ok m" using inv by (simp add: edges_inv_def)
  have old: "gm_get m ?k = None \<and> e = new_edge_agg \<or> (?k, e) \<in> set m"
    using gm by (auto simp: e_def gm_get_in split: option.splits)
  have sums: "sum_list (map (\<lambda>(k, e). ea_count e) (gm_put ?k (edge_add r s d e) m)) =
      sum_list (map (\<lambda>(k, e). ea_count e) m) + ra_count r"
    by (simp add: gm_sum_put [OF gm] edge_add_simps [OF ok] e_def new_edge_agg_def split: option.splits)
  have new: "ea_weight e = ea_count e \<and> (ea_count e = 0 \<or> (\<exists>(r, s, d)\<in>set ts. ea_src e = mt_key s \<and> ea_dst e = mt_key d)) \<and>
      ((\<forall>(r, s, d)\<in>set ts. ra_count r = ra_allowed r + ra_blocked r) \<longrightarrow> ea_count e = ea_allowed e + ea_blocked e)"
    using old inv by (auto simp: edges_inv_def new_edge_agg_def)
  let ?e = "edge_add r s d e"
  from new have ends: "\<exists>(r, s, d)\<in>set (ts @ [(r, s, d)]). ea_src ?e = mt_key s \<and> ea_dst ?e = mt_key d"
    if "ea_count e \<noteq> 0" using that by (auto simp: edge_add_simps [OF ok])
  have upd: "ea_weight ?e = ea_count ?e \<and>
      (\<exists>(r, s, d)\<in>set (ts @ [(r, s, d)]). ea_src ?e = mt_key s \<and> ea_dst ?e = mt_key d) \<and>
      ((\<forall>(r, s, d)\<in>set (ts @ [(r, s, d)]). ra_count r = ra_allowed r + ra_blocked r) \<longrightarrow>
        ea_count ?e = ea_allowed ?e + ea_blocked ?e)"
  proof (intro conjI impI)
    show "\<exists>(r, s, d)\<in>set (ts @ [(r, s, d)]). ea_src ?e = mt_key s \<and> ea_dst ?e = mt_key d"
      using ends by (cases "ea_count e = 0") (auto simp: edge_add_simps [OF ok])
  qed (use new in \<open>auto simp: edge_add_simps [OF ok]\<close>)
  show ?thesis
    unfolding eq edges_inv_def
    using inv gm sums upd
    by (auto simp: edges_inv_def dest!: gm_put_values)
qed

lemma edges_of_inv: "placed_ok ts \<Longrightarrow> edges_inv ts (edges_of ts)"
proof (induction ts rule: rev_induct)
  case Nil
  then show ?case by (simp add: edges_of_def edges_inv_def)
next
  case (snoc t ts)
  obtain r s d where t: "t = (r, s, d)" by (metis prod_cases3)
  have "edges_inv ts (edges_of ts)" "mt_valid s" "mt_valid d" using snoc by (auto simp: placed_ok_def t)
  then show ?case using edges_inv_step by (auto simp: edges_of_def t)
qed

lemma to_lines_count:
  assumes "ea_count e = ea_allowed e + ea_blocked e"
  shows "sum_list (map ln_count (to_lines e)) = ea_count e"
  using assms by (auto simp: to_lines_def to_line_def Let_def split_beta)

lemma edge_lines_count:
  assumes "\<forall>(k, e)\<in>set m. ea_weight e = ea_count e \<and> ea_count e = ea_allowed e + ea_blocked e"
  shows "sum_list (map ln_count (fst (edge_lines m))) = sum_list (map (\<lambda>(k, e). ea_count e) m)"
  using assms by (induction m) (auto simp: edge_lines_def to_lines_count)

lemma edge_lines_ends:
  "l \<in> set (fst (edge_lines m)) \<Longrightarrow> \<exists>(k, e)\<in>set m. ln_src l = ea_src e \<and> ln_dst l = ea_dst e"
  by (fastforce simp: edge_lines_def split: if_splits dest: to_lines_ends)

section \<open>The networks of the enterprise over time\<close>

lemma same_range_equiv: "same_range a a" "same_range a b \<Longrightarrow> same_range b a" "same_range a b \<Longrightarrow> same_range b c \<Longrightarrow> same_range a c"
  by (simp_all add: same_range_def)

abbreviation row_same :: "net_row \<Rightarrow> net_row \<Rightarrow> bool" where
  "row_same x y \<equiv> same_range (nr_net x) (nr_net y)"

lemma final_rows_filter:
  "final_rows (filter (\<lambda>x. \<not> row_same x r) rs) = filter (\<lambda>x. \<not> row_same x r) (final_rows rs)"
proof (induction "length rs" arbitrary: rs rule: less_induct)
  case less
  show ?case
  proof (cases rs)
    case (Cons x xs)
    have IH: "final_rows (filter (\<lambda>x. \<not> row_same x r) ys) = filter (\<lambda>x. \<not> row_same x r) (final_rows ys)"
      if "length ys \<le> length xs" for ys using less that Cons by simp
    have swap: "filter (\<lambda>y. \<not> row_same y x) (filter (\<lambda>y. \<not> row_same y r) xs) =
        filter (\<lambda>y. \<not> row_same y r) (filter (\<lambda>y. \<not> row_same y x) xs)"
      by (simp add: conj_commute)
    have drop_eq: "filter (\<lambda>y. \<not> row_same y r) (final_rows (filter (\<lambda>y. \<not> row_same y x) xs)) =
        filter (\<lambda>y. \<not> row_same y r) (final_rows xs)" if "row_same x r"
    proof -
      have "(\<lambda>y. \<not> row_same y x) = (\<lambda>y. \<not> row_same y r)" using that same_range_equiv by blast
      then show ?thesis using IH [of xs] by simp
    qed
    have ex: "(\<exists>y\<in>set (filter (\<lambda>y. \<not> row_same y r) xs). row_same y x \<and> nr_ver x \<le> nr_ver y) \<longleftrightarrow>
        (\<exists>y\<in>set xs. row_same y x \<and> nr_ver x \<le> nr_ver y)" if "\<not> row_same x r"
      using that by (auto simp: same_range_def)
    show ?thesis
    proof (cases "row_same x r")
      case True
      then show ?thesis using Cons IH [of xs] drop_eq by simp
    next
      case False
      let ?F = "filter (\<lambda>y. \<not> row_same y r) xs" and ?G = "filter (\<lambda>y. \<not> row_same y x) xs"
      have F: "filter (\<lambda>y. \<not> row_same y r) (x # xs) = x # ?F" using False by simp
      have G: "final_rows (filter (\<lambda>y. \<not> row_same y x) ?F) = filter (\<lambda>y. \<not> row_same y r) (final_rows ?G)"
        unfolding swap by (rule IH) simp
      show ?thesis
      proof (cases "\<exists>y\<in>set xs. row_same y x \<and> nr_ver x \<le> nr_ver y")
        case True
        then have "final_rows (x # ?F) = final_rows ?F" "final_rows (x # xs) = final_rows xs" using ex [OF False] by simp_all
        then show ?thesis unfolding Cons F using IH [of xs] by simp
      next
        case older: False
        then have "final_rows (x # ?F) = x # final_rows (filter (\<lambda>y. \<not> row_same y x) ?F)"
          "final_rows (x # xs) = x # final_rows ?G" using ex [OF False] by (auto simp del: filter_filter)
        then show ?thesis unfolding Cons F using G False by simp
      qed
    qed
  qed simp
qed

lemma final_rows_snoc:
  assumes "\<forall>x\<in>set tab. nr_ver x < nr_ver r"
  shows "final_rows (tab @ [r]) = filter (\<lambda>x. \<not> row_same x r) (final_rows tab) @ [r]"
  using assms
proof (induction "length tab" arbitrary: tab rule: less_induct)
  case less
  show ?case
  proof (cases tab)
    case (Cons x xs)
    have IH: "final_rows (ys @ [r]) = filter (\<lambda>x. \<not> row_same x r) (final_rows ys) @ [r]"
      if "length ys \<le> length xs" "set ys \<subseteq> set xs" for ys
      by (intro less.hyps) (use less.prems that Cons in auto)
    have vx: "nr_ver x \<le> nr_ver r" using less.prems Cons by (auto intro: less_imp_le)
    show ?thesis
    proof (cases "row_same x r")
      case True
      then have rx: "row_same r x" by (rule same_range_equiv)
      have "(\<lambda>y. \<not> row_same y x) = (\<lambda>y. \<not> row_same y r)" using True same_range_equiv by blast
      then have "filter (\<lambda>y. \<not> row_same y r) (final_rows (x # xs)) = filter (\<lambda>y. \<not> row_same y r) (final_rows xs)"
        using True final_rows_filter [of r xs] by simp
      moreover have "final_rows ((x # xs) @ [r]) = final_rows (xs @ [r])" using rx vx by auto
      ultimately show ?thesis using IH [of xs] Cons by simp
    next
      case False
      then have rx: "\<not> row_same r x" using same_range_equiv(2) by blast
      then show ?thesis using False IH [of xs] IH [of "filter (\<lambda>y. \<not> row_same y x) xs"] Cons by auto
    qed
  qed simp
qed

lemma live_nets_snoc:
  assumes "\<forall>x\<in>set tab. nr_ver x < nr_ver r"
  shows "live_nets (tab @ [r]) = filter (\<lambda>n. \<not> same_range n (nr_net r)) (live_nets tab) @ (if nr_deleted r then [] else [nr_net r])"
  by (simp add: live_nets_def final_rows_snoc [OF assms] filter_map comp_def conj_commute)

text \<open>The versions are the clock in nanoseconds, which moves on between two changes.\<close>

inductive nets_step :: "net_row list \<Rightarrow> net_row list \<Rightarrow> bool" where
  add: "add_enterprise_net ro wo ver now network label land area town tab = (x, tab') \<Longrightarrow>
    \<forall>r\<in>set tab. nr_ver r < ver \<Longrightarrow> nets_step tab tab'"
| delete: "delete_enterprise_net wo ver now start stop tab = (x, tab') \<Longrightarrow> \<forall>r\<in>set tab. nr_ver r < ver \<Longrightarrow> nets_step tab tab'"

definition nets_inv :: "net_row list \<Rightarrow> bool" where
  "nets_inv tab \<longleftrightarrow> length (live_nets tab) \<le> max_enterprise_nets \<and> (\<forall>n\<in>set (live_nets tab). en_start n \<le> en_end n) \<and>
     distinct (map (\<lambda>n. (en_start n, en_end n)) (live_nets tab))"

lemma nets_inv_add:
  assumes inv: "nets_inv tab" and ver: "\<forall>r\<in>set tab. nr_ver r < ver" and n: "en_start n \<le> en_end n"
    and room: "(\<exists>e\<in>set (live_nets tab). same_range e n) \<or> length (live_nets tab) < max_enterprise_nets"
  shows "nets_inv (upsert_enterprise_net ver n tab)"
proof -
  let ?live = "filter (\<lambda>m. \<not> same_range m n) (live_nets tab)"
  have live: "live_nets (upsert_enterprise_net ver n tab) = ?live @ [n]"
    unfolding upsert_enterprise_net_def using ver by (subst live_nets_snoc) simp_all
  have "length ?live < max_enterprise_nets"
  proof (cases "\<exists>e\<in>set (live_nets tab). same_range e n")
    case True
    then obtain e where "e \<in> set (live_nets tab)" "same_range e n" by blast
    then have "length ?live < length (live_nets tab)" using length_filter_less [of e "live_nets tab"] by simp
    then show ?thesis using inv by (simp add: nets_inv_def)
  next
    case False
    then show ?thesis using room by (meson le_less_trans length_filter_le)
  qed
  moreover have "distinct (map (\<lambda>n. (en_start n, en_end n)) (?live @ [n]))"
    using inv by (auto simp: nets_inv_def same_range_def intro: distinct_map_filter)
  ultimately show ?thesis using inv n by (auto simp: nets_inv_def live)
qed

lemma nets_inv_delete:
  assumes "nets_inv tab" "\<forall>r\<in>set tab. nr_ver r < ver"
  shows "nets_inv (delete_enterprise_row ver now start stop tab)"
proof -
  have "live_nets (delete_enterprise_row ver now start stop tab) =
      filter (\<lambda>m. \<not> (en_start m = start \<and> en_end m = stop)) (live_nets tab)"
    unfolding delete_enterprise_row_def using assms(2) by (subst live_nets_snoc) (simp_all add: same_range_def)
  then show ?thesis
    using assms(1) by (simp add: nets_inv_def distinct_map_filter) (meson le_trans length_filter_le)
qed

lemma list_subset_live: "set (list_enterprise_nets tab) \<subseteq> set (live_nets tab)"
  using set_take_subset [of max_enterprise_nets "sort_by net_le (live_nets tab)"]
  by (metis list_enterprise_nets_def mset_sort_by set_mset_mset)

lemma add_enterprise_net_Inl: "add_enterprise_net ro wo ver now network label land area town tab = (Inl e, tab') \<Longrightarrow> tab' = tab"
  by (auto simp: add_enterprise_net_def Let_def split: option.splits if_splits)

lemma add_enterprise_net_Inr:
  assumes "add_enterprise_net ro wo ver now network label land area town tab = (Inr n, tab')"
  shows "tab' = upsert_enterprise_net ver n tab" "en_start n \<le> en_end n"
    "(\<exists>e\<in>set (list_enterprise_nets tab). same_range e n) \<or> length (live_nets tab) < max_enterprise_nets"
  using assms
  by (auto simp: add_enterprise_net_def Let_def count_enterprise_nets_def same_range_def not_less not_le
      split: option.splits if_splits) blast+

interpretation nets_sys: invariant_system "\<lambda>tab. tab = []" nets_step nets_inv
proof
  fix tab tab'
  assume inv: "nets_inv tab" and "nets_step tab tab'"
  from this(2) show "nets_inv tab'"
  proof cases
    case (add ro wo ver now network label land area town x)
    show ?thesis
    proof (cases x)
      case (Inl e)
      then show ?thesis using inv add(1) add_enterprise_net_Inl by metis
    next
      case (Inr n)
      note a = add_enterprise_net_Inr [OF add(1) [unfolded Inr]]
      show ?thesis unfolding a(1) by (rule nets_inv_add [OF inv add(2) a(2)]) (use a(3) list_subset_live in blast)
    qed
  next
    case (delete wo ver now start stop x)
    then show ?thesis
      using inv nets_inv_delete [OF inv delete(2)] by (auto simp: delete_enterprise_net_def split: if_splits)
  qed
qed (simp add: nets_inv_def live_nets_def)

text \<open>Under any sequence of additions and deletions the enterprise has at most 200 networks, with distinct and
  proper ranges, so that the listing, which the store cuts at 200, shows all of them.\<close>
theorem enterprise_nets_bounded:
  assumes "nets_step\<^sup>*\<^sup>* [] tab"
  shows "mset (list_enterprise_nets tab) = mset (live_nets tab) \<and> length (live_nets tab) \<le> 200 \<and>
    (\<forall>n\<in>set (live_nets tab). en_start n \<le> en_end n) \<and> distinct (map (\<lambda>n. (en_start n, en_end n)) (live_nets tab))"
proof -
  have inv: "nets_inv tab" using nets_sys.reachable_inv [OF assms] by simp
  have "length (sort_by net_le (live_nets tab)) = length (live_nets tab)" by (metis mset_sort_by size_mset)
  then have "list_enterprise_nets tab = sort_by net_le (live_nets tab)"
    using inv by (simp add: list_enterprise_nets_def nets_inv_def)
  then show ?thesis using inv by (simp add: nets_inv_def max_enterprise_nets_def)
qed

lemma enterprise_nets_bounded_witness:
  "\<exists>tab. nets_step\<^sup>*\<^sup>* [] tab \<and> length (live_nets tab) = 1 \<and> length (list_enterprise_nets tab) = 1"
proof -
  let ?add = "add_enterprise_net True True 1 0 (format_network 1 9) ''HQ'' [] [] [] []"
  have "parse_network_field (format_network 1 9) = Some (1, 9)" by (simp add: parse_network_field_format)
  then obtain n where add: "?add = (Inr n, upsert_enterprise_net 1 n [])"
    by (simp add: add_enterprise_net_def Let_def count_enterprise_nets_def live_nets_def max_enterprise_nets_def)
  let ?tab = "upsert_enterprise_net 1 n []"
  have st: "nets_step\<^sup>*\<^sup>* [] ?tab" by (rule r_into_rtranclp, rule nets_step.add [OF add]) simp
  have one: "length (live_nets ?tab) = 1" by (simp add: upsert_enterprise_net_def live_nets_def)
  have "mset (list_enterprise_nets ?tab) = mset (live_nets ?tab)" using enterprise_nets_bounded [OF st] by blast
  then have "length (list_enterprise_nets ?tab) = 1" using one by (metis size_mset)
  with st one show ?thesis by blast
qed

lemma add_listed:
  assumes "add_enterprise_net ro wo ver now network label land area town tab = (Inr n, tab')" "\<forall>r\<in>set tab. nr_ver r < ver"
  shows "set (live_nets tab') = insert n {m \<in> set (live_nets tab). \<not> same_range m n}"
proof -
  have "tab' = upsert_enterprise_net ver n tab" by (rule add_enterprise_net_Inr [OF assms(1)])
  then show ?thesis unfolding upsert_enterprise_net_def using assms(2) by (simp add: live_nets_snoc)
qed

text \<open>The label of a network without label, city, region and country is not empty.\<close>

lemma empty_label_is_commas: "trim_space (join '', '' [trim_space [], trim_space [], trim_space []]) = '', ,''"
  by code_simp

end
