(* ===== verification/Map_Build.thy ===== *)
theory Map_Build
  imports Map_Agg
begin

text \<open>
  The use case behind the map (\<^verbatim>\<open>usecase/events/get_map.go\<close>, \<^verbatim>\<open>get_series.go\<close>): normalised parameters, the
  choice between edges that are aggregated already and pairs of addresses, reputation on the lines and points,
  the filter by reputation and the limit. The scan of the traffic repository is an argument that may fail
  (\<open>None\<close>); the time range is passed through and left out.
\<close>

section \<open>From pairs of addresses\<close>

text \<open>\<open>ent\<close> is the index of the enterprise, used for \<^verbatim>\<open>city_country\<close> only.\<close>

definition resolve_meta ::
  "(string \<Rightarrow> geo_lookup) option \<Rightarrow> string \<Rightarrow> enterprise_range list \<Rightarrow> string \<Rightarrow> log_geo_hint \<Rightarrow> group_meta" where
  "resolve_meta gi group_by ent ip hint =
     (if group_by = ''city_country'' then
        (case enterprise_lookup ent ip of
           Some hit \<Rightarrow>
             let h1 = (if trim_space (hn_city hint) = [] \<and> eh_city hit \<noteq> [] then hint\<lparr>hn_city := eh_city hit\<rparr> else hint);
               h2 = (if trim_space (hn_country h1) = [] \<and> eh_country hit \<noteq> [] then h1\<lparr>hn_country := eh_country hit\<rparr> else h1) in
             ip_group_meta_hybrid gi ip True h2
         | None \<Rightarrow> ip_group_meta_hybrid gi ip False hint)
      else ip_group_meta_hinted gi ip group_by hint)"

type_synonym meta_cache = "(string, group_meta) go_map"

definition meta_for ::
  "(string \<Rightarrow> log_geo_hint \<Rightarrow> group_meta) \<Rightarrow> string \<Rightarrow> log_geo_hint \<Rightarrow> meta_cache \<Rightarrow> group_meta \<times> meta_cache" where
  "meta_for res ip hint cache =
     (case gm_get cache ip of
        Some m \<Rightarrow>
          if mt_valid m then (m, cache)
          else let m2 = res ip hint in if mt_valid m2 then (m2, gm_put ip m2 cache) else (m, cache)
      | None \<Rightarrow> let m = res ip hint in (m, gm_put ip m cache))"

definition src_hint :: "raw_agg \<Rightarrow> log_geo_hint" where
  "src_hint r = \<lparr>hn_lat = ra_src_lat r, hn_lon = ra_src_lon r, hn_city = ra_src_city r, hn_country = ra_src_country r\<rparr>"

definition dst_hint :: "raw_agg \<Rightarrow> log_geo_hint" where
  "dst_hint r = \<lparr>hn_lat = ra_dst_lat r, hn_lon = ra_dst_lon r, hn_city = ra_dst_city r, hn_country = ra_dst_country r\<rparr>"

type_synonym caches = "meta_cache \<times> meta_cache"

definition metas_for ::
  "(string \<Rightarrow> log_geo_hint \<Rightarrow> group_meta) \<Rightarrow> raw_agg \<Rightarrow> caches \<Rightarrow> group_meta \<times> group_meta \<times> caches" where
  "metas_for res r = (\<lambda>(sc, dc).
     let (s, sc') = meta_for res (ra_src_ip r) (src_hint r) sc; (d, dc') = meta_for res (ra_dst_ip r) (dst_hint r) dc in
     (s, d, sc', dc'))"

definition raw_edge_step ::
  "(string \<Rightarrow> log_geo_hint \<Rightarrow> group_meta) \<Rightarrow> raw_agg \<Rightarrow> (string, edge_agg) go_map \<times> caches \<Rightarrow> (string, edge_agg) go_map \<times> caches" where
  "raw_edge_step res r = (\<lambda>(m, c).
     let (s, d, c') = metas_for res r c in
     (if \<not> mt_valid s \<or> \<not> mt_valid d then m else add_edge r s d m, c'))"

definition raw_node_step ::
  "(string \<Rightarrow> log_geo_hint \<Rightarrow> group_meta) \<Rightarrow> string list \<Rightarrow> raw_agg \<Rightarrow> (string, node_agg) go_map \<times> caches \<Rightarrow>
   (string, node_agg) go_map \<times> caches" where
  "raw_node_step res active r = (\<lambda>(ns, c).
     let (s, d, c') = metas_for res r c in
     (add_node active d (ra_count r) (add_node active s (ra_count r) ns), c'))"

definition build_map_from_ip_raws ::
  "(string \<Rightarrow> geo_lookup) option \<Rightarrow> string \<Rightarrow> enterprise_range list \<Rightarrow> raw_agg list \<Rightarrow> line list \<times> (string, map_node) go_map \<times> nat" where
  "build_map_from_ip_raws gi group_by ent raws =
     (let res = resolve_meta gi group_by ent;
        (m, c) = fold (raw_edge_step res) raws ([], [], []);
        (lns, skipped) = edge_lines m;
        (ns, c') = fold (raw_node_step res (active_keys lns)) raws ([], c) in
      (lns, node_points ns, skipped))"

definition geo_edges_as_ip_raws :: "geo_edge_agg list \<Rightarrow> raw_agg list" where
  "geo_edges_as_ip_raws es = map (\<lambda>e.
     (ge_row e)\<lparr>ra_src_ip := ge_src_key e, ra_dst_ip := ge_dst_key e, ra_src_city := ge_src_city e,
       ra_dst_city := ge_dst_city e, ra_src_lat := ge_src_lat e, ra_src_lon := ge_src_lon e,
       ra_dst_lat := ge_dst_lat e, ra_dst_lon := ge_dst_lon e\<rparr>) es"

section \<open>Reputation\<close>

text \<open>The cache of \<^verbatim>\<open>enrichMapReputation\<close> keeps what \<^verbatim>\<open>Lookup\<close> returned; the index does not change meanwhile.\<close>

definition rep_of :: "(string \<Rightarrow> rep_hit list) \<Rightarrow> string \<Rightarrow> rep_hit list" where
  "rep_of rep ip = (if ip = [] then [] else rep ip)"

definition enrich_map_reputation ::
  "(string \<Rightarrow> rep_hit list) option \<Rightarrow> line list \<Rightarrow> (string, map_node) go_map \<Rightarrow> line list \<times> (string, map_node) go_map" where
  "enrich_map_reputation rep lns pts =
     (case rep of
        None \<Rightarrow> (lns, pts)
      | Some f \<Rightarrow>
          (map (\<lambda>l. l\<lparr>ln_src_rep := rep_of f (ln_src l), ln_dst_rep := rep_of f (ln_dst l)\<rparr>) lns,
           map (\<lambda>(k, n). (k, n\<lparr>nd_rep := rep_of f k\<rparr>)) pts))"

definition facet_add :: "rep_hit \<Rightarrow> (string, string list) go_map \<Rightarrow> (string, string list) go_map" where
  "facet_add h m =
     (if hit_category h = [] then m
      else
        let ls = (case gm_get m (hit_category h) of Some ls \<Rightarrow> ls | None \<Rightarrow> []) in
        gm_put (hit_category h) (if hit_list h \<noteq> [] \<and> hit_list h \<notin> set ls then ls @ [hit_list h] else ls) m)"

definition collect_reputation_facets :: "line list \<Rightarrow> (string, string list) go_map" where
  "collect_reputation_facets lns =
     map (\<lambda>(c, ls). (c, sort_by (\<le>) ls))
       (fold facet_add (concat (map (\<lambda>l. ln_src_rep l @ ln_dst_rep l) lns)) [])"

definition hits_match :: "rep_hit list \<Rightarrow> string list \<Rightarrow> string list \<Rightarrow> bool" where
  "hits_match hits cats lsts \<longleftrightarrow>
     hits \<noteq> [] \<and> (cats = [] \<and> lsts = [] \<or>
       (\<exists>h\<in>set hits. hit_list h \<in> set lsts \<and> hit_list h \<noteq> [] \<or> hit_category h \<in> set cats \<and> hit_category h \<noteq> []))"

definition to_set :: "string list \<Rightarrow> string list" where
  "to_set vs = remdups (filter (\<lambda>v. v \<noteq> []) (map trim_space vs))"

definition filter_lines_by_reputation :: "line list \<Rightarrow> string list \<Rightarrow> string list \<Rightarrow> string \<Rightarrow> line list" where
  "filter_lines_by_reputation lns categories lsts side =
     (let cats = to_set categories; ls = to_set lsts; sd = to_lower (trim_space side) in
      if cats = [] \<and> ls = [] then lns
      else filter (\<lambda>l.
        let s = hits_match (ln_src_rep l) cats ls; d = hits_match (ln_dst_rep l) cats ls in
        if sd = ''src'' then s else if sd = ''dst'' then d else if sd = ''both'' then s \<and> d else s \<or> d) lns)"

definition prune_points :: "(string, map_node) go_map \<Rightarrow> line list \<Rightarrow> (string, map_node) go_map" where
  "prune_points pts lns =
     (let ks = remdups (active_keys lns) in
      concat (map (\<lambda>k. case gm_get pts k of Some n \<Rightarrow> [(k, n)] | None \<Rightarrow> []) ks))"

definition line_before :: "line \<Rightarrow> line \<Rightarrow> bool" where
  "line_before a b \<longleftrightarrow>
     (if ln_count a = ln_count b
      then (if ln_src a = ln_src b then ln_dst a \<le> ln_dst b else ln_src a < ln_src b)
      else ln_count a > ln_count b)"

definition trim_lines_by_count :: "(line list \<Rightarrow> line list) \<Rightarrow> line list \<Rightarrow> int \<Rightarrow> line list" where
  "trim_lines_by_count srt lns limit =
     (if limit \<le> 0 \<or> int (length lns) \<le> limit then lns else take (nat limit) (srt lns))"

section \<open>GetMap\<close>

definition normalize_map_group_by :: "string \<Rightarrow> string" where
  "normalize_map_group_by v =
     (if v \<in> {''ip'', ''subnet'', ''country'', ''city'', ''continent'', ''city_country''} then v else ''city'')"

definition normalize_filter :: "string \<Rightarrow> string" where
  "normalize_filter v = (if v = ''allowed'' \<or> v = ''blocked'' then v else ''all'')"

record map_input =
  mi_limit :: int
  mi_group_by :: string
  mi_filter :: string
  mi_country :: string
  mi_query :: string
  mi_categories :: "string list"
  mi_lists :: "string list"
  mi_side :: string
  mi_source :: string

record map_scan_query =
  mq_group_by :: string
  mq_limit :: int
  mq_filter :: string
  mq_country :: string
  mq_query :: string
  mq_source :: string

record map_scan =
  mp_source :: string
  mp_edges :: "geo_edge_agg list"
  mp_raws :: "raw_agg list"

record map_result =
  mr_lines :: "line list"
  mr_points :: "(string, map_node) go_map"
  mr_raw_pairs :: nat
  mr_skipped :: nat
  mr_source :: string
  mr_group_by :: string
  mr_filter :: string
  mr_country :: string
  mr_query :: string
  mr_facets :: "(string, string list) go_map"

definition map_scan_hard_max :: int where "map_scan_hard_max = 50000"

record map_ports =
  po_scan :: "map_scan_query \<Rightarrow> map_scan option"
  po_geo :: "(string \<Rightarrow> geo_lookup) option"
  po_rep :: "(string \<Rightarrow> rep_hit list) option"
  po_nets :: "enterprise_net list option"
  po_sort_ranges :: "enterprise_range list \<Rightarrow> enterprise_range list"
  po_sort_lines :: "line list \<Rightarrow> line list"

definition load_enterprise_index :: "map_ports \<Rightarrow> enterprise_range list" where
  "load_enterprise_index p =
     (case po_nets p of None \<Rightarrow> [] | Some nets \<Rightarrow> new_enterprise_index (po_sort_ranges p) nets)"

definition rep_active :: "map_input \<Rightarrow> bool" where
  "rep_active i \<longleftrightarrow> normalize_map_group_by (mi_group_by i) = ''ip'' \<and> (mi_categories i \<noteq> [] \<or> mi_lists i \<noteq> [])"

definition map_query :: "map_input \<Rightarrow> map_scan_query" where
  "map_query i =
     (let g = normalize_map_group_by (mi_group_by i) in
      \<lparr>mq_group_by = (if g = ''city_country'' then ''ip'' else g),
       mq_limit = (if rep_active i \<and> mi_limit i < map_scan_hard_max then map_scan_hard_max else mi_limit i),
       mq_filter = normalize_filter (mi_filter i), mq_country = sanitize_map_country (mi_country i),
       mq_query = sanitize_map_query (mi_query i), mq_source = mi_source i\<rparr>)"

text \<open>Lines, points, number of pairs, number of pairs without coordinates and src0.\<close>

definition map_body :: "map_ports \<Rightarrow> string \<Rightarrow> map_scan \<Rightarrow> line list \<times> (string, map_node) go_map \<times> nat \<times> nat \<times> string" where
  "map_body p g sc =
     (if g = ''city_country'' then
        let raws = (if mp_raws sc = [] \<and> mp_edges sc \<noteq> [] then geo_edges_as_ip_raws (mp_edges sc) else mp_raws sc);
          (lns, pts, sk) = build_map_from_ip_raws (po_geo p) g (load_enterprise_index p) raws in
        (lns, pts, length raws, sk, mp_source sc)
      else if mp_edges sc \<noteq> [] then
        let (lns, pts, sk) = build_map_from_geo_edges (mp_edges sc) in (lns, pts, length (mp_edges sc), sk, mp_source sc)
      else if mp_raws sc \<noteq> [] then
        let (lns, pts, sk) = build_map_from_ip_raws (po_geo p) g [] (mp_raws sc) in
        (lns, pts, length (mp_raws sc), sk, mp_source sc)
      else ([], [], 0, 0, ''ip''))"

definition get_map :: "map_ports \<Rightarrow> map_input \<Rightarrow> map_result option" where
  "get_map p i =
     (case po_scan p (map_query i) of
        None \<Rightarrow> None
      | Some sc \<Rightarrow>
          let g = normalize_map_group_by (mi_group_by i); (lns, pts, pairs, sk, src) = map_body p g sc;
            res = \<lparr>mr_lines = lns, mr_points = pts, mr_raw_pairs = pairs, mr_skipped = sk, mr_source = src, mr_group_by = g,
              mr_filter = normalize_filter (mi_filter i), mr_country = sanitize_map_country (mi_country i),
              mr_query = sanitize_map_query (mi_query i), mr_facets = []\<rparr> in
          if g \<noteq> ''ip'' then Some res
          else
            let (lns1, pts1) = enrich_map_reputation (po_rep p) lns pts;
              res1 = res\<lparr>mr_lines := lns1, mr_points := pts1, mr_facets := collect_reputation_facets lns1\<rparr> in
            if \<not> rep_active i then Some res1
            else
              let lns2 = filter_lines_by_reputation lns1 (mi_categories i) (mi_lists i) (mi_side i);
                pts2 = prune_points pts1 lns2 in
              if 0 < mi_limit i \<and> mi_limit i < int (length lns2) then
                let lns3 = trim_lines_by_count (po_sort_lines p) lns2 (mi_limit i) in
                Some (res1\<lparr>mr_lines := lns3, mr_points := prune_points pts2 lns3\<rparr>)
              else Some (res1\<lparr>mr_lines := lns2, mr_points := pts2\<rparr>))"

section \<open>GetSeries\<close>

record series_point =
  sp_t :: go_time
  sp_allowed :: u64
  sp_blocked :: u64
  sp_total :: u64

text \<open>The country, the size of a bucket and the points; \<open>None\<close>: the scan failed.\<close>

definition get_series ::
  "(string \<Rightarrow> string \<Rightarrow> (series_point list \<times> int) option) \<Rightarrow> string \<Rightarrow> string \<Rightarrow> (string \<times> int \<times> series_point list) option" where
  "get_series series_scan country0 src0 =
     (let c = trim_space country0 in
      if c = [] then Some ([], 0, [])
      else case series_scan c src0 of None \<Rightarrow> None | Some (pts, bucket) \<Rightarrow> Some (c, bucket, pts))"

section \<open>The points are the ends of the lines\<close>

lemma dom_add_node:
  "dom (gm_get (add_node active m k ns)) = dom (gm_get ns) \<union> (if mt_key m \<in> set active then {mt_key m} else {})"
  by (auto simp: add_node_def Let_def)

lemma gm_get_node_points: "gm_get (node_points ns) k = map_option to_node (gm_get ns k)"
  by (induction ns) (auto simp: node_points_def)

lemma dom_node_points [simp]: "dom (gm_get (node_points ns)) = dom (gm_get ns)"
  by (simp add: dom_def gm_get_node_points)

lemma active_keys_iff: "k \<in> set (active_keys lns) \<longleftrightarrow> (\<exists>l\<in>set lns. k = ln_src l \<or> k = ln_dst l)"
  by (auto simp: active_keys_def)

text \<open>Every end of a line is an end of a placed row.\<close>

lemma active_placed:
  assumes "placed_ok ts" "k \<in> set (active_keys (fst (edge_lines (edges_of ts))))"
  shows "\<exists>(r, s, d)\<in>set ts. k = mt_key s \<or> k = mt_key d"
proof -
  obtain l where l: "l \<in> set (fst (edge_lines (edges_of ts)))" "k = ln_src l \<or> k = ln_dst l"
    using assms(2) by (auto simp: active_keys_iff)
  obtain q e where e: "(q, e) \<in> set (edges_of ts)" "ln_src l = ea_src e" "ln_dst l = ea_dst e"
    using edge_lines_ends [OF l(1)] by auto
  obtain r s d where "(r, s, d) \<in> set ts" "ea_src e = mt_key s" "ea_dst e = mt_key d"
    using edges_of_inv [OF assms(1)] e(1) by (fastforce simp: edges_inv_def)
  with l(2) e show ?thesis by auto
qed

lemma placed_count:
  assumes "placed_ok ts" "\<forall>(r, s, d)\<in>set ts. ra_count r = ra_allowed r + ra_blocked r"
  shows "sum_list (map ln_count (fst (edge_lines (edges_of ts)))) = sum_list (map (\<lambda>(r, s, d). ra_count r) ts)"
proof -
  have "edges_inv ts (edges_of ts)" by (rule edges_of_inv [OF assms(1)])
  then show ?thesis using edge_lines_count [of "edges_of ts"] assms(2) by (fastforce simp: edges_inv_def)
qed

section \<open>From edges that are aggregated already\<close>

definition located :: "geo_edge_agg \<Rightarrow> bool" where
  "located r \<longleftrightarrow> mt_valid (ge_src_meta r) \<and> mt_valid (ge_dst_meta r)"

definition placed_geo :: "geo_edge_agg list \<Rightarrow> placed list" where
  "placed_geo es = map (\<lambda>r. (ge_row r, ge_src_meta r, ge_dst_meta r)) (filter located es)"

lemma geo_edges_pass_eq:
  "geo_edges_pass es = (edges_of (placed_geo es), length (filter (\<lambda>r. \<not> located r) es))"
  by (induction es rule: rev_induct) (auto simp: geo_edges_pass_def edges_of_def placed_geo_def located_def)

lemma placed_geo_ok: "placed_ok (placed_geo es)"
  by (auto simp: placed_ok_def placed_geo_def located_def)

lemma geo_nodes_dom:
  "dom (gm_get (fold (\<lambda>r ns. add_node active (ge_dst_meta r) (ge_count r) (add_node active (ge_src_meta r) (ge_count r) ns)) es ns)) =
   dom (gm_get ns) \<union> {k \<in> set active. \<exists>r\<in>set es. k = mt_key (ge_src_meta r) \<or> k = mt_key (ge_dst_meta r)}"
  by (induction es arbitrary: ns) (auto simp: dom_add_node)

text \<open>The lines of an edge with allowed and blocked events count nothing else: its events whose action is empty or unknown,
  which the database counts as neither, are in no line.\<close>

lemma mixed_edge_drops_rest:
  assumes "0 < ea_blocked e" "0 < ea_allowed e" "0 < ea_count e"
  shows "sum_list (map ln_count (to_lines e)) = ea_allowed e + ea_blocked e"
  using to_lines_mixed [OF assms] by simp

text \<open>C33: The map built from aggregated edges has exactly the ends of its lines as points; and when every event of each edge counts as
  allowed or as blocked, the counts of the lines add up (in 64 bits) to those of the
  edges whose two ends have coordinates. The condition is not one that the queries ensure: they count events with an
  empty or unknown action as neither, and an edge that has them besides both others loses them
  (\<open>mixed_edge_drops_rest\<close>).\<close>
theorem geo_map_correct:
  assumes "build_map_from_geo_edges es = (lns, pts, skipped)" "\<forall>r\<in>set es. ge_count r = ge_allowed r + ge_blocked r"
  shows "dom (gm_get pts) = set (active_keys lns) \<and>
    sum_list (map ln_count lns) = sum_list (map ge_count (filter (\<lambda>r. mt_valid (ge_src_meta r) \<and> mt_valid (ge_dst_meta r)) es))"
proof -
  let ?ts = "placed_geo es"
  have lns: "lns = fst (edge_lines (edges_of ?ts))"
    and pts0: "pts = node_points (fold (\<lambda>r ns. add_node (active_keys lns) (ge_dst_meta r) (ge_count r)
        (add_node (active_keys lns) (ge_src_meta r) (ge_count r) ns)) es [])"
    using assms(1) by (auto simp: build_map_from_geo_edges_def geo_edges_pass_eq Let_def split_beta)
  have pts: "dom (gm_get pts) = {k \<in> set (active_keys lns). \<exists>r\<in>set es. k = mt_key (ge_src_meta r) \<or> k = mt_key (ge_dst_meta r)}"
    by (simp only: pts0 dom_node_points geo_nodes_dom) simp
  have "\<exists>r\<in>set es. k = mt_key (ge_src_meta r) \<or> k = mt_key (ge_dst_meta r)" if "k \<in> set (active_keys lns)" for k
    using active_placed [OF placed_geo_ok, of k es] that unfolding lns by (auto simp: placed_geo_def)
  moreover have "\<forall>(r, s, d)\<in>set ?ts. ra_count r = ra_allowed r + ra_blocked r"
    using assms(2) by (auto simp: placed_geo_def ge_row_def)
  then have "sum_list (map ln_count lns) = sum_list (map ge_count (filter located es))"
    unfolding lns placed_count [OF placed_geo_ok \<open>\<forall>(r, s, d)\<in>set ?ts. ra_count r = ra_allowed r + ra_blocked r\<close>]
    by (simp add: placed_geo_def comp_def ge_row_def)
  ultimately show ?thesis using pts by (auto simp: located_def [abs_def])
qed

definition demo_geo :: "string \<Rightarrow> string \<Rightarrow> f64 \<Rightarrow> u64 \<Rightarrow> u64 \<Rightarrow> geo_edge_agg" where
  "demo_geo s d la a b = \<lparr>ge_src_key = s, ge_dst_key = d, ge_src_label = s, ge_dst_label = d, ge_src_lat = la, ge_src_lon = la,
     ge_dst_lat = la, ge_dst_lon = la, ge_src_city = [], ge_dst_city = [], ge_src_country = [], ge_dst_country = [],
     ge_count = a + b, ge_blocked = b, ge_allowed = a, ge_action = [], ge_rule = [], ge_proto = [], ge_src_port = 0,
     ge_dst_port = 0, ge_device = [], ge_src_zone = [], ge_dst_zone = [], ge_sent = 0, ge_recv = 0, ge_packets_sent = 0,
     ge_packets_recv = 0\<rparr>"

definition demo_edges :: "geo_edge_agg list" where
  "demo_edges = [demo_geo ''A'' ''B'' 0x4024000000000000 3 1, demo_geo ''unknown'' ''A'' 0x4024000000000000 5 0,
     demo_geo ''B'' ''C'' 0x4024000000000000 2 0]"

lemma utf8_long: "length rs \<le> length (utf8 rs)"
proof (induction rs)
  case (Cons r rs)
  have "1 \<le> length (encode_rune r)" by (simp add: encode_rune_def Let_def)
  with Cons show ?case by (simp add: utf8_def)
qed (simp add: utf8_def)

lemma demo_placed:
  assumes "key \<in> {''A'', ''B'', ''C''}"
  shows "mt_valid (geo_meta_from_edge key label town land 0x4024000000000000 0x4024000000000000)"
proof -
  have u: "s = utf8 rs \<Longrightarrow> 1 < length rs \<Longrightarrow> 1 < length s" for s rs using utf8_long [of rs] by simp
  have "list_all (\<lambda>x. 1 < length x) [continent_europe, continent_asia, continent_africa, continent_north_america,
      continent_south_america, continent_oceania]"
    by (simp add: u [OF continent_europe_def, simplified] u [OF continent_asia_def, simplified] u [OF continent_africa_def, simplified] u [OF continent_north_america_def, simplified]
        u [OF continent_south_america_def, simplified] u [OF continent_oceania_def, simplified])
  moreover have "1 < length neizvestno" "continent_unknown = neizvestno" by (simp_all add: neizvestno_def continent_unknown_def)
  moreover have "length key = 1" "\<not> has_prefix key ''city:country:''" using assms by (auto simp: has_prefix_def)
  ultimately have "continent_center key = None \<and> \<not> has_prefix key ''city:country:'' \<and> key \<noteq> neizvestno"
    by (auto simp: continent_center_def continent_centers_def)
  moreover have "\<not> f64_eq 0x4024000000000000 0" by (simp add: f64_eq_def f64_key_def f64_nan_def)
  ultimately show ?thesis using assms by (auto simp: geo_meta_from_edge_def Let_def)
qed

lemma demo_located:
  "map (\<lambda>r. mt_valid (ge_src_meta r) \<and> mt_valid (ge_dst_meta r)) demo_edges = [True, False, True]"
  by (simp add: demo_edges_def ge_src_meta_def ge_dst_meta_def demo_geo_def demo_placed)
    (simp add: geo_meta_from_edge_def no_meta_def)

lemma geo_map_correct_witness:
  "\<exists>lns pts skipped. build_map_from_geo_edges demo_edges = (lns, pts, skipped) \<and> lns \<noteq> [] \<and>
     dom (gm_get pts) = set (active_keys lns) \<and> sum_list (map ln_count lns) = 6"
proof -
  obtain lns pts skipped where b: "build_map_from_geo_edges demo_edges = (lns, pts, skipped)" by (metis prod_cases3)
  have "filter (\<lambda>r. mt_valid (ge_src_meta r) \<and> mt_valid (ge_dst_meta r)) demo_edges =
      [demo_geo ''A'' ''B'' 0x4024000000000000 3 1, demo_geo ''B'' ''C'' 0x4024000000000000 2 0]"
    using demo_located by (simp add: demo_edges_def)
  moreover have "\<forall>r\<in>set demo_edges. ge_count r = ge_allowed r + ge_blocked r" by (simp add: demo_edges_def demo_geo_def)
  ultimately have g: "dom (gm_get pts) = set (active_keys lns)" "sum_list (map ln_count lns) = 6"
    using geo_map_correct [OF b] by (simp_all add: demo_geo_def)
  then have "lns \<noteq> []" by auto
  with b g show ?thesis by blast
qed

section \<open>From pairs of addresses\<close>

lemma meta_for_cache:
  assumes "meta_for res ip h c = (m, c')"
  shows "mt_valid m \<Longrightarrow> gm_get c' ip = Some m" "gm_get c i = Some v \<Longrightarrow> mt_valid v \<Longrightarrow> gm_get c' i = Some v"
  using assms by (auto simp: meta_for_def Let_def split: option.splits if_splits)

lemma meta_for_known: "gm_get c ip = Some m \<Longrightarrow> mt_valid m \<Longrightarrow> meta_for res ip h c = (m, c)"
  by (simp add: meta_for_def)

definition knows :: "caches \<Rightarrow> placed \<Rightarrow> bool" where
  "knows c = (\<lambda>(r, s, d). mt_valid s \<and> mt_valid d \<and> gm_get (fst c) (ra_src_ip r) = Some s \<and> gm_get (snd c) (ra_dst_ip r) = Some d)"

lemma metas_forE:
  assumes "metas_for res r c = (s, d, c')"
  obtains "meta_for res (ra_src_ip r) (src_hint r) (fst c) = (s, fst c')" "meta_for res (ra_dst_ip r) (dst_hint r) (snd c) = (d, snd c')"
  using assms by (cases c) (auto simp: metas_for_def split: prod.splits)

lemma metas_for_knows:
  assumes "metas_for res r c = (s, d, c')"
  shows "mt_valid s \<Longrightarrow> mt_valid d \<Longrightarrow> knows c' (r, s, d)" "knows c t \<Longrightarrow> knows c' t"
    "knows c (r, s', d') \<Longrightarrow> s = s' \<and> d = d'"
proof -
  have m: "meta_for res (ra_src_ip r) (src_hint r) (fst c) = (s, fst c')" "meta_for res (ra_dst_ip r) (dst_hint r) (snd c) = (d, snd c')"
    using metas_forE [OF assms] by blast+
  note s = meta_for_cache [OF m(1)] and d = meta_for_cache [OF m(2)]
  show "mt_valid s \<Longrightarrow> mt_valid d \<Longrightarrow> knows c' (r, s, d)" using s(1) d(1) by (simp add: knows_def)
  show "knows c t \<Longrightarrow> knows c' t" using s(2) d(2) by (auto simp: knows_def)
  show "s = s' \<and> d = d'" if "knows c (r, s', d')"
    using m that meta_for_known [of "fst c" "ra_src_ip r" s'] meta_for_known [of "snd c" "ra_dst_ip r" d']
    by (simp add: knows_def)
qed

text \<open>The rows that the first pass places.\<close>

fun placed_raws :: "(string \<Rightarrow> log_geo_hint \<Rightarrow> group_meta) \<Rightarrow> raw_agg list \<Rightarrow> caches \<Rightarrow> placed list \<times> caches" where
  "placed_raws res [] c = ([], c)"
| "placed_raws res (r # rs) c =
     (let (s, d, c1) = metas_for res r c; (ts, c2) = placed_raws res rs c1 in
      (if mt_valid s \<and> mt_valid d then (r, s, d) # ts else ts, c2))"

lemma raw_edges_eq:
  "fold (raw_edge_step res) rs (edges_of ts, c) = (edges_of (ts @ fst (placed_raws res rs c)), snd (placed_raws res rs c))"
proof (induction rs arbitrary: ts c)
  case (Cons r rs)
  obtain s d c1 where m: "metas_for res r c = (s, d, c1)" by (metis prod_cases3)
  have step: "add_edge r s d (edges_of ts) = edges_of (ts @ [(r, s, d)])" by (simp add: edges_of_def)
  show ?case
    using Cons [of ts c1] Cons [of "ts @ [(r, s, d)]" c1]
    by (simp add: raw_edge_step_def m Let_def split_beta step)
qed simp

lemma placed_raws_knows:
  "(knows c t \<longrightarrow> knows (snd (placed_raws res rs c)) t) \<and>
   (\<forall>t\<in>set (fst (placed_raws res rs c)). knows (snd (placed_raws res rs c)) t \<and> fst t \<in> set rs)"
proof (induction rs arbitrary: c t)
  case (Cons r rs)
  obtain s d c1 where m: "metas_for res r c = (s, d, c1)" by (metis prod_cases3)
  note k = metas_for_knows [OF m]
  have "knows (snd (placed_raws res rs c1)) (r, s, d)" if "mt_valid s" "mt_valid d"
    using Cons [of c1 "(r, s, d)"] k(1) that by blast
  moreover have "knows (snd (placed_raws res rs c1)) t" if "knows c t"
    using Cons [of c1 t] k(2) that by blast
  ultimately show ?case using Cons [of c1 t] by (auto simp: m Let_def split_beta)
qed simp

lemma placed_raws_ok: "placed_ok (fst (placed_raws res rs c))"
  using placed_raws_knows [of c _ res rs] by (fastforce simp: placed_ok_def knows_def)

definition nodes_after :: "(string \<Rightarrow> log_geo_hint \<Rightarrow> group_meta) \<Rightarrow> string list \<Rightarrow> raw_agg list \<Rightarrow>
    (string, node_agg) go_map \<Rightarrow> caches \<Rightarrow> string set" where
  "nodes_after res active rs ns c = dom (gm_get (fst (fold (raw_node_step res active) rs (ns, c))))"

lemma nodes_after_Cons:
  assumes "metas_for res r c = (s, d, c1)"
  obtains ns' where "nodes_after res active (r # rs) ns c = nodes_after res active rs ns' c1"
    "dom (gm_get ns') = dom (gm_get ns) \<union> ({mt_key s, mt_key d} \<inter> set active)"
proof (rule that)
  let ?ns = "add_node active d (ra_count r) (add_node active s (ra_count r) ns)"
  show "nodes_after res active (r # rs) ns c = nodes_after res active rs ?ns c1"
    by (simp add: nodes_after_def raw_node_step_def assms)
  show "dom (gm_get ?ns) = dom (gm_get ns) \<union> ({mt_key s, mt_key d} \<inter> set active)" by (auto simp: dom_add_node split: if_splits)
qed

lemma nodes_after_between:
  "dom (gm_get ns) \<subseteq> nodes_after res active rs ns c \<and> nodes_after res active rs ns c \<subseteq> dom (gm_get ns) \<union> set active"
proof (induction rs arbitrary: ns c)
  case (Cons r rs)
  obtain s d c1 where m: "metas_for res r c = (s, d, c1)" by (metis prod_cases3)
  show ?case
  proof (rule nodes_after_Cons [OF m, of active rs ns])
    fix ns'
    assume "nodes_after res active (r # rs) ns c = nodes_after res active rs ns' c1"
      "dom (gm_get ns') = dom (gm_get ns) \<union> ({mt_key s, mt_key d} \<inter> set active)"
    with Cons [of ns' c1] show ?case by blast
  qed
qed (simp add: nodes_after_def)

lemma nodes_after_known:
  assumes "knows c (r, s, d)" "r \<in> set rs"
  shows "{mt_key s, mt_key d} \<inter> set active \<subseteq> nodes_after res active rs ns c"
  using assms
proof (induction rs arbitrary: ns c)
  case (Cons q rs)
  obtain s1 d1 c1 where m: "metas_for res q c = (s1, d1, c1)" by (metis prod_cases3)
  note k = metas_for_knows [OF m]
  show ?case
  proof (rule nodes_after_Cons [OF m, of active rs ns])
    fix ns'
    assume n: "nodes_after res active (q # rs) ns c = nodes_after res active rs ns' c1"
      "dom (gm_get ns') = dom (gm_get ns) \<union> ({mt_key s1, mt_key d1} \<inter> set active)"
    show ?case
    proof (cases "q = r")
      case True
      then have "s1 = s" "d1 = d" using k(3) Cons.prems(1) by blast+
      then show ?thesis using n nodes_after_between [of ns' res active rs c1] by blast
    next
      case False
      then show ?thesis using Cons.IH [OF k(2) [OF Cons.prems(1)]] Cons.prems(2) n(1) by simp
    qed
  qed
qed simp

lemma raw_nodes_dom:
  assumes "\<And>t. t \<in> set ts \<Longrightarrow> knows c t \<and> fst t \<in> set rs"
  shows "{k \<in> set active. \<exists>(r, s, d)\<in>set ts. k = mt_key s \<or> k = mt_key d} \<subseteq> nodes_after res active rs [] c \<and>
    nodes_after res active rs [] c \<subseteq> set active"
proof
  have "{mt_key s, mt_key d} \<inter> set active \<subseteq> nodes_after res active rs [] c" if "(r, s, d) \<in> set ts" for r s d
    using nodes_after_known [of c r s d rs] assms [OF that] by auto
  then show "{k \<in> set active. \<exists>(r, s, d)\<in>set ts. k = mt_key s \<or> k = mt_key d} \<subseteq> nodes_after res active rs [] c" by blast
  show "nodes_after res active rs [] c \<subseteq> set active" using nodes_after_between [of "[]" res active rs c] by simp
qed

lemma raw_map_ends:
  assumes "build_map_from_ip_raws gi g ent raws = (lns, pts, skipped)"
  shows "dom (gm_get pts) = set (active_keys lns)"
proof -
  let ?res = "resolve_meta gi g ent" and ?pl = "placed_raws (resolve_meta gi g ent) raws ([], [])"
  have pass: "fold (raw_edge_step ?res) raws ([], [], []) = (edges_of (fst ?pl), snd ?pl)"
    using raw_edges_eq [of ?res raws "[]" "([], [])"] by (simp add: edges_of_def)
  have lns: "lns = fst (edge_lines (edges_of (fst ?pl)))"
    and pts0: "pts = node_points (fst (fold (raw_node_step ?res (active_keys lns)) raws ([], snd ?pl)))"
    using assms by (auto simp: build_map_from_ip_raws_def pass Let_def split_beta)
  have pts: "dom (gm_get pts) = nodes_after ?res (active_keys lns) raws [] (snd ?pl)"
    by (simp only: pts0 dom_node_points nodes_after_def)
  have act: "\<exists>(r, s, d)\<in>set (fst ?pl). k = mt_key s \<or> k = mt_key d" if "k \<in> set (active_keys lns)" for k
    using active_placed [OF placed_raws_ok] that unfolding lns .
  have "\<And>t. t \<in> set (fst ?pl) \<Longrightarrow> knows (snd ?pl) t \<and> fst t \<in> set raws" using placed_raws_knows by blast
  from raw_nodes_dom [where ts = "fst ?pl" and active = "active_keys lns" and res = ?res, OF this] act show ?thesis unfolding pts by auto
qed

section \<open>The whole map\<close>

lemma map_body_ends:
  assumes "map_body p g sc = (lns, pts, n, sk, src)"
  shows "dom (gm_get pts) = set (active_keys lns)"
proof -
  have geo: "dom (gm_get pts) = set (active_keys lns)" if "build_map_from_geo_edges es = (lns, pts, k)" for lns pts es k
  proof -
    let ?ts = "placed_geo es"
    have lns: "lns = fst (edge_lines (edges_of ?ts))"
      and pts0: "pts = node_points (fold (\<lambda>r ns. add_node (active_keys lns) (ge_dst_meta r) (ge_count r)
        (add_node (active_keys lns) (ge_src_meta r) (ge_count r) ns)) es [])"
      using that by (auto simp: build_map_from_geo_edges_def geo_edges_pass_eq Let_def split_beta)
    have "\<exists>r\<in>set es. k = mt_key (ge_src_meta r) \<or> k = mt_key (ge_dst_meta r)" if "k \<in> set (active_keys lns)" for k
      using active_placed [OF placed_geo_ok, of k es] that unfolding lns by (auto simp: placed_geo_def)
    then show ?thesis by (simp only: pts0 dom_node_points geo_nodes_dom) auto
  qed
  show ?thesis
    using assms geo raw_map_ends
    by (auto simp: map_body_def Let_def active_keys_def split: if_splits prod.splits)
qed

lemma active_keys_map:
  assumes "\<And>l. ln_src (f l) = ln_src l \<and> ln_dst (f l) = ln_dst l"
  shows "active_keys (map f lns) = active_keys lns"
  by (simp add: active_keys_def assms comp_def)

lemma enrich_ends:
  assumes "enrich_map_reputation rep lns pts = (lns', pts')"
  shows "active_keys lns' = active_keys lns" "dom (gm_get pts') = dom (gm_get pts)"
proof -
  have "gm_get (map (\<lambda>(k, n). (k, n\<lparr>nd_rep := f k\<rparr>)) pts) i = map_option (\<lambda>n. n\<lparr>nd_rep := f i\<rparr>) (gm_get pts i)" for f i
    by (induction pts) auto
  then show "active_keys lns' = active_keys lns" "dom (gm_get pts') = dom (gm_get pts)"
    using assms by (auto simp: enrich_map_reputation_def active_keys_map dom_def split: option.splits)
qed

lemma prune_points_get:
  "gm_get (prune_points pts lns) k = (if k \<in> set (active_keys lns) then gm_get pts k else None)"
proof -
  have "gm_get (concat (map (\<lambda>k. case gm_get pts k of Some n \<Rightarrow> [(k, n)] | None \<Rightarrow> []) ks)) k =
      (if k \<in> set ks then gm_get pts k else None)" for ks
    by (induction ks) (auto split: option.splits simp: map_add_def)
  then show ?thesis by (simp add: prune_points_def Let_def)
qed

lemma prune_points_dom:
  assumes "set lns \<subseteq> set lns'" "dom (gm_get pts) = set (active_keys lns')"
  shows "dom (gm_get (prune_points pts lns)) = set (active_keys lns)"
proof -
  have "set (active_keys lns) \<subseteq> set (active_keys lns')" using assms(1) by (auto simp: active_keys_def)
  with assms(2) show ?thesis by (auto simp: prune_points_get dom_def split: if_splits)
qed

lemma trim_lines_subset:
  assumes "slice_sorter line_before srt"
  shows "set (trim_lines_by_count srt lns n) \<subseteq> set lns" "0 < n \<Longrightarrow> int (length (trim_lines_by_count srt lns n)) \<le> n"
  using set_take_subset [of "nat n" "srt lns"] slice_sorter.srt_set [OF assms, of lns]
  by (auto simp: trim_lines_by_count_def)

text \<open>What the filter by reputation asks of a line.\<close>

definition rep_wanted :: "map_input \<Rightarrow> line \<Rightarrow> bool" where
  "rep_wanted i l \<longleftrightarrow>
     (let cats = to_set (mi_categories i); ls = to_set (mi_lists i); side = to_lower (trim_space (mi_side i));
        s = hits_match (ln_src_rep l) cats ls; d = hits_match (ln_dst_rep l) cats ls in
      cats = [] \<and> ls = [] \<or>
      (if side = ''src'' then s else if side = ''dst'' then d else if side = ''both'' then s \<and> d else s \<or> d))"

lemma filter_lines_wanted:
  "filter_lines_by_reputation lns (mi_categories i) (mi_lists i) (mi_side i) = filter (rep_wanted i) lns"
  by (auto simp: filter_lines_by_reputation_def rep_wanted_def Let_def intro: filter_cong)

lemma get_map_ends:
  assumes "get_map p i = Some r" "slice_sorter line_before (po_sort_lines p)"
  shows "dom (gm_get (mr_points r)) = set (active_keys (mr_lines r)) \<and>
    (rep_active i \<longrightarrow> (\<forall>l\<in>set (mr_lines r). rep_wanted i l) \<and> (0 < mi_limit i \<longrightarrow> int (length (mr_lines r)) \<le> mi_limit i))"
proof -
  obtain sc where sc: "po_scan p (map_query i) = Some sc" using assms(1) by (auto simp: get_map_def split: option.splits)
  let ?g = "normalize_map_group_by (mi_group_by i)"
  obtain lns pts n sk src where body: "map_body p ?g sc = (lns, pts, n, sk, src)" by (metis prod_cases5)
  obtain lns1 pts1 where en: "enrich_map_reputation (po_rep p) lns pts = (lns1, pts1)" by fastforce
  have e1: "dom (gm_get pts1) = set (active_keys lns1)" using map_body_ends [OF body] enrich_ends [OF en] by simp
  let ?lns2 = "filter (rep_wanted i) lns1"
  have e2: "dom (gm_get (prune_points pts1 ?lns2)) = set (active_keys ?lns2)" by (rule prune_points_dom [OF _ e1]) auto
  note trim = trim_lines_subset [OF assms(2), where lns = ?lns2 and n = "mi_limit i"]
  have e3: "dom (gm_get (prune_points (prune_points pts1 ?lns2) (trim_lines_by_count (po_sort_lines p) ?lns2 (mi_limit i)))) =
      set (active_keys (trim_lines_by_count (po_sort_lines p) ?lns2 (mi_limit i)))"
    by (rule prune_points_dom [OF trim(1) e2])
  have wanted: "\<forall>l\<in>set (trim_lines_by_count (po_sort_lines p) ?lns2 (mi_limit i)). rep_wanted i l" using trim(1) by auto
  consider (other) "?g \<noteq> ''ip''" | (plain) "?g = ''ip''" "\<not> rep_active i" | (rep) "?g = ''ip''" "rep_active i" by blast
  then show ?thesis
  proof cases
    case other
    then have "r = \<lparr>mr_lines = lns, mr_points = pts, mr_raw_pairs = n, mr_skipped = sk, mr_source = src, mr_group_by = ?g,
        mr_filter = normalize_filter (mi_filter i), mr_country = sanitize_map_country (mi_country i),
        mr_query = sanitize_map_query (mi_query i), mr_facets = []\<rparr>"
      using assms(1) by (simp add: get_map_def sc body Let_def)
    then show ?thesis using other map_body_ends [OF body] by (simp add: rep_active_def)
  next
    case plain
    then have "r = \<lparr>mr_lines = lns1, mr_points = pts1, mr_raw_pairs = n, mr_skipped = sk, mr_source = src, mr_group_by = ?g,
        mr_filter = normalize_filter (mi_filter i), mr_country = sanitize_map_country (mi_country i),
        mr_query = sanitize_map_query (mi_query i), mr_facets = collect_reputation_facets lns1\<rparr>"
      using assms(1) body by (simp add: get_map_def sc en Let_def)
    then show ?thesis using plain e1 by simp
  next
    case rep
    let ?lns3 = "trim_lines_by_count (po_sort_lines p) ?lns2 (mi_limit i)" and ?pts2 = "prune_points pts1 ?lns2"
    note b = body [unfolded rep(1)]
    show ?thesis
    proof (cases "0 < mi_limit i \<and> mi_limit i < int (length ?lns2)")
      case True
      have "get_map p i = Some \<lparr>mr_lines = ?lns3, mr_points = prune_points ?pts2 ?lns3, mr_raw_pairs = n, mr_skipped = sk, mr_source = src, mr_group_by = ''ip'',
        mr_filter = normalize_filter (mi_filter i), mr_country = sanitize_map_country (mi_country i),
        mr_query = sanitize_map_query (mi_query i), mr_facets = collect_reputation_facets lns1\<rparr>"
        unfolding get_map_def Let_def rep(1) sc option.case b en prod.case filter_lines_wanted using rep(2) True by simp
      then have r: "mr_lines r = ?lns3" "mr_points r = prune_points ?pts2 ?lns3" using assms(1) by simp_all
      show ?thesis unfolding r using e3 wanted trim(2) by blast
    next
      case False
      have "get_map p i = Some \<lparr>mr_lines = ?lns2, mr_points = ?pts2, mr_raw_pairs = n, mr_skipped = sk, mr_source = src, mr_group_by = ''ip'',
        mr_filter = normalize_filter (mi_filter i), mr_country = sanitize_map_country (mi_country i),
        mr_query = sanitize_map_query (mi_query i), mr_facets = collect_reputation_facets lns1\<rparr>"
        unfolding get_map_def Let_def rep(1) sc option.case b en prod.case filter_lines_wanted using rep(2) False by auto
      then have r: "mr_lines r = ?lns2" "mr_points r = ?pts2" using assms(1) by simp_all
      have "0 < mi_limit i \<longrightarrow> int (length ?lns2) \<le> mi_limit i" using False by linarith
      moreover have "\<forall>l\<in>set ?lns2. rep_wanted i l" by simp
      ultimately show ?thesis unfolding r using e2 by blast
    qed
  qed
qed

text \<open>In every answer of the map, whatever the grouping, the source of the edges and the filters, the points are
  exactly the ends of the lines; when the user filters by reputation, every line matches the filter and their
  number does not exceed the limit.\<close>
theorem get_map_consistent:
  assumes "get_map p i = Some r" "slice_sorter line_before (po_sort_lines p)"
  shows "dom (gm_get (mr_points r)) = set (active_keys (mr_lines r)) \<and>
    (rep_active i \<longrightarrow> (\<forall>l\<in>set (mr_lines r). rep_wanted i l) \<and> (0 < mi_limit i \<longrightarrow> int (length (mr_lines r)) \<le> mi_limit i))"
  using assms by (rule get_map_ends)

lemma line_before_order: "transp line_before" "totalp line_before" "reflp line_before"
  by (auto simp: line_before_def intro!: transpI totalpI reflpI split: if_splits)

interpretation line_sort: slice_sorter line_before "sort_by line_before"
  by (rule slice_sorter_sort_by) (rule line_before_order)+

definition demo_ports :: map_ports where
  "demo_ports = \<lparr>po_scan = (\<lambda>q. Some \<lparr>mp_source = ''agg'',
       mp_edges = [demo_geo ''10.0.0.1'' ''10.0.0.2'' 0x4048000000000000 3 1], mp_raws = []\<rparr>),
     po_geo = None, po_rep = Some (\<lambda>ip. []), po_nets = None, po_sort_ranges = sort_by range_le,
     po_sort_lines = sort_by line_before\<rparr>"

definition demo_input :: map_input where
  "demo_input = \<lparr>mi_limit = 5, mi_group_by = ''ip'', mi_filter = [], mi_country = [], mi_query = [], mi_categories = [''botnet''],
     mi_lists = [], mi_side = [], mi_source = ''live''\<rparr>"

lemma get_map_consistent_witness:
  "\<exists>r. get_map demo_ports demo_input = Some r \<and> rep_active demo_input \<and>
     dom (gm_get (mr_points r)) = set (active_keys (mr_lines r)) \<and> length (mr_lines r) \<le> 5"
proof -
  have act: "rep_active demo_input" by (simp add: rep_active_def demo_input_def normalize_map_group_by_def)
  obtain r where r: "get_map demo_ports demo_input = Some r"
    by (cases "get_map demo_ports demo_input") (auto simp: get_map_def demo_ports_def Let_def split: prod.splits if_splits)
  have "slice_sorter line_before (po_sort_lines demo_ports)"
    using line_sort.slice_sorter_axioms by (simp add: demo_ports_def)
  from get_map_consistent [OF r this] r act show ?thesis by (auto simp: demo_input_def)
qed

text \<open>Rows without coordinates are not counted as skipped: with no place for any address the count is 0.\<close>

definition no_places :: "meta_cache \<Rightarrow> bool" where
  "no_places c \<longleftrightarrow> (\<forall>k m. gm_get c k = Some m \<longrightarrow> \<not> mt_valid m)"

lemma meta_for_no_place:
  assumes "\<And>ip h. \<not> mt_valid (res ip h)" "no_places c" "meta_for res ip h c = (m, c')"
  shows "\<not> mt_valid m \<and> no_places c'"
  using assms by (auto simp: meta_for_def no_places_def Let_def split: option.splits if_splits)

lemma placed_raws_none:
  assumes "\<And>ip h. \<not> mt_valid (res ip h)" "no_places (fst c)" "no_places (snd c)"
  shows "fst (placed_raws res rs c) = []"
  using assms(2,3)
proof (induction rs arbitrary: c)
  case (Cons r rs)
  obtain s d c1 where m: "metas_for res r c = (s, d, c1)" by (metis prod_cases3)
  have e: "meta_for res (ra_src_ip r) (src_hint r) (fst c) = (s, fst c1)" "meta_for res (ra_dst_ip r) (dst_hint r) (snd c) = (d, snd c1)"
    using metas_forE [OF m] by blast+
  have "\<not> mt_valid s \<and> no_places (fst c1)" "no_places (snd c1)"
    using meta_for_no_place [OF assms(1) Cons.prems(1) e(1)] meta_for_no_place [OF assms(1) Cons.prems(2) e(2)] by blast+
  then show ?case using Cons.IH [of c1] by (simp add: m Let_def split_beta)
qed simp

lemma raws_without_places_not_counted:
  assumes "\<And>ip h. \<not> mt_valid (resolve_meta gi g ent ip h)"
  shows "snd (snd (build_map_from_ip_raws gi g ent raws)) = 0"
proof -
  let ?pl = "placed_raws (resolve_meta gi g ent) raws ([], [])"
  have pass: "fold (raw_edge_step (resolve_meta gi g ent)) raws ([], [], []) = (edges_of (fst ?pl), snd ?pl)"
    using raw_edges_eq [of "resolve_meta gi g ent" raws "[]" "([], [])"] by (simp add: edges_of_def)
  have "fst ?pl = []" by (rule placed_raws_none [OF assms]) (simp_all add: no_places_def)
  then show ?thesis by (simp add: build_map_from_ip_raws_def pass Let_def split_beta edge_lines_def edges_of_def)
qed

lemma geo_edges_without_places_counted:
  assumes "\<forall>r\<in>set es. \<not> (mt_valid (ge_src_meta r) \<and> mt_valid (ge_dst_meta r))"
  shows "snd (snd (build_map_from_geo_edges es)) = length es"
proof -
  have "filter (\<lambda>r. \<not> located r) es = es" using assms by (auto simp: located_def filter_id_conv)
  moreover have "placed_geo es = []" using assms by (auto simp: placed_geo_def located_def filter_empty_conv)
  ultimately show ?thesis
    by (simp add: build_map_from_geo_edges_def geo_edges_pass_eq Let_def split_beta edge_lines_def edges_of_def)
qed

end
