(* ===== verification/Http_Guard.thy ===== *)
theory Http_Guard
  imports Auth_Sessions Auth_Tokens Login_Throttle
begin

text \<open>
  What stands before the handlers of the HTTP API (\<^verbatim>\<open>adapter/httpapi\<close>): bearer tokens
  (\<^verbatim>\<open>authmw/bearer.go\<close>), the middleware that asks for a login, an administrator or an operations scope
  (\<^verbatim>\<open>authmw/middleware.go\<close>), the check against forged requests (\<^verbatim>\<open>csrf.go\<close>), cookies
  (\<^verbatim>\<open>session_cookie.go\<close>), the second check of the password (\<^verbatim>\<open>reauth.go\<close>) and the gate of the reverse
  proxy (\<^verbatim>\<open>middleware.go\<close>). The state is that of the whole access control: accounts, registry of sessions,
  API tokens, login limiter, disk and the audit events. \<^verbatim>\<open>net/http\<close> and \<^verbatim>\<open>net/url\<close> are represented by
  the fields of a request and by the function that finds the host of a URL.
\<close>

section \<open>Requests, answers, state\<close>

record http_request =
  rq_method :: string
  rq_path :: string
  rq_value :: string
  rq_host :: string
  rq_tls :: bool
  rq_header :: "string \<Rightarrow> string"
  rq_cookie :: "string \<Rightarrow> string option"
  rq_peer :: request

record cookie =
  ck_name :: string
  ck_value :: string
  ck_max_age :: int
  ck_http_only :: bool
  ck_secure :: bool

text \<open>\<^verbatim>\<open>authUserResponse\<close>\<close>

record user_view =
  uv_name :: string
  uv_full_name :: string
  uv_role :: string
  uv_must_reset :: bool
  uv_wizard_off :: bool
  uv_theme :: string
  uv_group_by :: string
  uv_auth_disabled :: bool
  uv_reputation :: bool

datatype http_body =
    B_none | B_error string | B_ok | B_user user_view | B_public user_public | B_users "user_public list"
  | B_directory "(string \<times> string option) list" | B_sessions "session_record list" | B_revoked nat
  | B_tokens "token_public list" | B_token token_public string

record http_response =
  rs_status :: nat
  rs_body :: http_body
  rs_cookies :: "cookie list"

definition answer :: "nat \<Rightarrow> http_body \<Rightarrow> http_response" where
  "answer n b = \<lparr>rs_status = n, rs_body = b, rs_cookies = []\<rparr>"

definition bad_request :: "string \<Rightarrow> http_response" where
  "bad_request msg = answer 400 (B_error msg)"

definition unauthorized :: http_response where
  "unauthorized = answer 401 (B_error ''unauthorized'')"

definition not_configured :: http_response where
  "not_configured = answer 503 (B_error ''auth not configured'')"

datatype audit_detail = A_text string | A_bool bool | A_nat nat | A_auth auth_err | A_service service_err | A_token token_err

record audit_event =
  au_actor :: string
  au_action :: string
  au_type :: string
  au_id :: string
  au_result :: string
  au_ip :: string
  au_details :: "(string \<times> audit_detail) list"

record http_state =
  hs_users :: "user_store option"
  hs_registry :: "registry option"
  hs_tokens :: "token_store option"
  hs_limiter :: "limiter option"
  hs_disk :: disk
  hs_audit :: "audit_event list"

record http_config =
  hc_disabled :: bool
  hc_api_disabled :: bool
  hc_reputation :: bool
  hc_admin_tokens :: "string list"
  hc_ops_tokens :: "string list"
  hc_service :: bool
  hc_sessions :: "session_manager option"
  hc_require_proxy :: bool

text \<open>
  What the world decides while a request is served. \<open>he_registry\<close> is the world of the registry at its successive
  uses in one request: the live check of the middleware (0), that of the handler (1), the removal of sessions (2) and
  the registration of a new one (3).
\<close>

record http_env =
  he_user :: user_env
  he_session :: session_env
  he_registry :: "nat \<Rightarrow> registry_env"
  he_token :: token_env
  he_now :: go_time
  he_audit_sort :: audit_sort
  he_csrf :: string
  he_trusted :: "trusted_set option"
  he_url_host :: "string \<Rightarrow> string option"
  he_sort_tokens :: "token_public list \<Rightarrow> token_public list"

definition env_admin_tokens :: "http_config \<Rightarrow> string list" where
  "env_admin_tokens cf = (if hc_api_disabled cf then [] else hc_admin_tokens cf)"

definition env_ops_tokens :: "http_config \<Rightarrow> string list" where
  "env_ops_tokens cf = (if hc_api_disabled cf then [] else hc_ops_tokens cf)"

definition peer_ip :: "http_env \<Rightarrow> http_request \<Rightarrow> string" where
  "peer_ip en r = client_ip (he_trusted en) (he_now en) (Some (rq_peer r))"

definition write_audit :: "audit_event \<Rightarrow> http_state \<Rightarrow> http_state" where
  "write_audit e s =
     s\<lparr>hs_audit := hs_audit s @ [if trim_space (au_actor e) = [] then e\<lparr>au_actor := ''system''\<rparr> else e]\<rparr>"

definition audit_reject :: "http_env \<Rightarrow> http_request \<Rightarrow> string \<Rightarrow> string \<Rightarrow> http_state \<Rightarrow> http_state" where
  "audit_reject en r action reason s =
     (let ip = peer_ip en r in
      write_audit \<lparr>au_actor = ip, au_action = action, au_type = ''http'', au_id = rq_path r, au_result = ''failed'',
        au_ip = ip, au_details = (if reason \<noteq> [] then [(''reason'', A_text reason)] else []) @
          (if rq_path r \<noteq> [] then [(''path'', A_text (rq_path r))] else [])\<rparr> s)"

section \<open>Cookies\<close>

definition cookie_name :: string where "cookie_name = ''ga_session''"
definition csrf_cookie_name :: string where "csrf_cookie_name = ''ga_csrf''"
definition csrf_header_name :: string where "csrf_header_name = ''X-CSRF-Token''"

definition cookie_secure :: "http_request \<Rightarrow> bool" where
  "cookie_secure r \<longleftrightarrow> rq_tls r \<or> equal_fold (rq_header r ''X-Forwarded-Proto'') ''https''"

text \<open>\<^verbatim>\<open>int(d.Seconds())\<close> of a duration that is not negative\<close>

definition cookie_max_age :: "duration \<Rightarrow> int" where
  "cookie_max_age ttl = (if ttl > 0 then ttl div second else 12 * hour div second)"

definition session_cookie :: "http_request \<Rightarrow> string \<Rightarrow> int \<Rightarrow> cookie" where
  "session_cookie r v age = \<lparr>ck_name = cookie_name, ck_value = v, ck_max_age = age, ck_http_only = True,
     ck_secure = cookie_secure r\<rparr>"

definition csrf_cookie :: "http_request \<Rightarrow> string \<Rightarrow> int \<Rightarrow> cookie" where
  "csrf_cookie r v age = \<lparr>ck_name = csrf_cookie_name, ck_value = v, ck_max_age = age, ck_http_only = False,
     ck_secure = cookie_secure r\<rparr>"

definition set_cookie :: "http_env \<Rightarrow> http_request \<Rightarrow> string \<Rightarrow> duration \<Rightarrow> cookie list" where
  "set_cookie en r token ttl =
     [session_cookie r token (cookie_max_age ttl), csrf_cookie r (he_csrf en) (cookie_max_age ttl)]"

definition clear_cookie :: "http_request \<Rightarrow> cookie list" where
  "clear_cookie r = [session_cookie r [] (- 1), csrf_cookie r [] (- 1)]"

definition ensure_csrf_cookie :: "http_env \<Rightarrow> http_request \<Rightarrow> duration \<Rightarrow> cookie list" where
  "ensure_csrf_cookie en r ttl =
     (case rq_cookie r csrf_cookie_name of
        Some (c # cs) \<Rightarrow> []
      | _ \<Rightarrow> [csrf_cookie r (he_csrf en) (cookie_max_age ttl)])"

definition session_from_request :: "http_config \<Rightarrow> http_env \<Rightarrow> http_request \<Rightarrow> session_err + session" where
  "session_from_request cf en r =
     (case hc_sessions cf of
        None \<Rightarrow> Inl Invalid_session
      | Some m \<Rightarrow>
          (case rq_cookie r cookie_name of
             None \<Rightarrow> Inl Invalid_session
           | Some v \<Rightarrow> if v = [] then Inl Invalid_session else parse_token (he_session en) m v))"

section \<open>Bearer tokens\<close>

fun match_env_token :: "string \<Rightarrow> string list \<Rightarrow> bool" where
  "match_env_token got [] = False"
| "match_env_token got (t # ts) =
     (if t = [] then match_env_token got ts
      else if length t \<noteq> length got then match_env_token got ts
      else if t = got then True
      else match_env_token got ts)"

definition bearer_plain :: "http_request \<Rightarrow> string" where
  "bearer_plain r = trim_space (trim_prefix (rq_header r ''Authorization'') ''Bearer '')"

definition bearer_scope :: "http_config \<Rightarrow> http_env \<Rightarrow> http_state \<Rightarrow> http_request \<Rightarrow> string option" where
  "bearer_scope cf en s r =
     (let got = bearer_plain r in
      if got = [] then None
      else if match_env_token got (env_admin_tokens cf) then Some scope_admin
      else if match_env_token got (env_ops_tokens cf) then Some scope_ops
      else case hs_tokens s of None \<Rightarrow> None | Some st \<Rightarrow> verify (he_token en) st got)"

definition bearer_ok :: "http_config \<Rightarrow> http_env \<Rightarrow> http_state \<Rightarrow> http_request \<Rightarrow> string \<Rightarrow> bool" where
  "bearer_ok cf en s r need =
     (case bearer_scope cf en s r of None \<Rightarrow> False | Some scope \<Rightarrow> scope_at_least scope need)"

definition bearer_any :: "http_config \<Rightarrow> http_env \<Rightarrow> http_state \<Rightarrow> http_request \<Rightarrow> bool" where
  "bearer_any cf en s r = (bearer_scope cf en s r \<noteq> None)"

section \<open>Who may pass\<close>

text \<open>A check stops the request with an answer or lets it go on, with the session in its context.\<close>

datatype guard = Stop http_response | Go_on "session option"

definition live_check ::
  "nat \<Rightarrow> http_env \<Rightarrow> session \<Rightarrow> http_state \<Rightarrow> session option \<times> http_state" where
  "live_check k en sess s =
     (let (live, reg, d) = live_session_checked (he_registry en k) (map_option store_lookup (hs_users s))
        (hs_registry s) sess (hs_disk s) in
      (live, s\<lparr>hs_registry := reg, hs_disk := d\<rparr>))"

definition must_reset_denied :: "http_state \<Rightarrow> string \<Rightarrow> bool" where
  "must_reset_denied s username = (case hs_users s of None \<Rightarrow> False | Some st \<Rightarrow> must_reset st username)"

definition reset_required :: http_response where
  "reset_required = answer 403 (B_error ''password reset required'')"

definition forbidden :: http_response where "forbidden = answer 403 (B_error ''forbidden'')"

definition require_login :: "http_config \<Rightarrow> http_env \<Rightarrow> http_request \<Rightarrow> http_state \<Rightarrow> guard \<times> http_state" where
  "require_login cf en r s =
     (if hc_disabled cf then (Go_on None, s)
      else if bearer_ok cf en s r scope_read then (Go_on None, s)
      else case session_from_request cf en r of
        Inl e \<Rightarrow> (Stop unauthorized, s)
      | Inr sess \<Rightarrow>
          (case live_check 0 en sess s of
             (None, s1) \<Rightarrow> (Stop unauthorized, s1)
           | (Some live, s1) \<Rightarrow>
               if must_reset_denied s1 (s_user live) then (Stop reset_required, s1) else (Go_on (Some live), s1)))"

definition require_admin :: "http_config \<Rightarrow> http_env \<Rightarrow> http_request \<Rightarrow> http_state \<Rightarrow> guard \<times> http_state" where
  "require_admin cf en r s =
     (if hc_disabled cf then (Go_on None, s)
      else if bearer_ok cf en s r scope_admin then (Go_on None, s)
      else case session_from_request cf en r of
        Inl e \<Rightarrow> (Stop unauthorized, s)
      | Inr sess \<Rightarrow>
          (case live_check 0 en sess s of
             (None, s1) \<Rightarrow> (Stop unauthorized, s1)
           | (Some live, s1) \<Rightarrow>
               if \<not> is_admin (s_role live) then (Stop forbidden, s1)
               else if must_reset_denied s1 (s_user live) then (Stop reset_required, s1)
               else (Go_on (Some live), s1)))"

definition require_ops :: "http_config \<Rightarrow> http_env \<Rightarrow> http_request \<Rightarrow> http_state \<Rightarrow> guard \<times> http_state" where
  "require_ops cf en r s =
     (if hc_disabled cf \<or> hc_api_disabled cf then (Go_on None, s)
      else if bearer_ok cf en s r scope_ops then (Go_on None, s)
      else case session_from_request cf en r of
        Inl e \<Rightarrow> (Stop unauthorized, s)
      | Inr sess \<Rightarrow>
          (case live_check 0 en sess s of
             (None, s1) \<Rightarrow> (Stop unauthorized, s1)
           | (Some live, s1) \<Rightarrow>
               if \<not> is_admin (s_role live) then (Stop forbidden, s1)
               else if must_reset_denied s1 (s_user live) then (Stop reset_required, s1)
               else (Go_on (Some live), s1)))"

section \<open>Forged requests: csrf.go\<close>

definition safe_method :: "string \<Rightarrow> bool" where
  "safe_method m \<longleftrightarrow> to_upper_ascii m \<in> {''GET'', ''HEAD'', ''OPTIONS''}"

text \<open>\<^verbatim>\<open>strings.Trim(s, "[]")\<close>\<close>

definition trim_brackets :: "string \<Rightarrow> string" where
  "trim_brackets s = (let p = (\<lambda>c. c = CHR ''['' \<or> c = CHR '']'') in rev (dropWhile p (rev (dropWhile p s))))"

definition split_host_port_loose :: "string \<Rightarrow> string \<times> string" where
  "split_host_port_loose hp = (case split_host_port hp of Some hp' \<Rightarrow> hp' | None \<Rightarrow> (trim_brackets hp, []))"

definition csrf_hosts_equal :: "string \<Rightarrow> string \<Rightarrow> bool" where
  "csrf_hosts_equal a b =
     (if equal_fold a b then True
      else
        let (ah, ap) = split_host_port_loose a; (bh, bp) = split_host_port_loose b in
        if \<not> equal_fold ah bh then False else ap = [] \<or> bp = [] \<or> ap = bp)"

definition host_is_literal_ip :: "string \<Rightarrow> bool" where
  "host_is_literal_ip host \<longleftrightarrow> parse_ip (trim_brackets host) \<noteq> []"

fun add_hosts :: "string list \<Rightarrow> string list \<Rightarrow> string list" where
  "add_hosts out [] = out"
| "add_hosts out (p # ps) =
     (let q = trim_space p in
      if q = [] then add_hosts out ps
      else if to_lower q \<in> set (map to_lower out) then add_hosts out ps
      else add_hosts (out @ [q]) ps)"

definition csrf_host_candidates :: "http_request \<Rightarrow> string list" where
  "csrf_host_candidates r =
     add_hosts [] (concat (map (split_on CHR '','')
       [rq_host r, rq_header r ''X-Forwarded-Host'', rq_header r ''X-Original-Host'']))"

text \<open>\<^verbatim>\<open>URL.Hostname\<close>: without a valid port and without brackets.\<close>

definition hostname :: "string \<Rightarrow> string" where
  "hostname hp =
     (let h = (case cut_at CHR '':'' (rev hp) of
          Some (rport, rhost) \<Rightarrow> if list_all is_digit rport then rev rhost else hp
        | None \<Rightarrow> hp) in
      if has_prefix h ''['' \<and> h \<noteq> [] \<and> last h = CHR '']'' then butlast (tl h) else h)"

definition origin_allowed :: "http_env \<Rightarrow> string \<Rightarrow> http_request \<Rightarrow> bool" where
  "origin_allowed en raw r =
     (case he_url_host en raw of
        None \<Rightarrow> False
      | Some host \<Rightarrow>
          if host = [] then False
          else if list_ex (csrf_hosts_equal host) (csrf_host_candidates r) then True
          else if host_is_literal_ip (hostname host)
          then list_ex (\<lambda>c. equal_fold (hostname host) (trim_brackets (fst (split_host_port_loose c))))
                 (csrf_host_candidates r)
          else False)"

definition csrf_origin_ok :: "http_env \<Rightarrow> http_request \<Rightarrow> bool" where
  "csrf_origin_ok en r =
     (let origin = trim_space (rq_header r ''Origin'') in
      if origin \<noteq> [] then origin_allowed en origin r
      else
        let ref = trim_space (rq_header r ''Referer'') in
        if ref = [] then True else origin_allowed en ref r)"

definition csrf_check :: "http_config \<Rightarrow> http_env \<Rightarrow> http_request \<Rightarrow> http_state \<Rightarrow> http_response option \<times> http_state" where
  "csrf_check cf en r s =
     (if hc_disabled cf \<or> safe_method (rq_method r) \<or> bearer_any cf en s r then (None, s)
      else case rq_cookie r cookie_name of
        None \<Rightarrow> (None, s)
      | Some v \<Rightarrow>
          if v = [] then (None, s)
          else if \<not> csrf_origin_ok en r then
            (Some (answer 403 (B_error ''csrf origin rejected'')), audit_reject en r ''security.csrf.reject'' ''origin'' s)
          else
            let header = trim_space (rq_header r csrf_header_name);
              bad = (case rq_cookie r csrf_cookie_name of
                 None \<Rightarrow> True
               | Some c \<Rightarrow> c = [] \<or> header = [] \<or> c \<noteq> header) in
            if bad then
              (Some (answer 403 (B_error ''csrf token missing or invalid'')),
               audit_reject en r ''security.csrf.reject'' ''token'' s)
            else (None, s))"

section \<open>The gate of the reverse proxy\<close>

definition proxy_gate_exempt :: "string \<Rightarrow> bool" where
  "proxy_gate_exempt p \<longleftrightarrow>
     p \<in> {''/live'', ''/ready'', ''/health'', ''/api/live'', ''/api/ready'', ''/api/health''}"

definition proxy_gate_on :: "http_config \<Rightarrow> bool" where
  "proxy_gate_on cf \<longleftrightarrow> hc_require_proxy cf \<and> \<not> hc_disabled cf \<and> \<not> hc_api_disabled cf"

definition proxy_gate :: "http_config \<Rightarrow> http_env \<Rightarrow> http_request \<Rightarrow> http_state \<Rightarrow> http_response option \<times> http_state" where
  "proxy_gate cf en r s =
     (if \<not> proxy_gate_on cf \<or> proxy_gate_exempt (rq_path r) \<or>
         request_from_trusted_hop (he_trusted en) (he_now en) (rq_peer r) \<or> bearer_any cf en s r
      then (None, s)
      else (Some (answer 403 (B_error ''direct backend access denied; use reverse proxy'')),
            audit_reject en r ''security.proxy_gate.reject'' ''direct_access'' s))"

section \<open>The second check of the password: reauth.go\<close>

definition actor_from_request :: "session option \<Rightarrow> string" where
  "actor_from_request ctx =
     (case ctx of
        Some sess \<Rightarrow> if trim_space (s_user sess) \<noteq> [] then s_user sess else ''system''
      | None \<Rightarrow> ''system'')"

definition actor_session :: "http_config \<Rightarrow> http_env \<Rightarrow> session option \<Rightarrow> http_request \<Rightarrow> session option" where
  "actor_session cf en ctx r =
     (case ctx of
        Some sess \<Rightarrow> Some sess
      | None \<Rightarrow> (case session_from_request cf en r of Inl e \<Rightarrow> None | Inr sess \<Rightarrow> Some sess))"

definition wrong_password :: http_response where
  "wrong_password = answer 401 (B_error ''current password is incorrect'')"

definition reauth :: "http_config \<Rightarrow> http_env \<Rightarrow> session option \<Rightarrow> http_request \<Rightarrow> string \<Rightarrow> http_state \<Rightarrow> http_response + string" where
  "reauth cf en ctx r pw0 s =
     (if hc_disabled cf then Inr (actor_from_request ctx)
      else if bearer_any cf en s r then Inr (actor_from_request ctx)
      else
        let pw = trim_space pw0 in
        if pw = [] then Inl (bad_request ''current_password is required'')
        else case actor_session cf en ctx r of
          None \<Rightarrow> Inl unauthorized
        | Some sess \<Rightarrow>
            if \<not> hc_service cf \<or> \<not> verify_password (he_user en) (hs_users s) (s_user sess) pw then Inl wrong_password
            else Inr (s_user sess))"

end
