(* ===== verification/Http_Auth.thy ===== *)
theory Http_Auth
  imports Http_Guard
begin

text \<open>
  The handlers for login, sessions, accounts and API tokens (\<^verbatim>\<open>adapter/httpapi/auth.go\<close>,
  \<^verbatim>\<open>api_tokens.go\<close>) and their routes with the checks in front of them (\<^verbatim>\<open>routes_auth.go\<close>). A handler
  maps the request, the decoded body and the state of the access control to the answer and the new state. One request
  is one step: its checks and its handler are not interleaved with those of other requests, and it has one instant of
  time. A decoded body is what \<^verbatim>\<open>decodeJSONBody\<close> leaves: the fields, or the answer it has written. The
  comparison of the code with nil receivers is not modelled; fields that may be nil are options.
\<close>

section \<open>Login and the own account\<close>

datatype 'a decoded = Rejected nat string | Body 'a

definition user_response :: "user \<Rightarrow> user_view" where
  "user_response u = \<lparr>uv_name = u_name u, uv_full_name = u_full_name u, uv_role = u_role u,
     uv_must_reset = u_must_reset u, uv_wizard_off = u_wizard_off u, uv_theme = u_theme u, uv_group_by = u_group_by u,
     uv_auth_disabled = False, uv_reputation = False\<rparr>"

definition user_public_response :: "user_public \<Rightarrow> user_view" where
  "user_public_response p = \<lparr>uv_name = p_name p, uv_full_name = p_full_name p, uv_role = p_role p,
     uv_must_reset = p_must_reset p, uv_wizard_off = p_wizard_off p, uv_theme = p_theme p, uv_group_by = p_group_by p,
     uv_auth_disabled = False, uv_reputation = False\<rparr>"

definition anonymous :: user_view where
  "anonymous = \<lparr>uv_name = ''anonymous'', uv_full_name = [], uv_role = role_administrator, uv_must_reset = False,
     uv_wizard_off = False, uv_theme = [], uv_group_by = [], uv_auth_disabled = True, uv_reputation = False\<rparr>"

definition with_module_flags :: "http_config \<Rightarrow> user_view \<Rightarrow> user_view" where
  "with_module_flags cf v = v\<lparr>uv_reputation := hc_reputation cf\<rparr>"

definition audit ::
  "http_env \<Rightarrow> http_request \<Rightarrow> string \<Rightarrow> string \<Rightarrow> string \<Rightarrow> string \<Rightarrow> string \<Rightarrow> (string \<times> audit_detail) list \<Rightarrow> http_state \<Rightarrow> http_state" where
  "audit en r actor action kind i result details =
     write_audit \<lparr>au_actor = actor, au_action = action, au_type = kind, au_id = i, au_result = result,
       au_ip = peer_ip en r, au_details = details\<rparr>"

definition with_users ::
  "(user_store \<Rightarrow> disk \<Rightarrow> 'a user_result) \<Rightarrow> http_state \<Rightarrow> (service_err + 'a) \<times> http_state" where
  "with_users f s =
     (case hs_users s of
        None \<Rightarrow> (Inl Not_configured, s)
      | Some st \<Rightarrow>
          let (res, st', d') = f st (hs_disk s) in
          ((case res of Inl e \<Rightarrow> Inl (Store_error e) | Inr x \<Rightarrow> Inr x), s\<lparr>hs_users := Some st', hs_disk := d'\<rparr>))"

definition user_store_error :: "service_err \<Rightarrow> http_response" where
  "user_store_error e =
     (case e of
        Store_error User_exists \<Rightarrow> answer 409 (B_error ''user already exists'')
      | Store_error User_not_found \<Rightarrow> answer 404 (B_error ''user not found'')
      | Store_error Invalid_username \<Rightarrow> bad_request ''invalid username''
      | Store_error Invalid_password \<Rightarrow> bad_request ''invalid password''
      | Store_error Invalid_role \<Rightarrow> bad_request ''invalid role''
      | Store_error Invalid_full_name \<Rightarrow> bad_request ''invalid full name''
      | Store_error Invalid_preferences \<Rightarrow> bad_request ''invalid preferences''
      | Store_error Last_admin \<Rightarrow> bad_request ''cannot remove or demote the last administrator''
      | Store_error Self_delete \<Rightarrow> bad_request ''cannot delete your own account''
      | Store_error Bad_old_password \<Rightarrow> wrong_password
      | Not_configured \<Rightarrow> not_configured
      | _ \<Rightarrow> answer 500 (B_error ''internal error''))"

definition register_session ::
  "http_env \<Rightarrow> http_request \<Rightarrow> session \<Rightarrow> string \<Rightarrow> string \<Rightarrow> string \<Rightarrow> http_state \<Rightarrow> http_state" where
  "register_session en r sess username role ip s =
     (case hs_registry s of
        None \<Rightarrow> s
      | Some reg \<Rightarrow>
          if trim_space (s_sid sess) = [] then s
          else
            let (ok, reg', d') = register (he_registry en 3)
              \<lparr>r_id = s_sid sess, r_user = username, r_role = role, r_ip = ip, r_agent = rq_header r ''User-Agent'',
               r_created = 0, r_expires = expires_from_session sess, r_seen = 0\<rparr> reg (hs_disk s) in
            s\<lparr>hs_registry := Some reg', hs_disk := d'\<rparr>)"

definition drop_user_sessions :: "http_env \<Rightarrow> string \<Rightarrow> http_state \<Rightarrow> nat \<times> bool \<times> http_state" where
  "drop_user_sessions en username s =
     (case hs_registry s of
        None \<Rightarrow> (0, True, s)
      | Some reg \<Rightarrow>
          let (n, ok, reg', d') = revoke_user (he_registry en 2) username reg (hs_disk s) in
          (n, ok, s\<lparr>hs_registry := Some reg', hs_disk := d'\<rparr>))"

definition drop_one_session :: "http_env \<Rightarrow> string \<Rightarrow> http_state \<Rightarrow> bool \<times> bool \<times> http_state" where
  "drop_one_session en sid s =
     (case hs_registry s of
        None \<Rightarrow> (False, True, s)
      | Some reg \<Rightarrow>
          let (was, ok, reg', d') = revoke (he_registry en 2) sid reg (hs_disk s) in
          (was, ok, s\<lparr>hs_registry := Some reg', hs_disk := d'\<rparr>))"

definition session_cookies :: "http_config \<Rightarrow> http_env \<Rightarrow> http_request \<Rightarrow> string \<Rightarrow> string \<Rightarrow> cookie list" where
  "session_cookies cf en r token role =
     (case hc_sessions cf of
        None \<Rightarrow> []
      | Some m \<Rightarrow> set_cookie en r token (cookie_ttl_for_role role (sm_ttl m)))"

definition login_limiter :: "http_state \<Rightarrow> limiter" where
  "login_limiter s = (case hs_limiter s of Some l \<Rightarrow> l | None \<Rightarrow> new_limiter 10 minute (5 * minute))"

definition keep_limiter :: "limiter \<Rightarrow> http_state \<Rightarrow> http_state" where
  "keep_limiter l s = (if hs_limiter s = None then s else s\<lparr>hs_limiter := Some l\<rparr>)"

definition login_failed :: "http_env \<Rightarrow> http_request \<Rightarrow> string \<Rightarrow> string \<Rightarrow> limiter \<Rightarrow> http_state \<Rightarrow> http_state" where
  "login_failed en r name reason l s =
     audit en r name ''auth.login.failed'' ''session'' name ''failed'' [(''reason'', A_text reason)]
       (keep_limiter (record_failure (he_audit_sort en) l (he_now en) (peer_ip en r) name) s)"

definition login_handler ::
  "http_config \<Rightarrow> http_env \<Rightarrow> http_request \<Rightarrow> (string \<times> string) decoded \<Rightarrow> http_state \<Rightarrow> http_response \<times> http_state" where
  "login_handler cf en r b s =
     (if hc_disabled cf then (answer 200 (B_user anonymous), s)
      else if \<not> hc_service cf then (not_configured, s)
      else case b of
        Rejected n m \<Rightarrow> (answer n (B_error m), s)
      | Body (name0, pw) \<Rightarrow>
          let name = trim_space name0 in
          if name = [] \<or> pw = [] then (bad_request ''username and password required'', s)
          else
            let ip = peer_ip en r; (ok, l) = allow (login_limiter s) (he_now en) ip name in
            if \<not> ok then (answer 429 (B_error ''too many attempts''), login_failed en r name ''rate_limited'' l s)
            else case login (he_user en) (he_session en) (hs_users s) (hc_sessions cf) name pw of
              Inl Invalid_credentials \<Rightarrow>
                (answer 401 (B_error ''invalid credentials''), login_failed en r name ''invalid_credentials'' l s)
            | Inl Not_configured \<Rightarrow> (not_configured, keep_limiter l s)
            | Inl e \<Rightarrow> (answer 500 (B_error ''session error''), keep_limiter l s)
            | Inr (u, token, sess) \<Rightarrow>
                let s1 = keep_limiter (record_success l ip (u_name u)) s;
                  s2 = register_session en r sess (u_name u) (u_role u) ip s1;
                  s3 = audit en r (u_name u) ''auth.login.success'' ''session'' (u_name u) ''succeeded''
                    [(''role'', A_text (u_role u)), (''sid'', A_text (s_sid sess))] s2 in
                ((answer 200 (B_user (user_response u)))\<lparr>rs_cookies := session_cookies cf en r token (u_role u)\<rparr>, s3))"

definition logout_handler :: "http_config \<Rightarrow> http_env \<Rightarrow> http_request \<Rightarrow> http_state \<Rightarrow> http_response \<times> http_state" where
  "logout_handler cf en r s =
     (let (actor, sid, s1) = (case session_from_request cf en r of
          Inl e \<Rightarrow> ([], [], s)
        | Inr sess \<Rightarrow>
            (s_user sess, s_sid sess,
             if s_sid sess \<noteq> [] then (case drop_one_session en (s_sid sess) s of (was, ok, s1) \<Rightarrow> s1) else s));
        s2 = (if actor \<noteq> [] then audit en r actor ''auth.logout'' ''session'' sid ''succeeded'' [] s1 else s1) in
      ((answer 200 B_ok)\<lparr>rs_cookies := clear_cookie r\<rparr>, s2))"

definition clear_answer :: "http_request \<Rightarrow> http_response" where
  "clear_answer r = unauthorized\<lparr>rs_cookies := clear_cookie r\<rparr>"

definition me_handler ::
  "http_config \<Rightarrow> http_env \<Rightarrow> http_request \<Rightarrow> session option \<Rightarrow> http_state \<Rightarrow> http_response \<times> http_state" where
  "me_handler cf en r ctx s =
     (if hc_disabled cf then (answer 200 (B_user (with_module_flags cf anonymous)), s)
      else case actor_session cf en ctx r of
        None \<Rightarrow> (unauthorized, s)
      | Some sess \<Rightarrow>
          (case live_check 1 en sess s of
             (None, s1) \<Rightarrow> (clear_answer r, s1)
           | (Some live, s1) \<Rightarrow>
               if \<not> hc_service cf then (not_configured, s1)
               else case me (hs_users s1) (s_user live) of
                 Inl Unauthorized \<Rightarrow> (clear_answer r, s1)
               | Inl e \<Rightarrow> (not_configured, s1)
               | Inr p \<Rightarrow>
                   ((answer 200 (B_user (with_module_flags cf (user_public_response p))))
                     \<lparr>rs_cookies := ensure_csrf_cookie en r (cookie_ttl_for_role (s_role live)
                       (case hc_sessions cf of None \<Rightarrow> 0 | Some m \<Rightarrow> sm_ttl m))\<rparr>, s1)))"

definition change_password_handler ::
  "http_config \<Rightarrow> http_env \<Rightarrow> http_request \<Rightarrow> (string \<times> string) decoded \<Rightarrow> http_state \<Rightarrow> http_response \<times> http_state" where
  "change_password_handler cf en r b s =
     (if hc_disabled cf then (answer 200 B_ok, s)
      else case session_from_request cf en r of
        Inl e \<Rightarrow> (unauthorized, s)
      | Inr sess \<Rightarrow>
          (case live_check 1 en sess s of
             (None, s1) \<Rightarrow> (clear_answer r, s1)
           | (Some live, s1) \<Rightarrow>
               (case b of
                  Rejected n m \<Rightarrow> (answer n (B_error m), s1)
                | Body (old, new) \<Rightarrow>
                    if \<not> hc_service cf then (not_configured, s1)
                    else
                      let (res, s2) = (case hs_users s1 of
                          None \<Rightarrow> (Inl Not_configured, s1)
                        | Some st \<Rightarrow>
                            let (res, st', d') = service_change_password (he_user en) (he_session en) (hc_sessions cf)
                              (s_user sess) old new st (hs_disk s1) in (res, s1\<lparr>hs_users := Some st', hs_disk := d'\<rparr>)) in
                      (case res of
                         Inl e \<Rightarrow>
                           (user_store_error e, audit en r (s_user sess) ''auth.password.change'' ''user'' (s_user sess)
                              ''failed'' [(''error'', A_service e)] s2)
                       | Inr (p, token, sess') \<Rightarrow>
                           let s3 = snd (snd (drop_user_sessions en (s_user sess) s2));
                             s4 = register_session en r sess' (p_name p) (p_role p) (peer_ip en r) s3;
                             s5 = audit en r (s_user sess) ''auth.password.change'' ''user'' (s_user sess) ''succeeded'' [] s4 in
                           ((answer 200 (B_user (user_public_response p)))
                              \<lparr>rs_cookies := session_cookies cf en r token (p_role p)\<rparr>, s5)))))"

definition logout_all_handler ::
  "http_config \<Rightarrow> http_env \<Rightarrow> http_request \<Rightarrow> string decoded \<Rightarrow> http_state \<Rightarrow> http_response \<times> http_state" where
  "logout_all_handler cf en r b s =
     (if hc_disabled cf then ((answer 200 B_ok)\<lparr>rs_cookies := clear_cookie r\<rparr>, s)
      else case b of
        Rejected n m \<Rightarrow> (answer n (B_error m), s)
      | Body pw \<Rightarrow>
          (case reauth cf en None r pw s of
             Inl resp \<Rightarrow> (resp, s)
           | Inr actor \<Rightarrow>
               (case session_from_request cf en r of
                  Inl e \<Rightarrow> (unauthorized, s)
                | Inr sess \<Rightarrow>
                    (case live_check 1 en sess s of
                       (None, s1) \<Rightarrow> (clear_answer r, s1)
                     | (Some live, s1) \<Rightarrow>
                         if \<not> hc_service cf then (not_configured, s1)
                         else
                           (case with_users (bump_session_version (he_user en) (s_user live)) s1 of
                              (Inl e, s2) \<Rightarrow> (user_store_error e, s2)
                            | (Inr u, s2) \<Rightarrow>
                                let s3 = snd (snd (drop_user_sessions en (s_user live) s2));
                                  s4 = audit en r (s_user live) ''auth.session.revoke_all'' ''user'' (s_user live)
                                    ''succeeded'' [] s3 in
                                ((answer 200 B_ok)\<lparr>rs_cookies := clear_cookie r\<rparr>, s4))))))"

definition preferences_handler ::
  "http_config \<Rightarrow> http_env \<Rightarrow> http_request \<Rightarrow> (string option \<times> string option) decoded \<Rightarrow> http_state \<Rightarrow> http_response \<times> http_state" where
  "preferences_handler cf en r b s =
     (if hc_disabled cf then
        (answer 200 (B_user (with_module_flags cf (anonymous\<lparr>uv_theme := default_theme, uv_group_by := default_group_by\<rparr>))), s)
      else case session_from_request cf en r of
        Inl e \<Rightarrow> (unauthorized, s)
      | Inr sess \<Rightarrow>
          (case b of
             Rejected n m \<Rightarrow> (answer n (B_error m), s)
           | Body (theme, grp) \<Rightarrow>
               if theme = None \<and> grp = None then (bad_request ''theme or map_group_by required'', s)
               else if \<not> hc_service cf then (not_configured, s)
               else
                 (case with_users (set_preferences (he_user en) (s_user sess) theme grp) s of
                    (Inl e, s1) \<Rightarrow> (user_store_error e, s1)
                  | (Inr p, s1) \<Rightarrow>
                      (answer 200 (B_user (with_module_flags cf (user_public_response p))),
                       audit en r (s_user sess) ''auth.preferences.update'' ''user'' (s_user sess) ''succeeded''
                         ((if theme \<noteq> None then [(''theme'', A_text (p_theme p))] else []) @
                          (if grp \<noteq> None then [(''map_group_by'', A_text (p_group_by p))] else [])) s1))))"

definition dismiss_handler ::
  "http_config \<Rightarrow> http_env \<Rightarrow> http_request \<Rightarrow> bool option decoded \<Rightarrow> http_state \<Rightarrow> http_response \<times> http_state" where
  "dismiss_handler cf en r b s =
     (if hc_disabled cf then
        (answer 200 (B_user (with_module_flags cf (anonymous\<lparr>uv_wizard_off := True\<rparr>))), s)
      else case session_from_request cf en r of
        Inl e \<Rightarrow> (unauthorized, s)
      | Inr sess \<Rightarrow>
          (case b of
             Rejected n m \<Rightarrow> (answer n (B_error m), s)
           | Body None \<Rightarrow> (bad_request ''dismissed required'', s)
           | Body (Some off) \<Rightarrow>
               if \<not> hc_service cf then (not_configured, s)
               else
                 (case with_users (set_geo_wizard_dismissed (he_user en) (s_user sess) off) s of
                    (Inl e, s1) \<Rightarrow> (user_store_error e, s1)
                  | (Inr p, s1) \<Rightarrow> (answer 200 (B_user (with_module_flags cf (user_public_response p))), s1))))"

section \<open>Checks for the reverse proxy\<close>

definition bearer_scope_ok :: "http_config \<Rightarrow> http_env \<Rightarrow> http_state \<Rightarrow> http_request \<Rightarrow> string \<Rightarrow> bool" where
  "bearer_scope_ok cf en s r need = (if hc_api_disabled cf then False else bearer_ok cf en s r need)"

definition check_handler :: "http_config \<Rightarrow> http_env \<Rightarrow> http_request \<Rightarrow> http_state \<Rightarrow> http_response \<times> http_state" where
  "check_handler cf en r s =
     (if hc_disabled cf then (answer 200 B_none, s)
      else if bearer_scope_ok cf en s r scope_read then (answer 200 B_none, s)
      else case session_from_request cf en r of
        Inl e \<Rightarrow> (answer 401 B_none, s)
      | Inr sess \<Rightarrow>
          (case live_check 1 en sess s of
             (None, s1) \<Rightarrow> (answer 401 B_none, s1)
           | (Some live, s1) \<Rightarrow> (answer 200 B_none, s1)))"

text \<open>\<^verbatim>\<open>CheckOps\<close> and \<^verbatim>\<open>CheckAdmin\<close> differ in the scope they ask for.\<close>

definition check_scope :: "string \<Rightarrow> http_config \<Rightarrow> http_env \<Rightarrow> http_request \<Rightarrow> http_state \<Rightarrow> http_response \<times> http_state" where
  "check_scope need cf en r s =
     (if hc_disabled cf then (answer 200 B_none, s)
      else if hc_api_disabled cf then (answer 200 B_none, s)
      else if bearer_scope_ok cf en s r need then (answer 200 B_none, s)
      else case session_from_request cf en r of
        Inl e \<Rightarrow> (answer 401 B_none, s)
      | Inr sess \<Rightarrow>
          (case live_check 1 en sess s of
             (None, s1) \<Rightarrow> (answer 401 B_none, s1)
           | (Some live, s1) \<Rightarrow> if \<not> is_admin (s_role live) then (answer 403 B_none, s1) else (answer 200 B_none, s1)))"

definition check_ops_handler :: "http_config \<Rightarrow> http_env \<Rightarrow> http_request \<Rightarrow> http_state \<Rightarrow> http_response \<times> http_state" where
  "check_ops_handler = check_scope scope_ops"

definition check_admin_handler :: "http_config \<Rightarrow> http_env \<Rightarrow> http_request \<Rightarrow> http_state \<Rightarrow> http_response \<times> http_state" where
  "check_admin_handler = check_scope scope_admin"

section \<open>Accounts, for administrators\<close>

definition module_disabled :: http_response where
  "module_disabled = answer 503 (B_error ''auth module disabled'')"

definition users_list_handler :: "http_config \<Rightarrow> http_state \<Rightarrow> http_response \<times> http_state" where
  "users_list_handler cf s =
     (if hc_disabled cf then (module_disabled, s)
      else if \<not> hc_service cf then (not_configured, s)
      else case hs_users s of
        None \<Rightarrow> (not_configured, s)
      | Some st \<Rightarrow> (answer 200 (B_users (list_users st)), s))"

definition directory_handler :: "http_config \<Rightarrow> http_state \<Rightarrow> http_response \<times> http_state" where
  "directory_handler cf s =
     (if hc_disabled cf then (answer 200 (B_directory []), s)
      else if \<not> hc_service cf then (not_configured, s)
      else case hs_users s of
        None \<Rightarrow> (not_configured, s)
      | Some st \<Rightarrow>
          (answer 200 (B_directory (map (\<lambda>p. (p_name p, let fn = trim_space (p_full_name p) in
             if fn \<noteq> [] then Some fn else None)) (list_users st))), s))"

record create_body =
  cb_user :: string
  cb_full_name :: string
  cb_password :: string
  cb_role :: string
  cb_must_reset :: "bool option"

text \<open>What the handlers that change an account share: the failed and the succeeded event and the answer.\<close>

definition user_change ::
  "http_env \<Rightarrow> http_request \<Rightarrow> session option \<Rightarrow> string \<Rightarrow> string \<Rightarrow> (string \<times> audit_detail) list \<Rightarrow>
   (user_public \<Rightarrow> (string \<times> audit_detail) list) \<Rightarrow> nat \<Rightarrow> (service_err + user_public) \<times> http_state \<Rightarrow>
   http_response \<times> http_state" where
  "user_change en r ctx action name extra details status out =
     (case out of
        (Inl e, s1) \<Rightarrow>
          (user_store_error e, audit en r (actor_from_request ctx) action ''user'' name ''failed''
             ((''error'', A_service e) # extra) s1)
      | (Inr p, s1) \<Rightarrow>
          (answer status (B_public p),
           audit en r (actor_from_request ctx) action ''user'' (p_name p) ''succeeded'' (details p) s1))"

definition create_user_handler ::
  "http_config \<Rightarrow> http_env \<Rightarrow> http_request \<Rightarrow> session option \<Rightarrow> create_body decoded \<Rightarrow> http_state \<Rightarrow> http_response \<times> http_state" where
  "create_user_handler cf en r ctx b s =
     (if hc_disabled cf then (module_disabled, s)
      else if \<not> hc_service cf then (not_configured, s)
      else case b of
        Rejected n m \<Rightarrow> (answer n (B_error m), s)
      | Body c \<Rightarrow>
          (case cb_must_reset c of
             None \<Rightarrow> (bad_request ''must_reset_password is required'', s)
           | Some must \<Rightarrow>
               user_change en r ctx ''auth.user.create'' (cb_user c) []
                 (\<lambda>p. [(''role'', A_text (p_role p)), (''must_reset_password'', A_bool (p_must_reset p))]) 201
                 (with_users (create_user (he_user en) (cb_user c) (cb_password c) (cb_role c) (cb_full_name c) must) s)))"

definition set_role_handler ::
  "http_config \<Rightarrow> http_env \<Rightarrow> http_request \<Rightarrow> session option \<Rightarrow> string decoded \<Rightarrow> http_state \<Rightarrow> http_response \<times> http_state" where
  "set_role_handler cf en r ctx b s =
     (if hc_disabled cf then (module_disabled, s)
      else if \<not> hc_service cf then (not_configured, s)
      else case b of
        Rejected n m \<Rightarrow> (answer n (B_error m), s)
      | Body role \<Rightarrow>
          user_change en r ctx ''auth.user.role_change'' (rq_value r) [(''role'', A_text role)]
            (\<lambda>p. [(''role'', A_text (p_role p))]) 200 (with_users (set_role (he_user en) (rq_value r) role) s))"

definition set_full_name_handler ::
  "http_config \<Rightarrow> http_env \<Rightarrow> http_request \<Rightarrow> session option \<Rightarrow> string decoded \<Rightarrow> http_state \<Rightarrow> http_response \<times> http_state" where
  "set_full_name_handler cf en r ctx b s =
     (if hc_disabled cf then (module_disabled, s)
      else if \<not> hc_service cf then (not_configured, s)
      else case b of
        Rejected n m \<Rightarrow> (answer n (B_error m), s)
      | Body full \<Rightarrow>
          user_change en r ctx ''auth.user.update'' (rq_value r) [] (\<lambda>p. []) 200
            (with_users (set_full_name (he_user en) (rq_value r) full) s))"

definition reset_password_handler ::
  "http_config \<Rightarrow> http_env \<Rightarrow> http_request \<Rightarrow> session option \<Rightarrow> (string \<times> bool option \<times> string) decoded \<Rightarrow> http_state \<Rightarrow>
   http_response \<times> http_state" where
  "reset_password_handler cf en r ctx b s =
     (if hc_disabled cf then (module_disabled, s)
      else if \<not> hc_service cf then (not_configured, s)
      else case b of
        Rejected n m \<Rightarrow> (answer n (B_error m), s)
      | Body (pw, must0, current) \<Rightarrow>
          (case must0 of
             None \<Rightarrow> (bad_request ''must_reset_password is required'', s)
           | Some must \<Rightarrow>
               (case reauth cf en ctx r current s of
                  Inl resp \<Rightarrow> (resp, s)
                | Inr actor \<Rightarrow>
                    user_change en r ctx ''auth.password.reset'' (rq_value r) []
                      (\<lambda>p. [(''must_reset_password'', A_bool (p_must_reset p))]) 200
                      (with_users (reset_password (he_user en) (rq_value r) pw must) s))))"

definition delete_user_handler ::
  "http_config \<Rightarrow> http_env \<Rightarrow> http_request \<Rightarrow> session option \<Rightarrow> string decoded \<Rightarrow> http_state \<Rightarrow> http_response \<times> http_state" where
  "delete_user_handler cf en r ctx b s =
     (if hc_disabled cf then (module_disabled, s)
      else if \<not> hc_service cf then (not_configured, s)
      else case b of
        Rejected n m \<Rightarrow> (answer n (B_error m), s)
      | Body current \<Rightarrow>
          (case reauth cf en ctx r current s of
             Inl resp \<Rightarrow> (resp, s)
           | Inr checked \<Rightarrow>
               let actor = (case actor_session cf en ctx r of None \<Rightarrow> [] | Some sess \<Rightarrow> s_user sess) in
               (case with_users (service_delete_user (he_user en) (rq_value r) actor) s of
                  (Inl e, s1) \<Rightarrow>
                    (user_store_error e, audit en r (actor_from_request ctx) ''auth.user.delete'' ''user'' (rq_value r)
                       ''failed'' [(''error'', A_service e)] s1)
                | (Inr u, s1) \<Rightarrow>
                    (answer 200 B_ok, audit en r (actor_from_request ctx) ''auth.user.delete'' ''user'' (rq_value r)
                       ''succeeded'' [] (snd (snd (drop_user_sessions en (rq_value r) s1)))))))"

section \<open>Sessions, for administrators\<close>

definition list_sessions_handler :: "http_config \<Rightarrow> http_env \<Rightarrow> http_state \<Rightarrow> http_response \<times> http_state" where
  "list_sessions_handler cf en s =
     (if hc_disabled cf then (answer 200 (B_sessions []), s)
      else case hs_registry s of
        None \<Rightarrow> (answer 200 (B_sessions []), s)
      | Some reg \<Rightarrow>
          let (items, reg') = list_sessions (he_registry en 1) reg in
          (answer 200 (B_sessions items), s\<lparr>hs_registry := Some reg'\<rparr>))"

definition revoke_session_handler ::
  "http_config \<Rightarrow> http_env \<Rightarrow> http_request \<Rightarrow> session option \<Rightarrow> http_state \<Rightarrow> http_response \<times> http_state" where
  "revoke_session_handler cf en r ctx s =
     (if hc_disabled cf then (answer 200 B_ok, s)
      else let sid = trim_space (rq_value r) in
        if sid = [] then (bad_request ''session id required'', s)
        else
          let (was, ok, s1) = drop_one_session en sid s in
          if \<not> ok then (answer 500 (B_error ''session revoke failed''), s1)
          else if \<not> was then (answer 404 (B_error ''session not found''), s1)
          else (answer 200 B_ok, audit en r (actor_from_request ctx) ''auth.session.revoke'' ''session'' sid ''succeeded'' [] s1))"

definition revoke_user_sessions_handler ::
  "http_config \<Rightarrow> http_env \<Rightarrow> http_request \<Rightarrow> session option \<Rightarrow> string decoded \<Rightarrow> http_state \<Rightarrow> http_response \<times> http_state" where
  "revoke_user_sessions_handler cf en r ctx b s =
     (if hc_disabled cf then (answer 200 B_ok, s)
      else case b of
        Rejected n m \<Rightarrow> (answer n (B_error m), s)
      | Body name0 \<Rightarrow>
          let name = trim_space name0 in
          if name = [] then (bad_request ''username required'', s)
          else if \<not> hc_service cf then (not_configured, s)
          else
            (case with_users (bump_session_version (he_user en) name) s of
               (Inl e, s1) \<Rightarrow> (user_store_error e, s1)
             | (Inr u, s1) \<Rightarrow>
                 let (n, ok, s2) = drop_user_sessions en name s1 in
                 if \<not> ok then (answer 500 (B_error ''session revoke failed''), s2)
                 else (answer 200 (B_revoked n), audit en r (actor_from_request ctx) ''auth.session.revoke_all'' ''user'' name
                   ''succeeded'' [(''revoked'', A_nat n)] s2)))"

section \<open>API tokens, for administrators: api_tokens.go\<close>

definition tokens_missing :: http_response where
  "tokens_missing = answer 503 (B_error ''api tokens not configured'')"

text \<open>The texts of the errors start with these; those of \<^verbatim>\<open>fmt.Errorf\<close> add the offending value.\<close>

definition token_store_error :: "token_err \<Rightarrow> http_response" where
  "token_store_error e =
     (case e of
        Invalid_token_name \<Rightarrow> bad_request ''invalid api token name''
      | Invalid_scope \<Rightarrow> bad_request ''invalid api token scope''
      | Invalid_expiry \<Rightarrow> bad_request ''invalid api token expiry''
      | Token_not_found \<Rightarrow> answer 404 (B_error ''api token not found'')
      | Token_limit \<Rightarrow> answer 409 (B_error ''api token limit reached'')
      | _ \<Rightarrow> answer 500 (B_error ''internal server error''))"

definition parse_optional_expiry :: "token_env \<Rightarrow> string \<Rightarrow> go_time option" where
  "parse_optional_expiry env raw0 =
     (let raw = trim_space raw0 in if raw = [] then Some 0 else rfc_parse env raw)"

definition tokens_list_handler :: "http_env \<Rightarrow> http_state \<Rightarrow> http_response \<times> http_state" where
  "tokens_list_handler en s =
     (case hs_tokens s of
        None \<Rightarrow> (tokens_missing, s)
      | Some st \<Rightarrow> (answer 200 (B_tokens (list_tokens (he_sort_tokens en) st)), s))"

text \<open>A change of the token store: the failed event with \<open>name\<close>, or the succeeded one and the answer.\<close>

definition token_change ::
  "http_env \<Rightarrow> http_request \<Rightarrow> session option \<Rightarrow> string \<Rightarrow> string \<Rightarrow> (string \<times> audit_detail) list \<Rightarrow>
   ('a \<Rightarrow> string \<times> (string \<times> audit_detail) list) \<Rightarrow> ('a \<Rightarrow> http_response) \<Rightarrow> 'a token_result \<Rightarrow> http_state \<Rightarrow>
   http_response \<times> http_state" where
  "token_change en r ctx action name extra done resp out s =
     (case out of
        (Inl e, st', d') \<Rightarrow>
          (token_store_error e, audit en r (actor_from_request ctx) action ''api_token'' name ''failed''
             ((''error'', A_token e) # extra) (s\<lparr>hs_tokens := Some st', hs_disk := d'\<rparr>))
      | (Inr x, st', d') \<Rightarrow>
          (resp x, audit en r (actor_from_request ctx) action ''api_token'' (fst (done x)) ''succeeded'' (snd (done x))
             (s\<lparr>hs_tokens := Some st', hs_disk := d'\<rparr>)))"

definition token_create_handler ::
  "http_config \<Rightarrow> http_env \<Rightarrow> http_request \<Rightarrow> session option \<Rightarrow> (string \<times> string \<times> string \<times> string) decoded \<Rightarrow> http_state \<Rightarrow>
   http_response \<times> http_state" where
  "token_create_handler cf en r ctx b s =
     (case hs_tokens s of
        None \<Rightarrow> (tokens_missing, s)
      | Some st \<Rightarrow>
          (case b of
             Rejected n m \<Rightarrow> (answer n (B_error m), s)
           | Body (name, scope, expires, current) \<Rightarrow>
               (case reauth cf en ctx r current s of
                  Inl resp \<Rightarrow> (resp, s)
                | Inr actor \<Rightarrow>
                    (case parse_optional_expiry (he_token en) expires of
                       None \<Rightarrow> (bad_request ''expires_at must be RFC3339'', s)
                     | Some ex \<Rightarrow>
                         token_change en r ctx ''auth.token.create'' name [(''scope'', A_text scope)]
                           (\<lambda>(p, secret). (tp_id p, [(''name'', A_text (tp_name p)), (''scope'', A_text (tp_scope p))] @
                              (if tp_expires p \<noteq> [] then [(''expires_at'', A_text (tp_expires p))] else [])))
                           (\<lambda>(p, secret). answer 201 (B_token p secret))
                           (create_token (he_token en) name scope ex st (hs_disk s)) s))))"

definition token_rotate_handler ::
  "http_config \<Rightarrow> http_env \<Rightarrow> http_request \<Rightarrow> session option \<Rightarrow> string decoded \<Rightarrow> http_state \<Rightarrow> http_response \<times> http_state" where
  "token_rotate_handler cf en r ctx b s =
     (case hs_tokens s of
        None \<Rightarrow> (tokens_missing, s)
      | Some st \<Rightarrow>
          (case b of
             Rejected n m \<Rightarrow> (answer n (B_error m), s)
           | Body current \<Rightarrow>
               (case reauth cf en ctx r current s of
                  Inl resp \<Rightarrow> (resp, s)
                | Inr actor \<Rightarrow>
                    token_change en r ctx ''auth.token.rotate'' (rq_value r) []
                      (\<lambda>(p, secret). (tp_id p, [(''name'', A_text (tp_name p)), (''scope'', A_text (tp_scope p))]))
                      (\<lambda>(p, secret). answer 200 (B_token p secret))
                      (rotate_token (he_token en) (rq_value r) st (hs_disk s)) s)))"

definition token_revoke_handler ::
  "http_config \<Rightarrow> http_env \<Rightarrow> http_request \<Rightarrow> session option \<Rightarrow> string decoded \<Rightarrow> http_state \<Rightarrow> http_response \<times> http_state" where
  "token_revoke_handler cf en r ctx b s =
     (case hs_tokens s of
        None \<Rightarrow> (tokens_missing, s)
      | Some st \<Rightarrow>
          (case b of
             Rejected n m \<Rightarrow> (answer n (B_error m), s)
           | Body current \<Rightarrow>
               (case reauth cf en ctx r current s of
                  Inl resp \<Rightarrow> (resp, s)
                | Inr actor \<Rightarrow>
                    token_change en r ctx ''auth.token.revoke'' (rq_value r) [] (\<lambda>u. (rq_value r, [])) (\<lambda>u. answer 200 B_ok)
                      (revoke_token (he_token en) (rq_value r) st (hs_disk s)) s)))"

section \<open>Routes\<close>

text \<open>The routes of \<^verbatim>\<open>routes_auth.go\<close> with the decoded body of the request.\<close>

datatype call =
    Login_call "(string \<times> string) decoded" | Logout_call | Logout_all_call "string decoded"
  | Sessions_call | Revoke_session_call | Revoke_user_call "string decoded"
  | Me_call | Preferences_call "(string option \<times> string option) decoded"
  | Change_password_call "(string \<times> string) decoded" | Dismiss_call "bool option decoded"
  | Check_call | Check_ops_call | Check_admin_call
  | Users_call | Directory_call | Create_call "create_body decoded" | Role_call "string decoded"
  | Full_name_call "string decoded" | Reset_call "(string \<times> bool option \<times> string) decoded" | Delete_call "string decoded"
  | Tokens_call | Token_create_call "(string \<times> string \<times> string \<times> string) decoded"
  | Token_rotate_call "string decoded" | Token_revoke_call "string decoded"

datatype access = Open | Login_needed | Admin_needed

fun route_method :: "call \<Rightarrow> string" where
  "route_method Sessions_call = ''GET''"
| "route_method Revoke_session_call = ''DELETE''"
| "route_method Me_call = ''GET''"
| "route_method (Preferences_call _) = ''PATCH''"
| "route_method Check_call = ''GET''"
| "route_method Check_ops_call = ''GET''"
| "route_method Check_admin_call = ''GET''"
| "route_method Users_call = ''GET''"
| "route_method Directory_call = ''GET''"
| "route_method (Delete_call _) = ''DELETE''"
| "route_method Tokens_call = ''GET''"
| "route_method (Token_revoke_call _) = ''DELETE''"
| "route_method _ = ''POST''"

fun route_access :: "call \<Rightarrow> access" where
  "route_access (Login_call _) = Open"
| "route_access Logout_call = Open"
| "route_access (Logout_all_call _) = Open"
| "route_access Me_call = Open"
| "route_access (Change_password_call _) = Open"
| "route_access Check_call = Open"
| "route_access Check_ops_call = Open"
| "route_access Check_admin_call = Open"
| "route_access (Preferences_call _) = Login_needed"
| "route_access (Dismiss_call _) = Login_needed"
| "route_access Directory_call = Login_needed"
| "route_access _ = Admin_needed"

fun route_csrf :: "call \<Rightarrow> bool" where
  "route_csrf (Login_call _) = False"
| "route_csrf Sessions_call = False"
| "route_csrf Me_call = False"
| "route_csrf Check_call = False"
| "route_csrf Check_ops_call = False"
| "route_csrf Check_admin_call = False"
| "route_csrf Users_call = False"
| "route_csrf Directory_call = False"
| "route_csrf Tokens_call = False"
| "route_csrf _ = True"

fun handle ::
  "http_config \<Rightarrow> http_env \<Rightarrow> http_request \<Rightarrow> session option \<Rightarrow> call \<Rightarrow> http_state \<Rightarrow> http_response \<times> http_state" where
  "handle cf en r ctx (Login_call b) s = login_handler cf en r b s"
| "handle cf en r ctx Logout_call s = logout_handler cf en r s"
| "handle cf en r ctx (Logout_all_call b) s = logout_all_handler cf en r b s"
| "handle cf en r ctx Sessions_call s = list_sessions_handler cf en s"
| "handle cf en r ctx Revoke_session_call s = revoke_session_handler cf en r ctx s"
| "handle cf en r ctx (Revoke_user_call b) s = revoke_user_sessions_handler cf en r ctx b s"
| "handle cf en r ctx Me_call s = me_handler cf en r ctx s"
| "handle cf en r ctx (Preferences_call b) s = preferences_handler cf en r b s"
| "handle cf en r ctx (Change_password_call b) s = change_password_handler cf en r b s"
| "handle cf en r ctx (Dismiss_call b) s = dismiss_handler cf en r b s"
| "handle cf en r ctx Check_call s = check_handler cf en r s"
| "handle cf en r ctx Check_ops_call s = check_ops_handler cf en r s"
| "handle cf en r ctx Check_admin_call s = check_admin_handler cf en r s"
| "handle cf en r ctx Users_call s = users_list_handler cf s"
| "handle cf en r ctx Directory_call s = directory_handler cf s"
| "handle cf en r ctx (Create_call b) s = create_user_handler cf en r ctx b s"
| "handle cf en r ctx (Role_call b) s = set_role_handler cf en r ctx b s"
| "handle cf en r ctx (Full_name_call b) s = set_full_name_handler cf en r ctx b s"
| "handle cf en r ctx (Reset_call b) s = reset_password_handler cf en r ctx b s"
| "handle cf en r ctx (Delete_call b) s = delete_user_handler cf en r ctx b s"
| "handle cf en r ctx Tokens_call s = tokens_list_handler en s"
| "handle cf en r ctx (Token_create_call b) s = token_create_handler cf en r ctx b s"
| "handle cf en r ctx (Token_rotate_call b) s = token_rotate_handler cf en r ctx b s"
| "handle cf en r ctx (Token_revoke_call b) s = token_revoke_handler cf en r ctx b s"

definition admit :: "access \<Rightarrow> http_config \<Rightarrow> http_env \<Rightarrow> http_request \<Rightarrow> http_state \<Rightarrow> guard \<times> http_state" where
  "admit a cf en r s =
     (case a of
        Open \<Rightarrow> (Go_on None, s)
      | Login_needed \<Rightarrow> require_login cf en r s
      | Admin_needed \<Rightarrow> require_admin cf en r s)"

text \<open>\<^verbatim>\<open>ServeMux\<close> also gives a \<^verbatim>\<open>HEAD\<close> request to the handler for \<^verbatim>\<open>GET\<close>.\<close>

definition method_matches :: "call \<Rightarrow> http_request \<Rightarrow> bool" where
  "method_matches c r \<longleftrightarrow> rq_method r = route_method c \<or> route_method c = ''GET'' \<and> rq_method r = ''HEAD''"

definition serve ::
  "http_config \<Rightarrow> http_env \<Rightarrow> call \<Rightarrow> http_request \<Rightarrow> http_state \<Rightarrow> http_response \<times> http_state" where
  "serve cf en c r s =
     (case proxy_gate cf en r s of
        (Some resp, s1) \<Rightarrow> (resp, s1)
      | (None, s1) \<Rightarrow>
          if \<not> method_matches c r then (answer 405 B_none, s1)
          else
            (case admit (route_access c) cf en r s1 of
               (Stop resp, s2) \<Rightarrow> (resp, s2)
             | (Go_on ctx, s2) \<Rightarrow>
                 (case (if route_csrf c then csrf_check cf en r s2 else (None, s2)) of
                    (Some resp, s3) \<Rightarrow> (resp, s3)
                  | (None, s3) \<Rightarrow> handle cf en r ctx c s3)))"

end
