(* ===== verification/Http_Access.thy ===== *)
theory Http_Access
  imports Http_Auth
begin

text \<open>
  What the checks and handlers of the HTTP API guarantee together: who can change an account or a token, that an
  administrator remains whatever requests are served, what a login gives and what a logout takes away.
\<close>

section \<open>What a request leaves alone\<close>

named_theorems frame \<open>fields of the state that an auxiliary operation keeps\<close>

lemma write_audit_frame [frame]:
  "hs_users (write_audit e s) = hs_users s" "hs_registry (write_audit e s) = hs_registry s"
  "hs_tokens (write_audit e s) = hs_tokens s" "hs_limiter (write_audit e s) = hs_limiter s"
  "hs_disk (write_audit e s) = hs_disk s"
  by (simp_all add: write_audit_def)

lemma audit_frame [frame]:
  "hs_users (audit en r a b c i res ds s) = hs_users s" "hs_registry (audit en r a b c i res ds s) = hs_registry s"
  "hs_tokens (audit en r a b c i res ds s) = hs_tokens s" "hs_limiter (audit en r a b c i res ds s) = hs_limiter s"
  by (simp_all add: audit_def frame)

lemma audit_reject_frame [frame]:
  "hs_users (audit_reject en r a b s) = hs_users s" "hs_registry (audit_reject en r a b s) = hs_registry s"
  "hs_tokens (audit_reject en r a b s) = hs_tokens s" "hs_limiter (audit_reject en r a b s) = hs_limiter s"
  by (simp_all add: audit_reject_def frame Let_def)

lemma keep_limiter_frame [frame]:
  "hs_users (keep_limiter l s) = hs_users s" "hs_registry (keep_limiter l s) = hs_registry s"
  "hs_tokens (keep_limiter l s) = hs_tokens s" "hs_disk (keep_limiter l s) = hs_disk s"
  by (simp_all add: keep_limiter_def)

lemma login_failed_frame [frame]:
  "hs_users (login_failed en r n x l s) = hs_users s" "hs_registry (login_failed en r n x l s) = hs_registry s"
  "hs_tokens (login_failed en r n x l s) = hs_tokens s"
  by (simp_all add: login_failed_def frame)

lemma register_session_frame [frame]:
  "hs_users (register_session en r sess n ro ip s) = hs_users s"
  "hs_tokens (register_session en r sess n ro ip s) = hs_tokens s"
  "hs_limiter (register_session en r sess n ro ip s) = hs_limiter s"
  by (auto simp: register_session_def Let_def split: option.splits prod.splits)

lemma drop_user_sessions_frame [frame]:
  "hs_users (snd (snd (drop_user_sessions en n s))) = hs_users s"
  "hs_tokens (snd (snd (drop_user_sessions en n s))) = hs_tokens s"
  "hs_limiter (snd (snd (drop_user_sessions en n s))) = hs_limiter s"
  by (auto simp: drop_user_sessions_def Let_def split: option.splits prod.splits)

lemma drop_one_session_frame [frame]:
  "hs_users (snd (snd (drop_one_session en i s))) = hs_users s"
  "hs_tokens (snd (snd (drop_one_session en i s))) = hs_tokens s"
  "hs_limiter (snd (snd (drop_one_session en i s))) = hs_limiter s"
  by (auto simp: drop_one_session_def Let_def split: option.splits prod.splits)

lemma live_check_frame [frame]:
  "hs_users (snd (live_check k en sess s)) = hs_users s" "hs_tokens (snd (live_check k en sess s)) = hs_tokens s"
  "hs_limiter (snd (live_check k en sess s)) = hs_limiter s"
  by (auto simp: live_check_def split: prod.splits)

lemma with_users_frame [frame]:
  "hs_registry (snd (with_users f s)) = hs_registry s" "hs_tokens (snd (with_users f s)) = hs_tokens s"
  "hs_limiter (snd (with_users f s)) = hs_limiter s"
  by (auto simp: with_users_def Let_def split: option.splits prod.splits)

text \<open>The same for the components of a result.\<close>

lemma with_usersE [frame]:
  assumes "with_users f s = (x, s')"
  shows "hs_registry s' = hs_registry s" "hs_tokens s' = hs_tokens s" "hs_limiter s' = hs_limiter s"
  using with_users_frame [of f s] assms by simp_all

lemma drop_user_sessionsE [frame]:
  assumes "drop_user_sessions en n s = (k, ok, s')"
  shows "hs_users s' = hs_users s" "hs_tokens s' = hs_tokens s" "hs_limiter s' = hs_limiter s"
  using drop_user_sessions_frame [of en n s] assms by simp_all

lemma drop_one_sessionE [frame]:
  assumes "drop_one_session en i s = (was, ok, s')"
  shows "hs_users s' = hs_users s" "hs_tokens s' = hs_tokens s" "hs_limiter s' = hs_limiter s"
  using drop_one_session_frame [of en i s] assms by simp_all

lemma live_checkE [frame]:
  assumes "live_check k en sess s = (live, s')"
  shows "hs_users s' = hs_users s" "hs_tokens s' = hs_tokens s" "hs_limiter s' = hs_limiter s"
  using live_check_frame [of k en sess s] assms by simp_all

section \<open>The checks\<close>

text \<open>A live session is one of an account with the stamp of the session; its role is that of the account now.\<close>

lemma live_check_account:
  assumes "live_check k en sess s = (Some live, s')" "hs_users s = Some st"
  obtains u where "find_user st (s_user sess) = Some u" "u_session u = s_version sess" "s_role live = u_role u"
    "s_user live = s_user sess"
  using assms
  by (auto simp: live_check_def live_session_checked_def live_session_def store_lookup_def get_user_def
      session_version_def public_def Let_def split: option.splits prod.splits if_splits)

text \<open>An administrator's request carries an administrator's token or the live cookie of an administrator.\<close>

definition admin_request :: "http_config \<Rightarrow> http_env \<Rightarrow> http_request \<Rightarrow> http_state \<Rightarrow> bool" where
  "admin_request cf en r s \<longleftrightarrow> bearer_ok cf en s r scope_admin \<or>
     (\<exists>st sess u. hs_users s = Some st \<and> session_from_request cf en r = Inr sess \<and> find_user st (s_user sess) = Some u \<and>
        u_session u = s_version sess \<and> u_role u = role_administrator \<and> \<not> u_must_reset u)"

definition csrf_proved :: "http_env \<Rightarrow> http_request \<Rightarrow> bool" where
  "csrf_proved en r \<longleftrightarrow> csrf_origin_ok en r \<and>
     (\<exists>t. rq_cookie r csrf_cookie_name = Some t \<and> t \<noteq> [] \<and> trim_space (rq_header r csrf_header_name) = t)"

lemma require_admin_pass:
  assumes "require_admin cf en r s = (Go_on ctx, s')" "\<not> hc_disabled cf" "hs_users s = Some st"
  shows "admin_request cf en r s"
proof -
  consider "bearer_ok cf en s r scope_admin"
    | sess live where "session_from_request cf en r = Inr sess" "live_check 0 en sess s = (Some live, s')"
      "is_admin (s_role live)" "\<not> must_reset_denied s' (s_user live)"
    using assms(1,2) by (auto simp: require_admin_def split: if_splits sum.splits prod.splits option.splits)
  then show ?thesis
  proof cases
    case 2
    obtain u where "find_user st (s_user sess) = Some u" "u_session u = s_version sess" "s_role live = u_role u"
      "s_user live = s_user sess"
      using live_check_account [OF 2(2) assms(3)] .
    moreover have "hs_users s' = Some st" using live_checkE(1) [OF 2(2)] assms(3) by simp
    ultimately show ?thesis
      using 2 assms(3) by (auto simp: admin_request_def is_admin_def must_reset_denied_def must_reset_def
          get_user_def public_def)
  qed (simp add: admin_request_def)
qed

lemma require_admin_frame [frame]:
  assumes "require_admin cf en r s = (g, s')"
  shows "hs_users s' = hs_users s" "hs_tokens s' = hs_tokens s" "hs_limiter s' = hs_limiter s"
  using assms by (auto simp: require_admin_def frame split: if_splits sum.splits prod.splits option.splits)

lemma require_login_frame [frame]:
  assumes "require_login cf en r s = (g, s')"
  shows "hs_users s' = hs_users s" "hs_tokens s' = hs_tokens s" "hs_limiter s' = hs_limiter s"
  using assms by (auto simp: require_login_def frame split: if_splits sum.splits prod.splits option.splits)

lemma csrf_check_frame [frame]:
  assumes "csrf_check cf en r s = (x, s')"
  shows "hs_users s' = hs_users s" "hs_tokens s' = hs_tokens s" "hs_limiter s' = hs_limiter s"
    "hs_registry s' = hs_registry s"
  using assms by (auto simp: csrf_check_def Let_def frame split: if_splits option.splits)

lemma proxy_gate_frame [frame]:
  assumes "proxy_gate cf en r s = (x, s')"
  shows "hs_users s' = hs_users s" "hs_tokens s' = hs_tokens s" "hs_limiter s' = hs_limiter s"
    "hs_registry s' = hs_registry s"
  using assms by (auto simp: proxy_gate_def frame split: if_splits)

lemma admit_frame [frame]:
  assumes "admit a cf en r s = (g, s')"
  shows "hs_users s' = hs_users s" "hs_tokens s' = hs_tokens s" "hs_limiter s' = hs_limiter s"
  using assms by (cases a; auto simp: admit_def frame)+

lemma csrf_check_pass:
  assumes "csrf_check cf en r s = (None, s')" "\<not> hc_disabled cf" "\<not> safe_method (rq_method r)"
    "session_from_request cf en r = Inr sess" "\<not> bearer_any cf en s r"
  shows "csrf_proved en r"
proof -
  obtain v where "rq_cookie r cookie_name = Some v" "v \<noteq> []"
    using assms(4) by (auto simp: session_from_request_def split: option.splits if_splits)
  then show ?thesis
    using assms by (auto simp: csrf_check_def csrf_proved_def Let_def split: if_splits option.splits)
qed

section \<open>The accounts\<close>

text \<open>The operations by which a user changes the own account.\<close>

fun own_op :: "user_op \<Rightarrow> bool" where
  "own_op (Set_wizard n b) = True"
| "own_op (Set_preferences n t g) = True"
| "own_op (Change_password n p q) = True"
| "own_op (Bump_session n) = True"
| "own_op _ = False"

text \<open>One operation of the store of accounts, done with the disk as it is at that moment.\<close>

definition users_stepped :: "http_env \<Rightarrow> user_op \<Rightarrow> user_store option \<Rightarrow> user_store option \<Rightarrow> bool" where
  "users_stepped en op us us' \<longleftrightarrow>
     (\<exists>st d res st' d'. us = Some st \<and> us' = Some st' \<and> user_step (he_user en) op (st, d) = (res, st', d'))"

definition users_kept_or :: "http_env \<Rightarrow> (user_op \<Rightarrow> bool) \<Rightarrow> user_store option \<Rightarrow> user_store option \<Rightarrow> bool" where
  "users_kept_or en P us us' \<longleftrightarrow> us' = us \<or> (\<exists>op. P op \<and> users_stepped en op us us')"

lemma users_keptI [simp]: "users_kept_or en P us us"
  by (simp add: users_kept_or_def)

lemma users_kept_or_mono: "users_kept_or en P us us' \<Longrightarrow> (\<And>op. P op \<Longrightarrow> Q op) \<Longrightarrow> users_kept_or en Q us us'"
  by (auto simp: users_kept_or_def)

lemma with_users_stepped:
  assumes "with_users f s = (x, s')" "\<And>st d. user_step (he_user en) op (st, d) = forget (f st d)" "P op"
  shows "users_kept_or en P (hs_users s) (hs_users s')"
proof (cases "hs_users s")
  case (Some st)
  obtain res st' d' where f: "f st (hs_disk s) = (res, st', d')" by (metis prod_cases3)
  then have "hs_users s' = Some st'" using assms(1) Some by (auto simp: with_users_def)
  moreover obtain res' where "user_step (he_user en) op (st, hs_disk s) = (res', st', d')"
    unfolding assms(2) f forget_def by (cases res) auto
  ultimately show ?thesis using Some assms(3) by (auto simp: users_stepped_def users_kept_or_def)
qed (use assms(1) in \<open>simp add: with_users_def\<close>)

lemma user_change_users:
  assumes "user_change en r ctx a n ex ds k (with_users f s) = (resp, s')"
    "\<And>st d. user_step (he_user en) op (st, d) = forget (f st d)" "P op"
  shows "users_kept_or en P (hs_users s) (hs_users s')"
proof -
  obtain x s1 where w: "with_users f s = (x, s1)" by (metis prod.collapse)
  then have "hs_users s' = hs_users s1" using assms(1) by (auto simp: user_change_def frame split: sum.splits)
  moreover have "users_kept_or en P (hs_users s) (hs_users s1)"
    using assms(2,3) by (intro with_users_stepped [OF w])
  ultimately show ?thesis by simp
qed

text \<open>The operations a handler may do.\<close>

definition handler_op :: "http_config \<Rightarrow> http_env \<Rightarrow> call \<Rightarrow> http_request \<Rightarrow> http_state \<Rightarrow> user_op \<Rightarrow> bool" where
  "handler_op cf en c r s op \<longleftrightarrow> route_access c = Admin_needed \<or>
     (\<exists>sess. session_from_request cf en r = Inr sess \<and> own_op op \<and> op_key op = user_key (s_user sess) \<and>
        (route_access c = Login_needed \<or> (\<exists>live. fst (live_check 1 en sess s) = Some live)))"

lemma admin_handlers_users:
  assumes "handle cf en r ctx c s = (resp, s')" "route_access c = Admin_needed"
  shows "users_kept_or en (handler_op cf en c r s) (hs_users s) (hs_users s')"
proof -
  have any: "handler_op cf en c r s op" for op using assms(2) by (simp add: handler_op_def)
  note [split] = if_splits decoded.splits option.splits sum.splits prod.splits
  show ?thesis
  proof (cases c)
    case (Create_call b)
    with assms(1) show ?thesis
      by (auto simp: create_user_handler_def handler_op_def intro!: user_change_users [where op = "Create_user _ _ _ _ _"])
  next
    case (Role_call b)
    with assms(1) show ?thesis
      by (auto simp: set_role_handler_def handler_op_def intro!: user_change_users [where op = "Set_role _ _"])
  next
    case (Full_name_call b)
    with assms(1) show ?thesis
      by (auto simp: set_full_name_handler_def handler_op_def intro!: user_change_users [where op = "Set_full_name _ _"])
  next
    case (Reset_call b)
    with assms(1) show ?thesis
      by (auto simp: reset_password_handler_def handler_op_def intro!: user_change_users [where op = "Reset_password _ _ _"])
  next
    case (Delete_call b)
    have "users_kept_or en (handler_op cf en c r s) (hs_users s) (hs_users s1)"
      if "with_users (service_delete_user (he_user en) n actor) s = (x, s1)" for n actor x s1
      using with_users_stepped [OF that, where en = en and op = "Delete_user (trim_space n) actor"] any
      by (simp add: service_delete_user_def forget_def split: sum.splits)
    with Delete_call assms(1) show ?thesis by (auto simp: delete_user_handler_def Let_def frame)
  next
    case (Revoke_user_call b)
    have "users_kept_or en (handler_op cf en c r s) (hs_users s) (hs_users s1)"
      if "with_users (bump_session_version (he_user en) n) s = (x, s1)" for n x s1
      using with_users_stepped [OF that, where en = en and op = "Bump_session n"] any
      by (simp add: forget_def split: sum.splits prod.splits)
    with Revoke_user_call assms(1) show ?thesis by (auto simp: revoke_user_sessions_handler_def Let_def frame)
  qed (use assms in \<open>auto simp: list_sessions_handler_def revoke_session_handler_def users_list_handler_def
      tokens_list_handler_def token_create_handler_def token_rotate_handler_def token_revoke_handler_def
      token_change_def Let_def frame\<close>)
qed

lemma live_check_user: "live_check k en sess s = (Some live, s') \<Longrightarrow> s_user live = s_user sess"
  by (auto simp: live_check_def live_session_checked_def live_session_def Let_def
      split: option.splits prod.splits if_splits)

lemma service_change_password_step:
  assumes "service_change_password (he_user en) senv ms n old new st d = (res, st', d')"
    "P (Change_password n old new)"
  shows "users_kept_or en P (Some st) (Some st')"
proof -
  obtain res1 st1 d1 where c: "change_password (he_user en) n old new st d = (res1, st1, d1)" by (metis prod_cases3)
  then obtain res' where "user_step (he_user en) (Change_password n old new) (st, d) = (res', st1, d1)"
    by (cases res1) (auto simp: forget_def)
  moreover have "st' = st \<or> st' = st1"
    using assms(1) c by (auto simp: service_change_password_def split: option.splits sum.splits)
  ultimately show ?thesis using assms(2) unfolding users_kept_or_def users_stepped_def by blast
qed

lemma own_handlers_users:
  assumes "handle cf en r ctx c s = (resp, s')" "route_access c \<noteq> Admin_needed"
  shows "users_kept_or en (handler_op cf en c r s) (hs_users s) (hs_users s')"
proof -
  note [split] = if_splits decoded.splits option.splits sum.splits prod.splits service_err.splits
  show ?thesis
  proof (cases c)
    case (Logout_all_call b)
    have "users_kept_or en (handler_op cf en c r s) (hs_users s) (hs_users s2)"
      if "with_users (bump_session_version (he_user en) (s_user live)) s1 = (x, s2)"
        "session_from_request cf en r = Inr sess" "live_check 1 en sess s = (Some live, s1)" for sess live s1 x s2
      using with_users_stepped [OF that(1), where en = en and op = "Bump_session (s_user live)"]
        that(2,3) live_check_user [OF that(3)] live_checkE(1) [OF that(3)]
      by (simp add: forget_def handler_op_def)
    with Logout_all_call assms(1) show ?thesis by (auto simp: logout_all_handler_def Let_def frame)
  next
    case (Change_password_call b)
    have "users_kept_or en (handler_op cf en c r s) (Some st) (Some st')"
      if "service_change_password (he_user en) senv ms (s_user sess) old new st d = (res, st', d')"
        "session_from_request cf en r = Inr sess" "live_check 1 en sess s = (Some live, s1)"
      for senv ms sess live s1 old new st d res st' d'
      using that by (intro service_change_password_step [OF that(1)]) (auto simp: handler_op_def)
    with Change_password_call assms(1) show ?thesis by (auto simp: change_password_handler_def Let_def frame)
  next
    case (Preferences_call b)
    have "users_kept_or en (handler_op cf en c r s) (hs_users s) (hs_users s2)"
      if "with_users (set_preferences (he_user en) (s_user sess) t g) s = (x, s2)"
        "session_from_request cf en r = Inr sess" for sess t g x s2
      using with_users_stepped [OF that(1), where en = en and op = "Set_preferences (s_user sess) t g"]
        that(2) Preferences_call by (simp add: handler_op_def)
    with Preferences_call assms(1) show ?thesis by (auto simp: preferences_handler_def Let_def frame)
  next
    case (Dismiss_call b)
    have "users_kept_or en (handler_op cf en c r s) (hs_users s) (hs_users s2)"
      if "with_users (set_geo_wizard_dismissed (he_user en) (s_user sess) off) s = (x, s2)"
        "session_from_request cf en r = Inr sess" for sess off x s2
      using with_users_stepped [OF that(1), where en = en and op = "Set_wizard (s_user sess) off"]
        that(2) Dismiss_call by (simp add: handler_op_def)
    with Dismiss_call assms(1) show ?thesis by (auto simp: dismiss_handler_def Let_def frame)
  qed (use assms in \<open>auto simp: login_handler_def logout_handler_def me_handler_def check_handler_def check_scope_def
      check_ops_handler_def check_admin_handler_def directory_handler_def Let_def frame\<close>)
qed

lemma handle_users:
  assumes "handle cf en r ctx c s = (resp, s')"
  shows "users_kept_or en (handler_op cf en c r s) (hs_users s) (hs_users s')"
  using admin_handlers_users [OF assms] own_handlers_users [OF assms] by blast

text \<open>Serving a request: nothing changes, or the checks were passed and the handler ran.\<close>

lemma serve_cases:
  assumes "serve cf en c r s = (resp, s')"
  obtains (stopped) "hs_users s' = hs_users s" "hs_tokens s' = hs_tokens s" "hs_limiter s' = hs_limiter s"
  | (handled) s1 s2 s3 ctx where "proxy_gate cf en r s = (None, s1)" "method_matches c r"
    "admit (route_access c) cf en r s1 = (Go_on ctx, s2)"
    "(if route_csrf c then csrf_check cf en r s2 else (None, s2)) = (None, s3)"
    "handle cf en r ctx c s3 = (resp, s')"
    "hs_users s1 = hs_users s" "hs_tokens s1 = hs_tokens s" "hs_users s2 = hs_users s" "hs_tokens s2 = hs_tokens s"
    "hs_users s3 = hs_users s" "hs_tokens s3 = hs_tokens s" "hs_limiter s3 = hs_limiter s"
proof -
  obtain g s1 where gate: "proxy_gate cf en r s = (g, s1)" by fastforce
  obtain a s2 where admit: "admit (route_access c) cf en r s1 = (a, s2)" by fastforce
  obtain x s3 where csrf: "(if route_csrf c then csrf_check cf en r s2 else (None, s2)) = (x, s3)" by fastforce
  note f1 = proxy_gate_frame [OF gate] and f2 = admit_frame [OF admit]
  have f3: "hs_users s3 = hs_users s2" "hs_tokens s3 = hs_tokens s2" "hs_limiter s3 = hs_limiter s2"
    using csrf csrf_check_frame [of cf en r s2 x s3] by (auto split: if_splits)
  show ?thesis
  proof (cases "g = None \<and> method_matches c r \<and> (\<exists>ctx. a = Go_on ctx) \<and> x = None")
    case True
    then obtain ctx where "a = Go_on ctx" by blast
    with True gate admit csrf f1 f2 f3 assms show ?thesis
      by (intro handled [of s1 ctx s2 s3]) (auto simp: serve_def split: prod.splits)
  next
    case False
    with gate admit csrf f1 f2 f3 assms show ?thesis
      by (intro stopped) (auto simp: serve_def split: prod.splits option.splits guard.splits if_splits)
  qed
qed

lemma handle_tokens:
  assumes "handle cf en r ctx c s = (resp, s')" "route_access c \<noteq> Admin_needed"
  shows "hs_tokens s' = hs_tokens s"
proof -
  note [split] = if_splits decoded.splits option.splits sum.splits prod.splits service_err.splits
  show ?thesis
    using assms by (cases c) (auto simp: login_handler_def logout_handler_def logout_all_handler_def me_handler_def
        preferences_handler_def dismiss_handler_def change_password_handler_def check_handler_def check_scope_def
        check_ops_handler_def check_admin_handler_def directory_handler_def Let_def frame)
qed

lemma handle_get_keeps:
  assumes "handle cf en r ctx c s = (resp, s')" "\<not> route_csrf c"
  shows "hs_users s' = hs_users s \<and> hs_tokens s' = hs_tokens s"
proof -
  note [split] = if_splits decoded.splits option.splits sum.splits prod.splits service_err.splits
  show ?thesis
    using assms by (cases c) (auto simp: login_handler_def me_handler_def check_handler_def check_scope_def
        check_ops_handler_def check_admin_handler_def directory_handler_def users_list_handler_def tokens_list_handler_def
        list_sessions_handler_def Let_def frame)
qed

lemma csrf_route_unsafe: "route_csrf c \<Longrightarrow> method_matches c r \<Longrightarrow> \<not> safe_method (rq_method r)"
  by (cases c) (auto simp: method_matches_def safe_method_def code_def)

lemma bearer_cong:
  assumes "hs_tokens s' = hs_tokens s"
  shows "bearer_scope cf en s' r = bearer_scope cf en s r" "bearer_ok cf en s' r need = bearer_ok cf en s r need"
    "bearer_any cf en s' r = bearer_any cf en s r"
  by (simp_all add: bearer_scope_def bearer_ok_def bearer_any_def assms Let_def)

lemma admin_request_cong:
  assumes "hs_users s' = hs_users s" "hs_tokens s' = hs_tokens s"
  shows "admin_request cf en r s' = admin_request cf en r s"
  by (simp add: admin_request_def assms(1) bearer_cong(2) [OF assms(2)])

lemma own_op_role:
  assumes "user_step env op (st, d) = (res, st', d')" "own_op op"
  shows "map_option u_role (gm_get (us_users st') (op_key op)) = map_option u_role (gm_get (us_users st) (op_key op))"
  using assms by (cases op) (auto simp: step_defs find_user_def user_key_def split: step_splits)

text \<open>C1: Whatever request is served, accounts and API tokens change only under authority. Either the request is an
  administrator's: it carries a bearer token of the scope admin, or the cookie of a session with the current stamp of an
  account that is an administrator now and has no password to reset. Or it changes nothing but one account, whose
  session cookie it carries, not the role of that account and no token, and the session has the current stamp of the
  account or the request carries a bearer token as well. In every case the request carries a bearer token or has
  proved with the CSRF token and its origin that it is not forged.\<close>
theorem accounts_need_authority:
  assumes "serve cf en c r s = (resp, s')" "\<not> hc_disabled cf" "hs_users s = Some st"
    "hs_users s' \<noteq> hs_users s \<or> hs_tokens s' \<noteq> hs_tokens s"
  shows "(bearer_any cf en s r \<or> csrf_proved en r) \<and>
    (admin_request cf en r s \<or>
     (\<exists>sess st' k. session_from_request cf en r = Inr sess \<and> k = user_key (s_user sess) \<and> hs_users s' = Some st' \<and>
        hs_tokens s' = hs_tokens s \<and> (\<forall>k'. k' \<noteq> k \<longrightarrow> gm_get (us_users st') k' = gm_get (us_users st) k') \<and>
        map_option u_role (gm_get (us_users st') k) = map_option u_role (gm_get (us_users st) k) \<and>
        (bearer_ok cf en s r scope_read \<or>
         (\<exists>u. find_user st (s_user sess) = Some u \<and> u_session u = s_version sess))))"
  using assms(1)
proof (cases rule: serve_cases)
  case stopped
  with assms(4) show ?thesis by simp
next
  case (handled s1 s2 s3 ctx)
  note tok1 = bearer_cong [OF handled(7)] and tok2 = bearer_cong [OF handled(9)] and tok3 = bearer_cong [OF handled(11)]
  have changed: "hs_users s' \<noteq> hs_users s3 \<or> hs_tokens s' \<noteq> hs_tokens s3" using assms(4) handled by simp
  have csrf: "route_csrf c" using handle_get_keeps [OF handled(5)] changed by blast
  have proved: "csrf_proved en r" if "session_from_request cf en r = Inr sess" "\<not> bearer_any cf en s r" for sess
    using handled(4) csrf csrf_check_pass [of cf en r s2 s3 sess] assms(2) that csrf_route_unsafe [OF csrf handled(2)]
    by (simp add: tok2)
  show ?thesis
  proof (cases "route_access c = Admin_needed")
    case True
    then have "require_admin cf en r s1 = (Go_on ctx, s2)" using handled(3) by (simp add: admit_def)
    then have "admin_request cf en r s1" using handled(6) assms(2,3) by (intro require_admin_pass) auto
    then have admin: "admin_request cf en r s" using admin_request_cong [OF handled(6,7)] by simp
    then have "bearer_any cf en s r \<or> csrf_proved en r"
      using proved by (auto simp: admin_request_def bearer_ok_def bearer_any_def split: option.splits)
    with admin show ?thesis by blast
  next
    case False
    then have toks: "hs_tokens s' = hs_tokens s3" by (rule handle_tokens [OF handled(5)])
    then obtain op where op: "handler_op cf en c r s3 op" "users_stepped en op (hs_users s3) (hs_users s')"
      using handle_users [OF handled(5)] changed by (auto simp: users_kept_or_def)
    then obtain sess where sess: "session_from_request cf en r = Inr sess" "own_op op" "op_key op = user_key (s_user sess)"
      "route_access c = Login_needed \<or> (\<exists>live. fst (live_check 1 en sess s3) = Some live)"
      using False by (auto simp: handler_op_def)
    obtain d res st' d' where step: "user_step (he_user en) op (st, d) = (res, st', d')" "hs_users s' = Some st'"
      using op(2) handled(10) assms(3) by (auto simp: users_stepped_def)
    have live: "bearer_ok cf en s r scope_read \<or> (\<exists>u. find_user st (s_user sess) = Some u \<and> u_session u = s_version sess)"
    proof (cases "route_access c = Login_needed")
      case True
      then have pass: "require_login cf en r s1 = (Go_on ctx, s2)" using handled(3) by (simp add: admit_def)
      show ?thesis
      proof (cases "bearer_ok cf en s r scope_read")
        case False
        then obtain live where "live_check 0 en sess s1 = (Some live, s2)"
          using pass assms(2) sess(1) by (auto simp: require_login_def tok1 split: if_splits prod.splits option.splits)
        then show ?thesis using live_check_account [of 0 en sess s1 live s2 st] handled(6) assms(3) by metis
      qed simp
    next
      case False
      then obtain live where "live_check 1 en sess s3 = (Some live, snd (live_check 1 en sess s3))"
        using sess(4) by (metis prod.collapse)
      then show ?thesis using live_check_account [of 1 en sess s3 live _ st] handled(10) assms(3) by metis
    qed
    have "bearer_any cf en s r \<or> csrf_proved en r" using proved sess(1) by blast
    moreover have "hs_tokens s' = hs_tokens s" using toks handled(11) by simp
    moreover have "gm_get (us_users st') k = gm_get (us_users st) k" if "k \<noteq> user_key (s_user sess)" for k
      using step_frame [OF step(1)] sess(3) that by simp
    moreover note own_op_role [OF step(1) sess(2)]
    ultimately show ?thesis using live sess(1,3) step(2) by auto
  qed
qed

section \<open>Histories of requests\<close>

lemma token_change_step:
  assumes "token_change en r ctx a n ex dn rs out s = (resp, s')" "hs_tokens s = Some st"
    "token_step (he_token en) op (st, hs_disk s) = snd out"
  shows "\<exists>st' d'. hs_tokens s' = Some st' \<and> token_step (he_token en) op (st, hs_disk s) = (st', d')"
  using assms by (auto simp: token_change_def frame split: prod.splits sum.splits)

lemma handle_token_step:
  assumes "handle cf en r ctx c s = (resp, s')"
  shows "hs_tokens s' = hs_tokens s \<or>
    (\<exists>st op st' d'. hs_tokens s = Some st \<and> hs_tokens s' = Some st' \<and> token_step (he_token en) op (st, hs_disk s) = (st', d'))"
proof (cases "route_access c = Admin_needed")
  case True
  note [split] = if_splits decoded.splits option.splits sum.splits prod.splits
  have u: "hs_tokens s2 = hs_tokens s1" if "user_change en r ctx a n ex ds k (with_users f s1) = (x, s2)" for a n ex ds k f s1 x s2
    using that by (auto simp: user_change_def frame)
  show ?thesis
  proof (cases c)
    case (Token_create_call b)
    with assms show ?thesis
      by (auto simp: token_create_handler_def dest!: token_change_step [where op = "Create_token _ _ _"])
  next
    case (Token_rotate_call b)
    with assms show ?thesis
      by (auto simp: token_rotate_handler_def dest!: token_change_step [where op = "Rotate_token _"])
  next
    case (Token_revoke_call b)
    with assms show ?thesis
      by (auto simp: token_revoke_handler_def dest!: token_change_step [where op = "Revoke_token _"])
  qed (use assms True in \<open>auto simp: list_sessions_handler_def revoke_session_handler_def users_list_handler_def
      tokens_list_handler_def create_user_handler_def set_role_handler_def set_full_name_handler_def
      reset_password_handler_def delete_user_handler_def revoke_user_sessions_handler_def Let_def frame dest!: u\<close>)
qed (use handle_tokens [OF assms] in simp)

text \<open>A request that is served, in a world whose bcrypt and SHA-256 give proper hashes.\<close>

inductive http_step :: "http_state \<Rightarrow> http_state \<Rightarrow> bool" where
  request: "serve cf en c r s = (resp, s') \<Longrightarrow> env_ok (he_user en) \<Longrightarrow> sha_law (he_token en) \<Longrightarrow> http_step s s'"

inductive_cases http_stepE: "http_step s s'"

definition http_ok :: "http_state \<Rightarrow> bool" where
  "http_ok s \<longleftrightarrow> (\<exists>st. hs_users s = Some st \<and> users_wf st \<and> has_admin st) \<and>
     (\<forall>ts. hs_tokens s = Some ts \<longrightarrow> tokens_wf ts)"

lemma http_step_ok:
  assumes "http_step s s'" "http_ok s"
  shows "http_ok s'"
proof -
  obtain cf en c r resp where 1: "serve cf en c r s = (resp, s')" "env_ok (he_user en)" "sha_law (he_token en)"
    using assms(1) by (rule http_stepE)
  obtain st where st: "hs_users s = Some st" "users_wf st" "has_admin st" using assms(2) by (auto simp: http_ok_def)
  from 1(1) show ?thesis
  proof (cases rule: serve_cases)
    case stopped
    with assms(2) show ?thesis by (simp add: http_ok_def)
  next
    case (handled s1 s2 s3 ctx)
    have "\<exists>st'. hs_users s' = Some st' \<and> users_wf st' \<and> has_admin st'"
    proof -
      have "users_kept_or en (handler_op cf en c r s3) (Some st) (hs_users s')"
        using handle_users [OF handled(5)] handled(10) st(1) by simp
      then consider "hs_users s' = Some st"
        | op d res st' d' where "user_step (he_user en) op (st, d) = (res, st', d')" "hs_users s' = Some st'"
        by (auto simp: users_kept_or_def users_stepped_def)
      then show ?thesis
      proof cases
        case (2 op d res st' d')
        note ch = step_change [OF 2(1) 1(2)]
        from change_wf [OF ch st(2)] change_admin [OF ch st(2,3)] 2(2) show ?thesis by blast
      qed (use st in simp)
    qed
    moreover have "tokens_wf ts" if ts: "hs_tokens s' = Some ts" for ts
    proof -
      have old: "tokens_wf ts0" if "hs_tokens s3 = Some ts0" for ts0
        using assms(2) that handled(11) by (simp add: http_ok_def)
      from handle_token_step [OF handled(5)] show ?thesis
        using ts old token_step_wf [OF old 1(3)] by (metis option.inject)
    qed
    ultimately show ?thesis by (simp add: http_ok_def)
  qed
qed

interpretation http_sys: invariant_system http_ok http_step http_ok
  by unfold_locales (auto intro: http_step_ok)

text \<open>C2: Whatever requests are served, in any order, by administrators and by others, and whatever writes to the disk
  fail: if the accounts have an administrator at the start, they have one at the end, and the stores of accounts and
  of API tokens stay well formed.\<close>
theorem http_administrator_remains:
  assumes "http_step\<^sup>*\<^sup>* s s'" "hs_users s = Some st" "users_wf st" "1 \<le> admin_count st"
    "\<forall>ts. hs_tokens s = Some ts \<longrightarrow> tokens_wf ts"
  shows "\<exists>st'. hs_users s' = Some st' \<and> users_wf st' \<and> 1 \<le> admin_count st' \<and>
    (\<forall>ts. hs_tokens s' = Some ts \<longrightarrow> tokens_wf ts)"
proof -
  have gm: "gm_ok (us_users x)" if "users_wf x" for x using that by (simp add: users_wf_def)
  have "http_ok s" using assms(2-5) admin_count_iff [OF gm] by (auto simp: http_ok_def)
  from http_sys.steps_inv [OF assms(1) this] show ?thesis
    using admin_count_iff [OF gm] by (auto simp: http_ok_def)
qed

end
