(* ===== verification/Http_Login.thy ===== *)
theory Http_Login
  imports Http_Access
begin

text \<open>
  What a login gives and what a logout takes away, over the requests that follow: the cookie of a login passes the
  checks, and after a logout no request with that cookie does, whatever else is served. The sessions are followed
  through the registry, which every request with a session prunes and touches.
\<close>

section \<open>A session that is out of the registry stays out\<close>

definition out_of_registry :: "string \<Rightarrow> http_state \<Rightarrow> bool" where
  "out_of_registry sid s \<longleftrightarrow> (\<exists>reg. hs_registry s = Some reg \<and> reg_ok reg \<and> gm_get (rg_by_id reg) sid = None)"

lemma out_cong: "hs_registry s' = hs_registry s \<Longrightarrow> out_of_registry sid s' \<longleftrightarrow> out_of_registry sid s"
  by (simp add: out_of_registry_def)

lemma reg_step_out:
  assumes "out_of_registry sid s" "hs_registry s = Some reg" "hs_registry s' = Some (fst (reg_step env op (reg, d)))"
    "\<not> registers op sid"
  shows "out_of_registry sid s'"
  using assms reg_step_ok reg_step_absent unfolding out_of_registry_def by (metis option.inject)

lemma live_check_out:
  assumes "live_check k en sess s = (live, s')" "out_of_registry sid s"
  shows "out_of_registry sid s'"
proof -
  obtain reg where reg: "hs_registry s = Some reg" "reg_ok reg" "gm_get (rg_by_id reg) sid = None"
    using assms(2) by (auto simp: out_of_registry_def)
  let ?env = "he_registry en k" and ?i = "s_sid sess"
  obtain there reg1 where has: "has_session ?env ?i reg = (there, reg1)" by fastforce
  obtain reg2 d2 where tou: "touch ?env ?i reg1 (hs_disk s) = (reg2, d2)" by fastforce
  have reg1: "reg_ok reg1" "gm_get (rg_by_id reg1) sid = None"
    using reg_step_ok [OF reg(2), of ?env "Has_session ?i" undefined] has
      reg_step_absent [OF reg(2,3), of "Has_session ?i" ?env undefined] by simp_all
  have reg2: "reg_ok reg2" "gm_get (rg_by_id reg2) sid = None"
    using reg_step_ok [OF reg1(1), of ?env "Touch ?i" "hs_disk s"] tou
      reg_step_absent [OF reg1, of "Touch ?i" ?env "hs_disk s"] by simp_all
  have "hs_registry s' \<in> {Some reg, Some reg1, Some reg2}"
    using assms(1) reg(1) has tou
    by (auto simp: live_check_def live_session_checked_def Let_def split: option.splits if_splits prod.splits)
  then show ?thesis using reg reg1 reg2 by (auto simp: out_of_registry_def)
qed

lemma drop_user_sessions_out:
  assumes "drop_user_sessions en n s = (k, ok, s')" "out_of_registry sid s"
  shows "out_of_registry sid s'"
proof -
  obtain reg where reg: "hs_registry s = Some reg" using assms(2) by (auto simp: out_of_registry_def)
  have "hs_registry s' = Some (fst (reg_step (he_registry en 2) (Revoke_user n) (reg, hs_disk s)))"
    using assms(1) reg by (auto simp: drop_user_sessions_def split: prod.splits)
  from reg_step_out [OF assms(2) reg this] show ?thesis by simp
qed

lemma drop_one_session_out:
  assumes "drop_one_session en i s = (was, ok, s')" "out_of_registry sid s"
  shows "out_of_registry sid s'"
proof -
  obtain reg where reg: "hs_registry s = Some reg" using assms(2) by (auto simp: out_of_registry_def)
  have "hs_registry s' = Some (fst (reg_step (he_registry en 2) (Revoke i) (reg, hs_disk s)))"
    using assms(1) reg by (auto simp: drop_one_session_def split: prod.splits)
  from reg_step_out [OF assms(2) reg this] show ?thesis by simp
qed

lemma register_session_out:
  assumes "out_of_registry sid s" "s_sid sess \<noteq> sid"
  shows "out_of_registry sid (register_session en r sess n ro ip s)"
proof (cases "trim_space (s_sid sess) = []")
  case False
  obtain reg where reg: "hs_registry s = Some reg" using assms(1) by (auto simp: out_of_registry_def)
  let ?rec = "\<lparr>r_id = s_sid sess, r_user = n, r_role = ro, r_ip = ip, r_agent = rq_header r ''User-Agent'',
    r_created = 0, r_expires = expires_from_session sess, r_seen = 0\<rparr>"
  have "hs_registry (register_session en r sess n ro ip s) =
      Some (fst (reg_step (he_registry en 3) (Register ?rec) (reg, hs_disk s)))"
    using False reg by (auto simp: register_session_def split: prod.splits)
  from reg_step_out [OF assms(1) reg this] assms(2) show ?thesis by simp
qed (use assms in \<open>auto simp: register_session_def out_of_registry_def\<close>)

lemma login_sid:
  assumes "login uenv senv us ms n p = Inr (u, token, sess)"
  shows "s_sid sess = fresh_sid senv"
  using assms issue_session(4) by (auto simp: login_def split: option.splits sum.splits)

lemma change_password_sid:
  assumes "service_change_password uenv senv ms n old new st d = (Inr (p, token, sess), st', d')"
  shows "s_sid sess = fresh_sid senv"
  using assms issue_session(4) by (auto simp: service_change_password_def split: option.splits sum.splits prod.splits)

lemma with_users_out:
  assumes "with_users f s = (x, s')" shows "out_of_registry sid s' \<longleftrightarrow> out_of_registry sid s"
  by (rule out_cong) (rule with_usersE(1) [OF assms])

lemma user_change_out:
  assumes "user_change en r ctx a n ex ds k (with_users f s) = (resp, s')"
  shows "out_of_registry sid s' \<longleftrightarrow> out_of_registry sid s"
  by (rule out_cong) (use assms in \<open>auto simp: user_change_def frame split: prod.splits sum.splits\<close>)

lemma token_change_out:
  assumes "token_change en r ctx a n ex dn rs out s = (resp, s')"
  shows "out_of_registry sid s' \<longleftrightarrow> out_of_registry sid s"
  by (rule out_cong) (use assms in \<open>auto simp: token_change_def frame split: prod.splits sum.splits\<close>)

lemma audit_out [simp]: "out_of_registry sid (audit en r a b c i res ds s) \<longleftrightarrow> out_of_registry sid s"
  by (rule out_cong) (simp add: frame)

lemma keep_limiter_out [simp]: "out_of_registry sid (keep_limiter l s) \<longleftrightarrow> out_of_registry sid s"
  by (rule out_cong) (simp add: frame)

lemma login_failed_out [simp]: "out_of_registry sid (login_failed en r n x l s) \<longleftrightarrow> out_of_registry sid s"
  by (rule out_cong) (simp add: frame)

lemma accounts_out [simp]: "out_of_registry sid (s\<lparr>hs_users := u, hs_disk := d\<rparr>) \<longleftrightarrow> out_of_registry sid s"
  by (rule out_cong) simp

text \<open>The same for the components of a result, as they stand after \<open>split_beta\<close>.\<close>

lemma projections_out:
  assumes "out_of_registry sid s"
  shows "out_of_registry sid (snd (live_check k en sess s))" "out_of_registry sid (snd (snd (drop_user_sessions en n s)))"
    "out_of_registry sid (snd (snd (drop_one_session en i s)))" "out_of_registry sid (snd (with_users f s))"
  using assms live_check_out [of k en sess s] drop_user_sessions_out [of en n s] drop_one_session_out [of en i s]
    with_users_out [of f s] by (metis prod.collapse)+

lemmas moves_out = live_check_out drop_user_sessions_out drop_one_session_out register_session_out projections_out

lemma handle_out:
  assumes "handle cf en r ctx c s = (resp, s')" "out_of_registry sid s" "fresh_sid (he_session en) \<noteq> sid"
  shows "out_of_registry sid s'"
proof -
  note [split] = if_splits decoded.splits option.splits sum.splits prod.splits service_err.splits
  show ?thesis
  proof (cases c)
    case (Login_call b)
    with assms show ?thesis by (auto simp: login_handler_def Let_def intro!: register_session_out dest!: login_sid)
  next
    case Logout_call
    with assms show ?thesis by (auto simp: logout_handler_def Let_def intro: moves_out)
  next
    case (Logout_all_call b)
    with assms show ?thesis
      by (auto simp: logout_all_handler_def Let_def with_users_out intro!: projections_out)
        (metis live_check_out)+
  next
    case Sessions_call
    obtain reg where reg: "hs_registry s = Some reg" using assms(2) by (auto simp: out_of_registry_def)
    show ?thesis
    proof (cases "hc_disabled cf")
      case False
      then have "hs_registry s' = Some (fst (reg_step (he_registry en 1) List_sessions (reg, hs_disk s)))"
        using assms(1) Sessions_call reg by (auto simp: list_sessions_handler_def)
      from reg_step_out [OF assms(2) reg this] show ?thesis by simp
    qed (use assms Sessions_call in \<open>simp add: list_sessions_handler_def\<close>)
  next
    case Revoke_session_call
    with assms show ?thesis by (auto simp: revoke_session_handler_def Let_def intro: moves_out)
  next
    case (Revoke_user_call b)
    with assms show ?thesis
      by (auto simp: revoke_user_sessions_handler_def Let_def with_users_out)
        (metis drop_user_sessions_out with_users_out)+
  next
    case Me_call
    with assms show ?thesis by (auto simp: me_handler_def intro: moves_out)
  next
    case (Change_password_call b)
    with assms show ?thesis
      by (auto simp: change_password_handler_def Let_def frame dest!: change_password_sid
          intro!: register_session_out projections_out) (metis live_check_out)+
  next
    case (Preferences_call b)
    with assms show ?thesis by (auto simp: preferences_handler_def with_users_out)
  next
    case (Dismiss_call b)
    with assms show ?thesis by (auto simp: dismiss_handler_def with_users_out)
  next
    case (Delete_call b)
    with assms show ?thesis
      by (auto simp: delete_user_handler_def Let_def with_users_out intro!: projections_out)
  qed (use assms in \<open>auto simp: check_handler_def check_scope_def check_ops_handler_def check_admin_handler_def
      users_list_handler_def directory_handler_def create_user_handler_def set_role_handler_def set_full_name_handler_def
      reset_password_handler_def tokens_list_handler_def token_create_handler_def token_rotate_handler_def
      token_revoke_handler_def user_change_out token_change_out intro: moves_out\<close>)
qed

lemma require_login_out:
  "require_login cf en r s = (g, s') \<Longrightarrow> out_of_registry sid s \<Longrightarrow> out_of_registry sid s'"
  by (auto simp: require_login_def split: if_splits sum.splits prod.splits option.splits intro: live_check_out)

lemma require_admin_out:
  "require_admin cf en r s = (g, s') \<Longrightarrow> out_of_registry sid s \<Longrightarrow> out_of_registry sid s'"
  by (auto simp: require_admin_def split: if_splits sum.splits prod.splits option.splits intro: live_check_out)

lemma admit_out: "admit a cf en r s = (g, s') \<Longrightarrow> out_of_registry sid s \<Longrightarrow> out_of_registry sid s'"
  by (cases a) (auto simp: admit_def intro: require_login_out require_admin_out)

lemma serve_out:
  assumes "serve cf en c r s = (resp, s')" "out_of_registry sid s" "fresh_sid (he_session en) \<noteq> sid"
  shows "out_of_registry sid s'"
proof -
  obtain g s1 where gate: "proxy_gate cf en r s = (g, s1)" by fastforce
  obtain a s2 where admit: "admit (route_access c) cf en r s1 = (a, s2)" by fastforce
  obtain x s3 where csrf: "(if route_csrf c then csrf_check cf en r s2 else (None, s2)) = (x, s3)" by fastforce
  have 1: "out_of_registry sid s1" using proxy_gate_frame(4) [OF gate] assms(2) out_cong by blast
  have 2: "out_of_registry sid s2" using admit_out [OF admit 1] .
  have "hs_registry s3 = hs_registry s2" using csrf csrf_check_frame(4) [of cf en r s2 x s3] by (auto split: if_splits)
  then have 3: "out_of_registry sid s3" using 2 out_cong by blast
  have "s' \<in> {s1, s2, s3} \<or> (\<exists>ctx. handle cf en r ctx c s3 = (resp, s'))"
    using assms(1) gate admit csrf
    by (auto simp: serve_def split: prod.splits option.splits guard.splits if_splits)
  then show ?thesis using 1 2 3 handle_out [OF _ 3 assms(3)] by auto
qed

text \<open>A history: requests served one after the other, each with its own configuration and world.\<close>

fun serve_run :: "(http_config \<times> http_env \<times> call \<times> http_request) list \<Rightarrow> http_state \<Rightarrow> http_state" where
  "serve_run [] s = s"
| "serve_run ((cf, en, c, r) # qs) s = serve_run qs (snd (serve cf en c r s))"

lemma serve_run_out:
  "out_of_registry sid s \<Longrightarrow> list_all (\<lambda>(cf, en, c, r). fresh_sid (he_session en) \<noteq> sid) qs \<Longrightarrow>
   out_of_registry sid (serve_run qs s)"
proof (induction qs arbitrary: s)
  case (Cons q qs)
  obtain cf en c r where q: "q = (cf, en, c, r)" by (cases q)
  obtain resp s' where sv: "serve cf en c r s = (resp, s')" by fastforce
  have "fresh_sid (he_session en) \<noteq> sid" using Cons.prems(2) q by simp
  from serve_out [OF sv Cons.prems(1) this] show ?case using Cons.IH [of s'] Cons.prems(2) q sv by simp
qed simp

section \<open>A session that is out of the registry passes no check\<close>

lemma live_check_dead:
  assumes "out_of_registry sid s" "trim_space (s_sid sess) = sid"
  shows "fst (live_check k en sess s) = None"
proof -
  obtain reg where "hs_registry s = Some reg" "reg_ok reg" "gm_get (rg_by_id reg) sid = None"
    using assms(1) by (auto simp: out_of_registry_def)
  then show ?thesis using assms(2)
    by (auto simp: live_check_def live_session_checked_def has_session_def prune_get Let_def
        split: option.splits prod.splits if_splits)
qed

lemma dead_session_stopped:
  assumes "out_of_registry sid s" "trim_space (s_sid sess) = sid" "session_from_request cf en r = Inr sess"
    "\<not> hc_disabled cf" "\<not> bearer_any cf en s r"
  shows "fst (require_login cf en r s) = Stop unauthorized" "fst (require_admin cf en r s) = Stop unauthorized"
    "rs_status (fst (check_handler cf en r s)) = 401" "rs_status (fst (me_handler cf en r None s)) = 401"
proof -
  have dead: "fst (live_check k en sess s) = None" for k by (rule live_check_dead [OF assms(1,2)])
  have nb: "\<not> bearer_ok cf en s r need" for need
    using assms(5) by (auto simp: bearer_any_def bearer_ok_def)
  show "fst (require_login cf en r s) = Stop unauthorized" "fst (require_admin cf en r s) = Stop unauthorized"
    using dead [of 0] assms(3,4) nb by (auto simp: require_login_def require_admin_def split: prod.splits option.splits)
  show "rs_status (fst (check_handler cf en r s)) = 401" "rs_status (fst (me_handler cf en r None s)) = 401"
    using dead [of 1] assms(3,4) nb
    by (auto simp: check_handler_def bearer_scope_ok_def me_handler_def actor_session_def clear_answer_def
        unauthorized_def answer_def split: prod.splits option.splits)
qed

lemma logout_drops:
  assumes "serve cf en Logout_call r s = (resp, s')" "rs_status resp = 200"
    "session_from_request cf en r = Inr sess" "s_sid sess = sid" "trim_space sid = sid" "sid \<noteq> []"
    "hs_registry s = Some reg" "reg_ok reg"
  shows "out_of_registry sid s'"
proof -
  obtain g s1 where gate: "proxy_gate cf en r s = (g, s1)" by fastforce
  obtain x s3 where csrf: "csrf_check cf en r s1 = (x, s3)" by fastforce
  have h: "hs_registry s3 = Some reg" using csrf_check_frame(4) [OF csrf] proxy_gate_frame(4) [OF gate] assms(7) by simp
  have run: "logout_handler cf en r s3 = (resp, s')"
    using assms(1,2) gate csrf
    by (auto simp: serve_def admit_def proxy_gate_def csrf_check_def answer_def Let_def
        split: prod.splits option.splits if_splits)
  obtain was ok s4 where d: "drop_one_session en sid s3 = (was, ok, s4)" by (metis prod_cases3)
  obtain reg4 where reg4: "hs_registry s4 = Some reg4" "reg4 = fst (reg_step (he_registry en 2) (Revoke sid) (reg, hs_disk s3))"
    using d h by (auto simp: drop_one_session_def split: prod.splits)
  have "reg_ok reg4" unfolding reg4(2) by (rule reg_step_ok [OF assms(8)])
  moreover have "gm_get (rg_by_id reg4) sid = None"
    using reg4(2) assms(5,6) by (auto simp: revoke_def drop_session_def Let_def split: prod.splits)
  ultimately have "out_of_registry sid s4" using reg4(1) by (simp add: out_of_registry_def)
  moreover have "hs_registry s' = hs_registry s4"
    using run assms(3,4,6) d by (auto simp: logout_handler_def frame Let_def split: if_splits)
  ultimately show ?thesis using out_cong by blast
qed

text \<open>C7: A logout is final. After a logout that was answered with success, whatever requests the server goes on to
  serve, with whatever failures of the disk, no request that carries a cookie with the id of that session and no bearer
  token passes a check: those for a login and for an administrator stop it as unauthorized, and so do the answers
  to the reverse proxy and to the question who is logged in. It is enough that no later login draws the same id.\<close>
theorem logout_final:
  assumes "serve cf en Logout_call r s = (resp, s1)" "rs_status resp = 200"
    "session_from_request cf en r = Inr sess" "trim_space (s_sid sess) = s_sid sess" "s_sid sess \<noteq> []"
    "hs_registry s = Some reg" "reg_ok reg"
    "list_all (\<lambda>(cf, en, c, r). fresh_sid (he_session en) \<noteq> s_sid sess) qs" "s2 = serve_run qs s1"
    "session_from_request cf2 en2 r2 = Inr sess2" "s_sid sess2 = s_sid sess" "\<not> hc_disabled cf2"
    "\<not> bearer_any cf2 en2 s2 r2"
  shows "fst (require_login cf2 en2 r2 s2) = Stop unauthorized \<and> fst (require_admin cf2 en2 r2 s2) = Stop unauthorized \<and>
    rs_status (fst (check_handler cf2 en2 r2 s2)) = 401 \<and> rs_status (fst (me_handler cf2 en2 r2 None s2)) = 401"
proof -
  have "out_of_registry (s_sid sess) s1" by (rule logout_drops [OF assms(1-3) refl assms(4-7)])
  then have out: "out_of_registry (s_sid sess) s2" unfolding assms(9) by (rule serve_run_out [OF _ assms(8)])
  have "trim_space (s_sid sess2) = s_sid sess" using assms(4,11) by simp
  from dead_session_stopped [OF out this assms(10,12,13)] show ?thesis by blast
qed

section \<open>What a login gives\<close>

text \<open>A session that is in the registry, not expired, with the stamp of its account.\<close>

lemma live_check_live:
  assumes "hs_users s = Some st" "live_session (Some (store_lookup st)) sess = Some live" "hs_registry s = Some reg"
    "reg_ok reg" "trim_space (s_sid sess) \<noteq> []" "gm_get (rg_by_id reg) (trim_space (s_sid sess)) = Some rec"
    "\<not> record_expired (rg_now (he_registry en k)) rec"
  obtains s' where "live_check k en sess s = (Some live, s')" "hs_users s' = Some st"
proof -
  obtain x s' where l: "live_check k en sess s = (x, s')" by fastforce
  then have "x = Some live" using assms
    by (auto simp: live_check_def live_session_checked_def has_session_def prune_get Let_def split: prod.splits if_splits)
  with that l live_checkE(1) [OF l] assms(1) show ?thesis by simp
qed

lemma register_session_present:
  assumes "hs_registry s = Some reg" "reg_ok reg" "trim_space (s_sid sess) \<noteq> []"
  obtains reg' rec where "hs_registry (register_session en r sess n ro ip s) = Some reg'" "reg_ok reg'"
    "gm_get (rg_by_id reg') (s_sid sess) = Some rec" "r_expires rec = expires_from_session sess"
proof -
  let ?rec = "\<lparr>r_id = s_sid sess, r_user = n, r_role = ro, r_ip = ip, r_agent = rq_header r ''User-Agent'',
    r_created = 0, r_expires = expires_from_session sess, r_seen = 0\<rparr>"
  obtain ok reg' d' where g: "register (he_registry en 3) ?rec reg (hs_disk s) = (ok, reg', d')" by (metis prod_cases3)
  have "hs_registry (register_session en r sess n ro ip s) = Some reg'"
    using assms(1,3) g by (simp add: register_session_def)
  moreover have "reg_ok reg'" using reg_step_ok [OF assms(2), of "he_registry en 3" "Register ?rec" "hs_disk s"] g by simp
  moreover obtain rec where "gm_get (rg_by_id reg') (s_sid sess) = Some rec" "r_expires rec = expires_from_session sess"
    using g assms(3) by (auto simp: register_def Let_def split: prod.splits if_splits)
  ultimately show ?thesis using that by blast
qed

lemma login_answered:
  assumes "serve cf en (Login_call (Body (n, p))) r s = (resp, s1)" "rs_status resp = 200" "\<not> hc_disabled cf"
    "hs_users s = Some st" "hc_sessions cf = Some m"
  obtains u token sess s0 where "authenticate (he_user en) st (trim_space n) p = Some u"
    "issue (he_session en) m (u_name u) (u_role u) (u_session u) = Inr (token, sess)"
    "ck_value (hd (rs_cookies resp)) = token" "hs_users s1 = Some st" "hs_registry s0 = hs_registry s"
    "hs_registry s1 = hs_registry (register_session en r sess (u_name u) (u_role u) (peer_ip en r) s0)"
proof -
  obtain g s0 where gate: "proxy_gate cf en r s = (g, s0)" by fastforce
  note f = proxy_gate_frame [OF gate]
  have run: "login_handler cf en r (Body (n, p)) s0 = (resp, s1)"
    using assms(1,2) gate
    by (auto simp: serve_def admit_def proxy_gate_def answer_def split: prod.splits option.splits if_splits)
  obtain ok l where al: "allow (login_limiter s0) (he_now en) (peer_ip en r) (trim_space n) = (ok, l)" by fastforce
  have "\<exists>u token sess. login (he_user en) (he_session en) (Some st) (Some m) (trim_space n) p = Inr (u, token, sess) \<and>
      rs_cookies resp = session_cookies cf en r token (u_role u) \<and> hs_users s1 = hs_users s0 \<and>
      hs_registry s1 = hs_registry (register_session en r sess (u_name u) (u_role u) (peer_ip en r)
        (keep_limiter (record_success l (peer_ip en r) (u_name u)) s0))"
    using run assms(2-5) f al
    by (auto simp: login_handler_def Let_def frame answer_def bad_request_def not_configured_def
        split: if_splits sum.splits service_err.splits)
  then obtain u token sess where h: "login (he_user en) (he_session en) (Some st) (Some m) (trim_space n) p = Inr (u, token, sess)"
      "rs_cookies resp = session_cookies cf en r token (u_role u)" "hs_users s1 = hs_users s0"
      "hs_registry s1 = hs_registry (register_session en r sess (u_name u) (u_role u) (peer_ip en r)
        (keep_limiter (record_success l (peer_ip en r) (u_name u)) s0))" by blast
  from h(1) have "authenticate (he_user en) st (trim_space n) p = Some u"
    "issue (he_session en) m (u_name u) (u_role u) (u_session u) = Inr (token, sess)"
    by (auto simp: login_def split: option.splits sum.splits)
  moreover have "ck_value (hd (rs_cookies resp)) = token"
    using h(2) assms(5) by (simp add: session_cookies_def set_cookie_def session_cookie_def)
  moreover have "hs_users s1 = Some st" using h(3) f(1) assms(4) by simp
  moreover have "hs_registry (keep_limiter (record_success l (peer_ip en r) (u_name u)) s0) = hs_registry s"
    using f(4) by (simp add: frame)
  ultimately show ?thesis using h(4) by (rule that)
qed

text \<open>C18: After a login that was answered with success the password was that of an account, and the next request with the cookie
  of the answer and no bearer token passes the checks as that account, until the cookie expires: the check for a login
  lets it go on with the name and role of the account, that for an administrator does so exactly for one, and both ask for a new
  password first when the account has to change it. It is enough that the random id is neither empty nor padded, that
  base64, JSON and HMAC do what they promise and that the clock is after 1970.\<close>
theorem login_then_admitted:
  assumes "serve cf en (Login_call (Body (n, p))) r s = (resp, s1)" "rs_status resp = 200" "\<not> hc_disabled cf"
    "hs_users s = Some st" "users_wf st" "hs_registry s = Some reg" "reg_ok reg" "hc_sessions cf = Some m"
    "session_law (he_session en)" "trim_space (fresh_sid (he_session en)) = fresh_sid (he_session en)"
    "fresh_sid (he_session en) \<noteq> []" "0 \<le> unix_seconds (clock (he_session en) + sm_ttl m)"
    "rq_cookie r2 cookie_name = Some (ck_value (hd (rs_cookies resp)))" "\<not> hc_disabled cf2" "hc_sessions cf2 = Some m"
    "he_session en2 = (he_session en)\<lparr>clock := t\<rparr>" "unix_seconds t \<le> unix_seconds (clock (he_session en) + sm_ttl m)"
    "rg_now (he_registry en2 0) \<le> time_unix (unix_seconds (clock (he_session en) + sm_ttl m))"
    "\<not> bearer_any cf2 en2 s1 r2"
  shows "\<exists>u sess. authenticate (he_user en) st (trim_space n) p = Some u \<and>
    s_user sess = u_name u \<and> s_role sess = u_role u \<and>
    fst (require_login cf2 en2 r2 s1) = (if u_must_reset u then Stop reset_required else Go_on (Some sess)) \<and>
    fst (require_admin cf2 en2 r2 s1) =
      (if u_role u \<noteq> role_administrator then Stop forbidden
       else if u_must_reset u then Stop reset_required else Go_on (Some sess))"
proof -
  obtain u token sess s0 where l: "authenticate (he_user en) st (trim_space n) p = Some u"
      "issue (he_session en) m (u_name u) (u_role u) (u_session u) = Inr (token, sess)"
      "ck_value (hd (rs_cookies resp)) = token" "hs_users s1 = Some st" "hs_registry s0 = hs_registry s"
      "hs_registry s1 = hs_registry (register_session en r sess (u_name u) (u_role u) (peer_ip en r) s0)"
    using login_answered [OF assms(1-4,8)] .
  note i = issue_session [OF l(2)]
  have found: "find_user st (trim_space n) = Some u"
    using l(1) by (auto simp: authenticate_def split: option.splits if_splits)
  have alive: "has_persistent_session (s_role sess) \<or> unix_seconds t \<le> s_expires sess" using i assms(17) by simp
  note live = issued_session_live [OF assms(5,9) found l(2) assms(12) alive]
  have ok: "token \<noteq> []" using l(2) by (auto simp: issue_def Let_def split: option.splits)
  have parsed: "session_from_request cf2 en2 r2 = Inr sess"
    using live assms(13,15,16) l(3) ok by (simp add: session_from_request_def)
  have sid: "trim_space (s_sid sess) = s_sid sess" "trim_space (s_sid sess) \<noteq> []" using assms(10,11) i by simp_all
  obtain reg' rec where reg: "hs_registry s1 = Some reg'" "reg_ok reg'" "gm_get (rg_by_id reg') (s_sid sess) = Some rec"
      "r_expires rec = expires_from_session sess"
    using register_session_present [of s0 reg sess en r "u_name u" "u_role u" "peer_ip en r"] l(5,6) assms(6,7) sid(2)
    by metis
  have fresh: "\<not> record_expired (rg_now (he_registry en2 0)) rec"
    using reg(4) i(2,5) assms(18) by (auto simp: record_expired_def expires_from_session_def session_never_expires_def)
  have "gm_get (rg_by_id reg') (trim_space (s_sid sess)) = Some rec" using reg(3) sid(1) by simp
  from live_check_live [OF l(4) live [THEN conjunct2, THEN conjunct1] reg(1,2) sid(2) this fresh]
  obtain s2 where lc: "live_check 0 en2 sess s1 = (Some sess, s2)" "hs_users s2 = Some st" .
  have nb: "\<not> bearer_ok cf2 en2 s1 r2 need" for need using assms(19) by (auto simp: bearer_any_def bearer_ok_def)
  have "find_user st (u_name u) = Some u"
    using found find_user_wf [OF assms(5) found] by (simp add: find_user_def user_ok_def)
  then have reset: "must_reset_denied s2 (s_user sess) = u_must_reset u"
    using lc(2) i(1) by (simp add: must_reset_denied_def must_reset_def get_user_def public_def)
  show ?thesis
    using l(1) i parsed lc nb reset assms(14)
    by (intro exI [of _ u] exI [of _ sess]) (auto simp: require_login_def require_admin_def is_admin_def)
qed

section \<open>Where the handlers fall short\<close>

text \<open>
  The second check of the password takes the spaces off its argument, which neither the login nor the check of new
  passwords does: an account whose password begins or ends with a space can log in and fails every such check.
\<close>

lemma padded_password_fails_reauth:
  assumes "hs_users s = Some st" "find_user st (s_user sess) = Some u" "bcrypt_ok (he_user en) (u_hash u) pw"
    "\<not> bcrypt_ok (he_user en) (u_hash u) (trim_space pw)" "\<not> hc_disabled cf" "\<not> bearer_any cf en s r"
    "actor_session cf en ctx r = Some sess"
  shows "authenticate (he_user en) st (s_user sess) pw = Some u \<and> (\<exists>resp. reauth cf en ctx r pw s = Inl resp)"
  using assms by (auto simp: authenticate_def reauth_def verify_password_def Let_def)

text \<open>
  \<^verbatim>\<open>LogoutAll\<close> compares the password before it asks whether the session is live, and counts no
  failure: the holder of a revoked cookie learns from the answer whether a guess is right, as often as wanted.
\<close>

lemma revoked_cookie_guesses_password:
  assumes "\<not> hc_disabled cf" "\<not> bearer_any cf en s r" "session_from_request cf en r = Inr sess" "hc_service cf"
    "hs_users s = Some st" "live_check 1 en sess s = (None, s')" "trim_space pw \<noteq> []"
  shows "logout_all_handler cf en r (Body pw) s =
      (if authenticate (he_user en) st (s_user sess) (trim_space pw) = None then (wrong_password, s) else (clear_answer r, s'))"
    "clear_answer r \<noteq> wrong_password" "hs_limiter s' = hs_limiter s"
  using assms live_checkE(3) [OF assms(6)]
  by (auto simp: logout_all_handler_def reauth_def verify_password_def actor_session_def Let_def clear_answer_def
      unauthorized_def wrong_password_def answer_def clear_cookie_def)

text \<open>
  The handlers of the preferences take the account from the cookie without the live check: with any bearer token of the
  scope \<^verbatim>\<open>read\<close>, a cookie that was revoked still changes the account.
\<close>

lemma revoked_cookie_edits_account:
  assumes "\<not> hc_disabled cf" "bearer_ok cf en s r scope_read" "session_from_request cf en r = Inr sess" "hc_service cf"
    "fst (live_check 0 en sess s) = None"
  shows "require_login cf en r s = (Go_on None, s) \<and>
    hs_users (snd (dismiss_handler cf en r (Body (Some off)) s)) =
      hs_users (snd (with_users (set_geo_wizard_dismissed (he_user en) (s_user sess) off) s))"
  using assms by (auto simp: require_login_def dismiss_handler_def split: prod.splits sum.splits)

section \<open>Concrete requests\<close>

definition demo_cf :: http_config where
  "demo_cf = \<lparr>hc_disabled = False, hc_api_disabled = False, hc_reputation = False, hc_admin_tokens = [''adm''],
     hc_ops_tokens = [], hc_service = True, hc_sessions = Some \<lparr>sm_secret = ''s'', sm_ttl = minute\<rparr>,
     hc_require_proxy = False\<rparr>"

definition demo_http :: http_env where
  "demo_http = \<lparr>he_user = demo_env, he_session = demo_senv, he_registry = (\<lambda>_. demo_renv), he_token = demo_tenv,
     he_now = 0, he_audit_sort = id, he_csrf = ''c'', he_trusted = None, he_url_host = (\<lambda>_. None), he_sort_tokens = id\<rparr>"

definition demo_ticket :: string where "demo_ticket = hex_enc ''j'' @ CHR ''.'' # hex_enc ''k''"

definition demo_request :: "string \<Rightarrow> http_request" where
  "demo_request m = \<lparr>rq_method = m, rq_path = [], rq_value = [], rq_host = ''h'', rq_tls = True,
     rq_header = (\<lambda>n. if n = csrf_header_name then ''c'' else []),
     rq_cookie = (\<lambda>n. if n = cookie_name then Some demo_ticket else if n = csrf_cookie_name then Some ''c'' else None),
     rq_peer = \<lparr>remote_addr = ''8.8.8.8:5000'', x_real_ip = []\<rparr>\<rparr>"

definition demo_http_state :: http_state where
  "demo_http_state = \<lparr>hs_users = Some demo_store, hs_registry = Some demo_registry, hs_tokens = Some demo_tstore,
     hs_limiter = None, hs_disk = (\<lambda>_. None), hs_audit = []\<rparr>"

lemma demo_fields [simp]: "hc_disabled demo_cf = False" "hc_service demo_cf = True" "hc_require_proxy demo_cf = False"
  "hc_sessions demo_cf = Some \<lparr>sm_secret = ''s'', sm_ttl = minute\<rparr>"
  "he_user demo_http = demo_env" "he_session demo_http = demo_senv" "he_token demo_http = demo_tenv"
  "hs_users demo_http_state = Some demo_store" "hs_registry demo_http_state = Some demo_registry"
  "hs_tokens demo_http_state = Some demo_tstore" "s_user demo_session = ''bob''" "s_sid demo_session = ''f0''"
  by (simp_all add: demo_cf_def demo_http_def demo_http_state_def demo_session_def)

lemma demo_ticket_issued: "issue demo_senv \<lparr>sm_secret = ''s'', sm_ttl = minute\<rparr> ''bob'' ''administrator'' 0 = Inr (demo_ticket, demo_session)"
  by (simp add: issue_def Let_def demo_senv_def demo_session_def demo_ticket_def has_persistent_session_def role_dashboard_def
      sign_def unix_seconds_def time_unix_def minute_def second_def unix_epoch_def)

lemma demo_from_request: "session_from_request demo_cf demo_http (demo_request m) = Inr demo_session"
proof -
  have v: "valid_role ''administrator''" by code_simp
  have "unix_seconds (time_unix 40) \<le> s_expires demo_session"
    by (simp add: unix_seconds_def time_unix_def demo_session_def second_def unix_epoch_def)
  then have "parse_token (demo_senv\<lparr>clock := time_unix 40\<rparr>) \<lparr>sm_secret = ''s'', sm_ttl = minute\<rparr> demo_ticket = Inr demo_session"
    by (intro issue_parse [OF demo_session_law demo_ticket_issued]) (simp_all add: v)
  moreover have "demo_senv\<lparr>clock := time_unix 40\<rparr> = demo_senv" by (simp add: demo_senv_def)
  ultimately show ?thesis
    by (simp add: session_from_request_def demo_cf_def demo_http_def demo_request_def demo_ticket_def)
qed

lemma demo_strings: "trim_space ''f0'' = ''f0''" "trim_space ''c'' = ''c''" "trim_space '' Bob'' = ''Bob''" "trim_space [] = []"
  "to_upper_ascii ''POST'' = ''POST''" "to_upper_ascii ''GET'' = ''GET''"
  by code_simp+

lemma demo_no_bearer: "\<not> bearer_any cf demo_http s (demo_request m)" "\<not> bearer_ok cf demo_http s (demo_request m) need"
  by (simp_all add: bearer_any_def bearer_ok_def bearer_scope_def bearer_plain_def demo_request_def csrf_header_name_def
      trim_prefix_def demo_strings)

lemma demo_csrf: "csrf_check demo_cf demo_http (demo_request ''POST'') s = (None, s)"
  using demo_no_bearer [of demo_cf s "''POST''"]
  by (simp add: csrf_check_def demo_cf_def safe_method_def demo_request_def demo_strings csrf_origin_ok_def
      csrf_header_name_def csrf_cookie_name_def cookie_name_def demo_ticket_def Let_def)

lemma demo_serve:
  "method_matches c (demo_request m) \<Longrightarrow> route_access c = Open \<Longrightarrow> m = ''POST'' \<or> \<not> route_csrf c \<Longrightarrow>
   serve demo_cf demo_http c (demo_request m) s = handle demo_cf demo_http (demo_request m) None c s"
  by (auto simp: serve_def proxy_gate_def proxy_gate_on_def
      admit_def demo_csrf)

lemma demo_method: "method_matches c (demo_request m) \<longleftrightarrow> m = route_method c \<or> route_method c = ''GET'' \<and> m = ''HEAD''"
  by (simp add: method_matches_def demo_request_def)

lemma demo_live:
  assumes "hs_users s = Some demo_store" "hs_registry s = Some demo_registry"
  shows "\<exists>s'. live_check k demo_http demo_session s = (Some demo_session, s') \<and> hs_users s' = Some demo_store"
proof -
  have "find_user demo_store ''bob'' = Some demo_user" by code_simp
  then have live: "live_session (Some (store_lookup demo_store)) demo_session = Some demo_session"
    unfolding live_session_correct by (simp add: demo_session_def demo_user_def)
  have "reg_ok demo_registry" by (simp add: reg_ok_def demo_registry_def gm_ok_def)
  moreover have "gm_get (rg_by_id demo_registry) (trim_space (s_sid demo_session)) = Some demo_record"
    by (simp add: demo_registry_def demo_session_def demo_strings)
  moreover have "\<not> record_expired (rg_now (he_registry demo_http k)) demo_record"
    by (simp add: record_expired_def demo_record_def demo_http_def demo_renv_def)
  moreover have "trim_space (s_sid demo_session) \<noteq> []" by (simp add: demo_session_def demo_strings)
  ultimately show ?thesis using live_check_live [OF assms(1) live assms(2)] by metis
qed

theorem accounts_need_authority_witness:
  "\<exists>resp s'. serve demo_cf demo_http (Dismiss_call (Body (Some True))) (demo_request ''POST'') demo_http_state = (resp, s') \<and>
     hs_users s' \<noteq> Some demo_store \<and> csrf_proved demo_http (demo_request ''POST'')"
proof -
  let ?c = "Dismiss_call (Body (Some True))" and ?r = "demo_request ''POST''"
  obtain s1 where l: "live_check 0 demo_http demo_session demo_http_state = (Some demo_session, s1)" "hs_users s1 = Some demo_store"
    using demo_live [of demo_http_state] by (auto simp: demo_http_state_def)
  obtain resp s' where sv: "serve demo_cf demo_http ?c ?r demo_http_state = (resp, s')" by fastforce
  have "must_reset_denied s1 ''bob'' = False" using l(2) by (simp add: must_reset_denied_def) code_simp
  then have hd: "handle demo_cf demo_http ?r (Some demo_session) ?c s1 = (resp, s')"
    using sv l demo_no_bearer demo_from_request demo_csrf
    by (simp add: serve_def proxy_gate_def proxy_gate_on_def
        admit_def require_login_def demo_method demo_session_def)
  have "fst (snd (set_geo_wizard_dismissed demo_env ''bob'' True demo_store d)) =
      put_user ''bob'' (demo_user\<lparr>u_wizard_off := True\<rparr>) demo_store" for d
  proof -
    have "find_user demo_store ''bob'' = Some demo_user" "user_key ''bob'' = ''bob''" by code_simp+
    then show ?thesis by (simp add: set_geo_wizard_dismissed_def save_user_def Let_def split: prod.splits bool.splits)
  qed
  then obtain res d' where "set_geo_wizard_dismissed demo_env ''bob'' True demo_store (hs_disk s1) =
      (res, put_user ''bob'' (demo_user\<lparr>u_wizard_off := True\<rparr>) demo_store, d')"
    by (metis prod.collapse)
  moreover have "put_user ''bob'' (demo_user\<lparr>u_wizard_off := True\<rparr>) demo_store \<noteq> demo_store" by code_simp
  ultimately have ch: "hs_users s' \<noteq> hs_users demo_http_state"
    using l(2) demo_from_request [of "''POST''"] hd
    by (auto simp: dismiss_handler_def with_users_def Let_def split: prod.splits sum.splits)
  show ?thesis using accounts_need_authority [OF sv, of demo_store] ch sv demo_no_bearer
    by auto
qed

theorem http_administrator_remains_witness:
  "\<exists>st'. hs_users (snd (serve demo_cf demo_http (Dismiss_call (Body (Some True))) (demo_request ''POST'') demo_http_state)) =
     Some st' \<and> 1 \<le> admin_count st'"
proof -
  let ?s = "snd (serve demo_cf demo_http (Dismiss_call (Body (Some True))) (demo_request ''POST'') demo_http_state)"
  have "env_ok (he_user demo_http)" "sha_law (he_token demo_http)"
    using demo_laws(1) demo_tlaws(1) by (simp_all add: demo_http_def)
  then have "http_step demo_http_state ?s" by (metis http_step.request prod.collapse)
  then have "http_step\<^sup>*\<^sup>* demo_http_state ?s" ..
  from http_administrator_remains [OF this _ demo_wf(1,3)] demo_tstore_ok(1) show ?thesis
    by (auto simp: demo_http_state_def)
qed

theorem logout_final_witness:
  "fst (require_login demo_cf demo_http (demo_request ''GET'')
     (serve_run [(demo_cf, demo_http\<lparr>he_session := demo_senv\<lparr>fresh_sid := ''f1''\<rparr>\<rparr>, Me_call, demo_request ''GET'')]
       (snd (serve demo_cf demo_http Logout_call (demo_request ''POST'') demo_http_state)))) = Stop unauthorized"
proof -
  let ?c = Logout_call and ?r = "demo_request ''POST''" and ?s = demo_http_state
  have "serve demo_cf demo_http ?c ?r ?s = logout_handler demo_cf demo_http ?r ?s"
    by (subst demo_serve) (simp_all add: demo_method)
  then obtain resp s1 where sv: "serve demo_cf demo_http ?c ?r ?s = (resp, s1)" "rs_status resp = 200"
    by (simp add: logout_handler_def answer_def Let_def split_beta)
  have "reg_ok demo_registry" by (simp add: reg_ok_def demo_registry_def gm_ok_def)
  moreover have "trim_space (s_sid demo_session) = s_sid demo_session" "s_sid demo_session = ''f0''"
    by (simp_all add: demo_session_def demo_strings)
  ultimately show ?thesis
    using logout_final [OF sv demo_from_request _ _ _ _ _ refl demo_from_request refl _ demo_no_bearer(1), where reg = demo_registry
        and qs = "[(demo_cf, demo_http\<lparr>he_session := demo_senv\<lparr>fresh_sid := ''f1''\<rparr>\<rparr>, Me_call, demo_request ''GET'')]"] sv(1)
    by simp
qed

theorem login_then_admitted_witness:
  "\<exists>sess. s_user sess = ''bob'' \<and>
     fst (require_admin demo_cf demo_http (demo_request ''GET'')
       (snd (serve demo_cf demo_http (Login_call (Body ('' Bob'', ''old9password''))) (demo_request ''POST'') demo_http_state))) =
     Go_on (Some sess)"
proof -
  let ?c = "Login_call (Body ('' Bob'', ''old9password''))" and ?r = "demo_request ''POST''" and ?s = demo_http_state
  have sv0: "serve demo_cf demo_http ?c ?r ?s = login_handler demo_cf demo_http ?r (Body ('' Bob'', ''old9password'')) ?s"
    by (subst demo_serve) (simp_all add: demo_method)
  have au: "authenticate demo_env demo_store ''Bob'' ''old9password'' = Some demo_user" by code_simp
  have iss: "issue demo_senv \<lparr>sm_secret = ''s'', sm_ttl = minute\<rparr> (u_name demo_user) (u_role demo_user) (u_session demo_user) =
      Inr (demo_ticket, demo_session)" using demo_ticket_issued by (simp add: demo_user_def)
  have lg: "login demo_env demo_senv (Some demo_store) (Some \<lparr>sm_secret = ''s'', sm_ttl = minute\<rparr>) ''Bob'' ''old9password'' =
      Inr (demo_user, demo_ticket, demo_session)" using au iss by (simp add: login_def)
  have al: "fst (allow (new_limiter 10 minute (5 * minute)) 0 ip n)" for ip n
    by (simp add: allow_def new_limiter_def gc_locked_def bucket_allows_def gc_map_def Let_def)
  obtain ok l where allow: "allow (new_limiter 10 minute (5 * minute)) 0 (peer_ip demo_http ?r) ''Bob'' = (ok, l)" "ok"
    using al by (metis prod.collapse)
  obtain resp s1 where sv: "serve demo_cf demo_http ?c ?r ?s = (resp, s1)" "rs_status resp = 200"
      "ck_value (hd (rs_cookies resp)) = demo_ticket"
    unfolding sv0 using lg allow
    by (simp add: login_handler_def demo_cf_def demo_http_def demo_http_state_def demo_strings login_limiter_def Let_def
        answer_def session_cookies_def set_cookie_def session_cookie_def)
  have "reg_ok demo_registry" by (simp add: reg_ok_def demo_registry_def gm_ok_def)
  moreover have "0 \<le> unix_seconds (clock demo_senv + sm_ttl \<lparr>sm_secret = ''s'', sm_ttl = minute\<rparr>)"
    "unix_seconds (time_unix 40) \<le> unix_seconds (clock demo_senv + sm_ttl \<lparr>sm_secret = ''s'', sm_ttl = minute\<rparr>)"
    "7 \<le> time_unix (unix_seconds (clock demo_senv + sm_ttl \<lparr>sm_secret = ''s'', sm_ttl = minute\<rparr>))"
    by (simp_all add: unix_seconds_def time_unix_def demo_senv_def minute_def second_def unix_epoch_def)
  moreover have "he_session demo_http = (he_session demo_http)\<lparr>clock := time_unix 40\<rparr>"
    by (simp add: demo_http_def demo_senv_def)
  moreover have "rq_cookie (demo_request ''GET'') cookie_name = Some (ck_value (hd (rs_cookies resp)))"
    using sv(3) by (simp add: demo_request_def)
  moreover have "trim_space (fresh_sid demo_senv) = fresh_sid demo_senv" "fresh_sid demo_senv \<noteq> []"
    by (simp_all add: demo_senv_def demo_strings)
  ultimately obtain u sess where "authenticate demo_env demo_store ''Bob'' ''old9password'' = Some u" "s_user sess = u_name u"
    "fst (require_admin demo_cf demo_http (demo_request ''GET'') s1) =
      (if u_role u \<noteq> role_administrator then Stop forbidden
       else if u_must_reset u then Stop reset_required else Go_on (Some sess))"
    using login_then_admitted [OF sv(1,2), of demo_store demo_registry "\<lparr>sm_secret = ''s'', sm_ttl = minute\<rparr>"
        "demo_request ''GET''" demo_cf demo_http "time_unix 40"] demo_wf(1) demo_session_law demo_no_bearer(1)
    by (auto simp: demo_cf_def demo_http_state_def demo_http_def demo_renv_def demo_strings)
  with au sv(1) show ?thesis by (auto simp: demo_user_def role_administrator_def)
qed

end
