(* ===== verification/Json_Guard.thy ===== *)
theory Json_Guard
  imports Go_Text
begin

text \<open>
  The guard before every JSON body (\<^verbatim>\<open>adapter/httpapi/threatprot/json.go\<close>, \<^verbatim>\<open>limits.go\<close>,
  \<^verbatim>\<open>decode_json.go\<close>): one pass over the tokens with a stack of open containers refuses documents that are
  nested too deeply or have too many or too long parts. \<^verbatim>\<open>Decoder.Token\<close> of encoding/json is an argument: the tokens of a
  text and whether the error after the last one was \<^verbatim>\<open>io.EOF\<close>. That is its error at the end of the text, also when the text
  stops between two tokens of an unfinished document; every other error, as a syntax error or an end within a token, is one that
  the pass returns. The main lemma compares the pass with the same limits stated on the tree of a document.
\<close>

section \<open>Limits: limits.go\<close>

definition max_container_depth :: int where "max_container_depth = 5"
definition max_entry_name :: nat where "max_entry_name = 64"
definition max_entry_count :: nat where "max_entry_count = 64"
definition max_element_count :: nat where "max_element_count = 256"
definition max_string_length :: int where "max_string_length = 8192"
definition max_string_length_large :: int where "max_string_length_large = 65536"

section \<open>The pass: json.go\<close>

text \<open>\<open>Tok_open\<close> and \<open>Tok_close\<close> carry whether the delimiter is that of an object.\<close>

datatype json_tok = Tok_open bool | Tok_close bool | Tok_str string | Tok_atom

type_synonym json_stream = "json_tok list \<times> bool"

datatype json_guard_err =
  Too_deep | String_too_long | Name_too_long | Entries_exceeded | Elements_exceeded | Delim_mismatch | Bad_token

record parse_frame =
  pf_object :: bool
  pf_count :: nat
  pf_key :: bool

record json_limits =
  jl_depth :: nat
  jl_string :: nat

definition note_array_element :: "parse_frame list \<Rightarrow> parse_frame list option" where
  "note_array_element st =
     (case st of
        [] \<Rightarrow> Some []
      | f # fs \<Rightarrow>
          if pf_object f then Some st
          else if pf_count f + 1 > max_element_count then None
          else Some (f\<lparr>pf_count := pf_count f + 1\<rparr> # fs))"

definition note_value_complete :: "parse_frame list \<Rightarrow> parse_frame list" where
  "note_value_complete st = (case st of [] \<Rightarrow> [] | f # fs \<Rightarrow> if pf_object f then f\<lparr>pf_key := True\<rparr> # fs else st)"

definition rune_count :: "string \<Rightarrow> nat" where "rune_count s = length (runes s)"

fun check_tokens :: "json_limits \<Rightarrow> parse_frame list \<Rightarrow> nat \<Rightarrow> json_tok list \<Rightarrow> bool \<Rightarrow> json_guard_err option" where
  "check_tokens l st d [] ended = (if ended then None else Some Bad_token)"
| "check_tokens l st d (Tok_open obj # ts) ended =
     (case note_array_element st of
        None \<Rightarrow> Some Elements_exceeded
      | Some st' \<Rightarrow>
          if d + 1 > jl_depth l then Some Too_deep
          else check_tokens l (\<lparr>pf_object = obj, pf_count = 0, pf_key = obj\<rparr> # st') (d + 1) ts ended)"
| "check_tokens l st d (Tok_close obj # ts) ended =
     (case st of
        [] \<Rightarrow> Some Delim_mismatch
      | f # fs \<Rightarrow> check_tokens l (note_value_complete fs) (d - 1) ts ended)"
| "check_tokens l st d (Tok_str s # ts) ended =
     (if st \<noteq> [] \<and> pf_object (hd st) \<and> pf_key (hd st) then
        if rune_count s > max_entry_name then Some Name_too_long
        else if pf_count (hd st) + 1 > max_entry_count then Some Entries_exceeded
        else check_tokens l ((hd st)\<lparr>pf_count := pf_count (hd st) + 1, pf_key := False\<rparr> # tl st) d ts ended
      else if rune_count s > jl_string l then Some String_too_long
      else case note_array_element st of
        None \<Rightarrow> Some Elements_exceeded
      | Some st' \<Rightarrow> check_tokens l (note_value_complete st') d ts ended)"
| "check_tokens l st d (Tok_atom # ts) ended =
     (case note_array_element st of
        None \<Rightarrow> Some Elements_exceeded
      | Some st' \<Rightarrow> check_tokens l (note_value_complete st') d ts ended)"

definition json_limits_of :: "int \<Rightarrow> int \<Rightarrow> json_limits" where
  "json_limits_of depth str = \<lparr>jl_depth = nat (if depth \<le> 0 then max_container_depth else depth),
     jl_string = nat (if str \<le> 0 then max_string_length else str)\<rparr>"

definition validate_json :: "(string \<Rightarrow> json_stream) \<Rightarrow> string \<Rightarrow> int \<Rightarrow> int \<Rightarrow> json_guard_err option" where
  "validate_json lexer data depth str = (let (ts, ended) = lexer data in check_tokens (json_limits_of depth str) [] 0 ts ended)"

section \<open>The limits on a tree\<close>

datatype json = J_atom | J_str string | J_arr "json list" | J_obj "(string \<times> json) list"

fun json_toks :: "json \<Rightarrow> json_tok list" where
  "json_toks J_atom = [Tok_atom]"
| "json_toks (J_str s) = [Tok_str s]"
| "json_toks (J_arr vs) = Tok_open False # concat (map json_toks vs) @ [Tok_close False]"
| "json_toks (J_obj ms) = Tok_open True # concat (map (\<lambda>(n, v). Tok_str n # json_toks v) ms) @ [Tok_close True]"

text \<open>\<open>fits l k v\<close>: within the limits, with at most \<open>k\<close> nested containers.\<close>

fun fits :: "json_limits \<Rightarrow> nat \<Rightarrow> json \<Rightarrow> bool" where
  "fits l k J_atom \<longleftrightarrow> True"
| "fits l k (J_str s) \<longleftrightarrow> rune_count s \<le> jl_string l"
| "fits l k (J_arr vs) \<longleftrightarrow> 0 < k \<and> length vs \<le> max_element_count \<and> (\<forall>v \<in> set vs. fits l (k - 1) v)"
| "fits l k (J_obj ms) \<longleftrightarrow> 0 < k \<and> length ms \<le> max_entry_count \<and>
     (\<forall>(n, v) \<in> set ms. rune_count n \<le> max_entry_name \<and> fits l (k - 1) v)"

text \<open>A place where the next token begins a value.\<close>

definition value_place :: "parse_frame list \<Rightarrow> bool" where
  "value_place st \<longleftrightarrow> (\<forall>f fs. st = f # fs \<longrightarrow> pf_object f \<longrightarrow> \<not> pf_key f)"

text \<open>What reading one value does to the pass.\<close>

definition value_read :: "json_limits \<Rightarrow> json \<Rightarrow> bool" where
  "value_read l v \<longleftrightarrow> (\<forall>st d ts ended. value_place st \<longrightarrow> d \<le> jl_depth l \<longrightarrow>
     (check_tokens l st d (json_toks v @ ts) ended = None \<longleftrightarrow>
      (\<exists>st'. note_array_element st = Some st' \<and> fits l (jl_depth l - d) v \<and>
        check_tokens l (note_value_complete st') d ts ended = None)))"

lemma value_place_simps [simp]:
  "value_place []" "value_place (f # fs) \<longleftrightarrow> (pf_object f \<longrightarrow> \<not> pf_key f)"
  by (simp_all add: value_place_def)

lemma array_frame_simps [simp]:
  "note_value_complete (\<lparr>pf_object = False, pf_count = n, pf_key = k\<rparr> # st) = \<lparr>pf_object = False, pf_count = n, pf_key = k\<rparr> # st"
  "note_array_element (\<lparr>pf_object = False, pf_count = n, pf_key = k\<rparr> # st) =
     (if n + 1 > max_element_count then None else Some (\<lparr>pf_object = False, pf_count = n + 1, pf_key = k\<rparr> # st))"
  "note_array_element (\<lparr>pf_object = True, pf_count = n, pf_key = k\<rparr> # st) = Some (\<lparr>pf_object = True, pf_count = n, pf_key = k\<rparr> # st)"
  "note_value_complete (\<lparr>pf_object = True, pf_count = n, pf_key = k\<rparr> # st) = \<lparr>pf_object = True, pf_count = n, pf_key = True\<rparr> # st"
  by (simp_all add: note_value_complete_def note_array_element_def)

lemma check_elements:
  assumes "\<And>v. v \<in> set vs \<Longrightarrow> value_read l v" "d \<le> jl_depth l"
  shows "check_tokens l (\<lparr>pf_object = False, pf_count = n, pf_key = False\<rparr> # st) d (concat (map json_toks vs) @ ts) ended = None \<longleftrightarrow>
    (vs \<noteq> [] \<longrightarrow> n + length vs \<le> max_element_count) \<and> (\<forall>v \<in> set vs. fits l (jl_depth l - d) v) \<and>
    check_tokens l (\<lparr>pf_object = False, pf_count = n + length vs, pf_key = False\<rparr> # st) d ts ended = None"
  using assms(1)
proof (induction vs arbitrary: n)
  case (Cons v vs)
  have "value_read l v" using Cons.prems by simp
  then have "check_tokens l (\<lparr>pf_object = False, pf_count = n, pf_key = False\<rparr> # st) d
      (json_toks v @ concat (map json_toks vs) @ ts) ended = None \<longleftrightarrow> n + 1 \<le> max_element_count \<and> fits l (jl_depth l - d) v \<and>
      check_tokens l (\<lparr>pf_object = False, pf_count = n + 1, pf_key = False\<rparr> # st) d (concat (map json_toks vs) @ ts) ended = None"
    using assms(2) unfolding value_read_def by (auto simp: not_less)
  then show ?case using Cons.IH [of "n + 1"] Cons.prems by auto
qed simp

lemma check_members:
  assumes "\<And>n v. (n, v) \<in> set ms \<Longrightarrow> value_read l v" "d \<le> jl_depth l"
  shows "check_tokens l (\<lparr>pf_object = True, pf_count = n, pf_key = True\<rparr> # st) d
      (concat (map (\<lambda>(k, v). Tok_str k # json_toks v) ms) @ ts) ended = None \<longleftrightarrow>
    (ms \<noteq> [] \<longrightarrow> n + length ms \<le> max_entry_count) \<and>
    (\<forall>(k, v) \<in> set ms. rune_count k \<le> max_entry_name \<and> fits l (jl_depth l - d) v) \<and>
    check_tokens l (\<lparr>pf_object = True, pf_count = n + length ms, pf_key = True\<rparr> # st) d ts ended = None"
  using assms(1)
proof (induction ms arbitrary: n)
  case (Cons m ms)
  obtain k v where m: "m = (k, v)" by fastforce
  have "value_read l v" using Cons.prems [of k v] m by simp
  then have "check_tokens l (\<lparr>pf_object = True, pf_count = n + 1, pf_key = False\<rparr> # st) d
      (json_toks v @ concat (map (\<lambda>(k, v). Tok_str k # json_toks v) ms) @ ts) ended = None \<longleftrightarrow> fits l (jl_depth l - d) v \<and>
      check_tokens l (\<lparr>pf_object = True, pf_count = n + 1, pf_key = True\<rparr> # st) d
        (concat (map (\<lambda>(k, v). Tok_str k # json_toks v) ms) @ ts) ended = None"
    using assms(2) unfolding value_read_def by auto
  moreover have "value_read l w" if "(i, w) \<in> set ms" for i w using Cons.prems [of i w] that by simp
  ultimately show ?case using Cons.IH [of "n + 1"] m by (cases "ms = []") (auto simp: not_less)
qed simp

lemma read_value: "value_read l v"
proof (induction v)
  case J_atom
  then show ?case by (auto simp: value_read_def split: option.splits)
next
  case (J_str s)
  then show ?case by (auto simp: value_read_def neq_Nil_conv not_less split: option.splits)
next
  case (J_arr vs)
  then show ?case
    using check_elements [of vs l "Suc d" 0 for d] by (auto simp: value_read_def not_less Suc_le_eq split: option.splits)
next
  case (J_obj ms)
  have "value_read l v" if "(n, v) \<in> set ms" for n v using J_obj [OF that] by simp
  then show ?case
    using check_members [of ms l "Suc d" 0 for d] by (auto simp: value_read_def not_less Suc_le_eq split: option.splits)
qed

lemma check_tokens_error: "check_tokens l st d ts False \<noteq> None"
  by (induction l st d ts False rule: check_tokens.induct) (auto split: option.splits list.splits)

text \<open>The pass accepts what it has read of a text that it accepts.\<close>

lemma check_tokens_prefix: "check_tokens l st d (ts @ us) True = None \<Longrightarrow> check_tokens l st d ts True = None"
  by (induction l st d ts True rule: check_tokens.induct) (auto split: option.splits list.splits if_splits)

text \<open>C14: The pass with the stack accepts exactly the documents that are within the limits: for a text that
  encoding/json reads as the complete values \<open>vs\<close>, no value has containers nested deeper than allowed, more than 64 members in an
  object or 256 elements in an array, a member name of more than 64 characters or another string longer than
  allowed. A text whose tokens end with an error other than \<^verbatim>\<open>io.EOF\<close> (a syntax error, or an end within a token) is always
  refused. A text within the limits that was cut between two tokens is accepted: the error there is \<^verbatim>\<open>io.EOF\<close> as
  well, and such a text is left to the decoder that follows.\<close>
theorem validate_json_exact:
  "(lexer data = (concat (map json_toks vs), True) \<longrightarrow>
      (validate_json lexer data depth str = None \<longleftrightarrow>
        (\<forall>v \<in> set vs. fits (json_limits_of depth str) (jl_depth (json_limits_of depth str)) v))) \<and>
   (\<not> snd (lexer data) \<longrightarrow> validate_json lexer data depth str \<noteq> None) \<and>
   (lexer data = (take n (concat (map json_toks vs)), True) \<longrightarrow>
      (\<forall>v \<in> set vs. fits (json_limits_of depth str) (jl_depth (json_limits_of depth str)) v) \<longrightarrow>
      validate_json lexer data depth str = None)"
proof -
  let ?l = "json_limits_of depth str" and ?ts = "concat (map json_toks vs)"
  have e: "check_tokens ?l [] 0 ?ts True = None \<longleftrightarrow> (\<forall>v \<in> set vs. fits ?l (jl_depth ?l) v)"
  proof (induction vs)
    case (Cons v vs)
    then show ?case using read_value [of ?l v] by (simp add: value_read_def note_array_element_def note_value_complete_def)
  qed simp
  have "check_tokens ?l [] 0 (take n ?ts) True = None" if "check_tokens ?l [] 0 ?ts True = None"
    using check_tokens_prefix [of ?l "[]" 0 "take n ?ts" "drop n ?ts"] that by simp
  then show ?thesis using e check_tokens_error by (auto simp: validate_json_def split: prod.splits)
qed

definition demo_doc :: json where
  "demo_doc = J_obj [(''roles'', J_arr [J_str ''a'', J_obj [(''n'', J_atom)]]), (''user'', J_str ''root'')]"

lemma validate_json_exact_witness:
  "validate_json (\<lambda>_. (json_toks demo_doc, True)) ''x'' 3 0 = None \<and> validate_json (\<lambda>_. (json_toks demo_doc, True)) ''x'' 2 0 \<noteq> None \<and>
   validate_json (\<lambda>_. ([Tok_open True], False)) ''x'' 3 0 \<noteq> None \<and> validate_json (\<lambda>_. ([Tok_open True], True)) ''x'' 3 0 = None"
proof -
  have f: "fits (json_limits_of 3 0) (jl_depth (json_limits_of 3 0)) demo_doc"
    "\<not> fits (json_limits_of 2 0) (jl_depth (json_limits_of 2 0)) demo_doc"
    "take 1 (concat (map json_toks [demo_doc])) = [Tok_open True]" by code_simp+
  show ?thesis
    using f validate_json_exact [of "\<lambda>_. (json_toks demo_doc, True)" "''x''" "[demo_doc]" 3 0 0]
      validate_json_exact [of "\<lambda>_. (json_toks demo_doc, True)" "''x''" "[demo_doc]" 2 0 0]
      validate_json_exact [of "\<lambda>_. ([Tok_open True], False)" "''x''" "[]" 3 0 0]
      validate_json_exact [of "\<lambda>_. ([Tok_open True], True)" "''x''" "[demo_doc]" 3 0 1] by simp
qed

section \<open>Bodies of requests: decode\_json.go\<close>

definition default_body_limit :: int where "default_body_limit = 65536"
definition small_body_limit :: int where "small_body_limit = 16384"
definition large_body_limit :: int where "large_body_limit = 1048576"

datatype body_err = Body_too_large | Invalid_json

text \<open>
  The body is what the client sends and whether reading it failed after that. \<open>decode\<close> is \<^verbatim>\<open>Decode\<close> with
  unknown fields refused, with the rest of the text; \<open>at_eof\<close> tells that a further \<^verbatim>\<open>Decode\<close> finds the end.
\<close>

definition decode_json_body ::
  "(string \<Rightarrow> json_stream) \<Rightarrow> (string \<Rightarrow> ('a \<times> string) option) \<Rightarrow> (string \<Rightarrow> bool) \<Rightarrow> string \<times> bool \<Rightarrow> int \<Rightarrow> body_err + 'a" where
  "decode_json_body lexer decode at_eof body max_bytes0 =
     (let max_bytes = (if max_bytes0 \<le> 0 then default_body_limit else max_bytes0); (data, failed) = body in
      if int (length data) > max_bytes then Inl Body_too_large
      else if failed then Inl Invalid_json
      else
        let max_str = (if max_bytes \<ge> large_body_limit then max_string_length_large else max_string_length) in
        if validate_json lexer data max_container_depth max_str \<noteq> None then Inl Invalid_json
        else case decode data of
          None \<Rightarrow> Inl Invalid_json
        | Some (v, rest) \<Rightarrow> if at_eof rest then Inr v else Inl Invalid_json)"

lemma decode_json_body_Inr:
  assumes "decode_json_body lexer decode at_eof (data, failed) limit = Inr v"
  shows "int (length data) \<le> (if limit \<le> 0 then default_body_limit else limit)" "snd (lexer data)"
    "\<exists>rest. decode data = Some (v, rest) \<and> at_eof rest"
proof -
  show "int (length data) \<le> (if limit \<le> 0 then default_body_limit else limit)" "\<exists>rest. decode data = Some (v, rest) \<and> at_eof rest"
    using assms by (auto simp: decode_json_body_def Let_def split: if_splits option.splits)
  have "validate_json lexer data d m = None \<Longrightarrow> snd (lexer data)" for d m
    by (cases "lexer data"; cases "snd (lexer data)") (auto simp: validate_json_def check_tokens_error)
  then show "snd (lexer data)" using assms by (auto simp: decode_json_body_def Let_def split: if_splits option.splits)
qed

end
