(* ===== verification/Threat_Guard.thy ===== *)
theory Threat_Guard
  imports Http_Guard Json_Guard Go_Float
begin

text \<open>
  The edge of the HTTP API (\<^verbatim>\<open>adapter/httpapi/threatmw.go\<close>, \<^verbatim>\<open>threatprot\<close>, \<^verbatim>\<open>threat_audit.go\<close>): suspicious requests
  are refused, the others pass a rate limiter with one bucket for each client, and refusals are audited at most once a
  minute for each address. The token bucket of \<^verbatim>\<open>golang.org/x/time/rate\<close> is an argument.
\<close>

section \<open>Suspicious requests: injection.go\<close>

abbreviation nul :: char where "nul \<equiv> byte 0"
abbreviation backslash :: char where "backslash \<equiv> byte 92"

definition contains_any :: "string \<Rightarrow> char list \<Rightarrow> bool" where
  "contains_any s cs \<longleftrightarrow> list_ex (\<lambda>c. c \<in> set cs) s"

definition suspicious_path :: "string \<Rightarrow> bool" where
  "suspicious_path path \<longleftrightarrow>
     (let lower = to_lower path in
      path \<noteq> [] \<and>
      (contains_any path [nul] \<or>
       list_ex (contains_str lower) [''/../'', ''/..'', backslash # ''..'', ''..'' @ [backslash]] \<or>
       has_prefix lower ''../'' \<or> has_prefix lower (''..'' @ [backslash]) \<or>
       list_ex (contains_str lower) [''%2e%2e'', ''%2e.'', ''.%2e'', ''..%2f'', ''%2e%2e%2f'', ''%2e%2e'' @ [backslash], ''%2e%2e%5c'']))"

definition suspicious_query :: "string \<Rightarrow> bool" where
  "suspicious_query raw \<longleftrightarrow>
     contains_any raw [nul, byte 13, byte 10] \<or>
     list_ex (contains_str (to_lower raw)) [''%00'', ''%0d'', ''%0a'', ''%2e%2e%2f'', ''%2e%2e/'', ''/../'']"

definition bad_header_text :: "string \<Rightarrow> bool" where
  "bad_header_text s \<longleftrightarrow> contains_any s [byte 13, byte 10, nul]"

definition suspicious_request :: "string \<Rightarrow> string \<Rightarrow> (string \<times> string list) list \<Rightarrow> bool" where
  "suspicious_request path raw_query headers \<longleftrightarrow>
     suspicious_path path \<or> raw_query \<noteq> [] \<and> suspicious_query raw_query \<or>
     list_ex (\<lambda>(name, vals). bad_header_text name \<or> list_ex bad_header_text vals) headers"

section \<open>The rate limiter: ratelimit.go\<close>

text \<open>A token bucket: a new one for a rate and a burst, and the answer of \<^verbatim>\<open>Allow\<close> at a time.\<close>

record 'l bucket_lib =
  bl_new :: "f64 \<Rightarrow> int \<Rightarrow> 'l"
  bl_allow :: "go_time \<Rightarrow> 'l \<Rightarrow> bool \<times> 'l"

record 'l rate_limiter =
  rl_limiters :: "(string, 'l) go_map"
  rl_seen :: "(string, go_time) go_map"
  rl_rps :: f64
  rl_burst :: int

definition rate_ttl :: duration where "rate_ttl = 10 * 60 * 1000000000"
definition gc_threshold :: nat where "gc_threshold = 2048"

definition limiter_burst :: "f64 \<Rightarrow> int \<Rightarrow> int" where
  "limiter_burst rps burst = (if burst \<le> 0 then (if f64_trunc rps < 1 then 1 else f64_trunc rps) else burst)"

definition new_rate_limiter :: "f64 \<Rightarrow> int \<Rightarrow> 'l rate_limiter" where
  "new_rate_limiter rps burst =
     \<lparr>rl_limiters = [], rl_seen = [], rl_rps = rps, rl_burst = limiter_burst rps burst\<rparr>"

definition rate_stale :: "go_time \<Rightarrow> 'l rate_limiter \<Rightarrow> string \<Rightarrow> bool" where
  "rate_stale now l k \<longleftrightarrow> (case gm_get (rl_seen l) k of None \<Rightarrow> False | Some at \<Rightarrow> time_sub now at > rate_ttl)"

definition rate_gc :: "go_time \<Rightarrow> 'l rate_limiter \<Rightarrow> 'l rate_limiter" where
  "rate_gc now l =
     (if length (rl_seen l) < gc_threshold then l
      else l\<lparr>rl_seen := gm_filter (\<lambda>(k, _). \<not> rate_stale now l k) (rl_seen l),
             rl_limiters := gm_filter (\<lambda>(k, _). \<not> rate_stale now l k) (rl_limiters l)\<rparr>)"

text \<open>The clock is read twice: for the map of last requests, and by the bucket itself.\<close>

definition rate_allow ::
  "'l bucket_lib \<Rightarrow> go_time \<times> go_time \<Rightarrow> string \<Rightarrow> 'l rate_limiter \<Rightarrow> bool \<times> 'l rate_limiter" where
  "rate_allow lib readings key l =
     (if f64_le (rl_rps l) 0 \<or> key = [] then (True, l)
      else
        let now = fst readings;
          l1 = rate_gc now l;
          lim = (case gm_get (rl_limiters l1) key of None \<Rightarrow> bl_new lib (rl_rps l1) (rl_burst l1) | Some x \<Rightarrow> x);
          (ok, lim') = bl_allow lib (snd readings) lim in
        (ok, l1\<lparr>rl_limiters := gm_put key lim' (rl_limiters l1), rl_seen := gm_put key now (rl_seen l1)\<rparr>))"

definition rate_limit_key :: "http_request \<Rightarrow> string \<Rightarrow> string" where
  "rate_limit_key r ip =
     (let auth = rq_header r ''Authorization''; tok = take 16 (trim_space (drop 7 auth)) in
      if has_prefix auth ''Bearer '' \<and> tok \<noteq> [] then ''tok:'' @ tok else ''ip:'' @ ip)"

section \<open>Audit of refusals: threat\_audit.go\<close>

record coalesce =
  co_last :: "(string, go_time) go_map"
  co_count :: "(string, nat) go_map"

definition should_emit :: "string \<Rightarrow> go_time \<Rightarrow> coalesce \<Rightarrow> (bool \<times> nat) \<times> coalesce" where
  "should_emit key now c =
     (let count = (case gm_get (co_count c) key of None \<Rightarrow> 0 | Some n \<Rightarrow> n) + 1 in
      if (case gm_get (co_last c) key of None \<Rightarrow> True | Some at \<Rightarrow> time_sub now at \<ge> 60000000000)
      then ((True, count), c\<lparr>co_last := gm_put key now (co_last c), co_count := gm_put key 0 (co_count c)\<rparr>)
      else ((False, count), c\<lparr>co_count := gm_put key count (co_count c)\<rparr>))"

definition audit_rate_limit :: "http_env \<Rightarrow> http_request \<Rightarrow> string \<Rightarrow> coalesce \<Rightarrow> http_state \<Rightarrow> coalesce \<times> http_state" where
  "audit_rate_limit en r ip c s =
     (let ((emit, count), c') = should_emit (if ip = [] then ''unknown'' else ip) (he_now en) c in
      if \<not> emit then (c', s)
      else (c', write_audit \<lparr>au_actor = ip, au_action = ''security.api_rate_limit'', au_type = ''http'', au_id = rq_path r,
        au_result = ''failed'', au_ip = ip, au_details = [(''count'', A_nat count), (''reason'', A_text ''rate_limited'')] @
          (if rq_path r \<noteq> [] then [(''path'', A_text (rq_path r))] else [])\<rparr> s))"

section \<open>The middleware: threatmw.go\<close>

record 'l edge_state =
  ed_limiter :: "'l rate_limiter"
  ed_coalesce :: coalesce
  ed_http :: http_state

definition rate_limit_exempt :: "string \<Rightarrow> bool" where
  "rate_limit_exempt path \<longleftrightarrow> path \<in> {''/live'', ''/ready'', ''/metrics'', ''/api/live'', ''/api/ready'', ''/api/health'',
     ''/api/auth/check'', ''/api/auth/check-admin'', ''/api/auth/check-ops''}"

definition too_many :: http_response where
  "too_many = answer 429 (B_error ''rate limit exceeded'')"

text \<open>The answer of a refusal, or None when the request goes on to the routes.\<close>

definition api_threat ::
  "'l bucket_lib \<Rightarrow> http_env \<Rightarrow> go_time \<times> go_time \<Rightarrow> string \<Rightarrow> (string \<times> string list) list \<Rightarrow> http_request \<Rightarrow> 'l edge_state \<Rightarrow>
   http_response option \<times> 'l edge_state" where
  "api_threat lib en readings raw_query headers r e =
     (if suspicious_request (rq_path r) raw_query headers then (Some (bad_request ''malformed request''), e)
      else if rate_limit_exempt (rq_path r) then (None, e)
      else
        let (ok, l) = rate_allow lib readings (rate_limit_key r (peer_ip en r)) (ed_limiter e) in
        if ok then (None, e\<lparr>ed_limiter := l\<rparr>)
        else
          let (c, s) = audit_rate_limit en r (peer_ip en r) (ed_coalesce e) (ed_http e) in
          (Some too_many, e\<lparr>ed_limiter := l, ed_coalesce := c, ed_http := s\<rparr>))"

section \<open>The limiter is one bucket for each client\<close>

fun rate_run :: "'l bucket_lib \<Rightarrow> ((go_time \<times> go_time) \<times> string) list \<Rightarrow> 'l rate_limiter \<Rightarrow> bool list" where
  "rate_run lib [] l = []"
| "rate_run lib ((t, x) # reqs) l = (let (ok, l') = rate_allow lib t x l in ok # rate_run lib reqs l')"

fun bucket_run :: "'l bucket_lib \<Rightarrow> go_time list \<Rightarrow> 'l \<Rightarrow> bool list" where
  "bucket_run lib [] st = []"
| "bucket_run lib (t # ts) st = (let (ok, st') = bl_allow lib t st in ok # bucket_run lib ts st')"

text \<open>A request is its two readings of the clock and its key.\<close>

definition times_of :: "string \<Rightarrow> ((go_time \<times> go_time) \<times> string) list \<Rightarrow> (go_time \<times> go_time) list" where
  "times_of k reqs = map fst (filter (\<lambda>q. snd q = k) reqs)"

definition answers_of :: "string \<Rightarrow> ((go_time \<times> go_time) \<times> string) list \<Rightarrow> bool list \<Rightarrow> bool list" where
  "answers_of k reqs oks = map snd (filter (\<lambda>(q, _). snd q = k) (zip reqs oks))"

text \<open>No pause of the client is longer than the life of its bucket.\<close>

definition no_long_pause :: "go_time list \<Rightarrow> bool" where
  "no_long_pause = successively (\<lambda>a b. time_sub b a \<le> rate_ttl)"

lemma times_of_simps [simp]:
  "times_of k [] = []" "times_of k ((t, x) # reqs) = (if x = k then t # times_of k reqs else times_of k reqs)"
  by (simp_all add: times_of_def)

lemma times_of_mem: "u \<in> set (times_of k reqs) \<Longrightarrow> u \<in> fst ` set reqs"
  by (auto simp: times_of_def)

definition rate_ok :: "'l rate_limiter \<Rightarrow> bool" where
  "rate_ok l \<longleftrightarrow> gm_ok (rl_limiters l) \<and> gm_ok (rl_seen l)"

lemma gc_get:
  assumes "rate_ok l"
  shows "rate_ok (rate_gc t l)" "rl_rps (rate_gc t l) = rl_rps l" "rl_burst (rate_gc t l) = rl_burst l"
    "\<not> rate_stale t l k \<Longrightarrow> gm_get (rl_limiters (rate_gc t l)) k = gm_get (rl_limiters l) k \<and>
       gm_get (rl_seen (rate_gc t l)) k = gm_get (rl_seen l) k"
  using assms by (auto simp: rate_gc_def rate_ok_def gm_get_filter split: option.splits)

lemma allow_get:
  assumes "rate_ok l" "\<not> f64_le (rl_rps l) 0" "x \<noteq> []" "rate_allow lib c x l = (ok, l')"
  shows "rate_ok l'" "rl_rps l' = rl_rps l" "rl_burst l' = rl_burst l"
    "x \<noteq> k \<Longrightarrow> \<not> rate_stale (fst c) l k \<Longrightarrow> gm_get (rl_limiters l') k = gm_get (rl_limiters l) k \<and> gm_get (rl_seen l') k = gm_get (rl_seen l) k"
    "\<not> rate_stale (fst c) l x \<Longrightarrow> \<exists>st. bl_allow lib (snd c) (case gm_get (rl_limiters l) x of None \<Rightarrow> bl_new lib (rl_rps l) (rl_burst l) | Some y \<Rightarrow> y) = (ok, st) \<and>
       gm_get (rl_limiters l') x = Some st \<and> gm_get (rl_seen l') x = Some (fst c)"
proof -
  obtain st where b: "bl_allow lib (snd c) (case gm_get (rl_limiters (rate_gc (fst c) l)) x of
      None \<Rightarrow> bl_new lib (rl_rps (rate_gc (fst c) l)) (rl_burst (rate_gc (fst c) l)) | Some y \<Rightarrow> y) = (ok, st)"
    and l': "l' = (rate_gc (fst c) l)\<lparr>rl_limiters := gm_put x st (rl_limiters (rate_gc (fst c) l)), rl_seen := gm_put x (fst c) (rl_seen (rate_gc (fst c) l))\<rparr>"
    using assms(2-4) by (auto simp: rate_allow_def Let_def split: prod.splits)
  note g = gc_get [OF assms(1), of "fst c"]
  show "rate_ok l'" "rl_rps l' = rl_rps l" "rl_burst l' = rl_burst l" using g(1-3) by (simp_all add: l' rate_ok_def)
  show "x \<noteq> k \<Longrightarrow> \<not> rate_stale (fst c) l k \<Longrightarrow> gm_get (rl_limiters l') k = gm_get (rl_limiters l) k \<and> gm_get (rl_seen l') k = gm_get (rl_seen l) k"
    using g(4) by (simp add: l')
  show "\<not> rate_stale (fst c) l x \<Longrightarrow> \<exists>st. bl_allow lib (snd c) (case gm_get (rl_limiters l) x of None \<Rightarrow> bl_new lib (rl_rps l) (rl_burst l) | Some y \<Rightarrow> y) = (ok, st) \<and>
      gm_get (rl_limiters l') x = Some st \<and> gm_get (rl_seen l') x = Some (fst c)"
    using g(4) [of x] b [unfolded g(2,3)] by (simp add: l')
qed

lemma rate_run_own:
  assumes "rate_ok l" "\<not> f64_le (rl_rps l) 0" "k \<noteq> []" "sorted (map (\<lambda>q. fst (fst q)) reqs)" "\<forall>q \<in> set reqs. snd q \<noteq> []"
    "case gm_get (rl_seen l) k of None \<Rightarrow> gm_get (rl_limiters l) k = None \<and> no_long_pause (map fst (times_of k reqs))
       | Some a \<Rightarrow> no_long_pause (a # map fst (times_of k reqs))"
  shows "answers_of k reqs (rate_run lib reqs l) = bucket_run lib (map snd (times_of k reqs))
    (case gm_get (rl_limiters l) k of None \<Rightarrow> bl_new lib (rl_rps l) (rl_burst l) | Some st \<Rightarrow> st)"
  using assms
proof (induction reqs arbitrary: l)
  case Nil
  then show ?case by (simp add: answers_of_def)
next
  case (Cons q reqs)
  obtain t x where q: "q = (t, x)" by fastforce
  obtain ok l' where a: "rate_allow lib t x l = (ok, l')" by fastforce
  note g = allow_get [OF Cons.prems(1,2) _ a]
  show ?case
  proof (cases "times_of k (q # reqs) = []")
    case True
    have "filter (\<lambda>(p, _). snd p = k) (zip qs oks) = []" if "times_of k qs = []" for qs and oks :: "bool list"
      using that set_zip_leftD [of _ _ qs oks] by (fastforce simp: times_of_def filter_empty_conv)
    from this [OF True] show ?thesis using True by (simp add: answers_of_def)
  next
    case False
    have fresh: "\<not> rate_stale (fst t) l k"
    proof (cases "gm_get (rl_seen l) k")
      case (Some a)
      obtain u us where u: "times_of k (q # reqs) = u # us" using False by (meson neq_Nil_conv)
      then have "u \<in> fst ` set (q # reqs)" using times_of_mem by (metis list.set_intros(1))
      then have "fst t \<le> fst u" using Cons.prems(4) q by auto
      moreover have "time_sub (fst u) a \<le> rate_ttl" using Cons.prems(6) Some u by (simp add: no_long_pause_def)
      ultimately show ?thesis using Some by (auto simp: rate_stale_def time_sub_def)
    qed (simp add: rate_stale_def)
    have x: "x \<noteq> []" using Cons.prems(5) q by simp
    have rest: "sorted (map (\<lambda>q. fst (fst q)) reqs)" "\<forall>q \<in> set reqs. snd q \<noteq> []" using Cons.prems(4,5) by simp_all
    show ?thesis
    proof (cases "x = k")
      case True
      obtain st where st: "bl_allow lib (snd t) (case gm_get (rl_limiters l) k of None \<Rightarrow> bl_new lib (rl_rps l) (rl_burst l) | Some y \<Rightarrow> y) = (ok, st)"
        "gm_get (rl_limiters l') k = Some st" "gm_get (rl_seen l') k = Some (fst t)" using g(5) [OF x] fresh True by auto
      have "no_long_pause (fst t # map fst (times_of k reqs))" using Cons.prems(6) True q
        by (auto simp: no_long_pause_def successively_Cons split: option.splits)
      then have "answers_of k reqs (rate_run lib reqs l') = bucket_run lib (map snd (times_of k reqs)) st"
        using Cons.IH [of l'] g(1-3) [OF x] Cons.prems(2,3) rest st by simp
      then show ?thesis using True q a st by (simp add: answers_of_def)
    next
      case False
      note e = g(4) [OF x False fresh]
      have own: "times_of k (q # reqs) = times_of k reqs" using False q by simp
      have "answers_of k reqs (rate_run lib reqs l') = bucket_run lib (map snd (times_of k reqs))
          (case gm_get (rl_limiters l) k of None \<Rightarrow> bl_new lib (rl_rps l) (rl_burst l) | Some st \<Rightarrow> st)"
        using Cons.IH [of l', unfolded g(2) [OF x] g(3) [OF x] conjunct1 [OF e] conjunct2 [OF e]]
          g(1) [OF x] Cons.prems(2,3) Cons.prems(6) [unfolded own] rest by blast
      then show ?thesis using False q a by (simp add: answers_of_def)
    qed
  qed
qed

text \<open>C15: However many clients send requests in between and however often old entries are cleared away, a client that never
  pauses for more than ten minutes gets exactly the answers of one token bucket of its own.\<close>
theorem rate_limit_per_client:
  assumes "\<not> f64_le rps 0" "k \<noteq> []" "sorted (map (\<lambda>q. fst (fst q)) reqs)" "\<forall>q \<in> set reqs. snd q \<noteq> []" "no_long_pause (map fst (times_of k reqs))"
  shows "answers_of k reqs (rate_run lib reqs (new_rate_limiter rps burst)) =
    bucket_run lib (map snd (times_of k reqs)) (bl_new lib rps (limiter_burst rps burst))"
  using rate_run_own [of "new_rate_limiter rps burst" k reqs lib] assms by (simp add: new_rate_limiter_def rate_ok_def)

lemma rate_limit_per_client_witness:
  "let lib = \<lparr>bl_new = (\<lambda>r b. (0, nat b)), bl_allow = (\<lambda>t (at, n). if n = 0 then (t \<ge> at + 5, (t, 0)) else (True, (t, n - 1)))\<rparr>;
     reqs = [((0, 1), ''a''), ((1, 1), ''b''), ((2, 3), ''a''), ((3, 3), ''b''), ((4, 4), ''a''), ((20, 21), ''a'')] in
   answers_of ''a'' reqs (rate_run lib reqs (new_rate_limiter 0x4000000000000000 2)) = [True, True, False, True]"
proof -
  let ?lib = "\<lparr>bl_new = (\<lambda>r b. (0, nat b)), bl_allow = (\<lambda>t (at, n). if n = 0 then (t \<ge> at + 5, (t, 0)) else (True, (t, n - 1)))\<rparr>"
  let ?reqs = "[((0, 1), ''a''), ((1, 1), ''b''), ((2, 3), ''a''), ((3, 3), ''b''), ((4, 4), ''a''), ((20, 21), ''a'')] :: ((go_time \<times> go_time) \<times> string) list"
  have f: "\<not> f64_le 0x4000000000000000 0" "limiter_burst 0x4000000000000000 2 = 2"
    by (simp_all add: f64_le_def f64_key_def limiter_burst_def)
  have p: "no_long_pause (map fst (times_of ''a'' ?reqs))" by (simp add: no_long_pause_def times_of_def time_sub_def rate_ttl_def min_duration_def max_duration_def)
  have "bucket_run ?lib (map snd (times_of ''a'' ?reqs)) (bl_new ?lib 0x4000000000000000 2) = [True, True, False, True]"
    by (simp add: times_of_def)
  then show ?thesis using rate_limit_per_client [OF f(1) _ _ _ p, of ?lib 2] f(2) by (simp add: Let_def)
qed

section \<open>What the edge refuses\<close>

lemma contains_append: "contains_str s p \<Longrightarrow> contains_str (a @ s) p"
  by (induction a) auto

lemma contains_prefix: "has_prefix s p \<Longrightarrow> contains_str s p"
  by (cases s) (auto simp: has_prefix_def)

text \<open>Lower case leaves ASCII text without capitals in its place.\<close>

lemma to_lower_plain_suffix:
  assumes "list_all (\<lambda>c. code c < 128 \<and> \<not> (65 \<le> code c \<and> code c \<le> 90)) p" "p \<noteq> []"
  shows "\<exists>u v. to_lower (a @ p @ b) = u @ p @ v"
proof -
  have tail: "\<exists>v. to_lower (p @ b) = p @ v" if "list_all (\<lambda>c. code c < 128 \<and> \<not> (65 \<le> code c \<and> code c \<le> 90)) p" for p
    using that
  proof (induction p)
    case (Cons c p)
    then show ?case by (cases "p @ b") auto
  qed simp
  obtain c p' where p: "p = c # p'" using assms(2) by (cases p) auto
  show ?thesis
  proof (induction a rule: to_lower.induct)
    case 1
    then show ?case using tail [OF assms(1)] by (metis append_Nil)
  next
    case (2 d)
    obtain v where "to_lower (c # p' @ b) = c # p' @ v" using tail [OF assms(1)] p by auto
    moreover have "\<exists>z. to_lower (d # c # p' @ b) = z # to_lower (c # p' @ b)" using assms(1) by (auto simp: p)
    ultimately show ?case by (metis p append_Cons append_Nil)
  next
    case (3 d e cs)
    have s: "\<exists>u v. x # y = u @ p @ v" if "\<exists>u v. y = u @ p @ v" for x y using that by (metis append_Cons)
    show ?case using "3.IH" by (auto intro!: s)
  qed
qed

text \<open>A path with a segment \<^verbatim>\<open>..\<close> is refused, whatever stands around it.\<close>

lemma climbing_path_refused: "suspicious_path (a @ ''/..'' @ b)"
proof -
  have "\<exists>u v. to_lower (a @ ''/..'' @ b) = u @ ''/..'' @ v" by (rule to_lower_plain_suffix) (simp_all add: code_def)
  then obtain u v where u: "to_lower (a @ ''/..'' @ b) = u @ ''/..'' @ v" by blast
  have "contains_str (u @ ''/..'' @ v) ''/..''" by (rule contains_append, rule contains_prefix) (simp add: has_prefix_def)
  then show ?thesis unfolding suspicious_path_def Let_def u by simp
qed

text \<open>A request that goes on to the routes is not suspicious and leaves no audit record.\<close>

lemma edge_pass:
  assumes "api_threat lib en readings raw headers r e = (None, e')"
  shows "\<not> suspicious_request (rq_path r) raw headers" "ed_http e' = ed_http e" "ed_coalesce e' = ed_coalesce e"
  using assms by (auto simp: api_threat_def Let_def split: if_splits prod.splits)

section \<open>Refusals are counted\<close>

text \<open>The counts that were written for a key and the count that waits add up to the refusals.\<close>

fun emitted :: "string \<Rightarrow> go_time list \<Rightarrow> coalesce \<Rightarrow> nat \<times> coalesce" where
  "emitted key [] c = (0, c)"
| "emitted key (t # ts) c =
     (let ((emit, n), c1) = should_emit key t c; (m, c2) = emitted key ts c1 in ((if emit then n else 0) + m, c2))"

definition pending :: "string \<Rightarrow> coalesce \<Rightarrow> nat" where
  "pending key c = (case gm_get (co_count c) key of None \<Rightarrow> 0 | Some n \<Rightarrow> n)"

lemma refusals_counted:
  "emitted key ts c = (n, c') \<Longrightarrow> n + pending key c' = pending key c + length ts"
proof (induction ts arbitrary: c n)
  case (Cons t ts)
  obtain emit k c1 where s: "should_emit key t c = ((emit, k), c1)" by (metis surj_pair)
  obtain m where m: "emitted key ts c1 = (m, c')" "n = (if emit then k else 0) + m"
    using Cons.prems s by (auto simp: Let_def split: prod.splits)
  have "(if emit then k else 0) + pending key c1 = pending key c + 1"
    using s by (auto simp: should_emit_def pending_def Let_def split: if_splits option.splits)
  then show ?case using Cons.IH [OF m(1)] m(2) by simp
qed simp

section \<open>Where the code does less\<close>

text \<open>
  The key is taken from the bearer token before anything verifies it: a client that sends a new token with each
  request gets a new bucket each time, whatever its address did before.
\<close>

lemma new_token_new_bucket:
  assumes "has_prefix (rq_header r ''Authorization'') ''Bearer ''" "take 16 (trim_space (drop 7 (rq_header r ''Authorization''))) = tok"
    "tok \<noteq> []" "gm_get (rl_limiters l) (''tok:'' @ tok) = None" "rate_ok l"
  shows "fst (rate_allow lib readings (rate_limit_key r ip) l) =
    (f64_le (rl_rps l) 0 \<or> fst (bl_allow lib (snd readings) (bl_new lib (rl_rps l) (rl_burst l))))"
proof -
  have k: "rate_limit_key r ip = ''tok:'' @ tok" using assms(1-3) by (auto simp: rate_limit_key_def Let_def)
  have "gm_get (rl_limiters (rate_gc (fst readings) l)) (''tok:'' @ tok) = None"
    using assms(4,5) by (auto simp: rate_gc_def rate_ok_def gm_get_filter)
  then show ?thesis using gc_get(2,3) [OF assms(5), of "fst readings"] k by (auto simp: rate_allow_def Let_def split: prod.splits)
qed

end
