(* ===== verification/Go_Time.thy ===== *)
theory Go_Time
  imports Go_Strings
begin

text \<open>
  What the program uses of Go's package \<^verbatim>\<open>time\<close> beyond instants and durations: the Gregorian calendar, time
  zones, \<^verbatim>\<open>time.Date\<close> and the layouts of the names and dates of backups. A zone of the tz database is its
  offset in seconds as a function of the seconds since 1970, an argument. Days are counted from the first of
  January of year 1.
\<close>

section \<open>The calendar\<close>

definition leap_year :: "int \<Rightarrow> bool" where
  "leap_year y \<longleftrightarrow> y mod 4 = 0 \<and> (y mod 100 \<noteq> 0 \<or> y mod 400 = 0)"

definition month_lengths :: "int \<Rightarrow> int list" where
  "month_lengths y = [31, if leap_year y then 29 else 28, 31, 30, 31, 30, 31, 31, 30, 31, 30, 31]"

definition days_before_year :: "int \<Rightarrow> int" where
  "days_before_year y = 365 * (y - 1) + (y - 1) div 4 - (y - 1) div 100 + (y - 1) div 400"

definition date_days :: "int \<Rightarrow> nat \<Rightarrow> int \<Rightarrow> int" where
  "date_days y m d = days_before_year y + sum_list (take (m - 1) (month_lengths y)) + d - 1"

fun find_month :: "int list \<Rightarrow> nat \<Rightarrow> int \<Rightarrow> nat \<times> int" where
  "find_month [] m k = (m, k)"
| "find_month (l # ls) m k = (if k < l then (m, k) else find_month ls (Suc m) (k - l))"

text \<open>The year of a day and its number in the year.\<close>

definition year_day :: "int \<Rightarrow> int \<times> int" where
  "year_day n =
     (let n400 = n div 146097; r = n mod 146097;
          n100 = min 3 (r div 36524); r1 = r - 36524 * n100;
          n4 = r1 div 1461; r2 = r1 mod 1461;
          n1 = min 3 (r2 div 365) in
      (400 * n400 + 100 * n100 + 4 * n4 + n1 + 1, r2 - 365 * n1))"

definition civil :: "int \<Rightarrow> int \<times> nat \<times> int" where
  "civil n = (let (y, k) = year_day n; (m, d) = find_month (month_lengths y) 1 k in (y, m, d + 1))"

definition valid_date :: "int \<Rightarrow> nat \<Rightarrow> int \<Rightarrow> bool" where
  "valid_date y m d \<longleftrightarrow> 1 \<le> m \<and> m \<le> 12 \<and> 1 \<le> d \<and> d \<le> month_lengths y ! (m - 1)"

lemma int_divides:
  fixes a b q r :: int
  assumes "a = b * q + r" "0 \<le> r" "r < b"
  shows "a div b = q" "a mod b = r"
  using int_div_pos_eq [OF assms] int_mod_pos_eq [OF assms] by simp_all

lemma year_of_parts:
  fixes a b c e y :: int
  assumes 1: "y - 1 = 400 * a + 100 * b + 4 * c + e" "0 \<le> b" "b \<le> 3" "0 \<le> c" "c \<le> 24" "0 \<le> e" "e \<le> 3"
  shows "leap_year y \<longleftrightarrow> e = 3 \<and> (c < 24 \<or> b = 3)" "days_before_year y = 146097 * a + 36524 * b + 1461 * c + 365 * e"
proof -
  let ?z = "y - 1"
  have "?z div 4 = 100 * a + 25 * b + c" by (rule int_divides(1) [where r = e]) (use 1 in \<open>simp_all add: algebra_simps\<close>)
  moreover have "?z div 100 = 4 * a + b" by (rule int_divides(1) [where r = "4 * c + e"]) (use 1 in \<open>simp_all add: algebra_simps\<close>)
  moreover have "?z div 400 = a" by (rule int_divides(1) [where r = "100 * b + 4 * c + e"]) (use 1 in \<open>simp_all add: algebra_simps\<close>)
  ultimately have 2: "?z div 4 = 100 * a + 25 * b + c" "?z div 100 = 4 * a + b" "?z div 400 = a" by blast+
  have m4: "y mod 4 = 0 \<longleftrightarrow> e = 3"
  proof (cases "e = 3")
    case True
    then have "y = 4 * (100 * a + 25 * b + c + 1)" using 1 by (simp add: algebra_simps)
    with True show ?thesis by simp
  next
    case False
    have "y mod 4 = e + 1" by (rule int_divides(2) [where q = "100 * a + 25 * b + c"]) (use 1 False in \<open>simp_all add: algebra_simps\<close>)
    with False 1 show ?thesis by simp
  qed
  have m100: "y mod 100 = 0 \<longleftrightarrow> c = 24 \<and> e = 3"
  proof (cases "c = 24 \<and> e = 3")
    case True
    then have "y = 100 * (4 * a + b + 1)" using 1 by (simp add: algebra_simps)
    with True show ?thesis by simp
  next
    case False
    then have lt: "4 * c + e < 99" using 1 by (cases "c \<le> 23") auto
    have "y mod 100 = 4 * c + e + 1" by (rule int_divides(2) [where q = "4 * a + b"]) (use 1 lt in \<open>simp_all add: algebra_simps\<close>)
    with False 1 show ?thesis by simp
  qed
  have m400: "y mod 400 = 0 \<longleftrightarrow> b = 3 \<and> c = 24 \<and> e = 3"
  proof (cases "b = 3 \<and> c = 24 \<and> e = 3")
    case True
    then have "y = 400 * (a + 1)" using 1 by (simp add: algebra_simps)
    with True show ?thesis by simp
  next
    case False
    then have lt: "100 * b + 4 * c + e < 399" using 1 by (cases "b \<le> 2"; cases "c \<le> 23") auto
    have "y mod 400 = 100 * b + 4 * c + e + 1" by (rule int_divides(2) [where q = a]) (use 1 lt in \<open>simp_all add: algebra_simps\<close>)
    with False 1 show ?thesis by simp
  qed
  show "leap_year y \<longleftrightarrow> e = 3 \<and> (c < 24 \<or> b = 3)"
    unfolding leap_year_def m4 m100 m400 using 1(5) by auto
  show "days_before_year y = 146097 * a + 36524 * b + 1461 * c + 365 * e"
    unfolding days_before_year_def 2 using 1(1) by (simp add: algebra_simps)
qed

lemma year_parts:
  fixes y :: int
  obtains a b c e where "y - 1 = 400 * a + 100 * b + 4 * c + e" "0 \<le> b" "b \<le> 3" "0 \<le> c" "c \<le> 24" "0 \<le> e" "e \<le> 3"
proof -
  let ?z = "y - 1"
  define a r b r' c e where d: "a = ?z div 400" "r = ?z mod 400" "b = r div 100" "r' = r mod 100" "c = r' div 4" "e = r' mod 4"
  have 0: "?z = 400 * a + r" "r = 100 * b + r'" "r' = 4 * c + e" unfolding d by simp_all
  have "0 \<le> r" "r < 400" "0 \<le> r'" "r' < 100" "0 \<le> e" "e < 4" unfolding d by simp_all
  then show ?thesis using 0 by (intro that [of a b c e]) linarith+
qed

lemma year_day_of:
  assumes "0 \<le> k" "k < (if leap_year y then 366 else 365)"
  shows "year_day (days_before_year y + k) = (y, k)"
proof -
  obtain a b c e where p: "y - 1 = 400 * a + 100 * b + 4 * c + e" "0 \<le> b" "b \<le> 3" "0 \<le> c" "c \<le> 24" "0 \<le> e" "e \<le> 3" by (rule year_parts)
  note p = p year_of_parts [OF p]
  define r2 r1 r where d: "r2 = 365 * e + k" "r1 = 1461 * c + r2" "r = 36524 * b + r1"
  have k: "k < 365 \<or> k = 365 \<and> e = 3 \<and> (c < 24 \<or> b = 3)"
  proof (cases "leap_year y")
    case True
    with assms(2) p(8) show ?thesis by auto
  qed (use assms(2) in simp)
  have e: "min 3 (r2 div 365) = e"
  proof (cases "k < 365")
    case True
    have "r2 div 365 = e" by (rule int_divides(1) [where r = k]) (use True assms(1) d in \<open>simp_all add: algebra_simps\<close>)
    with p(7) show ?thesis by simp
  next
    case False
    have "r2 div 365 = 4" by (rule int_divides(1) [where r = 0]) (use False k d in \<open>simp_all add: algebra_simps\<close>)
    with False k show ?thesis by simp
  qed
  have r2: "0 \<le> r2" "r2 < 1461" using assms(1) k p d by linarith+
  have "r1 = 1461 * c + r2" by (rule d(2))
  from int_divides [OF this r2] have c: "r1 div 1461 = c" "r1 mod 1461 = r2" .
  have r1: "0 \<le> r1" "r1 < 36524 \<or> b = 3 \<and> r1 = 36524" using assms(1) k p d by linarith+
  have b: "min 3 (r div 36524) = b"
  proof (cases "r1 < 36524")
    case True
    have "r div 36524 = b" by (rule int_divides(1) [where r = r1]) (use True r1 d in \<open>simp_all add: algebra_simps\<close>)
    with p(3) show ?thesis by simp
  next
    case False
    have "r div 36524 = 4" by (rule int_divides(1) [where r = 0]) (use False r1 d in \<open>simp_all add: algebra_simps\<close>)
    with False r1 show ?thesis by simp
  qed
  have r: "0 \<le> r" "r < 146097" using r1 p d by linarith+
  have n: "days_before_year y + k = 146097 * a + r" using p(9) d by simp
  have a: "(days_before_year y + k) div 146097 = a" "(days_before_year y + k) mod 146097 = r"
    using int_divides [OF n r] by simp_all
  have "r - 36524 * b = r1" "r2 - 365 * e = k" "400 * a + 100 * b + 4 * c + e + 1 = y" using d p(1) by simp_all
  with a b c e show ?thesis by (simp only: year_day_def Let_def)
qed

lemma year_day_inv:
  assumes "year_day n = (y, k)"
  shows "days_before_year y + k = n" "0 \<le> k" "k < (if leap_year y then 366 else 365)"
proof -
  define a r b r1 c r2 e where d: "a = n div 146097" "r = n mod 146097" "b = min 3 (r div 36524)" "r1 = r - 36524 * b"
    "c = r1 div 1461" "r2 = r1 mod 1461" "e = min 3 (r2 div 365)"
  have y: "y - 1 = 400 * a + 100 * b + 4 * c + e" and k: "k = r2 - 365 * e"
    using assms unfolding d year_day_def Let_def by (auto simp: d)
  have r: "0 \<le> r" "r < 146097" unfolding d by simp_all
  have b: "0 \<le> b" "b \<le> 3" "0 \<le> r1" "r1 < 36524 \<or> b = 3 \<and> r1 \<le> 36524" using r unfolding d(3,4) by linarith+
  have r1: "r1 = 1461 * c + r2" "0 \<le> r2" "r2 < 1461" unfolding d(5,6) by simp_all
  then have c: "0 \<le> c" "c \<le> 24" using b by linarith+
  have e: "0 \<le> e" "e \<le> 3" "0 \<le> k" "k < 365 \<or> e = 3 \<and> k \<le> 365" using r1(2,3) unfolding k d(7) by linarith+
  note p = year_of_parts [OF y b(1,2) c e(1,2)]
  have n: "n = 146097 * a + r" "r = 36524 * b + r1" unfolding d by simp_all
  show "days_before_year y + k = n" unfolding p(2) using n r1(1) k by (simp add: algebra_simps)
  show "0 \<le> k" by (rule e(3))
  show "k < (if leap_year y then 366 else 365)"
  proof (cases "k = 365")
    case True
    then have "e = 3" "r2 = 1460" using e k by auto
    then have "c < 24 \<or> b = 3" using r1(1) b(4) c(2) by auto
    with True \<open>e = 3\<close> p(1) show ?thesis by simp
  qed (use e(4) in auto)
qed

lemma find_month_of:
  "i < length ls \<Longrightarrow> 0 \<le> d \<Longrightarrow> d < ls ! i \<Longrightarrow> list_all (\<lambda>l. 0 < l) ls \<Longrightarrow>
   find_month ls m (sum_list (take i ls) + d) = (m + i, d)"
proof (induction ls arbitrary: i m)
  case (Cons l ls)
  show ?case
  proof (cases i)
    case (Suc j)
    have "0 \<le> sum_list (take j ls)"
      using Cons.prems(4) by (intro sum_list_nonneg) (auto simp: list_all_iff dest!: in_set_takeD less_imp_le)
    with Suc Cons.IH [of j "Suc m"] Cons.prems show ?thesis by (simp add: algebra_simps)
  qed (use Cons.prems in simp)
qed simp

text \<open>The calendar is a bijection between the valid dates and the days.\<close>

lemma civil_date_days:
  assumes "valid_date y m d"
  shows "civil (date_days y m d) = (y, m, d)"
proof -
  let ?ls = "month_lengths y" and ?i = "m - 1"
  have ls: "length ?ls = 12" "list_all (\<lambda>l. 0 < l) ?ls" by (simp_all add: month_lengths_def)
  have i: "?i < length ?ls" "0 \<le> d - 1" "d - 1 < ?ls ! ?i" using assms ls by (auto simp: valid_date_def)
  have split: "sum_list (take ?i ?ls) + ?ls ! ?i + sum_list (drop (Suc ?i) ?ls) = sum_list ?ls"
    using id_take_nth_drop [OF i(1)] by (metis sum_list.Cons sum_list.append add.assoc)
  have "0 \<le> sum_list (take ?i ?ls)" "0 \<le> sum_list (drop (Suc ?i) ?ls)"
    using ls(2) by (intro sum_list_nonneg; auto simp: list_all_iff dest!: in_set_takeD in_set_dropD less_imp_le)+
  moreover have "sum_list ?ls = (if leap_year y then 366 else 365)" by (simp add: month_lengths_def)
  ultimately have k: "0 \<le> sum_list (take ?i ?ls) + (d - 1)"
      "sum_list (take ?i ?ls) + (d - 1) < (if leap_year y then 366 else 365)"
    using split i by linarith+
  have "date_days y m d = days_before_year y + (sum_list (take ?i ?ls) + (d - 1))" by (simp add: date_days_def)
  then have "year_day (date_days y m d) = (y, sum_list (take ?i ?ls) + (d - 1))" using year_day_of [OF k] by simp
  moreover have "find_month ?ls 1 (sum_list (take ?i ?ls) + (d - 1)) = (m, d - 1)"
    using find_month_of [OF i ls(2), of 1] assms by (simp add: valid_date_def)
  ultimately show ?thesis by (simp add: civil_def)
qed

lemma find_month_inv:
  assumes "find_month ls m k = (m', d)" "0 \<le> k" "k < sum_list ls"
  shows "\<exists>i < length ls. m' = m + i \<and> 0 \<le> d \<and> d < ls ! i \<and> k = sum_list (take i ls) + d"
  using assms
proof (induction ls arbitrary: m k)
  case (Cons l ls)
  show ?case
  proof (cases "k < l")
    case False
    with Cons.IH [of "Suc m" "k - l"] Cons.prems obtain i where "i < length ls" "m' = Suc m + i" "0 \<le> d" "d < ls ! i"
      "k - l = sum_list (take i ls) + d" by auto
    then show ?thesis by (intro exI [of _ "Suc i"]) auto
  qed (use Cons.prems in auto)
qed simp

lemma date_days_civil:
  assumes "civil n = (y, m, d)"
  shows "valid_date y m d" "date_days y m d = n"
proof -
  obtain k where k: "year_day n = (y, k)" "find_month (month_lengths y) 1 k = (m, d - 1)"
    using assms by (auto simp: civil_def split: prod.splits)
  note y = year_day_inv [OF k(1)]
  have "sum_list (month_lengths y) = (if leap_year y then 366 else 365)" by (simp add: month_lengths_def)
  with y obtain i where i: "i < length (month_lengths y)" "m = 1 + i" "0 \<le> d - 1" "d - 1 < month_lengths y ! i"
    "k = sum_list (take i (month_lengths y)) + (d - 1)"
    using find_month_inv [OF k(2)] by auto
  moreover have "length (month_lengths y) = 12" by (simp add: month_lengths_def)
  ultimately show "valid_date y m d" "date_days y m d = n" using y(1) by (auto simp: valid_date_def date_days_def)
qed

section \<open>Zones\<close>

text \<open>The offset of a zone from UTC in seconds, at an instant in seconds since year 1.\<close>

type_synonym zone = "int \<Rightarrow> int"

definition utc :: zone where "utc = (\<lambda>_. 0)"

definition local_seconds :: "zone \<Rightarrow> go_time \<Rightarrow> int" where
  "local_seconds z t = t div second + z (t div second)"

definition local_day :: "zone \<Rightarrow> go_time \<Rightarrow> int" where
  "local_day z t = local_seconds z t div 86400"

text \<open>\<^verbatim>\<open>time.Date\<close> with an hour and a minute of a day; near a change of the offset it tries the offset twice.\<close>

definition date_in :: "zone \<Rightarrow> int \<Rightarrow> int \<Rightarrow> int \<Rightarrow> go_time" where
  "date_in z day h mi = (let w = day * 86400 + h * 3600 + mi * 60 in (w - z (w - z w)) * second)"

section \<open>Layouts\<close>

definition two :: "int \<Rightarrow> string" where
  "two n = [digit_char (nat n div 10), digit_char (nat n mod 10)]"

text \<open>Years from 0 to 9999\<close>

definition four :: "int \<Rightarrow> string" where
  "four n = two (n div 100) @ two (n mod 100)"

text \<open>\<^verbatim>\<open>2006-01-02\<close>\<close>

definition date_layout :: "zone \<Rightarrow> go_time \<Rightarrow> string" where
  "date_layout z t = (let (y, m, d) = civil (local_day z t) in four y @ ''-'' @ two (int m) @ ''-'' @ two d)"

text \<open>\<^verbatim>\<open>Z0700\<close>\<close>

definition zone_layout :: "int \<Rightarrow> string" where
  "zone_layout off =
     (if off = 0 then ''Z''
      else
        let zm = (if off < 0 then - (- off div 60) else off div 60) in
        (if zm < 0 then ''-'' else ''+'') @ two (\<bar>zm\<bar> div 60) @ two (\<bar>zm\<bar> mod 60))"

text \<open>\<^verbatim>\<open>20060102T150405Z0700\<close>\<close>

definition stamp_layout :: "zone \<Rightarrow> go_time \<Rightarrow> string" where
  "stamp_layout z t =
     (let (y, m, d) = civil (local_day z t); s = local_seconds z t mod 86400 in
      four y @ two (int m) @ two d @ ''T'' @ two (s div 3600) @ two (s div 60 mod 60) @ two (s mod 60) @
      zone_layout (z (t div second)))"

definition num :: "string \<Rightarrow> int" where
  "num ds = foldl (\<lambda>n c. n * 10 + int (digit_val c)) 0 ds"

fun parse_zone :: "string \<Rightarrow> int option" where
  "parse_zone [c] = (if c = CHR ''Z'' then Some 0 else None)"
| "parse_zone [sg, a, b, c, d] =
     (if list_all is_digit [a, b, c, d] \<and> sg \<in> {CHR ''+'', CHR ''-''} then
        let h = num [a, b]; m = num [c, d] in
        if h > 24 \<or> m > 60 then None
        else Some ((if sg = CHR ''-'' then -1 else 1) * (h * 3600 + m * 60))
      else None)"
| "parse_zone _ = None"

text \<open>\<^verbatim>\<open>time.Parse\<close> of this layout, for texts without a fraction of a second.\<close>

definition parse_stamp :: "string \<Rightarrow> go_time option" where
  "parse_stamp s =
     (let f = (\<lambda>i n. take n (drop i s)) in
      if length s < 16 \<or> \<not> list_all is_digit (f 0 8) \<or> s ! 8 \<noteq> CHR ''T'' \<or> \<not> list_all is_digit (f 9 6) then None
      else
        let y = num (f 0 4); m = nat (num (f 4 2)); d = num (f 6 2); h = num (f 9 2); mi = num (f 11 2); sec = num (f 13 2) in
        if \<not> valid_date y m d \<or> h > 23 \<or> mi > 59 \<or> sec > 59 then None
        else case parse_zone (drop 15 s) of
          None \<Rightarrow> None
        | Some off \<Rightarrow> Some ((date_days y m d * 86400 + h * 3600 + mi * 60 + sec - off) * second))"

lemma length_two [simp]: "length (two n) = 2" by (simp add: two_def)

lemma num_two [simp]: "0 \<le> n \<Longrightarrow> n < 100 \<Longrightarrow> num (two n) = n"
  by (simp add: num_def two_def div_less_iff_less_mult nat_less_iff zdiv_int zmod_int mod_less)

lemma digits_two [simp]: "0 \<le> n \<Longrightarrow> n < 100 \<Longrightarrow> list_all is_digit (two n)"
  by (simp add: two_def div_less_iff_less_mult nat_less_iff)

lemma num_append_two: "num (a @ two n) = num a * 100 + num (two n)"
  by (simp add: num_def two_def)

lemma num_four [simp]: "0 \<le> n \<Longrightarrow> n < 10000 \<Longrightarrow> num (four n) = n"
  using num_two [of "n div 100"] num_two [of "n mod 100"]
  by (simp add: four_def num_append_two div_less_iff_less_mult)

lemma parse_zone_layout:
  assumes "\<bar>off\<bar> \<le> 86400" "off mod 60 = 0"
  shows "parse_zone (zone_layout off) = Some off"
proof (cases "off = 0")
  case False
  define zm where "zm = (if off < 0 then - (- off div 60) else off div 60)"
  obtain q where q: "off = 60 * q" using assms(2) by auto
  have "- off div 60 = - q" using nonzero_mult_div_cancel_left [of 60 "- q"] q by simp
  then have off: "off = 60 * zm" using q by (simp add: zm_def)
  then have "\<bar>zm\<bar> \<le> 1440" using assms(1) by linarith
  then have r: "0 \<le> \<bar>zm\<bar> div 60" "\<bar>zm\<bar> div 60 \<le> 24" "0 \<le> \<bar>zm\<bar> mod 60" "\<bar>zm\<bar> mod 60 < 60"
    using zdiv_mono1 [of "\<bar>zm\<bar>" 1440 60] by simp_all
  let ?h = "\<bar>zm\<bar> div 60" and ?m = "\<bar>zm\<bar> mod 60"
  obtain a b c d where t: "two ?h = [a, b]" "two ?m = [c, d]" by (simp add: two_def)
  have n: "num [a, b] = ?h" "num [c, d] = ?m" using num_two [of ?h] num_two [of ?m] r unfolding t by linarith+
  have "list_all is_digit [a, b]" "list_all is_digit [c, d]"
    using digits_two [of ?h] digits_two [of ?m] r unfolding t by linarith+
  then have dg: "list_all is_digit [a, b, c, d]" by simp
  have "?h * 3600 + ?m * 60 = 60 * \<bar>zm\<bar>" using mult_div_mod_eq [of 60 "\<bar>zm\<bar>"] by linarith
  moreover have "zone_layout off = (if zm < 0 then CHR ''-'' else CHR ''+'') # [a, b, c, d]"
    using False t by (simp add: zone_layout_def Let_def zm_def [symmetric])
  moreover have "\<not> 60 < x mod 60" for x :: int using pos_mod_bound [of 60 x] by linarith
  ultimately show ?thesis using n r dg off by (cases "zm < 0") (simp_all add: Let_def not_less)
qed (simp add: zone_layout_def)

text \<open>A name printed from an instant is read back as that instant, in seconds.\<close>

lemma parse_stamp_layout:
  assumes "civil (local_day z t) = (y, m, d)" "0 \<le> y" "y < 10000"
    and "\<bar>z (t div second)\<bar> \<le> 86400" "z (t div second) mod 60 = 0"
  shows "parse_stamp (stamp_layout z t) = Some (t div second * second)"
proof -
  define s where "s = local_seconds z t mod 86400"
  have s: "0 \<le> s" "s < 86400" unfolding s_def by simp_all
  let ?h = "s div 3600" and ?mi = "s div 60 mod 60" and ?sec = "s mod 60"
  have h: "0 \<le> ?h" "?h < 24" using s by auto
  have ms: "x mod 60 \<le> 59" for x :: int using pos_mod_bound [of 60 x] by linarith
  have hms: "?h * 3600 + ?mi * 60 + ?sec = s"
  proof -
    have "s div 3600 = s div 60 div 60" by (simp add: zdiv_zmult2_eq [symmetric])
    then show ?thesis using mult_div_mod_eq [of 60 "s div 60"] mult_div_mod_eq [of 60 s] by linarith
  qed
  note c = date_days_civil [OF assms(1)]
  have "month_lengths y ! (m - 1) \<le> 31" if "m \<le> 12"
  proof -
    have "m - 1 < length (month_lengths y)" using that by (simp add: month_lengths_def)
    then have "month_lengths y ! (m - 1) \<in> set (month_lengths y)" by (rule nth_mem)
    then show ?thesis by (auto simp: month_lengths_def split: if_splits)
  qed
  then have md: "1 \<le> m" "m \<le> 12" "1 \<le> d" "d \<le> 31" using c(1) by (auto simp: valid_date_def)
  let ?t = "four y @ two (int m) @ two d @ ''T'' @ two ?h @ two ?mi @ two ?sec @ zone_layout (z (t div second))"
  have t: "stamp_layout z t = ?t" using assms(1) by (simp add: stamp_layout_def s_def [symmetric] Let_def)
  have l4: "length (four y) = 4" by (simp add: four_def)
  have lz: "length (zone_layout off) \<ge> 1" for off by (simp add: zone_layout_def Let_def)
  have f: "take 8 ?t = four y @ two (int m) @ two d" "take 4 ?t = four y" "take 2 (drop 4 ?t) = two (int m)"
    "take 2 (drop 6 ?t) = two d" "?t ! 8 = CHR ''T''" "take 6 (drop 9 ?t) = two ?h @ two ?mi @ two ?sec"
    "take 2 (drop 9 ?t) = two ?h" "take 2 (drop 11 ?t) = two ?mi" "take 2 (drop 13 ?t) = two ?sec"
    "drop 15 ?t = zone_layout (z (t div second))"
    by (simp_all add: l4 nth_append)
  have long: "\<not> length ?t < 16" using lz [of "z (t div second)"] by (auto simp: l4 Suc_le_eq)
  have d4: "list_all is_digit (four y)" using assms(2,3) by (simp add: four_def div_less_iff_less_mult)
  have "date_days y m d * 86400 + ?h * 3600 + ?mi * 60 + ?sec = local_seconds z t"
    using c(2) hms mult_div_mod_eq [of 86400 "local_seconds z t"] unfolding s_def local_day_def by linarith
  then have "(date_days y m d * 86400 + ?h * 3600 + ?mi * 60 + ?sec - z (t div second)) * second = t div second * second"
    by (simp add: local_seconds_def)
  then show ?thesis
    unfolding t parse_stamp_def Let_def drop_0 f using long d4 c(1) h md assms(2,3) parse_zone_layout [OF assms(4,5)]
    by (simp add: not_less ms)
qed

end
