(* ===== verification/Backup_Store.thy ===== *)
theory Backup_Store
  imports Go_Time Go_Text Go_Maps Files
begin

text \<open>
  What the backup service stands on: its daily schedule (\<^verbatim>\<open>usecase/backup/schedule.go\<close>) and the file that keeps it
  (\<^verbatim>\<open>adapter/backupschedulefile\<close>), the directory of backups (\<^verbatim>\<open>adapter/backupfs/store.go\<close>) and the
  tables of an attached backup in ClickHouse (\<^verbatim>\<open>adapter/clickhouse/backupstore\<close>). The tz database, the
  outcomes of system calls and of SQL statements, and the order of \<^verbatim>\<open>sort.Slice\<close> are arguments.
\<close>

section \<open>The schedule: schedule.go\<close>

definition min_keep :: int where "min_keep = 1"
definition max_keep :: int where "max_keep = 90"

record backup_schedule =
  bs_enabled :: bool
  bs_hour :: int
  bs_minute :: int
  bs_zone :: string
  bs_keep :: int
  bs_edges :: bool
  bs_auth :: bool
  bs_updated :: string
  bs_last_at :: string
  bs_last_date :: string

record backup_options =
  bo_enabled :: bool
  bo_data_dir :: string
  bo_keep :: int
  bo_edges :: bool
  bo_auth :: bool

datatype schedule_err = Bad_zone string | Bad_hour int | Bad_minute int | Bad_keep int

text \<open>\<^verbatim>\<open>time.LoadLocation\<close>\<close>

type_synonym tz_data = "string \<Rightarrow> zone option"

definition zone_or_utc :: "tz_data \<Rightarrow> string \<Rightarrow> zone" where
  "zone_or_utc tz name = (case tz name of None \<Rightarrow> utc | Some z \<Rightarrow> z)"

definition format_backup_name :: "tz_data \<Rightarrow> go_time \<Rightarrow> string \<Rightarrow> string" where
  "format_backup_name tz now timezone =
     (let name = trim_space timezone; z = (if name \<noteq> [] then zone_or_utc tz name else utc) in
      ''ga-'' @ stamp_layout z now)"

definition defaults_schedule :: "backup_options \<Rightarrow> backup_schedule" where
  "defaults_schedule opts = \<lparr>bs_enabled = False, bs_hour = 2, bs_minute = 30, bs_zone = ''Europe/Moscow'',
     bs_keep = (if bo_keep opts < min_keep then 7 else bo_keep opts), bs_edges = bo_edges opts, bs_auth = bo_auth opts,
     bs_updated = [], bs_last_at = [], bs_last_date = []\<rparr>"

definition validate_schedule :: "tz_data \<Rightarrow> backup_schedule \<Rightarrow> schedule_err + backup_schedule" where
  "validate_schedule tz sch =
     (let name = (if trim_space (bs_zone sch) = [] then ''UTC'' else trim_space (bs_zone sch)) in
      if tz name = None then Inl (Bad_zone name)
      else if bs_hour sch < 0 \<or> bs_hour sch > 23 then Inl (Bad_hour (bs_hour sch))
      else if bs_minute sch < 0 \<or> bs_minute sch > 59 then Inl (Bad_minute (bs_minute sch))
      else if bs_keep sch < min_keep \<or> bs_keep sch > max_keep then Inl (Bad_keep (bs_keep sch))
      else Inr (sch\<lparr>bs_zone := name, bs_last_date := trim_space (bs_last_date sch)\<rparr>))"

definition slot_of :: "zone \<Rightarrow> backup_schedule \<Rightarrow> go_time \<Rightarrow> go_time" where
  "slot_of z sch now = date_in z (local_day z now) (bs_hour sch) (bs_minute sch)"

definition next_run_at :: "tz_data \<Rightarrow> backup_schedule \<Rightarrow> go_time \<Rightarrow> go_time" where
  "next_run_at tz sch now =
     (let z = zone_or_utc tz (bs_zone sch); candidate = slot_of z sch now in
      if bs_last_date sch = date_layout z now then candidate + 24 * hour
      else if now < candidate then candidate
      else now)"

definition should_fire :: "tz_data \<Rightarrow> backup_schedule \<Rightarrow> go_time \<Rightarrow> bool \<times> string" where
  "should_fire tz sch now =
     (if \<not> bs_enabled sch then (False, [])
      else
        let z = zone_or_utc tz (bs_zone sch); key = date_layout z now in
        if bs_last_date sch = key then (False, key)
        else if now < slot_of z sch now then (False, key)
        else (True, key))"

section \<open>The file of the schedule: backupschedulefile\<close>

definition validated_seed :: "tz_data \<Rightarrow> backup_schedule \<Rightarrow> backup_schedule" where
  "validated_seed tz seed =
     (case validate_schedule tz seed of
        Inr out \<Rightarrow> out
      | Inl e \<Rightarrow> defaults_schedule \<lparr>bo_enabled = False, bo_data_dir = [], bo_keep = 7, bo_edges = True, bo_auth = True\<rparr>)"

definition schedule_load_hook :: "tz_data \<Rightarrow> backup_schedule \<Rightarrow> backup_schedule \<Rightarrow> json_err + backup_schedule" where
  "schedule_load_hook tz miss raw =
     (case validate_schedule tz raw of
        Inl e \<Rightarrow> Inr (miss\<lparr>bs_last_at := trim_space (bs_last_at raw), bs_last_date := trim_space (bs_last_date raw)\<rparr>)
      | Inr n \<Rightarrow>
          let n1 = (if bs_last_at n = [] then n\<lparr>bs_last_at := trim_space (bs_last_at raw)\<rparr> else n) in
          Inr (if bs_last_date n1 = [] then n1\<lparr>bs_last_date := trim_space (bs_last_date raw)\<rparr> else n1))"

definition schedule_save_hook :: "tz_data \<Rightarrow> backup_schedule \<Rightarrow> json_err + backup_schedule" where
  "schedule_save_hook tz st =
     (case validate_schedule tz st of
        Inl e \<Rightarrow> Inl Hook_failed
      | Inr out \<Rightarrow> Inr (out\<lparr>bs_last_at := trim_space (bs_last_at st), bs_last_date := trim_space (bs_last_date st),
          bs_updated := trim_space (bs_updated st)\<rparr>))"

definition new_schedule_store :: "tz_data \<Rightarrow> string \<Rightarrow> backup_schedule \<Rightarrow> backup_schedule json_store" where
  "new_schedule_store tz path seed =
     (let miss = validated_seed tz seed in
      new_json_store path miss (Some (schedule_load_hook tz miss)) (Some (schedule_save_hook tz)))"

section \<open>The directory of backups: backupfs\<close>

definition source_manual :: string where "source_manual = ''manual''"
definition source_schedule :: string where "source_schedule = ''schedule''"

definition normalize_source :: "string \<Rightarrow> string" where
  "normalize_source s =
     (let n = trim_space (to_lower s) in
      if n = source_manual then source_manual else if n = source_schedule then source_schedule else [])"

text \<open>The pattern of the names: \<^verbatim>\<open>^ga-\d{8}T\d{6}(?:Z|[+-]\d{4})$\<close>\<close>

definition backup_name_ok :: "string \<Rightarrow> bool" where
  "backup_name_ok s \<longleftrightarrow>
     (let t = drop 3 s; e = drop 15 t in
      has_prefix s ''ga-'' \<and> 16 \<le> length t \<and> list_all is_digit (take 8 t) \<and> t ! 8 = CHR ''T'' \<and>
      list_all is_digit (take 6 (drop 9 t)) \<and>
      (e = ''Z'' \<or> length e = 5 \<and> hd e \<in> {CHR ''+'', CHR ''-''} \<and> list_all is_digit (tl e)))"

record backup_dir =
  bd_modified :: go_time
  bd_size :: int

text \<open>The volume (mounted when \<open>se_ready\<close>): the directories, the files \<open>name.source\<close> and \<open>name.auth.tgz\<close> and the marker of the attached backup.\<close>

record backup_files =
  bf_dirs :: "(string, backup_dir) go_map"
  bf_sources :: "(string, string) go_map"
  bf_auth :: "(string, int) go_map"
  bf_marker :: "string option"

text \<open>\<^verbatim>\<open>os.WriteFile\<close> truncates before it writes: a failed write leaves the file alone or a part of the data.\<close>

datatype plain_write = W_done | W_kept | W_cut nat

record entry =
  en_name :: string
  en_created :: go_time
  en_size :: int
  en_auth :: bool
  en_attached :: bool
  en_source :: string

record store_env =
  se_ready :: bool
  se_list_ok :: bool
  se_info_ok :: "string \<Rightarrow> bool"
  se_marker_ok :: bool
  se_removed :: "string \<Rightarrow> bool"
  se_marker_write :: plain_write
  se_source_write :: plain_write
  se_sort :: "entry list \<Rightarrow> entry list"

datatype store_err = Dir_not_ready | Bad_backup_name | Bad_source | Backup_missing | List_failed | Marker_failed | Remove_failed | Write_error

definition plain_write :: "plain_write \<Rightarrow> string \<Rightarrow> string option \<Rightarrow> bool \<times> string option" where
  "plain_write w data old =
     (case w of W_done \<Rightarrow> (True, Some data) | W_kept \<Rightarrow> (False, old) | W_cut n \<Rightarrow> (False, Some (take n data)))"

definition parse_backup_name_time :: "string \<Rightarrow> go_time option" where
  "parse_backup_name_time name = (if \<not> has_prefix name ''ga-'' then None else parse_stamp (drop 3 name))"

definition entry_of :: "backup_files \<Rightarrow> string \<times> backup_dir \<Rightarrow> entry" where
  "entry_of fs d =
     (case d of (name, dir) \<Rightarrow>
        \<lparr>en_name = name,
         en_created = (case parse_backup_name_time name of Some t \<Rightarrow> t | None \<Rightarrow> bd_modified dir),
         en_size = bd_size dir + (case gm_get (bf_auth fs) name of Some n \<Rightarrow> n | None \<Rightarrow> 0),
         en_auth = (gm_get (bf_auth fs) name \<noteq> None), en_attached = False,
         en_source = (case gm_get (bf_sources fs) name of Some b \<Rightarrow> normalize_source b | None \<Rightarrow> [])\<rparr>)"

text \<open>\<^verbatim>\<open>sort.Slice\<close> by \<^verbatim>\<open>CreatedAt.After\<close>: newest first.\<close>

definition entry_le :: "entry \<Rightarrow> entry \<Rightarrow> bool" where
  "entry_le a b \<longleftrightarrow> en_created b \<le> en_created a"

interpretation entry_sort: slice_sorter entry_le "sort_by entry_le"
  by (rule slice_sorter_sort_by) (auto simp: entry_le_def intro!: transpI totalpI reflpI)

definition list_backups :: "store_env \<Rightarrow> backup_files \<Rightarrow> store_err + entry list" where
  "list_backups en fs =
     (if \<not> se_ready en then Inr []
      else if \<not> se_list_ok en then Inl List_failed
      else Inr (se_sort en (map (entry_of fs) (filter (\<lambda>(n, d). backup_name_ok n \<and> se_info_ok en n) (bf_dirs fs)))))"

definition write_source :: "store_env \<Rightarrow> string \<Rightarrow> string \<Rightarrow> backup_files \<Rightarrow> (store_err + unit) \<times> backup_files" where
  "write_source en name source fs =
     (if \<not> se_ready en then (Inl Dir_not_ready, fs)
      else if \<not> backup_name_ok name then (Inl Bad_backup_name, fs)
      else
        let src = normalize_source source in
        if src = [] then (Inl Bad_source, fs)
        else
          let (ok, c) = plain_write (se_source_write en) (src @ [byte 10]) (gm_get (bf_sources fs) name) in
          ((if ok then Inr () else Inl Write_error),
           fs\<lparr>bf_sources := (case c of None \<Rightarrow> bf_sources fs | Some b \<Rightarrow> gm_put name b (bf_sources fs))\<rparr>))"

definition backup_exists :: "store_env \<Rightarrow> backup_files \<Rightarrow> string \<Rightarrow> bool" where
  "backup_exists en fs name \<longleftrightarrow> se_ready en \<and> backup_name_ok name \<and> gm_get (bf_dirs fs) name \<noteq> None"

text \<open>The name of the attached backup, empty when there is none.\<close>

definition marker_name :: "backup_files \<Rightarrow> string" where
  "marker_name fs =
     (case bf_marker fs of
        None \<Rightarrow> []
      | Some b \<Rightarrow> let name = trim_space b in if backup_name_ok name then name else [])"

definition attached :: "store_env \<Rightarrow> backup_files \<Rightarrow> store_err + string" where
  "attached en fs =
     (if \<not> se_ready en then Inr []
      else if bf_marker fs = None then Inr []
      else if \<not> se_marker_ok en then Inl Marker_failed
      else Inr (marker_name fs))"

definition attached_file :: string where "attached_file = ''.ga-attached''"

definition set_attached :: "store_env \<Rightarrow> string \<Rightarrow> backup_files \<Rightarrow> (store_err + unit) \<times> backup_files" where
  "set_attached en name0 fs =
     (if \<not> se_ready en then (Inl Dir_not_ready, fs)
      else
        let name = trim_space name0 in
        if name = [] then (Inr (), if se_removed en attached_file then fs\<lparr>bf_marker := None\<rparr> else fs)
        else if \<not> backup_name_ok name then (Inl Bad_backup_name, fs)
        else
          let (ok, c) = plain_write (se_marker_write en) (name @ [byte 10]) (bf_marker fs) in
          ((if ok then Inr () else Inl Write_error), fs\<lparr>bf_marker := c\<rparr>))"

definition remove_side_files :: "store_env \<Rightarrow> string \<Rightarrow> backup_files \<Rightarrow> backup_files" where
  "remove_side_files en name fs =
     fs\<lparr>bf_auth := (if se_removed en (name @ ''.auth.tgz'') then gm_del name (bf_auth fs) else bf_auth fs),
        bf_sources := (if se_removed en (name @ ''.source'') then gm_del name (bf_sources fs) else bf_sources fs)\<rparr>"

definition delete_files :: "store_env \<Rightarrow> string \<Rightarrow> backup_files \<Rightarrow> (store_err + unit) \<times> backup_files" where
  "delete_files en name fs =
     (if \<not> se_ready en then (Inl Dir_not_ready, fs)
      else if \<not> backup_name_ok name then (Inl Bad_backup_name, fs)
      else if \<not> backup_exists en fs name then (Inl Backup_missing, fs)
      else if \<not> se_removed en name then (Inl Remove_failed, fs)
      else (Inr (), remove_side_files en name (fs\<lparr>bf_dirs := gm_del name (bf_dirs fs)\<rparr>)))"

definition prune_one :: "store_env \<Rightarrow> string \<Rightarrow> backup_files \<Rightarrow> backup_files" where
  "prune_one en name fs =
     remove_side_files en name (if se_removed en name then fs\<lparr>bf_dirs := gm_del name (bf_dirs fs)\<rparr> else fs)"

fun prune_from :: "store_env \<Rightarrow> string \<Rightarrow> int \<Rightarrow> int \<Rightarrow> entry list \<Rightarrow> backup_files \<Rightarrow> backup_files" where
  "prune_from en att keep kept [] fs = fs"
| "prune_from en att keep kept (e # es) fs =
     (if en_name e = att then prune_from en att keep kept es fs
      else if kept + 1 \<le> keep then prune_from en att keep (kept + 1) es fs
      else prune_from en att keep (kept + 1) es (prune_one en (en_name e) fs))"

definition prune :: "store_env \<Rightarrow> int \<Rightarrow> backup_files \<Rightarrow> (store_err + unit) \<times> backup_files" where
  "prune en keep0 fs =
     (if \<not> se_ready en then (Inr (), fs)
      else
        let keep = (if keep0 < 1 then 1 else keep0);
          att = (case attached en fs of Inl e \<Rightarrow> [] | Inr n \<Rightarrow> n) in
        case list_backups en fs of
          Inl e \<Rightarrow> (Inl e, fs)
        | Inr es \<Rightarrow> (Inr (), prune_from en att keep 0 es fs))"

text \<open>The members of the archive of accounts: regular files and directories, without links and temporary files.\<close>

datatype walk_kind = W_dir | W_regular | W_link | W_other

definition has_suffix :: "string \<Rightarrow> string \<Rightarrow> bool" where
  "has_suffix s suf \<longleftrightarrow> length suf \<le> length s \<and> drop (length s - length suf) s = suf"

definition skip_auth_tarball_name :: "string \<Rightarrow> bool" where
  "skip_auth_tarball_name base \<longleftrightarrow>
     base \<in> {[], ''.'', ''.ga_backend.lock''} \<or> has_suffix base ''.snap'' \<or> has_suffix base ''.tmp''"

definition base_name :: "string \<Rightarrow> string" where
  "base_name p = rev (takeWhile (\<lambda>c. c \<noteq> CHR ''/'') (rev p))"

definition tar_members :: "(string \<times> walk_kind) list \<Rightarrow> string list" where
  "tar_members es =
     concat (map (\<lambda>(p, k).
       if p = ''.'' \<or> k = W_link \<or> skip_auth_tarball_name (base_name p) then []
       else if k = W_dir then [p @ ''/'']
       else if k = W_regular then [p]
       else []) es)"

section \<open>The tables of an attached backup: backup_run.go\<close>

datatype exec_result = Exec_ok | Exec_err string

definition map_shadow_pairs :: "(string \<times> string) list" where
  "map_shadow_pairs =
     [(''traffic_logs'', ''ga_bak_traffic_logs''), (''traffic_edges_daily'', ''ga_bak_traffic_edges_daily''),
      (''traffic_edges_hourly'', ''ga_bak_traffic_edges_hourly''),
      (''traffic_edges_city_daily'', ''ga_bak_traffic_edges_city_daily''),
      (''traffic_edges_country_daily'', ''ga_bak_traffic_edges_country_daily''),
      (''traffic_edges_continent_daily'', ''ga_bak_traffic_edges_continent_daily'')]"

definition safe_ident :: "string \<Rightarrow> bool" where
  "safe_ident s \<longleftrightarrow> s \<noteq> [] \<and> list_all (\<lambda>c. is_alnum c \<or> c = CHR ''_'') s"

definition bad_disk_name :: "string \<Rightarrow> bool" where
  "bad_disk_name name \<longleftrightarrow> name = [] \<or> list_ex (\<lambda>c. c \<in> {byte 39, byte 92, byte 34, CHR ''/'', CHR '';''}) name"

definition backup_tables_sql :: "string list \<Rightarrow> string \<Rightarrow> string" where
  "backup_tables_sql tables name =
     ''BACKUP '' @ join '', '' (map (\<lambda>t. ''TABLE '' @ t) tables) @ '' TO Disk('' @ [byte 39] @ ''backups'' @ [byte 39] @
     '', '' @ [byte 39] @ name @ [byte 39] @ '')''"

definition restore_table_as_sql :: "string \<Rightarrow> string \<Rightarrow> string \<Rightarrow> string" where
  "restore_table_as_sql src dest name =
     ''RESTORE TABLE '' @ src @ '' AS '' @ dest @ '' FROM Disk('' @ [byte 39] @ ''backups'' @ [byte 39] @
     '', '' @ [byte 39] @ name @ [byte 39] @ '')''"

definition drop_table_sql :: "string \<Rightarrow> string" where
  "drop_table_sql t = ''DROP TABLE IF EXISTS '' @ t"

definition missing_backup_object :: "string \<Rightarrow> bool" where
  "missing_backup_object e \<longleftrightarrow>
     list_ex (contains_str (to_lower e))
       [''not found'', [CHR ''d'', CHR ''o'', CHR ''e'', CHR ''s'', CHR ''n'', byte 39, CHR ''t''] @ '' exist'',
        ''does not exist'', ''unknown_table'', ''no_such'', ''cannot find'',
        ''backup doesn'' @ [byte 39] @ ''t'', ''backup does not'']"

datatype runner_err = Bad_disk_name | Bad_table string | Bad_pair string string | No_tables | Nothing_restored string
  | Drop_failed string string | Restore_failed string string | Backup_failed string

text \<open>
  The tables that a backup was restored to, with the name of the backup. \<^verbatim>\<open>DROP TABLE\<close> takes one away,
  \<^verbatim>\<open>RESTORE TABLE\<close> adds one; a statement that fails changes nothing. \<open>exec\<close> is the outcome of a statement.
\<close>

type_synonym shadow_tables = "(string, string) go_map"

fun drop_tables :: "(string \<Rightarrow> exec_result) \<Rightarrow> string list \<Rightarrow> shadow_tables \<Rightarrow> (runner_err + unit) \<times> shadow_tables" where
  "drop_tables exec [] tabs = (Inr (), tabs)"
| "drop_tables exec (t0 # ts) tabs =
     (let t = trim_space t0 in
      if t = [] \<or> \<not> safe_ident t then (Inl (Bad_table t), tabs)
      else case exec (drop_table_sql t) of
        Exec_err e \<Rightarrow> (Inl (Drop_failed t e), tabs)
      | Exec_ok \<Rightarrow> drop_tables exec ts (gm_del t tabs))"

fun restore_pairs ::
  "(string \<Rightarrow> exec_result) \<Rightarrow> string \<Rightarrow> nat \<Rightarrow> (string \<times> string) list \<Rightarrow> shadow_tables \<Rightarrow> (runner_err + unit) \<times> shadow_tables" where
  "restore_pairs exec name restored [] tabs =
     (if restored = 0 then (Inl (Nothing_restored name), tabs) else (Inr (), tabs))"
| "restore_pairs exec name restored ((src0, dest0) # ps) tabs =
     (let src = trim_space src0; dest = trim_space dest0 in
      if src = [] \<or> dest = [] \<or> \<not> safe_ident src \<or> \<not> safe_ident dest then (Inl (Bad_pair src dest), tabs)
      else case exec (drop_table_sql dest) of
        Exec_err e \<Rightarrow> (Inl (Drop_failed dest e), tabs)
      | Exec_ok \<Rightarrow>
          let tabs1 = gm_del dest tabs in
          (case exec (restore_table_as_sql src dest name) of
             Exec_err e \<Rightarrow>
               if missing_backup_object e then restore_pairs exec name restored ps tabs1
               else (Inl (Restore_failed src e), tabs1)
           | Exec_ok \<Rightarrow> restore_pairs exec name (Suc restored) ps (gm_put dest name tabs1)))"

definition restore_tables_as ::
  "(string \<Rightarrow> exec_result) \<Rightarrow> string \<Rightarrow> (string \<times> string) list \<Rightarrow> shadow_tables \<Rightarrow> (runner_err + unit) \<times> shadow_tables" where
  "restore_tables_as exec name0 pairs tabs =
     (let name = trim_space name0 in
      if bad_disk_name name then (Inl Bad_disk_name, tabs) else restore_pairs exec name 0 pairs tabs)"

definition restore_map_shadow ::
  "(string \<Rightarrow> exec_result) \<Rightarrow> string \<Rightarrow> shadow_tables \<Rightarrow> (runner_err + unit) \<times> shadow_tables" where
  "restore_map_shadow exec name tabs = restore_tables_as exec name map_shadow_pairs tabs"

definition drop_map_shadow :: "(string \<Rightarrow> exec_result) \<Rightarrow> shadow_tables \<Rightarrow> (runner_err + unit) \<times> shadow_tables" where
  "drop_map_shadow exec tabs = drop_tables exec (map snd map_shadow_pairs) tabs"

text \<open>\<^verbatim>\<open>BackupTables\<close>: on success the server has made the directory of the backup.\<close>

definition backup_tables :: "(string \<Rightarrow> exec_result) \<Rightarrow> string \<Rightarrow> string list \<Rightarrow> runner_err + unit" where
  "backup_tables exec name0 tables =
     (let name = trim_space name0; ts = map trim_space tables in
      if bad_disk_name name then Inl Bad_disk_name
      else case find (\<lambda>t. t = [] \<or> \<not> safe_ident t) ts of
        Some t \<Rightarrow> Inl (Bad_table t)
      | None \<Rightarrow>
          if ts = [] then Inl No_tables
          else case exec (backup_tables_sql ts name) of
            Exec_err e \<Rightarrow> Inl (Backup_failed e) | Exec_ok \<Rightarrow> Inr ())"

end
