(* ===== verification/Backup.thy ===== *)
theory Backup
  imports Backup_Store
begin

text \<open>
  The backup service (\<^verbatim>\<open>usecase/backup/service.go\<close>, \<^verbatim>\<open>job.go\<close>): creating, attaching, detaching and
  deleting backups and the daily schedule. The code holds no lock between the checks of a request and what it does then, nor
  while a job runs: both are separate definitions, a job advances one statement at a time (\<open>stage_step\<close>), and
  \<open>Backup_Safety\<close> puts the steps of all requests and jobs in any order. Messages
  of the status are one constructor each. Optional parts that may be nil (runner, store, logs, heavy slot) are present.
\<close>

section \<open>State\<close>

datatype job_state = S_idle | S_running | S_ok | S_error

datatype job_message =
    M_not_started | M_starting | M_started | M_clickhouse | M_tarball | M_restore | M_drop | M_done | M_attached | M_detached
  | M_heavy | M_no_tables | M_cancelled | M_tables | M_runner runner_err | M_tarball_failed | M_prune store_err | M_marker store_err
  | M_drop_failed runner_err

record job_status =
  bj_state :: job_state
  bj_message :: job_message
  bj_name :: string
  bj_started :: go_time
  bj_updated :: go_time

datatype backup_job = Create_job string string | Attach_job string string | Detach_job string string

datatype log_kind = Log_dr | Log_audit

record backup_event =
  be_log :: log_kind
  be_actor :: string
  be_action :: string
  be_target :: string
  be_result :: string

record backup_service =
  sv_opts :: backup_options
  sv_store :: "backup_schedule json_store"
  sv_disk :: disk
  sv_files :: backup_files
  sv_tables :: shadow_tables
  sv_busy :: bool
  sv_status :: job_status
  sv_fire :: string
  sv_job :: "backup_job option"
  sv_log :: "backup_event list"

text \<open>
  What the world decides during one operation: \<open>bv_now\<close> is the time of the operation, \<open>bv_end\<close> that at the end of a job;
  \<open>bv_exists\<close> the answer of \<^verbatim>\<open>TableExists\<close> (None for an error), \<open>bv_heavy\<close> whether the slot was acquired,
  \<open>bv_cancelled\<close> whether the context had ended when a statement failed, \<open>bv_tarball\<close> whether the archive was written, with
  the size of the file it left.
\<close>

record backup_env =
  bv_tz :: tz_data
  bv_now :: go_time
  bv_end :: go_time
  bv_store :: store_env
  bv_enc :: "backup_schedule \<Rightarrow> string option"
  bv_dec :: "string \<Rightarrow> backup_schedule option"
  bv_readable :: bool
  bv_write :: outcome
  bv_rfc :: "go_time \<Rightarrow> string"
  bv_heavy :: bool
  bv_exists :: "string \<Rightarrow> bool option"
  bv_exec :: "string \<Rightarrow> exec_result"
  bv_cancelled :: bool
  bv_tarball :: "bool \<times> int option"
  bv_dir :: backup_dir

datatype backup_err =
    B_dir_not_ready | B_busy | B_disabled | B_not_found | B_not_attached | B_delete_active
  | B_schedule schedule_err | B_json json_err | B_store store_err

section \<open>The job: job.go\<close>

definition new_job :: job_status where
  "new_job = \<lparr>bj_state = S_idle, bj_message = M_not_started, bj_name = [], bj_started = 0, bj_updated = 0\<rparr>"

definition try_start :: "go_time \<Rightarrow> backup_service \<Rightarrow> bool \<times> backup_service" where
  "try_start now s =
     (if sv_busy s then (False, s)
      else (True, s\<lparr>sv_busy := True, sv_status := \<lparr>bj_state = S_running, bj_message = M_starting, bj_name = [],
        bj_started = now, bj_updated = now\<rparr>\<rparr>))"

definition set_status :: "job_state \<Rightarrow> string \<Rightarrow> job_message \<Rightarrow> go_time \<Rightarrow> backup_service \<Rightarrow> backup_service" where
  "set_status st name msg now s =
     s\<lparr>sv_status := (sv_status s)\<lparr>bj_state := st, bj_name := name, bj_message := msg, bj_updated := now\<rparr>\<rparr>"

definition finish :: "backup_service \<Rightarrow> backup_service" where
  "finish s = s\<lparr>sv_busy := False\<rparr>"

section \<open>Logs\<close>

definition safe_actor :: "string \<Rightarrow> string" where
  "safe_actor a = (let t = trim_space a in if t = [] then ''system'' else t)"

definition log_event :: "log_kind \<Rightarrow> string \<Rightarrow> string \<Rightarrow> string \<Rightarrow> string \<Rightarrow> backup_service \<Rightarrow> backup_service" where
  "log_event k actor action target result s =
     s\<lparr>sv_log := sv_log s @ [\<lparr>be_log = k, be_actor = safe_actor actor, be_action = action, be_target = target, be_result = result\<rparr>]\<rparr>"

definition log_both :: "string \<Rightarrow> string \<Rightarrow> string \<Rightarrow> string \<Rightarrow> backup_service \<Rightarrow> backup_service" where
  "log_both actor action target result s =
     log_event Log_audit actor action target result (log_event Log_dr actor action target result s)"

section \<open>The schedule\<close>

definition save_schedule :: "backup_env \<Rightarrow> backup_schedule \<Rightarrow> backup_service \<Rightarrow> (json_err + unit) \<times> backup_service" where
  "save_schedule en sch s =
     (let (r, d) = json_save (bv_enc en) (sv_store s) (bv_write en) sch (sv_disk s) in (r, s\<lparr>sv_disk := d\<rparr>))"

definition load_schedule :: "backup_env \<Rightarrow> backup_service \<Rightarrow> json_err + backup_schedule" where
  "load_schedule en s =
     json_load (bv_dec en) (sv_store s) (if bv_readable en then disk_read (sv_disk s) (js_path (sv_store s)) else Read_err)"

definition backup_today :: "zone \<Rightarrow> string \<Rightarrow> entry \<Rightarrow> bool" where
  "backup_today z date e \<longleftrightarrow> en_source e = source_schedule \<and> date_layout z (en_created e) = date"

definition drop_stale_run :: "backup_env \<Rightarrow> backup_schedule \<Rightarrow> backup_service \<Rightarrow> backup_schedule \<times> backup_service" where
  "drop_stale_run en sch s =
     (if bs_last_date sch = [] then (sch, s)
      else case list_backups (bv_store en) (sv_files s) of
        Inl e \<Rightarrow> (sch, s)
      | Inr es \<Rightarrow>
          if list_ex (backup_today (zone_or_utc (bv_tz en) (bs_zone sch)) (bs_last_date sch)) es then (sch, s)
          else
            let sch' = sch\<lparr>bs_last_date := [], bs_last_at := []\<rparr>; (r, s') = save_schedule en sch' s in
            (sch', s'\<lparr>sv_fire := []\<rparr>))"

definition get_schedule :: "backup_env \<Rightarrow> backup_service \<Rightarrow> (json_err + backup_schedule) \<times> backup_service" where
  "get_schedule en s =
     (case load_schedule en s of
        Inl e \<Rightarrow> (Inl e, s)
      | Inr out \<Rightarrow>
          let base = (case validate_schedule (bv_tz en) out of Inr n \<Rightarrow> n | Inl e \<Rightarrow> defaults_schedule (sv_opts s));
            (sch, s') = drop_stale_run en (base\<lparr>bs_last_at := bs_last_at out, bs_last_date := bs_last_date out\<rparr>) s in
          (Inr sch, s'))"

text \<open>The zero value of the struct stands for a schedule that could not be read.\<close>

definition no_schedule :: backup_schedule where
  "no_schedule = \<lparr>bs_enabled = False, bs_hour = 0, bs_minute = 0, bs_zone = [], bs_keep = 0, bs_edges = False, bs_auth = False,
     bs_updated = [], bs_last_at = [], bs_last_date = []\<rparr>"

definition update_schedule ::
  "backup_env \<Rightarrow> backup_schedule \<Rightarrow> string \<Rightarrow> backup_service \<Rightarrow> (backup_err + backup_schedule) \<times> backup_service" where
  "update_schedule en inp actor s =
     (let (got, s1) = get_schedule en s; prev = (case got of Inl e \<Rightarrow> no_schedule | Inr p \<Rightarrow> p) in
      case validate_schedule (bv_tz en) inp of
        Inl e \<Rightarrow> (Inl (B_schedule e), log_event Log_audit actor ''backup.schedule.update'' ''schedule'' ''failed'' s1)
      | Inr out0 \<Rightarrow>
          let moved = (bs_hour prev \<noteq> bs_hour out0 \<or> bs_minute prev \<noteq> bs_minute out0 \<or> bs_zone prev \<noteq> bs_zone out0);
            out = out0\<lparr>bs_last_at := bs_last_at prev, bs_last_date := (if moved then [] else bs_last_date prev),
              bs_updated := bv_rfc en (bv_now en)\<rparr>;
            s2 = (if moved then s1\<lparr>sv_fire := []\<rparr> else s1) in
          (case save_schedule en out s2 of
             (Inl e, s3) \<Rightarrow> (Inl (B_json e), log_event Log_audit actor ''backup.schedule.update'' ''schedule'' ''failed'' s3)
           | (Inr u, s3) \<Rightarrow> (Inr out, log_both actor ''backup.schedule.update'' ''schedule'' ''succeeded'' s3)))"

definition persist_schedule_run :: "backup_env \<Rightarrow> go_time \<Rightarrow> backup_service \<Rightarrow> backup_service" where
  "persist_schedule_run en now s =
     (case get_schedule en s of
        (Inl e, s1) \<Rightarrow> s1
      | (Inr sch, s1) \<Rightarrow>
          snd (save_schedule en (sch\<lparr>bs_last_at := bv_rfc en now,
            bs_last_date := date_layout (zone_or_utc (bv_tz en) (bs_zone sch)) now\<rparr>) s1))"

section \<open>Requests\<close>

definition schedule_create :: "backup_env \<Rightarrow> string \<Rightarrow> string \<Rightarrow> backup_service \<Rightarrow> (backup_err + unit) \<times> backup_service" where
  "schedule_create en source actor s =
     (if \<not> se_ready (bv_store en) then (Inl B_dir_not_ready, s)
      else if \<not> bo_enabled (sv_opts s) then (Inl B_disabled, s)
      else case try_start (bv_now en) s of
        (False, s1) \<Rightarrow> (Inl B_busy, s1)
      | (True, s1) \<Rightarrow>
          let src = normalize_source source in
          (Inr (), s1\<lparr>sv_job := Some (Create_job (if src = [] then source_manual else src) actor)\<rparr>))"

definition tick_auto_create :: "backup_env \<Rightarrow> backup_service \<Rightarrow> backup_service" where
  "tick_auto_create en s =
     (if \<not> bo_enabled (sv_opts s) then s
      else case get_schedule en s of
        (Inl e, s1) \<Rightarrow> s1
      | (Inr sch, s1) \<Rightarrow>
          if \<not> bs_enabled sch then s1
          else case should_fire (bv_tz en) sch (bv_now en) of
            (False, k) \<Rightarrow> s1
          | (True, key) \<Rightarrow>
              if sv_fire s1 = key then s1
              else
                (case schedule_create en source_schedule ''scheduler'' (s1\<lparr>sv_fire := key\<rparr>) of
                   (Inl e, s2) \<Rightarrow> s2\<lparr>sv_fire := []\<rparr>
                 | (Inr u, s2) \<Rightarrow> s2))"

text \<open>\<^verbatim>\<open>ScheduleAttach\<close> looks for the backup and starts the job without a lock around both.\<close>

definition attach_checks :: "backup_env \<Rightarrow> string \<Rightarrow> backup_service \<Rightarrow> backup_err option" where
  "attach_checks en name s =
     (if \<not> se_ready (bv_store en) then Some B_dir_not_ready
      else if \<not> backup_exists (bv_store en) (sv_files s) name then Some B_not_found
      else None)"

definition attach_start :: "backup_env \<Rightarrow> string \<Rightarrow> string \<Rightarrow> backup_service \<Rightarrow> (backup_err + unit) \<times> backup_service" where
  "attach_start en name actor s =
     (case try_start (bv_now en) s of
        (False, s1) \<Rightarrow> (Inl B_busy, s1)
      | (True, s1) \<Rightarrow> (Inr (), s1\<lparr>sv_job := Some (Attach_job name actor)\<rparr>))"

text \<open>\<^verbatim>\<open>ScheduleDetach\<close> reads the marker and starts the job in the same way.\<close>

definition detach_checks :: "backup_env \<Rightarrow> string \<Rightarrow> backup_service \<Rightarrow> backup_err option" where
  "detach_checks en name s =
     (if \<not> se_ready (bv_store en) then Some B_dir_not_ready
      else case attached (bv_store en) (sv_files s) of
        Inl e \<Rightarrow> Some (B_store e)
      | Inr att \<Rightarrow> if att = [] \<or> att \<noteq> name then Some B_not_attached else None)"

definition detach_start :: "backup_env \<Rightarrow> string \<Rightarrow> string \<Rightarrow> backup_service \<Rightarrow> (backup_err + unit) \<times> backup_service" where
  "detach_start en name actor s =
     (case try_start (bv_now en) s of
        (False, s1) \<Rightarrow> (Inl B_busy, s1)
      | (True, s1) \<Rightarrow> (Inr (), s1\<lparr>sv_job := Some (Detach_job name actor)\<rparr>))"

text \<open>The checks of \<^verbatim>\<open>DeleteBackup\<close>, which takes no lock either, and what it does after them.\<close>

definition delete_checks :: "backup_env \<Rightarrow> string \<Rightarrow> backup_service \<Rightarrow> backup_err option" where
  "delete_checks en name s =
     (if \<not> se_ready (bv_store en) then Some B_dir_not_ready
      else if bj_state (sv_status s) = S_running then Some B_busy
      else case attached (bv_store en) (sv_files s) of
        Inl e \<Rightarrow> Some (B_store e)
      | Inr att \<Rightarrow>
          if att \<noteq> [] \<and> att = name then Some B_delete_active
          else if \<not> backup_exists (bv_store en) (sv_files s) name then Some B_not_found
          else None)"

definition delete_commit :: "backup_env \<Rightarrow> string \<Rightarrow> string \<Rightarrow> backup_service \<Rightarrow> (backup_err + unit) \<times> backup_service" where
  "delete_commit en name actor s =
     (case delete_files (bv_store en) name (sv_files s) of
        (Inl e, fs) \<Rightarrow> (Inl (B_store e), log_both actor ''backup.delete'' name ''failed'' (s\<lparr>sv_files := fs\<rparr>))
      | (Inr u, fs) \<Rightarrow> (Inr (), log_both actor ''backup.delete'' name ''succeeded'' (s\<lparr>sv_files := fs\<rparr>)))"

section \<open>Jobs\<close>

definition base_tables :: "string list" where
  "base_tables = [''traffic_logs'', ''geo_ranges'', ''enterprise_nets'', ''reputation_ranges'', ''parse_errors'',
     ''system_metrics'', ''anomaly_events'', ''anomaly_acks'']"

definition edge_tables :: "string list" where
  "edge_tables = [''traffic_edges_daily'', ''traffic_edges_hourly'', ''traffic_edges_city_daily'',
     ''traffic_edges_country_daily'', ''traffic_edges_continent_daily'']"

fun existing_tables :: "(string \<Rightarrow> bool option) \<Rightarrow> string list \<Rightarrow> string list option" where
  "existing_tables ex [] = Some []"
| "existing_tables ex (t # ts) =
     (case ex t of
        None \<Rightarrow> None
      | Some there \<Rightarrow>
          (case existing_tables ex ts of
             None \<Rightarrow> None
           | Some out \<Rightarrow> Some (if there then t # out else out)))"

definition resolve_tables :: "(string \<Rightarrow> bool option) \<Rightarrow> bool \<Rightarrow> string list option" where
  "resolve_tables ex edges = existing_tables ex (base_tables @ (if edges then edge_tables else []))"

definition effective_policy :: "backup_env \<Rightarrow> backup_service \<Rightarrow> (int \<times> bool \<times> bool) \<times> backup_service" where
  "effective_policy en s =
     (case get_schedule en s of
        (Inl e, s1) \<Rightarrow> ((bo_keep (sv_opts s1), bo_edges (sv_opts s1), bo_auth (sv_opts s1)), s1)
      | (Inr sch, s1) \<Rightarrow> ((bs_keep sch, bs_edges sch, bs_auth sch), s1))"

definition fail_job ::
  "backup_env \<Rightarrow> string \<Rightarrow> string \<Rightarrow> string \<Rightarrow> job_message \<Rightarrow> backup_service \<Rightarrow> backup_service" where
  "fail_job en actor action name msg s = log_both actor action name ''failed'' (set_status S_error name msg (bv_end en) s)"

definition write_auth_tarball :: "backup_env \<Rightarrow> string \<Rightarrow> backup_service \<Rightarrow> bool \<times> backup_service" where
  "write_auth_tarball en name s =
     (if \<not> se_ready (bv_store en) \<or> \<not> backup_name_ok name \<or> trim_space (bo_data_dir (sv_opts s)) = [] then (False, s)
      else (fst (bv_tarball en),
        s\<lparr>sv_files := (sv_files s)\<lparr>bf_auth := (case snd (bv_tarball en) of
            None \<Rightarrow> bf_auth (sv_files s) | Some n \<Rightarrow> gm_put name n (bf_auth (sv_files s)))\<rparr>\<rparr>))"

text \<open>
  The work of \<^verbatim>\<open>runCreate\<close> with its name chosen, and its part after the statement \<^verbatim>\<open>BACKUP\<close>, when the server has
  made the directory; the answer is \<^verbatim>\<open>succeeded\<close>.
\<close>

definition create_rest ::
  "backup_env \<Rightarrow> string \<Rightarrow> string \<Rightarrow> string \<Rightarrow> int \<Rightarrow> bool \<Rightarrow> backup_service \<Rightarrow> bool \<times> backup_service" where
  "create_rest en source actor name keep auth s4 =
     (let (ok, s5) = (if auth \<and> bo_data_dir (sv_opts s4) \<noteq> []
        then write_auth_tarball en name (set_status S_running name M_tarball (bv_now en) s4) else (True, s4)) in
      if \<not> ok then (False, fail_job en actor ''backup.create'' name M_tarball_failed s5)
      else
        let s6 = s5\<lparr>sv_files := snd (write_source (bv_store en) name source (sv_files s5))\<rparr>;
          (r, fs) = prune (bv_store en) keep (sv_files s6); s7 = s6\<lparr>sv_files := fs\<rparr> in
        (case r of
           Inl e \<Rightarrow> (True, fail_job en actor ''backup.create'' name (M_prune e) s7)
         | Inr v \<Rightarrow> (True, log_both actor ''backup.create'' name ''succeeded'' (set_status S_ok name M_done (bv_end en) s7))))"

definition create_work :: "backup_env \<Rightarrow> string \<Rightarrow> string \<Rightarrow> string \<Rightarrow> backup_service \<Rightarrow> bool \<times> backup_service" where
  "create_work en source actor name s0 =
     (let s1 = log_event Log_dr actor ''backup.create'' name ''started'' (set_status S_running name M_started (bv_now en) s0);
        ((keep, edges, auth), s2) = effective_policy en s1 in
      case resolve_tables (bv_exists en) edges of
        None \<Rightarrow> (False, fail_job en actor ''backup.create'' name M_tables s2)
      | Some tables \<Rightarrow>
          if tables = [] then (False, fail_job en actor ''backup.create'' name M_no_tables s2)
          else
            let s3 = set_status S_running name M_clickhouse (bv_now en) s2 in
            (case backup_tables (bv_exec en) name tables of
               Inl e \<Rightarrow> (False, fail_job en actor ''backup.create'' name (if bv_cancelled en then M_cancelled else M_runner e) s3)
             | Inr u \<Rightarrow> create_rest en source actor name keep auth
                 (s3\<lparr>sv_files := (sv_files s3)\<lparr>bf_dirs := gm_put name (bv_dir en) (bf_dirs (sv_files s3))\<rparr>\<rparr>)))"

definition create_name :: "backup_env \<Rightarrow> backup_service \<Rightarrow> string \<times> backup_service" where
  "create_name en s =
     (case get_schedule en s of
        (Inl e, s1) \<Rightarrow> (''ga-'' @ stamp_layout utc (bv_now en), s1)
      | (Inr sch, s1) \<Rightarrow> (format_backup_name (bv_tz en) (bv_now en) (bs_zone sch), s1))"

definition run_create :: "backup_env \<Rightarrow> string \<Rightarrow> string \<Rightarrow> backup_service \<Rightarrow> backup_service" where
  "run_create en source actor s =
     finish
       (if \<not> bv_heavy en then set_status S_error [] M_heavy (bv_end en) s
        else
          let (name, s1) = create_name en s; (succeeded, s2) = create_work en source actor name s1 in
          if source \<noteq> source_schedule then s2
          else if succeeded then persist_schedule_run en (bv_end en) s2
          else s2\<lparr>sv_fire := []\<rparr>)"

section \<open>Attaching and detaching in stages\<close>

text \<open>
  \<^verbatim>\<open>runAttach\<close> with \<^verbatim>\<open>RestoreTablesAs\<close> and \<^verbatim>\<open>runDetach\<close> with \<^verbatim>\<open>DropTables\<close>, one statement or one change of the marker at a time: other requests read
  tables and marker in between. \<open>Restore_drop k ps\<close> has restored \<open>k\<close> tables and has the pairs \<open>ps\<close> left,
  \<open>Restore_copy\<close> has dropped the table of a pair; after an error the marker is removed (\<open>Undo_marker\<close>) and the tables
  are dropped (\<open>Undo_drop\<close>).
\<close>

datatype job_stage =
    Restore_drop nat "(string \<times> string) list" | Restore_copy nat string string "(string \<times> string) list"
  | Write_marker | Undo_marker runner_err | Undo_drop runner_err "string list" | Detach_drop "string list" | Detach_marker

definition attach_failed :: "backup_env \<Rightarrow> string \<Rightarrow> string \<Rightarrow> runner_err \<Rightarrow> backup_service \<Rightarrow> backup_service" where
  "attach_failed en name actor e s =
     finish (fail_job en actor ''backup.attach'' name (if bv_cancelled en then M_cancelled else M_runner e) s)"

definition attach_marked :: "backup_env \<Rightarrow> string \<Rightarrow> string \<Rightarrow> backup_service \<Rightarrow> backup_service" where
  "attach_marked en name actor s =
     finish (case set_attached (bv_store en) name (sv_files s) of
        (Inl e, fs) \<Rightarrow> fail_job en actor ''backup.attach'' name (M_marker e) (s\<lparr>sv_files := fs\<rparr>)
      | (Inr v, fs) \<Rightarrow>
          log_both actor ''backup.attach'' name ''succeeded'' (set_status S_ok name M_attached (bv_end en) (s\<lparr>sv_files := fs\<rparr>)))"

definition detach_marked :: "backup_env \<Rightarrow> string \<Rightarrow> string \<Rightarrow> backup_service \<Rightarrow> backup_service" where
  "detach_marked en name actor s =
     finish (case set_attached (bv_store en) [] (sv_files s) of
        (Inl e, fs) \<Rightarrow> fail_job en actor ''backup.detach'' name (M_marker e) (s\<lparr>sv_files := fs\<rparr>)
      | (Inr v, fs) \<Rightarrow>
          log_both actor ''backup.detach'' name ''succeeded'' (set_status S_ok name M_detached (bv_end en) (s\<lparr>sv_files := fs\<rparr>)))"

fun stage_step :: "backup_env \<Rightarrow> string \<Rightarrow> string \<Rightarrow> job_stage \<Rightarrow> backup_service \<Rightarrow> job_stage option \<times> backup_service" where
  "stage_step en name actor (Restore_drop k []) s =
     (Some (if k = 0 then Undo_marker (Nothing_restored (trim_space name)) else Write_marker), s)"
| "stage_step en name actor (Restore_drop k ((src0, dest0) # ps)) s =
     (let src = trim_space src0; dest = trim_space dest0 in
      if src = [] \<or> dest = [] \<or> \<not> safe_ident src \<or> \<not> safe_ident dest then (Some (Undo_marker (Bad_pair src dest)), s)
      else case bv_exec en (drop_table_sql dest) of
        Exec_err e \<Rightarrow> (Some (Undo_marker (Drop_failed dest e)), s)
      | Exec_ok \<Rightarrow> (Some (Restore_copy k src dest ps), s\<lparr>sv_tables := gm_del dest (sv_tables s)\<rparr>))"
| "stage_step en name actor (Restore_copy k src dest ps) s =
     (case bv_exec en (restore_table_as_sql src dest (trim_space name)) of
        Exec_err e \<Rightarrow> (Some (if missing_backup_object e then Restore_drop k ps else Undo_marker (Restore_failed src e)), s)
      | Exec_ok \<Rightarrow> (Some (Restore_drop (Suc k) ps), s\<lparr>sv_tables := gm_put dest (trim_space name) (sv_tables s)\<rparr>))"
| "stage_step en name actor Write_marker s = (None, attach_marked en name actor s)"
| "stage_step en name actor (Undo_marker e) s =
     (Some (Undo_drop e (map snd map_shadow_pairs)), s\<lparr>sv_files := snd (set_attached (bv_store en) [] (sv_files s))\<rparr>)"
| "stage_step en name actor (Undo_drop e []) s = (None, attach_failed en name actor e s)"
| "stage_step en name actor (Undo_drop e (t # ts)) s =
     (case drop_tables (bv_exec en) [t] (sv_tables s) of
        (Inl e', tabs) \<Rightarrow> (None, attach_failed en name actor e (s\<lparr>sv_tables := tabs\<rparr>))
      | (Inr u, tabs) \<Rightarrow> (Some (Undo_drop e ts), s\<lparr>sv_tables := tabs\<rparr>))"
| "stage_step en name actor (Detach_drop []) s = (Some Detach_marker, s)"
| "stage_step en name actor (Detach_drop (t # ts)) s =
     (case drop_tables (bv_exec en) [t] (sv_tables s) of
        (Inl e, tabs) \<Rightarrow> (None, finish (fail_job en actor ''backup.detach'' name (M_drop_failed e) (s\<lparr>sv_tables := tabs\<rparr>)))
      | (Inr u, tabs) \<Rightarrow> (Some (Detach_drop ts), s\<lparr>sv_tables := tabs\<rparr>))"
| "stage_step en name actor Detach_marker s = (None, detach_marked en name actor s)"

text \<open>The start of a queued job; creating a backup is one step, as it changes neither marker nor tables.\<close>

definition job_begin :: "backup_env \<Rightarrow> backup_job \<Rightarrow> backup_service \<Rightarrow> (string \<times> string \<times> job_stage) option \<times> backup_service" where
  "job_begin en j s =
     (case j of
        Create_job src actor \<Rightarrow> (None, run_create en src actor s)
      | Attach_job name actor \<Rightarrow>
          if \<not> bv_heavy en then (None, finish (set_status S_error name M_heavy (bv_end en) s))
          else (Some (name, actor, if bad_disk_name (trim_space name) then Undo_marker Bad_disk_name else Restore_drop 0 map_shadow_pairs),
            log_event Log_dr actor ''backup.attach'' name ''started'' (set_status S_running name M_restore (bv_now en) s))
      | Detach_job name actor \<Rightarrow>
          if \<not> bv_heavy en then (None, finish (set_status S_error name M_heavy (bv_end en) s))
          else (Some (name, actor, Detach_drop (map snd map_shadow_pairs)),
            log_event Log_dr actor ''backup.detach'' name ''started'' (set_status S_running name M_drop (bv_now en) s)))"

section \<open>The service\<close>

definition new_backup_service :: "backup_options \<Rightarrow> backup_schedule json_store \<Rightarrow> disk \<Rightarrow> backup_files \<Rightarrow> shadow_tables \<Rightarrow> backup_service" where
  "new_backup_service opts st d fs tabs =
     \<lparr>sv_opts = (if bo_keep opts < 1 then opts\<lparr>bo_keep := 7\<rparr> else opts), sv_store = st, sv_disk = d, sv_files = fs,
      sv_tables = tabs, sv_busy = False, sv_status = new_job, sv_fire = [], sv_job = None, sv_log = []\<rparr>"

text \<open>The page of the administrator; the hint is one constructor for each text.\<close>

datatype catalog_hint = Hint_none | Hint_not_mounted | Hint_disabled | Hint_attached string | Hint_schedule | Hint_default

record backup_catalog =
  ct_enabled :: bool
  ct_ready :: bool
  ct_schedule :: backup_schedule
  ct_next :: "go_time option"
  ct_attached :: string
  ct_entries :: "entry list"
  ct_status :: job_status
  ct_hint :: catalog_hint

definition catalog :: "backup_env \<Rightarrow> backup_service \<Rightarrow> (backup_err option \<times> backup_catalog) \<times> backup_service" where
  "catalog en s =
     (let (got, s1) = get_schedule en s; sch = (case got of Inl e \<Rightarrow> no_schedule | Inr p \<Rightarrow> p);
        on = bo_enabled (sv_opts s); ready = se_ready (bv_store en);
        c = \<lparr>ct_enabled = on, ct_ready = ready, ct_schedule = sch,
          ct_next = (if bs_enabled sch \<and> on \<and> ready then Some (next_run_at (bv_tz en) sch (bv_now en)) else None),
          ct_attached = [], ct_entries = [], ct_status = sv_status s1, ct_hint = Hint_none\<rparr> in
      if \<not> ready then ((None, c\<lparr>ct_hint := Hint_not_mounted\<rparr>), s1)
      else case attached (bv_store en) (sv_files s1) of
        Inl e \<Rightarrow> ((Some (B_store e), c), s1)
      | Inr att \<Rightarrow>
          (case list_backups (bv_store en) (sv_files s1) of
             Inl e \<Rightarrow> ((Some (B_store e), c\<lparr>ct_attached := att, ct_hint := (if on then Hint_none else Hint_disabled)\<rparr>), s1)
           | Inr es \<Rightarrow>
               ((None, c\<lparr>ct_attached := att, ct_entries := map (\<lambda>e. e\<lparr>en_attached := (en_name e = att)\<rparr>) es,
                  ct_hint := (if att \<noteq> [] then Hint_attached att
                    else if bs_enabled sch \<and> on then Hint_schedule else Hint_default)\<rparr>), s1)))"

end
