(* ===== verification/Backup_Safety.thy ===== *)
theory Backup_Safety
  imports Backup
begin

text \<open>
  The backup service with all its requests and jobs in any order, one step at a time: what each step leaves alone,
  the names of backups and the marker, and the invariant that the directory of the attached backup stays on the
  volume (\<open>inv_step\<close>). The properties that rest on it are in \<open>Backup_Promises\<close>.
\<close>

section \<open>Steps\<close>

text \<open>
  The service together with what is under way: the stage of the running job, and the requests to delete, attach and detach that have
  passed their checks and not yet gone on.
\<close>

record backup_world =
  w_svc :: backup_service
  w_stage :: "(string \<times> string \<times> job_stage) option"
  w_deletes :: "string list"
  w_attaches :: "string list"
  w_detaches :: "string list"

datatype world_op =
    W_tick | W_create string string | W_update backup_schedule string | W_catalog
  | W_check_attach string | W_attach string string | W_check_detach string | W_detach string string
  | W_check_delete string | W_delete string string | W_job

definition job_step :: "backup_env \<Rightarrow> backup_world \<Rightarrow> backup_world" where
  "job_step en w =
     (case w_stage w of
        Some (n, a, st) \<Rightarrow>
          let (st', s) = stage_step en n a st (w_svc w) in w\<lparr>w_svc := s, w_stage := map_option (\<lambda>t. (n, a, t)) st'\<rparr>
      | None \<Rightarrow>
          (case sv_job (w_svc w) of
             None \<Rightarrow> w
           | Some j \<Rightarrow> let (st, s) = job_begin en j ((w_svc w)\<lparr>sv_job := None\<rparr>) in w\<lparr>w_svc := s, w_stage := st\<rparr>))"

fun world_do :: "backup_env \<Rightarrow> world_op \<Rightarrow> backup_world \<Rightarrow> backup_world" where
  "world_do en W_tick w = w\<lparr>w_svc := tick_auto_create en (w_svc w)\<rparr>"
| "world_do en (W_create src a) w = w\<lparr>w_svc := snd (schedule_create en src a (w_svc w))\<rparr>"
| "world_do en (W_update sch a) w = w\<lparr>w_svc := snd (update_schedule en sch a (w_svc w))\<rparr>"
| "world_do en W_catalog w = w\<lparr>w_svc := snd (catalog en (w_svc w))\<rparr>"
| "world_do en (W_check_attach n) w = (if attach_checks en n (w_svc w) = None then w\<lparr>w_attaches := n # w_attaches w\<rparr> else w)"
| "world_do en (W_attach n a) w =
     (if n \<in> set (w_attaches w)
      then w\<lparr>w_attaches := remove1 n (w_attaches w), w_svc := snd (attach_start en n a (w_svc w))\<rparr> else w)"
| "world_do en (W_check_detach n) w = (if detach_checks en n (w_svc w) = None then w\<lparr>w_detaches := n # w_detaches w\<rparr> else w)"
| "world_do en (W_detach n a) w =
     (if n \<in> set (w_detaches w)
      then w\<lparr>w_detaches := remove1 n (w_detaches w), w_svc := snd (detach_start en n a (w_svc w))\<rparr> else w)"
| "world_do en (W_check_delete n) w = (if delete_checks en n (w_svc w) = None then w\<lparr>w_deletes := n # w_deletes w\<rparr> else w)"
| "world_do en (W_delete n a) w =
     (if n \<in> set (w_deletes w)
      then w\<lparr>w_deletes := remove1 n (w_deletes w), w_svc := snd (delete_commit en n a (w_svc w))\<rparr> else w)"
| "world_do en W_job w = job_step en w"

definition new_world :: "backup_service \<Rightarrow> backup_world" where
  "new_world s = \<lparr>w_svc = s, w_stage = None, w_deletes = [], w_attaches = [], w_detaches = []\<rparr>"

text \<open>Any sequence of steps in the environments that \<open>P\<close> admits, where \<open>G\<close> says which steps may come.\<close>

inductive world_step :: "(backup_env \<Rightarrow> bool) \<Rightarrow> (backup_world \<Rightarrow> world_op \<Rightarrow> bool) \<Rightarrow> backup_world \<Rightarrow> backup_world \<Rightarrow> bool" for P G where
  "P en \<Longrightarrow> G w op \<Longrightarrow> world_step P G w (world_do en op w)"

inductive_cases world_stepE: "world_step P G w w'"

text \<open>
  The steps of requests that do not overlap in the ways that the code leaves open: no request attaches a backup whose
  deletion has passed its checks, or deletes one whose attaching has; and none that attaches has passed its checks
  while a backup is created, as the new backup may remove old ones.
\<close>

definition creating :: "backup_service \<Rightarrow> bool" where
  "creating s = (case sv_job s of Some (Create_job src a) \<Rightarrow> True | _ \<Rightarrow> False)"

definition apart :: "backup_world \<Rightarrow> world_op \<Rightarrow> bool" where
  "apart w op =
     (case op of
        W_check_attach n \<Rightarrow> n \<notin> set (w_deletes w) \<and> \<not> creating (w_svc w)
      | W_check_delete n \<Rightarrow> n \<notin> set (w_attaches w)
      | W_create src a \<Rightarrow> w_attaches w = []
      | W_tick \<Rightarrow> w_attaches w = []
      | _ \<Rightarrow> True)"

section \<open>What an operation leaves alone\<close>

named_theorems bframe \<open>fields of the service that an auxiliary operation keeps\<close>

text \<open>Files, tables, job and its status.\<close>

definition same_core :: "backup_service \<Rightarrow> backup_service \<Rightarrow> bool" where
  "same_core s s' \<longleftrightarrow> sv_files s' = sv_files s \<and> sv_tables s' = sv_tables s \<and> sv_busy s' = sv_busy s \<and>
     sv_job s' = sv_job s \<and> sv_status s' = sv_status s"

lemma same_core_refl [simp]: "same_core s s"
  by (simp add: same_core_def)

lemma same_core_trans: "same_core s t \<Longrightarrow> same_core t u \<Longrightarrow> same_core s u"
  by (simp add: same_core_def)

lemma core_updates [simp]:
  "same_core s (s'\<lparr>sv_disk := d\<rparr>) = same_core s s'" "same_core s (s'\<lparr>sv_fire := f\<rparr>) = same_core s s'"
  "same_core s (s'\<lparr>sv_log := l\<rparr>) = same_core s s'"
  by (simp_all add: same_core_def)

lemma core_logs [simp]:
  "same_core s (log_event k a b c d s') = same_core s s'" "same_core s (log_both a b c d s') = same_core s s'"
  by (simp_all add: log_event_def log_both_def)

lemma core_save [simp]: "same_core s (snd (save_schedule en sch s')) = same_core s s'"
  by (simp add: save_schedule_def split_beta)

lemma core_stale [simp]: "same_core s (snd (drop_stale_run en sch s')) = same_core s s'"
  by (simp add: drop_stale_run_def Let_def split_beta split: sum.splits)

lemma core_get [simp]: "same_core s (snd (get_schedule en s')) = same_core s s'"
  by (simp add: get_schedule_def Let_def split_beta split: sum.splits)

lemma core_persist [simp]: "same_core s (persist_schedule_run en now s') = same_core s s'"
proof -
  obtain g s1 where g: "get_schedule en s' = (g, s1)" by fastforce
  have "same_core s s1 = same_core s s'" using core_get [of s en s'] g by simp
  then show ?thesis using g by (simp add: persist_schedule_run_def split: sum.splits)
qed

lemma core_update [simp]: "same_core s (snd (update_schedule en sch a s))"
proof -
  obtain g s1 where g: "get_schedule en s = (g, s1)" by fastforce
  have c: "same_core s s1" using core_get [of s en s] g by simp
  have "same_core s s3" if "save_schedule en out s2 = (r, s3)" "same_core s s2" for out s2 r s3
    using core_save [of s en out s2] that by simp
  with g c show ?thesis
    by (auto simp: update_schedule_def Let_def split: sum.splits prod.splits)
qed

lemma core_catalog [simp]: "same_core s (snd (catalog en s))"
proof -
  obtain g s1 where g: "get_schedule en s = (g, s1)" by fastforce
  have c: "same_core s s1" using core_get [of s en s] g by simp
  with g show ?thesis by (auto simp: catalog_def Let_def split: sum.splits)
qed

lemma core_name [simp]: "same_core s (snd (create_name en s')) = same_core s s'"
proof -
  obtain g s1 where g: "get_schedule en s' = (g, s1)" by fastforce
  have "same_core s s1 = same_core s s'" using core_get [of s en s'] g by simp
  then show ?thesis using g by (simp add: create_name_def split: sum.splits)
qed

lemma core_policy [simp]: "same_core s (snd (effective_policy en s')) = same_core s s'"
proof -
  obtain g s1 where g: "get_schedule en s' = (g, s1)" by fastforce
  have "same_core s s1 = same_core s s'" using core_get [of s en s'] g by simp
  then show ?thesis using g by (simp add: effective_policy_def split: sum.splits)
qed

lemma core_fields:
  assumes "same_core s s'"
  shows "sv_files s' = sv_files s" "sv_tables s' = sv_tables s" "sv_busy s' = sv_busy s" "sv_job s' = sv_job s"
    "sv_status s' = sv_status s"
  using assms by (simp_all add: same_core_def)

lemma core_results:
  "get_schedule en s = (g, s1) \<Longrightarrow> same_core s s1" "save_schedule en sch s = (r, s1) \<Longrightarrow> same_core s s1"
  "create_name en s = (n, s1) \<Longrightarrow> same_core s s1" "effective_policy en s = (p, s1) \<Longrightarrow> same_core s s1"
  by (metis core_get core_save core_name core_policy same_core_refl snd_conv)+

lemma log_fields [simp]:
  "sv_files (log_event k a b c d s) = sv_files s" "sv_files (log_both a b c d s) = sv_files s"
  "sv_files (set_status st n m t s) = sv_files s" "sv_files (fail_job en a b n m s) = sv_files s"
  "sv_tables (log_event k a b c d s) = sv_tables s" "sv_tables (log_both a b c d s) = sv_tables s"
  "sv_tables (set_status st n m t s) = sv_tables s" "sv_tables (fail_job en a b n m s) = sv_tables s"
  "sv_job (log_event k a b c d s) = sv_job s" "sv_job (log_both a b c d s) = sv_job s"
  "sv_job (set_status st n m t s) = sv_job s" "sv_job (fail_job en a b n m s) = sv_job s"
  by (simp_all add: log_event_def log_both_def set_status_def fail_job_def)

lemma finish_fields [simp]:
  "sv_files (finish s) = sv_files s" "sv_tables (finish s) = sv_tables s" "sv_job (finish s) = sv_job s" "\<not> sv_busy (finish s)"
  by (simp_all add: finish_def)

section \<open>Names of backups\<close>

lemma byte_cases: "code (CHR ''T'') = 84" "code (CHR ''Z'') = 90" "code (CHR ''+'') = 43" "code (CHR ''-'') = 45"
    "code (CHR ''g'') = 103" "code (CHR ''a'') = 97"
  by (simp_all add: code_def)

lemma name_parts:
  assumes "backup_name_ok s"
  obtains a b e where "s = ''ga-'' @ a @ ''T'' @ b @ e" "length a = 8" "length b = 6" "list_all is_digit a" "list_all is_digit b"
    "e = ''Z'' \<or> length e = 5 \<and> hd e \<in> {CHR ''+'', CHR ''-''} \<and> list_all is_digit (tl e)"
proof -
  let ?t = "drop 3 s"
  have h: "has_prefix s ''ga-''" "16 \<le> length ?t" "list_all is_digit (take 8 ?t)" "?t ! 8 = CHR ''T''"
      "list_all is_digit (take 6 (drop 9 ?t))"
      "drop 15 ?t = ''Z'' \<or> length (drop 15 ?t) = 5 \<and> hd (drop 15 ?t) \<in> {CHR ''+'', CHR ''-''} \<and> list_all is_digit (tl (drop 15 ?t))"
    using assms by (simp_all add: backup_name_ok_def Let_def)
  have "take 3 s = ''ga-''" using h(1) by (simp add: has_prefix_def numeral_3_eq_3)
  then have "s = ''ga-'' @ ?t" using append_take_drop_id [of 3 s] by metis
  moreover have "?t = take 8 ?t @ ''T'' @ take 6 (drop 9 ?t) @ drop 15 ?t"
  proof -
    have "?t = take 8 ?t @ drop 8 ?t" by (rule append_take_drop_id [symmetric])
    also have "drop 8 ?t = ?t ! 8 # drop 9 ?t" using h(2) Cons_nth_drop_Suc [of 8 ?t] by simp
    also have "drop 9 ?t = take 6 (drop 9 ?t) @ drop 6 (drop 9 ?t)" by (rule append_take_drop_id [symmetric])
    finally show ?thesis using h(4) by (simp add: add.commute)
  qed
  ultimately have "s = ''ga-'' @ take 8 ?t @ ''T'' @ take 6 (drop 9 ?t) @ drop 15 ?t" by simp
  moreover have "length (take 8 ?t) = 8" "length (take 6 (drop 9 ?t)) = 6" using h(2) by auto
  ultimately show ?thesis using that h(3,5,6) by blast
qed

lemma plain_name:
  assumes "backup_name_ok s"
  shows "list_all plain s" "s \<noteq> []" "trim_space s = s" "length s = 19 \<and> last s = CHR ''Z'' \<or> length s = 23"
proof -
  obtain a b e where s: "s = ''ga-'' @ a @ ''T'' @ b @ e" and l: "length a = 8" "length b = 6"
    and d: "list_all is_digit a" "list_all is_digit b"
    and e: "e = ''Z'' \<or> length e = 5 \<and> hd e \<in> {CHR ''+'', CHR ''-''} \<and> list_all is_digit (tl e)"
    using assms by (rule name_parts)
  have pl: "list_all plain x" if "list_all is_digit x" for x using that by (auto simp: list_all_iff is_digit_plain)
  have "list_all plain e" using e pl [of "tl e"] by (cases e) (auto simp: plain_def code_def)
  then show p: "list_all plain s" using pl d by (simp add: s plain_def code_def)
  then show "trim_space s = s" by (rule list_all_trim)
  show "s \<noteq> []" by (simp add: s)
  show "length s = 19 \<and> last s = CHR ''Z'' \<or> length s = 23" using e l by (auto simp: s)
qed

lemma trim_newline:
  assumes "plain (hd (s @ [byte 10]))" "plain (hd (rev s))"
  shows "trim_space (s @ [byte 10]) = s"
proof -
  have "strip_space_rev (byte 10 # xs) = Some xs" for xs
    by (cases xs; cases "tl xs") (auto simp: ascii_space_def)
  then have "trim_left_rev (rev (s @ [byte 10])) = trim_left_rev (rev s)" by (simp add: trim_left_rev.simps [of "byte 10 # rev s"])
  also have "\<dots> = rev s" by (subst trim_left_rev.simps) (simp add: strip_space_rev_plain [OF assms(2)])
  finally show ?thesis using strip_space_plain [OF assms(1)] by (simp add: trim_space_def trim_left_id trim_right_def)
qed

text \<open>A proper part of a name, left by a write that failed, is not a name.\<close>

lemma cut_name:
  assumes "backup_name_ok s" "n < length s"
  shows "\<not> backup_name_ok (take n s)"
proof
  assume t: "backup_name_ok (take n s)"
  have l: "length (take n s) = n" using assms(2) by simp
  from plain_name(4) [OF assms(1)] plain_name(4) [OF t] l assms(2) have n: "n = 19" "length s = 23" "last (take 19 s) = CHR ''Z''" by auto
  obtain a b e where s: "s = ''ga-'' @ a @ ''T'' @ b @ e" and l: "length a = 8" "length b = 6"
    and e: "e = ''Z'' \<or> length e = 5 \<and> hd e \<in> {CHR ''+'', CHR ''-''} \<and> list_all is_digit (tl e)"
    using assms(1) by (rule name_parts)
  have "length e = 5" "hd e \<in> {CHR ''+'', CHR ''-''}" using e n(2) l by (auto simp: s)
  then show False using n(3) l by (cases e) (auto simp: s)
qed

section \<open>The marker\<close>

lemma marker_write:
  assumes "plain_write w (name @ [byte 10]) old = (ok, c)" "backup_name_ok name"
  shows "marker_name (fs\<lparr>bf_marker := c\<rparr>) \<in> {name, [], marker_name (fs\<lparr>bf_marker := old\<rparr>)}"
    "ok \<Longrightarrow> marker_name (fs\<lparr>bf_marker := c\<rparr>) = name"
proof -
  note p = plain_name [OF assms(2)]
  have "plain (hd (name @ [byte 10]))" "plain (hd (rev name))" using p(1,2) by (auto simp: hd_rev list_all_iff)
  then have nl: "trim_space (name @ [byte 10]) = name" by (rule trim_newline)
  show "ok \<Longrightarrow> marker_name (fs\<lparr>bf_marker := c\<rparr>) = name"
    using assms nl by (auto simp: plain_write_def marker_name_def Let_def split: plain_write.splits)
  show "marker_name (fs\<lparr>bf_marker := c\<rparr>) \<in> {name, [], marker_name (fs\<lparr>bf_marker := old\<rparr>)}"
  proof (cases w)
    case (W_cut n)
    then have c: "c = Some (take n (name @ [byte 10]))" using assms(1) by (simp add: plain_write_def)
    consider "length name < n" | "n = length name" | "n < length name" by linarith
    then show ?thesis
    proof cases
      case 3
      have "list_all plain (take n name)" using p(1) by (auto simp: list_all_iff dest: in_set_takeD)
      then have "trim_space (take n name) = take n name" by (rule list_all_trim)
      then show ?thesis using cut_name [OF assms(2) 3] 3 by (simp add: c marker_name_def)
    qed (use nl p assms(2) in \<open>simp_all add: c marker_name_def\<close>)
  qed (use assms nl in \<open>auto simp: plain_write_def marker_name_def Let_def\<close>)
qed

text \<open>What a change of the volume keeps: the marker, and the directory that it names.\<close>

definition has_dir :: "backup_files \<Rightarrow> string \<Rightarrow> bool" where
  "has_dir fs name \<longleftrightarrow> gm_get (bf_dirs fs) name \<noteq> None"

definition marker_ok :: "backup_files \<Rightarrow> bool" where
  "marker_ok fs \<longleftrightarrow> marker_name fs \<noteq> [] \<longrightarrow> has_dir fs (marker_name fs)"

lemma attached_marker:
  assumes "se_marker_ok en" "se_ready en"
  shows "attached en fs = Inr (marker_name fs)"
  using assms by (simp add: attached_def marker_name_def)

lemma side_fields [simp]:
  "bf_dirs (remove_side_files en n fs) = bf_dirs fs" "bf_marker (remove_side_files en n fs) = bf_marker fs"
  by (simp_all add: remove_side_files_def)

lemma marker_name_cong: "bf_marker fs = bf_marker fs' \<Longrightarrow> marker_name fs = marker_name fs'"
  by (simp add: marker_name_def)

lemma prune_one_fields [simp]:
  "bf_marker (prune_one en n fs) = bf_marker fs" "m \<noteq> n \<Longrightarrow> has_dir (prune_one en n fs) m = has_dir fs m"
  by (simp_all add: prune_one_def has_dir_def)

lemma prune_from_fields:
  "bf_marker (prune_from en att keep k es fs) = bf_marker fs"
  "has_dir (prune_from en att keep k es fs) att = has_dir fs att"
  by (induction en att keep k es fs rule: prune_from.induct) auto

lemma prune_marker_ok:
  assumes "se_marker_ok en" "marker_ok fs"
  shows "marker_ok (snd (prune en keep fs))"
proof -
  have "marker_ok (prune_from en (marker_name fs) k 0 es fs)" for k es
    using assms(2) by (simp add: marker_ok_def prune_from_fields marker_name_cong [OF prune_from_fields(1)])
  with assms show ?thesis by (auto simp: prune_def attached_marker Let_def split: sum.splits)
qed

lemma set_attached_marker:
  assumes "trim_space name = [] \<or> has_dir fs (trim_space name)" "marker_ok fs"
  shows "marker_ok (snd (set_attached en name fs))"
proof (cases "se_ready en \<and> trim_space name \<noteq> [] \<and> backup_name_ok (trim_space name)")
  case True
  let ?n = "trim_space name"
  obtain ok c where w: "plain_write (se_marker_write en) (?n @ [byte 10]) (bf_marker fs) = (ok, c)" by fastforce
  have "marker_name (fs\<lparr>bf_marker := c\<rparr>) \<in> {?n, [], marker_name fs}" using marker_write(1) [OF w, of fs] True by simp
  then show ?thesis using True w assms by (auto simp: set_attached_def Let_def marker_ok_def has_dir_def)
qed (use assms in \<open>auto simp: set_attached_def Let_def marker_ok_def has_dir_def marker_name_def\<close>)

lemma write_source_fields [simp]:
  "bf_dirs (snd (write_source en n src fs)) = bf_dirs fs" "bf_marker (snd (write_source en n src fs)) = bf_marker fs"
  by (simp_all add: write_source_def Let_def split: prod.splits)

lemma delete_marker_ok:
  assumes "marker_ok fs" "marker_name fs \<noteq> name"
  shows "marker_ok (snd (delete_files en name fs))"
  using assms by (auto simp: delete_files_def marker_ok_def has_dir_def marker_name_def)

section \<open>What a job does to the volume and to the tables\<close>

lemma tarball_fields [simp]:
  "bf_dirs (sv_files (snd (write_auth_tarball en n s))) = bf_dirs (sv_files s)"
  "bf_marker (sv_files (snd (write_auth_tarball en n s))) = bf_marker (sv_files s)"
  "sv_tables (snd (write_auth_tarball en n s)) = sv_tables s" "sv_job (snd (write_auth_tarball en n s)) = sv_job s"
  by (simp_all add: write_auth_tarball_def)

text \<open>A job that creates a backup leaves the tables alone, adds one directory and prunes.\<close>

definition grown :: "backup_files \<Rightarrow> backup_files \<Rightarrow> bool" where
  "grown fs fs' \<longleftrightarrow> bf_marker fs' = bf_marker fs \<and> (\<forall>n. has_dir fs n \<longrightarrow> has_dir fs' n)"

lemma grown_marker_ok: "grown fs fs' \<Longrightarrow> marker_ok fs \<Longrightarrow> marker_ok fs'"
  using marker_name_cong [of fs' fs] by (auto simp: grown_def marker_ok_def)

definition created :: "backup_env \<Rightarrow> backup_files \<Rightarrow> backup_files \<Rightarrow> bool" where
  "created en fs fs' \<longleftrightarrow> grown fs fs' \<or> (\<exists>fs1 keep. grown fs fs1 \<and> fs' = snd (prune (bv_store en) keep fs1))"

lemma created_marker: "created en fs fs' \<Longrightarrow> bf_marker fs' = bf_marker fs"
proof -
  have "bf_marker (snd (prune e k fs)) = bf_marker fs" for e k fs
    by (simp add: prune_def Let_def prune_from_fields split: sum.splits)
  then show "created en fs fs' \<Longrightarrow> bf_marker fs' = bf_marker fs" by (auto simp: created_def grown_def)
qed

lemma create_rest_effect:
  assumes "create_rest en src actor name keep auth s = (ok, s')"
  shows "created en (sv_files s) (sv_files s') \<and> sv_tables s' = sv_tables s \<and> sv_job s' = sv_job s"
proof -
  let ?x = "if auth \<and> bo_data_dir (sv_opts s) \<noteq> []
      then write_auth_tarball en name (set_status S_running name M_tarball (bv_now en) s) else (True, s)"
  obtain k s5 where k: "?x = (k, s5)" by fastforce
  have "grown (sv_files s) (sv_files (snd ?x)) \<and> sv_tables (snd ?x) = sv_tables s \<and> sv_job (snd ?x) = sv_job s"
    by (simp add: grown_def has_dir_def)
  then have g: "grown (sv_files s) (sv_files s5)" and f: "sv_tables s5 = sv_tables s" "sv_job s5 = sv_job s"
    unfolding k by simp_all
  let ?fs = "snd (write_source (bv_store en) name src (sv_files s5))"
  have g6: "grown (sv_files s) ?fs" using g by (simp add: grown_def has_dir_def)
  obtain r fs where r: "prune (bv_store en) keep ?fs = (r, fs)" by fastforce
  then have "fs = snd (prune (bv_store en) keep ?fs)" by simp
  then have "created en (sv_files s) fs" using g6 unfolding created_def by blast
  moreover have "created en (sv_files s) (sv_files s5)" using g by (simp add: created_def)
  ultimately show ?thesis using assms k r f by (auto simp: create_rest_def Let_def split: if_splits sum.splits)
qed

lemma create_work_effect:
  assumes "create_work en src actor name s = (ok, s')"
  shows "created en (sv_files s) (sv_files s') \<and> sv_tables s' = sv_tables s \<and> sv_job s' = sv_job s"
proof -
  let ?s1 = "log_event Log_dr actor ''backup.create'' name ''started'' (set_status S_running name M_started (bv_now en) s)"
  obtain keep edges auth s2 where p: "effective_policy en ?s1 = ((keep, edges, auth), s2)" by (metis surj_pair)
  note c = core_fields [OF core_results(4) [OF p], simplified]
  define s4 where "s4 = (set_status S_running name M_clickhouse (bv_now en) s2)
    \<lparr>sv_files := (sv_files s2)\<lparr>bf_dirs := gm_put name (bv_dir en) (bf_dirs (sv_files s2))\<rparr>\<rparr>"
  have g4: "grown (sv_files s) (sv_files s4)" "sv_tables s4 = sv_tables s" "sv_job s4 = sv_job s"
    using c by (simp_all add: s4_def grown_def has_dir_def)
  have g: "created en fs fs" for fs by (simp add: created_def grown_def)
  have "created en (sv_files s) fs" if "created en (sv_files s4) fs" for fs
    using that g4(1) by (fastforce simp: created_def grown_def)
  then have rest: "created en (sv_files s) (sv_files s') \<and> sv_tables s' = sv_tables s \<and> sv_job s' = sv_job s"
    if "create_rest en src actor name keep auth s4 = (ok, s')"
    using create_rest_effect [OF that] g4 by simp
  show ?thesis using assms p rest c g
    by (auto simp: create_work_def Let_def s4_def split: option.splits sum.splits if_splits)
qed

lemma run_create_effect:
  "created en (sv_files s) (sv_files (run_create en src actor s)) \<and> sv_tables (run_create en src actor s) = sv_tables s \<and>
   sv_job (run_create en src actor s) = sv_job s"
proof (cases "bv_heavy en")
  case False
  then show ?thesis by (simp add: run_create_def created_def grown_def)
next
  case True
  obtain name s1 where n: "create_name en s = (name, s1)" by fastforce
  obtain ok s2 where w: "create_work en src actor name s1 = (ok, s2)" by fastforce
  have "same_core s2 (persist_schedule_run en t s2)" for t by simp
  note c = core_fields [OF core_results(3) [OF n]] core_fields [OF this]
  show ?thesis using create_work_effect [OF w] c True n w by (simp add: run_create_def)
qed

lemma run_free: "\<not> sv_busy (run_create en src actor s)"
  by (simp add: run_create_def)

lemma marked_fields [simp]:
  "sv_files (attach_marked en n a s) = snd (set_attached (bv_store en) n (sv_files s))"
  "sv_files (detach_marked en n a s) = snd (set_attached (bv_store en) [] (sv_files s))"
  "sv_files (attach_failed en n a e s) = sv_files s"
  "sv_tables (attach_marked en n a s) = sv_tables s" "sv_tables (detach_marked en n a s) = sv_tables s"
  "sv_tables (attach_failed en n a e s) = sv_tables s"
  "sv_job (attach_marked en n a s) = sv_job s" "sv_job (detach_marked en n a s) = sv_job s"
  "sv_job (attach_failed en n a e s) = sv_job s"
  "\<not> sv_busy (attach_marked en n a s)" "\<not> sv_busy (detach_marked en n a s)" "\<not> sv_busy (attach_failed en n a e s)"
  by (simp_all add: attach_marked_def detach_marked_def attach_failed_def split: sum.splits prod.splits)

section \<open>What a request does\<close>

definition job_accepted :: "backup_service \<Rightarrow> backup_job \<Rightarrow> backup_service \<Rightarrow> bool" where
  "job_accepted s j s' \<longleftrightarrow> \<not> sv_busy s \<and> sv_files s' = sv_files s \<and> sv_tables s' = sv_tables s \<and> sv_busy s' \<and> sv_job s' = Some j \<and>
     bj_state (sv_status s') = S_running"

lemma accepted_core:
  "same_core s0 s \<Longrightarrow> job_accepted s j s' \<Longrightarrow> job_accepted s0 j s'"
  "same_core s0 s \<Longrightarrow> same_core s s' \<Longrightarrow> same_core s0 s'"
  by (simp_all add: job_accepted_def same_core_def)

lemma accepted_fire [simp]: "job_accepted s j (s'\<lparr>sv_fire := f\<rparr>) = job_accepted s j s'"
  by (simp add: job_accepted_def)

lemma create_request:
  "schedule_create en src a s = (r, s') \<Longrightarrow> same_core s s' \<or> (\<exists>src'. job_accepted s (Create_job src' a) s')"
  by (auto simp: schedule_create_def try_start_def job_accepted_def Let_def split: if_splits)

lemma start_request:
  "attach_start en n a s = (r, s') \<Longrightarrow> same_core s s' \<or> job_accepted s (Attach_job n a) s'"
  "detach_start en n a s = (r, s') \<Longrightarrow> same_core s s' \<or> job_accepted s (Detach_job n a) s'"
  by (auto simp: attach_start_def detach_start_def try_start_def job_accepted_def split: if_splits)

lemma attach_allowed: "attach_checks en n s = None \<Longrightarrow> backup_name_ok n \<and> has_dir (sv_files s) n"
  by (auto simp: attach_checks_def backup_exists_def has_dir_def split: if_splits)

lemma tick_request:
  "same_core s (tick_auto_create en s) \<or> (\<exists>src a. job_accepted s (Create_job src a) (tick_auto_create en s))"
proof -
  obtain g s1 where g: "get_schedule en s = (g, s1)" by fastforce
  note c = core_results(1) [OF g]
  have "same_core s s2 \<or> (\<exists>src a. job_accepted s (Create_job src a) s2)"
    if "schedule_create en source_schedule ''scheduler'' (s1\<lparr>sv_fire := k\<rparr>) = (r, s2)" for k r s2
    using create_request [OF that] accepted_core(1) [of s "s1\<lparr>sv_fire := k\<rparr>"]
      accepted_core(2) [of s "s1\<lparr>sv_fire := k\<rparr>"] c by (metis core_updates(2))
  with g c show ?thesis by (auto simp: tick_auto_create_def Let_def split: sum.splits prod.splits bool.splits)
qed

lemma delete_allowed:
  assumes "delete_checks en n s = None" "se_marker_ok (bv_store en)"
  shows "bj_state (sv_status s) \<noteq> S_running" "marker_name (sv_files s) \<noteq> n"
proof -
  have r: "se_ready (bv_store en)" using assms(1) by (auto simp: delete_checks_def split: if_splits)
  show "bj_state (sv_status s) \<noteq> S_running" using assms(1) r by (auto simp: delete_checks_def split: if_splits)
  have "n \<noteq> []" if "backup_exists (bv_store en) (sv_files s) n" using that plain_name(2) by (auto simp: backup_exists_def)
  then show "marker_name (sv_files s) \<noteq> n"
    using assms(1) r unfolding delete_checks_def attached_marker [OF assms(2) r] by (auto split: if_splits)
qed

lemma delete_commit_core:
  "same_core (s\<lparr>sv_files := snd (delete_files (bv_store en) n (sv_files s))\<rparr>) (snd (delete_commit en n a s))"
  by (simp add: delete_commit_def split: sum.splits prod.splits)

text \<open>What a request leaves in the service: it changes nothing of the volume and the tables and queues at most one job.\<close>

lemma request_kept:
  "same_core s (tick_auto_create en s) \<or> (\<exists>src a. job_accepted s (Create_job src a) (tick_auto_create en s))"
  "same_core s (snd (schedule_create en src a s)) \<or> (\<exists>src'. job_accepted s (Create_job src' a) (snd (schedule_create en src a s)))"
  "same_core s (snd (attach_start en n a s)) \<or> job_accepted s (Attach_job n a) (snd (attach_start en n a s))"
  "same_core s (snd (detach_start en n a s)) \<or> job_accepted s (Detach_job n a) (snd (detach_start en n a s))"
  using tick_request create_request [OF prod.collapse [symmetric]] start_request [OF prod.collapse [symmetric]] by blast+

section \<open>The invariant of the volume\<close>

text \<open>The stages in which an attaching job still works for its backup, and all backups that are about to be attached.\<close>

fun restoring :: "job_stage \<Rightarrow> bool" where
  "restoring (Restore_drop k ps) = True" | "restoring (Restore_copy k src dest ps) = True" | "restoring Write_marker = True"
| "restoring (Undo_marker e) = True" | "restoring (Undo_drop e ts) = False" | "restoring (Detach_drop ts) = False"
| "restoring Detach_marker = False"

definition attaching :: "backup_world \<Rightarrow> string list" where
  "attaching w = w_attaches w @ (case sv_job (w_svc w) of Some (Attach_job n a) \<Rightarrow> [n] | _ \<Rightarrow> []) @
     (case w_stage w of Some (n, a, st) \<Rightarrow> (if restoring st then [n] else []) | None \<Rightarrow> [])"

definition volume_inv :: "backup_world \<Rightarrow> bool" where
  "volume_inv w \<longleftrightarrow> marker_ok (sv_files (w_svc w)) \<and>
     sv_busy (w_svc w) = (sv_job (w_svc w) \<noteq> None \<or> w_stage w \<noteq> None) \<and> (sv_job (w_svc w) = None \<or> w_stage w = None) \<and>
     (sv_busy (w_svc w) \<longrightarrow> bj_state (sv_status (w_svc w)) = S_running) \<and>
     (\<forall>n \<in> set (attaching w). backup_name_ok n \<and> has_dir (sv_files (w_svc w)) n) \<and>
     (\<forall>n \<in> set (w_deletes w). n \<noteq> [] \<and> n \<noteq> marker_name (sv_files (w_svc w)) \<and> n \<notin> set (attaching w)) \<and>
     (creating (w_svc w) \<longrightarrow> w_attaches w = [])"

lemma set_attached_dirs [simp]: "has_dir (snd (set_attached en name fs)) n = has_dir fs n"
  by (auto simp: set_attached_def Let_def has_dir_def split: prod.splits)

lemma set_attached_name:
  assumes "n = [] \<or> backup_name_ok n"
  shows "marker_name (snd (set_attached en n fs)) \<in> {n, [], marker_name fs}"
proof (cases "se_ready en \<and> n \<noteq> []")
  case True
  obtain ok c where w: "plain_write (se_marker_write en) (n @ [byte 10]) (bf_marker fs) = (ok, c)" by fastforce
  then show ?thesis using True assms marker_write(1) [OF w, of fs] plain_name(3) by (auto simp: set_attached_def Let_def)
qed (use assms plain_name in \<open>auto simp: set_attached_def Let_def marker_name_def\<close>)

text \<open>One step of a job: it keeps the directories, and names in the marker at most the backup it attaches.\<close>

definition stage_files :: "string \<Rightarrow> job_stage \<Rightarrow> backup_files \<Rightarrow> backup_files \<Rightarrow> bool" where
  "stage_files n st fs fs' \<longleftrightarrow> (\<forall>m. has_dir fs' m = has_dir fs m) \<and>
     marker_name fs' \<in> {[], marker_name fs} \<union> (if restoring st then {n} else {})"

lemma stage_files_step:
  assumes "stage_step en n a st s = (st', s')" "restoring st \<longrightarrow> backup_name_ok n"
  shows "stage_files n st (sv_files s) (sv_files s')" "sv_job s' = sv_job s"
    "st' = None \<Longrightarrow> \<not> sv_busy s'" "st' = Some t \<Longrightarrow> sv_busy s' = sv_busy s \<and> sv_status s' = sv_status s \<and> (restoring t \<longrightarrow> restoring st)"
  using assms set_attached_name [of n "bv_store en" "sv_files s"] set_attached_name [of "[]" "bv_store en" "sv_files s"]
  by (cases "(en, n, a, st, s)" rule: stage_step.cases;
      force simp: stage_files_def Let_def finish_def split: if_splits exec_result.splits sum.splits prod.splits)+

lemma inv_stage:
  assumes "volume_inv w" "w_stage w = Some (n, a, st)"
  shows "volume_inv (job_step en w)"
proof -
  obtain st' s' where e: "stage_step en n a st (w_svc w) = (st', s')" by fastforce
  have n: "restoring st \<longrightarrow> backup_name_ok n \<and> has_dir (sv_files (w_svc w)) n"
    using assms by (auto simp: volume_inv_def attaching_def)
  note k = stage_files_step [OF e]
  have w': "job_step en w = w\<lparr>w_svc := s', w_stage := map_option (\<lambda>t. (n, a, t)) st'\<rparr>" using assms(2) e by (simp add: job_step_def)
  have j: "sv_job (w_svc w) = None" "sv_job s' = None" using assms k(2) n by (auto simp: volume_inv_def)
  have a: "set (attaching (job_step en w)) \<subseteq> set (attaching w)" "w_deletes (job_step en w) = w_deletes w"
    using k(4) n j assms(2) by (auto simp: w' attaching_def split: option.splits)
  have m: "marker_name (sv_files s') \<in> {[], marker_name (sv_files (w_svc w))} \<union> (if restoring st then {n} else {})"
    and d: "\<And>m. has_dir (sv_files s') m = has_dir (sv_files (w_svc w)) m" using k(1) n by (simp_all add: stage_files_def)
  have i: "marker_ok (sv_files (w_svc w))" "sv_busy (w_svc w)" "bj_state (sv_status (w_svc w)) = S_running"
    using assms by (auto simp: volume_inv_def)
  have r: "restoring st \<longrightarrow> backup_name_ok n" using n by blast
  consider "marker_name (sv_files s') = []" | "marker_name (sv_files s') = marker_name (sv_files (w_svc w))"
    | "restoring st" "marker_name (sv_files s') = n" using m by (auto split: if_splits)
  then have "marker_ok (sv_files s')" using i(1) n by cases (simp_all add: marker_ok_def d)
  moreover have "sv_busy s' = (st' \<noteq> None)" "sv_busy s' \<longrightarrow> bj_state (sv_status s') = S_running"
    using k(3) [OF r] k(4) [OF r] i(2,3) by (cases st'; simp)+
  moreover have "x \<noteq> marker_name (sv_files s')" if "x \<in> set (w_deletes w)" for x
  proof -
    have "x \<noteq> []" "x \<noteq> marker_name (sv_files (w_svc w))" "x \<notin> set (attaching w)" using that assms(1) by (auto simp: volume_inv_def)
    then show ?thesis using m assms(2) by (auto simp: attaching_def split: if_splits)
  qed
  moreover have "\<forall>n \<in> set (attaching (job_step en w)). backup_name_ok n \<and> has_dir (sv_files s') n"
    "\<forall>x \<in> set (w_deletes w). x \<noteq> [] \<and> x \<notin> set (attaching (job_step en w))"
    using assms(1) a(1) d by (auto simp: volume_inv_def)
  ultimately show ?thesis using j a(2) by (simp add: volume_inv_def w' creating_def)
qed

lemma inv_begin:
  assumes "volume_inv w" "w_stage w = None" "sv_job (w_svc w) = Some j" "se_marker_ok (bv_store en)"
  shows "volume_inv (job_step en w)"
proof -
  let ?s = "(w_svc w)\<lparr>sv_job := None\<rparr>"
  have i: "marker_ok (sv_files (w_svc w))" "sv_busy (w_svc w)" "bj_state (sv_status (w_svc w)) = S_running"
    using assms(1,3) by (auto simp: volume_inv_def)
  have d: "x \<noteq> [] \<and> x \<noteq> marker_name (sv_files (w_svc w)) \<and> x \<notin> set (attaching w)" if "x \<in> set (w_deletes w)" for x
    using assms(1) that by (simp add: volume_inv_def)
  have at: "backup_name_ok n \<and> has_dir (sv_files (w_svc w)) n" if "n \<in> set (attaching w)" for n
    using assms(1) that by (simp add: volume_inv_def)
  show ?thesis
  proof (cases j)
    case (Create_job src a)
    have w': "job_step en w = w\<lparr>w_svc := run_create en src a ?s, w_stage := None\<rparr>"
      using assms(2,3) Create_job by (simp add: job_step_def job_begin_def)
    have none: "w_attaches w = []" using assms(1,3) Create_job by (auto simp: volume_inv_def creating_def)
    have e: "created en (sv_files (w_svc w)) (sv_files (run_create en src a ?s))" "sv_job (run_create en src a ?s) = None"
      using run_create_effect [of en ?s src a] by simp_all
    have "marker_ok (sv_files (run_create en src a ?s))"
      using e(1) i(1) prune_marker_ok [OF assms(4)] grown_marker_ok by (auto simp: created_def)
    moreover have "marker_name (sv_files (run_create en src a ?s)) = marker_name (sv_files (w_svc w))"
      using marker_name_cong [OF created_marker [OF e(1)]] .
    ultimately show ?thesis using e(2) d none by (auto simp: volume_inv_def w' attaching_def run_free creating_def)
  next
    case (Attach_job n a)
    then show ?thesis using assms(2,3) i d at
      by (simp add: job_step_def job_begin_def volume_inv_def attaching_def creating_def set_status_def finish_def log_event_def)
  next
    case (Detach_job n a)
    then show ?thesis using assms(2,3) i d at
      by (simp add: job_step_def job_begin_def volume_inv_def attaching_def creating_def set_status_def finish_def log_event_def)
  qed
qed

lemma idle: "volume_inv w \<Longrightarrow> \<not> sv_busy (w_svc w) \<Longrightarrow> sv_job (w_svc w) = None \<and> w_stage w = None"
  unfolding volume_inv_def by blast

lemma inv_core:
  assumes "volume_inv w" "same_core (w_svc w) (w_svc w')" "w_stage w' = w_stage w" "w_deletes w' = w_deletes w"
    "set (w_attaches w') \<subseteq> set (w_attaches w)"
  shows "volume_inv w'"
proof -
  have "set (attaching w') \<subseteq> set (attaching w)" using assms(2,3,5) by (auto simp: attaching_def same_core_def)
  then show ?thesis using assms by (auto simp: volume_inv_def same_core_def creating_def)
qed

lemma inv_accepted:
  assumes "volume_inv w" "job_accepted (w_svc w) j (w_svc w')" "w_stage w' = w_stage w" "w_deletes w' = w_deletes w"
    "set (w_attaches w') \<subseteq> set (w_attaches w)" "\<And>n a. j = Attach_job n a \<Longrightarrow> n \<in> set (w_attaches w)"
    "\<And>src a. j = Create_job src a \<Longrightarrow> w_attaches w = []"
  shows "volume_inv w'"
proof -
  have "set (attaching w') \<subseteq> set (attaching w)"
    using assms(2,3,5,6) by (auto simp: attaching_def job_accepted_def split: backup_job.splits)
  moreover have "\<not> sv_busy (w_svc w)" using assms(2) by (simp add: job_accepted_def)
  then have "sv_job (w_svc w) = None" "w_stage w = None" using idle [OF assms(1)] by blast+
  moreover have "creating (w_svc w') \<longrightarrow> w_attaches w' = []"
    using assms(2,5,7) by (cases j) (auto simp: creating_def job_accepted_def)
  ultimately show ?thesis using assms(1-4) by (auto simp: volume_inv_def job_accepted_def)
qed

lemma inv_delete:
  assumes "volume_inv w" "n \<in> set (w_deletes w)"
    "same_core ((w_svc w)\<lparr>sv_files := snd (delete_files en n (sv_files (w_svc w)))\<rparr>) s'"
  shows "volume_inv (w\<lparr>w_deletes := remove1 n (w_deletes w), w_svc := s'\<rparr>)"
proof -
  have n: "n \<noteq> marker_name (sv_files (w_svc w))" "n \<notin> set (attaching w)" using assms(1,2) by (simp_all add: volume_inv_def)
  let ?fs = "snd (delete_files en n (sv_files (w_svc w)))"
  have m: "marker_name ?fs = marker_name (sv_files (w_svc w))" by (rule marker_name_cong) (simp add: delete_files_def)
  have d: "has_dir ?fs x = has_dir (sv_files (w_svc w)) x" if "x \<noteq> n" for x
    using that by (simp add: delete_files_def has_dir_def)
  have i: "marker_ok (sv_files (w_svc w))" "\<forall>n \<in> set (attaching w). backup_name_ok n \<and> has_dir (sv_files (w_svc w)) n"
    "\<forall>n \<in> set (w_deletes w). n \<noteq> [] \<and> n \<noteq> marker_name (sv_files (w_svc w)) \<and> n \<notin> set (attaching w)"
    using assms(1) by (simp_all add: volume_inv_def)
  have "attaching (w\<lparr>w_deletes := remove1 n (w_deletes w), w_svc := s'\<rparr>) = attaching w"
    using assms(3) by (simp add: attaching_def same_core_def)
  moreover have "\<forall>x \<in> set (attaching w). backup_name_ok x \<and> has_dir ?fs x" using i(2) n(2) d by metis
  moreover have "marker_ok ?fs" using i(1) n(1) m d by (metis marker_ok_def)
  moreover have "\<forall>x \<in> set (remove1 n (w_deletes w)). x \<noteq> [] \<and> x \<noteq> marker_name ?fs \<and> x \<notin> set (attaching w)"
    using i(3) m by (auto dest: set_remove1_subset [THEN subsetD])
  ultimately show ?thesis using assms(1,3) by (simp add: volume_inv_def same_core_def creating_def)
qed

text \<open>A request that passes its checks becomes one of those under way.\<close>

lemma inv_checked:
  assumes "volume_inv w"
  shows "attach_checks en n (w_svc w) = None \<Longrightarrow> apart w (W_check_attach n) \<Longrightarrow> volume_inv (w\<lparr>w_attaches := n # w_attaches w\<rparr>)"
    "delete_checks en n (w_svc w) = None \<Longrightarrow> apart w (W_check_delete n) \<Longrightarrow> se_marker_ok (bv_store en) \<Longrightarrow>
      volume_inv (w\<lparr>w_deletes := n # w_deletes w\<rparr>)"
proof -
  show "volume_inv (w\<lparr>w_attaches := n # w_attaches w\<rparr>)" if "attach_checks en n (w_svc w) = None" "apart w (W_check_attach n)"
    using assms attach_allowed [OF that(1)] that(2) by (auto simp: volume_inv_def attaching_def apart_def)
  show "volume_inv (w\<lparr>w_deletes := n # w_deletes w\<rparr>)"
    if c: "delete_checks en n (w_svc w) = None" "apart w (W_check_delete n)" "se_marker_ok (bv_store en)"
  proof -
    note a = delete_allowed [OF c(1,3)]
    then have "\<not> sv_busy (w_svc w)" using assms by (auto simp: volume_inv_def)
    then have "sv_job (w_svc w) = None" "w_stage w = None" using idle [OF assms] by blast+
    then have "n \<notin> set (attaching w)" using c(2) by (simp add: attaching_def apart_def)
    moreover have "n \<noteq> []" using c(1) plain_name(2)
      by (auto simp: delete_checks_def backup_exists_def split: if_splits sum.splits)
    ultimately show ?thesis using assms a(2) by (simp add: volume_inv_def attaching_def creating_def)
  qed
qed

lemma inv_step:
  assumes "world_step (\<lambda>en. se_marker_ok (bv_store en)) apart w w'" "volume_inv w"
  shows "volume_inv w'"
proof -
  obtain en op where w': "w' = world_do en op w" and ok: "se_marker_ok (bv_store en)" and g: "apart w op"
    using assms(1) by (rule world_stepE)
  note kept = request_kept [where en = en and s = "w_svc w"]
  show ?thesis
  proof (cases op)
    case W_tick
    from kept(1) show ?thesis
    proof
      show ?thesis if "same_core (w_svc w) (tick_auto_create en (w_svc w))"
        by (rule inv_core [OF assms(2)]) (simp_all add: w' W_tick that)
    next
      assume "\<exists>src a. job_accepted (w_svc w) (Create_job src a) (tick_auto_create en (w_svc w))"
      then obtain src a where "job_accepted (w_svc w) (Create_job src a) (w_svc w')" by (auto simp: w' W_tick)
      from inv_accepted [OF assms(2) this] g show ?thesis by (simp add: w' W_tick apart_def)
    qed
  next
    case (W_create src a)
    from kept(2) [of src a] show ?thesis
    proof
      show ?thesis if "same_core (w_svc w) (snd (schedule_create en src a (w_svc w)))"
        by (rule inv_core [OF assms(2)]) (simp_all add: w' W_create that)
    next
      assume "\<exists>src'. job_accepted (w_svc w) (Create_job src' a) (snd (schedule_create en src a (w_svc w)))"
      then obtain src' where "job_accepted (w_svc w) (Create_job src' a) (w_svc w')" by (auto simp: w' W_create)
      from inv_accepted [OF assms(2) this] g show ?thesis by (simp add: w' W_create apart_def)
    qed
  next
    case (W_attach n a)
    have "volume_inv w'" if "n \<in> set (w_attaches w)" using kept(3) [of n a]
    proof
      show ?thesis if "same_core (w_svc w) (snd (attach_start en n a (w_svc w)))"
        by (rule inv_core [OF assms(2)]) (use that in \<open>auto simp: w' W_attach dest: set_remove1_subset [THEN subsetD]\<close>)
    next
      assume "job_accepted (w_svc w) (Attach_job n a) (snd (attach_start en n a (w_svc w)))"
      then have "job_accepted (w_svc w) (Attach_job n a) (w_svc w')" using that by (simp add: w' W_attach)
      from inv_accepted [OF assms(2) this] that show ?thesis by (auto simp: w' W_attach dest: set_remove1_subset [THEN subsetD])
    qed
    then show ?thesis using assms(2) by (cases "n \<in> set (w_attaches w)") (simp_all add: w' W_attach)
  next
    case (W_detach n a)
    have "volume_inv w'" if "n \<in> set (w_detaches w)" using kept(4) [of n a]
    proof
      show ?thesis if "same_core (w_svc w) (snd (detach_start en n a (w_svc w)))"
        by (rule inv_core [OF assms(2)]) (use that in \<open>auto simp: w' W_detach\<close>)
    next
      assume "job_accepted (w_svc w) (Detach_job n a) (snd (detach_start en n a (w_svc w)))"
      then have "job_accepted (w_svc w) (Detach_job n a) (w_svc w')" using that by (simp add: w' W_detach)
      from inv_accepted [OF assms(2) this] that show ?thesis by (simp add: w' W_detach)
    qed
    then show ?thesis using assms(2) by (cases "n \<in> set (w_detaches w)") (simp_all add: w' W_detach)
  next
    case W_job
    then show ?thesis using inv_stage [OF assms(2), where en = en] inv_begin [OF assms(2) _ _ ok] assms(2)
      by (cases "w_stage w"; cases "sv_job (w_svc w)") (auto simp: w' job_step_def split: prod.splits)
  next
    case (W_delete n a)
    then show ?thesis using inv_delete [OF assms(2) _ delete_commit_core] assms(2) by (simp add: w')
  next
    case (W_check_attach n)
    then show ?thesis using inv_checked(1) [OF assms(2)] g assms(2) by (simp add: w')
  next
    case (W_check_delete n)
    then show ?thesis using inv_checked(2) [OF assms(2)] g assms(2) ok by (simp add: w')
  qed (use inv_core [OF assms(2), of w'] assms(2) in \<open>simp_all add: w'\<close>)
qed

end
