(* ===== verification/Backup_Promises.thy ===== *)
theory Backup_Promises
  imports Backup_Safety
begin

text \<open>
  What the backup service promises: an attached backup stays on the volume, the tables hold the backup that the
  marker names, pruning keeps the newest backups, names of backups are read back, and when the schedule starts a
  backup; and the cases where the code does less than that.
\<close>

section \<open>The attached backup\<close>

definition marker_readable :: "backup_env \<Rightarrow> bool" where
  "marker_readable en \<longleftrightarrow> se_marker_ok (bv_store en)"

interpretation volume_sys: invariant_system volume_inv "world_step marker_readable apart" volume_inv
  using inv_step by unfold_locales (simp_all add: marker_readable_def [abs_def])

lemma backup_service_inv: "marker_ok fs \<Longrightarrow> volume_inv (new_world (new_backup_service opts st d fs tabs))"
  by (simp add: volume_inv_def attaching_def creating_def new_world_def new_backup_service_def)

text \<open>C8: Requests, ticks and the statements of jobs follow each other in any order, with any other steps between the checks of a
  request and its work, and any system calls and statements may fail, on two conditions: the marker can be read, and requests do not
  overlap as in \<open>apart\<close> (no backup is attached while its deletion has passed its checks, or deleted while its attaching
  has, and no request to attach has passed its checks while a backup is created). Then a backup that the service
  reports as attached is a directory of the volume: neither deleting nor pruning removes it, and a write of the marker
  that stops in the middle does not name another. Both conditions are needed: \<open>delete_races_attach\<close> and
  \<open>prune_without_marker\<close>.\<close>
theorem attached_backup_exists:
  assumes "(world_step marker_readable apart)\<^sup>*\<^sup>* (new_world (new_backup_service opts st d fs tabs)) w" "marker_ok fs"
    "attached en (sv_files (w_svc w)) = Inr n" "n \<noteq> []"
  shows "backup_exists en (sv_files (w_svc w)) n"
proof -
  have "volume_inv w" using volume_sys.reachable_inv [OF assms(1)] backup_service_inv [OF assms(2)] by simp
  then have "marker_ok (sv_files (w_svc w))" by (simp add: volume_inv_def)
  moreover have "n = marker_name (sv_files (w_svc w))" "se_ready en"
    using assms(3,4) by (auto simp: attached_def marker_name_def split: if_splits option.splits)
  moreover have "backup_name_ok n" using assms(4) calculation(2)
    by (auto simp: marker_name_def Let_def split: option.splits if_splits)
  ultimately show ?thesis using assms(4) by (auto simp: marker_ok_def has_dir_def backup_exists_def)
qed

section \<open>The tables of the attached backup\<close>

definition shadow_names :: "string list" where
  "shadow_names = map snd map_shadow_pairs"

text \<open>Tables that hold nothing but the backup \<open>n\<close>.\<close>

definition only_from :: "string \<Rightarrow> shadow_tables \<Rightarrow> bool" where
  "only_from n tabs \<longleftrightarrow> (\<forall>t b. gm_get tabs t = Some b \<longrightarrow> b = n)"

definition known_tables :: "shadow_tables \<Rightarrow> bool" where
  "known_tables tabs \<longleftrightarrow> dom (gm_get tabs) \<subseteq> set shadow_names"

lemma shadow_pairs_plain:
  "\<forall>p \<in> set map_shadow_pairs. trim_space (fst p) = fst p \<and> trim_space (snd p) = snd p"
  by (auto simp: map_shadow_pairs_def intro!: list_all_trim) (simp_all add: plain_def code_def)

lemma drop_tables_get:
  "drop_tables exec ts tabs = (r, tabs') \<Longrightarrow> gm_get tabs' t = Some b \<Longrightarrow> gm_get tabs t = Some b"
proof (induction exec ts tabs rule: drop_tables.induct)
  case (2 exec t0 ts tabs)
  then show ?case by (simp add: Let_def split: if_splits exec_result.splits)
qed simp

text \<open>An entry after a restore is new, or an old one that was not replaced.\<close>

lemma restore_pairs_get:
  assumes "restore_pairs exec name k ps tabs = (r, tabs')" "\<forall>p \<in> set ps. trim_space (snd p) = snd p"
    "gm_get tabs' t = Some b"
  shows "b = name \<and> t \<in> set (map snd ps) \<or> gm_get tabs t = Some b \<and> (isl r \<or> t \<notin> set (map snd ps))"
  using assms
proof (induction exec name k ps tabs rule: restore_pairs.induct)
  case (2 exec name k src0 dest0 ps tabs)
  let ?src = "trim_space src0"
  have d: "trim_space dest0 = dest0" "\<forall>p \<in> set ps. trim_space (snd p) = snd p" using "2.prems"(2) by simp_all
  show ?case
  proof (cases "?src = [] \<or> dest0 = [] \<or> \<not> safe_ident ?src \<or> \<not> safe_ident dest0 \<or> exec (drop_table_sql dest0) \<noteq> Exec_ok")
    case True
    then show ?thesis using "2.prems"(1,3) d by (auto simp: Let_def split: if_splits exec_result.splits)
  next
    case False
    let ?t1 = "gm_del dest0 tabs"
    consider (ok) "exec (restore_table_as_sql ?src dest0 name) = Exec_ok"
      | (skip) e where "exec (restore_table_as_sql ?src dest0 name) = Exec_err e" "missing_backup_object e"
      | (bad) e where "exec (restore_table_as_sql ?src dest0 name) = Exec_err e" "\<not> missing_backup_object e"
      by (cases "exec (restore_table_as_sql ?src dest0 name)") auto
    then show ?thesis
    proof cases
      case ok
      then have "restore_pairs exec name (Suc k) ps (gm_put dest0 name ?t1) = (r, tabs')" using False "2.prems"(1) d by simp
      then show ?thesis using "2.IH"(1) [of ?src dest0 ?t1] ok False "2.prems"(3) d by (auto split: if_splits)
    next
      case skip
      then have "restore_pairs exec name k ps ?t1 = (r, tabs')" using False "2.prems"(1) d by simp
      then show ?thesis using "2.IH"(2) [of ?src dest0 ?t1 e] skip False "2.prems"(3) d by (auto split: if_splits)
    next
      case bad
      then show ?thesis using False "2.prems"(1,3) d by (auto split: if_splits)
    qed
  qed
qed (auto split: if_splits)

lemma restore_shadow_tables:
  assumes "restore_map_shadow exec name tabs = (r, tabs')" "trim_space name = name" "known_tables tabs"
  shows "known_tables tabs'" "\<not> isl r \<Longrightarrow> only_from name tabs'"
proof -
  have e: "b = name \<and> t \<in> set shadow_names \<or> gm_get tabs t = Some b \<and> (isl r \<or> t \<notin> set shadow_names)"
    if "gm_get tabs' t = Some b" for t b
    using assms(1,2) that restore_pairs_get [of exec name 0 map_shadow_pairs tabs r tabs' t b] shadow_pairs_plain
    by (auto simp: restore_map_shadow_def restore_tables_as_def Let_def shadow_names_def split: if_splits)
  then show "known_tables tabs'" using assms(3) by (fastforce simp: known_tables_def)
  show "only_from name tabs'" if "\<not> isl r"
    using e that assms(3) by (fastforce simp: only_from_def known_tables_def)
qed

lemma drop_shadow_tables:
  assumes "drop_map_shadow exec tabs = (r, tabs')" "known_tables tabs"
  shows "known_tables tabs'" "only_from n tabs \<Longrightarrow> only_from n tabs'"
  using assms drop_tables_get [of exec _ tabs r tabs'] unfolding drop_map_shadow_def known_tables_def only_from_def
  by (fastforce)+

text \<open>The environments in which the volume is mounted and the marker can be read, written and removed.\<close>

definition marker_works :: "backup_env \<Rightarrow> bool" where
  "marker_works en \<longleftrightarrow> se_marker_ok (bv_store en) \<and> se_ready (bv_store en) \<and> se_marker_write (bv_store en) = W_done \<and>
     se_removed (bv_store en) attached_file"

text \<open>What the tables hold at each stage of a job for the backup \<open>n\<close>, while the marker names \<open>m\<close>.\<close>

definition mixed :: "string \<Rightarrow> string \<Rightarrow> string set \<Rightarrow> shadow_tables \<Rightarrow> bool" where
  "mixed n m left tabs \<longleftrightarrow> (\<forall>t b. gm_get tabs t = Some b \<longrightarrow> b = n \<or> t \<in> left \<and> (m \<noteq> [] \<longrightarrow> b = m))"

fun stage_tables :: "string \<Rightarrow> string \<Rightarrow> job_stage \<Rightarrow> shadow_tables \<Rightarrow> bool" where
  "stage_tables n m (Restore_drop k ps) tabs = (set ps \<subseteq> set map_shadow_pairs \<and> mixed n m (snd ` set ps) tabs)"
| "stage_tables n m (Restore_copy k src dest ps) tabs =
     (dest \<in> set shadow_names \<and> set ps \<subseteq> set map_shadow_pairs \<and> mixed n m (snd ` set ps) tabs)"
| "stage_tables n m Write_marker tabs = only_from n tabs"
| "stage_tables n m (Undo_marker e) tabs = mixed n m UNIV tabs"
| "stage_tables n m (Undo_drop e ts) tabs = (m = [])"
| "stage_tables n m (Detach_drop ts) tabs = (m \<noteq> [] \<longrightarrow> only_from m tabs)"
| "stage_tables n m Detach_marker tabs = (m \<noteq> [] \<longrightarrow> only_from m tabs)"

definition shadow_inv :: "backup_world \<Rightarrow> bool" where
  "shadow_inv w \<longleftrightarrow> (\<forall>n \<in> set (attaching w). backup_name_ok n) \<and> known_tables (sv_tables (w_svc w)) \<and>
     (case w_stage w of
        None \<Rightarrow> marker_name (sv_files (w_svc w)) \<noteq> [] \<longrightarrow> only_from (marker_name (sv_files (w_svc w))) (sv_tables (w_svc w))
      | Some (n, a, st) \<Rightarrow> stage_tables n (marker_name (sv_files (w_svc w))) st (sv_tables (w_svc w)))"

lemma marker_set:
  assumes "marker_works en"
  shows "marker_name (snd (set_attached (bv_store en) [] fs)) = []"
    "backup_name_ok n \<Longrightarrow> marker_name (snd (set_attached (bv_store en) n fs)) = n"
proof -
  show "marker_name (snd (set_attached (bv_store en) [] fs)) = []"
    using assms by (simp add: marker_works_def set_attached_def marker_name_def)
  show "marker_name (snd (set_attached (bv_store en) n fs)) = n" if "backup_name_ok n"
    using assms marker_write(2) [of W_done n "bf_marker fs" True "Some (n @ [byte 10])" fs] that plain_name [OF that]
    by (simp add: marker_works_def set_attached_def plain_write_def)
qed

lemma mixed_less:
  "mixed n m {} tabs = only_from n tabs" "mixed n m A tabs \<Longrightarrow> mixed n m UNIV tabs"
  "mixed n m (insert t A) tabs \<Longrightarrow> mixed n m A (gm_del t tabs)" "mixed n m A tabs \<Longrightarrow> mixed n m A (gm_put t n tabs)"
proof -
  show "mixed n m {} tabs = only_from n tabs" "mixed n m A tabs \<Longrightarrow> mixed n m A (gm_put t n tabs)"
    by (simp_all add: mixed_def only_from_def)
  show "mixed n m UNIV tabs" if "mixed n m A tabs" using that unfolding mixed_def by blast
  show "mixed n m A (gm_del t tabs)" if "mixed n m (insert t A) tabs" using that unfolding mixed_def
    by simp blast
qed

lemma known_changes:
  "known_tables tabs \<Longrightarrow> known_tables (gm_del t tabs)" "known_tables tabs \<Longrightarrow> t \<in> set shadow_names \<Longrightarrow> known_tables (gm_put t n tabs)"
  by (auto simp: known_tables_def dom_def split: if_splits)

lemma drop_one:
  assumes "drop_tables exec [t] tabs = (r, tabs')"
  shows "known_tables tabs \<Longrightarrow> known_tables tabs'" "only_from m tabs \<Longrightarrow> only_from m tabs'"
  using assms drop_tables_get [OF assms] by (auto simp: known_tables_def only_from_def dom_def)

text \<open>One step of a job.\<close>

lemma shadow_stage_step:
  assumes "stage_step en n a st s = (st', s')" "stage_tables n (marker_name (sv_files s)) st (sv_tables s)"
    "known_tables (sv_tables s)" "restoring st \<longrightarrow> backup_name_ok n" "marker_works en"
  shows "known_tables (sv_tables s') \<and>
    (case st' of
       None \<Rightarrow> marker_name (sv_files s') \<noteq> [] \<longrightarrow> only_from (marker_name (sv_files s')) (sv_tables s')
     | Some t \<Rightarrow> stage_tables n (marker_name (sv_files s')) t (sv_tables s'))"
proof -
  note p = shadow_pairs_plain
  have tn: "trim_space n = n" if "restoring st" using assms(4) that plain_name(3) by blast
  show ?thesis
  proof (cases "(en, n, a, st, s)" rule: stage_step.cases)
    case (1 en' n' a' k s1)
    then have "only_from n (sv_tables s)" "mixed n (marker_name (sv_files s)) UNIV (sv_tables s)"
      using assms(2) mixed_less(2) by (simp_all add: mixed_less(1)) (metis mixed_less(1,2))
    then show ?thesis using assms(1,3) 1 by (auto split: if_splits)
  next
    case (2 en' n' a' k src0 dest0 ps s1)
    let ?m = "marker_name (sv_files s)"
    have d: "(src0, dest0) \<in> set map_shadow_pairs" "set ps \<subseteq> set map_shadow_pairs" "mixed n ?m (insert dest0 (snd ` set ps)) (sv_tables s)"
      using assms(2) 2 by simp_all
    have t: "trim_space src0 = src0" "trim_space dest0 = dest0" using p d(1) by auto
    have "mixed n ?m (snd ` set ps) (gm_del dest0 (sv_tables s))" "mixed n ?m UNIV (sv_tables s)"
      using mixed_less(3) [OF d(3)] mixed_less(2) [OF d(3)] by simp_all
    moreover have "dest0 \<in> set shadow_names" using d(1) by (force simp: shadow_names_def)
    ultimately show ?thesis using assms(1,3) 2 t d(2) known_changes(1)
      by (auto split: if_splits exec_result.splits)
  next
    case (3 en' n' a' k src dest ps s1)
    let ?m = "marker_name (sv_files s)"
    have d: "dest \<in> set shadow_names" "set ps \<subseteq> set map_shadow_pairs" "mixed n ?m (snd ` set ps) (sv_tables s)"
      using assms(2) 3 by simp_all
    have "trim_space n = n" using tn 3 by simp
    then show ?thesis using assms(1,3) 3 d mixed_less(4) [OF d(3), of dest] mixed_less(2) [OF d(3)] known_changes(2) [OF assms(3) d(1)]
      by (auto split: exec_result.splits if_splits)
  next
    case (4 en' n' a' s1)
    then show ?thesis using assms marker_set(2) [OF assms(5)] by auto
  next
    case (5 en' n' a' e s1)
    then show ?thesis using assms marker_set(1) [OF assms(5)] by auto
  next
    case (6 en' n' a' e s1)
    then show ?thesis using assms by auto
  next
    case (7 en' n' a' e t ts s1)
    then show ?thesis using assms drop_one(1) by (auto split: sum.splits prod.splits)
  next
    case (8 en' n' a' s1)
    then show ?thesis using assms by auto
  next
    case (9 en' n' a' t ts s1)
    then show ?thesis using assms drop_one by (auto simp: finish_def split: sum.splits prod.splits)
  next
    case (10 en' n' a' s1)
    then show ?thesis using assms marker_set(1) [OF assms(5)] by auto
  qed
qed

lemma shadow_stage:
  assumes "shadow_inv w" "w_stage w = Some (n, a, st)" "marker_works en"
  shows "shadow_inv (job_step en w)"
proof -
  obtain st' s' where e: "stage_step en n a st (w_svc w) = (st', s')" by fastforce
  have r: "restoring st \<longrightarrow> backup_name_ok n" using assms(1,2) by (auto simp: shadow_inv_def attaching_def)
  have w': "job_step en w = w\<lparr>w_svc := s', w_stage := map_option (\<lambda>t. (n, a, t)) st'\<rparr>" using assms(2) e by (simp add: job_step_def)
  have "set (attaching (job_step en w)) \<subseteq> set (attaching w)"
    using stage_files_step(2,4) [OF e r] assms(2) by (auto simp: w' attaching_def split: option.splits)
  then have "\<forall>x \<in> set (attaching (job_step en w)). backup_name_ok x" using assms(1) by (auto simp: shadow_inv_def)
  moreover have "known_tables (sv_tables s') \<and>
      (case st' of
         None \<Rightarrow> marker_name (sv_files s') \<noteq> [] \<longrightarrow> only_from (marker_name (sv_files s')) (sv_tables s')
       | Some t \<Rightarrow> stage_tables n (marker_name (sv_files s')) t (sv_tables s'))"
    by (rule shadow_stage_step [OF e _ _ r assms(3)]) (use assms(1,2) in \<open>simp_all add: shadow_inv_def\<close>)
  ultimately show ?thesis by (cases st') (simp_all add: shadow_inv_def w')
qed

lemma shadow_begin:
  assumes "shadow_inv w" "w_stage w = None" "sv_job (w_svc w) = Some j"
  shows "shadow_inv (job_step en w)"
proof -
  let ?s = "(w_svc w)\<lparr>sv_job := None\<rparr>" and ?m = "marker_name (sv_files (w_svc w))" and ?tabs = "sv_tables (w_svc w)"
  have k: "known_tables ?tabs" "?m \<noteq> [] \<longrightarrow> only_from ?m ?tabs" "\<forall>n \<in> set (attaching w). backup_name_ok n"
    using assms(1,2) by (simp_all add: shadow_inv_def)
  show ?thesis
  proof (cases j)
    case (Create_job src a)
    have e: "created en (sv_files (w_svc w)) (sv_files (run_create en src a ?s))" "sv_job (run_create en src a ?s) = None"
      "sv_tables (run_create en src a ?s) = ?tabs"
      using run_create_effect [of en ?s src a] by simp_all
    have "marker_name (sv_files (run_create en src a ?s)) = ?m" by (rule marker_name_cong [OF created_marker [OF e(1)]])
    then show ?thesis using k e(2,3) assms(2,3) Create_job
      by (simp add: job_step_def job_begin_def shadow_inv_def attaching_def)
  next
    case (Attach_job n a)
    have "t \<in> snd ` set map_shadow_pairs" if "gm_get ?tabs t = Some b" for t b
      using k(1) that by (force simp: known_tables_def shadow_names_def)
    then have "mixed n ?m (snd ` set map_shadow_pairs) ?tabs" "mixed n ?m UNIV ?tabs"
      using k(2) by (auto simp: mixed_def only_from_def)
    then show ?thesis using k assms(2,3) Attach_job
      by (simp add: job_step_def job_begin_def shadow_inv_def attaching_def)
  next
    case (Detach_job n a)
    then show ?thesis using k assms(2,3) by (simp add: job_step_def job_begin_def shadow_inv_def attaching_def)
  qed
qed

lemma shadow_kept:
  assumes "shadow_inv w" "w_stage w' = w_stage w" "sv_tables (w_svc w') = sv_tables (w_svc w)"
    "marker_name (sv_files (w_svc w')) = marker_name (sv_files (w_svc w))" "\<forall>n \<in> set (attaching w'). backup_name_ok n"
  shows "shadow_inv w'"
  using assms by (cases "w_stage w") (auto simp: shadow_inv_def)

lemma request_shadow:
  assumes "shadow_inv w" "same_core (w_svc w) s' \<or> job_accepted (w_svc w) j s'" "\<And>n a. j = Attach_job n a \<Longrightarrow> backup_name_ok n"
    "w_svc w' = s'" "w_stage w' = w_stage w" "set (w_attaches w') \<subseteq> set (w_attaches w)"
  shows "shadow_inv w'"
proof (rule shadow_kept [OF assms(1,5)])
  have "set (attaching w') \<subseteq> set (attaching w) \<union> {n. \<exists>a. j = Attach_job n a}" using assms(2)
  proof
    assume "same_core (w_svc w) s'"
    then show ?thesis using assms(4-6) by (auto simp: attaching_def same_core_def)
  next
    assume "job_accepted (w_svc w) j s'"
    then show ?thesis using assms(4-6) by (cases j) (auto simp: attaching_def job_accepted_def)
  qed
  then show "\<forall>n \<in> set (attaching w'). backup_name_ok n" using assms(1,3) by (auto simp: shadow_inv_def)
qed (use assms(2,4) in \<open>auto simp: same_core_def job_accepted_def\<close>)

lemma shadow_step:
  assumes "world_step marker_works (\<lambda>_ _. True) w w'" "shadow_inv w"
  shows "shadow_inv w'"
proof -
  obtain en op where w': "w' = world_do en op w" and ok: "marker_works en" using assms(1) by (rule world_stepE)
  note kept = request_kept [where en = en and s = "w_svc w"] and req = request_shadow [OF assms(2)]
  have names: "\<forall>n \<in> set (attaching w). backup_name_ok n" using assms(2) by (simp add: shadow_inv_def)
  show ?thesis
  proof (cases op)
    case W_tick
    then show ?thesis using kept(1) req [of "w_svc w'" _ w'] by (fastforce simp: w')
  next
    case (W_create src a)
    then show ?thesis using kept(2) [of src a] req [of "w_svc w'" _ w'] by (fastforce simp: w')
  next
    case (W_attach n a)
    have "backup_name_ok n" if "n \<in> set (w_attaches w)" using names that by (simp add: attaching_def)
    then have "shadow_inv w'" if "n \<in> set (w_attaches w)"
      using req [OF kept(3) [of n a], of w'] that by (auto simp: w' W_attach dest: set_remove1_subset [THEN subsetD])
    then show ?thesis using assms(2) by (cases "n \<in> set (w_attaches w)") (simp_all add: w' W_attach)
  next
    case (W_detach n a)
    have "shadow_inv w'" if "n \<in> set (w_detaches w)" using req [OF kept(4) [of n a], of w'] that by (simp add: w' W_detach)
    then show ?thesis using assms(2) by (cases "n \<in> set (w_detaches w)") (simp_all add: w' W_detach)
  next
    case W_job
    then show ?thesis using shadow_stage [OF assms(2) _ ok] shadow_begin [OF assms(2)] assms(2)
      by (cases "w_stage w"; cases "sv_job (w_svc w)") (auto simp: w' job_step_def split: prod.splits)
  next
    case (W_delete n a)
    have c: "same_core ((w_svc w)\<lparr>sv_files := snd (delete_files (bv_store en) n (sv_files (w_svc w)))\<rparr>)
        (snd (delete_commit en n a (w_svc w)))" by (rule delete_commit_core)
    have "marker_name (snd (delete_files (bv_store en) n fs)) = marker_name fs" for fs
      by (rule marker_name_cong) (simp add: delete_files_def)
    then have "shadow_inv w'" if "n \<in> set (w_deletes w)"
      by (intro shadow_kept [OF assms(2)]) (use c that names in \<open>simp_all add: w' W_delete same_core_def attaching_def\<close>)
    then show ?thesis using assms(2) by (cases "n \<in> set (w_deletes w)") (simp_all add: w' W_delete)
  next
    case (W_check_attach n)
    then show ?thesis using attach_allowed [of en n "w_svc w"] names assms(2)
      by (cases "attach_checks en n (w_svc w)") (auto simp: w' attaching_def intro!: shadow_kept [OF assms(2)])
  next
    case (W_check_delete n)
    then show ?thesis using names assms(2)
      by (cases "delete_checks en n (w_svc w)") (auto simp: w' attaching_def intro!: shadow_kept [OF assms(2)])
  next
    case (W_check_detach n)
    then show ?thesis using names assms(2)
      by (cases "detach_checks en n (w_svc w)") (auto simp: w' attaching_def intro!: shadow_kept [OF assms(2)])
  next
    case (W_update sch a)
    then show ?thesis using req [of "w_svc w'" "Create_job [] []" w'] by (simp add: w')
  next
    case W_catalog
    then show ?thesis using req [of "w_svc w'" "Create_job [] []" w'] by (simp add: w')
  qed
qed

interpretation shadow_sys: invariant_system shadow_inv "world_step marker_works (\<lambda>_ _. True)" shadow_inv
  using shadow_step by unfold_locales simp_all


section \<open>A job on its own\<close>

text \<open>Stages of a job in one environment, with no step of another request between them.\<close>

definition alone :: "backup_env \<Rightarrow> string \<Rightarrow> string \<Rightarrow> job_stage \<times> backup_service \<Rightarrow> job_stage \<times> backup_service \<Rightarrow> bool" where
  "alone en n a x y \<longleftrightarrow> stage_step en n a (fst x) (snd x) = (Some (fst y), snd y)"

lemma alone_first: "stage_step en n a st s = (Some st', s') \<Longrightarrow> (alone en n a)\<^sup>*\<^sup>* (st', s') z \<Longrightarrow> (alone en n a)\<^sup>*\<^sup>* (st, s) z"
  by (rule converse_rtranclp_into_rtranclp) (simp_all add: alone_def)

text \<open>Then the stages do what \<^verbatim>\<open>RestoreTablesAs\<close> and \<^verbatim>\<open>DropTables\<close> do in one call.\<close>

lemma restore_alone:
  assumes "restore_pairs (bv_exec en) (trim_space n) k ps (sv_tables s) = (r, tabs)"
  shows "(alone en n a)\<^sup>*\<^sup>* (Restore_drop k ps, s) (case_sum Undo_marker (\<lambda>_. Write_marker) r, s\<lparr>sv_tables := tabs\<rparr>)"
  using assms
proof (induction ps arbitrary: k s)
  case Nil
  then show ?case by (auto simp: alone_def split: if_splits intro!: r_into_rtranclp)
next
  case (Cons p ps)
  obtain src0 dest0 where p: "p = (src0, dest0)" by fastforce
  let ?src = "trim_space src0" and ?dest = "trim_space dest0" and ?n = "trim_space n"
  let ?s1 = "s\<lparr>sv_tables := gm_del ?dest (sv_tables s)\<rparr>"
  note prem = Cons.prems [unfolded p, simplified, unfolded Let_def]
  show ?case
  proof (cases "?src = [] \<or> ?dest = [] \<or> \<not> safe_ident ?src \<or> \<not> safe_ident ?dest \<or> bv_exec en (drop_table_sql ?dest) \<noteq> Exec_ok")
    case True
    then show ?thesis using prem unfolding p
      by - (rule alone_first [OF _ rtranclp.rtrancl_refl], (auto simp: Let_def split: if_splits exec_result.splits))
  next
    case False
    then have one: "stage_step en n a (Restore_drop k (p # ps)) s = (Some (Restore_copy k ?src ?dest ps), ?s1)"
      by (simp add: p Let_def)
    have rest: "(alone en n a)\<^sup>*\<^sup>* (Restore_copy k ?src ?dest ps, ?s1) (case_sum Undo_marker (\<lambda>_. Write_marker) r, s\<lparr>sv_tables := tabs\<rparr>)"
    proof (cases "bv_exec en (restore_table_as_sql ?src ?dest ?n)")
      case Exec_ok
      then show ?thesis using False prem
          Cons.IH [of "Suc k" "s\<lparr>sv_tables := gm_put ?dest ?n (gm_del ?dest (sv_tables s))\<rparr>"]
        by - (rule alone_first [where st' = "Restore_drop (Suc k) ps"], simp_all)
    next
      case (Exec_err e)
      show ?thesis
      proof (cases "missing_backup_object e")
        case True
        then show ?thesis using False prem Exec_err Cons.IH [of k ?s1]
          by - (rule alone_first [where st' = "Restore_drop k ps" and s' = ?s1], simp_all)
      next
        case bad: False
        then show ?thesis using False prem Exec_err by - (rule alone_first [OF _ rtranclp.rtrancl_refl], auto)
      qed
    qed
    show ?thesis by (rule alone_first [OF one rest])
  qed
qed

lemma drop_alone:
  "drop_tables (bv_exec en) ts (sv_tables s) = (Inr u, tabs) \<Longrightarrow>
   (alone en n a)\<^sup>*\<^sup>* (Detach_drop ts, s) (Detach_marker, s\<lparr>sv_tables := tabs\<rparr>)"
proof (induction ts arbitrary: s)
  case (Cons t ts)
  let ?s1 = "s\<lparr>sv_tables := gm_del (trim_space t) (sv_tables s)\<rparr>"
  have t: "trim_space t \<noteq> []" "safe_ident (trim_space t)" "bv_exec en (drop_table_sql (trim_space t)) = Exec_ok"
    "drop_tables (bv_exec en) ts (sv_tables ?s1) = (Inr u, tabs)"
    using Cons.prems by (simp_all add: Let_def split: if_splits exec_result.splits)
  have "stage_step en n a (Detach_drop (t # ts)) s = (Some (Detach_drop ts), ?s1)" using t(1-3) by (simp add: Let_def)
  moreover have "(alone en n a)\<^sup>*\<^sup>* (Detach_drop ts, ?s1) (Detach_marker, s\<lparr>sv_tables := tabs\<rparr>)" using Cons.IH [OF t(4)] by simp
  ultimately show ?case by (rule alone_first)
next
  case Nil
  then show ?case by (auto simp: alone_def intro!: r_into_rtranclp)
qed

text \<open>Every step of a job leaves less to do, whatever happens between the steps and whatever fails.\<close>

fun stage_left :: "job_stage \<Rightarrow> nat" where
  "stage_left (Restore_drop k ps) = 2 * length ps + 9" | "stage_left (Restore_copy k src dest ps) = 2 * length ps + 10"
| "stage_left Write_marker = 0" | "stage_left (Undo_marker e) = 8" | "stage_left (Undo_drop e ts) = length ts"
| "stage_left (Detach_drop ts) = length ts + 1" | "stage_left Detach_marker = 0"

lemma stages_end: "stage_step en n a st s = (Some st', s') \<Longrightarrow> stage_left st' < stage_left st"
  by (cases "(en, n, a, st, s)" rule: stage_step.cases)
    (auto simp: Let_def map_shadow_pairs_def split: if_splits exec_result.splits sum.splits prod.splits)

section \<open>Pruning\<close>

lemma gm_del_dir [simp]: "has_dir (prune_one en n fs) m = (has_dir fs m \<and> \<not> (m = n \<and> se_removed en n))"
  by (auto simp: prune_one_def has_dir_def)

lemma prune_from_dirs:
  assumes "\<And>n. se_removed en n"
  shows "has_dir (prune_from en att keep kept es fs) n \<longleftrightarrow>
    has_dir fs n \<and> n \<notin> en_name ` set (drop (nat (keep - kept)) (filter (\<lambda>e. en_name e \<noteq> att) es))"
  using assms
proof (induction en att keep kept es fs rule: prune_from.induct)
  case (2 en att keep kept e es fs)
  show ?case
  proof (cases "en_name e = att \<or> kept + 1 \<le> keep")
    case True
    then show ?thesis
    proof (cases "en_name e = att")
      case False
      then have "nat (keep - kept) = Suc (nat (keep - (kept + 1)))" using True by linarith
      then show ?thesis using "2.IH"(2) False True "2.prems" by simp
    qed (use "2.IH"(1) "2.prems" in simp)
  next
    case False
    then have "nat (keep - kept) = 0" "nat (keep - (kept + 1)) = 0" by simp_all
    then show ?thesis using "2.IH"(3) False "2.prems" by auto
  qed
qed simp

text \<open>C16: On a mounted volume whose marker and directories can be read and where every removal succeeds, pruning keeps
  the attached backup and the newest \<open>keep\<close> of the others (at least one), and removes every other
  listed backup and nothing else: no backup that is kept for its age is older than one that is removed. When the marker cannot be
  read the attached backup is pruned like any other: \<open>prune_without_marker\<close>.\<close>
theorem prune_exact:
  assumes "slice_sorter entry_le (se_sort en)" "list_backups en fs = Inr es" "se_ready en" "se_marker_ok en"
    "\<And>n. se_removed en n" "others = filter (\<lambda>e. en_name e \<noteq> marker_name fs) es"
  shows "fst (prune en keep fs) = Inr () \<and>
    (\<forall>n. has_dir (snd (prune en keep fs)) n \<longleftrightarrow> has_dir fs n \<and> n \<notin> en_name ` set (drop (nat (max 1 keep)) others)) \<and>
    (\<forall>e \<in> set (take (nat (max 1 keep)) others). \<forall>f \<in> set (drop (nat (max 1 keep)) others). en_created f \<le> en_created e)"
proof -
  let ?k = "nat (max 1 keep)"
  have "(if keep < 1 then 1 else keep) = max 1 keep" by simp
  then have "prune en keep fs = (Inr (), prune_from en (marker_name fs) (max 1 keep) 0 es fs)"
    using assms by (simp add: prune_def attached_marker Let_def)
  moreover have "sorted_wrt entry_le es"
    using slice_sorter.srt_sorted [OF assms(1)] assms(2,3) by (auto simp: list_backups_def split: if_splits)
  then have "sorted_wrt entry_le (take ?k others @ drop ?k others)" by (simp add: assms(6) sorted_wrt_filter)
  then have "\<forall>e \<in> set (take ?k others). \<forall>f \<in> set (drop ?k others). en_created f \<le> en_created e"
    unfolding sorted_wrt_append entry_le_def by blast
  ultimately show ?thesis using prune_from_dirs [of en "marker_name fs" "max 1 keep" 0 es fs, OF assms(5)] by (simp add: assms(6))
qed

section \<open>Names\<close>

lemma zone_shape:
  assumes "\<bar>off\<bar> \<le> 86400"
  shows "zone_layout off = ''Z'' \<or> length (zone_layout off) = 5 \<and> hd (zone_layout off) \<in> {CHR ''+'', CHR ''-''} \<and>
    list_all is_digit (tl (zone_layout off))"
proof -
  define zm where "zm = (if off < 0 then - (- off div 60) else off div 60)"
  have "\<bar>zm\<bar> \<le> 1440"
    using assms zdiv_mono1 [of "\<bar>off\<bar>" 86400 60] pos_imp_zdiv_nonneg_iff [of 60 "\<bar>off\<bar>"] by (auto simp: zm_def abs_if split: if_splits)
  then have "0 \<le> \<bar>zm\<bar> div 60" "\<bar>zm\<bar> div 60 < 100" "0 \<le> \<bar>zm\<bar> mod 60" "\<bar>zm\<bar> mod 60 < 100"
    using zdiv_mono1 [of "\<bar>zm\<bar>" 1440 60] pos_mod_bound [of 60 "\<bar>zm\<bar>"] by simp_all
  note d = digits_two [OF this(1,2)] digits_two [OF this(3,4)]
  have "zone_layout off = (if off = 0 then ''Z'' else (if zm < 0 then ''-'' else ''+'') @ two (\<bar>zm\<bar> div 60) @ two (\<bar>zm\<bar> mod 60))"
    by (simp add: zone_layout_def Let_def zm_def)
  then show ?thesis using d by auto
qed

text \<open>C17: The name of a new backup is one that the store lists, and the time read back from it is the time of its
  creation, to the second, in every time zone whose offset is a whole number of minutes and at most a day.\<close>
theorem backup_name_roundtrip:
  assumes "z = (if trim_space timezone = [] then utc else zone_or_utc tz (trim_space timezone))"
    "civil (local_day z now) = (y, m, d)" "0 \<le> y" "y < 10000" "\<bar>z (now div second)\<bar> \<le> 86400" "z (now div second) mod 60 = 0"
  shows "backup_name_ok (format_backup_name tz now timezone) \<and>
    parse_backup_name_time (format_backup_name tz now timezone) = Some (now div second * second)"
proof -
  have f: "format_backup_name tz now timezone = ''ga-'' @ stamp_layout z now"
    using assms(1) by (simp add: format_backup_name_def Let_def)
  have p: "parse_stamp (stamp_layout z now) = Some (now div second * second)" by (rule parse_stamp_layout [OF assms(2-6)])
  let ?t = "stamp_layout z now"
  have "\<not> length ?t < 16" "list_all is_digit (take 8 ?t)" "list_all is_digit (take 6 (drop 9 ?t))" "?t ! 8 = CHR ''T''"
    using p by (auto simp: parse_stamp_def Let_def split: if_splits)
  moreover have e: "drop 15 ?t = zone_layout (z (now div second))"
    using assms(2) by (simp add: stamp_layout_def Let_def four_def)
  moreover from e have "length (zone_layout (z (now div second))) = length ?t - 15" using length_drop by metis
  ultimately show ?thesis using zone_shape [OF assms(5)] p
    by (simp add: f backup_name_ok_def Let_def has_prefix_def parse_backup_name_time_def not_less)
qed

section \<open>Where the code does less\<close>

text \<open>When the marker cannot be written after the tables were restored, the old name stays with the new tables.\<close>

lemma failed_marker_keeps_old_name:
  assumes "only_from n (sv_tables s)" "backup_name_ok n" "se_ready (bv_store en)" "se_marker_write (bv_store en) = W_kept"
  shows "marker_name (sv_files (attach_marked en n actor s)) = marker_name (sv_files s)"
    "only_from n (sv_tables (attach_marked en n actor s))"
  using assms plain_name(2,3) [OF assms(2)] by (simp_all add: set_attached_def plain_write_def Let_def marker_name_def)

text \<open>When the marker cannot be read, pruning treats the attached backup as any other.\<close>

lemma prune_without_marker:
  assumes "list_backups en fs = Inr es" "se_ready en" "\<not> se_marker_ok en" "bf_marker fs \<noteq> None" "\<And>n. se_removed en n"
  shows "has_dir (snd (prune en keep fs)) n \<longleftrightarrow>
    has_dir fs n \<and> n \<notin> en_name ` set (drop (nat (max 1 keep)) (filter (\<lambda>e. en_name e \<noteq> []) es))"
proof -
  have "(if keep < 1 then 1 else keep) = max 1 keep" by simp
  then have "prune en keep fs = (Inr (), prune_from en [] (max 1 keep) 0 es fs)"
    using assms by (simp add: prune_def attached_def Let_def)
  then show ?thesis using prune_from_dirs [of en "[]" "max 1 keep" 0 es fs, OF assms(5)] by simp
qed

text \<open>A scheduled run that does not get the heavy slot leaves the day marked as fired.\<close>

lemma heavy_failure_keeps_day:
  "\<not> bv_heavy en \<Longrightarrow> sv_fire (run_create en source_schedule actor s) = sv_fire s"
  by (simp add: run_create_def finish_def set_status_def)

text \<open>While the volume is not mounted, reading the schedule forgets the run of the day.\<close>

lemma unmounted_volume_forgets_run:
  assumes "\<not> se_ready (bv_store en)"
  shows "bs_last_date (fst (drop_stale_run en sch s)) = []"
  using assms by (simp add: drop_stale_run_def list_backups_def split_beta Let_def)

section \<open>Concrete runs\<close>

definition demo_backup :: string where "demo_backup = ''ga-20250115T023000+0300''"

definition demo_volume :: backup_files where
  "demo_volume = \<lparr>bf_dirs = [(demo_backup, \<lparr>bd_modified = 0, bd_size = 5\<rparr>)], bf_sources = [], bf_auth = [], bf_marker = None\<rparr>"

definition demo_backup_store :: store_env where
  "demo_backup_store = \<lparr>se_ready = True, se_list_ok = True, se_info_ok = (\<lambda>_. True), se_marker_ok = True, se_removed = (\<lambda>_. True),
     se_marker_write = W_done, se_source_write = W_done, se_sort = sort_by entry_le\<rparr>"

definition demo_backup_env :: backup_env where
  "demo_backup_env = \<lparr>bv_tz = (\<lambda>_. Some (\<lambda>_. 10800)), bv_now = 0, bv_end = 1, bv_store = demo_backup_store, bv_enc = (\<lambda>_. None),
     bv_dec = (\<lambda>_. None), bv_readable = True, bv_write = Written, bv_rfc = (\<lambda>_. []), bv_heavy = True, bv_exists = (\<lambda>_. Some True),
     bv_exec = (\<lambda>_. Exec_ok), bv_cancelled = False, bv_tarball = (True, None), bv_dir = \<lparr>bd_modified = 1, bd_size = 9\<rparr>\<rparr>"

definition demo_backup_opts :: backup_options where
  "demo_backup_opts = \<lparr>bo_enabled = True, bo_data_dir = [], bo_keep = 7, bo_edges = True, bo_auth = False\<rparr>"

definition demo_backup_service :: backup_service where
  "demo_backup_service = new_backup_service demo_backup_opts (new_json_store [] no_schedule None None) (\<lambda>_. None) demo_volume []"

text \<open>A run of the service in one environment, as long as \<open>G\<close> allows its steps.\<close>

primrec play :: "(backup_world \<Rightarrow> world_op \<Rightarrow> bool) \<Rightarrow> backup_env \<Rightarrow> world_op list \<Rightarrow> backup_world \<Rightarrow> backup_world option" where
  "play G en [] w = Some w"
| "play G en (op # ops) w = (if G w op then play G en ops (world_do en op w) else None)"

lemma play_steps: "play G en ops w = Some w' \<Longrightarrow> P en \<Longrightarrow> (world_step P G)\<^sup>*\<^sup>* w w'"
proof (induction ops arbitrary: w)
  case (Cons op ops)
  then have "world_step P G w (world_do en op w)" by (auto intro: world_step.intros split: if_splits)
  with Cons show ?case by (auto split: if_splits intro: converse_rtranclp_into_rtranclp)
qed simp

definition attach_all :: "string \<Rightarrow> nat \<Rightarrow> world_op list" where
  "attach_all n k = [W_check_attach n, W_attach n ''root''] @ replicate k W_job"

definition demo_attached :: backup_world where
  "demo_attached = the (play apart demo_backup_env (attach_all demo_backup 15) (new_world demo_backup_service))"

lemma demo_name: "backup_name_ok demo_backup"
  by code_simp

lemma demo_result:
  "map_option (\<lambda>w. (bf_marker (sv_files (w_svc w)), sv_tables (w_svc w), w_stage w))
     (play apart demo_backup_env (attach_all demo_backup 15) (new_world demo_backup_service)) =
   Some (Some (demo_backup @ [byte 10]), map (\<lambda>p. (snd p, demo_backup)) map_shadow_pairs, None)"
  by code_simp

lemma demo_runs:
  "play apart demo_backup_env (attach_all demo_backup 15) (new_world demo_backup_service) = Some demo_attached"
  "bf_marker (sv_files (w_svc demo_attached)) = Some (demo_backup @ [byte 10])"
  "marker_name (sv_files (w_svc demo_attached)) = demo_backup"
proof -
  obtain w where w: "play apart demo_backup_env (attach_all demo_backup 15) (new_world demo_backup_service) = Some w"
    "bf_marker (sv_files (w_svc w)) = Some (demo_backup @ [byte 10])"
    using demo_result by (auto simp: map_option_case split: option.splits)
  have "marker_name (demo_volume\<lparr>bf_marker := Some (demo_backup @ [byte 10])\<rparr>) = demo_backup" by code_simp
  with w show "play apart demo_backup_env (attach_all demo_backup 15) (new_world demo_backup_service) = Some demo_attached"
    "bf_marker (sv_files (w_svc demo_attached)) = Some (demo_backup @ [byte 10])"
    "marker_name (sv_files (w_svc demo_attached)) = demo_backup"
    by (simp_all add: demo_attached_def marker_name_def)
qed

lemma demo_facts:
  "marker_ok demo_volume" "marker_readable demo_backup_env" "marker_works demo_backup_env"
  by (simp_all add: marker_ok_def marker_name_def demo_volume_def marker_readable_def marker_works_def demo_backup_env_def demo_backup_store_def)

lemma attached_backup_exists_witness:
  "attached demo_backup_store (sv_files (w_svc demo_attached)) = Inr demo_backup \<and>
   backup_exists demo_backup_store (sv_files (w_svc demo_attached)) demo_backup"
proof -
  have "attached demo_backup_store (sv_files (w_svc demo_attached)) = Inr demo_backup"
    using attached_marker [of demo_backup_store] demo_runs(3) by (simp add: demo_backup_store_def)
  then show ?thesis
    using attached_backup_exists [OF play_steps [where P = marker_readable, OF demo_runs(1) [unfolded demo_backup_service_def]]]
      demo_facts(1,2) by (simp add: demo_backup_def)
qed

text \<open>While the second backup is attached in place of the first: the marker names the first, and the first table holds the second.\<close>

definition other_backup :: string where "other_backup = ''ga-20250114T023000+0300''"

definition demo_change :: backup_world where
  "demo_change = new_world (new_backup_service demo_backup_opts (new_json_store [] no_schedule None None) (\<lambda>_. None)
     (demo_volume\<lparr>bf_dirs := bf_dirs demo_volume @ [(other_backup, \<lparr>bd_modified = 0, bd_size = 5\<rparr>)], bf_marker := Some demo_backup\<rparr>)
     [(''ga_bak_traffic_logs'', demo_backup)])"

definition demo_changing :: backup_world where
  "demo_changing = the (play (\<lambda>_ _. True) demo_backup_env (attach_all other_backup 3) demo_change)"

lemma demo_changing_result:
  "map_option (\<lambda>w. (bf_marker (sv_files (w_svc w)), sv_tables (w_svc w), map_option (\<lambda>x. (fst x, restoring (snd (snd x)))) (w_stage w)))
     (play (\<lambda>_ _. True) demo_backup_env (attach_all other_backup 3) demo_change) =
   Some (Some demo_backup, [(''ga_bak_traffic_logs'', other_backup)], Some (other_backup, True))"
  by code_simp

lemma attach_mixes_tables:
  "play (\<lambda>_ _. True) demo_backup_env (attach_all other_backup 3) demo_change = Some demo_changing"
  "attached demo_backup_store (sv_files (w_svc demo_changing)) = Inr demo_backup"
  "gm_get (sv_tables (w_svc demo_changing)) ''ga_bak_traffic_logs'' = Some other_backup"
proof -
  obtain w where w: "play (\<lambda>_ _. True) demo_backup_env (attach_all other_backup 3) demo_change = Some w"
    "bf_marker (sv_files (w_svc w)) = Some demo_backup" "sv_tables (w_svc w) = [(''ga_bak_traffic_logs'', other_backup)]"
    using demo_changing_result by (auto simp: map_option_case split: option.splits)
  then have c: "demo_changing = w" by (simp add: demo_changing_def)
  have "marker_name (demo_volume\<lparr>bf_marker := Some demo_backup\<rparr>) = demo_backup" by code_simp
  then have "marker_name (sv_files (w_svc w)) = demo_backup" using w(2) by (simp add: marker_name_def)
  then show "play (\<lambda>_ _. True) demo_backup_env (attach_all other_backup 3) demo_change = Some demo_changing"
    "attached demo_backup_store (sv_files (w_svc demo_changing)) = Inr demo_backup"
    "gm_get (sv_tables (w_svc demo_changing)) ''ga_bak_traffic_logs'' = Some other_backup"
    using w c attached_marker [of demo_backup_store] by (simp_all add: demo_backup_store_def)
qed


text \<open>A deletion that passed its checks before the backup was attached removes it afterwards; the marker still names it.\<close>

lemma delete_races_attach:
  "map_option (\<lambda>w. (bf_marker (sv_files (w_svc w)), bf_dirs (sv_files (w_svc w))))
     (play (\<lambda>_ _. True) demo_backup_env ([W_check_delete demo_backup] @ attach_all demo_backup 15 @ [W_delete demo_backup ''root''])
       (new_world demo_backup_service)) = Some (Some (demo_backup @ [byte 10]), [])"
  by code_simp

definition demo_names :: "string list" where
  "demo_names = [''ga-20250115T023000+0300'', ''ga-20250114T023000+0300'', ''ga-20250113T023000+0300'', ''ga-20250112T023000+0300'']"

definition demo_volume4 :: backup_files where
  "demo_volume4 = \<lparr>bf_dirs = map (\<lambda>n. (n, \<lparr>bd_modified = 0, bd_size = 5\<rparr>)) demo_names, bf_sources = [], bf_auth = [],
     bf_marker = Some (demo_names ! 3)\<rparr>"

lemma prune_exact_witness:
  "map (has_dir (snd (prune demo_backup_store 2 demo_volume4))) demo_names = [True, True, False, True]"
proof -
  let ?es = "map (entry_of demo_volume4) (bf_dirs demo_volume4)"
  have l: "list_backups demo_backup_store demo_volume4 = Inr ?es" by code_simp
  have m: "marker_name demo_volume4 = demo_names ! 3" by code_simp
  have "demo_names ! 2 \<in> en_name ` set (drop 2 (filter (\<lambda>e. en_name e \<noteq> demo_names ! 3) ?es))"
    "\<forall>i \<in> {0, 1, 3}. has_dir demo_volume4 (demo_names ! i) \<and>
      demo_names ! i \<notin> en_name ` set (drop 2 (filter (\<lambda>e. en_name e \<noteq> demo_names ! 3) ?es))" by code_simp+
  moreover have "map f demo_names = map (\<lambda>i. f (demo_names ! i)) [0, 1, 2, 3]" for f :: "string \<Rightarrow> bool"
    by (simp add: demo_names_def)
  moreover have "slice_sorter entry_le (se_sort demo_backup_store)" "se_ready demo_backup_store" "se_marker_ok demo_backup_store" "se_removed demo_backup_store n" for n
    by (simp_all add: demo_backup_store_def entry_sort.slice_sorter_axioms)
  ultimately show ?thesis using prune_exact [OF _ l _ _ _ refl, of 2] m by simp
qed

lemma backup_name_roundtrip_witness:
  "let now = date_in (\<lambda>_. 10800) (date_days 2025 1 15) 2 30; name = format_backup_name (\<lambda>_. Some (\<lambda>_. 10800)) now ''MSK'' in
   backup_name_ok name \<and> parse_backup_name_time name = Some now"
proof -
  let ?now = "date_in (\<lambda>_. 10800) (date_days 2025 1 15) 2 30"
  have "civil (local_day (\<lambda>_. 10800) ?now) = (2025, 1, 15)" "?now div second * second = ?now"
    "trim_space ''MSK'' = ''MSK''" by code_simp+
  then show ?thesis
    using backup_name_roundtrip [of "\<lambda>_. 10800" "''MSK''" "\<lambda>_. Some (\<lambda>_. 10800)" ?now 2025 1 15]
    by (simp add: zone_or_utc_def Let_def)
qed

end
