(* ===== verification/Geo_Service.thy ===== *)
theory Geo_Service
  imports Geo_Codec Files Map_Agg
begin

text \<open>
  The GeoIP service: the table \<^verbatim>\<open>geo_ranges\<close> and its replacement through a staging table
  (\<^verbatim>\<open>adapter/clickhouse/geostore/geo_ranges.go\<close>, \<^verbatim>\<open>chexchange\<close>), the index that is reloaded from the table or from its
  file (\<^verbatim>\<open>geostore/geo_index.go\<close>) and the requests that change both (\<^verbatim>\<open>usecase/geo/service.go\<close>). The outcomes of
  statements and writes are inputs; a statement that fails changes nothing. \<^verbatim>\<open>ORDER BY start_ip, end_ip\<close> and
  \<^verbatim>\<open>sort.Slice\<close> are the argument \<open>srt\<close> under the contract \<open>slice_sorter geo_le\<close>.
\<close>

section \<open>The table: geo\_ranges.go, chexchange\<close>

record geo_table =
  tb_live :: "geo_range list"
  tb_staging :: "geo_range list option"

definition insert_batch :: nat where "insert_batch = 25000"

text \<open>
  \<open>te_row\<close>: the context still holds, a batch was prepared and the row appended; \<open>te_send\<close>: the batch that ends with
  this row (or the last one, at the number of rows) was sent; \<open>te_count\<close>: the query of the count succeeded.
\<close>

record table_env =
  te_drop :: bool
  te_create :: bool
  te_row :: "nat \<Rightarrow> bool"
  te_send :: "nat \<Rightarrow> bool"
  te_count :: bool
  te_exchange :: bool
  te_cleanup :: bool
  te_truncate :: bool
  te_select :: bool

datatype table_err = No_ranges | Create_failed | Insert_failed | Count_failed | Count_mismatch | Exchange_failed | Query_failed | Truncate_failed

fun insert_rows :: "table_env \<Rightarrow> nat \<Rightarrow> geo_range list \<Rightarrow> geo_range list \<Rightarrow> geo_range list \<Rightarrow> bool \<times> geo_range list" where
  "insert_rows en i pend [] staging =
     (if pend = [] then (True, staging) else if te_send en i then (True, staging @ pend) else (False, staging))"
| "insert_rows en i pend (r # rs) staging =
     (if \<not> te_row en i then (False, staging)
      else if (i + 1) mod insert_batch = 0 then
        (if te_send en i then insert_rows en (i + 1) [] rs (staging @ pend @ [r]) else (False, staging))
      else insert_rows en (i + 1) (pend @ [r]) rs staging)"

definition drop_staging :: "bool \<Rightarrow> geo_table \<Rightarrow> geo_table" where
  "drop_staging ok t = (if ok then t\<lparr>tb_staging := None\<rparr> else t)"

text \<open>\<^verbatim>\<open>ReplaceViaStaging\<close> with the error and the rows that filling the staging table leaves.\<close>

definition replace_via_staging ::
  "table_env \<Rightarrow> table_err option \<times> geo_range list \<Rightarrow> geo_table \<Rightarrow> table_err option \<times> geo_table" where
  "replace_via_staging en fill t =
     (let t1 = drop_staging (te_drop en) t in
      if \<not> te_create en \<or> tb_staging t1 \<noteq> None then (Some Create_failed, t1)
      else
        let (err, rows') = fill; t2 = t1\<lparr>tb_staging := Some rows'\<rparr> in
        if err \<noteq> None then (err, drop_staging (te_cleanup en) t2)
        else if \<not> te_exchange en then (Some Exchange_failed, drop_staging (te_cleanup en) t2)
        else (None, drop_staging (te_cleanup en) \<lparr>tb_live = rows', tb_staging = Some (tb_live t2)\<rparr>))"

definition fill_staging :: "table_env \<Rightarrow> geo_range list \<Rightarrow> table_err option \<times> geo_range list" where
  "fill_staging en ranges =
     (let (ok, rows') = insert_rows en 0 [] ranges [] in
      (if \<not> ok then Some Insert_failed
       else if \<not> te_count en then Some Count_failed
       else if length rows' \<noteq> length ranges then Some Count_mismatch
       else None, rows'))"

definition replace_geo_ranges :: "table_env \<Rightarrow> geo_range list \<Rightarrow> geo_table \<Rightarrow> (table_err + nat) \<times> geo_table" where
  "replace_geo_ranges en ranges t =
     (if ranges = [] then (Inl No_ranges, t)
      else case replace_via_staging en (fill_staging en ranges) t of
        (Some e, t') \<Rightarrow> (Inl e, t')
      | (None, t') \<Rightarrow> (Inr (length ranges), t'))"

definition truncate_geo_ranges :: "table_env \<Rightarrow> geo_table \<Rightarrow> (table_err + unit) \<times> geo_table" where
  "truncate_geo_ranges en t =
     (if \<not> te_truncate en then (Inl Truncate_failed, t)
      else (Inr (), drop_staging (te_cleanup en) (t\<lparr>tb_live := []\<rparr>)))"

type_synonym geo_sort = "geo_range list \<Rightarrow> geo_range list"

definition load_geo_ranges :: "geo_sort \<Rightarrow> table_env \<Rightarrow> geo_table \<Rightarrow> table_err + geo_range list" where
  "load_geo_ranges srt en t = (if te_select en then Inr (srt (tb_live t)) else Inl Query_failed)"

definition load_geo_snapshot :: "geo_sort \<Rightarrow> table_env \<Rightarrow> geo_table \<Rightarrow> table_err + built_snapshot" where
  "load_geo_snapshot srt en t = (if te_select en then Inr (build (add_all (srt (tb_live t)))) else Inl Query_failed)"

definition count_geo_ranges :: "table_env \<Rightarrow> geo_table \<Rightarrow> table_err + nat" where
  "count_geo_ranges en t = (if te_count en then Inr (length (tb_live t)) else Inl Query_failed)"

text \<open>The aggregates of \<^verbatim>\<open>QuerySourceStamp\<close>\<close>

definition query_source_stamp :: "table_env \<Rightarrow> geo_table \<Rightarrow> source_stamp option" where
  "query_source_stamp en t = (if te_count en then Some (aggregates (tb_live t)) else None)"

definition find_geo_range_by_ip :: "geo_sort \<Rightarrow> table_env \<Rightarrow> string \<Rightarrow> geo_table \<Rightarrow> table_err + geo_range option" where
  "find_geo_range_by_ip srt en str t =
     (let v4 = to4 (parse_ip (trim_space str)) in
      if v4 = [] then Inr None
      else if \<not> te_select en then Inl Query_failed
      else Inr (find (\<lambda>g. start_ip g \<le> ipv4_to_uint32 v4 \<and> end_ip g \<ge> ipv4_to_uint32 v4) (rev (srt (tb_live t)))))"

text \<open>\<open>has_ci\<close> is \<^verbatim>\<open>positionCaseInsensitive(text, pattern) > 0\<close>.\<close>

definition list_geo_ranges_page ::
  "(string \<Rightarrow> string \<Rightarrow> bool) \<Rightarrow> geo_sort \<Rightarrow> table_env \<Rightarrow> int \<Rightarrow> string \<Rightarrow> geo_table \<Rightarrow> table_err + collected" where
  "list_geo_ranges_page has_ci srt en limit0 q0 t =
     (let limit = (if limit0 \<le> 0 then 2000 else limit0); q = trim_space q0 in
      if \<not> te_count en \<or> \<not> te_select en then Inl Query_failed
      else
        let hits = (if q = [] then srt (tb_live t)
          else srt (filter (\<lambda>g. has_ci (country g) q \<or> has_ci (region g) q \<or> has_ci (city g) q \<or>
            has_ci (uint32_to_ip (start_ip g)) q \<or> has_ci (uint32_to_ip (end_ip g)) q) (tb_live t))) in
        Inr \<lparr>items = take (nat limit) hits, total = length (tb_live t), filtered = length hits,
             truncated = (int (length hits) > limit)\<rparr>)"

section \<open>The index with its file: geo\_index.go\<close>

record geo_service =
  gs_table :: geo_table
  gs_index :: geo_index
  gs_ready :: bool
  gs_stamp :: "source_stamp option"
  gs_disk :: disk
  gs_path :: string
  gs_max :: int
  gs_soft :: u64

text \<open>
  What the world decides during one operation; \<open>ge_write\<close> and \<open>ge_remove\<close> are the outcomes for the file of the index,
  \<open>ge_approx\<close> the estimate of the size of a snapshot, \<open>ge_heap\<close> the bytes in use.
\<close>

record geo_env =
  ge_table :: table_env
  ge_readable :: bool
  ge_write :: outcome
  ge_remove :: bool
  ge_heavy :: bool
  ge_heap :: u64
  ge_approx :: "snapshot \<Rightarrow> u64"

definition new_reloadable_index :: "string \<Rightarrow> int \<Rightarrow> u64 \<Rightarrow> geo_table \<Rightarrow> disk \<Rightarrow> geo_service" where
  "new_reloadable_index path mx soft t d =
     \<lparr>gs_table = t, gs_index = new_index, gs_ready = False, gs_stamp = None, gs_disk = d, gs_path = trim_space path,
      gs_max = mx, gs_soft = soft\<rparr>"

definition read_snapshot_file :: "geo_env \<Rightarrow> geo_service \<Rightarrow> (built_snapshot \<times> source_stamp) option" where
  "read_snapshot_file en s =
     (if gs_path s = [] \<or> \<not> ge_readable en then None
      else case gs_disk s (gs_path s) of
        None \<Rightarrow> None
      | Some data \<Rightarrow> (case decode_snapshot (map char_byte data) of Inl e \<Rightarrow> None | Inr b \<Rightarrow> Some b))"

definition load_disk :: "geo_env \<Rightarrow> geo_service \<Rightarrow> bool \<times> geo_service" where
  "load_disk en s =
     (case read_snapshot_file en s of
        None \<Rightarrow> (False, s)
      | Some (b, stamp) \<Rightarrow>
          (True, s\<lparr>gs_index := replace_built_snapshot (Some b), gs_stamp := Some stamp, gs_ready := True\<rparr>))"

definition persist :: "geo_env \<Rightarrow> source_stamp \<Rightarrow> geo_service \<Rightarrow> geo_service" where
  "persist en stamp s =
     (if gs_path s = [] then s
      else
        let s1 = s\<lparr>gs_stamp := Some stamp\<rparr> in
        if count stamp = 0 then (if ge_remove en then s1\<lparr>gs_disk := (gs_disk s1)(gs_path s1 := None)\<rparr> else s1)
        else s1\<lparr>gs_disk := snd (write_file (ge_write en) (gs_path s1)
               (map byte_char (encode_snapshot (Some (built (gs_index s1))) stamp)) (gs_disk s1))\<rparr>)"

definition publish_built :: "geo_env \<Rightarrow> built_snapshot \<Rightarrow> geo_service \<Rightarrow> geo_service" where
  "publish_built en b s =
     persist en (stamp_from_ranges (snapshot_ranges (replace_built_snapshot (Some b))))
       (s\<lparr>gs_index := replace_built_snapshot (Some b), gs_ready := True\<rparr>)"

definition publish_normalized :: "geo_env \<Rightarrow> geo_range list \<Rightarrow> geo_service \<Rightarrow> geo_service" where
  "publish_normalized en ranges s =
     persist en (stamp_from_ranges ranges) (s\<lparr>gs_index := replace_normalized_ranges ranges, gs_ready := True\<rparr>)"

definition publish_ranges :: "geo_sort \<Rightarrow> geo_env \<Rightarrow> geo_range list \<Rightarrow> geo_service \<Rightarrow> geo_service" where
  "publish_ranges srt en ranges s =
     persist en (stamp_from_ranges ranges) (s\<lparr>gs_index := replace_ranges srt ranges, gs_ready := True\<rparr>)"

text \<open>
  \<^verbatim>\<open>Reload\<close> in the steps between which other requests may come: the stamp of the table is compared with that of the service
  and that of the file (\<open>Inl\<close> when this settles it), the ranges are read, and the index and its file are replaced. A later query
  of the stamp has its own outcome, \<open>again\<close>.
\<close>

definition reload_check :: "geo_env \<Rightarrow> geo_service \<Rightarrow> geo_service + source_stamp option" where
  "reload_check en s =
     (let stamp = query_source_stamp (ge_table en) (gs_table s); s0 = s\<lparr>gs_ready := True\<rparr> in
      if stamp \<noteq> None \<and> gs_stamp s = stamp then Inl s0
      else
        let file = (if stamp = None then None else
          (case read_snapshot_file en s of Some (b, fs) \<Rightarrow> if Some fs = stamp then Some (b, fs) else None | None \<Rightarrow> None)) in
        case file of
          Some (b, fs) \<Rightarrow> Inl (s0\<lparr>gs_index := replace_built_snapshot (Some b), gs_stamp := Some fs\<rparr>)
        | None \<Rightarrow> Inr stamp)"

definition reload_store :: "geo_env \<Rightarrow> bool \<Rightarrow> source_stamp option \<Rightarrow> built_snapshot \<Rightarrow> geo_service \<Rightarrow> geo_service" where
  "reload_store en again stamp b s =
     (let s1 = s\<lparr>gs_ready := True, gs_index := replace_built_snapshot (Some b)\<rparr> in
      case stamp of
        Some st \<Rightarrow> persist en st s1
      | None \<Rightarrow> if again then persist en (aggregates (tb_live (gs_table s))) s1 else s1)"

definition reload :: "geo_sort \<Rightarrow> geo_env \<Rightarrow> bool \<Rightarrow> geo_service \<Rightarrow> (table_err + unit) \<times> geo_service" where
  "reload srt en again s =
     (case reload_check en s of
        Inl s' \<Rightarrow> (Inr (), s')
      | Inr stamp \<Rightarrow>
          (case load_geo_snapshot srt (ge_table en) (gs_table s) of
             Inl e \<Rightarrow> (Inl e, s\<lparr>gs_ready := True\<rparr>)
           | Inr b \<Rightarrow> (Inr (), reload_store en again stamp b s)))"

section \<open>Limits of an upload: service.go\<close>

datatype geo_err =
    G_too_large | G_invalid_csv csv_error | G_index_large | G_memory | G_busy | G_table table_err | G_no_ranges
  | G_bad_entry entry_error | G_overlap range_error | G_bad_network | G_not_found | G_bad_address

definition reject_large_index :: "geo_service \<Rightarrow> bool \<Rightarrow> geo_err option" where
  "reject_large_index s dry =
     (if dry \<or> gs_max s \<le> 0 then None
      else if int (range_count (gs_index s)) \<ge> gs_max s div 2 then Some G_index_large else None)"

definition check_upload_limits :: "geo_service \<Rightarrow> nat \<Rightarrow> bool \<Rightarrow> geo_err option" where
  "check_upload_limits s n dry =
     (if gs_max s > 0 \<and> int n > gs_max s then Some G_too_large
      else if dry \<or> gs_max s \<le> 0 then None
      else
        let existing = int (range_count (gs_index s)) in
        if existing = 0 then None
        else if existing + int n > gs_max s \<and> existing \<ge> gs_max s div 2 then Some G_index_large
        else None)"

definition headroom_reserve :: "u64 \<Rightarrow> u64" where
  "headroom_reserve soft =
     (if soft = 0 then 0
      else
        let r = soft div 8 in
        if r < 0x8000000 then 0x8000000 else if r > 0x18000000 then 0x18000000 else r)"

definition estimate_replace_peak :: "u64 \<Rightarrow> u64 \<Rightarrow> u64 \<Rightarrow> u64" where
  "estimate_replace_peak heap old new =
     (let parse = (if heap > old + new then heap - old - new else 0) in parse + old + new)"

definition reject_headroom :: "geo_env \<Rightarrow> geo_service \<Rightarrow> built_snapshot \<Rightarrow> geo_err option" where
  "reject_headroom en s b =
     (if gs_soft s = 0 then None
      else
        let new = (case b_snap b of None \<Rightarrow> 0 | Some sn \<Rightarrow> ge_approx en sn);
          old = (case gs_index s of None \<Rightarrow> 0 | Some sn \<Rightarrow> ge_approx en sn);
          peak = (if old > 0 \<and> new > 0 then estimate_replace_peak (ge_heap en) old new else ge_heap en) in
        if peak + headroom_reserve (gs_soft s) > gs_soft s then Some G_memory else None)"

section \<open>Requests\<close>

text \<open>\<^verbatim>\<open>persistRangesWithSnapshot\<close>\<close>

definition replace_table ::
  "geo_sort \<Rightarrow> geo_env \<Rightarrow> geo_range list \<Rightarrow> built_snapshot option \<Rightarrow> geo_service \<Rightarrow> (geo_err + nat \<times> geo_range list) \<times> geo_service" where
  "replace_table srt en ranges b s =
     (let clean = (case b of None \<Rightarrow> fst (normalize_ranges srt ranges) | Some x \<Rightarrow> ranges) in
      if clean = [] then (Inl G_no_ranges, s)
      else case replace_geo_ranges (ge_table en) clean (gs_table s) of
        (Inl e, t) \<Rightarrow> (Inl (G_table e), s\<lparr>gs_table := t\<rparr>)
      | (Inr n, t) \<Rightarrow> (Inr (n, clean), s\<lparr>gs_table := t\<rparr>))"

definition publish_table :: "geo_env \<Rightarrow> geo_range list \<Rightarrow> built_snapshot option \<Rightarrow> geo_service \<Rightarrow> geo_service" where
  "publish_table en clean b s = (case b of Some x \<Rightarrow> publish_built en x s | None \<Rightarrow> publish_normalized en clean s)"

definition persist_ranges ::
  "geo_sort \<Rightarrow> geo_env \<Rightarrow> geo_range list \<Rightarrow> built_snapshot option \<Rightarrow> geo_service \<Rightarrow> (geo_err + nat) \<times> geo_service" where
  "persist_ranges srt en ranges b s =
     (case replace_table srt en ranges b s of
        (Inl e, s1) \<Rightarrow> (Inl e, s1)
      | (Inr (n, clean), s1) \<Rightarrow> (Inr n, publish_table en clean b s1))"

record upload_result =
  up_dry :: bool
  up_count :: nat
  up_sample :: "geo_range list"

text \<open>The rows of the body, or None when it is longer than the server reads.\<close>

definition upload_prepare ::
  "geo_sort \<Rightarrow> geo_env \<Rightarrow> geo_range list option \<Rightarrow> bool \<Rightarrow> geo_service \<Rightarrow> geo_err + geo_range list \<times> built_snapshot" where
  "upload_prepare srt en body dry s =
     (case reject_large_index s dry of
        Some e \<Rightarrow> Inl e
      | None \<Rightarrow>
          (case body of
             None \<Rightarrow> Inl G_too_large
           | Some parsed \<Rightarrow>
               (case csv_snapshot srt parsed of
                  Inl e \<Rightarrow> Inl (G_invalid_csv e)
                | Inr (ranges, b) \<Rightarrow>
                    (case check_upload_limits s (length ranges) dry of
                       Some e \<Rightarrow> Inl e
                     | None \<Rightarrow>
                         if dry then Inr (ranges, b)
                         else
                           (case reject_headroom en s b of
                              Some e \<Rightarrow> Inl e
                            | None \<Rightarrow> if \<not> ge_heavy en then Inl G_busy else Inr (ranges, b))))))"

definition upload_csv ::
  "geo_sort \<Rightarrow> geo_env \<Rightarrow> geo_range list option \<Rightarrow> bool \<Rightarrow> geo_service \<Rightarrow> (geo_err + upload_result) \<times> geo_service" where
  "upload_csv srt en body dry s =
     (case upload_prepare srt en body dry s of
        Inl e \<Rightarrow> (Inl e, s)
      | Inr (ranges, b) \<Rightarrow>
          if dry then (Inr \<lparr>up_dry = True, up_count = length ranges, up_sample = take 5 ranges\<rparr>, s)
          else
            (case persist_ranges srt en ranges (Some b) s of
               (Inl e, s1) \<Rightarrow> (Inl e, s1)
             | (Inr n, s1) \<Rightarrow> (Inr \<lparr>up_dry = False, up_count = n, up_sample = []\<rparr>, s1)))"

type_synonym entry_input = "string \<times> string \<times> string \<times> string \<times> f64 \<times> f64"

definition parse_entry :: "entry_input \<Rightarrow> entry_error + geo_range" where
  "parse_entry i = (case i of (n, c, r, t, la, lo) \<Rightarrow> parse_range_entry n c r t la lo)"

text \<open>What a request makes of the ranges that it has read; reading and writing are two steps of the code without a lock around them.\<close>

definition merge_append :: "geo_sort \<Rightarrow> geo_range \<Rightarrow> geo_range list \<Rightarrow> geo_err + geo_range list" where
  "merge_append srt entry existing =
     (let merged = existing @ [entry] in
      case check_non_overlapping srt merged of Some e \<Rightarrow> Inl (G_overlap e) | None \<Rightarrow> Inr merged)"

definition append_prepare :: "geo_sort \<Rightarrow> geo_env \<Rightarrow> entry_input \<Rightarrow> geo_service \<Rightarrow> geo_err + geo_range \<times> geo_range list" where
  "append_prepare srt en inp s =
     (case parse_entry inp of
        Inl e \<Rightarrow> Inl (G_bad_entry e)
      | Inr entry \<Rightarrow>
          (case load_geo_ranges srt (ge_table en) (gs_table s) of
             Inl e \<Rightarrow> Inl (G_table e)
           | Inr existing \<Rightarrow> (case merge_append srt entry existing of Inl e \<Rightarrow> Inl e | Inr merged \<Rightarrow> Inr (entry, merged))))"

definition append_range ::
  "geo_sort \<Rightarrow> geo_env \<Rightarrow> entry_input \<Rightarrow> geo_service \<Rightarrow> (geo_err + nat \<times> geo_range) \<times> geo_service" where
  "append_range srt en inp s =
     (case append_prepare srt en inp s of
        Inl e \<Rightarrow> (Inl e, s)
      | Inr (entry, merged) \<Rightarrow>
          (case persist_ranges srt en merged None s of (Inl e, s1) \<Rightarrow> (Inl e, s1) | (Inr n, s1) \<Rightarrow> (Inr (n, entry), s1)))"

definition update_prepare ::
  "geo_sort \<Rightarrow> geo_env \<Rightarrow> string \<Rightarrow> entry_input \<Rightarrow> geo_service \<Rightarrow> geo_err + geo_range \<times> geo_range list" where
  "update_prepare srt en orig inp s =
     (case parse_network_field orig of
        None \<Rightarrow> Inl G_bad_network
      | Some (a, b) \<Rightarrow>
          (case parse_entry inp of
             Inl e \<Rightarrow> Inl (G_bad_entry e)
           | Inr entry \<Rightarrow>
               (case load_geo_ranges srt (ge_table en) (gs_table s) of
                  Inl e \<Rightarrow> Inl (G_table e)
                | Inr existing \<Rightarrow>
                    let same = (\<lambda>g. start_ip g = a \<and> end_ip g = b) in
                    if \<not> list_ex same existing then Inl G_not_found
                    else
                      (case merge_append srt entry (filter (\<lambda>g. \<not> same g) existing) of
                         Inl e \<Rightarrow> Inl e
                       | Inr merged \<Rightarrow> Inr (entry, merged)))))"

definition update_range ::
  "geo_sort \<Rightarrow> geo_env \<Rightarrow> string \<Rightarrow> entry_input \<Rightarrow> geo_service \<Rightarrow> (geo_err + nat \<times> geo_range) \<times> geo_service" where
  "update_range srt en orig inp s =
     (case update_prepare srt en orig inp s of
        Inl e \<Rightarrow> (Inl e, s)
      | Inr (entry, merged) \<Rightarrow>
          (case persist_ranges srt en merged None s of (Inl e, s1) \<Rightarrow> (Inl e, s1) | (Inr n, s1) \<Rightarrow> (Inr (n, entry), s1)))"

definition clear_table :: "geo_env \<Rightarrow> geo_service \<Rightarrow> (geo_err + unit) \<times> geo_service" where
  "clear_table en s =
     (case truncate_geo_ranges (ge_table en) (gs_table s) of
        (Inl e, t) \<Rightarrow> (Inl (G_table e), s\<lparr>gs_table := t\<rparr>)
      | (Inr u, t) \<Rightarrow> (Inr (), s\<lparr>gs_table := t\<rparr>))"

definition clear_all :: "geo_sort \<Rightarrow> geo_env \<Rightarrow> geo_service \<Rightarrow> (geo_err + nat) \<times> geo_service" where
  "clear_all srt en s =
     (let before = range_count (gs_index s) in
      case clear_table en s of (Inl e, s1) \<Rightarrow> (Inl e, s1) | (Inr u, s1) \<Rightarrow> (Inr before, publish_ranges srt en [] s1))"

text \<open>The rows that \<^verbatim>\<open>ExportCSV\<close> writes.\<close>

definition export_rows :: "geo_sort \<Rightarrow> geo_env \<Rightarrow> geo_service \<Rightarrow> geo_err + geo_range list" where
  "export_rows srt en s =
     (case load_geo_ranges srt (ge_table en) (gs_table s) of
        Inl e \<Rightarrow> Inl (G_table e)
      | Inr ranges \<Rightarrow> Inr (srt (fst (normalize_ranges srt ranges))))"

record ranges_page =
  rp_items :: "geo_range list"
  rp_total :: nat
  rp_filtered :: nat
  rp_truncated :: bool
  rp_ip :: "(string \<times> bool) option"

definition list_ranges ::
  "(string \<Rightarrow> string \<Rightarrow> bool) \<Rightarrow> geo_sort \<Rightarrow> geo_env \<Rightarrow> int \<Rightarrow> string \<Rightarrow> string \<Rightarrow> geo_service \<Rightarrow> geo_err + ranges_page" where
  "list_ranges has_ci srt en limit0 query ip s =
     (let limit = (if limit0 \<le> 0 then 2000 else if limit0 > 10000 then 10000 else limit0); q = trim_space ip; t = ge_table en in
      if q \<noteq> [] then
        (if to4 (parse_ip q) = [] then Inl G_bad_address
         else
           let page = (\<lambda>n hit. \<lparr>rp_items = (case hit of None \<Rightarrow> [] | Some g \<Rightarrow> [g]), rp_total = n,
               rp_filtered = (if hit = None then 0 else 1), rp_truncated = False, rp_ip = Some (q, hit \<noteq> None)\<rparr>) in
           if range_count (gs_index s) > 0 then Inr (page (range_count (gs_index s)) (lookup_range (gs_index s) q))
           else case count_geo_ranges t (gs_table s) of
             Inl e \<Rightarrow> Inl (G_table e)
           | Inr n \<Rightarrow>
               (case find_geo_range_by_ip srt t q (gs_table s) of Inl e \<Rightarrow> Inl (G_table e) | Inr hit \<Rightarrow> Inr (page n hit)))
      else
        (case (if range_count (gs_index s) > 0 then Inr (collect_ranges (gs_index s) limit query)
           else list_geo_ranges_page has_ci srt t limit query (gs_table s)) of
           Inl e \<Rightarrow> Inl (G_table e)
         | Inr c \<Rightarrow> Inr \<lparr>rp_items = items c, rp_total = collected.total c, rp_filtered = collected.filtered c, rp_truncated = truncated c, rp_ip = None\<rparr>))"

section \<open>The requests at once\<close>

text \<open>The requests with their parts put together, as they run when no other one comes between.\<close>

lemma persist_ranges_unfold:
  "persist_ranges srt en ranges b s =
     (let clean = (case b of None \<Rightarrow> fst (normalize_ranges srt ranges) | Some x \<Rightarrow> ranges) in
      if clean = [] then (Inl G_no_ranges, s)
      else case replace_geo_ranges (ge_table en) clean (gs_table s) of
        (Inl e, t) \<Rightarrow> (Inl (G_table e), s\<lparr>gs_table := t\<rparr>)
      | (Inr n, t) \<Rightarrow>
          (Inr n, case b of
             Some x \<Rightarrow> publish_built en x (s\<lparr>gs_table := t\<rparr>)
           | None \<Rightarrow> publish_normalized en clean (s\<lparr>gs_table := t\<rparr>)))"
  by (auto simp: persist_ranges_def replace_table_def publish_table_def Let_def split: sum.splits prod.splits option.splits)

lemma upload_csv_unfold:
  "upload_csv srt en body dry s =
     (case reject_large_index s dry of
        Some e \<Rightarrow> (Inl e, s)
      | None \<Rightarrow>
          (case body of
             None \<Rightarrow> (Inl G_too_large, s)
           | Some parsed \<Rightarrow>
               (case csv_snapshot srt parsed of
                  Inl e \<Rightarrow> (Inl (G_invalid_csv e), s)
                | Inr (ranges, b) \<Rightarrow>
                    (case check_upload_limits s (length ranges) dry of
                       Some e \<Rightarrow> (Inl e, s)
                     | None \<Rightarrow>
                         if dry then (Inr \<lparr>up_dry = True, up_count = length ranges, up_sample = take 5 ranges\<rparr>, s)
                         else
                           (case reject_headroom en s b of
                              Some e \<Rightarrow> (Inl e, s)
                            | None \<Rightarrow>
                                if \<not> ge_heavy en then (Inl G_busy, s)
                                else
                                  (case persist_ranges srt en ranges (Some b) s of
                                     (Inl e, s1) \<Rightarrow> (Inl e, s1)
                                   | (Inr n, s1) \<Rightarrow> (Inr \<lparr>up_dry = False, up_count = n, up_sample = []\<rparr>, s1)))))))"
  by (auto simp: upload_csv_def upload_prepare_def split: sum.splits option.splits)

lemma append_range_unfold:
  "append_range srt en inp s =
     (case parse_entry inp of
        Inl e \<Rightarrow> (Inl (G_bad_entry e), s)
      | Inr entry \<Rightarrow>
          (case load_geo_ranges srt (ge_table en) (gs_table s) of
             Inl e \<Rightarrow> (Inl (G_table e), s)
           | Inr existing \<Rightarrow>
               (case merge_append srt entry existing of
                  Inl e \<Rightarrow> (Inl e, s)
                | Inr merged \<Rightarrow>
                    (case persist_ranges srt en merged None s of
                       (Inl e, s1) \<Rightarrow> (Inl e, s1)
                     | (Inr n, s1) \<Rightarrow> (Inr (n, entry), s1)))))"
  by (auto simp: append_range_def append_prepare_def split: sum.splits)

lemma update_range_unfold:
  "update_range srt en orig inp s =
     (case parse_network_field orig of
        None \<Rightarrow> (Inl G_bad_network, s)
      | Some (a, b) \<Rightarrow>
          (case parse_entry inp of
             Inl e \<Rightarrow> (Inl (G_bad_entry e), s)
           | Inr entry \<Rightarrow>
               (case load_geo_ranges srt (ge_table en) (gs_table s) of
                  Inl e \<Rightarrow> (Inl (G_table e), s)
                | Inr existing \<Rightarrow>
                    let same = (\<lambda>g. start_ip g = a \<and> end_ip g = b) in
                    if \<not> list_ex same existing then (Inl G_not_found, s)
                    else
                      (case merge_append srt entry (filter (\<lambda>g. \<not> same g) existing) of
                         Inl e \<Rightarrow> (Inl e, s)
                       | Inr merged \<Rightarrow>
                           (case persist_ranges srt en merged None s of
                              (Inl e, s1) \<Rightarrow> (Inl e, s1)
                            | (Inr n, s1) \<Rightarrow> (Inr (n, entry), s1))))))"
  by (auto simp: update_range_def update_prepare_def Let_def split: sum.splits option.splits)

lemma clear_all_unfold:
  "clear_all srt en s =
     (let before = range_count (gs_index s) in
      case truncate_geo_ranges (ge_table en) (gs_table s) of
        (Inl e, t) \<Rightarrow> (Inl (G_table e), s\<lparr>gs_table := t\<rparr>)
      | (Inr u, t) \<Rightarrow> (Inr before, publish_ranges srt en [] (s\<lparr>gs_table := t\<rparr>)))"
  by (auto simp: clear_all_def clear_table_def Let_def split: sum.splits prod.splits)

lemma reload_unfold:
  "reload srt en again s =
     (let stamp = query_source_stamp (ge_table en) (gs_table s); s0 = s\<lparr>gs_ready := True\<rparr> in
      if stamp \<noteq> None \<and> gs_stamp s = stamp then (Inr (), s0)
      else
        let file = (if stamp = None then None else
          (case read_snapshot_file en s of Some (b, fs) \<Rightarrow> if Some fs = stamp then Some (b, fs) else None | None \<Rightarrow> None)) in
        case file of
          Some (b, fs) \<Rightarrow> (Inr (), s0\<lparr>gs_index := replace_built_snapshot (Some b), gs_stamp := Some fs\<rparr>)
        | None \<Rightarrow>
            (case load_geo_snapshot srt (ge_table en) (gs_table s) of
               Inl e \<Rightarrow> (Inl e, s0)
             | Inr b \<Rightarrow>
                 let s1 = s0\<lparr>gs_index := replace_built_snapshot (Some b)\<rparr> in
                 (Inr (),
                  case stamp of
                    Some st \<Rightarrow> persist en st s1
                  | None \<Rightarrow> if again then persist en (aggregates (tb_live (gs_table s))) s1 else s1)))"
  by (auto simp: reload_def reload_check_def reload_store_def Let_def split: sum.splits option.splits)

end
