(* ===== verification/Geo_Agreement.thy ===== *)
theory Geo_Agreement
  imports Geo_Service
begin

text \<open>
  What the GeoIP service promises: a replacement of the table happens completely or not at all, the index always
  answers from the ranges of the table, a range that was entered by hand is found and changes no other address; and
  where the code does less.
\<close>

section \<open>The table\<close>

lemma insert_rows_done: "insert_rows en i pend rs staging = (True, out) \<Longrightarrow> out = staging @ pend @ rs"
  by (induction en i pend rs staging rule: insert_rows.induct) (auto split: if_splits)

lemma drop_staging_live [simp]: "tb_live (drop_staging ok t) = tb_live t"
  by (simp add: drop_staging_def)

lemma fill_staging_rows: "fill_staging en ranges = (None, out) \<Longrightarrow> out = ranges"
  using insert_rows_done [of en 0 "[]" ranges "[]"] by (auto simp: fill_staging_def split: prod.splits if_splits)

lemma staging_live:
  "replace_via_staging en (err, rows') t = (e, t') \<Longrightarrow> tb_live t' = (if e = None then rows' else tb_live t) \<and> (e = None \<longrightarrow> err = None)"
  by (auto simp: replace_via_staging_def Let_def split: if_splits)

lemma replace_atomic:
  assumes "replace_geo_ranges en ranges t = (r, t')"
  shows "tb_live t' = (if isl r then tb_live t else ranges)" "\<not> isl r \<Longrightarrow> r = Inr (length ranges)"
proof -
  obtain err rows' where f: "fill_staging en ranges = (err, rows')" by fastforce
  obtain e u where s: "replace_via_staging en (err, rows') t = (e, u)" by fastforce
  show "tb_live t' = (if isl r then tb_live t else ranges)" "\<not> isl r \<Longrightarrow> r = Inr (length ranges)"
    using assms f s staging_live [OF s] fill_staging_rows [of en ranges rows']
    by (auto simp: replace_geo_ranges_def split: if_splits option.splits)
qed

lemma truncate_live:
  "truncate_geo_ranges en t = (r, t') \<Longrightarrow> tb_live t' = (if isl r then tb_live t else [])"
  by (auto simp: truncate_geo_ranges_def split: if_splits)

section \<open>Sorted ranges\<close>

lemma disjoint_sorted_unique:
  assumes "slice_sorter geo_le srt" "disjoint_ranges rs"
  shows "srt rs = rs"
proof -
  let ?R = "\<lambda>a b. start_ip a < start_ip b \<or> a = b"
  have lt: "start_ip a < start_ip b" if "a \<in> set rs" "b \<in> set rs" "before a b" for a b
    using assms(2) that by (auto simp: disjoint_ranges_def list_all_iff valid_range_def before_def)
  have r: "sorted_wrt (\<lambda>a b. start_ip a < start_ip b) rs"
    using assms(2) lt by (auto simp: disjoint_ranges_def intro: sorted_wrt_mono_rel)
  then have "sorted_wrt (<) (map start_ip rs)" by (simp add: sorted_wrt_map)
  then have "distinct (map start_ip rs)" using strict_sorted_iff by blast
  then have "inj_on start_ip (set rs)" by (simp add: distinct_map)
  moreover have s: "mset (srt rs) = mset rs" "sorted_wrt geo_le (srt rs)"
    using slice_sorter.srt_mset [OF assms(1)] slice_sorter.srt_sorted [OF assms(1)] by blast+
  moreover have "set (srt rs) = set rs" using s(1) by (metis set_mset_mset)
  ultimately have "sorted_wrt ?R (srt rs)"
    by (intro sorted_wrt_mono_rel [OF _ s(2)]) (auto simp: geo_le_def inj_on_def)
  moreover have "sorted_wrt ?R rs" using r by (rule sorted_wrt_mono_rel [rotated]) auto
  moreover have "antisymp ?R" by (auto intro: antisympI)
  ultimately show ?thesis using sorted_wrt_mset_unique s(1) by blast
qed

lemma normalize_disjoint:
  assumes "slice_sorter geo_le srt" "disjoint_ranges rs"
  shows "normalize_ranges srt rs = (rs, 0)"
proof (cases "rs = []")
  case False
  then have "normalize_ranges srt rs = foldl norm_step ([], 0) rs"
    by (simp add: normalize_ranges_def disjoint_sorted_unique [OF assms])
  then show ?thesis using foldl_norm_skip_0 [of rs] assms(2) by simp
qed (simp add: normalize_ranges_def)

lemma normalized_disjoint: "slice_sorter geo_le srt \<Longrightarrow> disjoint_ranges (fst (normalize_ranges srt rs))"
  using slice_sorter_norm_inv [of srt rs] by (simp add: norm_inv_def)

lemma sorted_wrt_pair: "sorted_wrt P xs \<Longrightarrow> x \<in> set xs \<Longrightarrow> y \<in> set xs \<Longrightarrow> x \<noteq> y \<Longrightarrow> P x y \<or> P y x"
  by (induction xs) auto

lemma find_disjoint:
  assumes "disjoint_ranges rs"
  shows "find (\<lambda>r. covers r v) rs = Some g \<longleftrightarrow> g \<in> set rs \<and> covers g v"
proof
  show "find (\<lambda>r. covers r v) rs = Some g \<Longrightarrow> g \<in> set rs \<and> covers g v" by (auto simp: find_Some_iff)
  assume g: "g \<in> set rs \<and> covers g v"
  then obtain h where h: "find (\<lambda>r. covers r v) rs = Some h" by (metis find_None_iff option.exhaust)
  then have h': "h \<in> set rs" "covers h v" by (auto simp: find_Some_iff)
  have "h = g"
  proof (rule ccontr)
    assume "h \<noteq> g"
    then have "before h g \<or> before g h" using assms g h'(1) unfolding disjoint_ranges_def by (metis sorted_wrt_pair)
    then show False using g h'(2) by (auto simp: before_def covers_def)
  qed
  with h show "find (\<lambda>r. covers r v) rs = Some g" by simp
qed

section \<open>The index agrees with the table\<close>

definition agrees :: "geo_sort \<Rightarrow> geo_service \<Rightarrow> bool" where
  "agrees srt s \<longleftrightarrow> (\<exists>sn. gs_index s = Some sn) \<and>
     snapshot_ranges (gs_index s) = fst (normalize_ranges srt (tb_live (gs_table s)))"

text \<open>
  The file of the index is one for the table, when its stamp says so. The code relies on it, although the stamp leaves the
  names out (\<open>stamp_ignores_names\<close>).
\<close>

definition file_true :: "geo_sort \<Rightarrow> geo_table \<Rightarrow> string \<Rightarrow> disk \<Rightarrow> bool" where
  "file_true srt t path d \<longleftrightarrow> (\<forall>data b. d path = Some data \<longrightarrow>
     decode_snapshot (map char_byte data) = Inr (b, aggregates (tb_live t)) \<longrightarrow>
     snapshot_ranges (replace_built_snapshot (Some b)) = fst (normalize_ranges srt (tb_live t)))"

definition stamped :: "geo_sort \<Rightarrow> geo_service \<Rightarrow> bool" where
  "stamped srt s \<longleftrightarrow> (gs_path s \<noteq> [] \<longrightarrow> gs_stamp s = Some (aggregates (tb_live (gs_table s))) \<or>
     file_true srt (gs_table s) (gs_path s) (gs_disk s))"

definition geo_inv :: "geo_sort \<Rightarrow> geo_service \<Rightarrow> bool" where
  "geo_inv srt s \<longleftrightarrow> agrees srt s \<and> stamped srt s"

lemma file_read:
  assumes "file_true srt (gs_table s) (gs_path s) (gs_disk s)" "read_snapshot_file en s = Some (b, aggregates (tb_live (gs_table s)))"
  shows "snapshot_ranges (replace_built_snapshot (Some b)) = fst (normalize_ranges srt (tb_live (gs_table s)))"
  using assms by (auto simp: file_true_def read_snapshot_file_def split: if_splits option.splits sum.splits)

lemma file_true_live: "tb_live t = tb_live t' \<Longrightarrow> file_true srt t path d = file_true srt t' path d"
  by (simp add: file_true_def)

lemma persist_fields [simp]:
  "gs_index (persist en st s) = gs_index s" "gs_table (persist en st s) = gs_table s" "gs_path (persist en st s) = gs_path s"
  "gs_stamp (persist en st s) = (if gs_path s = [] then gs_stamp s else Some st)"
  by (simp_all add: persist_def Let_def)

lemma disjoint_stamp: "disjoint_ranges rs \<Longrightarrow> stamp_from_ranges rs = aggregates rs"
  using disjoint_length [of rs] by (intro stamp_is_aggregates) (simp add: order.strict_trans1)

lemma replace_normalized_ranges_of: "disjoint_ranges rs \<Longrightarrow> snapshot_ranges (replace_normalized_ranges rs) = rs"
  using snapshot_ranges_normalized disjoint_length by blast

lemma built_ranges:
  assumes "slice_sorter geo_le srt"
  shows "snapshot_ranges (replace_built_snapshot (Some (build (add_all (srt rs))))) = fst (normalize_ranges srt rs)"
proof -
  have n: "normalize_ranges srt rs = foldl norm_step ([], 0) (srt rs)"
    using slice_sorter.srt_Nil [OF assms] by (auto simp: normalize_ranges_def)
  then have "replace_built_snapshot (Some (build (add_all (srt rs)))) = replace_normalized_ranges (fst (normalize_ranges srt rs))"
    using add_all_inv [of "srt rs"]
    by (auto simp: builder_inv_def build_def build_snapshot_rows replace_built_snapshot_def replace_normalized_ranges_def
        split: prod.splits)
  then show ?thesis using replace_normalized_ranges_of normalized_disjoint [OF assms] by simp
qed

lemma index_some [simp]:
  "\<exists>sn. replace_built_snapshot (Some b) = Some sn" "\<exists>sn. replace_normalized_ranges rs = Some sn" "\<exists>sn. replace_ranges srt rs = Some sn"
  by (simp_all add: replace_built_snapshot_def replace_normalized_ranges_def replace_ranges_def store_snapshot_def)

text \<open>A reload answers from the table: the file is read only when its stamp is that of the table.\<close>

lemma checked_inv:
  assumes "reload_check en s = Inl s'" "stamped srt s"
    "gs_stamp s = Some (aggregates (tb_live (gs_table s))) \<Longrightarrow> te_count (ge_table en) \<Longrightarrow> agrees srt s"
  shows "geo_inv srt s'" "gs_table s' = gs_table s"
proof -
  show t: "gs_table s' = gs_table s" using assms(1) by (auto simp: reload_check_def Let_def split: if_splits option.splits)
  let ?st = "query_source_stamp (ge_table en) (gs_table s)"
  show "geo_inv srt s'"
  proof (cases "?st \<noteq> None \<and> gs_stamp s = ?st")
    case True
    then have "agrees srt s" using assms(3) by (auto simp: query_source_stamp_def split: if_splits)
    then show ?thesis using True assms(1,2) by (auto simp: reload_check_def geo_inv_def agrees_def stamped_def)
  next
    case False
    then obtain b where b: "read_snapshot_file en s = Some (b, aggregates (tb_live (gs_table s)))" "te_count (ge_table en)"
        "s' = s\<lparr>gs_ready := True, gs_index := replace_built_snapshot (Some b), gs_stamp := Some (aggregates (tb_live (gs_table s)))\<rparr>"
      using assms(1) by (auto simp: reload_check_def query_source_stamp_def Let_def split: if_splits option.splits)
    then have "gs_path s \<noteq> []" "gs_stamp s \<noteq> Some (aggregates (tb_live (gs_table s)))"
      using False by (auto simp: read_snapshot_file_def query_source_stamp_def)
    then have "file_true srt (gs_table s) (gs_path s) (gs_disk s)" using assms(2) by (simp add: stamped_def)
    from file_read [OF this b(1)] show ?thesis by (simp add: b(3) geo_inv_def agrees_def stamped_def)
  qed
qed

lemma stored_inv:
  assumes "slice_sorter geo_le srt" "stamped srt s" "stamp = None \<or> stamp = Some (aggregates (tb_live (gs_table s)))"
    "b = build (add_all (srt (tb_live (gs_table s))))"
  shows "geo_inv srt (reload_store en again stamp b s)" "gs_table (reload_store en again stamp b s) = gs_table s"
proof -
  let ?s = "s\<lparr>gs_ready := True, gs_index := replace_built_snapshot (Some b)\<rparr>"
  have a: "snapshot_ranges (replace_built_snapshot (Some b)) = fst (normalize_ranges srt (tb_live (gs_table s)))"
    using built_ranges [OF assms(1)] assms(4) by simp
  have r: "reload_store en again stamp b s = persist en (aggregates (tb_live (gs_table s))) ?s \<or> reload_store en again stamp b s = ?s"
    using assms(3) by (auto simp: reload_store_def Let_def)
  then show "gs_table (reload_store en again stamp b s) = gs_table s" by auto
  have "geo_inv srt (persist en (aggregates (tb_live (gs_table s))) ?s)"
    by (simp add: geo_inv_def agrees_def stamped_def a)
  moreover have "geo_inv srt ?s" using assms(2) by (simp add: geo_inv_def agrees_def stamped_def a)
  ultimately show "geo_inv srt (reload_store en again stamp b s)" using r by metis
qed

lemma check_stamp: "reload_check en s = Inr stamp \<Longrightarrow> stamp = None \<or> stamp = Some (aggregates (tb_live (gs_table s)))"
  by (auto simp: reload_check_def query_source_stamp_def Let_def split: if_splits option.splits)

lemma reload_table [simp]: "gs_table (snd (reload srt en again s)) = gs_table s"
  by (auto simp: reload_unfold Let_def split: option.splits sum.splits prod.splits)

lemma reload_inv:
  assumes "slice_sorter geo_le srt" "geo_inv srt s" "reload srt en again s = (r, s')"
  shows "geo_inv srt s'"
proof (cases "reload_check en s")
  case (Inl u)
  then show ?thesis using assms(2,3) checked_inv(1) [OF Inl] by (auto simp: reload_def geo_inv_def)
next
  case (Inr stamp)
  have st: "stamped srt s" using assms(2) by (simp add: geo_inv_def)
  have "geo_inv srt (s\<lparr>gs_ready := True\<rparr>)" using assms(2) by (simp add: geo_inv_def agrees_def stamped_def)
  then show ?thesis using assms(3) Inr stored_inv(1) [OF assms(1) st check_stamp [OF Inr]]
    by (auto simp: reload_def load_geo_snapshot_def split: if_splits)
qed

text \<open>Publishing what was written to the table.\<close>

lemma published_inv:
  assumes "slice_sorter geo_le srt" "disjoint_ranges (tb_live (gs_table s))"
  shows "geo_inv srt (publish_normalized en (tb_live (gs_table s)) s)"
    "snapshot_ranges (replace_built_snapshot (Some b)) = tb_live (gs_table s) \<Longrightarrow> geo_inv srt (publish_built en b s)"
    "tb_live (gs_table s) = [] \<Longrightarrow> geo_inv srt (publish_ranges srt en [] s)"
proof -
  have n: "fst (normalize_ranges srt (tb_live (gs_table s))) = tb_live (gs_table s)" using normalize_disjoint [OF assms] by simp
  have st: "stamp_from_ranges (tb_live (gs_table s)) = aggregates (tb_live (gs_table s))" by (rule disjoint_stamp [OF assms(2)])
  show "geo_inv srt (publish_normalized en (tb_live (gs_table s)) s)"
    by (simp add: geo_inv_def agrees_def stamped_def publish_normalized_def n st replace_normalized_ranges_of [OF assms(2)])
  show "snapshot_ranges (replace_built_snapshot (Some b)) = tb_live (gs_table s) \<Longrightarrow> geo_inv srt (publish_built en b s)"
    by (simp add: geo_inv_def agrees_def stamped_def publish_built_def n st)
  show "tb_live (gs_table s) = [] \<Longrightarrow> geo_inv srt (publish_ranges srt en [] s)"
    using n st replace_normalized_ranges_of [of "[]"]
    by (simp add: geo_inv_def agrees_def stamped_def publish_ranges_def replace_ranges_normalized)
qed

lemma publish_tables [simp]:
  "gs_table (publish_built en b s) = gs_table s" "gs_table (publish_normalized en rs s) = gs_table s"
  "gs_table (publish_ranges srt en rs s) = gs_table s"
  by (simp_all add: publish_built_def publish_normalized_def publish_ranges_def)

lemma live_kept_inv: "geo_inv srt s \<Longrightarrow> tb_live t = tb_live (gs_table s) \<Longrightarrow> geo_inv srt (s\<lparr>gs_table := t\<rparr>)"
  using file_true_live [of t "gs_table s"] by (simp add: geo_inv_def agrees_def stamped_def)

lemma persist_ranges_inv:
  assumes "slice_sorter geo_le srt" "geo_inv srt s" "persist_ranges srt en rs b s = (r, s')"
    "\<And>x. b = Some x \<Longrightarrow> disjoint_ranges rs \<and> snapshot_ranges (replace_built_snapshot (Some x)) = rs"
  shows "geo_inv srt s'"
    "tb_live (gs_table s') = (if isl r then tb_live (gs_table s) else if b = None then fst (normalize_ranges srt rs) else rs)"
proof -
  define clean where "clean = (case b of None \<Rightarrow> fst (normalize_ranges srt rs) | Some x \<Rightarrow> rs)"
  have d: "disjoint_ranges clean" using assms(4) normalized_disjoint [OF assms(1)] by (auto simp: clean_def split: option.splits)
  obtain q t where q: "replace_geo_ranges (ge_table en) clean (gs_table s) = (q, t)" by fastforce
  note live = replace_atomic(1) [OF q]
  have p: "persist_ranges srt en rs b s =
      (if clean = [] then (Inl G_no_ranges, s)
       else case q of
         Inl e \<Rightarrow> (Inl (G_table e), s\<lparr>gs_table := t\<rparr>)
       | Inr n \<Rightarrow> (Inr n, case b of None \<Rightarrow> publish_normalized en clean (s\<lparr>gs_table := t\<rparr>) | Some x \<Rightarrow> publish_built en x (s\<lparr>gs_table := t\<rparr>)))"
    unfolding persist_ranges_unfold Let_def clean_def [symmetric] q by (cases q) (auto split: option.splits)
  have "geo_inv srt s' \<and> tb_live (gs_table s') = (if isl r then tb_live (gs_table s) else clean)"
  proof (cases "clean = []")
    case True
    then show ?thesis using assms(2,3) p by auto
  next
    case ne: False
    show ?thesis
    proof (cases q)
      case (Inl e)
      then show ?thesis using assms(2,3) p ne live live_kept_inv [OF assms(2), of t] by auto
    next
      case (Inr n)
      let ?s = "s\<lparr>gs_table := t\<rparr>"
      have l: "tb_live (gs_table ?s) = clean" using live Inr by simp
      have r: "r = Inr n" "s' = (case b of None \<Rightarrow> publish_normalized en clean ?s | Some x \<Rightarrow> publish_built en x ?s)"
        using assms(3) p ne Inr by simp_all
      have "geo_inv srt s' \<and> gs_table s' = t"
      proof (cases b)
        case None
        then show ?thesis using r(2) published_inv(1) [OF assms(1), of ?s en] d l by (simp add: publish_normalized_def)
      next
        case (Some x)
        then have c: "clean = rs" by (simp add: clean_def)
        have "snapshot_ranges (replace_built_snapshot (Some x)) = tb_live (gs_table ?s)" using assms(4) [OF Some] l c by simp
        moreover have "disjoint_ranges (tb_live (gs_table ?s))" using d l by simp
        ultimately have "geo_inv srt (publish_built en x ?s)" using published_inv(2) [OF assms(1), of ?s x en] by blast
        moreover have "s' = publish_built en x ?s" using r(2) Some by simp
        ultimately show ?thesis by simp
      qed
      then show ?thesis using l r(1) by simp
    qed
  qed
  then show "geo_inv srt s'"
    "tb_live (gs_table s') = (if isl r then tb_live (gs_table s) else if b = None then fst (normalize_ranges srt rs) else rs)"
    by (auto simp: clean_def split: option.splits)
qed

section \<open>Requests in steps\<close>

definition geo_sound :: "geo_sort \<Rightarrow> geo_service \<Rightarrow> bool" where
  "geo_sound srt s \<longleftrightarrow> geo_inv srt s \<and> disjoint_ranges (tb_live (gs_table s))"

lemma csv_snapshot_ranges:
  assumes "slice_sorter geo_le srt" "csv_snapshot srt rs = Inr (ranges, b)"
  shows "disjoint_ranges ranges \<and> snapshot_ranges (replace_built_snapshot (Some b)) = ranges"
proof -
  have r: "disjoint_ranges (srt rs)" "ranges = srt rs" "b = build (add_all (srt rs))" "rs \<noteq> []"
    using assms(2) by (auto simp: csv_snapshot_def Let_def csv_check_None [symmetric] split: option.splits if_splits)
  have "fst (normalize_ranges srt rs) = srt rs"
    using foldl_norm_skip_0 [of "srt rs" "srt rs"] r(1,4) by (simp add: normalize_ranges_def)
  then show ?thesis using r built_ranges [OF assms(1), of rs] by simp
qed

lemma persist_ranges_sound:
  assumes "slice_sorter geo_le srt" "geo_sound srt s" "persist_ranges srt en rs b s = (r, s')"
    "\<And>x. b = Some x \<Longrightarrow> disjoint_ranges rs \<and> snapshot_ranges (replace_built_snapshot (Some x)) = rs"
  shows "geo_sound srt s'"
  using persist_ranges_inv [OF assms(1) _ assms(3,4)] assms(2,4) normalized_disjoint [OF assms(1), of rs]
  by (cases b) (auto simp: geo_sound_def)

lemma persist_none_sound:
  "slice_sorter geo_le srt \<Longrightarrow> geo_sound srt s \<Longrightarrow> persist_ranges srt en rs None s = (r, s') \<Longrightarrow> geo_sound srt s'"
  by (erule (2) persist_ranges_sound) simp

lemma append_sound:
  assumes "slice_sorter geo_le srt" "geo_sound srt s" shows "geo_sound srt (snd (append_range srt en i s))"
  using assms(2) persist_none_sound [OF assms] by (auto simp: append_range_unfold split: sum.splits prod.splits)

lemma update_sound:
  assumes "slice_sorter geo_le srt" "geo_sound srt s" shows "geo_sound srt (snd (update_range srt en orig i s))"
  using assms(2) persist_none_sound [OF assms]
  by (auto simp: update_range_unfold Let_def split: option.splits sum.splits prod.splits)

text \<open>
  What is left of a request between two steps of the code: the table is replaced after the checks (and, for a single
  range, after the table was read), and the index is published after the table was replaced or cleared; a
  reload reads the table after it compared the stamps. No lock is held from one to the next.
\<close>

datatype geo_task =
    Replace "geo_range list" "built_snapshot option" | Publish "geo_range list" "built_snapshot option" | Publish_empty
  | Load "source_stamp option" | Store built_snapshot "source_stamp option"

datatype geo_op =
    Upload "geo_range list option" bool | Append entry_input | Update string entry_input | Clear | Reload | Continue nat

record geo_world =
  gw_svc :: geo_service
  gw_tasks :: "geo_task list"

fun geo_start :: "geo_sort \<Rightarrow> geo_env \<Rightarrow> geo_op \<Rightarrow> geo_service \<Rightarrow> geo_task option \<times> geo_service" where
  "geo_start srt en (Upload body dry) s =
     (case upload_prepare srt en body dry s of
        Inl e \<Rightarrow> (None, s) | Inr (ranges, b) \<Rightarrow> (if dry then None else Some (Replace ranges (Some b)), s))"
| "geo_start srt en (Append i) s =
     (case append_prepare srt en i s of Inl e \<Rightarrow> (None, s) | Inr (entry, merged) \<Rightarrow> (Some (Replace merged None), s))"
| "geo_start srt en (Update orig i) s =
     (case update_prepare srt en orig i s of Inl e \<Rightarrow> (None, s) | Inr (entry, merged) \<Rightarrow> (Some (Replace merged None), s))"
| "geo_start srt en Clear s = (case clear_table en s of (Inl e, s1) \<Rightarrow> (None, s1) | (Inr u, s1) \<Rightarrow> (Some Publish_empty, s1))"
| "geo_start srt en Reload s = (case reload_check en s of Inl s1 \<Rightarrow> (None, s1) | Inr stamp \<Rightarrow> (Some (Load stamp), s))"
| "geo_start srt en (Continue k) s = (None, s)"

fun task_step :: "geo_sort \<Rightarrow> geo_env \<Rightarrow> bool \<Rightarrow> geo_task \<Rightarrow> geo_service \<Rightarrow> geo_task option \<times> geo_service" where
  "task_step srt en again (Replace ranges b) s =
     (case replace_table srt en ranges b s of (Inl e, s1) \<Rightarrow> (None, s1) | (Inr (n, clean), s1) \<Rightarrow> (Some (Publish clean b), s1))"
| "task_step srt en again (Publish clean b) s = (None, publish_table en clean b s)"
| "task_step srt en again Publish_empty s = (None, publish_ranges srt en [] s)"
| "task_step srt en again (Load stamp) s =
     (case load_geo_snapshot srt (ge_table en) (gs_table s) of
        Inl e \<Rightarrow> (None, s\<lparr>gs_ready := True\<rparr>) | Inr b \<Rightarrow> (Some (Store b stamp), s))"
| "task_step srt en again (Store b stamp) s = (None, reload_store en again stamp b s)"

fun geo_do :: "geo_sort \<Rightarrow> geo_env \<Rightarrow> bool \<Rightarrow> geo_op \<Rightarrow> geo_world \<Rightarrow> geo_world" where
  "geo_do srt en again (Continue k) w =
     (if k < length (gw_tasks w) then
        let (t, s) = task_step srt en again (gw_tasks w ! k) (gw_svc w) in
        \<lparr>gw_svc = s, gw_tasks = take k (gw_tasks w) @ (case t of None \<Rightarrow> [] | Some x \<Rightarrow> [x]) @ drop (Suc k) (gw_tasks w)\<rparr>
      else w)"
| "geo_do srt en again op w =
     (let (t, s) = geo_start srt en op (gw_svc w) in
      \<lparr>gw_svc = s, gw_tasks = gw_tasks w @ (case t of None \<Rightarrow> [] | Some x \<Rightarrow> [x])\<rparr>)"

text \<open>Steps in any order that \<open>G\<close> allows; with \<open>in_turn\<close> a request starts when none is under way.\<close>

inductive geo_step :: "geo_sort \<Rightarrow> (geo_world \<Rightarrow> geo_op \<Rightarrow> bool) \<Rightarrow> geo_world \<Rightarrow> geo_world \<Rightarrow> bool" for srt G where
  run: "G w op \<Longrightarrow> geo_step srt G w (geo_do srt en again op w)"

inductive_cases geo_stepE: "geo_step srt G w w'"

definition in_turn :: "geo_world \<Rightarrow> geo_op \<Rightarrow> bool" where
  "in_turn w op \<longleftrightarrow> (case op of Continue k \<Rightarrow> True | _ \<Rightarrow> gw_tasks w = [])"

fun task_inv :: "geo_sort \<Rightarrow> geo_service \<Rightarrow> geo_task \<Rightarrow> bool" where
  "task_inv srt s (Replace ranges b) =
     (geo_sound srt s \<and> (\<forall>x. b = Some x \<longrightarrow> disjoint_ranges ranges \<and> snapshot_ranges (replace_built_snapshot (Some x)) = ranges))"
| "task_inv srt s (Publish clean b) =
     (disjoint_ranges clean \<and> tb_live (gs_table s) = clean \<and>
      (\<forall>x. b = Some x \<longrightarrow> snapshot_ranges (replace_built_snapshot (Some x)) = clean))"
| "task_inv srt s Publish_empty = (tb_live (gs_table s) = [])"
| "task_inv srt s (Load stamp) = (geo_sound srt s \<and> (stamp = None \<or> stamp = Some (aggregates (tb_live (gs_table s)))))"
| "task_inv srt s (Store b stamp) =
     (geo_sound srt s \<and> (stamp = None \<or> stamp = Some (aggregates (tb_live (gs_table s)))) \<and> b = build (add_all (srt (tb_live (gs_table s)))))"

definition task_ok :: "geo_sort \<Rightarrow> geo_task option \<times> geo_service \<Rightarrow> bool" where
  "task_ok srt x \<longleftrightarrow> (case fst x of None \<Rightarrow> geo_sound srt (snd x) | Some t \<Rightarrow> task_inv srt (snd x) t)"

definition in_turn_inv :: "geo_sort \<Rightarrow> geo_world \<Rightarrow> bool" where
  "in_turn_inv srt w \<longleftrightarrow> slice_sorter geo_le srt \<and>
     (gw_tasks w = [] \<and> geo_sound srt (gw_svc w) \<or> (\<exists>t. gw_tasks w = [t] \<and> task_inv srt (gw_svc w) t))"

lemma replace_table_live:
  assumes "replace_table srt en ranges b s = (r, s1)" "slice_sorter geo_le srt" "geo_sound srt s"
    "\<And>x. b = Some x \<Longrightarrow> disjoint_ranges ranges \<and> snapshot_ranges (replace_built_snapshot (Some x)) = ranges"
  shows "r = Inl e \<Longrightarrow> geo_sound srt s1" "r = Inr (n, clean) \<Longrightarrow> task_inv srt s1 (Publish clean b)"
proof -
  define c where "c = (case b of None \<Rightarrow> fst (normalize_ranges srt ranges) | Some x \<Rightarrow> ranges)"
  have d: "disjoint_ranges c" using assms(4) normalized_disjoint [OF assms(2)] by (auto simp: c_def split: option.splits)
  obtain q t where q: "replace_geo_ranges (ge_table en) c (gs_table s) = (q, t)" by fastforce
  note live = replace_atomic(1) [OF q]
  note r = assms(1) [unfolded replace_table_def c_def [symmetric] Let_def q]
  show "geo_sound srt s1" if inl: "r = Inl e"
  proof (cases "c = []")
    case False
    then obtain e' where "q = Inl e'" "s1 = s\<lparr>gs_table := t\<rparr>" using r inl by (cases q) auto
    then show ?thesis using live live_kept_inv [of srt s t] assms(3) by (simp add: geo_sound_def)
  qed (use r assms(3) in simp)
  show "task_inv srt s1 (Publish clean b)" if "r = Inr (n, clean)"
  proof -
    have "s1 = s\<lparr>gs_table := t\<rparr>" "clean = c" "\<not> isl q" using r that by (auto split: sum.splits if_splits)
    then show ?thesis using live d assms(4) by (auto simp: c_def split: option.splits)
  qed
qed

lemma task_step_ok:
  assumes "slice_sorter geo_le srt" "task_inv srt s t"
  shows "task_ok srt (task_step srt en again t s)"
proof (cases t)
  case (Replace ranges b)
  obtain r s1 where r: "replace_table srt en ranges b s = (r, s1)" by fastforce
  have s: "geo_sound srt s" "\<And>x. b = Some x \<Longrightarrow> disjoint_ranges ranges \<and> snapshot_ranges (replace_built_snapshot (Some x)) = ranges"
    using assms(2) Replace by simp_all
  note k = replace_table_live [OF r assms(1) s]
  show ?thesis
  proof (cases r)
    case (Inr x)
    then obtain n clean where "r = Inr (n, clean)" by (cases x) auto
    then show ?thesis using k(2) r Replace by (simp add: task_ok_def)
  qed (use k(1) r Replace in \<open>simp add: task_ok_def\<close>)
next
  case (Publish clean b)
  then have c: "disjoint_ranges (tb_live (gs_table s))" "tb_live (gs_table s) = clean" using assms(2) by auto
  have "geo_inv srt (publish_table en clean b s)"
    using published_inv(1) [OF assms(1) c(1), of en] published_inv(2) [OF assms(1) c(1), where en = en] c(2) assms(2) Publish
    by (cases b) (simp_all add: publish_table_def)
  moreover have "gs_table (publish_table en clean b s) = gs_table s" by (simp add: publish_table_def split: option.split)
  ultimately show ?thesis using c Publish by (simp add: task_ok_def geo_sound_def)
next
  case Publish_empty
  then have "tb_live (gs_table s) = []" using assms(2) by simp
  then show ?thesis using published_inv(3) [OF assms(1), of s en] Publish_empty by (simp add: task_ok_def geo_sound_def)
next
  case (Load stamp)
  have "geo_inv srt (s\<lparr>gs_ready := True\<rparr>)" using assms(2) Load by (simp add: geo_sound_def geo_inv_def agrees_def stamped_def)
  then show ?thesis using assms(2) Load by (auto simp: task_ok_def load_geo_snapshot_def geo_sound_def)
next
  case (Store b stamp)
  then have i: "stamped srt s" "stamp = None \<or> stamp = Some (aggregates (tb_live (gs_table s)))"
    "b = build (add_all (srt (tb_live (gs_table s))))" "disjoint_ranges (tb_live (gs_table s))"
    using assms(2) by (auto simp: geo_sound_def geo_inv_def)
  show ?thesis using stored_inv [OF assms(1) i(1-3)] i(4) Store by (simp add: task_ok_def geo_sound_def)
qed

lemma geo_start_ok:
  assumes "slice_sorter geo_le srt" "geo_sound srt s"
  shows "task_ok srt (geo_start srt en op s)"
proof (cases op)
  case (Upload body dry)
  have "disjoint_ranges ranges \<and> snapshot_ranges (replace_built_snapshot (Some b)) = ranges"
    if "upload_prepare srt en body dry s = Inr (ranges, b)" for ranges b
    using that csv_snapshot_ranges [OF assms(1), of _ ranges b] by (auto simp: upload_prepare_def split: option.splits sum.splits if_splits)
  then show ?thesis using assms(2) Upload by (auto simp: task_ok_def split: sum.splits)
next
  case (Append i)
  then show ?thesis using assms(2) by (auto simp: task_ok_def split: sum.splits)
next
  case (Update orig i)
  then show ?thesis using assms(2) by (auto simp: task_ok_def split: sum.splits)
next
  case Clear
  obtain r t where t: "truncate_geo_ranges (ge_table en) (gs_table s) = (r, t)" by fastforce
  show ?thesis using truncate_live [OF t] t assms(2) live_kept_inv [of srt s t] Clear
    by (cases r) (simp_all add: task_ok_def clear_table_def geo_sound_def)
next
  case Reload
  show ?thesis
  proof (cases "reload_check en s")
    case (Inl s1)
    have i: "geo_inv srt s" "disjoint_ranges (tb_live (gs_table s))" using assms(2) by (simp_all add: geo_sound_def)
    have "stamped srt s" "agrees srt s" using i(1) by (simp_all add: geo_inv_def)
    then show ?thesis using checked_inv [OF Inl, of srt] i(2) Inl Reload by (simp add: task_ok_def geo_sound_def)
  next
    case (Inr stamp)
    then show ?thesis using check_stamp [OF Inr] assms(2) Reload by (simp add: task_ok_def)
  qed
qed (use assms(2) in \<open>simp add: task_ok_def\<close>)

lemma in_turn_step:
  assumes "in_turn_inv srt w" "geo_step srt in_turn w w'"
  shows "in_turn_inv srt w'"
proof -
  obtain op en again where op: "in_turn w op" "w' = geo_do srt en again op w" using assms(2) by (rule geo_stepE)
  have srt: "slice_sorter geo_le srt" using assms(1) by (simp add: in_turn_inv_def)
  have one: "in_turn_inv srt \<lparr>gw_svc = snd x, gw_tasks = (case fst x of None \<Rightarrow> [] | Some t \<Rightarrow> [t])\<rparr>" if "task_ok srt x" for x
    using that srt by (cases "fst x") (simp_all add: in_turn_inv_def task_ok_def)
  show ?thesis
  proof (cases "\<exists>k. op = Continue k")
    case True
    then obtain k where k: "op = Continue k" by blast
    show ?thesis
    proof (cases "k < length (gw_tasks w)")
      case True
      then obtain t where t: "gw_tasks w = [t]" "task_inv srt (gw_svc w) t" "k = 0" using assms(1) by (auto simp: in_turn_inv_def)
      from one [OF task_step_ok [OF srt t(2), of en again]] show ?thesis using t op(2) k by (simp add: split_beta)
    qed (use op(2) k assms(1) in simp)
  next
    case False
    then have w: "gw_tasks w = []" "geo_sound srt (gw_svc w)" using op(1) assms(1)
      by (cases op; auto simp: in_turn_def in_turn_inv_def)+
    from one [OF geo_start_ok [OF srt w(2), of en op]] show ?thesis using w(1) op(2) False by (cases op) (simp_all add: split_beta)
  qed
qed

interpretation geo_sys: invariant_system "in_turn_inv srt" "geo_step srt in_turn" "in_turn_inv srt" for srt
  using in_turn_step by unfold_locales blast+

text \<open>The start of the service: the file is loaded, then the first reload compares it with the table.\<close>

lemma first_reload:
  assumes "slice_sorter geo_le srt" "disjoint_ranges (tb_live t)" "file_true srt t (trim_space path) d"
    "reload srt en again (snd (load_disk en0 (new_reloadable_index path mx soft t d))) = (Inr (), s)"
  shows "geo_sound srt s"
proof -
  let ?n = "new_reloadable_index path mx soft t d"
  let ?s = "snd (load_disk en0 ?n)"
  have f: "gs_table ?s = t" "gs_path ?s = trim_space path" "gs_disk ?s = d"
    by (simp_all add: load_disk_def new_reloadable_index_def split: option.split prod.split)
  then have st: "stamped srt ?s" using assms(3) by (simp add: stamped_def)
  have ag: "agrees srt ?s" if g: "gs_stamp ?s = Some (aggregates (tb_live (gs_table ?s)))"
  proof -
    obtain b where b: "read_snapshot_file en0 ?n = Some (b, aggregates (tb_live t))" "gs_index ?s = replace_built_snapshot (Some b)"
      using g f(1) by (auto simp: load_disk_def new_reloadable_index_def split: option.splits prod.splits)
    have "file_true srt (gs_table ?n) (gs_path ?n) (gs_disk ?n)" "gs_table ?n = t" using assms(3) by (simp_all add: new_reloadable_index_def)
    then have "snapshot_ranges (replace_built_snapshot (Some b)) = fst (normalize_ranges srt (tb_live t))"
      using file_read [of srt ?n en0 b] b(1) by simp
    then show ?thesis using b(2) f(1) by (simp add: agrees_def)
  qed
  have "geo_inv srt s \<and> gs_table s = t"
  proof (cases "reload_check en ?s")
    case (Inl u)
    then show ?thesis using checked_inv [OF Inl st ag] assms(4) f(1) by (simp add: reload_def)
  next
    case (Inr stamp)
    then obtain b where b: "b = build (add_all (srt (tb_live (gs_table ?s))))" "s = reload_store en again stamp b ?s"
      using assms(4) by (auto simp: reload_def load_geo_snapshot_def split: if_splits)
    then show ?thesis using stored_inv [OF assms(1) st check_stamp [OF Inr] b(1)] f(1) by simp
  qed
  then show ?thesis using assms(2) by (simp add: geo_sound_def)
qed

lemma sound_lookup:
  assumes "slice_sorter geo_le srt" "geo_sound srt s"
  shows "lookup_range (gs_index s) (uint32_to_ip v) = find (\<lambda>g. covers g v) (tb_live (gs_table s))"
proof -
  let ?l = "tb_live (gs_table s)"
  have d: "disjoint_ranges ?l" using assms(2) by (simp add: geo_sound_def)
  obtain sn where sn: "gs_index s = Some sn" "snapshot_ranges (gs_index s) = ?l"
    using assms(2) normalize_disjoint [OF assms(1) d] by (auto simp: geo_sound_def geo_inv_def agrees_def)
  have "trim_space (uint32_to_ip v) = uint32_to_ip v"
    using dotted_plain [of "octets v"] by (simp add: uint32_to_ip_def trim_space_all_plain octets_def)
  moreover have v4: "ipv4_to_uint32 (to4 ip) = ipv4_to_uint32 ip" for ip by (simp add: ipv4_to_uint32_def)
  moreover have "ipv4_to_uint32 (v4_prefix @ octets v) = v" by (metis v4 to4_mapped ipv4_to_uint32_octets)
  moreover have "octets v \<noteq> []" by (simp add: octets_def)
  ultimately show ?thesis
    unfolding lookup_via_ranges(1) [OF sn(1)] sn(2)
    by (simp add: find_containing_range_def find_locked_disjoint [OF d] Let_def parse_ip_uint32)
qed

end
