(* ===== verification/Geo_Promises.thy ===== *)
theory Geo_Promises
  imports Geo_Agreement
begin

text \<open>
  The properties of the GeoIP service: the index agrees with the table after any requests and failures, a range that
  was entered or changed by hand is found and changes no other address, and the limits of an upload; with the two cases
  in which a change is lost.
\<close>

section \<open>Changing one range\<close>

lemma find_one_more:
  assumes "disjoint_ranges rs" "disjoint_ranges rs'" "set rs' = insert g (set rs)"
  shows "find (\<lambda>r. covers r v) rs' = (if covers g v then Some g else find (\<lambda>r. covers r v) rs)"
proof (cases "find (\<lambda>r. covers r v) rs'")
  case None
  then have none: "\<not> (\<exists>x. x \<in> set rs' \<and> covers x v)" by (simp add: find_None_iff)
  then have "find (\<lambda>r. covers r v) rs = None" using assms(3) unfolding find_None_iff by blast
  then show ?thesis using None none assms(3) by auto
next
  case (Some h)
  then have h: "h \<in> set rs'" "covers h v" using find_disjoint [OF assms(2)] by blast+
  show ?thesis
  proof (cases "covers g v")
    case True
    then show ?thesis using find_disjoint [OF assms(2), of v g] assms(3) by simp
  next
    case False
    then have "h \<in> set rs" using h assms(3) by auto
    then show ?thesis using Some h False find_disjoint [OF assms(1), of v h] by simp
  qed
qed

lemma kept_disjoint: "disjoint_ranges rs \<Longrightarrow> disjoint_ranges (filter P rs)"
  by (auto simp: disjoint_ranges_def list_all_iff sorted_wrt_filter)

lemma find_one_less:
  assumes "disjoint_ranges rs" "h \<in> set rs" "start_ip h = a" "end_ip h = b"
  shows "find (\<lambda>r. covers r v) (filter (\<lambda>g. \<not> (start_ip g = a \<and> end_ip g = b)) rs) =
    (if a \<le> v \<and> v \<le> b then None else find (\<lambda>r. covers r v) rs)"
proof -
  let ?k = "filter (\<lambda>g. \<not> (start_ip g = a \<and> end_ip g = b)) rs"
  have k: "disjoint_ranges ?k" using assms(1) by (rule kept_disjoint)
  show ?thesis
  proof (cases "a \<le> v \<and> v \<le> b")
    case True
    then have "covers h v" using assms(3,4) by (simp add: covers_def)
    then have h: "find (\<lambda>r. covers r v) rs = Some h" using find_disjoint [OF assms(1)] assms(2) by blast
    have "\<not> covers g v" if "g \<in> set ?k" for g
      using that find_disjoint [OF assms(1), of v g] h assms(3,4) by auto
    then have "find (\<lambda>r. covers r v) ?k = None" unfolding find_None_iff by blast
    then show ?thesis using True by simp
  next
    case False
    have other: "start_ip g = a \<and> end_ip g = b \<Longrightarrow> \<not> covers g v" for g using False by (auto simp: covers_def)
    show ?thesis
    proof (cases "find (\<lambda>r. covers r v) rs")
      case None
      then have "\<not> (\<exists>x. x \<in> set rs \<and> covers x v)" by (simp add: find_None_iff)
      then have "find (\<lambda>r. covers r v) ?k = None" unfolding find_None_iff by auto
      then show ?thesis using None False by auto
    next
      case (Some g)
      then have "g \<in> set rs \<and> covers g v" using find_disjoint [OF assms(1)] by blast
      then have "find (\<lambda>r. covers r v) ?k = Some g" using other [of g] find_disjoint [OF k, of v g] by auto
      then show ?thesis using Some False by simp
    qed
  qed
qed

lemma check_none_disjoint:
  assumes "slice_sorter geo_le srt" "list_all valid_range rs" "check_non_overlapping srt rs = None" "rs \<noteq> []"
  shows "disjoint_ranges (srt rs)"
proof (cases "srt rs")
  case (Cons g gs)
  have "valid_range g" using assms(2) Cons slice_sorter.srt_set [OF assms(1), of rs] by (auto simp: list_all_iff)
  then show ?thesis using Cons assms(3,4) by (simp add: check_non_overlapping_def check_pairs_valid csv_check_Some)
qed simp

lemma entry_valid: "parse_entry i = Inr g \<Longrightarrow> valid_range g"
  by (auto simp: parse_entry_def parse_range_entry_def Let_def valid_range_def dest: parse_network_field_valid
      split: prod.splits option.splits if_splits)

lemma persist_none:
  assumes "persist_ranges srt en rs None s = (Inr n, s')"
  shows "n = length (fst (normalize_ranges srt rs))"
proof -
  obtain q t where q: "replace_geo_ranges (ge_table en) (fst (normalize_ranges srt rs)) (gs_table s) = (q, t)" by fastforce
  show ?thesis using assms q replace_atomic(2) [OF q] by (auto simp: persist_ranges_unfold Let_def split: if_splits sum.splits)
qed

lemma merged_live:
  assumes "slice_sorter geo_le srt" "disjoint_ranges old" "valid_range g" "merge_append srt g old = Inr merged"
    "geo_sound srt s" "persist_ranges srt en merged None s = (Inr n, s')"
  shows "disjoint_ranges (tb_live (gs_table s')) \<and> set (tb_live (gs_table s')) = insert g (set old) \<and> n = length old + 1"
proof -
  have m: "merged = old @ [g]" "check_non_overlapping srt merged = None"
    using assms(4) by (auto simp: merge_append_def Let_def split: option.splits)
  have "list_all valid_range merged" using m(1) assms(2,3) by (simp add: disjoint_ranges_def)
  then have d: "disjoint_ranges (srt merged)" using check_none_disjoint [OF assms(1) _ m(2)] m(1) by simp
  then have "fst (normalize_ranges srt merged) = srt merged"
    using foldl_norm_skip_0 [of "srt merged" "srt merged"] m(1) by (simp add: normalize_ranges_def)
  moreover have "set (srt merged) = set merged" by (rule slice_sorter.srt_set [OF assms(1)])
  moreover have "length (srt merged) = length merged" by (rule slice_sorter.srt_length [OF assms(1)])
  moreover have "tb_live (gs_table s') = fst (normalize_ranges srt merged)"
    using persist_ranges_inv(2) [OF assms(1) _ assms(6)] assms(5) by (simp add: geo_sound_def)
  ultimately show ?thesis using persist_none [OF assms(6)] d m(1) by simp
qed

lemma persist_error_live:
  assumes "slice_sorter geo_le srt" "geo_sound srt s" "persist_ranges srt en rs None s = (Inl e, s')"
  shows "tb_live (gs_table s') = tb_live (gs_table s)"
  using persist_ranges_inv(2) [OF assms(1) _ assms(3)] assms(2) by (simp add: geo_sound_def)

lemma load_sound:
  assumes "slice_sorter geo_le srt" "geo_sound srt s"
  shows "load_geo_ranges srt en (gs_table s) = (if te_select en then Inr (tb_live (gs_table s)) else Inl Query_failed)"
  using assms disjoint_sorted_unique [OF assms(1)] by (simp add: load_geo_ranges_def geo_sound_def)


lemma not_found_only:
  "merge_append srt g old \<noteq> Inl G_not_found" "persist_ranges srt en rs None s \<noteq> (Inl G_not_found, s')"
proof -
  show "merge_append srt g old \<noteq> Inl G_not_found"
    by (cases "check_non_overlapping srt (old @ [g])") (simp_all add: merge_append_def)
  obtain q t where "replace_geo_ranges (ge_table en) (fst (normalize_ranges srt rs)) (gs_table s) = (q, t)" by fastforce
  then show "persist_ranges srt en rs None s \<noteq> (Inl G_not_found, s')"
    by (cases q) (simp_all add: persist_ranges_unfold Let_def)
qed

lemma update_error:
  assumes "slice_sorter geo_le srt" "geo_sound srt s" "parse_network_field orig = Some (a, b)"
    "update_range srt en orig i s = (Inl e, s')"
  shows "tb_live (gs_table s') = tb_live (gs_table s) \<and>
    (e = G_not_found \<longrightarrow> \<not> (\<exists>h \<in> set (tb_live (gs_table s)). start_ip h = a \<and> end_ip h = b))"
proof -
  let ?l = "tb_live (gs_table s)"
  let ?k = "filter (\<lambda>g. \<not> (start_ip g = a \<and> end_ip g = b)) ?l"
  note u = assms(4) [unfolded update_range_unfold assms(3) option.case prod.case Let_def load_sound [OF assms(1,2)]]
  show ?thesis
  proof (cases "parse_entry i")
    case (Inr g)
    note u = u [unfolded Inr sum.case]
    show ?thesis
    proof (cases "te_select (ge_table en) \<and> list_ex (\<lambda>g. start_ip g = a \<and> end_ip g = b) ?l")
      case False
      then show ?thesis using u by (auto simp: list_ex_iff split: if_splits)
    next
      case True
      then have sel: "te_select (ge_table en) = True" "list_ex (\<lambda>g. start_ip g = a \<and> end_ip g = b) ?l = True" by simp_all
      note u = u [unfolded sel if_True sum.case not_True_eq_False if_False]
      show ?thesis
      proof (cases "merge_append srt g ?k")
        case (Inl e')
        then show ?thesis using u not_found_only(1) [of srt g ?k] by auto
      next
        case (Inr m)
        obtain q s1 where "persist_ranges srt en m None s = (q, s1)" by fastforce
        then show ?thesis using u [unfolded Inr sum.case] not_found_only(2) [of srt en m s s1] persist_error_live [OF assms(1,2), of en m _ s1]
          by (cases q) auto
      qed
    qed
  qed (use u in auto)
qed

lemma update_done:
  assumes "slice_sorter geo_le srt" "geo_sound srt s" "parse_network_field orig = Some (a, b)"
    "update_range srt en orig i s = (Inr (n, g), s')"
  shows "parse_entry i = Inr g" "\<exists>h \<in> set (tb_live (gs_table s)). start_ip h = a \<and> end_ip h = b"
    "find (\<lambda>r. covers r v) (tb_live (gs_table s')) = (if covers g v then Some g else if a \<le> v \<and> v \<le> b then None
       else find (\<lambda>r. covers r v) (tb_live (gs_table s)))"
proof -
  let ?l = "tb_live (gs_table s)"
  let ?k = "filter (\<lambda>g. \<not> (start_ip g = a \<and> end_ip g = b)) ?l"
  have d: "disjoint_ranges ?l" using assms(2) by (simp add: geo_sound_def)
  obtain merged where ng: "parse_entry i = Inr g" "merge_append srt g ?k = Inr merged"
      "persist_ranges srt en merged None s = (Inr n, s')" "list_ex (\<lambda>g. start_ip g = a \<and> end_ip g = b) ?l"
    using assms(4) load_sound [OF assms(1,2), of "ge_table en"]
    unfolding update_range_unfold assms(3) option.case prod.case Let_def
    by (auto split: sum.splits prod.splits if_splits)
  obtain h where h: "h \<in> set ?l" "start_ip h = a" "end_ip h = b" using ng(4) by (auto simp: list_ex_iff)
  note m = merged_live [OF assms(1) kept_disjoint [OF d] entry_valid [OF ng(1)] ng(2) assms(2) ng(3)]
  then have "find (\<lambda>r. covers r v) (tb_live (gs_table s')) = (if covers g v then Some g else find (\<lambda>r. covers r v) ?k)"
    using find_one_more [OF kept_disjoint [OF d]] by blast
  then show "find (\<lambda>r. covers r v) (tb_live (gs_table s')) = (if covers g v then Some g else if a \<le> v \<and> v \<le> b then None
       else find (\<lambda>r. covers r v) ?l)"
    using find_one_less [OF d h] by simp
  show "parse_entry i = Inr g" by (rule ng(1))
  show "\<exists>h \<in> set ?l. start_ip h = a \<and> end_ip h = b" using h by blast
qed

section \<open>A service with two ranges\<close>

definition calm_table :: table_env where
  "calm_table = \<lparr>te_drop = True, te_create = True, te_row = \<lambda>i. True, te_send = \<lambda>i. True, te_count = True, te_exchange = True,
     te_cleanup = True, te_truncate = True, te_select = True\<rparr>"

definition calm_geo :: geo_env where
  "calm_geo = \<lparr>ge_table = calm_table, ge_readable = True, ge_write = Written, ge_remove = True, ge_heavy = True, ge_heap = 0,
     ge_approx = \<lambda>s. 0\<rparr>"

definition two_ranges :: geo_table where
  "two_ranges = \<lparr>tb_live = [ex_range 1 5 ''A'', ex_range 6 9 ''B''], tb_staging = None\<rparr>"

definition two_service :: geo_service where
  "two_service = snd (reload (sort_by geo_le) calm_geo True (snd (load_disk calm_geo (new_reloadable_index [] 0 0 two_ranges Map.empty))))"

definition ten_entry :: entry_input where
  "ten_entry = (uint32_to_ip 0x0A000001, ''A'', ''B'', ''C'', 0x7FF8000000000001, 0x7FF8000000000001)"

definition ten_range :: geo_range where
  "ten_range = \<lparr>start_ip = 0x0A000001, end_ip = 0x0A000001, country = ''A'', region = ''B'', city = ''C'',
     lat = 0x7FF8000000000001, lon = 0x7FF8000000000001\<rparr>"

lemma ten_parsed: "parse_entry ten_entry = Inr ten_range"
proof -
  have "parse_network_field (uint32_to_ip 0x0A000001) = Some (0x0A000001, 0x0A000001)"
    using parse_network_field_format [of "0x0A000001" "0x0A000001"] by (simp add: format_network_def)
  moreover have "trim_space ''A'' = ''A''" "trim_space ''B'' = ''B''" "trim_space ''C'' = ''C''"
    by (simp_all add: trim_space_plain plain_def code_def)
  moreover have "f64_nan 0x7FF8000000000001" by (simp add: f64_nan_def)
  ultimately show ?thesis by (simp add: parse_entry_def ten_entry_def ten_range_def parse_range_entry_def f64_lt_def)
qed

lemma two_disjoint: "disjoint_ranges (tb_live two_ranges)"
  by (simp add: two_ranges_def disjoint_ranges_def valid_range_def before_def ex_range_def)

lemma two_started:
  "reload (sort_by geo_le) calm_geo True (snd (load_disk calm_geo (new_reloadable_index [] 0 0 two_ranges Map.empty))) = (Inr (), two_service)"
  by (rule prod_eqI) (simp_all add: two_service_def load_disk_def reload_unfold query_source_stamp_def load_geo_snapshot_def calm_geo_def calm_table_def
      new_reloadable_index_def read_snapshot_file_def Let_def)

lemma no_file: "file_true srt t path Map.empty"
  by (simp add: file_true_def)

lemma two_table: "gs_table two_service = two_ranges"
  by (simp add: two_service_def load_disk_def new_reloadable_index_def read_snapshot_file_def)

lemma two_sound: "geo_sound (sort_by geo_le) two_service" "tb_live (gs_table two_service) = tb_live two_ranges"
  using first_reload [OF geo_sort.slice_sorter_axioms two_disjoint no_file two_started] two_table by simp_all

lemma calm_fields:
  "te_drop calm_table" "te_create calm_table" "te_row calm_table n" "te_send calm_table n" "te_count calm_table"
  "te_exchange calm_table" "te_cleanup calm_table" "te_truncate calm_table" "te_select calm_table"
  by (simp_all add: calm_table_def)

lemma calm_insert: "length pend + length rs < insert_batch \<Longrightarrow> i = length pend \<Longrightarrow> insert_rows calm_table i pend rs [] = (True, pend @ rs)"
proof (induction rs arbitrary: i pend)
  case (Cons r rs)
  then show ?case using Cons.IH [of "pend @ [r]" "Suc i"] by (simp add: calm_fields)
qed (simp add: calm_fields)

lemma calm_persist:
  assumes "fst (normalize_ranges srt rs) \<noteq> []" "length (fst (normalize_ranges srt rs)) < insert_batch"
  shows "\<exists>s'. persist_ranges srt calm_geo rs None s = (Inr (length (fst (normalize_ranges srt rs))), s')"
proof -
  have "replace_geo_ranges calm_table (fst (normalize_ranges srt rs)) t =
      (Inr (length (fst (normalize_ranges srt rs))), \<lparr>tb_live = fst (normalize_ranges srt rs), tb_staging = None\<rparr>)" for t
    using calm_insert [of "[]" "fst (normalize_ranges srt rs)" 0] assms
    by (simp add: replace_geo_ranges_def replace_via_staging_def fill_staging_def drop_staging_def calm_fields)
  then show ?thesis using assms(1) by (simp add: persist_ranges_unfold calm_geo_def Let_def)
qed

section \<open>Properties\<close>

text \<open>C10: The index of GeoIP ranges agrees with the table. The service starts as in production: the file of the index is loaded,
  and a first reload succeeds. Then uploads, additions, changes, clearings and reloads follow in the steps of the code
  (the table is read, the table is replaced or cleared, the index is published), whatever statements, writes and removals
  of the file fail, while a request that changes the ranges or reloads them starts only when none is under way. The table then holds
  disjoint ranges, and the range that the index finds for an address is the one of the table that covers it,
  except between the replacement of the table and the publication of the index. The hypotheses: the table starts
  with disjoint ranges, and a file whose stamp is that of the table holds its ranges. The stamp leaves the names out, so a
  file with outdated names breaks the second (\<open>restart_keeps_names\<close>), and requests that overlap break the result
  (\<open>overlapping_requests_disagree\<close>).\<close>
theorem geo_index_agrees:
  assumes "slice_sorter geo_le srt" "disjoint_ranges (tb_live t)" "file_true srt t (trim_space path) d"
    "reload srt en again (snd (load_disk en0 (new_reloadable_index path mx soft t d))) = (Inr (), s0)"
    "(geo_step srt in_turn)\<^sup>*\<^sup>* \<lparr>gw_svc = s0, gw_tasks = []\<rparr> w"
  shows "disjoint_ranges (tb_live (gs_table (gw_svc w))) \<and>
    ((\<forall>c b. Publish c b \<notin> set (gw_tasks w)) \<and> Publish_empty \<notin> set (gw_tasks w) \<longrightarrow>
      lookup_range (gs_index (gw_svc w)) (uint32_to_ip v) = find (\<lambda>g. covers g v) (tb_live (gs_table (gw_svc w))))"
proof -
  have "in_turn_inv srt \<lparr>gw_svc = s0, gw_tasks = []\<rparr>" using first_reload [OF assms(1-4)] assms(1) by (simp add: in_turn_inv_def)
  from geo_sys.reachable_inv [OF assms(5) this] consider "geo_sound srt (gw_svc w)"
    | t where "gw_tasks w = [t]" "task_inv srt (gw_svc w) t" by (auto simp: in_turn_inv_def)
  then show ?thesis
  proof cases
    case 1
    then show ?thesis using sound_lookup [OF assms(1) 1] by (simp add: geo_sound_def)
  next
    case (2 t)
    then show ?thesis using sound_lookup [OF assms(1), of "gw_svc w"] by (cases t) (auto simp: geo_sound_def)
  qed
qed

lemma two_cleared:
  "geo_do (sort_by geo_le) calm_geo True Clear \<lparr>gw_svc = two_service, gw_tasks = []\<rparr> =
     \<lparr>gw_svc = two_service\<lparr>gs_table := \<lparr>tb_live = [], tb_staging = None\<rparr>\<rparr>, gw_tasks = [Publish_empty]\<rparr>"
  by (simp add: clear_table_def truncate_geo_ranges_def calm_geo_def calm_table_def two_table two_ranges_def drop_staging_def)

theorem geo_index_agrees_witness:
  "lookup_range (gs_index (publish_ranges (sort_by geo_le) calm_geo [] (two_service\<lparr>gs_table := \<lparr>tb_live = [], tb_staging = None\<rparr>\<rparr>)))
     (uint32_to_ip 3) = None \<and>
   lookup_range (gs_index two_service) (uint32_to_ip 3) = Some (ex_range 1 5 ''A'')"
proof -
  let ?w0 = "\<lparr>gw_svc = two_service, gw_tasks = []\<rparr>"
  let ?w1 = "geo_do (sort_by geo_le) calm_geo True Clear ?w0"
  let ?w2 = "geo_do (sort_by geo_le) calm_geo True (Continue 0) ?w1"
  have "geo_step (sort_by geo_le) in_turn ?w0 ?w1" "geo_step (sort_by geo_le) in_turn ?w1 ?w2"
    by (rule geo_step.run, simp add: in_turn_def)+
  then have r: "(geo_step (sort_by geo_le) in_turn)\<^sup>*\<^sup>* ?w0 ?w2" by (meson converse_rtranclp_into_rtranclp r_into_rtranclp)
  note a = geo_index_agrees [OF geo_sort.slice_sorter_axioms two_disjoint no_file two_started r, of 3]
  note b = geo_index_agrees [OF geo_sort.slice_sorter_axioms two_disjoint no_file two_started rtranclp.rtrancl_refl, of 3]
  have w2: "?w2 = \<lparr>gw_svc = publish_ranges (sort_by geo_le) calm_geo [] (two_service\<lparr>gs_table := \<lparr>tb_live = [], tb_staging = None\<rparr>\<rparr>), gw_tasks = []\<rparr>"
    unfolding two_cleared by simp
  show ?thesis using a b unfolding w2 by (simp add: two_sound(2)) (simp add: two_ranges_def ex_range_def covers_def)
qed

text \<open>C11: Adding a range by hand. \<^verbatim>\<open>AppendRange\<close> that succeeds reports one range more, and afterwards a lookup of an
  address in the new range finds it, while every other address is found as before; one that fails, because of the input,
  an overlap, the table or no ranges, changes no answer.\<close>
theorem append_range_lookup:
  assumes "slice_sorter geo_le srt" "geo_sound srt s" "append_range srt en i s = (r, s')"
  shows "lookup_range (gs_index s') (uint32_to_ip v) =
      (case r of Inr (n, g) \<Rightarrow> if covers g v then Some g else lookup_range (gs_index s) (uint32_to_ip v)
       | Inl e \<Rightarrow> lookup_range (gs_index s) (uint32_to_ip v))
    \<and> (case r of Inr (n, g) \<Rightarrow> n = length (tb_live (gs_table s)) + 1 \<and> parse_entry i = Inr g
       | Inl e \<Rightarrow> tb_live (gs_table s') = tb_live (gs_table s))"
proof -
  have s': "geo_sound srt s'" using append_sound [OF assms(1,2), of en i] assms(3) by simp
  note look = sound_lookup [OF assms(1,2)] sound_lookup [OF assms(1) s']
  have d: "disjoint_ranges (tb_live (gs_table s))" using assms(2) by (simp add: geo_sound_def)
  show ?thesis
  proof (cases r)
    case (Inl e)
    have "tb_live (gs_table s') = tb_live (gs_table s)"
      using assms(3) Inl persist_error_live [OF assms(1,2)]
      by (auto simp: append_range_unfold split: sum.splits prod.splits)
    then show ?thesis using Inl look by simp
  next
    case (Inr ng)
    obtain n g merged where ng: "ng = (n, g)" "parse_entry i = Inr g" "merge_append srt g (tb_live (gs_table s)) = Inr merged"
        "persist_ranges srt en merged None s = (Inr n, s')"
      using assms(3) Inr load_sound [OF assms(1,2)]
      by (auto simp: append_range_unfold split: sum.splits prod.splits if_splits)
    note m = merged_live [OF assms(1) d entry_valid [OF ng(2)] ng(3) assms(2) ng(4)]
    then show ?thesis using Inr ng(1,2) look find_one_more [OF d, of "tb_live (gs_table s')" g v] by simp
  qed
qed

theorem append_range_lookup_witness:
  "\<exists>s'. append_range (sort_by geo_le) calm_geo ten_entry two_service = (Inr (3, ten_range), s') \<and>
    lookup_range (gs_index s') (uint32_to_ip 0x0A000001) = Some ten_range \<and>
    lookup_range (gs_index s') (uint32_to_ip 3) = lookup_range (gs_index two_service) (uint32_to_ip 3)"
proof -
  let ?l = "tb_live two_ranges"
  have m: "merge_append (sort_by geo_le) ten_range ?l = Inr (?l @ [ten_range])"
    by (simp add: merge_append_def check_non_overlapping_def two_ranges_def ex_range_def ten_range_def geo_le_def)
  have n: "fst (normalize_ranges (sort_by geo_le) (?l @ [ten_range])) = ?l @ [ten_range]"
    by (simp add: normalize_ranges_def two_ranges_def ex_range_def ten_range_def geo_le_def norm_step_def)
  obtain s' where "persist_ranges (sort_by geo_le) calm_geo (?l @ [ten_range]) None two_service = (Inr 3, s')"
    using calm_persist [of "sort_by geo_le" "?l @ [ten_range]" two_service] unfolding n
    by (auto simp: two_ranges_def insert_batch_def)
  then have a: "append_range (sort_by geo_le) calm_geo ten_entry two_service = (Inr (3, ten_range), s')"
    using load_sound [OF geo_sort.slice_sorter_axioms two_sound(1), of calm_table] m
    by (simp add: append_range_unfold ten_parsed two_sound(2) calm_geo_def) (simp add: calm_table_def)
  show ?thesis
    using a append_range_lookup [OF geo_sort.slice_sorter_axioms two_sound(1) a, of "0x0A000001"]
      append_range_lookup [OF geo_sort.slice_sorter_axioms two_sound(1) a, of 3]
    by (simp add: ten_range_def covers_def)
qed

text \<open>C12: Changing a range by hand. \<^verbatim>\<open>UpdateRange\<close> that succeeds had a range with the bounds of the original network;
  afterwards a lookup of an address in the new range finds it, an address that only the original network held is in no
  range, and every other address is found as before; one that fails changes no answer, and it reports that the original
  is not found only when no range has its bounds.\<close>
theorem update_range_lookup:
  assumes "slice_sorter geo_le srt" "geo_sound srt s" "parse_network_field orig = Some (a, b)"
    "update_range srt en orig i s = (r, s')"
  shows "lookup_range (gs_index s') (uint32_to_ip v) =
      (case r of Inr (n, g) \<Rightarrow> if covers g v then Some g else if a \<le> v \<and> v \<le> b then None
         else lookup_range (gs_index s) (uint32_to_ip v)
       | Inl e \<Rightarrow> lookup_range (gs_index s) (uint32_to_ip v))
    \<and> (case r of Inr (n, g) \<Rightarrow> parse_entry i = Inr g \<and> (\<exists>h \<in> set (tb_live (gs_table s)). start_ip h = a \<and> end_ip h = b)
       | Inl e \<Rightarrow> tb_live (gs_table s') = tb_live (gs_table s)
         \<and> (e = G_not_found \<longrightarrow> \<not> (\<exists>h \<in> set (tb_live (gs_table s)). start_ip h = a \<and> end_ip h = b)))"
proof -
  have s': "geo_sound srt s'" using update_sound [OF assms(1,2), of en orig i] assms(4) by simp
  note look = sound_lookup [OF assms(1,2)] sound_lookup [OF assms(1) s']
  show ?thesis
  proof (cases r)
    case (Inl e)
    then show ?thesis using update_error [OF assms(1-3), of en i e s'] assms(4) look by simp
  next
    case (Inr ng)
    obtain n g where ng: "ng = (n, g)" by fastforce
    then show ?thesis using update_done [OF assms(1-3), of en i n g s'] assms(4) look Inr by auto
  qed
qed

theorem update_range_lookup_witness:
  "\<exists>s'. update_range (sort_by geo_le) calm_geo (format_network 1 5) ten_entry two_service = (Inr (2, ten_range), s') \<and>
    lookup_range (gs_index s') (uint32_to_ip 0x0A000001) = Some ten_range \<and> lookup_range (gs_index s') (uint32_to_ip 3) = None"
proof -
  let ?b = "ex_range 6 9 ''B''"
  have p: "parse_network_field (format_network 1 5) = Some (1, 5)" by (simp add: parse_network_field_format)
  have m: "merge_append (sort_by geo_le) ten_range [?b] = Inr [?b, ten_range]"
    by (simp add: merge_append_def check_non_overlapping_def ex_range_def ten_range_def geo_le_def)
  have n: "fst (normalize_ranges (sort_by geo_le) [?b, ten_range]) = [?b, ten_range]"
    by (simp add: normalize_ranges_def ex_range_def ten_range_def geo_le_def norm_step_def)
  obtain s' where s': "persist_ranges (sort_by geo_le) calm_geo [?b, ten_range] None two_service = (Inr 2, s')"
    using calm_persist [of "sort_by geo_le" "[?b, ten_range]" two_service] unfolding n by (auto simp: insert_batch_def)
  have l: "load_geo_ranges (sort_by geo_le) (ge_table calm_geo) (gs_table two_service) = Inr [ex_range 1 5 ''A'', ?b]"
    using load_sound [OF geo_sort.slice_sorter_axioms two_sound(1), of calm_table]
    by (simp add: calm_geo_def two_sound(2)) (simp add: calm_table_def two_ranges_def)
  have f: "filter (\<lambda>g. \<not> (start_ip g = 1 \<and> end_ip g = 5)) [ex_range 1 5 ''A'', ?b] = [?b]"
      "list_ex (\<lambda>g. start_ip g = 1 \<and> end_ip g = 5) [ex_range 1 5 ''A'', ?b]" by (simp_all add: ex_range_def)
  have a: "update_range (sort_by geo_le) calm_geo (format_network 1 5) ten_entry two_service = (Inr (2, ten_range), s')"
    unfolding update_range_unfold p option.case prod.case ten_parsed sum.case l Let_def f(1) m s' using f(2) by simp
  show ?thesis
    using a update_range_lookup [OF geo_sort.slice_sorter_axioms two_sound(1) p a, of "0x0A000001"]
      update_range_lookup [OF geo_sort.slice_sorter_axioms two_sound(1) p a, of 3]
    by (simp add: ten_range_def covers_def)
qed

section \<open>Where a change is lost\<close>

text \<open>Reading the table and replacing it are two steps without a lock around them: when two requests have read the same
  ranges, the second one replaces the table without the range of the first, which was reported as added.\<close>

lemma concurrent_appends_lose:
  assumes "slice_sorter geo_le srt" "geo_sound srt s" "valid_range e1" "valid_range e2"
    "merge_append srt e1 (tb_live (gs_table s)) = Inr m1" "merge_append srt e2 (tb_live (gs_table s)) = Inr m2"
    "persist_ranges srt en1 m1 None s = (Inr n1, s1)" "persist_ranges srt en2 m2 None s1 = (Inr n2, s2)"
    "e1 \<noteq> e2" "e1 \<notin> set (tb_live (gs_table s))"
  shows "e1 \<in> set (tb_live (gs_table s1)) \<and> e1 \<notin> set (tb_live (gs_table s2))"
proof -
  have d: "disjoint_ranges (tb_live (gs_table s))" using assms(2) by (simp add: geo_sound_def)
  have s1: "geo_sound srt s1" by (rule persist_none_sound [OF assms(1,2,7)])
  show ?thesis
    using merged_live [OF assms(1) d assms(3,5) assms(2,7)] merged_live [OF assms(1) d assms(4,6) s1 assms(8)] assms(9,10) by simp
qed

text \<open>Two requests that have replaced the table publish in the other order: the index answers from ranges that the table no longer holds.\<close>

lemma overlapping_requests_disagree:
  fixes w :: geo_world
  assumes "gw_tasks w = [Publish [ex_range 1 5 ''A''] None, Publish [ex_range 6 9 ''B''] None]"
    "tb_live (gs_table (gw_svc w)) = [ex_range 6 9 ''B'']"
    "w' = geo_do srt en again (Continue 0) (geo_do srt en again (Continue 1) w)"
  shows "gw_tasks w' = []" "tb_live (gs_table (gw_svc w')) = [ex_range 6 9 ''B'']" "snapshot_ranges (gs_index (gw_svc w')) = [ex_range 1 5 ''A'']"
proof -
  have "disjoint_ranges [ex_range 1 5 ''A'']" by (simp add: disjoint_ranges_def valid_range_def ex_range_def)
  then have "snapshot_ranges (replace_normalized_ranges [ex_range 1 5 ''A'']) = [ex_range 1 5 ''A'']"
    by (rule replace_normalized_ranges_of)
  then show "gw_tasks w' = []" "tb_live (gs_table (gw_svc w')) = [ex_range 6 9 ''B'']" "snapshot_ranges (gs_index (gw_svc w')) = [ex_range 1 5 ''A'']"
    using assms(2) by (simp_all add: assms(3) assms(1) publish_table_def publish_normalized_def)
qed

text \<open>The stamp is computed from the addresses alone. When the file of the index could not be written after names were
  changed, the next start reads the old names from the file and keeps them, as the stamps are equal.\<close>

lemma stamp_ignores_names:
  assumes "map (\<lambda>g. (start_ip g, end_ip g)) rs = map (\<lambda>g. (start_ip g, end_ip g)) rs'"
  shows "aggregates rs = aggregates rs'"
proof -
  have m: "map f rs = map f rs'" if "\<And>g. f g = h (start_ip g, end_ip g)" for f :: "geo_range \<Rightarrow> 'a" and h
  proof -
    have c: "map h (map (\<lambda>g. (start_ip g, end_ip g)) xs) = map f xs" for xs
      unfolding list.map_comp by (rule list.map_cong0) (simp only: that o_apply)
    show ?thesis using arg_cong [OF assms, of "map h"] unfolding c .
  qed
  have "start_ip ` set rs = start_ip ` set rs'"
    using arg_cong [OF m [of start_ip fst], of set] unfolding list.set_map by (simp only: fst_conv)
  moreover have "end_ip ` set rs = end_ip ` set rs'"
    using arg_cong [OF m [of end_ip snd], of set] unfolding list.set_map by (simp only: snd_conv)
  moreover have len: "length rs = length rs'" by (rule map_eq_imp_length_eq [OF assms])
  moreover have "(\<Sum>g \<leftarrow> rs. ucast (start_ip g)) = (\<Sum>g \<leftarrow> rs'. ucast (start_ip g) :: u64)"
    by (rule arg_cong [where f = sum_list]) (rule m [of _ "\<lambda>p. ucast (fst p)"], simp only: fst_conv)
  moreover have "(\<Sum>g \<leftarrow> rs. ucast (end_ip g)) = (\<Sum>g \<leftarrow> rs'. ucast (end_ip g) :: u64)"
    by (rule arg_cong [where f = sum_list]) (rule m [of _ "\<lambda>p. ucast (snd p)"], simp only: snd_conv)
  moreover have "fold (\<lambda>g x. x XOR span_bits (start_ip g) (end_ip g)) rs 0 = fold (\<lambda>g x. x XOR span_bits (start_ip g) (end_ip g)) rs' 0"
  proof -
    have f: "fold (\<lambda>g x. x XOR span_bits (start_ip g) (end_ip g)) xs y =
        fold (\<lambda>p x. x XOR span_bits (fst p) (snd p)) (map (\<lambda>g. (start_ip g, end_ip g)) xs) y"
      for xs y by (induction xs arbitrary: y) simp_all
    show ?thesis unfolding f by (simp only: assms)
  qed
  moreover from len have "rs = [] \<longleftrightarrow> rs' = []" by auto
  ultimately show ?thesis by (simp add: aggregates_def)
qed

lemma restart_keeps_names:
  assumes "read_snapshot_file en s = Some (b, stamp)" "stamp = aggregates rs" "te_count (ge_table en)"
    "map (\<lambda>g. (start_ip g, end_ip g)) rs = map (\<lambda>g. (start_ip g, end_ip g)) (tb_live (gs_table s))"
  shows "gs_index (snd (reload srt en again (snd (load_disk en s)))) = replace_built_snapshot (Some b)"
  using assms stamp_ignores_names [OF assms(4)] by (simp add: load_disk_def reload_unfold query_source_stamp_def)

section \<open>Limits\<close>

lemma headroom_bounds: "soft \<noteq> 0 \<Longrightarrow> 0x8000000 \<le> headroom_reserve soft \<and> headroom_reserve soft \<le> 0x18000000"
  by (auto simp: headroom_reserve_def Let_def not_less)

lemma accepted_upload_fits:
  assumes "upload_csv srt en body False s = (Inr r, s')" "gs_max s > 0"
  shows "int (up_count r) \<le> gs_max s \<and> int (range_count (gs_index s)) < gs_max s div 2"
proof -
  obtain parsed ranges b n where p: "reject_large_index s False = None" "csv_snapshot srt parsed = Inr (ranges, b)"
      "check_upload_limits s (length ranges) False = None" "persist_ranges srt en ranges (Some b) s = (Inr n, s')" "up_count r = n"
    using assms(1) by (auto simp: upload_csv_unfold split: option.splits sum.splits prod.splits if_splits)
  obtain q t where q: "replace_geo_ranges (ge_table en) ranges (gs_table s) = (q, t)" by fastforce
  have "n = length ranges"
    using p(4) q replace_atomic(2) [OF q] by (auto simp: persist_ranges_unfold Let_def split: if_splits sum.splits)
  then show ?thesis using p(1,3,5) assms(2) by (auto simp: reject_large_index_def check_upload_limits_def Let_def split: if_splits)
qed

end
