(* ===== verification/Geo_Missing.thy ===== *)
theory Geo_Missing
  imports Map_Agg "HOL-Library.Char_ord" "HOL-Library.List_Lexorder"
begin

text \<open>
  The list of addresses without a place (\<^verbatim>\<open>usecase/geo/service.go\<close>: \<^verbatim>\<open>ListMissing\<close> and its helpers): addresses of the
  log that neither the log nor the index can place, with their kind, and the summary of the list. \<^verbatim>\<open>sort.Slice\<close> is the
  argument \<open>srt\<close> under the contract \<open>slice_sorter missing_le\<close>; the texts of the hints are left out.
\<close>

record geo_missing_row =
  gm_ip :: string
  gm_count :: u64
  gm_src :: u64
  gm_dst :: u64
  gm_peer :: string
  gm_country :: string
  gm_city :: string
  gm_lat :: f64
  gm_lon :: f64

datatype ip_kind = K_invalid | K_loopback | K_link_local | K_multicast | K_private | K_public_unknown

text \<open>The predicates of \<^verbatim>\<open>net.IP\<close> on both families.\<close>

definition classify_ip_kind :: "string \<Rightarrow> ip_kind" where
  "classify_ip_kind txt =
     (let ip = parse_ip txt; v4 = to4 ip in
      if ip = [] then K_invalid
      else if (if v4 \<noteq> [] then is_loopback v4 else ip = replicate 15 0 @ [1]) then K_loopback
      else if (if v4 \<noteq> [] then is_link_local_unicast v4 \<or> is_link_local_multicast v4
        else ip ! 0 = 0xFE \<and> ip ! 1 AND 0xC0 = 0x80 \<or> ip ! 0 = 0xFF \<and> ip ! 1 AND 0x0F = 0x02) then K_link_local
      else if (if v4 \<noteq> [] then is_multicast v4 else ip ! 0 = 0xFF) then K_multicast
      else if (if v4 \<noteq> [] then is_private v4 \<or> is_unspecified v4 else ip ! 0 AND 0xFE = 0xFC \<or> ip = replicate 16 0) then K_private
      else K_public_unknown)"

datatype missing_hint = Hint_internal | Hint_broken | Hint_add

definition action_hint_for_kind :: "ip_kind \<Rightarrow> missing_hint" where
  "action_hint_for_kind k =
     (if k \<in> {K_private, K_loopback, K_link_local, K_multicast} then Hint_internal else if k = K_invalid then Hint_broken else Hint_add)"

text \<open>The lookup is None when there is no index.\<close>

definition ip_has_map_coords :: "(string \<Rightarrow> geo_lookup) option \<Rightarrow> string \<Rightarrow> log_geo_hint \<Rightarrow> bool" where
  "ip_has_map_coords lkp ip hint =
     (if f64_nz (hn_lat hint) \<or> f64_nz (hn_lon hint) then True
      else (case lkp of
          None \<Rightarrow> False
        | Some g \<Rightarrow> found (g ip) \<and> (f64_nz (lk_lat (g ip)) \<or> f64_nz (lk_lon (g ip)))))"

record missing_item =
  mi_ip :: string
  mi_kind :: ip_kind
  mi_count :: u64
  mi_src :: u64
  mi_dst :: u64
  mi_peer :: string
  mi_country :: string
  mi_city :: string
  mi_hint :: missing_hint

definition missing_item_of :: "(string \<Rightarrow> geo_lookup) option \<Rightarrow> geo_missing_row \<Rightarrow> missing_item option" where
  "missing_item_of lkp row =
     (let ip = trim_space (gm_ip row) in
      if ip = [] then None
      else if ip_has_map_coords lkp ip \<lparr>hn_lat = gm_lat row, hn_lon = gm_lon row, hn_city = gm_city row, hn_country = gm_country row\<rparr>
      then None
      else
        let kind = classify_ip_kind ip in
        Some \<lparr>mi_ip = ip, mi_kind = kind, mi_count = gm_count row, mi_src = gm_src row, mi_dst = gm_dst row, mi_peer = gm_peer row,
           mi_country = gm_country row, mi_city = gm_city row, mi_hint = action_hint_for_kind kind\<rparr>)"

definition missing_le :: "missing_item \<Rightarrow> missing_item \<Rightarrow> bool" where
  "missing_le a b \<longleftrightarrow> (if mi_count a \<noteq> mi_count b then mi_count a > mi_count b else mi_ip a \<le> mi_ip b)"

definition filter_geo_missing_rows ::
  "(missing_item list \<Rightarrow> missing_item list) \<Rightarrow> (string \<Rightarrow> geo_lookup) option \<Rightarrow> geo_missing_row list \<Rightarrow> missing_item list" where
  "filter_geo_missing_rows srt lkp found_rows = srt (List.map_filter (missing_item_of lkp) found_rows)"

record missing_summary =
  ms_unique :: nat
  ms_shown :: nat
  ms_events :: u64
  ms_by_kind :: "ip_kind \<Rightarrow> nat"
  ms_focus :: nat

fun tally :: "missing_item list \<Rightarrow> (ip_kind \<Rightarrow> nat) \<times> u64 \<Rightarrow> (ip_kind \<Rightarrow> nat) \<times> u64" where
  "tally [] acc = acc"
| "tally (i # is) (by_kind, events) = tally is (by_kind(mi_kind i := by_kind (mi_kind i) + 1), events + mi_count i)"

definition summarize_missing :: "missing_item list \<Rightarrow> missing_summary" where
  "summarize_missing is =
     (let (by_kind, events) = tally is (\<lambda>k. 0, 0) in
      \<lparr>ms_unique = length is, ms_shown = length is, ms_events = events, ms_by_kind = by_kind, ms_focus = by_kind K_public_unknown\<rparr>)"

definition missing_limit :: "int \<Rightarrow> int" where
  "missing_limit n = (let l = (if n \<le> 0 then 500 else n) in if l > 5000 then 5000 else l)"

text \<open>\<open>scan limit\<close> is the answer of the store, None for its error.\<close>

definition list_missing ::
  "(missing_item list \<Rightarrow> missing_item list) \<Rightarrow> (int \<Rightarrow> geo_missing_row list option) \<Rightarrow> (string \<Rightarrow> geo_lookup) option \<Rightarrow> int \<Rightarrow>
     (missing_item list \<times> missing_summary \<times> int) option" where
  "list_missing srt scan lkp n =
     (let limit = missing_limit n in
      case scan limit of
        None \<Rightarrow> None
      | Some found_rows \<Rightarrow>
          let is = filter_geo_missing_rows srt lkp found_rows in
          Some (is, summarize_missing is, limit))"

section \<open>What the list holds\<close>

lemma missing_limit_bounds: "0 < missing_limit n \<and> missing_limit n \<le> 5000"
  by (simp add: missing_limit_def Let_def)

lemma tally_counts:
  "tally is (f, e) = (\<lambda>k. f k + length (filter (\<lambda>i. mi_kind i = k) is), e + (\<Sum>i \<leftarrow> is. mi_count i))"
  by (induction "is" arbitrary: f e) (auto simp: fun_eq_iff)

lemma kinds_add_up: "(\<Sum>k \<in> UNIV. ms_by_kind (summarize_missing is) k) = length is"
proof -
  have u: "(UNIV :: ip_kind set) = {K_invalid, K_loopback, K_link_local, K_multicast, K_private, K_public_unknown}"
    using ip_kind.exhaust by blast
  have "(\<Sum>k \<in> UNIV. length (filter (\<lambda>i. mi_kind i = k) is)) = length is"
  proof (induction "is")
    case (Cons i "is")
    have "(\<Sum>k \<in> (UNIV :: ip_kind set). length (filter (\<lambda>j. mi_kind j = k) (i # is))) =
        (\<Sum>k \<in> UNIV. (if mi_kind i = k then 1 else 0) + length (filter (\<lambda>j. mi_kind j = k) is))"
      by (rule sum.cong) auto
    then show ?case using Cons by (simp add: sum.distrib u) (cases "mi_kind i"; simp)
  qed simp
  then show ?thesis by (simp add: summarize_missing_def tally_counts)
qed

lemma missing_list_exact:
  assumes "slice_sorter missing_le srt" "list_missing srt scan lkp n = Some (is, sm, l)"
  shows "\<exists>found_rows. scan l = Some found_rows \<and> l = missing_limit n \<and> sorted_wrt missing_le is
    \<and> set is = {i. \<exists>r \<in> set found_rows. missing_item_of lkp r = Some i}
    \<and> ms_unique sm = (\<Sum>k \<in> UNIV. ms_by_kind sm k) \<and> ms_events sm = (\<Sum>i \<leftarrow> is. mi_count i)"
proof -
  obtain found_rows where r: "scan l = Some found_rows" "l = missing_limit n" "is = filter_geo_missing_rows srt lkp found_rows"
      "sm = summarize_missing is"
    using assms(2) by (auto simp: list_missing_def Let_def split: option.splits)
  have "set is = {i. \<exists>r \<in> set found_rows. missing_item_of lkp r = Some i}"
    using slice_sorter.srt_set [OF assms(1)] unfolding r(3) filter_geo_missing_rows_def
    by (auto simp: List.map_filter_def image_iff) force
  then show ?thesis
    using r slice_sorter.srt_sorted [OF assms(1)] kinds_add_up [of "is"]
    by (auto simp: filter_geo_missing_rows_def summarize_missing_def tally_counts)
qed

end
