(* ===== verification/Geo_Jobs.thy ===== *)
theory Geo_Jobs
  imports Geo_Service
begin

text \<open>
  The background jobs of the GeoIP service (\<^verbatim>\<open>adapter/geojob/scheduler.go\<close>): every \<^verbatim>\<open>Schedule\<close> cancels the job
  before it and starts a goroutine, which waits for the slot of heavy tasks and for the lock of the scheduler. The steps
  of the goroutines interleave; a check of the context and the start of the call that follows it are one step. The gate,
  the slot and the results of calls are inputs. Waiting groups and the end of \<^verbatim>\<open>Shutdown\<close> are left out: it cancels the
  last job as \<open>expire\<close> does.
\<close>

datatype gj_kind = Job_enrich | Job_reload_and_enrich | Job_maintenance

datatype gj_call = C_edges | C_geo_edges | C_reload | C_enrich

datatype gj_stage = At_start | At_lock | In_call gj_call | Ended

record gj_job =
  gj_kind :: gj_kind
  gj_gen :: u64
  gj_cancelled :: bool
  gj_stage :: gj_stage

record scheduler =
  gq_geo :: bool
  gq_store :: bool
  gq_days :: int
  gq_gen :: u64
  gq_locked :: bool
  gq_jobs :: "gj_job list"

definition new_scheduler :: "bool \<Rightarrow> bool \<Rightarrow> int \<Rightarrow> scheduler" where
  "new_scheduler has_geo has_store days =
     \<lparr>gq_geo = has_geo, gq_store = has_store, gq_days = (if days < 0 then 7 else days), gq_gen = 0, gq_locked = False, gq_jobs = []\<rparr>"

text \<open>Nanoseconds.\<close>

definition job_timeout :: "gj_kind \<Rightarrow> int \<Rightarrow> int" where
  "job_timeout kind timeout =
     (let t = (if timeout \<le> 0 then 30 * 60000000000 else timeout) in
      if kind = Job_maintenance \<and> t < 60 * 60000000000 then 6 * 60 * 60000000000 else t)"

definition cancel_job :: "gj_job \<Rightarrow> gj_job" where
  "cancel_job j = j\<lparr>gj_cancelled := True\<rparr>"

definition schedule_geo_job :: "gj_kind \<Rightarrow> scheduler \<Rightarrow> scheduler" where
  "schedule_geo_job kind q =
     (if \<not> gq_store q \<or> kind \<noteq> Job_maintenance \<and> \<not> gq_geo q then q
      else
        let js = (if gq_jobs q = [] then [] else butlast (gq_jobs q) @ [cancel_job (last (gq_jobs q))]);
          g = gq_gen q + 1 in
        q\<lparr>gq_gen := g, gq_jobs := js @ [\<lparr>gj_kind = kind, gj_gen = g, gj_cancelled = False, gj_stage = At_start\<rparr>]\<rparr>)"

definition set_stage :: "nat \<Rightarrow> gj_stage \<Rightarrow> scheduler \<Rightarrow> scheduler" where
  "set_stage i st q = q\<lparr>gq_jobs := (gq_jobs q)[i := (gq_jobs q ! i)\<lparr>gj_stage := st\<rparr>]\<rparr>"

text \<open>The lock is given back when the job ends.\<close>

definition work_on :: "nat \<Rightarrow> gj_call option \<Rightarrow> scheduler \<Rightarrow> scheduler" where
  "work_on i c q =
     (case c of
        None \<Rightarrow> (set_stage i Ended q)\<lparr>gq_locked := False\<rparr>
      | Some c \<Rightarrow> (set_stage i (In_call c) q)\<lparr>gq_locked := True\<rparr>)"

text \<open>\<open>skip\<close>: the gate names a reason; \<open>got\<close>: the slot was acquired, which can fail only when the context is done.\<close>

definition run_start :: "bool \<Rightarrow> bool \<Rightarrow> nat \<Rightarrow> scheduler \<Rightarrow> scheduler" where
  "run_start skip got i q =
     (let j = gq_jobs q ! i in
      if gj_kind j = Job_maintenance \<and> skip then set_stage i Ended q
      else if \<not> got then set_stage i Ended q
      else set_stage i At_lock q)"

definition run_enrich :: "scheduler \<Rightarrow> gj_job \<Rightarrow> gj_call option" where
  "run_enrich q j = (if \<not> gq_geo q \<or> \<not> gq_store q \<or> gj_cancelled j then None else Some C_enrich)"

definition first_call :: "scheduler \<Rightarrow> gj_job \<Rightarrow> gj_call option" where
  "first_call q j =
     (case gj_kind j of
        Job_maintenance \<Rightarrow> Some C_edges
      | Job_reload_and_enrich \<Rightarrow> (if gq_geo q then Some C_reload else run_enrich q j)
      | Job_enrich \<Rightarrow> run_enrich q j)"

definition run_locked :: "bool \<Rightarrow> nat \<Rightarrow> scheduler \<Rightarrow> scheduler" where
  "run_locked skip i q =
     (let j = gq_jobs q ! i in
      if gj_cancelled j then work_on i None q
      else if gj_gen j \<noteq> gq_gen q then work_on i None q
      else if gj_kind j = Job_maintenance \<and> skip then work_on i None q
      else work_on i (first_call q j) q)"

text \<open>What follows the return of a call: \<^verbatim>\<open>runMaintenance\<close>, \<^verbatim>\<open>runReload\<close>, \<^verbatim>\<open>runEnrich\<close>. After a failed reload the
  enrichment still runs.\<close>

definition next_call :: "bool \<Rightarrow> nat \<Rightarrow> scheduler \<Rightarrow> gj_job \<Rightarrow> gj_call \<Rightarrow> gj_call option" where
  "next_call ok ranges q j c =
     (case c of
        C_edges \<Rightarrow> (if \<not> ok \<or> gj_cancelled j then None else Some C_geo_edges)
      | C_geo_edges \<Rightarrow> (if ok \<and> gq_geo q \<and> ranges > 0 then run_enrich q j else None)
      | C_reload \<Rightarrow> (if gj_cancelled j then None else run_enrich q j)
      | C_enrich \<Rightarrow> None)"

section \<open>The goroutines\<close>

inductive gj_step :: "scheduler \<Rightarrow> scheduler \<Rightarrow> bool" where
  schedule: "gj_step q (schedule_geo_job kind q)"
| start: "i < length (gq_jobs q) \<Longrightarrow> gj_stage (gq_jobs q ! i) = At_start \<Longrightarrow> got \<or> gj_cancelled (gq_jobs q ! i) \<Longrightarrow>
    gj_step q (run_start skip got i q)"
| lock: "i < length (gq_jobs q) \<Longrightarrow> gj_stage (gq_jobs q ! i) = At_lock \<Longrightarrow> \<not> gq_locked q \<Longrightarrow> gj_step q (run_locked skip i q)"
| return: "i < length (gq_jobs q) \<Longrightarrow> gj_stage (gq_jobs q ! i) = In_call c \<Longrightarrow>
    gj_step q (work_on i (next_call ok ranges q (gq_jobs q ! i) c) q)"
| expire: "i < length (gq_jobs q) \<Longrightarrow> gj_step q (q\<lparr>gq_jobs := (gq_jobs q)[i := cancel_job (gq_jobs q ! i)]\<rparr>)"

definition working :: "scheduler \<Rightarrow> nat \<Rightarrow> bool" where
  "working q i \<longleftrightarrow> i < length (gq_jobs q) \<and> (\<exists>c. gj_stage (gq_jobs q ! i) = In_call c)"

definition gj_inv :: "scheduler \<Rightarrow> bool" where
  "gj_inv q \<longleftrightarrow> (\<forall>i k. working q i \<and> working q k \<longrightarrow> i = k) \<and> (gq_locked q \<longleftrightarrow> (\<exists>i. working q i))
     \<and> (\<forall>i. Suc i < length (gq_jobs q) \<longrightarrow> gj_cancelled (gq_jobs q ! i))"

lemma cancel_job_fields [simp]:
  "gj_stage (cancel_job j) = gj_stage j" "gj_gen (cancel_job j) = gj_gen j" "gj_cancelled (cancel_job j)" "gj_kind (cancel_job j) = gj_kind j"
  by (simp_all add: cancel_job_def)

lemma set_stage_jobs:
  "length (gq_jobs (set_stage i st q)) = length (gq_jobs q)"
  "k < length (gq_jobs q) \<Longrightarrow> gj_stage (gq_jobs (set_stage i st q) ! k) = (if k = i then st else gj_stage (gq_jobs q ! k))"
  "k < length (gq_jobs q) \<Longrightarrow> gj_cancelled (gq_jobs (set_stage i st q) ! k) = gj_cancelled (gq_jobs q ! k)"
  "gq_locked (set_stage i st q) = gq_locked q"
  by (cases "k = i"; simp add: set_stage_def)+

lemma work_on_jobs:
  "length (gq_jobs (work_on i c q)) = length (gq_jobs q)"
  "k < length (gq_jobs q) \<Longrightarrow> gj_stage (gq_jobs (work_on i c q) ! k) =
     (if k = i then (case c of None \<Rightarrow> Ended | Some c \<Rightarrow> In_call c) else gj_stage (gq_jobs q ! k))"
  "k < length (gq_jobs q) \<Longrightarrow> gj_cancelled (gq_jobs (work_on i c q) ! k) = gj_cancelled (gq_jobs q ! k)"
  "gq_locked (work_on i c q) \<longleftrightarrow> c \<noteq> None"
  by (auto simp: work_on_def set_stage_jobs split: option.split)

lemma schedule_jobs:
  assumes "k < length (gq_jobs q)"
  shows "gj_stage (gq_jobs (schedule_geo_job kind q) ! k) = gj_stage (gq_jobs q ! k)"
    "schedule_geo_job kind q \<noteq> q \<Longrightarrow> Suc k = length (gq_jobs q) \<or> gj_cancelled (gq_jobs q ! k) \<Longrightarrow>
      gj_cancelled (gq_jobs (schedule_geo_job kind q) ! k)"
proof -
  have ne: "gq_jobs q \<noteq> []" using assms by auto
  then obtain js j where js: "gq_jobs q = js @ [j]" by (metis rev_exhaust)
  show "gj_stage (gq_jobs (schedule_geo_job kind q) ! k) = gj_stage (gq_jobs q ! k)"
    using assms js by (auto simp: schedule_geo_job_def Let_def nth_append less_Suc_eq)
  show "schedule_geo_job kind q \<noteq> q \<Longrightarrow> Suc k = length (gq_jobs q) \<or> gj_cancelled (gq_jobs q ! k) \<Longrightarrow>
      gj_cancelled (gq_jobs (schedule_geo_job kind q) ! k)"
    using assms js by (auto simp: schedule_geo_job_def Let_def nth_append less_Suc_eq split: if_splits)
qed

lemma gj_inv_cong:
  assumes "gj_inv q" "length (gq_jobs q') = length (gq_jobs q)" "\<And>k. working q' k \<longleftrightarrow> working q k" "gq_locked q' = gq_locked q"
    "\<And>k. k < length (gq_jobs q) \<Longrightarrow> gj_cancelled (gq_jobs q ! k) \<Longrightarrow> gj_cancelled (gq_jobs q' ! k)"
  shows "gj_inv q'"
  using assms unfolding gj_inv_def by (metis Suc_lessD)

lemma set_stage_inv:
  assumes "gj_inv q" "\<forall>c. gj_stage (gq_jobs q ! i) \<noteq> In_call c" "\<forall>c. st \<noteq> In_call c"
  shows "gj_inv (set_stage i st q)"
  by (rule gj_inv_cong [OF assms(1)]) (use assms(2,3) in \<open>auto simp: working_def set_stage_jobs split: if_splits\<close>)

lemma work_on_inv:
  assumes "gj_inv q" "i < length (gq_jobs q)" "\<not> gq_locked q \<or> working q i"
  shows "gj_inv (work_on i c q)"
proof -
  have others: "k = i" if "working q k" for k using assms that unfolding gj_inv_def by metis
  have w: "working (work_on i c q) k \<longleftrightarrow> k = i \<and> c \<noteq> None" for k
    using others [of k] assms(2) by (auto simp: working_def work_on_jobs split: option.splits if_splits)
  show ?thesis using assms(1,2) unfolding gj_inv_def w by (auto simp: work_on_jobs)
qed

lemma schedule_length:
  "length (gq_jobs (schedule_geo_job kind q)) = length (gq_jobs q) \<and> schedule_geo_job kind q = q \<or>
   length (gq_jobs (schedule_geo_job kind q)) = Suc (length (gq_jobs q))
     \<and> gj_stage (last (gq_jobs (schedule_geo_job kind q))) = At_start"
  by (auto simp: schedule_geo_job_def Let_def)

lemma schedule_working: "working (schedule_geo_job kind q) k \<longleftrightarrow> working q k"
proof (cases "k < length (gq_jobs q)")
  case True
  then show ?thesis using schedule_jobs(1) [OF True, of kind] schedule_length [of kind q] by (auto simp: working_def)
next
  case False
  let ?q = "schedule_geo_job kind q"
  have "\<not> working ?q k"
  proof
    assume w: "working ?q k"
    then have l: "length (gq_jobs ?q) = Suc (length (gq_jobs q))" "gj_stage (last (gq_jobs ?q)) = At_start" "k = length (gq_jobs q)"
      using False schedule_length [of kind q] by (auto simp: working_def)
    then have "last (gq_jobs ?q) = gq_jobs ?q ! k" by (metis diff_Suc_1 last_conv_nth length_0_conv nat.distinct(1))
    then show False using w l(2) by (simp add: working_def)
  qed
  then show ?thesis using False by (simp add: working_def)
qed

lemma schedule_inv:
  assumes "gj_inv q" shows "gj_inv (schedule_geo_job kind q)"
proof (cases "schedule_geo_job kind q = q")
  case False
  let ?q = "schedule_geo_job kind q"
  have l: "length (gq_jobs ?q) = Suc (length (gq_jobs q))" using schedule_length [of kind q] False by auto
  have "gj_cancelled (gq_jobs ?q ! k)" if "Suc k < length (gq_jobs ?q)" for k
  proof (rule schedule_jobs(2) [OF _ False])
    show "k < length (gq_jobs q)" using that l by simp
    then show "Suc k = length (gq_jobs q) \<or> gj_cancelled (gq_jobs q ! k)"
      using assms unfolding gj_inv_def by (meson Suc_lessI)
  qed
  moreover have "gq_locked ?q = gq_locked q" by (simp add: schedule_geo_job_def Let_def)
  ultimately show ?thesis using assms by (auto simp: gj_inv_def schedule_working)
qed (use assms in simp)

lemma expire_jobs:
  assumes "i < length (gq_jobs q)"
  shows "working (q\<lparr>gq_jobs := (gq_jobs q)[i := cancel_job (gq_jobs q ! i)]\<rparr>) k \<longleftrightarrow> working q k"
  using assms by (cases "k = i") (simp_all add: working_def)

lemma expire_inv:
  assumes "gj_inv q" "i < length (gq_jobs q)"
  shows "gj_inv (q\<lparr>gq_jobs := (gq_jobs q)[i := cancel_job (gq_jobs q ! i)]\<rparr>)" (is "gj_inv ?q")
proof (rule gj_inv_cong [OF assms(1)])
  show "gj_cancelled (gq_jobs ?q ! k)" if "k < length (gq_jobs q)" "gj_cancelled (gq_jobs q ! k)" for k
    using that by (cases "k = i") simp_all
qed (simp_all add: expire_jobs [OF assms(2)])

lemma gj_step_inv:
  assumes "gj_inv q" "gj_step q q'" shows "gj_inv q'"
  using assms(2)
proof cases
  case (schedule kind)
  then show ?thesis using assms(1) by (simp add: schedule_inv)
next
  case (start i got skip)
  then show ?thesis using set_stage_inv [OF assms(1), of i] by (simp add: run_start_def Let_def)
next
  case (lock i skip)
  then show ?thesis using work_on_inv [OF assms(1), of i] by (simp add: run_locked_def Let_def)
next
  case (return i c ok ranges)
  then show ?thesis using work_on_inv [OF assms(1), of i] by (simp add: working_def)
next
  case (expire i)
  then show ?thesis using expire_inv [OF assms(1)] by simp
qed

interpretation gj_sys: invariant_system "\<lambda>q. gj_inv q" gj_step gj_inv
  by unfold_locales (simp_all add: gj_step_inv)

lemma new_scheduler_inv: "gj_inv (new_scheduler g st days)"
  by (simp add: gj_inv_def new_scheduler_def working_def)

lemma latest_of: "gj_inv q \<Longrightarrow> i < length (gq_jobs q) \<Longrightarrow> \<not> gj_cancelled (gq_jobs q ! i) \<Longrightarrow> Suc i = length (gq_jobs q)"
  by (auto simp: gj_inv_def less_Suc_eq dest: Suc_lessI)

lemma call_of_live: "next_call ok ranges q j c = Some c' \<Longrightarrow> \<not> gj_cancelled j"
  by (auto simp: next_call_def run_enrich_def split: gj_call.splits if_splits)

lemma work_on_starts:
  assumes "gj_inv q" "i < length (gq_jobs q)" "\<And>c. call = Some c \<Longrightarrow> \<not> gj_cancelled (gq_jobs q ! i)"
    "gj_stage (gq_jobs (work_on i call q) ! k) = In_call c" "gj_stage (gq_jobs q ! k) \<noteq> In_call c" "k < length (gq_jobs q)"
  shows "Suc k = length (gq_jobs q) \<and> \<not> gj_cancelled (gq_jobs (work_on i call q) ! k)"
  using assms(2-6) latest_of [OF assms(1,2)] by (auto simp: work_on_jobs split: if_splits option.splits)

text \<open>A call of the store or of the index starts only for the job that was scheduled last, while its context holds.\<close>

lemma call_starts_latest:
  assumes "gj_inv q" "gj_step q q'" "k < length (gq_jobs q)" "gj_stage (gq_jobs q' ! k) = In_call c" "gj_stage (gq_jobs q ! k) \<noteq> In_call c"
  shows "Suc k = length (gq_jobs q') \<and> \<not> gj_cancelled (gq_jobs q' ! k)"
  using assms(2)
proof cases
  case (schedule kind)
  then show ?thesis using schedule_jobs(1) [OF assms(3), of kind] assms(4,5) by simp
next
  case (start i got skip)
  then show ?thesis using assms(3,4,5) by (auto simp: run_start_def Let_def set_stage_jobs split: if_splits)
next
  case (lock i skip)
  have "Suc k = length (gq_jobs q) \<and> \<not> gj_cancelled (gq_jobs (run_locked skip i q) ! k)"
    using assms(3,4,5) lock(1) work_on_starts [OF assms(1) lock(2)] unfolding run_locked_def Let_def by (auto split: if_splits)
  then show ?thesis using lock(1) by (simp add: run_locked_def Let_def work_on_jobs)
next
  case (return i c' ok ranges)
  have "Suc k = length (gq_jobs q) \<and> \<not> gj_cancelled (gq_jobs (work_on i (next_call ok ranges q (gq_jobs q ! i) c') q) ! k)"
    by (rule work_on_starts [OF assms(1) return(2)]) (use assms(3,4,5) return(1) call_of_live in auto)
  then show ?thesis using return(1) by (simp add: work_on_jobs)
next
  case (expire i)
  then show ?thesis using assms(3,4,5) by (auto simp: nth_list_update split: if_splits)
qed

text \<open>C13: Jobs of the GeoIP service never overlap. Whatever is scheduled, however the goroutines interleave and whatever
  calls fail: at most one job is inside a call; every job but the last scheduled is cancelled; and in every step, a call
  starts only for the job that was scheduled last, while it is not cancelled.\<close>
theorem geo_jobs_serial:
  assumes "gj_step\<^sup>*\<^sup>* (new_scheduler g st days) q"
  shows "(\<forall>i k. working q i \<and> working q k \<longrightarrow> i = k)
    \<and> (\<forall>i. Suc i < length (gq_jobs q) \<longrightarrow> gj_cancelled (gq_jobs q ! i))
    \<and> (\<forall>q' k c. gj_step q q' \<and> k < length (gq_jobs q) \<and> gj_stage (gq_jobs q' ! k) = In_call c \<and> gj_stage (gq_jobs q ! k) \<noteq> In_call c \<longrightarrow>
        Suc k = length (gq_jobs q') \<and> \<not> gj_cancelled (gq_jobs q' ! k))"
proof -
  have i: "gj_inv q" by (rule gj_sys.reachable_inv [OF assms new_scheduler_inv])
  then show ?thesis using call_starts_latest [OF i] unfolding gj_inv_def by blast
qed

definition two_scheduled :: scheduler where
  "two_scheduled = schedule_geo_job Job_maintenance (run_locked False 0 (run_start False True 0
     (schedule_geo_job Job_reload_and_enrich (new_scheduler True True 7))))"

theorem geo_jobs_serial_witness:
  "working two_scheduled 0 \<and> gj_cancelled (gq_jobs two_scheduled ! 0) \<and> \<not> working two_scheduled 1"
proof -
  let ?a = "schedule_geo_job Job_reload_and_enrich (new_scheduler True True 7)"
  have a: "gj_step\<^sup>*\<^sup>* (new_scheduler True True 7) ?a" by (rule r_into_rtranclp) (rule gj_step.schedule)
  have j: "gq_jobs ?a = [\<lparr>gj_kind = Job_reload_and_enrich, gj_gen = 1, gj_cancelled = False, gj_stage = At_start\<rparr>]" "gq_gen ?a = 1"
    "gq_locked ?a = False" "gq_geo ?a"
    by (simp_all add: schedule_geo_job_def new_scheduler_def)
  let ?b = "run_start False True 0 ?a"
  have b: "gj_step ?a ?b" by (rule gj_step.start) (simp_all add: j)
  have jb: "gq_jobs ?b = [\<lparr>gj_kind = Job_reload_and_enrich, gj_gen = 1, gj_cancelled = False, gj_stage = At_lock\<rparr>]" "gq_locked ?b = False"
    by (simp_all add: run_start_def set_stage_def j)
  have "gj_step ?b (run_locked False 0 ?b)" by (rule gj_step.lock) (simp_all add: jb)
  with a b have "gj_step\<^sup>*\<^sup>* (new_scheduler True True 7) two_scheduled"
    unfolding two_scheduled_def using gj_step.schedule by (meson rtranclp.rtrancl_into_rtrancl)
  note s = geo_jobs_serial [OF this]
  have w: "working two_scheduled 0" "length (gq_jobs two_scheduled) = 2"
    unfolding two_scheduled_def working_def
    by (simp_all add: schedule_geo_job_def new_scheduler_def run_start_def run_locked_def work_on_def set_stage_def first_call_def)
  then show ?thesis using s by auto
qed

end
