(* ===== verification/Spec2Isabelle.thy ===== *)
theory Spec2Isabelle
  imports Safe_URL Geo_Codec Reputation Login_Throttle Ingest_Queue Files Auth_Users Auth_Sessions Auth_Tokens
    Map_Search Map_SQL Heavy_Task Anomaly_Scan Map_Build Http_Login Threat_Guard Backup_Promises
    Geo_Promises Geo_Missing Geo_Jobs
begin

text \<open>
  A verification library for the back end of geoatlas (\<^verbatim>\<open>src/backend\<close>, Go), which receives the logs of
  firewalls, enriches and stores them in ClickHouse and shows the traffic on a map to users who log in.
  All paths below are relative to \<^verbatim>\<open>src/backend/internal\<close>.

  \<^bold>\<open>The program and its model.\<close>
  \<^item> Log lines arrive over TCP and UDP (\<^verbatim>\<open>adapter/ingestnet\<close>): \<^theory_text>\<open>Ingest_Frames\<close> reads frames and
    transport markers, \<^theory_text>\<open>Ingest_Queue\<close> has the bounded queue between connections and workers, the
    workers, the drain at shutdown and the allowlist of peers. A worker owns a processor
    (\<^verbatim>\<open>usecase/ingest\<close>, \<^theory_text>\<open>Ingest\<close>): it enriches a line, buffers and flushes it, with retries and a
    circuit breaker in front of the store.
  \<^item> Enrichment and the map look addresses up in the GeoIP index (\<^verbatim>\<open>geoip\<close>): \<^theory_text>\<open>Geo_Index\<close> has
    the compact snapshots, normalization, bisection and the streaming builder, \<^theory_text>\<open>Geo_Codec\<close> the file of a
    snapshot. The service over them (\<^verbatim>\<open>usecase/geo\<close>, \<^verbatim>\<open>adapter/clickhouse/geostore\<close>) is in \<^theory_text>\<open>Geo_Service\<close>: the table of
    ranges, the index reloaded from it, and the requests that change both; \<^theory_text>\<open>Geo_Agreement\<close> has the steps of requests that may
    overlap (\<open>geo_step\<close>: the table is read, replaced, the index published) and \<^theory_text>\<open>Geo_Promises\<close> shows
    that index and table agree while requests follow one another, what overlapping ones do, and what a request changes; \<^theory_text>\<open>Geo_Missing\<close> has the list of addresses without a place and
    \<^theory_text>\<open>Geo_Jobs\<close> the background jobs (\<^verbatim>\<open>adapter/geojob\<close>). The lists of bad addresses (\<^verbatim>\<open>reputation\<close>) are in \<^theory_text>\<open>Reputation\<close>; both stand on
    \<^theory_text>\<open>IPv4\<close> (\<^verbatim>\<open>netutil\<close> and the parts of \<^verbatim>\<open>net\<close> the code uses). Feeds are fetched through
    \<^theory_text>\<open>Safe_URL\<close> (\<^verbatim>\<open>safeurl\<close>), which dials public addresses only.
  \<^item> Users (\<^verbatim>\<open>auth/users.go\<close>, \<^theory_text>\<open>Auth_Users\<close>), cookies and their registry
    (\<^verbatim>\<open>auth/session*.go\<close>, \<^theory_text>\<open>Auth_Sessions\<close>) and API tokens (\<^verbatim>\<open>auth/tokens.go\<close>,
    \<^theory_text>\<open>Auth_Tokens\<close>) are kept in JSON files that \<^theory_text>\<open>Files\<close> (\<^verbatim>\<open>fileatomic\<close>, \<^verbatim>\<open>jsonfile\<close>) writes;
    \<^theory_text>\<open>Login_Throttle\<close> (\<^verbatim>\<open>adapter/httpapi/loginthrottle\<close>) stands before the login. Requests reach them
    through \<^theory_text>\<open>Http_Guard\<close> (bearer tokens, the checks for login and administrator, the check against forged requests,
    cookies and the proxy gate of \<^verbatim>\<open>adapter/httpapi\<close>) and \<^theory_text>\<open>Http_Auth\<close> (the handlers of
    \<^verbatim>\<open>auth.go\<close> and \<^verbatim>\<open>api_tokens.go\<close> and their routes); \<^theory_text>\<open>Http_Access\<close> and \<^theory_text>\<open>Http_Login\<close> prove who can
    change what, over single requests and over histories. At the edge stand \<^theory_text>\<open>Threat_Guard\<close> (suspicious requests, the rate
    limiter and its audit, \<^verbatim>\<open>threatprot\<close>) and \<^theory_text>\<open>Json_Guard\<close> (the limits of JSON bodies).
  \<^item> A query of the map (\<^verbatim>\<open>mapsearch\<close>) is parsed and priced in \<^theory_text>\<open>Map_Search\<close> and turned into SQL
    in \<^theory_text>\<open>Map_SQL\<close> (\<^verbatim>\<open>adapter/clickhouse/sqlclause\<close>). The aggregates that ClickHouse returns become the map:
    \<^theory_text>\<open>Map_Agg\<close> (\<^verbatim>\<open>mapagg\<close>, \<^verbatim>\<open>model/countries.go\<close>, \<^verbatim>\<open>model/continents.go\<close>) has the place of an address under
    each grouping, the sums of edges and nodes and the networks of the enterprise
    (\<^verbatim>\<open>mapagg/enterprise.go\<close>, \<^verbatim>\<open>usecase/geo/enterprise.go\<close>), \<^theory_text>\<open>Map_Build\<close> (\<^verbatim>\<open>usecase/events\<close>) the request.
  \<^item> A scheduler runs the scan for anomalies (\<^verbatim>\<open>usecase/anomaly\<close>): \<^theory_text>\<open>Anomaly\<close> has events, thresholds,
    fingerprints, episodes, map links and the journal (\<^verbatim>\<open>adapter/clickhouse/anomalystore/events.go\<close>),
    \<^theory_text>\<open>Anomaly_Scan\<close> the detectors, the tick, acknowledgement and settings. Heavy jobs share one slot
    (\<^verbatim>\<open>adapter/heavytask\<close>, \<^theory_text>\<open>Heavy_Task\<close>).
  \<^item> Backups (\<^verbatim>\<open>usecase/backup\<close>) are made by ClickHouse on a mounted volume and attached to the map on request:
    \<^theory_text>\<open>Backup_Store\<close> has the daily schedule, the directory (\<^verbatim>\<open>adapter/backupfs\<close>) and the statements
    (\<^verbatim>\<open>adapter/clickhouse/backupstore\<close>), \<^theory_text>\<open>Backup\<close> the service with its jobs, whose attaching and detaching is cut into single statements
    (\<open>stage_step\<close>); \<^theory_text>\<open>Backup_Safety\<close> lets the checks of requests, their work and those statements follow each other
    in any order (\<open>world_step\<close>; \<open>apart\<close> leaves out the overlaps that break a promise) and \<^theory_text>\<open>Backup_Promises\<close>
    has what holds then, and the overlaps that the code allows and that break it. The calendar of Go is in \<^theory_text>\<open>Go_Time\<close>.
  \<^item> \<^theory_text>\<open>Go_Strings\<close>, \<^theory_text>\<open>Go_Text\<close>, \<^theory_text>\<open>Go_Maps\<close> and \<^theory_text>\<open>Go_Float\<close> model what the program uses of the
    language and its library: strings, UTF-8, maps and IEEE 754 floats on their bits.

  \<^bold>\<open>How state and operations correspond.\<close> A struct is a record with one field per Go field, an
  operation a function from the state (and its arguments) to the new state and the result; errors are
  values of a sum type with one constructor per error of the code. A store that writes a file takes and
  returns the disk as well, and the outcome of the write is an input, so that every property covers failed
  writes. Mutual exclusion is taken from the locks of the code: an operation under a lock is one step. Where
  the code is concurrent without a lock around the whole operation (the queue, the jobs and requests of backups, the
  requests for GeoIP ranges), each atomic action is a step of an inductive relation, and what is under way is part of its state. Machine integers are words and wrap; Go's
  unbounded-looking \<^verbatim>\<open>int\<close> is a mathematical integer where the code bounds it. A string is its bytes.

  \<^bold>\<open>Parameters.\<close> What is not under \<^verbatim>\<open>src\<close> is an argument: bcrypt, SHA-256, HMAC, base64,
  encoding/json and encoding/csv, the clock, randomness, the resolver and dialer, system calls, ClickHouse,
  and the Unicode tables above Latin-1. Their laws are named predicates (\<open>session_law\<close>, \<open>bcrypt_law\<close>,
  \<open>json_law\<close>, \<open>sha_law\<close>) that state documented behaviour, and each property that needs one has a witness with
  a concrete function. \<^verbatim>\<open>sort.Slice\<close> and the order of a Go map are arguments under the contract
  \<open>slice_sorter\<close>. Nothing is assumed globally.

  \<^bold>\<open>The lemmas.\<close> Every component has its invariant with one preservation lemma for each operation, the behaviour
  of its operations on every branch, and the comparison with a plain specification where the code is optimised
  (bisection against the one covering range, the streaming builder against batch normalization, reading in
  slices against cutting at the newline). Contracts between components are locales, interpreted on the model's
  own definitions: \<open>slice_sorter\<close>, \<open>invariant_system\<close>, \<open>codec\<close>, \<open>geo_lookuper\<close>, \<open>user_lookup\<close>.

  \<^bold>\<open>Bounds and fuel.\<close> The query parser recurses with \<open>query_fuel\<close>, one more than the number of tokens;
  \<open>parse_query_terminates\<close> shows that it is always enough. Every other loop is a structural recursion or a
  function with a termination proof; the retry and rename loops have the attempt counts of the code.

  \<^bold>\<open>Not modelled.\<close> Sockets and listeners, logging and metrics, ClickHouse itself and the SQL of its
  schema (also what it computes for the detectors and for the aggregates of the map: those are arguments), the
  parsers of vendor log formats, TLS, and the front end. \<^verbatim>\<open>strings.EqualFold\<close> and \<^verbatim>\<open>strings.ToLower\<close> cover ASCII and
  Cyrillic letters only. Nil receivers are not modelled.
\<close>

end
